(* ===== verification/Prelude.thy ===== *)
theory Prelude
  imports Main "HOL-Library.Sublist" "HOL-Library.Char_ord" "HOL-Library.List_Lexorder"
    "HOL-Library.AList"
begin

text \<open>
  Shared ground of the development: the part of Go's standard library that several
  components of the framework use (package \<^verbatim>\<open>strings\<close> on byte strings, maps with a
  length, the stable slice sort), the collections of simplification rules, and the
  generic lemmas on lists and results the component theories rely on.

  A Go string is a sequence of bytes, so it is modelled by Isabelle's \<^typ>\<open>string\<close>
  (a list of 8-bit characters); \<open>length\<close> counts bytes as Go's \<^verbatim>\<open>len\<close> does. A Go map is
  an association list with distinct keys, so that \<^verbatim>\<open>len(m)\<close> is computable. A Go call
  that can fail returns a sum, \<open>Inl\<close> holding the error (or the panic) and \<open>Inr\<close> the
  value.
\<close>

named_theorems go_strings \<open>equations of the package strings\<close>
named_theorems go_maps \<open>equations of the map operations\<close>

section \<open>Results\<close>

type_synonym ('e, 'a) result = "'e + 'a"

primrec and_then :: "('e, 'a) result \<Rightarrow> ('a \<Rightarrow> ('e, 'b) result) \<Rightarrow> ('e, 'b) result" where
  "and_then (Inl e) f = Inl e"
| "and_then (Inr x) f = f x"

section \<open>Package strings\<close>

definition ContainsAny :: "string \<Rightarrow> string \<Rightarrow> bool" where
  "ContainsAny s chars = list_ex (\<lambda>c. c \<in> set chars) s"

definition ContainsRune :: "string \<Rightarrow> char \<Rightarrow> bool" where
  "ContainsRune s c = (c \<in> set s)"

definition HasPrefix :: "string \<Rightarrow> string \<Rightarrow> bool" where
  "HasPrefix s p = prefix p s"

definition HasSuffix :: "string \<Rightarrow> string \<Rightarrow> bool" where
  "HasSuffix s p = suffix p s"

fun Contains :: "string \<Rightarrow> string \<Rightarrow> bool" where
  "Contains [] sub = (sub = [])"
| "Contains (c # s) sub = (prefix sub (c # s) \<or> Contains s sub)"

text \<open>
  The UTF-8 encodings of the runes for which \<^verbatim>\<open>unicode.IsSpace\<close> holds. A rune at the
  start (or the end) of a string is white space iff one of these is a prefix (a
  suffix) of the string.
\<close>

definition space_runes :: "string list" where
  "space_runes =
     [[CHR 0x20], [CHR 0x09], [CHR 0x0A], [CHR 0x0B], [CHR 0x0C], [CHR 0x0D],
      [CHR 0xC2, CHR 0x85], [CHR 0xC2, CHR 0xA0],
      [CHR 0xE1, CHR 0x9A, CHR 0x80],
      [CHR 0xE2, CHR 0x80, CHR 0x80], [CHR 0xE2, CHR 0x80, CHR 0x81],
      [CHR 0xE2, CHR 0x80, CHR 0x82], [CHR 0xE2, CHR 0x80, CHR 0x83],
      [CHR 0xE2, CHR 0x80, CHR 0x84], [CHR 0xE2, CHR 0x80, CHR 0x85],
      [CHR 0xE2, CHR 0x80, CHR 0x86], [CHR 0xE2, CHR 0x80, CHR 0x87],
      [CHR 0xE2, CHR 0x80, CHR 0x88], [CHR 0xE2, CHR 0x80, CHR 0x89],
      [CHR 0xE2, CHR 0x80, CHR 0x8A], [CHR 0xE2, CHR 0x80, CHR 0xA8],
      [CHR 0xE2, CHR 0x80, CHR 0xA9], [CHR 0xE2, CHR 0x80, CHR 0xAF],
      [CHR 0xE2, CHR 0x81, CHR 0x9F], [CHR 0xE3, CHR 0x80, CHR 0x80]]"

text \<open>Dropping every leading element of a set of non-empty words.\<close>

function strip :: "'a list list \<Rightarrow> 'a list \<Rightarrow> 'a list" where
  "strip ws s =
     (case find (\<lambda>w. w \<noteq> [] \<and> prefix w s) ws of
        None \<Rightarrow> s
      | Some w \<Rightarrow> strip ws (drop (length w) s))"
  by pat_completeness auto
termination
  by (relation "measure (\<lambda>(ws, s). length s)")
    (auto simp: find_Some_iff prefix_def)

declare strip.simps [simp del]

definition TrimLeft :: "string \<Rightarrow> string" where
  "TrimLeft s = strip space_runes s"

definition TrimRight :: "string \<Rightarrow> string" where
  "TrimRight s = rev (strip (map rev space_runes) (rev s))"

definition TrimSpace :: "string \<Rightarrow> string" where
  "TrimSpace s = TrimRight (TrimLeft s)"

definition is_ascii :: "string \<Rightarrow> bool" where
  "is_ascii s = list_all (\<lambda>c. of_char c < (128 :: nat)) s"

definition in_range :: "char \<Rightarrow> char \<Rightarrow> char \<Rightarrow> bool" where
  "in_range lo hi c = (lo \<le> c \<and> c \<le> hi)"

definition lower_char :: "char \<Rightarrow> char" where
  "lower_char c = (if in_range CHR ''A'' CHR ''Z'' c then char_of (of_char c + (32 :: nat)) else c)"

definition upper_char :: "char \<Rightarrow> char" where
  "upper_char c = (if in_range CHR ''a'' CHR ''z'' c then char_of (of_char c - (32 :: nat)) else c)"

text \<open>
  \<^verbatim>\<open>strings.ToLower\<close> and \<^verbatim>\<open>strings.ToUpper\<close> map bytes on an ASCII string; on any other
  string they use the Unicode tables, which stay a parameter.
\<close>

definition ToLower :: "(string \<Rightarrow> string) \<Rightarrow> string \<Rightarrow> string" where
  "ToLower uni s = (if is_ascii s then map lower_char s else uni s)"

definition ToUpper :: "(string \<Rightarrow> string) \<Rightarrow> string \<Rightarrow> string" where
  "ToUpper uni s = (if is_ascii s then map upper_char s else uni s)"

text \<open>\<^verbatim>\<open>strings.SplitN(s, ":", 2)\<close>: the text before and after the first separator.\<close>

fun split_first :: "char \<Rightarrow> string \<Rightarrow> (string \<times> string) option" where
  "split_first sep [] = None"
| "split_first sep (c # s) =
     (if c = sep then Some ([], s)
      else map_option (\<lambda>(a, b). (c # a, b)) (split_first sep s))"

text \<open>Decimal numerals, as \<^verbatim>\<open>%d\<close> prints them.\<close>

definition digit_char :: "nat \<Rightarrow> char" where
  "digit_char d = char_of (48 + d)"

fun show_nat :: "nat \<Rightarrow> string" where
  "show_nat n = (if n < 10 then [digit_char n] else show_nat (n div 10) @ [digit_char (n mod 10)])"

declare show_nat.simps [simp del]

definition show_int :: "int \<Rightarrow> string" where
  "show_int i = (if i < 0 then CHR ''-'' # show_nat (nat (- i)) else show_nat (nat i))"

section \<open>Maps\<close>

type_synonym ('k, 'v) gomap = "('k \<times> 'v) list"

definition mget :: "('k, 'v) gomap \<Rightarrow> 'k \<Rightarrow> 'v option" where
  "mget m k = map_of m k"

definition mput :: "'k \<Rightarrow> 'v \<Rightarrow> ('k, 'v) gomap \<Rightarrow> ('k, 'v) gomap" where
  "mput k v m = AList.update k v m"

definition mdel :: "'k \<Rightarrow> ('k, 'v) gomap \<Rightarrow> ('k, 'v) gomap" where
  "mdel k m = AList.delete k m"

definition mkeys :: "('k, 'v) gomap \<Rightarrow> 'k list" where
  "mkeys m = map fst m"

definition map_ok :: "('k, 'v) gomap \<Rightarrow> bool" where
  "map_ok m = distinct (map fst m)"

section \<open>Sorting slices\<close>

text \<open>
  \<^verbatim>\<open>sort.SliceStable\<close> with a comparison \<open>lt\<close>: the result is determined by the order
  and stability, so an insertion sort that keeps equal elements in place computes it.
\<close>

fun insert_stable :: "('a \<Rightarrow> 'a \<Rightarrow> bool) \<Rightarrow> 'a \<Rightarrow> 'a list \<Rightarrow> 'a list" where
  "insert_stable lt x [] = [x]"
| "insert_stable lt x (y # ys) =
     (if lt y x then y # insert_stable lt x ys else x # y # ys)"

definition SliceStable :: "('a \<Rightarrow> 'a \<Rightarrow> bool) \<Rightarrow> 'a list \<Rightarrow> 'a list" where
  "SliceStable lt xs = foldr (insert_stable lt) xs []"

section \<open>Lemmas\<close>

lemma and_then_Inr_iff: "and_then r f = Inr y \<longleftrightarrow> (\<exists>x. r = Inr x \<and> f x = Inr y)"
  by (cases r) auto

lemma and_then_Inl_iff:
  "and_then r f = Inl e \<longleftrightarrow> r = Inl e \<or> (\<exists>x. r = Inr x \<and> f x = Inl e)"
  by (cases r) auto

subsection \<open>Strings\<close>

lemma ContainsAny_iff [go_strings]: "ContainsAny s chars \<longleftrightarrow> set s \<inter> set chars \<noteq> {}"
  by (auto simp: ContainsAny_def list_ex_iff)

lemma ContainsRune_iff [go_strings]: "ContainsRune s c \<longleftrightarrow> c \<in> set s"
  by (simp add: ContainsRune_def)

lemma HasPrefix_iff [go_strings]: "HasPrefix s p \<longleftrightarrow> (\<exists>t. s = p @ t)"
  by (auto simp: HasPrefix_def prefix_def)

lemma strip_suffix: "suffix (strip ws s) s"
proof (induction ws s rule: strip.induct)
  case (1 ws s)
  show ?case
  proof (cases "find (\<lambda>w. w \<noteq> [] \<and> prefix w s) ws")
    case None
    then show ?thesis by (simp add: strip.simps [of ws s])
  next
    case (Some w)
    with "1.IH" have "suffix (strip ws (drop (length w) s)) (drop (length w) s)" by simp
    then have "suffix (strip ws (drop (length w) s)) s"
      using suffix_drop suffix_order.trans by blast
    with Some show ?thesis by (simp add: strip.simps [of ws s])
  qed
qed

lemma strip_id_iff: "strip ws s = s \<longleftrightarrow> (\<forall>w \<in> set ws. w \<noteq> [] \<longrightarrow> \<not> prefix w s)"
proof (cases "find (\<lambda>w. w \<noteq> [] \<and> prefix w s) ws")
  case None
  then have "strip ws s = s" by (simp add: strip.simps [of ws s])
  with None show ?thesis by (auto simp: find_None_iff)
next
  case (Some w)
  then have w: "w \<in> set ws" "w \<noteq> []" "prefix w s"
    by (auto simp: find_Some_iff)
  have "length (strip ws (drop (length w) s)) \<le> length (drop (length w) s)"
    using strip_suffix suffix_length_le by blast
  also have "\<dots> < length s"
    using w(2,3) by (auto simp: prefix_def)
  finally have "strip ws s \<noteq> s"
    using Some by (auto simp: strip.simps [of ws s])
  with w show ?thesis by auto
qed

lemma strip_idem: "strip ws (strip ws s) = strip ws s"
proof (induction ws s rule: strip.induct)
  case (1 ws s)
  show ?case
  proof (cases "find (\<lambda>w. w \<noteq> [] \<and> prefix w s) ws")
    case None
    then show ?thesis by (simp add: strip.simps [of ws s])
  next
    case (Some w)
    with "1.IH" show ?thesis by (simp add: strip.simps [of ws s])
  qed
qed

lemma TrimRight_prefix: "prefix (TrimRight s) s"
proof -
  have "suffix (strip (map rev space_runes) (rev s)) (rev s)" by (rule strip_suffix)
  then show ?thesis by (simp add: TrimRight_def suffix_to_prefix)
qed

lemma TrimLeft_suffix: "suffix (TrimLeft s) s"
  by (simp add: TrimLeft_def strip_suffix)

lemma TrimRight_idem: "TrimRight (TrimRight s) = TrimRight s"
  by (simp add: TrimRight_def strip_idem)

lemma TrimLeft_of_prefix:
  assumes "TrimLeft s = s" and "prefix t s"
  shows "TrimLeft t = t"
proof -
  have "\<not> prefix w t" if "w \<in> set space_runes" "w \<noteq> []" for w
  proof
    assume "prefix w t"
    then have "prefix w s" using assms(2) by (rule prefix_order.trans)
    with assms(1) that show False by (auto simp: TrimLeft_def strip_id_iff)
  qed
  then show ?thesis by (auto simp: TrimLeft_def strip_id_iff)
qed

lemma TrimSpace_idem [simp]: "TrimSpace (TrimSpace s) = TrimSpace s"
proof -
  have "TrimLeft (TrimLeft s) = TrimLeft s" by (simp add: TrimLeft_def strip_idem)
  then have "TrimLeft (TrimRight (TrimLeft s)) = TrimRight (TrimLeft s)"
    using TrimRight_prefix by (rule TrimLeft_of_prefix)
  then show ?thesis by (simp add: TrimSpace_def TrimRight_idem)
qed

lemma set_TrimSpace: "set (TrimSpace s) \<subseteq> set s"
  unfolding TrimSpace_def
  using set_mono_prefix [OF TrimRight_prefix [of "TrimLeft s"]]
    set_mono_suffix [OF TrimLeft_suffix [of s]] by blast

lemma TrimSpace_Nil [simp]: "TrimSpace [] = []"
  using set_TrimSpace [of "[]"] by simp

text \<open>
  A non-empty string whose first and last byte cannot belong to the encoding of a
  white-space rune is its own trimming: the usual way to discharge a trimming check.
\<close>

definition plain_char :: "char \<Rightarrow> bool" where
  "plain_char c = list_all (\<lambda>w. c \<notin> set w) space_runes"

lemma TrimSpace_plain:
  assumes "s = [] \<or> plain_char (hd s) \<and> plain_char (last s)"
  shows "TrimSpace s = s"
proof (cases "s = []")
  case True
  then show ?thesis by simp
next
  case False
  with assms have p: "plain_char (hd s)" "plain_char (last s)" by auto
  have "\<not> prefix w s" if "w \<in> set space_runes" "w \<noteq> []" for w
  proof
    assume "prefix w s"
    with that(2) have "hd s \<in> set w" by (cases w) (auto simp: prefix_def)
    with p(1) that(1) show False by (auto simp: plain_char_def list_all_iff)
  qed
  then have l: "TrimLeft s = s" by (auto simp: TrimLeft_def strip_id_iff)
  have "\<not> prefix (rev w) (rev s)" if "w \<in> set space_runes" "w \<noteq> []" for w
  proof
    assume "prefix (rev w) (rev s)"
    then have "suffix w s" by (simp add: suffix_to_prefix)
    with that(2) have "last s \<in> set w" by (auto simp: suffix_def)
    with p(2) that(1) show False by (auto simp: plain_char_def list_all_iff)
  qed
  then have "strip (map rev space_runes) (rev s) = rev s" by (auto simp: strip_id_iff)
  with l show ?thesis by (simp add: TrimSpace_def TrimRight_def)
qed

lemma split_first_Some_iff:
  "split_first sep s = Some (a, b) \<longleftrightarrow> s = a @ sep # b \<and> sep \<notin> set a"
proof (induction s arbitrary: a)
  case Nil
  then show ?case by simp
next
  case (Cons c s)
  then show ?case by (cases a) auto
qed

lemma split_first_None_iff: "split_first sep s = None \<longleftrightarrow> sep \<notin> set s"
  by (induction s) auto

subsection \<open>Decimal numerals\<close>

lemma digit_char_inj: "d < 10 \<Longrightarrow> e < 10 \<Longrightarrow> digit_char d = digit_char e \<Longrightarrow> d = e"
  by (auto simp: digit_char_def char_of_eq_iff take_bit_eq_mod)

lemma show_nat_nonempty [simp]: "show_nat n \<noteq> []"
  by (subst show_nat.simps) simp

lemma show_nat_inj: "show_nat m = show_nat n \<Longrightarrow> m = n"
proof (induction m arbitrary: n rule: show_nat.induct)
  case (1 m)
  have single: "length (show_nat k) = 1 \<longleftrightarrow> k < 10" for k
    by (subst show_nat.simps) auto
  show ?case
  proof (cases "m < 10")
    case True
    with "1.prems" single [of m] single [of n] have "n < 10" by simp
    with True "1.prems" show ?thesis
      by (auto simp: show_nat.simps [of m] show_nat.simps [of n] intro: digit_char_inj)
  next
    case False
    with "1.prems" single [of m] single [of n] have n: "\<not> n < 10" by metis
    with False "1.prems" have eq: "show_nat (m div 10) = show_nat (n div 10)"
      and d: "digit_char (m mod 10) = digit_char (n mod 10)"
      by (auto simp: show_nat.simps [of m] show_nat.simps [of n])
    from False eq have "m div 10 = n div 10" by (rule "1.IH")
    moreover from d have "m mod 10 = n mod 10" by (auto intro: digit_char_inj)
    ultimately show ?thesis by (metis div_mult_mod_eq)
  qed
qed

subsection \<open>Maps\<close>

lemma mget_Nil [simp, go_maps]: "mget [] k = None"
  by (simp add: mget_def)

lemma mget_mput [simp, go_maps]: "mget (mput k v m) k' = (if k' = k then Some v else mget m k')"
  by (simp add: mget_def mput_def update_conv')

lemma mget_mdel [simp, go_maps]: "mget (mdel k m) k' = (if k' = k then None else mget m k')"
  by (simp add: mget_def mdel_def delete_conv')

lemma map_ok_Nil [simp]: "map_ok []"
  by (simp add: map_ok_def)

lemma map_ok_mput [simp, intro]: "map_ok m \<Longrightarrow> map_ok (mput k v m)"
  by (simp add: map_ok_def mput_def distinct_update)

lemma map_ok_mdel [simp, intro]: "map_ok m \<Longrightarrow> map_ok (mdel k m)"
  by (simp add: map_ok_def mdel_def distinct_delete)

lemma mget_Some_set: "map_ok m \<Longrightarrow> mget m k = Some v \<longleftrightarrow> (k, v) \<in> set m"
  by (simp add: map_ok_def mget_def)

lemma in_set_mput:
  assumes "map_ok m"
  shows "(k', v') \<in> set (mput k v m) \<longleftrightarrow> (if k' = k then v' = v else (k', v') \<in> set m)"
  using mget_Some_set [OF map_ok_mput [OF assms], of k v k' v'] mget_Some_set [OF assms, of k' v']
  by auto

lemma in_set_mdel:
  assumes "map_ok m"
  shows "(k', v') \<in> set (mdel k m) \<longleftrightarrow> k' \<noteq> k \<and> (k', v') \<in> set m"
  using mget_Some_set [OF map_ok_mdel [OF assms], of k k' v'] mget_Some_set [OF assms, of k' v']
  by (auto split: if_splits)

lemma mget_None_iff: "mget m k = None \<longleftrightarrow> k \<notin> set (mkeys m)"
  by (simp add: mget_def mkeys_def map_of_eq_None_iff)

lemma mput_fresh: "k \<notin> set (mkeys m) \<Longrightarrow> mput k v m = m @ [(k, v)]"
  by (induction m) (auto simp: mput_def mkeys_def)

lemma set_mkeys_mput [simp]: "set (mkeys (mput k v m)) = insert k (set (mkeys m))"
  by (induction m) (auto simp: mput_def mkeys_def)

lemma length_mput: "length (mput k v m) = (if k \<in> set (mkeys m) then length m else Suc (length m))"
  by (induction m) (auto simp: mput_def mkeys_def)

lemma length_mput_le: "length (mput k v m) \<le> Suc (length m)"
  by (simp add: length_mput)

subsection \<open>The stable sort\<close>

lemma set_insert_stable [simp]: "set (insert_stable lt x xs) = insert x (set xs)"
  by (induction xs) auto

lemma set_SliceStable [simp]: "set (SliceStable lt xs) = set xs"
  by (induction xs) (auto simp: SliceStable_def)

lemma length_insert_stable [simp]: "length (insert_stable lt x xs) = Suc (length xs)"
  by (induction xs) auto

lemma length_SliceStable [simp]: "length (SliceStable lt xs) = length xs"
  by (induction xs) (auto simp: SliceStable_def)

lemma distinct_insert_stable [simp]:
  "distinct (insert_stable lt x xs) \<longleftrightarrow> x \<notin> set xs \<and> distinct xs"
  by (induction xs) auto

lemma distinct_SliceStable [simp]: "distinct (SliceStable lt xs) \<longleftrightarrow> distinct xs"
proof (induction xs)
  case Nil
  then show ?case by (simp add: SliceStable_def)
next
  case (Cons x xs)
  have "SliceStable lt (x # xs) = insert_stable lt x (SliceStable lt xs)"
    by (simp add: SliceStable_def)
  with Cons show ?case by simp
qed

lemma map_insert_stable:
  "map f (insert_stable (\<lambda>a b. lt (f a) (f b)) x xs) = insert_stable lt (f x) (map f xs)"
  by (induction xs) auto

lemma map_SliceStable:
  "map f (SliceStable (\<lambda>a b. lt (f a) (f b)) xs) = SliceStable lt (map f xs)"
  by (induction xs) (auto simp: SliceStable_def map_insert_stable)

lemma sorted_insert_stable:
  "sorted xs \<Longrightarrow> sorted (insert_stable (<) (x :: 'a :: linorder) xs)"
  by (induction xs) auto

lemma sorted_SliceStable [simp]: "sorted (SliceStable (<) (xs :: 'a :: linorder list))"
  by (induction xs) (auto simp: SliceStable_def sorted_insert_stable)

end
