(* ===== verification/Pattern.thy ===== *)
theory Pattern
  imports Prelude
begin

text \<open>
  Subject patterns (\<^verbatim>\<open>common/microservice/pattern.go\<close>): validation, the iterative
  backtracking matcher with its two indices and the remembered star, and the ranking of
  patterns by specificity. The matcher is proved equivalent to a declarative matching
  relation, and the ranking is shown to be a linear order.
\<close>

section \<open>The code\<close>

type_synonym pattern = string

definition wildcardChars :: string where
  "wildcardChars = ''*?''"

definition maxPatternLen :: nat where
  "maxPatternLen = 512"

datatype pattern_error =
    PatternEmpty
  | PatternTooLong pattern
  | PatternControlChar pattern
  | PatternSurroundingSpace pattern

definition IsWildcard :: "pattern \<Rightarrow> bool" where
  "IsWildcard p = ContainsAny p wildcardChars"

text \<open>\<^verbatim>\<open>Validate\<close> returns the error, or \<open>None\<close> for Go's \<^verbatim>\<open>nil\<close>.\<close>

definition Validate :: "pattern \<Rightarrow> pattern_error option" where
  "Validate s =
     (if s = [] then Some PatternEmpty
      else if length s > maxPatternLen then Some (PatternTooLong s)
      else if ContainsAny s [CHR 0x00, CHR 0x0D, CHR 0x0A] then Some (PatternControlChar s)
      else if TrimSpace s \<noteq> s then Some (PatternSurroundingSpace s)
      else None)"

text \<open>
  The loop of \<^verbatim>\<open>Match\<close>. The pair (\<^verbatim>\<open>starPi\<close>, \<^verbatim>\<open>starSi\<close>) is always assigned as a whole, so
  its initial value \<open>-1, -1\<close> is \<^term>\<open>None\<close>. The measure compares, in this order: whether
  the remembered star lies beyond the current position (never, once one is set by the
  loop itself), how far the star can still be extended, and the rest of the pattern.
\<close>

function match_loop :: "pattern \<Rightarrow> string \<Rightarrow> nat \<Rightarrow> nat \<Rightarrow> (nat \<times> nat) option \<Rightarrow> bool" where
  "match_loop pattern subject pi si star =
     (if si < length subject then
        (if pi < length pattern \<and> pattern ! pi = CHR ''?'' then
           match_loop pattern subject (pi + 1) (si + 1) star
         else if pi < length pattern \<and> pattern ! pi = CHR ''*'' then
           match_loop pattern subject (pi + 1) si (Some (pi, si))
         else if pi < length pattern \<and> pattern ! pi = subject ! si then
           match_loop pattern subject (pi + 1) (si + 1) star
         else (case star of
             Some (starPi, starSi) \<Rightarrow>
               match_loop pattern subject (starPi + 1) (starSi + 1) (Some (starPi, starSi + 1))
           | None \<Rightarrow> False))
      else pi + length (takeWhile (\<lambda>c. c = CHR ''*'') (drop pi pattern)) = length pattern)"
  by pat_completeness auto
termination
  by (relation "measures
      [\<lambda>(p, s, pi, si, star). (case star of None \<Rightarrow> 0 | Some (a, b) \<Rightarrow> if b \<le> si then 0 else 1),
       \<lambda>(p, s, pi, si, star). (case star of None \<Rightarrow> length s + 2 | Some (a, b) \<Rightarrow> length s + 1 - b),
       \<lambda>(p, s, pi, si, star). length p - pi]")
    (auto split: option.splits if_splits)

declare match_loop.simps [simp del]

definition Match :: "pattern \<Rightarrow> string \<Rightarrow> bool" where
  "Match p subject = match_loop p subject 0 0 None"

text \<open>The same loop, counting its iterations beside the answer.\<close>

function match_run :: "pattern \<Rightarrow> string \<Rightarrow> nat \<Rightarrow> nat \<Rightarrow> (nat \<times> nat) option \<Rightarrow> bool \<times> nat" where
  "match_run pattern subject pi si star =
     (if si < length subject then
        map_prod id Suc
         (if pi < length pattern \<and> pattern ! pi = CHR ''?'' then
            match_run pattern subject (pi + 1) (si + 1) star
          else if pi < length pattern \<and> pattern ! pi = CHR ''*'' then
            match_run pattern subject (pi + 1) si (Some (pi, si))
          else if pi < length pattern \<and> pattern ! pi = subject ! si then
            match_run pattern subject (pi + 1) (si + 1) star
          else (case star of
              Some (starPi, starSi) \<Rightarrow>
                match_run pattern subject (starPi + 1) (starSi + 1) (Some (starPi, starSi + 1))
            | None \<Rightarrow> (False, 0)))
      else (pi + length (takeWhile (\<lambda>c. c = CHR ''*'') (drop pi pattern)) = length pattern,
        length (takeWhile (\<lambda>c. c = CHR ''*'') (drop pi pattern))))"
  by pat_completeness auto
termination
  by (relation "measures
      [\<lambda>(p, s, pi, si, star). (case star of None \<Rightarrow> 0 | Some (a, b) \<Rightarrow> if b \<le> si then 0 else 1),
       \<lambda>(p, s, pi, si, star). (case star of None \<Rightarrow> length s + 2 | Some (a, b) \<Rightarrow> length s + 1 - b),
       \<lambda>(p, s, pi, si, star). length p - pi]")
    (auto split: option.splits if_splits)

declare match_run.simps [simp del]

datatype specificity =
  Specificity (wildcard: bool) (literals: nat) (stars: nat) (spec_text: string)

fun rank_step :: "specificity \<Rightarrow> char \<Rightarrow> specificity" where
  "rank_step (Specificity w l s t) c =
     (if c = CHR ''*'' \<or> c = CHR ''?'' then Specificity True l (s + 1) t
      else Specificity w (l + 1) s t)"

definition rank :: "pattern \<Rightarrow> specificity" where
  "rank p = foldl rank_step (Specificity False 0 0 p) p"

definition moreSpecificThan :: "specificity \<Rightarrow> specificity \<Rightarrow> bool" where
  "moreSpecificThan a b =
     (if wildcard a \<noteq> wildcard b then \<not> wildcard a
      else if literals a \<noteq> literals b then literals a > literals b
      else if stars a \<noteq> stars b then stars a < stars b
      else spec_text a < spec_text b)"

section \<open>What a pattern means\<close>

text \<open>
  The declarative reading of a pattern: \<open>?\<close> stands for one byte, \<open>*\<close> for any run of
  bytes, every other byte for itself.
\<close>

inductive matches :: "pattern \<Rightarrow> string \<Rightarrow> bool" where
  matches_Nil: "matches [] []"
| matches_any: "matches p s \<Longrightarrow> matches (CHR ''?'' # p) (c # s)"
| matches_run: "matches p s \<Longrightarrow> matches (CHR ''*'' # p) (u @ s)"
| matches_lit: "c \<noteq> CHR ''*'' \<Longrightarrow> c \<noteq> CHR ''?'' \<Longrightarrow> matches p s \<Longrightarrow> matches (c # p) (c # s)"

inductive_simps matches_Nil_simp [simp]: "matches [] s"
inductive_simps matches_Cons_simp: "matches (c # p) s"

section \<open>The matcher\<close>

lemma matches_any_iff: "matches (CHR ''?'' # p) s \<longleftrightarrow> (\<exists>c t. s = c # t \<and> matches p t)"
  by (auto simp: matches_Cons_simp)

lemma matches_run_iff: "matches (CHR ''*'' # p) s \<longleftrightarrow> (\<exists>k \<le> length s. matches p (drop k s))"
proof
  assume "matches (CHR ''*'' # p) s"
  then obtain u t where "s = u @ t" "matches p t"
    by (auto simp: matches_Cons_simp)
  then show "\<exists>k \<le> length s. matches p (drop k s)"
    by (intro exI [of _ "length u"]) simp
next
  assume "\<exists>k \<le> length s. matches p (drop k s)"
  then obtain k where "matches p (drop k s)" by blast
  then have "matches (CHR ''*'' # p) (take k s @ drop k s)" by (rule matches_run)
  then show "matches (CHR ''*'' # p) s" by simp
qed

lemma matches_lit_iff:
  "c \<noteq> CHR ''*'' \<Longrightarrow> c \<noteq> CHR ''?'' \<Longrightarrow>
     matches (c # p) s \<longleftrightarrow> (\<exists>t. s = c # t \<and> matches p t)"
  by (auto simp: matches_Cons_simp)

lemmas matches_iffs = matches_any_iff matches_run_iff matches_lit_iff

text \<open>A star absorbs more when it starts earlier.\<close>

lemma matches_run_append: "matches (CHR ''*'' # p) t \<Longrightarrow> matches (CHR ''*'' # p) (u @ t)"
proof -
  assume "matches (CHR ''*'' # p) t"
  then obtain v w where "t = v @ w" "matches p w" by (auto simp: matches_Cons_simp)
  then have "matches (CHR ''*'' # p) ((u @ v) @ w)" by (blast intro: matches_run)
  with \<open>t = v @ w\<close> show ?thesis by simp
qed

text \<open>A star-free stretch of a pattern consumes exactly as many bytes as it has.\<close>

lemma matches_star_free:
  "CHR ''*'' \<notin> set q \<Longrightarrow> matches (q @ r) t \<Longrightarrow> length q \<le> length t \<and> matches r (drop (length q) t)"
proof (induction q arbitrary: t)
  case Nil
  then show ?case by simp
next
  case (Cons c q)
  then show ?case
    by (cases "c = CHR ''?''") (fastforce simp: matches_any_iff matches_lit_iff)+
qed

lemma matches_empty_subject: "matches p [] \<longleftrightarrow> length (takeWhile (\<lambda>c. c = CHR ''*'') p) = length p"
proof (induction p)
  case Nil
  then show ?case by simp
next
  case (Cons c p)
  then show ?case
    by (cases "c = CHR ''*''"; cases "c = CHR ''?''") (simp_all add: matches_iffs)
qed

text \<open>
  The invariant of the loop: since the remembered star, the pattern between it and the
  current position has no star and has been matched byte for byte.
\<close>

definition star_ok :: "pattern \<Rightarrow> string \<Rightarrow> nat \<Rightarrow> nat \<Rightarrow> (nat \<times> nat) option \<Rightarrow> bool" where
  "star_ok p s pi si star =
     (case star of
        None \<Rightarrow> True
      | Some (a, b) \<Rightarrow> a < pi \<and> pi \<le> length p \<and> b \<le> si \<and> si - b = pi - (a + 1) \<and>
          CHR ''*'' \<notin> set (take (pi - (a + 1)) (drop (a + 1) p)))"

definition loop_goal :: "pattern \<Rightarrow> string \<Rightarrow> nat \<Rightarrow> nat \<Rightarrow> (nat \<times> nat) option \<Rightarrow> bool" where
  "loop_goal p s pi si star =
     (matches (drop pi p) (drop si s) \<or>
      (\<exists>a b k. star = Some (a, b) \<and> b < k \<and> k \<le> length s \<and> matches (drop (a + 1) p) (drop k s)))"

text \<open>What is left of an earlier match when the star-free stretch has been consumed.\<close>

lemma star_ok_skip:
  assumes "star_ok p s pi si (Some (a, b))" and "matches (drop (a + 1) p) (drop k s)"
  shows "k + (si - b) \<le> max k (length s)" and "matches (drop pi p) (drop (k + (si - b)) s)"
proof -
  let ?q = "take (pi - (a + 1)) (drop (a + 1) p)"
  from assms(1) have inv: "a < pi" "pi \<le> length p" "si - b = pi - (a + 1)" "CHR ''*'' \<notin> set ?q"
    by (auto simp: star_ok_def)
  have split: "drop (a + 1) p = ?q @ drop pi p"
    using inv(1) by (metis Suc_eq_plus1 Suc_leI append_take_drop_id drop_drop le_add_diff_inverse2)
  have len: "length ?q = si - b" using inv(1-3) by simp
  from assms(2) split have m: "matches (?q @ drop pi p) (drop k s)" by metis
  from matches_star_free [OF inv(4) m] len
  have *: "si - b \<le> length s - k" "matches (drop pi p) (drop (si - b) (drop k s))"
    by (simp_all only: length_drop)
  from *(1) show "k + (si - b) \<le> max k (length s)" by (simp add: max_def) linarith
  from *(2) show "matches (drop pi p) (drop (k + (si - b)) s)" by (simp add: add.commute)
qed

lemma drop_nth: "i < length xs \<Longrightarrow> drop i xs = xs ! i # drop (i + 1) xs"
  by (simp add: Cons_nth_drop_Suc)

lemma star_ok_advance:
  assumes "star_ok p s pi si star" and "pi < length p" and "p ! pi \<noteq> CHR ''*''"
  shows "star_ok p s (pi + 1) (si + 1) star"
proof (cases star)
  case None
  then show ?thesis by (simp add: star_ok_def)
next
  case (Some ab)
  obtain a b where ab: "ab = (a, b)" by force
  from assms(1) Some ab have inv: "a < pi" "b \<le> si" "si - b = pi - (a + 1)"
    "CHR ''*'' \<notin> set (take (pi - (a + 1)) (drop (a + 1) p))"
    by (auto simp: star_ok_def)
  have "take (pi + 1 - (a + 1)) (drop (a + 1) p) =
      take (pi - (a + 1)) (drop (a + 1) p) @ [p ! pi]"
  proof -
    have n: "pi + 1 - (a + 1) = Suc (pi - (a + 1))" using inv(1) by simp
    have "pi - (a + 1) < length (drop (a + 1) p)" using inv(1) assms(2) by simp
    then have "take (Suc (pi - (a + 1))) (drop (a + 1) p) =
        take (pi - (a + 1)) (drop (a + 1) p) @ [drop (a + 1) p ! (pi - (a + 1))]"
      by (rule take_Suc_conv_app_nth)
    moreover have "drop (a + 1) p ! (pi - (a + 1)) = p ! pi"
      using inv(1) assms(2) by simp
    ultimately show ?thesis using n by simp
  qed
  with inv assms(2,3) Some ab show ?thesis by (auto simp: star_ok_def)
qed

text \<open>The four outcomes of one iteration, each preserving what is still to be decided.\<close>

lemma loop_goal_any:
  assumes "si < length s" and "pi < length p" and "p ! pi = CHR ''?''"
  shows "loop_goal p s pi si star = loop_goal p s (pi + 1) (si + 1) star"
  using assms by (simp add: loop_goal_def drop_nth matches_any_iff)

lemma loop_goal_lit:
  assumes "si < length s" and "pi < length p" and "p ! pi = s ! si"
    and "p ! pi \<noteq> CHR ''?''" and "p ! pi \<noteq> CHR ''*''"
  shows "loop_goal p s pi si star = loop_goal p s (pi + 1) (si + 1) star"
  using assms by (simp add: loop_goal_def drop_nth matches_lit_iff)

lemma loop_goal_star:
  assumes "si < length s" and "pi < length p" and "p ! pi = CHR ''*''"
    and "star_ok p s pi si star"
  shows "loop_goal p s pi si star = loop_goal p s (pi + 1) si (Some (pi, si))"
proof -
  have here: "matches (drop pi p) (drop si s) \<longleftrightarrow>
      (\<exists>k \<ge> si. k \<le> length s \<and> matches (drop (pi + 1) p) (drop k s))"
  proof -
    have "matches (drop pi p) (drop si s) \<longleftrightarrow>
        (\<exists>j \<le> length s - si. matches (drop (pi + 1) p) (drop (si + j) s))"
      using assms(2,3) by (simp add: drop_nth matches_run_iff add.commute)
    also have "\<dots> \<longleftrightarrow> (\<exists>k \<ge> si. k \<le> length s \<and> matches (drop (pi + 1) p) (drop k s))"
      using assms(1) by (metis le_add1 le_add_diff_inverse less_or_eq_imp_le nat_add_left_cancel_le)
    finally show ?thesis .
  qed
  have old: "matches (drop pi p) (drop si s)"
    if "star = Some (a, b)" "b < k" "k \<le> length s" "matches (drop (a + 1) p) (drop k s)" for a b k
  proof -
    from assms(4) that(1) have ok: "star_ok p s pi si (Some (a, b))" by simp
    have later: "si \<le> k + (si - b)" using that(2) by simp
    have "matches (CHR ''*'' # drop (pi + 1) p) (drop (k + (si - b)) s)"
      using star_ok_skip(2) [OF ok that(4)] assms(2,3) by (simp add: drop_nth)
    then have "matches (CHR ''*'' # drop (pi + 1) p)
        (take (k + (si - b) - si) (drop si s) @ drop (k + (si - b)) s)"
      by (rule matches_run_append)
    moreover have "take (k + (si - b) - si) (drop si s) @ drop (k + (si - b)) s = drop si s"
      using later by (metis append_take_drop_id drop_drop le_add_diff_inverse2)
    ultimately show ?thesis using assms(2,3) by (simp add: drop_nth)
  qed
  have "loop_goal p s pi si star \<longleftrightarrow> matches (drop pi p) (drop si s)"
    using old by (auto simp: loop_goal_def)
  also have "\<dots> \<longleftrightarrow> loop_goal p s (pi + 1) si (Some (pi, si))"
    using here assms(1) by (auto simp: loop_goal_def le_less intro: less_imp_le)
  finally show ?thesis .
qed

lemma mismatch_fails:
  assumes "si < length s" and "\<not> (pi < length p \<and> p ! pi = CHR ''?'')"
    and "\<not> (pi < length p \<and> p ! pi = CHR ''*'')" and "\<not> (pi < length p \<and> p ! pi = s ! si)"
  shows "\<not> matches (drop pi p) (drop si s)"
proof (cases "pi < length p")
  case True
  with assms show ?thesis by (simp add: drop_nth matches_lit_iff)
next
  case False
  with assms(1) show ?thesis by simp
qed

lemma loop_goal_backtrack:
  assumes "si < length s" and "\<not> matches (drop pi p) (drop si s)"
    and "star_ok p s pi si (Some (a, b))"
  shows "loop_goal p s pi si (Some (a, b)) = loop_goal p s (a + 1) (b + 1) (Some (a, b + 1))"
proof -
  from assms(1,3) have "b < length s" by (auto simp: star_ok_def)
  then have "(\<exists>k > b. k \<le> length s \<and> matches (drop (a + 1) p) (drop k s)) \<longleftrightarrow>
      matches (drop (a + 1) p) (drop (b + 1) s) \<or>
      (\<exists>k > b + 1. k \<le> length s \<and> matches (drop (a + 1) p) (drop k s))"
    by (metis Suc_eq_plus1 Suc_leI Suc_lessD lessI less_antisym not_less_eq)
  with assms(2) show ?thesis by (simp add: loop_goal_def)
qed

lemma loop_goal_end:
  assumes "si = length s" and "star_ok p s pi si star"
  shows "loop_goal p s pi si star = matches (drop pi p) []"
proof -
  have False if "star = Some (a, b)" "b < k" "k \<le> length s" "matches (drop (a + 1) p) (drop k s)"
    for a b k
  proof -
    from assms(2) that(1) have ok: "star_ok p s pi si (Some (a, b))" by simp
    from ok have "b \<le> si" by (simp add: star_ok_def)
    with star_ok_skip(1) [OF ok that(4)] assms(1) that(2,3) show False by simp
  qed
  with assms(1) show ?thesis by (auto simp: loop_goal_def)
qed

lemma match_loop_correct:
  "star_ok p s pi si star \<Longrightarrow> si \<le> length s \<Longrightarrow> pi \<le> length p \<Longrightarrow>
     match_loop p s pi si star = loop_goal p s pi si star"
proof (induction p s pi si star rule: match_loop.induct)
  case (1 p s pi si star)
  note unfold = match_loop.simps [of p s pi si star]
  consider (fin) "\<not> si < length s"
    | (any) "si < length s" "pi < length p" "p ! pi = CHR ''?''"
    | (run) "si < length s" "pi < length p" "p ! pi = CHR ''*''"
    | (lit) "si < length s" "pi < length p" "p ! pi = s ! si"
        "p ! pi \<noteq> CHR ''?''" "p ! pi \<noteq> CHR ''*''"
    | (miss) "si < length s" "\<not> (pi < length p \<and> p ! pi = CHR ''?'')"
        "\<not> (pi < length p \<and> p ! pi = CHR ''*'')" "\<not> (pi < length p \<and> p ! pi = s ! si)"
    by blast
  then show ?case
  proof cases
    case fin
    with "1.prems"(2) have "si = length s" by simp
    then have "loop_goal p s pi si star = matches (drop pi p) []"
      using "1.prems"(1) by (rule loop_goal_end)
    with fin "1.prems"(3) show ?thesis
      unfolding unfold by (simp add: matches_empty_subject) arith
  next
    case any
    with "1.prems" have "star_ok p s (pi + 1) (si + 1) star" by (intro star_ok_advance) simp_all
    with any "1.IH"(1) show ?thesis by (simp add: unfold loop_goal_any)
  next
    case run
    then have "star_ok p s (pi + 1) si (Some (pi, si))" by (simp add: star_ok_def)
    with run "1.IH"(2) "1.prems" show ?thesis by (simp add: unfold loop_goal_star)
  next
    case lit
    with "1.prems" have "star_ok p s (pi + 1) (si + 1) star" by (intro star_ok_advance) simp_all
    with lit "1.IH"(3) show ?thesis by (simp add: unfold loop_goal_lit)
  next
    case miss
    note fails = mismatch_fails [OF miss]
    show ?thesis
    proof (cases star)
      case None
      with miss have "\<not> match_loop p s pi si star" unfolding unfold by auto
      with fails None show ?thesis by (simp add: loop_goal_def)
    next
      case (Some ab)
      obtain a b where ab: "ab = (a, b)" by force
      from "1.prems"(1) Some ab have ok: "star_ok p s pi si (Some (a, b))" by simp
      then have "star_ok p s (a + 1) (b + 1) (Some (a, b + 1))" "b + 1 \<le> length s" "a + 1 \<le> length p"
        using miss(1) by (auto simp: star_ok_def)
      with "1.IH"(4) miss Some ab
      have "match_loop p s (a + 1) (b + 1) (Some (a, b + 1)) =
          loop_goal p s (a + 1) (b + 1) (Some (a, b + 1))" by blast
      moreover from miss Some ab
      have "match_loop p s pi si star = match_loop p s (a + 1) (b + 1) (Some (a, b + 1))"
        unfolding unfold by auto
      ultimately show ?thesis using loop_goal_backtrack [OF miss(1) fails ok] Some ab by simp
    qed
  qed
qed

text \<open>The matcher decides the declarative relation.\<close>

lemma Match_iff_matches: "Match p s \<longleftrightarrow> matches p s"
proof -
  have "match_loop p s 0 0 None = loop_goal p s 0 0 None"
    by (rule match_loop_correct) (simp_all add: star_ok_def)
  then show ?thesis by (simp add: Match_def loop_goal_def)
qed

subsection \<open>The number of iterations\<close>

lemma fst_match_run: "fst (match_run p s pi si star) = match_loop p s pi si star"
proof (induction p s pi si star rule: match_run.induct)
  case (1 p s pi si star)
  then show ?case
    by (auto simp: match_run.simps [of p s pi si star] match_loop.simps [of p s pi si star]
        split: option.splits)
qed

text \<open>
  Every iteration lowers the potential: the star can be extended at most once per byte of
  the subject, and between two extensions the pattern index only grows.
\<close>

definition match_potential :: "pattern \<Rightarrow> string \<Rightarrow> nat \<Rightarrow> (nat \<times> nat) option \<Rightarrow> nat" where
  "match_potential p s pi star =
     (case star of None \<Rightarrow> length s + 1 | Some (a, b) \<Rightarrow> length s - b) * (length p + 1) + (length p - pi)"

lemma match_potential_star:
  assumes "pi < length p" and "star_ok p s pi si star"
  shows "match_potential p s (pi + 1) (Some (pi, si)) < match_potential p s pi star"
proof -
  have "length s - si \<le> (case star of None \<Rightarrow> length s + 1 | Some (a, b) \<Rightarrow> length s - b)"
    using assms(2) by (auto simp: star_ok_def split: option.splits)
  then have "(length s - si) * (length p + 1) \<le>
      (case star of None \<Rightarrow> length s + 1 | Some (a, b) \<Rightarrow> length s - b) * (length p + 1)"
    by (rule mult_le_mono1)
  with assms(1) show ?thesis by (simp add: match_potential_def)
qed

lemma match_potential_backtrack:
  assumes "si < length s" and "star_ok p s pi si (Some (a, b))"
  shows "match_potential p s (a + 1) (Some (a, b + 1)) < match_potential p s pi (Some (a, b))"
proof -
  from assms obtain d where d: "length s - b = Suc d" "length s - (b + 1) = d"
    by (cases "length s - b") (auto simp: star_ok_def)
  then show ?thesis by (simp add: match_potential_def)
qed

lemma match_run_bound:
  "star_ok p s pi si star \<Longrightarrow> si \<le> length s \<Longrightarrow> pi \<le> length p \<Longrightarrow>
     snd (match_run p s pi si star) \<le> match_potential p s pi star"
proof (induction p s pi si star rule: match_run.induct)
  case (1 p s pi si star)
  note unfold = match_run.simps [of p s pi si star]
  consider (fin) "\<not> si < length s"
    | (any) "si < length s" "pi < length p" "p ! pi = CHR ''?''"
    | (run) "si < length s" "pi < length p" "p ! pi = CHR ''*''"
    | (lit) "si < length s" "pi < length p" "p ! pi = s ! si"
        "p ! pi \<noteq> CHR ''?''" "p ! pi \<noteq> CHR ''*''"
    | (miss) "si < length s" "\<not> (pi < length p \<and> p ! pi = CHR ''?'')"
        "\<not> (pi < length p \<and> p ! pi = CHR ''*'')" "\<not> (pi < length p \<and> p ! pi = s ! si)"
    by blast
  then show ?case
  proof cases
    case fin
    have "length (takeWhile (\<lambda>c. c = CHR ''*'') (drop pi p)) \<le> length p - pi"
      using length_takeWhile_le [of "\<lambda>c. c = CHR ''*''" "drop pi p"] by simp
    with fin show ?thesis unfolding unfold by (simp add: match_potential_def)
  next
    case any
    with "1.prems" have "star_ok p s (pi + 1) (si + 1) star" by (intro star_ok_advance) simp_all
    with any "1.IH"(1) have "snd (match_run p s (pi + 1) (si + 1) star) \<le> match_potential p s (pi + 1) star"
      by simp
    with any show ?thesis unfolding unfold by (simp add: match_potential_def)
  next
    case run
    then have "star_ok p s (pi + 1) si (Some (pi, si))" by (simp add: star_ok_def)
    with run "1.IH"(2)
    have "snd (match_run p s (pi + 1) si (Some (pi, si))) \<le> match_potential p s (pi + 1) (Some (pi, si))"
      by simp
    with run match_potential_star [OF run(2) "1.prems"(1)] show ?thesis unfolding unfold by simp
  next
    case lit
    with "1.prems" have "star_ok p s (pi + 1) (si + 1) star" by (intro star_ok_advance) simp_all
    with lit "1.IH"(3) have "snd (match_run p s (pi + 1) (si + 1) star) \<le> match_potential p s (pi + 1) star"
      by simp
    with lit show ?thesis unfolding unfold by (simp add: match_potential_def)
  next
    case miss
    show ?thesis
    proof (cases star)
      case None
      with miss have "snd (match_run p s pi si star) = 1" unfolding unfold by auto
      with None show ?thesis by (simp add: match_potential_def)
    next
      case (Some ab)
      obtain a b where ab: "ab = (a, b)" by force
      from "1.prems"(1) Some ab have ok: "star_ok p s pi si (Some (a, b))" by simp
      then have "star_ok p s (a + 1) (b + 1) (Some (a, b + 1))" "b + 1 \<le> length s" "a + 1 \<le> length p"
        using miss(1) by (auto simp: star_ok_def)
      with "1.IH"(4) miss Some ab
      have "snd (match_run p s (a + 1) (b + 1) (Some (a, b + 1))) \<le>
          match_potential p s (a + 1) (Some (a, b + 1))" by blast
      moreover from miss Some ab
      have "snd (match_run p s pi si star) = Suc (snd (match_run p s (a + 1) (b + 1) (Some (a, b + 1))))"
        unfolding unfold by auto
      ultimately show ?thesis using match_potential_backtrack [OF miss(1) ok] Some ab by simp
    qed
  qed
qed

subsection \<open>Literal patterns\<close>

text \<open>A pattern without wildcards matches itself and nothing else.\<close>

lemma IsWildcard_iff: "IsWildcard p \<longleftrightarrow> CHR ''*'' \<in> set p \<or> CHR ''?'' \<in> set p"
  by (auto simp: IsWildcard_def wildcardChars_def go_strings)

lemma matches_literal: "\<not> IsWildcard p \<Longrightarrow> matches p s \<longleftrightarrow> s = p"
proof (induction p arbitrary: s)
  case Nil
  then show ?case by simp
next
  case (Cons c p)
  then have "c \<noteq> CHR ''*''" "c \<noteq> CHR ''?''" "\<not> IsWildcard p"
    by (auto simp: IsWildcard_iff)
  with Cons.IH show ?case by (auto simp: matches_lit_iff)
qed

section \<open>The ranking\<close>

lemma foldl_rank_step:
  "foldl rank_step (Specificity w l n t) s =
     Specificity (w \<or> IsWildcard s)
       (l + length (filter (\<lambda>c. c \<noteq> CHR ''*'' \<and> c \<noteq> CHR ''?'') s))
       (n + length (filter (\<lambda>c. c = CHR ''*'' \<or> c = CHR ''?'') s)) t"
  by (induction s arbitrary: w l n) (auto simp: IsWildcard_iff)

lemma rank_sel [simp]:
  "wildcard (rank p) = IsWildcard p"
  "spec_text (rank p) = p"
  "literals (rank p) = length (filter (\<lambda>c. c \<noteq> CHR ''*'' \<and> c \<noteq> CHR ''?'') p)"
  "stars (rank p) = length (filter (\<lambda>c. c = CHR ''*'' \<or> c = CHR ''?'') p)"
  by (simp_all add: rank_def foldl_rank_step)

lemma rank_inj [simp]: "rank p = rank q \<longleftrightarrow> p = q"
  using rank_sel(2) by metis

text \<open>
  Read as "comes before", the comparison of the source is a linear order, which makes
  the library's facts on sorted lists available for the router.
\<close>

instantiation specificity :: linorder
begin

definition less_specificity :: "specificity \<Rightarrow> specificity \<Rightarrow> bool" where
  "less_specificity a b = moreSpecificThan a b"

definition less_eq_specificity :: "specificity \<Rightarrow> specificity \<Rightarrow> bool" where
  "less_eq_specificity a b = (a = b \<or> moreSpecificThan a b)"

instance
proof
  fix x y z :: specificity
  show "x < y \<longleftrightarrow> x \<le> y \<and> \<not> y \<le> x"
    by (auto simp: less_specificity_def less_eq_specificity_def moreSpecificThan_def split: if_splits)
  show "x \<le> x" by (simp add: less_eq_specificity_def)
  show "x \<le> y \<Longrightarrow> y \<le> z \<Longrightarrow> x \<le> z"
    by (auto simp: less_eq_specificity_def moreSpecificThan_def split: if_splits)
  show "x \<le> y \<Longrightarrow> y \<le> x \<Longrightarrow> x = y"
    by (auto simp: less_eq_specificity_def moreSpecificThan_def split: if_splits)
  show "x \<le> y \<or> y \<le> x"
    by (cases x; cases y) (auto simp: less_eq_specificity_def moreSpecificThan_def)
qed

end

section \<open>Properties\<close>

text \<open>
  C35. The iterative backtracking matcher answers every pattern and subject, and its
  answer is the declarative meaning of the pattern: \<open>?\<close> one byte, \<open>*\<close> any run of bytes,
  any other byte itself.
\<close>

theorem match_correct: "Match p s \<longleftrightarrow> matches p s"
  by (rule Match_iff_matches)

text \<open>
  The matcher runs in time linear in the product of the two lengths: the number of
  loop iterations, counted by an instrumented copy that gives the same answer, is
  bounded for every pattern and subject, so no subject can make it backtrack
  exponentially.
\<close>

theorem match_bounded:
  "fst (match_run p s 0 0 None) = Match p s \<and>
   snd (match_run p s 0 0 None) \<le> (length s + 1) * (length p + 1) + length p"
  using match_run_bound [of p s 0 0 None]
  by (simp add: fst_match_run Match_def star_ok_def match_potential_def)

end
