(* ===== verification/Router.thy ===== *)
theory Router
  imports Pattern
begin

text \<open>
  The subject router (\<^verbatim>\<open>common/microservice/router.go\<close>). Routes are heap objects the
  server shares with its dispatcher, so the router holds addresses and every operation
  takes the heap. The lookup of a router (map of literal subjects, sorted wildcard slice,
  bounded memo table) refines one sentence: the most specific registered pattern that
  matches the subject wins.
\<close>

section \<open>The code\<close>

record route =
  r_pattern :: pattern
  r_transport :: string
  r_controller :: string
  r_field :: string
  r_guards :: "string list"
  r_path :: string
  r_url :: "string option"
  r_rank :: specificity

type_synonym route_ptr = nat
type_synonym route_heap = "route_ptr \<Rightarrow> route"

definition route_String :: "route \<Rightarrow> string" where
  "route_String r =
     (if r_controller r = [] then r_transport r @ '':'' @ r_pattern r
      else r_transport r @ '':'' @ r_pattern r @
        [CHR 0x20, CHR 0xE2, CHR 0x86, CHR 0x92, CHR 0x20] @ r_controller r @ ''.'' @ r_field r)"

record router =
  exact :: "(string, route_ptr) gomap"
  wild :: "route_ptr list"
  cache :: "(string, route_ptr option) gomap"

definition maxRouteCacheEntries :: nat where
  "maxRouteCacheEntries = 4096"

definition NewRouter :: router where
  "NewRouter = \<lparr>exact = [], wild = [], cache = []\<rparr>"

datatype add_error =
    NilRoute
  | InvalidPattern string pattern_error
  | DuplicatePattern pattern string string

definition find_route :: "route_heap \<Rightarrow> router \<Rightarrow> pattern \<Rightarrow> route_ptr option" where
  "find_route h r pattern =
     (case mget (exact r) pattern of
        Some route \<Rightarrow> Some route
      | None \<Rightarrow> find (\<lambda>route. r_pattern (h route) = pattern) (wild r))"

definition invalidateCache :: "router \<Rightarrow> router" where
  "invalidateCache r = r\<lparr>cache := []\<rparr>"

text \<open>
  \<^verbatim>\<open>Add\<close>: the heap and the router after the call, and the error if there is one. The rank
  is stored into the route before the duplicate check, as in the source.
\<close>

definition Add :: "route_heap \<Rightarrow> router \<Rightarrow> route_ptr option \<Rightarrow>
    (route_heap \<times> router) \<times> add_error option" where
  "Add h r ptr =
     (case ptr of
        None \<Rightarrow> ((h, r), Some NilRoute)
      | Some route \<Rightarrow>
          (case Validate (r_pattern (h route)) of
             Some e \<Rightarrow> ((h, r), Some (InvalidPattern (route_String (h route)) e))
           | None \<Rightarrow>
               let p = r_pattern (h route);
                   h' = h(route := (h route)\<lparr>r_rank := rank p\<rparr>)
               in (case find_route h' r p of
                     Some existing \<Rightarrow>
                       ((h', r), Some (DuplicatePattern p (route_String (h' existing))
                          (route_String (h' route))))
                   | None \<Rightarrow>
                       let r' = (if IsWildcard p
                           then r\<lparr>wild := SliceStable
                             (\<lambda>i j. moreSpecificThan (r_rank (h' i)) (r_rank (h' j))) (wild r @ [route])\<rparr>
                           else r\<lparr>exact := mput p route (exact r)\<rparr>)
                       in ((h', invalidateCache r'), None))))"

definition Resolve :: "route_heap \<Rightarrow> router \<Rightarrow> string \<Rightarrow> router \<times> route_ptr option \<times> bool" where
  "Resolve h r subject =
     (case mget (exact r) subject of
        Some route \<Rightarrow> (r, Some route, True)
      | None \<Rightarrow>
          if wild r = [] then (r, None, False)
          else (case mget (cache r) subject of
             Some cached \<Rightarrow> (r, cached, cached \<noteq> None)
           | None \<Rightarrow>
               let hit = find (\<lambda>route. Match (r_pattern (h route)) subject) (wild r);
                   c = (if length (cache r) \<ge> maxRouteCacheEntries then [] else cache r)
               in (r\<lparr>cache := mput subject hit c\<rparr>, hit, hit \<noteq> None)))"

definition Patterns :: "route_heap \<Rightarrow> router \<Rightarrow> string list" where
  "Patterns h r = sort (mkeys (exact r)) @ map (\<lambda>route. r_pattern (h route)) (wild r)"

definition Routes :: "route_heap \<Rightarrow> router \<Rightarrow> route_ptr list" where
  "Routes h r = SliceStable (\<lambda>i j. r_pattern (h i) < r_pattern (h j)) (map snd (exact r)) @ wild r"

definition Len :: "router \<Rightarrow> nat" where
  "Len r = length (exact r) + length (wild r)"

section \<open>The specification\<close>

definition registered :: "router \<Rightarrow> route_ptr set" where
  "registered r = snd ` set (exact r) \<union> set (wild r)"

definition is_best :: "route_heap \<Rightarrow> route_ptr set \<Rightarrow> string \<Rightarrow> route_ptr \<Rightarrow> bool" where
  "is_best h S subject a \<longleftrightarrow>
     a \<in> S \<and> matches (r_pattern (h a)) subject \<and>
     (\<forall>b \<in> S. matches (r_pattern (h b)) subject \<longrightarrow> rank (r_pattern (h a)) \<le> rank (r_pattern (h b)))"

text \<open>
  The contract between a slice kept in key order and a scan that stops at the first hit:
  the first hit has the least key. The router relies on it, and so does the duplicate
  filter of the Redis transport.
\<close>

locale keyed_scan =
  fixes key :: "'a \<Rightarrow> 'k :: linorder"
    and sat :: "'a \<Rightarrow> 's \<Rightarrow> bool"
begin

lemma first_hit_least:
  assumes "sorted (map key xs)" and "find (\<lambda>x. sat x s) xs = Some a"
  shows "a \<in> set xs \<and> sat a s \<and> (\<forall>b \<in> set xs. sat b s \<longrightarrow> key a \<le> key b)"
proof -
  from assms(2) obtain i where i: "i < length xs" "sat (xs ! i) s" "a = xs ! i"
      "\<And>j. j < i \<Longrightarrow> \<not> sat (xs ! j) s"
    by (auto simp: find_Some_iff)
  have "key a \<le> key b" if b: "b \<in> set xs" "sat b s" for b
  proof -
    from b(1) obtain j where j: "j < length xs" "b = xs ! j" by (auto simp: in_set_conv_nth)
    with b(2) i(4) have "i \<le> j" by (meson not_less)
    with j assms(1) i(3) show ?thesis by (auto simp: sorted_iff_nth_mono)
  qed
  with i show ?thesis by auto
qed

lemma no_hit: "find (\<lambda>x. sat x s) xs = None \<longleftrightarrow> (\<forall>x \<in> set xs. \<not> sat x s)"
  by (auto simp: find_None_iff)

end

interpretation pattern_scan: keyed_scan rank Match .

interpretation route_scan: keyed_scan "\<lambda>a. rank (r_pattern (h a))" "\<lambda>a. Match (r_pattern (h a))"
  for h :: route_heap .

definition scan_wild :: "route_heap \<Rightarrow> router \<Rightarrow> string \<Rightarrow> route_ptr option" where
  "scan_wild h r subject = find (\<lambda>route. Match (r_pattern (h route)) subject) (wild r)"

definition exact_ok :: "route_heap \<Rightarrow> (string, route_ptr) gomap \<Rightarrow> bool" where
  "exact_ok h m \<longleftrightarrow>
     map_ok m \<and> (\<forall>(k, a) \<in> set m. r_pattern (h a) = k \<and> \<not> IsWildcard k \<and> Validate k = None)"

definition wild_ok :: "route_heap \<Rightarrow> route_ptr list \<Rightarrow> bool" where
  "wild_ok h ws \<longleftrightarrow>
     (\<forall>a \<in> set ws. IsWildcard (r_pattern (h a)) \<and> Validate (r_pattern (h a)) = None \<and>
        r_rank (h a) = rank (r_pattern (h a))) \<and>
     distinct (map (\<lambda>a. r_pattern (h a)) ws) \<and> sorted (map (\<lambda>a. rank (r_pattern (h a))) ws)"

definition cache_ok :: "route_heap \<Rightarrow> router \<Rightarrow> bool" where
  "cache_ok h r \<longleftrightarrow>
     map_ok (cache r) \<and> length (cache r) \<le> maxRouteCacheEntries \<and>
     (\<forall>(s, m) \<in> set (cache r). m = scan_wild h r s)"

definition router_inv :: "route_heap \<Rightarrow> router \<Rightarrow> bool" where
  "router_inv h r \<longleftrightarrow> exact_ok h (exact r) \<and> wild_ok h (wild r) \<and> cache_ok h r"

text \<open>
  The reachable routers: the router's own operations, and changes of the heap by the rest
  of the server (allocation of routes, mounting) that leave the pattern and the rank of
  the registered routes alone.
\<close>

inductive router_reach :: "route_heap \<Rightarrow> router \<Rightarrow> bool" where
  new: "router_reach h NewRouter"
| add: "router_reach h r \<Longrightarrow> Add h r ptr = ((h', r'), e) \<Longrightarrow> router_reach h' r'"
| resolve: "router_reach h r \<Longrightarrow> Resolve h r s = (r', m, ok) \<Longrightarrow> router_reach h r'"
| heap: "router_reach h r \<Longrightarrow>
     (\<forall>a \<in> registered r. r_pattern (h' a) = r_pattern (h a) \<and> r_rank (h' a) = r_rank (h a)) \<Longrightarrow>
     router_reach h' r"

section \<open>Lookups in a well-formed router\<close>

lemma exact_ok_get:
  assumes "exact_ok h m" and "mget m k = Some a"
  shows "r_pattern (h a) = k" "\<not> IsWildcard k" "Validate k = None" "a \<in> snd ` set m"
proof -
  from assms have "(k, a) \<in> set m" by (auto simp: exact_ok_def mget_Some_set)
  with assms(1) show "r_pattern (h a) = k" "\<not> IsWildcard k" "Validate k = None" "a \<in> snd ` set m"
    by (auto simp: exact_ok_def intro: rev_image_eqI)
qed

lemma exact_ok_mem:
  assumes "exact_ok h m" and "a \<in> snd ` set m"
  shows "mget m (r_pattern (h a)) = Some a" "\<not> IsWildcard (r_pattern (h a))"
proof -
  from assms(2) obtain k where k: "(k, a) \<in> set m" by auto
  with assms(1) have "r_pattern (h a) = k" "\<not> IsWildcard k" "map_ok m"
    by (auto simp: exact_ok_def)
  with k show "mget m (r_pattern (h a)) = Some a" "\<not> IsWildcard (r_pattern (h a))"
    by (simp_all add: mget_Some_set)
qed

lemma cache_ok_get: "cache_ok h r \<Longrightarrow> mget (cache r) s = Some m \<Longrightarrow> m = scan_wild h r s"
  by (auto simp: cache_ok_def mget_Some_set)

text \<open>What \<^verbatim>\<open>Resolve\<close> answers does not depend on the memo table.\<close>

lemma Resolve_value:
  assumes "cache_ok h r"
  shows "snd (Resolve h r s) =
     (case mget (exact r) s of
        Some a \<Rightarrow> (Some a, True)
      | None \<Rightarrow> (scan_wild h r s, scan_wild h r s \<noteq> None))"
proof (cases "mget (exact r) s")
  case (Some a)
  then show ?thesis by (simp add: Resolve_def)
next
  case None
  have "scan_wild h r s = None" if "wild r = []" using that by (simp add: scan_wild_def)
  moreover have "cached = scan_wild h r s" if "mget (cache r) s = Some cached" for cached
    using assms that by (rule cache_ok_get)
  ultimately show ?thesis using None
    by (cases "mget (cache r) s") (auto simp: Resolve_def Let_def simp flip: scan_wild_def)
qed

lemma scan_wild_best:
  assumes "wild_ok h (wild r)" and "scan_wild h r s = Some a"
  shows "is_best h (set (wild r)) s a"
  using assms route_scan.first_hit_least [of h "wild r" s a]
  by (simp add: wild_ok_def scan_wild_def is_best_def Match_iff_matches)

lemma scan_wild_None:
  "scan_wild h r s = None \<longleftrightarrow> (\<forall>a \<in> set (wild r). \<not> matches (r_pattern (h a)) s)"
  using route_scan.no_hit [of h s "wild r"] by (simp add: scan_wild_def Match_iff_matches)

lemma pattern_inj_registered:
  assumes "router_inv h r" and "a \<in> registered r" and "b \<in> registered r"
    and "r_pattern (h a) = r_pattern (h b)"
  shows "a = b"
proof -
  from assms(1) have ok: "exact_ok h (exact r)" "wild_ok h (wild r)"
    by (auto simp: router_inv_def)
  have W: "x \<in> snd ` set (exact r) \<longleftrightarrow> \<not> IsWildcard (r_pattern (h x))" if "x \<in> registered r" for x
    using that ok(2) exact_ok_mem(2) [OF ok(1)] by (auto simp: registered_def wild_ok_def)
  show ?thesis
  proof (cases "IsWildcard (r_pattern (h a))")
    case True
    with assms(2-4) W have "a \<notin> snd ` set (exact r)" "b \<notin> snd ` set (exact r)" by metis+
    with assms(2,3) have "a \<in> set (wild r)" "b \<in> set (wild r)" by (simp_all add: registered_def)
    with ok(2) assms(4) show ?thesis by (auto simp: wild_ok_def distinct_map inj_on_def)
  next
    case False
    with assms W have "a \<in> snd ` set (exact r)" "b \<in> snd ` set (exact r)" by auto
    then have "mget (exact r) (r_pattern (h a)) = Some a" "mget (exact r) (r_pattern (h b)) = Some b"
      using exact_ok_mem(1) [OF ok(1)] by blast+
    with assms(4) show ?thesis by (metis option.inject)
  qed
qed

text \<open>A literal pattern outranks every wildcard.\<close>

lemma literal_outranks: "\<not> IsWildcard p \<Longrightarrow> IsWildcard q \<Longrightarrow> rank p \<le> rank q"
  by (simp add: less_eq_specificity_def moreSpecificThan_def)

lemma best_exact:
  assumes "router_inv h r" and "mget (exact r) s = Some a"
  shows "is_best h (registered r) s a"
proof -
  from assms(1) have ok: "exact_ok h (exact r)" "wild_ok h (wild r)"
    by (auto simp: router_inv_def)
  note a = exact_ok_get [OF ok(1) assms(2)]
  have "rank s \<le> rank (r_pattern (h b))"
    if "b \<in> registered r" "matches (r_pattern (h b)) s" for b
  proof (cases "IsWildcard (r_pattern (h b))")
    case True
    show ?thesis by (rule literal_outranks [OF a(2) True])
  next
    case False
    with that(2) have "r_pattern (h b) = s" by (simp add: matches_literal)
    then show ?thesis by simp
  qed
  moreover have "matches (r_pattern (h a)) s" using a(1,2) by (simp add: matches_literal)
  ultimately show ?thesis using a(1,4) by (simp add: is_best_def registered_def)
qed

lemma best_wild:
  assumes "router_inv h r" and "mget (exact r) s = None"
  shows "is_best h (registered r) s a \<longleftrightarrow> is_best h (set (wild r)) s a"
proof -
  from assms(1) have ok: "exact_ok h (exact r)" by (simp add: router_inv_def)
  have "\<not> matches (r_pattern (h b)) s" if "b \<in> snd ` set (exact r)" for b
    using exact_ok_mem [OF ok that] assms(2) by (auto simp: matches_literal)
  then show ?thesis by (auto simp: is_best_def registered_def)
qed

lemma is_best_unique:
  assumes "router_inv h r" and "is_best h (registered r) s a" and "is_best h (registered r) s b"
  shows "a = b"
proof -
  from assms(2,3) have "rank (r_pattern (h a)) = rank (r_pattern (h b))"
    by (intro antisym) (auto simp: is_best_def)
  with assms show ?thesis
    by (intro pattern_inj_registered [OF assms(1)]) (auto simp: is_best_def)
qed

lemma Resolve_best:
  assumes "router_inv h r"
  shows "fst (snd (Resolve h r s)) = Some a \<longleftrightarrow> is_best h (registered r) s a"
proof (cases "mget (exact r) s")
  case (Some b)
  from assms have "cache_ok h r" by (simp add: router_inv_def)
  with Some have "fst (snd (Resolve h r s)) = Some b" by (simp add: Resolve_value)
  with best_exact [OF assms Some] is_best_unique [OF assms] show ?thesis by auto
next
  case None
  from assms have ok: "cache_ok h r" "wild_ok h (wild r)" by (auto simp: router_inv_def)
  from None ok(1) have eq: "fst (snd (Resolve h r s)) = scan_wild h r s"
    by (simp add: Resolve_value)
  show ?thesis
  proof (cases "scan_wild h r s")
    case None': None
    then have "\<not> is_best h (registered r) s a"
      unfolding best_wild [OF assms None] by (auto simp: scan_wild_None is_best_def)
    with eq None' show ?thesis by simp
  next
    case (Some b)
    with ok(2) have "is_best h (registered r) s b"
      unfolding best_wild [OF assms None] by (rule scan_wild_best)
    with eq Some is_best_unique [OF assms] show ?thesis by auto
  qed
qed

section \<open>The invariant\<close>

lemma router_inv_NewRouter: "router_inv h NewRouter"
  by (simp add: router_inv_def NewRouter_def exact_ok_def wild_ok_def cache_ok_def)

text \<open>\<^verbatim>\<open>Resolve\<close> touches the memo table only.\<close>

lemma Resolve_frame:
  "exact (fst (Resolve h r s)) = exact r" "wild (fst (Resolve h r s)) = wild r"
  by (simp_all add: Resolve_def Let_def split: option.splits)

lemma cache_ok_put:
  assumes "cache_ok h r" and "r' = r\<lparr>cache := mput s (scan_wild h r s)
      (if length (cache r) \<ge> maxRouteCacheEntries then [] else cache r)\<rparr>"
  shows "cache_ok h r'"
proof -
  define c where "c = (if length (cache r) \<ge> maxRouteCacheEntries then [] else cache r)"
  from assms(1) have c: "map_ok c" "length c < maxRouteCacheEntries"
    "\<And>t m. mget c t = Some m \<Longrightarrow> m = scan_wild h r t"
    by (auto simp: c_def cache_ok_def maxRouteCacheEntries_def mget_Some_set split: if_splits)
  have "m = scan_wild h r t" if "(t, m) \<in> set (mput s (scan_wild h r s) c)" for t m
    using that c(3) [of t m] by (auto simp: in_set_mput [OF c(1)] mget_Some_set [OF c(1)] split: if_splits)
  moreover have "scan_wild h r' = scan_wild h r" using assms(2) by (simp add: scan_wild_def fun_eq_iff)
  moreover have "length (mput s (scan_wild h r s) c) \<le> maxRouteCacheEntries"
    using c(2) length_mput_le [of s "scan_wild h r s" c] by linarith
  ultimately show ?thesis using c(1) assms(2) by (auto simp: cache_ok_def simp flip: c_def)
qed

lemma Resolve_inv:
  assumes "router_inv h r"
  shows "router_inv h (fst (Resolve h r s))"
proof -
  from assms have ok: "cache_ok h r" by (simp add: router_inv_def)
  have "cache_ok h (fst (Resolve h r s))"
    using ok cache_ok_put [OF ok refl, of s]
    by (auto simp: Resolve_def Let_def scan_wild_def split: option.splits)
  with assms show ?thesis by (simp add: router_inv_def Resolve_frame)
qed

lemma Resolve_registered [simp]: "registered (fst (Resolve h r s)) = registered r"
  by (simp add: registered_def Resolve_frame)

text \<open>The invariant reads the pattern and the rank of the registered routes only.\<close>

lemma router_inv_heap:
  assumes "router_inv h r"
    and "\<And>a. a \<in> registered r \<Longrightarrow> r_pattern (h' a) = r_pattern (h a) \<and> r_rank (h' a) = r_rank (h a)"
  shows "router_inv h' r"
proof -
  have E: "r_pattern (h' a) = r_pattern (h a)" if "(k, a) \<in> set (exact r)" for k a
    using assms(2) that by (force simp: registered_def)
  have W: "r_pattern (h' a) = r_pattern (h a) \<and> r_rank (h' a) = r_rank (h a)"
    if "a \<in> set (wild r)" for a using assms(2) that by (simp add: registered_def)
  have pats: "map (\<lambda>a. r_pattern (h' a)) (wild r) = map (\<lambda>a. r_pattern (h a)) (wild r)"
    "map (\<lambda>a. rank (r_pattern (h' a))) (wild r) = map (\<lambda>a. rank (r_pattern (h a))) (wild r)"
    using W by simp_all
  have "scan_wild h' r s = scan_wild h r s" for s
    unfolding scan_wild_def by (rule find_cong) (simp_all add: W)
  with assms(1) have "cache_ok h' r" by (simp add: router_inv_def cache_ok_def)
  moreover from assms(1) E have "exact_ok h' (exact r)"
    by (fastforce simp: router_inv_def exact_ok_def)
  moreover from assms(1) W have "wild_ok h' (wild r)"
    unfolding router_inv_def wild_ok_def pats by simp
  ultimately show ?thesis by (simp add: router_inv_def)
qed

lemma find_route_None:
  assumes "router_inv h r" and "find_route h r p = None"
  shows "p \<notin> set (mkeys (exact r))" "\<And>a. a \<in> registered r \<Longrightarrow> r_pattern (h a) \<noteq> p"
proof -
  from assms(1) have ok: "exact_ok h (exact r)" by (simp add: router_inv_def)
  from assms(2) have f: "mget (exact r) p = None" "find (\<lambda>a. r_pattern (h a) = p) (wild r) = None"
    by (auto simp: find_route_def split: option.splits)
  from f(1) show "p \<notin> set (mkeys (exact r))" by (simp add: mget_None_iff)
  show "r_pattern (h a) \<noteq> p" if "a \<in> registered r" for a
  proof
    assume "r_pattern (h a) = p"
    with f(2) have "a \<notin> set (wild r)" by (auto simp: find_None_iff)
    with that have "a \<in> snd ` set (exact r)" by (simp add: registered_def)
    from exact_ok_mem(1) [OF ok this] \<open>r_pattern (h a) = p\<close> f(1) show False by simp
  qed
qed

text \<open>The two ways \<^verbatim>\<open>Add\<close> stores a route.\<close>

lemma exact_ok_put:
  assumes "exact_ok h m" and "r_pattern (h a) = p" and "\<not> IsWildcard p" and "Validate p = None"
  shows "exact_ok h (mput p a m)"
proof -
  from assms(1) have m: "map_ok m" by (simp add: exact_ok_def)
  with assms show ?thesis by (auto simp: exact_ok_def in_set_mput split: if_splits)
qed

lemma moreSpecificThan_less: "moreSpecificThan = (<)"
  by (simp add: fun_eq_iff less_specificity_def)

lemma wild_ok_add:
  assumes "wild_ok h ws" and "IsWildcard (r_pattern (h a))" and "Validate (r_pattern (h a)) = None"
    and "r_rank (h a) = rank (r_pattern (h a))" and "\<forall>b \<in> set ws. r_pattern (h b) \<noteq> r_pattern (h a)"
  shows "wild_ok h (SliceStable (\<lambda>i j. moreSpecificThan (r_rank (h i)) (r_rank (h j))) (ws @ [a]))"
    (is "wild_ok h ?ws")
proof -
  have sets: "set ?ws = insert a (set ws)" by simp
  have "distinct (ws @ [a])" "inj_on (\<lambda>a. r_pattern (h a)) (insert a (set ws))"
    using assms(1,5) by (auto simp: wild_ok_def distinct_map inj_on_def)
  then have dist: "distinct (map (\<lambda>a. r_pattern (h a)) ?ws)" by (simp add: distinct_map)
  have "map (\<lambda>a. r_rank (h a)) ?ws = SliceStable moreSpecificThan (map (\<lambda>a. r_rank (h a)) (ws @ [a]))"
    by (rule map_SliceStable)
  then have "sorted (map (\<lambda>a. r_rank (h a)) ?ws)"
    using sorted_SliceStable [of "map (\<lambda>a. r_rank (h a)) (ws @ [a])"]
    by (simp add: moreSpecificThan_less)
  moreover have "\<forall>b \<in> set ?ws. r_rank (h b) = rank (r_pattern (h b))"
    using assms(1,4) unfolding sets by (auto simp: wild_ok_def)
  then have "map (\<lambda>a. r_rank (h a)) ?ws = map (\<lambda>a. rank (r_pattern (h a))) ?ws" by simp
  ultimately show ?thesis using assms(1-4) dist unfolding wild_ok_def sets by auto
qed

text \<open>The outcomes of \<^verbatim>\<open>Add\<close>.\<close>

lemma Add_cases:
  assumes "Add h r (Some a) = ((h', r'), e)"
  obtains (invalid) err where "Validate (r_pattern (h a)) = Some err" "h' = h" "r' = r"
      "e = Some (InvalidPattern (route_String (h a)) err)"
  | (dup) b where "Validate (r_pattern (h a)) = None" "h' = h(a := (h a)\<lparr>r_rank := rank (r_pattern (h a))\<rparr>)"
      "find_route h' r (r_pattern (h a)) = Some b" "r' = r"
      "e = Some (DuplicatePattern (r_pattern (h a)) (route_String (h' b)) (route_String (h' a)))"
  | (stored) "Validate (r_pattern (h a)) = None" "h' = h(a := (h a)\<lparr>r_rank := rank (r_pattern (h a))\<rparr>)"
      "find_route h' r (r_pattern (h a)) = None" "e = None"
      "r' = invalidateCache (if IsWildcard (r_pattern (h a))
         then r\<lparr>wild := SliceStable (\<lambda>i j. moreSpecificThan (r_rank (h' i)) (r_rank (h' j))) (wild r @ [a])\<rparr>
         else r\<lparr>exact := mput (r_pattern (h a)) a (exact r)\<rparr>)"
  using assms by (auto simp: Add_def Let_def split: option.splits)

lemma rank_update_frame:
  assumes "router_inv h r" and "h' = h(a := (h a)\<lparr>r_rank := rank (r_pattern (h a))\<rparr>)"
  shows "router_inv h' r"
proof (cases "a \<in> registered r \<and> IsWildcard (r_pattern (h a))")
  case True
  with assms(1) have "a \<in> set (wild r)"
    using exact_ok_mem(2) [of h "exact r" a] by (auto simp: registered_def router_inv_def)
  with assms(1) have "r_rank (h a) = rank (r_pattern (h a))"
    by (auto simp: router_inv_def wild_ok_def)
  then have "h' = h" using assms(2) by (auto simp: fun_eq_iff)
  with assms(1) show ?thesis by simp
next
  case False
  with assms(1) have "a \<notin> set (wild r)" by (auto simp: registered_def router_inv_def wild_ok_def)
  then have W: "r_pattern (h' b) = r_pattern (h b) \<and> (b \<in> set (wild r) \<longrightarrow> h' b = h b)" for b
    using assms(2) by simp
  then have "map (\<lambda>a. f (r_pattern (h' a))) (wild r) = map (\<lambda>a. f (r_pattern (h a))) (wild r)" for f
    by simp
  moreover have "scan_wild h' r = scan_wild h r" using W by (simp add: scan_wild_def fun_eq_iff)
  ultimately show ?thesis using assms(1) W unfolding router_inv_def exact_ok_def wild_ok_def cache_ok_def
    by simp
qed

lemma Add_inv:
  assumes "router_inv h r" and "Add h r ptr = ((h', r'), e)"
  shows "router_inv h' r'"
proof (cases ptr)
  case None
  with assms show ?thesis by (simp add: Add_def)
next
  case (Some a)
  with assms(2) have A: "Add h r (Some a) = ((h', r'), e)" by simp
  from A show ?thesis
  proof (cases rule: Add_cases)
    case (invalid err)
    with assms(1) show ?thesis by simp
  next
    case (dup b)
    with rank_update_frame [OF assms(1) dup(2)] show ?thesis by simp
  next
    case stored
    note inv = rank_update_frame [OF assms(1) stored(2)]
    have a: "r_pattern (h' a) = r_pattern (h a)" "r_rank (h' a) = rank (r_pattern (h a))"
      using stored(2) by simp_all
    from find_route_None [OF inv stored(3)]
    have fresh: "\<forall>b \<in> set (wild r). r_pattern (h' b) \<noteq> r_pattern (h' a)"
      by (auto simp: registered_def a)
    from inv have ok: "exact_ok h' (exact r)" "wild_ok h' (wild r)" by (auto simp: router_inv_def)
    have "exact_ok h' (mput (r_pattern (h a)) a (exact r))" if "\<not> IsWildcard (r_pattern (h a))"
      using exact_ok_put [OF ok(1) a(1) that stored(1)] .
    moreover have "wild_ok h' (SliceStable (\<lambda>i j. moreSpecificThan (r_rank (h' i)) (r_rank (h' j))) (wild r @ [a]))"
      if "IsWildcard (r_pattern (h a))"
      by (rule wild_ok_add) (use ok(2) that stored(1) a fresh in auto)
    ultimately show ?thesis using ok stored(5)
      by (auto simp: router_inv_def invalidateCache_def cache_ok_def)
  qed
qed

lemma router_reach_inv: "router_reach h r \<Longrightarrow> router_inv h r"
proof (induction rule: router_reach.induct)
  case (new h)
  show ?case by (rule router_inv_NewRouter)
next
  case (add h r ptr h' r' e)
  then show ?case by (blast intro: Add_inv)
next
  case (resolve h r s r' m ok)
  with Resolve_inv [of h r s] show ?case by simp
next
  case (heap h r h')
  then show ?case by (blast intro: router_inv_heap)
qed

text \<open>What a successful \<^verbatim>\<open>Add\<close> changes.\<close>

lemma Add_registered:
  assumes "router_inv h r" and "Add h r (Some a) = ((h', r'), None)"
  shows "registered r' = insert a (registered r)"
  using assms(2)
proof (cases rule: Add_cases)
  case stored
  have m: "map_ok (exact r)" using assms(1) by (simp add: router_inv_def exact_ok_def)
  from find_route_None(1) [OF rank_update_frame [OF assms(1) stored(2)] stored(3)]
  have "mput (r_pattern (h a)) a (exact r) = exact r @ [(r_pattern (h a), a)]"
    by (rule mput_fresh)
  with stored(5) show ?thesis
    by (auto simp: registered_def invalidateCache_def image_Un)
qed simp_all

lemma Resolve_None:
  assumes "router_inv h r"
  shows "fst (snd (Resolve h r s)) = None \<longleftrightarrow> (\<forall>a \<in> registered r. \<not> matches (r_pattern (h a)) s)"
proof
  assume none: "fst (snd (Resolve h r s)) = None"
  from assms have ok: "cache_ok h r" "exact_ok h (exact r)" by (auto simp: router_inv_def)
  from none have E: "mget (exact r) s = None"
    by (auto simp: Resolve_value [OF ok(1)] split: option.splits)
  with none have "scan_wild h r s = None" by (simp add: Resolve_value [OF ok(1)])
  moreover have "\<not> matches (r_pattern (h a)) s" if "a \<in> snd ` set (exact r)" for a
    using exact_ok_mem [OF ok(2) that] E by (auto simp: matches_literal)
  ultimately show "\<forall>a \<in> registered r. \<not> matches (r_pattern (h a)) s"
    by (auto simp: registered_def scan_wild_None)
next
  assume "\<forall>a \<in> registered r. \<not> matches (r_pattern (h a)) s"
  then have "\<And>a. fst (snd (Resolve h r s)) \<noteq> Some a"
    unfolding Resolve_best [OF assms] by (auto simp: is_best_def)
  then show "fst (snd (Resolve h r s)) = None" by (metis option.exhaust)
qed

lemma Resolve_ok: "snd (snd (Resolve h r s)) \<longleftrightarrow> fst (snd (Resolve h r s)) \<noteq> None"
  by (auto simp: Resolve_def Let_def split: option.splits)

lemma set_Patterns:
  assumes "router_inv h r"
  shows "set (Patterns h r) = (\<lambda>a. r_pattern (h a)) ` registered r" and "distinct (Patterns h r)"
proof -
  from assms have ok: "exact_ok h (exact r)" "wild_ok h (wild r)" by (auto simp: router_inv_def)
  have K: "mkeys (exact r) = map (\<lambda>(k, a). r_pattern (h a)) (exact r)"
    using ok(1) by (auto simp: mkeys_def exact_ok_def)
  then show "set (Patterns h r) = (\<lambda>a. r_pattern (h a)) ` registered r"
    by (force simp: Patterns_def registered_def)
  have "\<not> IsWildcard p" if "p \<in> set (mkeys (exact r))" for p
    using that ok(1) by (auto simp: mkeys_def exact_ok_def)
  then show "distinct (Patterns h r)"
    using ok by (auto simp: Patterns_def exact_ok_def wild_ok_def map_ok_def mkeys_def)
qed

lemma matches_any_run: "matches (stem @ ''?'') s \<Longrightarrow> matches (stem @ ''*'') s"
proof (induction stem arbitrary: s)
  case Nil
  then obtain c where "s = [c]" by (auto simp: matches_any_iff)
  moreover have "matches ''*'' ([c] @ [])" by (intro matches_run matches_Nil)
  ultimately show ?case by simp
next
  case (Cons c stem)
  then show ?case
    by (cases "c = CHR ''*''"; cases "c = CHR ''?''") (auto simp: matches_iffs)
qed

lemma star_before_question: "rank (stem @ ''*'') < rank (stem @ ''?'')"
proof -
  have "stem @ ''*'' < stem @ ''?''" by (induction stem) auto
  then show ?thesis
    by (simp add: less_specificity_def moreSpecificThan_def IsWildcard_iff)
qed

section \<open>Properties\<close>

definition demo_route :: "pattern \<Rightarrow> route" where
  "demo_route p = \<lparr>r_pattern = p, r_transport = ''redis'', r_controller = ''UserController'',
     r_field = ''Handler'', r_guards = [], r_path = [], r_url = None, r_rank = rank []\<rparr>"

text \<open>Three routes, added most general first.\<close>

definition demo_heap :: route_heap where
  "demo_heap = (\<lambda>_. demo_route ''users'')
     (0 := demo_route ''user_*'', 1 := demo_route ''user_created'', 2 := demo_route ''user_v?'')"

definition add_ptr :: "route_heap \<times> router \<Rightarrow> route_ptr \<Rightarrow> route_heap \<times> router" where
  "add_ptr hr a = fst (Add (fst hr) (snd hr) (Some a))"

definition demo :: "route_heap \<times> router" where
  "demo = foldl add_ptr (demo_heap, NewRouter) [0, 1, 2]"

lemma router_reach_add_ptr:
  "router_reach (fst hr) (snd hr) \<Longrightarrow> router_reach (fst (add_ptr hr a)) (snd (add_ptr hr a))"
  by (rule router_reach.add [of "fst hr" "snd hr" "Some a" _ _ "snd (Add (fst hr) (snd hr) (Some a))"])
    (simp_all add: add_ptr_def)

lemma demo_reach: "router_reach (fst demo) (snd demo)"
  by (simp add: demo_def router_reach_add_ptr router_reach.new)

text \<open>
  C2. In every reachable router, \<^verbatim>\<open>Resolve\<close> returns exactly the most specific registered
  route whose pattern matches the subject (literal before wildcard, then more literal
  bytes, fewer wildcards, lexicographic), and reports "not found" exactly when no
  registered pattern matches; the memo table and the order of registration never show.
\<close>

theorem resolve_best_match:
  assumes "router_reach h r"
  shows "(\<forall>a. fst (snd (Resolve h r s)) = Some a \<longleftrightarrow> is_best h (registered r) s a) \<and>
    (fst (snd (Resolve h r s)) = None \<longleftrightarrow> (\<forall>a \<in> registered r. \<not> matches (r_pattern (h a)) s)) \<and>
    (snd (snd (Resolve h r s)) \<longleftrightarrow> fst (snd (Resolve h r s)) \<noteq> None)"
  using Resolve_best [OF router_reach_inv [OF assms]] Resolve_None [OF router_reach_inv [OF assms]]
  by (auto simp: Resolve_ok)

theorem resolve_best_match_witness:
  "is_best (fst demo) (registered (snd demo)) ''user_created'' 1 \<and>
   is_best (fst demo) (registered (snd demo)) ''user_v7'' 2 \<and>
   is_best (fst demo) (registered (snd demo)) ''user_23'' 0"
proof -
  have "fst (snd (Resolve (fst demo) (snd demo) ''user_created'')) = Some 1"
    "fst (snd (Resolve (fst demo) (snd demo) ''user_v7'')) = Some 2"
    "fst (snd (Resolve (fst demo) (snd demo) ''user_23'')) = Some 0"
    by code_simp+
  with resolve_best_match [OF demo_reach] show ?thesis by blast
qed

text \<open>
  Two reachable routers that hold the same routes answer every lookup alike,
  whatever the order of registration and whatever lookups ran before.
\<close>

theorem registration_order_irrelevant:
  assumes "router_reach h r1" and "router_reach h r2" and "registered r1 = registered r2"
  shows "snd (Resolve h r1 s) = snd (Resolve h r2 s)"
proof -
  have "fst (snd (Resolve h r1 s)) = Some a \<longleftrightarrow> fst (snd (Resolve h r2 s)) = Some a" for a
    unfolding Resolve_best [OF router_reach_inv [OF assms(1)]] Resolve_best [OF router_reach_inv [OF assms(2)]]
    by (simp add: assms(3))
  then have "fst (snd (Resolve h r1 s)) = fst (snd (Resolve h r2 s))" by (metis option.exhaust)
  then show ?thesis by (simp add: prod_eq_iff Resolve_ok)
qed

theorem registration_order_irrelevant_witness:
  "snd (Resolve (fst demo) (snd demo) ''user_7'') =
   snd (Resolve (fst demo) (fst (Resolve (fst demo) (snd demo) ''user_1'')) ''user_7'')"
proof (rule registration_order_irrelevant [OF demo_reach])
  show "router_reach (fst demo) (fst (Resolve (fst demo) (snd demo) ''user_1''))"
    by (rule router_reach.resolve [OF demo_reach]) (simp add: prod_eq_iff)
  show "registered (snd demo) = registered (fst (Resolve (fst demo) (snd demo) ''user_1''))" by simp
qed

text \<open>
  Registration: \<^verbatim>\<open>Add\<close> succeeds exactly for a valid pattern that is not registered
  yet; success adds the route to the registered ones and empties the memo table, and a
  refused route leaves the router as it was.
\<close>

theorem add_outcome:
  assumes "router_reach h r" and "Add h r (Some a) = ((h', r'), e)"
  shows "(e = None \<longleftrightarrow> Validate (r_pattern (h a)) = None \<and>
      (\<forall>b \<in> registered r. r_pattern (h b) \<noteq> r_pattern (h a))) \<and>
    (e \<noteq> None \<longrightarrow> r' = r) \<and>
    (e = None \<longrightarrow> registered r' = insert a (registered r) \<and> cache r' = [])"
proof -
  note inv = router_reach_inv [OF assms(1)]
  from assms(2) show ?thesis
  proof (cases rule: Add_cases)
    case (invalid err)
    then show ?thesis by simp
  next
    case (dup b)
    note inv' = rank_update_frame [OF inv dup(2)]
    have "b \<in> registered r \<and> r_pattern (h' b) = r_pattern (h a)"
      using dup(3) exact_ok_get [of h' "exact r" "r_pattern (h a)" b] inv'
      by (auto simp: find_route_def registered_def router_inv_def find_Some_iff split: option.splits)
    moreover have "r_pattern (h' b) = r_pattern (h b)" using dup(2) by simp
    ultimately show ?thesis using dup by auto
  next
    case stored
    note inv' = rank_update_frame [OF inv stored(2)]
    have "r_pattern (h b) \<noteq> r_pattern (h a)" if "b \<in> registered r" for b
      using find_route_None(2) [OF inv' stored(3) that] stored(2) by (auto split: if_splits)
    moreover have "registered r' = insert a (registered r)"
      using assms(2) by (intro Add_registered [OF inv, of a h']) (simp add: stored(4))
    moreover have "cache r' = []" using stored(5) by (simp add: invalidateCache_def)
    ultimately show ?thesis using stored(1,4) by simp
  qed
qed

theorem add_outcome_witness:
  "snd (Add (fst demo) (snd demo) (Some 3)) = None \<and> snd (Add (fst demo) (snd demo) (Some 0)) \<noteq> None \<and>
   registered (snd (fst (Add (fst demo) (snd demo) (Some 3)))) = insert 3 (registered (snd demo)) \<and>
   snd (fst (Add (fst demo) (snd demo) (Some 0))) = snd demo"
proof -
  have eq: "Add (fst demo) (snd demo) p =
      ((fst (fst (Add (fst demo) (snd demo) p)), snd (fst (Add (fst demo) (snd demo) p))),
       snd (Add (fst demo) (snd demo) p))" for p by simp
  have "snd (Add (fst demo) (snd demo) (Some 3)) = None" "snd (Add (fst demo) (snd demo) (Some 0)) \<noteq> None"
    by code_simp+
  with add_outcome [OF demo_reach eq [of "Some 3"]] add_outcome [OF demo_reach eq [of "Some 0"]]
  show ?thesis by simp
qed

text \<open>
  Every reachable router is well formed: literal and wildcard patterns are valid,
  kept apart and never registered twice, the wildcard slice is in specificity order, and
  the memo table holds at most \<^verbatim>\<open>maxRouteCacheEntries\<close> entries, each the answer the scan
  would give.
\<close>

theorem router_invariant:
  assumes "router_reach h r"
  shows "router_inv h r \<and> length (cache r) \<le> maxRouteCacheEntries \<and>
    (\<forall>s m. mget (cache r) s = Some m \<longrightarrow> m = scan_wild h r s)"
proof -
  from assms have inv: "router_inv h r" by (rule router_reach_inv)
  then have "cache_ok h r" by (simp add: router_inv_def)
  then have "length (cache r) \<le> maxRouteCacheEntries"
    "\<And>s m. mget (cache r) s = Some m \<Longrightarrow> m = scan_wild h r s"
    by (auto simp: cache_ok_def mget_Some_set)
  with inv show ?thesis by blast
qed

theorem router_invariant_witness:
  "router_inv (fst demo) (snd demo) \<and> wild (snd demo) = [2, 0]"
proof -
  have "wild (snd demo) = [2, 0]" by code_simp
  with router_invariant [OF demo_reach] show ?thesis by simp
qed

text \<open>
  Among patterns with equally many literal bytes and wildcards the tie is broken by
  the bytes themselves, and \<open>*\<close> sorts before \<open>?\<close>: where a stem is registered with a
  trailing \<open>*\<close>, the more precise route with the same stem and a trailing \<open>?\<close> is never
  chosen for any subject.
\<close>

theorem question_mark_shadowed:
  assumes "router_reach h r" and "a \<in> registered r" and "r_pattern (h a) = stem @ ''*''"
    and "r_pattern (h b) = stem @ ''?''"
  shows "fst (snd (Resolve h r s)) \<noteq> Some b"
proof
  assume "fst (snd (Resolve h r s)) = Some b"
  then have best: "is_best h (registered r) s b"
    by (simp add: Resolve_best [OF router_reach_inv [OF assms(1)]])
  then have "matches (stem @ ''?'') s" using assms(4) by (simp add: is_best_def)
  then have "matches (stem @ ''*'') s" by (rule matches_any_run)
  with best assms have "rank (stem @ ''?'') \<le> rank (stem @ ''*'')" by (auto simp: is_best_def)
  moreover have "rank (stem @ ''*'') < rank (stem @ ''?'')" by (rule star_before_question)
  ultimately show False by simp
qed

definition shadow_heap :: route_heap where
  "shadow_heap = (\<lambda>_. demo_route ''user_?'')(0 := demo_route ''user_*'')"

theorem question_mark_shadowed_witness:
  "let hr = add_ptr (add_ptr (shadow_heap, NewRouter) 0) 1
   in registered (snd hr) = {0, 1} \<and> matches ''user_?'' ''user_7'' \<and>
     fst (snd (Resolve (fst hr) (snd hr) ''user_7'')) \<noteq> Some 1"
proof -
  define hr where "hr = add_ptr (add_ptr (shadow_heap, NewRouter) 0) 1"
  have reach: "router_reach (fst hr) (snd hr)"
    by (simp add: hr_def router_reach_add_ptr router_reach.new)
  have facts: "exact (snd hr) = []" "wild (snd hr) = [0, 1]"
    "r_pattern (fst hr 0) = ''user_'' @ ''*''" "r_pattern (fst hr 1) = ''user_'' @ ''?''"
    unfolding hr_def by code_simp+
  then have "0 \<in> registered (snd hr)" by (simp add: registered_def)
  from question_mark_shadowed [OF reach this facts(3,4), of "''user_7''"]
  have "fst (snd (Resolve (fst hr) (snd hr) ''user_7'')) \<noteq> Some 1" .
  moreover have "matches ''user_?'' ''user_7''" unfolding Match_iff_matches [symmetric] by code_simp
  ultimately show ?thesis using facts(1,2) by (simp add: hr_def registered_def)
qed

end
