(* ===== verification/Router_Conc.thy ===== *)
theory Router_Conc
  imports Router
begin

text \<open>
  Concurrent use of one router. \<^verbatim>\<open>Resolve\<close> takes and releases its two locks four times;
  each critical section is one atomic step of a thread, so that other goroutines may run
  in between. \<^verbatim>\<open>Add\<close> holds the registration lock from start to end and is one step.
  Lookups alone keep the router's invariant under every interleaving; a registration
  between the scan of a lookup and the store of its result leaves a stale memo entry.
\<close>

section \<open>The code\<close>

datatype resolve_pc =
    AtExact string
  | AtCache string
  | AtScan string
  | AtStore string "route_ptr option"
  | Finished string "route_ptr option"

text \<open>One step of a thread inside \<^verbatim>\<open>Resolve\<close>: the router and the program point after it.\<close>

inductive resolve_step :: "route_heap \<Rightarrow> router \<times> resolve_pc \<Rightarrow> router \<times> resolve_pc \<Rightarrow> bool"
  for h where
  exact_hit: "mget (exact r) s = Some a \<Longrightarrow> resolve_step h (r, AtExact s) (r, Finished s (Some a))"
| no_wild: "mget (exact r) s = None \<Longrightarrow> wild r = [] \<Longrightarrow> resolve_step h (r, AtExact s) (r, Finished s None)"
| exact_miss: "mget (exact r) s = None \<Longrightarrow> wild r \<noteq> [] \<Longrightarrow> resolve_step h (r, AtExact s) (r, AtCache s)"
| cache_hit: "mget (cache r) s = Some m \<Longrightarrow> resolve_step h (r, AtCache s) (r, Finished s m)"
| cache_miss: "mget (cache r) s = None \<Longrightarrow> resolve_step h (r, AtCache s) (r, AtScan s)"
| scan: "resolve_step h (r, AtScan s) (r, AtStore s (find (\<lambda>a. Match (r_pattern (h a)) s) (wild r)))"
| store: "resolve_step h (r, AtStore s m)
     (r\<lparr>cache := mput s m (if length (cache r) \<ge> maxRouteCacheEntries then [] else cache r)\<rparr>, Finished s m)"

inductive_cases resolve_stepE: "resolve_step h (r, pc) (r', pc')"

record router_sys =
  sys_heap :: route_heap
  sys_router :: router
  sys_threads :: "nat \<Rightarrow> resolve_pc"

text \<open>Lookups only: a thread moves, or a finished one starts the next lookup.\<close>

inductive lookup_step :: "router_sys \<Rightarrow> router_sys \<Rightarrow> bool" where
  move: "resolve_step (sys_heap S) (sys_router S, sys_threads S t) (r', pc') \<Longrightarrow>
     lookup_step S (S\<lparr>sys_router := r', sys_threads := (sys_threads S)(t := pc')\<rparr>)"
| again: "sys_threads S t = Finished s m \<Longrightarrow>
     lookup_step S (S\<lparr>sys_threads := (sys_threads S)(t := AtExact s')\<rparr>)"

text \<open>Lookups and registrations.\<close>

inductive router_sys_step :: "router_sys \<Rightarrow> router_sys \<Rightarrow> bool" where
  lookup: "lookup_step S T \<Longrightarrow> router_sys_step S T"
| register: "Add (sys_heap S) (sys_router S) ptr = ((h', r'), e) \<Longrightarrow>
     router_sys_step S (S\<lparr>sys_heap := h', sys_router := r'\<rparr>)"

section \<open>A thread alone is the sequential lookup\<close>

lemma resolve_uncached:
  assumes "mget (exact r) s = None" and "wild r \<noteq> []" and "mget (cache r) s = None"
  shows "(resolve_step h)\<^sup>*\<^sup>* (r, AtExact s) (r, AtStore s (scan_wild h r s))"
proof -
  have "resolve_step h (r, AtExact s) (r, AtCache s)" using assms(1,2) by (rule exact_miss)
  moreover have "resolve_step h (r, AtCache s) (r, AtScan s)" using assms(3) by (rule cache_miss)
  moreover have "resolve_step h (r, AtScan s) (r, AtStore s (scan_wild h r s))"
    unfolding scan_wild_def by (rule scan)
  ultimately show ?thesis
    by (auto intro: converse_rtranclp_into_rtranclp [where r = "resolve_step h"])
qed

lemma resolve_alone:
  "(resolve_step h)\<^sup>*\<^sup>* (r, AtExact s) (fst (Resolve h r s), Finished s (fst (snd (Resolve h r s))))"
proof (cases "mget (exact r) s")
  case (Some a)
  then have "resolve_step h (r, AtExact s) (r, Finished s (Some a))" by (rule exact_hit)
  with Some show ?thesis by (simp add: Resolve_def r_into_rtranclp)
next
  case None
  show ?thesis
  proof (cases "wild r = []")
    case True
    with None show ?thesis
      by (simp add: Resolve_def no_wild r_into_rtranclp)
  next
    case False
    note start = exact_miss [OF None False, of h]
    show ?thesis
    proof (cases "mget (cache r) s")
      case (Some m)
      have "resolve_step h (r, AtCache s) (r, Finished s m)" using Some by (rule cache_hit)
      then have "(resolve_step h)\<^sup>*\<^sup>* (r, AtCache s) (r, Finished s m)" by (rule r_into_rtranclp)
      from converse_rtranclp_into_rtranclp [OF start this]
      show ?thesis using None False Some by (simp add: Resolve_def)
    next
      case None': None
      from rtranclp.rtrancl_into_rtrancl [OF resolve_uncached [OF None False None'] store]
      show ?thesis using None False None' by (simp add: Resolve_def Let_def scan_wild_def)
    qed
  qed
qed

section \<open>Concurrent lookups\<close>

text \<open>
  What a thread knows at its program point, relative to a fixed set of routes: the
  subject has no literal route once the first step is behind it, and the value to be
  stored or returned is the right one.
\<close>

fun pc_ok :: "route_heap \<Rightarrow> router \<Rightarrow> resolve_pc \<Rightarrow> bool" where
  "pc_ok h r (AtExact s) = True"
| "pc_ok h r (AtCache s) = (mget (exact r) s = None)"
| "pc_ok h r (AtScan s) = (mget (exact r) s = None)"
| "pc_ok h r (AtStore s m) = (mget (exact r) s = None \<and> m = scan_wild h r s)"
| "pc_ok h r (Finished s m) = (\<forall>a. m = Some a \<longleftrightarrow> is_best h (registered r) s a)"

definition sys_inv :: "router_sys \<Rightarrow> bool" where
  "sys_inv S \<longleftrightarrow> router_inv (sys_heap S) (sys_router S) \<and>
     (\<forall>t. pc_ok (sys_heap S) (sys_router S) (sys_threads S t))"

lemma scan_wild_is_best:
  assumes "router_inv h r" and "mget (exact r) s = None"
  shows "scan_wild h r s = Some a \<longleftrightarrow> is_best h (registered r) s a"
proof -
  from assms(1) have "cache_ok h r" by (simp add: router_inv_def)
  with assms show ?thesis using Resolve_best [OF assms(1), of s a] by (simp add: Resolve_value)
qed

lemma exact_is_best:
  assumes "router_inv h r" and "mget (exact r) s = Some b"
  shows "b = a \<longleftrightarrow> is_best h (registered r) s a"
  using best_exact [OF assms] is_best_unique [OF assms(1)] by blast

lemma resolve_step_frame:
  assumes "resolve_step h (r, pc) (r', pc')"
  shows "exact r' = exact r" "wild r' = wild r"
  using assms by (auto elim: resolve_stepE)

lemma pc_ok_frame:
  assumes "exact r' = exact r" and "wild r' = wild r"
  shows "pc_ok h r' pc = pc_ok h r pc"
  using assms by (cases pc) (auto simp: scan_wild_def registered_def)

lemma resolve_step_ok:
  assumes "resolve_step h (r, pc) (r', pc')" and "router_inv h r" and "pc_ok h r pc"
  shows "router_inv h r' \<and> pc_ok h r pc'"
proof -
  from assms(2) have ok: "exact_ok h (exact r)" "wild_ok h (wild r)" "cache_ok h r"
    by (auto simp: router_inv_def)
  from assms(1) show ?thesis
  proof cases
    case (exact_hit s a)
    with assms(2) exact_is_best [OF assms(2)] show ?thesis by auto
  next
    case (no_wild s)
    then have "scan_wild h r s = None" by (simp add: scan_wild_def)
    with no_wild assms(2) scan_wild_is_best [OF assms(2), of s] show ?thesis by auto
  next
    case (exact_miss s)
    with assms(2) show ?thesis by simp
  next
    case (cache_hit s m)
    from ok(3) cache_hit(4) have "m = scan_wild h r s" by (rule cache_ok_get)
    with cache_hit assms(2,3) scan_wild_is_best [OF assms(2), of s] show ?thesis by auto
  next
    case (cache_miss s)
    with assms(2,3) show ?thesis by simp
  next
    case (scan s)
    with assms(2,3) show ?thesis by (simp add: scan_wild_def)
  next
    case (store s m)
    with assms(3) have m: "mget (exact r) s = None" "m = scan_wild h r s" by auto
    from cache_ok_put [OF ok(3) refl, of s] ok(1,2) store m(2) have "router_inv h r'"
      by (simp add: router_inv_def)
    with store m scan_wild_is_best [OF assms(2) m(1)] show ?thesis by auto
  qed
qed

lemma lookup_step_inv:
  assumes "lookup_step S T" and "sys_inv S"
  shows "sys_inv T"
  using assms(1)
proof cases
  case (move t r' pc')
  from assms(2) have "router_inv (sys_heap S) (sys_router S)"
    "pc_ok (sys_heap S) (sys_router S) (sys_threads S t)" by (auto simp: sys_inv_def)
  with move(2) have "router_inv (sys_heap S) r'" "pc_ok (sys_heap S) (sys_router S) pc'"
    by (auto dest: resolve_step_ok)
  moreover have "pc_ok (sys_heap S) r' pc = pc_ok (sys_heap S) (sys_router S) pc" for pc
    using resolve_step_frame [OF move(2)] by (rule pc_ok_frame)
  ultimately show ?thesis using assms(2) move(1) by (auto simp: sys_inv_def)
next
  case (again t s m s')
  with assms(2) show ?thesis by (auto simp: sys_inv_def)
qed

lemma lookup_steps_inv: "lookup_step\<^sup>*\<^sup>* S T \<Longrightarrow> sys_inv S \<Longrightarrow> sys_inv T"
  by (induction rule: rtranclp_induct) (auto intro: lookup_step_inv)

lemma lookup_steps_frame:
  assumes "lookup_step\<^sup>*\<^sup>* S T"
  shows "sys_heap T = sys_heap S" "registered (sys_router T) = registered (sys_router S)"
proof -
  have "sys_heap T = sys_heap S \<and> registered (sys_router T) = registered (sys_router S)"
    using assms
  proof (induction rule: rtranclp_induct)
    case base
    show ?case by simp
  next
    case (step T U)
    from step(2) have "sys_heap U = sys_heap T \<and> registered (sys_router U) = registered (sys_router T)"
    proof cases
      case (move t r' pc')
      with resolve_step_frame [OF move(2)] show ?thesis by (simp add: registered_def)
    qed simp
    with step.IH show ?case by simp
  qed
  then show "sys_heap T = sys_heap S" "registered (sys_router T) = registered (sys_router S)" by auto
qed

text \<open>Steps of one thread are steps of the system.\<close>

lemma thread_steps:
  assumes "(resolve_step h)\<^sup>*\<^sup>* (r, pc) (r', pc')"
    and "sys_heap S = h" and "sys_router S = r" and "sys_threads S t = pc"
  shows "lookup_step\<^sup>*\<^sup>* S (S\<lparr>sys_router := r', sys_threads := (sys_threads S)(t := pc')\<rparr>)"
  using assms(1)
proof (induction "(r', pc')" arbitrary: r' pc' rule: rtranclp_induct)
  case base
  have "S\<lparr>sys_router := r, sys_threads := (sys_threads S)(t := pc)\<rparr> = S"
    using assms(3,4) by (cases S) (auto simp: fun_upd_idem)
  with base show ?case by simp
next
  case (step x)
  obtain q c where x: "x = (q, c)" by force
  let ?M = "S\<lparr>sys_router := q, sys_threads := (sys_threads S)(t := c)\<rparr>"
  from step(2) x assms(2) have "resolve_step (sys_heap ?M) (sys_router ?M, sys_threads ?M t) (r', pc')" by simp
  then have "lookup_step ?M (?M\<lparr>sys_router := r', sys_threads := (sys_threads ?M)(t := pc')\<rparr>)"
    by (rule lookup_step.move)
  with step.hyps(3) [OF x] show ?case by (simp add: rtranclp.rtrancl_into_rtrancl)
qed

section \<open>Properties\<close>

definition blank_route :: route where
  "blank_route = \<lparr>r_pattern = [], r_transport = [], r_controller = [], r_field = [], r_guards = [],
     r_path = [], r_url = None, r_rank = rank []\<rparr>"

definition conc_heap :: route_heap where
  "conc_heap = (\<lambda>_. blank_route)
     (0 := blank_route\<lparr>r_pattern := ''user_*''\<rparr>, 1 := blank_route\<lparr>r_pattern := ''order_*''\<rparr>)"

definition conc_start :: router_sys where
  "conc_start =
     (let ((h, r), e) = Add conc_heap NewRouter (Some 0)
      in \<lparr>sys_heap = h, sys_router = r, sys_threads = (\<lambda>_. AtExact ''order_7'')\<rparr>)"

lemma conc_start_reach: "router_reach (sys_heap conc_start) (sys_router conc_start)"
proof -
  obtain h r e where add: "Add conc_heap NewRouter (Some 0) = ((h, r), e)" by (metis prod.exhaust)
  with router_reach.new have "router_reach h r" by (blast intro: router_reach.add)
  with add show ?thesis by (simp add: conc_start_def)
qed

lemma conc_start_threads [simp]: "sys_threads conc_start t = AtExact ''order_7''"
  by (simp add: conc_start_def split: prod.split)

text \<open>
  C3. Under any interleaving of any number of concurrent lookups on one router, every
  lookup that finishes returns the most specific registered route that matches its
  subject, or nothing when none matches, and the router stays well formed.
\<close>

theorem concurrent_lookups_correct:
  assumes "router_reach (sys_heap S) (sys_router S)"
    and "\<And>t. \<exists>s. sys_threads S t = AtExact s"
    and "lookup_step\<^sup>*\<^sup>* S T"
  shows "router_inv (sys_heap T) (sys_router T) \<and>
    (\<forall>t s m a. sys_threads T t = Finished s m \<longrightarrow>
      (m = Some a \<longleftrightarrow> is_best (sys_heap S) (registered (sys_router S)) s a))"
proof -
  have "pc_ok (sys_heap S) (sys_router S) (sys_threads S t)" for t
    using assms(2) [of t] by auto
  with assms(1) have "sys_inv S" by (simp add: sys_inv_def router_reach_inv)
  with assms(3) have inv: "sys_inv T" by (rule lookup_steps_inv)
  then have "\<And>t. pc_ok (sys_heap T) (sys_router T) (sys_threads T t)" by (simp add: sys_inv_def)
  then have "m = Some a \<longleftrightarrow> is_best (sys_heap S) (registered (sys_router S)) s a"
    if "sys_threads T t = Finished s m" for t s m a
    using lookup_steps_frame [OF assms(3)] that by (metis pc_ok.simps(5))
  with inv show ?thesis by (simp add: sys_inv_def)
qed

theorem concurrent_lookups_correct_witness:
  "\<not> is_best (sys_heap conc_start) (registered (sys_router conc_start)) ''order_7'' 0"
proof -
  let ?R = "Resolve (sys_heap conc_start) (sys_router conc_start) ''order_7''"
  let ?T = "conc_start\<lparr>sys_router := fst ?R,
     sys_threads := (sys_threads conc_start)(0 := Finished ''order_7'' (fst (snd ?R)))\<rparr>"
  have steps: "lookup_step\<^sup>*\<^sup>* conc_start ?T"
    by (rule thread_steps [OF resolve_alone]) simp_all
  have pcs: "\<And>t. \<exists>s. sys_threads conc_start t = AtExact s" by simp
  have "fst (snd ?R) = None" by code_simp
  then have "sys_threads ?T 0 = Finished ''order_7'' None" by simp
  with concurrent_lookups_correct [OF conc_start_reach pcs steps] show ?thesis by blast
qed

text \<open>
  The memo table is not protected against a registration that runs while a lookup
  is under way: there is an interleaving of one lookup and one successful \<^verbatim>\<open>Add\<close> after
  which nothing runs any more, a registered pattern matches the subject, and the router
  answers that no handler exists (the stale answer is in the memo table, so it stays).
\<close>

theorem stale_memo_after_add:
  "\<exists>T. router_sys_step\<^sup>*\<^sup>* conc_start T \<and>
     sys_threads T 0 = Finished ''order_7'' None \<and>
     1 \<in> registered (sys_router T) \<and>
     matches (r_pattern (sys_heap T 1)) ''order_7'' \<and>
     Resolve (sys_heap T) (sys_router T) ''order_7'' = (sys_router T, None, False)"
proof -
  define h r where "h = sys_heap conc_start" and "r = sys_router conc_start"
  have look: "mget (exact r) ''order_7'' = None" "wild r \<noteq> []" "mget (cache r) ''order_7'' = None"
    "scan_wild h r ''order_7'' = None"
    unfolding h_def r_def by code_simp+
  define h' r' where "h' = fst (fst (Add h r (Some 1)))" and "r' = snd (fst (Add h r (Some 1)))"
  define q where "q = r'\<lparr>cache := mput ''order_7'' None
     (if length (cache r') \<ge> maxRouteCacheEntries then [] else cache r')\<rparr>"
  let ?M = "conc_start\<lparr>sys_router := r, sys_threads := (sys_threads conc_start)(0 := AtStore ''order_7'' None)\<rparr>"
  let ?N = "?M\<lparr>sys_heap := h', sys_router := r'\<rparr>"
  let ?T = "?N\<lparr>sys_router := q, sys_threads := (sys_threads ?N)(0 := Finished ''order_7'' None)\<rparr>"
  have "(resolve_step h)\<^sup>*\<^sup>* (r, AtExact ''order_7'') (r, AtStore ''order_7'' None)"
    using resolve_uncached [OF look(1-3), of h] look(4) by simp
  then have "lookup_step\<^sup>*\<^sup>* conc_start ?M"
    by (rule thread_steps) (simp_all add: h_def r_def)
  then have lookups: "router_sys_step\<^sup>*\<^sup>* conc_start ?M"
    by (rule rtranclp_mono [THEN predicate2D, rotated]) (auto intro: router_sys_step.lookup)
  have "Add h r (Some 1) = ((h', r'), snd (Add h r (Some 1)))"
    by (simp add: h'_def r'_def)
  then have add: "router_sys_step ?M ?N"
    using router_sys_step.register [of ?M "Some 1" h' r'] by (simp add: h_def)
  have "resolve_step (sys_heap ?N) (sys_router ?N, sys_threads ?N 0) (q, Finished ''order_7'' None)"
    using store [of h' r' "''order_7''" None] by (simp add: q_def)
  then have fin: "router_sys_step ?N ?T" by (intro router_sys_step.lookup lookup_step.move)
  from lookups add fin have "router_sys_step\<^sup>*\<^sup>* conc_start ?T" by (meson rtranclp.rtrancl_into_rtrancl)
  moreover have "1 \<in> set (wild r')" "r_pattern (h' 1) = ''order_*''" "mget (exact r') ''order_7'' = None"
    unfolding r'_def h'_def h_def r_def by code_simp+
  moreover have "matches ''order_*'' ''order_7''" unfolding Match_iff_matches [symmetric] by code_simp
  ultimately show ?thesis
    by (intro exI [of _ ?T]) (auto simp: registered_def q_def Resolve_def)
qed

end
