(* ===== verification/Container.thy ===== *)
theory Container
  imports Prelude
begin

text \<open>
  Dependency injection (\<^verbatim>\<open>container.go\<close>, and \<^verbatim>\<open>registerProvider\<close> and
  \<^verbatim>\<open>exportedProviderType\<close> of \<^verbatim>\<open>module-loader.go\<close>). The container maps types to instances;
  constructors are invoked with arguments found by exact type or, for an interface, by
  the only registered implementation. Go's reflection is modelled by the data the code
  reads from it: types with their kinds, values with their dynamic type, and the method
  sets of the program as a parameter \<open>impl\<close> (which concrete type implements which
  interface).
\<close>

section \<open>The code\<close>

text \<open>\<^verbatim>\<open>reflect.Type\<close> by kind; \<open>TRef\<close> are maps, slices and channels.\<close>

datatype rtype =
    TStruct string
  | TScalar string
  | TRef string
  | TPtr rtype
  | TIface string
  | TFunc "rtype list" "rtype list" bool

fun is_iface :: "rtype \<Rightarrow> bool" where
  "is_iface (TIface n) = True"
| "is_iface t = False"

fun is_func :: "rtype \<Rightarrow> bool" where
  "is_func (TFunc ins outs v) = True"
| "is_func t = False"

definition errorType :: rtype where
  "errorType = TIface ''error''"

text \<open>
  A value of a concrete type: the type, an identity, and whether it is that type's nil.
  Go's \<^verbatim>\<open>any\<close> is an option of it: \<open>None\<close> is the nil interface.
\<close>

datatype gvalue = GVal (vtype: rtype) (vident: nat) (vnil: bool)

type_synonym any = "gvalue option"

text \<open>
  What a module or a caller hands in as a provider: nil, a finished value, or a
  constructor function with its type and its behaviour (arguments to results).
\<close>

datatype provider =
    PNil
  | PValue gvalue
  | PFunc rtype "any list \<Rightarrow> any list"

fun provider_type :: "provider \<Rightarrow> rtype option" where
  "provider_type PNil = None"
| "provider_type (PValue v) = Some (vtype v)"
| "provider_type (PFunc t f) = Some t"

type_synonym container = "(rtype, any) gomap"

datatype di_error =
    CtorNotFunc
  | CtorNoResult rtype
  | CtorVariadic rtype
  | CannotResolve rtype nat
  | CtorFailed rtype any
  | CtorReturnedNil rtype
  | NilSingleton
  | NoProvider rtype
  | NilProvider
  | ExportNil
  | ExportNoResult
  | ControllerNotPointer

text \<open>
  \<^verbatim>\<open>resolveByInterface\<close>: the loop over the map stops at the second candidate, so its
  answer depends only on how many there are.
\<close>

definition resolveByInterface :: "(rtype \<Rightarrow> rtype \<Rightarrow> bool) \<Rightarrow> rtype \<Rightarrow> container \<Rightarrow> any option" where
  "resolveByInterface impl wanted container =
     (if \<not> is_iface wanted then None
      else (case filter (\<lambda>(provType, inst). \<not> is_iface provType \<and> impl provType wanted) container of
          [(provType, inst)] \<Rightarrow> Some inst
        | _ \<Rightarrow> None))"

definition lookup_dependency :: "(rtype \<Rightarrow> rtype \<Rightarrow> bool) \<Rightarrow> rtype \<Rightarrow> container \<Rightarrow> any option" where
  "lookup_dependency impl requiredType container =
     (case mget container requiredType of
        Some dependency \<Rightarrow> Some dependency
      | None \<Rightarrow> resolveByInterface impl requiredType container)"

fun resolve_args :: "(rtype \<Rightarrow> rtype \<Rightarrow> bool) \<Rightarrow> container \<Rightarrow> nat \<Rightarrow> rtype list \<Rightarrow>
    (di_error, any list) result" where
  "resolve_args impl container i [] = Inr []"
| "resolve_args impl container i (t # ts) =
     (case lookup_dependency impl t container of
        None \<Rightarrow> Inl (CannotResolve t (i + 1))
      | Some dependency \<Rightarrow>
          and_then (resolve_args impl container (i + 1) ts) (\<lambda>rest. Inr (dependency # rest)))"

text \<open>
  \<^verbatim>\<open>isNilValue\<close> on a result of a call: the static type decides the kind that is tested. An
  interface is nil when it holds nothing; pointers, functions, maps, slices and channels
  when they are nil themselves.
\<close>

fun isNilValue :: "rtype \<Rightarrow> any \<Rightarrow> bool" where
  "isNilValue (TIface n) v = (v = None)"
| "isNilValue (TPtr t) v = (case v of None \<Rightarrow> True | Some x \<Rightarrow> vnil x)"
| "isNilValue (TRef n) v = (case v of None \<Rightarrow> True | Some x \<Rightarrow> vnil x)"
| "isNilValue (TFunc a b c) v = (case v of None \<Rightarrow> True | Some x \<Rightarrow> vnil x)"
| "isNilValue t v = False"

text \<open>The first later result of type \<^verbatim>\<open>error\<close> that is not nil.\<close>

definition ctor_error :: "rtype list \<Rightarrow> any list \<Rightarrow> any option" where
  "ctor_error outs results =
     map_option snd (find (\<lambda>(t, v). t = errorType \<and> v \<noteq> None) (zip (tl outs) (tl results)))"

definition invokeConstructor :: "(rtype \<Rightarrow> rtype \<Rightarrow> bool) \<Rightarrow> provider \<Rightarrow> container \<Rightarrow>
    (di_error, any) result" where
  "invokeConstructor impl constructor container =
     (case constructor of
        PFunc (TFunc ins outs variadic) f \<Rightarrow>
          if outs = [] then Inl (CtorNoResult (TFunc ins outs variadic))
          else if variadic then Inl (CtorVariadic (TFunc ins outs variadic))
          else and_then (resolve_args impl container 0 ins) (\<lambda>args.
            let results = f args
            in (case ctor_error outs results of
                  Some err \<Rightarrow> Inl (CtorFailed (TFunc ins outs variadic) err)
                | None \<Rightarrow>
                    if isNilValue (hd outs) (hd results)
                    then Inl (CtorReturnedNil (TFunc ins outs variadic))
                    else Inr (hd results)))
      | _ \<Rightarrow> Inl CtorNotFunc)"

text \<open>\<^verbatim>\<open>resolveDependencies\<close>: a struct field by type, settable or not, with its content.\<close>

record inject_field =
  if_type :: rtype
  if_settable :: bool
  if_value :: any

definition inject_one :: "(rtype \<Rightarrow> rtype \<Rightarrow> bool) \<Rightarrow> container \<Rightarrow> inject_field \<Rightarrow> inject_field" where
  "inject_one impl container fld =
     (if is_func (if_type fld) \<or> \<not> if_settable fld then fld
      else (case lookup_dependency impl (if_type fld) container of
          Some (Some v) \<Rightarrow> fld\<lparr>if_value := Some v\<rparr>
        | _ \<Rightarrow> fld))"

text \<open>The controller is \<open>None\<close> unless it is a non-nil pointer to a struct.\<close>

definition resolveDependencies :: "(rtype \<Rightarrow> rtype \<Rightarrow> bool) \<Rightarrow> inject_field list option \<Rightarrow> container \<Rightarrow>
    (di_error, inject_field list) result" where
  "resolveDependencies impl controller container =
     (case controller of
        None \<Rightarrow> Inl ControllerNotPointer
      | Some flds \<Rightarrow> Inr (map (inject_one impl container) flds))"

definition RegisterSingleton :: "any \<Rightarrow> container \<Rightarrow> (di_error, container) result" where
  "RegisterSingleton inst container =
     (case inst of
        None \<Rightarrow> Inl NilSingleton
      | Some v \<Rightarrow> Inr (mput (vtype v) inst container))"

definition RegisterSingletonAs :: "rtype \<Rightarrow> any \<Rightarrow> container \<Rightarrow> container" where
  "RegisterSingletonAs ifaceType inst container =
     (let c = mput ifaceType inst container
      in (case inst of None \<Rightarrow> c | Some v \<Rightarrow> mput (vtype v) inst c))"

text \<open>The type assertion \<^verbatim>\<open>instance.(T)\<close>.\<close>

definition type_asserts :: "(rtype \<Rightarrow> rtype \<Rightarrow> bool) \<Rightarrow> any \<Rightarrow> rtype \<Rightarrow> bool" where
  "type_asserts impl inst t =
     (case inst of
        None \<Rightarrow> False
      | Some v \<Rightarrow> if is_iface t then impl (vtype v) t else vtype v = t)"

definition Resolve_T :: "(rtype \<Rightarrow> rtype \<Rightarrow> bool) \<Rightarrow> rtype \<Rightarrow> container \<Rightarrow> any option" where
  "Resolve_T impl wanted container =
     (case lookup_dependency impl wanted container of
        None \<Rightarrow> None
      | Some inst \<Rightarrow> if type_asserts impl inst wanted then Some inst else None)"

definition MustResolve :: "(rtype \<Rightarrow> rtype \<Rightarrow> bool) \<Rightarrow> rtype \<Rightarrow> container \<Rightarrow> (di_error, any) result" where
  "MustResolve impl wanted container =
     (case Resolve_T impl wanted container of None \<Rightarrow> Inl (NoProvider wanted) | Some v \<Rightarrow> Inr v)"

text \<open>\<^verbatim>\<open>pointerHint\<close>: which neighbouring type the error message suggests, if any.\<close>

definition pointerHint :: "rtype \<Rightarrow> container \<Rightarrow> rtype option" where
  "pointerHint wanted container =
     (case wanted of
        TPtr t \<Rightarrow> if mget container t \<noteq> None then Some t else None
      | _ \<Rightarrow> if mget container (TPtr wanted) \<noteq> None then Some (TPtr wanted) else None)"

definition cloneContainer :: "container \<Rightarrow> container" where
  "cloneContainer container = fold (\<lambda>(t, v) clone. mput t v clone) container []"

definition registerProvider :: "(rtype \<Rightarrow> rtype \<Rightarrow> bool) \<Rightarrow> container \<Rightarrow> provider \<Rightarrow>
    (di_error, container) result" where
  "registerProvider impl container provider =
     (case provider of
        PNil \<Rightarrow> Inl NilProvider
      | PValue v \<Rightarrow> Inr (mput (vtype v) (Some v) container)
      | PFunc t f \<Rightarrow>
          and_then (invokeConstructor impl provider container) (\<lambda>inst.
            case inst of
              None \<Rightarrow> Inl NilProvider
            | Some v \<Rightarrow>
                let c = mput (vtype v) inst container
                in (case t of
                      TFunc ins (out # outs) var \<Rightarrow> Inr (if is_iface out then mput out inst c else c)
                    | _ \<Rightarrow> Inr c)))"

definition exportedProviderType :: "provider \<Rightarrow> (di_error, rtype) result" where
  "exportedProviderType provider =
     (case provider_type provider of
        None \<Rightarrow> Inl ExportNil
      | Some (TFunc ins outs var) \<Rightarrow> (case outs of [] \<Rightarrow> Inl ExportNoResult | t # ts \<Rightarrow> Inr t)
      | Some t \<Rightarrow> Inr t)"

section \<open>Typed containers\<close>

text \<open>
  The contract of a container: keys are unique, and what is stored under a type can be
  passed where that type is asked for.
\<close>

definition fits :: "(rtype \<Rightarrow> rtype \<Rightarrow> bool) \<Rightarrow> rtype \<Rightarrow> any \<Rightarrow> bool" where
  "fits impl t v \<longleftrightarrow> (case v of
     None \<Rightarrow> is_iface t
   | Some x \<Rightarrow> \<not> is_iface (vtype x) \<and> (if is_iface t then impl (vtype x) t else vtype x = t))"

definition container_ok :: "(rtype \<Rightarrow> rtype \<Rightarrow> bool) \<Rightarrow> container \<Rightarrow> bool" where
  "container_ok impl c \<longleftrightarrow> map_ok c \<and> (\<forall>(t, v) \<in> set c. fits impl t v)"

text \<open>A constructor behaves as its type says: one fitting result per declared one.\<close>

definition ctor_ok :: "(rtype \<Rightarrow> rtype \<Rightarrow> bool) \<Rightarrow> provider \<Rightarrow> bool" where
  "ctor_ok impl p \<longleftrightarrow> (case p of
     PNil \<Rightarrow> True
   | PValue v \<Rightarrow> \<not> is_iface (vtype v)
   | PFunc t f \<Rightarrow> (case t of
       TFunc ins outs var \<Rightarrow>
         (\<forall>args. list_all2 (fits impl) ins args \<longrightarrow> list_all2 (fits impl) outs (f args))
     | _ \<Rightarrow> False))"

lemma container_ok_get: "container_ok impl c \<Longrightarrow> mget c t = Some v \<Longrightarrow> fits impl t v"
  by (auto simp: container_ok_def mget_Some_set)

lemma container_ok_put: "container_ok impl c \<Longrightarrow> fits impl t v \<Longrightarrow> container_ok impl (mput t v c)"
  by (auto simp: container_ok_def in_set_mput split: if_splits)

lemma resolveByInterface_Some:
  assumes "resolveByInterface impl t c = Some v"
  shows "is_iface t \<and> (\<exists>p. filter (\<lambda>(p, v). \<not> is_iface p \<and> impl p t) c = [(p, v)])"
  using assms by (auto simp: resolveByInterface_def split: if_splits list.splits)

lemma resolveByInterface_member:
  assumes "resolveByInterface impl t c = Some v"
  obtains p where "(p, v) \<in> set c" "\<not> is_iface p" "impl p t" "is_iface t"
proof -
  from resolveByInterface_Some [OF assms] obtain p where f: "is_iface t"
      "filter (\<lambda>(p, v). \<not> is_iface p \<and> impl p t) c = [(p, v)]" by blast
  then have "(p, v) \<in> set (filter (\<lambda>(p, v). \<not> is_iface p \<and> impl p t) c)" by simp
  with f(1) that show ?thesis by auto
qed

lemma lookup_fits:
  assumes "container_ok impl c" and "lookup_dependency impl t c = Some v"
  shows "fits impl t v"
proof (cases "mget c t")
  case (Some w)
  with assms show ?thesis by (auto simp: lookup_dependency_def dest: container_ok_get)
next
  case None
  with assms(2) have "resolveByInterface impl t c = Some v" by (simp add: lookup_dependency_def)
  then obtain p where p: "(p, v) \<in> set c" "\<not> is_iface p" "impl p t" "is_iface t"
    by (rule resolveByInterface_member)
  from assms(1) p(1) have "fits impl p v" by (auto simp: container_ok_def)
  with p(2-4) show ?thesis by (auto simp: fits_def split: option.splits)
qed

lemma resolve_args_fit:
  "container_ok impl c \<Longrightarrow> resolve_args impl c i ts = Inr args \<Longrightarrow> list_all2 (fits impl) ts args"
  by (induction ts arbitrary: i args)
    (auto simp: and_then_Inr_iff split: option.splits dest: lookup_fits)

lemma resolve_args_complete:
  "(\<exists>args. resolve_args impl c i ts = Inr args) \<longleftrightarrow> (\<forall>t \<in> set ts. lookup_dependency impl t c \<noteq> None)"
  by (induction ts arbitrary: i) (auto simp: and_then_Inr_iff split: option.splits)

lemma invokeConstructor_Inr:
  assumes "invokeConstructor impl p c = Inr v"
  obtains ins outs f args where "p = PFunc (TFunc ins outs False) f" "outs \<noteq> []"
    "resolve_args impl c 0 ins = Inr args" "ctor_error outs (f args) = None"
    "v = hd (f args)" "\<not> isNilValue (hd outs) v"
  using assms
  by (auto simp: invokeConstructor_def and_then_Inr_iff Let_def
      split: provider.splits rtype.splits if_splits option.splits)

lemma invokeConstructor_fits:
  assumes "container_ok impl c" and "ctor_ok impl p" and "invokeConstructor impl p c = Inr v"
  obtains ins outs f where "p = PFunc (TFunc ins outs False) f" "outs \<noteq> []"
    "fits impl (hd outs) v" "\<not> isNilValue (hd outs) v"
proof -
  from assms(3) obtain ins outs f args where i: "p = PFunc (TFunc ins outs False) f" "outs \<noteq> []"
      "resolve_args impl c 0 ins = Inr args" "v = hd (f args)" "\<not> isNilValue (hd outs) v"
    by (rule invokeConstructor_Inr)
  from assms(1) i(3) have "list_all2 (fits impl) ins args" by (rule resolve_args_fit)
  with assms(2) i(1) have "list_all2 (fits impl) outs (f args)" by (simp add: ctor_ok_def)
  with i(2,4) have "fits impl (hd outs) v" by (cases outs) (auto simp: list_all2_Cons1)
  with i(1,2,5) that show ?thesis by blast
qed

lemma fits_own_type: "fits impl t (Some x) \<Longrightarrow> fits impl (vtype x) (Some x)"
  by (simp add: fits_def)

lemma registerProvider_ok:
  assumes "container_ok impl c" and "ctor_ok impl p" and "registerProvider impl c p = Inr c'"
  shows "container_ok impl c'"
proof (cases p)
  case PNil
  with assms(3) show ?thesis by (simp add: registerProvider_def)
next
  case (PValue v)
  with assms show ?thesis
    by (auto simp: registerProvider_def ctor_ok_def fits_def intro!: container_ok_put)
next
  case (PFunc t f)
  with assms(3) obtain x where inv: "invokeConstructor impl p c = Inr (Some x)"
    by (auto simp: registerProvider_def and_then_Inr_iff split: option.splits)
  from invokeConstructor_fits [OF assms(1,2) inv] PFunc obtain ins outs where
    t: "t = TFunc ins outs False" "outs \<noteq> []" "fits impl (hd outs) (Some x)" by (metis provider.inject(2))
  then obtain out rest where o: "outs = out # rest" by (cases outs) auto
  have "container_ok impl (mput (vtype x) (Some x) c)"
    using assms(1) t(3) by (intro container_ok_put fits_own_type)
  with assms(3) PFunc inv t o show ?thesis
    by (auto simp: registerProvider_def Let_def intro: container_ok_put split: if_splits)
qed

lemma fold_mput_get:
  "mget (fold (\<lambda>(t, v) clone. mput t v clone) xs acc) t =
     (case map_of (rev xs) t of Some v \<Rightarrow> Some v | None \<Rightarrow> mget acc t)"
proof (induction xs arbitrary: acc)
  case Nil
  then show ?case by simp
next
  case (Cons x xs)
  then show ?case by (cases x) (auto simp: map_add_def split: option.splits)
qed

lemma fold_mput_ok: "map_ok acc \<Longrightarrow> map_ok (fold (\<lambda>(t, v) clone. mput t v clone) xs acc)"
  by (induction xs arbitrary: acc) auto

lemma mget_cloneContainer:
  assumes "map_ok c"
  shows "mget (cloneContainer c) t = mget c t"
proof -
  from assms have "map_of (rev c) = map_of c"
    by (subst map_of_inject_set) (simp_all add: map_ok_def flip: rev_map)
  then show ?thesis
    using fold_mput_get [of c "[]" t] by (simp add: cloneContainer_def mget_def split: option.splits)
qed

lemma map_ok_cloneContainer [simp]: "map_ok (cloneContainer c)"
  by (simp add: cloneContainer_def fold_mput_ok)

lemma container_ok_clone: "container_ok impl c \<Longrightarrow> container_ok impl (cloneContainer c)"
  by (auto simp: container_ok_def mget_cloneContainer mget_Some_set simp flip: mget_Some_set [OF map_ok_cloneContainer])

section \<open>Properties\<close>

text \<open>
  C38. Injection is type safe: in a well-typed container a provider registers only when
  every parameter of its constructor was resolved to a value that fits the parameter's
  type, the constructor reported no error, and the container stays well typed with the
  new instance stored under its concrete type.
\<close>

theorem provider_registration_type_safe:
  assumes "container_ok impl c" and "ctor_ok impl (PFunc (TFunc ins outs var) f)"
    and "registerProvider impl c (PFunc (TFunc ins outs var) f) = Inr c'"
  shows "container_ok impl c' \<and> (\<exists>args x. resolve_args impl c 0 ins = Inr args \<and>
    list_all2 (fits impl) ins args \<and> ctor_error outs (f args) = None \<and>
    hd (f args) = Some x \<and> mget c' (vtype x) = Some (Some x))"
proof -
  from assms(3) obtain x where inv: "invokeConstructor impl (PFunc (TFunc ins outs var) f) c = Inr (Some x)"
    by (auto simp: registerProvider_def and_then_Inr_iff split: option.splits)
  from inv obtain args where a: "outs \<noteq> []" "resolve_args impl c 0 ins = Inr args"
      "ctor_error outs (f args) = None" "Some x = hd (f args)"
    by (rule invokeConstructor_Inr) auto
  then obtain out rest where o: "outs = out # rest" by (cases outs) auto
  have fit: "list_all2 (fits impl) ins args" using assms(1) a(2) by (rule resolve_args_fit)
  with assms(2) o a(4) have "fits impl out (Some x)"
    by (auto simp: ctor_ok_def list_all2_Cons1)
  then have "\<not> is_iface (vtype x)" by (simp add: fits_def)
  moreover have "c' = (if is_iface out then mput out (Some x) (mput (vtype x) (Some x) c)
      else mput (vtype x) (Some x) c)"
    using assms(3) inv o by (simp add: registerProvider_def Let_def)
  ultimately have "mget c' (vtype x) = Some (Some x)" by auto
  with registerProvider_ok [OF assms] a(2,3) a(4) [symmetric] fit show ?thesis by blast
qed

definition demo_impl :: "rtype \<Rightarrow> rtype \<Rightarrow> bool" where
  "demo_impl t i = (t = TPtr (TStruct ''PgUserRepo'') \<and> i = TIface ''UserRepository'')"

definition demo_container :: container where
  "demo_container = [(TPtr (TStruct ''PgUserRepo''), Some (GVal (TPtr (TStruct ''PgUserRepo'')) 1 False))]"

definition demo_service_type :: rtype where
  "demo_service_type = TFunc [TIface ''UserRepository''] [TPtr (TStruct ''UserService''), errorType] False"

definition demo_service :: "any list \<Rightarrow> any list" where
  "demo_service args = [Some (GVal (TPtr (TStruct ''UserService'')) 2 False), None]"

theorem provider_registration_type_safe_witness:
  "\<exists>c'. registerProvider demo_impl demo_container (PFunc demo_service_type demo_service) = Inr c' \<and>
    container_ok demo_impl c' \<and>
    mget c' (TPtr (TStruct ''UserService'')) = Some (Some (GVal (TPtr (TStruct ''UserService'')) 2 False))"
proof -
  have ok: "container_ok demo_impl demo_container"
    by (simp add: container_ok_def demo_container_def map_ok_def fits_def)
  have ctor: "ctor_ok demo_impl (PFunc demo_service_type demo_service)"
    by (simp add: ctor_ok_def demo_service_type_def demo_service_def fits_def errorType_def)
  obtain c' where c': "registerProvider demo_impl demo_container (PFunc demo_service_type demo_service) = Inr c'"
    by (simp add: registerProvider_def invokeConstructor_def demo_service_type_def demo_service_def
        lookup_dependency_def resolveByInterface_def demo_container_def demo_impl_def mget_def ctor_error_def
        errorType_def)
  from provider_registration_type_safe [OF ok ctor [unfolded demo_service_type_def] c' [unfolded demo_service_type_def]]
  have "container_ok demo_impl c'"
    "mget c' (TPtr (TStruct ''UserService'')) = Some (Some (GVal (TPtr (TStruct ''UserService'')) 2 False))"
    by (auto simp: demo_service_def)
  with c' show ?thesis by blast
qed

text \<open>
  An interface is satisfied only when exactly one concrete type of the container
  implements it, and then by that type's instance: the answer does not depend on the
  order in which Go iterates the map.
\<close>

theorem interface_resolution_unambiguous:
  assumes "map_ok c"
  shows "resolveByInterface impl t c = Some v \<longleftrightarrow>
    is_iface t \<and> (\<exists>p. (p, v) \<in> set c \<and> {e \<in> set c. \<not> is_iface (fst e) \<and> impl (fst e) t} = {(p, v)})"
proof -
  let ?f = "filter (\<lambda>(p, v). \<not> is_iface p \<and> impl p t) c"
  have dist: "distinct ?f" using assms by (auto simp: map_ok_def distinct_map)
  have sets: "set ?f = {e \<in> set c. \<not> is_iface (fst e) \<and> impl (fst e) t}" by auto
  have "?f = [(p, v)] \<longleftrightarrow> set ?f = {(p, v)}" for p
  proof
    assume "set ?f = {(p, v)}"
    moreover from this dist have "length ?f = 1" using distinct_card [of ?f] by simp
    then obtain e where e: "?f = [e]" by (auto simp: length_Suc_conv)
    ultimately have "{e} = {(p, v)}" by (simp only: list.set)
    with e show "?f = [(p, v)]" by simp
  qed simp
  then have eq: "(\<exists>p. ?f = [(p, v)]) \<longleftrightarrow> (\<exists>p. set ?f = {(p, v)})" by blast
  have "resolveByInterface impl t c = Some v \<longleftrightarrow> is_iface t \<and> (\<exists>p. ?f = [(p, v)])"
    by (auto simp: resolveByInterface_def split: list.splits)
  also have "\<dots> \<longleftrightarrow> is_iface t \<and> (\<exists>p. (p, v) \<in> set c \<and>
      {e \<in> set c. \<not> is_iface (fst e) \<and> impl (fst e) t} = {(p, v)})"
    unfolding eq sets by blast
  finally show ?thesis .
qed

theorem interface_resolution_unambiguous_witness:
  "map_ok demo_container \<and>
   (\<exists>p. {e \<in> set demo_container. \<not> is_iface (fst e) \<and> demo_impl (fst e) (TIface ''UserRepository'')} =
      {(p, Some (GVal (TPtr (TStruct ''PgUserRepo'')) 1 False))})"
proof -
  have ok: "map_ok demo_container" by (simp add: map_ok_def demo_container_def)
  have "resolveByInterface demo_impl (TIface ''UserRepository'') demo_container =
      Some (Some (GVal (TPtr (TStruct ''PgUserRepo'')) 1 False))"
    by (simp add: resolveByInterface_def demo_container_def demo_impl_def)
  with ok interface_resolution_unambiguous [OF ok] show ?thesis by blast
qed

text \<open>
  The nil check of \<^verbatim>\<open>invokeConstructor\<close> looks at the declared result: a constructor
  declared to return a pointer is refused when it returns nil, but one declared to
  return an interface is accepted when it returns a nil pointer inside that interface,
  and the nil pointer is registered under both types.
\<close>

theorem typed_nil_in_interface_accepted:
  "registerProvider impl [] (PFunc (TFunc [] [TPtr t] False) (\<lambda>_. [Some (GVal (TPtr t) i True)])) =
     Inl (CtorReturnedNil (TFunc [] [TPtr t] False)) \<and>
   registerProvider impl [] (PFunc (TFunc [] [TIface n] False) (\<lambda>_. [Some (GVal (TPtr t) i True)])) =
     Inr [(TPtr t, Some (GVal (TPtr t) i True)), (TIface n, Some (GVal (TPtr t) i True))]"
  by (simp add: registerProvider_def invokeConstructor_def ctor_error_def mput_def)

end
