(* ===== verification/Modules.thy ===== *)
theory Modules
  imports Container
begin

text \<open>
  Module loading (\<^verbatim>\<open>module-loader.go\<close>): a module's imports are loaded first, its providers
  are built in a private copy of the root container extended by what the imports export,
  its controllers are built and registered, and its exports are memoised by module type.
  Imports are values returned by methods, so the module graph may be cyclic; the loader
  detects that with the set of types being loaded. The recursion is bounded by fuel, and
  enough fuel is shown to exist for every finite set of module types. What registering
  a controller does outside the loader is a parameter \<open>reg\<close> on a state of its own.
\<close>

section \<open>The code\<close>

text \<open>
  A controller declared by a module: nil, a constructor, a pointer to a struct (its
  injectable fields), or any other value.
\<close>

datatype ctrl_decl =
    CtrlNil
  | CtrlFunc rtype "any list \<Rightarrow> any list"
  | CtrlStruct gvalue "inject_field list"
  | CtrlOther gvalue

datatype final_ctrl = Built any | Injected gvalue "inject_field list"

record module_decl =
  m_type :: rtype
  m_imports :: "nat option list"
  m_providers :: "provider list"
  m_controllers :: "ctrl_decl list"
  m_exports :: "provider list"

datatype load_error =
    ModuleNil
  | CircularImport rtype
  | DIError di_error
  | NilControllerDecl rtype
  | ExportMissing rtype rtype
  | RegisterPanic

record 'w app =
  a_container :: container
  a_moduleExports :: "(rtype, container) gomap"
  a_loading :: "rtype list"
  a_world :: 'w

definition put_all :: "container \<Rightarrow> container \<Rightarrow> container" where
  "put_all exports container = fold (\<lambda>(t, v) c. mput t v c) exports container"

text \<open>The loop over the imports, given the loader for one of them.\<close>

fun imports_loop :: "(nat option \<Rightarrow> 'w app \<Rightarrow> ('w app \<times> (load_error, container) result) option) \<Rightarrow>
    nat option list \<Rightarrow> container \<Rightarrow> 'w app \<Rightarrow> ('w app \<times> (load_error, container) result) option" where
  "imports_loop load [] container a = Some (a, Inr container)"
| "imports_loop load (sub # subs) container a =
     (case load sub a of
        None \<Rightarrow> None
      | Some (a', Inl e) \<Rightarrow> Some (a', Inl e)
      | Some (a', Inr exports) \<Rightarrow> imports_loop load subs (put_all exports container) a')"

fun providers_loop :: "(rtype \<Rightarrow> rtype \<Rightarrow> bool) \<Rightarrow> provider list \<Rightarrow> container \<Rightarrow>
    (di_error, container) result" where
  "providers_loop impl [] container = Inr container"
| "providers_loop impl (p # ps) container =
     and_then (registerProvider impl container p) (providers_loop impl ps)"

definition build_controller :: "(rtype \<Rightarrow> rtype \<Rightarrow> bool) \<Rightarrow> rtype \<Rightarrow> container \<Rightarrow> ctrl_decl \<Rightarrow>
    (load_error, final_ctrl) result" where
  "build_controller impl moduleType container ctrl =
     (case ctrl of
        CtrlNil \<Rightarrow> Inl (NilControllerDecl moduleType)
      | CtrlFunc t f \<Rightarrow>
          (case invokeConstructor impl (PFunc t f) container of
             Inl e \<Rightarrow> Inl (DIError e) | Inr v \<Rightarrow> Inr (Built v))
      | CtrlStruct v flds \<Rightarrow>
          (case resolveDependencies impl (Some flds) container of
             Inl e \<Rightarrow> Inl (DIError e) | Inr flds' \<Rightarrow> Inr (Injected v flds'))
      | CtrlOther v \<Rightarrow> Inl (DIError ControllerNotPointer))"

text \<open>\<open>reg\<close> is \<^verbatim>\<open>RegisterControllers\<close>: the state after it and whether it panicked.\<close>

fun controllers_loop :: "(rtype \<Rightarrow> rtype \<Rightarrow> bool) \<Rightarrow> (final_ctrl \<Rightarrow> 'w \<Rightarrow> 'w \<times> bool) \<Rightarrow> rtype \<Rightarrow>
    container \<Rightarrow> ctrl_decl list \<Rightarrow> 'w \<Rightarrow> 'w \<times> load_error option" where
  "controllers_loop impl reg moduleType container [] w = (w, None)"
| "controllers_loop impl reg moduleType container (ctrl # ctrls) w =
     (case build_controller impl moduleType container ctrl of
        Inl e \<Rightarrow> (w, Some e)
      | Inr final \<Rightarrow>
          (case reg final w of
             (w', True) \<Rightarrow> (w', Some RegisterPanic)
           | (w', False) \<Rightarrow> controllers_loop impl reg moduleType container ctrls w'))"

fun exports_loop :: "rtype \<Rightarrow> container \<Rightarrow> provider list \<Rightarrow> container \<Rightarrow>
    (load_error, container) result" where
  "exports_loop moduleType container [] exports = Inr exports"
| "exports_loop moduleType container (p # ps) exports =
     (case exportedProviderType p of
        Inl e \<Rightarrow> Inl (DIError e)
      | Inr t \<Rightarrow>
          (case mget container t of
             None \<Rightarrow> Inl (ExportMissing moduleType t)
           | Some v \<Rightarrow> exports_loop moduleType container ps (mput t v exports)))"

text \<open>The part of \<^verbatim>\<open>loadModule\<close> behind the imports.\<close>

definition load_rest :: "(rtype \<Rightarrow> rtype \<Rightarrow> bool) \<Rightarrow> (final_ctrl \<Rightarrow> 'w \<Rightarrow> 'w \<times> bool) \<Rightarrow>
    module_decl \<Rightarrow> container \<Rightarrow> 'w app \<Rightarrow> 'w app \<times> (load_error, container) result" where
  "load_rest impl reg d container a =
     (case providers_loop impl (m_providers d) container of
        Inl e \<Rightarrow> (a, Inl (DIError e))
      | Inr c \<Rightarrow>
          (case controllers_loop impl reg (m_type d) c (m_controllers d) (a_world a) of
             (w, Some e) \<Rightarrow> (a\<lparr>a_world := w\<rparr>, Inl e)
           | (w, None) \<Rightarrow>
               (case exports_loop (m_type d) c (m_exports d) [] of
                  Inl e \<Rightarrow> (a\<lparr>a_world := w\<rparr>, Inl e)
                | Inr exports \<Rightarrow>
                    (a\<lparr>a_world := w, a_moduleExports := mput (m_type d) exports (a_moduleExports a)\<rparr>,
                     Inr exports))))"

text \<open>
  \<^verbatim>\<open>loadModule\<close>; the deferred removal from \<^verbatim>\<open>loadingModules\<close> runs on every way out, panics
  included. \<open>mods\<close> gives the declarations behind the module values.
\<close>

fun loadModule :: "nat \<Rightarrow> (rtype \<Rightarrow> rtype \<Rightarrow> bool) \<Rightarrow> (final_ctrl \<Rightarrow> 'w \<Rightarrow> 'w \<times> bool) \<Rightarrow>
    (nat \<Rightarrow> module_decl) \<Rightarrow> nat option \<Rightarrow> 'w app \<Rightarrow> ('w app \<times> (load_error, container) result) option" where
  "loadModule 0 impl reg mods m a = None"
| "loadModule (Suc fuel) impl reg mods m a =
     (case m of
        None \<Rightarrow> Some (a, Inl ModuleNil)
      | Some i \<Rightarrow>
          let moduleType = m_type (mods i)
          in (case mget (a_moduleExports a) moduleType of
                Some exports \<Rightarrow> Some (a, Inr exports)
              | None \<Rightarrow>
                  if moduleType \<in> set (a_loading a) then Some (a, Inl (CircularImport moduleType))
                  else map_option
                    (\<lambda>(a', res). (a'\<lparr>a_loading := removeAll moduleType (a_loading a')\<rparr>, res))
                    (case imports_loop (loadModule fuel impl reg mods) (m_imports (mods i))
                        (cloneContainer (a_container a)) (a\<lparr>a_loading := moduleType # a_loading a\<rparr>) of
                       None \<Rightarrow> None
                     | Some (a', Inl e) \<Rightarrow> Some (a', Inl e)
                     | Some (a', Inr c) \<Rightarrow> Some (load_rest impl reg (mods i) c a'))))"

section \<open>The order of loading\<close>

text \<open>
  The memo table read as a history: every module in it was completed after all of its
  imports, and it exports exactly the types it declares.
\<close>

definition imports_of :: "(nat \<Rightarrow> module_decl) \<Rightarrow> nat \<Rightarrow> rtype set" where
  "imports_of mods i = {m_type (mods k) |k. Some k \<in> set (m_imports (mods i))}"

definition declared_exports :: "module_decl \<Rightarrow> rtype set" where
  "declared_exports d = {t. \<exists>p \<in> set (m_exports d). exportedProviderType p = Inr t}"

inductive loaded_ok :: "(nat \<Rightarrow> module_decl) \<Rightarrow> (rtype, container) gomap \<Rightarrow> bool" for mods where
  empty: "loaded_ok mods []"
| load: "loaded_ok mods es \<Longrightarrow> m_type (mods i) \<notin> set (mkeys es) \<Longrightarrow>
     imports_of mods i \<subseteq> set (mkeys es) \<Longrightarrow> set (mkeys ex) = declared_exports (mods i) \<Longrightarrow>
     loaded_ok mods (es @ [(m_type (mods i), ex)])"

text \<open>What a call of the loader may do to the application.\<close>

definition grows :: "(nat \<Rightarrow> module_decl) \<Rightarrow> 'w app \<Rightarrow> 'w app \<Rightarrow> bool" where
  "grows mods a b \<longleftrightarrow> a_container b = a_container a \<and> a_loading b = a_loading a \<and>
     (\<exists>new. a_moduleExports b = a_moduleExports a @ new \<and> set (mkeys new) \<inter> set (a_loading a) = {}) \<and>
     (loaded_ok mods (a_moduleExports a) \<longrightarrow> loaded_ok mods (a_moduleExports b))"

lemma grows_refl [simp]: "grows mods a a"
  by (simp add: grows_def mkeys_def)

lemma grows_trans:
  assumes "grows mods a b" and "grows mods b c"
  shows "grows mods a c"
proof -
  from assms obtain n1 n2 where "a_moduleExports b = a_moduleExports a @ n1"
      "a_moduleExports c = a_moduleExports b @ n2"
      "set (mkeys n1) \<inter> set (a_loading a) = {}" "set (mkeys n2) \<inter> set (a_loading a) = {}"
    by (auto simp: grows_def)
  then show ?thesis using assms
    unfolding grows_def by (intro conjI exI [of _ "n1 @ n2"]) (auto simp: mkeys_def)
qed

lemma grows_get: "grows mods a b \<Longrightarrow> mget (a_moduleExports a) t = Some ex \<Longrightarrow> mget (a_moduleExports b) t = Some ex"
  by (auto simp: grows_def mget_def map_add_def)

lemma grows_keys: "grows mods a b \<Longrightarrow> set (mkeys (a_moduleExports a)) \<subseteq> set (mkeys (a_moduleExports b))"
  by (auto simp: grows_def mkeys_def)

text \<open>The loop keeps what the loader keeps, and on success every import has been loaded.\<close>

lemma imports_loop_grows:
  assumes load: "\<And>m a b r. load m a = Some (b, r) \<Longrightarrow> grows mods a b \<and>
      (\<forall>ex. r = Inr ex \<longrightarrow> (\<exists>i. m = Some i \<and> mget (a_moduleExports b) (m_type (mods i)) = Some ex))"
    and "imports_loop load subs c a = Some (b, r)"
  shows "grows mods a b \<and> (\<forall>c'. r = Inr c' \<longrightarrow>
    (\<forall>s \<in> set subs. \<exists>i. s = Some i \<and> m_type (mods i) \<in> set (mkeys (a_moduleExports b))))"
  using assms(2)
proof (induction subs arbitrary: c a)
  case Nil
  then show ?case by auto
next
  case (Cons sub subs)
  then obtain a' r' where one: "load sub a = Some (a', r')" by (auto split: option.splits)
  note l = load [OF one]
  show ?case
  proof (cases r')
    case (Inl e)
    with Cons.prems one l show ?thesis by auto
  next
    case (Inr ex)
    with Cons.prems one have rest: "imports_loop load subs (put_all ex c) a' = Some (b, r)" by simp
    note ih = Cons.IH [OF rest]
    from l Inr obtain i where i: "sub = Some i" "mget (a_moduleExports a') (m_type (mods i)) = Some ex" by auto
    from ih have "grows mods a' b" by simp
    with i(2) have "mget (a_moduleExports b) (m_type (mods i)) = Some ex" by (blast intro: grows_get)
    then have "m_type (mods i) \<in> set (mkeys (a_moduleExports b))"
      using mget_None_iff [of "a_moduleExports b"] by (metis option.distinct(1))
    with ih i(1) l grows_trans show ?thesis by (auto intro: grows_trans)
  qed
qed

lemma exports_loop_keys:
  "exports_loop t c ps acc = Inr ex \<Longrightarrow>
     set (mkeys ex) = set (mkeys acc) \<union> {t. \<exists>p \<in> set ps. exportedProviderType p = Inr t}"
proof (induction ps arbitrary: acc)
  case Nil
  then show ?case by simp
next
  case (Cons p ps)
  from Cons.prems obtain u v where u: "exportedProviderType p = Inr u" "mget c u = Some v"
      "exports_loop t c ps (mput u v acc) = Inr ex"
    by (auto split: sum.splits option.splits)
  with Cons.IH [OF u(3)] show ?case by auto
qed

lemma load_rest_Inr:
  assumes "load_rest impl reg d c a = (b, Inr ex)"
  shows "a_moduleExports b = mput (m_type d) ex (a_moduleExports a)" "a_container b = a_container a"
    "a_loading b = a_loading a" "set (mkeys ex) = declared_exports d"
  using assms
  by (auto simp: load_rest_def declared_exports_def mkeys_def [of "[]"] dest!: exports_loop_keys
      split: sum.splits prod.splits option.splits)

lemma load_rest_Inl:
  assumes "load_rest impl reg d c a = (b, Inl e)"
  shows "a_moduleExports b = a_moduleExports a" "a_container b = a_container a" "a_loading b = a_loading a"
  using assms by (auto simp: load_rest_def split: sum.splits prod.splits option.splits)

text \<open>The step from the imports to the finished module.\<close>

lemma finish_grows:
  assumes "t = m_type (mods i)" and "mget (a_moduleExports a) t = None" and "t \<notin> set (a_loading a)"
    and g: "grows mods (a\<lparr>a_loading := t # a_loading a\<rparr>) m"
    and imps: "\<forall>s \<in> set (m_imports (mods i)). \<exists>k. s = Some k \<and> m_type (mods k) \<in> set (mkeys (a_moduleExports m))"
    and rest: "load_rest impl reg (mods i) c m = (b, r)"
  shows "grows mods a (b\<lparr>a_loading := removeAll t (a_loading b)\<rparr>) \<and>
    (\<forall>ex. r = Inr ex \<longrightarrow> mget (a_moduleExports b) t = Some ex)"
proof -
  from g obtain new where new: "a_moduleExports m = a_moduleExports a @ new"
      "set (mkeys new) \<inter> set (t # a_loading a) = {}" "a_container m = a_container a"
      "a_loading m = t # a_loading a"
      "loaded_ok mods (a_moduleExports a) \<longrightarrow> loaded_ok mods (a_moduleExports m)"
    by (auto simp: grows_def)
  have fresh: "t \<notin> set (mkeys (a_moduleExports m))"
    using assms(2) new(1,2) by (auto simp: mget_None_iff mkeys_def)
  have load: "removeAll t (t # a_loading a) = a_loading a" using assms(3) by simp
  show ?thesis
  proof (cases r)
    case (Inl e)
    with rest have "load_rest impl reg (mods i) c m = (b, Inl e)" by simp
    from load_rest_Inl [OF this] new load Inl show ?thesis
      by (auto simp: grows_def mkeys_def)
  next
    case (Inr ex)
    with rest have "load_rest impl reg (mods i) c m = (b, Inr ex)" by simp
    note b = load_rest_Inr [OF this]
    have eq: "a_moduleExports b = a_moduleExports m @ [(t, ex)]"
      using b(1) fresh assms(1) by (simp add: mput_fresh)
    have "imports_of mods i \<subseteq> set (mkeys (a_moduleExports m))"
      using imps by (auto simp: imports_of_def)
    with fresh b(4) assms(1) have "loaded_ok mods (a_moduleExports m) \<Longrightarrow> loaded_ok mods (a_moduleExports b)"
      unfolding eq by (auto intro: loaded_ok.load)
    moreover have "mget (a_moduleExports b) t = Some ex" using b(1) assms(1) by simp
    moreover have "a_moduleExports b = a_moduleExports a @ (new @ [(t, ex)])" using eq new(1) by simp
    ultimately show ?thesis
      using b(2,3) new load assms(3) Inr unfolding grows_def
      by (intro conjI exI [of _ "new @ [(t, ex)]"]) (auto simp: mkeys_def)
  qed
qed

lemma loadModule_grows:
  "loadModule fuel impl reg mods m a = Some (b, r) \<Longrightarrow> grows mods a b \<and>
     (\<forall>ex. r = Inr ex \<longrightarrow> (\<exists>i. m = Some i \<and> mget (a_moduleExports b) (m_type (mods i)) = Some ex))"
proof (induction fuel arbitrary: m a b r)
  case 0
  then show ?case by simp
next
  case (Suc fuel)
  show ?case
  proof (cases m)
    case None
    with Suc.prems show ?thesis by auto
  next
    case (Some i)
    define t where "t = m_type (mods i)"
    show ?thesis
    proof (cases "mget (a_moduleExports a) t \<noteq> None \<or> t \<in> set (a_loading a)")
      case True
      with Suc.prems Some show ?thesis by (auto simp: t_def Let_def split: option.splits if_splits)
    next
      case False
      let ?il = "imports_loop (loadModule fuel impl reg mods) (m_imports (mods i))
        (cloneContainer (a_container a)) (a\<lparr>a_loading := t # a_loading a\<rparr>)"
      from Suc.prems Some False obtain a' r' where il: "?il = Some (a', r')"
        by (auto simp: t_def Let_def split: option.splits)
      note loop = imports_loop_grows [where mods = mods, OF Suc.IH il]
      show ?thesis
      proof (cases r')
        case (Inl e)
        with Suc.prems Some False il have "b = a'\<lparr>a_loading := removeAll t (a_loading a')\<rparr>" "r = Inl e"
          by (auto simp: t_def Let_def)
        with loop False show ?thesis by (auto simp: grows_def)
      next
        case (Inr c)
        obtain b' where b': "load_rest impl reg (mods i) c a' = (b', r)"
            "b = b'\<lparr>a_loading := removeAll t (a_loading b')\<rparr>"
          using Suc.prems Some False il Inr
          by (cases "load_rest impl reg (mods i) c a'") (auto simp: t_def Let_def)
        have "grows mods a (b'\<lparr>a_loading := removeAll t (a_loading b')\<rparr>) \<and>
            (\<forall>ex. r = Inr ex \<longrightarrow> mget (a_moduleExports b') t = Some ex)"
          using finish_grows [of t mods i a a' impl reg c b' r] t_def False loop Inr b'(1) by simp
        with b'(2) Some show ?thesis by (simp add: t_def)
      qed
    qed
  qed
qed

section \<open>Termination\<close>

lemma imports_loop_total:
  assumes "\<And>m a. P a \<Longrightarrow> \<exists>b r. load m a = Some (b, r) \<and> P b" and "P a"
  shows "\<exists>b r. imports_loop load subs c a = Some (b, r)"
  using assms(2)
proof (induction subs arbitrary: c a)
  case Nil
  then show ?case by simp
next
  case (Cons sub subs)
  from assms(1) [OF Cons.prems, of sub] obtain b r where b: "load sub a = Some (b, r)" "P b" by blast
  with Cons.IH [OF b(2)] show ?case by (cases r) auto
qed

lemma loadModule_total:
  assumes "\<And>i. m_type (mods i) \<in> set ts"
  shows "card (set ts - set (a_loading a)) < fuel \<Longrightarrow> \<exists>b r. loadModule fuel impl reg mods m a = Some (b, r)"
proof (induction fuel arbitrary: m a)
  case 0
  then show ?case by simp
next
  case (Suc fuel)
  show ?case
  proof (cases m)
    case None
    then show ?thesis by simp
  next
    case (Some i)
    define t where "t = m_type (mods i)"
    show ?thesis
    proof (cases "mget (a_moduleExports a) t \<noteq> None \<or> t \<in> set (a_loading a)")
      case True
      with Some show ?thesis by (auto simp: t_def Let_def split: option.splits)
    next
      case False
      let ?a = "a\<lparr>a_loading := t # a_loading a\<rparr>"
      have "t \<in> set ts - set (a_loading a)" using assms False by (auto simp: t_def)
      then have "set ts - set (a_loading ?a) \<subset> set ts - set (a_loading a)" by auto
      then have "card (set ts - set (a_loading ?a)) < card (set ts - set (a_loading a))"
        by (intro psubset_card_mono) auto
      with Suc.prems have small: "card (set ts - set (a_loading ?a)) < fuel" by simp
      have "\<exists>b r. loadModule fuel impl reg mods m b' = Some (b, r) \<and> a_loading b = a_loading ?a"
        if "a_loading b' = a_loading ?a" for m b'
        using Suc.IH [of b' m] small that loadModule_grows [of fuel impl reg mods m b']
        by (fastforce simp: grows_def)
      then obtain b r where "imports_loop (loadModule fuel impl reg mods) (m_imports (mods i))
          (cloneContainer (a_container a)) ?a = Some (b, r)"
        using imports_loop_total [where P = "\<lambda>b. a_loading b = a_loading ?a"] by blast
      with Some False show ?thesis
        by (cases r) (auto simp: t_def Let_def split: prod.splits)
    qed
  qed
qed

section \<open>Acyclicity\<close>

definition import_rel :: "(nat \<Rightarrow> module_decl) \<Rightarrow> (rtype \<times> rtype) set" where
  "import_rel mods = {(m_type (mods i), m_type (mods k)) |i k. Some k \<in> set (m_imports (mods i))}"

text \<open>Where the type determines the imports, the loaded types are closed under import and acyclic.\<close>

lemma loaded_closed_acyclic:
  assumes "loaded_ok mods es"
    and det: "\<And>i j. m_type (mods i) = m_type (mods j) \<Longrightarrow> imports_of mods i = imports_of mods j"
  shows "(\<forall>t \<in> set (mkeys es). \<forall>u. (t, u) \<in> import_rel mods \<longrightarrow> u \<in> set (mkeys es)) \<and>
    (\<forall>t \<in> set (mkeys es). (t, t) \<notin> (import_rel mods)\<^sup>+)"
  using assms(1)
proof (induction rule: loaded_ok.induct)
  case empty
  then show ?case by (simp add: mkeys_def)
next
  case (load es i ex)
  let ?t = "m_type (mods i)"
  have closed: "u \<in> set (mkeys es)" if "(?t, u) \<in> import_rel mods" for u
  proof -
    from that obtain j k where jk: "?t = m_type (mods j)" "u = m_type (mods k)" "Some k \<in> set (m_imports (mods j))"
      by (auto simp: import_rel_def)
    then have "u \<in> imports_of mods j" by (auto simp: imports_of_def)
    with det [OF jk(1)] load.hyps(3) show ?thesis by blast
  qed
  have reach: "u \<in> set (mkeys es)" if "t \<in> set (mkeys es)" "(t, u) \<in> (import_rel mods)\<^sup>+" for t u
    using that(2)
  proof (induction rule: trancl_induct)
    case (base y)
    with load.IH that(1) show ?case by blast
  next
    case (step y z)
    with load.IH show ?case by blast
  qed
  have "(?t, ?t) \<notin> (import_rel mods)\<^sup>+"
  proof
    assume "(?t, ?t) \<in> (import_rel mods)\<^sup>+"
    then obtain u where "(?t, u) \<in> import_rel mods" "(u, ?t) \<in> (import_rel mods)\<^sup>*"
      by (blast dest: tranclD)
    moreover from this(1) have mem: "u \<in> set (mkeys es)" by (rule closed)
    ultimately have "u = ?t \<or> (u, ?t) \<in> (import_rel mods)\<^sup>+" by (auto simp: rtrancl_eq_or_trancl)
    with mem reach [OF mem] load.hyps(2) show False by blast
  qed
  moreover have "set (mkeys (es @ [(?t, ex)])) = insert ?t (set (mkeys es))" by (auto simp: mkeys_def)
  ultimately show ?case using load.IH closed by simp
qed

section \<open>Properties\<close>

text \<open>
  C36. Loading always ends: for a finite set of module types, however the modules import
  each other (cycles included), the loader returns, with exports or with a panic, once
  the recursion may go as deep as the number of types plus one.
\<close>

theorem load_terminates:
  assumes "\<And>i. m_type (mods i) \<in> set ts" and "card (set ts) < fuel"
  shows "\<exists>b r. loadModule fuel impl reg mods m a = Some (b, r)"
proof -
  have "card (set ts - set (a_loading a)) \<le> card (set ts)" by (intro card_mono) auto
  with assms show ?thesis by (intro loadModule_total [of mods ts a fuel]) auto
qed

text \<open>Two modules that import each other, and one that imports both ways in.\<close>

definition demo_mods :: "nat \<Rightarrow> module_decl" where
  "demo_mods i = (if i = 0
     then \<lparr>m_type = TStruct ''A'', m_imports = [Some 1], m_providers = [], m_controllers = [], m_exports = []\<rparr>
     else if i = 1
     then \<lparr>m_type = TStruct ''B'', m_imports = [Some 0], m_providers = [], m_controllers = [], m_exports = []\<rparr>
     else \<lparr>m_type = TStruct ''C'', m_imports = [], m_providers = [PValue (GVal (TPtr (TStruct ''Svc'')) 7 False),
       PValue (GVal (TPtr (TStruct ''Repo'')) 8 False)], m_controllers = [],
       m_exports = [PValue (GVal (TPtr (TStruct ''Svc'')) 7 False)]\<rparr>)"

definition fresh_app :: "unit app" where
  "fresh_app = \<lparr>a_container = [], a_moduleExports = [], a_loading = [], a_world = ()\<rparr>"

lemma demo_loads:
  "\<exists>b ex. loadModule 1 (\<lambda>_ _. False) (\<lambda>_ w. (w, False)) demo_mods (Some 2) fresh_app = Some (b, Inr ex)"
proof -
  have "case loadModule 1 (\<lambda>_ _. False) (\<lambda>_ w. (w, False)) demo_mods (Some 2) fresh_app of
      Some (b, Inr ex) \<Rightarrow> True | _ \<Rightarrow> False"
    by code_simp
  then show ?thesis
    by (auto simp del: loadModule.simps split: option.splits sum.splits) (metis sum.exhaust)
qed

theorem load_terminates_witness:
  "\<exists>b r. loadModule 4 (\<lambda>_ _. False) (\<lambda>_ w. (w, False)) demo_mods (Some 0) fresh_app = Some (b, r)"
proof (rule load_terminates)
  show "m_type (demo_mods i) \<in> set [TStruct ''A'', TStruct ''B'', TStruct ''C'']" for i
    by (simp add: demo_mods_def)
  show "card (set [TStruct ''A'', TStruct ''B'', TStruct ''C'']) < 4" by simp
qed

text \<open>
  A module graph that loads has no import cycle: when the type of a module
  determines its imports, after a successful load from a fresh application no loaded
  module reaches itself through imports, every import of a loaded module was completed
  before it, and the set of modules in progress is empty again.
\<close>

theorem loaded_graph_acyclic:
  assumes "loadModule fuel impl reg mods (Some i) a = Some (b, Inr exports)"
    and "a_moduleExports a = []"
    and "\<And>i j. m_type (mods i) = m_type (mods j) \<Longrightarrow> imports_of mods i = imports_of mods j"
  shows "(m_type (mods i), m_type (mods i)) \<notin> (import_rel mods)\<^sup>+ \<and>
    (\<forall>t. (m_type (mods i), t) \<in> (import_rel mods)\<^sup>+ \<longrightarrow>
      mget (a_moduleExports b) t \<noteq> None \<and> (t, t) \<notin> (import_rel mods)\<^sup>+) \<and>
    a_loading b = a_loading a"
proof -
  from loadModule_grows [OF assms(1)] have g: "grows mods a b"
    and i: "mget (a_moduleExports b) (m_type (mods i)) = Some exports" by auto
  have "loaded_ok mods (a_moduleExports a)" using assms(2) by (simp add: loaded_ok.empty)
  with g have ok: "loaded_ok mods (a_moduleExports b)" by (simp add: grows_def)
  note ac = loaded_closed_acyclic [OF ok assms(3)]
  from i have mem: "m_type (mods i) \<in> set (mkeys (a_moduleExports b))"
    using mget_None_iff [of "a_moduleExports b"] by (metis option.distinct(1))
  have "t \<in> set (mkeys (a_moduleExports b))" if "(m_type (mods i), t) \<in> (import_rel mods)\<^sup>+" for t
    using that
  proof (induction rule: trancl_induct)
    case (base y)
    with ac mem show ?case by blast
  next
    case (step y z)
    with ac show ?case by blast
  qed
  with ac mem have "\<forall>t. (m_type (mods i), t) \<in> (import_rel mods)\<^sup>+ \<longrightarrow>
      mget (a_moduleExports b) t \<noteq> None \<and> (t, t) \<notin> (import_rel mods)\<^sup>+"
    by (simp add: mget_None_iff)
  moreover have "a_loading b = a_loading a" using g by (simp add: grows_def)
  ultimately show ?thesis using ac mem by blast
qed

theorem loaded_graph_acyclic_witness:
  "(TStruct ''C'', TStruct ''C'') \<notin> (import_rel demo_mods)\<^sup>+"
proof -
  obtain b ex where l: "loadModule 1 (\<lambda>_ _. False) (\<lambda>_ w. (w, False)) demo_mods (Some 2) fresh_app =
      Some (b, Inr ex)"
    using demo_loads by blast
  have det: "imports_of demo_mods i = imports_of demo_mods j"
    if "m_type (demo_mods i) = m_type (demo_mods j)" for i j
    using that by (auto simp: imports_of_def demo_mods_def split: if_splits)
  have "m_type (demo_mods 2) = TStruct ''C''" by (simp add: demo_mods_def)
  with loaded_graph_acyclic [OF l _ det] show ?thesis by (simp add: fresh_app_def)
qed



end
