(* ===== verification/Lifecycle.thy ===== *)
theory Lifecycle
  imports Prelude
begin

text \<open>
  The application object outside routing (\<^verbatim>\<open>config.go\<close>, \<^verbatim>\<open>app.go\<close>, \<^verbatim>\<open>listen.go\<close>): the
  defaults of the configuration, the order of the built-in middleware, the controller
  observers, the start and shutdown hooks, and the ways of serving. Hooks and observers
  are code of the application: they are numbered, and what running one does is a
  parameter that maps the state to the state after it and its error. A hook may itself
  register further hooks. The HTTP server of the standard library appears through what
  \<^verbatim>\<open>Shutdown\<close> does (a parameter) and through the event that ends the wait.
\<close>

section \<open>The configuration\<close>

record config =
  Mode :: string
  DisableRecovery :: bool
  DisableBodyLimit :: bool
  MaxBodyBytes :: int
  RequestLogger :: bool
  RequestID :: bool
  DisableJSONFallbacks :: bool
  SecurityHeaders :: bool
  TrustedProxies :: "string list"
  TrustedPlatform :: string
  ReadHeaderTimeout :: int
  ReadTimeout :: int
  WriteTimeout :: int
  IdleTimeout :: int
  MaxHeaderBytes :: int
  ShutdownTimeout :: int
  DisableGracefulShutdown :: bool

text \<open>Durations count nanoseconds.\<close>

definition Second :: int where
  "Second = 1000000000"

definition DefaultMaxBodyBytes :: int where
  "DefaultMaxBodyBytes = push_bit 20 10"

definition DefaultReadHeaderTimeout :: int where
  "DefaultReadHeaderTimeout = 10 * Second"

definition DefaultIdleTimeout :: int where
  "DefaultIdleTimeout = 60 * Second"

definition DefaultShutdownTimeout :: int where
  "DefaultShutdownTimeout = 15 * Second"

definition DefaultMaxHeaderBytes :: int where
  "DefaultMaxHeaderBytes = push_bit 20 1"

text \<open>\<open>gin_mode\<close> is the value of the environment variable \<^verbatim>\<open>GIN_MODE\<close>.\<close>

definition withDefaults :: "string \<Rightarrow> config \<Rightarrow> config" where
  "withDefaults gin_mode c =
     (let c = (if Mode c = '''' then (if gin_mode \<noteq> '''' then c\<lparr>Mode := gin_mode\<rparr> else c\<lparr>Mode := ''release''\<rparr>) else c);
          c = (if MaxBodyBytes c \<le> 0 then c\<lparr>MaxBodyBytes := DefaultMaxBodyBytes\<rparr> else c);
          c = (if ReadHeaderTimeout c \<le> 0 then c\<lparr>ReadHeaderTimeout := DefaultReadHeaderTimeout\<rparr> else c);
          c = (if IdleTimeout c \<le> 0 then c\<lparr>IdleTimeout := DefaultIdleTimeout\<rparr> else c);
          c = (if MaxHeaderBytes c \<le> 0 then c\<lparr>MaxHeaderBytes := DefaultMaxHeaderBytes\<rparr> else c)
      in (if ShutdownTimeout c \<le> 0 then c\<lparr>ShutdownTimeout := DefaultShutdownTimeout\<rparr> else c))"

section \<open>The application\<close>

datatype middleware =
    RequestIDMiddleware
  | LoggerMiddleware
  | RecoveryMiddleware
  | SecurityHeadersMiddleware
  | BodyLimitMiddleware int

datatype err = ErrServerClosed | Err string | Wrap string err

text \<open>\<^verbatim>\<open>errors.Is(err, http.ErrServerClosed)\<close> looks through wrapping.\<close>

fun is_closed :: "err \<Rightarrow> bool" where
  "is_closed ErrServerClosed = True"
| "is_closed (Err s) = False"
| "is_closed (Wrap s e) = is_closed e"

record http_server =
  hs_Addr :: string
  hs_ReadHeaderTimeout :: int
  hs_ReadTimeout :: int
  hs_WriteTimeout :: int
  hs_IdleTimeout :: int
  hs_MaxHeaderBytes :: int

record 'w life =
  l_cfg :: config
  l_use :: "middleware list"
  l_fallbacks :: bool
  l_server :: "http_server option"
  l_onStart :: "nat list"
  l_onShutdown :: "nat list"
  l_onController :: "nat list"
  l_controllers :: "nat list"
  l_started :: bool
  l_world :: 'w

text \<open>A conditional \<^verbatim>\<open>engine.Use\<close>, which appends to the middleware of the engine.\<close>

definition use_if :: "bool \<Rightarrow> middleware \<Rightarrow> 'w life \<Rightarrow> 'w life" where
  "use_if b m a = (if b then a\<lparr>l_use := l_use a @ [m]\<rparr> else a)"

definition installBaseMiddleware :: "'w life \<Rightarrow> 'w life" where
  "installBaseMiddleware a =
     (let c = l_cfg a;
          a = use_if (RequestID c) RequestIDMiddleware a;
          a = use_if (RequestLogger c) LoggerMiddleware a;
          a = use_if (\<not> DisableRecovery c) RecoveryMiddleware a;
          a = use_if (SecurityHeaders c) SecurityHeadersMiddleware a;
          a = use_if (\<not> DisableBodyLimit c) (BodyLimitMiddleware (MaxBodyBytes c)) a
      in a\<lparr>l_fallbacks := (l_fallbacks a \<or> \<not> DisableJSONFallbacks c)\<rparr>)"

definition zero_config :: config where
  "zero_config = \<lparr>Mode = '''', DisableRecovery = False, DisableBodyLimit = False, MaxBodyBytes = 0,
     RequestLogger = False, RequestID = False, DisableJSONFallbacks = False, SecurityHeaders = False,
     TrustedProxies = [], TrustedPlatform = '''', ReadHeaderTimeout = 0, ReadTimeout = 0,
     WriteTimeout = 0, IdleTimeout = 0, MaxHeaderBytes = 0, ShutdownTimeout = 0,
     DisableGracefulShutdown = False\<rparr>"

definition NewApp :: "string \<Rightarrow> config list \<Rightarrow> 'w \<Rightarrow> 'w life" where
  "NewApp gin_mode cfgs w =
     (let cfg = withDefaults gin_mode (if cfgs \<noteq> [] then hd cfgs else zero_config)
      in installBaseMiddleware
           \<lparr>l_cfg = cfg, l_use = [], l_fallbacks = False, l_server = None, l_onStart = [],
            l_onShutdown = [], l_onController = [], l_controllers = [], l_started = False, l_world = w\<rparr>)"

subsection \<open>Controller observers\<close>

text \<open>
  \<open>obs f c w\<close>: observer \<open>f\<close> sees controller \<open>c\<close>; an error makes the caller panic, after the
  state has been changed.
\<close>

fun observe_each :: "(nat \<Rightarrow> nat \<Rightarrow> 'w \<Rightarrow> 'w \<times> err option) \<Rightarrow> (nat \<times> nat) list \<Rightarrow> 'w \<Rightarrow>
    'w \<times> err option" where
  "observe_each obs [] w = (w, None)"
| "observe_each obs ((f, c) # calls) w =
     (case obs f c w of
        (w', Some e) \<Rightarrow> (w', Some (Wrap ''nika: controller observer failed'' e))
      | (w', None) \<Rightarrow> observe_each obs calls w')"

definition OnController :: "(nat \<Rightarrow> nat \<Rightarrow> 'w \<Rightarrow> 'w \<times> err option) \<Rightarrow> nat option \<Rightarrow> 'w life \<Rightarrow>
    'w life \<times> err option" where
  "OnController obs observe a =
     (case observe of
        None \<Rightarrow> (a, None)
      | Some f \<Rightarrow>
          let existing = l_controllers a;
              a = a\<lparr>l_onController := l_onController a @ [f]\<rparr>;
              (w, e) = observe_each obs (map (\<lambda>c. (f, c)) existing) (l_world a)
          in (a\<lparr>l_world := w\<rparr>, e))"

definition notifyControllerObservers :: "(nat \<Rightarrow> nat \<Rightarrow> 'w \<Rightarrow> 'w \<times> err option) \<Rightarrow> nat \<Rightarrow>
    'w life \<Rightarrow> 'w life \<times> err option" where
  "notifyControllerObservers obs ctrl a =
     (let a = a\<lparr>l_controllers := l_controllers a @ [ctrl]\<rparr>;
          (w, e) = observe_each obs (map (\<lambda>f. (f, ctrl)) (l_onController a)) (l_world a)
      in (a\<lparr>l_world := w\<rparr>, e))"

subsection \<open>Hooks\<close>

definition OnStart :: "nat option \<Rightarrow> 'w life \<Rightarrow> 'w life" where
  "OnStart fn a = (case fn of None \<Rightarrow> a | Some f \<Rightarrow> a\<lparr>l_onStart := l_onStart a @ [f]\<rparr>)"

definition OnShutdown :: "nat option \<Rightarrow> 'w life \<Rightarrow> 'w life" where
  "OnShutdown fn a = (case fn of None \<Rightarrow> a | Some f \<Rightarrow> a\<lparr>l_onShutdown := l_onShutdown a @ [f]\<rparr>)"

fun start_loop :: "(nat \<Rightarrow> 'w life \<Rightarrow> 'w life \<times> err option) \<Rightarrow> nat list \<Rightarrow> 'w life \<Rightarrow>
    'w life \<times> err option" where
  "start_loop run [] a = (a, None)"
| "start_loop run (h # hs) a =
     (case run h a of (a', Some e) \<Rightarrow> (a', Some e) | (a', None) \<Rightarrow> start_loop run hs a')"

definition Start :: "(nat \<Rightarrow> 'w life \<Rightarrow> 'w life \<times> err option) \<Rightarrow> 'w life \<Rightarrow> 'w life \<times> err option" where
  "Start run a =
     (if l_started a then (a, None)
      else start_loop run (l_onStart a) (a\<lparr>l_started := True\<rparr>))"

text \<open>The loop counts down from the last index; \<open>n\<close> is the index plus one.\<close>

fun shutdown_loop :: "(nat \<Rightarrow> 'w life \<Rightarrow> 'w life \<times> err option) \<Rightarrow> nat list \<Rightarrow> nat \<Rightarrow> err option \<Rightarrow>
    'w life \<Rightarrow> 'w life \<times> err option" where
  "shutdown_loop run hooks 0 firstErr a = (a, firstErr)"
| "shutdown_loop run hooks (Suc i) firstErr a =
     (case run (hooks ! i) a of
        (a', e) \<Rightarrow> shutdown_loop run hooks i (if e \<noteq> None \<and> firstErr = None then e else firstErr) a')"

definition runShutdownHooks :: "(nat \<Rightarrow> 'w life \<Rightarrow> 'w life \<times> err option) \<Rightarrow> 'w life \<Rightarrow>
    'w life \<times> err option" where
  "runShutdownHooks run a = shutdown_loop run (l_onShutdown a) (length (l_onShutdown a)) None a"

section \<open>Serving\<close>

definition newServer :: "'w life \<Rightarrow> string \<Rightarrow> http_server" where
  "newServer a addr = \<lparr>hs_Addr = addr, hs_ReadHeaderTimeout = ReadHeaderTimeout (l_cfg a),
     hs_ReadTimeout = ReadTimeout (l_cfg a), hs_WriteTimeout = WriteTimeout (l_cfg a),
     hs_IdleTimeout = IdleTimeout (l_cfg a), hs_MaxHeaderBytes = MaxHeaderBytes (l_cfg a)\<rparr>"

text \<open>
  What ends the wait of \<^verbatim>\<open>serveWithGracefulShutdown\<close>: the serve goroutine returns, or a signal
  arrives. \<open>drain\<close> is \<^verbatim>\<open>server.Shutdown\<close>; behind it the serve goroutine answers within a
  second or not.
\<close>

datatype serve_event = ServeReturned "err option" | Signal

definition shutdown :: "(nat \<Rightarrow> 'w life \<Rightarrow> 'w life \<times> err option) \<Rightarrow>
    ('w life \<Rightarrow> 'w life \<times> err option) \<Rightarrow> err option option \<Rightarrow> 'w life \<Rightarrow> 'w life \<times> err option" where
  "shutdown run drain serveErr a =
     (let (a, shutdownErr) = drain a;
          shutdownErr =
            (case serveErr of
               Some (Some e) \<Rightarrow> if \<not> is_closed e \<and> shutdownErr = None then Some e else shutdownErr
             | _ \<Rightarrow> shutdownErr);
          (a, hookErr) = runShutdownHooks run a
      in (a, (case shutdownErr of
                Some e \<Rightarrow> Some (Wrap ''nika: graceful shutdown'' e)
              | None \<Rightarrow> map_option (Wrap ''nika: shutdown hook'') hookErr)))"

definition serveWithGracefulShutdown :: "(nat \<Rightarrow> 'w life \<Rightarrow> 'w life \<times> err option) \<Rightarrow>
    ('w life \<Rightarrow> 'w life \<times> err option) \<Rightarrow> serve_event \<Rightarrow> err option option \<Rightarrow> 'w life \<Rightarrow>
    'w life \<times> err option" where
  "serveWithGracefulShutdown run drain ev late a =
     (case ev of
        ServeReturned e \<Rightarrow>
          let (a, hookErr) = runShutdownHooks run a
          in (a, (case e of Some x \<Rightarrow> if \<not> is_closed x then Some x else hookErr | None \<Rightarrow> hookErr))
      | Signal \<Rightarrow> shutdown run drain late a)"

text \<open>
  \<^verbatim>\<open>Listen\<close>, \<^verbatim>\<open>ListenTLS\<close> and \<^verbatim>\<open>Serve\<close> differ in the address and in the call that serves;
  that call acts through \<open>ev\<close>. With graceful shutdown disabled no signal is intercepted: it
  ends the process, and the function does not return.
\<close>

definition Listen :: "(nat \<Rightarrow> 'w life \<Rightarrow> 'w life \<times> err option) \<Rightarrow>
    ('w life \<Rightarrow> 'w life \<times> err option) \<Rightarrow> string \<Rightarrow> serve_event \<Rightarrow> err option option \<Rightarrow> 'w life \<Rightarrow>
    ('w life \<times> err option) option" where
  "Listen run drain addr ev late a =
     (case Start run a of
        (a, Some e) \<Rightarrow> Some (a, Some (Wrap ''nika: start hook failed'' e))
      | (a, None) \<Rightarrow>
          let a = a\<lparr>l_server := Some (newServer a addr)\<rparr>
          in if DisableGracefulShutdown (l_cfg a) then
               (case ev of
                  ServeReturned (Some e) \<Rightarrow> Some (a, if \<not> is_closed e then Some e else None)
                | ServeReturned None \<Rightarrow> Some (a, None)
                | Signal \<Rightarrow> None)
             else Some (serveWithGracefulShutdown run drain ev late a))"

definition Shutdown :: "(nat \<Rightarrow> 'w life \<Rightarrow> 'w life \<times> err option) \<Rightarrow>
    ('w life \<Rightarrow> 'w life \<times> err option) \<Rightarrow> 'w life \<Rightarrow> 'w life \<times> err option" where
  "Shutdown run drain a =
     (let (a, shutdownErr) = (if l_server a \<noteq> None then drain a else (a, None));
          (a, hookErr) = runShutdownHooks run a
      in (a, if shutdownErr \<noteq> None then shutdownErr else hookErr))"

text \<open>
  \<^verbatim>\<open>RunWorkerContext\<close>; \<open>wait\<close> is what happens to the world until the context ends.
\<close>

definition RunWorkerContext :: "(nat \<Rightarrow> 'w life \<Rightarrow> 'w life \<times> err option) \<Rightarrow>
    ('w life \<Rightarrow> 'w life \<times> err option) \<Rightarrow> ('w life \<Rightarrow> 'w life) \<Rightarrow> 'w life \<Rightarrow> 'w life \<times> err option" where
  "RunWorkerContext run drain wait a =
     (case Start run a of
        (a, Some e) \<Rightarrow> (a, Some (Wrap ''nika: start hook failed'' e))
      | (a, None) \<Rightarrow>
          (case Shutdown run drain (wait a) of
             (a, Some e) \<Rightarrow> (a, Some (Wrap ''nika: worker shutdown'' e))
           | (a, None) \<Rightarrow> (a, None)))"

section \<open>Sequences of calls\<close>

lemma use_if_simps [simp]:
  "l_cfg (use_if b m a) = l_cfg a" "l_use (use_if b m a) = l_use a @ (if b then [m] else [])"
  by (simp_all add: use_if_def)

text \<open>
  The reference for the shutdown loop: run a list of hooks one after the other, whatever
  they return, and collect their errors.
\<close>

fun run_all :: "(nat \<Rightarrow> 'w life \<Rightarrow> 'w life \<times> err option) \<Rightarrow> nat list \<Rightarrow> 'w life \<Rightarrow>
    'w life \<times> err option list" where
  "run_all run [] a = (a, [])"
| "run_all run (h # hs) a = (let (b, e) = run h a; (c, es) = run_all run hs b in (c, e # es))"

fun first_error :: "err option list \<Rightarrow> err option" where
  "first_error [] = None"
| "first_error (Some e # es) = Some e"
| "first_error (None # es) = first_error es"

lemma shutdown_loop_run_all:
  "n \<le> length hooks \<Longrightarrow>
     shutdown_loop run hooks n fe a =
     (let (b, es) = run_all run (rev (take n hooks)) a in (b, first_error (fe # es)))"
proof (induction n arbitrary: fe a)
  case 0
  then show ?case by (cases fe) auto
next
  case (Suc i)
  obtain a' e where a': "run (hooks ! i) a = (a', e)" by fastforce
  have "rev (take (Suc i) hooks) = hooks ! i # rev (take i hooks)"
    using Suc.prems by (simp add: take_Suc_conv_app_nth)
  with Suc a' show ?case
    by (cases fe; cases e) (auto simp: Let_def split: prod.splits)
qed

lemma runShutdownHooks_run_all:
  "runShutdownHooks run a =
     (let (b, es) = run_all run (rev (l_onShutdown a)) a in (b, first_error es))"
  by (simp add: runShutdownHooks_def shutdown_loop_run_all)

lemma length_run_all [simp]: "length (snd (run_all run hs a)) = length hs"
  by (induction run hs a rule: run_all.induct) (auto simp: Let_def split: prod.splits)

lemma first_error_None: "first_error es = None \<longleftrightarrow> (\<forall>e \<in> set es. e = None)"
  by (induction es rule: first_error.induct) auto

text \<open>Setting up the application: observers and controllers in any order.\<close>

datatype setup_op = Observe nat | Register nat

definition setup_step :: "(nat \<Rightarrow> nat \<Rightarrow> 'w \<Rightarrow> 'w \<times> err option) \<Rightarrow> setup_op \<Rightarrow> 'w life \<Rightarrow>
    'w life \<times> err option" where
  "setup_step obs p a =
     (case p of Observe f \<Rightarrow> OnController obs (Some f) a | Register c \<Rightarrow> notifyControllerObservers obs c a)"

fun setup_ops :: "(nat \<Rightarrow> nat \<Rightarrow> 'w \<Rightarrow> 'w \<times> err option) \<Rightarrow> setup_op list \<Rightarrow> 'w life \<Rightarrow>
    'w life \<times> err option" where
  "setup_ops obs [] a = (a, None)"
| "setup_ops obs (p # ps) a =
     (case setup_step obs p a of
        (a', Some e) \<Rightarrow> (a', Some e) | (a', None) \<Rightarrow> setup_ops obs ps a')"

definition observers_of :: "setup_op list \<Rightarrow> nat list" where
  "observers_of ps = List.map_filter (\<lambda>p. case p of Observe f \<Rightarrow> Some f | Register c \<Rightarrow> None) ps"

definition controllers_of :: "setup_op list \<Rightarrow> nat list" where
  "controllers_of ps = List.map_filter (\<lambda>p. case p of Observe f \<Rightarrow> None | Register c \<Rightarrow> Some c) ps"

lemma observers_of_simps [simp]:
  "observers_of [] = []" "observers_of (Observe f # ps) = f # observers_of ps"
  "observers_of (Register c # ps) = observers_of ps"
  by (simp_all add: observers_of_def map_filter_simps)

lemma controllers_of_simps [simp]:
  "controllers_of [] = []" "controllers_of (Observe f # ps) = controllers_of ps"
  "controllers_of (Register c # ps) = c # controllers_of ps"
  by (simp_all add: controllers_of_def map_filter_simps)

lemma observe_each_append:
  "observe_each obs xs w = (w', None) \<Longrightarrow> observe_each obs (xs @ ys) w = observe_each obs ys w'"
  by (induction obs xs w rule: observe_each.induct) (auto split: prod.splits option.splits)

lemma count_list_product [simp]:
  "count_list (map (\<lambda>c. (f, c)) xs) (g, d) = (if f = g then count_list xs d else 0)"
  "count_list (map (\<lambda>g. (g, c)) xs) (g, d) = (if c = d then count_list xs g else 0)"
  by (induction xs) auto

text \<open>What one operation adds to the calls made so far.\<close>

lemma setup_step_calls:
  assumes "setup_step obs p a = (b, None)"
    and pre: "observe_each obs calls w = (l_world a, None)"
    and cnt: "\<And>f c. count_list calls (f, c) = count_list (l_onController a) f * count_list (l_controllers a) c"
  obtains calls' where "observe_each obs calls' w = (l_world b, None)"
    "\<And>f c. count_list calls' (f, c) = count_list (l_onController b) f * count_list (l_controllers b) c"
    "l_onController b = l_onController a @ observers_of [p]" "l_controllers b = l_controllers a @ controllers_of [p]"
proof (cases p)
  case (Observe f)
  let ?new = "map (\<lambda>c. (f, c)) (l_controllers a)"
  have "observe_each obs ?new (l_world a) = (l_world b, None)"
    "l_onController b = l_onController a @ [f]" "l_controllers b = l_controllers a"
    using assms(1) Observe by (auto simp: setup_step_def OnController_def Let_def split: prod.splits)
  with that [of "calls @ ?new"] cnt Observe observe_each_append [OF pre]
  show ?thesis by (auto simp: algebra_simps)
next
  case (Register c)
  let ?new = "map (\<lambda>f. (f, c)) (l_onController a)"
  have "observe_each obs ?new (l_world a) = (l_world b, None)"
    "l_onController b = l_onController a" "l_controllers b = l_controllers a @ [c]"
    using assms(1) Register
    by (auto simp: setup_step_def notifyControllerObservers_def Let_def split: prod.splits)
  with that [of "calls @ ?new"] cnt Register observe_each_append [OF pre]
  show ?thesis by (auto simp: algebra_simps)
qed

lemma setup_ops_calls:
  assumes "setup_ops obs ps a = (b, None)"
    and "observe_each obs calls w = (l_world a, None)"
    and "\<And>f c. count_list calls (f, c) = count_list (l_onController a) f * count_list (l_controllers a) c"
  shows "\<exists>calls'. observe_each obs calls' w = (l_world b, None) \<and>
    l_onController b = l_onController a @ observers_of ps \<and> l_controllers b = l_controllers a @ controllers_of ps \<and>
    (\<forall>f c. count_list calls' (f, c) = count_list (l_onController b) f * count_list (l_controllers b) c)"
  using assms
proof (induction ps arbitrary: a calls)
  case Nil
  then show ?case by auto
next
  case (Cons p ps)
  then obtain a' where step: "setup_step obs p a = (a', None)" and rest: "setup_ops obs ps a' = (b, None)"
    by (auto split: prod.splits option.splits)
  from setup_step_calls [OF step Cons.prems(2,3)] obtain calls' where
    c: "observe_each obs calls' w = (l_world a', None)"
      "\<And>f c. count_list calls' (f, c) = count_list (l_onController a') f * count_list (l_controllers a') c"
      "l_onController a' = l_onController a @ observers_of [p]" "l_controllers a' = l_controllers a @ controllers_of [p]"
    by metis
  from Cons.IH [OF rest c(1,2)] c(3,4) show ?case by (cases p) auto
qed

section \<open>Properties\<close>

text \<open>
  Setup order does not matter for controller observers: after any sequence of
  \<^verbatim>\<open>OnController\<close> calls and controller registrations that did not fail, the effect on the
  world is that of a list of observer calls in which every observer has been given every
  controller exactly once, the ones registered before it included.
\<close>

theorem every_observer_sees_every_controller:
  assumes "setup_ops obs ps a = (b, None)" and "l_onController a = []" and "l_controllers a = []"
  shows "\<exists>calls. observe_each obs calls (l_world a) = (l_world b, None) \<and>
    (\<forall>f c. count_list calls (f, c) = count_list (observers_of ps) f * count_list (controllers_of ps) c)"
  using setup_ops_calls [OF assms(1), of "[]" "l_world a"] assms(2,3) by auto

text \<open>Two controllers and an observer between them; the observer records what it is given.\<close>

definition record_obs :: "nat \<Rightarrow> nat \<Rightarrow> (nat \<times> nat) list \<Rightarrow> (nat \<times> nat) list \<times> err option" where
  "record_obs f c w = (w @ [(f, c)], None)"

theorem every_observer_sees_every_controller_witness:
  "\<exists>calls. observe_each record_obs calls [] =
     (l_world (fst (setup_ops record_obs [Register 10, Observe 1, Register 20] (NewApp '''' [] []))), None) \<and>
     (\<forall>f c. count_list calls (f, c) = count_list [1] f * count_list [10, 20] c)"
proof -
  let ?a = "NewApp '''' [] [] :: (nat \<times> nat) list life"
  have "setup_ops record_obs [Register 10, Observe 1, Register 20] ?a =
      (fst (setup_ops record_obs [Register 10, Observe 1, Register 20] ?a), None)"
    by code_simp
  moreover have "l_onController ?a = []" "l_controllers ?a = []" "l_world ?a = []" by code_simp+
  ultimately show ?thesis
    using every_observer_sees_every_controller [of record_obs "[Register 10, Observe 1, Register 20]" ?a]
    by simp
qed


text \<open>Hooks that append their number to a log; hook 2 fails.\<close>

definition log_hook :: "nat \<Rightarrow> nat list life \<Rightarrow> nat list life \<times> err option" where
  "log_hook h a = (a\<lparr>l_world := l_world a @ [h]\<rparr>, if h = 2 then Some (Err ''close failed'') else None)"

definition hooked_app :: "nat list life" where
  "hooked_app = OnShutdown (Some 3) (OnShutdown (Some 2) (OnShutdown (Some 1) (NewApp '''' [] [])))"


text \<open>
  Start hooks run at most once: if hooks leave the started flag set, a second \<^verbatim>\<open>Start\<close>
  after any first one (a failed one included) changes nothing and reports success.
\<close>

theorem start_is_idempotent:
  assumes "\<And>h s. l_started s \<Longrightarrow> l_started (fst (run h s))"
  shows "Start run (fst (Start run a)) = (fst (Start run a), None)"
proof -
  have "l_started s \<Longrightarrow> l_started (fst (start_loop run hs s))" for hs s
  proof (induction hs arbitrary: s)
    case (Cons h hs)
    obtain b e where b: "run h s = (b, e)" by fastforce
    with assms [OF Cons.prems, of h] Cons.IH show ?case by (cases e) simp_all
  qed simp
  then have "l_started (fst (Start run a))" by (simp add: Start_def)
  then show ?thesis by (simp add: Start_def)
qed

theorem start_is_idempotent_witness:
  "Start log_hook (fst (Start log_hook (OnStart (Some 2) hooked_app))) =
     (fst (Start log_hook (OnStart (Some 2) hooked_app)), None) \<and>
   snd (Start log_hook (OnStart (Some 2) hooked_app)) \<noteq> None"
proof -
  have "l_started (fst (log_hook h s))" if "l_started s" for h s using that by (simp add: log_hook_def)
  then have "Start log_hook (fst (Start log_hook (OnStart (Some 2) hooked_app))) =
     (fst (Start log_hook (OnStart (Some 2) hooked_app)), None)"
    by (rule start_is_idempotent)
  moreover have "snd (Start log_hook (OnStart (Some 2) hooked_app)) \<noteq> None" by code_simp
  ultimately show ?thesis by simp
qed

lemma run_all_log: "run_all (\<lambda>h a. (a\<lparr>l_world := l_world a @ [h]\<rparr>, None)) hs a =
    (a\<lparr>l_world := l_world a @ hs\<rparr>, map (\<lambda>_. None) hs)"
  by (induction hs arbitrary: a) (auto simp: Let_def)

text \<open>
  Stopping a server with \<^verbatim>\<open>Shutdown\<close> runs the shutdown hooks twice: \<^verbatim>\<open>Shutdown\<close> runs them,
  and the goroutine in \<^verbatim>\<open>Listen\<close>, whose serve call then returns \<^verbatim>\<open>ErrServerClosed\<close>, runs them
  again. With hooks that record their number, the log grows by the hooks in reverse order
  two times over.
\<close>

theorem shutdown_hooks_run_twice:
  "l_world (fst (serveWithGracefulShutdown (\<lambda>h a. (a\<lparr>l_world := l_world a @ [h]\<rparr>, None)) (\<lambda>s. (s, None))
       (ServeReturned (Some ErrServerClosed)) late
       (fst (Shutdown (\<lambda>h a. (a\<lparr>l_world := l_world a @ [h]\<rparr>, None)) (\<lambda>s. (s, None)) a)))) =
     l_world a @ rev (l_onShutdown a) @ rev (l_onShutdown a)"
  by (simp add: serveWithGracefulShutdown_def Shutdown_def runShutdownHooks_run_all run_all_log Let_def
      split: prod.splits)

text \<open>
  Every application starts hardened: whatever configuration is given, the limits in
  effect are positive, a positive limit of the caller is kept, applying the defaults again
  changes nothing, and the built-in middleware stands in the one order request id, access
  log, recovery, response headers, body limit, each present exactly when configured.
\<close>

theorem new_app_hardened:
  "let c = (if cfgs \<noteq> [] then hd cfgs else zero_config); a = NewApp g cfgs w; d = l_cfg a
   in d = withDefaults g c \<and> withDefaults g d = d \<and> Mode d \<noteq> '''' \<and>
      MaxBodyBytes d > 0 \<and> ReadHeaderTimeout d > 0 \<and> IdleTimeout d > 0 \<and> MaxHeaderBytes d > 0 \<and>
      ShutdownTimeout d > 0 \<and> max 0 (MaxBodyBytes c) \<in> {0, MaxBodyBytes d} \<and>
      max 0 (ReadHeaderTimeout c) \<in> {0, ReadHeaderTimeout d} \<and>
      newServer a addr = \<lparr>hs_Addr = addr, hs_ReadHeaderTimeout = ReadHeaderTimeout d, hs_ReadTimeout = ReadTimeout c,
        hs_WriteTimeout = WriteTimeout c, hs_IdleTimeout = IdleTimeout d, hs_MaxHeaderBytes = MaxHeaderBytes d\<rparr> \<and>
      l_use a = filter (\<lambda>m. case m of RequestIDMiddleware \<Rightarrow> RequestID c | LoggerMiddleware \<Rightarrow> RequestLogger c
          | RecoveryMiddleware \<Rightarrow> \<not> DisableRecovery c | SecurityHeadersMiddleware \<Rightarrow> SecurityHeaders c
          | BodyLimitMiddleware n \<Rightarrow> \<not> DisableBodyLimit c)
        [RequestIDMiddleware, LoggerMiddleware, RecoveryMiddleware, SecurityHeadersMiddleware,
         BodyLimitMiddleware (MaxBodyBytes d)]"
proof -
  define c where "c = (if cfgs \<noteq> [] then hd cfgs else zero_config)"
  have cfg: "l_cfg (NewApp g cfgs w) = withDefaults g c"
    by (simp add: NewApp_def installBaseMiddleware_def Let_def c_def)
  note defaults = DefaultMaxBodyBytes_def DefaultReadHeaderTimeout_def DefaultIdleTimeout_def
    DefaultShutdownTimeout_def DefaultMaxHeaderBytes_def Second_def push_bit_eq_mult
  have limits: "Mode (withDefaults g c) \<noteq> ''''" "MaxBodyBytes (withDefaults g c) > 0"
    "ReadHeaderTimeout (withDefaults g c) > 0" "IdleTimeout (withDefaults g c) > 0"
    "MaxHeaderBytes (withDefaults g c) > 0" "ShutdownTimeout (withDefaults g c) > 0"
    "max 0 (MaxBodyBytes c) \<in> {0, MaxBodyBytes (withDefaults g c)}"
    "max 0 (ReadHeaderTimeout c) \<in> {0, ReadHeaderTimeout (withDefaults g c)}"
    by (simp_all add: withDefaults_def Let_def defaults)
  then have idem: "withDefaults g (withDefaults g c) = withDefaults g c"
    by (subst withDefaults_def) (simp add: Let_def)
  have flags: "RequestID (withDefaults g c) = RequestID c" "RequestLogger (withDefaults g c) = RequestLogger c"
    "DisableRecovery (withDefaults g c) = DisableRecovery c" "SecurityHeaders (withDefaults g c) = SecurityHeaders c"
    "DisableBodyLimit (withDefaults g c) = DisableBodyLimit c" "ReadTimeout (withDefaults g c) = ReadTimeout c"
    "WriteTimeout (withDefaults g c) = WriteTimeout c"
    by (simp_all add: withDefaults_def Let_def)
  have mw: "l_use (NewApp g cfgs w) = filter (\<lambda>m. case m of RequestIDMiddleware \<Rightarrow> RequestID c | LoggerMiddleware \<Rightarrow> RequestLogger c
          | RecoveryMiddleware \<Rightarrow> \<not> DisableRecovery c | SecurityHeadersMiddleware \<Rightarrow> SecurityHeaders c
          | BodyLimitMiddleware n \<Rightarrow> \<not> DisableBodyLimit c)
        [RequestIDMiddleware, LoggerMiddleware, RecoveryMiddleware, SecurityHeadersMiddleware,
         BodyLimitMiddleware (MaxBodyBytes (withDefaults g c))]"
    unfolding NewApp_def c_def [symmetric] Let_def
    by (simp add: installBaseMiddleware_def flags Let_def)
  show ?thesis
    using limits idem flags mw unfolding c_def [symmetric] Let_def
    by (simp add: cfg newServer_def)
qed

end
