(* ===== verification/Middleware.thy ===== *)
theory Middleware
  imports Lifecycle "HOL-Library.Word"
begin

text \<open>
  The built-in middleware (\<^verbatim>\<open>middleware.go\<close>). A handler maps the context of a request to an
  outcome: it returns, or it panics, leaving the context as it was at that moment. What is
  downstream of a middleware (\<^verbatim>\<open>c.Next()\<close>) is an argument. The Gin functions that write a
  response or stop the chain are parameters, collected in a record.
\<close>

section \<open>Requests and responses\<close>

text \<open>
  A request body with the readers \<^verbatim>\<open>http.MaxBytesReader\<close> wrapped around it: reading past the
  cap of any of them is an error.
\<close>

record body =
  b_content :: "8 word list"
  b_caps :: "int list"

definition readAll :: "body \<Rightarrow> 8 word list option" where
  "readAll b = (if \<exists>n \<in> set (b_caps b). int (length (b_content b)) > n then None else Some (b_content b))"

datatype key_value = KString string | KOther

datatype level = LevelInfo | LevelWarn | LevelError

record log_line =
  g_level :: level
  g_status :: int
  g_path :: string
  g_request_id :: "string option"

record ctx =
  q_Method :: string
  q_Path :: string
  q_RequestIDHeader :: string
  q_ContentLength :: int
  q_Body :: "body option"
  q_TLS :: bool
  c_Keys :: "(string, key_value) gomap"
  c_Header :: "(string, string) gomap"
  c_Status :: int
  c_log :: "log_line list"

text \<open>The values a panic may carry; \<^verbatim>\<open>errors.As\<close> looks for a \<^verbatim>\<open>*net.OpError\<close> in the chain.\<close>

datatype go_error = OpError string | OtherError string | WrapError go_error

datatype panic_value = PanicError go_error | PanicOther

datatype outcome = Returned ctx | Panicked panic_value ctx

type_synonym handler = "ctx \<Rightarrow> outcome"

text \<open>The body of an error response: its code and message.\<close>

type_synonym error_doc = "int \<times> string"

record gin =
  AbortWithStatusJSON :: "int \<Rightarrow> error_doc \<Rightarrow> ctx \<Rightarrow> ctx"
  Abort :: "ctx \<Rightarrow> ctx"
  Written :: "ctx \<Rightarrow> bool"

section \<open>The middleware\<close>

fun as_op_error :: "go_error \<Rightarrow> string option" where
  "as_op_error (OpError msg) = Some msg"
| "as_op_error (OtherError msg) = None"
| "as_op_error (WrapError e) = as_op_error e"

definition isBrokenPipe :: "(string \<Rightarrow> string) \<Rightarrow> panic_value \<Rightarrow> bool" where
  "isBrokenPipe uni recovered =
     (case recovered of
        PanicOther \<Rightarrow> False
      | PanicError e \<Rightarrow>
          (case as_op_error e of
             None \<Rightarrow> False
           | Some text \<Rightarrow>
               let msg = ToLower uni text
               in Contains msg ''broken pipe'' \<or> Contains msg ''connection reset by peer''))"

text \<open>The log entries of the recovery are left out: they do not concern the response.\<close>

definition Recovery :: "(string \<Rightarrow> string) \<Rightarrow> gin \<Rightarrow> handler \<Rightarrow> handler" where
  "Recovery uni g next c =
     (case next c of
        Returned c' \<Rightarrow> Returned c'
      | Panicked recovered c' \<Rightarrow>
          if isBrokenPipe uni recovered then Returned (Abort g c')
          else if Written g c' then Returned (Abort g c')
          else Returned (AbortWithStatusJSON g 500 (500, ''INTERNAL_SERVER_ERROR'') c'))"

definition BodyLimit :: "gin \<Rightarrow> int \<Rightarrow> handler \<Rightarrow> handler" where
  "BodyLimit g maxBytes next c =
     (let maxBytes = (if maxBytes \<le> 0 then DefaultMaxBodyBytes else maxBytes)
      in if q_ContentLength c > maxBytes then
           Returned (AbortWithStatusJSON g 413 (413, ''PAYLOAD_TOO_LARGE'') c)
         else next (c\<lparr>q_Body := map_option (\<lambda>b. b\<lparr>b_caps := maxBytes # b_caps b\<rparr>) (q_Body c)\<rparr>))"

definition maxInboundRequestIDLen :: nat where
  "maxInboundRequestIDLen = 64"

definition id_char :: "char \<Rightarrow> bool" where
  "id_char c \<longleftrightarrow> in_range (CHR ''a'') (CHR ''z'') c \<or> in_range (CHR ''A'') (CHR ''Z'') c \<or>
     in_range (CHR ''0'') (CHR ''9'') c \<or> c = CHR ''-'' \<or> c = CHR ''_'' \<or> c = CHR ''.''"

fun id_loop :: "string \<Rightarrow> bool" where
  "id_loop [] = True"
| "id_loop (c # cs) = (if id_char c then id_loop cs else False)"

definition sanitizeRequestID :: "string \<Rightarrow> string" where
  "sanitizeRequestID s =
     (if s = '''' \<or> length s > maxInboundRequestIDLen then ''''
      else if id_loop s then s else '''')"

text \<open>Digits in a base up to 36 (\<^verbatim>\<open>strconv.FormatInt\<close>), and two hexadecimal digits for a byte.\<close>

definition base_digit :: "nat \<Rightarrow> char" where
  "base_digit d = ''0123456789abcdefghijklmnopqrstuvwxyz'' ! d"

fun show_base :: "nat \<Rightarrow> nat \<Rightarrow> string" where
  "show_base b n = (if b < 2 \<or> n < b then [base_digit (if b < 2 then 0 else n)]
     else show_base b (n div b) @ [base_digit (n mod b)])"

declare show_base.simps [simp del]

definition FormatInt :: "int \<Rightarrow> nat \<Rightarrow> string" where
  "FormatInt i b = (if i < 0 then CHR ''-'' # show_base b (nat (- i)) else show_base b (nat i))"

definition EncodeToString :: "8 word list \<Rightarrow> string" where
  "EncodeToString bs = concat (map (\<lambda>w. [base_digit (unat w div 16), base_digit (unat w mod 16)]) bs)"

text \<open>\<open>rnd\<close> is what \<^verbatim>\<open>rand.Read\<close> delivers (nothing when it fails), \<open>now\<close> the clock.\<close>

definition newRequestID :: "8 word list option \<Rightarrow> int \<Rightarrow> string" where
  "newRequestID rnd now =
     (case rnd of None \<Rightarrow> ''ts-'' @ FormatInt now 36 | Some buf \<Rightarrow> EncodeToString buf)"

definition RequestIDHeader :: string where
  "RequestIDHeader = ''X-Request-ID''"

definition requestIDContextKey :: string where
  "requestIDContextKey = ''nika.request_id''"

definition RequestID_mw :: "8 word list option \<Rightarrow> int \<Rightarrow> handler \<Rightarrow> handler" where
  "RequestID_mw rnd now next c =
     (let rid = sanitizeRequestID (q_RequestIDHeader c);
          rid = (if rid = '''' then newRequestID rnd now else rid)
      in next (c\<lparr>c_Keys := mput requestIDContextKey (KString rid) (c_Keys c),
                 c_Header := mput RequestIDHeader rid (c_Header c)\<rparr>))"

definition RequestIDFrom :: "ctx option \<Rightarrow> string" where
  "RequestIDFrom c =
     (case c of
        None \<Rightarrow> ''''
      | Some c \<Rightarrow> (case mget (c_Keys c) requestIDContextKey of Some (KString s) \<Rightarrow> s | _ \<Rightarrow> ''''))"

definition SecurityHeaders_mw :: "handler \<Rightarrow> handler" where
  "SecurityHeaders_mw next c =
     (let h = c_Header c;
          h = mput ''X-Content-Type-Options'' ''nosniff'' h;
          h = mput ''X-Frame-Options'' ''DENY'' h;
          h = mput ''Referrer-Policy'' ''strict-origin-when-cross-origin'' h;
          h = mput ''Cross-Origin-Opener-Policy'' ''same-origin'' h;
          h = mput ''X-XSS-Protection'' ''0'' h;
          h = (if q_TLS c then mput ''Strict-Transport-Security'' ''max-age=31536000; includeSubDomains'' h else h)
      in next (c\<lparr>c_Header := h\<rparr>))"

text \<open>
  The access log: a panic downstream unwinds past it. Of the attributes of a line, the ones
  that depend on clocks, addresses and sizes are left out.
\<close>

definition log_level :: "int \<Rightarrow> level" where
  "log_level status = (if status \<ge> 500 then LevelError else if status \<ge> 400 then LevelWarn else LevelInfo)"

definition Logger_mw :: "handler \<Rightarrow> handler" where
  "Logger_mw next c =
     (case next c of
        Panicked v c' \<Rightarrow> Panicked v c'
      | Returned c' \<Rightarrow>
          let rid = RequestIDFrom (Some c')
          in Returned (c'\<lparr>c_log := c_log c' @
               [\<lparr>g_level = log_level (c_Status c'), g_status = c_Status c', g_path = q_Path c,
                 g_request_id = (if rid \<noteq> '''' then Some rid else None)\<rparr>]\<rparr>))"

text \<open>The handler behind each entry of the engine's middleware list.\<close>

definition middleware_fun :: "(string \<Rightarrow> string) \<Rightarrow> gin \<Rightarrow> 8 word list option \<Rightarrow> int \<Rightarrow> middleware \<Rightarrow>
    handler \<Rightarrow> handler" where
  "middleware_fun uni g rnd now m =
     (case m of
        RequestIDMiddleware \<Rightarrow> RequestID_mw rnd now
      | LoggerMiddleware \<Rightarrow> Logger_mw
      | RecoveryMiddleware \<Rightarrow> Recovery uni g
      | SecurityHeadersMiddleware \<Rightarrow> SecurityHeaders_mw
      | BodyLimitMiddleware n \<Rightarrow> BodyLimit g n)"

section \<open>Request ids\<close>

lemma id_loop_all: "id_loop s \<longleftrightarrow> list_all id_char s"
  by (induction s) auto

lemma id_char_digit: "d < 36 \<Longrightarrow> id_char (base_digit d)"
proof -
  have "list_all id_char ''0123456789abcdefghijklmnopqrstuvwxyz''" by code_simp
  then show "d < 36 \<Longrightarrow> id_char (base_digit d)"
    unfolding base_digit_def by (subst (asm) list_all_length) simp
qed

lemma show_base_chars: "2 \<le> b \<Longrightarrow> b \<le> 36 \<Longrightarrow> list_all id_char (show_base b n)"
proof (induction b n rule: show_base.induct)
  case (1 b n)
  then have "n mod b < 36" by (auto intro: less_le_trans [of _ b])
  with 1 show ?case by (subst show_base.simps) (auto intro!: id_char_digit)
qed

lemma show_base_length: "2 \<le> b \<Longrightarrow> n < b ^ k \<Longrightarrow> 0 < k \<Longrightarrow> length (show_base b n) \<le> k"
proof (induction k arbitrary: n)
  case (Suc k)
  show ?case
  proof (cases "n < b")
    case True
    then show ?thesis by (subst show_base.simps) simp
  next
    case False
    with Suc.prems have "0 < k" by (cases k) auto
    moreover have "n div b < b ^ k"
      using Suc.prems by (simp add: less_mult_imp_div_less mult.commute)
    ultimately have "length (show_base b (n div b)) \<le> k" using Suc by simp
    with False show ?thesis by (subst show_base.simps) auto
  qed
qed simp

lemma show_base_nonempty [simp]: "show_base b n \<noteq> []"
  by (subst show_base.simps) simp

lemma EncodeToString_ok: "list_all id_char (EncodeToString bs)" "length (EncodeToString bs) = 2 * length bs"
proof -
  have "unat w div 16 < 16" "unat w mod 16 < 16" for w :: "8 word"
    using unsigned_less [where 'a = nat, of w] by (simp_all add: less_mult_imp_div_less)
  then have "id_char (base_digit (unat w div 16)) \<and> id_char (base_digit (unat w mod 16))" for w :: "8 word"
    by (intro conjI id_char_digit) (rule less_trans [of _ 16], simp_all)+
  then show "list_all id_char (EncodeToString bs)"
    by (induction bs) (auto simp: EncodeToString_def)
  show "length (EncodeToString bs) = 2 * length bs" by (induction bs) (auto simp: EncodeToString_def)
qed

lemma newRequestID_ok:
  assumes "\<And>bs. rnd = Some bs \<Longrightarrow> length bs = 16" and "- (2 ^ 63) \<le> now" and "now < 2 ^ 63"
  shows "newRequestID rnd now \<noteq> ''''" "length (newRequestID rnd now) \<le> 64" "list_all id_char (newRequestID rnd now)"
proof -
  have "nat \<bar>now\<bar> \<le> 2 ^ 63" using assms(2,3) by auto
  also have "(2::nat) ^ 63 < 36 ^ 13" by simp
  finally have len: "length (show_base 36 (nat \<bar>now\<bar>)) \<le> 13" by (intro show_base_length) auto
  have chars: "list_all id_char (show_base 36 n)" for n by (rule show_base_chars) auto
  have dash: "list_all id_char ''ts-''" "id_char (CHR ''-'')" by code_simp+
  have fmt: "FormatInt now 36 = (if now < 0 then ''-'' else []) @ show_base 36 (nat \<bar>now\<bar>)"
    by (auto simp: FormatInt_def)
  show "newRequestID rnd now \<noteq> ''''"
  proof (cases rnd)
    case (Some bs)
    then have "length (EncodeToString bs) = 32" using assms(1) [of bs] by (simp add: EncodeToString_ok(2))
    then show ?thesis using Some by (auto simp: newRequestID_def)
  qed (simp add: newRequestID_def)
  show "length (newRequestID rnd now) \<le> 64"
    using assms(1) len by (cases rnd) (auto simp: newRequestID_def fmt EncodeToString_ok)
  show "list_all id_char (newRequestID rnd now)"
    using chars dash by (cases rnd) (auto simp: newRequestID_def fmt EncodeToString_ok)
qed

text \<open>
  Request ids are safe to echo: whatever the client sent, the id that goes to the
  handlers, the logs and the response is the client's own when that is well formed and a
  fresh one otherwise; it is never empty, has at most 64 characters and consists of
  letters, digits, dash, underscore and dot only, so that it passes the check itself.
\<close>

theorem request_id_safe:
  assumes "\<And>bs. rnd = Some bs \<Longrightarrow> length bs = 16" and "- (2 ^ 63) \<le> now" and "now < 2 ^ 63"
  shows "\<exists>rid. RequestID_mw rnd now next c =
      next (c\<lparr>c_Keys := mput requestIDContextKey (KString rid) (c_Keys c),
              c_Header := mput RequestIDHeader rid (c_Header c)\<rparr>) \<and>
    RequestIDFrom (Some (c\<lparr>c_Keys := mput requestIDContextKey (KString rid) (c_Keys c)\<rparr>)) = rid \<and>
    rid \<noteq> '''' \<and> length rid \<le> 64 \<and> list_all id_char rid \<and> sanitizeRequestID rid = rid \<and>
    (rid = q_RequestIDHeader c \<or> rid = newRequestID rnd now) \<and>
    (sanitizeRequestID (q_RequestIDHeader c) = q_RequestIDHeader c \<and> q_RequestIDHeader c \<noteq> '''' \<longrightarrow>
       rid = q_RequestIDHeader c)"
proof -
  define rid where "rid = (if sanitizeRequestID (q_RequestIDHeader c) = '''' then newRequestID rnd now
    else sanitizeRequestID (q_RequestIDHeader c))"
  note new = newRequestID_ok [OF assms]
  have ok: "rid \<noteq> ''''" "length rid \<le> 64" "list_all id_char rid" "rid = q_RequestIDHeader c \<or> rid = newRequestID rnd now"
    using new by (auto simp: rid_def sanitizeRequestID_def maxInboundRequestIDLen_def id_loop_all split: if_splits)
  then have "sanitizeRequestID rid = rid"
    by (simp add: sanitizeRequestID_def maxInboundRequestIDLen_def id_loop_all)
  with ok show ?thesis
    by (intro exI [of _ rid]) (auto simp: RequestID_mw_def rid_def RequestIDFrom_def Let_def)
qed

definition demo_ctx :: ctx where
  "demo_ctx = \<lparr>q_Method = ''GET'', q_Path = ''/x'', q_RequestIDHeader = ''a b'', q_ContentLength = 3,
     q_Body = Some \<lparr>b_content = [1, 2, 3], b_caps = []\<rparr>, q_TLS = False, c_Keys = [], c_Header = [],
     c_Status = 200, c_log = []\<rparr>"

theorem request_id_safe_witness:
  "\<exists>rid. RequestID_mw None 5 Returned demo_ctx =
      Returned (demo_ctx\<lparr>c_Keys := mput requestIDContextKey (KString rid) [],
        c_Header := mput RequestIDHeader rid []\<rparr>) \<and> sanitizeRequestID rid = rid \<and> rid \<noteq> ''''"
  using request_id_safe [of None 5 Returned demo_ctx] by (auto simp: demo_ctx_def)

section \<open>The chain\<close>

text \<open>
  \<open>chain\<close> is Gin running a list of handlers in front of an endpoint: \<^verbatim>\<open>Next\<close> runs the pending
  handlers inside the calling one.
\<close>

definition chain_law :: "((handler \<Rightarrow> handler) list \<Rightarrow> handler \<Rightarrow> handler) \<Rightarrow> bool" where
  "chain_law chain \<longleftrightarrow> (\<forall>h. chain [] h = h) \<and> (\<forall>m ms h. chain (m # ms) h = m (chain ms h))"

text \<open>A response written by Gin keeps the log.\<close>

definition gin_keeps_log :: "gin \<Rightarrow> bool" where
  "gin_keeps_log g \<longleftrightarrow> (\<forall>c n d. c_log (AbortWithStatusJSON g n d c) = c_log c) \<and> (\<forall>c. c_log (Abort g c) = c_log c)"

fun out_ctx :: "outcome \<Rightarrow> ctx" where
  "out_ctx (Returned c) = c"
| "out_ctx (Panicked v c) = c"

lemma Recovery_returns: "\<exists>c'. Recovery uni g next c = Returned c'"
  by (auto simp: Recovery_def split: outcome.splits)

lemma Recovery_log:
  assumes "gin_keeps_log g" and "\<And>c. c_log (out_ctx (next c)) = c_log c"
  shows "c_log (out_ctx (Recovery uni g next c)) = c_log c"
proof (cases "next c")
  case (Returned c')
  with assms(2) [of c] show ?thesis by (simp add: Recovery_def)
next
  case (Panicked v c')
  with assms(2) [of c] have "c_log c' = c_log c" by simp
  with assms(1) Panicked show ?thesis by (simp add: Recovery_def gin_keeps_log_def)
qed

lemma SecurityHeaders_log:
  "(\<And>c. c_log (out_ctx (next c)) = c_log c) \<Longrightarrow> c_log (out_ctx (SecurityHeaders_mw next c)) = c_log c"
  by (simp add: SecurityHeaders_mw_def Let_def)

lemma BodyLimit_log:
  assumes "gin_keeps_log g" and "\<And>c. c_log (out_ctx (next c)) = c_log c"
  shows "c_log (out_ctx (BodyLimit g n next c)) = c_log c"
  using assms by (simp add: BodyLimit_def gin_keeps_log_def Let_def)

lemma RequestID_inner: "\<exists>c'. RequestID_mw rnd now next c = next c' \<and> c_log c' = c_log c"
  by (auto simp: RequestID_mw_def Let_def)

lemma Logger_of_returning:
  assumes "\<And>c. \<exists>c'. next c = Returned c' \<and> c_log c' = c_log c"
  shows "\<exists>c' l. Logger_mw next c = Returned c' \<and> c_log c' = c_log c @ [l] \<and> g_status l = c_Status c'"
proof -
  from assms obtain c' where "next c = Returned c'" "c_log c' = c_log c" by blast
  then show ?thesis by (simp add: Logger_mw_def Let_def)
qed

text \<open>
  C32. No panic escapes and every request is logged once: with recovery and the access log
  configured, whatever the endpoint does (it may panic with any value at any point), serving
  a request through the middleware of a new application returns, and the access log has
  grown by exactly one line, which carries the status of the response.
\<close>

theorem panics_contained_and_logged:
  assumes "chain_law chain" and "gin_keeps_log g" and "\<And>c. c_log (out_ctx (endpoint c)) = c_log c"
    and "cfg = hd cfgs" and "cfgs \<noteq> []" and "RequestLogger cfg" and "\<not> DisableRecovery cfg"
  shows "\<exists>c' l. chain (map (middleware_fun uni g rnd now) (l_use (NewApp gm cfgs w))) endpoint c = Returned c' \<and>
    c_log c' = c_log c @ [l] \<and> g_status l = c_Status c'"
proof -
  let ?d = "withDefaults gm cfg"
  have flags: "RequestLogger ?d" "\<not> DisableRecovery ?d" using assms(6,7) by (simp_all add: withDefaults_def Let_def)
  have use: "l_use (NewApp gm cfgs w) = (if RequestID ?d then [RequestIDMiddleware] else []) @
      LoggerMiddleware # RecoveryMiddleware # (if SecurityHeaders ?d then [SecurityHeadersMiddleware] else []) @
      (if DisableBodyLimit ?d then [] else [BodyLimitMiddleware (MaxBodyBytes ?d)])"
    using assms(4,5) flags by (simp add: NewApp_def installBaseMiddleware_def Let_def)
  let ?inner = "chain (map (middleware_fun uni g rnd now)
      ((if SecurityHeaders ?d then [SecurityHeadersMiddleware] else []) @
       (if DisableBodyLimit ?d then [] else [BodyLimitMiddleware (MaxBodyBytes ?d)]))) endpoint"
  have cons: "chain (m # ms) h = m (chain ms h)" and nil: "chain [] h = h" for m ms h
    using assms(1) by (simp_all add: chain_law_def)
  have "c_log (out_ctx (?inner c)) = c_log c" for c
    using assms(2,3) by (simp add: cons nil middleware_fun_def SecurityHeaders_log BodyLimit_log)
  then have "c_log (out_ctx (Recovery uni g ?inner c)) = c_log c" for c by (intro Recovery_log assms(2))
  then have "\<exists>c'. Recovery uni g ?inner c = Returned c' \<and> c_log c' = c_log c" for c
    using Recovery_returns [of uni g ?inner c] by (metis out_ctx.simps(1))
  note log = Logger_of_returning [OF this]
  have "chain (map (middleware_fun uni g rnd now) (l_use (NewApp gm cfgs w))) endpoint =
      (if RequestID ?d then RequestID_mw rnd now (Logger_mw (Recovery uni g ?inner)) else Logger_mw (Recovery uni g ?inner))"
    unfolding use by (simp add: cons middleware_fun_def)
  with log RequestID_inner [of rnd now "Logger_mw (Recovery uni g ?inner)" c] show ?thesis by metis
qed

text \<open>A Gin that only sets the status, and an endpoint that always panics.\<close>

definition demo_gin :: gin where
  "demo_gin = \<lparr>AbortWithStatusJSON = (\<lambda>n d c. c\<lparr>c_Status := n\<rparr>), Abort = (\<lambda>c. c), Written = (\<lambda>c. False)\<rparr>"

definition demo_cfg :: config where
  "demo_cfg = zero_config\<lparr>RequestLogger := True\<rparr>"

theorem panics_contained_and_logged_witness:
  "\<exists>c' l. foldr (\<lambda>m. m) (map (middleware_fun (\<lambda>s. s) demo_gin None 5) (l_use (NewApp '''' [demo_cfg] ())))
      (Panicked PanicOther) demo_ctx = Returned c' \<and> c_log c' = [l] \<and> g_status l = c_Status c'"
proof -
  have c: "chain_law (\<lambda>ms. foldr (\<lambda>m. m) ms)" by (simp add: chain_law_def)
  have g: "gin_keeps_log demo_gin" by (simp add: gin_keeps_log_def demo_gin_def)
  have "c_log demo_ctx = []" by (simp add: demo_ctx_def)
  with panics_contained_and_logged [OF c g, of "Panicked PanicOther" demo_cfg "[demo_cfg]" "\<lambda>s. s" None 5 "''''" "()" demo_ctx]
  show ?thesis by (simp add: demo_cfg_def zero_config_def)
qed

text \<open>
  No handler sees more of a body than the limit: downstream of the body limit, two
  handlers that agree wherever reading the body yields at most the limit's number of bytes
  or an error give the same outcome, and a request that declares a larger body is answered
  413 without any handler running.
\<close>

theorem body_limit_enforced:
  assumes "\<And>c. (\<forall>b. q_Body c = Some b \<longrightarrow> (\<forall>bs. readAll b = Some bs \<longrightarrow> int (length bs) \<le> limit)) \<Longrightarrow> h1 c = h2 c"
    and "limit = (if n \<le> 0 then DefaultMaxBodyBytes else n)"
  shows "BodyLimit g n h1 c = BodyLimit g n h2 c \<and>
    (limit < q_ContentLength c \<longrightarrow>
       BodyLimit g n h1 c = Returned (AbortWithStatusJSON g 413 (413, ''PAYLOAD_TOO_LARGE'') c))"
proof -
  let ?c = "c\<lparr>q_Body := map_option (\<lambda>b. b\<lparr>b_caps := limit # b_caps b\<rparr>) (q_Body c)\<rparr>"
  have "h1 ?c = h2 ?c" by (rule assms(1)) (auto simp: readAll_def)
  then show ?thesis using assms(2) by (simp add: BodyLimit_def Let_def)
qed

theorem body_limit_enforced_witness:
  "BodyLimit demo_gin 2 (\<lambda>c. if map_option readAll (q_Body c) = Some (Some [1, 2, 3]) then Panicked PanicOther c else Returned c) demo_ctx =
   BodyLimit demo_gin 2 Returned demo_ctx"
proof -
  let ?h = "\<lambda>c. if map_option readAll (q_Body c) = Some (Some [1, 2, 3]) then Panicked PanicOther c else Returned c"
  have "?h c = Returned c"
    if "\<forall>b. q_Body c = Some b \<longrightarrow> (\<forall>bs. readAll b = Some bs \<longrightarrow> int (length bs) \<le> 2)" for c
    using that by fastforce
  from body_limit_enforced [of 2 ?h Returned 2 demo_gin demo_ctx, OF this] show ?thesis by simp
qed

end
