(* ===== verification/Envelope.thy ===== *)
theory Envelope
  imports Router Middleware
begin

text \<open>
  The wire format of the microservice layer (\<^verbatim>\<open>common/microservice/envelope.go\<close>). Encoding and
  decoding JSON is done by the standard library through reflection on the struct tags; it
  stays a parameter here, a record of the functions the code calls, and what the code
  relies on is stated as laws where it is used. Byte strings are strings.
\<close>

section \<open>The code\<close>

datatype details = NoDetails | DText string | DJson string

record envelope_error =
  x_Code :: int
  x_Message :: string
  x_Details :: details

record envelope =
  e_ID :: string
  e_Pattern :: string
  e_Data :: string
  e_Headers :: "(string, string) gomap"
  e_ReplyTo :: string
  e_Status :: int
  e_Error :: "envelope_error option"
  e_SentAt :: int

datatype msg_error =
    EmptyMessage
  | MessageTooLarge nat
  | MalformedEnvelope string
  | NoPattern
  | BadPattern pattern_error
  | CannotEncode string
  | ErrNoHandler
  | ErrTimeout
  | ErrClosed
  | ErrNotSupported
  | ErrCanceled
  | Failed string
  | Remote envelope_error

text \<open>\<^verbatim>\<open>(*EnvelopeError).Error\<close>.\<close>

definition EnvelopeError_Error :: "envelope_error option \<Rightarrow> string" where
  "EnvelopeError_Error e =
     (case e of
        None \<Rightarrow> ''''
      | Some e \<Rightarrow> ''microservice: '' @ x_Message e @ '' (code '' @ show_int (x_Code e) @ '')'')"

text \<open>What a caller may pass as a payload.\<close>

datatype 'v payload = PNil | PRaw string | PBytes string | PString string | PAny 'v

text \<open>
  The functions of \<^verbatim>\<open>encoding/json\<close> in use: \<^verbatim>\<open>Valid\<close>, \<^verbatim>\<open>Marshal\<close> of a byte slice, of a string and
  of any other value, \<^verbatim>\<open>Marshal\<close> and \<^verbatim>\<open>Unmarshal\<close> of an envelope, and \<^verbatim>\<open>Unmarshal\<close> into the
  struct that frames an error.
\<close>

record 'v json =
  j_Valid :: "string \<Rightarrow> bool"
  j_bytes :: "string \<Rightarrow> (string, string) result"
  j_string :: "string \<Rightarrow> (string, string) result"
  j_value :: "'v \<Rightarrow> (string, string) result"
  j_encode :: "envelope \<Rightarrow> (string, string) result"
  j_decode :: "string \<Rightarrow> (string, envelope) result"
  j_frame :: "string \<Rightarrow> (string, envelope_error option) result"

definition maxEnvelopeBytes :: nat where
  "maxEnvelopeBytes = push_bit 20 8"

definition encodePayload :: "'v json \<Rightarrow> 'v payload \<Rightarrow> (msg_error, string) result" where
  "encodePayload j payload =
     (case payload of
        PNil \<Rightarrow> Inr []
      | PRaw v \<Rightarrow> Inr v
      | PBytes v \<Rightarrow>
          if j_Valid j v then Inr v
          else (case j_bytes j v of Inl e \<Rightarrow> Inl (Failed e) | Inr d \<Rightarrow> Inr d)
      | PString v \<Rightarrow> (case j_string j v of Inl e \<Rightarrow> Inl (Failed e) | Inr d \<Rightarrow> Inr d)
      | PAny v \<Rightarrow> (case j_value j v of Inl e \<Rightarrow> Inl (CannotEncode e) | Inr d \<Rightarrow> Inr d))"

text \<open>\<^verbatim>\<open>NewID\<close>; \<open>rnd\<close> is what the random source delivered (a failure of it panics).\<close>

definition NewID :: "8 word list \<Rightarrow> string" where
  "NewID rnd = EncodeToString rnd"

definition NewEnvelope :: "'v json \<Rightarrow> 8 word list \<Rightarrow> int \<Rightarrow> string \<Rightarrow> 'v payload \<Rightarrow>
    (msg_error, envelope) result" where
  "NewEnvelope j rnd now pattern payload =
     and_then (encodePayload j payload) (\<lambda>data.
       Inr \<lparr>e_ID = NewID rnd, e_Pattern = pattern, e_Data = data, e_Headers = [], e_ReplyTo = '''',
            e_Status = 0, e_Error = None, e_SentAt = now\<rparr>)"

definition Encode :: "'v json \<Rightarrow> envelope \<Rightarrow> (msg_error, string) result" where
  "Encode j e = (case j_encode j e of Inl err \<Rightarrow> Inl (Failed err) | Inr raw \<Rightarrow> Inr raw)"

definition DecodeEnvelope :: "'v json \<Rightarrow> string \<Rightarrow> (msg_error, envelope) result" where
  "DecodeEnvelope j raw =
     (if length raw = 0 then Inl EmptyMessage
      else if length raw > maxEnvelopeBytes then Inl (MessageTooLarge (length raw))
      else (case j_decode j raw of
          Inl e \<Rightarrow> Inl (MalformedEnvelope e)
        | Inr env \<Rightarrow>
            if e_Pattern env = '''' then Inl NoPattern
            else (case Validate (e_Pattern env) of
                Some e \<Rightarrow> Inl (BadPattern e)
              | None \<Rightarrow> Inr env)))"

text \<open>\<^verbatim>\<open>Bind\<close>; \<open>decode\<close> is \<^verbatim>\<open>json.Unmarshal\<close> into the caller's variable.\<close>

definition Bind :: "(string \<Rightarrow> (string, 'o) result) \<Rightarrow> envelope \<Rightarrow> (msg_error, 'o) result" where
  "Bind decode e =
     (if length (e_Data e) = 0 then Inl (Failed ''microservice: envelope has no payload'')
      else (case decode (e_Data e) of Inl err \<Rightarrow> Inl (Failed err) | Inr v \<Rightarrow> Inr v))"

definition Header :: "envelope \<Rightarrow> string \<Rightarrow> string" where
  "Header e key = (case mget (e_Headers e) key of None \<Rightarrow> '''' | Some v \<Rightarrow> v)"

definition WithHeader :: "string \<Rightarrow> string \<Rightarrow> envelope \<Rightarrow> envelope" where
  "WithHeader key value e = e\<lparr>e_Headers := mput key value (e_Headers e)\<rparr>"

definition replyError :: "envelope \<Rightarrow> int \<Rightarrow> string \<Rightarrow> string \<Rightarrow> envelope" where
  "replyError env status code message =
     \<lparr>e_ID = e_ID env, e_Pattern = e_Pattern env, e_Data = '''', e_Headers = [], e_ReplyTo = '''',
      e_Status = status, e_Error = Some \<lparr>x_Code = status, x_Message = code, x_Details = DText message\<rparr>,
      e_SentAt = 0\<rparr>"

section \<open>Decoding\<close>

lemma DecodeEnvelope_Inr:
  "DecodeEnvelope j raw = Inr env \<longleftrightarrow>
     raw \<noteq> [] \<and> length raw \<le> maxEnvelopeBytes \<and> j_decode j raw = Inr env \<and> Validate (e_Pattern env) = None"
proof -
  have "Validate '''' \<noteq> None" by code_simp
  then show ?thesis by (auto simp: DecodeEnvelope_def split: sum.splits option.splits if_splits)
qed

end
