(* ===== verification/Dispatch.thy ===== *)
theory Dispatch
  imports Envelope
begin

text \<open>
  From a message to a handler and back (\<^verbatim>\<open>common/microservice/dispatch.go\<close>): every route is
  mounted on a private Gin engine under a generated path, an envelope becomes a request to
  that path, and the captured response becomes the reply envelope. The engine is a
  parameter \<open>serve\<close>: given its middleware, its table of mounted paths, a request and the
  response writer, the response writer afterwards.
\<close>

section \<open>Paths\<close>

definition internalRoutePrefix :: string where
  "internalRoutePrefix = ''/_nika/message/''"

definition alnum_char :: "char \<Rightarrow> bool" where
  "alnum_char c \<longleftrightarrow> in_range (CHR ''a'') (CHR ''z'') c \<or> in_range (CHR ''A'') (CHR ''Z'') c \<or>
     in_range (CHR ''0'') (CHR ''9'') c"

fun sanitize_loop :: "string \<Rightarrow> string" where
  "sanitize_loop [] = []"
| "sanitize_loop (c # s) = (if alnum_char c then c # sanitize_loop s else sanitize_loop s)"

definition sanitizeToken :: "string \<Rightarrow> string" where
  "sanitizeToken s = (let b = sanitize_loop s in if length b = 0 then ''t'' else b)"

text \<open>The counter is a package variable, shared by all dispatchers; it is threaded through.\<close>

definition routeToken :: "route \<Rightarrow> nat \<Rightarrow> nat \<times> string" where
  "routeToken route routeCounter =
     (let n = routeCounter + 1
      in (n, sanitizeToken (r_transport route) @ ''-'' @ show_nat n))"

record 'h dispatcher =
  d_use :: "'h list"
  d_table :: "(string \<times> 'h list) list"

definition newDispatcher :: "'h \<Rightarrow> 'h \<Rightarrow> 'h list \<Rightarrow> bool \<Rightarrow> 'h dispatcher" where
  "newDispatcher seed recover middleware recovery =
     \<lparr>d_use = [seed] @ (if recovery then [recover] else []) @ (if length middleware > 0 then middleware else []),
      d_table = []\<rparr>"

definition mount :: "'h dispatcher \<Rightarrow> nat \<Rightarrow> route_heap \<Rightarrow> route_ptr \<Rightarrow> 'h list \<Rightarrow>
    'h dispatcher \<times> nat \<times> route_heap" where
  "mount d counter h route handlers =
     (let (n, tok) = routeToken (h route) counter;
          path = internalRoutePrefix @ tok;
          h' = h(route := (h route)\<lparr>r_path := path, r_url := Some path\<rparr>)
      in (d\<lparr>d_table := d_table d @ [(path, handlers)]\<rparr>, n, h'))"

section \<open>Requests\<close>

record request =
  rq_Path :: string
  rq_Header :: "(string, string) gomap"
  rq_Body :: string
  rq_ContentLength :: int
  rq_Host :: string
  rq_RemoteAddr :: string
  rq_env :: envelope
  rq_route :: route_ptr

definition internalHost :: string where
  "internalHost = ''nika.internal''"

definition contentTypeJSON :: string where
  "contentTypeJSON = ''application/json; charset=utf-8''"

definition hopByHopHeaders :: "string list" where
  "hopByHopHeaders = [''content-length'', ''transfer-encoding'', ''connection'', ''keep-alive'', ''host'',
     ''upgrade'', ''content-type'', ''expect'', ''te'', ''trailer'', ''proxy-authorization'']"

text \<open>
  \<^verbatim>\<open>http.Header.Set\<close> stores under the canonical form of the key: a key of token characters is
  capitalised after every dash, any other key is kept.
\<close>

definition token_char :: "char \<Rightarrow> bool" where
  "token_char c \<longleftrightarrow> alnum_char c \<or> c \<in> set ''!#$%&*+-.^_`|~'' \<or> c = CHR 0x27"

fun canon_loop :: "bool \<Rightarrow> string \<Rightarrow> string" where
  "canon_loop upper [] = []"
| "canon_loop upper (c # s) =
     (if upper then upper_char c else lower_char c) # canon_loop (c = CHR ''-'') s"

definition CanonicalMIMEHeaderKey :: "string \<Rightarrow> string" where
  "CanonicalMIMEHeaderKey k = (if list_all token_char k then canon_loop True k else k)"

definition header_blocked :: "(string \<Rightarrow> string) \<Rightarrow> string \<Rightarrow> string \<Rightarrow> bool" where
  "header_blocked uni key value \<longleftrightarrow>
     key = '''' \<or> ContainsAny key [CHR 0x0D, CHR 0x0A, CHR 0x00, CHR '':''] \<or>
     ContainsAny value [CHR 0x0D, CHR 0x0A, CHR 0x00] \<or>
     ToLower uni key \<in> set hopByHopHeaders \<or>
     ToLower uni key = ''x-forwarded-for'' \<or> ToLower uni key = ''x-real-ip''"

text \<open>The loop over the headers of the envelope, in the order the map yields them.\<close>

fun apply_headers :: "(string \<Rightarrow> string) \<Rightarrow> (string \<times> string) list \<Rightarrow> (string, string) gomap \<Rightarrow>
    (string, string) gomap" where
  "apply_headers uni [] hdr = hdr"
| "apply_headers uni ((key, value) # rest) hdr =
     (if header_blocked uni key value then apply_headers uni rest hdr
      else apply_headers uni rest (mput (CanonicalMIMEHeaderKey key) value hdr))"

definition applyEnvelopeHeaders :: "(string \<Rightarrow> string) \<Rightarrow> request \<Rightarrow> envelope \<Rightarrow> request" where
  "applyEnvelopeHeaders uni req env =
     req\<lparr>rq_Header := apply_headers uni (e_Headers env) (rq_Header req)\<rparr>"

section \<open>Responses\<close>

record responseCapture =
  rc_body :: string
  rc_status :: int
  rc_wroteHeader :: bool

definition WriteHeader :: "int \<Rightarrow> responseCapture \<Rightarrow> responseCapture" where
  "WriteHeader status r =
     (if rc_wroteHeader r then r else r\<lparr>rc_wroteHeader := True, rc_status := status\<rparr>)"

definition Write :: "string \<Rightarrow> responseCapture \<Rightarrow> responseCapture" where
  "Write p r =
     (let r = (if \<not> rc_wroteHeader r then WriteHeader 200 r else r)
      in r\<lparr>rc_body := rc_body r @ p\<rparr>)"

definition new_capture :: responseCapture where
  "new_capture = \<lparr>rc_body = '''', rc_status = 0, rc_wroteHeader = False\<rparr>"

text \<open>
  \<^verbatim>\<open>%q\<close> in an error text: on printable ASCII the string in quotes with quote and backslash
  escaped; on any other string \<open>quo\<close> stands for it.
\<close>

definition Quote :: "(string \<Rightarrow> string) \<Rightarrow> string \<Rightarrow> string" where
  "Quote quo s =
     (if list_all (in_range (CHR 0x20) (CHR 0x7E)) s
      then [CHR 0x22] @ concat (map (\<lambda>c. if c \<in> {CHR 0x22, CHR 0x5C} then [CHR 0x5C, c] else [c]) s) @ [CHR 0x22]
      else quo s)"

text \<open>\<^verbatim>\<open>http.StatusText\<close> of the error statuses.\<close>

definition StatusText :: "int \<Rightarrow> string" where
  "StatusText code =
     (case map_of
        [(400, ''Bad Request''), (401, ''Unauthorized''), (402, ''Payment Required''), (403, ''Forbidden''),
         (404, ''Not Found''), (405, ''Method Not Allowed''), (406, ''Not Acceptable''),
         (407, ''Proxy Authentication Required''), (408, ''Request Timeout''), (409, ''Conflict''),
         (410, ''Gone''), (411, ''Length Required''), (412, ''Precondition Failed''),
         (413, ''Request Entity Too Large''), (414, ''Request URI Too Long''),
         (415, ''Unsupported Media Type''), (416, ''Requested Range Not Satisfiable''),
         (417, ''Expectation Failed''), (418, ''I'' @ [CHR 0x27] @ ''m a teapot''), (421, ''Misdirected Request''),
         (422, ''Unprocessable Entity''), (423, ''Locked''), (424, ''Failed Dependency''), (425, ''Too Early''),
         (426, ''Upgrade Required''), (428, ''Precondition Required''), (429, ''Too Many Requests''),
         (431, ''Request Header Fields Too Large''), (451, ''Unavailable For Legal Reasons''),
         (500, ''Internal Server Error''), (501, ''Not Implemented''), (502, ''Bad Gateway''),
         (503, ''Service Unavailable''), (504, ''Gateway Timeout''), (505, ''HTTP Version Not Supported''),
         (506, ''Variant Also Negotiates''), (507, ''Insufficient Storage''), (508, ''Loop Detected''),
         (510, ''Not Extended''), (511, ''Network Authentication Required'')] code of
        None \<Rightarrow> '''' | Some t \<Rightarrow> t)"

definition extractError :: "'v json \<Rightarrow> int \<Rightarrow> string \<Rightarrow> envelope_error" where
  "extractError j status payload =
     (case j_frame j payload of
        Inr (Some framed) \<Rightarrow>
          \<lparr>x_Code = (if x_Code framed = 0 then status else x_Code framed), x_Message = x_Message framed,
           x_Details = x_Details framed\<rparr>
      | _ \<Rightarrow> \<lparr>x_Code = status, x_Message = StatusText status, x_Details = NoDetails\<rparr>)"

definition buildReply :: "'v json \<Rightarrow> envelope \<Rightarrow> responseCapture \<Rightarrow> envelope" where
  "buildReply j env recorder =
     (let status = (if rc_status recorder = 0 then 200 else rc_status recorder);
          payload = rc_body recorder;
          data = (if length payload > 0 \<and> j_Valid j payload then payload
                  else if length payload > 0
                    then (case j_string j payload of Inr encoded \<Rightarrow> encoded | Inl e \<Rightarrow> '''')
                  else '''')
      in \<lparr>e_ID = e_ID env, e_Pattern = e_Pattern env, e_Data = data, e_Headers = [], e_ReplyTo = '''',
          e_Status = status, e_Error = (if status \<ge> 400 then Some (extractError j status payload) else None),
          e_SentAt = 0\<rparr>)"

type_synonym 'h engine = "'h list \<Rightarrow> (string \<times> 'h list) list \<Rightarrow> request \<Rightarrow> responseCapture \<Rightarrow> responseCapture"

definition dispatchRoute :: "(string \<Rightarrow> string) \<Rightarrow> (string \<Rightarrow> string) \<Rightarrow> 'v json \<Rightarrow> 'h engine \<Rightarrow> 'h dispatcher \<Rightarrow> route_heap \<Rightarrow>
    envelope option \<Rightarrow> route_ptr option \<Rightarrow> envelope option \<times> msg_error option" where
  "dispatchRoute uni quo j serve d h env route =
     (case env of
        None \<Rightarrow> (None, Some (Failed ''microservice: nil envelope''))
      | Some env \<Rightarrow>
          (case route of
             None \<Rightarrow> (Some (replyError env 404 ''PATTERN_NOT_FOUND''
                 (''no handler is mounted for pattern '' @ Quote quo (e_Pattern env))), Some ErrNoHandler)
           | Some a \<Rightarrow>
               if r_path (h a) = '''' then (Some (replyError env 404 ''PATTERN_NOT_FOUND''
                 (''no handler is mounted for pattern '' @ Quote quo (e_Pattern env))), Some ErrNoHandler)
               else let body = (if length (e_Data env) = 0 then ''null'' else e_Data env);
                        req = \<lparr>rq_Path = the (r_url (h a)), rq_Header = [(''Content-Type'', contentTypeJSON)],
                               rq_Body = body, rq_ContentLength = int (length body), rq_Host = internalHost,
                               rq_RemoteAddr = ''127.0.0.1:0'', rq_env = env, rq_route = a\<rparr>;
                        req = applyEnvelopeHeaders uni req env;
                        recorder = serve (d_use d) (d_table d) req new_capture
                    in (Some (buildReply j env recorder), None)))"

text \<open>
  What handlers see of the message: the seeding middleware copies envelope and route from the
  request to the Gin context, where \<^verbatim>\<open>MessageFrom\<close>, \<^verbatim>\<open>PatternFrom\<close> and \<^verbatim>\<open>RouteFrom\<close> read them.
\<close>

record msg_ctx =
  mc_envelope :: "envelope option"
  mc_route :: "route_ptr option"

definition contextSeedMiddleware :: "(envelope \<times> route_ptr) option \<Rightarrow> msg_ctx \<Rightarrow> msg_ctx" where
  "contextSeedMiddleware carried c =
     (case carried of
        Some (env, route) \<Rightarrow> c\<lparr>mc_envelope := Some env, mc_route := Some route\<rparr>
      | None \<Rightarrow> c)"

definition MessageFrom :: "msg_ctx option \<Rightarrow> envelope option" where
  "MessageFrom c = (case c of None \<Rightarrow> None | Some c \<Rightarrow> mc_envelope c)"

definition PatternFrom :: "msg_ctx option \<Rightarrow> string" where
  "PatternFrom c = (case MessageFrom c of Some env \<Rightarrow> e_Pattern env | None \<Rightarrow> '''')"

definition RouteFrom :: "msg_ctx option \<Rightarrow> route_ptr option" where
  "RouteFrom c = (case c of None \<Rightarrow> None | Some c \<Rightarrow> mc_route c)"

definition IsMessage :: "msg_ctx option \<Rightarrow> bool" where
  "IsMessage c \<longleftrightarrow> MessageFrom c \<noteq> None"

section \<open>Characters\<close>

lemma char_cases_ball: "(\<forall>c :: char. P c) \<longleftrightarrow> list_all P (Enum.enum :: char list)"
  by (simp add: list_all_iff enum_UNIV)

lemma of_char_case:
  "(of_char (lower_char c) :: nat) = (if 65 \<le> (of_char c :: nat) \<and> (of_char c :: nat) \<le> 90 then of_char c + 32 else of_char c)"
  "(of_char (upper_char c) :: nat) = (if 97 \<le> (of_char c :: nat) \<and> (of_char c :: nat) \<le> 122 then of_char c - 32 else of_char c)"
  by (auto simp: lower_char_def upper_char_def in_range_def less_eq_char_def)

lemma char_eq_nat: "c = d \<longleftrightarrow> (of_char c :: nat) = of_char d"
  by simp

lemma lower_upper_char: "lower_char (upper_char c) = lower_char c" "lower_char (lower_char c) = lower_char c"
  by (auto simp: char_eq_nat of_char_case simp del: of_char_eq_iff)

definition smuggling :: "char list" where
  "smuggling = [CHR 0x0D, CHR 0x0A, CHR 0x00, CHR '':'']"

lemma smuggling_code: "c \<in> set smuggling \<longleftrightarrow> (of_char c :: nat) \<in> {13, 10, 0, 58}"
  by (simp add: smuggling_def char_eq_nat del: of_char_eq_iff)

lemma case_char_special:
  "c \<notin> set smuggling \<Longrightarrow> upper_char c \<notin> set smuggling \<and> lower_char c \<notin> set smuggling"
  by (auto simp: smuggling_code of_char_case split: if_splits)

lemma token_char_ascii: "token_char c \<Longrightarrow> of_char c < (128 :: nat)"
proof -
  have "\<forall>c. \<not> token_char c \<or> of_char c < (128 :: nat)" unfolding char_cases_ball by code_simp
  then show "token_char c \<Longrightarrow> of_char c < (128 :: nat)" by auto
qed

lemma lower_char_ascii: "of_char (lower_char c) < (128 :: nat) \<longleftrightarrow> of_char c < (128 :: nat)"
  by (auto simp: of_char_case)

lemma digit_not_dash: "d < 10 \<Longrightarrow> digit_char d \<noteq> CHR ''-'' \<and> alnum_char (digit_char d)"
proof -
  have "list_all (\<lambda>d. digit_char d \<noteq> CHR ''-'' \<and> alnum_char (digit_char d)) [0..<10]" by code_simp
  then show "d < 10 \<Longrightarrow> digit_char d \<noteq> CHR ''-'' \<and> alnum_char (digit_char d)" by (auto simp: list_all_iff)
qed

section \<open>Headers\<close>

lemma lower_canon: "map lower_char (canon_loop u k) = map lower_char k"
  by (induction k arbitrary: u) (auto simp: lower_upper_char)

lemma canon_special: "set k \<inter> set smuggling = {} \<Longrightarrow> set (canon_loop u k) \<inter> set smuggling = {}"
proof (induction k arbitrary: u)
  case (Cons c k)
  with case_char_special [of c] show ?case by simp
qed simp

lemma lower_CanonicalMIMEHeaderKey: "map lower_char (CanonicalMIMEHeaderKey k) = map lower_char k"
  by (simp add: CanonicalMIMEHeaderKey_def lower_canon)

lemma CanonicalMIMEHeaderKey_special:
  "\<not> ContainsAny k smuggling \<Longrightarrow> \<not> ContainsAny (CanonicalMIMEHeaderKey k) smuggling"
  using canon_special [of k True]
  by (auto simp: CanonicalMIMEHeaderKey_def ContainsAny_def list_ex_iff)

definition guarded_names :: "string list" where
  "guarded_names = hopByHopHeaders @ [''x-forwarded-for'', ''x-real-ip'']"

lemma guarded_names_ascii: "n \<in> set guarded_names \<Longrightarrow> is_ascii n"
proof -
  have "list_all is_ascii guarded_names" by code_simp
  then show "n \<in> set guarded_names \<Longrightarrow> is_ascii n" by (auto simp: list_all_iff)
qed

text \<open>The comparison in lower case guards the key the header ends up under.\<close>

lemma allowed_name:
  assumes "\<not> header_blocked uni k v"
  shows "map lower_char (CanonicalMIMEHeaderKey k) \<notin> set guarded_names"
proof
  assume "map lower_char (CanonicalMIMEHeaderKey k) \<in> set guarded_names"
  then have mem: "map lower_char k \<in> set guarded_names" by (simp add: lower_CanonicalMIMEHeaderKey)
  from guarded_names_ascii [OF this] have "is_ascii k" by (simp add: is_ascii_def list_all_iff lower_char_ascii)
  with mem assms show False by (simp add: header_blocked_def ToLower_def guarded_names_def)
qed

lemma apply_headers_get:
  assumes "mget (apply_headers uni hs hdr) k = Some v"
  shows "mget hdr k = Some v \<or> (\<exists>k0. (k0, v) \<in> set hs \<and> \<not> header_blocked uni k0 v \<and> k = CanonicalMIMEHeaderKey k0)"
  using assms
proof (induction uni hs hdr rule: apply_headers.induct)
  case (2 uni key val rest hdr)
  then show ?case by (cases "header_blocked uni key val") (auto split: if_splits)
qed simp

lemma apply_headers_present: "mget hdr k \<noteq> None \<Longrightarrow> mget (apply_headers uni hs hdr) k \<noteq> None"
  by (induction uni hs hdr rule: apply_headers.induct) auto

lemma apply_headers_keeps:
  "\<forall>(k0, v0) \<in> set hs. header_blocked uni k0 v0 \<or> CanonicalMIMEHeaderKey k0 \<noteq> k \<Longrightarrow>
     mget (apply_headers uni hs hdr) k = mget hdr k"
  by (induction uni hs hdr rule: apply_headers.induct) auto

lemma apply_headers_delivers:
  assumes "(k, v) \<in> set hs" and "\<not> header_blocked uni k v"
    and "\<forall>(k', v') \<in> set hs. CanonicalMIMEHeaderKey k' = CanonicalMIMEHeaderKey k \<longrightarrow> v' = v"
  shows "mget (apply_headers uni hs hdr) (CanonicalMIMEHeaderKey k) = Some v"
  using assms
proof (induction uni hs hdr rule: apply_headers.induct)
  case (2 uni key val rest hdr)
  show ?case
  proof (cases "(k, v) \<in> set rest")
    case True
    with 2 show ?thesis by simp
  next
    case False
    with "2.prems"(1) have kv: "key = k" "val = v" by auto
    let ?h = "mput (CanonicalMIMEHeaderKey k) v hdr"
    have "mget (apply_headers uni rest ?h) (CanonicalMIMEHeaderKey k) \<noteq> None"
      by (rule apply_headers_present) simp
    then obtain w where w: "mget (apply_headers uni rest ?h) (CanonicalMIMEHeaderKey k) = Some w" by blast
    from apply_headers_get [OF w] have "w = v"
    proof
      assume "\<exists>k0. (k0, w) \<in> set rest \<and> \<not> header_blocked uni k0 w \<and> CanonicalMIMEHeaderKey k = CanonicalMIMEHeaderKey k0"
      with "2.prems"(3) show ?thesis by fastforce
    qed simp
    with w kv "2.prems"(2) show ?thesis by simp
  qed
qed simp

section \<open>Mounting\<close>

lemma sanitize_loop_chars: "list_all alnum_char (sanitize_loop s)"
  by (induction s) auto

lemma sanitizeToken_chars: "list_all alnum_char (sanitizeToken s)"
proof -
  have "alnum_char (CHR ''t'')" by code_simp
  then show ?thesis using sanitize_loop_chars [of s] by (simp add: sanitizeToken_def Let_def)
qed

lemma show_nat_chars: "list_all (\<lambda>c. alnum_char c \<and> c \<noteq> CHR ''-'') (show_nat n)"
proof (induction n rule: show_nat.induct)
  case (1 n)
  have "n mod 10 < 10" by simp
  with 1 digit_not_dash show ?case by (subst show_nat.simps) auto
qed

definition token_path :: "string \<Rightarrow> nat \<Rightarrow> string" where
  "token_path t n = internalRoutePrefix @ sanitizeToken t @ ''-'' @ show_nat n"

text \<open>The counter can be read off a path: it stands behind the only dash of the token.\<close>

lemma after_last_dash:
  assumes "a @ CHR ''-'' # x = b @ CHR ''-'' # y" and "CHR ''-'' \<notin> set x" and "CHR ''-'' \<notin> set y"
  shows "x = y"
proof -
  have "takeWhile (\<lambda>c. c \<noteq> CHR ''-'') (rev (a @ CHR ''-'' # x)) = rev x"
    "takeWhile (\<lambda>c. c \<noteq> CHR ''-'') (rev (b @ CHR ''-'' # y)) = rev y"
    using assms(2,3) by (auto simp: takeWhile_append)
  with assms(1) show ?thesis by (metis rev_rev_ident)
qed

lemma token_path_inj: "token_path t m = token_path u n \<Longrightarrow> m = n"
proof -
  have "CHR ''-'' \<notin> set (show_nat k)" for k using show_nat_chars [of k] by (auto simp: list_all_iff)
  then show "token_path t m = token_path u n \<Longrightarrow> m = n"
    using after_last_dash [of "internalRoutePrefix @ sanitizeToken t" "show_nat m" "internalRoutePrefix @ sanitizeToken u" "show_nat n"]
    by (auto simp: token_path_def dest: show_nat_inj)
qed

definition path_char :: "char \<Rightarrow> bool" where
  "path_char c \<longleftrightarrow> alnum_char c \<or> c \<in> set ''/_-''"

lemma token_path_chars: "list_all path_char (token_path t n)"
proof -
  have "list_all path_char internalRoutePrefix" "path_char (CHR ''-'')" by code_simp+
  then show ?thesis using sanitizeToken_chars [of t] show_nat_chars [of n]
    by (auto simp: token_path_def path_char_def list_all_iff)
qed

text \<open>Every mounted path was generated from a counter value that has been used up.\<close>

definition table_ok :: "(string \<times> 'h list) list \<Rightarrow> nat \<Rightarrow> bool" where
  "table_ok tbl counter \<longleftrightarrow> distinct (map fst tbl) \<and>
     (\<forall>p \<in> fst ` set tbl. \<exists>t n. p = token_path t n \<and> n \<le> counter)"

lemma mount_result:
  assumes "mount d counter h a hs = (d', counter', h')"
  shows "counter' = counter + 1" "d' = d\<lparr>d_table := d_table d @ [(token_path (r_transport (h a)) counter', hs)]\<rparr>"
    "h' = h(a := (h a)\<lparr>r_path := token_path (r_transport (h a)) counter', r_url := Some (token_path (r_transport (h a)) counter')\<rparr>)"
  using assms by (auto simp: mount_def routeToken_def token_path_def Let_def)

lemma mount_fresh:
  assumes "table_ok (d_table d) counter"
  shows "token_path t (counter + 1) \<notin> fst ` set (d_table d)"
  using assms token_path_inj [of t "counter + 1"] by (fastforce simp: table_ok_def)

lemma mount_table_ok:
  assumes "table_ok (d_table d) counter" and "mount d counter h a hs = (d', counter', h')"
  shows "table_ok (d_table d') counter'"
proof -
  note m = mount_result [OF assms(2)]
  have "token_path (r_transport (h a)) counter' \<notin> fst ` set (d_table d)"
    using mount_fresh [OF assms(1)] m(1) by simp
  moreover have "\<exists>t n. p = token_path t n \<and> n \<le> counter'" if "p \<in> fst ` set (d_table d')" for p
    using that assms(1) m(1,2) by (fastforce simp: table_ok_def)
  ultimately show ?thesis using assms(1) m(2) by (auto simp: table_ok_def)
qed

lemma mounted_path_facts:
  assumes "table_ok (d_table d) counter" and "mount d counter h a hs = (d', counter', h')"
  shows "table_ok (d_table d') counter'" "r_path (h' a) \<notin> fst ` set (d_table d)"
    "list_all path_char (r_path (h' a)) \<and> r_path (h' a) \<noteq> ''''" "r_url (h' a) = Some (r_path (h' a))"
    "map_of (d_table d') (r_path (h' a)) = Some hs"
    "\<forall>p \<in> fst ` set (d_table d). map_of (d_table d') p = map_of (d_table d) p \<and> p \<in> fst ` set (d_table d')"
    "\<forall>b. b \<noteq> a \<longrightarrow> h' b = h b"
    "r_pattern (h' a) = r_pattern (h a)" "r_transport (h' a) = r_transport (h a)" "r_rank (h' a) = r_rank (h a)"
    "r_path (h' a) \<in> fst ` set (d_table d')"
proof -
  note m = mount_result [OF assms(2)]
  have path: "r_path (h' a) = token_path (r_transport (h a)) counter'" "r_url (h' a) = Some (r_path (h' a))"
    using m(3) by simp_all
  have fresh: "token_path (r_transport (h a)) counter' \<notin> fst ` set (d_table d)"
    using mount_fresh [OF assms(1)] m(1) by simp
  have "map_of (d_table d') p = map_of (d_table d) p" if "p \<in> fst ` set (d_table d)" for p
  proof -
    from that fresh have "p \<noteq> token_path (r_transport (h a)) counter'" by blast
    then show ?thesis using m(2) by (auto simp: map_add_def split: option.splits)
  qed
  moreover have tab: "fst ` set (d_table d') = insert (r_path (h' a)) (fst ` set (d_table d))"
    using m(2) path(1) by simp
  ultimately show "\<forall>p \<in> fst ` set (d_table d). map_of (d_table d') p = map_of (d_table d) p \<and> p \<in> fst ` set (d_table d')"
    "r_path (h' a) \<in> fst ` set (d_table d')"
    by auto
  have "map_of (d_table d) (token_path (r_transport (h a)) counter') = None"
    using fresh by (simp add: map_of_eq_None_iff)
  then show "map_of (d_table d') (r_path (h' a)) = Some hs" using m(2) path(1) by (simp add: map_add_def)
  have "token_path t n \<noteq> ''''" for t n by (simp add: token_path_def)
  then show "list_all path_char (r_path (h' a)) \<and> r_path (h' a) \<noteq> ''''" using path(1) token_path_chars by simp
  show "table_ok (d_table d') counter'" by (rule mount_table_ok [OF assms])
  show "r_path (h' a) \<notin> fst ` set (d_table d)" "r_url (h' a) = Some (r_path (h' a))" using path fresh by simp_all
  show "\<forall>b. b \<noteq> a \<longrightarrow> h' b = h b" "r_pattern (h' a) = r_pattern (h a)" "r_transport (h' a) = r_transport (h a)"
    "r_rank (h' a) = r_rank (h a)" using m(3) by simp_all
qed

section \<open>Properties\<close>

text \<open>
  No pattern and no transport name can reach into path handling: mounting a route gives
  it a path no other mounted route has, made of letters, digits, slash, underscore and dash
  only, under which exactly its handler chain is found, and every other path keeps its own
  chain; the path and the parsed URL agree.
\<close>

theorem mounted_paths_unique:
  assumes "table_ok (d_table d) counter" and "mount d counter h a hs = (d', counter', h')"
  shows "table_ok (d_table d') counter' \<and> r_path (h' a) \<notin> fst ` set (d_table d) \<and>
    list_all path_char (r_path (h' a)) \<and> r_path (h' a) \<noteq> '''' \<and> r_url (h' a) = Some (r_path (h' a)) \<and>
    map_of (d_table d') (r_path (h' a)) = Some hs \<and>
    (\<forall>p \<in> fst ` set (d_table d). map_of (d_table d') p = map_of (d_table d) p) \<and>
    (\<forall>b. b \<noteq> a \<longrightarrow> h' b = h b)"
  using mounted_path_facts [OF assms] by blast

definition odd_route :: route where
  "odd_route = \<lparr>r_pattern = ''a/../*'', r_transport = ''x/../:id'', r_controller = ''C'', r_field = ''F'',
     r_guards = [], r_path = '''', r_url = None, r_rank = rank ''a/../*''\<rparr>"

theorem mounted_paths_unique_witness:
  "list_all path_char (r_path (snd (snd (mount (newDispatcher (0::nat) 1 [] True) 7 (\<lambda>_. odd_route) 3 [5]))  3)) \<and>
   r_path (snd (snd (mount (newDispatcher (0::nat) 1 [] True) 7 (\<lambda>_. odd_route) 3 [5])) 3) = ''/_nika/message/xid-8''"
proof -
  let ?m = "mount (newDispatcher (0::nat) 1 [] True) 7 (\<lambda>_. odd_route) 3 [5]"
  have ok: "table_ok (d_table (newDispatcher (0::nat) 1 [] True)) 7" by (simp add: table_ok_def newDispatcher_def)
  have "?m = (fst ?m, fst (snd ?m), snd (snd ?m))" by simp
  from mounted_paths_unique [OF ok this] have "list_all path_char (r_path (snd (snd ?m) 3))" by blast
  moreover have "r_path (snd (snd ?m) 3) = ''/_nika/message/xid-8''" by code_simp
  ultimately show ?thesis by blast
qed

text \<open>
  C18. Headers of a message cannot tamper with the request: on the request a message becomes,
  every header other than the fixed content type stems from a header of the envelope with
  the same value, free of line breaks and NUL, its name (in any capitalisation) is neither
  a framing header nor one that names the client's address, the content type is the fixed
  one, and every harmless header arrives.
\<close>

theorem envelope_headers_safe:
  assumes "rq_Header req = [(''Content-Type'', contentTypeJSON)]"
    and "hdr = rq_Header (applyEnvelopeHeaders uni req env)"
  shows "(\<forall>k v. mget hdr k = Some v \<and> k \<noteq> ''Content-Type'' \<longrightarrow>
      (\<exists>k0. (k0, v) \<in> set (e_Headers env) \<and> k = CanonicalMIMEHeaderKey k0) \<and>
      \<not> ContainsAny k smuggling \<and> \<not> ContainsAny v [CHR 0x0D, CHR 0x0A, CHR 0x00] \<and>
      map lower_char k \<notin> set guarded_names) \<and>
    mget hdr ''Content-Type'' = Some contentTypeJSON \<and>
    (\<forall>(k, v) \<in> set (e_Headers env). \<not> header_blocked uni k v \<and>
      (\<forall>(k', v') \<in> set (e_Headers env). CanonicalMIMEHeaderKey k' = CanonicalMIMEHeaderKey k \<longrightarrow> v' = v) \<longrightarrow>
      mget hdr (CanonicalMIMEHeaderKey k) = Some v)"
proof -
  have hdr: "hdr = apply_headers uni (e_Headers env) [(''Content-Type'', contentTypeJSON)]"
    using assms by (simp add: applyEnvelopeHeaders_def)
  have "map lower_char ''Content-Type'' \<in> set guarded_names" by code_simp
  then have ct: "CanonicalMIMEHeaderKey k0 \<noteq> ''Content-Type''" if "\<not> header_blocked uni k0 v0" for k0 v0
    using allowed_name [OF that] by metis
  have "mget hdr ''Content-Type'' = mget [(''Content-Type'', contentTypeJSON)] ''Content-Type''"
    unfolding hdr using ct by (intro apply_headers_keeps) auto
  then have fixed: "mget hdr ''Content-Type'' = Some contentTypeJSON" by (simp add: mget_def)
  have sound: "(\<exists>k0. (k0, v) \<in> set (e_Headers env) \<and> k = CanonicalMIMEHeaderKey k0) \<and>
      \<not> ContainsAny k smuggling \<and> \<not> ContainsAny v [CHR 0x0D, CHR 0x0A, CHR 0x00] \<and>
      map lower_char k \<notin> set guarded_names"
    if kv: "mget hdr k = Some v" "k \<noteq> ''Content-Type''" for k v
  proof -
    have "mget [(''Content-Type'', contentTypeJSON)] k = None" using kv(2) by (simp add: mget_def)
    with apply_headers_get [of uni "e_Headers env" "[(''Content-Type'', contentTypeJSON)]" k v] kv(1)
    obtain k0 where k0: "(k0, v) \<in> set (e_Headers env)" "\<not> header_blocked uni k0 v" "k = CanonicalMIMEHeaderKey k0"
      unfolding hdr by auto
    then have "\<not> ContainsAny k0 smuggling" "\<not> ContainsAny v [CHR 0x0D, CHR 0x0A, CHR 0x00]"
      by (simp_all add: header_blocked_def smuggling_def)
    with k0 CanonicalMIMEHeaderKey_special [of k0] allowed_name [OF k0(2)] show ?thesis by blast
  qed
  have delivers: "mget hdr (CanonicalMIMEHeaderKey k) = Some v"
    if "(k, v) \<in> set (e_Headers env)" "\<not> header_blocked uni k v"
      "\<forall>(k', v') \<in> set (e_Headers env). CanonicalMIMEHeaderKey k' = CanonicalMIMEHeaderKey k \<longrightarrow> v' = v" for k v
    unfolding hdr by (rule apply_headers_delivers [OF that])
  from sound fixed delivers show ?thesis by blast
qed

definition demo_env :: envelope where
  "demo_env = \<lparr>e_ID = ''id'', e_Pattern = ''users'', e_Data = '''', e_Headers = [(''x-tenant'', ''acme''),
     (''X-Forwarded-For'', ''1.2.3.4''), (''content-TYPE'', ''text/html'')], e_ReplyTo = '''', e_Status = 0,
     e_Error = None, e_SentAt = 0\<rparr>"

definition demo_request :: request where
  "demo_request = \<lparr>rq_Path = ''/p'', rq_Header = [(''Content-Type'', contentTypeJSON)], rq_Body = ''null'',
     rq_ContentLength = 4, rq_Host = internalHost, rq_RemoteAddr = ''127.0.0.1:0'', rq_env = demo_env, rq_route = 0\<rparr>"

theorem envelope_headers_safe_witness:
  "rq_Header (applyEnvelopeHeaders (\<lambda>s. s) demo_request demo_env) =
     [(''Content-Type'', contentTypeJSON), (''X-Tenant'', ''acme'')] \<and>
   mget (rq_Header (applyEnvelopeHeaders (\<lambda>s. s) demo_request demo_env)) ''Content-Type'' = Some contentTypeJSON"
proof -
  have "rq_Header demo_request = [(''Content-Type'', contentTypeJSON)]" by (simp add: demo_request_def)
  from envelope_headers_safe [OF this refl, of "\<lambda>s. s" demo_env]
  have "mget (rq_Header (applyEnvelopeHeaders (\<lambda>s. s) demo_request demo_env)) ''Content-Type'' = Some contentTypeJSON"
    by blast
  moreover have "rq_Header (applyEnvelopeHeaders (\<lambda>s. s) demo_request demo_env) =
     [(''Content-Type'', contentTypeJSON), (''X-Tenant'', ''acme'')]" by code_simp
  ultimately show ?thesis by blast
qed

text \<open>What writes to a response do to its status.\<close>

datatype write_op = DoHeader int | DoWrite string

definition run_op :: "write_op \<Rightarrow> responseCapture \<Rightarrow> responseCapture" where
  "run_op p r = (case p of DoHeader n \<Rightarrow> WriteHeader n r | DoWrite b \<Rightarrow> Write b r)"

definition first_status :: "write_op list \<Rightarrow> int" where
  "first_status ps = (case ps of [] \<Rightarrow> 0 | DoHeader n # _ \<Rightarrow> n | DoWrite b # _ \<Rightarrow> 200)"

definition written :: "write_op list \<Rightarrow> string" where
  "written ps = concat (map (\<lambda>p. case p of DoHeader n \<Rightarrow> '''' | DoWrite b \<Rightarrow> b) ps)"

lemma capture_after_header:
  "rc_wroteHeader r \<Longrightarrow> fold run_op ps r = r\<lparr>rc_body := rc_body r @ written ps\<rparr>"
proof (induction ps arbitrary: r)
  case (Cons p ps)
  then show ?case by (cases p) (auto simp: run_op_def WriteHeader_def Write_def written_def Let_def)
qed (simp add: written_def)

lemma capture_ops:
  "fold run_op ps new_capture =
     \<lparr>rc_body = written ps, rc_status = first_status ps, rc_wroteHeader = (ps \<noteq> [])\<rparr>"
proof (cases ps)
  case (Cons p qs)
  then show ?thesis
    by (cases p) (auto simp: run_op_def WriteHeader_def Write_def Let_def capture_after_header
        new_capture_def written_def first_status_def)
qed (simp add: new_capture_def written_def first_status_def)


text \<open>A JSON library that knows the text \<^verbatim>\<open>1\<close> only, and a chain that answers 404.\<close>

definition demo_json :: "unit json" where
  "demo_json = \<lparr>j_Valid = (\<lambda>s. s = ''1''), j_bytes = (\<lambda>s. Inr ''1''), j_string = (\<lambda>s. Inr ''1''), j_value = (\<lambda>v. Inr ''1''),
     j_encode = (\<lambda>e. Inl ''no''), j_decode = (\<lambda>s. Inl ''no''), j_frame = (\<lambda>s. Inl ''no'')\<rparr>"

definition demo_ops :: "request \<Rightarrow> write_op list" where
  "demo_ops req = [DoHeader 404, DoWrite ''oops'', DoHeader 200]"

definition demo_serve :: "nat engine" where
  "demo_serve use tbl req r = fold run_op (demo_ops req) r"

definition mounted_heap :: route_heap where
  "mounted_heap a = odd_route\<lparr>r_path := ''/p'', r_url := Some ''/p''\<rparr>"


end
