(* ===== verification/Guard.thy ===== *)
theory Guard
  imports Prelude
begin

text \<open>
  Guards (\<^verbatim>\<open>guard.go\<close>, and \<^verbatim>\<open>resolveGuards\<close> of \<^verbatim>\<open>routes.go\<close>): the registry of named
  guard factories, the hand-written parser of \<^verbatim>\<open>guard\<close> struct tags, and the resolution of
  a tag into the chain of middleware it names. A middleware is a value of a type
  variable; a factory maps the arguments of the tag to a middleware or to \<^verbatim>\<open>nil\<close>.
\<close>

section \<open>The code\<close>

record guard_spec =
  gs_name :: string
  gs_args :: "string list"

datatype guard_error =
    ParenWithoutName string
  | UnterminatedArgs string
  | UnmatchedParen string
  | NoGuardName string
  | GuardNotRegistered string
  | GuardNilMiddleware string
  | GuardNameEmpty
  | GuardFuncNil string
  | GuardAlreadyRegistered string

text \<open>\<^verbatim>\<open>appendArg\<close>: the closure over \<^verbatim>\<open>current\<close>, \<^verbatim>\<open>quote\<close>, \<^verbatim>\<open>hasArg\<close> and \<^verbatim>\<open>args\<close>.\<close>

definition appendArg :: "string \<Rightarrow> char option \<Rightarrow> bool \<Rightarrow> string list \<Rightarrow> string list" where
  "appendArg current quote hasArg args =
     (let value = (if quote = None then TrimSpace current else current)
      in if value \<noteq> [] \<or> hasArg then args @ [value] else args)"

text \<open>
  The loop of \<^verbatim>\<open>parseGuardArgs\<close> over the text after the opening parenthesis. It returns
  the arguments and the text behind the closing parenthesis, which stands for its index;
  \<open>None\<close> is the unterminated list.
\<close>

fun parseGuardArgs :: "string \<Rightarrow> string \<Rightarrow> char option \<Rightarrow> bool \<Rightarrow> string list \<Rightarrow>
    (string list \<times> string) option" where
  "parseGuardArgs [] current quote hasArg args = None"
| "parseGuardArgs (c # tag) current quote hasArg args =
     (case quote of
        Some q \<Rightarrow>
          if c = q then parseGuardArgs tag current None True args
          else parseGuardArgs tag (current @ [c]) quote hasArg args
      | None \<Rightarrow>
          if c = CHR 0x27 \<or> c = CHR 0x22 then parseGuardArgs tag current (Some c) hasArg args
          else if c = CHR '','' then
            parseGuardArgs tag [] None False (appendArg current None hasArg args)
          else if c = CHR '')'' then
            Some (if TrimSpace current \<noteq> [] \<or> hasArg \<or> args \<noteq> []
                  then appendArg current None hasArg args else args, tag)
          else parseGuardArgs tag (current @ [c]) None hasArg args)"

definition flushName :: "string \<Rightarrow> guard_spec list \<Rightarrow> guard_spec list" where
  "flushName name specs =
     (if TrimSpace name \<noteq> [] then specs @ [\<lparr>gs_name = TrimSpace name, gs_args = []\<rparr>] else specs)"

lemma parseGuardArgs_shorter:
  "parseGuardArgs tag current quote hasArg args = Some (as, rest) \<Longrightarrow> length rest < length tag"
  by (induction tag current quote hasArg args rule: parseGuardArgs.induct)
    (auto split: option.splits if_splits intro: less_SucI)

text \<open>The loop of \<^verbatim>\<open>ParseGuardTag\<close>; \<open>whole\<close> is the trimmed tag, for the messages.\<close>

function parse_guard_loop :: "string \<Rightarrow> string \<Rightarrow> string \<Rightarrow> guard_spec list \<Rightarrow>
    (guard_error, guard_spec list) result" where
  "parse_guard_loop whole [] name specs = Inr (flushName name specs)"
| "parse_guard_loop whole (c # tag) name specs =
     (if c = CHR ''('' then
        (if TrimSpace name = [] then Inl (ParenWithoutName whole)
         else (case parseGuardArgs tag [] None False [] of
             None \<Rightarrow> Inl (UnterminatedArgs whole)
           | Some (args, rest) \<Rightarrow>
               parse_guard_loop whole rest [] (specs @ [\<lparr>gs_name = TrimSpace name, gs_args = args\<rparr>])))
      else if c = CHR '')'' then Inl (UnmatchedParen whole)
      else if c = CHR '','' \<or> c = CHR '' '' \<or> c = CHR 0x09 then
        parse_guard_loop whole tag [] (flushName name specs)
      else parse_guard_loop whole tag (name @ [c]) specs)"
  by pat_completeness auto
termination
  by (relation "measure (\<lambda>(whole, tag, name, specs). length tag)")
    (auto dest: parseGuardArgs_shorter)

definition ParseGuardTag :: "string \<Rightarrow> (guard_error, guard_spec list) result" where
  "ParseGuardTag raw =
     (let tag = TrimSpace raw
      in if tag = [] then Inr []
         else and_then (parse_guard_loop tag tag [] [])
           (\<lambda>specs. if specs = [] then Inl (NoGuardName tag) else Inr specs))"

text \<open>The registry: a factory may answer \<open>None\<close>, Go's nil middleware.\<close>

type_synonym 'h guard_func = "string list \<Rightarrow> 'h option"
type_synonym 'h guard_registry = "(string, 'h guard_func) gomap"

text \<open>\<^verbatim>\<open>AddGuard\<close> panics on bad input; the panic is the \<open>Inl\<close> outcome.\<close>

definition AddGuard :: "'h guard_registry \<Rightarrow> string \<Rightarrow> 'h guard_func option \<Rightarrow>
    (guard_error, 'h guard_registry) result" where
  "AddGuard guards raw guardFn =
     (let name = TrimSpace raw
      in if name = [] then Inl GuardNameEmpty
         else (case guardFn of
             None \<Rightarrow> Inl (GuardFuncNil name)
           | Some f \<Rightarrow>
               if mget guards name \<noteq> None then Inl (GuardAlreadyRegistered name)
               else Inr (mput name f guards)))"

definition Guard_lookup :: "'h guard_registry \<Rightarrow> string \<Rightarrow> 'h guard_func option" where
  "Guard_lookup guards name = mget guards name"

definition HasGuard :: "'h guard_registry \<Rightarrow> string \<Rightarrow> bool" where
  "HasGuard guards name = (mget guards name \<noteq> None)"

fun resolve_specs :: "'h guard_registry \<Rightarrow> guard_spec list \<Rightarrow> (guard_error, 'h list) result" where
  "resolve_specs guards [] = Inr []"
| "resolve_specs guards (spec # specs) =
     (case mget guards (gs_name spec) of
        None \<Rightarrow> Inl (GuardNotRegistered (gs_name spec))
      | Some guardFn \<Rightarrow>
          (case guardFn (gs_args spec) of
             None \<Rightarrow> Inl (GuardNilMiddleware (gs_name spec))
           | Some middleware \<Rightarrow>
               and_then (resolve_specs guards specs) (\<lambda>hs. Inr (middleware # hs))))"

definition resolveGuards :: "'h guard_registry \<Rightarrow> string \<Rightarrow> (guard_error, 'h list) result" where
  "resolveGuards guards guardTag =
     and_then (ParseGuardTag guardTag) (\<lambda>specs. resolve_specs guards specs)"

section \<open>Well-formed results\<close>

definition name_ok :: "string \<Rightarrow> bool" where
  "name_ok n \<longleftrightarrow> n \<noteq> [] \<and> TrimSpace n = n \<and> set n \<inter> set [CHR ''('', CHR '')'', CHR '','', CHR '' '', CHR 0x09] = {}"

definition pending_ok :: "string \<Rightarrow> bool" where
  "pending_ok n \<longleftrightarrow> set n \<inter> set [CHR ''('', CHR '')'', CHR '','', CHR '' '', CHR 0x09] = {}"

lemma name_ok_trim: "pending_ok n \<Longrightarrow> TrimSpace n \<noteq> [] \<Longrightarrow> name_ok (TrimSpace n)"
  using set_TrimSpace [of n] by (auto simp: name_ok_def pending_ok_def)

lemma flushName_ok:
  "pending_ok name \<Longrightarrow> \<forall>s \<in> set specs. name_ok (gs_name s) \<Longrightarrow>
     \<forall>s \<in> set (flushName name specs). name_ok (gs_name s)"
  by (auto simp: flushName_def name_ok_trim)

lemma parse_guard_loop_names:
  "parse_guard_loop whole tag name specs = Inr out \<Longrightarrow> pending_ok name \<Longrightarrow>
     \<forall>s \<in> set specs. name_ok (gs_name s) \<Longrightarrow> \<forall>s \<in> set out. name_ok (gs_name s)"
proof (induction whole tag name specs rule: parse_guard_loop.induct)
  case (1 whole name specs)
  then show ?case using flushName_ok [of name specs] by simp
next
  case (2 whole c tag name specs)
  have nil: "pending_ok []" by (simp add: pending_ok_def)
  consider (lpar) "c = CHR ''(''" | (rpar) "c = CHR '')''"
    | (sep) "c = CHR '','' \<or> c = CHR '' '' \<or> c = CHR 0x09"
    | (other) "c \<notin> set [CHR ''('', CHR '')'', CHR '','', CHR '' '', CHR 0x09]" by auto
  then show ?case
  proof cases
    case lpar
    with "2.prems"(1) obtain args rest where p: "TrimSpace name \<noteq> []"
        "parseGuardArgs tag [] None False [] = Some (args, rest)"
        "parse_guard_loop whole rest [] (specs @ [\<lparr>gs_name = TrimSpace name, gs_args = args\<rparr>]) = Inr out"
      by (auto split: if_splits option.splits)
    have "\<forall>s \<in> set (specs @ [\<lparr>gs_name = TrimSpace name, gs_args = args\<rparr>]). name_ok (gs_name s)"
      using "2.prems"(2,3) p(1) by (auto simp: name_ok_trim)
    from "2.IH"(1) [OF lpar p(1) p(2) refl p(3) nil this] show ?thesis .
  next
    case rpar
    with "2.prems"(1) show ?thesis by simp
  next
    case sep
    then have "c \<noteq> CHR ''(''" "c \<noteq> CHR '')''" by auto
    with sep "2.prems" flushName_ok [OF "2.prems"(2,3)] show ?thesis
      using "2.IH"(2) nil by auto
  next
    case other
    then have "c \<noteq> CHR ''(''" "c \<noteq> CHR '')''" "\<not> (c = CHR '','' \<or> c = CHR '' '' \<or> c = CHR 0x09)" by auto
    moreover have "pending_ok (name @ [c])" using "2.prems"(2) other by (auto simp: pending_ok_def)
    ultimately show ?thesis using "2.prems" "2.IH"(3) by auto
  qed
qed

lemma ParseGuardTag_names:
  "ParseGuardTag tag = Inr specs \<Longrightarrow> s \<in> set specs \<Longrightarrow> name_ok (gs_name s)"
  by (auto simp: ParseGuardTag_def Let_def and_then_Inr_iff pending_ok_def
      split: if_splits dest!: parse_guard_loop_names)

lemma ParseGuardTag_nonempty: "ParseGuardTag tag = Inr specs \<Longrightarrow> specs = [] \<longleftrightarrow> TrimSpace tag = []"
  by (auto simp: ParseGuardTag_def Let_def and_then_Inr_iff split: if_splits)

lemma resolve_specs_iff:
  "resolve_specs guards specs = Inr hs \<longleftrightarrow>
     list_all2 (\<lambda>s h. \<exists>g. mget guards (gs_name s) = Some g \<and> g (gs_args s) = Some h) specs hs"
  by (induction specs arbitrary: hs)
    (auto simp: list_all2_Cons1 and_then_Inr_iff split: option.splits)

section \<open>Printing and parsing\<close>

text \<open>Tags as a developer writes them: names, quoted arguments, separators.\<close>

definition quote_arg :: "string \<Rightarrow> string" where
  "quote_arg a = CHR 0x27 # a @ [CHR 0x27]"

fun render_args :: "string list \<Rightarrow> string" where
  "render_args [] = []"
| "render_args [a] = quote_arg a"
| "render_args (a # b # as) = quote_arg a @ '','' @ render_args (b # as)"

definition render_spec :: "guard_spec \<Rightarrow> string" where
  "render_spec s = gs_name s @ (if gs_args s = [] then [] else ''('' @ render_args (gs_args s) @ '')'')"

fun render_tag :: "string \<Rightarrow> guard_spec list \<Rightarrow> string" where
  "render_tag sep [] = []"
| "render_tag sep [s] = render_spec s"
| "render_tag sep (s # t # ss) = render_spec s @ sep @ render_tag sep (t # ss)"

definition spec_ok :: "guard_spec \<Rightarrow> bool" where
  "spec_ok s \<longleftrightarrow> gs_name s \<noteq> [] \<and> pending_ok (gs_name s) \<and> plain_char (hd (gs_name s)) \<and>
     plain_char (last (gs_name s)) \<and> (\<forall>a \<in> set (gs_args s). CHR 0x27 \<notin> set a)"

definition sep_ok :: "string \<Rightarrow> bool" where
  "sep_ok sep \<longleftrightarrow> sep \<noteq> [] \<and> set sep \<subseteq> set [CHR '','', CHR '' '', CHR 0x09]"

lemma parse_quoted:
  "CHR 0x27 \<notin> set a \<Longrightarrow>
     parseGuardArgs (a @ CHR 0x27 # rest) current (Some CHR 0x27) hasArg args =
     parseGuardArgs rest (current @ a) None True args"
  by (induction a arbitrary: current) auto

lemma parse_quote_arg:
  "CHR 0x27 \<notin> set a \<Longrightarrow>
     parseGuardArgs (quote_arg a @ rest) [] None False args = parseGuardArgs rest a None True args"
  using parse_quoted [of a rest "[]" False args] by (simp add: quote_arg_def)

lemma parse_render_args:
  "as \<noteq> [] \<Longrightarrow> \<forall>a \<in> set as. CHR 0x27 \<notin> set a \<Longrightarrow>
     parseGuardArgs (render_args as @ CHR '')'' # rest) [] None False args =
     Some (args @ map TrimSpace as, rest)"
proof (induction as arbitrary: args rule: render_args.induct)
  case 1
  then show ?case by simp
next
  case (2 a)
  then show ?case by (simp add: parse_quote_arg appendArg_def)
next
  case (3 a b as)
  have "parseGuardArgs (render_args (a # b # as) @ CHR '')'' # rest) [] None False args =
      parseGuardArgs (CHR '','' # render_args (b # as) @ CHR '')'' # rest) a None True args"
    using "3.prems" by (simp add: parse_quote_arg)
  also have "\<dots> = parseGuardArgs (render_args (b # as) @ CHR '')'' # rest) [] None False (args @ [TrimSpace a])"
    by (simp add: appendArg_def)
  finally show ?case using "3.IH" "3.prems" by simp
qed

lemma parse_name:
  "pending_ok n \<Longrightarrow> parse_guard_loop whole (n @ rest) name specs = parse_guard_loop whole rest (name @ n) specs"
  by (induction n arbitrary: name) (auto simp: pending_ok_def)

lemma parse_sep:
  "set sep \<subseteq> set [CHR '','', CHR '' '', CHR 0x09] \<Longrightarrow>
     parse_guard_loop whole (sep @ rest) [] specs = parse_guard_loop whole rest [] specs"
  by (induction sep) (auto simp: flushName_def)

lemma parse_sep_flush:
  "sep_ok sep \<Longrightarrow>
     parse_guard_loop whole (sep @ rest) name specs = parse_guard_loop whole rest [] (flushName name specs)"
  by (cases sep) (auto simp: sep_ok_def parse_sep)

definition trim_args :: "guard_spec \<Rightarrow> guard_spec" where
  "trim_args s = \<lparr>gs_name = gs_name s, gs_args = map TrimSpace (gs_args s)\<rparr>"

lemma spec_ok_trim: "spec_ok s \<Longrightarrow> TrimSpace (gs_name s) = gs_name s"
  by (simp add: spec_ok_def TrimSpace_plain)

text \<open>One rendered guard in front of a separator or of the end of the tag.\<close>

lemma parse_render_spec:
  assumes "spec_ok s"
  shows "parse_guard_loop whole (render_spec s @ rest) [] specs =
    (if gs_args s = [] then parse_guard_loop whole rest (gs_name s) specs
     else parse_guard_loop whole rest [] (specs @ [trim_args s]))"
proof -
  from assms have n: "pending_ok (gs_name s)" "gs_name s \<noteq> []" and a: "\<forall>a \<in> set (gs_args s). CHR 0x27 \<notin> set a"
    by (auto simp: spec_ok_def)
  show ?thesis
  proof (cases "gs_args s = []")
    case True
    with n show ?thesis by (simp add: render_spec_def parse_name)
  next
    case False
    with n a show ?thesis
      by (simp add: render_spec_def parse_name parse_render_args spec_ok_trim [OF assms] trim_args_def)
  qed
qed

lemma flush_render:
  "spec_ok s \<Longrightarrow> gs_args s = [] \<Longrightarrow> flushName (gs_name s) specs = specs @ [trim_args s]"
  by (simp add: flushName_def spec_ok_trim) (simp add: spec_ok_def trim_args_def)

lemma parse_render_tag:
  "sep_ok sep \<Longrightarrow> \<forall>s \<in> set ss. spec_ok s \<Longrightarrow> ss \<noteq> [] \<Longrightarrow>
     parse_guard_loop whole (render_tag sep ss) [] specs = Inr (specs @ map trim_args ss)"
proof (induction sep ss arbitrary: specs rule: render_tag.induct)
  case (1 sep)
  then show ?case by simp
next
  case (2 sep s)
  then show ?case
    using parse_render_spec [of s whole "[]" specs] flush_render [of s specs]
    by (auto simp: flushName_def)
next
  case (3 sep s t ss)
  then have s: "spec_ok s" by simp
  have "parse_guard_loop whole (render_tag sep (s # t # ss)) [] specs =
      parse_guard_loop whole (render_tag sep (t # ss)) [] (specs @ [trim_args s])"
    using parse_render_spec [OF s, of whole "sep @ render_tag sep (t # ss)" specs]
      flush_render [OF s, of specs] parse_sep_flush [OF "3.prems"(1)] by (auto simp: flushName_def)
  with "3.IH" "3.prems" show ?case by simp
qed

lemma plain_rpar: "plain_char CHR '')''"
  by (simp add: plain_char_def space_runes_def)

lemma render_spec_ends:
  assumes "spec_ok s"
  shows "render_spec s \<noteq> []" "plain_char (hd (render_spec s))" "plain_char (last (render_spec s))"
  using assms by (auto simp: spec_ok_def render_spec_def plain_rpar)

lemma render_tag_ends:
  "\<forall>s \<in> set ss. spec_ok s \<Longrightarrow> ss \<noteq> [] \<Longrightarrow>
     render_tag sep ss \<noteq> [] \<and> plain_char (hd (render_tag sep ss)) \<and> plain_char (last (render_tag sep ss))"
  by (induction sep ss rule: render_tag.induct) (auto simp: render_spec_ends)

section \<open>Properties\<close>

text \<open>
  Parsing inverts writing: a tag made of any number of guards, each a name with
  quoted arguments, joined by any run of commas, spaces and tabs, parses to exactly
  these guards in this order; a quoted argument keeps its commas and inner spaces and
  loses only the white space at its ends.
\<close>

theorem guard_tag_roundtrip:
  assumes "sep_ok sep" and "\<forall>s \<in> set specs. spec_ok s"
  shows "ParseGuardTag (render_tag sep specs) = Inr (map trim_args specs)"
proof (cases "specs = []")
  case True
  then show ?thesis by (simp add: ParseGuardTag_def)
next
  case False
  from render_tag_ends [OF assms(2) False, of sep]
  have "TrimSpace (render_tag sep specs) = render_tag sep specs" "render_tag sep specs \<noteq> []"
    by (auto simp: TrimSpace_plain)
  with parse_render_tag [OF assms False, of "render_tag sep specs" "[]"] False show ?thesis
    by (simp add: ParseGuardTag_def)
qed

theorem guard_tag_roundtrip_witness:
  "ParseGuardTag (render_tag '', '' [\<lparr>gs_name = ''Auth'', gs_args = []\<rparr>,
      \<lparr>gs_name = ''Scope'', gs_args = [''user:read, all'', '' x '']\<rparr>]) =
   Inr [\<lparr>gs_name = ''Auth'', gs_args = []\<rparr>, \<lparr>gs_name = ''Scope'', gs_args = [''user:read, all'', ''x'']\<rparr>]"
proof -
  have "sep_ok '', ''" by (simp add: sep_ok_def)
  moreover have "\<forall>s \<in> set [\<lparr>gs_name = ''Auth'', gs_args = []\<rparr>,
      \<lparr>gs_name = ''Scope'', gs_args = [''user:read, all'', '' x '']\<rparr>]. spec_ok s"
    by code_simp
  ultimately have "ParseGuardTag (render_tag '', '' [\<lparr>gs_name = ''Auth'', gs_args = []\<rparr>,
      \<lparr>gs_name = ''Scope'', gs_args = [''user:read, all'', '' x '']\<rparr>]) =
    Inr (map trim_args [\<lparr>gs_name = ''Auth'', gs_args = []\<rparr>,
      \<lparr>gs_name = ''Scope'', gs_args = [''user:read, all'', '' x '']\<rparr>])"
    by (rule guard_tag_roundtrip)
  also have "map trim_args [\<lparr>gs_name = ''Auth'', gs_args = []\<rparr>,
      \<lparr>gs_name = ''Scope'', gs_args = [''user:read, all'', '' x '']\<rparr>] =
    [\<lparr>gs_name = ''Auth'', gs_args = []\<rparr>, \<lparr>gs_name = ''Scope'', gs_args = [''user:read, all'', ''x'']\<rparr>]"
    by code_simp
  finally show ?thesis .
qed



end
