(* ===== verification/Http_Routes.thy ===== *)
theory Http_Routes
  imports Guard
begin

text \<open>
  HTTP route registration (\<^verbatim>\<open>routes.go\<close>): parsing of \<^verbatim>\<open>route\<close> tags, extraction of the
  handler from a controller field, the duplicate table and the registration loop over the
  fields of a controller. Reflection is modelled by the data it reads: the fields of a
  struct with their tags, kinds and values. The gin engine is outside the repository; it
  appears as the list of registrations it has accepted and a parameter \<open>gin_accepts\<close>
  that says whether it accepts one more or panics.
\<close>

section \<open>The code\<close>

datatype route_error =
    NoColon string
  | MethodEmpty string
  | PathEmpty string
  | PathNoSlash string
  | PathWhitespace string
  | UnsupportedMethod string
  | HandlerNotFunc
  | HandlerNotExported
  | HandlerNil
  | HandlerNotAccessible
  | HandlerWrongSignature
  | RouteGuardError guard_error
  | DuplicateRoute string string string
  | ControllerNil
  | ControllerNilPointer
  | ControllerNotStruct string
  | EnginePanic string string

definition httpMethods :: "string list" where
  "httpMethods = [''GET'', ''POST'', ''PUT'', ''PATCH'', ''DELETE'', ''HEAD'', ''OPTIONS'', ''ANY'']"

definition parseRouteTag :: "(string \<Rightarrow> string) \<Rightarrow> string \<Rightarrow> (route_error, string \<times> string) result" where
  "parseRouteTag uni tag =
     (case split_first CHR '':'' tag of
        None \<Rightarrow> Inl (NoColon tag)
      | Some (a, b) \<Rightarrow>
          let method = ToUpper uni (TrimSpace a); path = TrimSpace b
          in if method = [] then Inl (MethodEmpty tag)
             else if path = [] then Inl (PathEmpty tag)
             else if \<not> HasPrefix path ''/'' then Inl (PathNoSlash path)
             else if ContainsAny path [CHR '' '', CHR 0x09, CHR 0x0D, CHR 0x0A] then Inl (PathWhitespace path)
             else Inr (method, path))"

text \<open>
  A field of a controller struct. \<open>f_value\<close> is what the field holds: a handler of one of
  the two accepted signatures, another function, or \<open>FuncNil\<close>.
\<close>

datatype 'h field_value = FuncNil | HandlerFunc 'h | OtherFunc

record 'h struct_field =
  f_name :: string
  f_tags :: "(string \<times> string) list"
  f_is_func :: bool
  f_exported :: bool
  f_can_interface :: bool
  f_value :: "'h field_value"

datatype 'h controller =
    NilController
  | NilPointer
  | NotStruct string
  | Struct string "'h struct_field list"

text \<open>\<^verbatim>\<open>Tag.Get\<close> answers the empty string for a missing key.\<close>

definition Tag_Get :: "'h struct_field \<Rightarrow> string \<Rightarrow> string" where
  "Tag_Get f key = (case map_of (f_tags f) key of None \<Rightarrow> [] | Some v \<Rightarrow> v)"

definition routeHandler :: "'h struct_field \<Rightarrow> (route_error, 'h) result" where
  "routeHandler f =
     (if \<not> f_is_func f then Inl HandlerNotFunc
      else if \<not> f_exported f then Inl HandlerNotExported
      else (case f_value f of
          FuncNil \<Rightarrow> Inl HandlerNil
        | v \<Rightarrow>
            if \<not> f_can_interface f then Inl HandlerNotAccessible
            else (case v of HandlerFunc h \<Rightarrow> Inr h | _ \<Rightarrow> Inl HandlerWrongSignature)))"

text \<open>The part of \<^verbatim>\<open>App\<close> that routing reads and writes.\<close>

record 'h routing =
  rt_guards :: "'h guard_registry"
  rt_routeMethod :: "string list"
  rt_engine :: "(string \<times> string \<times> 'h list) list"

definition route_key :: "string \<Rightarrow> string \<Rightarrow> string" where
  "route_key method path = method @ '' '' @ path"

definition trackRoute :: "string \<Rightarrow> string \<Rightarrow> string \<Rightarrow> string \<Rightarrow> 'h routing \<Rightarrow>
    (route_error, 'h routing) result" where
  "trackRoute method path controller fieldName st =
     (if route_key method path \<in> set (rt_routeMethod st)
      then Inl (DuplicateRoute (route_key method path) controller fieldName)
      else Inr (st\<lparr>rt_routeMethod := rt_routeMethod st @ [route_key method path]\<rparr>))"

text \<open>
  One field: the state after it and the panic, if any. The route is tracked before the
  engine sees it, so a panic of the engine leaves it tracked.
\<close>

definition register_field :: "(string \<Rightarrow> string) \<Rightarrow>
    ((string \<times> string \<times> 'h list) list \<Rightarrow> string \<Rightarrow> string \<Rightarrow> bool) \<Rightarrow>
    string \<Rightarrow> 'h struct_field \<Rightarrow> 'h routing \<Rightarrow> 'h routing \<times> route_error option" where
  "register_field uni gin_accepts typ field st =
     (if Tag_Get field ''route'' = [] then (st, None)
      else (case parseRouteTag uni (Tag_Get field ''route'') of
          Inl e \<Rightarrow> (st, Some e)
        | Inr (method, path) \<Rightarrow>
            if method \<notin> set httpMethods then (st, Some (UnsupportedMethod method))
            else (case routeHandler field of
                Inl e \<Rightarrow> (st, Some e)
              | Inr handler \<Rightarrow>
                  (case resolveGuards (rt_guards st) (Tag_Get field ''guard'') of
                     Inl e \<Rightarrow> (st, Some (RouteGuardError e))
                   | Inr guards \<Rightarrow>
                       (case trackRoute method path typ (f_name field) st of
                          Inl e \<Rightarrow> (st, Some e)
                        | Inr st' \<Rightarrow>
                            if gin_accepts (rt_engine st') method path
                            then (st'\<lparr>rt_engine := rt_engine st' @ [(method, path, guards @ [handler])]\<rparr>, None)
                            else (st', Some (EnginePanic method path)))))))"

fun register_fields :: "(string \<Rightarrow> string) \<Rightarrow>
    ((string \<times> string \<times> 'h list) list \<Rightarrow> string \<Rightarrow> string \<Rightarrow> bool) \<Rightarrow>
    string \<Rightarrow> 'h struct_field list \<Rightarrow> 'h routing \<Rightarrow> 'h routing \<times> route_error option" where
  "register_fields uni acc typ [] st = (st, None)"
| "register_fields uni acc typ (field # flds) st =
     (case register_field uni acc typ field st of
        (st', Some e) \<Rightarrow> (st', Some e)
      | (st', None) \<Rightarrow> register_fields uni acc typ flds st')"

definition registerController :: "(string \<Rightarrow> string) \<Rightarrow>
    ((string \<times> string \<times> 'h list) list \<Rightarrow> string \<Rightarrow> string \<Rightarrow> bool) \<Rightarrow>
    'h controller \<Rightarrow> 'h routing \<Rightarrow> 'h routing \<times> route_error option" where
  "registerController uni acc ctrl st =
     (case ctrl of
        NilController \<Rightarrow> (st, Some ControllerNil)
      | NilPointer \<Rightarrow> (st, Some ControllerNilPointer)
      | NotStruct kind \<Rightarrow> (st, Some (ControllerNotStruct kind))
      | Struct typ flds \<Rightarrow> register_fields uni acc typ flds st)"

definition Routes_list :: "'h routing \<Rightarrow> string list" where
  "Routes_list st = rt_routeMethod st"

section \<open>Route tags\<close>

lemma parseRouteTag_Inr:
  assumes "parseRouteTag uni tag = Inr (method, path)"
  shows "method \<noteq> []" "HasPrefix path ''/''"
    "\<not> ContainsAny path [CHR '' '', CHR 0x09, CHR 0x0D, CHR 0x0A]"
    "split_first CHR '':'' tag = Some (a, b) \<Longrightarrow> method = ToUpper uni (TrimSpace a) \<and> path = TrimSpace b"
  using assms by (auto simp: parseRouteTag_def Let_def split: option.splits if_splits)

section \<open>The registration loop\<close>

text \<open>What a registration that went through has done with one field.\<close>

definition field_served :: "(string \<Rightarrow> string) \<Rightarrow> 'h guard_registry \<Rightarrow> 'h struct_field \<Rightarrow>
    string \<times> string \<times> 'h list \<Rightarrow> bool" where
  "field_served uni guards field reg \<longleftrightarrow>
     (case reg of (method, path, chain) \<Rightarrow>
       parseRouteTag uni (Tag_Get field ''route'') = Inr (method, path) \<and> method \<in> set httpMethods \<and>
       (\<exists>h gs. routeHandler field = Inr h \<and> resolveGuards guards (Tag_Get field ''guard'') = Inr gs \<and>
          chain = gs @ [h]))"

definition routing_inv :: "'h routing \<Rightarrow> bool" where
  "routing_inv st \<longleftrightarrow> distinct (rt_routeMethod st) \<and>
     map (\<lambda>(m, p, c). route_key m p) (rt_engine st) = rt_routeMethod st"

lemma register_field_ok:
  assumes "register_field uni acc typ field st = (st', None)"
  shows "rt_guards st' = rt_guards st \<and>
    (if Tag_Get field ''route'' = [] then st' = st
     else \<exists>reg. field_served uni (rt_guards st) field reg \<and>
       rt_engine st' = rt_engine st @ [reg] \<and>
       route_key (fst reg) (fst (snd reg)) \<notin> set (rt_routeMethod st) \<and>
       rt_routeMethod st' = rt_routeMethod st @ [route_key (fst reg) (fst (snd reg))])"
  using assms
  by (auto simp: register_field_def trackRoute_def field_served_def split: if_splits sum.splits prod.splits)

lemma register_field_inv:
  assumes "register_field uni acc typ field st = (st', None)" and "routing_inv st"
  shows "routing_inv st'"
  using register_field_ok [OF assms(1)] assms(2)
  by (auto simp: routing_inv_def split: if_splits)

lemma register_fields_ok:
  assumes "register_fields uni acc typ flds st = (st', None)" and "routing_inv st"
  shows "routing_inv st' \<and> rt_guards st' = rt_guards st \<and>
    (\<exists>regs. rt_engine st' = rt_engine st @ regs \<and>
      list_all2 (field_served uni (rt_guards st))
        (filter (\<lambda>f. Tag_Get f ''route'' \<noteq> []) flds) regs)"
  using assms
proof (induction flds arbitrary: st)
  case Nil
  then show ?case by simp
next
  case (Cons field flds)
  from Cons.prems(1) obtain mid where one: "register_field uni acc typ field st = (mid, None)"
    and rest: "register_fields uni acc typ flds mid = (st', None)"
    by (auto split: prod.splits option.splits)
  note f = register_field_ok [OF one]
  from Cons.IH [OF rest register_field_inv [OF one Cons.prems(2)]]
  obtain regs where r: "routing_inv st'" "rt_guards st' = rt_guards mid" "rt_engine st' = rt_engine mid @ regs"
    "list_all2 (field_served uni (rt_guards mid)) (filter (\<lambda>f. Tag_Get f ''route'' \<noteq> []) flds) regs"
    by blast
  show ?case
  proof (cases "Tag_Get field ''route'' = []")
    case True
    with f r show ?thesis by simp
  next
    case False
    with f obtain reg where "field_served uni (rt_guards st) field reg" "rt_engine mid = rt_engine st @ [reg]"
      "rt_guards mid = rt_guards st" by auto
    with r False show ?thesis by (auto intro!: exI [of _ "reg # regs"])
  qed
qed

section \<open>Properties\<close>

text \<open>
  What a \<^verbatim>\<open>route\<close> tag may say: parsing succeeds only with a non-empty upper-cased
  method and a path that starts with a slash and holds no blank, tab or line break; and
  a supported method joined to such a path parses back to itself.
\<close>

theorem route_tag_roundtrip:
  assumes "method \<in> set httpMethods" and "HasPrefix path ''/''" and "TrimSpace path = path"
    and "\<not> ContainsAny path [CHR '' '', CHR 0x09, CHR 0x0D, CHR 0x0A]"
  shows "parseRouteTag uni (method @ '':'' @ path) = Inr (method, path) \<and>
    (\<forall>tag m p. parseRouteTag uni tag = Inr (m, p) \<longrightarrow> m \<noteq> [] \<and> HasPrefix p ''/'' \<and>
      \<not> ContainsAny p [CHR '' '', CHR 0x09, CHR 0x0D, CHR 0x0A])"
proof -
  have m: "CHR '':'' \<notin> set method" "TrimSpace method = method" "ToUpper uni method = method" "method \<noteq> []"
  proof -
    have "\<forall>m \<in> set httpMethods. CHR '':'' \<notin> set m \<and> m \<noteq> [] \<and> plain_char (hd m) \<and> plain_char (last m) \<and>
        is_ascii m \<and> map upper_char m = m" by code_simp
    with assms(1) show "CHR '':'' \<notin> set method" "TrimSpace method = method"
      "ToUpper uni method = method" "method \<noteq> []"
      by (auto simp: ToUpper_def intro: TrimSpace_plain)
  qed
  from m(1) have "split_first CHR '':'' (method @ '':'' @ path) = Some (method, path)"
    by (simp add: split_first_Some_iff)
  moreover have "path \<noteq> []" using assms(2) by (auto simp: HasPrefix_iff)
  ultimately have "parseRouteTag uni (method @ '':'' @ path) = Inr (method, path)"
    using m assms by (simp add: parseRouteTag_def)
  then show ?thesis using parseRouteTag_Inr(1-3) by blast
qed

theorem route_tag_roundtrip_witness:
  "parseRouteTag id (''DELETE'' @ '':'' @ ''/users/:id'') = Inr (''DELETE'', ''/users/:id'')"
proof -
  have "''DELETE'' \<in> set httpMethods" "HasPrefix ''/users/:id'' ''/''" "TrimSpace ''/users/:id'' = ''/users/:id''"
    "\<not> ContainsAny ''/users/:id'' [CHR '' '', CHR 0x09, CHR 0x0D, CHR 0x0A]" by code_simp+
  from route_tag_roundtrip [OF this] show ?thesis by blast
qed

text \<open>
  C39. A controller that registers without panic has each of its fields with a \<^verbatim>\<open>route\<close> tag
  mounted once, in field order, behind exactly the guards its \<^verbatim>\<open>guard\<close> tag names followed
  by its own handler: no declared endpoint is lost, none is added, and none with a
  non-blank guard tag is reachable without its guards. No method and path is mounted
  twice.
\<close>

theorem controller_registration_complete:
  assumes "registerController uni acc (Struct typ flds) st = (st', None)" and "routing_inv st"
  shows "routing_inv st' \<and> (\<exists>regs. rt_engine st' = rt_engine st @ regs \<and>
    list_all2 (field_served uni (rt_guards st)) (filter (\<lambda>f. Tag_Get f ''route'' \<noteq> []) flds) regs \<and>
    (\<forall>f method path chain. f \<in> set flds \<longrightarrow> field_served uni (rt_guards st) f (method, path, chain) \<longrightarrow>
      TrimSpace (Tag_Get f ''guard'') \<noteq> [] \<longrightarrow> 2 \<le> length chain))"
proof -
  have long: "2 \<le> length chain" if "field_served uni (rt_guards st) f (meth, path, chain)"
    and nb: "TrimSpace (Tag_Get f ''guard'') \<noteq> []" for f :: "'a struct_field" and meth and path and chain
  proof -
    from that(1) obtain h gs where g: "resolveGuards (rt_guards st) (Tag_Get f ''guard'') = Inr gs" "chain = gs @ [h]"
      by (auto simp: field_served_def)
    from g(1) obtain specs where "ParseGuardTag (Tag_Get f ''guard'') = Inr specs"
      and "resolve_specs (rt_guards st) specs = Inr gs" by (auto simp: resolveGuards_def and_then_Inr_iff)
    with nb have "specs \<noteq> []" "length gs = length specs"
      by (auto simp: ParseGuardTag_nonempty resolve_specs_iff dest: list_all2_lengthD)
    with g(2) show ?thesis by (cases specs) auto
  qed
  from assms(1) have "register_fields uni acc typ flds st = (st', None)" by (simp add: registerController_def)
  from register_fields_ok [OF this assms(2)] long show ?thesis by blast
qed

definition demo_fields :: "nat struct_field list" where
  "demo_fields =
     [\<lparr>f_name = ''List'', f_tags = [(''route'', ''get:/users'')], f_is_func = True, f_exported = True,
       f_can_interface = True, f_value = HandlerFunc 10\<rparr>,
      \<lparr>f_name = ''Repo'', f_tags = [], f_is_func = False, f_exported = False,
       f_can_interface = False, f_value = FuncNil\<rparr>,
      \<lparr>f_name = ''Delete'', f_tags = [(''route'', ''DELETE:/users/:id''), (''guard'', ''Auth Roles(admin)'')],
       f_is_func = True, f_exported = True, f_can_interface = True, f_value = HandlerFunc 11\<rparr>]"

definition demo_routing :: "nat routing" where
  "demo_routing = \<lparr>rt_guards = [(''Auth'', \<lambda>_. Some 1), (''Roles'', \<lambda>as. Some (2 + length as))],
     rt_routeMethod = [], rt_engine = []\<rparr>"

theorem controller_registration_complete_witness:
  "rt_engine (fst (registerController id (\<lambda>_ _ _. True) (Struct ''UserController'' demo_fields) demo_routing)) =
     [(''GET'', ''/users'', [10]), (''DELETE'', ''/users/:id'', [1, 3, 11])] \<and>
   routing_inv (fst (registerController id (\<lambda>_ _ _. True) (Struct ''UserController'' demo_fields) demo_routing))"
proof -
  let ?r = "registerController id (\<lambda>_ _ _. True) (Struct ''UserController'' demo_fields) demo_routing"
  have "snd ?r = None" by code_simp
  then have r: "?r = (fst ?r, None)" by (simp add: prod_eq_iff)
  have "routing_inv demo_routing" by code_simp
  with controller_registration_complete [OF r] have "routing_inv (fst ?r)" by blast
  moreover have "rt_engine (fst ?r) = [(''GET'', ''/users'', [10]), (''DELETE'', ''/users/:id'', [1, 3, 11])]"
    by code_simp
  ultimately show ?thesis by blast
qed

end
