(* ===== verification/Server.thy ===== *)
theory Server
  imports Dispatch Http_Routes
begin

text \<open>
  The message server (\<^verbatim>\<open>common/microservice/server.go\<close>): it collects the transports, scans
  controllers for fields tagged with a transport and a pattern, registers each as a route of
  that transport's router and mounts its guarded handler chain, hands every transport a
  dispatcher, and supervises the listeners.
\<close>

section \<open>The code\<close>

text \<open>
  The listeners and the routers are Go maps by name. Ranging over a map has no fixed order; the
  list \<open>s_listeners\<close> stands for the order in which a loop visits the names, and nothing below
  depends on which one it is.
\<close>

record 'h server =
  s_listeners :: "string list"
  s_routers :: "(string, router) gomap"
  s_heap :: route_heap
  s_next :: route_ptr
  s_dispatch :: "'h dispatcher"
  s_counter :: nat
  s_guards :: "'h guard_registry"
  s_timeout :: int
  s_concurrent :: int
  s_running :: bool
  s_closed :: bool

datatype handler_error = MsgNotFunc | MsgNotExported | MsgNil | MsgWrongSignature

datatype server_error =
    AppRequired
  | EmptyTransportName
  | TransportTwice string
  | NoTransport
  | SrvControllerNil
  | SrvControllerNilPointer
  | SrvControllerNotStruct string
  | SrvNoPattern string string
  | SrvUnknownTransport string
  | SrvHandler handler_error
  | SrvGuard guard_error
  | SrvAdd add_error

subsection \<open>Setup\<close>

definition DefaultConcurrency :: int where
  "DefaultConcurrency = 64"

definition DefaultHandlerTimeout :: int where
  "DefaultHandlerTimeout = 30 * Second"

text \<open>A transport is known by its name here; \<open>None\<close> is a nil listener.\<close>

definition appendListener :: "string option \<Rightarrow> string list \<Rightarrow> (server_error, string list) result" where
  "appendListener l listeners =
     (case l of
        None \<Rightarrow> Inr listeners
      | Some name \<Rightarrow>
          if name = '''' then Inl EmptyTransportName
          else if name \<in> set listeners then Inl (TransportTwice name)
          else Inr (listeners @ [name]))"

fun append_all :: "string option list \<Rightarrow> string list \<Rightarrow> (server_error, string list) result" where
  "append_all [] listeners = Inr listeners"
| "append_all (l # ls) listeners = and_then (appendListener l listeners) (append_all ls)"

text \<open>
  \<^verbatim>\<open>Setup\<close>: \<open>guards\<close> and \<open>counter\<close> are the guard registry of the application and the counter of
  mounted routes, \<open>seed\<close> and \<open>recover\<close> the two middleware of a new dispatcher. What it registers
  with the application (the observer of controllers and the two hooks) is \<open>Setup_hooks\<close>.
\<close>

definition Setup :: "bool \<Rightarrow> string option \<Rightarrow> string option list \<Rightarrow> 'h list \<Rightarrow> bool \<Rightarrow> int \<Rightarrow> int \<Rightarrow>
    'h \<Rightarrow> 'h \<Rightarrow> 'h guard_registry \<Rightarrow> nat \<Rightarrow> route_heap \<Rightarrow> route_ptr \<Rightarrow> (server_error, 'h server) result" where
  "Setup app transport transports middleware disableRecovery concurrency handlerTimeout seed recover guards counter h next =
     (if \<not> app then Inl AppRequired
      else and_then (appendListener transport []) (\<lambda>ls. and_then (append_all transports ls) (\<lambda>listeners.
        if length listeners = 0 then Inl NoTransport
        else Inr \<lparr>s_listeners = listeners, s_routers = map (\<lambda>name. (name, NewRouter)) listeners,
                  s_heap = h, s_next = next, s_dispatch = newDispatcher seed recover middleware (\<not> disableRecovery),
                  s_counter = counter, s_guards = guards,
                  s_timeout = (if handlerTimeout \<le> 0 then DefaultHandlerTimeout else handlerTimeout),
                  s_concurrent = (if concurrency \<le> 0 then DefaultConcurrency else concurrency),
                  s_running = False, s_closed = False\<rparr>)))"

definition Setup_hooks :: "(nat \<Rightarrow> nat \<Rightarrow> 'w \<Rightarrow> 'w \<times> err option) \<Rightarrow> nat \<Rightarrow> nat \<Rightarrow> nat \<Rightarrow> 'w life \<Rightarrow>
    'w life \<times> err option" where
  "Setup_hooks obs observer start stop a =
     (case OnController obs (Some observer) a of
        (a, Some e) \<Rightarrow> (a, Some e)
      | (a, None) \<Rightarrow> (OnShutdown (Some stop) (OnStart (Some start) a), None))"

subsection \<open>Registering controllers\<close>

definition messageHandler :: "'h struct_field \<Rightarrow> (handler_error, 'h) result" where
  "messageHandler f =
     (if \<not> f_is_func f then Inl MsgNotFunc
      else if \<not> f_exported f then Inl MsgNotExported
      else (case f_value f of
          FuncNil \<Rightarrow> Inl MsgNil
        | HandlerFunc h \<Rightarrow> Inr h
        | OtherFunc \<Rightarrow> Inl MsgWrongSignature))"

fun guard_loop :: "'h guard_registry \<Rightarrow> guard_spec list \<Rightarrow> 'h list \<Rightarrow> string list \<Rightarrow>
    (guard_error, 'h list \<times> string list) result" where
  "guard_loop guards [] handlers names = Inr (handlers, names)"
| "guard_loop guards (spec # specs) handlers names =
     (case Guard_lookup guards (gs_name spec) of
        None \<Rightarrow> Inl (GuardNotRegistered (gs_name spec))
      | Some guardFn \<Rightarrow>
          (case guardFn (gs_args spec) of
             None \<Rightarrow> Inl (GuardNilMiddleware (gs_name spec))
           | Some middleware \<Rightarrow>
               guard_loop guards specs (handlers @ [middleware]) (names @ [gs_name spec])))"

definition Server_resolveGuards :: "'h guard_registry \<Rightarrow> string \<Rightarrow>
    (guard_error, 'h list \<times> string list) result" where
  "Server_resolveGuards guards guardTag =
     and_then (ParseGuardTag guardTag) (\<lambda>specs.
       if length specs = 0 then Inr ([], []) else guard_loop guards specs [] [])"

definition message_field :: "string \<Rightarrow> 'h struct_field \<Rightarrow> 'h server \<Rightarrow> 'h server \<times> server_error option" where
  "message_field typ field s =
     (let transportName = Tag_Get field ''transport''; pattern = Tag_Get field ''pattern''
      in if transportName = '''' then (s, None)
         else if pattern = '''' then (s, Some (SrvNoPattern (f_name field) transportName))
         else (case mget (s_routers s) transportName of
             None \<Rightarrow> (s, Some (SrvUnknownTransport transportName))
           | Some router \<Rightarrow>
               (case messageHandler field of
                  Inl e \<Rightarrow> (s, Some (SrvHandler e))
                | Inr handler \<Rightarrow>
                    (case Server_resolveGuards (s_guards s) (Tag_Get field ''guard'') of
                       Inl e \<Rightarrow> (s, Some (SrvGuard e))
                     | Inr (guards, guardNames) \<Rightarrow>
                         let route = s_next s;
                             h = (s_heap s)(route := \<lparr>r_pattern = pattern, r_transport = transportName,
                               r_controller = typ, r_field = f_name field, r_guards = guardNames,
                               r_path = '''', r_url = None, r_rank = Specificity False 0 0 ''''\<rparr>);
                             s = s\<lparr>s_heap := h, s_next := route + 1\<rparr>
                         in (case Add h router (Some route) of
                               ((h', router'), Some e) \<Rightarrow>
                                 (s\<lparr>s_heap := h', s_routers := mput transportName router' (s_routers s)\<rparr>, Some (SrvAdd e))
                             | ((h', router'), None) \<Rightarrow>
                                 let (d, n, h'') = mount (s_dispatch s) (s_counter s) h' route (guards @ [handler])
                                 in (s\<lparr>s_heap := h'', s_routers := mput transportName router' (s_routers s),
                                       s_dispatch := d, s_counter := n\<rparr>, None))))))"

fun message_fields :: "string \<Rightarrow> 'h struct_field list \<Rightarrow> 'h server \<Rightarrow> 'h server \<times> server_error option" where
  "message_fields typ [] s = (s, None)"
| "message_fields typ (field # flds) s =
     (case message_field typ field s of
        (s', Some e) \<Rightarrow> (s', Some e)
      | (s', None) \<Rightarrow> message_fields typ flds s')"

definition Server_registerController :: "'h controller \<Rightarrow> 'h server \<Rightarrow> 'h server \<times> server_error option" where
  "Server_registerController ctrl s =
     (case ctrl of
        NilController \<Rightarrow> (s, Some SrvControllerNil)
      | NilPointer \<Rightarrow> (s, Some SrvControllerNilPointer)
      | NotStruct kind \<Rightarrow> (s, Some (SrvControllerNotStruct kind))
      | Struct typ flds \<Rightarrow> message_fields typ flds s)"

fun Server_RegisterControllers :: "'h controller list \<Rightarrow> 'h server \<Rightarrow> 'h server \<times> server_error option" where
  "Server_RegisterControllers [] s = (s, None)"
| "Server_RegisterControllers (ctrl # ctrls) s =
     (case Server_registerController ctrl s of
        (s', Some e) \<Rightarrow> (s', Some e)
      | (s', None) \<Rightarrow> Server_RegisterControllers ctrls s')"

subsection \<open>Dispatching\<close>

text \<open>
  The dispatcher of one transport, once it holds a slot: the router after the lookup, the
  reply, and what is reported as a failure. The server answers an unknown subject itself.
\<close>

definition dispatch_message :: "(string \<Rightarrow> string) \<Rightarrow> (string \<Rightarrow> string) \<Rightarrow> 'v json \<Rightarrow> 'h engine \<Rightarrow>
    'h server \<Rightarrow> router \<Rightarrow> envelope \<Rightarrow> router \<times> envelope option \<times> (string \<times> msg_error) option" where
  "dispatch_message uni quo j serve s router env =
     (case Resolve (s_heap s) router (e_Pattern env) of
        (router', route, found) \<Rightarrow>
          if \<not> found then
            (router', Some (replyError env 404 ''PATTERN_NOT_FOUND''
               (''no handler is registered for pattern '' @ Quote quo (e_Pattern env))),
             Some (e_Pattern env, ErrNoHandler))
          else (case dispatchRoute uni quo j serve (s_dispatch s) (s_heap s) (Some env) route of
              (reply, Some err) \<Rightarrow> (router', reply, Some (e_Pattern env, err))
            | (reply, None) \<Rightarrow>
                (router', reply,
                 (case reply of
                    Some r \<Rightarrow> map_option (\<lambda>x. (e_Pattern env, Remote x)) (e_Error r)
                  | None \<Rightarrow> None))))"

text \<open>
  \<^verbatim>\<open>dispatcherFor\<close>: a message takes one of the transport's slots or gives up with its context;
  \<open>slots\<close> counts the messages being handled. The slot is released on every way out.
\<close>

datatype slot_event = SlotTaken | ContextDone msg_error

definition dispatcherFor :: "(string \<Rightarrow> string) \<Rightarrow> (string \<Rightarrow> string) \<Rightarrow> 'v json \<Rightarrow> 'h engine \<Rightarrow>
    'h server \<Rightarrow> router \<Rightarrow> slot_event \<Rightarrow> envelope \<Rightarrow>
    router \<times> (msg_error, envelope option) result \<times> (string \<times> msg_error) option" where
  "dispatcherFor uni quo j serve s router ev env =
     (case ev of
        ContextDone e \<Rightarrow> (router, Inl e, None)
      | SlotTaken \<Rightarrow>
          (case dispatch_message uni quo j serve s router env of
             (router', reply, report) \<Rightarrow> (router', Inr reply, report)))"

subsection \<open>Listeners\<close>

text \<open>
  One round of the supervisor of a listener: what \<^verbatim>\<open>Listen\<close> returned, whether the context had
  ended by then, and whether it ended during the wait before the next attempt.
\<close>

record attempt =
  at_err :: "msg_error option"
  at_done :: bool
  at_done_waiting :: bool

definition Millisecond :: int where
  "Millisecond = 1000000"

datatype listener_exit = Cancelled | TransportDone

text \<open>
  \<^verbatim>\<open>runListener\<close> as a function of the rounds it goes through: the waits it has made, and how it
  ended (\<open>None\<close>: it is still running after these rounds).
\<close>

fun runListener_loop :: "attempt list \<Rightarrow> int \<Rightarrow> int list \<times> listener_exit option" where
  "runListener_loop [] backoff = ([], None)"
| "runListener_loop (at # ats) backoff =
     (if at_done at \<or> at_err at = Some ErrClosed then ([], Some Cancelled)
      else if at_err at = None then ([], Some TransportDone)
      else if at_done_waiting at then ([], Some Cancelled)
      else let backoff' = backoff * 2;
               (waits, x) = runListener_loop ats (if backoff' > 30 * Second then 30 * Second else backoff')
           in (backoff # waits, x))"

definition runListener :: "attempt list \<Rightarrow> int list \<times> listener_exit option" where
  "runListener ats = runListener_loop ats (250 * Millisecond)"

subsection \<open>Starting and stopping\<close>

text \<open>\<^verbatim>\<open>Start\<close>: the listeners it starts, with the patterns each subscribes to.\<close>

definition Server_Start :: "'h server \<Rightarrow> 'h server \<times> (string \<times> string list) list \<times> msg_error option" where
  "Server_Start s =
     (if s_closed s then (s, [], Some ErrClosed)
      else if s_running s then (s, [], None)
      else (s\<lparr>s_running := True\<rparr>,
            List.map_filter (\<lambda>name.
              let patterns = (case mget (s_routers s) name of None \<Rightarrow> [] | Some r \<Rightarrow> Patterns (s_heap s) r)
              in if length patterns = 0 then None else Some (name, patterns)) (s_listeners s),
            None))"

text \<open>The loop that closes the listeners; \<open>close\<close> is what closing one of them answers.\<close>

fun close_loop :: "(string \<Rightarrow> msg_error option) \<Rightarrow> string list \<Rightarrow> (string \<times> msg_error) option \<Rightarrow>
    string list \<times> (string \<times> msg_error) option" where
  "close_loop close [] firstErr = ([], firstErr)"
| "close_loop close (name # names) firstErr =
     (case close_loop close names
         (case close name of Some e \<Rightarrow> if firstErr = None then Some (name, e) else firstErr | None \<Rightarrow> firstErr) of
        (closed, e) \<Rightarrow> (name # closed, e))"

text \<open>
  \<^verbatim>\<open>Stop\<close>: the listeners it closes and the first error. Waiting for the listener goroutines ends
  with them or with the context of the caller and changes nothing here.
\<close>

definition Stop :: "(string \<Rightarrow> msg_error option) \<Rightarrow> 'h server \<Rightarrow>
    'h server \<times> string list \<times> (string \<times> msg_error) option" where
  "Stop close s =
     (if s_closed s then (s, [], None)
      else (case close_loop close (s_listeners s) None of
          (closed, e) \<Rightarrow> (s\<lparr>s_closed := True\<rparr>, closed, e)))"

text \<open>\<^verbatim>\<open>Listen\<close> of a worker process: start, wait for the context, stop.\<close>

definition Server_Listen :: "(string \<Rightarrow> msg_error option) \<Rightarrow> 'h server \<Rightarrow>
    'h server \<times> (string \<times> string list) list \<times> string list \<times> (msg_error + string \<times> msg_error) option" where
  "Server_Listen close s =
     (case Server_Start s of
        (s1, started, Some e) \<Rightarrow> (s1, started, [], Some (Inl e))
      | (s1, started, None) \<Rightarrow>
          (case Stop close s1 of (s2, closed, e) \<Rightarrow> (s2, started, closed, map_option Inr e)))"

definition Server_Routes :: "'h server \<Rightarrow> route_ptr list" where
  "Server_Routes s = concat (map (\<lambda>(name, r). Routes (s_heap s) r) (s_routers s))"

definition Server_Router :: "'h server \<Rightarrow> string \<Rightarrow> router option" where
  "Server_Router s transport = mget (s_routers s) transport"

definition transportNames :: "'h server \<Rightarrow> string list" where
  "transportNames s = s_listeners s"

section \<open>The invariant\<close>

text \<open>A registered route is allocated, belongs to its transport and is mounted.\<close>

definition route_ok :: "'h server \<Rightarrow> string \<Rightarrow> route_ptr \<Rightarrow> bool" where
  "route_ok s name a \<longleftrightarrow> a < s_next s \<and> r_transport (s_heap s a) = name \<and> r_path (s_heap s a) \<noteq> '''' \<and>
     r_url (s_heap s a) = Some (r_path (s_heap s a)) \<and> r_path (s_heap s a) \<in> fst ` set (d_table (s_dispatch s))"

definition server_inv :: "'h server \<Rightarrow> bool" where
  "server_inv s \<longleftrightarrow> map_ok (s_routers s) \<and> table_ok (d_table (s_dispatch s)) (s_counter s) \<and>
     (\<forall>name r. mget (s_routers s) name = Some r \<longrightarrow>
        router_inv (s_heap s) r \<and> (\<forall>a \<in> registered r. route_ok s name a))"

text \<open>The handler chain mounted for a route, and that it is the one a field declares.\<close>

definition chain_of :: "'h server \<Rightarrow> route_ptr \<Rightarrow> 'h list option" where
  "chain_of s a = map_of (d_table (s_dispatch s)) (r_path (s_heap s a))"

definition serves :: "'h server \<Rightarrow> 'h struct_field \<Rightarrow> route_ptr \<Rightarrow> bool" where
  "serves s f a \<longleftrightarrow> r_pattern (s_heap s a) = Tag_Get f ''pattern'' \<and>
     (\<exists>gs h. messageHandler f = Inr h \<and> resolveGuards (s_guards s) (Tag_Get f ''guard'') = Inr gs \<and>
        chain_of s a = Some (gs @ [h]))"

text \<open>The routers hold exactly the routes the fields seen so far declare.\<close>

definition registered_for :: "'h struct_field list \<Rightarrow> 'h server \<Rightarrow> bool" where
  "registered_for fs s \<longleftrightarrow>
     (\<forall>f \<in> set fs. Tag_Get f ''transport'' \<noteq> '''' \<longrightarrow>
        (\<exists>r a. mget (s_routers s) (Tag_Get f ''transport'') = Some r \<and> a \<in> registered r \<and> serves s f a)) \<and>
     (\<forall>t r a. mget (s_routers s) t = Some r \<and> a \<in> registered r \<longrightarrow>
        (\<exists>f \<in> set fs. Tag_Get f ''transport'' = t \<and> serves s f a))"

lemma Setup_Inr:
  assumes "Setup app transport transports mw dr conc ht seed recover guards counter h next = Inr s"
  shows "server_inv s" "registered_for [] s" "s_guards s = guards"
    "set (mkeys (s_routers s)) = set (s_listeners s)" "s_listeners s \<noteq> []" "distinct (s_listeners s)"
proof -
  have app1: "distinct ls \<Longrightarrow> appendListener l ls = Inr ls' \<Longrightarrow> distinct ls'" for l ls ls'
    by (auto simp: appendListener_def split: option.splits if_splits)
  have appn: "append_all ts ls = Inr ls' \<Longrightarrow> distinct ls \<Longrightarrow> distinct ls'" for ts ls ls'
    by (induction ts arbitrary: ls) (auto simp: and_then_Inr_iff dest: app1)
  from assms obtain ls listeners where ls: "appendListener transport [] = Inr ls" "append_all transports ls = Inr listeners"
      "listeners \<noteq> []" and s: "s_listeners s = listeners" "s_routers s = map (\<lambda>name. (name, NewRouter)) listeners"
      "d_table (s_dispatch s) = []" "s_guards s = guards"
    by (auto simp: Setup_def and_then_Inr_iff newDispatcher_def split: if_splits)
  have dist: "distinct listeners" using appn [OF ls(2)] app1 [OF _ ls(1)] by simp
  then have mok: "map_ok (s_routers s)" by (simp add: s map_ok_def mkeys_def comp_def)
  have new: "r = NewRouter" if "mget (s_routers s) t = Some r" for t r
    using mget_Some_set [OF mok] that s(2) by auto
  have "registered NewRouter = {}" by (simp add: registered_def NewRouter_def)
  with new have none: "router_inv (s_heap s) r \<and> registered r = {}" if "mget (s_routers s) t = Some r" for t r
    using that router_inv_NewRouter by metis
  then show "server_inv s" "registered_for [] s"
    using mok s(3) by (auto simp: server_inv_def registered_for_def table_ok_def)
  show "s_guards s = guards" "set (mkeys (s_routers s)) = set (s_listeners s)" "s_listeners s \<noteq> []" "distinct (s_listeners s)"
    using s ls(3) dist by (auto simp: mkeys_def)
qed

text \<open>\<^verbatim>\<open>Add\<close> writes to the route it is given only.\<close>

lemma Add_heap:
  assumes "Add h r (Some a) = ((h', r'), e)"
  shows "\<And>b. b \<noteq> a \<Longrightarrow> h' b = h b" "r_pattern (h' a) = r_pattern (h a)" "r_transport (h' a) = r_transport (h a)"
    "e \<noteq> None \<Longrightarrow> r' = r"
  using assms by (auto elim!: Add_cases)

lemma guard_loop_resolve:
  "guard_loop guards specs hs ns =
     and_then (resolve_specs guards specs) (\<lambda>hs'. Inr (hs @ hs', ns @ map gs_name specs))"
proof (induction specs arbitrary: hs ns)
  case (Cons spec specs)
  then show ?case
    by (auto simp: Guard_lookup_def and_then_def split: option.splits sum.splits)
qed simp

lemma Server_resolveGuards_Inr:
  assumes "Server_resolveGuards guards tag = Inr (gs, names)"
  shows "resolveGuards guards tag = Inr gs"
  using assms
  by (auto simp: Server_resolveGuards_def resolveGuards_def guard_loop_resolve and_then_Inr_iff split: if_splits)

text \<open>The ways through one field.\<close>

lemma message_field_cases:
  assumes "message_field typ f s = (s', e)"
  obtains (skip) "Tag_Get f ''transport'' = ''''" "s' = s" "e = None"
  | (refused) err where "s' = s" "e = Some err"
  | (rejected) h r h' err where "mget (s_routers s) (Tag_Get f ''transport'') = Some r"
      "\<And>b. b \<noteq> s_next s \<Longrightarrow> h b = s_heap s b" "Add h r (Some (s_next s)) = ((h', r), Some err)"
      "s' = s\<lparr>s_next := s_next s + 1, s_heap := h', s_routers := mput (Tag_Get f ''transport'') r (s_routers s)\<rparr>" "e = Some (SrvAdd err)"
  | (stored) h r h' r' gs hdl d n h'' where "mget (s_routers s) (Tag_Get f ''transport'') = Some r"
      "Tag_Get f ''transport'' \<noteq> ''''" "messageHandler f = Inr hdl" "resolveGuards (s_guards s) (Tag_Get f ''guard'') = Inr gs"
      "\<And>b. b \<noteq> s_next s \<Longrightarrow> h b = s_heap s b" "r_pattern (h (s_next s)) = Tag_Get f ''pattern''"
      "r_transport (h (s_next s)) = Tag_Get f ''transport''"
      "Add h r (Some (s_next s)) = ((h', r'), None)"
      "mount (s_dispatch s) (s_counter s) h' (s_next s) (gs @ [hdl]) = (d, n, h'')"
      "s' = s\<lparr>s_next := s_next s + 1, s_heap := h'', s_routers := mput (Tag_Get f ''transport'') r' (s_routers s),
         s_dispatch := d, s_counter := n\<rparr>" "e = None"
proof (cases "Tag_Get f ''transport'' = '''' \<or> Tag_Get f ''pattern'' = '''' \<or>
    mget (s_routers s) (Tag_Get f ''transport'') = None \<or> (\<exists>err. messageHandler f = Inl err) \<or>
    (\<exists>err. Server_resolveGuards (s_guards s) (Tag_Get f ''guard'') = Inl err)")
  case True
  then have "s' = s \<and> (e = None \<longrightarrow> Tag_Get f ''transport'' = '''')"
    using assms unfolding message_field_def Let_def
    by (elim disjE exE) (auto split: option.splits sum.splits if_splits)
  then show ?thesis using skip refused by (cases e) auto
next
  case False
  then obtain r hdl gs names where ok: "mget (s_routers s) (Tag_Get f ''transport'') = Some r" "messageHandler f = Inr hdl"
      "Server_resolveGuards (s_guards s) (Tag_Get f ''guard'') = Inr (gs, names)"
    by (metis old.sum.exhaust option.exhaust surj_pair)
  define h where "h = (s_heap s)(s_next s := \<lparr>r_pattern = Tag_Get f ''pattern'', r_transport = Tag_Get f ''transport'',
    r_controller = typ, r_field = f_name f, r_guards = names, r_path = '''', r_url = None, r_rank = Specificity False 0 0 ''''\<rparr>)"
  obtain h' r' e' where A: "Add h r (Some (s_next s)) = ((h', r'), e')" by (metis surj_pair)
  show ?thesis
  proof (cases e')
    case (Some err)
    with Add_heap(4) [OF A] have "r' = r" by simp
    with A Some rejected [of r h h' err] ok False assms show ?thesis
      by (simp add: message_field_def Let_def h_def)
  next
    case None
    obtain d n h'' where M: "mount (s_dispatch s) (s_counter s) h' (s_next s) (gs @ [hdl]) = (d, n, h'')"
      by (metis surj_pair)
    show ?thesis
      by (rule stored [OF ok(1) _ ok(2) Server_resolveGuards_Inr [OF ok(3)] _ _ _ A [unfolded None] M])
        (use A M None ok False assms in \<open>auto simp: message_field_def Let_def h_def\<close>)
  qed
qed

lemma router_inv_agree:
  assumes "router_inv h r" and "\<forall>a \<in> registered r. h' a = h a"
  shows "router_inv h' r"
  by (rule router_inv_heap [OF assms(1)]) (simp add: assms(2))

lemma mkeys_mput_old: "mget m k = Some w \<Longrightarrow> mkeys (mput k v m) = mkeys m"
  using mget_None_iff [of m k] by (simp add: mkeys_def mput_def AList.update_keys)

lemma route_ok_frame:
  assumes "route_ok s name a" and "s_next s \<le> s_next s'" and "s_heap s' a = s_heap s a"
    and "fst ` set (d_table (s_dispatch s)) \<subseteq> fst ` set (d_table (s_dispatch s'))"
  shows "route_ok s' name a"
  using assms unfolding route_ok_def by (metis less_le_trans subsetD)

text \<open>A field that was stored: the invariant, and which routes there are.\<close>

lemma message_field_stored:
  assumes inv: "server_inv s" and reg: "registered_for fs s"
    and r: "mget (s_routers s) t = Some r" and t: "t = Tag_Get f ''transport''" "t \<noteq> ''''"
    and decl: "messageHandler f = Inr hdl" "resolveGuards (s_guards s) (Tag_Get f ''guard'') = Inr gs"
    and h: "\<And>b. b \<noteq> s_next s \<Longrightarrow> h b = s_heap s b" "r_pattern (h (s_next s)) = Tag_Get f ''pattern''"
      "r_transport (h (s_next s)) = t"
    and A: "Add h r (Some (s_next s)) = ((h', r'), None)"
    and M: "mount (s_dispatch s) (s_counter s) h' (s_next s) (gs @ [hdl]) = (d, n, h'')"
    and s': "s' = s\<lparr>s_next := s_next s + 1, s_heap := h'', s_routers := mput t r' (s_routers s),
         s_dispatch := d, s_counter := n\<rparr>"
  shows "server_inv s' \<and> registered_for (fs @ [f]) s'"
proof -
  let ?a = "s_next s"
  have mok: "map_ok (s_routers s)" and tab: "table_ok (d_table (s_dispatch s)) (s_counter s)"
    and routers: "\<And>name q. mget (s_routers s) name = Some q \<Longrightarrow> router_inv (s_heap s) q \<and> (\<forall>a \<in> registered q. route_ok s name a)"
    using inv by (auto simp: server_inv_def)
  note m = mounted_path_facts [OF tab M]
  have old: "a \<noteq> ?a" if "mget (s_routers s) name = Some q" "a \<in> registered q" for name q a
    using routers [OF that(1)] that(2) by (auto simp: route_ok_def)
  have heap: "h'' b = s_heap s b" if "b \<noteq> ?a" for b
    using that h(1) Add_heap(1) [OF A] m(7) by metis
  have new: "r_pattern (h'' ?a) = Tag_Get f ''pattern''" "r_transport (h'' ?a) = t"
    using h(2,3) Add_heap(2,3) [OF A] m(8,9) by simp_all
  have "\<forall>a \<in> registered r. h a = s_heap s a" using old [OF r] h(1) by blast
  then have "router_inv h r" using routers [OF r] by (blast intro: router_inv_agree)
  then have inv_h': "router_inv h' r'" and regd: "registered r' = insert ?a (registered r)"
    using Add_inv [OF _ A] Add_registered [OF _ A] by auto
  have inv_r': "router_inv h'' r'"
  proof (rule router_inv_heap [OF inv_h'])
    show "r_pattern (h'' b) = r_pattern (h' b) \<and> r_rank (h'' b) = r_rank (h' b)" for b
      using m(7,8,10) by (cases "b = ?a") simp_all
  qed
  have inv_q: "router_inv h'' q" if "mget (s_routers s) name = Some q" for name q
    using routers [OF that] old [OF that] heap by (blast intro: router_inv_agree)
  have get: "mget (s_routers s') name = (if name = t then Some r' else mget (s_routers s) name)" for name
    by (simp add: s')
  have ok_old: "route_ok s' name a" if "mget (s_routers s) name = Some q" "a \<in> registered q" for name q a
  proof (rule route_ok_frame)
    show "route_ok s name a" using routers [OF that(1)] that(2) by blast
    show "s_next s \<le> s_next s'" "s_heap s' a = s_heap s a"
      using heap [OF old [OF that]] by (simp_all add: s')
    show "fst ` set (d_table (s_dispatch s)) \<subseteq> fst ` set (d_table (s_dispatch s'))"
      using m(6) by (auto simp: s')
  qed
  have ok_new: "route_ok s' t ?a" using new(2) m by (auto simp: route_ok_def s')
  have "router_inv h'' q \<and> (\<forall>a \<in> registered q. route_ok s' name a)" if "mget (s_routers s') name = Some q" for name q
    using that inv_r' inv_q ok_old ok_new regd r by (auto simp: get split: if_splits)
  moreover have "map_ok (s_routers s')" "table_ok (d_table (s_dispatch s')) (s_counter s')"
    using mok m(1) by (simp_all add: s')
  moreover have s'_simps: "s_heap s' = h''" "s_dispatch s' = d" "s_guards s' = s_guards s" by (simp_all add: s')
  ultimately have inv': "server_inv s'" by (auto simp: server_inv_def)
  have keep: "serves s' g a" if "mget (s_routers s) name = Some q" "a \<in> registered q" "serves s g a" for name q a g
  proof -
    from routers [OF that(1)] that(2) have "r_path (s_heap s a) \<in> fst ` set (d_table (s_dispatch s))"
      by (auto simp: route_ok_def)
    with m(6) have "map_of (d_table d) (r_path (s_heap s a)) = map_of (d_table (s_dispatch s)) (r_path (s_heap s a))"
      by blast
    then have "chain_of s' a = chain_of s a" using old [OF that(1,2)] heap by (simp add: chain_of_def s'_simps)
    with that(3) old [OF that(1,2)] heap show ?thesis by (simp add: serves_def s'_simps)
  qed
  have fresh: "serves s' f ?a" using new(1) decl m(5) by (simp add: serves_def chain_of_def s'_simps)
  have "\<exists>q a. mget (s_routers s') (Tag_Get g ''transport'') = Some q \<and> a \<in> registered q \<and> serves s' g a"
    if "g \<in> set (fs @ [f])" "Tag_Get g ''transport'' \<noteq> ''''" for g
  proof (cases "g = f")
    case True
    then show ?thesis using fresh regd t(1) by (auto simp: get)
  next
    case False
    with that reg obtain q a where "mget (s_routers s) (Tag_Get g ''transport'') = Some q" "a \<in> registered q" "serves s g a"
      by (auto simp: registered_for_def)
    then show ?thesis using keep regd r by (cases "Tag_Get g ''transport'' = t") (auto simp: get)
  qed
  moreover have "\<exists>g \<in> set (fs @ [f]). Tag_Get g ''transport'' = name \<and> serves s' g a"
    if "mget (s_routers s') name = Some q" "a \<in> registered q" for name q a
  proof (cases "name = t \<and> a = ?a")
    case True
    then show ?thesis using fresh t(1) by auto
  next
    case False
    with that regd r obtain q' where q': "mget (s_routers s) name = Some q'" "a \<in> registered q'"
      by (auto simp: get split: if_splits)
    with reg keep show ?thesis by (fastforce simp: registered_for_def)
  qed
  ultimately show ?thesis using inv' by (auto simp: registered_for_def)
qed

text \<open>A field that was rejected by the router leaves a fresh route behind that nobody holds.\<close>

lemma message_field_rejected:
  assumes inv: "server_inv s" and r: "mget (s_routers s) t = Some r"
    and h: "\<And>b. b \<noteq> s_next s \<Longrightarrow> h b = s_heap s b"
    and A: "Add h r (Some (s_next s)) = ((h', r), Some err)"
    and s': "s' = s\<lparr>s_next := s_next s + 1, s_heap := h', s_routers := mput t r (s_routers s)\<rparr>"
  shows "server_inv s'"
proof -
  have mok: "map_ok (s_routers s)" and tab: "table_ok (d_table (s_dispatch s)) (s_counter s)"
    and routers: "\<And>name q. mget (s_routers s) name = Some q \<Longrightarrow> router_inv (s_heap s) q \<and> (\<forall>a \<in> registered q. route_ok s name a)"
    using inv by (auto simp: server_inv_def)
  have get: "mget (s_routers s') name = mget (s_routers s) name" for name using r by (simp add: s')
  have heap: "h' b = s_heap s b" if "b \<noteq> s_next s" for b using that h Add_heap(1) [OF A] by metis
  have old: "a \<noteq> s_next s" if "mget (s_routers s) name = Some q" "a \<in> registered q" for name q a
    using routers [OF that(1)] that(2) by (auto simp: route_ok_def)
  have "router_inv h' q" if "mget (s_routers s) name = Some q" for name q
    using routers [OF that] old [OF that] heap by (blast intro: router_inv_agree)
  moreover have "route_ok s' name a" if "mget (s_routers s) name = Some q" "a \<in> registered q" for name q a
  proof (rule route_ok_frame)
    show "route_ok s name a" using routers [OF that(1)] that(2) by blast
    show "s_next s \<le> s_next s'" "s_heap s' a = s_heap s a"
      using heap [OF old [OF that]] by (simp_all add: s')
    show "fst ` set (d_table (s_dispatch s)) \<subseteq> fst ` set (d_table (s_dispatch s'))"
      by (simp add: s')
  qed
  ultimately show ?thesis using mok tab get by (simp add: server_inv_def s')
qed

lemma message_field_inv:
  assumes "server_inv s" and "registered_for fs s" and "message_field typ f s = (s', e)"
  shows "server_inv s' \<and> (e = None \<longrightarrow> registered_for (fs @ [f]) s') \<and> s_guards s' = s_guards s \<and>
    mkeys (s_routers s') = mkeys (s_routers s) \<and> s_listeners s' = s_listeners s"
  using assms(3)
proof (cases rule: message_field_cases)
  case skip
  with assms(1,2) show ?thesis by (auto simp: registered_for_def)
next
  case (refused err)
  with assms(1) show ?thesis by simp
next
  case (rejected h r h' err)
  then show ?thesis using message_field_rejected [OF assms(1) rejected(1,2,3,4)] by (simp add: mkeys_mput_old)
next
  case (stored h r h' r' gs hdl d n h'')
  have "server_inv s' \<and> registered_for (fs @ [f]) s'"
    by (rule message_field_stored [OF assms(1,2) stored(1) refl stored(2-10)])
  then show ?thesis using stored(1,10) by (simp add: mkeys_mput_old)
qed

lemma message_fields_inv:
  assumes "server_inv s" and "registered_for fs s" and "message_fields typ flds s = (s', e)"
  shows "server_inv s' \<and> (e = None \<longrightarrow> registered_for (fs @ flds) s') \<and> s_guards s' = s_guards s \<and>
    mkeys (s_routers s') = mkeys (s_routers s) \<and> s_listeners s' = s_listeners s"
  using assms
proof (induction flds arbitrary: s fs)
  case (Cons f flds)
  obtain s1 e1 where one: "message_field typ f s = (s1, e1)" by fastforce
  note i = message_field_inv [OF Cons.prems(1,2) one]
  show ?case
  proof (cases e1)
    case None
    with i one Cons.prems(3) Cons.IH [of s1 "fs @ [f]"] show ?thesis by simp
  next
    case (Some e1')
    with one Cons.prems(3) have "s' = s1" "e = e1" by auto
    with i Some show ?thesis by simp
  qed
qed simp

definition fields_of :: "'h controller list \<Rightarrow> 'h struct_field list" where
  "fields_of ctrls = concat (map (\<lambda>c. case c of Struct typ flds \<Rightarrow> flds | _ \<Rightarrow> []) ctrls)"

lemma RegisterControllers_inv:
  assumes "server_inv s" and "registered_for fs s" and "Server_RegisterControllers ctrls s = (s', e)"
  shows "server_inv s' \<and> (e = None \<longrightarrow> registered_for (fs @ fields_of ctrls) s') \<and> s_guards s' = s_guards s \<and>
    mkeys (s_routers s') = mkeys (s_routers s) \<and> s_listeners s' = s_listeners s"
  using assms
proof (induction ctrls arbitrary: s fs)
  case Nil
  then show ?case by (simp add: fields_of_def)
next
  case (Cons c ctrls)
  show ?case
  proof (cases c)
    case (Struct ty flds)
    obtain s1 e1 where one: "message_fields ty flds s = (s1, e1)" by fastforce
    note i = message_fields_inv [OF Cons.prems(1,2) one]
    show ?thesis
    proof (cases e1)
      case None
      with i one Struct Cons.prems(3) Cons.IH [of s1 "fs @ flds"] show ?thesis
        by (simp add: Server_registerController_def fields_of_def)
    next
      case (Some e1')
      with one Struct Cons.prems(3) have "s' = s1" "e = e1" by (auto simp: Server_registerController_def)
      with i Some show ?thesis by simp
    qed
  qed (use Cons.prems in \<open>auto simp: Server_registerController_def\<close>)
qed

section \<open>Messages\<close>

text \<open>
  What the server relies on in Gin: with distinct static paths mounted, a request for one of
  them runs the engine's middleware and then the chain mounted there; \<open>run\<close> is the running of
  a chain.
\<close>

definition gin_routes :: "'h engine \<Rightarrow> ('h list \<Rightarrow> request \<Rightarrow> responseCapture \<Rightarrow> responseCapture) \<Rightarrow> bool" where
  "gin_routes serve run \<longleftrightarrow> (\<forall>use tbl req r hs.
     distinct (map fst tbl) \<and> (\<forall>p \<in> fst ` set tbl. list_all path_char p) \<and> map_of tbl (rq_Path req) = Some hs \<longrightarrow>
     serve use tbl req r = run (use @ hs) req r)"

lemma table_ok_static: "table_ok tbl n \<Longrightarrow> distinct (map fst tbl) \<and> (\<forall>p \<in> fst ` set tbl. list_all path_char p)"
  by (auto simp: table_ok_def token_path_chars)

lemma lookups_keep:
  "router_inv h r \<Longrightarrow> router_inv h (foldl (\<lambda>r s. fst (Resolve h r s)) r ss) \<and>
     registered (foldl (\<lambda>r s. fst (Resolve h r s)) r ss) = registered r"
  by (induction ss arbitrary: r) (auto simp: Resolve_inv)

lemma dispatch_registered:
  assumes inv: "server_inv s" and r: "mget (s_routers s) t = Some r" and gin: "gin_routes serve run"
    and q: "router_inv (s_heap s) q" "registered q = registered r"
    and best: "is_best (s_heap s) (registered r) (e_Pattern env) a" and chain: "chain_of s a = Some hs"
  shows "\<exists>req reply report. rq_env req = env \<and> rq_route req = a \<and>
    rq_Body req = (if e_Data env = '''' then ''null'' else e_Data env) \<and>
    reply = buildReply j env (run (d_use (s_dispatch s) @ hs) req new_capture) \<and>
    dispatch_message uni quo j serve s q env = (fst (Resolve (s_heap s) q (e_Pattern env)), Some reply, report)"
proof -
  have ok: "router_inv (s_heap s) q" "route_ok s t a" "table_ok (d_table (s_dispatch s)) (s_counter s)"
    using inv r q best by (auto simp: server_inv_def is_best_def)
  then have "fst (snd (Resolve (s_heap s) q (e_Pattern env))) = Some a" using best q(2) by (simp add: Resolve_best)
  then obtain r' where res: "Resolve (s_heap s) q (e_Pattern env) = (r', Some a, True)"
    using Resolve_ok [of "s_heap s" q "e_Pattern env"] by (metis option.distinct(1) prod.collapse)
  define body where "body = (if length (e_Data env) = 0 then ''null'' else e_Data env)"
  define req where "req = applyEnvelopeHeaders uni \<lparr>rq_Path = the (r_url (s_heap s a)), rq_Header = [(''Content-Type'', contentTypeJSON)],
      rq_Body = body, rq_ContentLength = int (length body), rq_Host = internalHost,
      rq_RemoteAddr = ''127.0.0.1:0'', rq_env = env, rq_route = a\<rparr> env"
  have req: "rq_env req = env" "rq_route req = a" "rq_Body req = body" "rq_Path req = r_path (s_heap s a)"
    using ok(2) by (simp_all add: req_def applyEnvelopeHeaders_def route_ok_def)
  have "serve (d_use (s_dispatch s)) (d_table (s_dispatch s)) req new_capture = run (d_use (s_dispatch s) @ hs) req new_capture"
    using gin table_ok_static [OF ok(3)] chain unfolding gin_routes_def by (simp add: req(4) chain_of_def)
  then have "dispatchRoute uni quo j serve (s_dispatch s) (s_heap s) (Some env) (Some a) =
      (Some (buildReply j env (run (d_use (s_dispatch s) @ hs) req new_capture)), None)"
    using ok(2) by (simp add: dispatchRoute_def route_ok_def req_def body_def Let_def)
  with res req show ?thesis
    by (intro exI [of _ req]) (simp add: dispatch_message_def body_def)
qed

text \<open>The best of the declared fields that match has the best route.\<close>

lemma serves_best:
  assumes "a \<in> registered r" and "serves s f a" and "Match (Tag_Get f ''pattern'') subj"
    and "\<forall>g \<in> set declared. Match (Tag_Get g ''pattern'') subj \<longrightarrow> rank (Tag_Get f ''pattern'') \<le> rank (Tag_Get g ''pattern'')"
    and "\<forall>b \<in> registered r. \<exists>g \<in> set declared. serves s g b"
  shows "is_best (s_heap s) (registered r) subj a"
proof -
  have pat: "r_pattern (s_heap s b) = Tag_Get g ''pattern''" if "serves s g b" for g b
    using that by (simp add: serves_def)
  have "rank (r_pattern (s_heap s a)) \<le> rank (r_pattern (s_heap s b))"
    if b: "b \<in> registered r" "matches (r_pattern (s_heap s b)) subj" for b
  proof -
    from assms(5) b(1) obtain g where g: "g \<in> set declared" "serves s g b" by blast
    with assms(4) b(2) show ?thesis by (simp add: pat [OF g(2)] pat [OF assms(2)] Match_iff_matches)
  qed
  with assms(1,3) pat [OF assms(2)] show ?thesis by (simp add: is_best_def Match_iff_matches)
qed

text \<open>
  C1. Every message reaches the handler it is declared for: after \<^verbatim>\<open>Setup\<close> and a successful
  registration of controllers, a message whose subject matches the pattern of a tagged field,
  with no more specific matching pattern declared for that transport, is answered with what
  the engine's middleware, the field's guards and the field's handler, in that order, write;
  a message no pattern matches is answered 404, and no handler runs. This holds for the
  router as it is after any number of earlier messages.
\<close>

theorem messages_reach_declared_handlers:
  assumes "Setup True transport transports mw dr conc ht seed recover guards counter h next = Inr s0"
    and "Server_RegisterControllers ctrls s0 = (s, None)" and "gin_routes serve run"
    and "mget (s_routers s) t = Some r"
    and "q = foldl (\<lambda>r subject. fst (Resolve (s_heap s) r subject)) r earlier"
    and "declared = filter (\<lambda>f. Tag_Get f ''transport'' = t) (fields_of ctrls)" and "t \<noteq> ''''"
  shows "(\<forall>f \<in> set declared. Match (Tag_Get f ''pattern'') (e_Pattern env) \<and>
      (\<forall>g \<in> set declared. Match (Tag_Get g ''pattern'') (e_Pattern env) \<longrightarrow>
         rank (Tag_Get f ''pattern'') \<le> rank (Tag_Get g ''pattern'')) \<longrightarrow>
      (\<exists>gs hdl req. messageHandler f = Inr hdl \<and> resolveGuards guards (Tag_Get f ''guard'') = Inr gs \<and>
        rq_env req = env \<and>
        fst (snd (dispatcherFor uni quo j serve s q SlotTaken env)) =
          Inr (Some (buildReply j env (run (d_use (s_dispatch s) @ gs @ [hdl]) req new_capture))))) \<and>
    ((\<forall>f \<in> set declared. \<not> Match (Tag_Get f ''pattern'') (e_Pattern env)) \<longrightarrow>
      fst (snd (dispatcherFor uni quo j serve s q SlotTaken env)) =
        Inr (Some (replyError env 404 ''PATTERN_NOT_FOUND''
          (''no handler is registered for pattern '' @ Quote quo (e_Pattern env)))))"
proof -
  note su = Setup_Inr [OF assms(1)]
  note regs = RegisterControllers_inv [OF su(1,2) assms(2)]
  have inv: "server_inv s" and all: "registered_for (fields_of ctrls) s" and guards: "s_guards s = guards"
    using regs su(3) by auto
  have "router_inv (s_heap s) r" using inv assms(4) by (auto simp: server_inv_def)
  then have rinv: "router_inv (s_heap s) q" and same: "registered q = registered r"
    using lookups_keep [of "s_heap s" r earlier] assms(5) by auto
  have patterns: "\<exists>f \<in> set declared. serves s f b" if "b \<in> registered r" for b
    using all that assms(4,6) unfolding registered_for_def by fastforce
  have one: "\<exists>gs hdl req. messageHandler f = Inr hdl \<and> resolveGuards guards (Tag_Get f ''guard'') = Inr gs \<and>
        rq_env req = env \<and> fst (snd (dispatcherFor uni quo j serve s q SlotTaken env)) =
          Inr (Some (buildReply j env (run (d_use (s_dispatch s) @ gs @ [hdl]) req new_capture)))"
    if f: "f \<in> set declared" "Match (Tag_Get f ''pattern'') (e_Pattern env)"
      "\<forall>g \<in> set declared. Match (Tag_Get g ''pattern'') (e_Pattern env) \<longrightarrow> rank (Tag_Get f ''pattern'') \<le> rank (Tag_Get g ''pattern'')" for f
  proof -
    from f(1) all assms(4,6,7) obtain a where a: "a \<in> registered r" "serves s f a"
      unfolding registered_for_def by fastforce
    then obtain gs hdl where decl: "messageHandler f = Inr hdl" "resolveGuards guards (Tag_Get f ''guard'') = Inr gs"
        "chain_of s a = Some (gs @ [hdl])" "r_pattern (s_heap s a) = Tag_Get f ''pattern''"
      unfolding serves_def guards by blast
    have "is_best (s_heap s) (registered r) (e_Pattern env) a"
      using patterns by (intro serves_best [OF a f(2,3)]) blast
    from dispatch_registered [OF inv assms(4,3) rinv same this decl(3), of j uni quo] decl(1,2)
    show ?thesis by (fastforce simp: dispatcherFor_def)
  qed
  have none: "fst (snd (dispatcherFor uni quo j serve s q SlotTaken env)) =
        Inr (Some (replyError env 404 ''PATTERN_NOT_FOUND'' (''no handler is registered for pattern '' @ Quote quo (e_Pattern env))))"
    if "\<forall>f \<in> set declared. \<not> Match (Tag_Get f ''pattern'') (e_Pattern env)"
  proof -
    have "\<forall>b \<in> registered r. \<not> matches (r_pattern (s_heap s b)) (e_Pattern env)"
      using that patterns unfolding serves_def Match_iff_matches by metis
    then have "fst (snd (Resolve (s_heap s) q (e_Pattern env))) = None" by (simp add: Resolve_None [OF rinv] same)
    then show ?thesis using Resolve_ok [of "s_heap s" q "e_Pattern env"]
      by (auto simp: dispatcherFor_def dispatch_message_def split: prod.splits)
  qed
  from one none show ?thesis by blast
qed

text \<open>A service with two overlapping handlers; handlers are numbers, and running one writes it.\<close>

definition demo_guards :: "nat guard_registry" where
  "demo_guards = [(''Auth'', \<lambda>args. Some (7 + length args))]"

definition msg_field :: "string \<Rightarrow> string \<Rightarrow> nat \<Rightarrow> nat struct_field" where
  "msg_field name pattern n = \<lparr>f_name = name, f_tags = [(''transport'', ''memory''), (''pattern'', pattern), (''guard'', ''Auth(x)'')],
     f_is_func = True, f_exported = True, f_can_interface = True, f_value = HandlerFunc n\<rparr>"

definition demo_controllers :: "nat controller list" where
  "demo_controllers = [Struct ''Users'' [msg_field ''FindOne'' ''user_*'' 1, msg_field ''Create'' ''user_created'' 2]]"

definition demo_setup :: "(server_error, nat server) result" where
  "demo_setup = Setup True (Some ''memory'') [] [] False 0 0 0 9 demo_guards 0 (\<lambda>_. odd_route) 0"

definition demo_server0 :: "nat server" where
  "demo_server0 = (case demo_setup of Inr s \<Rightarrow> s | Inl e \<Rightarrow> undefined)"

definition demo_server :: "nat server" where
  "demo_server = fst (Server_RegisterControllers demo_controllers demo_server0)"

definition demo_run :: "nat list \<Rightarrow> request \<Rightarrow> responseCapture \<Rightarrow> responseCapture" where
  "demo_run hs req r = fold (\<lambda>h r. Write (show_nat h) r) hs r"

definition demo_engine :: "nat engine" where
  "demo_engine use tbl req r = (case map_of tbl (rq_Path req) of Some hs \<Rightarrow> demo_run (use @ hs) req r | None \<Rightarrow> r)"

theorem messages_reach_declared_handlers_witness:
  "\<exists>req. fst (snd (dispatcherFor (\<lambda>s. s) (\<lambda>s. s) demo_json demo_engine demo_server
       (the (mget (s_routers demo_server) ''memory'')) SlotTaken (demo_env\<lparr>e_Pattern := ''user_created''\<rparr>))) =
     Inr (Some (buildReply demo_json (demo_env\<lparr>e_Pattern := ''user_created''\<rparr>)
       (demo_run (d_use (s_dispatch demo_server) @ [8] @ [2]) req new_capture)))"
proof -
  let ?r = "the (mget (s_routers demo_server) ''memory'')" and ?env = "demo_env\<lparr>e_Pattern := ''user_created''\<rparr>"
  let ?f = "msg_field ''Create'' ''user_created'' 2"
  have "\<not> isl demo_setup" by code_simp
  then have su: "Setup True (Some ''memory'') [] [] False 0 0 0 9 demo_guards 0 (\<lambda>_. odd_route) 0 = Inr demo_server0"
    by (auto simp: demo_server0_def demo_setup_def isl_def split: sum.splits)
  have "snd (Server_RegisterControllers demo_controllers demo_server0) = None" by code_simp
  then have reg: "Server_RegisterControllers demo_controllers demo_server0 = (demo_server, None)"
    by (simp add: demo_server_def prod_eq_iff)
  have gin: "gin_routes demo_engine demo_run" by (simp add: gin_routes_def demo_engine_def)
  have "mget (s_routers demo_server) ''memory'' \<noteq> None" by code_simp
  then have r: "mget (s_routers demo_server) ''memory'' = Some ?r" by simp
  have flds: "filter (\<lambda>f. Tag_Get f ''transport'' = ''memory'') (fields_of demo_controllers) =
      [msg_field ''FindOne'' ''user_*'' 1, ?f]" by (simp add: fields_of_def demo_controllers_def msg_field_def Tag_Get_def)
  have p: "Tag_Get ?f ''pattern'' = ''user_created''" "Tag_Get (msg_field ''FindOne'' ''user_*'' 1) ''pattern'' = ''user_*''"
    "e_Pattern ?env = ''user_created''" by (simp_all add: msg_field_def Tag_Get_def)
  have c: "Match ''user_created'' ''user_created''" "rank ''user_created'' \<le> rank ''user_*''" by code_simp+
  have h: "messageHandler ?f = Inr 2" "resolveGuards demo_guards (Tag_Get ?f ''guard'') = Inr [8]" by code_simp+
  from messages_reach_declared_handlers [OF su reg gin r _ flds [symmetric], where env = ?env and earlier = "[]"
      and j = demo_json and uni = "\<lambda>s. s" and quo = "\<lambda>s. s" and q = ?r] p c h
  show ?thesis by auto
qed

section \<open>Supervision\<close>

definition retryable :: "attempt \<Rightarrow> bool" where
  "retryable at \<longleftrightarrow> \<not> at_done at \<and> at_err at \<noteq> None \<and> at_err at \<noteq> Some ErrClosed \<and> \<not> at_done_waiting at"

definition backoff_at :: "nat \<Rightarrow> int" where
  "backoff_at k = min (250 * Millisecond * 2 ^ k) (30 * Second)"

lemma backoff_step: "(if backoff_at k * 2 > 30 * Second then 30 * Second else backoff_at k * 2) = backoff_at (Suc k)"
  by (simp add: backoff_at_def Second_def Millisecond_def min_def)

lemma runListener_loop_waits:
  "runListener_loop ats (backoff_at k) = (waits, x) \<Longrightarrow>
     length waits \<le> length ats \<and> (\<forall>i < length waits. waits ! i = backoff_at (k + i) \<and> retryable (ats ! i)) \<and>
     (x = None \<longleftrightarrow> length waits = length ats) \<and> (x \<noteq> None \<longrightarrow> \<not> retryable (ats ! length waits))"
proof (induction ats arbitrary: k waits x)
  case (Cons at ats)
  show ?case
  proof (cases "retryable at")
    case False
    with Cons.prems have "waits = []" "x \<noteq> None" by (auto simp: retryable_def split: if_splits)
    with False show ?thesis by simp
  next
    case True
    obtain ws x' where rest: "runListener_loop ats (backoff_at (Suc k)) = (ws, x')" by fastforce
    have "runListener_loop (at # ats) (backoff_at k) =
        (case runListener_loop ats (backoff_at (Suc k)) of (ws, y) \<Rightarrow> (backoff_at k # ws, y))"
      using True by (auto simp: retryable_def Let_def simp flip: backoff_step)
    with rest Cons.prems have w: "waits = backoff_at k # ws" "x = x'" by auto
    note ih = Cons.IH [OF rest]
    have "waits ! i = backoff_at (k + i) \<and> retryable ((at # ats) ! i)" if "i < length waits" for i
      using that w ih True by (cases i) auto
    then show ?thesis using w ih by auto
  qed
qed simp

text \<open>
  A failing transport is retried for ever, with bounded waits: the supervisor stops only when
  its context has ended, the transport is closed, or the transport returned cleanly; as long as
  the attempts fail otherwise it goes on, and the wait before attempt \<open>i + 1\<close> is 250 ms doubled
  \<open>i\<close> times, at most 30 seconds.
\<close>

theorem reconnect_backoff:
  assumes "runListener ats = (waits, x)"
  shows "length waits \<le> length ats \<and>
    (\<forall>i < length waits. waits ! i = min (250 * Millisecond * 2 ^ i) (30 * Second) \<and> retryable (ats ! i)) \<and>
    (x = None \<longleftrightarrow> length waits = length ats) \<and> (x \<noteq> None \<longrightarrow> \<not> retryable (ats ! length waits))"
proof -
  have "backoff_at 0 = 250 * Millisecond" by (simp add: backoff_at_def Second_def Millisecond_def)
  then have "runListener_loop ats (backoff_at 0) = (waits, x)" using assms by (simp add: runListener_def)
  from runListener_loop_waits [OF this] show ?thesis by (auto simp: backoff_at_def)
qed

definition down :: attempt where
  "down = \<lparr>at_err = Some (Failed ''refused''), at_done = False, at_done_waiting = False\<rparr>"

theorem reconnect_backoff_witness:
  "runListener (replicate 9 down) = ([250000000, 500000000, 1000000000, 2000000000, 4000000000, 8000000000,
     16000000000, 30000000000, 30000000000], None) \<and> retryable down"
proof -
  have r: "runListener (replicate 9 down) = ([250000000, 500000000, 1000000000, 2000000000, 4000000000, 8000000000,
     16000000000, 30000000000, 30000000000], None)" by code_simp
  with reconnect_backoff [OF r] have "retryable (replicate 9 down ! 0)" by (metis length_greater_0_conv list.discI)
  with r show ?thesis by simp
qed

section \<open>Starting and stopping\<close>

datatype life_op = OpStart | OpStop

text \<open>A sequence of calls: the listeners started and the listeners closed by all of them.\<close>

fun life_run :: "(string \<Rightarrow> msg_error option) \<Rightarrow> life_op list \<Rightarrow> 'h server \<Rightarrow> (string \<times> string list) list \<times> string list" where
  "life_run close [] s = ([], [])"
| "life_run close (OpStart # ops) s =
     (case Server_Start s of (s', started, e) \<Rightarrow>
        case life_run close ops s' of (st, cl) \<Rightarrow> (started @ st, cl))"
| "life_run close (OpStop # ops) s =
     (case Stop close s of (s', closed, e) \<Rightarrow>
        case life_run close ops s' of (st, cl) \<Rightarrow> (st, closed @ cl))"

lemma close_loop_all: "fst (close_loop close names fe) = names"
proof (induction names arbitrary: fe)
  case (Cons n names)
  let ?fe = "case close n of Some e \<Rightarrow> if fe = None then Some (n, e) else fe | None \<Rightarrow> fe"
  from Cons [of ?fe] show ?case by (cases "close_loop close names ?fe") simp
qed simp

lemma close_loop_error:
  "snd (close_loop close names fe) = (case fe of Some x \<Rightarrow> Some x | None \<Rightarrow>
     map_option (\<lambda>n. (n, the (close n))) (find (\<lambda>n. close n \<noteq> None) names))"
proof (induction names arbitrary: fe)
  case (Cons n names)
  let ?fe = "case close n of Some e \<Rightarrow> if fe = None then Some (n, e) else fe | None \<Rightarrow> fe"
  from Cons [of ?fe] show ?case
    by (cases "close_loop close names ?fe"; cases fe; cases "close n") simp_all
qed (auto split: option.splits)

lemma life_run_closed: "s_closed s \<Longrightarrow> life_run close ops s = ([], [])"
  by (induction close ops s rule: life_run.induct) (auto simp: Server_Start_def Stop_def)

lemma life_run_running:
  "\<not> s_closed s \<Longrightarrow> s_running s \<Longrightarrow>
     life_run close ops s = ([], if OpStop \<in> set ops then s_listeners s else [])"
proof (induction ops)
  case (Cons p ops)
  then show ?case
    using close_loop_all [of close "s_listeners s" None]
    by (cases p) (auto simp: Server_Start_def Stop_def life_run_closed split: prod.splits)
qed simp

text \<open>A worker's \<^verbatim>\<open>Listen\<close> leaves the server stopped, with every listener closed.\<close>

lemma Server_Listen_closes:
  assumes "\<not> s_closed s" and "\<not> s_running s" and "Server_Listen close s = (s', started, closed, e)"
  shows "s_closed s'" "started = fst (snd (Server_Start s))" "closed = s_listeners s"
  using assms close_loop_all [of close "s_listeners s" None]
  by (auto simp: Server_Listen_def Server_Start_def Stop_def split: prod.splits)

text \<open>
  Start and stop are idempotent in any sequence: however a new server is started and stopped,
  its listeners are started at most once, namely by the first start if no stop came before it,
  and only those that have handlers; and every listener is closed exactly once if the server is
  stopped at all, even when closing some of them fails, and the first failure the loop meets is
  reported.
\<close>

theorem server_lifecycle:
  assumes "\<not> s_running s" and "\<not> s_closed s"
  shows "life_run close ops s =
      ((if ops \<noteq> [] \<and> hd ops = OpStart then fst (snd (Server_Start s)) else []),
       (if OpStop \<in> set ops then s_listeners s else [])) \<and>
    set (fst (snd (Server_Start s))) =
      {(n, ps) |n ps. n \<in> set (s_listeners s) \<and> ps \<noteq> [] \<and>
         (case mget (s_routers s) n of None \<Rightarrow> False | Some r \<Rightarrow> ps = Patterns (s_heap s) r)} \<and>
    snd (snd (Stop close s)) =
      map_option (\<lambda>n. (n, the (close n))) (find (\<lambda>n. close n \<noteq> None) (s_listeners s))"
proof -
  have "set (fst (snd (Server_Start s))) =
      {(n, ps) |n ps. n \<in> set (s_listeners s) \<and> ps \<noteq> [] \<and>
         (case mget (s_routers s) n of None \<Rightarrow> False | Some r \<Rightarrow> ps = Patterns (s_heap s) r)}"
    using assms by (auto simp: Server_Start_def List.map_filter_def Let_def split: option.splits if_splits)
  moreover have "snd (snd (Stop close s)) =
      map_option (\<lambda>n. (n, the (close n))) (find (\<lambda>n. close n \<noteq> None) (s_listeners s))"
    using assms close_loop_error [of close "s_listeners s" None] by (auto simp: Stop_def split: prod.splits)
  moreover have "life_run close ops s =
      ((if ops \<noteq> [] \<and> hd ops = OpStart then fst (snd (Server_Start s)) else []),
       (if OpStop \<in> set ops then s_listeners s else []))"
  proof (cases ops)
    case (Cons p rest)
    show ?thesis
    proof (cases p)
      case OpStart
      have "fst (Server_Start s) = s\<lparr>s_running := True\<rparr>" using assms by (simp add: Server_Start_def)
      with OpStart Cons assms life_run_running [of "s\<lparr>s_running := True\<rparr>" close rest] show ?thesis
        by (cases "Server_Start s") auto
    next
      case OpStop
      with Cons assms close_loop_all [of close "s_listeners s" None] show ?thesis
        by (auto simp: Stop_def life_run_closed split: prod.splits)
    qed
  qed simp
  ultimately show ?thesis by blast
qed

theorem server_lifecycle_witness:
  "life_run (\<lambda>n. Some ErrTimeout) [OpStart, OpStart, OpStop, OpStart, OpStop] demo_server =
     ([(''memory'', [''user_created'', ''user_*''])], [''memory''])"
proof -
  have "\<not> s_running demo_server" "\<not> s_closed demo_server" "fst (snd (Server_Start demo_server)) = [(''memory'', [''user_created'', ''user_*''])]"
    "s_listeners demo_server = [''memory'']" by code_simp+
  with server_lifecycle [of demo_server "\<lambda>n. Some ErrTimeout" "[OpStart, OpStart, OpStop, OpStart, OpStop]"]
  show ?thesis by simp
qed

end
