(* ===== verification/Client.thy ===== *)
theory Client
  imports Server
begin

text \<open>
  Clients (\<^verbatim>\<open>common/microservice/client.go\<close>, \<^verbatim>\<open>clients.go\<close>) and named transports (\<^verbatim>\<open>named.go\<close>): a
  client turns a pattern and a payload into an envelope and hands it to its publisher, whose
  two operations are parameters; a registry finds clients by the name of the service.
\<close>

section \<open>One client\<close>

text \<open>
  A publisher: its name, what \<^verbatim>\<open>Publish\<close> and \<^verbatim>\<open>Request\<close> (with a timeout) answer, and what closing
  it answers. A request may come back without an envelope and without an error.
\<close>

record publisher =
  p_Name :: string
  p_Publish :: "envelope \<Rightarrow> msg_error option"
  p_Request :: "envelope \<Rightarrow> int \<Rightarrow> (msg_error, envelope option) result"
  p_Close :: "msg_error option"

record client =
  c_publisher :: "publisher option"
  c_timeout :: int
  c_headers :: "(string, string) gomap"

datatype client_error =
    ClientNoTransport
  | SendToWildcard string
  | ClientPattern pattern_error
  | Transport msg_error
  | EmptyReply string
  | CannotDecode string string
  | NilDereference

definition DefaultRequestTimeout :: int where
  "DefaultRequestTimeout = 10 * Second"

datatype client_option = OptTimeout int | OptHeader string string

definition apply_option :: "client_option \<Rightarrow> client \<Rightarrow> client" where
  "apply_option opt c =
     (case opt of
        OptTimeout timeout \<Rightarrow> if timeout > 0 then c\<lparr>c_timeout := timeout\<rparr> else c
      | OptHeader key value \<Rightarrow> c\<lparr>c_headers := mput key value (c_headers c)\<rparr>)"

definition NewClient :: "publisher option \<Rightarrow> client_option list \<Rightarrow> client" where
  "NewClient publisher opts =
     fold apply_option opts \<lparr>c_publisher = publisher, c_timeout = DefaultRequestTimeout, c_headers = []\<rparr>"

definition Client_Transport :: "client \<Rightarrow> string" where
  "Client_Transport c = (case c_publisher c of None \<Rightarrow> '''' | Some p \<Rightarrow> p_Name p)"

text \<open>The envelope of a call; \<open>rnd\<close> and \<open>now\<close> are the random bytes and the time it is given.\<close>

definition client_envelope :: "'v json \<Rightarrow> 8 word list \<Rightarrow> int \<Rightarrow> client \<Rightarrow> string \<Rightarrow> 'v payload \<Rightarrow>
    (client_error, envelope) result" where
  "client_envelope j rnd now c pattern payload =
     (if c_publisher c = None then Inl ClientNoTransport
      else if IsWildcard pattern then Inl (SendToWildcard pattern)
      else (case Validate pattern of
          Some e \<Rightarrow> Inl (ClientPattern e)
        | None \<Rightarrow>
            (case NewEnvelope j rnd now pattern payload of
               Inl e \<Rightarrow> Inl (Transport e)
             | Inr env \<Rightarrow> Inr (fold (\<lambda>(key, value). WithHeader key value) (c_headers c) env))))"

definition Emit :: "'v json \<Rightarrow> 8 word list \<Rightarrow> int \<Rightarrow> client \<Rightarrow> string \<Rightarrow> 'v payload \<Rightarrow> client_error option" where
  "Emit j rnd now c pattern payload =
     (case client_envelope j rnd now c pattern payload of
        Inl e \<Rightarrow> Some e
      | Inr env \<Rightarrow> map_option Transport (p_Publish (the (c_publisher c)) env))"

definition Request :: "'v json \<Rightarrow> 8 word list \<Rightarrow> int \<Rightarrow> client \<Rightarrow> string \<Rightarrow> 'v payload \<Rightarrow>
    (client_error, envelope option) result" where
  "Request j rnd now c pattern payload =
     (case client_envelope j rnd now c pattern payload of
        Inl e \<Rightarrow> Inl e
      | Inr env \<Rightarrow>
          (case p_Request (the (c_publisher c)) env (c_timeout c) of
             Inl e \<Rightarrow> Inl (Transport e) | Inr reply \<Rightarrow> Inr reply))"

text \<open>
  \<^verbatim>\<open>Send\<close>: \<open>out\<close> is nil or the decoding into the caller's variable; the result is what was
  decoded, if anything.
\<close>

definition Send :: "'v json \<Rightarrow> 8 word list \<Rightarrow> int \<Rightarrow> client \<Rightarrow> string \<Rightarrow> 'v payload \<Rightarrow>
    (string \<Rightarrow> (string, 'o) result) option \<Rightarrow> (client_error, 'o option) result" where
  "Send j rnd now c pattern payload out =
     and_then (Request j rnd now c pattern payload) (\<lambda>reply.
       case reply of
         None \<Rightarrow> Inl (EmptyReply pattern)
       | Some r \<Rightarrow>
           (case e_Error r of
              Some e \<Rightarrow> Inl (Transport (Remote e))
            | None \<Rightarrow>
                (case out of
                   None \<Rightarrow> Inr None
                 | Some decode \<Rightarrow>
                     if length (e_Data r) = 0 then Inr None
                     else (case decode (e_Data r) of
                         Inl e \<Rightarrow> Inl (CannotDecode pattern e) | Inr v \<Rightarrow> Inr (Some v)))))"

text \<open>\<^verbatim>\<open>SendTo\<close>: the timeout of the call, and no check for a missing reply, which is dereferenced.\<close>

definition SendTo :: "'v json \<Rightarrow> 8 word list \<Rightarrow> int \<Rightarrow> client \<Rightarrow> string \<Rightarrow> 'v payload \<Rightarrow>
    (string \<Rightarrow> (string, 'o) result) option \<Rightarrow> int \<Rightarrow> (client_error, 'o option) result" where
  "SendTo j rnd now c pattern payload out timeout =
     (case client_envelope j rnd now c pattern payload of
        Inl e \<Rightarrow> Inl e
      | Inr env \<Rightarrow>
          let timeout = (if timeout \<le> 0 then c_timeout c else timeout)
          in (case p_Request (the (c_publisher c)) env timeout of
                Inl e \<Rightarrow> Inl (Transport e)
              | Inr None \<Rightarrow> Inl NilDereference
              | Inr (Some r) \<Rightarrow>
                  (case e_Error r of
                     Some e \<Rightarrow> Inl (Transport (Remote e))
                   | None \<Rightarrow>
                       (case out of
                          None \<Rightarrow> Inr None
                        | Some decode \<Rightarrow>
                            if length (e_Data r) = 0 then Inr None
                            else (case decode (e_Data r) of
                                Inl e \<Rightarrow> Inl (Transport (Failed e)) | Inr v \<Rightarrow> Inr (Some v))))))"

definition Client_Close :: "client \<Rightarrow> msg_error option" where
  "Client_Close c = (case c_publisher c of None \<Rightarrow> None | Some p \<Rightarrow> p_Close p)"

section \<open>The registry\<close>

type_synonym clients = "(string, client) gomap"

datatype registry_error =
    NameRequired
  | ClientNil string
  | ClientTwice string
  | NoSuchService string "string list"
  | NoRegistry
  | CallFailed client_error

definition NewClients :: clients where
  "NewClients = []"

definition Register :: "string \<Rightarrow> client option \<Rightarrow> clients \<Rightarrow> (registry_error, clients) result" where
  "Register name client cs =
     (if name = '''' then Inl NameRequired
      else (case client of
          None \<Rightarrow> Inl (ClientNil name)
        | Some c \<Rightarrow>
            if mget cs name \<noteq> None then Inl (ClientTwice name) else Inr (mput name c cs)))"

definition Names :: "clients \<Rightarrow> string list" where
  "Names cs = sort (mkeys cs)"

definition Clients_Client :: "clients \<Rightarrow> string \<Rightarrow> (registry_error, client) result" where
  "Clients_Client cs service =
     (case mget cs service of Some c \<Rightarrow> Inr c | None \<Rightarrow> Inl (NoSuchService service (Names cs)))"

definition Clients_Send :: "'v json \<Rightarrow> 8 word list \<Rightarrow> int \<Rightarrow> clients \<Rightarrow> string \<Rightarrow> string \<Rightarrow> 'v payload \<Rightarrow>
    (string \<Rightarrow> (string, 'o) result) option \<Rightarrow> (registry_error, 'o option) result" where
  "Clients_Send j rnd now cs service pattern payload out =
     and_then (Clients_Client cs service) (\<lambda>c.
       case Send j rnd now c pattern payload out of Inl e \<Rightarrow> Inl (CallFailed e) | Inr v \<Rightarrow> Inr v)"

definition Clients_Request :: "'v json \<Rightarrow> 8 word list \<Rightarrow> int \<Rightarrow> clients \<Rightarrow> string \<Rightarrow> string \<Rightarrow> 'v payload \<Rightarrow>
    (registry_error, envelope option) result" where
  "Clients_Request j rnd now cs service pattern payload =
     and_then (Clients_Client cs service) (\<lambda>c.
       case Request j rnd now c pattern payload of Inl e \<Rightarrow> Inl (CallFailed e) | Inr v \<Rightarrow> Inr v)"

definition Clients_Emit :: "'v json \<Rightarrow> 8 word list \<Rightarrow> int \<Rightarrow> clients \<Rightarrow> string \<Rightarrow> string \<Rightarrow> 'v payload \<Rightarrow>
    registry_error option" where
  "Clients_Emit j rnd now cs service pattern payload =
     (case Clients_Client cs service of
        Inl e \<Rightarrow> Some e
      | Inr c \<Rightarrow> map_option CallFailed (Emit j rnd now c pattern payload))"

text \<open>\<^verbatim>\<open>Close\<close> empties the registry and closes every client; the first failure is kept.\<close>

fun clients_close_loop :: "client list \<Rightarrow> msg_error option \<Rightarrow> msg_error option" where
  "clients_close_loop [] firstErr = firstErr"
| "clients_close_loop (c # cs) firstErr =
     clients_close_loop cs (case Client_Close c of
        Some e \<Rightarrow> if firstErr = None then Some e else firstErr | None \<Rightarrow> firstErr)"

definition Clients_Close :: "clients \<Rightarrow> clients \<times> msg_error option" where
  "Clients_Close cs = (NewClients, clients_close_loop (map snd cs) None)"

text \<open>The loop of \<^verbatim>\<open>SetupClients\<close> over the publishers.\<close>

fun setup_clients :: "(string \<times> publisher option) list \<Rightarrow> client_option list \<Rightarrow> clients \<Rightarrow>
    (registry_error, clients) result" where
  "setup_clients [] opts cs = Inr cs"
| "setup_clients ((name, p) # ps) opts cs =
     (case p of
        None \<Rightarrow> Inl (ClientNil name)
      | Some pub \<Rightarrow>
          (case Register name (Some (NewClient (Some pub) opts)) cs of
             Inl e \<Rightarrow> Inl e | Inr cs' \<Rightarrow> setup_clients ps opts cs'))"

text \<open>\<^verbatim>\<open>Call\<close>: the typed call from inside a handler; \<open>zero\<close> is the zero value of the result type.\<close>

definition Call :: "'v json \<Rightarrow> 8 word list \<Rightarrow> int \<Rightarrow> clients option \<Rightarrow> string \<Rightarrow> string \<Rightarrow> 'v payload \<Rightarrow>
    (string \<Rightarrow> (string, 'o) result) \<Rightarrow> 'o \<Rightarrow> (registry_error, 'o) result" where
  "Call j rnd now registry service pattern payload decode zero =
     (case registry of
        None \<Rightarrow> Inl NoRegistry
      | Some cs \<Rightarrow>
          and_then (Clients_Client cs service) (\<lambda>c.
            case Request j rnd now c pattern payload of
              Inl e \<Rightarrow> Inl (CallFailed e)
            | Inr None \<Rightarrow> Inl (CallFailed NilDereference)
            | Inr (Some r) \<Rightarrow>
                (case e_Error r of
                   Some e \<Rightarrow> Inl (CallFailed (Transport (Remote e)))
                 | None \<Rightarrow>
                     if length (e_Data r) = 0 then Inr zero
                     else (case decode (e_Data r) of
                         Inl e \<Rightarrow> Inl (CallFailed (CannotDecode pattern e)) | Inr v \<Rightarrow> Inr v))))"

definition CallEmit :: "'v json \<Rightarrow> 8 word list \<Rightarrow> int \<Rightarrow> clients option \<Rightarrow> string \<Rightarrow> string \<Rightarrow> 'v payload \<Rightarrow>
    registry_error option" where
  "CallEmit j rnd now registry service pattern payload =
     (case registry of
        None \<Rightarrow> Some NoRegistry
      | Some cs \<Rightarrow> Clients_Emit j rnd now cs service pattern payload)"

section \<open>Named transports\<close>

text \<open>
  A value handed to \<^verbatim>\<open>TransportName\<close>: a transport with a name, a value without one (its type is
  printed), or one of the three wrappers around another.
\<close>

datatype transport_value =
    Plain string
  | Unnamed string
  | NamedTransport string transport_value
  | NamedListener string transport_value
  | NamedPublisher string transport_value

fun transport_Name :: "transport_value \<Rightarrow> string option" where
  "transport_Name (Plain n) = Some n"
| "transport_Name (Unnamed ty) = None"
| "transport_Name (NamedTransport n v) = Some n"
| "transport_Name (NamedListener n v) = Some n"
| "transport_Name (NamedPublisher n v) = Some n"

text \<open>\<^verbatim>\<open>Named\<close>: \<open>full\<close> tells whether the listener implements the whole transport interface.\<close>

definition Named :: "(transport_value \<Rightarrow> bool) \<Rightarrow> string \<Rightarrow> transport_value option \<Rightarrow>
    (string, transport_value) result" where
  "Named full name transport =
     (case transport of
        None \<Rightarrow> Inl ''microservice: Named requires a transport''
      | Some v \<Rightarrow>
          let n = TrimSpace name
          in if n = '''' then Inl ''microservice: Named requires a non-empty name''
             else if full v then Inr (NamedTransport n v) else Inr (NamedListener n v))"

definition NamedPublisher_new :: "string \<Rightarrow> transport_value option \<Rightarrow> (string, transport_value) result" where
  "NamedPublisher_new name publisher =
     (case publisher of
        None \<Rightarrow> Inl ''microservice: NamedPublisher requires a publisher''
      | Some v \<Rightarrow>
          let n = TrimSpace name
          in if n = '''' then Inl ''microservice: NamedPublisher requires a non-empty name''
             else Inr (NamedPublisher n v))"

text \<open>The loop of \<^verbatim>\<open>TransportName\<close>, bounded in the source.\<close>

fun unwrap_loop :: "nat \<Rightarrow> transport_value \<Rightarrow> string" where
  "unwrap_loop 0 v = ''unknown''"
| "unwrap_loop (Suc n) v =
     (case v of
        NamedTransport m w \<Rightarrow> unwrap_loop n w
      | NamedListener m w \<Rightarrow> unwrap_loop n w
      | NamedPublisher m w \<Rightarrow> unwrap_loop n w
      | Plain m \<Rightarrow> m
      | Unnamed ty \<Rightarrow> ty)"

definition TransportName :: "transport_value \<Rightarrow> string" where
  "TransportName v = unwrap_loop 8 v"

section \<open>Properties\<close>

lemma client_envelope_Inr:
  assumes "client_envelope j rnd now c pattern payload = Inr env"
  shows "c_publisher c \<noteq> None" "\<not> IsWildcard pattern" "Validate pattern = None"
    "\<exists>data. encodePayload j payload = Inr data \<and>
      env = fold (\<lambda>(key, value). WithHeader key value) (c_headers c)
        \<lparr>e_ID = NewID rnd, e_Pattern = pattern, e_Data = data, e_Headers = [], e_ReplyTo = '''',
         e_Status = 0, e_Error = None, e_SentAt = now\<rparr>"
  using assms
  by (auto simp: client_envelope_def NewEnvelope_def and_then_Inr_iff split: if_splits option.splits sum.splits)

lemma fold_WithHeader:
  "fold (\<lambda>(key, value). WithHeader key value) hs e =
     e\<lparr>e_Headers := fold (\<lambda>(key, value). mput key value) hs (e_Headers e)\<rparr>"
  by (induction hs arbitrary: e) (auto simp: WithHeader_def)

lemma mget_fold_mput:
  "map_ok hs \<Longrightarrow> mget (fold (\<lambda>(key, value). mput key value) hs m) k =
     (case mget hs k of Some v \<Rightarrow> Some v | None \<Rightarrow> mget m k)"
proof (induction hs arbitrary: m)
  case (Cons p hs)
  obtain a b where p: "p = (a, b)" by fastforce
  with Cons.prems have "map_ok hs" "mget hs a = None"
    by (auto simp: map_ok_def mget_None_iff mkeys_def)
  moreover have "mget ((a, b) # hs) k = (if k = a then Some b else mget hs k)" by (simp add: mget_def)
  ultimately show ?case using Cons.IH p by (auto split: option.splits)
qed (simp add: mget_def)

lemma NewClient_headers_ok: "map_ok (c_headers (NewClient p opts))"
proof -
  have "map_ok (c_headers c) \<Longrightarrow> map_ok (c_headers (fold apply_option opts c))" for c
    by (induction opts arbitrary: c) (auto simp: apply_option_def split: client_option.splits)
  then show ?thesis by (simp add: NewClient_def map_ok_def mkeys_def)
qed

text \<open>
  What a client sends is what a server receives: a call that is not refused produces an
  envelope with a valid literal subject, the encoded payload, every header of the client and a
  32 digit id; if its encoding fits the limit, decoding it on the other side gives back exactly
  that envelope, provided the JSON library decodes what it encodes.
\<close>

theorem client_message_roundtrip:
  assumes "client_envelope j rnd now (NewClient (Some p) opts) pattern payload = Inr env"
    and "Encode j env = Inr raw" and "length raw \<le> maxEnvelopeBytes"
    and "\<forall>e d. j_encode j e = Inr d \<longrightarrow> d \<noteq> '''' \<and> j_decode j d = Inr e" and "length rnd = 16"
  shows "DecodeEnvelope j raw = Inr env \<and> e_Pattern env = pattern \<and> \<not> IsWildcard pattern \<and>
    encodePayload j payload = Inr (e_Data env) \<and> length (e_ID env) = 32 \<and>
    (\<forall>k v. mget (c_headers (NewClient (Some p) opts)) k = Some v \<longrightarrow> Header env k = v)"
proof -
  let ?c = "NewClient (Some p) opts"
  note ok = client_envelope_Inr [OF assms(1)]
  from ok(4) obtain data where d: "encodePayload j payload = Inr data"
      "env = \<lparr>e_ID = NewID rnd, e_Pattern = pattern, e_Data = data, e_Headers = fold (\<lambda>(key, value). mput key value) (c_headers ?c) [],
        e_ReplyTo = '''', e_Status = 0, e_Error = None, e_SentAt = now\<rparr>"
    by (auto simp: fold_WithHeader)
  from assms(2,4) have "raw \<noteq> ''''" "j_decode j raw = Inr env" by (auto simp: Encode_def split: sum.splits)
  with assms(3) ok(3) d(2) have "DecodeEnvelope j raw = Inr env" by (simp add: DecodeEnvelope_Inr)
  moreover have "Header env k = v" if "mget (c_headers ?c) k = Some v" for k v
    using that mget_fold_mput [OF NewClient_headers_ok, of "Some p" opts "[]" k] d(2) by (simp add: Header_def)
  moreover have "length (e_ID env) = 32" using d(2) assms(5) by (simp add: NewID_def EncodeToString_ok)
  ultimately show ?thesis using ok(2) d by simp
qed

text \<open>A JSON library for one envelope, and a publisher that is never asked.\<close>

definition one_envelope :: envelope where
  "one_envelope = \<lparr>e_ID = NewID (replicate 16 0), e_Pattern = ''users'', e_Data = '''', e_Headers = [(''tenant'', ''acme'')],
     e_ReplyTo = '''', e_Status = 0, e_Error = None, e_SentAt = 5\<rparr>"

definition one_json :: "unit json" where
  "one_json = \<lparr>j_Valid = (\<lambda>s. False), j_bytes = (\<lambda>s. Inl ''no''), j_string = (\<lambda>s. Inl ''no''), j_value = (\<lambda>v. Inl ''no''),
     j_encode = (\<lambda>e. if e = one_envelope then Inr ''x'' else Inl ''no''),
     j_decode = (\<lambda>s. if s = ''x'' then Inr one_envelope else Inl ''no''), j_frame = (\<lambda>s. Inl ''no'')\<rparr>"

definition mute :: publisher where
  "mute = \<lparr>p_Name = ''mute'', p_Publish = (\<lambda>e. None), p_Request = (\<lambda>e t. Inl ErrTimeout), p_Close = None\<rparr>"

theorem client_message_roundtrip_witness:
  "client_envelope one_json (replicate 16 0) 5 (NewClient (Some mute) [OptHeader ''tenant'' ''acme'']) ''users'' PNil = Inr one_envelope \<and>
   DecodeEnvelope one_json ''x'' = Inr one_envelope \<and> Header one_envelope ''tenant'' = ''acme''"
proof -
  let ?c = "NewClient (Some mute) [OptHeader ''tenant'' ''acme'']"
  have hdr: "c_headers ?c = [(''tenant'', ''acme'')]" "c_publisher ?c = Some mute"
    by (simp_all add: NewClient_def apply_option_def mput_def)
  have lit: "\<not> IsWildcard ''users''" "Validate ''users'' = None" by code_simp+
  have env: "client_envelope one_json (replicate 16 0) 5 ?c ''users'' PNil = Inr one_envelope"
    using lit by (simp add: client_envelope_def hdr NewEnvelope_def encodePayload_def one_envelope_def WithHeader_def mput_def)
  have enc: "Encode one_json one_envelope = Inr ''x''" by (simp add: Encode_def one_json_def)
  have law: "\<forall>e d. j_encode one_json e = Inr d \<longrightarrow> d \<noteq> '''' \<and> j_decode one_json d = Inr e" by (simp add: one_json_def)
  have "length ''x'' \<le> maxEnvelopeBytes" by (simp add: maxEnvelopeBytes_def)
  from client_message_roundtrip [OF env enc this law] env show ?thesis by (simp add: hdr mget_def)
qed

text \<open>
  A caller can tell a refusal by the remote handler from a failure of the transport: \<^verbatim>\<open>Send\<close>
  returns the envelope's error exactly when a reply with that error came back.
\<close>

lemma send_remote_error:
  assumes "\<forall>env x. p_Request (the (c_publisher c)) env (c_timeout c) \<noteq> Inl (Remote x)"
    and "\<forall>v x. j_bytes j v \<noteq> Inl x"
  shows "Send j rnd now c pattern payload out = Inl (Transport (Remote x)) \<longleftrightarrow>
    (\<exists>env r. client_envelope j rnd now c pattern payload = Inr env \<and>
       p_Request (the (c_publisher c)) env (c_timeout c) = Inr (Some r) \<and> e_Error r = Some x)"
proof -
  have "client_envelope j rnd now c pattern payload \<noteq> Inl (Transport (Remote x))"
    by (auto simp: client_envelope_def NewEnvelope_def and_then_def encodePayload_def
        split: if_splits option.splits sum.splits payload.splits)
  then show ?thesis using assms(1)
    by (auto simp: Send_def Request_def and_then_def split: sum.splits option.splits if_splits)
qed

text \<open>
  \<^verbatim>\<open>SendTo\<close> with no timeout of its own does what \<^verbatim>\<open>Send\<close> does, except for a missing reply, which
  \<^verbatim>\<open>Send\<close> reports and \<^verbatim>\<open>SendTo\<close> dereferences.
\<close>

lemma missing_reply_dereferenced:
  assumes "client_envelope j rnd now c pattern payload = Inr env"
    and "p_Request (the (c_publisher c)) env (c_timeout c) = Inr None" and "timeout \<le> 0"
  shows "Send j rnd now c pattern payload out = Inl (EmptyReply pattern)"
    "SendTo j rnd now c pattern payload out timeout = Inl NilDereference"
  using assms by (simp_all add: Send_def Request_def SendTo_def)

lemma send_to_agrees:
  assumes "client_envelope j rnd now c pattern payload = Inr env"
    and "p_Request (the (c_publisher c)) env (c_timeout c) \<noteq> Inr None" and "timeout \<le> 0"
    and "Send j rnd now c pattern payload out = Inr v"
  shows "SendTo j rnd now c pattern payload out timeout = Inr v"
  using assms by (auto simp: Send_def Request_def SendTo_def and_then_def split: sum.splits option.splits if_splits)

text \<open>Names survive wrapping: the name of a wrapper is the given one, and up to seven wrappers are seen through.\<close>

fun wrap_depth :: "transport_value \<Rightarrow> nat" where
  "wrap_depth (NamedTransport n v) = Suc (wrap_depth v)"
| "wrap_depth (NamedListener n v) = Suc (wrap_depth v)"
| "wrap_depth (NamedPublisher n v) = Suc (wrap_depth v)"
| "wrap_depth (Plain n) = 0"
| "wrap_depth (Unnamed ty) = 0"

fun innermost :: "transport_value \<Rightarrow> string" where
  "innermost (NamedTransport n v) = innermost v"
| "innermost (NamedListener n v) = innermost v"
| "innermost (NamedPublisher n v) = innermost v"
| "innermost (Plain n) = n"
| "innermost (Unnamed ty) = ty"

lemma unwrap_loop_innermost: "unwrap_loop n v = (if wrap_depth v < n then innermost v else ''unknown'')"
proof (induction n arbitrary: v)
  case (Suc n)
  then show ?case by (cases v) auto
qed simp

lemma TransportName_innermost: "wrap_depth v < 8 \<Longrightarrow> TransportName v = innermost v"
  by (simp add: TransportName_def unwrap_loop_innermost)

lemma Named_name: "Named full name (Some v) = Inr w \<Longrightarrow> transport_Name w = Some (TrimSpace name) \<and> innermost w = innermost v"
  by (auto simp: Named_def Let_def split: if_splits)

text \<open>The registry returns what was registered, and closing it closes every client once.\<close>

lemma Register_lookup:
  assumes "Register name client cs = Inr cs'"
  shows "\<exists>c. client = Some c \<and> Clients_Client cs' name = Inr c \<and>
    (\<forall>s. s \<noteq> name \<longrightarrow> mget cs' s = mget cs s) \<and> mget cs name = None"
  using assms by (auto simp: Register_def Clients_Client_def split: if_splits option.splits)

lemma clients_close_first:
  "clients_close_loop cs fe = (case fe of Some e \<Rightarrow> Some e | None \<Rightarrow>
     (case find (\<lambda>c. Client_Close c \<noteq> None) cs of Some c \<Rightarrow> Client_Close c | None \<Rightarrow> None))"
proof (induction cs arbitrary: fe)
  case (Cons c cs)
  then show ?case by (cases fe; cases "Client_Close c") auto
qed (auto split: option.splits)

end
