(* ===== verification/Memory_Transport.thy ===== *)
theory Memory_Transport
  imports Envelope
begin

text \<open>
  The in-process transport (\<^verbatim>\<open>common/microservice/memory.go\<close>): a bounded queue between any number
  of callers and the one goroutine that listens. Callers, consumer and \<^verbatim>\<open>Close\<close> interleave, so the
  transport is a step relation: every step is one channel operation or one critical section of
  the source. The dispatcher is a parameter that may change a state of its own. The fields
  \<open>m_enqueued\<close> and \<open>m_handled\<close> record the history and are not read by any step.
\<close>

section \<open>The code\<close>

datatype call_kind = Pub | Req

datatype call_pc =
    CStart
  | CChecked
  | CWaiting
  | CDone "(msg_error, envelope option) result"

text \<open>A message in the queue: the envelope and, for a request, the caller whose channel takes the reply.\<close>

type_synonym deliverable = "envelope \<times> nat option"

record 'w memory =
  m_buffer :: nat
  m_messages :: "deliverable list"
  m_closed :: bool
  m_ready :: bool
  m_current :: "deliverable option"
  m_calls :: "(call_kind \<times> envelope \<times> call_pc) list"
  m_reply :: "nat \<Rightarrow> envelope option"
  m_world :: 'w
  m_enqueued :: "deliverable list"
  m_handled :: "(deliverable \<times> envelope) list"

definition NewMemory :: "int list \<Rightarrow> 'w \<Rightarrow> 'w memory" where
  "NewMemory opts w =
     (let b = (if opts \<noteq> [] then hd opts else 0); buffer = (if b \<le> 0 then 256 else b)
      in \<lparr>m_buffer = nat buffer, m_messages = [], m_closed = False, m_ready = False, m_current = None,
          m_calls = [], m_reply = (\<lambda>_. None), m_world = w, m_enqueued = [], m_handled = []\<rparr>)"

definition errText :: "(msg_error \<Rightarrow> string) \<Rightarrow> msg_error option \<Rightarrow> string" where
  "errText etext err = (case err of None \<Rightarrow> ''handler produced no reply'' | Some e \<Rightarrow> etext e)"

text \<open>The ends of a context: its deadline, or a cancellation.\<close>

datatype ctx_end = DeadlineExceeded | Canceled

definition ctx_err :: "ctx_end \<Rightarrow> msg_error" where
  "ctx_err e = (case e of DeadlineExceeded \<Rightarrow> Failed ''context deadline exceeded'' | Canceled \<Rightarrow> ErrCanceled)"

definition joinTimeout :: "ctx_end \<Rightarrow> msg_error" where
  "joinTimeout e = (case e of DeadlineExceeded \<Rightarrow> ErrTimeout | Canceled \<Rightarrow> ErrCanceled)"

definition call_error :: "call_kind \<Rightarrow> ctx_end \<Rightarrow> msg_error" where
  "call_error k e = (case k of Pub \<Rightarrow> ctx_err e | Req \<Rightarrow> joinTimeout e)"

text \<open>\<^verbatim>\<open>handle\<close>: what goes back to the caller of a request.\<close>

definition handle_reply :: "(msg_error \<Rightarrow> string) \<Rightarrow> envelope \<Rightarrow> envelope option \<Rightarrow> msg_error option \<Rightarrow> envelope" where
  "handle_reply etext env reply err =
     (case reply of Some r \<Rightarrow> r | None \<Rightarrow> replyError env 500 ''DISPATCH_ERROR'' (errText etext err))"

definition set_pc :: "nat \<Rightarrow> call_pc \<Rightarrow> 'w memory \<Rightarrow> 'w memory" where
  "set_pc i pc m = m\<lparr>m_calls := (m_calls m)[i := (fst (m_calls m ! i), fst (snd (m_calls m ! i)), pc)]\<rparr>"

text \<open>
  The steps of a call: the check of \<^verbatim>\<open>closed\<close>, the first \<^verbatim>\<open>select\<close> (enqueue, context, close), and for
  a request the second one (reply, context, close).
\<close>

inductive call_step :: "'w memory \<Rightarrow> 'w memory \<Rightarrow> bool" where
  open_call: "call_step m (m\<lparr>m_calls := m_calls m @ [(k, env, CStart)]\<rparr>)"
| check: "i < length (m_calls m) \<Longrightarrow> m_calls m ! i = (k, env, CStart) \<Longrightarrow>
     call_step m (set_pc i (if m_closed m then CDone (Inl ErrClosed) else CChecked) m)"
| enqueue: "i < length (m_calls m) \<Longrightarrow> m_calls m ! i = (k, env, CChecked) \<Longrightarrow> length (m_messages m) < m_buffer m \<Longrightarrow>
     msg = (env, if k = Req then Some i else None) \<Longrightarrow>
     call_step m (set_pc i (if k = Req then CWaiting else CDone (Inr None))
       (m\<lparr>m_messages := m_messages m @ [msg], m_enqueued := m_enqueued m @ [msg]\<rparr>))"
| give_up: "i < length (m_calls m) \<Longrightarrow> m_calls m ! i = (k, env, pc) \<Longrightarrow> pc = CChecked \<or> pc = CWaiting \<Longrightarrow>
     call_step m (set_pc i (CDone (Inl (call_error k e))) m)"
| closed: "i < length (m_calls m) \<Longrightarrow> m_calls m ! i = (k, env, pc) \<Longrightarrow> pc = CChecked \<or> pc = CWaiting \<Longrightarrow> m_closed m \<Longrightarrow>
     call_step m (set_pc i (CDone (Inl ErrClosed)) m)"
| receive: "i < length (m_calls m) \<Longrightarrow> m_calls m ! i = (k, env, CWaiting) \<Longrightarrow> m_reply m i = Some r \<Longrightarrow>
     call_step m (set_pc i (CDone (Inr (Some r))) (m\<lparr>m_reply := (m_reply m)(i := None)\<rparr>))"

text \<open>
  \<^verbatim>\<open>WaitReady\<close> is one \<^verbatim>\<open>select\<close>: \<open>ready\<close> and \<open>closed\<close> are the channels, \<open>ended\<close> the context, and
  \<open>pick\<close> the ready case the runtime takes. \<open>None\<close>: it still waits.
\<close>

datatype wait_case = WaitReadyCh | WaitCloseCh | WaitDone

definition WaitReady :: "wait_case \<Rightarrow> ctx_end option \<Rightarrow> 'w memory \<Rightarrow> (msg_error option) option" where
  "WaitReady pick ended m =
     (case pick of
        WaitReadyCh \<Rightarrow> if m_ready m then Some None else None
      | WaitCloseCh \<Rightarrow> if m_closed m then Some (Some ErrClosed) else None
      | WaitDone \<Rightarrow> map_option (\<lambda>e. Some (Failed (''microservice: memory transport never started consuming (''
            @ (case e of DeadlineExceeded \<Rightarrow> ''context deadline exceeded'' | Canceled \<Rightarrow> ''context canceled'') @ '')''))) ended)"

text \<open>\<^verbatim>\<open>Dispatch\<close> bypasses the queue; the dispatcher is installed before \<open>ready\<close> is closed.\<close>

definition Memory_Dispatch :: "('w \<Rightarrow> envelope \<Rightarrow> 'w \<times> envelope option \<times> msg_error option) \<Rightarrow> wait_case \<Rightarrow> ctx_end option \<Rightarrow>
    envelope \<Rightarrow> 'w memory \<Rightarrow> ('w memory \<times> envelope option \<times> msg_error option) option" where
  "Memory_Dispatch dispatch pick ended env m =
     (case WaitReady pick ended m of
        None \<Rightarrow> None
      | Some (Some e) \<Rightarrow> Some (m, None, Some e)
      | Some None \<Rightarrow> (case dispatch (m_world m) env of (w, reply, err) \<Rightarrow> Some (m\<lparr>m_world := w\<rparr>, reply, err)))"

text \<open>
  The consumer: it installs the dispatcher, takes the next message, and when the dispatcher has
  returned it puts the reply into the caller's channel, which holds one, unless that is full.
\<close>

inductive mem_step :: "('w \<Rightarrow> envelope \<Rightarrow> 'w \<times> envelope option \<times> msg_error option) \<Rightarrow> (msg_error \<Rightarrow> string) \<Rightarrow>
    'w memory \<Rightarrow> 'w memory \<Rightarrow> bool"
  for dispatch :: "'w \<Rightarrow> envelope \<Rightarrow> 'w \<times> envelope option \<times> msg_error option" and etext :: "msg_error \<Rightarrow> string" where
  call: "call_step m m' \<Longrightarrow> mem_step dispatch etext m m'"
| listen: "mem_step dispatch etext m (m\<lparr>m_ready := True\<rparr>)"
| close: "mem_step dispatch etext m (m\<lparr>m_closed := True\<rparr>)"
| take: "m_ready m \<Longrightarrow> m_current m = None \<Longrightarrow> m_messages m = msg # rest \<Longrightarrow>
     mem_step dispatch etext m (m\<lparr>m_current := Some msg, m_messages := rest\<rparr>)"
| direct: "Memory_Dispatch dispatch pick ended env m = Some (m', reply, err) \<Longrightarrow> mem_step dispatch etext m m'"
| finish: "m_current m = Some (env, ch) \<Longrightarrow> dispatch (m_world m) env = (w, reply, err) \<Longrightarrow>
     r = handle_reply etext env reply err \<Longrightarrow>
     mem_step dispatch etext m (m\<lparr>m_current := None, m_world := w,
       m_handled := m_handled m @ [((env, ch), r)],
       m_reply := (case ch of None \<Rightarrow> m_reply m
          | Some i \<Rightarrow> if m_reply m i = None then (m_reply m)(i := Some r) else m_reply m)\<rparr>)"

inductive_cases call_stepE: "call_step m m'"
inductive_cases mem_stepE: "mem_step dispatch etext m m'"

inductive mem_reach :: "('w \<Rightarrow> envelope \<Rightarrow> 'w \<times> envelope option \<times> msg_error option) \<Rightarrow> (msg_error \<Rightarrow> string) \<Rightarrow>
    'w memory \<Rightarrow> bool"
  for dispatch :: "'w \<Rightarrow> envelope \<Rightarrow> 'w \<times> envelope option \<times> msg_error option" and etext :: "msg_error \<Rightarrow> string" where
  new: "mem_reach dispatch etext (NewMemory opts w)"
| step: "mem_reach dispatch etext m \<Longrightarrow> mem_step dispatch etext m m' \<Longrightarrow> mem_reach dispatch etext m'"

section \<open>The invariant\<close>

definition pending :: "'w memory \<Rightarrow> deliverable list" where
  "pending m = (case m_current m of None \<Rightarrow> [] | Some d \<Rightarrow> [d]) @ m_messages m"

definition call_ok :: "'w memory \<Rightarrow> nat \<Rightarrow> call_kind \<times> envelope \<times> call_pc \<Rightarrow> bool" where
  "call_ok m i c = (case c of
     (k, env, CDone (Inr (Some r))) \<Rightarrow> k = Req \<and> ((env, Some i), r) \<in> set (m_handled m)
   | (k, env, CDone (Inr None)) \<Rightarrow> k = Pub \<and> (env, None) \<in> set (m_enqueued m)
   | (k, env, CWaiting) \<Rightarrow> k = Req \<and> (env, Some i) \<in> set (m_enqueued m)
   | _ \<Rightarrow> True)"

definition calls_ok :: "'w memory \<Rightarrow> bool" where
  "calls_ok m \<longleftrightarrow> (\<forall>i < length (m_calls m). call_ok m i (m_calls m ! i))"

text \<open>A queued request belongs to a call that is past its first \<^verbatim>\<open>select\<close>; no two share a call.\<close>

definition sent_ok :: "'w memory \<Rightarrow> bool" where
  "sent_ok m \<longleftrightarrow> distinct (List.map_filter snd (m_enqueued m)) \<and>
     (\<forall>env i. (env, Some i) \<in> set (m_enqueued m) \<longrightarrow>
        i < length (m_calls m) \<and> fst (m_calls m ! i) = Req \<and> fst (snd (m_calls m ! i)) = env \<and>
        snd (snd (m_calls m ! i)) \<noteq> CStart \<and> snd (snd (m_calls m ! i)) \<noteq> CChecked)"

definition reply_ok :: "'w memory \<Rightarrow> bool" where
  "reply_ok m \<longleftrightarrow> (\<forall>i r. m_reply m i = Some r \<longrightarrow> (\<exists>env. ((env, Some i), r) \<in> set (m_handled m)))"

definition queue_ok :: "'w memory \<Rightarrow> bool" where
  "queue_ok m \<longleftrightarrow> 0 < m_buffer m \<and> length (m_messages m) \<le> m_buffer m \<and>
     m_enqueued m = map fst (m_handled m) @ pending m"

definition mem_inv :: "'w memory \<Rightarrow> bool" where
  "mem_inv m \<longleftrightarrow> queue_ok m \<and> sent_ok m \<and> reply_ok m \<and> calls_ok m"

lemma set_pc_simps [simp]:
  "m_buffer (set_pc i pc m) = m_buffer m" "m_messages (set_pc i pc m) = m_messages m"
  "m_current (set_pc i pc m) = m_current m" "m_reply (set_pc i pc m) = m_reply m"
  "m_enqueued (set_pc i pc m) = m_enqueued m" "m_handled (set_pc i pc m) = m_handled m"
  "length (m_calls (set_pc i pc m)) = length (m_calls m)" "pending (set_pc i pc m) = pending m"
  by (simp_all add: set_pc_def pending_def)

lemma set_pc_nth:
  "i < length (m_calls m) \<Longrightarrow> m_calls m ! i = (k, env, pc0) \<Longrightarrow>
     m_calls (set_pc i pc m) ! j = (if j = i then (k, env, pc) else m_calls m ! j)"
  by (simp add: set_pc_def nth_list_update)

lemma call_ok_mono:
  assumes "call_ok m i c" and "set (m_handled m) \<subseteq> set (m_handled m')" and "set (m_enqueued m) \<subseteq> set (m_enqueued m')"
  shows "call_ok m' i c"
  using assms unfolding call_ok_def
  by (auto split: prod.splits call_pc.splits sum.splits option.splits)

text \<open>Moving one call on.\<close>

lemma calls_ok_set_pc:
  assumes "calls_ok m" and "i < length (m_calls m)" and "m_calls m ! i = (k, env, pc0)"
    and "m_calls m' = m_calls m" and "set (m_handled m) \<subseteq> set (m_handled m')"
    and "set (m_enqueued m) \<subseteq> set (m_enqueued m')" and "call_ok m' i (k, env, pc)"
  shows "calls_ok (set_pc i pc m')"
proof -
  have get: "m_calls (set_pc i pc m') ! j = (if j = i then (k, env, pc) else m_calls m ! j)" for j
    using set_pc_nth [of i m' k env pc0 pc j] assms(2-4) by simp
  have "call_ok (set_pc i pc m') j (m_calls (set_pc i pc m') ! j)" if "j < length (m_calls m)" for j
  proof (cases "j = i")
    case True
    then show ?thesis using assms(7) get by (auto intro: call_ok_mono [of m'])
  next
    case False
    from assms(1) that have "call_ok m j (m_calls m ! j)" by (simp add: calls_ok_def)
    then have "call_ok (set_pc i pc m') j (m_calls m ! j)" by (rule call_ok_mono) (use assms(5,6) in simp_all)
    with get False show ?thesis by simp
  qed
  then show ?thesis using assms(4) by (simp add: calls_ok_def)
qed

lemma sent_okD:
  assumes "sent_ok m" and "(env, Some i) \<in> set (m_enqueued m)"
  shows "i < length (m_calls m)" "\<exists>pc. m_calls m ! i = (Req, env, pc) \<and> pc \<noteq> CStart \<and> pc \<noteq> CChecked"
  using assms by (auto simp: sent_ok_def prod_eq_iff)

lemma sent_okI:
  assumes "distinct (List.map_filter snd (m_enqueued m))"
    and "\<And>env i. (env, Some i) \<in> set (m_enqueued m) \<Longrightarrow>
      i < length (m_calls m) \<and> (\<exists>pc. m_calls m ! i = (Req, env, pc) \<and> pc \<noteq> CStart \<and> pc \<noteq> CChecked)"
  shows "sent_ok m"
  using assms unfolding sent_ok_def by fastforce

lemma sent_ok_set_pc:
  assumes "sent_ok m" and "i < length (m_calls m)" and "m_calls m ! i = (k, env, pc0)"
    and "pc \<noteq> CStart" and "pc = CChecked \<Longrightarrow> pc0 = CStart"
  shows "sent_ok (set_pc i pc m)"
proof (rule sent_okI)
  fix env' j
  assume "(env', Some j) \<in> set (m_enqueued (set_pc i pc m))"
  then have "(env', Some j) \<in> set (m_enqueued m)" by simp
  note d = sent_okD [OF assms(1) this]
  show "j < length (m_calls (set_pc i pc m)) \<and>
      (\<exists>pc'. m_calls (set_pc i pc m) ! j = (Req, env', pc') \<and> pc' \<noteq> CStart \<and> pc' \<noteq> CChecked)"
    using d assms(3,4,5) by (auto simp: set_pc_nth [OF assms(2,3)])
next
  show "distinct (List.map_filter snd (m_enqueued (set_pc i pc m)))" using assms(1) by (simp add: sent_ok_def)
qed

lemma call_step_inv:
  assumes "call_step m m'" and inv: "mem_inv m"
  shows "mem_inv m'"
proof -
  from inv have q: "queue_ok m" and s: "sent_ok m" and r: "reply_ok m" and c: "calls_ok m"
    by (auto simp: mem_inv_def)
  have same: "mem_inv (set_pc i pc m)"
    if "i < length (m_calls m)" "m_calls m ! i = (k, env, pc0)" "pc \<noteq> CStart" "pc = CChecked \<Longrightarrow> pc0 = CStart"
      "call_ok m i (k, env, pc)" for i k env pc pc0
    using q r that sent_ok_set_pc [OF s that(1,2,3,4)] calls_ok_set_pc [OF c that(1,2) refl _ _ that(5)]
    by (simp add: mem_inv_def queue_ok_def reply_ok_def)
  from assms(1) show ?thesis
  proof (cases rule: call_step.cases)
    case (open_call k env)
    have "call_ok m' i (m_calls m' ! i)" if "i < length (m_calls m')" for i
    proof (cases "i < length (m_calls m)")
      case True
      then show ?thesis using c open_call
        by (auto simp: calls_ok_def nth_append intro: call_ok_mono [of m])
    next
      case False
      then show ?thesis using that open_call by (simp add: nth_append call_ok_def less_Suc_eq)
    qed
    then have "calls_ok m'" by (simp add: calls_ok_def)
    moreover have "sent_ok m'"
    proof (rule sent_okI)
      fix env' j
      assume "(env', Some j) \<in> set (m_enqueued m')"
      then have "(env', Some j) \<in> set (m_enqueued m)" using open_call by simp
      from sent_okD [OF s this] show "j < length (m_calls m') \<and>
          (\<exists>pc'. m_calls m' ! j = (Req, env', pc') \<and> pc' \<noteq> CStart \<and> pc' \<noteq> CChecked)"
        using open_call by (auto simp: nth_append)
    qed (use s open_call in \<open>simp add: sent_ok_def\<close>)
    ultimately show ?thesis using q r open_call by (simp add: mem_inv_def queue_ok_def reply_ok_def pending_def)
  next
    case (check i k env)
    then show ?thesis using same [of i k env CStart] by (auto simp: call_ok_def)
  next
    case (give_up i k env pc e)
    then show ?thesis using same [of i k env pc "CDone (Inl (call_error k e))"] by (simp add: call_ok_def)
  next
    case (closed i k env pc)
    then show ?thesis using same [of i k env pc "CDone (Inl ErrClosed)"] by (simp add: call_ok_def)
  next
    case (enqueue i k env msg)
    let ?m = "m\<lparr>m_messages := m_messages m @ [msg], m_enqueued := m_enqueued m @ [msg]\<rparr>"
    let ?pc = "if k = Req then CWaiting else CDone (Inr None)"
    have k: "k = Pub \<or> k = Req" by (cases k) auto
    have no: "(env', Some i) \<notin> set (m_enqueued m)" for env' using s enqueue(3) by (fastforce simp: sent_ok_def)
    have get: "m_calls m' ! j = (if j = i then (k, env, ?pc) else m_calls m ! j)" for j
      using set_pc_nth [of i ?m k env CChecked ?pc j] enqueue by simp
    have "distinct (List.map_filter snd (m_enqueued m'))"
      using s no enqueue(1,5) by (auto simp: sent_ok_def List.map_filter_def image_iff)
    then have "sent_ok m'"
    proof (rule sent_okI)
      fix env' j
      assume "(env', Some j) \<in> set (m_enqueued m')"
      then have "(env', Some j) \<in> set (m_enqueued m) \<or> j = i \<and> k = Req \<and> env' = env"
        using enqueue(1,5) by (auto split: if_splits)
      then show "j < length (m_calls m') \<and>
          (\<exists>pc'. m_calls m' ! j = (Req, env', pc') \<and> pc' \<noteq> CStart \<and> pc' \<noteq> CChecked)"
      proof
        assume old: "(env', Some j) \<in> set (m_enqueued m)"
        with no have "j \<noteq> i" by auto
        then have "m_calls m' ! j = m_calls m ! j" by (simp add: get)
        moreover have "length (m_calls m') = length (m_calls m)" using enqueue(1) by simp
        ultimately show ?thesis using sent_okD [OF s old] by simp
      next
        assume "j = i \<and> k = Req \<and> env' = env"
        moreover from this have "m_calls m' ! j = (Req, env, CWaiting)" by (simp add: get)
        moreover have "length (m_calls m') = length (m_calls m)" using enqueue(1) by simp
        ultimately show ?thesis using enqueue(2) by simp
      qed
    qed
    moreover have "calls_ok m'" unfolding enqueue(1)
      using k enqueue(5) by (intro calls_ok_set_pc [OF c enqueue(2,3)]) (auto simp: call_ok_def)
    moreover have "queue_ok m'" using q enqueue(1,4) by (auto simp: queue_ok_def pending_def)
    ultimately show ?thesis using r enqueue(1) by (simp add: mem_inv_def reply_ok_def)
  next
    case (receive i k env rep)
    let ?m = "m\<lparr>m_reply := (m_reply m)(i := None)\<rparr>"
    have w: "call_ok m i (k, env, CWaiting)" using c receive(2,3) by (auto simp: calls_ok_def)
    then have kw: "k = Req" "(env, Some i) \<in> set (m_enqueued m)" by (auto simp: call_ok_def)
    from r receive(4) obtain env' where e: "((env', Some i), rep) \<in> set (m_handled m)" by (auto simp: reply_ok_def)
    then have "(env', Some i) \<in> set (m_enqueued m)" using q by (force simp: queue_ok_def)
    from sent_okD(2) [OF s this] have "env' = env" using receive(3) by simp
    then have "calls_ok m'" unfolding receive(1)
      using e kw by (intro calls_ok_set_pc [OF c receive(2,3)]) (auto simp: call_ok_def)
    moreover have "sent_ok ?m" using s by (simp add: sent_ok_def)
    then have "sent_ok m'" unfolding receive(1) using receive(2,3) by (intro sent_ok_set_pc) auto
    ultimately show ?thesis using q r receive(1) by (auto simp: mem_inv_def queue_ok_def reply_ok_def pending_def)
  qed
qed

lemma Memory_Dispatch_world:
  assumes "Memory_Dispatch dispatch pick ended env m = Some (m', reply, err)"
  obtains w where "m' = m\<lparr>m_world := w\<rparr>"
proof (cases "m' = m")
  case True
  then show ?thesis using that [of "m_world m"] by simp
next
  case False
  then show ?thesis using assms that
    by (cases "dispatch (m_world m) env") (auto simp: Memory_Dispatch_def split: option.splits)
qed

lemma mem_step_inv:
  assumes "mem_step dispatch etext m m'" and inv: "mem_inv m"
  shows "mem_inv m'"
  using assms(1)
proof (cases rule: mem_step.cases)
  case call
  then show ?thesis using inv by (rule call_step_inv)
next
  case listen
  then show ?thesis using inv
    by (auto simp: mem_inv_def queue_ok_def sent_ok_def reply_ok_def calls_ok_def pending_def intro: call_ok_mono [of m])
next
  case close
  then show ?thesis using inv
    by (auto simp: mem_inv_def queue_ok_def sent_ok_def reply_ok_def calls_ok_def pending_def intro: call_ok_mono [of m])
next
  case (take msg rest)
  then show ?thesis using inv
    by (auto simp: mem_inv_def queue_ok_def sent_ok_def reply_ok_def calls_ok_def pending_def intro: call_ok_mono [of m])
next
  case direct
  then obtain w where "m' = m\<lparr>m_world := w\<rparr>" by (rule Memory_Dispatch_world)
  then show ?thesis using inv
    by (auto simp: mem_inv_def queue_ok_def sent_ok_def reply_ok_def calls_ok_def pending_def intro: call_ok_mono [of m])
next
  case (finish env ch w reply err r)
  have "reply_ok m'" using inv finish
    by (auto simp: mem_inv_def reply_ok_def split: option.splits if_splits)
  moreover have "calls_ok m'" using inv finish
    by (auto simp: mem_inv_def calls_ok_def intro: call_ok_mono [of m])
  moreover have "queue_ok m'" "sent_ok m'" using inv finish
    by (auto simp: mem_inv_def queue_ok_def sent_ok_def pending_def)
  ultimately show ?thesis by (simp add: mem_inv_def)
qed

lemma NewMemory_inv: "mem_inv (NewMemory opts w)"
  by (simp add: mem_inv_def NewMemory_def Let_def queue_ok_def sent_ok_def reply_ok_def calls_ok_def pending_def List.map_filter_def)

lemma mem_reach_inv: "mem_reach dispatch etext m \<Longrightarrow> mem_inv m"
  by (induction rule: mem_reach.induct) (auto simp: NewMemory_inv intro: mem_step_inv)

text \<open>What is recorded as handled is what the dispatcher answered.\<close>

lemma mem_reach_handled:
  "mem_reach dispatch etext m \<Longrightarrow> ((env, ch), r) \<in> set (m_handled m) \<Longrightarrow>
     \<exists>w w' reply err. dispatch w env = (w', reply, err) \<and> r = handle_reply etext env reply err"
proof (induction arbitrary: env ch r rule: mem_reach.induct)
  case (new opts w)
  then show ?case by (simp add: NewMemory_def Let_def)
next
  case (step m m')
  from step.hyps(2) show ?case
  proof (cases rule: mem_step.cases)
    case call
    from call have "m_handled m' = m_handled m" by (cases rule: call_step.cases) auto
    with step show ?thesis by metis
  next
    case direct
    then obtain w where "m' = m\<lparr>m_world := w\<rparr>" by (rule Memory_Dispatch_world)
    with step show ?thesis by auto
  next
    case (finish env' ch' w reply err r')
    with step show ?thesis by auto
  qed (use step in auto)
qed

section \<open>Properties\<close>

text \<open>
  C5. Every request gets its own reply, and nothing is lost, duplicated or reordered: in every
  state reached by any interleaving of callers, the consumer and \<^verbatim>\<open>Close\<close>, a request that has
  returned a reply returned the one the dispatcher produced for its own envelope, a publish that
  succeeded is in the history of the queue, the messages handled so far followed by the ones
  still pending are exactly the messages enqueued, in order, each request at most once, and
  the queue never exceeds its buffer.
\<close>

theorem memory_replies_correlated:
  assumes "mem_reach dispatch etext m"
  shows "(\<forall>i env r. i < length (m_calls m) \<and> m_calls m ! i = (Req, env, CDone (Inr (Some r))) \<longrightarrow>
      ((env, Some i), r) \<in> set (m_handled m)) \<and>
    (\<forall>env ch r. ((env, ch), r) \<in> set (m_handled m) \<longrightarrow>
      (\<exists>w w' reply err. dispatch w env = (w', reply, err) \<and> r = handle_reply etext env reply err)) \<and>
    (\<forall>i env. i < length (m_calls m) \<and> m_calls m ! i = (Pub, env, CDone (Inr None)) \<longrightarrow>
      (env, None) \<in> set (m_enqueued m)) \<and>
    m_enqueued m = map fst (m_handled m) @ pending m \<and>
    distinct (List.map_filter snd (m_enqueued m)) \<and>
    length (m_messages m) \<le> m_buffer m"
proof -
  from mem_reach_inv [OF assms] have inv: "queue_ok m" "sent_ok m" "calls_ok m" by (auto simp: mem_inv_def)
  have "((env, Some i), r) \<in> set (m_handled m)"
    if "i < length (m_calls m)" "m_calls m ! i = (Req, env, CDone (Inr (Some r)))" for i env r
    using inv(3) that by (auto simp: calls_ok_def call_ok_def)
  moreover note mem_reach_handled [OF assms]
  moreover have "(env, None) \<in> set (m_enqueued m)"
    if "i < length (m_calls m)" "m_calls m ! i = (Pub, env, CDone (Inr None))" for i env
    using inv(3) that by (auto simp: calls_ok_def call_ok_def)
  moreover have "m_enqueued m = map fst (m_handled m) @ pending m" "length (m_messages m) \<le> m_buffer m"
    "distinct (List.map_filter snd (m_enqueued m))"
    using inv(1,2) by (simp_all only: queue_ok_def sent_ok_def)
  ultimately show ?thesis by blast
qed

text \<open>One request, served by a dispatcher that echoes the envelope.\<close>

definition echo :: "nat \<Rightarrow> envelope \<Rightarrow> nat \<times> envelope option \<times> msg_error option" where
  "echo w env = (w + 1, Some env, None)"

definition ping :: envelope where
  "ping = \<lparr>e_ID = ''1'', e_Pattern = ''ping'', e_Data = '''', e_Headers = [], e_ReplyTo = '''', e_Status = 0, e_Error = None, e_SentAt = 0\<rparr>"

definition answered :: "nat memory" where
  "answered = \<lparr>m_buffer = 256, m_messages = [], m_closed = False, m_ready = True, m_current = None,
     m_calls = [(Req, ping, CDone (Inr (Some ping)))], m_reply = (\<lambda>_. None), m_world = 1,
     m_enqueued = [(ping, Some 0)], m_handled = [((ping, Some 0), ping)]\<rparr>"

lemma answered_reach: "mem_reach echo (\<lambda>_. '''') answered"
proof -
  let ?st = "\<lambda>msgs rdy cur calls rep w enq hd. \<lparr>m_buffer = 256, m_messages = msgs, m_closed = False, m_ready = rdy,
    m_current = cur, m_calls = calls, m_reply = rep, m_world = w, m_enqueued = enq, m_handled = hd\<rparr>"
  let ?n = "\<lambda>_ :: nat. None :: envelope option"
  note R = mem_reach.step [of echo "\<lambda>_. ''''"]
  have s0: "mem_reach echo (\<lambda>_. '''') (?st [] False None [] ?n 0 [] [])"
    using mem_reach.new [of echo "\<lambda>_. ''''" "[]" 0] by (simp add: NewMemory_def)
  have s1: "mem_reach echo (\<lambda>_. '''') (?st [] False None [(Req, ping, CStart)] ?n 0 [] [])"
    using R [OF s0 mem_step.call [OF call_step.open_call [of _ Req ping]]] by simp
  have s2: "mem_reach echo (\<lambda>_. '''') (?st [] False None [(Req, ping, CChecked)] ?n 0 [] [])"
    using R [OF s1 mem_step.call [OF call_step.check [of 0 _ Req ping]]] by (simp add: set_pc_def)
  have s3: "mem_reach echo (\<lambda>_. '''') (?st [(ping, Some 0)] False None [(Req, ping, CWaiting)] ?n 0 [(ping, Some 0)] [])"
    using R [OF s2 mem_step.call [OF call_step.enqueue [of 0 _ Req ping "(ping, Some 0)"]]] by (simp add: set_pc_def)
  have s4: "mem_reach echo (\<lambda>_. '''') (?st [(ping, Some 0)] True None [(Req, ping, CWaiting)] ?n 0 [(ping, Some 0)] [])"
    using R [OF s3 mem_step.listen] by simp
  have s5: "mem_reach echo (\<lambda>_. '''') (?st [] True (Some (ping, Some 0)) [(Req, ping, CWaiting)] ?n 0 [(ping, Some 0)] [])"
    using R [OF s4 mem_step.take [of _ "(ping, Some 0)" "[]"]] by simp
  have s6: "mem_reach echo (\<lambda>_. '''') (?st [] True None [(Req, ping, CWaiting)] (?n(0 := Some ping)) 1 [(ping, Some 0)] [((ping, Some 0), ping)])"
    using R [OF s5 mem_step.finish [of _ ping "Some 0" echo 1 "Some ping" None ping]] by (simp add: echo_def handle_reply_def)
  show ?thesis
    using R [OF s6 mem_step.call [OF call_step.receive [of 0 _ Req ping ping]]] by (simp add: set_pc_def answered_def)
qed

theorem memory_replies_correlated_witness:
  "((ping, Some 0), ping) \<in> set (m_handled answered) \<and> m_enqueued answered = map fst (m_handled answered) @ pending answered"
proof -
  have "0 < length (m_calls answered)" "m_calls answered ! 0 = (Req, ping, CDone (Inr (Some ping)))"
    by (simp_all add: answered_def)
  with memory_replies_correlated [OF answered_reach] show ?thesis by (metis (no_types, lifting))
qed

end
