(* ===== verification/Correlation.thy ===== *)
theory Correlation
  imports Memory_Transport
begin

text \<open>
  Requests and replies over an asynchronous medium. The TCP, Redis, RabbitMQ and Kafka transports share one protocol: a call puts its
  channel into a map under the id of its envelope, sends, waits for the channel, a deadline, a lost connection or \<^verbatim>\<open>Close\<close>, and
  removes the entry on every path; one reader per client takes replies from an inbox and hands each to the channel of its id.
  This theory has the protocol as a step relation over any medium: a message that was sent may be lost, delayed, reordered or
  handled any number of times, and so may a reply. The locale says what a transport provides, and its theorem is what
  every one of them promises.
\<close>

section \<open>Replies\<close>

definition errorReply :: "envelope \<Rightarrow> int \<Rightarrow> string \<Rightarrow> string \<Rightarrow> envelope" where
  "errorReply env status code detail =
     \<lparr>e_ID = e_ID env, e_Pattern = e_Pattern env, e_Data = [], e_Headers = [], e_ReplyTo = [], e_Status = status,
      e_Error = Some \<lparr>x_Code = status, x_Message = code, x_Details = DText detail\<rparr>, e_SentAt = 0\<rparr>"

text \<open>\<^verbatim>\<open>handleMessage\<close> of the TCP, Redis and NATS transports after the dispatcher returned: the payload it answers with, if any.\<close>

definition reply_payload :: "'v json \<Rightarrow> (msg_error \<Rightarrow> string) \<Rightarrow> envelope \<Rightarrow> envelope option \<Rightarrow> msg_error option \<Rightarrow> string option" where
  "reply_payload j etext env reply err =
     (if e_ReplyTo env = [] then None
      else
        (let r = (case reply of
                    Some r \<Rightarrow> r
                  | None \<Rightarrow> errorReply env 500 ''DISPATCH_ERROR''
                      (case err of Some e \<Rightarrow> etext e | None \<Rightarrow> ''handler produced no reply''))
         in case Encode j (r\<lparr>e_ID := e_ID env\<rparr>) of
              Inr data \<Rightarrow> Some data
            | Inl _ \<Rightarrow>
                (case Encode j (errorReply env 500 ''ENCODE_ERROR'' ''reply could not be encoded'') of
                   Inr data \<Rightarrow> Some data
                 | Inl _ \<Rightarrow> None)))"

text \<open>What \<^verbatim>\<open>encoding/json\<close> promises of the id: marshalling and unmarshalling an envelope keeps it.\<close>

definition json_keeps_id :: "'v json \<Rightarrow> bool" where
  "json_keeps_id j \<longleftrightarrow> (\<forall>e raw d. j_encode j e = Inr raw \<and> j_decode j raw = Inr d \<longrightarrow> e_ID d = e_ID e)"

lemma Encode_Inr: "Encode j e = Inr raw \<longleftrightarrow> j_encode j e = Inr raw"
  by (simp add: Encode_def split: sum.splits)

lemma decodes_Inr: "DecodeEnvelope j raw = Inr d \<Longrightarrow> j_decode j raw = Inr d"
  by (auto simp: DecodeEnvelope_def split: sum.splits if_splits option.splits)

lemma reply_payload_Some:
  assumes "reply_payload j etext env reply err = Some p"
  obtains r where "Encode j r = Inr p" "e_ID r = e_ID env" "e_ReplyTo env \<noteq> []"
proof -
  let ?r = "(case reply of
                    Some r \<Rightarrow> r
                  | None \<Rightarrow> errorReply env 500 ''DISPATCH_ERROR''
                      (case err of Some e \<Rightarrow> etext e | None \<Rightarrow> ''handler produced no reply''))\<lparr>e_ID := e_ID env\<rparr>"
  let ?s = "errorReply env 500 ''ENCODE_ERROR'' ''reply could not be encoded''"
  have "e_ReplyTo env \<noteq> []" "Encode j ?r = Inr p \<or> Encode j ?s = Inr p"
    using assms unfolding reply_payload_def Let_def by (auto split: if_splits sum.splits)
  moreover have "e_ID ?r = e_ID env" "e_ID ?s = e_ID env" by (simp_all add: errorReply_def)
  ultimately show thesis using that by blast
qed

section \<open>The protocol\<close>

datatype ('m, 'e) rcall =
    RStart
  | RRegistered 'm
  | RWaiting
  | RDone "('e, envelope option) result"

text \<open>
  \<open>rp_chan\<close> is the channel of a call, with a buffer of one. \<open>rp_sent\<close> and \<open>rp_replies\<close> are all messages ever given to the medium.
\<close>

type_synonym waiters = "(string, nat) gomap \<times> (nat \<Rightarrow> envelope option)"

record ('m, 'e, 'w) rpc =
  rp_closed :: bool
  rp_pending :: "(string, nat) gomap"
  rp_chan :: "nat \<Rightarrow> envelope option"
  rp_calls :: "(call_kind \<times> envelope \<times> ('m, 'e) rcall) list"
  rp_sent :: "'m list"
  rp_replies :: "'m list"
  rp_world :: 'w

definition start_rpc :: "'w \<Rightarrow> ('m, 'e, 'w) rpc" where
  "start_rpc w = \<lparr>rp_closed = False, rp_pending = [], rp_chan = (\<lambda>_. None), rp_calls = [], rp_sent = [], rp_replies = [],
     rp_world = w\<rparr>"

definition set_rcall :: "nat \<Rightarrow> call_kind \<times> envelope \<times> ('m, 'e) rcall \<Rightarrow> ('m, 'e, 'w) rpc \<Rightarrow> ('m, 'e, 'w) rpc" where
  "set_rcall i c m = m\<lparr>rp_calls := (rp_calls m)[i := c]\<rparr>"

text \<open>The start of a call: the message is built, and a request is registered before anything is sent.\<close>

definition register :: "nat \<Rightarrow> call_kind \<Rightarrow> envelope \<Rightarrow> 'm \<Rightarrow> ('m, 'e, 'w) rpc \<Rightarrow> ('m, 'e, 'w) rpc" where
  "register i k env msg m =
     set_rcall i (k, env, RRegistered msg)
       (if k = Req then m\<lparr>rp_pending := mput (e_ID env) i (rp_pending m)\<rparr> else m)"

text \<open>The return of a call; a request removes its entry on every path.\<close>

definition settle_call :: "nat \<Rightarrow> call_kind \<Rightarrow> envelope \<Rightarrow> ('e, envelope option) result \<Rightarrow> ('m, 'e, 'w) rpc \<Rightarrow> ('m, 'e, 'w) rpc" where
  "settle_call i k env res m =
     set_rcall i (k, env, RDone res) (if k = Req then m\<lparr>rp_pending := mdel (e_ID env) (rp_pending m)\<rparr> else m)"

text \<open>
  The two ways of handing a reply over. One keeps the entry and does not wait for room in the channel; the other takes the entry
  out first, so that the channel always has room.
\<close>

definition deliver_keeping :: "string \<Rightarrow> envelope \<Rightarrow> waiters \<Rightarrow> waiters" where
  "deliver_keeping x env pc = (case pc of (p, c) \<Rightarrow>
     (case mget p x of None \<Rightarrow> (p, c) | Some i \<Rightarrow> (p, if c i = None then c(i := Some env) else c)))"

definition deliver_taking :: "string \<Rightarrow> envelope \<Rightarrow> waiters \<Rightarrow> waiters" where
  "deliver_taking x env pc = (case pc of (p, c) \<Rightarrow>
     (case mget p x of None \<Rightarrow> (mdel x p, c) | Some i \<Rightarrow> (mdel x p, c(i := Some env))))"

text \<open>
  What a transport provides: \<open>build\<close> gives the envelope as it is sent and the message, or an error, from what the call meets (random
  bytes, a session, a timeout); \<open>handle\<close> is the server, which may answer
  with a message; \<open>correlate\<close> reads a reply into the id it is looked up by and the envelope; \<open>deliver\<close> hands it over.
\<close>

record ('r, 'm, 'e, 'w) carrier =
  cr_build :: "call_kind \<Rightarrow> 'r \<Rightarrow> envelope \<Rightarrow> ('e, envelope \<times> 'm) result"
  cr_handle :: "'w \<Rightarrow> 'm \<Rightarrow> 'w \<times> 'm option"
  cr_correlate :: "'m \<Rightarrow> (string \<times> envelope) option"
  cr_deliver :: "string \<Rightarrow> envelope \<Rightarrow> waiters \<Rightarrow> waiters"

definition answered_with :: "'m option \<Rightarrow> 'w \<Rightarrow> ('m, 'e, 'w) rpc \<Rightarrow> ('m, 'e, 'w) rpc" where
  "answered_with r w m =
     (case r of
        None \<Rightarrow> m\<lparr>rp_world := w\<rparr>
      | Some r \<Rightarrow> m\<lparr>rp_world := w, rp_replies := rp_replies m @ [r]\<rparr>)"

definition hand_over :: "('r, 'm, 'e, 'w) carrier \<Rightarrow> string \<Rightarrow> envelope \<Rightarrow> ('m, 'e, 'w) rpc \<Rightarrow> ('m, 'e, 'w) rpc" where
  "hand_over cr x env m =
     (case cr_deliver cr x env (rp_pending m, rp_chan m) of (p, c) \<Rightarrow> m\<lparr>rp_pending := p, rp_chan := c\<rparr>)"

inductive rpc_step :: "('r, 'm, 'e, 'w) carrier \<Rightarrow> ('m, 'e, 'w) rpc \<Rightarrow> ('m, 'e, 'w) rpc \<Rightarrow> bool" for cr :: "('r, 'm, 'e, 'w) carrier" where
  opens: "rpc_step cr m (m\<lparr>rp_calls := rp_calls m @ [(k, env, RStart)]\<rparr>)"
| refuses: "i < length (rp_calls m) \<Longrightarrow> rp_calls m ! i = (k, env, RStart) \<Longrightarrow> rpc_step cr m (set_rcall i (k, env', RDone (Inl e)) m)"
| registers: "i < length (rp_calls m) \<Longrightarrow> rp_calls m ! i = (k, env, RStart) \<Longrightarrow> \<not> rp_closed m \<Longrightarrow> cr_build cr k rnd env = Inr (env', msg) \<Longrightarrow>
    rpc_step cr m (register i k env' msg m)"
| fails: "i < length (rp_calls m) \<Longrightarrow> rp_calls m ! i = (k, env, RRegistered msg) \<Longrightarrow> rpc_step cr m (settle_call i k env (Inl e) m)"
| fails_sent: "i < length (rp_calls m) \<Longrightarrow> rp_calls m ! i = (k, env, RRegistered msg) \<Longrightarrow>
    rpc_step cr m (settle_call i k env (Inl e) (m\<lparr>rp_sent := rp_sent m @ [msg]\<rparr>))"
| sends: "i < length (rp_calls m) \<Longrightarrow> rp_calls m ! i = (Req, env, RRegistered msg) \<Longrightarrow>
    rpc_step cr m (set_rcall i (Req, env, RWaiting) (m\<lparr>rp_sent := rp_sent m @ [msg]\<rparr>))"
| publishes: "i < length (rp_calls m) \<Longrightarrow> rp_calls m ! i = (Pub, env, RRegistered msg) \<Longrightarrow>
    rpc_step cr m (settle_call i Pub env (Inr None) (m\<lparr>rp_sent := rp_sent m @ [msg]\<rparr>))"
| receives: "i < length (rp_calls m) \<Longrightarrow> rp_calls m ! i = (k, env, RWaiting) \<Longrightarrow> rp_chan m i = Some r \<Longrightarrow>
    rpc_step cr m (settle_call i k env (Inr (Some r)) (m\<lparr>rp_chan := (rp_chan m)(i := None)\<rparr>))"
| gives_up: "i < length (rp_calls m) \<Longrightarrow> rp_calls m ! i = (k, env, RWaiting) \<Longrightarrow> rpc_step cr m (settle_call i k env (Inl e) m)"
| serves: "q \<in> set (rp_sent m) \<Longrightarrow> cr_handle cr (rp_world m) q = (w, r) \<Longrightarrow> rpc_step cr m (answered_with r w m)"
| reads: "r \<in> set (rp_replies m) \<Longrightarrow> cr_correlate cr r = Some (x, env) \<Longrightarrow> rpc_step cr m (hand_over cr x env m)"
| drops: "rpc_step cr m (m\<lparr>rp_pending := []\<rparr>)"
| forgets: "rpc_step cr m (m\<lparr>rp_pending := mdel x (rp_pending m)\<rparr>)"
| closes: "rpc_step cr m (m\<lparr>rp_closed := True\<rparr>)"

inductive rpc_reach :: "('r, 'm, 'e, 'w) carrier \<Rightarrow> ('m, 'e, 'w) rpc \<Rightarrow> bool" for cr :: "('r, 'm, 'e, 'w) carrier" where
  new: "rpc_reach cr (start_rpc w)"
| step: "rpc_reach cr m \<Longrightarrow> rpc_step cr m m' \<Longrightarrow> rpc_reach cr m'"

section \<open>The promise\<close>

definition begun :: "('m, 'e, 'w) rpc \<Rightarrow> nat \<Rightarrow> call_kind \<Rightarrow> envelope \<Rightarrow> bool" where
  "begun m i k env \<longleftrightarrow> i < length (rp_calls m) \<and> (\<exists>st. rp_calls m ! i = (k, env, st) \<and> st \<noteq> RStart)"

definition in_flight :: "('m, 'e, 'w) rpc \<Rightarrow> nat \<Rightarrow> envelope \<Rightarrow> bool" where
  "in_flight m i env \<longleftrightarrow> i < length (rp_calls m) \<and>
     ((\<exists>msg. rp_calls m ! i = (Req, env, RRegistered msg)) \<or> rp_calls m ! i = (Req, env, RWaiting))"

text \<open>
  A reply answers a call when the server made it of a message that was built for that call, and the client read it under its id. Only
  the call itself can be meant when no other call used the id.
\<close>

definition answers_call :: "('r, 'm, 'e, 'w) carrier \<Rightarrow> call_kind \<Rightarrow> envelope \<Rightarrow> envelope \<Rightarrow> bool" where
  "answers_call cr k env r \<longleftrightarrow>
     (\<exists>rnd env0 q w w' rep. cr_build cr k rnd env0 = Inr (env, q) \<and> cr_handle cr w q = (w', Some rep) \<and>
        cr_correlate cr rep = Some (e_ID env, r))"

definition own_id :: "('m, 'e, 'w) rpc \<Rightarrow> nat \<Rightarrow> envelope \<Rightarrow> bool" where
  "own_id m i env \<longleftrightarrow> (\<forall>i' k' env'. begun m i' k' env' \<and> e_ID env' = e_ID env \<longrightarrow> i' = i)"

definition correlated :: "('r, 'm, 'e, 'w) carrier \<Rightarrow> ('m, 'e, 'w) rpc \<Rightarrow> bool" where
  "correlated cr m \<longleftrightarrow>
     (\<forall>i env r. i < length (rp_calls m) \<and> rp_calls m ! i = (Req, env, RDone (Inr (Some r))) \<and> own_id m i env \<longrightarrow> answers_call cr Req env r) \<and>
     (\<forall>x i. mget (rp_pending m) x = Some i \<longrightarrow> (\<exists>env. in_flight m i env \<and> e_ID env = x))"

section \<open>Invariant\<close>

definition built :: "('r, 'm, 'e, 'w) carrier \<Rightarrow> call_kind \<Rightarrow> envelope \<Rightarrow> 'm \<Rightarrow> bool" where
  "built cr k env q \<longleftrightarrow> (\<exists>rnd env0. cr_build cr k rnd env0 = Inr (env, q))"

definition of_call :: "('r, 'm, 'e, 'w) carrier \<Rightarrow> ('m, 'e, 'w) rpc \<Rightarrow> 'm \<Rightarrow> bool" where
  "of_call cr m q \<longleftrightarrow> (\<exists>i k env. begun m i k env \<and> built cr k env q)"

definition of_server :: "('r, 'm, 'e, 'w) carrier \<Rightarrow> ('m, 'e, 'w) rpc \<Rightarrow> 'm \<Rightarrow> bool" where
  "of_server cr m rep \<longleftrightarrow> (\<exists>q w w'. of_call cr m q \<and> cr_handle cr w q = (w', Some rep))"

definition replied :: "('r, 'm, 'e, 'w) carrier \<Rightarrow> ('m, 'e, 'w) rpc \<Rightarrow> envelope \<Rightarrow> envelope \<Rightarrow> bool" where
  "replied cr m env r \<longleftrightarrow> (\<exists>rep. of_server cr m rep \<and> cr_correlate cr rep = Some (e_ID env, r))"

definition call_good :: "('r, 'm, 'e, 'w) carrier \<Rightarrow> ('m, 'e, 'w) rpc \<Rightarrow> call_kind \<times> envelope \<times> ('m, 'e) rcall \<Rightarrow> bool" where
  "call_good cr m x = (case x of
       (k, env, RRegistered q) \<Rightarrow> built cr k env q
     | (k, env, RWaiting) \<Rightarrow> k = Req
     | (k, env, RDone (Inr (Some r))) \<Rightarrow> k = Req \<and> replied cr m env r
     | _ \<Rightarrow> True)"

definition medium_ok :: "('r, 'm, 'e, 'w) carrier \<Rightarrow> ('m, 'e, 'w) rpc \<Rightarrow> bool" where
  "medium_ok cr m \<longleftrightarrow> (\<forall>q \<in> set (rp_sent m). of_call cr m q) \<and> (\<forall>r \<in> set (rp_replies m). of_server cr m r)"

definition waiting_ok :: "('r, 'm, 'e, 'w) carrier \<Rightarrow> ('m, 'e, 'w) rpc \<Rightarrow> bool" where
  "waiting_ok cr m \<longleftrightarrow>
     (\<forall>x i. mget (rp_pending m) x = Some i \<longrightarrow> (\<exists>env. in_flight m i env \<and> e_ID env = x)) \<and>
     (\<forall>i r. rp_chan m i = Some r \<longrightarrow> (\<exists>env. begun m i Req env \<and> replied cr m env r))"

definition calls_ok :: "('r, 'm, 'e, 'w) carrier \<Rightarrow> ('m, 'e, 'w) rpc \<Rightarrow> bool" where
  "calls_ok cr m \<longleftrightarrow> (\<forall>x \<in> set (rp_calls m). call_good cr m x)"

definition rpc_inv :: "('r, 'm, 'e, 'w) carrier \<Rightarrow> ('m, 'e, 'w) rpc \<Rightarrow> bool" where
  "rpc_inv cr m \<longleftrightarrow> medium_ok cr m \<and> waiting_ok cr m \<and> calls_ok cr m"

lemma rpc_invD: "rpc_inv cr m \<Longrightarrow> medium_ok cr m" "rpc_inv cr m \<Longrightarrow> waiting_ok cr m" "rpc_inv cr m \<Longrightarrow> calls_ok cr m"
  by (simp_all add: rpc_inv_def)

lemma in_flight_begun: "in_flight m i env \<Longrightarrow> begun m i Req env"
  by (auto simp: in_flight_def begun_def)

lemma in_flight_env: "in_flight m i e \<Longrightarrow> rp_calls m ! i = (k, env, st) \<Longrightarrow> k = Req \<and> e = env \<and> st \<noteq> RStart"
  by (auto simp: in_flight_def)

lemma in_flight_other: "in_flight m n e \<Longrightarrow> rp_calls m' = (rp_calls m)[i := x] \<Longrightarrow> n \<noteq> i \<Longrightarrow> in_flight m' n e"
  by (simp add: in_flight_def)

text \<open>What was begun stays begun, and with it every fact about messages.\<close>

definition keeps :: "('m, 'e, 'w) rpc \<Rightarrow> ('m, 'e, 'w) rpc \<Rightarrow> bool" where
  "keeps m m' \<longleftrightarrow> (\<forall>i k env. begun m i k env \<longrightarrow> begun m' i k env)"

lemma keepsD: "keeps m m' \<Longrightarrow> begun m i k env \<Longrightarrow> begun m' i k env"
  by (simp add: keeps_def)

lemma keeps_of_call: "keeps m m' \<Longrightarrow> of_call cr m q \<Longrightarrow> of_call cr m' q"
  unfolding of_call_def keeps_def by blast

lemma keeps_of_server: "keeps m m' \<Longrightarrow> of_server cr m q \<Longrightarrow> of_server cr m' q"
  unfolding of_server_def by (meson keeps_of_call)

lemma keeps_replied: "keeps m m' \<Longrightarrow> replied cr m env r \<Longrightarrow> replied cr m' env r"
  unfolding replied_def by (meson keeps_of_server)

lemma keeps_call_good: "keeps m m' \<Longrightarrow> call_good cr m x \<Longrightarrow> call_good cr m' x"
  by (auto simp: call_good_def keeps_replied split: prod.splits rcall.splits sum.splits option.splits)

lemma keeps_same: "rp_calls m' = rp_calls m \<Longrightarrow> keeps m m'"
  by (simp add: keeps_def begun_def)

lemma keeps_set:
  assumes "rp_calls m ! i = (k, env, st)" "st = RStart \<or> env' = env" "st' \<noteq> RStart" "rp_calls m' = (rp_calls m)[i := (k, env', st')]"
  shows "keeps m m'"
proof -
  have "begun m' i' k1 e1" if "begun m i' k1 e1" for i' k1 e1
    using assms that by (cases "i' = i") (auto simp: begun_def)
  then show ?thesis by (simp add: keeps_def)
qed

lemma set_list_update_cases: "x \<in> set (xs[i := y]) \<Longrightarrow> x = y \<or> x \<in> set xs"
  using set_update_subset_insert by fastforce

text \<open>A step that leaves the calls alone.\<close>

lemma rpc_inv_same:
  fixes m m' :: "('m, 'e, 'w) rpc"
  assumes inv: "rpc_inv cr m" and calls: "rp_calls m' = rp_calls m"
    and sent: "set (rp_sent m') \<subseteq> set (rp_sent m)" and replies: "\<And>r. r \<in> set (rp_replies m') \<Longrightarrow> r \<in> set (rp_replies m) \<or> of_server cr m r"
    and pend: "\<And>x i. mget (rp_pending m') x = Some i \<Longrightarrow> mget (rp_pending m) x = Some i"
    and chan: "\<And>i r. rp_chan m' i = Some r \<Longrightarrow> rp_chan m i = Some r \<or> (\<exists>env. begun m i Req env \<and> replied cr m env r)"
  shows "rpc_inv cr m'"
  unfolding rpc_inv_def
proof (intro conjI)
  have kp: "keeps m m'" using keeps_same [OF calls] .
  have fl: "in_flight m' i env = in_flight m i env" for i env using calls by (simp add: in_flight_def)
  show "medium_ok cr m'"
    using rpc_invD(1) [OF inv] sent replies keeps_of_call [OF kp] keeps_of_server [OF kp] unfolding medium_ok_def by blast
  show "waiting_ok cr m'"
    using rpc_invD(2) [OF inv] pend chan keepsD [OF kp] keeps_replied [OF kp] unfolding waiting_ok_def fl by blast
  show "calls_ok cr m'"
    using rpc_invD(3) [OF inv] keeps_call_good [OF kp] unfolding calls_ok_def calls by blast
qed

text \<open>A step of one call.\<close>

lemma rpc_inv_set:
  fixes m m' :: "('m, 'e, 'w) rpc"
  assumes inv: "rpc_inv cr m" and i: "i < length (rp_calls m)" "rp_calls m ! i = (k, env, st)" "st = RStart \<or> env' = env" "st' \<noteq> RStart"
    and calls: "rp_calls m' = (rp_calls m)[i := (k, env', st')]" and good: "call_good cr m (k, env', st')"
    and sent: "\<And>q. q \<in> set (rp_sent m') \<Longrightarrow> q \<in> set (rp_sent m) \<or> built cr k env' q" and replies: "rp_replies m' = rp_replies m"
    and chan: "\<And>n r. rp_chan m' n = Some r \<Longrightarrow> rp_chan m n = Some r"
    and pend: "\<And>x n. mget (rp_pending m') x = Some n \<Longrightarrow>
      (n \<noteq> i \<and> mget (rp_pending m) x = Some n) \<or> (n = i \<and> in_flight m' i env' \<and> e_ID env' = x)"
  shows "rpc_inv cr m'"
  unfolding rpc_inv_def
proof (intro conjI)
  have kp: "keeps m m'" using keeps_set [OF i(2-4) calls] .
  have "begun m' i k env'" using i(1,4) calls by (simp add: begun_def)
  then have "of_call cr m' q" if "q \<in> set (rp_sent m')" for q
    using sent [OF that] rpc_invD(1) [OF inv] keeps_of_call [OF kp] unfolding medium_ok_def of_call_def by blast
  then show "medium_ok cr m'"
    using rpc_invD(1) [OF inv] keeps_of_server [OF kp] unfolding medium_ok_def replies by blast
  have "\<exists>e. in_flight m' n e \<and> e_ID e = x" if "mget (rp_pending m') x = Some n" for x n
    using pend [OF that] rpc_invD(2) [OF inv] in_flight_other [OF _ calls] unfolding waiting_ok_def by blast
  then show "waiting_ok cr m'"
    using chan rpc_invD(2) [OF inv] keepsD [OF kp] keeps_replied [OF kp] unfolding waiting_ok_def by blast
  have "call_good cr m x" if "x \<in> set (rp_calls m')" for x
    using set_list_update_cases [OF that [unfolded calls]] good rpc_invD(3) [OF inv] unfolding calls_ok_def by blast
  then show "calls_ok cr m'" using keeps_call_good [OF kp] unfolding calls_ok_def by blast
qed

lemma settle_call_fields [simp]:
  "rp_calls (settle_call i k env res m) = (rp_calls m)[i := (k, env, RDone res)]" "rp_sent (settle_call i k env res m) = rp_sent m"
  "rp_replies (settle_call i k env res m) = rp_replies m" "rp_chan (settle_call i k env res m) = rp_chan m"
  "rp_pending (settle_call i k env res m) = (if k = Req then mdel (e_ID env) (rp_pending m) else rp_pending m)"
  by (simp_all add: settle_call_def set_rcall_def)

lemma rpc_inv_settle:
  assumes inv: "rpc_inv cr m" and i: "i < length (rp_calls m)" "rp_calls m ! i = (k, env, st)" "st \<noteq> RStart"
    and good: "call_good cr m (k, env, RDone res)"
    and m1: "rp_calls m1 = rp_calls m" "rp_pending m1 = rp_pending m" "rp_replies m1 = rp_replies m"
      "\<And>q. q \<in> set (rp_sent m1) \<Longrightarrow> q \<in> set (rp_sent m) \<or> built cr k env q" "\<And>n r. rp_chan m1 n = Some r \<Longrightarrow> rp_chan m n = Some r"
  shows "rpc_inv cr (settle_call i k env res m1)"
proof (rule rpc_inv_set [OF inv i(1,2)])
  fix x n assume a: "mget (rp_pending (settle_call i k env res m1)) x = Some n"
  then have old: "mget (rp_pending m) x = Some n" "k = Req \<Longrightarrow> x \<noteq> e_ID env"
    by (auto simp: m1 split: if_splits)
  then obtain e where e: "in_flight m n e" "e_ID e = x" using rpc_invD(2) [OF inv] by (auto simp: waiting_ok_def)
  have "n \<noteq> i" using in_flight_env [OF e(1)] e(2) i(2) old(2) by metis
  with old show "n \<noteq> i \<and> mget (rp_pending m) x = Some n \<or>
    n = i \<and> in_flight (settle_call i k env res m1) i env \<and> e_ID env = x" by simp
qed (use good m1 in simp_all)

lemma rpc_inv_register:
  assumes inv: "rpc_inv cr m" and i: "i < length (rp_calls m)" "rp_calls m ! i = (k, env, RStart)" and b: "built cr k env' q"
  shows "rpc_inv cr (register i k env' q m)"
proof (rule rpc_inv_set [OF inv i, where env' = env' and st' = "RRegistered q"])
  fix x n assume a: "mget (rp_pending (register i k env' q m)) x = Some n"
  have "n \<noteq> i" if "mget (rp_pending m) x = Some n" for n
  proof -
    from that obtain e where "in_flight m n e" using rpc_invD(2) [OF inv] unfolding waiting_ok_def by blast
    then show ?thesis using in_flight_env i(2) by blast
  qed
  moreover have "mget (rp_pending m) x = Some n \<or> n = i \<and> k = Req \<and> x = e_ID env'"
    using a by (auto simp: register_def set_rcall_def split: if_splits)
  moreover have "in_flight (register i Req env' q m) i env'"
    using i(1) by (simp add: in_flight_def register_def set_rcall_def)
  ultimately show "n \<noteq> i \<and> mget (rp_pending m) x = Some n \<or> n = i \<and> in_flight (register i k env' q m) i env' \<and> e_ID env' = x"
    by blast
qed (use b in \<open>simp_all add: register_def set_rcall_def call_good_def split: if_splits\<close>)

lemma rpc_inv_refuse:
  assumes inv: "rpc_inv cr m" and i: "i < length (rp_calls m)" "rp_calls m ! i = (k, env, RStart)"
  shows "rpc_inv cr (set_rcall i (k, env', RDone (Inl e)) m)"
proof (rule rpc_inv_set [OF inv i, where env' = env' and st' = "RDone (Inl e)"])
  fix x n assume "mget (rp_pending (set_rcall i (k, env', RDone (Inl e)) m)) x = Some n"
  then have a: "mget (rp_pending m) x = Some n" by (simp add: set_rcall_def)
  then obtain e1 where "in_flight m n e1" using rpc_invD(2) [OF inv] unfolding waiting_ok_def by blast
  then have "n \<noteq> i" using in_flight_env i(2) by blast
  with a show "n \<noteq> i \<and> mget (rp_pending m) x = Some n \<or>
    n = i \<and> in_flight (set_rcall i (k, env', RDone (Inl e)) m) i env' \<and> e_ID env' = x" by simp
qed (simp_all add: set_rcall_def call_good_def)

lemma rpc_inv_wait:
  assumes inv: "rpc_inv cr m" and i: "i < length (rp_calls m)" "rp_calls m ! i = (Req, env, RRegistered q)" and b: "built cr Req env q"
  shows "rpc_inv cr (set_rcall i (Req, env, RWaiting) (m\<lparr>rp_sent := rp_sent m @ [q]\<rparr>))" (is "rpc_inv cr ?m")
proof (rule rpc_inv_set [OF inv i, where env' = env and st' = RWaiting])
  fix x n assume "mget (rp_pending ?m) x = Some n"
  then have a: "mget (rp_pending m) x = Some n" by (simp add: set_rcall_def)
  then obtain e where e: "in_flight m n e" "e_ID e = x" using rpc_invD(2) [OF inv] unfolding waiting_ok_def by blast
  then show "n \<noteq> i \<and> mget (rp_pending m) x = Some n \<or> n = i \<and> in_flight ?m i env \<and> e_ID env = x"
    using a i in_flight_env [OF e(1)] by (auto simp: in_flight_def set_rcall_def)
qed (use b in \<open>auto simp: set_rcall_def call_good_def\<close>)

lemma rpc_inv_open: 
  assumes inv: "rpc_inv cr m"
  shows "rpc_inv cr (m\<lparr>rp_calls := rp_calls m @ [(k, env, RStart)]\<rparr>)" (is "rpc_inv cr ?m")
  unfolding rpc_inv_def
proof (intro conjI)
  have kp: "keeps m ?m" by (auto simp: keeps_def begun_def nth_append)
  show "medium_ok cr ?m"
    using rpc_invD(1) [OF inv] keeps_of_call [OF kp, of cr] keeps_of_server [OF kp, of cr] by (simp add: medium_ok_def)
  have fl: "in_flight ?m i e" if "in_flight m i e" for i e using that by (auto simp: in_flight_def nth_append)
  have "\<exists>e. in_flight ?m i e \<and> e_ID e = x" if "mget (rp_pending m) x = Some i" for x i
    using rpc_invD(2) [OF inv] that fl unfolding waiting_ok_def by blast
  moreover have "\<exists>e. begun ?m i Req e \<and> replied cr ?m e r" if "rp_chan m i = Some r" for i r
    using rpc_invD(2) [OF inv] that keepsD [OF kp] keeps_replied [OF kp] unfolding waiting_ok_def by blast
  ultimately show "waiting_ok cr ?m" by (simp add: waiting_ok_def)
  have "call_good cr ?m (k, env, RStart)" by (simp add: call_good_def)
  then show "calls_ok cr ?m"
    using rpc_invD(3) [OF inv] keeps_call_good [OF kp, of cr] by (auto simp: calls_ok_def)
qed

section \<open>What a transport provides\<close>

text \<open>Handing a reply over: entries only go away, and a channel gets nothing but the reply of its id.\<close>

locale reply_delivery =
  fixes deliver :: "string \<Rightarrow> envelope \<Rightarrow> waiters \<Rightarrow> waiters"
  assumes entries_kept: "deliver x env (p, c) = (p', c') \<Longrightarrow> mget p' y = Some i \<Longrightarrow> mget p y = Some i"
    and channel_of_id: "deliver x env (p, c) = (p', c') \<Longrightarrow> c' i = Some r \<Longrightarrow> c i = Some r \<or> mget p x = Some i \<and> r = env"

interpretation keeping: reply_delivery deliver_keeping
  by unfold_locales (auto simp: deliver_keeping_def split: option.splits if_splits)

interpretation taking: reply_delivery deliver_taking
  by unfold_locales (auto simp: deliver_taking_def split: option.splits if_splits)

text \<open>A carrier whose server answers a message under the id of its envelope.\<close>

locale correlating = reply_delivery "cr_deliver cr" for cr :: "('r, 'm, 'e, 'w) carrier" +
  assumes same_id: "cr_build cr k rnd env = Inr (env', q) \<Longrightarrow> cr_handle cr w q = (w', Some rep) \<Longrightarrow> cr_correlate cr rep = Some (x, r) \<Longrightarrow>
    x = e_ID env'"
begin

lemma hand_over_inv:
  assumes inv: "rpc_inv cr m" and "r \<in> set (rp_replies m)" "cr_correlate cr r = Some (x, env)"
  shows "rpc_inv cr (hand_over cr x env m)"
proof -
  obtain p c where d: "cr_deliver cr x env (rp_pending m, rp_chan m) = (p, c)" by fastforce
  have rep: "replied cr m e env" if "e_ID e = x" for e
    using that assms(2,3) rpc_invD(1) [OF inv] unfolding replied_def medium_ok_def by blast
  show ?thesis
  proof (rule rpc_inv_same [OF inv])
    fix y i assume "mget (rp_pending (hand_over cr x env m)) y = Some i"
    then show "mget (rp_pending m) y = Some i" using entries_kept [OF d] by (simp add: hand_over_def d)
  next
    fix i r' assume "rp_chan (hand_over cr x env m) i = Some r'"
    then have "rp_chan m i = Some r' \<or> mget (rp_pending m) x = Some i \<and> r' = env"
      using channel_of_id [OF d] by (simp add: hand_over_def d)
    then show "rp_chan m i = Some r' \<or> (\<exists>e. begun m i Req e \<and> replied cr m e r')"
      using rep rpc_invD(2) [OF inv] in_flight_begun unfolding waiting_ok_def by blast
  qed (simp_all add: hand_over_def d)
qed

lemma step_inv:
  assumes inv: "rpc_inv cr m" and "rpc_step cr m m'"
  shows "rpc_inv cr m'"
  using assms(2)
proof cases
  case (opens k env)
  then show ?thesis using rpc_inv_open [OF inv] by simp
next
  case (refuses i k env env' e)
  then show ?thesis using rpc_inv_refuse [OF inv] by simp
next
  case (registers i k env rnd env' msg)
  then show ?thesis using rpc_inv_register [OF inv] unfolding built_def by blast
next
  case (fails i k env msg e)
  then show ?thesis by (auto simp: call_good_def intro!: rpc_inv_settle [OF inv])
next
  case (fails_sent i k env msg e)
  have "call_good cr m (k, env, RRegistered msg)"
    using rpc_invD(3) [OF inv] fails_sent(2,3) nth_mem unfolding calls_ok_def by metis
  then show ?thesis unfolding fails_sent(1) using fails_sent(2,3)
    by (intro rpc_inv_settle [OF inv]) (auto simp: call_good_def)
next
  case (sends i env msg)
  have "call_good cr m (Req, env, RRegistered msg)"
    using rpc_invD(3) [OF inv] sends(2,3) nth_mem unfolding calls_ok_def by metis
  then show ?thesis using rpc_inv_wait [OF inv] sends by (simp add: call_good_def)
next
  case (publishes i env msg)
  have "call_good cr m (Pub, env, RRegistered msg)"
    using rpc_invD(3) [OF inv] publishes(2,3) nth_mem unfolding calls_ok_def by metis
  then show ?thesis unfolding publishes(1) using publishes(2,3)
    by (intro rpc_inv_settle [OF inv]) (auto simp: call_good_def)
next
  case (receives i k env r)
  have "call_good cr m (k, env, RWaiting)"
    using rpc_invD(3) [OF inv] receives(2,3) nth_mem unfolding calls_ok_def by metis
  moreover have "replied cr m env r"
    using rpc_invD(2) [OF inv] receives(3,4) unfolding waiting_ok_def begun_def by fastforce
  ultimately show ?thesis unfolding receives(1) using receives(2,3)
    by (intro rpc_inv_settle [OF inv]) (auto simp: call_good_def split: if_splits)
next
  case (gives_up i k env e)
  then show ?thesis by (auto simp: call_good_def intro!: rpc_inv_settle [OF inv])
next
  case (serves q w r)
  have "of_server cr m rep" if "r = Some rep" for rep
    using that serves(2,3) rpc_invD(1) [OF inv] unfolding of_server_def medium_ok_def by blast
  then show ?thesis unfolding serves(1)
    by (intro rpc_inv_same [OF inv]) (auto simp: answered_with_def split: option.splits)
next
  case (reads r x env)
  then show ?thesis using hand_over_inv [OF inv] by simp
next
  case drops
  show ?thesis unfolding drops by (rule rpc_inv_same [OF inv]) simp_all
next
  case (forgets x)
  show ?thesis unfolding forgets by (rule rpc_inv_same [OF inv]) (auto split: if_splits)
next
  case closes
  show ?thesis unfolding closes by (rule rpc_inv_same [OF inv]) simp_all
qed

lemma reach_inv: "rpc_reach cr m \<Longrightarrow> rpc_inv cr m"
proof (induction rule: rpc_reach.induct)
  case (new w)
  then show ?case by (simp add: rpc_inv_def medium_ok_def waiting_ok_def calls_ok_def start_rpc_def)
next
  case (step m m')
  then show ?case using step_inv by blast
qed

text \<open>The promise: the reply of a request whose id is its own answers that request, and entries belong to requests in flight.\<close>

lemma reach_correlated:
  assumes "rpc_reach cr m"
  shows "correlated cr m"
  unfolding correlated_def
proof (intro conjI allI impI; (elim conjE)?)
  note inv = reach_inv [OF assms]
  fix i env r
  assume i: "i < length (rp_calls m)" "rp_calls m ! i = (Req, env, RDone (Inr (Some r)))" and own: "own_id m i env"
  have "call_good cr m (Req, env, RDone (Inr (Some r)))"
    using rpc_invD(3) [OF inv] i nth_mem unfolding calls_ok_def by metis
  then obtain rep q w w' i' k' env' rnd env0 where *: "cr_correlate cr rep = Some (e_ID env, r)" "cr_handle cr w q = (w', Some rep)"
    "begun m i' k' env'" "cr_build cr k' rnd env0 = Inr (env', q)"
    unfolding call_good_def replied_def of_server_def of_call_def built_def by auto
  have "e_ID env = e_ID env'" using same_id [OF *(4,2,1)] .
  then have "i' = i" using own *(3) unfolding own_id_def by metis
  then have "k' = Req" "env' = env" using *(3) i by (auto simp: begun_def)
  then show "answers_call cr Req env r" using * unfolding answers_call_def by blast
next
  fix x i assume "mget (rp_pending m) x = Some i"
  then show "\<exists>env. in_flight m i env \<and> e_ID env = x"
    using rpc_invD(2) [OF reach_inv [OF assms]] unfolding waiting_ok_def by blast
qed

end

section \<open>A call that is answered\<close>

text \<open>The protocol gets an answer through when nothing is lost: a request that is sent, handled, read and received.\<close>

lemma one_call_reach:
  assumes build: "cr_build cr Req rnd env0 = Inr (env, q)" and handle: "cr_handle cr w q = (w', Some rep)"
    and correlate: "cr_correlate cr rep = Some (e_ID env, r)" and deliver: "cr_deliver cr \<in> {deliver_keeping, deliver_taking}"
  shows "\<exists>m. rpc_reach cr m \<and> rp_calls m = [(Req, env, RDone (Inr (Some r)))] \<and> rp_pending m = []"
proof -
  let ?st = "\<lambda>pend ch st sent replies w. \<lparr>rp_closed = False, rp_pending = pend, rp_chan = (\<lambda>i. if i = 0 then ch else None),
    rp_calls = (case st of None \<Rightarrow> [] | Some x \<Rightarrow> [x]), rp_sent = sent, rp_replies = replies, rp_world = w\<rparr>"
  note S = rpc_reach.step [of cr]
  have s0: "rpc_reach cr (?st [] None None [] [] w)"
    using rpc_reach.new [of cr w] by (simp add: start_rpc_def)
  have s1: "rpc_reach cr (?st [] None (Some (Req, env0, RStart)) [] [] w)"
    using S [OF s0 rpc_step.opens [of _ _ Req env0]] by simp
  have s2: "rpc_reach cr (?st [(e_ID env, 0)] None (Some (Req, env, RRegistered q)) [] [] w)"
    using S [OF s1 rpc_step.registers [of 0 _ Req env0 cr rnd env q]] build by (simp add: register_def set_rcall_def mput_def)
  have s3: "rpc_reach cr (?st [(e_ID env, 0)] None (Some (Req, env, RWaiting)) [q] [] w)"
    using S [OF s2 rpc_step.sends [of 0 _ env q]] by (simp add: set_rcall_def)
  have s4: "rpc_reach cr (?st [(e_ID env, 0)] None (Some (Req, env, RWaiting)) [q] [rep] w')"
    using S [OF s3 rpc_step.serves [of q _ cr w' "Some rep"]] handle by (simp add: answered_with_def)
  have s5: "\<exists>pend. rpc_reach cr (?st pend (Some r) (Some (Req, env, RWaiting)) [q] [rep] w') \<and> mdel (e_ID env) pend = []"
    using S [OF s4 rpc_step.reads [of rep _ cr "e_ID env" r]] correlate deliver
    by (auto simp: hand_over_def deliver_keeping_def deliver_taking_def mget_def mdel_def fun_upd_def cong: if_cong)
  then obtain pend where "rpc_reach cr (?st pend (Some r) (Some (Req, env, RWaiting)) [q] [rep] w')" "mdel (e_ID env) pend = []" by blast
  from S [OF this(1) rpc_step.receives [of 0 _ Req env r]] this(2) show ?thesis
    by (auto simp: settle_call_def set_rcall_def)
qed

text \<open>A codec that writes the id alone.\<close>

definition id_json :: "unit json" where
  "id_json = \<lparr>j_Valid = (\<lambda>_. True), j_bytes = Inr, j_string = Inr, j_value = (\<lambda>_. Inr ''null''), j_encode = (\<lambda>e. Inr (e_ID e)),
     j_decode = (\<lambda>raw. Inr (ping\<lparr>e_ID := raw, e_ReplyTo := ''conn''\<rparr>)), j_frame = (\<lambda>_. Inr None)\<rparr>"

definition asked :: envelope where
  "asked = ping\<lparr>e_ReplyTo := ''conn''\<rparr>"

lemma id_json_keeps_id: "json_keeps_id id_json"
  by (auto simp: id_json_def json_keeps_id_def)

lemma id_json_codec: "Encode id_json e = Inr (e_ID e)" "DecodeEnvelope id_json ''1'' = Inr asked"
proof -
  show "Encode id_json e = Inr (e_ID e)" by (simp add: Encode_def id_json_def)
  have "Validate ''ping'' = None" by code_simp
  then show "DecodeEnvelope id_json ''1'' = Inr asked"
    by (simp add: DecodeEnvelope_def maxEnvelopeBytes_def push_bit_eq_mult id_json_def asked_def ping_def)
qed

lemma asked_simps: "e_ID ping = ''1''" "e_ID asked = ''1''" "e_ReplyTo asked = ''conn''" "e_Pattern asked = ''ping''" "e_Pattern ping = ''ping''"
  by (simp_all add: ping_def asked_def)

end
