(* ===== verification/Tcp_Frame.thy ===== *)
theory Tcp_Frame
  imports Prelude "HOL-Library.Word"
begin

text \<open>
  Framing of the TCP transport (\<^verbatim>\<open>transport/tcpmq/frame.go\<close>): four bytes of length, big-endian,
  then the payload. The stream is the list of bytes still to be read; \<^verbatim>\<open>io.ReadFull\<close> fails with
  \<^verbatim>\<open>EOF\<close> on an empty stream and with \<^verbatim>\<open>ErrUnexpectedEOF\<close> on a short one. Lengths are the
  machine integers of the source: \<open>int\<close> is 64 bits wide, the prefix 32.
\<close>

section \<open>The code\<close>

type_synonym byte = "8 word"

datatype frame_error = ErrZeroFrame | ErrFrameTooLarge nat nat | EOF | ErrUnexpectedEOF

definition DefaultMaxFrameBytes :: "64 word" where
  "DefaultMaxFrameBytes = push_bit 23 1"

definition frameHeaderBytes :: nat where
  "frameHeaderBytes = 4"

text \<open>\<^verbatim>\<open>binary.BigEndian.PutUint32\<close> and \<^verbatim>\<open>Uint32\<close>.\<close>

definition PutUint32 :: "32 word \<Rightarrow> byte list" where
  "PutUint32 n = [ucast (drop_bit 24 n), ucast (drop_bit 16 n), ucast (drop_bit 8 n), ucast n]"

definition Uint32 :: "byte list \<Rightarrow> 32 word" where
  "Uint32 b = (case b of [b0, b1, b2, b3] \<Rightarrow>
      or (push_bit 24 (ucast b0)) (or (push_bit 16 (ucast b1)) (or (push_bit 8 (ucast b2)) (ucast b3)))
    | _ \<Rightarrow> 0)"

text \<open>The effective limit: a limit that is not positive as a signed number is replaced.\<close>

definition max_frame :: "64 word \<Rightarrow> 64 word" where
  "max_frame m = (if sint m \<le> 0 then DefaultMaxFrameBytes else m)"

text \<open>
  \<^verbatim>\<open>writeFrame\<close>: the bytes put on the wire. A slice has fewer than \<open>2\<^sup>6\<^sup>3\<close> elements, so its length
  is an \<^verbatim>\<open>int\<close>; the prefix is that length converted to 32 bits.
\<close>

definition writeFrame :: "byte list \<Rightarrow> 64 word \<Rightarrow> (frame_error, byte list) result" where
  "writeFrame payload m =
     (if length payload = 0 then Inl ErrZeroFrame
      else if int (length payload) > sint (max_frame m)
        then Inl (ErrFrameTooLarge (length payload) (unat (max_frame m)))
      else Inr (PutUint32 (word_of_nat (length payload)) @ payload))"

definition ReadFull :: "nat \<Rightarrow> byte list \<Rightarrow> (frame_error, byte list) result \<times> byte list" where
  "ReadFull n r =
     (if n \<le> length r then (Inr (take n r), drop n r)
      else if r = [] then (Inl EOF, []) else (Inl ErrUnexpectedEOF, []))"

definition readFrameSize :: "64 word \<Rightarrow> byte list \<Rightarrow> (frame_error, nat) result \<times> byte list" where
  "readFrameSize m r =
     (case ReadFull frameHeaderBytes r of
        (Inl e, r') \<Rightarrow> (Inl e, r')
      | (Inr header, r') \<Rightarrow>
          let n = Uint32 header
          in if n = 0 then (Inl ErrZeroFrame, r')
             else if (ucast n :: 64 word) > max_frame m
               then (Inl (ErrFrameTooLarge (unat n) (unat (max_frame m))), r')
             else (Inr (unat n), r'))"

definition readFrameBody :: "nat \<Rightarrow> byte list \<Rightarrow> (frame_error, byte list) result \<times> byte list" where
  "readFrameBody sz r =
     (case ReadFull sz r of
        (Inl EOF, r') \<Rightarrow> (Inl ErrUnexpectedEOF, r')
      | (res, r') \<Rightarrow> (res, r'))"

definition readFrame :: "64 word \<Rightarrow> byte list \<Rightarrow> (frame_error, byte list) result \<times> byte list" where
  "readFrame m r =
     (case readFrameSize m r of
        (Inl e, r') \<Rightarrow> (Inl e, r')
      | (Inr sz, r') \<Rightarrow> readFrameBody sz r')"

text \<open>The loop of a connection's reader: frames until the first error.\<close>

fun read_frames :: "nat \<Rightarrow> 64 word \<Rightarrow> byte list \<Rightarrow> byte list list \<times> frame_error option" where
  "read_frames 0 m r = ([], None)"
| "read_frames (Suc fuel) m r =
     (case readFrame m r of
        (Inl e, r') \<Rightarrow> ([], Some e)
      | (Inr payload, r') \<Rightarrow> (case read_frames fuel m r' of (ps, e) \<Rightarrow> (payload # ps, e)))"

section \<open>The prefix\<close>

lemma length_PutUint32 [simp]: "length (PutUint32 n) = 4"
  by (simp add: PutUint32_def)

lemma Uint32_PutUint32: "Uint32 (PutUint32 n) = n"
proof (rule bit_eqI)
  fix i
  assume "possible_bit TYPE(32 word) i"
  then have i: "i < 32" by simp
  show "bit (Uint32 (PutUint32 n)) i \<longleftrightarrow> bit n i"
    using i by (cases "i < 8"; cases "i < 16"; cases "i < 24")
      (auto simp: Uint32_def PutUint32_def bit_or_iff bit_push_bit_iff bit_ucast_iff bit_drop_bit_eq not_le not_less)
qed

section \<open>One frame\<close>

lemma unat_max_frame: "int (unat (max_frame m)) = sint (max_frame m)" "0 < sint (max_frame m)"
proof -
  have pos: "0 < sint (max_frame m)"
    by (auto simp: max_frame_def DefaultMaxFrameBytes_def not_le)
  then show "0 < sint (max_frame m)" .
  have "sint (max_frame m) = uint (max_frame m)"
  proof -
    have lt: "uint (max_frame m) < 2 ^ 64" using unsigned_less [where 'a = int, of "max_frame m"] by simp
    then have "take_bit 64 (uint (max_frame m)) = uint (max_frame m)" by (intro take_bit_int_eq_self) auto
    then have "sint (max_frame m) = uint (max_frame m) - 2 ^ 64 * of_bool (bit (uint (max_frame m)) 63)"
      by (simp add: sint_uint signed_take_bit_eq_take_bit_minus)
    with lt show ?thesis using pos by (cases "bit (uint (max_frame m)) 63") auto
  qed
  then show "int (unat (max_frame m)) = sint (max_frame m)" by simp
qed

lemma readFrame_PutUint32:
  assumes "n = word_of_nat k" and "0 < k" and "k < 2 ^ 32" and "int k \<le> sint (max_frame m)"
  shows "readFrameSize m (PutUint32 n @ r) = (Inr k, r)"
proof -
  have k: "unat n = k" using assms(1,3) by (simp add: unat_of_nat take_bit_nat_eq_self)
  then have "n \<noteq> 0" using assms(2) by auto
  moreover have "\<not> (ucast n :: 64 word) > max_frame m"
  proof -
    have "unat (ucast n :: 64 word) = k" using k assms(3) by (simp add: unsigned_ucast_eq take_bit_nat_eq_self)
    moreover have "k \<le> unat (max_frame m)" using assms(4) unat_max_frame(1) [of m] by linarith
    ultimately show ?thesis by (simp add: word_less_nat_alt not_less)
  qed
  ultimately show ?thesis
    using k by (simp add: readFrameSize_def ReadFull_def frameHeaderBytes_def Uint32_PutUint32 Let_def)
qed

lemma writeFrame_Inr:
  "writeFrame p m = Inr w \<longleftrightarrow> p \<noteq> [] \<and> int (length p) \<le> sint (max_frame m) \<and> w = PutUint32 (word_of_nat (length p)) @ p"
  by (auto simp: writeFrame_def)

text \<open>A written frame is read back whole, and the reader stands at the next one.\<close>

lemma readFrame_written:
  assumes "writeFrame p m = Inr w" and "sint (max_frame m) < 2 ^ 32" and "sint (max_frame m) \<le> sint (max_frame m')"
  shows "readFrame m' (w @ r) = (Inr p, r)"
proof -
  from assms(1) have w: "p \<noteq> []" "int (length p) \<le> sint (max_frame m)" "w = PutUint32 (word_of_nat (length p)) @ p"
    by (simp_all add: writeFrame_Inr)
  then have "length p < 2 ^ 32" "0 < length p" "int (length p) \<le> sint (max_frame m')"
    using assms(2,3) by (auto simp: zless_nat_eq_int_zless [symmetric])
  from readFrame_PutUint32 [OF refl this(2,1,3), of "p @ r"] w(1,3)
  show ?thesis by (simp add: readFrame_def readFrameBody_def ReadFull_def)
qed

text \<open>A frame of which only a part arrived is reported as truncated.\<close>

lemma readFrame_truncated:
  assumes "writeFrame p m = Inr w" and "sint (max_frame m) < 2 ^ 32" and "sint (max_frame m) \<le> sint (max_frame m')"
    and "0 < k" and "k < length w"
  shows "fst (readFrame m' (take k w)) = Inl ErrUnexpectedEOF"
proof -
  from assms(1) have w: "p \<noteq> []" "int (length p) \<le> sint (max_frame m)" "w = PutUint32 (word_of_nat (length p)) @ p"
    by (simp_all add: writeFrame_Inr)
  show ?thesis
  proof (cases "k < 4")
    case True
    with assms(4,5) w(1) show ?thesis
      by (auto simp: readFrame_def readFrameSize_def ReadFull_def frameHeaderBytes_def)
  next
    case False
    have len: "length p < 2 ^ 32" "0 < length p" "int (length p) \<le> sint (max_frame m')"
      using w(1,2) assms(2,3) by (auto simp: zless_nat_eq_int_zless [symmetric])
    have "take k w = PutUint32 (word_of_nat (length p)) @ take (k - 4) p" using False w(3) by simp
    with readFrame_PutUint32 [OF refl len(2,1,3), of "take (k - 4) p"] False assms(5) w(3)
    show ?thesis by (auto simp: readFrame_def readFrameBody_def ReadFull_def split: frame_error.splits)
  qed
qed

lemma readFrame_empty: "readFrame m [] = (Inl EOF, [])"
  by (simp add: readFrame_def readFrameSize_def ReadFull_def frameHeaderBytes_def)

lemma readFrameSize_bound:
  assumes "readFrameSize m r = (Inr n, r')"
  shows "0 < n \<and> n \<le> unat (max_frame m) \<and> n < 2 ^ 32"
proof -
  obtain q r1 where q: "ReadFull frameHeaderBytes r = (q, r1)" by fastforce
  with assms obtain header where "q = Inr header" by (cases q) (auto simp: readFrameSize_def)
  with assms q obtain b :: "32 word" where b: "n = unat b" "b \<noteq> 0" "\<not> (ucast b :: 64 word) > max_frame m"
    by (cases "Uint32 header = 0"; cases "(ucast (Uint32 header) :: 64 word) > max_frame m")
      (auto simp: readFrameSize_def Let_def)
  have lt: "unat b < 2 ^ 32" using unsigned_less [where 'a = nat, of b] by simp
  then have "unat (ucast b :: 64 word) = unat b" by (simp add: unsigned_ucast_eq take_bit_nat_eq_self)
  with b lt show ?thesis by (auto simp: word_less_nat_alt not_less unat_gt_0)
qed

section \<open>Properties\<close>

text \<open>
  C34. Frames survive the stream: whatever sequence of payloads the writer accepts, with a limit
  below 4 GiB, a reader with at least that limit gets back exactly these payloads, in order,
  and then a clean end; if the connection breaks inside a further frame, it gets them and then
  a truncation error, never a wrong payload. A size is accepted, and memory allocated, only
  between 1 and the limit.
\<close>

theorem frame_stream_roundtrip:
  assumes "list_all2 (\<lambda>p w. writeFrame p m = Inr w) ps ws"
    and "sint (max_frame m) < 2 ^ 32" and "sint (max_frame m) \<le> sint (max_frame m')"
  shows "read_frames (Suc (length ps)) m' (concat ws) = (ps, Some EOF) \<and>
    (\<forall>p w k. writeFrame p m = Inr w \<and> 0 < k \<and> k < length w \<longrightarrow>
       read_frames (Suc (length ps)) m' (concat ws @ take k w) = (ps, Some ErrUnexpectedEOF)) \<and>
    (\<forall>r n r'. readFrameSize m' r = (Inr n, r') \<longrightarrow> 0 < n \<and> n \<le> unat (max_frame m'))"
proof -
  have frames: "read_frames (Suc (length ps)) m' (concat ws @ r) = (ps, Some e)"
    if "fst (readFrame m' r) = Inl e" for r e
    using assms(1)
  proof (induction ps ws rule: list_all2_induct)
    case Nil
    then show ?case using that by (cases "readFrame m' r") simp
  next
    case (Cons p ps w ws)
    then show ?case using readFrame_written [OF _ assms(2,3), of p w "concat ws @ r"] by simp
  qed
  have "read_frames (Suc (length ps)) m' (concat ws) = (ps, Some EOF)"
    using frames [of "[]" EOF] by (simp add: readFrame_empty)
  moreover have "read_frames (Suc (length ps)) m' (concat ws @ take k w) = (ps, Some ErrUnexpectedEOF)"
    if "writeFrame p m = Inr w" "0 < k" "k < length w" for p w k
    by (rule frames) (rule readFrame_truncated [OF that(1) assms(2,3) that(2,3)])
  ultimately show ?thesis using readFrameSize_bound by blast
qed

theorem frame_stream_roundtrip_witness:
  "read_frames 3 0 ([0, 0, 0, 2, 65, 66] @ [0, 0, 0, 1, 67]) = ([[65, 66], [67]], Some EOF)"
proof -
  have w: "list_all2 (\<lambda>p w. writeFrame p 0 = Inr w) [[65, 66], [67]] [[0, 0, 0, 2, 65, 66], [0, 0, 0, 1, 67]]"
    by code_simp
  have m: "sint (max_frame 0) < 2 ^ 32" by (simp add: max_frame_def DefaultMaxFrameBytes_def)
  from frame_stream_roundtrip [OF w m order.refl] show ?thesis by (simp add: eval_nat_numeral)
qed

text \<open>
  With a limit of 4 GiB or more the prefix wraps: a payload of exactly \<open>2\<^sup>3\<^sup>2\<close> bytes is accepted and
  announced as empty, and the reader refuses it.
\<close>

lemma frame_length_wraps:
  assumes "length p = 2 ^ 32" and "2 ^ 32 \<le> sint (max_frame m)"
  shows "writeFrame p m = Inr ([0, 0, 0, 0] @ p)" "fst (readFrame m' ([0, 0, 0, 0] @ p)) = Inl ErrZeroFrame"
proof -
  have "(word_of_nat (2 ^ 32) :: 32 word) = 0" by (simp add: word_of_nat_eq_0_iff)
  then have "PutUint32 (word_of_nat (length p)) = [0, 0, 0, 0]" using assms(1) by (simp add: PutUint32_def)
  moreover have "p \<noteq> []" using assms(1) by auto
  ultimately show "writeFrame p m = Inr ([0, 0, 0, 0] @ p)" using assms by (simp add: writeFrame_Inr)
  show "fst (readFrame m' ([0, 0, 0, 0] @ p)) = Inl ErrZeroFrame"
    by (simp add: readFrame_def readFrameSize_def ReadFull_def frameHeaderBytes_def Uint32_def)
qed

end
