(* ===== verification/Tcp_Transport.thy ===== *)
theory Tcp_Transport
  imports Correlation Tcp_Frame
begin

text \<open>
  The TCP transport (\<^verbatim>\<open>transport/tcpmq\<close>: \<^verbatim>\<open>tcpmq.go\<close>, \<^verbatim>\<open>client.go\<close>, \<^verbatim>\<open>server.go\<close>): options, dialling, the shared connection of
  a client with its map of pending requests, and the server that reads frames, dispatches and replies on the same
  connection. Callers, the reader of replies, handlers, the accept loop and \<^verbatim>\<open>Close\<close> interleave, so the transport is a step relation.
  A connection carries whole frames in both directions; that a stream of frames is read back as it was written is
  shown in the theory of the framing.
\<close>

section \<open>Options\<close>

record 'tls tcp_options =
  to_Addr :: string
  to_DialAddr :: string
  to_TLSConfig :: "'tls option"
  to_ClientTLSConfig :: "'tls option"
  to_MaxFrameBytes :: int
  to_MaxConns :: int
  to_Concurrency :: int
  to_ReadTimeout :: int
  to_WriteTimeout :: int
  to_IdleTimeout :: int
  to_DialTimeout :: int
  to_MaxDialAttempts :: int
  to_ReplyTimeout :: int
  to_ShutdownTimeout :: int

datatype tcp_error =
    AddrRequired
  | MaxFrameNegative
  | MaxFrameExceeds int
  | LimitsNegative
  | NilEnvelope
  | TransportClosed
  | EncodeFailed msg_error
  | NoDialAddress
  | DialFailed string
  | DialExhausted int "string option"
  | SendFailed frame_error
  | ConnLost
  | RequestTimeout
  | RequestCanceled
  | NilDispatcher
  | ListenAddrRequired
  | ListenError string
  | AlreadyListening
  | AcceptError string

definition second :: int where "second = 1000000000"
definition max_frame_default :: int where "max_frame_default = 8388608"

text \<open>\<open>DefaultRequestTimeout\<close> of the microservice package is a parameter of \<^verbatim>\<open>New\<close> here.\<close>

definition tcp_defaults :: "int \<Rightarrow> int \<Rightarrow> 'tls tcp_options \<Rightarrow> 'tls tcp_options" where
  "tcp_defaults defaultRequestTimeout frame o1 =
     o1\<lparr>to_MaxFrameBytes := frame,
        to_MaxConns := (if to_MaxConns o1 = 0 then 1024 else to_MaxConns o1),
        to_Concurrency := (if to_Concurrency o1 = 0 then 64 else to_Concurrency o1),
        to_ReadTimeout := (if to_ReadTimeout o1 = 0 then 30 * second else to_ReadTimeout o1),
        to_WriteTimeout := (if to_WriteTimeout o1 = 0 then 10 * second else to_WriteTimeout o1),
        to_IdleTimeout := (if to_IdleTimeout o1 = 0 then 300 * second else to_IdleTimeout o1),
        to_DialTimeout := (if to_DialTimeout o1 = 0 then 5 * second else to_DialTimeout o1),
        to_MaxDialAttempts := (if to_MaxDialAttempts o1 = 0 then 3 else to_MaxDialAttempts o1),
        to_ReplyTimeout := (if to_ReplyTimeout o1 \<le> 0 then defaultRequestTimeout else to_ReplyTimeout o1),
        to_ShutdownTimeout := (if to_ShutdownTimeout o1 \<le> 0 then 5 * second else to_ShutdownTimeout o1),
        to_ClientTLSConfig := (if to_ClientTLSConfig o1 = None then to_TLSConfig o1 else to_ClientTLSConfig o1)\<rparr>"

definition New_tcp :: "int \<Rightarrow> 'tls tcp_options \<Rightarrow> (tcp_error, 'tls tcp_options) result" where
  "New_tcp defaultRequestTimeout o1 =
     (if to_Addr o1 = [] \<and> to_DialAddr o1 = [] then Inl AddrRequired
      else if to_MaxFrameBytes o1 < 0 then Inl MaxFrameNegative
      else
        (let frame = (if to_MaxFrameBytes o1 = 0 then max_frame_default else to_MaxFrameBytes o1)
         in if frame > max_frame_default then Inl (MaxFrameExceeds frame)
            else if to_MaxConns o1 < 0 \<or> to_Concurrency o1 < 0 then Inl LimitsNegative
            else Inr (tcp_defaults defaultRequestTimeout frame o1)))"

lemma New_tcp_limits:
  assumes "New_tcp drt o1 = Inr o2"
  shows "0 < to_MaxFrameBytes o2 \<and> to_MaxFrameBytes o2 \<le> max_frame_default \<and> 0 < to_MaxConns o2 \<and> 0 < to_Concurrency o2"
proof -
  have d: "to_MaxFrameBytes (tcp_defaults drt f o1) = f"
    "to_MaxConns (tcp_defaults drt f o1) = (if to_MaxConns o1 = 0 then 1024 else to_MaxConns o1)"
    "to_Concurrency (tcp_defaults drt f o1) = (if to_Concurrency o1 = 0 then 64 else to_Concurrency o1)" for f
    by (simp_all add: tcp_defaults_def)
  from assms obtain f where "o2 = tcp_defaults drt f o1" "0 < f" "f \<le> max_frame_default" "0 \<le> to_MaxConns o1" "0 \<le> to_Concurrency o1"
    unfolding New_tcp_def by (auto simp: Let_def max_frame_default_def split: if_splits)
  then show ?thesis using d by simp
qed

section \<open>Dialling\<close>

text \<open>
  What the world answers before an attempt (closed, the context ended), to the attempt, and during the wait after it. The loop gives the
  connection or the error, and the waits it made.
\<close>

datatype before_dial = GoOn | ClosedBefore | EndedBefore ctx_end

datatype during_wait = WaitOver | EndedWaiting | ClosedWaiting

definition mapTimeout :: "ctx_end \<Rightarrow> tcp_error" where
  "mapTimeout e = (case e of DeadlineExceeded \<Rightarrow> RequestTimeout | Canceled \<Rightarrow> RequestCanceled)"

definition maxBackoff :: int where "maxBackoff = second"

function dial_loop :: "(int \<Rightarrow> before_dial) \<Rightarrow> (int \<Rightarrow> (string, 'c) result) \<Rightarrow> (int \<Rightarrow> during_wait) \<Rightarrow> int \<Rightarrow> int \<Rightarrow> int \<Rightarrow> string option \<Rightarrow>
    (tcp_error, 'c) result \<times> int list" where
  "dial_loop before dialOnce wait maxAttempts attempt backoff lastErr =
     (if attempt > maxAttempts then (Inl (DialExhausted maxAttempts lastErr), [])
      else (case before attempt of
          ClosedBefore \<Rightarrow> (Inl TransportClosed, [])
        | EndedBefore e \<Rightarrow> (Inl (case lastErr of Some x \<Rightarrow> DialFailed x | None \<Rightarrow> mapTimeout e), [])
        | GoOn \<Rightarrow>
            (case dialOnce attempt of
               Inr c \<Rightarrow> (Inr c, [])
             | Inl err \<Rightarrow>
                 if attempt = maxAttempts then (Inl (DialExhausted maxAttempts (Some err)), [])
                 else (case wait attempt of
                     EndedWaiting \<Rightarrow> (Inl (DialFailed err), [backoff])
                   | ClosedWaiting \<Rightarrow> (Inl TransportClosed, [backoff])
                   | WaitOver \<Rightarrow>
                       (let b = (if 2 * backoff > maxBackoff then maxBackoff else 2 * backoff)
                        in case dial_loop before dialOnce wait maxAttempts (attempt + 1) b (Some err) of
                             (r, ws) \<Rightarrow> (r, backoff # ws))))))"
  by pat_completeness auto
termination
  by (relation "measure (\<lambda>(before, dialOnce, wait, maxAttempts, attempt, backoff, lastErr). nat (maxAttempts + 1 - attempt))") auto

declare dial_loop.simps [simp del]

text \<open>\<^verbatim>\<open>dial\<close> without a live connection. \<^verbatim>\<open>dialOnce\<close> is the network's.\<close>

definition dial :: "'tls tcp_options \<Rightarrow> (int \<Rightarrow> before_dial) \<Rightarrow> (string \<Rightarrow> int \<Rightarrow> (string, 'c) result) \<Rightarrow> (int \<Rightarrow> during_wait) \<Rightarrow>
    (tcp_error, 'c) result \<times> int list" where
  "dial o1 before dialOnce wait =
     (let addr = (if to_DialAddr o1 = [] then to_Addr o1 else to_DialAddr o1)
      in if addr = [] then (Inl NoDialAddress, [])
         else dial_loop before (dialOnce addr) wait (to_MaxDialAttempts o1) 1 50000000 None)"

lemma dial_loop_waits:
  "0 \<le> backoff \<Longrightarrow> backoff \<le> maxBackoff \<Longrightarrow>
   list_all (\<lambda>w. 0 \<le> w \<and> w \<le> maxBackoff) (snd (dial_loop before dialOnce wait maxAttempts attempt backoff lastErr)) \<and>
   length (snd (dial_loop before dialOnce wait maxAttempts attempt backoff lastErr)) \<le> nat (maxAttempts - attempt)"
proof (induction before dialOnce wait maxAttempts attempt backoff lastErr rule: dial_loop.induct)
  case (1 before dialOnce wait maxAttempts attempt backoff lastErr)
  let ?b = "if 2 * backoff > maxBackoff then maxBackoff else 2 * backoff"
  have b: "0 \<le> ?b" "?b \<le> maxBackoff" using 1 by (auto simp: maxBackoff_def second_def)
  show ?case
  proof (cases "attempt > maxAttempts \<or> before attempt \<noteq> GoOn \<or> (\<exists>c. dialOnce attempt = Inr c) \<or> attempt = maxAttempts")
    case True
    then show ?thesis
      by (auto simp: dial_loop.simps [of before dialOnce wait maxAttempts attempt] split: before_dial.splits sum.splits)
  next
    case False
    then obtain err where f: "\<not> attempt > maxAttempts" "before attempt = GoOn" "dialOnce attempt = Inl err" "attempt \<noteq> maxAttempts"
      by (cases "dialOnce attempt") auto
    show ?thesis
    proof (cases "wait attempt")
      case WaitOver
      let ?rest = "dial_loop before dialOnce wait maxAttempts (attempt + 1) ?b (Some err)"
      have "dial_loop before dialOnce wait maxAttempts attempt backoff lastErr = (fst ?rest, backoff # snd ?rest)"
        using f WaitOver by (simp add: dial_loop.simps [of before dialOnce wait maxAttempts attempt] Let_def case_prod_beta)
      moreover have "list_all (\<lambda>w. 0 \<le> w \<and> w \<le> maxBackoff) (snd ?rest) \<and> length (snd ?rest) \<le> nat (maxAttempts - (attempt + 1))"
        using 1(1) [OF f(1,2,3,4) WaitOver refl b] .
      ultimately show ?thesis using "1.prems" f by auto
    qed (use "1.prems" f in \<open>simp_all add: dial_loop.simps [of before dialOnce wait maxAttempts attempt]\<close>)
  qed
qed

text \<open>A negative number of attempts is accepted by \<^verbatim>\<open>New\<close> and means that nothing is ever dialled.\<close>

lemma negative_attempts_never_dial:
  "to_Addr o1 \<noteq> [] \<Longrightarrow> to_MaxDialAttempts o1 < 0 \<Longrightarrow>
   dial o1 before dialOnce wait = (Inl (DialExhausted (to_MaxDialAttempts o1) None), [])"
  by (auto simp: dial_def Let_def dial_loop.simps)

section \<open>Frames and replies\<close>

definition ReplyToConn :: string where "ReplyToConn = ''conn''"

definition bytes :: "string \<Rightarrow> byte list" where
  "bytes s = map (\<lambda>c. word_of_nat (of_char c)) s"

definition frame_max :: "'tls tcp_options \<Rightarrow> 64 word" where
  "frame_max o1 = word_of_int (to_MaxFrameBytes o1)"

text \<open>\<^verbatim>\<open>send\<close>: the frames on the wire afterwards, and whether the connection is still usable.\<close>

definition send :: "'tls tcp_options \<Rightarrow> string \<Rightarrow> string list \<Rightarrow> (frame_error option \<times> string list \<times> bool)" where
  "send o1 payload wire =
     (case writeFrame (bytes payload) (frame_max o1) of
        Inl e \<Rightarrow> (Some e, wire, False)
      | Inr _ \<Rightarrow> (None, wire @ [payload], True))"

definition handleMessage :: "'v json \<Rightarrow> (msg_error \<Rightarrow> string) \<Rightarrow> 'tls tcp_options \<Rightarrow> envelope \<Rightarrow> envelope option \<Rightarrow> msg_error option \<Rightarrow>
    string list \<Rightarrow> string list" where
  "handleMessage j etext o1 env reply err wire =
     (case reply_payload j etext env reply err of
        None \<Rightarrow> wire
      | Some data \<Rightarrow> (case writeFrame (bytes data) (frame_max o1) of Inl _ \<Rightarrow> wire | Inr _ \<Rightarrow> wire @ [data]))"

section \<open>The transport as a step relation\<close>

datatype tcall =
    TStart
  | TRegistered string
  | TWaiting nat
  | TDone "(tcp_error, envelope option) result"

text \<open>
  \<open>tc_out\<close> and \<open>tc_in\<close> are the frames on the way to the server and back, by connection; \<open>tc_chan\<close> is the channel of a request, which
  holds one reply.
\<close>

record 'w tcp =
  tc_closed :: bool
  tc_cc :: "nat option"
  tc_alive :: "nat \<Rightarrow> bool"
  tc_next :: nat
  tc_pending :: "(string, nat) gomap"
  tc_chan :: "nat \<Rightarrow> envelope option"
  tc_calls :: "(call_kind \<times> envelope \<times> tcall) list"
  tc_out :: "nat \<Rightarrow> string list"
  tc_in :: "nat \<Rightarrow> string list"
  tc_conns :: "nat list"
  tc_running :: "(nat \<times> envelope) list"
  tc_world :: 'w

definition start_tcp :: "'w \<Rightarrow> 'w tcp" where
  "start_tcp w = \<lparr>tc_closed = False, tc_cc = None, tc_alive = (\<lambda>_. False), tc_next = 0, tc_pending = [], tc_chan = (\<lambda>_. None), tc_calls = [],
     tc_out = (\<lambda>_. []), tc_in = (\<lambda>_. []), tc_conns = [], tc_running = [], tc_world = w\<rparr>"

definition set_call :: "nat \<Rightarrow> call_kind \<times> envelope \<times> tcall \<Rightarrow> 'w tcp \<Rightarrow> 'w tcp" where
  "set_call i c m = m\<lparr>tc_calls := (tc_calls m)[i := c]\<rparr>"

text \<open>What a call sends: \<^verbatim>\<open>Request\<close> sets an id when there is none and asks for the reply, \<^verbatim>\<open>Publish\<close> asks for none.\<close>

definition outgoing :: "call_kind \<Rightarrow> 8 word list \<Rightarrow> envelope \<Rightarrow> envelope" where
  "outgoing k rnd env =
     (case k of
        Req \<Rightarrow> env\<lparr>e_ID := (if e_ID env = [] then NewID rnd else e_ID env), e_ReplyTo := ReplyToConn\<rparr>
      | Pub \<Rightarrow> env\<lparr>e_ReplyTo := []\<rparr>)"

text \<open>The start of a call: closed, encode, and for a request the entry in the map before anything is written.\<close>

definition begin_call :: "'v json \<Rightarrow> nat \<Rightarrow> call_kind \<Rightarrow> 8 word list \<Rightarrow> envelope \<Rightarrow> 'w tcp \<Rightarrow> 'w tcp" where
  "begin_call j i k rnd env m =
     (if tc_closed m then set_call i (k, env, TDone (Inl TransportClosed)) m
      else
        (let env' = outgoing k rnd env
         in case Encode j env' of
              Inl e \<Rightarrow> set_call i (k, env', TDone (Inl (EncodeFailed e))) m
            | Inr payload \<Rightarrow>
                set_call i (k, env', TRegistered payload)
                  (if k = Req then m\<lparr>tc_pending := mput (e_ID env') i (tc_pending m)\<rparr> else m)))"

text \<open>The return of a call; a request removes its entry on every path.\<close>

definition finish_call :: "nat \<Rightarrow> call_kind \<Rightarrow> envelope \<Rightarrow> (tcp_error, envelope option) result \<Rightarrow> 'w tcp \<Rightarrow> 'w tcp" where
  "finish_call i k env res m =
     set_call i (k, env, TDone res) (if k = Req then m\<lparr>tc_pending := mdel (e_ID env) (tc_pending m)\<rparr> else m)"

definition send_call :: "'tls tcp_options \<Rightarrow> nat \<Rightarrow> call_kind \<Rightarrow> envelope \<Rightarrow> string \<Rightarrow> nat \<Rightarrow> 'w tcp \<Rightarrow> 'w tcp" where
  "send_call o1 i k env payload c m =
     (case send o1 payload (tc_out m c) of
        (Some e, wire, ok) \<Rightarrow> finish_call i k env (Inl (SendFailed e)) (m\<lparr>tc_alive := (tc_alive m)(c := False)\<rparr>)
      | (None, wire, ok) \<Rightarrow>
          (if k = Req then set_call i (k, env, TWaiting c) (m\<lparr>tc_out := (tc_out m)(c := wire)\<rparr>)
           else finish_call i k env (Inr None) (m\<lparr>tc_out := (tc_out m)(c := wire)\<rparr>)))"

definition deliver :: "envelope \<Rightarrow> 'w tcp \<Rightarrow> 'w tcp" where
  "deliver env m =
     (case mget (tc_pending m) (e_ID env) of
        None \<Rightarrow> m
      | Some k \<Rightarrow> if tc_chan m k = None then m\<lparr>tc_chan := (tc_chan m)(k := Some env)\<rparr> else m)"

text \<open>One round of \<^verbatim>\<open>readReplies\<close>.\<close>

definition read_reply :: "'v json \<Rightarrow> nat \<Rightarrow> string \<Rightarrow> string list \<Rightarrow> 'w tcp \<Rightarrow> 'w tcp" where
  "read_reply j c payload rest m =
     (let m1 = m\<lparr>tc_in := (tc_in m)(c := rest)\<rparr>
      in case DecodeEnvelope j payload of Inl e \<Rightarrow> m1 | Inr env \<Rightarrow> deliver env m1)"

definition Close_tcp :: "'w tcp \<Rightarrow> 'w tcp" where
  "Close_tcp m =
     (if tc_closed m then m
      else m\<lparr>tc_closed := True, tc_cc := None, tc_conns := [],
             tc_alive := (case tc_cc m of None \<Rightarrow> tc_alive m | Some c \<Rightarrow> (tc_alive m)(c := False))\<rparr>)"

definition finish_handler :: "'v json \<Rightarrow> (msg_error \<Rightarrow> string) \<Rightarrow> 'tls tcp_options \<Rightarrow> nat \<Rightarrow> nat \<Rightarrow> envelope \<Rightarrow> 'w \<Rightarrow> envelope option \<Rightarrow> msg_error option \<Rightarrow>
    'w tcp \<Rightarrow> 'w tcp" where
  "finish_handler j etext o1 n c env w reply err m =
     m\<lparr>tc_world := w, tc_running := take n (tc_running m) @ drop (Suc n) (tc_running m),
       tc_in := (tc_in m)(c := handleMessage j etext o1 env reply err (tc_in m c))\<rparr>"

inductive tcp_step :: "'v json \<Rightarrow> (msg_error \<Rightarrow> string) \<Rightarrow> 'tls tcp_options \<Rightarrow> ('w \<Rightarrow> envelope \<Rightarrow> 'w \<times> envelope option \<times> msg_error option) \<Rightarrow>
    'w tcp \<Rightarrow> 'w tcp \<Rightarrow> bool"
  for j :: "'v json" and etext :: "msg_error \<Rightarrow> string" and o1 :: "'tls tcp_options"
    and dispatch :: "'w \<Rightarrow> envelope \<Rightarrow> 'w \<times> envelope option \<times> msg_error option" where
  opened: "tcp_step j etext o1 dispatch m (m\<lparr>tc_calls := tc_calls m @ [(k, env, TStart)]\<rparr>)"
| begins: "i < length (tc_calls m) \<Longrightarrow> tc_calls m ! i = (k, env, TStart) \<Longrightarrow> tcp_step j etext o1 dispatch m (begin_call j i k rnd env m)"
| dials: "\<not> tc_closed m \<Longrightarrow> (\<forall>c. tc_cc m = Some c \<longrightarrow> \<not> tc_alive m c) \<Longrightarrow>
    tcp_step j etext o1 dispatch m (m\<lparr>tc_cc := Some (tc_next m), tc_alive := (tc_alive m)(tc_next m := True), tc_next := Suc (tc_next m)\<rparr>)"
| fails: "i < length (tc_calls m) \<Longrightarrow> tc_calls m ! i = (k, env, TRegistered p) \<Longrightarrow> tcp_step j etext o1 dispatch m (finish_call i k env (Inl e) m)"
| sends: "i < length (tc_calls m) \<Longrightarrow> tc_calls m ! i = (k, env, TRegistered p) \<Longrightarrow> tc_cc m = Some c \<Longrightarrow> tc_alive m c \<Longrightarrow>
    tcp_step j etext o1 dispatch m (send_call o1 i k env p c m)"
| receives: "i < length (tc_calls m) \<Longrightarrow> tc_calls m ! i = (k, env, TWaiting c) \<Longrightarrow> tc_chan m i = Some r \<Longrightarrow>
    tcp_step j etext o1 dispatch m (finish_call i k env (Inr (Some r)) (m\<lparr>tc_chan := (tc_chan m)(i := None)\<rparr>))"
| loses: "i < length (tc_calls m) \<Longrightarrow> tc_calls m ! i = (k, env, TWaiting c) \<Longrightarrow> \<not> tc_alive m c \<Longrightarrow>
    tcp_step j etext o1 dispatch m (finish_call i k env (Inl ConnLost) m)"
| gives_up: "i < length (tc_calls m) \<Longrightarrow> tc_calls m ! i = (k, env, TWaiting c) \<Longrightarrow>
    tcp_step j etext o1 dispatch m (finish_call i k env (Inl (mapTimeout e)) m)"
| ends_closed: "i < length (tc_calls m) \<Longrightarrow> tc_calls m ! i = (k, env, TWaiting c) \<Longrightarrow> tc_closed m \<Longrightarrow>
    tcp_step j etext o1 dispatch m (finish_call i k env (Inl TransportClosed) m)"
| reads: "tc_alive m c \<Longrightarrow> tc_in m c = p # rest \<Longrightarrow> tcp_step j etext o1 dispatch m (read_reply j c p rest m)"
| dies: "tcp_step j etext o1 dispatch m (m\<lparr>tc_alive := (tc_alive m)(c := False)\<rparr>)"
| closes: "tcp_step j etext o1 dispatch m (Close_tcp m)"
| accepts: "int (length (tc_conns m)) < to_MaxConns o1 \<Longrightarrow> c < tc_next m \<Longrightarrow> c \<notin> set (tc_conns m) \<Longrightarrow> \<not> tc_closed m \<Longrightarrow>
    tcp_step j etext o1 dispatch m (m\<lparr>tc_conns := tc_conns m @ [c]\<rparr>)"
| hangs_up: "tcp_step j etext o1 dispatch m (m\<lparr>tc_conns := remove1 c (tc_conns m)\<rparr>)"
| skips: "c \<in> set (tc_conns m) \<Longrightarrow> tc_out m c = p # rest \<Longrightarrow> DecodeEnvelope j p = Inl e \<Longrightarrow>
    tcp_step j etext o1 dispatch m (m\<lparr>tc_out := (tc_out m)(c := rest)\<rparr>)"
| serves: "c \<in> set (tc_conns m) \<Longrightarrow> tc_out m c = p # rest \<Longrightarrow> DecodeEnvelope j p = Inr env \<Longrightarrow> int (length (tc_running m)) < to_Concurrency o1 \<Longrightarrow>
    tcp_step j etext o1 dispatch m (m\<lparr>tc_out := (tc_out m)(c := rest), tc_running := tc_running m @ [(c, env)]\<rparr>)"
| answers: "n < length (tc_running m) \<Longrightarrow> tc_running m ! n = (c, env) \<Longrightarrow> dispatch (tc_world m) env = (w, reply, err) \<Longrightarrow>
    tcp_step j etext o1 dispatch m (finish_handler j etext o1 n c env w reply err m)"

inductive tcp_reach :: "'v json \<Rightarrow> (msg_error \<Rightarrow> string) \<Rightarrow> 'tls tcp_options \<Rightarrow> ('w \<Rightarrow> envelope \<Rightarrow> 'w \<times> envelope option \<times> msg_error option) \<Rightarrow>
    'w tcp \<Rightarrow> bool"
  for j :: "'v json" and etext :: "msg_error \<Rightarrow> string" and o1 :: "'tls tcp_options"
    and dispatch :: "'w \<Rightarrow> envelope \<Rightarrow> 'w \<times> envelope option \<times> msg_error option" where
  new: "tcp_reach j etext o1 dispatch (start_tcp w)"
| step: "tcp_reach j etext o1 dispatch m \<Longrightarrow> tcp_step j etext o1 dispatch m m' \<Longrightarrow> tcp_reach j etext o1 dispatch m'"


section \<open>The transport carries the protocol of requests and replies\<close>

definition tcp_carrier :: "'v json \<Rightarrow> (msg_error \<Rightarrow> string) \<Rightarrow> ('w \<Rightarrow> envelope \<Rightarrow> 'w \<times> envelope option \<times> msg_error option) \<Rightarrow>
    (8 word list, string, tcp_error, 'w) carrier" where
  "tcp_carrier j etext dispatch =
     \<lparr>cr_build = (\<lambda>k rnd env. case Encode j (outgoing k rnd env) of Inl e \<Rightarrow> Inl (EncodeFailed e) | Inr p \<Rightarrow> Inr (outgoing k rnd env, p)),
      cr_handle = (\<lambda>w p. case DecodeEnvelope j p of
          Inl _ \<Rightarrow> (w, None)
        | Inr env \<Rightarrow> (case dispatch w env of (w', reply, err) \<Rightarrow> (w', reply_payload j etext env reply err))),
      cr_correlate = (\<lambda>p. case DecodeEnvelope j p of Inl _ \<Rightarrow> None | Inr env \<Rightarrow> Some (e_ID env, env)),
      cr_deliver = deliver_keeping\<rparr>"

fun abs_state :: "tcall \<Rightarrow> (string, tcp_error) rcall" where
  "abs_state TStart = RStart"
| "abs_state (TRegistered p) = RRegistered p"
| "abs_state (TWaiting c) = RWaiting"
| "abs_state (TDone res) = RDone res"

definition abs_call :: "call_kind \<times> envelope \<times> tcall \<Rightarrow> call_kind \<times> envelope \<times> (string, tcp_error) rcall" where
  "abs_call x = (case x of (k, env, st) \<Rightarrow> (k, env, abs_state st))"

text \<open>The abstract state forgets connections; every frame on a wire is a message that was sent, every frame on its way back a reply.\<close>

definition sim :: "'v json \<Rightarrow> 'w tcp \<Rightarrow> (string, tcp_error, 'w) rpc \<Rightarrow> bool" where
  "sim j m a \<longleftrightarrow>
     rp_closed a = tc_closed m \<and> rp_pending a = tc_pending m \<and> rp_chan a = tc_chan m \<and> rp_calls a = map abs_call (tc_calls m) \<and>
     rp_world a = tc_world m \<and>
     (\<forall>c. set (tc_out m c) \<subseteq> set (rp_sent a) \<and> set (tc_in m c) \<subseteq> set (rp_replies a)) \<and>
     (\<forall>(c, env) \<in> set (tc_running m). \<exists>p \<in> set (rp_sent a). DecodeEnvelope j p = Inr env)"

lemma abs_call_simps [simp]:
  "abs_call (k, env, TStart) = (k, env, RStart)" "abs_call (k, env, TRegistered p) = (k, env, RRegistered p)"
  "abs_call (k, env, TWaiting c) = (k, env, RWaiting)" "abs_call (k, env, TDone res) = (k, env, RDone res)"
  by (simp_all add: abs_call_def)

lemma sim_call: "sim j m a \<Longrightarrow> i < length (tc_calls m) \<Longrightarrow> tc_calls m ! i = x \<Longrightarrow> i < length (rp_calls a) \<and> rp_calls a ! i = abs_call x"
  by (simp add: sim_def)

text \<open>Steps of calls correspond.\<close>

lemma sim_settle:
  "sim j m a \<Longrightarrow> sim j (finish_call i k env res m) (settle_call i k env res a)"
  by (simp add: sim_def finish_call_def settle_call_def set_call_def set_rcall_def map_update)

lemma sim_quiet:
  assumes "sim j m a" "tc_closed m' = tc_closed m" "tc_pending m' = tc_pending m" "tc_chan m' = tc_chan m" "tc_calls m' = tc_calls m"
    "tc_world m' = tc_world m" "\<And>c. set (tc_out m' c) \<subseteq> set (tc_out m c)" "\<And>c. set (tc_in m' c) \<subseteq> set (tc_in m c)"
    "set (tc_running m') \<subseteq> set (tc_running m)"
  shows "sim j m' a"
  using assms unfolding sim_def by fastforce

lemma sim_begin:
  assumes "sim j m a" "i < length (tc_calls m)" "tc_calls m ! i = (k, env, TStart)"
  shows "\<exists>a'. rpc_step (tcp_carrier j etext dispatch) a a' \<and> sim j (begin_call j i k rnd env m) a'"
proof -
  note c = sim_call [OF assms, simplified]
  show ?thesis
  proof (cases "tc_closed m")
    case True
    then show ?thesis
      using rpc_step.refuses [of i a k env _ env TransportClosed] c assms(1)
      by (intro exI [of _ "set_rcall i (k, env, RDone (Inl TransportClosed)) a"])
        (simp add: begin_call_def sim_def set_call_def set_rcall_def map_update)
  next
    case False
    show ?thesis
    proof (cases "Encode j (outgoing k rnd env)")
      case (Inl e)
      then show ?thesis
        using False rpc_step.refuses [of i a k env _ "outgoing k rnd env" "EncodeFailed e"] c assms(1)
        by (intro exI [of _ "set_rcall i (k, outgoing k rnd env, RDone (Inl (EncodeFailed e))) a"])
          (simp add: begin_call_def sim_def set_call_def set_rcall_def map_update Let_def)
    next
      case (Inr p)
      then have "rpc_step (tcp_carrier j etext dispatch) a (register i k (outgoing k rnd env) p a)"
        using False rpc_step.registers [of i a k env "tcp_carrier j etext dispatch" rnd] c assms(1) by (simp add: tcp_carrier_def sim_def)
      with Inr False assms(1) show ?thesis
        by (intro exI [of _ "register i k (outgoing k rnd env) p a"])
          (simp add: begin_call_def sim_def set_call_def set_rcall_def register_def map_update Let_def)
    qed
  qed
qed

lemma sim_send:
  assumes "sim j m a" "i < length (tc_calls m)" "tc_calls m ! i = (k, env, TRegistered p)"
  shows "\<exists>a'. rpc_step (tcp_carrier j etext dispatch) a a' \<and> sim j (send_call o1 i k env p c m) a'"
proof -
  note call = sim_call [OF assms, simplified]
  show ?thesis
  proof (cases "writeFrame (bytes p) (frame_max o1)")
    case (Inl e)
    have "sim j (m\<lparr>tc_alive := (tc_alive m)(c := False)\<rparr>) a" by (rule sim_quiet [OF assms(1)]) simp_all
    then have "sim j (send_call o1 i k env p c m) (settle_call i k env (Inl (SendFailed e)) a)"
      using Inl sim_settle by (simp add: send_call_def send_def)
    then show ?thesis using rpc_step.fails [of i a k env p] call by blast
  next
    case (Inr bs)
    let ?a = "a\<lparr>rp_sent := rp_sent a @ [p]\<rparr>" and ?m = "m\<lparr>tc_out := (tc_out m)(c := tc_out m c @ [p])\<rparr>"
    have w: "sim j ?m ?a" using assms(1) unfolding sim_def by auto
    show ?thesis
    proof (cases k)
      case Req
      have "sim j (send_call o1 i k env p c m) (set_rcall i (Req, env, RWaiting) ?a)"
        using w Inr Req by (simp add: send_call_def send_def sim_def set_call_def set_rcall_def map_update)
      then show ?thesis using rpc_step.sends [of i a env p] call Req by blast
    next
      case Pub
      have "sim j (send_call o1 i k env p c m) (settle_call i Pub env (Inr None) ?a)"
        using sim_settle [OF w, of i Pub env "Inr None"] Inr Pub by (simp add: send_call_def send_def)
      then show ?thesis using rpc_step.publishes [of i a env p] call Pub by blast
    qed
  qed
qed

lemma sim_deliver:
  "sim j m a \<Longrightarrow> sim j (deliver env m) (hand_over (tcp_carrier j etext dispatch) (e_ID env) env a)"
  by (simp add: sim_def deliver_def hand_over_def tcp_carrier_def deliver_keeping_def split: option.splits)

lemma sim_read:
  assumes "sim j m a" "tc_in m c = p # rest"
  shows "\<exists>a'. (a' = a \<or> rpc_step (tcp_carrier j etext dispatch) a a') \<and> sim j (read_reply j c p rest m) a'"
proof -
  let ?m = "m\<lparr>tc_in := (tc_in m)(c := rest)\<rparr>"
  have q: "sim j ?m a" by (rule sim_quiet [OF assms(1)]) (use assms(2) in auto)
  have p: "p \<in> set (rp_replies a)" using assms unfolding sim_def by (metis list.set_intros(1) subsetD)
  show ?thesis
  proof (cases "DecodeEnvelope j p")
    case (Inl e)
    then show ?thesis using q by (auto simp: read_reply_def)
  next
    case (Inr env)
    have "rpc_step (tcp_carrier j etext dispatch) a (hand_over (tcp_carrier j etext dispatch) (e_ID env) env a)"
      by (rule rpc_step.reads [OF p]) (simp add: tcp_carrier_def Inr)
    moreover have "sim j (read_reply j c p rest m) (hand_over (tcp_carrier j etext dispatch) (e_ID env) env a)"
      using sim_deliver [OF q] Inr by (simp add: read_reply_def)
    ultimately show ?thesis by blast
  qed
qed

lemma handleMessage_set: "set (handleMessage j etext o1 env reply err wire) \<subseteq> set wire \<union> set_option (reply_payload j etext env reply err)"
  by (auto simp: handleMessage_def split: option.splits sum.splits)

lemma sim_answer:
  assumes "sim j m a" "n < length (tc_running m)" "tc_running m ! n = (c, env)" "dispatch (tc_world m) env = (w, reply, err)"
  shows "\<exists>a'. rpc_step (tcp_carrier j etext dispatch) a a' \<and> sim j (finish_handler j etext o1 n c env w reply err m) a'"
proof -
  let ?r = "reply_payload j etext env reply err" and ?m = "finish_handler j etext o1 n c env w reply err m"
  have "(c, env) \<in> set (tc_running m)" using assms(2,3) by (metis nth_mem)
  then obtain p where p: "p \<in> set (rp_sent a)" "DecodeEnvelope j p = Inr env" using assms(1) unfolding sim_def by fastforce
  have "cr_handle (tcp_carrier j etext dispatch) (rp_world a) p = (w, ?r)"
    using p(2) assms(1,4) by (simp add: tcp_carrier_def sim_def)
  then have "rpc_step (tcp_carrier j etext dispatch) a (answered_with ?r w a)" using rpc_step.serves [OF p(1)] by blast
  moreover have "sim j ?m (answered_with ?r w a)"
  proof -
    have run: "set (tc_running ?m) \<subseteq> set (tc_running m)"
      by (auto simp: finish_handler_def dest: in_set_takeD in_set_dropD)
    have ins: "set (tc_in ?m d) \<subseteq> set (rp_replies (answered_with ?r w a))" for d
    proof
      fix q assume "q \<in> set (tc_in ?m d)"
      then have "q \<in> set (tc_in m d) \<or> ?r = Some q"
        using handleMessage_set [of j etext o1 env reply err "tc_in m c"] by (auto simp: finish_handler_def split: if_splits)
      then show "q \<in> set (rp_replies (answered_with ?r w a))"
        using assms(1) by (auto simp: answered_with_def sim_def split: option.splits)
    qed
    have "sim j ?m (answered_with ?r w a) \<longleftrightarrow>
        (\<forall>d. set (tc_in ?m d) \<subseteq> set (rp_replies (answered_with ?r w a))) \<and>
        (\<forall>(d, e) \<in> set (tc_running ?m). \<exists>p \<in> set (rp_sent a). DecodeEnvelope j p = Inr e)"
      using assms(1) by (cases ?r) (auto simp: sim_def answered_with_def finish_handler_def)
    then show ?thesis using ins run assms(1) unfolding sim_def by blast
  qed
  ultimately show ?thesis by blast
qed

lemma tcp_step_sim:
  assumes sim: "sim j m a" and "tcp_step j etext o1 dispatch m m'"
  shows "\<exists>a'. (a' = a \<or> rpc_step (tcp_carrier j etext dispatch) a a') \<and> sim j m' a'"
  using assms(2)
proof cases
  case (opened k env)
  have "sim j m' (a\<lparr>rp_calls := rp_calls a @ [(k, env, RStart)]\<rparr>)" using sim unfolding opened by (simp add: sim_def)
  then show ?thesis using rpc_step.opens by blast
next
  case (begins i k env rnd)
  show ?thesis unfolding begins(1) using sim_begin [OF sim begins(2,3), of etext dispatch rnd] by blast
next
  case dials
  have "sim j m' a" unfolding dials(1) by (rule sim_quiet [OF sim]) simp_all
  then show ?thesis by blast
next
  case (fails i k env p e)
  then have "rpc_step (tcp_carrier j etext dispatch) a (settle_call i k env (Inl e) a)"
    using rpc_step.fails sim_call [OF sim] by fastforce
  then show ?thesis using sim_settle [OF sim] fails(1) by blast
next
  case (sends i k env p c)
  show ?thesis unfolding sends(1) using sim_send [OF sim sends(2,3), of etext dispatch o1 c] by blast
next
  case (receives i k env c r)
  let ?a = "a\<lparr>rp_chan := (rp_chan a)(i := None)\<rparr>"
  have "rp_chan a i = Some r" using sim receives(4) by (simp add: sim_def)
  then have "rpc_step (tcp_carrier j etext dispatch) a (settle_call i k env (Inr (Some r)) ?a)"
    using rpc_step.receives sim_call [OF sim receives(2,3)] by fastforce
  moreover have "sim j (m\<lparr>tc_chan := (tc_chan m)(i := None)\<rparr>) ?a" using sim by (simp add: sim_def)
  ultimately show ?thesis using sim_settle [of j "m\<lparr>tc_chan := (tc_chan m)(i := None)\<rparr>" ?a] receives(1) by blast
next
  case (loses i k env c)
  then show ?thesis using rpc_step.gives_up sim_call [OF sim] sim_settle [OF sim] by (metis abs_call_simps(3))
next
  case (gives_up i k env c e)
  then show ?thesis using rpc_step.gives_up sim_call [OF sim] sim_settle [OF sim] by (metis abs_call_simps(3))
next
  case (ends_closed i k env c)
  then show ?thesis using rpc_step.gives_up sim_call [OF sim] sim_settle [OF sim] by (metis abs_call_simps(3))
next
  case (reads c p rest)
  then show ?thesis using sim_read [OF sim] by simp
next
  case (dies c)
  have "sim j m' a" unfolding dies by (rule sim_quiet [OF sim]) simp_all
  then show ?thesis by blast
next
  case closes
  have "sim j m' (a\<lparr>rp_closed := True\<rparr>)" using sim unfolding closes by (simp add: sim_def Close_tcp_def)
  then show ?thesis using rpc_step.closes by blast
next
  case (accepts c)
  have "sim j m' a" unfolding accepts(1) by (rule sim_quiet [OF sim]) simp_all
  then show ?thesis by blast
next
  case (hangs_up c)
  have "sim j m' a" unfolding hangs_up by (rule sim_quiet [OF sim]) simp_all
  then show ?thesis by blast
next
  case (skips c p rest e)
  have "sim j m' a" unfolding skips(1) by (rule sim_quiet [OF sim]) (use skips in auto)
  then show ?thesis by blast
next
  case (serves c p rest env)
  have out: "set (tc_out m c) \<subseteq> set (rp_sent a)" using sim unfolding sim_def by blast
  have "sim j (m\<lparr>tc_out := (tc_out m)(c := rest)\<rparr>) a" by (rule sim_quiet [OF sim]) (use serves(3) in auto)
  then have "sim j m' a" using out serves(3,4) unfolding serves(1) by (auto simp: sim_def)
  then show ?thesis by blast
next
  case (answers n c env w reply err)
  show ?thesis unfolding answers(1) using sim_answer [where dispatch = dispatch, OF sim answers(2-4), of etext o1] by blast
qed

lemma tcp_refines:
  assumes "tcp_reach j etext o1 dispatch m"
  shows "\<exists>a. rpc_reach (tcp_carrier j etext dispatch) a \<and> sim j m a"
  using assms
proof (induction rule: tcp_reach.induct)
  case (new w)
  have "sim j (start_tcp w) (start_rpc w)" by (simp add: sim_def start_tcp_def start_rpc_def)
  then show ?case using rpc_reach.new [of "tcp_carrier j etext dispatch" w] by blast
next
  case (step m m')
  then show ?case using tcp_step_sim rpc_reach.step by metis
qed

lemma tcp_carrier_correlating:
  assumes "json_keeps_id j"
  shows "correlating (tcp_carrier j etext dispatch)"
proof
  fix x env p c p' c' y i
  assume "cr_deliver (tcp_carrier j etext dispatch) x env (p, c) = (p', c')" "mget p' y = Some i"
  then show "mget p y = Some i" using keeping.entries_kept by (simp add: tcp_carrier_def)
next
  fix x env p c p' c' i r
  assume "cr_deliver (tcp_carrier j etext dispatch) x env (p, c) = (p', c')" "c' i = Some r"
  then show "c i = Some r \<or> mget p x = Some i \<and> r = env" using keeping.channel_of_id by (simp add: tcp_carrier_def)
next
  fix k rnd env env' q w w' rep x r
  assume b: "cr_build (tcp_carrier j etext dispatch) k rnd env = Inr (env', q)"
    and h: "cr_handle (tcp_carrier j etext dispatch) w q = (w', Some rep)"
    and c: "cr_correlate (tcp_carrier j etext dispatch) rep = Some (x, r)"
  from b have "Encode j env' = Inr q" by (auto simp: tcp_carrier_def split: sum.splits)
  moreover from h obtain e reply err where e: "DecodeEnvelope j q = Inr e" "reply_payload j etext e reply err = Some rep"
    by (auto simp: tcp_carrier_def split: sum.splits prod.splits)
  moreover from e(2) obtain r0 where r0: "Encode j r0 = Inr rep" "e_ID r0 = e_ID e" by (rule reply_payload_Some)
  moreover from c have "DecodeEnvelope j rep = Inr r" "x = e_ID r" by (auto simp: tcp_carrier_def split: sum.splits)
  ultimately show "x = e_ID env'"
    using assms decodes_Inr unfolding json_keeps_id_def Encode_Inr by metis
qed

section \<open>Properties\<close>

text \<open>The limits of the server.\<close>

lemma tcp_limits:
  assumes "tcp_reach j etext o1 dispatch m" "0 \<le> to_Concurrency o1" "0 \<le> to_MaxConns o1"
  shows "int (length (tc_running m)) \<le> to_Concurrency o1 \<and> int (length (tc_conns m)) \<le> to_MaxConns o1"
  using assms
proof (induction rule: tcp_reach.induct)
  case (new w)
  then show ?case by (simp add: start_tcp_def)
next
  case (step m m')
  note IH = step.IH [OF step.prems]
  have beg: "tc_running (begin_call j i k rnd env m) = tc_running m \<and> tc_conns (begin_call j i k rnd env m) = tc_conns m" for i k rnd env
    by (simp add: begin_call_def set_call_def Let_def split: sum.split)
  have fin: "tc_running (finish_call i k env res m1) = tc_running m1 \<and> tc_conns (finish_call i k env res m1) = tc_conns m1"
    for i k env res and m1 :: "'c tcp"
    by (simp add: finish_call_def set_call_def)
  have snd: "tc_running (send_call o1 i k env p c m) = tc_running m \<and> tc_conns (send_call o1 i k env p c m) = tc_conns m" for i k env p c
    using fin by (simp add: send_call_def set_call_def send_def split: sum.split)
  have rd: "tc_running (read_reply j c p rest m) = tc_running m \<and> tc_conns (read_reply j c p rest m) = tc_conns m" for c p rest
    by (simp add: read_reply_def deliver_def Let_def split: sum.split option.split)
  from step.hyps(2) show ?case
    by cases (use IH beg fin snd rd in \<open>auto simp: Close_tcp_def finish_handler_def length_remove1 split: if_splits\<close>)
qed

definition tc_begun :: "'w tcp \<Rightarrow> nat \<Rightarrow> call_kind \<Rightarrow> envelope \<Rightarrow> bool" where
  "tc_begun m i k env \<longleftrightarrow> i < length (tc_calls m) \<and> (\<exists>st. tc_calls m ! i = (k, env, st) \<and> st \<noteq> TStart)"

definition tc_in_flight :: "'w tcp \<Rightarrow> nat \<Rightarrow> envelope \<Rightarrow> bool" where
  "tc_in_flight m i env \<longleftrightarrow> i < length (tc_calls m) \<and>
     ((\<exists>p. tc_calls m ! i = (Req, env, TRegistered p)) \<or> (\<exists>c. tc_calls m ! i = (Req, env, TWaiting c)))"

definition answer :: "'v json \<Rightarrow> (msg_error \<Rightarrow> string) \<Rightarrow> ('w \<Rightarrow> envelope \<Rightarrow> 'w \<times> envelope option \<times> msg_error option) \<Rightarrow> envelope \<Rightarrow> string \<Rightarrow> bool" where
  "answer j etext dispatch env p \<longleftrightarrow>
     (\<exists>w w' reply err. dispatch w env = (w', reply, err) \<and> reply_payload j etext env reply err = Some p)"

lemma abs_state_iff:
  "abs_state st = RStart \<longleftrightarrow> st = TStart" "abs_state st = RRegistered p \<longleftrightarrow> st = TRegistered p"
  "abs_state st = RWaiting \<longleftrightarrow> (\<exists>c. st = TWaiting c)" "abs_state st = RDone res \<longleftrightarrow> st = TDone res"
  by (cases st; simp)+

lemma sim_nth:
  assumes "sim j m a" "i < length (tc_calls m)"
  shows "rp_calls a ! i = (k, env, rst) \<longleftrightarrow> (\<exists>st. tc_calls m ! i = (k, env, st) \<and> abs_state st = rst)"
  using assms by (cases "tc_calls m ! i") (auto simp: sim_def abs_call_def)

lemma sim_length: "sim j m a \<Longrightarrow> length (rp_calls a) = length (tc_calls m)"
  by (simp add: sim_def)

lemma sim_begun:
  assumes "sim j m a"
  shows "begun a i k env = tc_begun m i k env"
  using sim_nth [OF assms, of i k env] sim_length [OF assms] abs_state_iff(1) unfolding begun_def tc_begun_def by metis

lemma sim_in_flight:
  assumes "sim j m a"
  shows "in_flight a i env = tc_in_flight m i env"
  using sim_nth [OF assms, of i Req env] sim_length [OF assms] abs_state_iff(2,3) unfolding in_flight_def tc_in_flight_def by metis

lemma tcp_answers:
  assumes "answers_call (tcp_carrier j etext dispatch) k env r"
  shows "\<exists>raw env1 p. Encode j env = Inr raw \<and> DecodeEnvelope j raw = Inr env1 \<and> answer j etext dispatch env1 p \<and>
    DecodeEnvelope j p = Inr r \<and> e_ID r = e_ID env"
proof -
  from assms obtain rnd env0 q w w' rep where *: "cr_build (tcp_carrier j etext dispatch) k rnd env0 = Inr (env, q)"
    "cr_handle (tcp_carrier j etext dispatch) w q = (w', Some rep)" "cr_correlate (tcp_carrier j etext dispatch) rep = Some (e_ID env, r)"
    unfolding answers_call_def by blast
  from *(1) have "Encode j env = Inr q" by (auto simp: tcp_carrier_def split: sum.splits)
  moreover from *(3) have "DecodeEnvelope j rep = Inr r" "e_ID r = e_ID env" by (auto simp: tcp_carrier_def split: sum.splits)
  moreover from *(2) obtain env1 where "DecodeEnvelope j q = Inr env1" "answer j etext dispatch env1 rep"
    unfolding answer_def by (auto simp: tcp_carrier_def split: sum.splits prod.splits)
  ultimately show ?thesis by blast
qed


text \<open>One request, written, served by a dispatcher that echoes the envelope, and answered.\<close>

definition sample_options :: "unit tcp_options" where
  "sample_options = \<lparr>to_Addr = '':9000'', to_DialAddr = [], to_TLSConfig = None, to_ClientTLSConfig = None, to_MaxFrameBytes = 0, to_MaxConns = 0,
     to_Concurrency = 0, to_ReadTimeout = 0, to_WriteTimeout = 0, to_IdleTimeout = 0, to_DialTimeout = 0, to_MaxDialAttempts = 0,
     to_ReplyTimeout = 0, to_ShutdownTimeout = 0\<rparr>"

definition tcp_sample :: "unit tcp_options" where
  "tcp_sample = tcp_defaults (30 * second) max_frame_default sample_options"

definition tcp_state :: "nat option \<Rightarrow> nat \<Rightarrow> (string, nat) gomap \<Rightarrow> envelope option \<Rightarrow> tcall option \<Rightarrow> string list \<Rightarrow> string list \<Rightarrow> nat list \<Rightarrow>
    (nat \<times> envelope) list \<Rightarrow> nat \<Rightarrow> nat tcp" where
  "tcp_state cc nx pend ch st out inn conns run w = \<lparr>tc_closed = False, tc_cc = cc, tc_alive = (\<lambda>c. cc = Some c), tc_next = nx,
     tc_pending = pend, tc_chan = (\<lambda>i. if i = 0 then ch else None),
     tc_calls = (case st of None \<Rightarrow> [] | Some TStart \<Rightarrow> [(Req, ping, TStart)] | Some s \<Rightarrow> [(Req, asked, s)]),
     tc_out = (\<lambda>c. if c = 0 then out else []), tc_in = (\<lambda>c. if c = 0 then inn else []), tc_conns = conns, tc_running = run, tc_world = w\<rparr>"

lemma tcp_sample_new: "New_tcp (30 * second) sample_options = Inr tcp_sample"
  by (simp add: New_tcp_def sample_options_def tcp_sample_def max_frame_default_def)

lemma tcp_sample_limits: "to_MaxConns tcp_sample = 1024" "to_Concurrency tcp_sample = 64" "to_MaxFrameBytes tcp_sample = 8388608"
  by (simp_all add: tcp_sample_def tcp_defaults_def sample_options_def max_frame_default_def)

lemma sample_frame: "\<exists>w. writeFrame (bytes ''1'') (frame_max tcp_sample) = Inr w"
proof -
  have "case writeFrame (bytes ''1'') (word_of_int 8388608) of Inl _ \<Rightarrow> False | Inr _ \<Rightarrow> True" by code_simp
  then show ?thesis by (auto simp: frame_max_def tcp_sample_limits split: sum.splits)
qed

interpretation tcp: correlating "tcp_carrier id_json (\<lambda>_. []) echo"
  by (rule tcp_carrier_correlating [OF id_json_keeps_id])

lemma tcp_sample_reach: "tcp_reach id_json (\<lambda>_. []) tcp_sample echo
    (tcp_state (Some 0) 1 [] None (Some (TDone (Inr (Some asked)))) [] [] [0] [] 1)"
proof -
  let ?R = "tcp_reach id_json (\<lambda>_. []) tcp_sample echo"
  note S = tcp_reach.step [of id_json "\<lambda>_. []" tcp_sample echo]
  note d = tcp_state_def fun_eq_iff
  obtain w where w: "writeFrame (bytes ''1'') (frame_max tcp_sample) = Inr w" using sample_frame by blast
  have idp: "e_ID ping = ''1''" "e_ID asked = ''1''" "e_ReplyTo asked \<noteq> []" "outgoing Req [] ping = asked"
    by (simp_all add: ping_def asked_def ReplyToConn_def outgoing_def)
  have s0: "?R (tcp_state None 0 [] None None [] [] [] [] 0)"
    using tcp_reach.new [of id_json "\<lambda>_. []" tcp_sample echo 0] by (simp add: start_tcp_def d)
  have s1: "?R (tcp_state None 0 [] None (Some TStart) [] [] [] [] 0)"
    using S [OF s0 tcp_step.opened [of _ _ _ _ _ Req ping]] by (simp add: d)
  have s2: "?R (tcp_state None 0 [(''1'', 0)] None (Some (TRegistered ''1'')) [] [] [] [] 0)"
    using S [OF s1 tcp_step.begins [of 0 _ Req ping _ _ _ _ "[]"]]
    by (simp add: d begin_call_def set_call_def Let_def idp id_json_codec mput_def)
  have s3: "?R (tcp_state (Some 0) 1 [(''1'', 0)] None (Some (TRegistered ''1'')) [] [] [] [] 0)"
    using S [OF s2 tcp_step.dials] by (simp add: d fun_upd_def if_bool_eq_disj)
  have s4: "?R (tcp_state (Some 0) 1 [(''1'', 0)] None (Some (TWaiting 0)) [''1''] [] [] [] 0)"
    using S [OF s3 tcp_step.sends [of 0 _ Req asked "''1''" 0]] w
    by (simp add: d send_call_def send_def set_call_def fun_upd_def cong: if_cong)
  have s5: "?R (tcp_state (Some 0) 1 [(''1'', 0)] None (Some (TWaiting 0)) [''1''] [] [0] [] 0)"
    using S [OF s4 tcp_step.accepts [of _ _ 0]] by (simp add: d tcp_sample_limits)
  have s6: "?R (tcp_state (Some 0) 1 [(''1'', 0)] None (Some (TWaiting 0)) [] [] [0] [(0, asked)] 0)"
    using S [OF s5 tcp_step.serves [of 0 _ "''1''" "[]" _ asked]] by (simp add: d tcp_sample_limits id_json_codec fun_upd_def cong: if_cong)
  have s7: "?R (tcp_state (Some 0) 1 [(''1'', 0)] None (Some (TWaiting 0)) [] [''1''] [0] [] 1)"
    using S [OF s6 tcp_step.answers [of 0 _ 0 asked _ 1 "Some asked" None]] w
    by (simp add: d echo_def finish_handler_def handleMessage_def reply_payload_def Let_def idp id_json_codec fun_upd_def cong: if_cong)
  have s8: "?R (tcp_state (Some 0) 1 [(''1'', 0)] (Some asked) (Some (TWaiting 0)) [] [] [0] [] 1)"
    using S [OF s7 tcp_step.reads [of _ 0 "''1''" "[]"]]
    by (simp add: d read_reply_def deliver_def id_json_codec idp mget_def fun_upd_def cong: if_cong)
  show ?thesis
    using S [OF s8 tcp_step.receives [of 0 _ Req asked 0 asked]]
    by (simp add: d finish_call_def set_call_def idp mdel_def fun_upd_def cong: if_cong)
qed


text \<open>A frame over the limit is refused before anything is written, and still the shared connection is retired: every other request on it is lost.\<close>

lemma oversized_send_retires:
  assumes "writeFrame (bytes p) (frame_max o1) = Inl e"
  shows "tc_out (send_call o1 i k env p c m) = tc_out m \<and> \<not> tc_alive (send_call o1 i k env p c m) c"
  using assms by (simp add: send_call_def send_def finish_call_def set_call_def)

text \<open>A reply over the limit is not replaced by an error reply: nothing is written, and the caller waits for its timeout.\<close>

lemma oversized_reply_unanswered:
  assumes "reply_payload j etext env reply err = Some p" "writeFrame (bytes p) (frame_max o1) = Inl e"
  shows "handleMessage j etext o1 env reply err wire = wire"
  using assms by (simp add: handleMessage_def)

text \<open>Two requests with one caller-chosen id: the second takes the entry of the first, and whichever returns first removes it.\<close>

lemma duplicate_id_overwrites:
  assumes "Encode j (outgoing Req rnd env) = Inr p" "\<not> tc_closed m"
  shows "mget (tc_pending (begin_call j i Req rnd env m)) (e_ID (outgoing Req rnd env)) = Some i"
  using assms by (simp add: begin_call_def set_call_def Let_def)

section \<open>The server's loops\<close>

text \<open>
  \<^verbatim>\<open>serveConn\<close> on the bytes of a connection, as a function of what the world answers in each round: whether the server is stopping,
  and whether a slot was obtained. It gives the envelopes handed to a handler, in order, and how the loop ended.
\<close>

definition chars :: "byte list \<Rightarrow> string" where
  "chars b = map (\<lambda>x. char_of (unat x)) b"

datatype serve_end = Stopping | HeaderEnded frame_error | BodyEnded frame_error | NoSlot

lemma readFrameSize_shorter: "readFrameSize m r = (Inr n, r') \<Longrightarrow> length r' < length r"
proof -
  assume a: "readFrameSize m r = (Inr n, r')"
  obtain q r1 where q: "ReadFull frameHeaderBytes r = (q, r1)" by fastforce
  with a obtain header where h: "q = Inr header" by (cases q) (auto simp: readFrameSize_def)
  with a q have "r' = r1" by (auto simp: readFrameSize_def Let_def split: if_splits)
  with q h show ?thesis by (auto simp: ReadFull_def frameHeaderBytes_def split: if_splits)
qed

lemma readFrameBody_shorter: "readFrameBody n r = (res, r') \<Longrightarrow> length r' \<le> length r"
  by (auto simp: readFrameBody_def ReadFull_def split: sum.splits frame_error.splits if_splits prod.splits)

lemma frame_shorter: "readFrameSize m r = (Inr n, r1) \<Longrightarrow> readFrameBody n r1 = (res, r2) \<Longrightarrow> length r2 < length r"
  using readFrameSize_shorter readFrameBody_shorter by (meson order.strict_trans1)

function serveConn :: "'v json \<Rightarrow> 64 word \<Rightarrow> (nat \<Rightarrow> bool) \<Rightarrow> (nat \<Rightarrow> bool) \<Rightarrow> nat \<Rightarrow> byte list \<Rightarrow> envelope list \<times> serve_end" where
  "serveConn j mx stopping acquire n r =
     (if stopping n then ([], Stopping)
      else (case readFrameSize mx r of
          (Inl e, _) \<Rightarrow> ([], HeaderEnded e)
        | (Inr sz, r1) \<Rightarrow>
            (case readFrameBody sz r1 of
               (Inl e, _) \<Rightarrow> ([], BodyEnded e)
             | (Inr payload, r2) \<Rightarrow>
                 (case DecodeEnvelope j (chars payload) of
                    Inl _ \<Rightarrow> serveConn j mx stopping acquire (Suc n) r2
                  | Inr env \<Rightarrow>
                      if \<not> acquire n then ([], NoSlot)
                      else (case serveConn j mx stopping acquire (Suc n) r2 of (es, e) \<Rightarrow> (env # es, e))))))"
  by pat_completeness auto
termination
proof (relation "measure (\<lambda>(j, mx, stopping, acquire, n, r). length r)", goal_cases)
  case 1
  then show ?case by simp
next
  case (2 j mx stopping acquire n r q r1 sz q2 r2 payload e)
  then have "readFrameSize mx r = (Inr sz, r1)" "readFrameBody sz r1 = (Inr payload, r2)" by simp_all
  then show ?case by (simp add: frame_shorter)
next
  case (3 j mx stopping acquire n r q r1 sz q2 r2 payload env)
  then have "readFrameSize mx r = (Inr sz, r1)" "readFrameBody sz r1 = (Inr payload, r2)" by simp_all
  then show ?case by (simp add: frame_shorter)
qed

declare serveConn.simps [simp del]

lemma chars_bytes [simp]: "chars (bytes s) = s"
proof -
  have "char_of (unat (word_of_nat (of_char c) :: byte)) = c" for c :: char
  proof -
    have "unat (word_of_nat (of_char c) :: byte) = of_char c" by (simp add: unat_of_nat take_bit_nat_eq_self)
    then show ?thesis by (simp del: unsigned_of_nat)
  qed
  then show ?thesis by (simp add: chars_def bytes_def comp_def)
qed

text \<open>
  A server that is not stopped reads what a client wrote: it dispatches exactly the envelopes decoded from the payloads, in order, and
  ends cleanly; a payload that does not decode costs that message only.
\<close>

fun decoded :: "'v json \<Rightarrow> string list \<Rightarrow> envelope list" where
  "decoded j [] = []"
| "decoded j (p # ps) = (case DecodeEnvelope j p of Inl _ \<Rightarrow> decoded j ps | Inr env \<Rightarrow> env # decoded j ps)"

lemma readFrame_split:
  assumes "readFrame m r = (Inr p, r2)"
  obtains sz r1 where "readFrameSize m r = (Inr sz, r1)" "readFrameBody sz r1 = (Inr p, r2)"
proof -
  obtain q r1 where q: "readFrameSize m r = (q, r1)" by fastforce
  with assms obtain sz where "q = Inr sz" by (cases q) (auto simp: readFrame_def)
  with assms q that show thesis by (simp add: readFrame_def)
qed

lemma serveConn_written:
  assumes "list_all2 (\<lambda>p w. writeFrame (bytes p) mx = Inr w) ps ws" "sint (max_frame mx) < 2 ^ 32"
  shows "serveConn j mx (\<lambda>_. False) (\<lambda>_. True) n (concat ws) = (decoded j ps, HeaderEnded EOF)"
  using assms(1)
proof (induction ps ws arbitrary: n rule: list_all2_induct)
  case Nil
  then show ?case
    by (simp add: serveConn.simps readFrameSize_def ReadFull_def frameHeaderBytes_def)
next
  case (Cons p ps w ws)
  from readFrame_written [OF Cons(1) assms(2) order_refl, of "concat ws"]
  obtain sz r1 where r: "readFrameSize mx (w @ concat ws) = (Inr sz, r1)" "readFrameBody sz r1 = (Inr (bytes p), concat ws)"
    by (rule readFrame_split)
  show ?case
    using Cons.IH r
    by (simp add: serveConn.simps [of j mx _ _ n "w @ concat ws"] split: sum.splits)
qed

text \<open>
  \<^verbatim>\<open>Listen\<close>: the checks, binding, and the accept loop as a function of what each round meets: a slot or the end while waiting for one,
  and the outcome of \<^verbatim>\<open>Accept\<close> with what is known of the context and of \<^verbatim>\<open>closed\<close> when it fails. The value is the error it returns,
  with the connections it accepted, or nothing when the loop has not ended within the given rounds.
\<close>

datatype slot_wait = GotSlot | SlotCanceled | SlotClosed

datatype accept_failure = NetClosed | NetTimeout | NetOther string

datatype accept_outcome = Accepted nat | AcceptFails bool bool accept_failure

fun accept_loop :: "(slot_wait \<times> accept_outcome) list \<Rightarrow> nat list \<times> tcp_error option option" where
  "accept_loop [] = ([], None)"
| "accept_loop ((SlotCanceled, _) # evs) = ([], Some None)"
| "accept_loop ((SlotClosed, _) # evs) = ([], Some (Some TransportClosed))"
| "accept_loop ((GotSlot, Accepted c) # evs) = (case accept_loop evs of (cs, res) \<Rightarrow> (c # cs, res))"
| "accept_loop ((GotSlot, AcceptFails canceled closed f) # evs) =
     (if canceled then ([], Some None)
      else if closed then ([], Some (Some TransportClosed))
      else (case f of
          NetClosed \<Rightarrow> ([], Some None)
        | NetTimeout \<Rightarrow> accept_loop evs
        | NetOther e \<Rightarrow> ([], Some (Some (AcceptError e)))))"

definition Listen_tcp :: "'tls tcp_options \<Rightarrow> 'd option \<Rightarrow> bool \<Rightarrow> string option \<Rightarrow> bool \<Rightarrow> (slot_wait \<times> accept_outcome) list \<Rightarrow>
    nat list \<times> tcp_error option option" where
  "Listen_tcp o1 dispatch closed bindErr listening evs =
     (if dispatch = None then ([], Some (Some NilDispatcher))
      else if to_Addr o1 = [] then ([], Some (Some ListenAddrRequired))
      else if closed then ([], Some (Some TransportClosed))
      else (case bindErr of
          Some e \<Rightarrow> ([], Some (Some (ListenError e)))
        | None \<Rightarrow> if listening then ([], Some (Some AlreadyListening)) else accept_loop evs))"

text \<open>A timeout of \<^verbatim>\<open>Accept\<close> does not stop the server, and an error it reports is a failure of \<^verbatim>\<open>Accept\<close> while neither cancelled nor closed.\<close>

lemma accept_loop_error:
  "snd (accept_loop evs) = Some (Some (AcceptError e)) \<Longrightarrow> (GotSlot, AcceptFails False False (NetOther e)) \<in> set evs"
  by (induction evs rule: accept_loop.induct) (auto split: prod.splits if_splits accept_failure.splits)

text \<open>The answer of \<^verbatim>\<open>Close\<close> after the state change: whether the handlers and then the reader of replies ended in time.\<close>

datatype close_error = HandlersTimedOut int | ReaderTimedOut int

definition Close_wait :: "'tls tcp_options \<Rightarrow> bool \<Rightarrow> bool \<Rightarrow> close_error option" where
  "Close_wait o1 handlersDone readerDone =
     (if \<not> handlersDone then Some (HandlersTimedOut (to_ShutdownTimeout o1))
      else if \<not> readerDone then Some (ReaderTimedOut (to_ShutdownTimeout o1))
      else None)"

end
