(* ===== verification/Subscriptions.thy ===== *)
theory Subscriptions
  imports Router
begin

text \<open>
  The contract between a broker transport and the server: the transport subscribes according to
  a plan, the broker delivers a published message once per matching subscription, and the
  transport hands on the deliveries it accepts. What the server needs is that a message some
  handler pattern covers is handed on exactly once, and any other message never. The behaviour
  of the broker is an argument \<open>m\<close> with documented laws.
\<close>

text \<open>What reaches the dispatcher of a sequence of published subjects.\<close>

definition handed_on :: "(string \<Rightarrow> 'd list) \<Rightarrow> ('d \<Rightarrow> string \<Rightarrow> bool) \<Rightarrow> string list \<Rightarrow> string list" where
  "handed_on deliveries accepts ss =
     concat (map (\<lambda>s. map (\<lambda>_. s) (filter (\<lambda>d. accepts d s) (deliveries s))) ss)"

locale exactly_once =
  fixes laws :: "'m \<Rightarrow> bool"
    and planned :: "'p \<Rightarrow> bool"
    and covers :: "'p \<Rightarrow> string \<Rightarrow> bool"
    and deliveries :: "'m \<Rightarrow> 'p \<Rightarrow> string \<Rightarrow> 'd list"
    and accepts :: "'p \<Rightarrow> 'd \<Rightarrow> string \<Rightarrow> bool"
  assumes covered: "laws m \<Longrightarrow> planned p \<Longrightarrow> covers p s \<Longrightarrow>
      \<exists>d. filter (\<lambda>d. accepts p d s) (deliveries m p s) = [d]"
    and uncovered: "laws m \<Longrightarrow> planned p \<Longrightarrow> \<not> covers p s \<Longrightarrow>
      filter (\<lambda>d. accepts p d s) (deliveries m p s) = []"
begin

lemma handed_on_covered:
  "laws m \<Longrightarrow> planned p \<Longrightarrow> handed_on (deliveries m p) (accepts p) ss = filter (covers p) ss"
proof (induction ss)
  case (Cons s ss)
  then show ?case using covered [of m p s] uncovered [of m p s]
    by (cases "covers p s") (auto simp: handed_on_def)
qed (simp add: handed_on_def)

lemma accepted_count:
  "laws m \<Longrightarrow> planned p \<Longrightarrow> length (filter (\<lambda>d. accepts p d s) (deliveries m p s)) = (if covers p s then 1 else 0)"
  using covered [of m p s] uncovered [of m p s] by (cases "covers p s") auto

end

end
