(* ===== verification/Redismq.thy ===== *)
theory Redismq
  imports Subscriptions
begin

text \<open>
  The subscription plan of the Redis transport (\<^verbatim>\<open>transport/redismq/pattern.go\<close>): literal patterns
  become channels, wildcard patterns become globs, and of the several deliveries Redis makes for
  a message that matches several subscriptions exactly one is accepted, the one whose pattern
  the router would pick. Redis's glob matcher is a parameter with the documented meaning of
  the syntax.
\<close>

section \<open>The code\<close>

definition replyNamespace :: string where
  "replyNamespace = ''reply:''"

abbreviation backslash :: char where
  "backslash \<equiv> CHR 0x5C"

fun toRedisPattern :: "string \<Rightarrow> string" where
  "toRedisPattern [] = []"
| "toRedisPattern (c # cs) =
     (if c = CHR ''['' \<or> c = CHR '']'' \<or> c = backslash then backslash # c # toRedisPattern cs
      else c # toRedisPattern cs)"

fun escapeGlob :: "string \<Rightarrow> string" where
  "escapeGlob [] = []"
| "escapeGlob (c # cs) =
     (if c = CHR ''*'' \<or> c = CHR ''?'' \<or> c = CHR ''['' \<or> c = CHR '']'' \<or> c = backslash
      then backslash # c # escapeGlob cs else c # escapeGlob cs)"

datatype redis_error =
    RedisPattern pattern_error
  | RedisReserved string
  | PrefixEmpty
  | NoPatterns

definition messageChannel :: "string \<Rightarrow> string \<Rightarrow> (redis_error, string) result" where
  "messageChannel pfx pattern =
     (case Validate pattern of
        Some e \<Rightarrow> Inl (RedisPattern e)
      | None \<Rightarrow>
          if HasPrefix pattern replyNamespace then Inl (RedisReserved pattern)
          else Inr (pfx @ '':'' @ pattern))"

record globSub =
  glob :: string
  gpattern :: pattern

record plan =
  pl_prefix :: string
  pl_channels :: "string list"
  pl_globs :: "globSub list"
  pl_literal :: "string list"

text \<open>The loop over the patterns; \<open>seenGlob\<close> and \<open>literal\<close> are sets in the source.\<close>

fun plan_loop :: "string \<Rightarrow> string list \<Rightarrow> string list \<Rightarrow> plan \<Rightarrow> (redis_error, plan) result" where
  "plan_loop escapedPrefix [] seenGlob p = Inr p"
| "plan_loop escapedPrefix (pattern # patterns) seenGlob p =
     (case Validate pattern of
        Some e \<Rightarrow> Inl (RedisPattern e)
      | None \<Rightarrow>
          if HasPrefix pattern replyNamespace then Inl (RedisReserved pattern)
          else if IsWildcard pattern then
            (let g = escapedPrefix @ toRedisPattern pattern
             in if g \<in> set seenGlob then plan_loop escapedPrefix patterns seenGlob p
                else plan_loop escapedPrefix patterns (g # seenGlob)
                  (p\<lparr>pl_globs := pl_globs p @ [\<lparr>glob = g, gpattern = pattern\<rparr>]\<rparr>))
          else
            (let channel = pl_prefix p @ '':'' @ pattern
             in if channel \<in> set (pl_literal p) then plan_loop escapedPrefix patterns seenGlob p
                else plan_loop escapedPrefix patterns seenGlob
                  (p\<lparr>pl_literal := channel # pl_literal p, pl_channels := pl_channels p @ [channel]\<rparr>)))"

definition newPlan :: "string \<Rightarrow> string list \<Rightarrow> (redis_error, plan) result" where
  "newPlan pfx patterns =
     (if pfx = '''' then Inl PrefixEmpty
      else and_then (plan_loop (escapeGlob (pfx @ '':'')) patterns []
          \<lparr>pl_prefix = pfx, pl_channels = [], pl_globs = [], pl_literal = []\<rparr>)
        (\<lambda>p. if pl_channels p = [] \<and> pl_globs p = [] then Inl NoPatterns else Inr p))"

definition subject :: "plan \<Rightarrow> string \<Rightarrow> string option" where
  "subject p channel =
     (let pfx = pl_prefix p @ '':''
      in if \<not> HasPrefix channel pfx then None else Some (drop (length pfx) channel))"

fun accept_loop :: "globSub list \<Rightarrow> string \<Rightarrow> string \<Rightarrow> bool" where
  "accept_loop [] deliveredPattern subj = True"
| "accept_loop (g # gs) deliveredPattern subj =
     (if Match (gpattern g) subj then glob g = deliveredPattern
      else accept_loop gs deliveredPattern subj)"

definition accept :: "plan \<Rightarrow> string \<Rightarrow> string \<Rightarrow> bool" where
  "accept p deliveredPattern channel =
     (if channel \<in> set (pl_literal p) then deliveredPattern = ''''
      else if deliveredPattern = '''' then True
      else (case subject p channel of
          None \<Rightarrow> True
        | Some s \<Rightarrow> accept_loop (pl_globs p) deliveredPattern s))"

section \<open>Redis\<close>

text \<open>
  The documented glob syntax, as far as the translated patterns use it: a star matches any run,
  a question mark any one character, a backslash takes the next character literally, and any
  character other than an opening bracket stands for itself.
\<close>

definition redis_glob :: "(string \<Rightarrow> string \<Rightarrow> bool) \<Rightarrow> bool" where
  "redis_glob gm \<longleftrightarrow>
     (\<forall>s. gm [] s \<longleftrightarrow> s = []) \<and>
     (\<forall>p s. gm (CHR ''*'' # p) s \<longleftrightarrow> (\<exists>k \<le> length s. gm p (drop k s))) \<and>
     (\<forall>p s. gm (CHR ''?'' # p) s \<longleftrightarrow> s \<noteq> [] \<and> gm p (tl s)) \<and>
     (\<forall>c p s. gm (backslash # c # p) s \<longleftrightarrow> s \<noteq> [] \<and> hd s = c \<and> gm p (tl s)) \<and>
     (\<forall>c p s. c \<notin> {CHR ''*'', CHR ''?'', CHR ''['', backslash} \<longrightarrow>
        (gm (c # p) s \<longleftrightarrow> s \<noteq> [] \<and> hd s = c \<and> gm p (tl s)))"

text \<open>What a subscriber with this plan receives of a message: one delivery per matching subscription.\<close>

definition redis_deliveries :: "(string \<Rightarrow> string \<Rightarrow> bool) \<Rightarrow> plan \<Rightarrow> string \<Rightarrow> string list" where
  "redis_deliveries gm p channel =
     (if channel \<in> set (pl_channels p) then [''''] else []) @
     map glob (filter (\<lambda>g. gm (glob g) channel) (pl_globs p))"

section \<open>The translation\<close>

lemma glob_escaped:
  assumes "redis_glob gm"
  shows "gm (escapeGlob e @ p) s \<longleftrightarrow> (\<exists>t. s = e @ t \<and> gm p t)"
proof (induction e arbitrary: s)
  case (Cons c e)
  have "gm (escapeGlob (c # e) @ p) s \<longleftrightarrow> s \<noteq> [] \<and> hd s = c \<and> gm (escapeGlob e @ p) (tl s)"
    using assms by (auto simp: redis_glob_def)
  with Cons show ?case by (cases s) auto
qed simp

lemma glob_translated:
  assumes "redis_glob gm"
  shows "gm (toRedisPattern p) s \<longleftrightarrow> matches p s"
proof (induction p arbitrary: s)
  case Nil
  then show ?case using assms by (auto simp: redis_glob_def intro: matches_Nil elim: matches.cases)
next
  case (Cons c p)
  consider "c = CHR ''*''" | "c = CHR ''?''" | "c \<noteq> CHR ''*''" "c \<noteq> CHR ''?''" by blast
  then show ?case
  proof cases
    case 1
    then have "gm (toRedisPattern (c # p)) s \<longleftrightarrow> (\<exists>k \<le> length s. gm (toRedisPattern p) (drop k s))"
      using assms by (simp add: redis_glob_def)
    with 1 Cons show ?thesis by (simp add: matches_run_iff)
  next
    case 2
    then have "gm (toRedisPattern (c # p)) s \<longleftrightarrow> s \<noteq> [] \<and> gm (toRedisPattern p) (tl s)"
      using assms by (simp add: redis_glob_def)
    with 2 Cons show ?thesis by (cases s) (auto simp: matches_any_iff)
  next
    case 3
    then have "gm (toRedisPattern (c # p)) s \<longleftrightarrow> s \<noteq> [] \<and> hd s = c \<and> gm (toRedisPattern p) (tl s)"
      using assms by (auto simp: redis_glob_def)
    with 3 Cons show ?thesis by (cases s) (auto simp: matches_lit_iff)
  qed
qed

lemma toRedisPattern_inj: "toRedisPattern p = toRedisPattern q \<Longrightarrow> p = q"
proof (induction p arbitrary: q)
  case Nil
  then show ?case by (cases q) (auto split: if_splits)
next
  case (Cons c p)
  then show ?case by (cases q) (auto split: if_splits)
qed

text \<open>A subscription of the plan matches a channel of the namespace exactly when its pattern matches the subject.\<close>

lemma glob_subscription:
  "redis_glob gm \<Longrightarrow> gm (escapeGlob (pfx @ '':'') @ toRedisPattern w) (pfx @ '':'' @ s) \<longleftrightarrow> matches w s"
  using glob_escaped [of gm "pfx @ '':''" "toRedisPattern w" "pfx @ '':'' @ s"]
  by (simp add: glob_translated)

section \<open>The plan\<close>

text \<open>What the loop has collected from a list of patterns.\<close>

definition plan_of :: "string \<Rightarrow> string list \<Rightarrow> plan \<Rightarrow> bool" where
  "plan_of pfx ws p \<longleftrightarrow> pl_prefix p = pfx \<and>
     set (pl_channels p) = (\<lambda>w. pfx @ '':'' @ w) ` {w \<in> set ws. \<not> IsWildcard w} \<and>
     set (pl_literal p) = set (pl_channels p) \<and> distinct (pl_channels p) \<and> distinct (map glob (pl_globs p)) \<and>
     (\<forall>g \<in> set (pl_globs p). glob g = escapeGlob (pfx @ '':'') @ toRedisPattern (gpattern g)) \<and>
     gpattern ` set (pl_globs p) = {w \<in> set ws. IsWildcard w} \<and>
     (distinct ws \<longrightarrow> map gpattern (pl_globs p) = filter IsWildcard ws)"

lemma plan_loop_of:
  assumes "plan_loop (escapeGlob (pfx @ '':'')) ps seen p = Inr p'" and "plan_of pfx ws p"
    and "set seen = glob ` set (pl_globs p)"
  shows "plan_of pfx (ws @ ps) p'"
  using assms
proof (induction ps arbitrary: ws seen p)
  case (Cons w ps)
  let ?E = "escapeGlob (pfx @ '':'')"
  let ?g = "?E @ toRedisPattern w"
  have seen: "?g \<in> set seen \<longleftrightarrow> w \<in> gpattern ` set (pl_globs p)"
    using Cons.prems(2,3) by (fastforce simp: plan_of_def dest: toRedisPattern_inj)
  have mem: "w \<in> gpattern ` set (pl_globs p) \<longleftrightarrow> w \<in> set ws \<and> IsWildcard w"
    "pfx @ '':'' @ w \<in> set (pl_literal p) \<longleftrightarrow> w \<in> set ws \<and> \<not> IsWildcard w"
    using Cons.prems(2) by (auto simp: plan_of_def)
  consider (old) "w \<in> set ws" | (wild) "w \<notin> set ws" "IsWildcard w" | (lit) "w \<notin> set ws" "\<not> IsWildcard w" by blast
  then show ?case
  proof cases
    case old
    then have "plan_of pfx (ws @ [w]) p" using Cons.prems(2) by (auto simp: plan_of_def)
    moreover have "plan_loop ?E ps seen p = Inr p'"
      using Cons.prems(1,2) old seen mem by (auto simp: plan_of_def Let_def split: option.splits if_splits)
    ultimately show ?thesis using Cons.IH [of seen p "ws @ [w]"] Cons.prems(3) by simp
  next
    case wild
    let ?p = "p\<lparr>pl_globs := pl_globs p @ [\<lparr>glob = ?g, gpattern = w\<rparr>]\<rparr>"
    have "?g \<notin> glob ` set (pl_globs p)" using seen mem wild Cons.prems(3) by simp
    then have "plan_of pfx (ws @ [w]) ?p" using Cons.prems(2) wild by (auto simp: plan_of_def)
    moreover have "plan_loop ?E ps (?g # seen) ?p = Inr p'"
      using Cons.prems(1) wild seen mem by (auto simp: Let_def split: option.splits if_splits)
    ultimately show ?thesis using Cons.IH [of "?g # seen" ?p "ws @ [w]"] Cons.prems(3) by simp
  next
    case lit
    let ?p = "p\<lparr>pl_literal := (pfx @ '':'' @ w) # pl_literal p, pl_channels := pl_channels p @ [pfx @ '':'' @ w]\<rparr>"
    have "pl_prefix p = pfx" using Cons.prems(2) by (simp add: plan_of_def)
    then have "plan_loop ?E ps seen ?p = Inr p'"
      using Cons.prems(1) lit mem by (auto simp: Let_def split: option.splits if_splits)
    moreover have "plan_of pfx (ws @ [w]) ?p" using Cons.prems(2) lit mem by (auto simp: plan_of_def)
    ultimately show ?thesis using Cons.IH [of seen ?p "ws @ [w]"] Cons.prems(3) by simp
  qed
qed simp

lemma newPlan_of:
  assumes "newPlan pfx ws = Inr p"
  shows "plan_of pfx ws p" "pfx \<noteq> ''''"
proof -
  from assms show "pfx \<noteq> ''''" by (auto simp: newPlan_def split: if_splits)
  from assms have "plan_loop (escapeGlob (pfx @ '':'')) ws []
      \<lparr>pl_prefix = pfx, pl_channels = [], pl_globs = [], pl_literal = []\<rparr> = Inr p"
    by (auto simp: newPlan_def and_then_Inr_iff split: if_splits)
  from plan_loop_of [OF this, of "[]"] show "plan_of pfx ws p" by (simp add: plan_of_def)
qed

section \<open>Deliveries\<close>

lemma accept_loop_find:
  "accept_loop gs d s = (case find (\<lambda>g. Match (gpattern g) s) gs of None \<Rightarrow> True | Some g \<Rightarrow> glob g = d)"
  by (induction gs) auto

lemma filter_eq_distinct: "distinct xs \<Longrightarrow> filter (\<lambda>d. x = d) xs = (if x \<in> set xs then [x] else [])"
  by (induction xs) auto

lemma subject_channel: "subject p (pl_prefix p @ '':'' @ s) = Some s"
  by (simp add: subject_def HasPrefix_def Let_def)

text \<open>The owner of a subject: the plain subscription if there is one, else the first matching glob.\<close>

definition owner :: "plan \<Rightarrow> string \<Rightarrow> string option" where
  "owner p s =
     (if pl_prefix p @ '':'' @ s \<in> set (pl_literal p) then Some ''''
      else map_option glob (find (\<lambda>g. Match (gpattern g) s) (pl_globs p)))"

lemma accepted_deliveries:
  assumes "newPlan pfx ws = Inr p" and gm: "redis_glob gm"
  shows "filter (\<lambda>d. accept p d (pfx @ '':'' @ s)) (redis_deliveries gm p (pfx @ '':'' @ s)) =
    (case owner p s of None \<Rightarrow> [] | Some d \<Rightarrow> [d])"
proof -
  let ?ch = "pfx @ '':'' @ s"
  note plan = newPlan_of [OF assms(1)]
  have P: "pl_prefix p = pfx" "set (pl_literal p) = set (pl_channels p)" "distinct (map glob (pl_globs p))"
    and G: "\<And>g. g \<in> set (pl_globs p) \<Longrightarrow> glob g = escapeGlob (pfx @ '':'') @ toRedisPattern (gpattern g)"
    using plan(1) by (auto simp: plan_of_def)
  have "escapeGlob (pfx @ '':'') \<noteq> []" by (cases pfx) auto
  then have ne: "glob g \<noteq> ''''" if "g \<in> set (pl_globs p)" for g using G [OF that] by simp
  have hit: "gm (glob g) ?ch \<longleftrightarrow> Match (gpattern g) s" if "g \<in> set (pl_globs p)" for g
    using G [OF that] glob_subscription [OF gm] by (simp add: Match_iff_matches)
  show ?thesis
  proof (cases "?ch \<in> set (pl_literal p)")
    case True
    have "filter (\<lambda>d. d = '''') (map glob (filter (\<lambda>g. gm (glob g) ?ch) (pl_globs p))) = []"
      using ne by (auto simp: filter_empty_conv)
    with True P show ?thesis by (simp add: accept_def redis_deliveries_def owner_def)
  next
    case False
    let ?ds = "map glob (filter (\<lambda>g. Match (gpattern g) s) (pl_globs p))"
    have ds: "redis_deliveries gm p ?ch = ?ds"
      using False P(2) hit by (auto simp: redis_deliveries_def intro!: map_cong filter_cong)
    have acc: "accept p d ?ch \<longleftrightarrow> accept_loop (pl_globs p) d s" if "d \<in> set ?ds" for d
      using that ne False subject_channel [of p s] P(1) by (auto simp: accept_def)
    have "filter (\<lambda>d. accept p d ?ch) ?ds = filter (\<lambda>d. accept_loop (pl_globs p) d s) ?ds"
      by (rule filter_cong [OF refl]) (rule acc)
    also have "\<dots> = (case find (\<lambda>g. Match (gpattern g) s) (pl_globs p) of None \<Rightarrow> [] | Some g \<Rightarrow> [glob g])"
    proof (cases "find (\<lambda>g. Match (gpattern g) s) (pl_globs p)")
      case None
      then have "?ds = []" by (simp add: find_None_iff filter_empty_conv)
      with None show ?thesis by simp
    next
      case (Some g)
      then have g: "g \<in> set (pl_globs p)" "Match (gpattern g) s" by (auto simp: find_Some_iff)
      have "distinct ?ds" using P(3) by (rule distinct_map_filter)
      from filter_eq_distinct [OF this, of "glob g"] g Some show ?thesis
        by (auto simp: accept_loop_find)
    qed
    finally show ?thesis using ds False P(1) by (simp add: owner_def split: option.splits)
  qed
qed

definition redis_covers :: "plan \<Rightarrow> string \<Rightarrow> bool" where
  "redis_covers p s \<longleftrightarrow> owner p s \<noteq> None"

definition redis_planned :: "plan \<Rightarrow> bool" where
  "redis_planned p \<longleftrightarrow> (\<exists>pfx ws. newPlan pfx ws = Inr p)"

lemma redis_planned_prefix: "newPlan pfx ws = Inr p \<Longrightarrow> pl_prefix p = pfx"
  using newPlan_of(1) by (simp add: plan_of_def)

interpretation redis: exactly_once redis_glob redis_planned redis_covers
  "\<lambda>gm p s. redis_deliveries gm p (pl_prefix p @ '':'' @ s)" "\<lambda>p d s. accept p d (pl_prefix p @ '':'' @ s)"
proof
  fix gm p s
  assume gm: "redis_glob gm" and "redis_planned p"
  then obtain pfx ws where plan: "newPlan pfx ws = Inr p" by (auto simp: redis_planned_def)
  note a = accepted_deliveries [OF plan gm, of s]
  show "\<exists>d. filter (\<lambda>d. accept p d (pl_prefix p @ '':'' @ s)) (redis_deliveries gm p (pl_prefix p @ '':'' @ s)) = [d]"
    if "redis_covers p s"
    using that a redis_planned_prefix [OF plan] by (auto simp: redis_covers_def)
  show "filter (\<lambda>d. accept p d (pl_prefix p @ '':'' @ s)) (redis_deliveries gm p (pl_prefix p @ '':'' @ s)) = []"
    if "\<not> redis_covers p s"
    using that a redis_planned_prefix [OF plan] by (auto simp: redis_covers_def)
qed

lemma redis_covers_patterns:
  assumes "newPlan pfx ws = Inr p"
  shows "redis_covers p s \<longleftrightarrow> (\<exists>w \<in> set ws. Match w s)"
proof -
  note plan = newPlan_of(1) [OF assms]
  have lit: "pl_prefix p @ '':'' @ s \<in> set (pl_literal p) \<longleftrightarrow> s \<in> set ws \<and> \<not> IsWildcard s"
    using plan by (auto simp: plan_of_def)
  have "find (\<lambda>g. Match (gpattern g) s) (pl_globs p) \<noteq> None \<longleftrightarrow> (\<exists>w \<in> gpattern ` set (pl_globs p). Match w s)"
    by (auto simp: find_None_iff)
  also have "\<dots> \<longleftrightarrow> (\<exists>w \<in> set ws. IsWildcard w \<and> Match w s)" using plan by (auto simp: plan_of_def)
  finally have wild: "find (\<lambda>g. Match (gpattern g) s) (pl_globs p) \<noteq> None \<longleftrightarrow> (\<exists>w \<in> set ws. IsWildcard w \<and> Match w s)" .
  have "Match w s \<longleftrightarrow> s = w" if "\<not> IsWildcard w" for w using that by (simp add: Match_iff_matches matches_literal)
  then show ?thesis using lit wild unfolding redis_covers_def owner_def by (auto split: if_splits)
qed

text \<open>With the patterns of a router, in the router's order, the owner is the route the router picks.\<close>

lemma owner_is_resolved:
  assumes "newPlan pfx (Patterns h r) = Inr p" and inv: "router_inv h r"
  shows "owner p s = (case fst (snd (Resolve h r s)) of None \<Rightarrow> None
    | Some a \<Rightarrow> Some (if IsWildcard (r_pattern (h a)) then escapeGlob (pfx @ '':'') @ toRedisPattern (r_pattern (h a)) else ''''))"
proof -
  note plan = newPlan_of(1) [OF assms(1)]
  from inv have ok: "exact_ok h (exact r)" "wild_ok h (wild r)" "cache_ok h r" by (auto simp: router_inv_def)
  have lit: "\<not> IsWildcard k" if "k \<in> set (mkeys (exact r))" for k
    using that ok(1) by (auto simp: mkeys_def exact_ok_def)
  have wld: "IsWildcard (r_pattern (h a))" if "a \<in> set (wild r)" for a using that ok(2) by (auto simp: wild_ok_def)
  have "filter IsWildcard (Patterns h r) = map (\<lambda>a. r_pattern (h a)) (wild r)"
    using lit wld by (auto simp: Patterns_def filter_empty_conv intro!: filter_True)
  then have globs: "map gpattern (pl_globs p) = map (\<lambda>a. r_pattern (h a)) (wild r)"
    using plan set_Patterns(2) [OF inv] by (simp add: plan_of_def)
  have literal: "pl_prefix p @ '':'' @ s \<in> set (pl_literal p) \<longleftrightarrow> mget (exact r) s \<noteq> None"
  proof -
    have "pl_prefix p @ '':'' @ s \<in> set (pl_literal p) \<longleftrightarrow> s \<in> set (Patterns h r) \<and> \<not> IsWildcard s"
      using plan by (auto simp: plan_of_def)
    also have "\<dots> \<longleftrightarrow> s \<in> set (mkeys (exact r))" using lit wld by (auto simp: Patterns_def)
    finally show ?thesis by (simp add: mget_None_iff)
  qed
  have G: "glob g = escapeGlob (pfx @ '':'') @ toRedisPattern (gpattern g)" if "g \<in> set (pl_globs p)" for g
    using plan that by (simp add: plan_of_def)
  have scan: "map_option gpattern (find (\<lambda>g. Match (gpattern g) s) gs) = map_option (\<lambda>a. r_pattern (h a)) (find (\<lambda>a. Match (r_pattern (h a)) s) as)"
    if "map gpattern gs = map (\<lambda>a. r_pattern (h a)) as" for gs as
    using that by (induction gs arbitrary: as) (auto simp: Cons_eq_map_conv)
  show ?thesis
  proof (cases "mget (exact r) s")
    case (Some a)
    then have "\<not> IsWildcard (r_pattern (h a))" using exact_ok_get [OF ok(1)] by auto
    with Some literal show ?thesis by (simp add: owner_def Resolve_value [OF ok(3)])
  next
    case None
    have "map_option gpattern (find (\<lambda>g. Match (gpattern g) s) (pl_globs p)) = map_option (\<lambda>a. r_pattern (h a)) (scan_wild h r s)"
      using scan [OF globs] by (simp add: scan_wild_def)
    moreover have "IsWildcard (r_pattern (h a))" if "scan_wild h r s = Some a" for a
      using that wld by (auto simp: scan_wild_def find_Some_iff)
    ultimately show ?thesis using None literal G
      by (cases "scan_wild h r s"; cases "find (\<lambda>g. Match (gpattern g) s) (pl_globs p)")
        (auto simp: owner_def Resolve_value [OF ok(3)] find_Some_iff)
  qed
qed

section \<open>Properties\<close>

text \<open>
  Over Redis every message is handled exactly once, by the handler the router picks: for a
  plan made of the patterns of a router, and any glob matcher with the documented meaning, of
  all the deliveries Redis makes for a published subject exactly one is accepted if some
  pattern matches and none otherwise, it is the plain one exactly when the router resolves
  the subject to a literal route, and else the one of the glob translated from the pattern of
  the route the router resolves to; so of any sequence of messages exactly the covered ones
  are handed on, in order.
\<close>

theorem redis_exactly_once:
  assumes "newPlan pfx (Patterns h r) = Inr p" and "router_reach h r" and "redis_glob gm"
  shows "filter (\<lambda>d. accept p d (pfx @ '':'' @ s)) (redis_deliveries gm p (pfx @ '':'' @ s)) =
      (case fst (snd (Resolve h r s)) of None \<Rightarrow> []
       | Some a \<Rightarrow> [if IsWildcard (r_pattern (h a)) then escapeGlob (pfx @ '':'') @ toRedisPattern (r_pattern (h a)) else '''']) \<and>
    (fst (snd (Resolve h r s)) \<noteq> None \<longleftrightarrow> (\<exists>w \<in> set (Patterns h r). Match w s)) \<and>
    handed_on (\<lambda>s. redis_deliveries gm p (pfx @ '':'' @ s)) (\<lambda>d s. accept p d (pfx @ '':'' @ s)) ss =
      filter (\<lambda>s. \<exists>w \<in> set (Patterns h r). Match w s) ss"
proof -
  note inv = router_reach_inv [OF assms(2)]
  have own: "filter (\<lambda>d. accept p d (pfx @ '':'' @ s)) (redis_deliveries gm p (pfx @ '':'' @ s)) =
      (case fst (snd (Resolve h r s)) of None \<Rightarrow> []
       | Some a \<Rightarrow> [if IsWildcard (r_pattern (h a)) then escapeGlob (pfx @ '':'') @ toRedisPattern (r_pattern (h a)) else ''''])"
    unfolding accepted_deliveries [OF assms(1,3)] owner_is_resolved [OF assms(1) inv] by (simp split: option.splits)
  have "fst (snd (Resolve h r s)) \<noteq> None \<longleftrightarrow> redis_covers p s"
    by (simp add: redis_covers_def owner_is_resolved [OF assms(1) inv] split: option.splits)
  moreover have "redis_planned p" using assms(1) by (auto simp: redis_planned_def)
  moreover have "redis_covers p = (\<lambda>s. \<exists>w \<in> set (Patterns h r). Match w s)"
    using redis_covers_patterns [OF assms(1)] by (simp add: fun_eq_iff)
  ultimately show ?thesis
    using own redis.handed_on_covered [OF assms(3), of p ss] redis_planned_prefix [OF assms(1)] by simp
qed

text \<open>A glob matcher with the documented meaning.\<close>

fun glob_ref :: "string \<Rightarrow> string \<Rightarrow> bool" where
  "glob_ref [] s = (s = [])"
| "glob_ref (c # p) s =
     (if c = CHR ''*'' then (\<exists>k \<in> set [0..<Suc (length s)]. glob_ref p (drop k s))
      else if c = CHR ''?'' then s \<noteq> [] \<and> glob_ref p (tl s)
      else if c = backslash then (case p of [] \<Rightarrow> False | d # q \<Rightarrow> s \<noteq> [] \<and> hd s = d \<and> glob_ref q (tl s))
      else s \<noteq> [] \<and> hd s = c \<and> glob_ref p (tl s))"

lemma ex_upt_Suc: "(\<exists>k \<in> set [0..<Suc n]. P k) \<longleftrightarrow> (\<exists>k \<le> n. P k)"
  by (metis atLeastLessThan_iff less_Suc_eq_le set_upt zero_le)

lemma glob_ref_star: "glob_ref (CHR ''*'' # p) s \<longleftrightarrow> (\<exists>k \<le> length s. glob_ref p (drop k s))"
  by (subst glob_ref.simps) (simp only: if_True refl ex_upt_Suc)

lemma glob_ref_ok: "redis_glob glob_ref"
  unfolding redis_glob_def by (intro conjI) (simp_all only: glob_ref_star, auto)

theorem redis_exactly_once_witness:
  "\<exists>p. newPlan ''svc'' (Patterns (fst demo) (snd demo)) = Inr p \<and>
     length (redis_deliveries glob_ref p ''svc:user_created'') = 2 \<and>
     filter (\<lambda>d. accept p d ''svc:user_created'') (redis_deliveries glob_ref p ''svc:user_created'') = ['''']"
proof -
  have "case newPlan ''svc'' (Patterns (fst demo) (snd demo)) of Inr p \<Rightarrow>
      length (redis_deliveries glob_ref p ''svc:user_created'') = 2 \<and>
      map_option (\<lambda>a. IsWildcard (r_pattern (fst demo a))) (fst (snd (Resolve (fst demo) (snd demo) ''user_created''))) = Some False
    | Inl e \<Rightarrow> False" by code_simp
  then obtain p where p: "newPlan ''svc'' (Patterns (fst demo) (snd demo)) = Inr p"
      "length (redis_deliveries glob_ref p ''svc:user_created'') = 2"
      "map_option (\<lambda>a. IsWildcard (r_pattern (fst demo a))) (fst (snd (Resolve (fst demo) (snd demo) ''user_created''))) = Some False"
    by (auto split: sum.splits)
  from redis_exactly_once [OF p(1) demo_reach glob_ref_ok, of "''user_created''" "[]"] p show ?thesis
    by (intro exI [of _ p]) (auto split: option.splits)
qed

end
