(* ===== verification/Redis_Transport.thy ===== *)
theory Redis_Transport
  imports Correlation Redismq
begin

text \<open>
  The Redis transport (\<^verbatim>\<open>transport/redismq\<close>: \<^verbatim>\<open>redismq.go\<close>, \<^verbatim>\<open>client.go\<close>, \<^verbatim>\<open>listen.go\<close>): options, messages of a call, the reply inbox, the
  subscriber's loop and the answer of a handler. Requests and replies follow the protocol of \<open>Correlation\<close>; the
  subscriber's loop is composed with the plan of \<open>Redismq\<close>. The client of Redis is a parameter: its answers are arguments.
\<close>

section \<open>Options\<close>

record 'c redis_options =
  ro_URL :: string
  ro_Client :: "'c option"
  ro_Prefix :: string
  ro_Concurrency :: int
  ro_ReplyTimeout :: int
  ro_PingTimeout :: int
  ro_HealthCheck :: bool

record 'c redis_transport =
  rt_client :: 'c
  rt_ownsClient :: bool
  rt_prefix :: string
  rt_concurrency :: int
  rt_replyTimeout :: int
  rt_pingTimeout :: int
  rt_clientID :: string
  rt_replyChannel :: string

text \<open>An error of the client is a deadline that passed or something else.\<close>

datatype net_error = NetDeadline | NetError string

datatype redis_failure =
    UrlOrClientRequired
  | UrlAndClient
  | ConcurrencyNegative
  | InvalidURL string
  | PingFailed redis_failure
  | RedisClosed
  | RedisTimeout
  | RedisError string
  | ChannelRefused redis_error
  | RedisEncode msg_error
  | PublishFailed string redis_failure
  | InboxSubscribe string
  | InboxConfirm redis_failure
  | RedisNilDispatcher
  | PlanRefused redis_error
  | SubscribeFailed string
  | ConfirmFailed redis_failure
  | SubscriptionClosed
  | CloseSubscription string
  | CloseClient string

definition redis_mapTimeout :: "net_error \<Rightarrow> redis_failure" where
  "redis_mapTimeout e = (case e of NetDeadline \<Rightarrow> RedisTimeout | NetError x \<Rightarrow> RedisError x)"

definition DefaultPrefix :: string where "DefaultPrefix = ''nika''"
definition redis_defaultConcurrency :: int where "redis_defaultConcurrency = 64"
definition redis_defaultPingTimeout :: int where "redis_defaultPingTimeout = 2000000000"

definition Ping_redis :: "bool \<Rightarrow> net_error option \<Rightarrow> redis_failure option" where
  "Ping_redis closed answer =
     (if closed then Some RedisClosed
      else (case answer of Some e \<Rightarrow> Some (PingFailed (redis_mapTimeout e)) | None \<Rightarrow> None))"

text \<open>
  \<^verbatim>\<open>New\<close>: \<open>parse\<close> is \<^verbatim>\<open>redis.ParseURL\<close> with \<^verbatim>\<open>NewClient\<close>, \<open>pinged\<close> the answer of the health check. The second component says whether the
  client was closed again: only one that \<^verbatim>\<open>New\<close> made itself, and only when the health check failed.
\<close>

definition New_redis :: "int \<Rightarrow> (string \<Rightarrow> (string, 'c) result) \<Rightarrow> ('c \<Rightarrow> net_error option) \<Rightarrow> 8 word list \<Rightarrow> 'c redis_options \<Rightarrow>
    (redis_failure, 'c redis_transport) result \<times> bool" where
  "New_redis defaultRequestTimeout parse pinged rnd o1 =
     (if ro_URL o1 = [] \<and> ro_Client o1 = None then (Inl UrlOrClientRequired, False)
      else if ro_URL o1 \<noteq> [] \<and> ro_Client o1 \<noteq> None then (Inl UrlAndClient, False)
      else if ro_Concurrency o1 < 0 then (Inl ConcurrencyNegative, False)
      else
        (let pfx = (if ro_Prefix o1 = [] then DefaultPrefix else ro_Prefix o1);
             owns = (ro_Client o1 = None);
             pingTimeout = (if ro_PingTimeout o1 \<le> 0 then redis_defaultPingTimeout else ro_PingTimeout o1)
         in case (case ro_Client o1 of Some c \<Rightarrow> Inr c | None \<Rightarrow> parse (ro_URL o1)) of
              Inl e \<Rightarrow> (Inl (InvalidURL e), False)
            | Inr c \<Rightarrow>
                (let t = \<lparr>rt_client = c, rt_ownsClient = owns, rt_prefix = pfx,
                       rt_concurrency = (if ro_Concurrency o1 = 0 then redis_defaultConcurrency else ro_Concurrency o1),
                       rt_replyTimeout = (if ro_ReplyTimeout o1 \<le> 0 then defaultRequestTimeout else ro_ReplyTimeout o1),
                       rt_pingTimeout = pingTimeout, rt_clientID = NewID rnd,
                       rt_replyChannel = pfx @ '':'' @ replyNamespace @ NewID rnd\<rparr>
                 in if ro_HealthCheck o1 then
                      (case Ping_redis False (pinged c) of
                         Some e \<Rightarrow> (Inl e, owns)
                       | None \<Rightarrow> (Inr t, False))
                    else (Inr t, False))))"

section \<open>Calls\<close>

text \<open>The message of a call: the channel and the payload, with the envelope as it was sent.\<close>

definition redis_message :: "'v json \<Rightarrow> 'c redis_transport \<Rightarrow> call_kind \<Rightarrow> 8 word list \<Rightarrow> envelope \<Rightarrow>
    (redis_failure, envelope \<times> (string \<times> string)) result" where
  "redis_message j t k rnd env =
     (case messageChannel (rt_prefix t) (e_Pattern env) of
        Inl e \<Rightarrow> Inl (ChannelRefused e)
      | Inr channel \<Rightarrow>
          (let env' = (case k of
                 Pub \<Rightarrow> env\<lparr>e_ReplyTo := []\<rparr>
               | Req \<Rightarrow> env\<lparr>e_ID := (if e_ID env = [] then NewID rnd else e_ID env), e_ReplyTo := rt_replyChannel t\<rparr>)
           in case Encode j env' of
                Inl e \<Rightarrow> Inl (RedisEncode e)
              | Inr payload \<Rightarrow> Inr (env', (channel, payload))))"

definition Publish_redis :: "'v json \<Rightarrow> 'c redis_transport \<Rightarrow> bool \<Rightarrow> (string \<Rightarrow> string \<Rightarrow> net_error option) \<Rightarrow> envelope \<Rightarrow>
    redis_failure option \<times> (string \<times> string) list" where
  "Publish_redis j t closed publish env =
     (if closed then (Some RedisClosed, [])
      else (case redis_message j t Pub [] env of
          Inl e \<Rightarrow> (Some e, [])
        | Inr (env', (channel, payload)) \<Rightarrow>
            (case publish channel payload of
               Some e \<Rightarrow> (Some (PublishFailed channel (redis_mapTimeout e)), [])
             | None \<Rightarrow> (None, [(channel, payload)]))))"

text \<open>
  \<^verbatim>\<open>ensureReplies\<close>: the inbox is subscribed to and confirmed once; a failure leaves it unsubscribed, so that the next request tries again.
  The second component says whether there is a subscription afterwards.
\<close>

definition ensureReplies :: "bool \<Rightarrow> bool \<Rightarrow> string option \<Rightarrow> net_error option \<Rightarrow> redis_failure option \<times> bool" where
  "ensureReplies subscribed closed subscribeErr confirmErr =
     (if subscribed then (None, True)
      else if closed then (Some RedisClosed, False)
      else (case subscribeErr of
          Some e \<Rightarrow> (Some (InboxSubscribe e), False)
        | None \<Rightarrow>
            (case confirmErr of
               Some e \<Rightarrow> (Some (InboxConfirm (redis_mapTimeout e)), False)
             | None \<Rightarrow> (None, True))))"

text \<open>\<^verbatim>\<open>Request\<close> up to the wait: what it publishes, after the inbox is confirmed, or the error it returns.\<close>

definition Request_redis :: "'v json \<Rightarrow> 'c redis_transport \<Rightarrow> bool \<Rightarrow> bool \<Rightarrow> string option \<Rightarrow> net_error option \<Rightarrow> 8 word list \<Rightarrow> envelope \<Rightarrow>
    (redis_failure, envelope \<times> (string \<times> string)) result \<times> bool" where
  "Request_redis j t closed subscribed subscribeErr confirmErr rnd env =
     (if closed then (Inl RedisClosed, subscribed)
      else (case messageChannel (rt_prefix t) (e_Pattern env) of
          Inl e \<Rightarrow> (Inl (ChannelRefused e), subscribed)
        | Inr _ \<Rightarrow>
            (case ensureReplies subscribed closed subscribeErr confirmErr of
               (Some e, s) \<Rightarrow> (Inl e, s)
             | (None, s) \<Rightarrow> (redis_message j t Req rnd env, s))))"

lemma request_after_inbox:
  "Request_redis j t closed subscribed subscribeErr confirmErr rnd env = (Inr x, s) \<Longrightarrow> s \<and> \<not> closed \<and> redis_message j t Req rnd env = Inr x"
  by (auto simp: Request_redis_def ensureReplies_def split: if_splits sum.splits option.splits)

section \<open>The server\<close>

definition redis_handleMessage :: "'v json \<Rightarrow> (msg_error \<Rightarrow> string) \<Rightarrow> envelope \<Rightarrow> envelope option \<Rightarrow> msg_error option \<Rightarrow> (string \<times> string) option" where
  "redis_handleMessage j etext env reply err = map_option (Pair (e_ReplyTo env)) (reply_payload j etext env reply err)"

text \<open>
  The loop of \<^verbatim>\<open>Listen\<close>, on the events its \<^verbatim>\<open>select\<close> meets. A message comes with the pattern of the subscription that delivered it (empty for a
  plain one), its channel and payload, and with what happens when the loop asks for a slot.
\<close>

datatype slot_answer = SlotTaken | SlotCanceled | SlotClosed

datatype redis_event =
    CtxDone
  | TransportClosed
  | ChannelClosed bool bool
  | Message string string string slot_answer

fun redis_loop :: "'v json \<Rightarrow> plan \<Rightarrow> redis_event list \<Rightarrow> envelope list \<times> redis_failure option option" where
  "redis_loop j p [] = ([], None)"
| "redis_loop j p (CtxDone # evs) = ([], Some None)"
| "redis_loop j p (TransportClosed # evs) = ([], Some (Some RedisClosed))"
| "redis_loop j p (ChannelClosed canceled closed # evs) =
     ([], Some (if canceled then None else if closed then Some RedisClosed else Some SubscriptionClosed))"
| "redis_loop j p (Message pattern channel payload slot # evs) =
     (if \<not> accept p pattern channel then redis_loop j p evs
      else (case DecodeEnvelope j payload of
          Inl _ \<Rightarrow> redis_loop j p evs
        | Inr env \<Rightarrow>
            (case slot of
               SlotCanceled \<Rightarrow> ([], Some None)
             | SlotClosed \<Rightarrow> ([], Some (Some RedisClosed))
             | SlotTaken \<Rightarrow> (case redis_loop j p evs of (envs, res) \<Rightarrow> (env # envs, res)))))"

definition Listen_redis :: "'v json \<Rightarrow> 'c redis_transport \<Rightarrow> bool \<Rightarrow> bool \<Rightarrow> string list \<Rightarrow> string option \<Rightarrow> string option \<Rightarrow> net_error option \<Rightarrow>
    redis_event list \<Rightarrow> envelope list \<times> redis_failure option option" where
  "Listen_redis j t has_dispatch closed patterns subErr psubErr confirmErr evs =
     (if \<not> has_dispatch then ([], Some (Some RedisNilDispatcher))
      else if closed then ([], Some (Some RedisClosed))
      else (case newPlan (rt_prefix t) patterns of
          Inl e \<Rightarrow> ([], Some (Some (PlanRefused e)))
        | Inr p \<Rightarrow>
            (case (if pl_channels p \<noteq> [] then subErr else None) of
               Some e \<Rightarrow> ([], Some (Some (SubscribeFailed e)))
             | None \<Rightarrow>
                 (case (if pl_globs p \<noteq> [] then psubErr else None) of
                    Some e \<Rightarrow> ([], Some (Some (SubscribeFailed e)))
                  | None \<Rightarrow>
                      (case confirmErr of
                         Some e \<Rightarrow> ([], Some (Some (ConfirmFailed (redis_mapTimeout e))))
                       | None \<Rightarrow> redis_loop j p evs)))))"

text \<open>\<^verbatim>\<open>Close\<close>, the first time: the subscription, then the client if it is the transport's own; the first error is reported. An error that
  says the subscription was closed already is none.\<close>

definition Close_redis :: "'c redis_transport \<Rightarrow> (bool \<times> string) option option \<Rightarrow> string option \<Rightarrow> redis_failure option \<times> bool" where
  "Close_redis t subClose clientClose =
     (let err = (case subClose of
            Some (Some (already, e)) \<Rightarrow> if already then None else Some (CloseSubscription e)
          | _ \<Rightarrow> None)
      in if rt_ownsClient t
         then (case clientClose of
             Some e \<Rightarrow> (if err = None then Some (CloseClient e) else err, True)
           | None \<Rightarrow> (err, True))
         else (err, False))"

lemma foreign_client_kept:
  "fst (New_redis drt parse pinged rnd o1) = Inr t \<Longrightarrow> ro_Client o1 = Some c \<Longrightarrow> rt_client t = c \<and> \<not> snd (Close_redis t subClose clientClose)"
  by (auto simp: New_redis_def Close_redis_def Let_def split: if_splits option.splits)

section \<open>Requests and replies\<close>

text \<open>
  A server takes a published message and may publish an answer; the client reads the answers in its own inbox. Publish and
  subscribe may lose messages, so nothing is assumed about what arrives.
\<close>

definition redis_carrier :: "'v json \<Rightarrow> (msg_error \<Rightarrow> string) \<Rightarrow> ('w \<Rightarrow> envelope \<Rightarrow> 'w \<times> envelope option \<times> msg_error option) \<Rightarrow> 'c redis_transport \<Rightarrow>
    (8 word list, string \<times> string, redis_failure, 'w) carrier" where
  "redis_carrier j etext dispatch t =
     \<lparr>cr_build = redis_message j t,
      cr_handle = (\<lambda>w (channel, payload). case DecodeEnvelope j payload of
          Inl _ \<Rightarrow> (w, None)
        | Inr env \<Rightarrow> (case dispatch w env of (w', reply, err) \<Rightarrow> (w', redis_handleMessage j etext env reply err))),
      cr_correlate = (\<lambda>(channel, payload).
        if channel = rt_replyChannel t
        then (case DecodeEnvelope j payload of Inl _ \<Rightarrow> None | Inr env \<Rightarrow> Some (e_ID env, env))
        else None),
      cr_deliver = deliver_keeping\<rparr>"

lemma redis_message_Inr:
  "redis_message j t k rnd env = Inr (env', channel, payload) \<Longrightarrow>
   Encode j env' = Inr payload \<and> channel = rt_prefix t @ '':'' @ e_Pattern env' \<and> e_Pattern env' = e_Pattern env \<and> Validate (e_Pattern env) = None"
  by (auto simp: redis_message_def messageChannel_def Let_def split: sum.splits option.splits if_splits call_kind.splits)

lemma redis_carrier_correlating:
  assumes "json_keeps_id j"
  shows "correlating (redis_carrier j etext dispatch t)"
proof
  fix x env p c p' c' y i
  assume "cr_deliver (redis_carrier j etext dispatch t) x env (p, c) = (p', c')" "mget p' y = Some i"
  then show "mget p y = Some i" using keeping.entries_kept by (simp add: redis_carrier_def)
next
  fix x env p c p' c' i r
  assume "cr_deliver (redis_carrier j etext dispatch t) x env (p, c) = (p', c')" "c' i = Some r"
  then show "c i = Some r \<or> mget p x = Some i \<and> r = env" using keeping.channel_of_id by (simp add: redis_carrier_def)
next
  fix k rnd env env' q w w' rep x r
  assume b: "cr_build (redis_carrier j etext dispatch t) k rnd env = Inr (env', q)"
    and h: "cr_handle (redis_carrier j etext dispatch t) w q = (w', Some rep)"
    and c: "cr_correlate (redis_carrier j etext dispatch t) rep = Some (x, r)"
  obtain ch p where q: "q = (ch, p)" by fastforce
  obtain rch rp where rep: "rep = (rch, rp)" by fastforce
  from b q have "Encode j env' = Inr p" using redis_message_Inr by (simp add: redis_carrier_def) blast
  moreover from h q rep obtain e reply err where e: "DecodeEnvelope j p = Inr e" "reply_payload j etext e reply err = Some rp"
    by (auto simp: redis_carrier_def redis_handleMessage_def split: sum.splits prod.splits)
  moreover from e(2) obtain r0 where r0: "Encode j r0 = Inr rp" "e_ID r0 = e_ID e" by (rule reply_payload_Some)
  moreover from c rep have "DecodeEnvelope j rp = Inr r" "x = e_ID r" by (auto simp: redis_carrier_def split: sum.splits if_splits)
  ultimately show "x = e_ID env'"
    using assms decodes_Inr unfolding json_keeps_id_def Encode_Inr by metis
qed

section \<open>From publication to handler\<close>

text \<open>What the subscriber's loop meets when a sequence of messages is published while it has free slots.\<close>

definition published_events :: "(string \<Rightarrow> string \<Rightarrow> bool) \<Rightarrow> plan \<Rightarrow> (string \<times> string) list \<Rightarrow> redis_event list" where
  "published_events gm p msgs =
     concat (map (\<lambda>(channel, payload). map (\<lambda>d. Message d channel payload SlotTaken) (redis_deliveries gm p channel)) msgs)"

lemma redis_loop_copies:
  "redis_loop j p (map (\<lambda>d. Message d channel payload SlotTaken) ds @ evs) =
   (case redis_loop j p evs of (envs, res) \<Rightarrow>
      (concat (map (\<lambda>_. case DecodeEnvelope j payload of Inl _ \<Rightarrow> [] | Inr env \<Rightarrow> [env]) (filter (\<lambda>d. accept p d channel) ds)) @ envs, res))"
  by (induction ds) (auto split: sum.splits prod.splits)


definition redis_sample :: "unit redis_transport" where
  "redis_sample = \<lparr>rt_client = (), rt_ownsClient = True, rt_prefix = ''svc'', rt_concurrency = 64, rt_replyTimeout = 1, rt_pingTimeout = 1,
     rt_clientID = ''c'', rt_replyChannel = ''conn''\<rparr>"

interpretation redis_rpc: correlating "redis_carrier id_json (\<lambda>_. []) echo redis_sample"
  by (rule redis_carrier_correlating [OF id_json_keeps_id])

lemma redis_sample_message:
  "redis_message id_json redis_sample Req [] ping = Inr (asked, ''svc:ping'', ''1'')"
proof -
  have "messageChannel ''svc'' ''ping'' = Inr ''svc:ping''" by code_simp
  then show ?thesis
    by (simp add: redis_message_def redis_sample_def id_json_codec asked_simps asked_def)
qed


end
