(* ===== verification/Natsmq.thy ===== *)
theory Natsmq
  imports Subscriptions
begin

text \<open>
  Subjects of the NATS transport (\<^verbatim>\<open>transport/natsmq/subject.go\<close>): literal patterns become exact
  subjects; as soon as one pattern has a wildcard, a single catch-all subscription takes their
  place and the router filters. How NATS matches a subject against a subscription is a
  parameter with two documented laws.
\<close>

section \<open>The code\<close>

definition catchAllToken :: string where
  "catchAllToken = ''>''"

definition natsIllegalChars :: string where
  "natsIllegalChars = [CHR ''.'', CHR ''>'', CHR '' '', CHR 0x09]"

datatype nats_error =
    NatsPattern pattern_error
  | NatsReserved string char
  | NatsNoPatterns
  | NatsWildcardSubject string
  | NatsPrefixEmpty
  | NatsPrefixReserved string
  | NatsPrefixEmptyToken string

fun illegal_loop :: "string \<Rightarrow> string \<Rightarrow> nats_error option" where
  "illegal_loop [] pattern = None"
| "illegal_loop (c # cs) pattern =
     (if c = CHR ''*'' then illegal_loop cs pattern
      else if ContainsRune pattern c then Some (NatsReserved pattern c)
      else illegal_loop cs pattern)"

definition validatePattern :: "string \<Rightarrow> nats_error option" where
  "validatePattern pattern =
     (case Validate pattern of
        Some e \<Rightarrow> Some (NatsPattern e)
      | None \<Rightarrow> illegal_loop natsIllegalChars pattern)"

fun subject_loop :: "string list \<Rightarrow> string list \<Rightarrow> string list \<Rightarrow> bool \<Rightarrow>
    (nats_error, string list \<times> bool) result" where
  "subject_loop [] seen subjects catchAll = Inr (subjects, catchAll)"
| "subject_loop (pattern # patterns) seen subjects catchAll =
     (case validatePattern pattern of
        Some e \<Rightarrow> Inl e
      | None \<Rightarrow>
          if IsWildcard pattern then subject_loop patterns seen subjects True
          else if pattern \<in> set seen then subject_loop patterns seen subjects catchAll
          else subject_loop patterns (pattern # seen) (subjects @ [pattern]) catchAll)"

definition subjectPlan :: "string list \<Rightarrow> (nats_error, string list \<times> bool) result" where
  "subjectPlan patterns =
     (if length patterns = 0 then Inl NatsNoPatterns
      else and_then (subject_loop patterns [] [] False) (\<lambda>(subjects, catchAll).
        if catchAll then Inr ([], True)
        else if length subjects = 0 then Inl NatsNoPatterns
        else Inr (subjects, False)))"

definition subjectFor :: "string \<Rightarrow> string \<Rightarrow> (nats_error, string) result" where
  "subjectFor pfx pattern =
     (if IsWildcard pattern then Inl (NatsWildcardSubject pattern)
      else (case validatePattern pattern of
          Some e \<Rightarrow> Inl e
        | None \<Rightarrow> Inr (pfx @ ''.'' @ pattern)))"

definition joinSubject :: "string \<Rightarrow> string \<Rightarrow> string" where
  "joinSubject pfx pattern = pfx @ ''.'' @ pattern"

definition catchAllSubject :: "string \<Rightarrow> string" where
  "catchAllSubject pfx = pfx @ ''.'' @ catchAllToken"

definition validatePrefix :: "string \<Rightarrow> nats_error option" where
  "validatePrefix pfx =
     (if pfx = '''' then Some NatsPrefixEmpty
      else if ContainsAny pfx [CHR ''>'', CHR '' '', CHR 0x09, CHR 0x0D, CHR 0x0A] \<or> Contains pfx ''*''
        then Some (NatsPrefixReserved pfx)
      else if HasPrefix pfx ''.'' \<or> HasSuffix pfx ''.'' \<or> Contains pfx ''..'' then Some (NatsPrefixEmptyToken pfx)
      else None)"

section \<open>NATS\<close>

text \<open>
  A subscription without wildcards matches the identical subject only, and one that ends in
  \<^verbatim>\<open>.>\<close> matches every longer subject below the part before it.
\<close>

definition nats_matching :: "(string \<Rightarrow> string \<Rightarrow> bool) \<Rightarrow> bool" where
  "nats_matching mt \<longleftrightarrow>
     (\<forall>sub s. set sub \<inter> {CHR ''*'', CHR ''>''} = {} \<longrightarrow> (mt sub s \<longleftrightarrow> s = sub)) \<and>
     (\<forall>pfx s. set pfx \<inter> {CHR ''*'', CHR ''>''} = {} \<longrightarrow>
        (mt (pfx @ ''.>'') s \<longleftrightarrow> (\<exists>rest. rest \<noteq> [] \<and> s = pfx @ ''.'' @ rest)))"

record nats_plan =
  np_prefix :: string
  np_subjects :: "string list"
  np_catchAll :: bool
  np_patterns :: "string list"

text \<open>The subscriptions of a plan, and one delivery of a subject per matching subscription.\<close>

definition nats_subscriptions :: "nats_plan \<Rightarrow> string list" where
  "nats_subscriptions p =
     (if np_catchAll p then [catchAllSubject (np_prefix p)] else map (joinSubject (np_prefix p)) (np_subjects p))"

definition nats_deliveries :: "(string \<Rightarrow> string \<Rightarrow> bool) \<Rightarrow> nats_plan \<Rightarrow> string \<Rightarrow> string list" where
  "nats_deliveries mt p s = filter (\<lambda>sub. mt sub (np_prefix p @ ''.'' @ s)) (nats_subscriptions p)"

definition nats_planned :: "nats_plan \<Rightarrow> bool" where
  "nats_planned p \<longleftrightarrow> validatePrefix (np_prefix p) = None \<and>
     subjectPlan (np_patterns p) = Inr (np_subjects p, np_catchAll p)"

text \<open>
  A plan covers a subject that can be published if one of its patterns matches; under the
  catch-all every subject is delivered, and the router sorts out the rest.
\<close>

definition nats_covers :: "nats_plan \<Rightarrow> string \<Rightarrow> bool" where
  "nats_covers p s \<longleftrightarrow> (if np_catchAll p then s \<noteq> '''' else \<exists>w \<in> set (np_patterns p). Match w s)"

section \<open>The plan\<close>

lemma illegal_loop_None:
  "illegal_loop cs w = None \<longleftrightarrow> (\<forall>c \<in> set cs. c = CHR ''*'' \<or> \<not> ContainsRune w c)"
  by (induction cs) auto

lemma validatePattern_chars:
  assumes "validatePattern w = None"
  shows "set w \<inter> {CHR ''.'', CHR ''>'', CHR '' '', CHR 0x09} = {}" "Validate w = None"
proof -
  from assms have "Validate w = None" "illegal_loop natsIllegalChars w = None"
    by (auto simp: validatePattern_def split: option.splits)
  then show "set w \<inter> {CHR ''.'', CHR ''>'', CHR '' '', CHR 0x09} = {}" "Validate w = None"
    unfolding illegal_loop_None by (auto simp: natsIllegalChars_def ContainsRune_def)
qed

lemma subject_loop_result:
  assumes "subject_loop ws seen subs ca = Inr (subs', ca')" and "set seen = set subs" and "distinct subs"
  shows "(\<forall>w \<in> set ws. validatePattern w = None) \<and> ca' = (ca \<or> (\<exists>w \<in> set ws. IsWildcard w)) \<and>
    set subs' = set subs \<union> {w \<in> set ws. \<not> IsWildcard w} \<and> distinct subs'"
  using assms
proof (induction ws arbitrary: seen subs ca)
  case (Cons w ws)
  then have v: "validatePattern w = None" by (auto split: option.splits)
  consider "IsWildcard w" | "\<not> IsWildcard w" "w \<in> set seen" | "\<not> IsWildcard w" "w \<notin> set seen" by blast
  then show ?case
  proof cases
    case 1
    with Cons v show ?thesis using Cons.IH [of seen subs True] by auto
  next
    case 2
    with Cons v show ?thesis using Cons.IH [of seen subs ca] by auto
  next
    case 3
    with Cons v show ?thesis using Cons.IH [of "w # seen" "subs @ [w]" ca] by auto
  qed
qed simp

lemma subjectPlan_result:
  assumes "subjectPlan ws = Inr (subs, ca)"
  shows "\<forall>w \<in> set ws. validatePattern w = None" "ca \<longleftrightarrow> (\<exists>w \<in> set ws. IsWildcard w)"
    "\<not> ca \<Longrightarrow> set subs = set ws \<and> distinct subs" "ca \<Longrightarrow> subs = []"
proof -
  from assms obtain subs0 ca0 where l: "subject_loop ws [] [] False = Inr (subs0, ca0)"
      "(if ca0 then Inr ([], True) else if length subs0 = 0 then Inl NatsNoPatterns else Inr (subs0, False)) = Inr (subs, ca)"
    by (auto simp: subjectPlan_def and_then_Inr_iff split: if_splits)
  from subject_loop_result [OF l(1)]
  have r: "\<forall>w \<in> set ws. validatePattern w = None" "ca0 = (\<exists>w \<in> set ws. IsWildcard w)"
      "set subs0 = {w \<in> set ws. \<not> IsWildcard w}" "distinct subs0" by auto
  show "\<forall>w \<in> set ws. validatePattern w = None" by (rule r(1))
  from l(2) r show "ca \<longleftrightarrow> (\<exists>w \<in> set ws. IsWildcard w)" "\<not> ca \<Longrightarrow> set subs = set ws \<and> distinct subs" "ca \<Longrightarrow> subs = []"
    by (auto split: if_splits)
qed

lemma Contains_char: "Contains s [c] \<longleftrightarrow> c \<in> set s"
proof (induction s)
  case (Cons d s)
  then show ?case by (auto simp: HasPrefix_def)
qed (simp add: HasPrefix_def)

lemma validatePrefix_chars: "validatePrefix pfx = None \<Longrightarrow> set pfx \<inter> {CHR ''*'', CHR ''>''} = {}"
  by (auto simp: validatePrefix_def Contains_char ContainsAny_def list_ex_iff split: if_splits)

lemma filter_one: "distinct xs \<Longrightarrow> (\<And>x. x \<in> set xs \<Longrightarrow> P x \<longleftrightarrow> x = a) \<Longrightarrow> filter P xs = (if a \<in> set xs then [a] else [])"
  by (induction xs) auto

lemma nats_deliveries_result:
  assumes mt: "nats_matching mt" and "nats_planned p"
  shows "nats_deliveries mt p s =
    (if nats_covers p s then [if np_catchAll p then catchAllSubject (np_prefix p) else joinSubject (np_prefix p) s] else [])"
proof -
  from assms(2) have pfx: "set (np_prefix p) \<inter> {CHR ''*'', CHR ''>''} = {}"
    and plan: "subjectPlan (np_patterns p) = Inr (np_subjects p, np_catchAll p)"
    by (auto simp: nats_planned_def validatePrefix_chars)
  note ws = subjectPlan_result [OF plan]
  show ?thesis
  proof (cases "np_catchAll p")
    case True
    have "mt (np_prefix p @ ''.>'') (np_prefix p @ ''.'' @ s) \<longleftrightarrow> s \<noteq> ''''"
      using mt pfx unfolding nats_matching_def by auto
    with True show ?thesis
      by (simp add: nats_deliveries_def nats_subscriptions_def nats_covers_def catchAllSubject_def catchAllToken_def)
  next
    case False
    have subs: "set (np_subjects p) = set (np_patterns p)" "distinct (np_subjects p)" using ws(3) False by auto
    have lit: "\<not> IsWildcard w" if "w \<in> set (np_patterns p)" for w using that ws(2) False by blast
    then have cov: "nats_covers p s \<longleftrightarrow> s \<in> set (np_subjects p)"
      using False subs(1) by (auto simp: nats_covers_def Match_iff_matches matches_literal)
    have hit: "mt (joinSubject (np_prefix p) w) (np_prefix p @ ''.'' @ s) \<longleftrightarrow> w = s" if "w \<in> set (np_subjects p)" for w
    proof -
      have "set w \<inter> {CHR ''*'', CHR ''>''} = {}"
        using that subs(1) lit validatePattern_chars(1) ws(1) by (fastforce simp: IsWildcard_iff)
      then have "set (joinSubject (np_prefix p) w) \<inter> {CHR ''*'', CHR ''>''} = {}" using pfx by (auto simp: joinSubject_def)
      then have "mt (joinSubject (np_prefix p) w) (np_prefix p @ ''.'' @ s) \<longleftrightarrow> np_prefix p @ ''.'' @ s = joinSubject (np_prefix p) w"
        using mt unfolding nats_matching_def by blast
      then show ?thesis by (auto simp: joinSubject_def)
    qed
    have "nats_deliveries mt p s = map (joinSubject (np_prefix p)) (filter (\<lambda>w. mt (joinSubject (np_prefix p) w) (np_prefix p @ ''.'' @ s)) (np_subjects p))"
      using False by (simp add: nats_deliveries_def nats_subscriptions_def filter_map comp_def)
    also have "filter (\<lambda>w. mt (joinSubject (np_prefix p) w) (np_prefix p @ ''.'' @ s)) (np_subjects p) = (if s \<in> set (np_subjects p) then [s] else [])"
      using hit by (intro filter_one [OF subs(2)]) auto
    finally show ?thesis using False cov by simp
  qed
qed

interpretation nats: exactly_once nats_matching nats_planned nats_covers nats_deliveries "\<lambda>p d s. True"
  by unfold_locales (simp_all add: nats_deliveries_result)

section \<open>Properties\<close>

text \<open>
  Over NATS every message a handler covers arrives exactly once: for the patterns of a
  listener that passed validation and any server with the documented matching, a published
  subject that some pattern matches is delivered by exactly one subscription (the catch-all
  never joins a literal one), and without wildcards a subject no pattern matches is not
  delivered at all.
\<close>

theorem nats_exactly_once:
  assumes "subjectPlan patterns = Inr (subjects, catchAll)" and "validatePrefix pfx = None" and "nats_matching mt"
    and "p = \<lparr>np_prefix = pfx, np_subjects = subjects, np_catchAll = catchAll, np_patterns = patterns\<rparr>"
    and "subjectFor pfx s = Inr full"
  shows "full = pfx @ ''.'' @ s \<and>
    ((\<exists>w \<in> set patterns. Match w s) \<longrightarrow> length (filter (\<lambda>sub. mt sub full) (nats_subscriptions p)) = 1) \<and>
    (catchAll \<longleftrightarrow> (\<exists>w \<in> set patterns. IsWildcard w)) \<and>
    (\<not> catchAll \<and> (\<forall>w \<in> set patterns. \<not> Match w s) \<longrightarrow> filter (\<lambda>sub. mt sub full) (nats_subscriptions p) = []) \<and>
    handed_on (nats_deliveries mt p) (\<lambda>d s. True) ss = filter (nats_covers p) ss"
proof -
  from assms(5) have full: "full = pfx @ ''.'' @ s" and "Validate s = None"
    by (auto simp: subjectFor_def dest!: validatePattern_chars(2) split: option.splits if_splits)
  then have ne: "s \<noteq> ''''" by (auto simp: Validate_def)
  have planned: "nats_planned p" using assms(1,2,4) by (simp add: nats_planned_def)
  have eq: "filter (\<lambda>sub. mt sub full) (nats_subscriptions p) = nats_deliveries mt p s"
    using assms(4) full by (simp add: nats_deliveries_def)
  have cov: "nats_covers p s \<longleftrightarrow> catchAll \<or> (\<exists>w \<in> set patterns. Match w s)"
    using assms(4) ne by (simp add: nats_covers_def)
  have count: "length (nats_deliveries mt p s) = (if nats_covers p s then 1 else 0)"
    using nats.accepted_count [OF assms(3) planned, of s] by simp
  with cov have "(\<exists>w \<in> set patterns. Match w s) \<longrightarrow> length (nats_deliveries mt p s) = 1"
    "\<not> catchAll \<and> (\<forall>w \<in> set patterns. \<not> Match w s) \<longrightarrow> nats_deliveries mt p s = []" by auto
  then show ?thesis
    using full eq subjectPlan_result(2) [OF assms(1)] nats.handed_on_covered [OF assms(3) planned, of ss] by simp
qed

text \<open>A matcher with the two laws.\<close>

definition nats_ref :: "string \<Rightarrow> string \<Rightarrow> bool" where
  "nats_ref sub s \<longleftrightarrow>
     (if set sub \<inter> {CHR ''*'', CHR ''>''} = {} then s = sub
      else HasSuffix sub ''.>'' \<and> HasPrefix s (butlast sub) \<and> s \<noteq> butlast sub)"

lemma nats_ref_ok: "nats_matching nats_ref"
proof -
  have suf: "HasSuffix (pfx @ ''.>'') ''.>''" for pfx by (simp add: HasSuffix_def suffix_def)
  have but: "butlast (pfx @ ''.>'') = pfx @ ''.''" for pfx by (simp add: butlast_append)
  have "HasPrefix s (pfx @ ''.'') \<and> s \<noteq> pfx @ ''.'' \<longleftrightarrow> (\<exists>rest. rest \<noteq> [] \<and> s = pfx @ ''.'' @ rest)" for pfx s
    by (auto simp: HasPrefix_def prefix_def)
  with suf but show ?thesis unfolding nats_matching_def nats_ref_def by simp
qed

theorem nats_exactly_once_witness:
  "subjectPlan [''user_created'', ''user_*''] = Inr ([], True) \<and>
   length (filter (\<lambda>sub. nats_ref sub ''svc.user_created'') (nats_subscriptions
     \<lparr>np_prefix = ''svc'', np_subjects = [], np_catchAll = True, np_patterns = [''user_created'', ''user_*'']\<rparr>)) = 1"
proof -
  have plan: "subjectPlan [''user_created'', ''user_*''] = Inr ([], True)" by code_simp
  have pfx: "validatePrefix ''svc'' = None" by code_simp
  have full: "subjectFor ''svc'' ''user_created'' = Inr ''svc.user_created''" by code_simp
  have "Match ''user_created'' ''user_created''" by code_simp
  with nats_exactly_once [OF plan pfx nats_ref_ok refl full, of "[]"] plan show ?thesis by auto
qed

end
