(* ===== verification/Nats_Transport.thy ===== *)
theory Nats_Transport
  imports Correlation Natsmq
begin

text \<open>
  The NATS transport (\<^verbatim>\<open>transport/natsmq\<close>: \<^verbatim>\<open>natsmq.go\<close>, \<^verbatim>\<open>client.go\<close>, \<^verbatim>\<open>listen.go\<close>): options, the connection, publishing and the native request, the
  subscriptions of a listener, the callback and the answer to a message, and closing. NATS correlates replies itself: the answer to a request is
  an argument of the call. The library is a parameter throughout.
\<close>

section \<open>Options and connection\<close>

record 'c nats_options =
  no_URL :: string
  no_Conn :: "'c option"
  no_Prefix :: string
  no_QueueGroup :: string
  no_Concurrency :: int
  no_ReplyTimeout :: int
  no_Name :: string
  no_Token :: string
  no_User :: string
  no_Password :: string
  no_NKeySeed :: string
  no_CredsFile :: string
  no_TLS :: bool
  no_ReconnectWait :: int
  no_DrainTimeout :: int
  no_LazyConnect :: bool

text \<open>The options of the connection the transport makes.\<close>

datatype nats_setting =
    MaxReconnects int
  | ReconnectWait int
  | DrainTimeout int
  | Handlers
  | ConnName string
  | Secure
  | AuthToken string
  | UserInfo string string
  | UserCredentials string
  | Nkey string

datatype nats_net_error = NatsCtxDeadline | NatsTimeout | NatsNoResponders | NatsConnClosed | NatsOther string

datatype nats_failure =
    UrlAndConn
  | NatsConcurrencyNegative
  | PrefixInvalid nats_error
  | NKeySeedInvalid string
  | ConnectFailed string string
  | NatsClosed
  | NatsErrTimeout
  | NatsErrNoHandler
  | NatsNet nats_net_error
  | SubjectRefused nats_error
  | NatsEncode msg_error
  | NatsPublish string nats_failure
  | NatsRequest string nats_failure
  | MalformedReply string msg_error
  | ReplyMismatch string string
  | NatsNilDispatcher
  | NatsPlan nats_error
  | NatsSubscribe string string
  | FlushFailed nats_failure
  | NatsPing nats_failure
  | HandlersTimeout int
  | DrainFailed string
  | DrainTimedOut

record 'c nats_transport =
  nt_url :: string
  nt_prefix :: string
  nt_queueGroup :: string
  nt_concurrency :: int
  nt_replyTimeout :: int
  nt_drainTimeout :: int
  nt_natsOpts :: "nats_setting list"
  nt_nc :: "'c option"
  nt_ownsConn :: bool
  nt_closed :: bool

definition NoQueueGroup :: string where "NoQueueGroup = ''-''"
definition nats_DefaultPrefix :: string where "nats_DefaultPrefix = ''nika''"
definition nats_defaultConcurrency :: int where "nats_defaultConcurrency = 64"
definition defaultReconnectWait :: int where "defaultReconnectWait = 2000000000"
definition defaultDrainTimeout :: int where "defaultDrainTimeout = 30000000000"

definition resolveQueueGroup :: "string \<Rightarrow> string \<Rightarrow> string" where
  "resolveQueueGroup queueGroup name = (if queueGroup = NoQueueGroup then [] else if queueGroup = [] then name else queueGroup)"

text \<open>\<open>publicKey\<close> is the public key of a seed, or why there is none.\<close>

definition connectOptions :: "(string \<Rightarrow> (string, string) result) \<Rightarrow> 'c nats_options \<Rightarrow> (nats_failure, nats_setting list) result" where
  "connectOptions publicKey o1 =
     (let opts = [MaxReconnects (-1), ReconnectWait (no_ReconnectWait o1), DrainTimeout (no_DrainTimeout o1), Handlers] @
            (if no_Name o1 \<noteq> [] then [ConnName (no_Name o1)] else []) @
            (if no_TLS o1 then [Secure] else []) @
            (if no_Token o1 \<noteq> [] then [AuthToken (no_Token o1)] else []) @
            (if no_User o1 \<noteq> [] \<or> no_Password o1 \<noteq> [] then [UserInfo (no_User o1) (no_Password o1)] else []) @
            (if no_CredsFile o1 \<noteq> [] then [UserCredentials (no_CredsFile o1)] else [])
      in if no_NKeySeed o1 \<noteq> []
         then (case publicKey (no_NKeySeed o1) of Inl e \<Rightarrow> Inl (NKeySeedInvalid e) | Inr pub \<Rightarrow> Inr (opts @ [Nkey pub]))
         else Inr opts)"

definition conn_nats :: "('c \<Rightarrow> bool) \<Rightarrow> (string \<Rightarrow> nats_setting list \<Rightarrow> (string, 'c) result) \<Rightarrow> 'c nats_transport \<Rightarrow>
    (nats_failure, 'c) result \<times> 'c nats_transport" where
  "conn_nats connClosed connect t =
     (if nt_closed t then (Inl NatsClosed, t)
      else (case (case nt_nc t of Some c \<Rightarrow> if connClosed c then None else Some c | None \<Rightarrow> None) of
          Some c \<Rightarrow> (Inr c, t)
        | None \<Rightarrow>
            if \<not> nt_ownsConn t then (Inl (NatsNet NatsConnClosed), t)
            else (case connect (nt_url t) (nt_natsOpts t) of
                Inl e \<Rightarrow> (Inl (ConnectFailed (nt_url t) e), t)
              | Inr c \<Rightarrow> (Inr c, t\<lparr>nt_nc := Some c\<rparr>))))"

definition New_nats :: "int \<Rightarrow> string \<Rightarrow> (string \<Rightarrow> (string, string) result) \<Rightarrow> ('c \<Rightarrow> bool) \<Rightarrow> (string \<Rightarrow> nats_setting list \<Rightarrow> (string, 'c) result) \<Rightarrow>
    'c nats_options \<Rightarrow> (nats_failure, 'c nats_transport) result" where
  "New_nats defaultRequestTimeout defaultURL publicKey connClosed connect o0 =
     (let pfx = (if no_Prefix o0 = [] then nats_DefaultPrefix else no_Prefix o0);
          o1 = o0\<lparr>no_ReconnectWait := if no_ReconnectWait o0 \<le> 0 then defaultReconnectWait else no_ReconnectWait o0,
                 no_DrainTimeout := if no_DrainTimeout o0 \<le> 0 then defaultDrainTimeout else no_DrainTimeout o0\<rparr>;
          t = \<lparr>nt_url = (if no_URL o0 = [] then defaultURL else no_URL o0), nt_prefix = pfx,
               nt_queueGroup = resolveQueueGroup (no_QueueGroup o0) (no_Name o0),
               nt_concurrency = (if no_Concurrency o0 = 0 then nats_defaultConcurrency else no_Concurrency o0),
               nt_replyTimeout = (if no_ReplyTimeout o0 \<le> 0 then defaultRequestTimeout else no_ReplyTimeout o0),
               nt_drainTimeout = no_DrainTimeout o1, nt_natsOpts = [], nt_nc = None, nt_ownsConn = False, nt_closed = False\<rparr>
      in if no_URL o0 \<noteq> [] \<and> no_Conn o0 \<noteq> None then Inl UrlAndConn
         else if no_Concurrency o0 < 0 then Inl NatsConcurrencyNegative
         else (case validatePrefix pfx of
             Some e \<Rightarrow> Inl (PrefixInvalid e)
           | None \<Rightarrow>
               (case no_Conn o0 of
                  Some c \<Rightarrow> Inr (t\<lparr>nt_nc := Some c\<rparr>)
                | None \<Rightarrow>
                    (case connectOptions publicKey o1 of
                       Inl e \<Rightarrow> Inl e
                     | Inr opts \<Rightarrow>
                         (let t = t\<lparr>nt_natsOpts := opts, nt_ownsConn := True\<rparr>
                          in if no_LazyConnect o0 then Inr t
                             else (case conn_nats connClosed connect t of (Inl e, _) \<Rightarrow> Inl e | (Inr _, t) \<Rightarrow> Inr t))))))"

definition mapNATSError :: "nats_net_error \<Rightarrow> nats_failure" where
  "mapNATSError e =
     (case e of
        NatsCtxDeadline \<Rightarrow> NatsErrTimeout
      | NatsTimeout \<Rightarrow> NatsErrTimeout
      | NatsNoResponders \<Rightarrow> NatsErrNoHandler
      | NatsConnClosed \<Rightarrow> NatsClosed
      | _ \<Rightarrow> NatsNet e)"

definition Ping_nats :: "('c \<Rightarrow> bool) \<Rightarrow> (string \<Rightarrow> nats_setting list \<Rightarrow> (string, 'c) result) \<Rightarrow> nats_net_error option \<Rightarrow> 'c nats_transport \<Rightarrow>
    nats_failure option \<times> 'c nats_transport" where
  "Ping_nats connClosed connect flushed t =
     (if nt_closed t then (Some NatsClosed, t)
      else (case conn_nats connClosed connect t of
          (Inl e, t) \<Rightarrow> (Some e, t)
        | (Inr _, t) \<Rightarrow> (map_option (\<lambda>e. NatsPing (mapNATSError e)) flushed, t)))"

section \<open>Calls\<close>

text \<open>Both calls clear the reply address of the caller's envelope; a request also gives it an id.\<close>

definition Publish_nats :: "'v json \<Rightarrow> ('c \<Rightarrow> bool) \<Rightarrow> (string \<Rightarrow> nats_setting list \<Rightarrow> (string, 'c) result) \<Rightarrow> (string \<Rightarrow> string \<Rightarrow> nats_net_error option) \<Rightarrow>
    envelope \<Rightarrow> 'c nats_transport \<Rightarrow> nats_failure option \<times> (string \<times> string) list \<times> 'c nats_transport" where
  "Publish_nats j connClosed connect publish env t =
     (if nt_closed t then (Some NatsClosed, [], t)
      else (case subjectFor (nt_prefix t) (e_Pattern env) of
          Inl e \<Rightarrow> (Some (SubjectRefused e), [], t)
        | Inr subject \<Rightarrow>
            (case conn_nats connClosed connect t of
               (Inl e, t) \<Rightarrow> (Some e, [], t)
             | (Inr _, t) \<Rightarrow>
                 (case Encode j (env\<lparr>e_ReplyTo := []\<rparr>) of
                    Inl e \<Rightarrow> (Some (NatsEncode e), [], t)
                  | Inr payload \<Rightarrow>
                      (case publish subject payload of
                         Some e \<Rightarrow> (Some (NatsPublish subject (mapNATSError e)), [], t)
                       | None \<Rightarrow> (None, [(subject, payload)], t))))))"

text \<open>\<open>request\<close> is the native request of the connection: the data of the answer, or an error; \<open>closedNow\<close> is whether the transport was closed in the meantime.\<close>

definition Request_nats :: "'v json \<Rightarrow> ('c \<Rightarrow> bool) \<Rightarrow> (string \<Rightarrow> nats_setting list \<Rightarrow> (string, 'c) result) \<Rightarrow>
    (string \<Rightarrow> string \<Rightarrow> (nats_net_error, string) result) \<Rightarrow> bool \<Rightarrow> 8 word list \<Rightarrow> envelope \<Rightarrow> 'c nats_transport \<Rightarrow>
    (nats_failure, envelope) result \<times> 'c nats_transport" where
  "Request_nats j connClosed connect request closedNow rnd env t =
     (if nt_closed t then (Inl NatsClosed, t)
      else (case subjectFor (nt_prefix t) (e_Pattern env) of
          Inl e \<Rightarrow> (Inl (SubjectRefused e), t)
        | Inr subject \<Rightarrow>
            (case conn_nats connClosed connect t of
               (Inl e, t) \<Rightarrow> (Inl e, t)
             | (Inr _, t) \<Rightarrow>
                 (let env = env\<lparr>e_ID := (if e_ID env = [] then NewID rnd else e_ID env), e_ReplyTo := []\<rparr>
                  in case Encode j env of
                       Inl e \<Rightarrow> (Inl (NatsEncode e), t)
                     | Inr payload \<Rightarrow>
                         (case request subject payload of
                            Inl e \<Rightarrow> (Inl (if closedNow then NatsClosed else NatsRequest subject (mapNATSError e)), t)
                          | Inr answer \<Rightarrow>
                              (case DecodeEnvelope j answer of
                                 Inl e \<Rightarrow> (Inl (MalformedReply subject e), t)
                               | Inr reply \<Rightarrow>
                                   if e_ID reply \<noteq> e_ID env then (Inl (ReplyMismatch (e_ID reply) (e_ID env)), t)
                                   else (Inr reply, t)))))))"

section \<open>The listener\<close>

text \<open>
  \<^verbatim>\<open>handleMessage\<close>: the subject and payload of the answer. The reply address of the protocol wins over that of the envelope and is what the handlers
  see.
\<close>

definition handleMessage_nats :: "'v json \<Rightarrow> (msg_error \<Rightarrow> string) \<Rightarrow> ('w \<Rightarrow> envelope \<Rightarrow> 'w \<times> envelope option \<times> msg_error option) \<Rightarrow> 'w \<Rightarrow>
    string \<Rightarrow> string \<Rightarrow> 'w \<times> (string \<times> string) option" where
  "handleMessage_nats j etext dispatch w msgReply msgData =
     (case DecodeEnvelope j msgData of
        Inl _ \<Rightarrow> (w, None)
      | Inr env \<Rightarrow>
          (let replySubject = (if msgReply = [] then e_ReplyTo env else msgReply);
               env = env\<lparr>e_ReplyTo := replySubject\<rparr>
           in case dispatch w env of
                (w', reply, err) \<Rightarrow> (w', map_option (Pair replySubject) (reply_payload j etext env reply err))))"

text \<open>The callback: a message is handed to a handler when it gets a slot, and dropped when the context or the transport ends first.\<close>

datatype nats_slot = GotSlot | CtxEnded | Ended

definition nats_callback :: "nats_slot \<Rightarrow> bool" where
  "nats_callback s = (s = GotSlot)"

text \<open>
  \<^verbatim>\<open>Listen\<close> up to the wait: what it subscribes to, in order, with the subscriptions that are drained again when one of them or the flush fails.
\<close>

fun subscribe_all :: "(string \<Rightarrow> string option) \<Rightarrow> string list \<Rightarrow> string list \<Rightarrow> (nats_failure, string list) result \<times> string list" where
  "subscribe_all sub [] subs = (Inr subs, [])"
| "subscribe_all sub (s # ss) subs =
     (case sub s of
        Some e \<Rightarrow> (Inl (NatsSubscribe s e), subs)
      | None \<Rightarrow> subscribe_all sub ss (subs @ [s]))"

datatype nats_end = ListenCanceled | ListenTransportClosed

definition Listen_nats :: "('c \<Rightarrow> bool) \<Rightarrow> (string \<Rightarrow> nats_setting list \<Rightarrow> (string, 'c) result) \<Rightarrow> (string \<Rightarrow> string option) \<Rightarrow> nats_net_error option \<Rightarrow>
    bool \<Rightarrow> string list \<Rightarrow> nats_end \<Rightarrow> 'c nats_transport \<Rightarrow> nats_failure option \<times> string list \<times> string list \<times> 'c nats_transport" where
  "Listen_nats connClosed connect sub flushed has_dispatch patterns ending t =
     (if \<not> has_dispatch then (Some NatsNilDispatcher, [], [], t)
      else if nt_closed t then (Some NatsClosed, [], [], t)
      else (case subjectPlan patterns of
          Inl e \<Rightarrow> (Some (NatsPlan e), [], [], t)
        | Inr (subjects, catchAll) \<Rightarrow>
            (case conn_nats connClosed connect t of
               (Inl e, t) \<Rightarrow> (Some e, [], [], t)
             | (Inr _, t) \<Rightarrow>
                 (case subscribe_all sub (if catchAll then [catchAllSubject (nt_prefix t)] else map (joinSubject (nt_prefix t)) subjects) [] of
                    (Inl e, drained) \<Rightarrow> (Some e, drained, drained, t)
                  | (Inr subs, _) \<Rightarrow>
                      (case flushed of
                         Some e \<Rightarrow> (Some (FlushFailed (mapNATSError e)), subs, subs, t)
                       | None \<Rightarrow> (case ending of ListenCanceled \<Rightarrow> None | ListenTransportClosed \<Rightarrow> Some NatsClosed, subs, subs, t))))))"

definition Close_nats :: "('c \<Rightarrow> bool) \<Rightarrow> bool \<Rightarrow> (bool \<times> string) option \<Rightarrow> bool \<Rightarrow> 'c nats_transport \<Rightarrow> nats_failure option \<times> bool \<times> 'c nats_transport" where
  "Close_nats connClosed handlersDone drainErr drained t =
     (if nt_closed t then (None, False, t)
      else
        (let err = (if handlersDone then None else Some (HandlersTimeout (nt_drainTimeout t)));
             t' = t\<lparr>nt_closed := True\<rparr>
         in case nt_nc t of
              None \<Rightarrow> (err, False, t')
            | Some c \<Rightarrow>
                if \<not> nt_ownsConn t \<or> connClosed c then (err, False, t')
                else (case drainErr of
                    Some (already, e) \<Rightarrow> (if err = None \<and> \<not> already then Some (DrainFailed e) else err, True, t')
                  | None \<Rightarrow> (if drained \<or> err \<noteq> None then err else Some DrainTimedOut, True, t'))))"

section \<open>What holds of it\<close>

text \<open>Whatever makes \<^verbatim>\<open>Listen\<close> return, every subscription it made is drained.\<close>

lemma subscribe_all_made: "subscribe_all sub ss subs = (Inr made, d) \<Longrightarrow> made = subs @ ss"
  by (induction ss arbitrary: subs) (fastforce split: option.splits)+

lemma Listen_nats_drains: "Listen_nats connClosed connect sub flushed has_dispatch patterns ending t = (res, made, drained, t') \<Longrightarrow> drained = made"
  by (auto simp: Listen_nats_def split: if_splits sum.splits prod.splits option.splits)

text \<open>A connection of the caller is used as long as it is open and never closed.\<close>

lemma borrowed_connection_kept:
  assumes "New_nats drt url pk cc connect o0 = Inr t" and "no_Conn o0 = Some c"
  shows "conn_nats cc connect t = (if cc c then Inl (NatsNet NatsConnClosed) else Inr c, t)" "fst (snd (Close_nats cc h d dr t)) = False"
proof -
  have "nt_nc t = Some c" "\<not> nt_ownsConn t" "\<not> nt_closed t"
    using assms by (auto simp: New_nats_def Let_def split: if_splits option.splits)
  then show "conn_nats cc connect t = (if cc c then Inl (NatsNet NatsConnClosed) else Inr c, t)" "fst (snd (Close_nats cc h d dr t)) = False"
    by (auto simp: conn_nats_def Close_nats_def Let_def split: option.splits)
qed

text \<open>
  A request that reaches a server is answered with the answer to it: when the request's message is handled by the transport's own
  \<^verbatim>\<open>handleMessage\<close> under the inbox NATS gives it, whatever the dispatcher does - no reply, an error, a reply with another id, one that does
  not encode - the client gets the envelope of the payload that was sent back, under the id of its own request, unless nothing could be encoded or the payload
  does not decode; the check of the ids never refuses it.
\<close>

lemma nats_request_answered:
  assumes "json_keeps_id j" and "inbox \<noteq> []"
    and "request = (\<lambda>subject payload. case handleMessage_nats j etext dispatch w inbox payload of (_, Some (_, answer)) \<Rightarrow> Inr answer | (_, None) \<Rightarrow> Inl NatsTimeout)"
    and "conn_nats cc connect t = (Inr c, t')" and "subjectFor (nt_prefix t) (e_Pattern env) = Inr subject"
    and "Encode j (env\<lparr>e_ID := (if e_ID env = [] then NewID rnd else e_ID env), e_ReplyTo := []\<rparr>) = Inr payload"
    and "DecodeEnvelope j payload = Inr e"
  shows "fst (Request_nats j cc connect request False rnd env t) =
    (case reply_payload j etext (e\<lparr>e_ReplyTo := inbox\<rparr>) (fst (snd (dispatch w (e\<lparr>e_ReplyTo := inbox\<rparr>)))) (snd (snd (dispatch w (e\<lparr>e_ReplyTo := inbox\<rparr>)))) of
       None \<Rightarrow> Inl (NatsRequest subject NatsErrTimeout)
     | Some answer \<Rightarrow> (case DecodeEnvelope j answer of Inl err \<Rightarrow> Inl (MalformedReply subject err) | Inr reply \<Rightarrow> Inr reply))"
proof -
  let ?e = "e\<lparr>e_ReplyTo := inbox\<rparr>"
  obtain w' reply err where d: "dispatch w ?e = (w', reply, err)" using prod_cases3 by blast
  have open1: "\<not> nt_closed t" using assms(4) by (auto simp: conn_nats_def split: if_splits)
  have req: "request subject payload = (case reply_payload j etext ?e reply err of Some a \<Rightarrow> Inr a | None \<Rightarrow> Inl NatsTimeout)"
    using assms(2,3,7) d by (simp add: handleMessage_nats_def Let_def split: option.splits)
  have id1: "e_ID e = (if e_ID env = [] then NewID rnd else e_ID env)"
    using assms(1,6) decodes_Inr [OF assms(7)] unfolding json_keeps_id_def Encode_Inr by fastforce
  have id2: "e_ID r = (if e_ID env = [] then NewID rnd else e_ID env)"
    if a: "reply_payload j etext ?e reply err = Some a" and r: "DecodeEnvelope j a = Inr r" for a r
  proof -
    obtain r0 where "Encode j r0 = Inr a" "e_ID r0 = e_ID ?e" using reply_payload_Some [OF a] by blast
    then show ?thesis using assms(1) decodes_Inr [OF r] id1 unfolding json_keeps_id_def Encode_Inr by fastforce
  qed
  note called = Request_nats_def open1 assms(4-6) Let_def req mapNATSError_def
  show ?thesis
  proof (cases "reply_payload j etext ?e reply err")
    case None
    then show ?thesis by (simp add: called d)
  next
    case (Some a)
    show ?thesis
    proof (cases "DecodeEnvelope j a")
      case (Inl x)
      then show ?thesis using Some by (simp add: called d)
    next
      case (Inr r)
      then show ?thesis using Some id2 [OF Some Inr] by (simp add: called d)
    qed
  qed
qed

end
