(* ===== verification/Rabbitmq.thy ===== *)
theory Rabbitmq
  imports Subscriptions
begin

text \<open>
  Binding keys of the RabbitMQ transport (\<^verbatim>\<open>transport/rabbitmq/routing.go\<close>): literal patterns bind
  their own routing key; a wildcard pattern has no AMQP equivalent, so one catch-all binding
  takes the place of all keys. How a topic exchange matches a binding key is a parameter with
  documented laws; a queue receives a message at most once however many bindings match.
\<close>

section \<open>The code\<close>

definition maxKeyBytes :: nat where
  "maxKeyBytes = 255"

datatype rabbit_error =
    KeyEmpty
  | KeyTooLong string nat
  | KeyDot string
  | KeyHash string
  | KeyWhitespace string
  | PublishWildcard string
  | NothingToBind

definition validKey :: "string \<Rightarrow> rabbit_error option" where
  "validKey pattern =
     (if pattern = '''' then Some KeyEmpty
      else if length pattern > maxKeyBytes then Some (KeyTooLong pattern (length pattern))
      else if ContainsRune pattern (CHR ''.'') then Some (KeyDot pattern)
      else if ContainsRune pattern (CHR ''#'') then Some (KeyHash pattern)
      else if ContainsAny pattern [CHR '' '', CHR 0x09, CHR 0x0D, CHR 0x0A, CHR 0x00] then Some (KeyWhitespace pattern)
      else None)"

definition toRoutingKey :: "string \<Rightarrow> (rabbit_error, string) result" where
  "toRoutingKey pattern =
     (case validKey pattern of
        Some e \<Rightarrow> Inl e
      | None \<Rightarrow> if IsWildcard pattern then Inl (PublishWildcard pattern) else Inr pattern)"

definition toBindingKey :: "string \<Rightarrow> string" where
  "toBindingKey pattern = (if IsWildcard pattern then ''#'' else pattern)"

record bindingPlan =
  bp_Keys :: "string list"
  bp_CatchAll :: bool

fun binding_loop :: "string list \<Rightarrow> string list \<Rightarrow> bindingPlan \<Rightarrow> (rabbit_error, bindingPlan) result" where
  "binding_loop [] seen plan = Inr plan"
| "binding_loop (pattern # patterns) seen plan =
     (case validKey pattern of
        Some e \<Rightarrow> Inl e
      | None \<Rightarrow>
          let key = toBindingKey pattern
          in if key = ''#'' then binding_loop patterns seen (plan\<lparr>bp_CatchAll := True\<rparr>)
             else if key \<in> set seen then binding_loop patterns seen plan
             else binding_loop patterns (key # seen) (plan\<lparr>bp_Keys := bp_Keys plan @ [key]\<rparr>))"

definition planBindings :: "string list \<Rightarrow> (rabbit_error, bindingPlan) result" where
  "planBindings patterns =
     (if length patterns = 0 then Inl NothingToBind
      else and_then (binding_loop patterns [] \<lparr>bp_Keys = [], bp_CatchAll = False\<rparr>) (\<lambda>plan.
        if bp_CatchAll plan then Inr (plan\<lparr>bp_Keys := [''#'']\<rparr>)
        else Inr (plan\<lparr>bp_Keys := sort (bp_Keys plan)\<rparr>)))"

section \<open>RabbitMQ\<close>

text \<open>The hash matches every routing key; a key of one word without metacharacters matches itself.\<close>

definition topic_matching :: "(string \<Rightarrow> string \<Rightarrow> bool) \<Rightarrow> bool" where
  "topic_matching mt \<longleftrightarrow>
     (\<forall>k. mt ''#'' k) \<and>
     (\<forall>b k. set b \<inter> {CHR ''*'', CHR ''#'', CHR ''.''} = {} \<longrightarrow> (mt b k \<longleftrightarrow> k = b))"

text \<open>A queue bound by the keys of a plan gets one copy of a message if some key matches.\<close>

definition rabbit_deliveries :: "(string \<Rightarrow> string \<Rightarrow> bool) \<Rightarrow> bindingPlan \<times> string list \<Rightarrow> string \<Rightarrow> unit list" where
  "rabbit_deliveries mt p s = (if \<exists>k \<in> set (bp_Keys (fst p)). mt k s then [()] else [])"

definition rabbit_planned :: "bindingPlan \<times> string list \<Rightarrow> bool" where
  "rabbit_planned p \<longleftrightarrow> planBindings (snd p) = Inr (fst p)"

definition rabbit_covers :: "bindingPlan \<times> string list \<Rightarrow> string \<Rightarrow> bool" where
  "rabbit_covers p s \<longleftrightarrow> bp_CatchAll (fst p) \<or> (\<exists>w \<in> set (snd p). Match w s)"

section \<open>The plan\<close>

lemma validKey_chars:
  "validKey w = None \<Longrightarrow> w \<noteq> '''' \<and> length w \<le> 255 \<and> CHR ''.'' \<notin> set w \<and> CHR ''#'' \<notin> set w"
  by (auto simp: validKey_def maxKeyBytes_def ContainsRune_def split: if_splits)

lemma toBindingKey_hash: "validKey w = None \<Longrightarrow> toBindingKey w = ''#'' \<longleftrightarrow> IsWildcard w"
  using validKey_chars [of w] by (auto simp: toBindingKey_def)

lemma binding_loop_result:
  assumes "binding_loop ws seen p = Inr p'" and "set seen = set (bp_Keys p)"
  shows "(\<forall>w \<in> set ws. validKey w = None) \<and> bp_CatchAll p' = (bp_CatchAll p \<or> (\<exists>w \<in> set ws. IsWildcard w)) \<and>
    set (bp_Keys p') = set (bp_Keys p) \<union> {w \<in> set ws. \<not> IsWildcard w}"
  using assms
proof (induction ws arbitrary: seen p)
  case (Cons w ws)
  then have v: "validKey w = None" by (auto split: option.splits)
  note hash = toBindingKey_hash [OF v]
  consider "IsWildcard w" | "\<not> IsWildcard w" "w \<in> set seen" | "\<not> IsWildcard w" "w \<notin> set seen" by blast
  then show ?case
  proof cases
    case 1
    with Cons.prems v hash have "binding_loop ws seen (p\<lparr>bp_CatchAll := True\<rparr>) = Inr p'" by (simp add: Let_def)
    from Cons.IH [OF this] Cons.prems(2) 1 v show ?thesis by auto
  next
    case 2
    with Cons.prems v hash have "binding_loop ws seen p = Inr p'" by (simp add: Let_def toBindingKey_def)
    from Cons.IH [OF this Cons.prems(2)] Cons.prems(2) 2 v show ?thesis by auto
  next
    case 3
    with Cons.prems v hash have "binding_loop ws (w # seen) (p\<lparr>bp_Keys := bp_Keys p @ [w]\<rparr>) = Inr p'"
      by (simp add: Let_def toBindingKey_def)
    from Cons.IH [OF this] Cons.prems(2) 3 v show ?thesis by auto
  qed
qed simp

lemma planBindings_result:
  assumes "planBindings ws = Inr p"
  shows "\<forall>w \<in> set ws. validKey w = None" "bp_CatchAll p \<longleftrightarrow> (\<exists>w \<in> set ws. IsWildcard w)"
    "bp_Keys p = (if bp_CatchAll p then [''#''] else bp_Keys p)" "\<not> bp_CatchAll p \<Longrightarrow> set (bp_Keys p) = set ws"
proof -
  from assms obtain q where q: "binding_loop ws [] \<lparr>bp_Keys = [], bp_CatchAll = False\<rparr> = Inr q"
      "p = (if bp_CatchAll q then q\<lparr>bp_Keys := [''#'']\<rparr> else q\<lparr>bp_Keys := sort (bp_Keys q)\<rparr>)"
    by (auto simp: planBindings_def and_then_Inr_iff split: if_splits)
  from binding_loop_result [OF q(1)]
  have r: "\<forall>w \<in> set ws. validKey w = None" "bp_CatchAll q = (\<exists>w \<in> set ws. IsWildcard w)"
    "set (bp_Keys q) = {w \<in> set ws. \<not> IsWildcard w}" by auto
  have c: "bp_CatchAll p = bp_CatchAll q" "bp_CatchAll q \<Longrightarrow> bp_Keys p = [''#'']"
    "\<not> bp_CatchAll q \<Longrightarrow> set (bp_Keys p) = set (bp_Keys q)" using q(2) by auto
  show "\<forall>w \<in> set ws. validKey w = None" by (rule r(1))
  show "bp_CatchAll p \<longleftrightarrow> (\<exists>w \<in> set ws. IsWildcard w)" using c(1) r(2) by simp
  show "bp_Keys p = (if bp_CatchAll p then [''#''] else bp_Keys p)" using c(1,2) by auto
  show "set (bp_Keys p) = set ws" if "\<not> bp_CatchAll p" using that c(1,3) r(2,3) by auto
qed

lemma rabbit_deliveries_result:
  assumes mt: "topic_matching mt" and "rabbit_planned p"
  shows "rabbit_deliveries mt p s = (if rabbit_covers p s then [()] else [])"
proof -
  from assms(2) have plan: "planBindings (snd p) = Inr (fst p)" by (simp add: rabbit_planned_def)
  note r = planBindings_result [OF plan]
  have "(\<exists>k \<in> set (bp_Keys (fst p)). mt k s) \<longleftrightarrow> rabbit_covers p s"
  proof (cases "bp_CatchAll (fst p)")
    case True
    with r(3) have "bp_Keys (fst p) = [''#'']" by simp
    with True mt show ?thesis by (simp add: rabbit_covers_def topic_matching_def)
  next
    case False
    have "mt k s \<longleftrightarrow> Match k s" if "k \<in> set (snd p)" for k
    proof -
      have "\<not> IsWildcard k" using that False r(2) by blast
      moreover have "set k \<inter> {CHR ''*'', CHR ''#'', CHR ''.''} = {}"
        using calculation validKey_chars [of k] r(1) that by (auto simp: IsWildcard_iff)
      ultimately show ?thesis using mt by (simp add: topic_matching_def Match_iff_matches matches_literal)
    qed
    with False r(4) show ?thesis by (auto simp: rabbit_covers_def)
  qed
  then show ?thesis by (simp add: rabbit_deliveries_def)
qed

interpretation rabbit: exactly_once topic_matching rabbit_planned rabbit_covers rabbit_deliveries "\<lambda>p d s. True"
  by unfold_locales (simp_all add: rabbit_deliveries_result)

section \<open>Properties\<close>

text \<open>
  Over RabbitMQ every message a handler covers is delivered once: the binding keys planned
  for a list of patterns are the literal patterns themselves, or the catch-all alone as soon as
  one is a wildcard; a message some pattern matches reaches the queue exactly once, a literal
  plan never receives a message no pattern matches, and every key fits the protocol's limit.
\<close>

theorem rabbit_exactly_once:
  assumes "planBindings patterns = Inr plan" and "topic_matching mt"
  shows "((\<exists>w \<in> set patterns. Match w s) \<longrightarrow> rabbit_deliveries mt (plan, patterns) s = [()]) \<and>
    (\<not> bp_CatchAll plan \<and> (\<forall>w \<in> set patterns. \<not> Match w s) \<longrightarrow> rabbit_deliveries mt (plan, patterns) s = []) \<and>
    (bp_CatchAll plan \<longleftrightarrow> (\<exists>w \<in> set patterns. IsWildcard w)) \<and>
    (if bp_CatchAll plan then bp_Keys plan = [''#''] else set (bp_Keys plan) = set patterns) \<and>
    (\<forall>k \<in> set (bp_Keys plan). length k \<le> 255) \<and>
    handed_on (rabbit_deliveries mt (plan, patterns)) (\<lambda>d s. True) ss = filter (rabbit_covers (plan, patterns)) ss"
proof -
  have planned: "rabbit_planned (plan, patterns)" using assms(1) by (simp add: rabbit_planned_def)
  note r = planBindings_result [OF assms(1)]
  have keys: "if bp_CatchAll plan then bp_Keys plan = [''#''] else set (bp_Keys plan) = set patterns"
    using r(3,4) by (metis (full_types))
  have len: "length k \<le> 255" if "k \<in> set (bp_Keys plan)" for k
  proof (cases "bp_CatchAll plan")
    case True
    with keys that show ?thesis by simp
  next
    case False
    with keys that have "k \<in> set patterns" by simp
    with r(1) validKey_chars show ?thesis by blast
  qed
  have "rabbit_deliveries mt (plan, patterns) s = (if rabbit_covers (plan, patterns) s then [()] else [])"
    by (rule rabbit_deliveries_result [OF assms(2) planned])
  then show ?thesis
    using r(2) keys len rabbit.handed_on_covered [OF assms(2) planned, of ss] by (simp add: rabbit_covers_def)
qed

definition topic_ref :: "string \<Rightarrow> string \<Rightarrow> bool" where
  "topic_ref b k \<longleftrightarrow> b = ''#'' \<or> k = b"

theorem rabbit_exactly_once_witness:
  "\<exists>plan. planBindings [''users'', ''user_created''] = Inr plan \<and> bp_Keys plan = [''user_created'', ''users''] \<and>
     rabbit_deliveries topic_ref (plan, [''users'', ''user_created'']) ''users'' = [()]"
proof -
  let ?plan = "\<lparr>bp_Keys = [''user_created'', ''users''], bp_CatchAll = False\<rparr>"
  have plan: "planBindings [''users'', ''user_created''] = Inr ?plan" by code_simp
  have ref: "topic_matching topic_ref" by (auto simp: topic_matching_def topic_ref_def)
  have "Match ''users'' ''users''" by code_simp
  with rabbit_exactly_once [OF plan ref, of "''users''" "[]"] plan show ?thesis by auto
qed

end
