(* ===== verification/Rabbit_Transport.thy ===== *)
theory Rabbit_Transport
  imports Correlation Rabbitmq
begin

text \<open>
  The RabbitMQ transport (\<^verbatim>\<open>transport/rabbitmq\<close>: \<^verbatim>\<open>rabbitmq.go\<close>, \<^verbatim>\<open>session.go\<close>, \<^verbatim>\<open>publish.go\<close>, \<^verbatim>\<open>listen.go\<close>): options, the connection and the client session
  with its reply queue, publishing with confirms, the consumer's set-up and loop, and how a delivery is handled, answered and
  settled. Requests and replies follow the protocol of \<open>Correlation\<close>. The broker and its client library are parameters: what a call on a
  connection or channel answers is an argument, and the life of a message in a queue is the step relation at the end.
\<close>

section \<open>Options\<close>

datatype amqp_value = ATString string | ATInt int | ATBool bool | ATTable "(string \<times> amqp_value) list"

record 'c rabbit_options =
  bo_URL :: string
  bo_Conn :: "'c option"
  bo_Exchange :: string
  bo_ExchangeType :: string
  bo_Queue :: string
  bo_Durable :: "bool option"
  bo_AutoDelete :: bool
  bo_QueueArgs :: "(string, amqp_value) gomap"
  bo_DeadLetterExchange :: string
  bo_Prefetch :: int
  bo_Concurrency :: int
  bo_AutoAck :: bool
  bo_Requeue :: bool
  bo_Mandatory :: bool
  bo_DisableConfirms :: bool
  bo_ReplyTimeout :: int
  bo_Heartbeat :: int

text \<open>Calls on a channel, and errors of the client library.\<close>

datatype chan_op =
    ExchangeDeclare string string bool
  | ConfirmMode
  | QueueDeclare string bool bool bool "(string, amqp_value) gomap option"
  | QueueBind string string string
  | Qos int
  | Consume string bool bool

datatype amqp_error = AmqpClosed | AmqpCode int string | AmqpDeadline | AmqpCanceled | AmqpOther string

datatype rabbit_failure =
    ConnOrUrlRequired
  | RabbitClosed
  | CallerConnClosed
  | DialFailed string
  | OpenChannel string
  | OpFailed chan_op string
  | KeyRefused rabbit_error
  | RabbitEncode msg_error
  | RabbitTimeout
  | RabbitError amqp_error
  | RabbitPublish string string rabbit_failure
  | AwaitConfirm string string rabbit_failure
  | BrokerRejected string string
  | ConnectionLost string
  | RabbitNilDispatcher
  | NoBindings rabbit_error
  | ConsumerChannelClosed "string option"
  | ConnectionClosed "string option"
  | StoppedDelivering

record session =
  se_ch :: nat
  se_replyQueue :: string
  se_dead :: bool
  se_chClosed :: bool

record 'c rabbit_transport =
  rb_opts :: "'c rabbit_options"
  rb_ownsConn :: bool
  rb_conn :: "'c option"
  rb_sess :: "session option"
  rb_pending :: "(string, nat) gomap"
  rb_closed :: bool

definition DefaultExchange :: string where "DefaultExchange = ''nika''"
definition DefaultExchangeType :: string where "DefaultExchangeType = ''topic''"
definition DefaultQueue :: string where "DefaultQueue = ''nika.workers''"
definition DefaultPrefetch :: int where "DefaultPrefetch = 32"
definition DefaultHeartbeat :: int where "DefaultHeartbeat = 10000000000"

definition New_rabbit :: "int \<Rightarrow> 'c rabbit_options \<Rightarrow> (rabbit_failure, 'c rabbit_transport) result" where
  "New_rabbit defaultRequestTimeout o0 =
     (if bo_Conn o0 = None \<and> bo_URL o0 = [] then Inl ConnOrUrlRequired
      else
        (let prefetch = (if bo_Prefetch o0 \<le> 0 then DefaultPrefetch else bo_Prefetch o0);
             o1 = o0\<lparr>bo_Exchange := if bo_Exchange o0 = [] then DefaultExchange else bo_Exchange o0,
                     bo_ExchangeType := if bo_ExchangeType o0 = [] then DefaultExchangeType else bo_ExchangeType o0,
                     bo_Queue := if bo_Queue o0 = [] then DefaultQueue else bo_Queue o0,
                     bo_Durable := if bo_Durable o0 = None then Some True else bo_Durable o0,
                     bo_Prefetch := prefetch,
                     bo_Concurrency := if bo_Concurrency o0 \<le> 0 then prefetch else bo_Concurrency o0,
                     bo_ReplyTimeout := if bo_ReplyTimeout o0 \<le> 0 then defaultRequestTimeout else bo_ReplyTimeout o0,
                     bo_Heartbeat := if bo_Heartbeat o0 \<le> 0 then DefaultHeartbeat else bo_Heartbeat o0\<rparr>
         in Inr \<lparr>rb_opts = o1, rb_ownsConn = (bo_Conn o1 = None), rb_conn = bo_Conn o1, rb_sess = None, rb_pending = [], rb_closed = False\<rparr>))"

definition durable :: "'c rabbit_options \<Rightarrow> bool" where
  "durable o1 = (case bo_Durable o1 of None \<Rightarrow> True | Some d \<Rightarrow> d)"

definition queueArgs :: "'c rabbit_options \<Rightarrow> (string, amqp_value) gomap option" where
  "queueArgs o1 =
     (if bo_QueueArgs o1 = [] \<and> bo_DeadLetterExchange o1 = [] then None
      else Some (if bo_DeadLetterExchange o1 = [] then bo_QueueArgs o1
                 else mput ''x-dead-letter-exchange'' (ATString (bo_DeadLetterExchange o1)) (bo_QueueArgs o1)))"

definition rabbit_mapTimeout :: "amqp_error \<Rightarrow> rabbit_failure" where
  "rabbit_mapTimeout e = (if e = AmqpDeadline then RabbitTimeout else RabbitError e)"

definition isClosedErr :: "amqp_error option \<Rightarrow> bool" where
  "isClosedErr err = (case err of None \<Rightarrow> True | Some AmqpClosed \<Rightarrow> True | Some (AmqpCode c _) \<Rightarrow> c = 504 | Some _ \<Rightarrow> False)"

section \<open>Connection and session\<close>

text \<open>What the broker answers during one call of the transport.\<close>

record 'c rabbit_answers =
  ba_connClosed :: "'c \<Rightarrow> bool"
  ba_dial :: "(string, 'c) result"
  ba_channel :: "(string, nat) result"
  ba_op :: "chan_op \<Rightarrow> string option"
  ba_replyQueue :: string

definition connectionLocked :: "'c rabbit_answers \<Rightarrow> 'c rabbit_transport \<Rightarrow> (rabbit_failure, 'c) result \<times> 'c rabbit_transport" where
  "connectionLocked a t =
     (if rb_closed t then (Inl RabbitClosed, t)
      else (case (case rb_conn t of Some c \<Rightarrow> if ba_connClosed a c then None else Some c | None \<Rightarrow> None) of
          Some c \<Rightarrow> (Inr c, t)
        | None \<Rightarrow>
            if \<not> rb_ownsConn t then (Inl CallerConnClosed, t)
            else (case ba_dial a of Inl e \<Rightarrow> (Inl (DialFailed e), t) | Inr c \<Rightarrow> (Inr c, t\<lparr>rb_conn := Some c\<rparr>))))"

text \<open>A sequence of calls on a channel that stops at the first error: the calls made, and the one that failed.\<close>

fun run_ops :: "('o \<Rightarrow> 'e option) \<Rightarrow> 'o list \<Rightarrow> 'o list \<times> ('o \<times> 'e) option" where
  "run_ops ans [] = ([], None)"
| "run_ops ans (op # ops) =
     (case ans op of
        Some e \<Rightarrow> ([op], Some (op, e))
      | None \<Rightarrow> (case run_ops ans ops of (made, res) \<Rightarrow> (op # made, res)))"

definition declareExchange :: "'c rabbit_options \<Rightarrow> chan_op" where
  "declareExchange o1 = ExchangeDeclare (bo_Exchange o1) (bo_ExchangeType o1) (durable o1)"

definition session_ops :: "'c rabbit_options \<Rightarrow> string \<Rightarrow> chan_op list" where
  "session_ops o1 replyQueue =
     [declareExchange o1] @ (if bo_DisableConfirms o1 then [] else [ConfirmMode]) @
     [QueueDeclare [] False True True None, Consume replyQueue True True]"

text \<open>\<^verbatim>\<open>newSession\<close>; the last component says that the channel was closed again.\<close>

definition newSession :: "'c rabbit_answers \<Rightarrow> 'c rabbit_options \<Rightarrow> (rabbit_failure, session) result \<times> chan_op list \<times> bool" where
  "newSession a o1 =
     (case ba_channel a of
        Inl e \<Rightarrow> (Inl (OpenChannel e), [], False)
      | Inr ch \<Rightarrow>
          (case run_ops (ba_op a) (session_ops o1 (ba_replyQueue a)) of
             (made, Some (op, e)) \<Rightarrow> (Inl (OpFailed op e), made, True)
           | (made, None) \<Rightarrow> (Inr \<lparr>se_ch = ch, se_replyQueue = ba_replyQueue a, se_dead = False, se_chClosed = False\<rparr>, made, False)))"

definition isDead :: "session \<Rightarrow> bool" where
  "isDead s = (se_dead s \<or> se_chClosed s)"

definition failPending :: "'c rabbit_transport \<Rightarrow> 'c rabbit_transport" where
  "failPending t = t\<lparr>rb_pending := []\<rparr>"

definition usable_session :: "'c rabbit_answers \<Rightarrow> 'c rabbit_transport \<Rightarrow> (rabbit_failure, session) result \<times> 'c rabbit_transport" where
  "usable_session a t =
     (if rb_closed t then (Inl RabbitClosed, t)
      else (case (case rb_sess t of Some s \<Rightarrow> if isDead s then None else Some s | None \<Rightarrow> None) of
          Some s \<Rightarrow> (Inr s, t)
        | None \<Rightarrow>
            (let t = (if rb_sess t \<noteq> None then failPending (t\<lparr>rb_sess := None\<rparr>) else t)
             in case connectionLocked a t of
                  (Inl e, t) \<Rightarrow> (Inl e, t)
                | (Inr c, t) \<Rightarrow>
                    (case fst (newSession a (rb_opts t)) of
                       Inl e \<Rightarrow> (Inl e, t)
                     | Inr s \<Rightarrow> (Inr s, t\<lparr>rb_sess := Some s\<rparr>)))))"

text \<open>\<^verbatim>\<open>watchSession\<close> after the channel of its session failed; it runs on its own, at any time after that.\<close>

definition watchSession :: "nat \<Rightarrow> 'c rabbit_transport \<Rightarrow> 'c rabbit_transport" where
  "watchSession ch t =
     failPending (t\<lparr>rb_sess := map_option (\<lambda>s. if se_ch s = ch then s\<lparr>se_dead := True\<rparr> else s) (rb_sess t)\<rparr>)"

definition registerPending :: "string \<Rightarrow> nat \<Rightarrow> 'c rabbit_transport \<Rightarrow> 'c rabbit_transport" where
  "registerPending x i t = t\<lparr>rb_pending := mput x i (rb_pending t)\<rparr>"

definition Close_rabbit :: "amqp_error option \<Rightarrow> amqp_error option \<Rightarrow> 'c rabbit_transport \<Rightarrow> amqp_error option \<times> bool \<times> 'c rabbit_transport" where
  "Close_rabbit sessClose connClose t =
     (if rb_closed t then (None, False, t)
      else
        (let first = (if rb_sess t \<noteq> None \<and> \<not> isClosedErr sessClose then sessClose else None);
             closes = (rb_ownsConn t \<and> rb_conn t \<noteq> None)
         in (if closes \<and> \<not> isClosedErr connClose \<and> first = None then connClose else first, closes,
             t\<lparr>rb_closed := True, rb_sess := None, rb_pending := []\<rparr>)))"

subsection \<open>What holds of it\<close>

text \<open>The channel of a session that could not be set up is closed again.\<close>

lemma newSession_no_leak: "newSession a o1 = (res, made, cl) \<Longrightarrow> cl \<longleftrightarrow> (\<exists>ch e. ba_channel a = Inr ch \<and> res = Inl e)"
  by (auto simp: newSession_def split: sum.splits prod.splits option.splits)

text \<open>A session that is handed out has its reply queue declared and its consumer running, on a transport that is not closed.\<close>

lemma run_ops_None: "run_ops ans ops = (made, None) \<Longrightarrow> made = ops \<and> (\<forall>op \<in> set ops. ans op = None)"
  by (induction ops arbitrary: made) (auto split: option.splits prod.splits)

lemma newSession_consumes:
  "newSession a o1 = (Inr s, made, cl) \<Longrightarrow>
   \<not> isDead s \<and> made = session_ops o1 (se_replyQueue s) \<and> ba_op a (Consume (se_replyQueue s) True True) = None"
proof -
  assume "newSession a o1 = (Inr s, made, cl)"
  then have "run_ops (ba_op a) (session_ops o1 (ba_replyQueue a)) = (made, None)" "se_replyQueue s = ba_replyQueue a" "\<not> isDead s"
    by (auto simp: newSession_def isDead_def split: sum.splits prod.splits option.splits)
  moreover have "Consume (ba_replyQueue a) True True \<in> set (session_ops o1 (ba_replyQueue a))" by (simp add: session_ops_def)
  ultimately show ?thesis using run_ops_None by metis
qed

lemma usable_session_alive:
  assumes "usable_session a t = (Inr s, t')"
  shows "\<not> rb_closed t" "\<not> isDead s" "rb_sess t' = Some s"
proof -
  show cl: "\<not> rb_closed t" using assms by (auto simp: usable_session_def)
  let ?live = "case rb_sess t of Some s \<Rightarrow> if isDead s then None else Some s | None \<Rightarrow> None"
  have "\<not> isDead s \<and> rb_sess t' = Some s"
  proof (cases ?live)
    case (Some s')
    with assms cl show ?thesis by (auto simp: usable_session_def split: option.splits if_splits)
  next
    case None
    with assms cl obtain c t1 where "connectionLocked a (if rb_sess t \<noteq> None then failPending (t\<lparr>rb_sess := None\<rparr>) else t) = (Inr c, t1)"
      and "fst (newSession a (rb_opts t1)) = Inr s" "t' = t1\<lparr>rb_sess := Some s\<rparr>"
      by (auto simp: usable_session_def Let_def split: sum.splits prod.splits)
    then show ?thesis using newSession_consumes [of a "rb_opts t1" s] by (cases "newSession a (rb_opts t1)") simp
  qed
  then show "\<not> isDead s" "rb_sess t' = Some s" by blast+
qed

text \<open>A connection of the caller is never dialled again nor closed.\<close>

lemma caller_connection_kept:
  assumes "New_rabbit drt o0 = Inr t" and "bo_Conn o0 = Some c"
  shows "connectionLocked a t = (if ba_connClosed a c then Inl CallerConnClosed else Inr c, t)" "fst (snd (Close_rabbit e1 e2 t)) = False"
proof -
  have "rb_conn t = Some c" "\<not> rb_ownsConn t" "\<not> rb_closed t"
    using assms by (simp_all add: New_rabbit_def Let_def, safe) simp_all
  then show "connectionLocked a t = (if ba_connClosed a c then Inl CallerConnClosed else Inr c, t)" "fst (snd (Close_rabbit e1 e2 t)) = False"
    by (auto simp: connectionLocked_def Close_rabbit_def)
qed

text \<open>
  The watcher of a session that died wipes the entries of requests made on the session that replaced it: a reply to such a request
  finds no channel.
\<close>

lemma late_watcher_loses_reply:
  "snd (deliver_taking x env (rb_pending (watchSession ch (registerPending x i t)), c)) = c"
  by (simp add: watchSession_def registerPending_def failPending_def deliver_taking_def mget_def)

section \<open>Publishing\<close>

text \<open>A message with the properties the transport uses; \<open>am_Expiration\<close> is empty when there is none. The time stamp is left out.\<close>

record amqp_msg =
  am_exchange :: string
  am_key :: string
  am_persistent :: bool
  am_CorrelationId :: string
  am_MessageId :: string
  am_ReplyTo :: string
  am_Expiration :: string
  am_Body :: string

text \<open>The message of a call: what it needs of the moment is random bytes, the session's reply queue and the timeout in nanoseconds.\<close>

definition rabbit_message :: "'v json \<Rightarrow> 'c rabbit_options \<Rightarrow> call_kind \<Rightarrow> 8 word list \<times> string \<times> int \<Rightarrow> envelope \<Rightarrow>
    (rabbit_failure, envelope \<times> amqp_msg) result" where
  "rabbit_message j o1 k ctx env =
     (case toRoutingKey (e_Pattern env) of
        Inl e \<Rightarrow> Inl (KeyRefused e)
      | Inr key \<Rightarrow>
          (let (rnd, replyQueue, timeout) = ctx;
               env' = (case k of
                   Pub \<Rightarrow> env
                 | Req \<Rightarrow> env\<lparr>e_ID := (if e_ID env = [] then NewID rnd else e_ID env), e_ReplyTo := replyQueue\<rparr>)
           in case Encode j env' of
                Inl e \<Rightarrow> Inl (RabbitEncode e)
              | Inr body \<Rightarrow>
                  Inr (env', \<lparr>am_exchange = bo_Exchange o1, am_key = key, am_persistent = True, am_CorrelationId = e_ID env',
                    am_MessageId = e_ID env', am_ReplyTo = e_ReplyTo env',
                    am_Expiration = (case k of Pub \<Rightarrow> [] | Req \<Rightarrow> show_int (timeout div 1000000)), am_Body = body\<rparr>)))"

text \<open>
  \<^verbatim>\<open>publish\<close> on what the write gives: an error, nothing to wait for when confirms are off, or the verdict of the broker. The second component says
  that the session was discarded.
\<close>

type_synonym verdict = "(amqp_error, bool) result"

definition publish_rabbit :: "string \<Rightarrow> string \<Rightarrow> (amqp_error, verdict option) result \<Rightarrow> bool \<Rightarrow> rabbit_failure option \<times> bool" where
  "publish_rabbit exchange key written chClosed =
     (case written of
        Inl e \<Rightarrow> (Some (RabbitPublish exchange key (rabbit_mapTimeout e)), chClosed)
      | Inr None \<Rightarrow> (None, False)
      | Inr (Some (Inl e)) \<Rightarrow> (Some (AwaitConfirm exchange key (rabbit_mapTimeout e)), False)
      | Inr (Some (Inr acked)) \<Rightarrow> (if acked then None else Some (BrokerRejected exchange key), False))"

definition discard :: "session \<Rightarrow> 'c rabbit_transport \<Rightarrow> 'c rabbit_transport" where
  "discard s t = (if rb_sess t = Some s then t\<lparr>rb_sess := None\<rparr> else t)"

definition Publish_rabbit :: "'v json \<Rightarrow> 'c rabbit_answers \<Rightarrow> (amqp_msg \<Rightarrow> (amqp_error, verdict option) result) \<Rightarrow> bool \<Rightarrow> envelope \<Rightarrow>
    'c rabbit_transport \<Rightarrow> rabbit_failure option \<times> 'c rabbit_transport" where
  "Publish_rabbit j a write chClosed env t =
     (if rb_closed t then (Some RabbitClosed, t)
      else (case rabbit_message j (rb_opts t) Pub ([], [], 0) env of
          Inl e \<Rightarrow> (Some e, t)
        | Inr (env', msg) \<Rightarrow>
            (case usable_session a t of
               (Inl e, t) \<Rightarrow> (Some e, t)
             | (Inr s, t) \<Rightarrow>
                 (case publish_rabbit (am_exchange msg) (am_key msg) (write msg) chClosed of
                    (err, dis) \<Rightarrow> (err, if dis then discard s t else t)))))"

text \<open>\<^verbatim>\<open>Request\<close>: the session first, then the entry, the message and the write; the entry is removed when the call returns early.\<close>

definition Request_rabbit :: "'v json \<Rightarrow> 'c rabbit_answers \<Rightarrow> (amqp_msg \<Rightarrow> (amqp_error, verdict option) result) \<Rightarrow> bool \<Rightarrow> 8 word list \<Rightarrow> int \<Rightarrow>
    nat \<Rightarrow> envelope \<Rightarrow> 'c rabbit_transport \<Rightarrow> (rabbit_failure, envelope \<times> session) result \<times> 'c rabbit_transport" where
  "Request_rabbit j a write chClosed rnd timeout i env t =
     (if rb_closed t then (Inl RabbitClosed, t)
      else (case toRoutingKey (e_Pattern env) of
          Inl e \<Rightarrow> (Inl (KeyRefused e), t)
        | Inr key \<Rightarrow>
            (let timeout = (if timeout \<le> 0 then bo_ReplyTimeout (rb_opts t) else timeout)
             in case usable_session a t of
                  (Inl e, t) \<Rightarrow> (Inl e, t)
                | (Inr s, t) \<Rightarrow>
                    (let x = (if e_ID env = [] then NewID rnd else e_ID env);
                         t = registerPending x i t;
                         release = (\<lambda>t. t\<lparr>rb_pending := mdel x (rb_pending t)\<rparr>)
                     in case rabbit_message j (rb_opts t) Req (rnd, se_replyQueue s, timeout) env of
                          Inl e \<Rightarrow> (Inl e, release t)
                        | Inr (env', msg) \<Rightarrow>
                            (case publish_rabbit (am_exchange msg) (am_key msg) (write msg) chClosed of
                               (None, _) \<Rightarrow> (Inr (env', s), t)
                             | (Some e, dis) \<Rightarrow> (Inl e, release (if dis then discard s t else t)))))))"

datatype wait_event = GotReply envelope | SessionDead | TransportClosed | WaitCtx amqp_error

definition awaitReply_rabbit :: "string \<Rightarrow> wait_event \<Rightarrow> (rabbit_failure, envelope) result" where
  "awaitReply_rabbit x ev =
     (case ev of
        GotReply r \<Rightarrow> Inr r
      | SessionDead \<Rightarrow> Inl (ConnectionLost x)
      | TransportClosed \<Rightarrow> Inl RabbitClosed
      | WaitCtx e \<Rightarrow> Inl (rabbit_mapTimeout e))"

text \<open>With confirms on, a publish succeeds only when the broker has acknowledged the message.\<close>

lemma publish_confirmed: "publish_rabbit exchange key (Inr (Some v)) cl = (None, d) \<longleftrightarrow> v = Inr True \<and> \<not> d"
  by (auto simp: publish_rabbit_def split: sum.splits if_splits)

text \<open>A request is registered when it waits, and a request that fails before that leaves no entry.\<close>

lemma Request_rabbit_registered:
  assumes "Request_rabbit j a write cl rnd timeout i env t = (Inr (env', s), t')"
  shows "mget (rb_pending t') (e_ID env') = Some i" "e_ReplyTo env' = se_replyQueue s" "\<not> isDead s"
proof -
  from assms obtain t1 msg where s: "usable_session a t = (Inr s, t1)"
    and m: "rabbit_message j (rb_opts t1) Req (rnd, se_replyQueue s, if timeout \<le> 0 then bo_ReplyTimeout (rb_opts t) else timeout) env = Inr (env', msg)"
    and t': "t' = registerPending (if e_ID env = [] then NewID rnd else e_ID env) i t1"
    unfolding Request_rabbit_def Let_def by (auto simp: registerPending_def split: if_splits sum.splits prod.splits option.splits)
  from m have "e_ID env' = (if e_ID env = [] then NewID rnd else e_ID env)" "e_ReplyTo env' = se_replyQueue s"
    by (auto simp: rabbit_message_def Let_def split: sum.splits)
  then show "mget (rb_pending t') (e_ID env') = Some i" "e_ReplyTo env' = se_replyQueue s" "\<not> isDead s"
    using t' usable_session_alive(2) [OF s] by (simp_all add: registerPending_def)
qed

section \<open>The consumer\<close>

definition consumer_ops :: "'c rabbit_options \<Rightarrow> bindingPlan \<Rightarrow> chan_op list" where
  "consumer_ops o1 plan =
     [declareExchange o1, QueueDeclare (bo_Queue o1) (durable o1) (bo_AutoDelete o1) False (queueArgs o1)] @
     map (\<lambda>key. QueueBind (bo_Queue o1) key (bo_Exchange o1)) (bp_Keys plan) @
     [Qos (bo_Prefetch o1), Consume (bo_Queue o1) (bo_AutoAck o1) False]"

text \<open>What the handling of a delivery does on its channel, in order.\<close>

datatype rabbit_action = SendReply amqp_msg | Ack | Nack bool

definition settle :: "'c rabbit_options \<Rightarrow> bool \<Rightarrow> bool \<Rightarrow> rabbit_action list" where
  "settle o1 acked requeue = (if bo_AutoAck o1 then [] else [if acked then Ack else Nack requeue])"

definition reply_message :: "string \<Rightarrow> envelope \<Rightarrow> string \<Rightarrow> amqp_msg" where
  "reply_message queue reply body =
     \<lparr>am_exchange = [], am_key = queue, am_persistent = False, am_CorrelationId = e_ID reply, am_MessageId = e_ID reply, am_ReplyTo = [],
      am_Expiration = [], am_Body = body\<rparr>"

definition publishReply :: "'v json \<Rightarrow> string \<Rightarrow> envelope \<Rightarrow> rabbit_action list" where
  "publishReply j queue reply =
     (case Encode j reply of Inl _ \<Rightarrow> [] | Inr body \<Rightarrow> [SendReply (reply_message queue reply body)])"

definition no_reply :: "envelope \<Rightarrow> envelope" where
  "no_reply env = (errorReply env 500 ''DISPATCH_ERROR'' ''handler produced no reply'')\<lparr>e_ID := []\<rparr>"

definition handle_rabbit :: "'v json \<Rightarrow> 'c rabbit_options \<Rightarrow> ('w \<Rightarrow> envelope \<Rightarrow> 'w \<times> envelope option \<times> msg_error option) \<Rightarrow> 'w \<Rightarrow> amqp_msg \<Rightarrow>
    'w \<times> rabbit_action list" where
  "handle_rabbit j o1 dispatch w delivery =
     (case DecodeEnvelope j (am_Body delivery) of
        Inl _ \<Rightarrow> (w, settle o1 False False)
      | Inr env \<Rightarrow>
          (let replyTo = (if am_ReplyTo delivery = [] then e_ReplyTo env else am_ReplyTo delivery)
           in case dispatch w env of
                (w', _, Some _) \<Rightarrow> (w', settle o1 False (bo_Requeue o1))
              | (w', reply, None) \<Rightarrow>
                  if replyTo = [] then (w', settle o1 True False)
                  else
                    (let r = (case reply of Some r \<Rightarrow> r | None \<Rightarrow> no_reply env)
                     in (w', publishReply j replyTo (r\<lparr>e_ID := e_ID env\<rparr>) @ settle o1 True False))))"

text \<open>
  The loop of \<^verbatim>\<open>Listen\<close>: a delivery comes with the answer to the request for a slot, where \<open>False\<close> is a context that ended first. The result has the deliveries that were
  handed to \<^verbatim>\<open>handle\<close>, those sent back to the queue, and the return value.
\<close>

datatype rabbit_event =
    ListenCtxDone
  | ListenClosed
  | ChannelGone "string option"
  | ConnectionGone "string option"
  | DeliveriesEnd
  | Delivery amqp_msg bool

fun rabbit_loop :: "'c rabbit_options \<Rightarrow> rabbit_event list \<Rightarrow> amqp_msg list \<times> rabbit_action list \<times> rabbit_failure option option" where
  "rabbit_loop o1 [] = ([], [], None)"
| "rabbit_loop o1 (ListenCtxDone # evs) = ([], [], Some None)"
| "rabbit_loop o1 (ListenClosed # evs) = ([], [], Some (Some RabbitClosed))"
| "rabbit_loop o1 (ChannelGone e # evs) = ([], [], Some (Some (ConsumerChannelClosed e)))"
| "rabbit_loop o1 (ConnectionGone e # evs) = ([], [], Some (Some (ConnectionClosed e)))"
| "rabbit_loop o1 (DeliveriesEnd # evs) = ([], [], Some (Some StoppedDelivering))"
| "rabbit_loop o1 (Delivery d slot # evs) =
     (if slot then (case rabbit_loop o1 evs of (ds, back, res) \<Rightarrow> (d # ds, back, res))
      else ([], settle o1 False True, Some None))"

definition Listen_rabbit :: "'c rabbit_answers \<Rightarrow> bool \<Rightarrow> string list \<Rightarrow> rabbit_event list \<Rightarrow> 'c rabbit_transport \<Rightarrow>
    (amqp_msg list \<times> rabbit_action list \<times> rabbit_failure option option) \<times> chan_op list \<times> 'c rabbit_transport" where
  "Listen_rabbit a has_dispatch patterns evs t =
     (let failed = (\<lambda>e. ([], [], Some (Some e)))
      in if \<not> has_dispatch then (failed RabbitNilDispatcher, [], t)
         else if rb_closed t then (failed RabbitClosed, [], t)
         else (case planBindings patterns of
             Inl e \<Rightarrow> (failed (NoBindings e), [], t)
           | Inr plan \<Rightarrow>
               (case connectionLocked a t of
                  (Inl e, t) \<Rightarrow> (failed e, [], t)
                | (Inr c, t) \<Rightarrow>
                    (case ba_channel a of
                       Inl e \<Rightarrow> (failed (OpenChannel e), [], t)
                     | Inr ch \<Rightarrow>
                         (case run_ops (ba_op a) (consumer_ops (rb_opts t) plan) of
                            (made, Some (op, e)) \<Rightarrow> (failed (OpFailed op e), made, t)
                          | (made, None) \<Rightarrow> (rabbit_loop (rb_opts t) evs, made, t))))))"

subsection \<open>Settlement\<close>

fun settlements :: "rabbit_action list \<Rightarrow> rabbit_action list" where
  "settlements [] = []"
| "settlements (SendReply m # as) = settlements as"
| "settlements (a # as) = a # settlements as"

fun replies_of :: "rabbit_action list \<Rightarrow> amqp_msg list" where
  "replies_of [] = []"
| "replies_of (SendReply m # as) = m # replies_of as"
| "replies_of (a # as) = replies_of as"

lemma settlements_append [simp]: "settlements (xs @ ys) = settlements xs @ settlements ys"
  by (induction xs rule: settlements.induct) simp_all

lemma replies_of_append [simp]: "replies_of (xs @ ys) = replies_of xs @ replies_of ys"
  by (induction xs rule: replies_of.induct) simp_all

lemma publishReply_actions [simp]: "settlements (publishReply j q r) = []"
  by (simp add: publishReply_def split: sum.splits)

lemma settle_actions [simp]:
  "settlements (settle o1 x y) = settle o1 x y" "replies_of (settle o1 x y) = []"
  by (simp_all add: settle_def)

text \<open>The reply a delivery is owed when the dispatcher took it without an error.\<close>

definition owed_reply :: "'v json \<Rightarrow> amqp_msg \<Rightarrow> envelope \<Rightarrow> envelope option \<Rightarrow> rabbit_action list" where
  "owed_reply j delivery env reply =
     (let replyTo = (if am_ReplyTo delivery = [] then e_ReplyTo env else am_ReplyTo delivery)
      in if replyTo = [] then []
         else publishReply j replyTo ((case reply of Some r \<Rightarrow> r | None \<Rightarrow> no_reply env)\<lparr>e_ID := e_ID env\<rparr>))"

lemma handle_rabbit_eq:
  "handle_rabbit j o1 dispatch w delivery =
     (case DecodeEnvelope j (am_Body delivery) of
        Inl _ \<Rightarrow> (w, settle o1 False False)
      | Inr env \<Rightarrow>
          (case dispatch w env of
             (w', reply, None) \<Rightarrow> (w', owed_reply j delivery env reply @ settle o1 True False)
           | (w', reply, Some _) \<Rightarrow> (w', settle o1 False (bo_Requeue o1))))"
  by (auto simp: handle_rabbit_def owed_reply_def Let_def split: sum.splits prod.splits option.splits)

lemma owed_reply_actions: "settlements (owed_reply j delivery env reply) = []"
  by (simp add: owed_reply_def Let_def)

text \<open>A delivery is settled once, and last.\<close>

lemma settled_once_last:
  assumes "handle_rabbit j o1 dispatch w delivery = (w', acts)" and "\<not> bo_AutoAck o1"
  shows "\<exists>a. settlements acts = [a] \<and> acts = map SendReply (replies_of acts) @ [a]"
proof -
  have o: "owed_reply j delivery env reply = map SendReply (replies_of (owed_reply j delivery env reply))" for env reply
    by (auto simp: owed_reply_def publishReply_def Let_def split: sum.splits)
  show ?thesis
    using assms unfolding handle_rabbit_eq
    by (auto simp: settle_def owed_reply_actions simp flip: o split: sum.splits prod.splits option.splits)
qed

section \<open>The life of a message in the queue\<close>

text \<open>
  The broker keeps a message until it is acknowledged or rejected. A delivery that was neither when its channel closed goes back to the
  queue; with automatic acknowledgement it is forgotten when it is delivered. Handlers of several deliveries run in any order. A message
  is \<open>Settling\<close> between the end of its handler and the moment the broker reads the settlement.
\<close>

datatype stage = Queued | Delivered | Settling rabbit_action | Acked | Rejected | Forgotten

record 'w rabbit_queue =
  rq_msgs :: "amqp_msg list"
  rq_stage :: "nat \<Rightarrow> stage"
  rq_replies :: "amqp_msg list"
  rq_taken :: "(nat \<times> 'w) list"
  rq_world :: 'w

definition empty_queue :: "'w \<Rightarrow> 'w rabbit_queue" where
  "empty_queue w = \<lparr>rq_msgs = [], rq_stage = (\<lambda>_. Queued), rq_replies = [], rq_taken = [], rq_world = w\<rparr>"

definition settled_stage :: "rabbit_action \<Rightarrow> stage" where
  "settled_stage a = (case a of Nack True \<Rightarrow> Queued | Nack False \<Rightarrow> Rejected | _ \<Rightarrow> Acked)"

definition after_loss :: "stage \<Rightarrow> stage" where
  "after_loss s = (case s of Delivered \<Rightarrow> Queued | Settling _ \<Rightarrow> Queued | s \<Rightarrow> s)"

inductive queue_step :: "'v json \<Rightarrow> 'c rabbit_options \<Rightarrow> ('w \<Rightarrow> envelope \<Rightarrow> 'w \<times> envelope option \<times> msg_error option) \<Rightarrow>
    'w rabbit_queue \<Rightarrow> 'w rabbit_queue \<Rightarrow> bool" for j o1 dispatch where
  arrives: "queue_step j o1 dispatch q (q\<lparr>rq_msgs := rq_msgs q @ [msg]\<rparr>)"
| delivers: "n < length (rq_msgs q) \<Longrightarrow> rq_stage q n = Queued \<Longrightarrow>
    queue_step j o1 dispatch q (q\<lparr>rq_stage := (rq_stage q)(n := Delivered)\<rparr>)"
| sends_back: "n < length (rq_msgs q) \<Longrightarrow> rq_stage q n = Delivered \<Longrightarrow> rabbit_loop o1 [Delivery (rq_msgs q ! n) False] = ([], [a], res) \<Longrightarrow>
    queue_step j o1 dispatch q (q\<lparr>rq_stage := (rq_stage q)(n := Settling a)\<rparr>)"
| handles: "n < length (rq_msgs q) \<Longrightarrow> rq_stage q n = Delivered \<Longrightarrow> handle_rabbit j o1 dispatch (rq_world q) (rq_msgs q ! n) = (w, acts) \<Longrightarrow>
    queue_step j o1 dispatch q (q\<lparr>rq_stage := (rq_stage q)(n := (case settlements acts of a # _ \<Rightarrow> Settling a | [] \<Rightarrow> Forgotten)),
      rq_replies := rq_replies q @ replies_of acts, rq_taken := rq_taken q @ [(n, rq_world q)], rq_world := w\<rparr>)"
| settles: "n < length (rq_msgs q) \<Longrightarrow> rq_stage q n = Settling a \<Longrightarrow>
    queue_step j o1 dispatch q (q\<lparr>rq_stage := (rq_stage q)(n := settled_stage a)\<rparr>)"
| loses_channel: "\<not> bo_AutoAck o1 \<Longrightarrow> queue_step j o1 dispatch q (q\<lparr>rq_stage := after_loss \<circ> rq_stage q\<rparr>)"
| forgets: "bo_AutoAck o1 \<Longrightarrow> n < length (rq_msgs q) \<Longrightarrow> rq_stage q n = Delivered \<Longrightarrow>
    queue_step j o1 dispatch q (q\<lparr>rq_stage := (rq_stage q)(n := Forgotten)\<rparr>)"

inductive queue_reach :: "'v json \<Rightarrow> 'c rabbit_options \<Rightarrow> ('w \<Rightarrow> envelope \<Rightarrow> 'w \<times> envelope option \<times> msg_error option) \<Rightarrow>
    'w rabbit_queue \<Rightarrow> bool" for j o1 dispatch where
  starts: "queue_reach j o1 dispatch (empty_queue w)"
| steps: "queue_reach j o1 dispatch q \<Longrightarrow> queue_step j o1 dispatch q q' \<Longrightarrow> queue_reach j o1 dispatch q'"

text \<open>Why a message may be acknowledged, and why it may be rejected.\<close>

definition served :: "'v json \<Rightarrow> ('w \<Rightarrow> envelope \<Rightarrow> 'w \<times> envelope option \<times> msg_error option) \<Rightarrow> 'w rabbit_queue \<Rightarrow> nat \<Rightarrow> bool" where
  "served j dispatch q n \<longleftrightarrow>
     (\<exists>w env w' reply. (n, w) \<in> set (rq_taken q) \<and> DecodeEnvelope j (am_Body (rq_msgs q ! n)) = Inr env \<and> dispatch w env = (w', reply, None) \<and>
        set (replies_of (owed_reply j (rq_msgs q ! n) env reply)) \<subseteq> set (rq_replies q))"

definition refused :: "'v json \<Rightarrow> 'c rabbit_options \<Rightarrow> ('w \<Rightarrow> envelope \<Rightarrow> 'w \<times> envelope option \<times> msg_error option) \<Rightarrow> 'w rabbit_queue \<Rightarrow> nat \<Rightarrow> bool" where
  "refused j o1 dispatch q n \<longleftrightarrow>
     (\<exists>w. (n, w) \<in> set (rq_taken q) \<and>
        (case DecodeEnvelope j (am_Body (rq_msgs q ! n)) of
           Inl _ \<Rightarrow> True
         | Inr env \<Rightarrow> \<not> bo_Requeue o1 \<and> snd (snd (dispatch w env)) \<noteq> None))"

definition accounted :: "'v json \<Rightarrow> 'c rabbit_options \<Rightarrow> ('w \<Rightarrow> envelope \<Rightarrow> 'w \<times> envelope option \<times> msg_error option) \<Rightarrow> 'w rabbit_queue \<Rightarrow> nat \<Rightarrow> stage \<Rightarrow> bool" where
  "accounted j o1 dispatch q n s \<longleftrightarrow>
     (case s of
        Acked \<Rightarrow> served j dispatch q n
      | Rejected \<Rightarrow> refused j o1 dispatch q n
      | Forgotten \<Rightarrow> False
      | _ \<Rightarrow> True)"

text \<open>A message still to be settled is accounted for as it will be.\<close>

definition owing :: "stage \<Rightarrow> stage" where
  "owing s = (case s of Settling a \<Rightarrow> settled_stage a | s \<Rightarrow> s)"

definition queue_inv :: "'v json \<Rightarrow> 'c rabbit_options \<Rightarrow> ('w \<Rightarrow> envelope \<Rightarrow> 'w \<times> envelope option \<times> msg_error option) \<Rightarrow> 'w rabbit_queue \<Rightarrow> bool" where
  "queue_inv j o1 dispatch q \<longleftrightarrow>
     (\<forall>n. (n < length (rq_msgs q) \<longrightarrow> accounted j o1 dispatch q n (owing (rq_stage q n))) \<and>
          (\<not> n < length (rq_msgs q) \<longrightarrow> rq_stage q n = Queued))"

lemma accounted_more:
  assumes "accounted j o1 dispatch q n s" "rq_msgs q' ! n = rq_msgs q ! n" "set (rq_taken q) \<subseteq> set (rq_taken q')" "set (rq_replies q) \<subseteq> set (rq_replies q')"
  shows "accounted j o1 dispatch q' n s"
proof (cases s)
  case Acked
  with assms have "served j dispatch q' n" unfolding accounted_def served_def by (simp, blast)
  with Acked show ?thesis by (simp add: accounted_def)
next
  case Rejected
  with assms have "refused j o1 dispatch q' n" unfolding accounted_def refused_def by (simp, blast)
  with Rejected show ?thesis by (simp add: accounted_def)
qed (use assms(1) in \<open>auto simp: accounted_def\<close>)

lemma handled_accounted:
  assumes h: "handle_rabbit j o1 dispatch (rq_world q) (rq_msgs q ! n) = (w, acts)" and ack: "\<not> bo_AutoAck o1"
    and q': "rq_msgs q' = rq_msgs q" "rq_taken q' = rq_taken q @ [(n, rq_world q)]" "rq_replies q' = rq_replies q @ replies_of acts"
  shows "\<exists>a. settlements acts = [a] \<and> accounted j o1 dispatch q' n (settled_stage a)"
proof (cases "DecodeEnvelope j (am_Body (rq_msgs q ! n))")
  case (Inl e)
  with h ack have "settlements acts = [Nack False]" by (auto simp: handle_rabbit_eq settle_def)
  moreover have "refused j o1 dispatch q' n" unfolding refused_def q' Inl by (intro exI [of _ "rq_world q"]) simp
  ultimately show ?thesis by (simp add: accounted_def settled_stage_def)
next
  case (Inr env)
  obtain w' reply err where d: "dispatch (rq_world q) env = (w', reply, err)" using prod_cases3 by blast
  show ?thesis
  proof (cases err)
    case None
    with h ack Inr d have acts: "acts = owed_reply j (rq_msgs q ! n) env reply @ [Ack]" by (auto simp: handle_rabbit_eq settle_def)
    then have "served j dispatch q' n" unfolding served_def q' using Inr d None
      by (intro exI [of _ "rq_world q"] exI [of _ env] exI [of _ w'] exI [of _ reply]) simp
    then show ?thesis using acts by (simp add: accounted_def settled_stage_def owed_reply_actions)
  next
    case (Some e)
    with h ack Inr d have "settlements acts = [Nack (bo_Requeue o1)]" by (auto simp: handle_rabbit_eq settle_def)
    moreover have "refused j o1 dispatch q' n" if "\<not> bo_Requeue o1"
      unfolding refused_def q' Inr using that d Some by (intro exI [of _ "rq_world q"]) simp
    ultimately show ?thesis by (cases "bo_Requeue o1") (simp_all add: accounted_def settled_stage_def)
  qed
qed

lemma queue_inv_stage:
  assumes inv: "queue_inv j o1 dispatch q" and n: "n < length (rq_msgs q)" and q': "rq_msgs q' = rq_msgs q" "rq_stage q' = (rq_stage q)(n := s)"
    and more: "set (rq_taken q) \<subseteq> set (rq_taken q')" "set (rq_replies q) \<subseteq> set (rq_replies q')" and s: "accounted j o1 dispatch q' n (owing s)"
  shows "queue_inv j o1 dispatch q'"
  using inv n s accounted_more [OF _ _ more, of j o1 dispatch] unfolding queue_inv_def q' by simp

lemma accounted_open [simp]: "accounted j o1 dispatch q n Queued" "accounted j o1 dispatch q n Delivered" "owing Queued = Queued"
  "owing Delivered = Delivered" "owing (Settling a) = settled_stage a"
  by (simp_all add: accounted_def owing_def)

lemma owing_settled: "owing (settled_stage a) = settled_stage a"
  by (simp add: owing_def settled_stage_def split: rabbit_action.splits bool.splits)

lemma owing_after_loss: "owing (after_loss s) = (case s of Delivered \<Rightarrow> Queued | Settling _ \<Rightarrow> Queued | s \<Rightarrow> owing s)"
  by (cases s) (simp_all add: owing_def after_loss_def)

lemma queue_inv_step:
  assumes inv: "queue_inv j o1 dispatch q" and ack: "\<not> bo_AutoAck o1" and "queue_step j o1 dispatch q q'"
  shows "queue_inv j o1 dispatch q'"
  using assms(3)
proof cases
  case (arrives msg)
  have "accounted j o1 dispatch q' n (owing (rq_stage q n))" if "n < Suc (length (rq_msgs q))" for n
  proof (cases "n < length (rq_msgs q)")
    case True
    with inv have "accounted j o1 dispatch q n (owing (rq_stage q n))" by (simp add: queue_inv_def)
    then show ?thesis by (rule accounted_more) (simp_all add: arrives True nth_append)
  next
    case False
    with inv have "rq_stage q n = Queued" by (simp add: queue_inv_def)
    then show ?thesis by simp
  qed
  then show ?thesis using inv by (simp add: queue_inv_def arrives)
next
  case (delivers n)
  then show ?thesis by (intro queue_inv_stage [OF inv delivers(2), where s = Delivered]) simp_all
next
  case (sends_back n a res)
  then have "a = Nack True" using ack by (simp add: settle_def)
  then show ?thesis using sends_back by (intro queue_inv_stage [OF inv sends_back(2), where s = "Settling a"]) (simp_all add: settled_stage_def)
next
  case (handles n w acts)
  from handled_accounted [OF handles(4) ack, of q'] obtain a where "settlements acts = [a]" "accounted j o1 dispatch q' n (settled_stage a)"
    by (auto simp: handles(1))
  then show ?thesis by (intro queue_inv_stage [OF inv handles(2), of q' "Settling a"]) (auto simp: handles(1))
next
  case (settles n a)
  have "accounted j o1 dispatch q n (settled_stage a)" using inv settles(2,3) by (metis queue_inv_def accounted_open(5))
  then have "accounted j o1 dispatch q' n (settled_stage a)" by (rule accounted_more) (simp_all add: settles(1))
  then show ?thesis by (intro queue_inv_stage [OF inv settles(2), of q' "settled_stage a"]) (simp_all add: settles(1) owing_settled)
next
  case loses_channel
  have "accounted j o1 dispatch q' n (owing (after_loss (rq_stage q n)))" if "n < length (rq_msgs q)" for n
  proof -
    have "accounted j o1 dispatch q n (owing (rq_stage q n))" using inv that by (simp add: queue_inv_def)
    then have "accounted j o1 dispatch q' n (owing (rq_stage q n))" by (rule accounted_more) (simp_all add: loses_channel(1))
    then show ?thesis unfolding owing_after_loss by (cases "rq_stage q n") simp_all
  qed
  then show ?thesis using inv by (simp add: queue_inv_def loses_channel(1) after_loss_def)
next
  case (forgets n)
  with ack show ?thesis by blast
qed


text \<open>A request to a queue whose dispatcher echoes it.\<close>

definition rabbit_sample :: "unit rabbit_options" where
  "rabbit_sample = \<lparr>bo_URL = ''amqp://b/'', bo_Conn = None, bo_Exchange = DefaultExchange, bo_ExchangeType = DefaultExchangeType,
     bo_Queue = DefaultQueue, bo_Durable = Some True, bo_AutoDelete = False, bo_QueueArgs = [], bo_DeadLetterExchange = [], bo_Prefetch = 32,
     bo_Concurrency = 32, bo_AutoAck = False, bo_Requeue = False, bo_Mandatory = False, bo_DisableConfirms = False, bo_ReplyTimeout = 1,
     bo_Heartbeat = 1\<rparr>"

definition sample_request :: amqp_msg where
  "sample_request = \<lparr>am_exchange = ''nika'', am_key = ''ping'', am_persistent = True, am_CorrelationId = ''1'', am_MessageId = ''1'',
     am_ReplyTo = ''conn'', am_Expiration = ''5'', am_Body = ''1''\<rparr>"

lemma sample_handled:
  "handle_rabbit id_json rabbit_sample echo w sample_request = (w + 1, [SendReply (reply_message ''conn'' asked ''1''), Ack])"
proof -
  have [simp]: "asked\<lparr>e_ID := ''1''\<rparr> = asked" by (simp add: asked_def ping_def)
  show ?thesis
    by (simp add: handle_rabbit_def sample_request_def rabbit_sample_def id_json_codec echo_def publishReply_def settle_def asked_simps)
qed


section \<open>Requests and replies\<close>

text \<open>\<^verbatim>\<open>deliverReply\<close>: the id a reply is looked up by is the correlation id, or that of the envelope when there is none.\<close>

definition deliverReply_rabbit :: "'v json \<Rightarrow> amqp_msg \<Rightarrow> (string \<times> envelope) option" where
  "deliverReply_rabbit j delivery =
     (case DecodeEnvelope j (am_Body delivery) of
        Inl _ \<Rightarrow> None
      | Inr env \<Rightarrow> Some (if am_CorrelationId delivery = [] then e_ID env else am_CorrelationId delivery, env))"

definition rabbit_carrier :: "'v json \<Rightarrow> ('w \<Rightarrow> envelope \<Rightarrow> 'w \<times> envelope option \<times> msg_error option) \<Rightarrow> 'c rabbit_options \<Rightarrow>
    (8 word list \<times> string \<times> int, amqp_msg, rabbit_failure, 'w) carrier" where
  "rabbit_carrier j dispatch o1 =
     \<lparr>cr_build = rabbit_message j o1,
      cr_handle = (\<lambda>w msg. case handle_rabbit j o1 dispatch w msg of (w', acts) \<Rightarrow>
        (w', case replies_of acts of [] \<Rightarrow> None | r # _ \<Rightarrow> Some r)),
      cr_correlate = deliverReply_rabbit j,
      cr_deliver = deliver_taking\<rparr>"

lemma rabbit_reply_id:
  assumes "handle_rabbit j o1 dispatch w msg = (w', acts)" and "r \<in> set (replies_of acts)"
  obtains env reply where "DecodeEnvelope j (am_Body msg) = Inr env" "Encode j reply = Inr (am_Body r)" "e_ID reply = e_ID env" "am_CorrelationId r = e_ID env"
proof -
  from assms obtain env reply where e: "DecodeEnvelope j (am_Body msg) = Inr env" "r \<in> set (replies_of (owed_reply j msg env reply))"
    by (auto simp: handle_rabbit_eq split: sum.splits prod.splits option.splits)
  let ?rp = "(case reply of Some r \<Rightarrow> r | None \<Rightarrow> no_reply env)\<lparr>e_ID := e_ID env\<rparr>"
  from e(2) have "\<exists>queue. r \<in> set (replies_of (publishReply j queue ?rp))" unfolding owed_reply_def Let_def by (auto split: if_splits)
  then obtain queue where r: "r \<in> set (replies_of (publishReply j queue ?rp))" by blast
  then obtain body where "Encode j ?rp = Inr body" by (cases "Encode j ?rp") (auto simp: publishReply_def)
  with r show thesis using that [OF e(1), of ?rp] by (auto simp: publishReply_def reply_message_def)
qed

lemma rabbit_carrier_correlating:
  assumes "json_keeps_id j"
  shows "correlating (rabbit_carrier j dispatch o1)"
proof
  fix x env p c p' c' y i
  assume "cr_deliver (rabbit_carrier j dispatch o1) x env (p, c) = (p', c')" "mget p' y = Some i"
  then show "mget p y = Some i" using taking.entries_kept by (simp add: rabbit_carrier_def)
next
  fix x env p c p' c' i r
  assume "cr_deliver (rabbit_carrier j dispatch o1) x env (p, c) = (p', c')" "c' i = Some r"
  then show "c i = Some r \<or> mget p x = Some i \<and> r = env" using taking.channel_of_id by (simp add: rabbit_carrier_def)
next
  fix k rnd env env' q w w' rep x r
  assume b: "cr_build (rabbit_carrier j dispatch o1) k rnd env = Inr (env', q)"
    and h: "cr_handle (rabbit_carrier j dispatch o1) w q = (w', Some rep)"
    and c: "cr_correlate (rabbit_carrier j dispatch o1) rep = Some (x, r)"
  from b have "Encode j env' = Inr (am_Body q)"
    by (auto simp: rabbit_carrier_def rabbit_message_def Let_def split: sum.splits prod.splits)
  moreover from h obtain acts where "handle_rabbit j o1 dispatch w q = (w', acts)" "rep \<in> set (replies_of acts)"
    by (auto simp: rabbit_carrier_def split: prod.splits list.splits)
  then obtain e reply where "DecodeEnvelope j (am_Body q) = Inr e" "Encode j reply = Inr (am_Body rep)" "e_ID reply = e_ID e" "am_CorrelationId rep = e_ID e"
    by (rule rabbit_reply_id)
  moreover from c have "DecodeEnvelope j (am_Body rep) = Inr r" "x = (if am_CorrelationId rep = [] then e_ID r else am_CorrelationId rep)"
    by (auto simp: rabbit_carrier_def deliverReply_rabbit_def split: sum.splits)
  ultimately have "e_ID e = e_ID env'" "e_ID r = e_ID e" "x = e_ID r \<or> x = e_ID e"
    using assms decodes_Inr unfolding json_keeps_id_def Encode_Inr by metis+
  then show "x = e_ID env'" by auto
qed

interpretation rabbit_rpc: correlating "rabbit_carrier id_json echo rabbit_sample"
  by (rule rabbit_carrier_correlating [OF id_json_keeps_id])

end
