(* ===== verification/Kafka_Transport.thy ===== *)
theory Kafka_Transport
  imports Correlation
begin

text \<open>
  The Kafka transport (\<^verbatim>\<open>transport/kafkamq\<close>: \<^verbatim>\<open>kafkamq.go\<close>, \<^verbatim>\<open>publish.go\<close>, \<^verbatim>\<open>listen.go\<close>): options and their defaults, the configuration of writer and
  reader, the messages of a call, the reply consumer, the consumer's loop and how a message is handled, answered and committed. Requests and
  replies follow the protocol of \<open>Correlation\<close>. The Kafka client is a parameter; the group's position in a partition is the step relation at
  the end.
\<close>

section \<open>Options\<close>

record 'x kafka_options =
  ko_Brokers :: "string list"
  ko_Topic :: string
  ko_GroupID :: string
  ko_ReplyTopic :: string
  ko_Partition :: int
  ko_MinBytes :: int
  ko_MaxBytes :: int
  ko_MaxWait :: int
  ko_StartOffset :: int
  ko_Concurrency :: int
  ko_CommitInterval :: int
  ko_Balancer :: "'x option"
  ko_RequiredAcks :: int
  ko_Async :: bool
  ko_Dialer :: "'x option"
  ko_Transport :: "'x option"
  ko_TLS :: "'x option"
  ko_SASL :: "'x option"
  ko_DialTimeout :: int
  ko_ReplyTimeout :: int
  ko_CreateTopics :: bool
  ko_Partitions :: int
  ko_ReplicationFactor :: int

datatype kafka_error = KafkaDeadline | KafkaCanceled | KafkaTopicExists | KafkaOther string

datatype kafka_failure =
    BrokersRequired
  | BrokerEmpty
  | MaxBelowMin int int
  | StartOffsetInvalid int
  | CommitIntervalNegative
  | PartitionAndGroup
  | KafkaClosed
  | KafkaTimeout
  | KafkaError kafka_error
  | NoPattern
  | KafkaEncode msg_error
  | ProduceFailed string kafka_failure
  | ReplyTopicRequired
  | KafkaNilDispatcher
  | GroupIDRequired
  | FetchFailed string kafka_error
  | CreateTopicsFailed kafka_error
  | CreateTopicFailed string kafka_error
  | CloseReader kafka_error
  | CloseWriter kafka_error

definition FirstOffset :: int where "FirstOffset = -2"
definition LastOffset :: int where "LastOffset = -1"
definition RequireAll :: int where "RequireAll = -1"
definition DefaultTopic :: string where "DefaultTopic = ''nika''"
definition DefaultMinBytes :: int where "DefaultMinBytes = 1"
definition DefaultMaxBytes :: int where "DefaultMaxBytes = 8 * 2 ^ 20"
definition DefaultMaxWait :: int where "DefaultMaxWait = 1000000000"
definition kafka_DefaultConcurrency :: int where "kafka_DefaultConcurrency = 1"
definition DefaultPartitions :: int where "DefaultPartitions = 1"
definition DefaultReplicationFactor :: int where "DefaultReplicationFactor = 1"
definition kafka_DefaultDialTimeout :: int where "kafka_DefaultDialTimeout = 10000000000"

text \<open>What a transport with no dialer, round tripper or balancer of its own uses: the library's default, or one made of the timeout, TLS and SASL.\<close>

datatype 'x kafka_net = NetDefault | NetGiven 'x | NetBuilt int "'x option" "'x option"

definition transport_kafka :: "'x kafka_options \<Rightarrow> 'x kafka_net" where
  "transport_kafka o1 =
     (case ko_Transport o1 of
        Some x \<Rightarrow> NetGiven x
      | None \<Rightarrow> if ko_TLS o1 = None \<and> ko_SASL o1 = None then NetDefault else NetBuilt (ko_DialTimeout o1) (ko_TLS o1) (ko_SASL o1))"

definition dialer_kafka :: "'x kafka_options \<Rightarrow> 'x kafka_net" where
  "dialer_kafka o1 =
     (case ko_Dialer o1 of
        Some x \<Rightarrow> NetGiven x
      | None \<Rightarrow> if ko_TLS o1 = None \<and> ko_SASL o1 = None then NetDefault else NetBuilt (ko_DialTimeout o1) (ko_TLS o1) (ko_SASL o1))"

record 'x kafka_writer =
  kw_Addr :: "string list"
  kw_Topic :: string
  kw_Balancer :: "'x option"
  kw_RequiredAcks :: int
  kw_Async :: bool
  kw_Transport :: "'x kafka_net"
  kw_BatchTimeout :: int

definition newWriter :: "'x kafka_options \<Rightarrow> 'x kafka_writer" where
  "newWriter o1 = \<lparr>kw_Addr = ko_Brokers o1, kw_Topic = ko_Topic o1, kw_Balancer = ko_Balancer o1, kw_RequiredAcks = ko_RequiredAcks o1,
     kw_Async = ko_Async o1, kw_Transport = transport_kafka o1, kw_BatchTimeout = 10000000\<rparr>"

record 'x reader_config =
  rc_Brokers :: "string list"
  rc_Topic :: string
  rc_GroupID :: string
  rc_Dialer :: "'x kafka_net"
  rc_MinBytes :: int
  rc_MaxBytes :: int
  rc_MaxWait :: int
  rc_StartOffset :: int
  rc_CommitInterval :: int
  rc_Partition :: int

definition readerConfig :: "'x kafka_options \<Rightarrow> string \<Rightarrow> string \<Rightarrow> 'x reader_config" where
  "readerConfig o1 topic groupID =
     \<lparr>rc_Brokers = ko_Brokers o1, rc_Topic = topic, rc_GroupID = groupID, rc_Dialer = dialer_kafka o1, rc_MinBytes = ko_MinBytes o1,
      rc_MaxBytes = ko_MaxBytes o1, rc_MaxWait = ko_MaxWait o1, rc_StartOffset = ko_StartOffset o1, rc_CommitInterval = ko_CommitInterval o1,
      rc_Partition = (if groupID = [] then ko_Partition o1 else 0)\<rparr>"

record 'x kafka_transport =
  kt_opts :: "'x kafka_options"
  kt_writer :: "'x kafka_writer"
  kt_replyOnce :: bool
  kt_replyErr :: "kafka_failure option"
  kt_replyReader :: "'x reader_config option"
  kt_pending :: "(string, nat) gomap"
  kt_closed :: bool

text \<open>The defaults of \<^verbatim>\<open>New\<close>; \<open>hash\<close> is the library's hash balancer.\<close>

definition kafka_defaults :: "int \<Rightarrow> 'x \<Rightarrow> 'x kafka_options \<Rightarrow> 'x kafka_options" where
  "kafka_defaults defaultRequestTimeout hash o0 =
     o0\<lparr>ko_Topic := if ko_Topic o0 = [] then DefaultTopic else ko_Topic o0,
        ko_MinBytes := if ko_MinBytes o0 \<le> 0 then DefaultMinBytes else ko_MinBytes o0,
        ko_MaxBytes := if ko_MaxBytes o0 \<le> 0 then DefaultMaxBytes else ko_MaxBytes o0,
        ko_MaxWait := if ko_MaxWait o0 \<le> 0 then DefaultMaxWait else ko_MaxWait o0,
        ko_StartOffset := if ko_StartOffset o0 = 0 then LastOffset else ko_StartOffset o0,
        ko_Concurrency := if ko_Concurrency o0 \<le> 0 then kafka_DefaultConcurrency else ko_Concurrency o0,
        ko_Balancer := if ko_Balancer o0 = None then Some hash else ko_Balancer o0,
        ko_RequiredAcks := if ko_RequiredAcks o0 = 0 then RequireAll else ko_RequiredAcks o0,
        ko_DialTimeout := if ko_DialTimeout o0 \<le> 0 then kafka_DefaultDialTimeout else ko_DialTimeout o0,
        ko_ReplyTimeout := if ko_ReplyTimeout o0 \<le> 0 then defaultRequestTimeout else ko_ReplyTimeout o0,
        ko_Partitions := if ko_Partitions o0 \<le> 0 then DefaultPartitions else ko_Partitions o0,
        ko_ReplicationFactor := if ko_ReplicationFactor o0 \<le> 0 then DefaultReplicationFactor else ko_ReplicationFactor o0\<rparr>"

text \<open>The checks come in the order of the source, on the options with the defaults filled in.\<close>

definition New_kafka :: "int \<Rightarrow> 'x \<Rightarrow> 'x kafka_options \<Rightarrow> (kafka_failure, 'x kafka_transport) result" where
  "New_kafka defaultRequestTimeout hash o0 =
     (let o1 = kafka_defaults defaultRequestTimeout hash o0
      in if ko_Brokers o0 = [] then Inl BrokersRequired
         else if \<exists>b \<in> set (ko_Brokers o0). TrimSpace b = [] then Inl BrokerEmpty
         else if ko_MaxBytes o1 < ko_MinBytes o1 then Inl (MaxBelowMin (ko_MaxBytes o1) (ko_MinBytes o1))
         else if ko_StartOffset o1 \<noteq> FirstOffset \<and> ko_StartOffset o1 \<noteq> LastOffset then Inl (StartOffsetInvalid (ko_StartOffset o1))
         else if ko_CommitInterval o0 < 0 then Inl CommitIntervalNegative
         else if ko_Partition o0 \<noteq> 0 \<and> ko_GroupID o0 \<noteq> [] then Inl PartitionAndGroup
         else Inr \<lparr>kt_opts = o1, kt_writer = newWriter o1, kt_replyOnce = False, kt_replyErr = None, kt_replyReader = None, kt_pending = [],
                kt_closed = False\<rparr>)"

definition kafka_mapTimeout :: "kafka_error \<Rightarrow> kafka_failure" where
  "kafka_mapTimeout e = (if e = KafkaDeadline then KafkaTimeout else KafkaError e)"

section \<open>Topics\<close>

text \<open>\<^verbatim>\<open>createTopics\<close> on the answer of the client: an error, or one result for each topic, in the order the map is walked.\<close>

definition topic_configs :: "'x kafka_options \<Rightarrow> string list \<Rightarrow> (string \<times> int \<times> int) list" where
  "topic_configs o1 topics = map (\<lambda>t. (t, ko_Partitions o1, ko_ReplicationFactor o1)) (filter (\<lambda>t. t \<noteq> []) topics)"

fun first_topic_error :: "(string \<times> kafka_error option) list \<Rightarrow> kafka_failure option" where
  "first_topic_error [] = None"
| "first_topic_error ((topic, err) # rs) =
     (case err of
        None \<Rightarrow> first_topic_error rs
      | Some KafkaTopicExists \<Rightarrow> first_topic_error rs
      | Some e \<Rightarrow> Some (CreateTopicFailed topic e))"

definition createTopics :: "'x kafka_options \<Rightarrow> ((string \<times> int \<times> int) list \<Rightarrow> (kafka_error, (string \<times> kafka_error option) list) result) \<Rightarrow>
    string list \<Rightarrow> kafka_failure option" where
  "createTopics o1 create topics =
     (if topic_configs o1 topics = [] then None
      else (case create (topic_configs o1 topics) of
          Inl e \<Rightarrow> Some (CreateTopicsFailed e)
        | Inr rs \<Rightarrow> first_topic_error rs))"

text \<open>
  \<^verbatim>\<open>ensureReplyConsumer\<close>: everything happens once; an error of the first attempt is the answer of all later ones.
\<close>

definition ensureReplyConsumer :: "((string \<times> int \<times> int) list \<Rightarrow> (kafka_error, (string \<times> kafka_error option) list) result) \<Rightarrow> 8 word list \<Rightarrow>
    'x kafka_transport \<Rightarrow> kafka_failure option \<times> 'x kafka_transport" where
  "ensureReplyConsumer create rnd t =
     (if kt_replyOnce t then (kt_replyErr t, t)
      else
        (let o1 = kt_opts t; t1 = t\<lparr>kt_replyOnce := True\<rparr>
         in case (if ko_CreateTopics o1 then createTopics o1 create [ko_ReplyTopic o1] else None) of
              Some e \<Rightarrow> (Some e, t1\<lparr>kt_replyErr := Some e\<rparr>)
            | None \<Rightarrow>
                (kt_replyErr t1,
                 t1\<lparr>kt_replyReader := Some ((readerConfig o1 (ko_ReplyTopic o1) (''nika-reply-'' @ NewID rnd))\<lparr>rc_StartOffset := LastOffset\<rparr>)\<rparr>)))"

lemma reply_consumer_memoised:
  "ensureReplyConsumer create rnd t = (err, t') \<Longrightarrow> kt_replyErr t = None \<Longrightarrow> ensureReplyConsumer create' rnd' t' = (err, t')"
  by (auto simp: ensureReplyConsumer_def Let_def split: if_splits option.splits)

section \<open>Messages\<close>

record kafka_msg =
  km_Topic :: string
  km_Key :: string
  km_Value :: string
  km_Headers :: "(string \<times> string) list"

definition headerPattern :: string where "headerPattern = ''nika-pattern''"
definition headerID :: string where "headerID = ''nika-id''"
definition headerReplyTo :: string where "headerReplyTo = ''nika-reply-to''"

definition kafka_message :: "'v json \<Rightarrow> string \<Rightarrow> envelope \<Rightarrow> (kafka_failure, kafka_msg) result" where
  "kafka_message j topic env =
     (if e_Pattern env = [] then Inl NoPattern
      else (case Encode j env of
          Inl e \<Rightarrow> Inl (KafkaEncode e)
        | Inr body \<Rightarrow> Inr \<lparr>km_Topic = topic, km_Key = e_Pattern env, km_Value = body,
            km_Headers = [(headerPattern, e_Pattern env), (headerID, e_ID env)] @
              (if e_ReplyTo env = [] then [] else [(headerReplyTo, e_ReplyTo env)])\<rparr>))"

text \<open>\<^verbatim>\<open>header\<close>, the value of the first header of a name.\<close>

fun header_loop :: "(string \<times> string) list \<Rightarrow> string \<Rightarrow> string" where
  "header_loop [] key = []"
| "header_loop ((k, v) # hs) key = (if k = key then v else header_loop hs key)"

definition header :: "kafka_msg \<Rightarrow> string \<Rightarrow> string" where
  "header msg key = header_loop (km_Headers msg) key"

definition write_kafka :: "('x kafka_writer \<Rightarrow> kafka_msg \<Rightarrow> kafka_error option) \<Rightarrow> bool \<Rightarrow> 'x kafka_transport \<Rightarrow> kafka_msg \<Rightarrow> kafka_failure option" where
  "write_kafka WriteMessages closedNow t msg =
     (case WriteMessages (kt_writer t) msg of
        Some e \<Rightarrow> if closedNow then Some KafkaClosed else Some (ProduceFailed (km_Topic msg) (kafka_mapTimeout e))
      | None \<Rightarrow> None)"

definition Publish_kafka :: "'v json \<Rightarrow> ('x kafka_writer \<Rightarrow> kafka_msg \<Rightarrow> kafka_error option) \<Rightarrow> bool \<Rightarrow> 'x kafka_transport \<Rightarrow> envelope \<Rightarrow> kafka_failure option" where
  "Publish_kafka j WriteMessages closedNow t env =
     (if kt_closed t then Some KafkaClosed
      else (case kafka_message j (ko_Topic (kt_opts t)) env of
          Inl e \<Rightarrow> Some e
        | Inr msg \<Rightarrow> write_kafka WriteMessages closedNow t msg))"

definition request_envelope :: "'x kafka_options \<Rightarrow> 8 word list \<Rightarrow> envelope \<Rightarrow> envelope" where
  "request_envelope o1 rnd env = env\<lparr>e_ID := (if e_ID env = [] then NewID rnd else e_ID env), e_ReplyTo := ko_ReplyTopic o1\<rparr>"

text \<open>\<^verbatim>\<open>Request\<close> up to the wait: the reply consumer, the entry, the message and the write. The entry is removed when the call returns early.\<close>

definition Request_kafka :: "'v json \<Rightarrow> ((string \<times> int \<times> int) list \<Rightarrow> (kafka_error, (string \<times> kafka_error option) list) result) \<Rightarrow>
    ('x kafka_writer \<Rightarrow> kafka_msg \<Rightarrow> kafka_error option) \<Rightarrow> bool \<Rightarrow> 8 word list \<Rightarrow> 8 word list \<Rightarrow> nat \<Rightarrow> envelope \<Rightarrow> 'x kafka_transport \<Rightarrow>
    (kafka_failure, envelope) result \<times> 'x kafka_transport" where
  "Request_kafka j create WriteMessages closedNow rndGroup rnd i env t =
     (if kt_closed t then (Inl KafkaClosed, t)
      else if ko_ReplyTopic (kt_opts t) = [] then (Inl ReplyTopicRequired, t)
      else (case ensureReplyConsumer create rndGroup t of
          (Some e, t) \<Rightarrow> (Inl e, t)
        | (None, t) \<Rightarrow>
            (let out = request_envelope (kt_opts t) rnd env;
                 t1 = t\<lparr>kt_pending := mput (e_ID out) i (kt_pending t)\<rparr>;
                 released = t\<lparr>kt_pending := mdel (e_ID out) (kt_pending t1)\<rparr>
             in case kafka_message j (ko_Topic (kt_opts t)) out of
                  Inl e \<Rightarrow> (Inl e, released)
                | Inr msg \<Rightarrow>
                    (case write_kafka WriteMessages closedNow t1 msg of
                       Some e \<Rightarrow> (Inl e, released)
                     | None \<Rightarrow> (Inr out, t1)))))"

datatype kafka_wait = KafkaReply envelope | KafkaCloses | KafkaCtx kafka_error

definition awaitReply_kafka :: "kafka_wait \<Rightarrow> (kafka_failure, envelope) result" where
  "awaitReply_kafka ev =
     (case ev of KafkaReply r \<Rightarrow> Inr r | KafkaCloses \<Rightarrow> Inl KafkaClosed | KafkaCtx e \<Rightarrow> Inl (kafka_mapTimeout e))"

section \<open>The consumer\<close>

datatype kafka_action = Produce kafka_msg | Commit

text \<open>\<^verbatim>\<open>handle\<close>: what it does in order. A reply that does not encode is only logged.\<close>

definition handle_kafka :: "'v json \<Rightarrow> ('w \<Rightarrow> envelope \<Rightarrow> 'w \<times> envelope option \<times> msg_error option) \<Rightarrow> 'w \<Rightarrow> kafka_msg \<Rightarrow> 'w \<times> kafka_action list" where
  "handle_kafka j dispatch w msg =
     (case DecodeEnvelope j (km_Value msg) of
        Inl _ \<Rightarrow> (w, [Commit])
      | Inr env \<Rightarrow>
          (let replyTo = (if header msg headerReplyTo = [] then e_ReplyTo env else header msg headerReplyTo)
           in case dispatch w env of
                (w', _, Some _) \<Rightarrow> (w', [Commit])
              | (w', reply, None) \<Rightarrow>
                  if replyTo = [] then (w', [Commit])
                  else
                    (let r = (case reply of
                           Some r \<Rightarrow> r
                         | None \<Rightarrow> (errorReply env 500 ''DISPATCH_ERROR'' ''handler produced no reply'')\<lparr>e_ID := []\<rparr>)
                     in case kafka_message j replyTo (r\<lparr>e_ID := e_ID env, e_ReplyTo := []\<rparr>) of
                          Inl _ \<Rightarrow> (w', [Commit])
                        | Inr m \<Rightarrow> (w', [Produce m, Commit]))))"

text \<open>
  The loop of \<^verbatim>\<open>Listen\<close>: a fetched message with the answer to the request for a slot (\<open>False\<close>: the context ended first), or a failed fetch with whether
  the transport was closed and whether the context had ended. The result has the messages given to \<^verbatim>\<open>handle\<close> and the return value.
\<close>

datatype kafka_event = Fetched kafka_msg bool | FetchError bool bool kafka_error

fun kafka_loop :: "'x kafka_options \<Rightarrow> kafka_event list \<Rightarrow> kafka_msg list \<times> kafka_failure option option" where
  "kafka_loop o1 [] = ([], None)"
| "kafka_loop o1 (FetchError closed ctxDone e # evs) =
     ([], Some (if closed then Some KafkaClosed else if ctxDone then None else Some (FetchFailed (ko_Topic o1) e)))"
| "kafka_loop o1 (Fetched msg slot # evs) =
     (if slot then (case kafka_loop o1 evs of (ms, res) \<Rightarrow> (msg # ms, res)) else ([], Some None))"

definition Listen_kafka :: "((string \<times> int \<times> int) list \<Rightarrow> (kafka_error, (string \<times> kafka_error option) list) result) \<Rightarrow> bool \<Rightarrow> kafka_event list \<Rightarrow>
    'x kafka_transport \<Rightarrow> (kafka_msg list \<times> kafka_failure option option) \<times> 'x reader_config option" where
  "Listen_kafka create has_dispatch evs t =
     (let o1 = kt_opts t; failed = (\<lambda>e. (([], Some (Some e)), None))
      in if \<not> has_dispatch then failed KafkaNilDispatcher
         else if ko_GroupID o1 = [] then failed GroupIDRequired
         else if kt_closed t then failed KafkaClosed
         else (case (if ko_CreateTopics o1 then createTopics o1 create [ko_Topic o1, ko_ReplyTopic o1] else None) of
             Some e \<Rightarrow> failed e
           | None \<Rightarrow> (kafka_loop o1 evs, Some (readerConfig o1 (ko_Topic o1) (ko_GroupID o1)))))"

definition Close_kafka :: "kafka_error option \<Rightarrow> kafka_error option \<Rightarrow> 'x kafka_transport \<Rightarrow> kafka_failure option \<times> 'x kafka_transport" where
  "Close_kafka readerClose writerClose t =
     (if kt_closed t then (None, t)
      else
        (let first = (case kt_replyReader t of Some _ \<Rightarrow> map_option CloseReader readerClose | None \<Rightarrow> None)
         in (case writerClose of Some e \<Rightarrow> if first = None then Some (CloseWriter e) else first | None \<Rightarrow> first,
             t\<lparr>kt_closed := True, kt_replyReader := None, kt_pending := []\<rparr>)))"

section \<open>The topic of a message\<close>

text \<open>
  The contract of the library's writer: the topic is named by the writer or by the message, not by both; a writer refuses a message
  when both name one.
\<close>

definition one_topic_only :: "('x kafka_writer \<Rightarrow> kafka_msg \<Rightarrow> kafka_error option) \<Rightarrow> bool" where
  "one_topic_only WriteMessages \<longleftrightarrow> (\<forall>w m. kw_Topic w \<noteq> [] \<and> km_Topic m \<noteq> [] \<longrightarrow> WriteMessages w m \<noteq> None)"

lemma kafka_message_Inr:
  "kafka_message j topic env = Inr msg \<Longrightarrow>
   Encode j env = Inr (km_Value msg) \<and> km_Topic msg = topic \<and> km_Key msg = e_Pattern env \<and> header msg headerReplyTo = e_ReplyTo env"
  by (auto simp: kafka_message_def header_def headerPattern_def headerID_def headerReplyTo_def split: if_splits sum.splits)

lemma New_kafka_topic: "New_kafka drt hash o0 = Inr t \<Longrightarrow> kt_writer t = newWriter (kt_opts t) \<and> ko_Topic (kt_opts t) \<noteq> [] \<and> \<not> kt_closed t"
proof -
  assume "New_kafka drt hash o0 = Inr t"
  then have "kt_opts t = kafka_defaults drt hash o0" "kt_writer t = newWriter (kt_opts t)" "\<not> kt_closed t"
    by (auto simp: New_kafka_def Let_def split: if_splits)
  moreover have "ko_Topic (kafka_defaults drt hash o0) \<noteq> []" by (simp add: kafka_defaults_def DefaultTopic_def)
  ultimately show ?thesis by simp
qed

text \<open>
  C16. The transport never produces a message: \<^verbatim>\<open>New\<close> gives its writer a topic and every message the transport builds names one too, which the
  writer refuses. So every publish and every request fails, and so does the write of every reply.
\<close>

theorem kafka_produces_nothing:
  assumes "New_kafka drt hash o0 = Inr t" and "one_topic_only WriteMessages"
  shows "Publish_kafka j WriteMessages closedNow t env \<noteq> None \<and>
    (\<exists>e. fst (Request_kafka j create WriteMessages closedNow rndGroup rnd i env t) = Inl e) \<and>
    (handle_kafka j dispatch w msg = (w', acts) \<and> Produce m \<in> set acts \<longrightarrow> write_kafka WriteMessages closedNow t m \<noteq> None)"
proof (intro conjI impI)
  have topic: "kw_Topic (kt_writer t) \<noteq> []" "ko_Topic (kt_opts t) \<noteq> []"
    using New_kafka_topic [OF assms(1)] by (simp_all add: newWriter_def)
  have refused: "write_kafka WriteMessages closedNow t' m \<noteq> None" if "kt_writer t' = kt_writer t" "km_Topic m \<noteq> []" for t' m
    using assms(2) topic(1) that unfolding one_topic_only_def write_kafka_def by (auto split: option.splits)
  show "Publish_kafka j WriteMessages closedNow t env \<noteq> None"
    using refused [OF refl] topic(2) kafka_message_Inr [of j "ko_Topic (kt_opts t)" env]
    by (auto simp: Publish_kafka_def split: sum.splits)
  obtain err t1 where c: "ensureReplyConsumer create rndGroup t = (err, t1)" by fastforce
  then have t1: "kt_writer t1 = kt_writer t" "kt_opts t1 = kt_opts t"
    by (auto simp: ensureReplyConsumer_def Let_def split: if_splits option.splits)
  have no: False if "kafka_message j (ko_Topic (kt_opts t)) e = Inr m" "write_kafka WriteMessages closedNow (t1\<lparr>kt_pending := p\<rparr>) m = None" for p m e
    using refused [of "t1\<lparr>kt_pending := p\<rparr>" m] t1 topic(2) kafka_message_Inr [OF that(1)] that(2) by simp
  show "\<exists>e. fst (Request_kafka j create WriteMessages closedNow rndGroup rnd i env t) = Inl e"
    using t1(2) no by (auto simp: Request_kafka_def c Let_def split: sum.splits option.splits)
  assume "handle_kafka j dispatch w msg = (w', acts) \<and> Produce m \<in> set acts"
  then have "km_Topic m \<noteq> []"
    using kafka_message_Inr by (fastforce simp: handle_kafka_def Let_def split: sum.splits prod.splits option.splits if_splits)
  then show "write_kafka WriteMessages closedNow t m \<noteq> None" by (rule refused [OF refl])
qed

definition strict_writer :: "unit kafka_writer \<Rightarrow> kafka_msg \<Rightarrow> kafka_error option" where
  "strict_writer w m = (if kw_Topic w \<noteq> [] \<and> km_Topic m \<noteq> [] then Some (KafkaOther ''topic given twice'') else None)"

definition kafka_sample :: "unit kafka_options" where
  "kafka_sample = \<lparr>ko_Brokers = [''b''], ko_Topic = [], ko_GroupID = ''g'', ko_ReplyTopic = ''conn'', ko_Partition = 0, ko_MinBytes = 0, ko_MaxBytes = 0,
     ko_MaxWait = 0, ko_StartOffset = 0, ko_Concurrency = 0, ko_CommitInterval = 0, ko_Balancer = None, ko_RequiredAcks = 0, ko_Async = False,
     ko_Dialer = None, ko_Transport = None, ko_TLS = None, ko_SASL = None, ko_DialTimeout = 0, ko_ReplyTimeout = 0, ko_CreateTopics = False,
     ko_Partitions = 0, ko_ReplicationFactor = 0\<rparr>"

theorem kafka_produces_nothing_witness:
  "\<exists>t. New_kafka 1 () kafka_sample = Inr t \<and> one_topic_only strict_writer \<and> Publish_kafka id_json strict_writer False t ping \<noteq> None \<and>
     Publish_kafka id_json strict_writer False (t\<lparr>kt_writer := (kt_writer t)\<lparr>kw_Topic := []\<rparr>\<rparr>) ping = None"
proof -
  have trim: "TrimSpace ''b'' = ''b''" by code_simp
  obtain t where t: "New_kafka 1 () kafka_sample = Inr t" "\<not> kt_closed t"
    by (auto simp: New_kafka_def kafka_defaults_def kafka_sample_def Let_def trim FirstOffset_def LastOffset_def DefaultMaxBytes_def DefaultMinBytes_def)
  have w: "one_topic_only strict_writer" by (simp add: one_topic_only_def strict_writer_def)
  have "Publish_kafka id_json strict_writer False (t\<lparr>kt_writer := (kt_writer t)\<lparr>kw_Topic := []\<rparr>\<rparr>) ping = None"
    using t(2) by (simp add: Publish_kafka_def kafka_message_def id_json_codec asked_simps write_kafka_def strict_writer_def)
  with kafka_produces_nothing [OF t(1) w, THEN conjunct1, of id_json False ping] t(1) w show ?thesis by blast
qed

section \<open>A partition and its group\<close>

text \<open>
  The log of a partition and one member of the group that reads it: \<open>pt_position\<close> is the next offset it fetches, \<open>pt_running\<close> the offsets whose handlers
  run, \<open>pt_asked\<close> those whose commit was asked for, \<open>pt_committed\<close> the offset the broker keeps for the group. A commit may be lost, delayed or arrive in
  any order, and sets the offset to the one after its message; a member that crashed, restarted or took the partition over begins at the
  committed offset.
\<close>

record 'w partition =
  pt_log :: "kafka_msg list"
  pt_start :: nat
  pt_position :: nat
  pt_running :: "nat list"
  pt_asked :: "nat list"
  pt_committed :: nat
  pt_replies :: "kafka_msg list"
  pt_taken :: "(nat \<times> 'w) list"
  pt_world :: 'w

definition start_partition :: "kafka_msg list \<Rightarrow> nat \<Rightarrow> 'w \<Rightarrow> 'w partition" where
  "start_partition log c w = \<lparr>pt_log = log, pt_start = c, pt_position = c, pt_running = [], pt_asked = [], pt_committed = c, pt_replies = [],
     pt_taken = [], pt_world = w\<rparr>"

fun produced :: "kafka_action list \<Rightarrow> kafka_msg list" where
  "produced [] = []"
| "produced (Produce m # as) = m # produced as"
| "produced (Commit # as) = produced as"

inductive partition_step :: "'v json \<Rightarrow> ('w \<Rightarrow> envelope \<Rightarrow> 'w \<times> envelope option \<times> msg_error option) \<Rightarrow> int \<Rightarrow> 'w partition \<Rightarrow> 'w partition \<Rightarrow> bool"
    for j dispatch concurrency where
  appends: "partition_step j dispatch concurrency p (p\<lparr>pt_log := pt_log p @ [m]\<rparr>)"
| takes: "pt_position p < length (pt_log p) \<Longrightarrow> int (length (pt_running p)) < concurrency \<Longrightarrow>
    partition_step j dispatch concurrency p (p\<lparr>pt_running := pt_running p @ [pt_position p], pt_position := Suc (pt_position p)\<rparr>)"
| handles: "n \<in> set (pt_running p) \<Longrightarrow> handle_kafka j dispatch (pt_world p) (pt_log p ! n) = (w, acts) \<Longrightarrow>
    partition_step j dispatch concurrency p (p\<lparr>pt_running := remove1 n (pt_running p), pt_taken := pt_taken p @ [(n, pt_world p)],
      pt_asked := (if Commit \<in> set acts then pt_asked p @ [n] else pt_asked p), pt_replies := pt_replies p @ produced acts, pt_world := w\<rparr>)"
| commits: "n \<in> set (pt_asked p) \<Longrightarrow> partition_step j dispatch concurrency p (p\<lparr>pt_committed := Suc n\<rparr>)"
| rejoins: "partition_step j dispatch concurrency p (p\<lparr>pt_position := pt_committed p, pt_running := []\<rparr>)"

inductive partition_reach :: "'v json \<Rightarrow> ('w \<Rightarrow> envelope \<Rightarrow> 'w \<times> envelope option \<times> msg_error option) \<Rightarrow> int \<Rightarrow> 'w partition \<Rightarrow> bool"
    for j dispatch concurrency where
  joins: "partition_reach j dispatch concurrency (start_partition log c w)"
| moves: "partition_reach j dispatch concurrency p \<Longrightarrow> partition_step j dispatch concurrency p p' \<Longrightarrow> partition_reach j dispatch concurrency p'"

text \<open>All offsets the group has been responsible for, below a bound, were handled.\<close>

definition handled_below :: "nat \<Rightarrow> nat set \<Rightarrow> nat \<Rightarrow> bool" where
  "handled_below c done1 n \<longleftrightarrow> {c..<n} \<subseteq> done1"

definition in_order :: "nat \<Rightarrow> (nat \<times> 'w) list \<Rightarrow> bool" where
  "in_order c tk \<longleftrightarrow> (\<forall>k < length tk. handled_below c (fst ` set (take k tk)) (fst (tk ! k)))"

definition partition_inv :: "'v json \<Rightarrow> ('w \<Rightarrow> envelope \<Rightarrow> 'w \<times> envelope option \<times> msg_error option) \<Rightarrow> 'w partition \<Rightarrow> bool" where
  "partition_inv j dispatch p \<longleftrightarrow>
     (case pt_running p of
        [] \<Rightarrow> handled_below (pt_start p) (fst ` set (pt_taken p)) (pt_position p)
      | [r] \<Rightarrow> pt_position p = Suc r \<and> r < length (pt_log p) \<and> handled_below (pt_start p) (fst ` set (pt_taken p)) r
      | _ \<Rightarrow> False) \<and>
     handled_below (pt_start p) (fst ` set (pt_taken p)) (pt_committed p) \<and>
     (\<forall>n \<in> set (pt_asked p). handled_below (pt_start p) (fst ` set (pt_taken p)) (Suc n)) \<and>
     in_order (pt_start p) (pt_taken p) \<and> set (pt_asked p) = fst ` set (pt_taken p) \<and>
     (\<forall>(n, w) \<in> set (pt_taken p). n < length (pt_log p) \<and> set (produced (snd (handle_kafka j dispatch w (pt_log p ! n)))) \<subseteq> set (pt_replies p))"

lemma list_cases_2: "(xs = [] \<Longrightarrow> P) \<Longrightarrow> (\<And>x. xs = [x] \<Longrightarrow> P) \<Longrightarrow> (\<And>x y ys. xs = x # y # ys \<Longrightarrow> P) \<Longrightarrow> P"
  by (cases xs rule: remdups_adj.cases) auto

lemma commit_always: "Commit \<in> set (snd (handle_kafka j dispatch w msg))"
  by (simp add: handle_kafka_def Let_def split: sum.splits prod.splits option.splits)

lemma handled_below_more: "handled_below c d n \<Longrightarrow> d \<subseteq> d' \<Longrightarrow> handled_below c d' n"
  by (auto simp: handled_below_def)

lemma handled_below_Suc: "handled_below c d n \<Longrightarrow> handled_below c (insert n d) (Suc n)"
  by (auto simp: handled_below_def less_Suc_eq)

lemma in_order_snoc: "in_order c tk \<Longrightarrow> handled_below c (fst ` set tk) n \<Longrightarrow> in_order c (tk @ [(n, w)])"
  by (auto simp: in_order_def nth_append less_Suc_eq)

lemma partition_inv_handles:
  assumes inv: "partition_inv j dispatch p" and n: "n \<in> set (pt_running p)" and h: "handle_kafka j dispatch (pt_world p) (pt_log p ! n) = (w, acts)"
    and p': "p' = p\<lparr>pt_running := remove1 n (pt_running p), pt_taken := pt_taken p @ [(n, pt_world p)],
      pt_asked := (if Commit \<in> set acts then pt_asked p @ [n] else pt_asked p), pt_replies := pt_replies p @ produced acts, pt_world := w\<rparr>"
  shows "partition_inv j dispatch p'"
proof -
  let ?d = "fst ` set (pt_taken p)" and ?c = "pt_start p"
  from inv n have run: "pt_running p = [n]" and pos: "pt_position p = Suc n" "n < length (pt_log p)" "handled_below ?c ?d n"
    by (auto simp: partition_inv_def split: list.splits)
  have asked: "pt_asked p' = pt_asked p @ [n]" using commit_always [of j dispatch "pt_world p" "pt_log p ! n"] h by (simp add: p')
  have d: "fst ` set (pt_taken p') = insert n ?d" by (auto simp: p')
  have below: "handled_below ?c (insert n ?d) m" if "handled_below ?c ?d m" for m
    using handled_below_more [OF that] by blast
  show ?thesis unfolding partition_inv_def d
  proof (intro conjI)
    show "case pt_running p' of [] \<Rightarrow> handled_below (pt_start p') (insert n ?d) (pt_position p')
      | [r] \<Rightarrow> pt_position p' = Suc r \<and> r < length (pt_log p') \<and> handled_below (pt_start p') (insert n ?d) r | _ \<Rightarrow> False"
      using handled_below_Suc [OF pos(3)] by (simp add: p' run pos)
    show "handled_below (pt_start p') (insert n ?d) (pt_committed p')" using inv below by (simp add: partition_inv_def p')
    show "\<forall>m \<in> set (pt_asked p'). handled_below (pt_start p') (insert n ?d) (Suc m)"
      using inv below handled_below_Suc [OF pos(3)] unfolding asked by (auto simp: partition_inv_def p')
    show "in_order (pt_start p') (pt_taken p')" using inv in_order_snoc pos(3) by (auto simp: partition_inv_def p')
    show "set (pt_asked p') = insert n ?d" using inv by (auto simp: partition_inv_def asked)
    show "\<forall>(m, v) \<in> set (pt_taken p'). m < length (pt_log p') \<and> set (produced (snd (handle_kafka j dispatch v (pt_log p' ! m)))) \<subseteq> set (pt_replies p')"
      using inv pos(2) h by (auto simp: partition_inv_def p')
  qed
qed

lemma partition_inv_step:
  assumes inv: "partition_inv j dispatch p" and "partition_step j dispatch 1 p p'"
  shows "partition_inv j dispatch p'"
  using assms(2)
proof cases
  case (appends m)
  from inv have "\<forall>(n, w) \<in> set (pt_taken p). n < length (pt_log p') \<and> set (produced (snd (handle_kafka j dispatch w (pt_log p' ! n)))) \<subseteq> set (pt_replies p)"
    unfolding partition_inv_def by (elim conjE) (fastforce simp: appends nth_append)
  with inv show ?thesis by (cases "pt_running p" rule: list_cases_2) (simp_all add: partition_inv_def appends)
next
  case takes
  then have "pt_running p = []" by simp
  then show ?thesis using inv takes by (simp add: partition_inv_def)
next
  case (handles n w acts)
  then show ?thesis using partition_inv_handles [OF inv] by blast
next
  case (commits n)
  with inv have "handled_below (pt_start p) (fst ` set (pt_taken p)) (Suc n)" unfolding partition_inv_def by blast
  with inv show ?thesis by (cases "pt_running p" rule: list_cases_2) (simp_all add: partition_inv_def commits)
next
  case rejoins
  then show ?thesis using inv by (simp add: partition_inv_def)
qed


text \<open>A log of two messages, each asking for a reply.\<close>

definition asking :: kafka_msg where
  "asking = \<lparr>km_Topic = ''nika'', km_Key = ''ping'', km_Value = ''1'', km_Headers = [(headerReplyTo, ''conn'')]\<rparr>"

definition answering :: kafka_msg where
  "answering = \<lparr>km_Topic = ''conn'', km_Key = ''ping'', km_Value = ''1'', km_Headers = [(headerPattern, ''ping''), (headerID, ''1'')]\<rparr>"

lemma asking_handled: "handle_kafka id_json echo w asking = (w + 1, [Produce answering, Commit])"
  by (simp add: handle_kafka_def asking_def answering_def header_def id_json_codec echo_def kafka_message_def asked_simps Let_def)


text \<open>With two handlers at a time the commit of a later message covers an earlier one that is still running, and a restart skips it.\<close>

lemma two_handlers_skip:
  "\<exists>p. partition_reach id_json echo 2 p \<and> pt_position p = 2 \<and> pt_running p = [] \<and> 0 < length (pt_log p) \<and> 0 \<notin> fst ` set (pt_taken p)"
proof -
  let ?R = "partition_reach id_json echo 2"
  let ?p = "\<lambda>pos run ask com rep tk w. \<lparr>pt_log = [asking, asking], pt_start = 0, pt_position = pos, pt_running = run, pt_asked = ask, pt_committed = com,
    pt_replies = rep, pt_taken = tk, pt_world = w\<rparr>"
  note M = partition_reach.moves [of id_json echo 2]
  have "?R (?p 0 [] [] 0 [] [] (0 :: nat))"
    using partition_reach.joins [of id_json echo 2 "[asking, asking]" 0 0] by (simp add: start_partition_def)
  from M [OF this partition_step.takes] have "?R (?p 1 [0] [] 0 [] [] 0)" by simp
  from M [OF this partition_step.takes] have "?R (?p 2 [0, 1] [] 0 [] [] 0)" by (simp add: numeral_2_eq_2)
  from M [OF this partition_step.handles [of 1 _ id_json echo 1 "[Produce answering, Commit]"]]
  have "?R (?p 2 [0] [1] 0 [answering] [(1, 0)] 1)" by (simp add: asking_handled)
  from M [OF this partition_step.commits [of 1]] have "?R (?p 2 [0] [1] 2 [answering] [(1, 0)] 1)" by (simp add: numeral_2_eq_2)
  from M [OF this partition_step.rejoins] have "?R (?p 2 [] [1] 2 [answering] [(1, 0)] 1)" by simp
  then show ?thesis by (intro exI conjI) (assumption, simp_all)
qed

section \<open>Requests and replies\<close>

text \<open>\<^verbatim>\<open>deliverReply\<close> looks a reply up by the id of its envelope.\<close>

definition deliverReply_kafka :: "'v json \<Rightarrow> kafka_msg \<Rightarrow> (string \<times> envelope) option" where
  "deliverReply_kafka j msg = (case DecodeEnvelope j (km_Value msg) of Inl _ \<Rightarrow> None | Inr env \<Rightarrow> Some (e_ID env, env))"

text \<open>Requests over a writer that takes the messages; every client reads the whole reply topic.\<close>

definition kafka_build :: "'v json \<Rightarrow> 'x kafka_options \<Rightarrow> call_kind \<Rightarrow> 8 word list \<Rightarrow> envelope \<Rightarrow> (kafka_failure, envelope \<times> kafka_msg) result" where
  "kafka_build j o1 k rnd env =
     (let out = (case k of Pub \<Rightarrow> env | Req \<Rightarrow> request_envelope o1 rnd env)
      in map_sum id (Pair out) (kafka_message j (ko_Topic o1) out))"

definition kafka_carrier :: "'v json \<Rightarrow> ('w \<Rightarrow> envelope \<Rightarrow> 'w \<times> envelope option \<times> msg_error option) \<Rightarrow> 'x kafka_options \<Rightarrow>
    (8 word list, kafka_msg, kafka_failure, 'w) carrier" where
  "kafka_carrier j dispatch o1 =
     \<lparr>cr_build = kafka_build j o1,
      cr_handle = (\<lambda>w msg. case handle_kafka j dispatch w msg of (w', acts) \<Rightarrow> (w', case produced acts of [] \<Rightarrow> None | r # _ \<Rightarrow> Some r)),
      cr_correlate = (\<lambda>msg. if km_Topic msg = ko_ReplyTopic o1 then deliverReply_kafka j msg else None),
      cr_deliver = deliver_taking\<rparr>"

lemma kafka_reply_id:
  assumes "handle_kafka j dispatch w msg = (w', acts)" and "r \<in> set (produced acts)"
  obtains env reply where "DecodeEnvelope j (km_Value msg) = Inr env" "Encode j reply = Inr (km_Value r)" "e_ID reply = e_ID env"
proof -
  from assms obtain env reply topic where e: "DecodeEnvelope j (km_Value msg) = Inr env"
    "kafka_message j topic (reply\<lparr>e_ID := e_ID env, e_ReplyTo := []\<rparr>) = Inr r"
    by (auto simp: handle_kafka_def Let_def split: sum.splits prod.splits option.splits if_splits)
  show thesis using that [OF e(1), of "reply\<lparr>e_ID := e_ID env, e_ReplyTo := []\<rparr>"] kafka_message_Inr [OF e(2)] by simp
qed

lemma kafka_carrier_correlating:
  assumes "json_keeps_id j"
  shows "correlating (kafka_carrier j dispatch o1)"
proof
  fix x env p c p' c' y i
  assume "cr_deliver (kafka_carrier j dispatch o1) x env (p, c) = (p', c')" "mget p' y = Some i"
  then show "mget p y = Some i" using taking.entries_kept by (simp add: kafka_carrier_def)
next
  fix x env p c p' c' i r
  assume "cr_deliver (kafka_carrier j dispatch o1) x env (p, c) = (p', c')" "c' i = Some r"
  then show "c i = Some r \<or> mget p x = Some i \<and> r = env" using taking.channel_of_id by (simp add: kafka_carrier_def)
next
  fix k rnd env env' q w w' rep x r
  assume b: "cr_build (kafka_carrier j dispatch o1) k rnd env = Inr (env', q)"
    and h: "cr_handle (kafka_carrier j dispatch o1) w q = (w', Some rep)"
    and c: "cr_correlate (kafka_carrier j dispatch o1) rep = Some (x, r)"
  from b have "kafka_message j (ko_Topic o1) env' = Inr q"
    by (cases "kafka_message j (ko_Topic o1) (case k of Pub \<Rightarrow> env | Req \<Rightarrow> request_envelope o1 rnd env)")
      (auto simp: kafka_carrier_def kafka_build_def Let_def)
  then have "Encode j env' = Inr (km_Value q)" using kafka_message_Inr by blast
  moreover from h obtain acts where "handle_kafka j dispatch w q = (w', acts)" "rep \<in> set (produced acts)"
    by (auto simp: kafka_carrier_def split: prod.splits list.splits)
  then obtain e reply where "DecodeEnvelope j (km_Value q) = Inr e" "Encode j reply = Inr (km_Value rep)" "e_ID reply = e_ID e"
    by (rule kafka_reply_id)
  moreover from c have "DecodeEnvelope j (km_Value rep) = Inr r" "x = e_ID r"
    by (auto simp: kafka_carrier_def deliverReply_kafka_def split: sum.splits if_splits)
  ultimately show "x = e_ID env'"
    using assms decodes_Inr unfolding json_keeps_id_def Encode_Inr by metis
qed

interpretation kafka_rpc: correlating "kafka_carrier id_json echo kafka_sample"
  by (rule kafka_carrier_correlating [OF id_json_keeps_id])

end
