(* ===== verification/Grpc_Transport.thy ===== *)
theory Grpc_Transport
  imports Correlation
begin

text \<open>
  The gRPC transport (\<^verbatim>\<open>transport/grpcmq\<close>: \<^verbatim>\<open>grpcmq.go\<close>, \<^verbatim>\<open>codec.go\<close>, \<^verbatim>\<open>client.go\<close>, \<^verbatim>\<open>server.go\<close>, \<^verbatim>\<open>service.go\<close>): options and credentials, the codec that passes
  bytes through, the calls of a client, and the unary and streaming methods of the server. The gRPC runtime is a parameter: it carries
  a frame to the server and its answer back, and its failures are arguments.
\<close>

section \<open>Options\<close>

record 'x grpc_options =
  go_Addr :: string
  go_MaxRecvMsgSize :: int
  go_MaxConcurrentStreams :: nat
  go_KeepaliveMinTime :: int
  go_KeepalivePermitWithoutStream :: bool
  go_ConnectionTimeout :: int
  go_Concurrency :: int
  go_UnaryInterceptors :: "'x list"
  go_StreamInterceptors :: "'x list"
  go_ServerOptions :: "'x list"
  go_GracefulStopTimeout :: int
  go_Target :: string
  go_DialTimeout :: int
  go_KeepaliveTime :: int
  go_KeepaliveTimeout :: int
  go_WaitForReady :: bool
  go_ReplyTimeout :: int
  go_DialOptions :: "'x list"
  go_Creds :: "'x option"
  go_TLSConfig :: "'x option"
  go_Insecure :: bool

datatype 'x grpc_creds = CredsGiven 'x | CredsTLS 'x | CredsPlaintext

datatype grpc_code = CodeInvalidArgument | CodeInternal | CodeResourceExhausted | CodeOther string

datatype grpc_failure =
    AddrOrTargetRequired
  | NoTransportSecurity
  | GrpcClosed
  | GrpcEncode msg_error
  | TargetRequired
  | ClientFailed string string
  | GrpcTimeout
  | CallFailed string grpc_failure
  | GrpcStatus grpc_code string
  | GrpcDecode string msg_error
  | GrpcNilDispatcher
  | AddrRequired
  | GrpcListen string string
  | GrpcServing string
  | CloseClientConn string
  | CannotMarshal
  | CannotUnmarshal

datatype 'x grpc_client = NotBuilt | Built 'x | BuildFailed grpc_failure

record 'x grpc_transport =
  gt_opts :: "'x grpc_options"
  gt_creds :: "'x grpc_creds"
  gt_client :: "nat grpc_client"
  gt_serving :: bool
  gt_closed :: bool

definition grpc_DefaultMaxRecvMsgSize :: int where "grpc_DefaultMaxRecvMsgSize = 8 * 2 ^ 20"
definition DefaultKeepaliveMinTime :: int where "DefaultKeepaliveMinTime = 30000000000"
definition DefaultConnectionTimeout :: int where "DefaultConnectionTimeout = 20000000000"
definition grpc_DefaultConcurrency :: int where "grpc_DefaultConcurrency = 256"
definition grpc_DefaultDialTimeout :: int where "grpc_DefaultDialTimeout = 10000000000"
definition DefaultGracefulStopTimeout :: int where "DefaultGracefulStopTimeout = 15000000000"

definition resolveCreds :: "'x grpc_options \<Rightarrow> (grpc_failure, 'x grpc_creds) result" where
  "resolveCreds o1 =
     (case go_Creds o1 of
        Some c \<Rightarrow> Inr (CredsGiven c)
      | None \<Rightarrow>
          (case go_TLSConfig o1 of
             Some c \<Rightarrow> Inr (CredsTLS c)
           | None \<Rightarrow> if go_Insecure o1 then Inr CredsPlaintext else Inl NoTransportSecurity))"

definition grpc_defaults :: "int \<Rightarrow> 'x grpc_options \<Rightarrow> 'x grpc_options" where
  "grpc_defaults defaultRequestTimeout o0 =
     o0\<lparr>go_MaxRecvMsgSize := if go_MaxRecvMsgSize o0 \<le> 0 then grpc_DefaultMaxRecvMsgSize else go_MaxRecvMsgSize o0,
        go_KeepaliveMinTime := if go_KeepaliveMinTime o0 \<le> 0 then DefaultKeepaliveMinTime else go_KeepaliveMinTime o0,
        go_ConnectionTimeout := if go_ConnectionTimeout o0 \<le> 0 then DefaultConnectionTimeout else go_ConnectionTimeout o0,
        go_Concurrency := if go_Concurrency o0 = 0 then grpc_DefaultConcurrency else go_Concurrency o0,
        go_GracefulStopTimeout := if go_GracefulStopTimeout o0 \<le> 0 then DefaultGracefulStopTimeout else go_GracefulStopTimeout o0,
        go_DialTimeout := if go_DialTimeout o0 \<le> 0 then grpc_DefaultDialTimeout else go_DialTimeout o0,
        go_ReplyTimeout := if go_ReplyTimeout o0 \<le> 0 then defaultRequestTimeout else go_ReplyTimeout o0\<rparr>"

definition New_grpc :: "int \<Rightarrow> 'x grpc_options \<Rightarrow> (grpc_failure, 'x grpc_transport) result" where
  "New_grpc defaultRequestTimeout o0 =
     (if go_Addr o0 = [] \<and> go_Target o0 = [] then Inl AddrOrTargetRequired
      else (case resolveCreds (grpc_defaults defaultRequestTimeout o0) of
          Inl e \<Rightarrow> Inl e
        | Inr c \<Rightarrow> Inr \<lparr>gt_opts = grpc_defaults defaultRequestTimeout o0, gt_creds = c, gt_client = NotBuilt, gt_serving = False, gt_closed = False\<rparr>))"

text \<open>The options of the connections the transport makes; those of the caller come last and win.\<close>

datatype 'x grpc_setting =
    TransportCreds "'x grpc_creds"
  | ContentSubtype string
  | WaitForReady bool
  | MaxRecv int
  | MaxSend int
  | ConnTimeout int
  | KeepalivePolicy int bool
  | KeepaliveParams int int
  | MaxStreams nat
  | UnaryChain "'x list"
  | StreamChain "'x list"
  | Custom 'x

definition CodecName :: string where "CodecName = ''nika-raw''"

definition callOptions :: "'x grpc_options \<Rightarrow> 'x grpc_setting list" where
  "callOptions o1 = [ContentSubtype CodecName, WaitForReady (go_WaitForReady o1), MaxRecv (go_MaxRecvMsgSize o1), MaxSend (go_MaxRecvMsgSize o1)]"

definition dialOptions :: "'x grpc_transport \<Rightarrow> 'x grpc_setting list" where
  "dialOptions t =
     (let o1 = gt_opts t; timeout = (if go_KeepaliveTimeout o1 = 0 then go_DialTimeout o1 else go_KeepaliveTimeout o1)
      in [TransportCreds (gt_creds t)] @ callOptions o1 @
         (if go_KeepaliveTime o1 > 0 then [KeepaliveParams (go_KeepaliveTime o1) timeout] else []) @ map Custom (go_DialOptions o1))"

definition serverOptions :: "'x grpc_transport \<Rightarrow> 'x grpc_setting list" where
  "serverOptions t =
     (let o1 = gt_opts t
      in [TransportCreds (gt_creds t), MaxRecv (go_MaxRecvMsgSize o1), MaxSend (go_MaxRecvMsgSize o1), ConnTimeout (go_ConnectionTimeout o1),
          KeepalivePolicy (go_KeepaliveMinTime o1) (go_KeepalivePermitWithoutStream o1)] @
         (if go_MaxConcurrentStreams o1 > 0 then [MaxStreams (go_MaxConcurrentStreams o1)] else []) @
         (if go_UnaryInterceptors o1 \<noteq> [] then [UnaryChain (go_UnaryInterceptors o1)] else []) @
         (if go_StreamInterceptors o1 \<noteq> [] then [StreamChain (go_StreamInterceptors o1)] else []) @ map Custom (go_ServerOptions o1))"

text \<open>Traffic is in plaintext only when the option asks for it.\<close>

lemma plaintext_explicit:
  assumes "New_grpc drt o0 = Inr t"
  shows "gt_creds t = CredsPlaintext \<longleftrightarrow> go_Insecure o0 \<and> go_Creds o0 = None \<and> go_TLSConfig o0 = None"
proof -
  have "go_Creds (grpc_defaults drt o0) = go_Creds o0" "go_TLSConfig (grpc_defaults drt o0) = go_TLSConfig o0"
    "go_Insecure (grpc_defaults drt o0) = go_Insecure o0" by (simp_all add: grpc_defaults_def)
  then have "resolveCreds (grpc_defaults drt o0) = resolveCreds o0" unfolding resolveCreds_def by (simp cong: option.case_cong)
  then have "resolveCreds o0 = Inr (gt_creds t)"
    using assms unfolding New_grpc_def by (auto split: if_splits sum.splits)
  then show ?thesis by (auto simp: resolveCreds_def split: if_splits option.splits)
qed

section \<open>The codec\<close>

text \<open>A message is \<open>None\<close> when its body is a nil slice. The codec is asked for a pointer, which may be nil, for a value, or for a foreign type.\<close>

type_synonym raw_message = "string option"

datatype codec_value = MessagePtr "raw_message option" | MessageValue raw_message | ForeignValue

definition Marshal :: "codec_value \<Rightarrow> (grpc_failure, raw_message) result" where
  "Marshal v =
     (case v of
        MessagePtr None \<Rightarrow> Inr None
      | MessagePtr (Some body) \<Rightarrow> Inr body
      | MessageValue body \<Rightarrow> Inr body
      | ForeignValue \<Rightarrow> Inl CannotMarshal)"

definition Unmarshal :: "string \<Rightarrow> codec_value \<Rightarrow> (grpc_failure, codec_value) result" where
  "Unmarshal data v =
     (case v of
        MessagePtr (Some _) \<Rightarrow> if length data = 0 then Inr (MessagePtr (Some (Some []))) else Inr (MessagePtr (Some (Some data)))
      | _ \<Rightarrow> Inl CannotUnmarshal)"

text \<open>What is framed arrives as it was, and an empty frame arrives as an empty message.\<close>

lemma codec_roundtrip:
  "Marshal v = Inr body \<Longrightarrow> Unmarshal (case body of None \<Rightarrow> [] | Some s \<Rightarrow> s) (MessagePtr (Some x)) =
     Inr (MessagePtr (Some (Some (case body of None \<Rightarrow> [] | Some s \<Rightarrow> s))))"
  by (simp add: Unmarshal_def)

section \<open>The server\<close>

definition replyInline :: string where "replyInline = ''grpc''"

text \<open>Taking a slot: there is no limit, one is free, or the context ends first.\<close>

datatype grpc_slot = GrpcSlot | GrpcSlotDone

definition newSlots :: "int \<Rightarrow> nat option" where
  "newSlots concurrency = (if concurrency < 0 then None else Some (nat concurrency))"

definition acquire_grpc :: "nat option \<Rightarrow> grpc_slot \<Rightarrow> grpc_failure option" where
  "acquire_grpc slots ev =
     (case slots of
        None \<Rightarrow> None
      | Some _ \<Rightarrow> (case ev of GrpcSlot \<Rightarrow> None | GrpcSlotDone \<Rightarrow> Some (GrpcStatus CodeResourceExhausted ''grpcmq: the server is at its concurrency limit'')))"

definition encodeReply :: "'v json \<Rightarrow> envelope \<Rightarrow> envelope option \<Rightarrow> (msg_error, string) result" where
  "encodeReply j env reply =
     (let r = (case reply of Some r \<Rightarrow> r | None \<Rightarrow> (errorReply env 500 ''DISPATCH_ERROR'' ''handler produced no reply'')\<lparr>e_ID := []\<rparr>)
      in Encode j (r\<lparr>e_ID := e_ID env\<rparr>))"

type_synonym 'w dispatcher_fn = "'w \<Rightarrow> envelope \<Rightarrow> 'w \<times> envelope option \<times> msg_error option"

definition dispatch_grpc :: "'v json \<Rightarrow> (msg_error \<Rightarrow> string) \<Rightarrow> 'w dispatcher_fn \<Rightarrow> nat option \<Rightarrow> grpc_slot \<Rightarrow> 'w \<Rightarrow> string \<Rightarrow> 'w \<times> (grpc_failure, string) result" where
  "dispatch_grpc j etext dispatch slots ev w body =
     (case acquire_grpc slots ev of
        Some e \<Rightarrow> (w, Inl e)
      | None \<Rightarrow>
          (case DecodeEnvelope j body of
             Inl e \<Rightarrow> (w, Inl (GrpcStatus CodeInvalidArgument (etext e)))
           | Inr env \<Rightarrow>
               (case dispatch w env of
                  (w', _, Some e) \<Rightarrow> (w', Inl (GrpcStatus CodeInternal (etext e)))
                | (w', reply, None) \<Rightarrow>
                    if e_ReplyTo env = [] then (w', Inr [])
                    else (case encodeReply j env reply of
                        Inl e \<Rightarrow> (w', Inl (GrpcStatus CodeInternal (etext e)))
                      | Inr b \<Rightarrow> (w', Inr b)))))"

definition malformed_reply :: "string \<Rightarrow> envelope" where
  "malformed_reply detail = \<lparr>e_ID = [], e_Pattern = ''unknown'', e_Data = [], e_Headers = [], e_ReplyTo = [], e_Status = 400,
     e_Error = Some \<lparr>x_Code = 400, x_Message = ''MALFORMED_ENVELOPE'', x_Details = DText detail\<rparr>, e_SentAt = 0\<rparr>"

definition handleStreamed :: "'v json \<Rightarrow> (msg_error \<Rightarrow> string) \<Rightarrow> 'w dispatcher_fn \<Rightarrow> nat option \<Rightarrow> grpc_slot \<Rightarrow> 'w \<Rightarrow> string \<Rightarrow>
    'w \<times> (grpc_failure, string option) result" where
  "handleStreamed j etext dispatch slots ev w body =
     (case acquire_grpc slots ev of
        Some e \<Rightarrow> (w, Inl e)
      | None \<Rightarrow>
          (case DecodeEnvelope j body of
             Inl e \<Rightarrow>
               (case Encode j (malformed_reply (etext e)) of
                  Inl e' \<Rightarrow> (w, Inl (GrpcStatus CodeInternal (etext e')))
                | Inr b \<Rightarrow> (w, Inr (Some b)))
           | Inr env \<Rightarrow>
               (case dispatch w env of (w', reply, err) \<Rightarrow>
                  let reply = (if err \<noteq> None then None else reply)
                  in if e_ReplyTo env = [] then (w', Inr None)
                     else (case encodeReply j env reply of
                         Inl e \<Rightarrow> (w', Inl (GrpcStatus CodeInternal (etext e)))
                       | Inr b \<Rightarrow> (w', Inr (Some b))))))"

text \<open>
  \<^verbatim>\<open>stream\<close> on the frames that arrive, each with the answer to the request for a slot and whether the reply can be sent, and on how the stream ends:
  the frames sent back, and the return value.
\<close>

fun stream_loop :: "'v json \<Rightarrow> (msg_error \<Rightarrow> string) \<Rightarrow> 'w dispatcher_fn \<Rightarrow> nat option \<Rightarrow> grpc_failure option \<Rightarrow>
    (string \<times> grpc_slot \<times> grpc_failure option) list \<Rightarrow> 'w \<Rightarrow> 'w \<times> string list \<times> grpc_failure option" where
  "stream_loop j etext dispatch slots ending [] w = (w, [], ending)"
| "stream_loop j etext dispatch slots ending ((body, ev, sendErr) # ins) w =
     (case handleStreamed j etext dispatch slots ev w body of
        (w', Inl e) \<Rightarrow> (w', [], Some e)
      | (w', Inr None) \<Rightarrow> stream_loop j etext dispatch slots ending ins w'
      | (w', Inr (Some out)) \<Rightarrow>
          (case sendErr of
             Some e \<Rightarrow> (w', [], Some e)
           | None \<Rightarrow> (case stream_loop j etext dispatch slots ending ins w' of (w'', outs, res) \<Rightarrow> (w'', out # outs, res))))"

text \<open>\<^verbatim>\<open>dispatchHandler\<close>: what the call decodes to goes to the server, by way of the interceptors if there are any.\<close>

definition dispatchHandler :: "('w \<Rightarrow> string \<Rightarrow> 'w \<times> (grpc_failure, string) result) \<Rightarrow> (grpc_failure, string) result \<Rightarrow>
    (('w \<Rightarrow> string \<Rightarrow> 'w \<times> (grpc_failure, string) result) \<Rightarrow> 'w \<Rightarrow> string \<Rightarrow> 'w \<times> (grpc_failure, string) result) option \<Rightarrow>
    'w \<Rightarrow> 'w \<times> (grpc_failure, string) result" where
  "dispatchHandler serve dec interceptor w =
     (case dec of
        Inl e \<Rightarrow> (w, Inl e)
      | Inr body \<Rightarrow> (case interceptor of None \<Rightarrow> serve w body | Some chain \<Rightarrow> chain serve w body))"

text \<open>A reply carries the id of its request.\<close>

lemma encodeReply_id:
  assumes "json_keeps_id j" and "encodeReply j env reply = Inr b" and "DecodeEnvelope j b = Inr d"
  shows "e_ID d = e_ID env"
proof -
  obtain r where "j_encode j (r\<lparr>e_ID := e_ID env\<rparr>) = Inr b" using assms(2) by (auto simp: encodeReply_def Let_def Encode_Inr)
  moreover have "j_decode j b = Inr d" using assms(3) by (rule decodes_Inr)
  ultimately have "e_ID d = e_ID (r\<lparr>e_ID := e_ID env\<rparr>)" using assms(1) unfolding json_keeps_id_def by blast
  then show ?thesis by simp
qed

lemma dispatch_grpc_id:
  assumes "json_keeps_id j" and "dispatch_grpc j etext dispatch slots ev w body = (w', Inr b)" and "DecodeEnvelope j b = Inr d"
  shows "\<exists>env. DecodeEnvelope j body = Inr env \<and> e_ReplyTo env \<noteq> [] \<and> e_ID d = e_ID env"
proof -
  have "b \<noteq> []" using assms(3) by (auto simp: DecodeEnvelope_def)
  then obtain env reply where "DecodeEnvelope j body = Inr env" "e_ReplyTo env \<noteq> []" "encodeReply j env reply = Inr b"
    using assms(2) by (auto simp: dispatch_grpc_def split: option.splits sum.splits prod.splits if_splits)
  then show ?thesis using encodeReply_id [OF assms(1) _ assms(3)] by auto
qed

text \<open>What a frame of a stream is answered under: nothing for an event, the id of a request, and the empty id when the frame does not decode.\<close>

definition owed_id :: "'v json \<Rightarrow> string \<Rightarrow> string option" where
  "owed_id j body =
     (case DecodeEnvelope j body of Inl _ \<Rightarrow> Some [] | Inr env \<Rightarrow> if e_ReplyTo env = [] then None else Some (e_ID env))"

definition answers_id :: "'v json \<Rightarrow> string \<Rightarrow> string \<Rightarrow> bool" where
  "answers_id j out i \<longleftrightarrow> (\<forall>d. DecodeEnvelope j out = Inr d \<longrightarrow> e_ID d = i)"

lemma handleStreamed_owed:
  assumes "json_keeps_id j" and "handleStreamed j etext dispatch slots ev w body = (w', Inr reply)"
  shows "rel_option (answers_id j) reply (owed_id j body)"
proof (cases "DecodeEnvelope j body")
  case (Inl e)
  have none: "acquire_grpc slots ev = None" using assms(2) by (auto simp: handleStreamed_def split: option.splits)
  then obtain b where "Encode j (malformed_reply (etext e)) = Inr b" "reply = Some b"
    using assms(2) Inl by (auto simp: handleStreamed_def split: sum.splits)
  moreover have "e_ID (malformed_reply (etext e)) = []" by (simp add: malformed_reply_def)
  ultimately show ?thesis using assms(1) Inl unfolding json_keeps_id_def
    by (auto simp: owed_id_def answers_id_def Encode_Inr dest!: decodes_Inr)
next
  case (Inr env)
  then consider "e_ReplyTo env = []" "reply = None"
    | r b where "e_ReplyTo env \<noteq> []" "encodeReply j env r = Inr b" "reply = Some b"
    using assms(2) by (auto simp: handleStreamed_def Let_def split: option.splits sum.splits prod.splits if_splits)
  then show ?thesis
    by cases (auto simp: owed_id_def answers_id_def Inr intro: encodeReply_id [OF assms(1)])
qed



text \<open>
  So a client cannot tell by position alone: an event that does not decode is answered, one that decodes is not.
\<close>

lemma malformed_event_answered:
  assumes "acquire_grpc slots ev = None" and "DecodeEnvelope j body = Inl e" and "Encode j (malformed_reply (etext e)) = Inr b"
  shows "handleStreamed j etext dispatch slots ev w body = (w, Inr (Some b))"
  using assms by (simp add: handleStreamed_def)

datatype grpc_end = Served "string option" bool | ClosedWhileServing | GrpcCtxDone bool

text \<open>\<^verbatim>\<open>Listen\<close>; the second component says whether the server was stopped by force.\<close>

definition Listen_grpc :: "'x grpc_transport \<Rightarrow> bool \<Rightarrow> string option \<Rightarrow> bool \<Rightarrow> grpc_end \<Rightarrow> grpc_failure option \<times> bool" where
  "Listen_grpc t has_dispatch listenErr closedMeanwhile ending =
     (if \<not> has_dispatch then (Some GrpcNilDispatcher, False)
      else if go_Addr (gt_opts t) = [] then (Some AddrRequired, False)
      else if gt_closed t then (Some GrpcClosed, False)
      else (case listenErr of
          Some e \<Rightarrow> (Some (GrpcListen (go_Addr (gt_opts t)) e), False)
        | None \<Rightarrow>
            if closedMeanwhile then (Some GrpcClosed, True)
            else (case ending of
                Served (Some e) stopped \<Rightarrow> (if stopped then None else Some (GrpcServing e), False)
              | Served None _ \<Rightarrow> (None, False)
              | ClosedWhileServing \<Rightarrow> (Some GrpcClosed, False)
              | GrpcCtxDone drained \<Rightarrow> (None, \<not> drained))))"

section \<open>The client\<close>

definition client_grpc :: "(string \<Rightarrow> 'x grpc_setting list \<Rightarrow> (string, nat) result) \<Rightarrow> 'x grpc_transport \<Rightarrow> (grpc_failure, nat) result \<times> 'x grpc_transport" where
  "client_grpc NewClient t =
     (let c = (case gt_client t of
            NotBuilt \<Rightarrow>
              if go_Target (gt_opts t) = [] then BuildFailed TargetRequired
              else (case NewClient (go_Target (gt_opts t)) (dialOptions t) of
                  Inl e \<Rightarrow> BuildFailed (ClientFailed (go_Target (gt_opts t)) e)
                | Inr conn \<Rightarrow> Built conn)
          | c \<Rightarrow> c)
      in (case c of Built conn \<Rightarrow> Inr conn | BuildFailed e \<Rightarrow> Inl e | NotBuilt \<Rightarrow> Inl GrpcClosed, t\<lparr>gt_client := c\<rparr>))"

text \<open>\<open>call\<close> is the unary call of the connection; a failure is a deadline that passed or a status.\<close>

datatype call_error = CallDeadline | CallStatus grpc_failure

definition mapTimeout :: "call_error \<Rightarrow> grpc_failure" where
  "mapTimeout e = (case e of CallDeadline \<Rightarrow> GrpcTimeout | CallStatus s \<Rightarrow> s)"

definition invoke :: "(string \<Rightarrow> 'x grpc_setting list \<Rightarrow> (string, nat) result) \<Rightarrow> (string \<Rightarrow> (call_error, string) result) \<Rightarrow> bool \<Rightarrow> 'x grpc_transport \<Rightarrow> string \<Rightarrow>
    (grpc_failure, string) result \<times> 'x grpc_transport" where
  "invoke NewClient call closedNow t body =
     (case client_grpc NewClient t of
        (Inl e, t) \<Rightarrow> (Inl e, t)
      | (Inr _, t) \<Rightarrow>
          (case call body of
             Inl e \<Rightarrow> (Inl (if closedNow then GrpcClosed
                 else CallFailed (go_Target (gt_opts t)) (mapTimeout e)), t)
           | Inr reply \<Rightarrow> (Inr reply, t)))"

definition Publish_grpc :: "'v json \<Rightarrow> (string \<Rightarrow> 'x grpc_setting list \<Rightarrow> (string, nat) result) \<Rightarrow> (string \<Rightarrow> (call_error, string) result) \<Rightarrow> bool \<Rightarrow>
    'x grpc_transport \<Rightarrow> envelope \<Rightarrow> grpc_failure option \<times> 'x grpc_transport" where
  "Publish_grpc j NewClient call closedNow t env =
     (if gt_closed t then (Some GrpcClosed, t)
      else (case Encode j (env\<lparr>e_ReplyTo := []\<rparr>) of
          Inl e \<Rightarrow> (Some (GrpcEncode e), t)
        | Inr body \<Rightarrow> (case invoke NewClient call closedNow t body of (Inl e, t) \<Rightarrow> (Some e, t) | (Inr _, t) \<Rightarrow> (None, t))))"

definition Request_grpc :: "'v json \<Rightarrow> (string \<Rightarrow> 'x grpc_setting list \<Rightarrow> (string, nat) result) \<Rightarrow> (string \<Rightarrow> (call_error, string) result) \<Rightarrow> bool \<Rightarrow>
    8 word list \<Rightarrow> 'x grpc_transport \<Rightarrow> envelope \<Rightarrow> (grpc_failure, envelope) result \<times> 'x grpc_transport" where
  "Request_grpc j NewClient call closedNow rnd t env =
     (if gt_closed t then (Inl GrpcClosed, t)
      else (case Encode j (env\<lparr>e_ID := (if e_ID env = [] then NewID rnd else e_ID env), e_ReplyTo := replyInline\<rparr>) of
          Inl e \<Rightarrow> (Inl (GrpcEncode e), t)
        | Inr body \<Rightarrow>
            (case invoke NewClient call closedNow t body of
               (Inl e, t) \<Rightarrow> (Inl e, t)
             | (Inr b, t) \<Rightarrow>
                 (case DecodeEnvelope j b of
                    Inl e \<Rightarrow> (Inl (GrpcDecode (go_Target (gt_opts t)) e), t)
                  | Inr reply \<Rightarrow> (Inr reply, t)))))"

text \<open>\<^verbatim>\<open>Close\<close>; the second component says whether a running server was stopped.\<close>

definition Close_grpc :: "string option \<Rightarrow> 'x grpc_transport \<Rightarrow> grpc_failure option \<times> bool \<times> 'x grpc_transport" where
  "Close_grpc closeErr t =
     (if gt_closed t then (None, False, t)
      else
        (let c = (case gt_client t of NotBuilt \<Rightarrow> BuildFailed GrpcClosed | c \<Rightarrow> c)
         in (case c of Built _ \<Rightarrow> map_option CloseClientConn closeErr | _ \<Rightarrow> None, gt_serving t,
             t\<lparr>gt_closed := True, gt_serving := False, gt_client := c\<rparr>)))"

text \<open>A request that is answered by the server's own method gets a reply under its id.\<close>

definition served_by :: "(string \<Rightarrow> (grpc_failure, string) result) \<Rightarrow> string \<Rightarrow> (call_error, string) result" where
  "served_by f body = (case f body of Inl e \<Rightarrow> Inl (CallStatus e) | Inr b \<Rightarrow> Inr b)"

lemma request_reply_id:
  assumes "json_keeps_id j"
    and "Request_grpc j NewClient (served_by (\<lambda>b. snd (dispatch_grpc j etext dispatch slots ev w b))) closedNow rnd t env = (Inr reply, t')"
  shows "e_ID reply = (if e_ID env = [] then NewID rnd else e_ID env)"
proof -
  let ?env = "env\<lparr>e_ID := (if e_ID env = [] then NewID rnd else e_ID env), e_ReplyTo := replyInline\<rparr>"
  obtain body b where body: "Encode j ?env = Inr body" and b: "served_by (\<lambda>b. snd (dispatch_grpc j etext dispatch slots ev w b)) body = Inr b"
    and reply: "DecodeEnvelope j b = Inr reply"
    using assms(2) by (auto simp: Request_grpc_def invoke_def split: if_splits sum.splits prod.splits)
  obtain w' where "dispatch_grpc j etext dispatch slots ev w body = (w', Inr b)"
    using b by (cases "dispatch_grpc j etext dispatch slots ev w body") (auto simp: served_by_def split: sum.splits)
  from dispatch_grpc_id [OF assms(1) this reply] obtain d where "DecodeEnvelope j body = Inr d" "e_ID reply = e_ID d" by auto
  moreover have "e_ID d = e_ID ?env"
    using assms(1) body decodes_Inr [OF \<open>DecodeEnvelope j body = Inr d\<close>] unfolding json_keeps_id_def Encode_Inr by blast
  ultimately show ?thesis by simp
qed

text \<open>After \<^verbatim>\<open>Close\<close> nothing is dialled any more.\<close>

lemma closed_never_dials: "Close_grpc e t = (err, s, t') \<Longrightarrow> \<not> gt_closed t \<Longrightarrow> gt_client t = NotBuilt \<Longrightarrow> fst (client_grpc NewClient t') = Inl GrpcClosed"
  by (auto simp: Close_grpc_def client_grpc_def)

end
