(* ===== verification/Brokers.thy ===== *)
theory Brokers
  imports Server Redis_Transport Rabbit_Transport Kafka_Transport
begin

text \<open>
  The transports put together: what holds for requests over any of the brokers, and what a broker learns when the dispatcher of a transport is that of
  the message server.
\<close>

section \<open>Requests and replies over the brokers\<close>



section \<open>The server behind the brokers\<close>

text \<open>The dispatcher of the message server as the transports call it; \<open>ev\<close> tells whether the message gets a slot.\<close>

definition server_dispatch :: "(string \<Rightarrow> string) \<Rightarrow> (string \<Rightarrow> string) \<Rightarrow> 'v json \<Rightarrow> 'h engine \<Rightarrow> 'h server \<Rightarrow> slot_event \<Rightarrow> router \<Rightarrow> envelope \<Rightarrow>
    router \<times> envelope option \<times> msg_error option" where
  "server_dispatch uni quo j serve s ev router env =
     (case dispatcherFor uni quo j serve s router ev env of
        (router', Inl e, _) \<Rightarrow> (router', None, Some e)
      | (router', Inr reply, _) \<Rightarrow> (router', reply, None))"

text \<open>
  C11. What the brokers learn of a handler. Every decoded message that gets a slot of the server is acknowledged on RabbitMQ and committed on Kafka,
  after its reply if it wants one, whatever its handler did: a handler that failed, and a subject without a handler, too, so that neither the
  requeue option nor a dead-letter exchange ever sees such a message. A message whose context ends while it waits for a slot, which no
  handler has seen, is rejected for good on RabbitMQ unless messages are requeued, and committed on Kafka.
\<close>

theorem broker_settlement:
  assumes "\<not> bo_AutoAck o1" and "DecodeEnvelope j (am_Body delivery) = Inr env" and "DecodeEnvelope j (km_Value msg) = Inr env'"
  shows "settlements (snd (handle_rabbit j o1 (server_dispatch uni quo j serve s Server.SlotTaken) router delivery)) = [Ack] \<and>
    handle_rabbit j o1 (server_dispatch uni quo j serve s (ContextDone e)) router delivery = (router, [Nack (bo_Requeue o1)]) \<and>
    last (snd (handle_kafka j (server_dispatch uni quo j serve s Server.SlotTaken) router msg)) = Commit \<and>
    handle_kafka j (server_dispatch uni quo j serve s (ContextDone e)) router msg = (router, [Commit])"
proof (intro conjI)
  obtain r' reply where d: "server_dispatch uni quo j serve s Server.SlotTaken router env = (r', reply, None)"
    by (cases "dispatch_message uni quo j serve s router env") (auto simp: server_dispatch_def dispatcherFor_def)
  show "settlements (snd (handle_rabbit j o1 (server_dispatch uni quo j serve s Server.SlotTaken) router delivery)) = [Ack]"
    using assms(1) by (simp add: handle_rabbit_eq assms(2) d owed_reply_actions settle_def)
  obtain r'' reply' where d': "server_dispatch uni quo j serve s Server.SlotTaken router env' = (r'', reply', None)"
    by (cases "dispatch_message uni quo j serve s router env'") (auto simp: server_dispatch_def dispatcherFor_def)
  show "last (snd (handle_kafka j (server_dispatch uni quo j serve s Server.SlotTaken) router msg)) = Commit"
    by (simp add: handle_kafka_def assms(3) d' Let_def split: sum.splits)
  have c: "server_dispatch uni quo j serve s (ContextDone e) router x = (router, None, Some e)" for x
    by (simp add: server_dispatch_def dispatcherFor_def)
  show "handle_rabbit j o1 (server_dispatch uni quo j serve s (ContextDone e)) router delivery = (router, [Nack (bo_Requeue o1)])"
    using assms(1) by (simp add: handle_rabbit_eq assms(2) c settle_def)
  show "handle_kafka j (server_dispatch uni quo j serve s (ContextDone e)) router msg = (router, [Commit])"
    by (simp add: handle_kafka_def assms(3) c Let_def)
qed

theorem broker_settlement_witness:
  "settlements (snd (handle_rabbit id_json rabbit_sample (server_dispatch (\<lambda>s. s) (\<lambda>s. s) id_json demo_engine demo_server Server.SlotTaken)
      NewRouter sample_request)) = [Ack] \<and>
   handle_rabbit id_json rabbit_sample (server_dispatch (\<lambda>s. s) (\<lambda>s. s) id_json demo_engine demo_server (ContextDone ErrClosed)) NewRouter sample_request =
      (NewRouter, [Nack False]) \<and>
   handle_kafka id_json (server_dispatch (\<lambda>s. s) (\<lambda>s. s) id_json demo_engine demo_server (ContextDone ErrClosed)) NewRouter asking = (NewRouter, [Commit])"
proof -
  have "\<not> bo_AutoAck rabbit_sample" "bo_Requeue rabbit_sample = False" by (simp_all add: rabbit_sample_def)
  moreover have "DecodeEnvelope id_json (am_Body sample_request) = Inr asked" "DecodeEnvelope id_json (km_Value asking) = Inr asked"
    by (simp_all add: sample_request_def asking_def id_json_codec)
  ultimately show ?thesis
    using broker_settlement [of rabbit_sample id_json sample_request asked asking asked "\<lambda>s. s" "\<lambda>s. s" demo_engine demo_server NewRouter ErrClosed]
    by simp
qed

end
