(* ===== verification/Go_Lib.thy ===== *)
theory Go_Lib
  imports Prelude
begin

text \<open>
  More of the standard library, for the packages outside the core: 64-bit integers and their
  decimal form, and splitting and joining of strings.
\<close>

section \<open>Integers\<close>

text \<open>\<^verbatim>\<open>strconv.ParseInt(s, 10, 64)\<close>, and 64-bit addition.\<close>

definition is_digit :: "char \<Rightarrow> bool" where
  "is_digit c = in_range CHR ''0'' CHR ''9'' c"

fun parse_digits :: "nat \<Rightarrow> string \<Rightarrow> nat option" where
  "parse_digits acc [] = Some acc"
| "parse_digits acc (c # s) = (if is_digit c then parse_digits (10 * acc + (of_char c - 48)) s else None)"

definition ParseInt :: "string \<Rightarrow> int option" where
  "ParseInt s =
     (let neg = (s \<noteq> [] \<and> hd s = CHR ''-'');
          ds = (if s \<noteq> [] \<and> (hd s = CHR ''-'' \<or> hd s = CHR ''+'') then tl s else s)
      in if ds = [] then None
         else (case parse_digits 0 ds of
             None \<Rightarrow> None
           | Some n \<Rightarrow>
               if neg then (if int n \<le> 2 ^ 63 then Some (- int n) else None)
               else if int n < 2 ^ 63 then Some (int n) else None))"

definition wrap64 :: "int \<Rightarrow> int" where
  "wrap64 i = signed_take_bit 63 i"

lemma parse_digits_append:
  "parse_digits a (s @ t) = (case parse_digits a s of None \<Rightarrow> None | Some b \<Rightarrow> parse_digits b t)"
  by (induction a s rule: parse_digits.induct) auto

lemma digit_char_is_digit: "d < 10 \<Longrightarrow> is_digit (digit_char d) \<and> of_char (digit_char d) = 48 + d"
proof -
  assume "d < 10"
  then have "d \<in> {0, 1, 2, 3, 4, 5, 6, 7, 8, 9}" by auto
  then show ?thesis by (auto simp: is_digit_def digit_char_def in_range_def less_eq_char_def)
qed

lemma parse_show_nat: "parse_digits 0 (show_nat n) = Some n"
proof (induction n rule: show_nat.induct)
  case (1 n)
  show ?case
  proof (cases "n < 10")
    case True
    then show ?thesis by (subst show_nat.simps) (simp add: digit_char_is_digit)
  next
    case False
    with 1 show ?thesis by (subst show_nat.simps) (simp add: parse_digits_append digit_char_is_digit)
  qed
qed

lemma show_nat_digits: "c \<in> set (show_nat n) \<Longrightarrow> is_digit c"
proof (induction n rule: show_nat.induct)
  case (1 n)
  then show ?case
    by (cases "n < 10") (auto simp: show_nat.simps [of n] digit_char_is_digit)
qed

text \<open>A number is read back as it was written.\<close>

lemma ParseInt_show_int: "- (2 ^ 63) \<le> i \<Longrightarrow> i < 2 ^ 63 \<Longrightarrow> ParseInt (show_int i) = Some i"
proof -
  assume range: "- (2 ^ 63) \<le> i" "i < 2 ^ 63"
  have "\<not> is_digit CHR ''-''" "\<not> is_digit CHR ''+''" by code_simp+
  then have sign: "hd (show_nat n) \<noteq> CHR ''-''" "hd (show_nat n) \<noteq> CHR ''+''" for n
    using show_nat_digits [of "hd (show_nat n)" n] by (auto simp: hd_in_set show_nat_nonempty)
  then show "ParseInt (show_int i) = Some i"
    using range by (auto simp: ParseInt_def show_int_def Let_def parse_show_nat)
qed

lemma wrap64_range: "- (2 ^ 63) \<le> wrap64 i" "wrap64 i < 2 ^ 63"
  unfolding wrap64_def
  using signed_take_bit_int_greater_eq_minus_exp [of 63 i] signed_take_bit_int_less_exp [of 63 i] by auto

lemma wrap64_small: "- (2 ^ 63) \<le> i \<Longrightarrow> i < 2 ^ 63 \<Longrightarrow> wrap64 i = i"
  by (simp add: wrap64_def signed_take_bit_int_eq_self)

text \<open>\<^verbatim>\<open>m[k]\<close> of a map, with the zero value of its element type.\<close>

definition mindex :: "'v \<Rightarrow> ('k, 'v) gomap \<Rightarrow> 'k \<Rightarrow> 'v" where
  "mindex zero m k = (case mget m k of Some v \<Rightarrow> v | None \<Rightarrow> zero)"

section \<open>Splitting and joining\<close>

text \<open>\<^verbatim>\<open>strings.Split\<close> with a separator of one byte; the result is never empty.\<close>

fun Split :: "char \<Rightarrow> string \<Rightarrow> string list" where
  "Split sep [] = [[]]"
| "Split sep (c # s) =
     (if c = sep then [] # Split sep s else (case Split sep s of p # ps \<Rightarrow> (c # p) # ps | [] \<Rightarrow> [[c]]))"

fun Join :: "string list \<Rightarrow> string \<Rightarrow> string" where
  "Join [] sep = []"
| "Join [p] sep = p"
| "Join (p # q # ps) sep = p @ sep @ Join (q # ps) sep"

lemma Split_nonempty [simp]: "Split sep s \<noteq> []"
  by (induction s) (auto split: list.splits)

lemma Join_Cons: "Join (p # ps) sep = p @ (if ps = [] then [] else sep @ Join ps sep)"
  by (cases ps) auto

lemma Join_append: "Join (ps @ qs) sep =
    Join ps sep @ (if ps = [] \<or> qs = [] then [] else sep) @ Join qs sep"
  by (induction ps) (auto simp: Join_Cons)

lemma Join_Split: "Join (Split sep s) [sep] = s"
proof (induction s)
  case (Cons c s)
  obtain p ps where "Split sep s = p # ps" by (cases "Split sep s") auto
  with Cons show ?case by (auto simp: Join_Cons split: if_splits)
qed simp

lemma Split_no_sep: "p \<in> set (Split sep s) \<Longrightarrow> sep \<notin> set p"
proof (induction s arbitrary: p)
  case (Cons c s)
  obtain q qs where "Split sep s = q # qs" by (cases "Split sep s") auto
  with Cons show ?case by (auto split: if_splits)
qed simp

lemma set_Split: "p \<in> set (Split sep s) \<Longrightarrow> set p \<subseteq> set s"
proof (induction s arbitrary: p)
  case (Cons c s)
  obtain q qs where "Split sep s = q # qs" by (cases "Split sep s") auto
  with Cons show ?case by (fastforce split: if_splits)
qed simp

lemma set_Join: "set (Join ps sep) \<subseteq> \<Union> (set ` set ps) \<union> set sep"
  by (induction ps) (auto simp: Join_Cons)

end
