(* ===== verification/Grpc_Schema.thy ===== *)
theory Grpc_Schema
  imports Go_Lib
begin

text \<open>
  The protobuf schema that \<^verbatim>\<open>common/grpcapi\<close> derives from Go structs (\<^verbatim>\<open>schema.go\<close>, and the checks of names in \<^verbatim>\<open>grpcapi.go\<close>
  and \<^verbatim>\<open>service.go\<close>). Types are a datatype in place of reflection, a struct type is a name in a table of types. The memo of the builder is kept,
  since recursive types end only because of it: a binding is a cell that is entered before its fields are walked.
\<close>

section \<open>Names\<close>

definition name_char :: "char \<Rightarrow> bool" where
  "name_char r \<longleftrightarrow> in_range CHR ''a'' CHR ''z'' r \<or> in_range CHR ''A'' CHR ''Z'' r \<or> is_digit r \<or> r = CHR ''_''"

datatype name_error =
    EmptyName string
  | FirstNotLetter string string
  | BadRune string char
  | PackageEmpty
  | EmptySegment string
  | SegmentDigit string
  | SegmentRune string char

definition validateIdentifier :: "string \<Rightarrow> string \<Rightarrow> name_error option" where
  "validateIdentifier s what =
     (case s of
        [] \<Rightarrow> Some (EmptyName what)
      | c # _ \<Rightarrow>
          if \<not> (in_range CHR ''a'' CHR ''z'' c \<or> in_range CHR ''A'' CHR ''Z'' c \<or> c = CHR ''_'') then Some (FirstNotLetter what s)
          else map_option (BadRune s) (find (\<lambda>r. \<not> name_char r) s))"

fun splitPackage :: "string \<Rightarrow> string \<Rightarrow> string list" where
  "splitPackage current [] = (if current \<noteq> [] then [current] else [])"
| "splitPackage current (r # pkg) = (if r = CHR ''.'' then current # splitPackage [] pkg else splitPackage (current @ [r]) pkg)"

fun check_segments :: "string \<Rightarrow> string list \<Rightarrow> name_error option" where
  "check_segments pkg [] = None"
| "check_segments pkg (part # parts) =
     (case part of
        [] \<Rightarrow> Some (EmptySegment pkg)
      | c # _ \<Rightarrow>
          if is_digit c then Some (SegmentDigit part)
          else (case find (\<lambda>r. \<not> name_char r) part of Some r \<Rightarrow> Some (SegmentRune part r) | None \<Rightarrow> check_segments pkg parts))"

definition validatePackage :: "string \<Rightarrow> name_error option" where
  "validatePackage pkg = (if pkg = [] then Some PackageEmpty else check_segments pkg (splitPackage [] pkg))"

definition fileNameFor :: "string \<Rightarrow> string" where
  "fileNameFor pkg = concat (map (\<lambda>part. part @ ''/'') (splitPackage [] pkg)) @ ''nika.grpcapi.proto''"

definition shortName :: "string \<Rightarrow> string" where
  "shortName qualified = rev (takeWhile (\<lambda>c. c \<noteq> CHR ''.'') (rev qualified))"

text \<open>\<^verbatim>\<open>snakeCase\<close> on a name in ASCII; \<open>uni\<close> stands for the case tables of the others.\<close>

definition is_upper :: "char \<Rightarrow> bool" where "is_upper = in_range CHR ''A'' CHR ''Z''"
definition is_lower :: "char \<Rightarrow> bool" where "is_lower = in_range CHR ''a'' CHR ''z''"

fun snake_loop :: "char option \<Rightarrow> string \<Rightarrow> string" where
  "snake_loop prev [] = []"
| "snake_loop prev (r # rs) =
     (if is_upper r then
        (case prev of
           None \<Rightarrow> []
         | Some p \<Rightarrow> if is_lower p \<or> (rs \<noteq> [] \<and> is_lower (hd rs)) then ''_'' else []) @ lower_char r # snake_loop (Some r) rs
      else r # snake_loop (Some r) rs)"

definition snakeCase :: "(string \<Rightarrow> string) \<Rightarrow> string \<Rightarrow> string" where
  "snakeCase uni s = (if is_ascii s then snake_loop None s else uni s)"

definition upper_first :: "(string \<Rightarrow> string) \<Rightarrow> string \<Rightarrow> string" where
  "upper_first uni part = (case part of [] \<Rightarrow> [] | c # cs \<Rightarrow> ToUpper uni [c] @ cs)"

definition jsonName :: "(string \<Rightarrow> string) \<Rightarrow> string \<Rightarrow> string" where
  "jsonName uni protoName = (case Split CHR ''_'' protoName of [] \<Rightarrow> [] | part # parts \<Rightarrow> part @ concat (map (upper_first uni) parts))"

section \<open>Types\<close>

text \<open>
  The kinds of Go types. \<open>GBytes\<close> is the type \<^verbatim>\<open>[]byte\<close> itself; a defined type with that underlying type is \<open>GSlice (GUint 8)\<close>. \<^verbatim>\<open>int\<close> and
  \<^verbatim>\<open>uint\<close> have 64 bits. The fields of a struct type come from a table; a tag that is missing is empty.
\<close>

datatype gtype =
    GString | GBool | GInt nat | GUint nat | GFloat32 | GFloat64 | GBytes | GTime
  | GStruct string | GPtr gtype | GSlice gtype | GMap | GInterface | GOther string

record struct_field =
  sf_Name :: string
  sf_Exported :: bool
  sf_type :: gtype
  sf_grpc :: string
  sf_json :: string
  sf_protobuf :: string

record type_table =
  ty_Name :: "string \<Rightarrow> string"
  ty_Fields :: "string \<Rightarrow> struct_field list"

datatype proto_kind =
    InvalidKind | StringKind | BoolKind | Int32Kind | Int64Kind | Uint32Kind | Uint64Kind | FloatKind | DoubleKind | BytesKind | MessageKind

datatype proto_type =
    TYPE_STRING | TYPE_BOOL | TYPE_INT32 | TYPE_INT64 | TYPE_UINT32 | TYPE_UINT64 | TYPE_FLOAT | TYPE_DOUBLE | TYPE_BYTES | TYPE_MESSAGE

fun kindToType :: "proto_kind \<Rightarrow> proto_type" where
  "kindToType StringKind = TYPE_STRING"
| "kindToType BoolKind = TYPE_BOOL"
| "kindToType Int32Kind = TYPE_INT32"
| "kindToType Int64Kind = TYPE_INT64"
| "kindToType Uint32Kind = TYPE_UINT32"
| "kindToType Uint64Kind = TYPE_UINT64"
| "kindToType FloatKind = TYPE_FLOAT"
| "kindToType DoubleKind = TYPE_DOUBLE"
| "kindToType BytesKind = TYPE_BYTES"
| "kindToType MessageKind = TYPE_MESSAGE"
| "kindToType InvalidKind = TYPE_STRING"

text \<open>The nested binding is the struct type it is registered under; the binding of an element, which nothing reads, is left out.\<close>

record field_binding =
  fb_number :: int
  fb_name :: string
  fb_goIndex :: nat
  fb_goType :: gtype
  fb_kind :: proto_kind
  fb_repeated :: bool
  fb_optional :: bool
  fb_isTime :: bool
  fb_isBytes :: bool
  fb_nested :: "string option"

record message_binding =
  mb_goType :: string
  mb_name :: string
  mb_fields :: "field_binding list"

record field_proto =
  fp_Name :: string
  fp_JsonName :: string
  fp_Number :: int
  fp_Repeated :: bool
  fp_Type :: proto_type
  fp_TypeName :: "string option"
  fp_Proto3Optional :: bool
  fp_OneofIndex :: "nat option"

record message_proto =
  mp_Name :: string
  mp_Field :: "field_proto list"
  mp_OneofDecl :: "string list"

record builder =
  sb_pkg :: string
  sb_byType :: "(string, message_binding) gomap"
  sb_byName :: "(string, string) gomap"
  sb_messages :: "message_proto list"
  sb_needsTime :: bool
  sb_orderedBinds :: "string list"

datatype schema_error =
    NotAStruct gtype
  | TimeTopLevel
  | AnonymousStruct string
  | MessageClash string string string
  | NoUsableFields string
  | InField string string schema_error
  | PointerToSlice
  | MapField
  | InterfaceField
  | NoEquivalent gtype
  | TagNotNumber string
  | NumberOutOfRange int
  | NumberReserved int
  | SchemaOutOfFuel

definition newSchemaBuilder :: "string \<Rightarrow> builder" where
  "newSchemaBuilder pkg = \<lparr>sb_pkg = pkg, sb_byType = [], sb_byName = [], sb_messages = [], sb_needsTime = False, sb_orderedBinds = []\<rparr>"

fun deref :: "gtype \<Rightarrow> gtype" where
  "deref (GPtr t) = deref t"
| "deref t = t"

definition is_ptr :: "gtype \<Rightarrow> bool" where "is_ptr t = (case t of GPtr _ \<Rightarrow> True | _ \<Rightarrow> False)"
definition pointee :: "gtype \<Rightarrow> gtype" where "pointee t = (case t of GPtr t' \<Rightarrow> t' | _ \<Rightarrow> t)"

section \<open>Deriving a schema\<close>

text \<open>\<^verbatim>\<open>int32(parsed)\<close>.\<close>

definition int32_of :: "int \<Rightarrow> int" where
  "int32_of i = (i + 2 ^ 31) mod 2 ^ 32 - 2 ^ 31"

definition fieldNumber :: "struct_field \<Rightarrow> int \<Rightarrow> (schema_error, int \<times> int) result" where
  "fieldNumber sf next =
     (if sf_protobuf sf = [] then Inr (next, next + 1)
      else (case ParseInt (TrimSpace (sf_protobuf sf)) of
          None \<Rightarrow> Inl (TagNotNumber (sf_protobuf sf))
        | Some parsed \<Rightarrow>
            let number = int32_of parsed
            in if number < 1 \<or> number > 536870911 then Inl (NumberOutOfRange number)
               else if number \<ge> 19000 \<and> number \<le> 19999 then Inl (NumberReserved number)
               else Inr (number, if number \<ge> next then number + 1 else next)))"

definition fieldName :: "(string \<Rightarrow> string) \<Rightarrow> struct_field \<Rightarrow> string" where
  "fieldName uni sf =
     (let tag = sf_json sf; nm = takeWhile (\<lambda>c. c \<noteq> CHR '','') tag
      in if tag \<noteq> [] \<and> nm \<noteq> [] \<and> nm \<noteq> ''-'' then nm else snakeCase uni (sf_Name sf))"

type_synonym message_fn = "gtype \<Rightarrow> builder \<Rightarrow> (schema_error, builder \<times> string) result"

definition no_binding :: field_binding where
  "no_binding = \<lparr>fb_number = 0, fb_name = [], fb_goIndex = 0, fb_goType = GOther [], fb_kind = InvalidKind, fb_repeated = False,
     fb_optional = False, fb_isTime = False, fb_isBytes = False, fb_nested = None\<rparr>"

definition scalarOrMessage :: "message_fn \<Rightarrow> gtype \<Rightarrow> builder \<Rightarrow> (schema_error, builder \<times> field_binding) result" where
  "scalarOrMessage message goType b =
     (let t = deref goType; out = no_binding\<lparr>fb_goType := t\<rparr>
      in (case t of
            GTime \<Rightarrow> Inr (b\<lparr>sb_needsTime := True\<rparr>, out\<lparr>fb_kind := MessageKind, fb_isTime := True\<rparr>)
          | GBytes \<Rightarrow> Inr (b, out\<lparr>fb_kind := BytesKind, fb_isBytes := True\<rparr>)
          | GString \<Rightarrow> Inr (b, out\<lparr>fb_kind := StringKind\<rparr>)
          | GBool \<Rightarrow> Inr (b, out\<lparr>fb_kind := BoolKind\<rparr>)
          | GInt w \<Rightarrow> Inr (b, out\<lparr>fb_kind := if w = 64 then Int64Kind else Int32Kind\<rparr>)
          | GUint w \<Rightarrow> Inr (b, out\<lparr>fb_kind := if w = 64 then Uint64Kind else Uint32Kind\<rparr>)
          | GFloat32 \<Rightarrow> Inr (b, out\<lparr>fb_kind := FloatKind\<rparr>)
          | GFloat64 \<Rightarrow> Inr (b, out\<lparr>fb_kind := DoubleKind\<rparr>)
          | GStruct s \<Rightarrow> and_then (message t b) (\<lambda>(b, nested). Inr (b, out\<lparr>fb_kind := MessageKind, fb_nested := Some nested\<rparr>))
          | GMap \<Rightarrow> Inl MapField
          | GInterface \<Rightarrow> Inl InterfaceField
          | _ \<Rightarrow> Inl (NoEquivalent t)))"

text \<open>\<^verbatim>\<open>field\<close>; what it returns includes the next number.\<close>

definition schema_field :: "(string \<Rightarrow> string) \<Rightarrow> message_fn \<Rightarrow> struct_field \<Rightarrow> nat \<Rightarrow> int \<Rightarrow> builder \<Rightarrow>
    (schema_error, builder \<times> field_binding \<times> int) result" where
  "schema_field uni message sf index next b =
     and_then (fieldNumber sf next) (\<lambda>(number, next).
       let binding = no_binding\<lparr>fb_number := number, fb_name := fieldName uni sf, fb_goIndex := index, fb_goType := sf_type sf,
             fb_optional := is_ptr (sf_type sf)\<rparr>;
           fieldType = pointee (sf_type sf)
       in (case fieldType of
             GBytes \<Rightarrow> Inr (b, binding\<lparr>fb_kind := BytesKind, fb_isBytes := True\<rparr>, next)
           | GSlice element \<Rightarrow>
               if fb_optional binding then Inl PointerToSlice
               else and_then (scalarOrMessage message element b) (\<lambda>(b, elem).
                 Inr (b, binding\<lparr>fb_repeated := True, fb_kind := fb_kind elem, fb_isTime := fb_isTime elem, fb_isBytes := fb_isBytes elem,
                    fb_nested := fb_nested elem, fb_goType := element\<rparr>, next))
           | _ \<Rightarrow>
               and_then (scalarOrMessage message fieldType b) (\<lambda>(b, resolved).
                 Inr (b, binding\<lparr>fb_kind := fb_kind resolved, fb_isTime := fb_isTime resolved, fb_isBytes := fb_isBytes resolved,
                    fb_nested := fb_nested resolved, fb_goType := fieldType\<rparr>, next))))"

definition timestampMessage :: string where "timestampMessage = ''.google.protobuf.Timestamp''"
definition timestampProto :: string where "timestampProto = ''google/protobuf/timestamp.proto''"

definition fieldProto :: "(string \<Rightarrow> string) \<Rightarrow> builder \<Rightarrow> field_binding \<Rightarrow> field_proto" where
  "fieldProto uni b f =
     \<lparr>fp_Name = fb_name f, fp_JsonName = jsonName uni (fb_name f), fp_Number = fb_number f, fp_Repeated = fb_repeated f,
      fp_Type = kindToType (fb_kind f),
      fp_TypeName = (if fb_isTime f then Some timestampMessage
         else case fb_nested f of Some nested \<Rightarrow> map_option (\<lambda>m. ''.'' @ mb_name m) (mget (sb_byType b) nested) | None \<Rightarrow> None),
      fp_Proto3Optional = (fb_optional f \<and> \<not> fb_repeated f), fp_OneofIndex = None\<rparr>"

text \<open>The loop over the fields of a struct, from the field with index \<open>i\<close> on.\<close>

fun message_fields :: "(string \<Rightarrow> string) \<Rightarrow> message_fn \<Rightarrow> string \<Rightarrow> nat \<Rightarrow> int \<Rightarrow> struct_field list \<Rightarrow> builder \<Rightarrow>
    (schema_error, builder \<times> (field_binding \<times> field_proto) list) result" where
  "message_fields uni message owner i next [] b = Inr (b, [])"
| "message_fields uni message owner i next (sf # sfs) b =
     (if \<not> sf_Exported sf \<or> sf_grpc sf = ''-'' \<or> sf_json sf = ''-'' then message_fields uni message owner (Suc i) next sfs b
      else (case schema_field uni message sf i next b of
          Inl e \<Rightarrow> Inl (InField owner (sf_Name sf) e)
        | Inr (b, field, next) \<Rightarrow>
            and_then (message_fields uni message owner (Suc i) next sfs b) (\<lambda>(b', rest). Inr (b', (field, fieldProto uni b field) # rest))))"

text \<open>\<^verbatim>\<open>message\<close> for a struct that is seen for the first time: its cell is entered, its fields are walked, and the cell is filled.\<close>

definition schema_struct :: "(string \<Rightarrow> string) \<Rightarrow> message_fn \<Rightarrow> type_table \<Rightarrow> string \<Rightarrow> string \<Rightarrow> builder \<Rightarrow> (schema_error, builder \<times> string) result" where
  "schema_struct uni message ty s qualified b =
     (let binding = \<lparr>mb_goType = s, mb_name = qualified, mb_fields = []\<rparr>
      in and_then (message_fields uni message (ty_Name ty s) 0 1 (ty_Fields ty s)
           (b\<lparr>sb_byName := mput qualified s (sb_byName b), sb_byType := mput s binding (sb_byType b)\<rparr>)) (\<lambda>(b, fs).
         if fs = [] then Inl (NoUsableFields s)
         else Inr (b\<lparr>sb_byType := mput s (binding\<lparr>mb_fields := map fst fs\<rparr>) (sb_byType b),
                sb_messages := sb_messages b @ [\<lparr>mp_Name = ty_Name ty s, mp_Field = map snd fs, mp_OneofDecl = []\<rparr>],
                sb_orderedBinds := sb_orderedBinds b @ [s]\<rparr>, s)))"

text \<open>\<^verbatim>\<open>message\<close>; each unit of fuel is a struct that is entered.\<close>

fun schema_message :: "(string \<Rightarrow> string) \<Rightarrow> type_table \<Rightarrow> nat \<Rightarrow> message_fn" where
  "schema_message uni ty 0 goType b = Inl SchemaOutOfFuel"
| "schema_message uni ty (Suc n) goType b =
     (case deref goType of
        GStruct s \<Rightarrow>
          (case mget (sb_byType b) s of
             Some _ \<Rightarrow> Inr (b, s)
           | None \<Rightarrow>
               if ty_Name ty s = [] then Inl (AnonymousStruct s)
               else
                 (let qualified = sb_pkg b @ ''.'' @ ty_Name ty s
                  in (case mget (sb_byName b) qualified of
                        Some previous \<Rightarrow>
                          if previous \<noteq> s then Inl (MessageClash previous s qualified)
                          else schema_struct uni (schema_message uni ty n) ty s qualified b
                      | None \<Rightarrow> schema_struct uni (schema_message uni ty n) ty s qualified b)))
      | GTime \<Rightarrow> Inl TimeTopLevel
      | t \<Rightarrow> Inl (NotAStruct t))"

text \<open>\<^verbatim>\<open>finalizeOptional\<close>.\<close>

fun finalize_fields :: "string list \<Rightarrow> field_proto list \<Rightarrow> field_proto list \<times> string list" where
  "finalize_fields decls [] = ([], decls)"
| "finalize_fields decls (f # fs) =
     (if fp_Proto3Optional f
      then (case finalize_fields (decls @ [''_'' @ fp_Name f]) fs of (fs', ds) \<Rightarrow> (f\<lparr>fp_OneofIndex := Some (length decls)\<rparr> # fs', ds))
      else (case finalize_fields decls fs of (fs', ds) \<Rightarrow> (f # fs', ds)))"

definition finalizeOptional :: "message_proto \<Rightarrow> message_proto" where
  "finalizeOptional m = (case finalize_fields (mp_OneofDecl m) (mp_Field m) of (fs, ds) \<Rightarrow> m\<lparr>mp_Field := fs, mp_OneofDecl := ds\<rparr>)"

record method_proto =
  me_Name :: string
  me_InputType :: string
  me_OutputType :: string

record service_proto =
  se_Name :: string
  se_Method :: "method_proto list"

record file_proto =
  fl_Name :: string
  fl_Package :: string
  fl_MessageType :: "message_proto list"
  fl_Service :: "service_proto list"
  fl_Dependency :: "string list"

text \<open>\<^verbatim>\<open>fileDescriptor\<close>: the file that is handed to \<^verbatim>\<open>protodesc.NewFile\<close>, and what becomes of it.\<close>

definition file_of :: "builder \<Rightarrow> service_proto list \<Rightarrow> file_proto" where
  "file_of b services =
     \<lparr>fl_Name = fileNameFor (sb_pkg b), fl_Package = sb_pkg b, fl_MessageType = map finalizeOptional (sb_messages b), fl_Service = services,
      fl_Dependency = (if sb_needsTime b then [timestampProto] else [])\<rparr>"

definition fileDescriptor :: "(file_proto \<Rightarrow> (string, 'd) result) \<Rightarrow> builder \<Rightarrow> service_proto list \<Rightarrow> (string, 'd) result" where
  "fileDescriptor NewFile b services = NewFile (file_of b services)"

section \<open>What is derived\<close>

text \<open>The derivation of a field without the builder: only its number depends on the fields before it.\<close>

definition base_of :: "gtype \<Rightarrow> field_binding" where
  "base_of goType =
     (let t = deref goType; out = no_binding\<lparr>fb_goType := t\<rparr>
      in (case t of
            GTime \<Rightarrow> out\<lparr>fb_kind := MessageKind, fb_isTime := True\<rparr>
          | GBytes \<Rightarrow> out\<lparr>fb_kind := BytesKind, fb_isBytes := True\<rparr>
          | GString \<Rightarrow> out\<lparr>fb_kind := StringKind\<rparr>
          | GBool \<Rightarrow> out\<lparr>fb_kind := BoolKind\<rparr>
          | GInt w \<Rightarrow> out\<lparr>fb_kind := if w = 64 then Int64Kind else Int32Kind\<rparr>
          | GUint w \<Rightarrow> out\<lparr>fb_kind := if w = 64 then Uint64Kind else Uint32Kind\<rparr>
          | GFloat32 \<Rightarrow> out\<lparr>fb_kind := FloatKind\<rparr>
          | GFloat64 \<Rightarrow> out\<lparr>fb_kind := DoubleKind\<rparr>
          | GStruct s \<Rightarrow> out\<lparr>fb_kind := MessageKind, fb_nested := Some s\<rparr>
          | _ \<Rightarrow> out))"

definition field_of :: "(string \<Rightarrow> string) \<Rightarrow> nat \<Rightarrow> struct_field \<Rightarrow> field_binding" where
  "field_of uni i sf =
     (let optional = is_ptr (sf_type sf);
          fieldType = pointee (sf_type sf);
          named = (\<lambda>f. f\<lparr>fb_name := fieldName uni sf, fb_goIndex := i, fb_optional := optional\<rparr>)
      in (case fieldType of
            GBytes \<Rightarrow> named ((base_of GBytes)\<lparr>fb_goType := sf_type sf\<rparr>)
          | GSlice element \<Rightarrow> named ((base_of element)\<lparr>fb_repeated := True, fb_goType := element\<rparr>)
          | _ \<Rightarrow> named ((base_of fieldType)\<lparr>fb_goType := fieldType\<rparr>)))"

definition eligible :: "struct_field \<Rightarrow> bool" where
  "eligible sf \<longleftrightarrow> sf_Exported sf \<and> sf_grpc sf \<noteq> ''-'' \<and> sf_json sf \<noteq> ''-''"

text \<open>The fields that are bound, each with its index in the struct.\<close>

definition bound_fields :: "nat \<Rightarrow> struct_field list \<Rightarrow> (nat \<times> struct_field) list" where
  "bound_fields i sfs = filter (\<lambda>(_, sf). eligible sf) (zip [i..<i + length sfs] sfs)"

definition derived_from :: "(string \<Rightarrow> string) \<Rightarrow> field_binding \<Rightarrow> nat \<times> struct_field \<Rightarrow> bool" where
  "derived_from uni fb x = (case x of (i, sf) \<Rightarrow> fb = (field_of uni i sf)\<lparr>fb_number := fb_number fb\<rparr>)"

text \<open>All fields of a struct without the builder.\<close>

fun plain_fields :: "(string \<Rightarrow> string) \<Rightarrow> nat \<Rightarrow> int \<Rightarrow> struct_field list \<Rightarrow> field_binding list option" where
  "plain_fields uni i next [] = Some []"
| "plain_fields uni i next (sf # sfs) =
     (if \<not> eligible sf then plain_fields uni (Suc i) next sfs
      else (case fieldNumber sf next of
          Inl _ \<Rightarrow> None
        | Inr (number, next) \<Rightarrow> map_option (\<lambda>fs. (field_of uni i sf)\<lparr>fb_number := number\<rparr> # fs) (plain_fields uni (Suc i) next sfs)))"

text \<open>The descriptor of a field without the builder.\<close>

definition proto_of :: "(string \<Rightarrow> string) \<Rightarrow> type_table \<Rightarrow> string \<Rightarrow> field_binding \<Rightarrow> field_proto" where
  "proto_of uni ty pkg f =
     \<lparr>fp_Name = fb_name f, fp_JsonName = jsonName uni (fb_name f), fp_Number = fb_number f, fp_Repeated = fb_repeated f,
      fp_Type = kindToType (fb_kind f),
      fp_TypeName = (if fb_isTime f then Some timestampMessage else map_option (\<lambda>s. ''.'' @ pkg @ ''.'' @ ty_Name ty s) (fb_nested f)),
      fp_Proto3Optional = (fb_optional f \<and> \<not> fb_repeated f), fp_OneofIndex = None\<rparr>"

definition entered :: "builder \<Rightarrow> string set" where
  "entered b = set (mkeys (sb_byType b))"

definition open_structs :: "builder \<Rightarrow> string set" where
  "open_structs b = entered b - set (sb_orderedBinds b)"

definition fields_in :: "builder \<Rightarrow> string \<Rightarrow> field_binding list" where
  "fields_in b s = (case mget (sb_byType b) s of Some m \<Rightarrow> mb_fields m | None \<Rightarrow> [])"

text \<open>
  The invariant of the builder. Cells carry the qualified name, no two types the same; a struct that is finished has its bound fields,
  its references are entered, and its descriptor is in the list of messages.
\<close>

definition cells_ok :: "type_table \<Rightarrow> builder \<Rightarrow> bool" where
  "cells_ok ty b \<longleftrightarrow>
     (\<forall>s m. mget (sb_byType b) s = Some m \<longrightarrow>
        mb_goType m = s \<and> mb_name m = sb_pkg b @ ''.'' @ ty_Name ty s \<and> ty_Name ty s \<noteq> [] \<and>
        mget (sb_byName b) (sb_pkg b @ ''.'' @ ty_Name ty s) = Some s)"

definition resolved :: "builder \<Rightarrow> field_binding \<Rightarrow> bool" where
  "resolved b f \<longleftrightarrow> (\<forall>r. fb_nested f = Some r \<longrightarrow> r \<in> entered b) \<and> (fb_isTime f \<longrightarrow> sb_needsTime b) \<and> fb_kind f \<noteq> InvalidKind"

definition finished :: "(string \<Rightarrow> string) \<Rightarrow> type_table \<Rightarrow> builder \<Rightarrow> string \<Rightarrow> bool" where
  "finished uni ty b s \<longleftrightarrow> s \<in> entered b \<and> fields_in b s \<noteq> [] \<and>
     list_all2 (derived_from uni) (fields_in b s) (bound_fields 0 (ty_Fields ty s)) \<and>
     plain_fields uni 0 1 (ty_Fields ty s) = Some (fields_in b s) \<and>
     (\<forall>f \<in> set (fields_in b s). resolved b f)"

definition message_of :: "(string \<Rightarrow> string) \<Rightarrow> type_table \<Rightarrow> builder \<Rightarrow> string \<Rightarrow> message_proto" where
  "message_of uni ty b s = \<lparr>mp_Name = ty_Name ty s, mp_Field = map (proto_of uni ty (sb_pkg b)) (fields_in b s), mp_OneofDecl = []\<rparr>"

definition schema_inv :: "(string \<Rightarrow> string) \<Rightarrow> type_table \<Rightarrow> builder \<Rightarrow> bool" where
  "schema_inv uni ty b \<longleftrightarrow> cells_ok ty b \<and> distinct (sb_orderedBinds b) \<and> (\<forall>s \<in> set (sb_orderedBinds b). finished uni ty b s) \<and>
     sb_messages b = map (message_of uni ty b) (sb_orderedBinds b)"

text \<open>How a builder changes.\<close>

definition grows :: "builder \<Rightarrow> builder \<Rightarrow> bool" where
  "grows b b' \<longleftrightarrow> sb_pkg b' = sb_pkg b \<and> entered b \<subseteq> entered b' \<and> open_structs b' = open_structs b \<and>
     (sb_needsTime b \<longrightarrow> sb_needsTime b')"

lemma schema_grows_refl: "grows b b" by (simp add: grows_def)

lemma schema_grows_trans: "grows a b \<Longrightarrow> grows b c \<Longrightarrow> grows a c" by (auto simp: grows_def)

definition good_message :: "(string \<Rightarrow> string) \<Rightarrow> type_table \<Rightarrow> message_fn \<Rightarrow> bool" where
  "good_message uni ty message \<longleftrightarrow>
     (\<forall>t b b' s. schema_inv uni ty b \<longrightarrow> message t b = Inr (b', s) \<longrightarrow> schema_inv uni ty b' \<and> grows b b' \<and> deref t = GStruct s \<and> s \<in> entered b')"

lemma good_messageD:
  "good_message uni ty message \<Longrightarrow> schema_inv uni ty b \<Longrightarrow> message t b = Inr (b', s) \<Longrightarrow>
     schema_inv uni ty b' \<and> grows b b' \<and> deref t = GStruct s \<and> s \<in> entered b'"
  unfolding good_message_def by blast

lemma needsTime_simps [simp]:
  "entered (b\<lparr>sb_needsTime := x\<rparr>) = entered b" "fields_in (b\<lparr>sb_needsTime := x\<rparr>) s = fields_in b s"
  "open_structs (b\<lparr>sb_needsTime := x\<rparr>) = open_structs b" "message_of uni ty (b\<lparr>sb_needsTime := x\<rparr>) s = message_of uni ty b s"
  "cells_ok ty (b\<lparr>sb_needsTime := x\<rparr>) = cells_ok ty b"
  by (simp_all add: entered_def fields_in_def open_structs_def message_of_def cells_ok_def)

lemma inv_needsTime: "schema_inv uni ty b \<Longrightarrow> schema_inv uni ty (b\<lparr>sb_needsTime := True\<rparr>)"
  by (auto simp: schema_inv_def finished_def resolved_def cong: map_cong)

lemma deref_not_ptr [simp]: "deref t \<noteq> GPtr x" by (induction t) simp_all

lemma deref_idem [simp]: "deref (deref t) = deref t" by (induction t) simp_all

text \<open>A scalar or a message is derived as without the builder.\<close>

lemma scalarOrMessage_ok:
  assumes "good_message uni ty message" and "schema_inv uni ty b" and "scalarOrMessage message t b = Inr (b', f)"
  shows "schema_inv uni ty b' \<and> grows b b' \<and> f = base_of t \<and> resolved b' f"
proof (cases "deref t")
  case (GStruct s)
  then obtain s' where m: "message (GStruct s) b = Inr (b', s')"
      "f = no_binding\<lparr>fb_goType := GStruct s, fb_kind := MessageKind, fb_nested := Some s'\<rparr>"
    using assms(3) by (cases "message (GStruct s) b") (auto simp: scalarOrMessage_def Let_def)
  with good_messageD [OF assms(1,2) m(1)] GStruct show ?thesis by (auto simp: base_of_def Let_def no_binding_def resolved_def)
next
  case GTime
  then show ?thesis using assms(2,3)
    by (auto simp: scalarOrMessage_def base_of_def Let_def no_binding_def grows_def resolved_def inv_needsTime)
qed (use assms(2,3) in \<open>auto simp: scalarOrMessage_def base_of_def Let_def no_binding_def resolved_def schema_grows_refl split: if_splits\<close>)

lemma base_of_simps [simp]: "fb_optional (base_of t) = False" "fb_repeated (base_of t) = False" "fb_name (base_of t) = []" "fb_goIndex (base_of t) = 0"
    "fb_number (base_of t) = 0"
  by (simp_all add: base_of_def Let_def no_binding_def split: gtype.splits)

lemma schema_field_ok:
  assumes "good_message uni ty message" and "schema_inv uni ty b" and "schema_field uni message sf i next b = Inr (b', f, next')"
  shows "schema_inv uni ty b' \<and> grows b b' \<and> derived_from uni f (i, sf) \<and> resolved b' f \<and> fieldNumber sf next = Inr (fb_number f, next')"
proof -
  have "fieldNumber sf next = Inr (fb_number f, next')"
    using assms(3) by (cases "fieldNumber sf next"; cases "pointee (sf_type sf)") (auto simp: schema_field_def Let_def and_then_Inr_iff split: if_splits)
  moreover have "schema_inv uni ty b' \<and> grows b b' \<and> derived_from uni f (i, sf) \<and> resolved b' f"
  proof -
  note ok = scalarOrMessage_ok [OF assms(1,2)]
  consider "pointee (sf_type sf) = GBytes" | el where "pointee (sf_type sf) = GSlice el" | "pointee (sf_type sf) \<noteq> GBytes" "\<forall>el. pointee (sf_type sf) \<noteq> GSlice el" by blast
  then show ?thesis
  proof cases
    case 1
    then show ?thesis using assms(2,3) unfolding schema_field_def derived_from_def field_of_def
      by (cases "fieldNumber sf next") (auto simp: base_of_def no_binding_def resolved_def schema_grows_refl Let_def)
  next
    case (2 el)
    then obtain elem number where e: "scalarOrMessage message el b = Inr (b', elem)" and f: "f = no_binding\<lparr>fb_number := number, fb_name := fieldName uni sf,
        fb_goIndex := i, fb_optional := False, fb_repeated := True, fb_kind := fb_kind elem, fb_isTime := fb_isTime elem,
        fb_isBytes := fb_isBytes elem, fb_nested := fb_nested elem, fb_goType := el\<rparr>" and no: "\<not> is_ptr (sf_type sf)"
      using assms(3) unfolding schema_field_def
      by (cases "fieldNumber sf next"; cases "scalarOrMessage message el b") (auto simp: Let_def split: if_splits)
    from ok [OF e] show ?thesis using 2 no f unfolding derived_from_def field_of_def
      by (auto simp: base_of_def no_binding_def resolved_def Let_def split: gtype.splits)
  next
    case 3
    have nb: "(case pointee (sf_type sf) of GBytes \<Rightarrow> x | GSlice el \<Rightarrow> y el | _ \<Rightarrow> z) = z" for x :: 'a and y z using 3 by (cases "pointee (sf_type sf)") auto
    have nb': "(case pointee (sf_type sf) of GBytes \<Rightarrow> x | GSlice el \<Rightarrow> y el | _ \<Rightarrow> z) = z" for x :: field_binding and y z using 3 by (cases "pointee (sf_type sf)") auto
    obtain elem number where e: "scalarOrMessage message (pointee (sf_type sf)) b = Inr (b', elem)" and f: "f = no_binding\<lparr>fb_number := number, fb_name := fieldName uni sf,
        fb_goIndex := i, fb_optional := is_ptr (sf_type sf), fb_kind := fb_kind elem, fb_isTime := fb_isTime elem,
        fb_isBytes := fb_isBytes elem, fb_nested := fb_nested elem, fb_goType := pointee (sf_type sf)\<rparr>"
      using assms(3) 3 unfolding schema_field_def
      by (cases "fieldNumber sf next"; cases "scalarOrMessage message (pointee (sf_type sf)) b"; cases "pointee (sf_type sf)") (auto simp: Let_def)
    from ok [OF e] have r: "schema_inv uni ty b'" "grows b b'" "elem = base_of (pointee (sf_type sf))" "resolved b' elem" by auto
    have "f = (field_of uni i sf)\<lparr>fb_number := fb_number f\<rparr>"
      unfolding f field_of_def Let_def nb' r(3)
      by (simp add: base_of_def no_binding_def Let_def split: gtype.splits)
    moreover have "resolved b' f" using r(4) by (simp add: resolved_def f)
    ultimately show ?thesis using r(1,2) by (simp add: derived_from_def)
  qed
qed
  ultimately show ?thesis by simp
qed

lemma resolved_grows: "resolved b f \<Longrightarrow> grows b b' \<Longrightarrow> resolved b' f"
  by (auto simp: resolved_def grows_def)

lemma fieldProto_eq:
  assumes "cells_ok ty b" and "resolved b f"
  shows "fieldProto uni b f = proto_of uni ty (sb_pkg b) f"
proof (cases "fb_nested f")
  case (Some r)
  then obtain m where "mget (sb_byType b) r = Some m"
    using assms(2) mget_None_iff [of "sb_byType b" r] by (cases "mget (sb_byType b) r") (auto simp: resolved_def entered_def)
  then show ?thesis using assms(1) Some by (auto simp: fieldProto_def proto_of_def cells_ok_def)
qed (simp add: fieldProto_def proto_of_def)

lemma bound_fields_Cons:
  "bound_fields i (sf # sfs) = (if eligible sf then [(i, sf)] else []) @ bound_fields (Suc i) sfs"
  by (simp add: bound_fields_def upt_conv_Cons del: upt_Suc)

lemma inv_cells: "schema_inv uni ty b \<Longrightarrow> cells_ok ty b"
  by (simp add: schema_inv_def)

lemma message_fields_ok:
  assumes "good_message uni ty message" and "schema_inv uni ty b" and "message_fields uni message owner i next sfs b = Inr (b', fs)"
  shows "schema_inv uni ty b' \<and> grows b b' \<and> list_all2 (derived_from uni) (map fst fs) (bound_fields i sfs) \<and>
    (\<forall>f \<in> set (map fst fs). resolved b' f) \<and> map snd fs = map (proto_of uni ty (sb_pkg b')) (map fst fs) \<and>
    plain_fields uni i next sfs = Some (map fst fs)"
  using assms(2,3)
proof (induction sfs arbitrary: i "next" b fs)
  case Nil
  then show ?case by (simp add: bound_fields_def schema_grows_refl)
next
  case (Cons sf sfs)
  show ?case
  proof (cases "eligible sf")
    case False
    then have skip: "message_fields uni message owner i next (sf # sfs) b = message_fields uni message owner (Suc i) next sfs b"
      by (auto simp: eligible_def)
    from Cons.IH [OF Cons.prems(1)] Cons.prems(2) False show ?thesis unfolding skip by (simp add: bound_fields_Cons)
  next
    case True
    then obtain b1 f next1 rest where f: "schema_field uni message sf i next b = Inr (b1, f, next1)"
        and rest: "message_fields uni message owner (Suc i) next1 sfs b1 = Inr (b', rest)" and fs: "fs = (f, fieldProto uni b1 f) # rest"
      using Cons.prems(2)
      by (cases "schema_field uni message sf i next b") (auto simp: eligible_def and_then_Inr_iff split: prod.splits)
    from schema_field_ok [OF assms(1) Cons.prems(1) f] have 1: "schema_inv uni ty b1" "grows b b1" "derived_from uni f (i, sf)" "resolved b1 f"
      and n: "fieldNumber sf next = Inr (fb_number f, next1)" by auto
    have fb: "(field_of uni i sf)\<lparr>fb_number := fb_number f\<rparr> = f" using 1(3) by (simp add: derived_from_def)
    from Cons.IH [OF 1(1) rest] have 2: "schema_inv uni ty b'" "grows b1 b'" "list_all2 (derived_from uni) (map fst rest) (bound_fields (Suc i) sfs)"
      "\<forall>f \<in> set (map fst rest). resolved b' f" "map snd rest = map (proto_of uni ty (sb_pkg b')) (map fst rest)"
      and p: "plain_fields uni (Suc i) next1 sfs = Some (map fst rest)" by auto
    have "plain_fields uni i next (sf # sfs) = Some (map fst fs)" using True n p fb by (simp add: fs)
    moreover have "fieldProto uni b1 f = proto_of uni ty (sb_pkg b') f"
      using fieldProto_eq [OF inv_cells [OF 1(1)] 1(4)] 2(2) by (simp add: grows_def)
    ultimately show ?thesis using 1 2 True by (auto simp: fs bound_fields_Cons resolved_grows simp del: plain_fields.simps intro: schema_grows_trans)
  qed
qed

lemma finished_mono:
  "finished uni ty b r \<Longrightarrow> fields_in b' r = fields_in b r \<Longrightarrow> entered b \<subseteq> entered b' \<Longrightarrow> (sb_needsTime b \<longrightarrow> sb_needsTime b') \<Longrightarrow> finished uni ty b' r"
  by (auto simp: finished_def resolved_def)

lemma enter_inv:
  assumes inv: "schema_inv uni ty b" and new: "s \<notin> entered b" and named: "ty_Name ty s \<noteq> []"
    and free: "\<And>r. mget (sb_byName b) qualified = Some r \<Longrightarrow> r = s" and q: "qualified = sb_pkg b @ ''.'' @ ty_Name ty s"
  shows "schema_inv uni ty (b\<lparr>sb_byName := mput qualified s (sb_byName b), sb_byType := mput s \<lparr>mb_goType = s, mb_name = qualified, mb_fields = []\<rparr> (sb_byType b)\<rparr>)"
proof -
  define b1 where "b1 = b\<lparr>sb_byName := mput qualified s (sb_byName b), sb_byType := mput s \<lparr>mb_goType = s, mb_name = qualified, mb_fields = []\<rparr> (sb_byType b)\<rparr>"
  have e1: "entered b1 = insert s (entered b)" by (simp add: b1_def entered_def)
  have b1s: "sb_orderedBinds b1 = sb_orderedBinds b" "sb_pkg b1 = sb_pkg b" "sb_needsTime b1 = sb_needsTime b" by (simp_all add: b1_def)
  have f1: "fields_in b1 r = fields_in b r" if "r \<noteq> s" for r using that by (simp add: b1_def fields_in_def)
  have in_b: "r \<in> entered b" if "r \<in> set (sb_orderedBinds b)" for r using inv that by (auto simp: schema_inv_def finished_def)
  have not_done: "r \<noteq> s" if "r \<in> set (sb_orderedBinds b)" for r using in_b [OF that] new by blast
  have c1: "cells_ok ty b1" unfolding cells_ok_def
  proof (intro allI impI)
    fix r m assume m: "mget (sb_byType b1) r = Some m"
    show "mb_goType m = r \<and> mb_name m = sb_pkg b1 @ ''.'' @ ty_Name ty r \<and> ty_Name ty r \<noteq> [] \<and> mget (sb_byName b1) (sb_pkg b1 @ ''.'' @ ty_Name ty r) = Some r"
    proof (cases "r = s")
      case True
      then show ?thesis using m named q by (auto simp: b1_def)
    next
      case False
      with m have m': "mget (sb_byType b) r = Some m" by (simp add: b1_def)
      from inv have "cells_ok ty b" by (rule inv_cells)
      from this [unfolded cells_ok_def, rule_format, OF m'] have
        "mb_goType m = r" "mb_name m = sb_pkg b @ ''.'' @ ty_Name ty r" "ty_Name ty r \<noteq> []" "mget (sb_byName b) (sb_pkg b @ ''.'' @ ty_Name ty r) = Some r" by auto
      then show ?thesis using free False by (auto simp: b1_def)
    qed
  qed
  have "schema_inv uni ty b1"
    unfolding schema_inv_def
  proof (intro conjI ballI)
    show "distinct (sb_orderedBinds b1)" using inv by (simp add: b1_def schema_inv_def)
    fix r assume r: "r \<in> set (sb_orderedBinds b1)"
    then have r': "r \<in> set (sb_orderedBinds b)" by (simp add: b1_def)
    show "finished uni ty b1 r"
      by (rule finished_mono [of _ _ b]) (use inv r' f1 not_done e1 in \<open>auto simp: schema_inv_def b1_def\<close>)
  next
    show "sb_messages b1 = map (message_of uni ty b1) (sb_orderedBinds b1)"
      using inv f1 not_done by (auto simp: schema_inv_def message_of_def b1_def)
  qed (rule c1)
  then show ?thesis by (simp add: b1_def)
qed

lemma schema_struct_ok:
  assumes good: "good_message uni ty message" and inv: "schema_inv uni ty b" and new: "s \<notin> entered b" and named: "ty_Name ty s \<noteq> []"
    and free: "\<And>r. mget (sb_byName b) qualified = Some r \<Longrightarrow> r = s" and q: "qualified = sb_pkg b @ ''.'' @ ty_Name ty s"
    and run: "schema_struct uni message ty s qualified b = Inr (b', s')"
  shows "schema_inv uni ty b' \<and> grows b b' \<and> s' = s \<and> s \<in> entered b'"
proof -
  define b1 where "b1 = b\<lparr>sb_byName := mput qualified s (sb_byName b), sb_byType := mput s \<lparr>mb_goType = s, mb_name = qualified, mb_fields = []\<rparr> (sb_byType b)\<rparr>"
  have e1: "entered b1 = insert s (entered b)" by (simp add: b1_def entered_def)
  have b1s: "sb_orderedBinds b1 = sb_orderedBinds b" "sb_pkg b1 = sb_pkg b" "sb_needsTime b1 = sb_needsTime b" by (simp_all add: b1_def)
  have f1: "fields_in b1 r = fields_in b r" if "r \<noteq> s" for r using that by (simp add: b1_def fields_in_def)
  have in_b: "r \<in> entered b" if "r \<in> set (sb_orderedBinds b)" for r using inv that by (auto simp: schema_inv_def finished_def)
  have not_done: "r \<noteq> s" if "r \<in> set (sb_orderedBinds b)" for r using in_b [OF that] new by blast
  have i1: "schema_inv uni ty b1" unfolding b1_def by (rule enter_inv [OF inv new named free q])
  obtain b2 fs where loop: "message_fields uni message (ty_Name ty s) 0 1 (ty_Fields ty s) b1 = Inr (b2, fs)" and ne: "fs \<noteq> []" and s': "s' = s"
    and b': "b' = b2\<lparr>sb_byType := mput s \<lparr>mb_goType = s, mb_name = qualified, mb_fields = map fst fs\<rparr> (sb_byType b2),
         sb_messages := sb_messages b2 @ [\<lparr>mp_Name = ty_Name ty s, mp_Field = map snd fs, mp_OneofDecl = []\<rparr>],
         sb_orderedBinds := sb_orderedBinds b2 @ [s]\<rparr>"
    using run by (auto simp: schema_struct_def Let_def b1_def and_then_Inr_iff split: if_splits)
  from message_fields_ok [OF good i1 loop] have i2: "schema_inv uni ty b2" and g2: "grows b1 b2"
    and d: "list_all2 (derived_from uni) (map fst fs) (bound_fields 0 (ty_Fields ty s))" and res: "\<forall>f \<in> set (map fst fs). resolved b2 f"
    and pr: "map snd fs = map (proto_of uni ty (sb_pkg b2)) (map fst fs)" and plain: "plain_fields uni 0 1 (ty_Fields ty s) = Some (map fst fs)" by auto
  have open_s: "s \<in> open_structs b2" using g2 new not_done by (auto simp: grows_def open_structs_def e1 b1s)
  then have s2: "s \<in> entered b2" "s \<notin> set (sb_orderedBinds b2)" by (auto simp: open_structs_def)
  have e3: "entered b' = entered b2" using s2 by (auto simp: b' entered_def)
  have f3: "fields_in b' r = (if r = s then map fst fs else fields_in b2 r)" for r by (simp add: b' fields_in_def)
  have pkg: "sb_pkg b' = sb_pkg b2" "sb_pkg b2 = sb_pkg b" using g2 by (simp_all add: b' grows_def b1s)
  have od: "set (sb_orderedBinds b') = insert s (set (sb_orderedBinds b2))" by (auto simp: b')
  have nt: "sb_needsTime b' = sb_needsTime b2" by (simp add: b')
  have c2: "cells_ok ty b2" using i2 by (rule inv_cells)
  have reg: "mget (sb_byName b2) (sb_pkg b2 @ ''.'' @ ty_Name ty s) = Some s"
    using c2 s2(1) mget_None_iff [of "sb_byType b2" s] by (cases "mget (sb_byType b2) s") (auto simp: cells_ok_def entered_def)
  have "schema_inv uni ty b'"
    unfolding schema_inv_def
  proof (intro conjI ballI)
    show "cells_ok ty b'" using c2 reg named pkg q by (auto simp: cells_ok_def b')
    show "distinct (sb_orderedBinds b')" using i2 s2 by (simp add: b' schema_inv_def)
    show "sb_messages b' = map (message_of uni ty b') (sb_orderedBinds b')"
    proof -
      have old: "message_of uni ty b' r = message_of uni ty b2 r" if "r \<in> set (sb_orderedBinds b2)" for r
        using that s2 by (auto simp: message_of_def f3 pkg)
      have new: "message_of uni ty b' s = \<lparr>mp_Name = ty_Name ty s, mp_Field = map snd fs, mp_OneofDecl = []\<rparr>"
        unfolding pr by (simp add: message_of_def f3 pkg)
      have "sb_messages b' = map (message_of uni ty b2) (sb_orderedBinds b2) @ [message_of uni ty b' s]"
        using i2 unfolding new by (simp add: b' schema_inv_def)
      also have "\<dots> = map (message_of uni ty b') (sb_orderedBinds b2 @ [s])" using old by simp
      also have "sb_orderedBinds b2 @ [s] = sb_orderedBinds b'" by (simp add: b')
      finally show ?thesis .
    qed
    fix r assume "r \<in> set (sb_orderedBinds b')"
    then consider "r = s" | "r \<in> set (sb_orderedBinds b2)" "r \<noteq> s" by (auto simp: b')
    then show "finished uni ty b' r"
    proof cases
      case 1
      then show ?thesis using ne d res s2 plain by (auto simp: finished_def f3 e3 resolved_def nt)
    next
      case 2
      show ?thesis by (rule finished_mono [of _ _ b2]) (use i2 2 f3 e3 nt in \<open>auto simp: schema_inv_def\<close>)
    qed
  qed
  moreover have "open_structs b' = open_structs b"
  proof -
    have "open_structs b' = open_structs b2 - {s}" by (auto simp: open_structs_def e3 od)
    also have "\<dots> = open_structs b1 - {s}" using g2 by (simp add: grows_def)
    also have "\<dots> = open_structs b" using new by (auto simp: open_structs_def e1 b1s)
    finally show ?thesis .
  qed
  ultimately show ?thesis using g2 s2 by (auto simp: grows_def e1 e3 s' b1s pkg nt)
qed

lemma schema_message_good: "good_message uni ty (schema_message uni ty n)"
proof (induction n)
  case (Suc n)
  show ?case unfolding good_message_def
  proof (intro allI impI)
    fix t b b' s assume inv: "schema_inv uni ty b" and run: "schema_message uni ty (Suc n) t b = Inr (b', s)"
    then obtain r where r: "deref t = GStruct r" by (auto split: gtype.splits)
    show "schema_inv uni ty b' \<and> grows b b' \<and> deref t = GStruct s \<and> s \<in> entered b'"
    proof (cases "mget (sb_byType b) r")
      case (Some m)
      then show ?thesis using run r inv mget_None_iff [of "sb_byType b" r] by (auto simp: schema_grows_refl entered_def)
    next
      case None
      then have new: "r \<notin> entered b" by (simp add: entered_def mget_None_iff)
      let ?q = "sb_pkg b @ ''.'' @ ty_Name ty r"
      have "ty_Name ty r \<noteq> []" "\<And>p. mget (sb_byName b) ?q = Some p \<Longrightarrow> p = r" "schema_struct uni (schema_message uni ty n) ty r ?q b = Inr (b', s)"
        using run r None by (auto simp: Let_def split: option.splits if_splits)
      from schema_struct_ok [OF Suc inv new this(1,2) refl this(3)] r show ?thesis by simp
    qed
  qed
qed (simp add: good_message_def)

text \<open>A builder whose structs are all finished.\<close>

definition complete_schema :: "(string \<Rightarrow> string) \<Rightarrow> type_table \<Rightarrow> builder \<Rightarrow> bool" where
  "complete_schema uni ty b \<longleftrightarrow> schema_inv uni ty b \<and> open_structs b = {}"

lemma complete_new: "complete_schema uni ty (newSchemaBuilder pkg)"
  by (simp add: complete_schema_def schema_inv_def newSchemaBuilder_def cells_ok_def open_structs_def entered_def mkeys_def)

lemma complete_message:
  assumes "complete_schema uni ty b" and "schema_message uni ty n t b = Inr (b', s)"
  shows "complete_schema uni ty b' \<and> grows b b' \<and> deref t = GStruct s \<and> s \<in> entered b'"
  using good_messageD [OF schema_message_good _ assms(2)] assms(1) by (auto simp: complete_schema_def grows_def)

lemma complete_done: "complete_schema uni ty b \<Longrightarrow> s \<in> entered b \<longleftrightarrow> s \<in> set (sb_orderedBinds b)"
  by (auto simp: complete_schema_def open_structs_def schema_inv_def finished_def)

lemma complete_finished: "complete_schema uni ty b \<Longrightarrow> s \<in> entered b \<Longrightarrow> finished uni ty b s"
  using complete_done [of uni ty b s] by (auto simp: complete_schema_def schema_inv_def)

text \<open>The one-ofs of a message: one for each optional field, numbered in their order.\<close>

lemma finalize_fields_eq:
  "finalize_fields ds fs = (fs', ds') \<Longrightarrow>
     ds' = ds @ map (\<lambda>f. ''_'' @ fp_Name f) (filter fp_Proto3Optional fs) \<and> map (fp_OneofIndex_update (\<lambda>_. None)) fs' = map (fp_OneofIndex_update (\<lambda>_. None)) fs \<and>
     map fp_OneofIndex (filter fp_Proto3Optional fs') = map Some [length ds..<length ds'] \<and>
     map fp_OneofIndex (filter (\<lambda>f. \<not> fp_Proto3Optional f) fs') = map fp_OneofIndex (filter (\<lambda>f. \<not> fp_Proto3Optional f) fs)"
proof (induction fs arbitrary: ds fs' ds')
  case (Cons f fs)
  show ?case
  proof (cases "fp_Proto3Optional f")
    case True
    with Cons.prems obtain fs1 where 1: "finalize_fields (ds @ [''_'' @ fp_Name f]) fs = (fs1, ds')" "fs' = f\<lparr>fp_OneofIndex := Some (length ds)\<rparr> # fs1"
      by (auto split: prod.splits)
    have "[length ds..<length ds'] = length ds # [Suc (length ds)..<length ds']" using Cons.IH [OF 1(1)] by (simp add: upt_conv_Cons del: upt_Suc)
    then show ?thesis using Cons.IH [OF 1(1)] True by (simp add: 1(2))
  next
    case False
    with Cons.prems obtain fs1 where 1: "finalize_fields ds fs = (fs1, ds')" "fs' = f # fs1" by (auto split: prod.splits)
    then show ?thesis using Cons.IH [OF 1(1)] False by simp
  qed
qed simp

text \<open>What the file says of a reference to a type.\<close>

definition reference_ok :: "file_proto \<Rightarrow> field_proto \<Rightarrow> bool" where
  "reference_ok file f \<longleftrightarrow>
     (case fp_TypeName f of
        None \<Rightarrow> fp_Type f \<noteq> TYPE_MESSAGE
      | Some ref \<Rightarrow> fp_Type f = TYPE_MESSAGE \<and>
          (ref = timestampMessage \<and> timestampProto \<in> set (fl_Dependency file) \<or>
           (\<exists>m \<in> set (fl_MessageType file). ref = ''.'' @ fl_Package file @ ''.'' @ mp_Name m)))"

definition oneofs_ok :: "message_proto \<Rightarrow> bool" where
  "oneofs_ok m \<longleftrightarrow>
     mp_OneofDecl m = map (\<lambda>f. ''_'' @ fp_Name f) (filter fp_Proto3Optional (mp_Field m)) \<and>
     map fp_OneofIndex (filter fp_Proto3Optional (mp_Field m)) = map Some [0..<length (mp_OneofDecl m)] \<and>
     (\<forall>f \<in> set (mp_Field m). fp_Proto3Optional f \<or> fp_OneofIndex f = None)"

lemma field_of_simps [simp]:
  "fb_name (field_of uni i sf) = fieldName uni sf" "fb_goIndex (field_of uni i sf) = i" "fb_optional (field_of uni i sf) = is_ptr (sf_type sf)"
  by (cases "pointee (sf_type sf)"; simp add: field_of_def Let_def)+

lemma base_kind_reference: "fb_kind (base_of t) = MessageKind \<longleftrightarrow> fb_isTime (base_of t) \<or> fb_nested (base_of t) \<noteq> None"
  by (simp add: base_of_def Let_def no_binding_def split: gtype.splits)

lemma field_kind_reference: "fb_kind (field_of uni i sf) = MessageKind \<longleftrightarrow> fb_isTime (field_of uni i sf) \<or> fb_nested (field_of uni i sf) \<noteq> None"
  by (cases "pointee (sf_type sf)") (simp_all add: field_of_def Let_def base_kind_reference)

lemma derived_simps:
  assumes "derived_from uni fb (i, sf)"
  shows "fb_name fb = fieldName uni sf" "fb_goIndex fb = i" "fb_optional fb = is_ptr (sf_type sf)" "fb_kind fb = fb_kind (field_of uni i sf)"
    "fb_isTime fb = fb_isTime (field_of uni i sf)" "fb_isBytes fb = fb_isBytes (field_of uni i sf)" "fb_nested fb = fb_nested (field_of uni i sf)"
    "fb_repeated fb = fb_repeated (field_of uni i sf)" "fb_goType fb = fb_goType (field_of uni i sf)"
proof -
  have e: "fb = (field_of uni i sf)\<lparr>fb_number := fb_number fb\<rparr>" using assms by (simp add: derived_from_def)
  show "fb_name fb = fieldName uni sf" "fb_goIndex fb = i" "fb_optional fb = is_ptr (sf_type sf)" "fb_kind fb = fb_kind (field_of uni i sf)"
    "fb_isTime fb = fb_isTime (field_of uni i sf)" "fb_isBytes fb = fb_isBytes (field_of uni i sf)" "fb_nested fb = fb_nested (field_of uni i sf)"
    "fb_repeated fb = fb_repeated (field_of uni i sf)" "fb_goType fb = fb_goType (field_of uni i sf)"
    by (subst e, simp)+
qed

lemma derived_kind_reference: "derived_from uni fb x \<Longrightarrow> fb_kind fb = MessageKind \<longleftrightarrow> fb_isTime fb \<or> fb_nested fb \<noteq> None"
  using field_kind_reference by (cases x) (auto simp: derived_simps)

lemma finalized_fields:
  assumes "finalizeOptional m = m'"
  shows "mp_Name m' = mp_Name m" and "f' \<in> set (mp_Field m') \<Longrightarrow> \<exists>f \<in> set (mp_Field m). f'\<lparr>fp_OneofIndex := None\<rparr> = f\<lparr>fp_OneofIndex := None\<rparr>"
    and "mp_OneofDecl m = [] \<Longrightarrow> (\<forall>f \<in> set (mp_Field m). fp_OneofIndex f = None) \<Longrightarrow> oneofs_ok m'"
proof -
  obtain fs ds where e: "finalize_fields (mp_OneofDecl m) (mp_Field m) = (fs, ds)" by fastforce
  then have m': "m' = m\<lparr>mp_Field := fs, mp_OneofDecl := ds\<rparr>" using assms by (simp add: finalizeOptional_def)
  note eq = finalize_fields_eq [OF e]
  show "mp_Name m' = mp_Name m" by (simp add: m')
  show "\<exists>f \<in> set (mp_Field m). f'\<lparr>fp_OneofIndex := None\<rparr> = f\<lparr>fp_OneofIndex := None\<rparr>" if "f' \<in> set (mp_Field m')"
  proof -
    have "f'\<lparr>fp_OneofIndex := None\<rparr> \<in> set (map (fp_OneofIndex_update (\<lambda>_. None)) fs)" using that by (simp add: m')
    also have "\<dots> = set (map (fp_OneofIndex_update (\<lambda>_. None)) (mp_Field m))" using eq by simp
    finally show ?thesis by auto
  qed
  show "oneofs_ok m'" if "mp_OneofDecl m = []" and none: "\<forall>f \<in> set (mp_Field m). fp_OneofIndex f = None"
  proof -
    have names: "map (\<lambda>f. ''_'' @ fp_Name f) (filter fp_Proto3Optional xs) =
        map (\<lambda>f. ''_'' @ fp_Name f) (filter fp_Proto3Optional (map (fp_OneofIndex_update (\<lambda>_. None)) xs))" for xs
      by (induction xs) auto
    have decls: "map (\<lambda>f. ''_'' @ fp_Name f) (filter fp_Proto3Optional fs) = map (\<lambda>f. ''_'' @ fp_Name f) (filter fp_Proto3Optional (mp_Field m))"
      using names [of fs] names [of "mp_Field m"] eq by simp
    have rest: "fp_OneofIndex f = None" if "f \<in> set (filter (\<lambda>f. \<not> fp_Proto3Optional f) fs)" for f
    proof -
      have "fp_OneofIndex f \<in> set (map fp_OneofIndex (filter (\<lambda>f. \<not> fp_Proto3Optional f) fs))" using that by simp
      then show ?thesis using eq none by auto
    qed
    have "fp_Proto3Optional f \<or> fp_OneofIndex f = None" if "f \<in> set fs" for f
      using rest [of f] that by (cases "fp_Proto3Optional f") auto
    then show ?thesis using decls eq that(1) by (simp add: oneofs_ok_def m')
  qed
qed

lemma schema_file_ok:
  assumes "complete_schema uni ty b"
  shows "distinct (map mp_Name (fl_MessageType (file_of b services)))"
    and "m \<in> set (fl_MessageType (file_of b services)) \<Longrightarrow> oneofs_ok m \<and> (\<forall>f \<in> set (mp_Field m). reference_ok (file_of b services) f)"
proof -
  have inv: "schema_inv uni ty b" using assms by (simp add: complete_schema_def)
  then have msgs: "sb_messages b = map (message_of uni ty b) (sb_orderedBinds b)" by (simp add: schema_inv_def)
  have name: "mp_Name (finalizeOptional (message_of uni ty b s)) = ty_Name ty s" for s
    using finalized_fields(1) [OF refl] by (simp add: message_of_def)
  have byName: "mget (sb_byName b) (sb_pkg b @ ''.'' @ ty_Name ty s) = Some s" if "s \<in> entered b" for s
    using inv_cells [OF inv] that mget_None_iff [of "sb_byType b" s] by (cases "mget (sb_byType b) s") (auto simp: cells_ok_def entered_def)
  have "inj_on (ty_Name ty) (set (sb_orderedBinds b))"
    by (rule inj_onI) (metis assms byName complete_done option.inject)
  then show "distinct (map mp_Name (fl_MessageType (file_of b services)))"
    using inv by (simp add: file_of_def msgs comp_def name distinct_map schema_inv_def)
  assume "m \<in> set (fl_MessageType (file_of b services))"
  then obtain s where s: "s \<in> set (sb_orderedBinds b)" and m: "m = finalizeOptional (message_of uni ty b s)" by (auto simp: file_of_def msgs)
  have fin: "finished uni ty b s" using inv s by (simp add: schema_inv_def)
  have "oneofs_ok m" by (rule finalized_fields(3) [OF m [symmetric]]) (auto simp: message_of_def proto_of_def)
  moreover have "reference_ok (file_of b services) f'" if f': "f' \<in> set (mp_Field m)" for f'
  proof -
    obtain fb where fb: "fb \<in> set (fields_in b s)" and f: "f'\<lparr>fp_OneofIndex := None\<rparr> = (proto_of uni ty (sb_pkg b) fb)\<lparr>fp_OneofIndex := None\<rparr>"
      using finalized_fields(2) [OF m [symmetric] f'] by (auto simp: message_of_def)
    have "fp_TypeName f' = fp_TypeName (f'\<lparr>fp_OneofIndex := None\<rparr>)" "fp_Type f' = fp_Type (f'\<lparr>fp_OneofIndex := None\<rparr>)" by simp_all
    then have tn: "fp_TypeName f' = (if fb_isTime fb then Some timestampMessage else map_option (\<lambda>s. ''.'' @ sb_pkg b @ ''.'' @ ty_Name ty s) (fb_nested fb))"
        and t: "fp_Type f' = kindToType (fb_kind fb)" unfolding f by (simp_all add: proto_of_def)
    obtain x where "derived_from uni fb x" using fin fb unfolding finished_def by (metis list_all2_conv_all_nth in_set_conv_nth)
    note kind = derived_kind_reference [OF this]
    have res: "resolved b fb" using fin fb by (simp add: finished_def)
    have type: "kindToType (fb_kind fb) = TYPE_MESSAGE \<longleftrightarrow> fb_kind fb = MessageKind" by (cases "fb_kind fb") simp_all
    have "\<exists>m \<in> set (fl_MessageType (file_of b services)). ''.'' @ sb_pkg b @ ''.'' @ ty_Name ty r = ''.'' @ fl_Package (file_of b services) @ ''.'' @ mp_Name m"
      if "fb_nested fb = Some r" for r
      using res that complete_done [OF assms, of r] name by (auto simp: resolved_def file_of_def msgs)
    then show ?thesis using res kind type unfolding reference_ok_def tn t
      by (auto simp: resolved_def file_of_def split: option.splits)
  qed
  ultimately show "oneofs_ok m \<and> (\<forall>f \<in> set (mp_Field m). reference_ok (file_of b services) f)" by blast
qed

section \<open>Deriving ends\<close>

fun out_of_fuel :: "schema_error \<Rightarrow> bool" where
  "out_of_fuel SchemaOutOfFuel = True"
| "out_of_fuel (InField _ _ e) = out_of_fuel e"
| "out_of_fuel _ = False"

definition closed_types :: "(string \<Rightarrow> string) \<Rightarrow> type_table \<Rightarrow> string set \<Rightarrow> bool" where
  "closed_types uni ty S \<longleftrightarrow>
     (\<forall>s \<in> S. \<forall>sf \<in> set (ty_Fields ty s). \<forall>i r. eligible sf \<longrightarrow> fb_nested (field_of uni i sf) = Some r \<longrightarrow> r \<in> S)"

definition ends_below :: "(string \<Rightarrow> string) \<Rightarrow> type_table \<Rightarrow> string set \<Rightarrow> nat \<Rightarrow> message_fn \<Rightarrow> bool" where
  "ends_below uni ty S k message \<longleftrightarrow>
     (\<forall>s b e. schema_inv uni ty b \<longrightarrow> card (S - entered b) < k \<longrightarrow> s \<in> S \<longrightarrow> message (GStruct s) b = Inl e \<longrightarrow> \<not> out_of_fuel e)"

lemma scalarOrMessage_ends:
  assumes "ends_below uni ty S k message" and "schema_inv uni ty b" and "card (S - entered b) < k"
    and "\<And>r. fb_nested (base_of t) = Some r \<Longrightarrow> r \<in> S" and "scalarOrMessage message t b = Inl e"
  shows "\<not> out_of_fuel e"
proof (cases "deref t")
  case (GStruct s)
  then have "s \<in> S" using assms(4) by (simp add: base_of_def Let_def)
  moreover have "message (GStruct s) b = Inl e" using assms(5) GStruct by (simp add: scalarOrMessage_def Let_def and_then_Inl_iff split: prod.splits)
  ultimately show ?thesis using assms(1-3) by (auto simp: ends_below_def)
qed (use assms(5) in \<open>auto simp: scalarOrMessage_def Let_def\<close>)

lemma schema_field_ends:
  assumes "ends_below uni ty S k message" and "schema_inv uni ty b" and "card (S - entered b) < k"
    and "\<And>r. fb_nested (field_of uni i sf) = Some r \<Longrightarrow> r \<in> S" and "schema_field uni message sf i next b = Inl e"
  shows "\<not> out_of_fuel e"
proof (cases "fieldNumber sf next")
  case (Inl e')
  then have "e' = e" using assms(5) by (simp add: schema_field_def)
  then show ?thesis using Inl by (auto simp: fieldNumber_def Let_def split: if_splits option.splits)
next
  case (Inr x)
  then obtain number next' where n: "fieldNumber sf next = Inr (number, next')" by (cases x) auto
  consider "pointee (sf_type sf) = GBytes" | el where "pointee (sf_type sf) = GSlice el"
    | "pointee (sf_type sf) \<noteq> GBytes" "\<forall>el. pointee (sf_type sf) \<noteq> GSlice el" by blast
  then show ?thesis
  proof cases
    case 1
    then show ?thesis using assms(5) n by (simp add: schema_field_def Let_def)
  next
    case (2 el)
    have "\<And>r. fb_nested (base_of el) = Some r \<Longrightarrow> r \<in> S" using assms(4) 2 by (simp add: field_of_def)
    from scalarOrMessage_ends [where e = e, OF assms(1-3) this] show ?thesis
      using assms(5) n 2 by (auto simp: schema_field_def Let_def and_then_Inl_iff split: if_splits prod.splits)
  next
    case 3
    have "\<And>r. fb_nested (base_of (pointee (sf_type sf))) = Some r \<Longrightarrow> r \<in> S"
      using assms(4) 3 by (cases "pointee (sf_type sf)") (auto simp: field_of_def Let_def)
    from scalarOrMessage_ends [where e = e, OF assms(1-3) this] show ?thesis
      using assms(5) n 3 by (cases "pointee (sf_type sf)") (auto simp: schema_field_def Let_def and_then_Inl_iff split: prod.splits)
  qed
qed

lemma card_entered_mono: "finite S \<Longrightarrow> entered b \<subseteq> entered b' \<Longrightarrow> card (S - entered b') \<le> card (S - entered b)"
  by (intro card_mono) auto

lemma message_fields_ends:
  assumes "finite S" and good: "good_message uni ty message" and "ends_below uni ty S k message"
    and "\<And>sf r i. sf \<in> set sfs \<Longrightarrow> eligible sf \<Longrightarrow> fb_nested (field_of uni i sf) = Some r \<Longrightarrow> r \<in> S"
    and "schema_inv uni ty b" and "card (S - entered b) < k" and "message_fields uni message owner i next sfs b = Inl e"
  shows "\<not> out_of_fuel e"
  using assms(4-)
proof (induction sfs arbitrary: i "next" b)
  case (Cons sf sfs)
  note closed = Cons.prems(1)
  have closed': "\<And>sf' r i. sf' \<in> set sfs \<Longrightarrow> eligible sf' \<Longrightarrow> fb_nested (field_of uni i sf') = Some r \<Longrightarrow> r \<in> S"
    using closed by (meson list.set_intros(2))
  show ?case
  proof (cases "eligible sf")
    case False
    then have "message_fields uni message owner (Suc i) next sfs b = Inl e" using Cons.prems(4) by (auto simp: eligible_def)
    from Cons.IH [OF closed' Cons.prems(2,3) this] show ?thesis .
  next
    case True
    show ?thesis
    proof (cases "schema_field uni message sf i next b")
      case (Inl e')
      then have "e = InField owner (sf_Name sf) e'" using Cons.prems(4) True by (auto simp: eligible_def)
      moreover have "\<not> out_of_fuel e'"
        by (rule schema_field_ends [OF assms(3) Cons.prems(2,3) _ Inl]) (rule closed [of sf], use True in auto)
      ultimately show ?thesis by simp
    next
      case (Inr x)
      then obtain b1 f next1 where f: "schema_field uni message sf i next b = Inr (b1, f, next1)" by (cases x) auto
      from schema_field_ok [OF good Cons.prems(2) f] have 1: "schema_inv uni ty b1" "entered b \<subseteq> entered b1" by (auto simp: grows_def)
      have "message_fields uni message owner (Suc i) next1 sfs b1 = Inl e"
        using Cons.prems(4) True f by (auto simp: eligible_def and_then_Inl_iff split: prod.splits)
      from Cons.IH [OF closed' 1(1) _ this] card_entered_mono [OF assms(1) 1(2)] Cons.prems(3) show ?thesis by simp
    qed
  qed
qed simp

text \<open>With as much fuel as there are struct types deriving ends, however the types refer to each other.\<close>

lemma schema_message_ends:
  assumes "finite S" and "closed_types uni ty S"
  shows "ends_below uni ty S n (schema_message uni ty n)"
proof (induction n)
  case (Suc n)
  show ?case unfolding ends_below_def
  proof (intro allI impI)
    fix s b e assume inv: "schema_inv uni ty b" and card: "card (S - entered b) < Suc n" and s: "s \<in> S" and run: "schema_message uni ty (Suc n) (GStruct s) b = Inl e"
    let ?q = "sb_pkg b @ ''.'' @ ty_Name ty s"
    show "\<not> out_of_fuel e"
    proof (cases "mget (sb_byType b) s")
      case None
      then have new: "s \<notin> entered b" by (simp add: entered_def mget_None_iff)
      define b1 where "b1 = b\<lparr>sb_byName := mput ?q s (sb_byName b), sb_byType := mput s \<lparr>mb_goType = s, mb_name = ?q, mb_fields = []\<rparr> (sb_byType b)\<rparr>"
      show ?thesis
      proof (cases "ty_Name ty s = [] \<or> (\<exists>p. mget (sb_byName b) ?q = Some p \<and> p \<noteq> s)")
        case True
        then show ?thesis using run None by (cases "ty_Name ty s = []") (auto simp: Let_def)
      next
        case False
        then have free: "\<And>p. mget (sb_byName b) ?q = Some p \<Longrightarrow> p = s" and named: "ty_Name ty s \<noteq> []" by auto
        have "schema_struct uni (schema_message uni ty n) ty s ?q b = Inl e"
          using run None free named by (auto simp: Let_def split: option.splits if_splits)
        then consider "e = NoUsableFields s" | "message_fields uni (schema_message uni ty n) (ty_Name ty s) 0 1 (ty_Fields ty s) b1 = Inl e"
          by (auto simp: schema_struct_def Let_def b1_def and_then_Inl_iff split: if_splits prod.splits)
        then show ?thesis
        proof cases
          case 2
          have i1: "schema_inv uni ty b1" unfolding b1_def by (rule enter_inv [OF inv new named free refl])
          have "S - entered b1 = (S - entered b) - {s}" by (auto simp: b1_def entered_def)
          moreover have "card (S - entered b - {s}) < card (S - entered b)" by (rule card_Diff1_less) (use assms(1) s new in auto)
          ultimately have "card (S - entered b1) < n" using card by simp
          from message_fields_ends [OF assms(1) schema_message_good Suc _ i1 this 2] assms(2) s show ?thesis
            by (auto simp: closed_types_def)
        qed simp
      qed
    qed (use run in simp)
  qed
qed (simp add: ends_below_def)

section \<open>Names and numbers\<close>

text \<open>The check of identifiers accepts exactly those of protobuf.\<close>

lemma validateIdentifier_iff:
  "validateIdentifier s what = None \<longleftrightarrow> (\<exists>c cs. s = c # cs \<and> \<not> is_digit c) \<and> (\<forall>c \<in> set s. name_char c)"
  by (cases s) (auto simp: validateIdentifier_def find_None_iff name_char_def is_digit_def in_range_def less_eq_char_def)

lemma name_char_ascii: "name_char c \<Longrightarrow> of_char c < (128 :: nat)"
  by (auto simp: name_char_def in_range_def is_digit_def less_eq_char_def)

lemma lower_upper: "is_upper c \<Longrightarrow> is_lower (lower_char c)"
  by (auto simp: is_upper_def is_lower_def lower_char_def in_range_def less_eq_char_def)

lemma snake_loop_chars: "c \<in> set (snake_loop prev s) \<Longrightarrow> \<not> is_upper c \<and> (c = CHR ''_'' \<or> is_lower c \<or> c \<in> set s)"
proof (induction prev s rule: snake_loop.induct)
  case (2 prev r rs)
  have low: "is_lower x \<Longrightarrow> \<not> is_upper x" for x by (auto simp: is_lower_def is_upper_def in_range_def less_eq_char_def)
  have us: "\<not> is_upper CHR ''_''" by (simp add: is_upper_def in_range_def less_eq_char_def)
  show ?case using 2 by (auto simp: low us lower_upper split: if_splits option.splits)
qed simp

text \<open>The name of a field in snake case is an identifier without capitals.\<close>

lemma snakeCase_identifier:
  assumes "validateIdentifier s what = None"
  shows "validateIdentifier (snakeCase uni s) what = None \<and> (\<forall>c \<in> set (snakeCase uni s). \<not> is_upper c)"
proof -
  obtain c cs where s: "s = c # cs" "\<not> is_digit c" "\<forall>c \<in> set s. name_char c" using assms by (auto simp: validateIdentifier_iff)
  have "is_ascii s" using s(3) name_char_ascii by (auto simp: is_ascii_def list_all_iff)
  then have e: "snakeCase uni s = (if is_upper c then lower_char c else c) # snake_loop (Some c) cs" by (simp add: snakeCase_def s(1))
  have "set (snakeCase uni s) \<subseteq> set (snake_loop None s)" using \<open>is_ascii s\<close> by (simp add: snakeCase_def)
  then have all: "\<not> is_upper x \<and> name_char x" if "x \<in> set (snakeCase uni s)" for x
    using snake_loop_chars [of x None s] that s(3) by (auto simp: name_char_def is_lower_def)
  have "\<not> is_digit (if is_upper c then lower_char c else c)"
  proof -
    have "is_lower x \<Longrightarrow> \<not> is_digit x" for x by (auto simp: is_lower_def is_digit_def in_range_def less_eq_char_def)
    then show ?thesis using s(2) lower_upper [of c] by (cases "is_upper c") simp_all
  qed
  then have "\<exists>c cs. snakeCase uni s = c # cs \<and> \<not> is_digit c" unfolding e by blast
  then show ?thesis unfolding validateIdentifier_iff using all by blast
qed

text \<open>A number that is pinned is one protobuf admits; one that is counted need not be.\<close>

lemma pinned_number_ok:
  "sf_protobuf sf \<noteq> [] \<Longrightarrow> fieldNumber sf next = Inr (number, next') \<Longrightarrow>
     1 \<le> number \<and> number \<le> 536870911 \<and> \<not> (19000 \<le> number \<and> number \<le> 19999) \<and> number < next' \<and> next \<le> next'"
  by (auto simp: fieldNumber_def Let_def split: option.splits if_splits)

lemma counted_number_reserved: "sf_protobuf sf = [] \<Longrightarrow> fieldNumber sf 19000 = Inr (19000, 19001)"
  by (simp add: fieldNumber_def)

text \<open>The number of a tag is cut to 32 bits before it is compared with the bounds.\<close>

lemma pinned_number_wraps:
  assumes "sf_protobuf sf = ''4294967297''"
  shows "fieldNumber sf 1 = Inr (1, 2)"
proof -
  have "plain_char CHR ''4''" "plain_char CHR ''7''" by code_simp+
  then have "TrimSpace ''4294967297'' = ''4294967297''" by (intro TrimSpace_plain) simp
  moreover have "ParseInt ''4294967297'' = Some 4294967297" by (simp add: ParseInt_def is_digit_def in_range_def less_eq_char_def)
  ultimately show ?thesis using assms by (simp add: fieldNumber_def int32_of_def)
qed

text \<open>A last dot of a package goes unnoticed.\<close>

lemma trailing_dot_accepted: "validatePackage ''my.api.'' = None"
  by code_simp

lemma inner_dot_refused: "validatePackage ''my..api'' = Some (EmptySegment ''my..api'')"
  by code_simp

end
