(* ===== verification/Grpc_Value.thy ===== *)
theory Grpc_Value
  imports Grpc_Schema
begin

text \<open>
  The conversion between Go structs and protobuf messages along the derived bindings (\<^verbatim>\<open>common/grpcapi/value.go\<close>). A Go value carries the width of its
  type where \<^verbatim>\<open>reflect\<close> looks at it; \<open>None\<close> in place of a value is the invalid value of \<^verbatim>\<open>reflect\<close>, and a call that \<^verbatim>\<open>reflect\<close>
  refuses by a panic is an error of its own. The runtime gives the zero value of a type, the text of a value that is no string, the arithmetic of floats,
  and for a struct the field numbers of the descriptor of its message. A message holds the fields that are set; a field of
  a message has a value of the kind of its descriptor.
\<close>

section \<open>Values\<close>

datatype 'f gval =
    VString string
  | VBool bool
  | VInt nat int
  | VUint nat int
  | VFloat bool 'f
  | VBytes "string option"
  | VTime int int string
  | VStruct "'f gval list"
  | VPtr "'f gval option"
  | VSlice "'f gval list option"
  | VOther

datatype 'f pval =
    PString string
  | PBool bool
  | PInt int
  | PUint int
  | PFloat 'f
  | PBytes string
  | PMsg "(int \<times> 'f pval) list"
  | PList "'f pval list"

type_synonym 'f pmsg = "(int, 'f pval) gomap"

record 'f value_rt =
  vr_narrow :: "'f \<Rightarrow> 'f"
  vr_fzero :: "'f \<Rightarrow> bool"
  vr_f0 :: 'f
  vr_Zero :: "gtype \<Rightarrow> 'f gval"
  vr_String :: "'f gval option \<Rightarrow> string"
  vr_Numbers :: "string \<Rightarrow> int list"

datatype value_error =
    NilValue string
  | NoDescriptor string int
  | AtField string string value_error
  | AtElement string string nat value_error
  | ExpectedTime
  | UnsupportedKind proto_kind
  | NotStruct string
  | OverflowsInt int
  | OverflowsUint int
  | ValuePanic
  | ValueOutOfFuel

fun Indirect :: "'f gval option \<Rightarrow> 'f gval option" where
  "Indirect (Some (VPtr x)) = x"
| "Indirect v = v"

definition binding_name :: "builder \<Rightarrow> string \<Rightarrow> string" where
  "binding_name b s = (case mget (sb_byType b) s of Some m \<Rightarrow> mb_name m | None \<Rightarrow> [])"

section \<open>Encoding\<close>

fun isZero :: "'f value_rt \<Rightarrow> 'f gval \<Rightarrow> bool" where
  "isZero rt (VString s) = (s = [])"
| "isZero rt (VBool x) = (\<not> x)"
| "isZero rt (VInt w i) = (i = 0)"
| "isZero rt (VUint w i) = (i = 0)"
| "isZero rt (VFloat w x) = vr_fzero rt x"
| "isZero rt (VBytes x) = (x = None \<or> x = Some [])"
| "isZero rt (VSlice x) = (x = None \<or> x = Some [])"
| "isZero rt (VPtr x) = (x = None)"
| "isZero rt _ = False"

type_synonym 'f encode_fn = "string \<Rightarrow> 'f gval option \<Rightarrow> (value_error, 'f pmsg) result"

definition scalarToProto :: "'f value_rt \<Rightarrow> 'f encode_fn \<Rightarrow> field_binding \<Rightarrow> 'f gval option \<Rightarrow> (value_error, 'f pval) result" where
  "scalarToProto rt encode f goValue =
     (let v = Indirect goValue
      in if fb_isTime f then
           (case v of
              None \<Rightarrow> Inl ValuePanic
            | Some (VTime seconds nanos loc) \<Rightarrow> Inr (PMsg [(1, PInt seconds), (2, PInt (int32_of nanos))])
            | Some _ \<Rightarrow> Inl ExpectedTime)
         else if fb_isBytes f then (case v of Some (VBytes raw) \<Rightarrow> Inr (PBytes (case raw of Some s \<Rightarrow> s | None \<Rightarrow> [])) | _ \<Rightarrow> Inl ValuePanic)
         else (case fb_nested f of
             Some r \<Rightarrow> and_then (encode r v) (\<lambda>m. Inr (PMsg m))
           | None \<Rightarrow>
               (case fb_kind f of
                  StringKind \<Rightarrow> Inr (PString (case v of Some (VString s) \<Rightarrow> s | _ \<Rightarrow> vr_String rt v))
                | BoolKind \<Rightarrow> (case v of Some (VBool x) \<Rightarrow> Inr (PBool x) | _ \<Rightarrow> Inl ValuePanic)
                | Int32Kind \<Rightarrow> (case v of Some (VInt w i) \<Rightarrow> Inr (PInt (int32_of i)) | _ \<Rightarrow> Inl ValuePanic)
                | Int64Kind \<Rightarrow> (case v of Some (VInt w i) \<Rightarrow> Inr (PInt i) | _ \<Rightarrow> Inl ValuePanic)
                | Uint32Kind \<Rightarrow> (case v of Some (VUint w i) \<Rightarrow> Inr (PUint (i mod 2 ^ 32)) | _ \<Rightarrow> Inl ValuePanic)
                | Uint64Kind \<Rightarrow> (case v of Some (VUint w i) \<Rightarrow> Inr (PUint i) | _ \<Rightarrow> Inl ValuePanic)
                | FloatKind \<Rightarrow> (case v of Some (VFloat w x) \<Rightarrow> Inr (PFloat (vr_narrow rt x)) | _ \<Rightarrow> Inl ValuePanic)
                | DoubleKind \<Rightarrow> (case v of Some (VFloat w x) \<Rightarrow> Inr (PFloat x) | _ \<Rightarrow> Inl ValuePanic)
                | k \<Rightarrow> Inl (UnsupportedKind k))))"

fun to_list :: "'f value_rt \<Rightarrow> 'f encode_fn \<Rightarrow> string \<Rightarrow> field_binding \<Rightarrow> nat \<Rightarrow> 'f gval list \<Rightarrow> (value_error, 'f pval list) result" where
  "to_list rt encode nm f i [] = Inr []"
| "to_list rt encode nm f i (v # vs) =
     (case scalarToProto rt encode f (Some v) of
        Inl e \<Rightarrow> Inl (AtElement nm (fb_name f) i e)
      | Inr p \<Rightarrow> and_then (to_list rt encode nm f (Suc i) vs) (\<lambda>ps. Inr (p # ps)))"

text \<open>The value a field is set to, if it is.\<close>

definition to_present :: "'f value_rt \<Rightarrow> 'f encode_fn \<Rightarrow> string \<Rightarrow> int list \<Rightarrow> field_binding \<Rightarrow> 'f gval \<Rightarrow> (value_error, 'f pval option) result" where
  "to_present rt encode nm numbers f v =
     (if fb_number f \<notin> set numbers then Inl (NoDescriptor nm (fb_number f))
      else if fb_repeated f then
        (case v of
           VSlice None \<Rightarrow> Inr None
         | VSlice (Some vs) \<Rightarrow> if length vs = 0 then Inr None else and_then (to_list rt encode nm f 0 vs) (\<lambda>ps. Inr (Some (PList ps)))
         | _ \<Rightarrow> Inl ValuePanic)
      else if \<not> fb_optional f \<and> isZero rt v \<and> fb_nested f = None \<and> \<not> fb_isTime f then Inr None
      else (case scalarToProto rt encode f (Some v) of
          Inl e \<Rightarrow> Inl (AtField nm (fb_name f) e)
        | Inr p \<Rightarrow> Inr (Some p)))"

definition to_field :: "'f value_rt \<Rightarrow> 'f encode_fn \<Rightarrow> string \<Rightarrow> int list \<Rightarrow> field_binding \<Rightarrow> 'f gval \<Rightarrow> (value_error, 'f pval option) result" where
  "to_field rt encode nm numbers f goValue =
     (if fb_optional f then
        (case goValue of
           VPtr None \<Rightarrow> Inr None
         | VPtr (Some v) \<Rightarrow> to_present rt encode nm numbers f v
         | _ \<Rightarrow> Inl ValuePanic)
      else to_present rt encode nm numbers f goValue)"

fun to_fields :: "'f value_rt \<Rightarrow> 'f encode_fn \<Rightarrow> string \<Rightarrow> int list \<Rightarrow> field_binding list \<Rightarrow> 'f gval list \<Rightarrow> 'f pmsg \<Rightarrow> (value_error, 'f pmsg) result" where
  "to_fields rt encode nm numbers [] src dst = Inr dst"
| "to_fields rt encode nm numbers (f # fs) src dst =
     (if fb_goIndex f \<ge> length src then Inl ValuePanic
      else and_then (to_field rt encode nm numbers f (src ! fb_goIndex f)) (\<lambda>p.
        to_fields rt encode nm numbers fs src (case p of None \<Rightarrow> dst | Some p \<Rightarrow> mput (fb_number f) p dst)))"

text \<open>Each unit of fuel is a message that is entered.\<close>

fun toDynamic :: "'f value_rt \<Rightarrow> builder \<Rightarrow> nat \<Rightarrow> 'f encode_fn" where
  "toDynamic rt b 0 s src = Inl ValueOutOfFuel"
| "toDynamic rt b (Suc n) s src =
     (case Indirect src of
        None \<Rightarrow> Inl (NilValue (binding_name b s))
      | Some (VStruct vs) \<Rightarrow> to_fields rt (toDynamic rt b n) (binding_name b s) (vr_Numbers rt s) (fields_in b s) vs []
      | Some _ \<Rightarrow> Inl ValuePanic)"

section \<open>Decoding\<close>

type_synonym 'f decode_fn = "string \<Rightarrow> 'f pmsg \<Rightarrow> 'f gval \<Rightarrow> (value_error, 'f gval) result"

definition time_Unix :: "int \<Rightarrow> int \<Rightarrow> 'f gval" where
  "time_Unix seconds nanos = VTime (wrap64 (seconds + nanos div 1000000000)) (nanos mod 1000000000) ''UTC''"

definition get_int :: "'f pmsg \<Rightarrow> int \<Rightarrow> int" where
  "get_int m n = (case mget m n of Some (PInt i) \<Rightarrow> i | _ \<Rightarrow> 0)"

definition scalarFromProto :: "'f value_rt \<Rightarrow> 'f decode_fn \<Rightarrow> field_binding \<Rightarrow> 'f pval \<Rightarrow> 'f gval \<Rightarrow> (value_error, 'f gval) result" where
  "scalarFromProto rt decode f p target =
     (if fb_isTime f then
        (case (p, target) of
           (PMsg m, VTime _ _ _) \<Rightarrow> Inr (time_Unix (get_int m 1) (get_int m 2))
         | _ \<Rightarrow> Inl ValuePanic)
      else if fb_isBytes f then (case (p, target) of (PBytes raw, VBytes _) \<Rightarrow> Inr (VBytes (Some raw)) | _ \<Rightarrow> Inl ValuePanic)
      else (case fb_nested f of
          Some r \<Rightarrow>
            (case (p, target) of
               (PMsg m, VPtr _) \<Rightarrow> and_then (decode r m (vr_Zero rt (pointee (fb_goType f)))) (\<lambda>v. Inr (VPtr (Some v)))
             | (PMsg m, _) \<Rightarrow> decode r m target
             | _ \<Rightarrow> Inl ValuePanic)
        | None \<Rightarrow>
            (case fb_kind f of
               StringKind \<Rightarrow> (case (p, target) of (PString s, VString _) \<Rightarrow> Inr (VString s) | _ \<Rightarrow> Inl ValuePanic)
             | BoolKind \<Rightarrow> (case (p, target) of (PBool x, VBool _) \<Rightarrow> Inr (VBool x) | _ \<Rightarrow> Inl ValuePanic)
             | InvalidKind \<Rightarrow> Inl (UnsupportedKind InvalidKind)
             | BytesKind \<Rightarrow> Inl (UnsupportedKind BytesKind)
             | MessageKind \<Rightarrow> Inl (UnsupportedKind MessageKind)
             | _ \<Rightarrow>
                 (case (p, target) of
                    (PInt i, VInt w _) \<Rightarrow> if i < - (2 ^ (w - 1)) \<or> i \<ge> 2 ^ (w - 1) then Inl (OverflowsInt i) else Inr (VInt w i)
                  | (PUint i, VUint w _) \<Rightarrow> if i \<ge> 2 ^ w then Inl (OverflowsUint i) else Inr (VUint w i)
                  | (PFloat x, VFloat w _) \<Rightarrow> Inr (VFloat w (if w then vr_narrow rt x else x))
                  | _ \<Rightarrow> Inl ValuePanic))))"

fun from_list :: "'f value_rt \<Rightarrow> 'f decode_fn \<Rightarrow> string \<Rightarrow> field_binding \<Rightarrow> nat \<Rightarrow> 'f pval list \<Rightarrow> (value_error, 'f gval list) result" where
  "from_list rt decode nm f i [] = Inr []"
| "from_list rt decode nm f i (p # ps) =
     (case scalarFromProto rt decode f p (vr_Zero rt (fb_goType f)) of
        Inl e \<Rightarrow> Inl (AtElement nm (fb_name f) i e)
      | Inr v \<Rightarrow> and_then (from_list rt decode nm f (Suc i) ps) (\<lambda>vs. Inr (v # vs)))"

text \<open>\<^verbatim>\<open>Get\<close> of a field that is not set.\<close>

definition default_of :: "'f value_rt \<Rightarrow> field_binding \<Rightarrow> 'f pval" where
  "default_of rt f =
     (case fb_kind f of
        StringKind \<Rightarrow> PString []
      | BoolKind \<Rightarrow> PBool False
      | Int32Kind \<Rightarrow> PInt 0
      | Int64Kind \<Rightarrow> PInt 0
      | Uint32Kind \<Rightarrow> PUint 0
      | Uint64Kind \<Rightarrow> PUint 0
      | FloatKind \<Rightarrow> PFloat (vr_f0 rt)
      | DoubleKind \<Rightarrow> PFloat (vr_f0 rt)
      | BytesKind \<Rightarrow> PBytes []
      | _ \<Rightarrow> PMsg [])"

text \<open>What a field is set to, if it is; \<open>target\<close> is the field as it stands.\<close>

definition from_field :: "'f value_rt \<Rightarrow> 'f decode_fn \<Rightarrow> string \<Rightarrow> field_binding \<Rightarrow> 'f pmsg \<Rightarrow> 'f gval \<Rightarrow> (value_error, 'f gval option) result" where
  "from_field rt decode nm f src target =
     (let got = mget src (fb_number f)
      in if fb_repeated f then
           (case got of
              None \<Rightarrow> Inr None
            | Some (PList []) \<Rightarrow> Inr None
            | Some (PList ps) \<Rightarrow> and_then (from_list rt decode nm f 0 ps) (\<lambda>vs. Inr (Some (VSlice (Some vs))))
            | Some _ \<Rightarrow> Inl ValuePanic)
         else if fb_optional f \<and> got = None then Inr None
         else (case scalarFromProto rt decode f (case got of Some p \<Rightarrow> p | None \<Rightarrow> default_of rt f)
                 (if fb_optional f then vr_Zero rt (fb_goType f) else target) of
             Inl e \<Rightarrow> Inl (AtField nm (fb_name f) e)
           | Inr v \<Rightarrow> Inr (Some (if fb_optional f then VPtr (Some v) else v))))"

fun from_fields :: "'f value_rt \<Rightarrow> 'f decode_fn \<Rightarrow> string \<Rightarrow> int list \<Rightarrow> field_binding list \<Rightarrow> 'f pmsg \<Rightarrow> 'f gval list \<Rightarrow> (value_error, 'f gval list) result" where
  "from_fields rt decode nm numbers [] src dst = Inr dst"
| "from_fields rt decode nm numbers (f # fs) src dst =
     (if fb_number f \<notin> set numbers then from_fields rt decode nm numbers fs src dst
      else if fb_goIndex f \<ge> length dst then Inl ValuePanic
      else and_then (from_field rt decode nm f src (dst ! fb_goIndex f)) (\<lambda>v.
        from_fields rt decode nm numbers fs src (case v of None \<Rightarrow> dst | Some v \<Rightarrow> dst[fb_goIndex f := v])))"

fun fromDynamic :: "'f value_rt \<Rightarrow> builder \<Rightarrow> nat \<Rightarrow> 'f decode_fn" where
  "fromDynamic rt b 0 s src dst = Inl ValueOutOfFuel"
| "fromDynamic rt b (Suc n) s src dst =
     (case dst of
        VStruct vs \<Rightarrow> and_then (from_fields rt (fromDynamic rt b n) (binding_name b s) (vr_Numbers rt s) (fields_in b s) src vs) (\<lambda>vs. Inr (VStruct vs))
      | VPtr (Some (VStruct vs)) \<Rightarrow>
          and_then (from_fields rt (fromDynamic rt b n) (binding_name b s) (vr_Numbers rt s) (fields_in b s) src vs) (\<lambda>vs. Inr (VPtr (Some (VStruct vs))))
      | _ \<Rightarrow> Inl (NotStruct (binding_name b s)))"

section \<open>Values of a type, and what arrives of them\<close>

inductive has_type :: "'f value_rt \<Rightarrow> type_table \<Rightarrow> gtype \<Rightarrow> 'f gval \<Rightarrow> bool" for rt :: "'f value_rt" and ty :: type_table where
  "has_type rt ty GString (VString s)"
| "has_type rt ty GBool (VBool x)"
| "- (2 ^ (w - 1)) \<le> i \<Longrightarrow> i < 2 ^ (w - 1) \<Longrightarrow> has_type rt ty (GInt w) (VInt w i)"
| "0 \<le> i \<Longrightarrow> i < 2 ^ w \<Longrightarrow> has_type rt ty (GUint w) (VUint w i)"
| "vr_narrow rt x = x \<Longrightarrow> has_type rt ty GFloat32 (VFloat True x)"
| "has_type rt ty GFloat64 (VFloat False x)"
| "has_type rt ty GBytes (VBytes raw)"
| "- (2 ^ 63) \<le> seconds \<Longrightarrow> seconds < 2 ^ 63 \<Longrightarrow> 0 \<le> nanos \<Longrightarrow> nanos < 1000000000 \<Longrightarrow> has_type rt ty GTime (VTime seconds nanos loc)"
| "list_all2 (\<lambda>sf v. has_type rt ty (sf_type sf) v) (ty_Fields ty s) vs \<Longrightarrow> has_type rt ty (GStruct s) (VStruct vs)"
| "has_type rt ty (GPtr t) (VPtr None)"
| "has_type rt ty t v \<Longrightarrow> has_type rt ty (GPtr t) (VPtr (Some v))"
| "has_type rt ty (GSlice t) (VSlice None)"
| "list_all (has_type rt ty t) vs \<Longrightarrow> has_type rt ty (GSlice t) (VSlice (Some vs))"
| "has_type rt ty GMap VOther"
| "has_type rt ty GInterface VOther"
| "has_type rt ty (GOther n) VOther"
monos list.pred_mono

inductive_cases has_typeE:
  "has_type rt ty GString v" "has_type rt ty GBool v" "has_type rt ty (GInt w) v" "has_type rt ty (GUint w) v" "has_type rt ty GFloat32 v"
  "has_type rt ty GFloat64 v" "has_type rt ty GBytes v" "has_type rt ty GTime v" "has_type rt ty (GStruct s) v" "has_type rt ty (GPtr t) v"
  "has_type rt ty (GSlice t) v"

text \<open>
  What the other side has for a value: an instant in UTC, no nil slice of bytes, no empty slice, a positive zero, and in a struct
  the zero value where a field is not part of the message.
\<close>

inductive arrives :: "'f value_rt \<Rightarrow> type_table \<Rightarrow> gtype \<Rightarrow> 'f gval \<Rightarrow> 'f gval \<Rightarrow> bool" for rt :: "'f value_rt" and ty :: type_table where
  "arrives rt ty GString (VString s) (VString s)"
| "arrives rt ty GBool (VBool x) (VBool x)"
| "arrives rt ty (GInt w) (VInt w i) (VInt w i)"
| "arrives rt ty (GUint w) (VUint w i) (VUint w i)"
| "y = x \<or> vr_fzero rt x \<and> y = vr_f0 rt \<Longrightarrow> arrives rt ty GFloat32 (VFloat True x) (VFloat True y)"
| "y = x \<or> vr_fzero rt x \<and> y = vr_f0 rt \<Longrightarrow> arrives rt ty GFloat64 (VFloat False x) (VFloat False y)"
| "arrives rt ty GBytes (VBytes raw) (VBytes (Some (case raw of Some s \<Rightarrow> s | None \<Rightarrow> [])))"
| "arrives rt ty GTime (VTime seconds nanos loc) (VTime seconds nanos ''UTC'')"
| "length vs = length (ty_Fields ty s) \<Longrightarrow> length ws = length (ty_Fields ty s) \<Longrightarrow>
     (\<And>i. i < length (ty_Fields ty s) \<Longrightarrow>
        if eligible (ty_Fields ty s ! i) then arrives rt ty (sf_type (ty_Fields ty s ! i)) (vs ! i) (ws ! i)
        else ws ! i = vr_Zero rt (sf_type (ty_Fields ty s ! i))) \<Longrightarrow>
     arrives rt ty (GStruct s) (VStruct vs) (VStruct ws)"
| "arrives rt ty (GPtr t) (VPtr None) (VPtr None)"
| "arrives rt ty t v w \<Longrightarrow> arrives rt ty (GPtr t) (VPtr (Some v)) (VPtr (Some w))"
| "xs = None \<or> xs = Some [] \<Longrightarrow> arrives rt ty (GSlice t) (VSlice xs) (VSlice None)"
| "vs \<noteq> [] \<Longrightarrow> list_all2 (arrives rt ty t) vs ws \<Longrightarrow> arrives rt ty (GSlice t) (VSlice (Some vs)) (VSlice (Some ws))"

lemmas arrives_base [simp] = arrives.intros(1-4, 7, 8, 10)

lemma arrives_floats [simp]:
  "arrives rt ty GFloat32 (VFloat True x) (VFloat True x)" "arrives rt ty GFloat64 (VFloat False x) (VFloat False x)"
  "vr_fzero rt x \<Longrightarrow> arrives rt ty GFloat32 (VFloat True x) (VFloat True (vr_f0 rt))"
  "vr_fzero rt x \<Longrightarrow> arrives rt ty GFloat64 (VFloat False x) (VFloat False (vr_f0 rt))"
  by (auto intro: arrives.intros)

lemma arrives_bytes [simp]:
  "arrives rt ty GBytes (VBytes None) (VBytes (Some []))" "arrives rt ty GBytes (VBytes (Some s)) (VBytes (Some s))"
  using arrives.intros(7) [where raw = None] arrives.intros(7) [where raw = "Some s"] by simp_all

text \<open>The types of fields that can be decoded.\<close>

definition base_ok :: "gtype \<Rightarrow> bool" where
  "base_ok t \<longleftrightarrow> t \<in> {GString, GBool, GFloat32, GFloat64, GTime, GBytes} \<or> (\<exists>w \<in> {8, 16, 32, 64}. t = GInt w \<or> t = GUint w) \<or> (\<exists>s. t = GStruct s)"

definition field_ok :: "gtype \<Rightarrow> bool" where
  "field_ok t \<longleftrightarrow> base_ok t \<or> (\<exists>u. t = GPtr u \<and> base_ok u \<and> u \<noteq> GBytes) \<or> (\<exists>u. t = GSlice u \<and> (base_ok u \<or> (\<exists>s. u = GPtr (GStruct s))))"

definition zero_ok :: "'f value_rt \<Rightarrow> type_table \<Rightarrow> bool" where
  "zero_ok rt ty \<longleftrightarrow>
     vr_Zero rt GString = VString [] \<and> vr_Zero rt GBool = VBool False \<and> (\<forall>w. vr_Zero rt (GInt w) = VInt w 0 \<and> vr_Zero rt (GUint w) = VUint w 0) \<and>
     vr_Zero rt GFloat32 = VFloat True (vr_f0 rt) \<and> vr_Zero rt GFloat64 = VFloat False (vr_f0 rt) \<and> vr_narrow rt (vr_f0 rt) = vr_f0 rt \<and>
     vr_Zero rt GBytes = VBytes None \<and> vr_Zero rt GTime = VTime (- 62135596800) 0 ''UTC'' \<and>
     (\<forall>s. vr_Zero rt (GStruct s) = VStruct (map (\<lambda>sf. vr_Zero rt (sf_type sf)) (ty_Fields ty s))) \<and>
     (\<forall>t. vr_Zero rt (GPtr t) = VPtr None \<and> vr_Zero rt (GSlice t) = VSlice None)"

lemma zero_simps:
  assumes "zero_ok rt ty"
  shows "vr_Zero rt GString = VString []" "vr_Zero rt GBool = VBool False" "vr_Zero rt (GInt w) = VInt w 0" "vr_Zero rt (GUint w) = VUint w 0"
    "vr_Zero rt GFloat32 = VFloat True (vr_f0 rt)" "vr_Zero rt GFloat64 = VFloat False (vr_f0 rt)" "vr_narrow rt (vr_f0 rt) = vr_f0 rt"
    "vr_Zero rt GBytes = VBytes None" "vr_Zero rt GTime = VTime (- 62135596800) 0 ''UTC''"
    "vr_Zero rt (GStruct s) = VStruct (map (\<lambda>sf. vr_Zero rt (sf_type sf)) (ty_Fields ty s))" "vr_Zero rt (GPtr t) = VPtr None" "vr_Zero rt (GSlice t) = VSlice None"
  using assms by (simp_all add: zero_ok_def)

text \<open>A binding that treats a value as one of the type.\<close>

definition shaped :: "field_binding \<Rightarrow> gtype \<Rightarrow> bool" where
  "shaped f t \<longleftrightarrow> fb_kind f = fb_kind (base_of t) \<and> fb_isTime f = fb_isTime (base_of t) \<and> fb_isBytes f = fb_isBytes (base_of t) \<and> fb_nested f = fb_nested (base_of t)"

lemma shaped_simps:
  "shaped f GString \<longleftrightarrow> fb_kind f = StringKind \<and> \<not> fb_isTime f \<and> \<not> fb_isBytes f \<and> fb_nested f = None"
  "shaped f GBool \<longleftrightarrow> fb_kind f = BoolKind \<and> \<not> fb_isTime f \<and> \<not> fb_isBytes f \<and> fb_nested f = None"
  "shaped f (GInt w) \<longleftrightarrow> fb_kind f = (if w = 64 then Int64Kind else Int32Kind) \<and> \<not> fb_isTime f \<and> \<not> fb_isBytes f \<and> fb_nested f = None"
  "shaped f (GUint w) \<longleftrightarrow> fb_kind f = (if w = 64 then Uint64Kind else Uint32Kind) \<and> \<not> fb_isTime f \<and> \<not> fb_isBytes f \<and> fb_nested f = None"
  "shaped f GFloat32 \<longleftrightarrow> fb_kind f = FloatKind \<and> \<not> fb_isTime f \<and> \<not> fb_isBytes f \<and> fb_nested f = None"
  "shaped f GFloat64 \<longleftrightarrow> fb_kind f = DoubleKind \<and> \<not> fb_isTime f \<and> \<not> fb_isBytes f \<and> fb_nested f = None"
  "shaped f GTime \<longleftrightarrow> fb_kind f = MessageKind \<and> fb_isTime f \<and> \<not> fb_isBytes f \<and> fb_nested f = None"
  "shaped f GBytes \<longleftrightarrow> fb_kind f = BytesKind \<and> \<not> fb_isTime f \<and> fb_isBytes f \<and> fb_nested f = None"
  "shaped f (GStruct s) \<longleftrightarrow> fb_kind f = MessageKind \<and> \<not> fb_isTime f \<and> \<not> fb_isBytes f \<and> fb_nested f = Some s"
  "shaped f (GPtr t) \<longleftrightarrow> shaped f t"
  by (auto simp: shaped_def base_of_def Let_def no_binding_def)

text \<open>A derived field has the shape of the type it is bound to.\<close>

lemma field_of_shape:
  "base_ok (sf_type sf) \<Longrightarrow> shaped (field_of uni i sf) (sf_type sf) \<and> \<not> fb_optional (field_of uni i sf) \<and> \<not> fb_repeated (field_of uni i sf) \<and> fb_goType (field_of uni i sf) = sf_type sf"
  "sf_type sf = GPtr u \<Longrightarrow> base_ok u \<Longrightarrow> u \<noteq> GBytes \<Longrightarrow> shaped (field_of uni i sf) u \<and> fb_optional (field_of uni i sf) \<and> \<not> fb_repeated (field_of uni i sf) \<and> fb_goType (field_of uni i sf) = u"
  "sf_type sf = GSlice u \<Longrightarrow> shaped (field_of uni i sf) u \<and> \<not> fb_optional (field_of uni i sf) \<and> fb_repeated (field_of uni i sf) \<and> fb_goType (field_of uni i sf) = u"
proof -
  show "base_ok (sf_type sf) \<Longrightarrow> shaped (field_of uni i sf) (sf_type sf) \<and> \<not> fb_optional (field_of uni i sf) \<and> \<not> fb_repeated (field_of uni i sf) \<and> fb_goType (field_of uni i sf) = sf_type sf"
    by (cases "sf_type sf") (simp_all add: base_ok_def shaped_def field_of_def is_ptr_def pointee_def Let_def)
  show "sf_type sf = GPtr u \<Longrightarrow> base_ok u \<Longrightarrow> u \<noteq> GBytes \<Longrightarrow> shaped (field_of uni i sf) u \<and> fb_optional (field_of uni i sf) \<and> \<not> fb_repeated (field_of uni i sf) \<and> fb_goType (field_of uni i sf) = u"
    by (cases u) (simp_all add: base_ok_def shaped_def field_of_def is_ptr_def pointee_def Let_def)
  show "sf_type sf = GSlice u \<Longrightarrow> shaped (field_of uni i sf) u \<and> \<not> fb_optional (field_of uni i sf) \<and> fb_repeated (field_of uni i sf) \<and> fb_goType (field_of uni i sf) = u"
    by (simp add: shaped_def field_of_def is_ptr_def pointee_def Let_def)
qed

lemma derived_shape:
  assumes "derived_from uni f (i, sf)"
  shows "base_ok (sf_type sf) \<Longrightarrow> shaped f (sf_type sf) \<and> \<not> fb_optional f \<and> \<not> fb_repeated f \<and> fb_goType f = sf_type sf"
    and "sf_type sf = GPtr u \<Longrightarrow> base_ok u \<Longrightarrow> u \<noteq> GBytes \<Longrightarrow> shaped f u \<and> fb_optional f \<and> \<not> fb_repeated f \<and> fb_goType f = u"
    and "sf_type sf = GSlice u \<Longrightarrow> shaped f u \<and> \<not> fb_optional f \<and> fb_repeated f \<and> fb_goType f = u"
proof -
  have e: "shaped f t = shaped (field_of uni i sf) t" for t unfolding shaped_def derived_simps(4-7) [OF assms] by (rule refl)
  have o: "fb_optional f = fb_optional (field_of uni i sf)" by (simp only: derived_simps(3) [OF assms] field_of_simps(3))
  note eqs = e o derived_simps(8,9) [OF assms]
  show "base_ok (sf_type sf) \<Longrightarrow> shaped f (sf_type sf) \<and> \<not> fb_optional f \<and> \<not> fb_repeated f \<and> fb_goType f = sf_type sf"
    unfolding eqs by (rule field_of_shape(1))
  show "sf_type sf = GPtr u \<Longrightarrow> base_ok u \<Longrightarrow> u \<noteq> GBytes \<Longrightarrow> shaped f u \<and> fb_optional f \<and> \<not> fb_repeated f \<and> fb_goType f = u"
    unfolding eqs by (rule field_of_shape(2))
  show "sf_type sf = GSlice u \<Longrightarrow> shaped f u \<and> \<not> fb_optional f \<and> fb_repeated f \<and> fb_goType f = u"
    unfolding eqs by (rule field_of_shape(3))
qed

section \<open>The round trip of a field\<close>

text \<open>What a client of the encoder and decoder of nested messages relies on.\<close>

definition trips :: "'f value_rt \<Rightarrow> type_table \<Rightarrow> string set \<Rightarrow> 'f encode_fn \<Rightarrow> 'f decode_fn \<Rightarrow> bool" where
  "trips rt ty R encode decode \<longleftrightarrow>
     (\<forall>r \<in> R. \<forall>v m. has_type rt ty (GStruct r) v \<longrightarrow> encode r (Some v) = Inr m \<longrightarrow>
        (\<exists>w. decode r m (vr_Zero rt (GStruct r)) = Inr w \<and> arrives rt ty (GStruct r) v w)) \<and>
     (\<forall>r m. encode r None \<noteq> Inr m)"

lemma base_okE:
  assumes "base_ok u"
  obtains "u = GString" | "u = GBool" | w where "u = GInt w" "w \<in> {8, 16, 32, 64}" | w where "u = GUint w" "w \<in> {8, 16, 32, 64}"
    | "u = GFloat32" | "u = GFloat64" | "u = GTime" | "u = GBytes" | s where "u = GStruct s"
  using assms unfolding base_ok_def by auto

lemma int32_of_id: "- (2 ^ (w - 1)) \<le> i \<Longrightarrow> i < 2 ^ (w - 1) \<Longrightarrow> w \<in> {8, 16, 32} \<Longrightarrow> int32_of i = i"
  by (auto simp: int32_of_def)

lemma scalar_trip:
  assumes trips: "trips rt ty R encode decode" and z: "zero_ok rt ty" and base: "base_ok u" and v: "has_type rt ty u v" and sh: "shaped f u"
    and R: "\<And>r. fb_nested f = Some r \<Longrightarrow> r \<in> R" and p: "scalarToProto rt encode f (Some v) = Inr p"
  shows "\<exists>w. scalarFromProto rt decode f p (vr_Zero rt u) = Inr w \<and> arrives rt ty u v w"
  using base
proof (cases rule: base_okE)
  case 1
  then show ?thesis using v sh p by (auto simp: shaped_simps scalarToProto_def scalarFromProto_def zero_simps [OF z] elim!: has_typeE intro: arrives.intros)
next
  case 2
  then show ?thesis using v sh p by (auto simp: shaped_simps scalarToProto_def scalarFromProto_def zero_simps [OF z] elim!: has_typeE intro: arrives.intros)
next
  case (3 w)
  with v obtain i where i: "v = VInt w i" "- (2 ^ (w - 1)) \<le> i" "i < 2 ^ (w - 1)" by (auto elim: has_typeE)
  have "p = PInt i" using 3 sh p i int32_of_id [OF i(2,3)] by (auto simp: shaped_simps scalarToProto_def split: if_splits)
  then show ?thesis using 3 sh i by (auto simp: shaped_simps scalarFromProto_def zero_simps [OF z] intro: arrives.intros)
next
  case (4 w)
  with v obtain i where i: "v = VUint w i" "0 \<le> i" "i < 2 ^ w" by (auto elim: has_typeE)
  have "i mod 2 ^ 32 = i" if "w \<noteq> 64" using i 4(2) that by auto
  then have "p = PUint i" using 4 sh p i by (auto simp: shaped_simps scalarToProto_def split: if_splits)
  then show ?thesis using 4 sh i by (auto simp: shaped_simps scalarFromProto_def zero_simps [OF z] intro: arrives.intros)
next
  case 5
  then show ?thesis using v sh p by (auto simp: shaped_simps scalarToProto_def scalarFromProto_def zero_simps [OF z] elim!: has_typeE intro: arrives.intros)
next
  case 6
  then show ?thesis using v sh p by (auto simp: shaped_simps scalarToProto_def scalarFromProto_def zero_simps [OF z] elim!: has_typeE intro: arrives.intros)
next
  case 7
  then obtain sec ns loc where t: "v = VTime sec ns loc" "- (2 ^ 63) \<le> sec" "sec < 2 ^ 63" "0 \<le> ns" "ns < 1000000000" using v by (auto elim: has_typeE)
  have "int32_of ns = ns" using t by (simp add: int32_of_def)
  then have "p = PMsg [(1, PInt sec), (2, PInt ns)]" using 7 sh p t by (simp add: shaped_simps scalarToProto_def)
  then have "scalarFromProto rt decode f p (vr_Zero rt u) = Inr (VTime sec ns ''UTC'')"
    using 7 sh t by (simp add: shaped_simps scalarFromProto_def zero_simps [OF z] time_Unix_def get_int_def mget_def wrap64_small)
  then show ?thesis using 7 t by (auto intro: arrives.intros)
next
  case 8
  then show ?thesis using v sh p by (auto simp: shaped_simps scalarToProto_def scalarFromProto_def zero_simps [OF z] elim!: has_typeE intro: arrives.intros)
next
  case (9 r)
  then have f: "fb_nested f = Some r" "\<not> fb_isTime f" "\<not> fb_isBytes f" using sh by (simp_all add: shaped_simps)
  obtain vs where "v = VStruct vs" using v 9 by (auto elim: has_typeE)
  then obtain m where m: "encode r (Some v) = Inr m" "p = PMsg m" using p f by (auto simp: scalarToProto_def and_then_Inr_iff)
  have "r \<in> R" using R f by simp
  then obtain w where "decode r m (vr_Zero rt (GStruct r)) = Inr w" "arrives rt ty (GStruct r) v w"
    using trips v m 9 unfolding trips_def by blast
  then show ?thesis using f 9 m by (auto simp: scalarFromProto_def zero_simps [OF z])
qed

text \<open>An element that is a pointer to a struct.\<close>

lemma pointer_trip:
  assumes trips: "trips rt ty R encode decode" and z: "zero_ok rt ty" and v: "has_type rt ty (GPtr (GStruct r)) v" and sh: "shaped f (GStruct r)"
    and ty: "fb_goType f = GPtr (GStruct r)" and R: "r \<in> R" and p: "scalarToProto rt encode f (Some v) = Inr p"
  shows "\<exists>w. scalarFromProto rt decode f p (vr_Zero rt (GPtr (GStruct r))) = Inr w \<and> arrives rt ty (GPtr (GStruct r)) v w"
proof -
  have f: "fb_nested f = Some r" "\<not> fb_isTime f" "\<not> fb_isBytes f" using sh by (simp_all add: shaped_simps)
  have "v \<noteq> VPtr None" using p f trips by (auto simp: scalarToProto_def trips_def and_then_Inr_iff)
  then obtain v' where v': "v = VPtr (Some v')" "has_type rt ty (GStruct r) v'" using v by (auto elim: has_typeE)
  then obtain m where m: "encode r (Some v') = Inr m" "p = PMsg m" using p f by (auto simp: scalarToProto_def and_then_Inr_iff)
  obtain w where "decode r m (vr_Zero rt (GStruct r)) = Inr w" "arrives rt ty (GStruct r) v' w"
    using trips v' m R unfolding trips_def by blast
  then show ?thesis using f m v' ty by (auto simp: scalarFromProto_def zero_simps [OF z] pointee_def intro: arrives.intros)
qed

lemma list_trip:
  assumes one: "\<And>v p. v \<in> set vs \<Longrightarrow> scalarToProto rt encode f (Some v) = Inr p \<Longrightarrow>
      \<exists>w. scalarFromProto rt decode f p (vr_Zero rt (fb_goType f)) = Inr w \<and> arrives rt ty t v w"
    and "to_list rt encode nm f i vs = Inr ps"
  shows "\<exists>ws. from_list rt decode nm f i ps = Inr ws \<and> list_all2 (arrives rt ty t) vs ws \<and> length ps = length vs"
  using assms
proof (induction vs arbitrary: i ps)
  case (Cons v vs)
  from Cons.prems(2) obtain p ps' where p: "scalarToProto rt encode f (Some v) = Inr p" "to_list rt encode nm f (Suc i) vs = Inr ps'" "ps = p # ps'"
    by (auto simp: and_then_Inr_iff split: sum.splits)
  obtain w where w: "scalarFromProto rt decode f p (vr_Zero rt (fb_goType f)) = Inr w" "arrives rt ty t v w"
    using Cons.prems(1) [OF _ p(1)] by auto
  obtain ws where "from_list rt decode nm f (Suc i) ps' = Inr ws" "list_all2 (arrives rt ty t) vs ws" "length ps' = length vs"
    using Cons.IH [OF _ p(2)] Cons.prems(1) by (meson list.set_intros(2))
  then show ?case using w p by auto
qed simp

text \<open>A zero value that is left out.\<close>

lemma zero_trip:
  assumes z: "zero_ok rt ty" and base: "base_ok u" and v: "has_type rt ty u v" and sh: "shaped f u"
    and zero: "isZero rt v" "fb_nested f = None" "\<not> fb_isTime f"
  shows "\<exists>w. scalarFromProto rt decode f (default_of rt f) (vr_Zero rt u) = Inr w \<and> arrives rt ty u v w"
  using base
proof (cases rule: base_okE)
  case (3 w)
  then show ?thesis using v sh zero
    by (auto simp: shaped_simps default_of_def scalarFromProto_def zero_simps [OF z] elim!: has_typeE intro: arrives.intros)
next
  case (4 w)
  then show ?thesis using v sh zero
    by (auto simp: shaped_simps default_of_def scalarFromProto_def zero_simps [OF z] elim!: has_typeE intro: arrives.intros)
next
  case 8
  then show ?thesis using v sh zero 8
    by (auto simp: shaped_simps default_of_def scalarFromProto_def zero_simps [OF z] elim!: has_typeE)
qed (use v sh zero in \<open>auto simp: shaped_simps default_of_def scalarFromProto_def zero_simps [OF z] elim!: has_typeE intro: arrives.intros\<close>)

lemma to_present_Inr:
  "to_present rt encode nm nums f v = Inr q \<Longrightarrow> \<not> fb_repeated f \<Longrightarrow> (\<exists>p. q = Some p \<and> scalarToProto rt encode f (Some v) = Inr p) \<or>
     q = None \<and> \<not> fb_optional f \<and> isZero rt v \<and> fb_nested f = None \<and> \<not> fb_isTime f"
  by (auto simp: to_present_def split: if_splits sum.splits)

lemma field_trip:
  assumes trips: "trips rt ty R encode decode" and z: "zero_ok rt ty" and d: "derived_from uni f (i, sf)" and ok: "field_ok (sf_type sf)"
    and v: "has_type rt ty (sf_type sf) v" and R: "\<And>r. fb_nested f = Some r \<Longrightarrow> r \<in> R"
    and enc: "to_field rt encode nm nums f v = Inr q" and got: "mget m (fb_number f) = q"
  shows "\<exists>x. from_field rt decode nm f m (vr_Zero rt (sf_type sf)) = Inr x \<and>
    arrives rt ty (sf_type sf) v (case x of None \<Rightarrow> vr_Zero rt (sf_type sf) | Some w \<Rightarrow> w)"
proof -
  consider "base_ok (sf_type sf)" | u where "sf_type sf = GPtr u" "base_ok u" "u \<noteq> GBytes"
    | u where "sf_type sf = GSlice u" "base_ok u \<or> (\<exists>s. u = GPtr (GStruct s))"
    using ok unfolding field_ok_def by blast
  then show ?thesis
  proof cases
    case 1
    then have f: "shaped f (sf_type sf)" "\<not> fb_optional f" "\<not> fb_repeated f" using derived_shape(1) [OF d] by auto
    have "to_present rt encode nm nums f v = Inr q" using enc f by (simp add: to_field_def)
    from to_present_Inr [OF this f(3)] show ?thesis
    proof
      assume "\<exists>p. q = Some p \<and> scalarToProto rt encode f (Some v) = Inr p"
      then obtain p where p: "q = Some p" "scalarToProto rt encode f (Some v) = Inr p" by blast
      from scalar_trip [OF trips z 1 v f(1) R p(2)] show ?thesis using f got p by (auto simp: from_field_def Let_def)
    next
      assume "q = None \<and> \<not> fb_optional f \<and> isZero rt v \<and> fb_nested f = None \<and> \<not> fb_isTime f"
      with zero_trip [where decode = decode, OF z 1 v f(1)] f got show ?thesis by (auto simp: from_field_def Let_def)
    qed
  next
    case (2 u)
    then have f: "shaped f u" "fb_optional f" "\<not> fb_repeated f" "fb_goType f = u" using derived_shape(2) [OF d] by auto
    consider "v = VPtr None" | v' where "v = VPtr (Some v')" "has_type rt ty u v'" using v 2 by (auto elim: has_typeE)
    then show ?thesis
    proof cases
      case 1
      then show ?thesis using enc got f 2 by (auto simp: to_field_def from_field_def Let_def zero_simps [OF z])
    next
      case (2 v')
      then have "to_present rt encode nm nums f v' = Inr q" using enc f by (simp add: to_field_def)
      from to_present_Inr [OF this f(3)] f obtain p where p: "q = Some p" "scalarToProto rt encode f (Some v') = Inr p" by auto
      from scalar_trip [OF trips z \<open>base_ok u\<close> 2(2) f(1) R p(2)] obtain w
        where "scalarFromProto rt decode f p (vr_Zero rt u) = Inr w" "arrives rt ty u v' w" by auto
      then show ?thesis using f got p 2 \<open>sf_type sf = GPtr u\<close> by (auto simp: from_field_def Let_def intro: arrives.intros(11))
    qed
  next
    case (3 u)
    then have f: "shaped f u" "\<not> fb_optional f" "fb_repeated f" "fb_goType f = u" using derived_shape(3) [OF d] by auto
    consider xs where "v = VSlice xs" "xs = None \<or> xs = Some []" | vs where "v = VSlice (Some vs)" "vs \<noteq> []" "list_all (has_type rt ty u) vs"
    proof -
      have "has_type rt ty (GSlice u) v" using v 3(1) by simp
      then show thesis using that by cases auto
    qed
    then show ?thesis
    proof cases
      case (1 xs)
      then have "q = None" using enc f by (auto simp: to_field_def to_present_def split: if_splits)
      then show ?thesis using 1 got f 3 arrives.intros(12) [OF 1(2), of rt ty u] by (auto simp: from_field_def Let_def zero_simps [OF z])
    next
      case (2 vs)
      then obtain ps where ps: "to_list rt encode nm f 0 vs = Inr ps" "q = Some (PList ps)"
        using enc f by (auto simp: to_field_def to_present_def and_then_Inr_iff split: if_splits)
      have "\<exists>w. scalarFromProto rt decode f p (vr_Zero rt (fb_goType f)) = Inr w \<and> arrives rt ty u x w"
        if x: "x \<in> set vs" and p: "scalarToProto rt encode f (Some x) = Inr p" for x p
      proof -
        have tx: "has_type rt ty u x" using 2(3) x by (simp add: list_all_iff)
        show ?thesis
        proof (cases "base_ok u")
          case True
          from scalar_trip [OF trips z True tx f(1) R p] show ?thesis unfolding f(4) .
        next
          case False
          with 3 obtain r where r: "u = GPtr (GStruct r)" by blast
          then have "shaped f (GStruct r)" using f by (simp add: shaped_simps)
          with R have "r \<in> R" by (simp add: shaped_simps)
          from pointer_trip [OF trips z tx [unfolded r] \<open>shaped f (GStruct r)\<close> f(4) [unfolded r] this p] show ?thesis unfolding f(4) r .
        qed
      qed
      from list_trip [OF this ps(1)] obtain ws where ws: "from_list rt decode nm f 0 ps = Inr ws" "list_all2 (arrives rt ty u) vs ws" "length ps = length vs"
        by blast
      then have "ps \<noteq> []" using 2 by auto
      then have "from_field rt decode nm f m (vr_Zero rt (sf_type sf)) = Inr (Some (VSlice (Some ws)))"
        using ws ps got f by (cases ps) (auto simp: from_field_def Let_def)
      then show ?thesis using 2 3 arrives.intros(13) [OF 2(2) ws(2)] by auto
    qed
  qed
qed

section \<open>The round trip of a message\<close>

lemma to_fields_get:
  assumes "to_fields rt encode nm nums fs src dst = Inr m" and "distinct (map fb_number fs)" and "\<And>f. f \<in> set fs \<Longrightarrow> mget dst (fb_number f) = None"
  shows "(\<forall>f \<in> set fs. to_field rt encode nm nums f (src ! fb_goIndex f) = Inr (mget m (fb_number f)) \<and> fb_goIndex f < length src) \<and>
    (\<forall>n. n \<notin> fb_number ` set fs \<longrightarrow> mget m n = mget dst n)"
  using assms
proof (induction fs arbitrary: dst)
  case (Cons f fs)
  then obtain p where p: "to_field rt encode nm nums f (src ! fb_goIndex f) = Inr p" "fb_goIndex f < length src"
      "to_fields rt encode nm nums fs src (case p of None \<Rightarrow> dst | Some p \<Rightarrow> mput (fb_number f) p dst) = Inr m"
    by (auto simp: and_then_Inr_iff split: if_splits)
  have "mget (case p of None \<Rightarrow> dst | Some p \<Rightarrow> mput (fb_number f) p dst) (fb_number g) = None" if "g \<in> set fs" for g
  proof -
    have "fb_number g \<noteq> fb_number f" using Cons.prems(2) imageI [OF that, of fb_number] by auto
    then show ?thesis using Cons.prems(3) that by (auto split: option.splits)
  qed
  from Cons.IH [OF p(3) _ this] Cons.prems(2) have 1:
    "\<forall>g \<in> set fs. to_field rt encode nm nums g (src ! fb_goIndex g) = Inr (mget m (fb_number g)) \<and> fb_goIndex g < length src"
    "\<forall>n. n \<notin> fb_number ` set fs \<longrightarrow> mget m n = mget (case p of None \<Rightarrow> dst | Some p \<Rightarrow> mput (fb_number f) p dst) n" by auto
  have "mget m (fb_number f) = p" using 1(2) Cons.prems(2,3) by (auto split: option.splits)
  then show ?case using 1 p by (auto split: option.splits)
qed simp

lemma from_fields_set:
  assumes "\<And>f. f \<in> set fs \<Longrightarrow> fb_number f \<in> set nums \<and> fb_goIndex f < length dst \<and> from_field rt decode nm f m (dst ! fb_goIndex f) = Inr (g f)"
    and "distinct (map fb_goIndex fs)"
  shows "\<exists>ws. from_fields rt decode nm nums fs m dst = Inr ws \<and> length ws = length dst \<and>
    (\<forall>f \<in> set fs. ws ! fb_goIndex f = (case g f of None \<Rightarrow> dst ! fb_goIndex f | Some w \<Rightarrow> w)) \<and> (\<forall>i. i \<notin> fb_goIndex ` set fs \<longrightarrow> ws ! i = dst ! i)"
  using assms
proof (induction fs arbitrary: dst)
  case (Cons f fs)
  let ?dst = "case g f of None \<Rightarrow> dst | Some w \<Rightarrow> dst[fb_goIndex f := w]"
  have len: "length ?dst = length dst" by (simp split: option.split)
  have same: "?dst ! i = dst ! i" if "i \<noteq> fb_goIndex f" for i using that by (simp split: option.split)
  have "fb_number h \<in> set nums \<and> fb_goIndex h < length ?dst \<and> from_field rt decode nm h m (?dst ! fb_goIndex h) = Inr (g h)" if "h \<in> set fs" for h
  proof -
    have "fb_goIndex h \<noteq> fb_goIndex f" using Cons.prems(2) imageI [OF that, of fb_goIndex] by auto
    then show ?thesis using Cons.prems(1) [of h] that len same by simp
  qed
  from Cons.IH [OF this] Cons.prems(2) obtain ws where ws: "from_fields rt decode nm nums fs m ?dst = Inr ws" "length ws = length ?dst"
    "\<forall>h \<in> set fs. ws ! fb_goIndex h = (case g h of None \<Rightarrow> ?dst ! fb_goIndex h | Some w \<Rightarrow> w)" "\<forall>i. i \<notin> fb_goIndex ` set fs \<longrightarrow> ws ! i = ?dst ! i"
    by auto
  have f: "fb_number f \<in> set nums" "fb_goIndex f < length dst" "from_field rt decode nm f m (dst ! fb_goIndex f) = Inr (g f)" using Cons.prems(1) by auto
  have "ws ! fb_goIndex f = (case g f of None \<Rightarrow> dst ! fb_goIndex f | Some w \<Rightarrow> w)"
    using ws(4) Cons.prems(2) f(2) by (auto split: option.splits)
  moreover have "ws ! fb_goIndex h = (case g h of None \<Rightarrow> dst ! fb_goIndex h | Some w \<Rightarrow> w)" if "h \<in> set fs" for h
  proof -
    have "fb_goIndex h \<noteq> fb_goIndex f" using Cons.prems(2) imageI [OF that, of fb_goIndex] by auto
    from same [OF this] show ?thesis using ws(3) [rule_format, OF that] by (cases "g h") simp_all
  qed
  moreover have "ws ! i = dst ! i" if "i \<notin> fb_goIndex ` set (f # fs)" for i using ws(4) that same by simp
  ultimately show ?case using f ws(1,2) len by auto
qed simp

text \<open>The fields of a struct that are bound.\<close>

lemma bound_fields_iff: "(i, sf) \<in> set (bound_fields 0 sfs) \<longleftrightarrow> i < length sfs \<and> sfs ! i = sf \<and> eligible sf"
  by (auto simp: bound_fields_def set_zip intro!: exI [of _ i])

lemma distinct_filter_fst: "distinct (map fst xs) \<Longrightarrow> distinct (map fst (filter P xs))"
  by (induction xs) auto

lemma finished_fields:
  assumes "finished uni ty b s"
  shows "distinct (map fb_goIndex (fields_in b s))"
    and "f \<in> set (fields_in b s) \<Longrightarrow>
      fb_goIndex f < length (ty_Fields ty s) \<and> eligible (ty_Fields ty s ! fb_goIndex f) \<and> derived_from uni f (fb_goIndex f, ty_Fields ty s ! fb_goIndex f) \<and>
      (\<forall>r. fb_nested f = Some r \<longrightarrow> r \<in> entered b)"
    and "i < length (ty_Fields ty s) \<Longrightarrow> i \<in> fb_goIndex ` set (fields_in b s) \<longleftrightarrow> eligible (ty_Fields ty s ! i)"
proof -
  let ?bs = "bound_fields 0 (ty_Fields ty s)"
  have d: "list_all2 (derived_from uni) (fields_in b s) ?bs" using assms by (simp add: finished_def)
  then have idx: "map fb_goIndex (fields_in b s) = map fst ?bs"
    by (induction rule: list_all2_induct) (auto simp: derived_simps)
  have "distinct (map fst ?bs)" unfolding bound_fields_def by (rule distinct_filter_fst) simp
  with idx show "distinct (map fb_goIndex (fields_in b s))" by simp
  show "i \<in> fb_goIndex ` set (fields_in b s) \<longleftrightarrow> eligible (ty_Fields ty s ! i)" if "i < length (ty_Fields ty s)"
  proof -
    have "fb_goIndex ` set (fields_in b s) = fst ` set ?bs" using idx by (metis list.set_map)
    also have "i \<in> fst ` set ?bs \<longleftrightarrow> (\<exists>sf. (i, sf) \<in> set ?bs)" by force
    finally show ?thesis using that by (simp add: bound_fields_iff)
  qed
  show "fb_goIndex f < length (ty_Fields ty s) \<and> eligible (ty_Fields ty s ! fb_goIndex f) \<and> derived_from uni f (fb_goIndex f, ty_Fields ty s ! fb_goIndex f) \<and>
      (\<forall>r. fb_nested f = Some r \<longrightarrow> r \<in> entered b)" if f: "f \<in> set (fields_in b s)"
  proof -
    obtain i sf where "(i, sf) \<in> set ?bs" "derived_from uni f (i, sf)"
      using d f unfolding list_all2_conv_all_nth in_set_conv_nth by (metis surj_pair)
    moreover have "fb_goIndex f = i" using calculation(2) by (rule derived_simps(2))
    ultimately show ?thesis using assms f by (auto simp: bound_fields_iff finished_def resolved_def)
  qed
qed

text \<open>What the descriptor and the types of a schema must be: the numbers are those of the bindings, all different, and every bound field has a type that can be decoded.\<close>

definition descriptor_ok :: "'f value_rt \<Rightarrow> builder \<Rightarrow> bool" where
  "descriptor_ok rt b \<longleftrightarrow> (\<forall>s \<in> entered b. vr_Numbers rt s = map fb_number (fields_in b s) \<and> distinct (vr_Numbers rt s))"

definition decodable :: "type_table \<Rightarrow> builder \<Rightarrow> bool" where
  "decodable ty b \<longleftrightarrow> (\<forall>s \<in> entered b. \<forall>sf \<in> set (ty_Fields ty s). eligible sf \<longrightarrow> field_ok (sf_type sf))"

lemma message_trips:
  assumes schema: "complete_schema uni ty b" and z: "zero_ok rt ty" and desc: "descriptor_ok rt b" and ok: "decodable ty b"
  shows "trips rt ty (entered b) (toDynamic rt b n) (fromDynamic rt b n)"
proof (induction n)
  case (Suc n)
  have "\<exists>w. fromDynamic rt b (Suc n) r m (vr_Zero rt (GStruct r)) = Inr w \<and> arrives rt ty (GStruct r) v w"
    if r: "r \<in> entered b" and v: "has_type rt ty (GStruct r) v" and enc: "toDynamic rt b (Suc n) r (Some v) = Inr m" for r v m
  proof -
    let ?F = "ty_Fields ty r" and ?fs = "fields_in b r" and ?nm = "binding_name b r" and ?nums = "vr_Numbers rt r"
    let ?E = "toDynamic rt b n" and ?D = "fromDynamic rt b n" and ?dst = "map (\<lambda>sf. vr_Zero rt (sf_type sf)) (ty_Fields ty r)"
    obtain vs where vs: "v = VStruct vs" "list_all2 (\<lambda>sf v. has_type rt ty (sf_type sf) v) ?F vs" using v by (auto elim: has_typeE)
    have len: "length vs = length ?F" using vs(2) by (simp add: list_all2_lengthD)
    have fin: "finished uni ty b r" using complete_finished [OF schema r] .
    have nums: "?nums = map fb_number ?fs" "distinct (map fb_number ?fs)" using desc r by (auto simp: descriptor_ok_def)
    have run: "to_fields rt ?E ?nm ?nums ?fs vs [] = Inr m" using enc vs(1) by simp
    have sent: "to_field rt ?E ?nm ?nums f (vs ! fb_goIndex f) = Inr (mget m (fb_number f))" if "f \<in> set ?fs" for f
      using to_fields_get [OF run nums(2)] that by auto
    define good where "good f x \<longleftrightarrow> from_field rt ?D ?nm f m (?dst ! fb_goIndex f) = Inr x \<and>
        arrives rt ty (sf_type (?F ! fb_goIndex f)) (vs ! fb_goIndex f) (case x of None \<Rightarrow> ?dst ! fb_goIndex f | Some w \<Rightarrow> w)" for f x
    have "\<exists>x. good f x" if f: "f \<in> set ?fs" for f
    proof -
      note ff = finished_fields(2) [OF fin f]
      have "?F ! fb_goIndex f \<in> set ?F" using ff by simp
      then have "field_ok (sf_type (?F ! fb_goIndex f))" using ok r ff by (auto simp: decodable_def)
      moreover have "has_type rt ty (sf_type (?F ! fb_goIndex f)) (vs ! fb_goIndex f)" using vs(2) ff by (simp add: list_all2_conv_all_nth)
      moreover have "?dst ! fb_goIndex f = vr_Zero rt (sf_type (?F ! fb_goIndex f))" using ff by simp
      moreover have "derived_from uni f (fb_goIndex f, ?F ! fb_goIndex f)" "\<And>r. fb_nested f = Some r \<Longrightarrow> r \<in> entered b" using ff by auto
      ultimately show ?thesis
        using field_trip [where nm = ?nm, OF Suc z _ _ _ _ sent [OF f] refl] unfolding good_def by presburger
    qed
    then obtain g where g: "\<And>f. f \<in> set ?fs \<Longrightarrow> good f (g f)" by metis
    have "fb_number f \<in> set ?nums \<and> fb_goIndex f < length ?dst \<and> from_field rt ?D ?nm f m (?dst ! fb_goIndex f) = Inr (g f)" if "f \<in> set ?fs" for f
      using g [OF that] finished_fields(2) [OF fin that] nums(1) that by (simp add: good_def)
    from from_fields_set [OF this finished_fields(1) [OF fin]] obtain ws where ws: "from_fields rt ?D ?nm ?nums ?fs m ?dst = Inr ws"
      "length ws = length ?F" "\<forall>f \<in> set ?fs. ws ! fb_goIndex f = (case g f of None \<Rightarrow> ?dst ! fb_goIndex f | Some w \<Rightarrow> w)"
      "\<forall>i. i \<notin> fb_goIndex ` set ?fs \<longrightarrow> ws ! i = ?dst ! i" by auto
    have "arrives rt ty (GStruct r) (VStruct vs) (VStruct ws)"
    proof (rule arrives.intros(9))
      fix i assume i: "i < length ?F"
      show "if eligible (?F ! i) then arrives rt ty (sf_type (?F ! i)) (vs ! i) (ws ! i) else ws ! i = vr_Zero rt (sf_type (?F ! i))"
      proof (cases "eligible (?F ! i)")
        case True
        then obtain f where "f \<in> set ?fs" "fb_goIndex f = i" using finished_fields(3) [OF fin i] by auto
        then show ?thesis using True g [of f] ws(3) by (auto simp: good_def)
      next
        case False
        then show ?thesis using finished_fields(3) [OF fin i] ws(4) i by simp
      qed
    qed (use len ws(2) in simp_all)
    then show ?thesis using ws(1) vs(1) by (simp add: zero_simps [OF z])
  qed
  moreover have "toDynamic rt b (Suc n) r None \<noteq> Inr m" for r m by simp
  ultimately show ?case unfolding trips_def by blast
qed (simp add: trips_def)

section \<open>How encoding can fail\<close>

fun leaf :: "value_error \<Rightarrow> value_error" where
  "leaf (AtField nm f e) = leaf e"
| "leaf (AtElement nm f i e) = leaf e"
| "leaf e = e"

text \<open>How deep structs are nested in a value.\<close>

fun vdepth :: "'f gval \<Rightarrow> nat" where
  "vdepth (VStruct vs) = Suc (foldr max (map vdepth vs) 0)"
| "vdepth (VSlice (Some vs)) = foldr max (map vdepth vs) 0"
| "vdepth (VPtr (Some v)) = vdepth v"
| "vdepth _ = 0"

lemma foldr_max_ge: "x \<in> set xs \<Longrightarrow> f x \<le> foldr max (map f xs) (0 :: nat)"
  by (induction xs) auto

definition encodes_below :: "'f value_rt \<Rightarrow> type_table \<Rightarrow> string set \<Rightarrow> nat \<Rightarrow> 'f encode_fn \<Rightarrow> bool" where
  "encodes_below rt ty R k encode \<longleftrightarrow>
     (\<forall>r \<in> R. \<forall>v e. has_type rt ty (GStruct r) v \<longrightarrow> vdepth v < k \<longrightarrow> encode r (Some v) = Inl e \<longrightarrow> (\<exists>nm. leaf e = NilValue nm)) \<and>
     (\<forall>r e. 0 < k \<longrightarrow> encode r None = Inl e \<longrightarrow> (\<exists>nm. leaf e = NilValue nm))"

lemma scalar_encodes:
  assumes enc: "encodes_below rt ty R k encode" and base: "base_ok u" and v: "has_type rt ty u v" and sh: "shaped f u" and k: "vdepth v < k"
    and R: "\<And>r. fb_nested f = Some r \<Longrightarrow> r \<in> R" and e: "scalarToProto rt encode f (Some v) = Inl e"
  shows "\<exists>nm. leaf e = NilValue nm"
  using base
proof (cases rule: base_okE)
  case (9 r)
  then have f: "fb_nested f = Some r" "\<not> fb_isTime f" "\<not> fb_isBytes f" using sh by (simp_all add: shaped_simps)
  obtain vs where vs: "v = VStruct vs" using v 9 by (auto elim: has_typeE)
  then have "encode r (Some v) = Inl e" using e f by (simp add: scalarToProto_def and_then_Inl_iff)
  then show ?thesis using enc R f v k 9 unfolding encodes_below_def by blast
qed (use v sh e in \<open>auto simp: shaped_simps scalarToProto_def elim!: has_typeE split: if_splits\<close>)

lemma pointer_encodes:
  assumes enc: "encodes_below rt ty R k encode" and v: "has_type rt ty (GPtr (GStruct r)) v" and sh: "shaped f (GStruct r)" and k: "vdepth v < k"
    and R: "r \<in> R" and e: "scalarToProto rt encode f (Some v) = Inl e"
  shows "\<exists>nm. leaf e = NilValue nm"
proof -
  have f: "fb_nested f = Some r" "\<not> fb_isTime f" "\<not> fb_isBytes f" using sh by (simp_all add: shaped_simps)
  consider "v = VPtr None" | v' where "v = VPtr (Some v')" "has_type rt ty (GStruct r) v'" using v by (auto elim: has_typeE)
  then show ?thesis
  proof cases
    case 1
    then have "encode r None = Inl e" using e f by (simp add: scalarToProto_def and_then_Inl_iff)
    then show ?thesis using enc k unfolding encodes_below_def by (auto dest: gr_implies_not_zero)
  next
    case (2 v')
    then have "encode r (Some v') = Inl e" "vdepth v' < k" using e f k by (simp_all add: scalarToProto_def and_then_Inl_iff)
    then show ?thesis using enc R 2 unfolding encodes_below_def by blast
  qed
qed

lemma to_list_Inl:
  "to_list rt encode nm f i vs = Inl e \<Longrightarrow> \<exists>v \<in> set vs. \<exists>e' j. scalarToProto rt encode f (Some v) = Inl e' \<and> e = AtElement nm (fb_name f) j e'"
  by (induction vs arbitrary: i) (force simp: and_then_Inl_iff split: sum.splits)+

lemma field_encodes:
  assumes enc: "encodes_below rt ty R k encode" and d: "derived_from uni f (i, sf)" and ok: "field_ok (sf_type sf)"
    and v: "has_type rt ty (sf_type sf) v" and R: "\<And>r. fb_nested f = Some r \<Longrightarrow> r \<in> R" and k: "vdepth v < k"
    and num: "fb_number f \<in> set nums" and e: "to_field rt encode nm nums f v = Inl e"
  shows "\<exists>nm. leaf e = NilValue nm"
proof -
  consider "base_ok (sf_type sf)" | u where "sf_type sf = GPtr u" "base_ok u" "u \<noteq> GBytes"
    | u where "sf_type sf = GSlice u" "base_ok u \<or> (\<exists>s. u = GPtr (GStruct s))"
    using ok unfolding field_ok_def by blast
  then show ?thesis
  proof cases
    case 1
    then have f: "shaped f (sf_type sf)" "\<not> fb_optional f" "\<not> fb_repeated f" using derived_shape(1) [OF d] by auto
    then obtain e' where "scalarToProto rt encode f (Some v) = Inl e'" "e = AtField nm (fb_name f) e'"
      using e num by (auto simp: to_field_def to_present_def split: if_splits sum.splits)
    then show ?thesis using scalar_encodes [OF enc 1 v f(1) k R] by simp
  next
    case (2 u)
    then have f: "shaped f u" "fb_optional f" "\<not> fb_repeated f" using derived_shape(2) [OF d] by auto
    consider "v = VPtr None" | v' where "v = VPtr (Some v')" "has_type rt ty u v'" using v 2 by (auto elim: has_typeE)
    then show ?thesis
    proof cases
      case (2 v')
      then obtain e' where "scalarToProto rt encode f (Some v') = Inl e'" "e = AtField nm (fb_name f) e'"
        using e num f by (auto simp: to_field_def to_present_def split: if_splits sum.splits)
      then show ?thesis using scalar_encodes [OF enc \<open>base_ok u\<close> 2(2) f(1) _ R] k 2(1) by simp
    qed (use e f in \<open>simp add: to_field_def\<close>)
  next
    case (3 u)
    then have f: "shaped f u" "\<not> fb_optional f" "fb_repeated f" using derived_shape(3) [OF d] by auto
    have "has_type rt ty (GSlice u) v" using v 3(1) by simp
    then obtain vs where vs: "v = VSlice (Some vs)" "list_all (has_type rt ty u) vs" "to_list rt encode nm f 0 vs = Inl e"
      using e num f by cases (auto simp: to_field_def to_present_def and_then_Inl_iff split: if_splits)
    have "\<exists>nm. leaf e' = NilValue nm" if x: "x \<in> set vs" and e': "scalarToProto rt encode f (Some x) = Inl e'" for x e'
    proof -
      have tx: "has_type rt ty u x" using vs(2) x by (simp add: list_all_iff)
      have kx: "vdepth x < k" using k vs(1) foldr_max_ge [OF x, of vdepth] by simp
      show ?thesis
      proof (cases "base_ok u")
        case True
        from scalar_encodes [OF enc True tx f(1) kx R e'] show ?thesis .
      next
        case False
        with 3 obtain r where r: "u = GPtr (GStruct r)" by blast
        then have "shaped f (GStruct r)" using f by (simp add: shaped_simps)
        with R have "r \<in> R" by (simp add: shaped_simps)
        from pointer_encodes [OF enc tx [unfolded r] \<open>shaped f (GStruct r)\<close> kx this e'] show ?thesis .
      qed
    qed
    then show ?thesis using to_list_Inl [OF vs(3)] by auto
  qed
qed

lemma to_fields_Inl:
  "to_fields rt encode nm nums fs src dst = Inl e \<Longrightarrow> \<forall>f \<in> set fs. fb_goIndex f < length src \<Longrightarrow>
     \<exists>f \<in> set fs. to_field rt encode nm nums f (src ! fb_goIndex f) = Inl e"
  by (induction fs arbitrary: dst) (auto simp: and_then_Inl_iff split: if_splits)

lemma message_encodes:
  assumes schema: "complete_schema uni ty b" and desc: "descriptor_ok rt b" and ok: "decodable ty b"
  shows "encodes_below rt ty (entered b) n (toDynamic rt b n)"
proof (induction n)
  case (Suc n)
  have "\<exists>nm. leaf e = NilValue nm"
    if r: "r \<in> entered b" and v: "has_type rt ty (GStruct r) v" and k: "vdepth v < Suc n" and e: "toDynamic rt b (Suc n) r (Some v) = Inl e" for r v e
  proof -
    let ?F = "ty_Fields ty r" and ?fs = "fields_in b r"
    obtain vs where vs: "v = VStruct vs" "list_all2 (\<lambda>sf v. has_type rt ty (sf_type sf) v) ?F vs" using v by (auto elim: has_typeE)
    have len: "length vs = length ?F" using vs(2) by (simp add: list_all2_lengthD)
    have fin: "finished uni ty b r" using complete_finished [OF schema r] .
    have "to_fields rt (toDynamic rt b n) (binding_name b r) (vr_Numbers rt r) ?fs vs [] = Inl e" using e vs(1) by simp
    moreover have "\<forall>f \<in> set ?fs. fb_goIndex f < length vs" using finished_fields(2) [OF fin] len by auto
    ultimately obtain f where f: "f \<in> set ?fs" "to_field rt (toDynamic rt b n) (binding_name b r) (vr_Numbers rt r) f (vs ! fb_goIndex f) = Inl e"
      using to_fields_Inl by blast
    note ff = finished_fields(2) [OF fin f(1)]
    have i: "vs ! fb_goIndex f \<in> set vs" "?F ! fb_goIndex f \<in> set ?F" using ff len by auto
    have "vdepth (vs ! fb_goIndex f) < n" using k vs(1) foldr_max_ge [OF i(1), of vdepth] by simp
    moreover have "field_ok (sf_type (?F ! fb_goIndex f))" using ok r ff i by (auto simp: decodable_def)
    moreover have "has_type rt ty (sf_type (?F ! fb_goIndex f)) (vs ! fb_goIndex f)" using vs(2) ff by (simp add: list_all2_conv_all_nth)
    moreover have "fb_number f \<in> set (vr_Numbers rt r)" using desc r f(1) by (simp add: descriptor_ok_def)
    ultimately show ?thesis using field_encodes [OF Suc _ _ _ _ _ _ f(2)] ff by blast
  qed
  then show ?case unfolding encodes_below_def by auto
qed (simp add: encodes_below_def)

section \<open>What decoding does with any message\<close>

text \<open>A message as the protobuf library delivers it: a field that is set has a value of the kind of its descriptor.\<close>

definition scalar_conforms :: "(string \<Rightarrow> 'f pmsg \<Rightarrow> bool) \<Rightarrow> field_binding \<Rightarrow> 'f pval \<Rightarrow> bool" where
  "scalar_conforms conf f p \<longleftrightarrow>
     (if fb_isTime f then \<exists>m. p = PMsg m
      else if fb_isBytes f then \<exists>s. p = PBytes s
      else (case fb_nested f of
          Some r \<Rightarrow> \<exists>m. p = PMsg m \<and> conf r m
        | None \<Rightarrow>
            (case fb_kind f of
               StringKind \<Rightarrow> \<exists>s. p = PString s
             | BoolKind \<Rightarrow> \<exists>x. p = PBool x
             | Int32Kind \<Rightarrow> \<exists>i. p = PInt i
             | Int64Kind \<Rightarrow> \<exists>i. p = PInt i
             | Uint32Kind \<Rightarrow> \<exists>i. p = PUint i
             | Uint64Kind \<Rightarrow> \<exists>i. p = PUint i
             | FloatKind \<Rightarrow> \<exists>x. p = PFloat x
             | DoubleKind \<Rightarrow> \<exists>x. p = PFloat x
             | _ \<Rightarrow> False)))"

lemma scalar_conforms_mono [mono]:
  "(\<And>r m. conf r m \<longrightarrow> conf' r m) \<Longrightarrow> scalar_conforms conf f p \<longrightarrow> scalar_conforms conf' f p"
  by (auto simp: scalar_conforms_def split: option.splits)

inductive conforms :: "builder \<Rightarrow> string \<Rightarrow> 'f pmsg \<Rightarrow> bool" for b :: builder where
  "(\<And>f p. f \<in> set (fields_in b s) \<Longrightarrow> mget m (fb_number f) = Some p \<Longrightarrow>
      if fb_repeated f then \<exists>ps. p = PList ps \<and> (\<forall>q \<in> set ps. scalar_conforms (conforms b) f q) else scalar_conforms (conforms b) f p) \<Longrightarrow>
   conforms b s m"

lemma conforms_empty: "conforms b s []"
  by (rule conforms.intros) simp

text \<open>The outcomes that are left.\<close>

definition overflow :: "value_error \<Rightarrow> bool" where
  "overflow e \<longleftrightarrow> (\<exists>i. leaf e \<in> {OverflowsInt i, OverflowsUint i})"

definition decode_outcome :: "(value_error, 'a) result \<Rightarrow> bool" where
  "decode_outcome res \<longleftrightarrow> (case res of Inr _ \<Rightarrow> True | Inl e \<Rightarrow> overflow e)"

definition decodes_well :: "'f value_rt \<Rightarrow> builder \<Rightarrow> (string \<Rightarrow> 'f pmsg \<Rightarrow> bool) \<Rightarrow> 'f decode_fn \<Rightarrow> bool" where
  "decodes_well rt b small decode \<longleftrightarrow>
     (\<forall>r \<in> entered b. \<forall>m. conforms b r m \<longrightarrow> small r m \<longrightarrow> decode_outcome (decode r m (vr_Zero rt (GStruct r))))"

lemma outcome_simps [simp]:
  "decode_outcome (Inr x)" "decode_outcome (Inl e) = overflow e"
  "overflow (AtField nm f e) = overflow e" "overflow (AtElement nm f k e) = overflow e" "overflow (OverflowsInt i)" "overflow (OverflowsUint i)"
  by (simp_all add: decode_outcome_def overflow_def)

lemma outcome_and_then: "decode_outcome x \<Longrightarrow> (\<And>y. x = Inr y \<Longrightarrow> decode_outcome (f y)) \<Longrightarrow> decode_outcome (and_then x f)"
  by (cases x) (auto simp: decode_outcome_def)

lemma scalar_decodes:
  assumes dec: "decodes_well rt b small decode" and z: "zero_ok rt ty" and sh: "shaped f u" and R: "\<And>r. fb_nested f = Some r \<Longrightarrow> r \<in> entered b"
    and u: "base_ok u \<or> (\<exists>s. u = GPtr (GStruct s)) \<and> fb_goType f = u" and p: "scalar_conforms (conforms b) f p"
    and small: "\<And>r m. fb_nested f = Some r \<Longrightarrow> p = PMsg m \<Longrightarrow> small r m"
  shows "decode_outcome (scalarFromProto rt decode f p (vr_Zero rt u))"
  using u
proof
  assume "base_ok u"
  then show ?thesis
  proof (cases rule: base_okE)
    case (9 s)
    then obtain m where "p = PMsg m" "conforms b s m" "s \<in> entered b" using p sh R by (auto simp: scalar_conforms_def shaped_simps)
    moreover have "fb_nested f = Some s" using sh 9 by (simp add: shaped_simps)
    ultimately have "decode_outcome (decode s m (vr_Zero rt (GStruct s)))" using dec small by (simp add: decodes_well_def)
    then show ?thesis using sh 9 \<open>p = PMsg m\<close> by (auto simp: scalarFromProto_def shaped_simps zero_simps [OF z])
  qed (use p sh in \<open>auto simp: scalar_conforms_def scalarFromProto_def shaped_simps zero_simps [OF z] split: if_splits\<close>)
next
  assume "(\<exists>s. u = GPtr (GStruct s)) \<and> fb_goType f = u"
  then obtain s where s: "u = GPtr (GStruct s)" "fb_goType f = GPtr (GStruct s)" by blast
  then obtain m where m: "p = PMsg m" "conforms b s m" "s \<in> entered b" using p sh R by (auto simp: scalar_conforms_def shaped_simps)
  moreover have "fb_nested f = Some s" using sh s by (simp add: shaped_simps)
  ultimately have "decode_outcome (decode s m (vr_Zero rt (GStruct s)))" using dec small by (simp add: decodes_well_def)
  then show ?thesis using s sh m(1) by (auto simp: scalarFromProto_def shaped_simps zero_simps [OF z] pointee_def intro: outcome_and_then)
qed

lemma list_decodes:
  "\<forall>p \<in> set ps. decode_outcome (scalarFromProto rt decode f p (vr_Zero rt (fb_goType f))) \<Longrightarrow> decode_outcome (from_list rt decode nm f i ps)"
  by (induction ps arbitrary: i) (auto split: sum.splits intro!: outcome_and_then)

lemma default_conforms: "shaped f u \<Longrightarrow> base_ok u \<Longrightarrow> scalar_conforms (conforms b) f (default_of rt f)"
  by (erule base_okE) (auto simp: scalar_conforms_def default_of_def shaped_simps conforms_empty)

lemma field_decodes:
  assumes dec: "decodes_well rt b small decode" and z: "zero_ok rt ty" and d: "derived_from uni f (i, sf)" and ok: "field_ok (sf_type sf)"
    and R: "\<And>r. fb_nested f = Some r \<Longrightarrow> r \<in> entered b" and m: "conforms b s m" and f: "f \<in> set (fields_in b s)"
    and set_small: "\<And>r p m'. fb_nested f = Some r \<Longrightarrow> mget m (fb_number f) = Some p \<Longrightarrow> p = PMsg m' \<or> (\<exists>ps. p = PList ps \<and> PMsg m' \<in> set ps) \<Longrightarrow> small r m'"
    and unset_small: "\<And>r. fb_nested f = Some r \<Longrightarrow> \<not> fb_optional f \<Longrightarrow> \<not> fb_repeated f \<Longrightarrow> mget m (fb_number f) = None \<Longrightarrow> small r []"
  shows "decode_outcome (from_field rt decode nm f m (vr_Zero rt (sf_type sf)))"
proof -
  have got: "if fb_repeated f then \<exists>ps. p = PList ps \<and> (\<forall>q \<in> set ps. scalar_conforms (conforms b) f q) else scalar_conforms (conforms b) f p"
    if "mget m (fb_number f) = Some p" for p
    using m f that by cases auto
  consider "base_ok (sf_type sf)" | u where "sf_type sf = GPtr u" "base_ok u" "u \<noteq> GBytes"
    | u where "sf_type sf = GSlice u" "base_ok u \<or> (\<exists>s. u = GPtr (GStruct s))"
    using ok unfolding field_ok_def by blast
  then show ?thesis
  proof cases
    case 1
    then have f: "shaped f (sf_type sf)" "\<not> fb_optional f" "\<not> fb_repeated f" using derived_shape(1) [OF d] by auto
    have sc: "scalar_conforms (conforms b) f (case mget m (fb_number f) of Some p \<Rightarrow> p | None \<Rightarrow> default_of rt f)"
      using got default_conforms [OF f(1) 1] f(3) by (auto split: option.splits)
    have sm: "small r m'" if "fb_nested f = Some r" "(case mget m (fb_number f) of Some p \<Rightarrow> p | None \<Rightarrow> default_of rt f) = PMsg m'" for r m'
    proof (cases "mget m (fb_number f)")
      case None
      have "sf_type sf = GStruct r" using f(1) 1 that(1) by (auto simp: shaped_simps elim!: base_okE)
      then have "m' = []" using that(2) None f(1) by (simp add: shaped_simps default_of_def)
      then show ?thesis using unset_small that f None by simp
    qed (use set_small that in auto)
    have "decode_outcome (scalarFromProto rt decode f (case mget m (fb_number f) of Some p \<Rightarrow> p | None \<Rightarrow> default_of rt f) (vr_Zero rt (sf_type sf)))"
      by (rule scalar_decodes [OF dec z f(1) R disjI1 [OF 1] sc]) (assumption, rule sm)
    then show ?thesis using f(2,3)
      by (auto simp: from_field_def Let_def split: sum.splits)
  next
    case (2 u)
    then have f: "shaped f u" "fb_optional f" "\<not> fb_repeated f" "fb_goType f = u" using derived_shape(2) [OF d] by auto
    show ?thesis
    proof (cases "mget m (fb_number f)")
      case (Some p)
      then have sc: "scalar_conforms (conforms b) f p" using got f(3) by auto
      have "decode_outcome (scalarFromProto rt decode f p (vr_Zero rt u))"
        by (rule scalar_decodes [OF dec z f(1) R disjI1 [OF 2(2)] sc]) (use set_small Some in auto)
      then show ?thesis using f(2-4) Some
        by (auto simp: from_field_def Let_def split: sum.splits)
    qed (use f in \<open>simp add: from_field_def\<close>)
  next
    case (3 u)
    then have f: "shaped f u" "\<not> fb_optional f" "fb_repeated f" "fb_goType f = u" using derived_shape(3) [OF d] by auto
    show ?thesis
    proof (cases "mget m (fb_number f)")
      case (Some p)
      then obtain ps where ps: "p = PList ps" "\<forall>q \<in> set ps. scalar_conforms (conforms b) f q" using got f(3) by auto
      have "decode_outcome (scalarFromProto rt decode f q (vr_Zero rt (fb_goType f)))" if "q \<in> set ps" for q
        unfolding f(4) by (rule scalar_decodes [OF dec z f(1) R]) (use 3 ps f(4) that set_small Some in auto)
      then have "decode_outcome (from_list rt decode nm f 0 ps)" by (simp add: list_decodes)
      then show ?thesis using f(3) Some ps(1) by (cases ps) (auto simp: from_field_def Let_def intro: outcome_and_then)
    qed (use f in \<open>simp add: from_field_def\<close>)
  qed
qed

lemma fields_decode:
  assumes "\<forall>f \<in> set fs. fb_goIndex f < length dst \<and> decode_outcome (from_field rt decode nm f m (dst ! fb_goIndex f))"
    and "distinct (map fb_goIndex fs)"
  shows "decode_outcome (from_fields rt decode nm nums fs m dst)"
  using assms
proof (induction fs arbitrary: dst)
  case (Cons f fs)
  have other: "dst[fb_goIndex f := v] ! fb_goIndex g = dst ! fb_goIndex g" if "g \<in> set fs" for g v
  proof -
    have "fb_goIndex g \<noteq> fb_goIndex f" using Cons.prems(2) imageI [OF that, of fb_goIndex] by auto
    then show ?thesis by simp
  qed
  have 1: "decode_outcome (from_fields rt decode nm nums fs m (case v of None \<Rightarrow> dst | Some v \<Rightarrow> dst[fb_goIndex f := v]))" for v
    by (rule Cons.IH) (use Cons.prems other in \<open>auto split: option.splits\<close>)
  have 2: "decode_outcome (from_fields rt decode nm nums fs m dst)" using 1 [of None] by simp
  show ?case using Cons.prems(1) 1 2 by (auto intro!: outcome_and_then)
qed simp

text \<open>How deep messages are nested, and a rank of structs that falls where one contains another.\<close>

fun mdepth :: "'f pval \<Rightarrow> nat" where
  "mdepth (PMsg m) = Suc (foldr max (map (\<lambda>x. mdepth (snd x)) m) 0)"
| "mdepth (PList ps) = foldr max (map mdepth ps) 0"
| "mdepth _ = 0"

definition msg_depth :: "'f pmsg \<Rightarrow> nat" where
  "msg_depth m = foldr max (map (\<lambda>x. mdepth (snd x)) m) 0"

definition ranked :: "builder \<Rightarrow> (string \<Rightarrow> nat) \<Rightarrow> nat \<Rightarrow> bool" where
  "ranked b rank k \<longleftrightarrow> (\<forall>s \<in> entered b. rank s \<le> k \<and>
     (\<forall>f \<in> set (fields_in b s). \<forall>r. fb_nested f = Some r \<longrightarrow> \<not> fb_optional f \<longrightarrow> \<not> fb_repeated f \<longrightarrow> rank r < rank s))"

lemma nested_depth:
  assumes "mget m n = Some p" and "p = PMsg m' \<or> (\<exists>ps. p = PList ps \<and> PMsg m' \<in> set ps)"
  shows "msg_depth m' < msg_depth m"
proof -
  have "(n, p) \<in> set m" using assms(1) by (auto simp: mget_def dest: map_of_SomeD)
  then have "mdepth p \<le> msg_depth m" using foldr_max_ge [of "(n, p)" m "\<lambda>x. mdepth (snd x)"] by (simp add: msg_depth_def)
  moreover have "Suc (msg_depth m') \<le> mdepth p"
    using assms(2) foldr_max_ge [of "PMsg m'" _ mdepth] by (auto simp: msg_depth_def)
  ultimately show ?thesis by simp
qed

lemma message_decodes:
  assumes schema: "complete_schema uni ty b" and z: "zero_ok rt ty" and ok: "decodable ty b" and ranks: "ranked b rank k"
  shows "decodes_well rt b (\<lambda>r m. msg_depth m * Suc k + rank r < n) (fromDynamic rt b n)"
proof (induction n)
  case (Suc n)
  have "decode_outcome (fromDynamic rt b (Suc n) r m (vr_Zero rt (GStruct r)))"
    if r: "r \<in> entered b" and m: "conforms b r m" and fuel: "msg_depth m * Suc k + rank r < Suc n" for r m
  proof -
    let ?F = "ty_Fields ty r" and ?dst = "map (\<lambda>sf. vr_Zero rt (sf_type sf)) (ty_Fields ty r)"
    have fin: "finished uni ty b r" using complete_finished [OF schema r] .
    have "fb_goIndex f < length ?dst \<and> decode_outcome (from_field rt (fromDynamic rt b n) (binding_name b r) f m (?dst ! fb_goIndex f))"
      if f: "f \<in> set (fields_in b r)" for f
    proof -
      note ff = finished_fields(2) [OF fin f]
      have R: "\<And>r'. fb_nested f = Some r' \<Longrightarrow> r' \<in> entered b" using ff by blast
      have "?F ! fb_goIndex f \<in> set ?F" using ff by simp
      then have fok: "field_ok (sf_type (?F ! fb_goIndex f))" using ok r ff by (auto simp: decodable_def)
      have "msg_depth m' * Suc k + rank r' < n"
        if "fb_nested f = Some r'" "mget m (fb_number f) = Some p" "p = PMsg m' \<or> (\<exists>ps. p = PList ps \<and> PMsg m' \<in> set ps)" for r' p m'
      proof -
        have "rank r' \<le> k" using ranks R that(1) by (auto simp: ranked_def)
        moreover have "Suc (msg_depth m') * Suc k \<le> msg_depth m * Suc k"
          using nested_depth [OF that(2,3)] by (intro mult_le_mono1) simp
        ultimately show ?thesis using fuel by simp
      qed
      moreover have "msg_depth ([] :: (int \<times> 'a pval) list) * Suc k + rank r' < n" if "fb_nested f = Some r'" "\<not> fb_optional f" "\<not> fb_repeated f" for r'
      proof -
        have "rank r' < rank r" using ranks r f that by (auto simp: ranked_def)
        then show ?thesis using fuel by (simp add: msg_depth_def)
      qed
      ultimately have "decode_outcome (from_field rt (fromDynamic rt b n) (binding_name b r) f m (vr_Zero rt (sf_type (?F ! fb_goIndex f))))"
        using field_decodes [OF Suc z _ fok R m f, of uni "fb_goIndex f"] ff by blast
      then show ?thesis using ff by simp
    qed
    then have "decode_outcome (from_fields rt (fromDynamic rt b n) (binding_name b r) (vr_Numbers rt r) (fields_in b r) m ?dst)"
      using fields_decode [OF _ finished_fields(1) [OF fin]] by blast
    then show ?thesis by (auto simp: zero_simps [OF z] intro!: outcome_and_then)
  qed
  then show ?case unfolding decodes_well_def by blast
qed (simp add: decodes_well_def)

section \<open>The contract of the conversion\<close>

lemma sent_arrives:
  assumes "complete_schema uni ty b" and "zero_ok rt ty" and "descriptor_ok rt b" and "decodable ty b"
    and "s \<in> entered b" and "has_type rt ty (GStruct s) v" and "vdepth v < n"
  shows "(\<exists>m w. toDynamic rt b n s (Some v) = Inr m \<and> fromDynamic rt b n s m (vr_Zero rt (GStruct s)) = Inr w \<and> arrives rt ty (GStruct s) v w) \<or>
    (\<exists>e nm. toDynamic rt b n s (Some v) = Inl e \<and> leaf e = NilValue nm)"
proof (cases "toDynamic rt b n s (Some v)")
  case (Inl e)
  then show ?thesis using message_encodes [OF assms(1,3,4), of n] assms(5-7) unfolding encodes_below_def by blast
next
  case (Inr m)
  then show ?thesis using message_trips [OF assms(1-4), of n] assms(5,6) unfolding trips_def by blast
qed


text \<open>
  C14. No message can harm a server. Whatever message of a derived type arrives, decoding it ends, and it gives a value or reports a number that does not fit its
  field; it never panics. Enough fuel is a bound on the nesting of the message times one more than the highest rank, plus the rank of its type.
\<close>

theorem decoding_total:
  assumes "complete_schema uni ty b" and "zero_ok rt ty" and "decodable ty b" and "ranked b rank k"
    and "s \<in> entered b" and "conforms b s m" and "msg_depth m * Suc k + rank s < n"
  shows "(\<exists>w. fromDynamic rt b n s m (vr_Zero rt (GStruct s)) = Inr w) \<or>
    (\<exists>e. fromDynamic rt b n s m (vr_Zero rt (GStruct s)) = Inl e \<and> overflow e)"
proof -
  have "decode_outcome (fromDynamic rt b n s m (vr_Zero rt (GStruct s)))"
    using message_decodes [OF assms(1-4), of n] assms(5-7) unfolding decodes_well_def by blast
  then show ?thesis by (cases "fromDynamic rt b n s m (vr_Zero rt (GStruct s))") auto
qed

text \<open>
  The two types of fields that are derived but cannot be decoded: a slice of pointers to scalars, and a pointer to bytes. A request that sets such a field
  panics in the handler, whatever it holds.
\<close>

lemma pointer_elements_panic:
  assumes "derived_from uni f (i, sf)" and "sf_type sf = GSlice (GPtr GString)" and "zero_ok rt ty"
    and "mget m (fb_number f) = Some (PList (PString s # ps))"
  shows "from_field rt decode nm f m target = Inl (AtElement nm (fb_name f) 0 ValuePanic)"
  using derived_shape(3) [OF assms(1,2)] assms(3,4)
  by (simp add: from_field_def shaped_simps scalarFromProto_def zero_simps)

lemma optional_bytes_panic:
  assumes "derived_from uni f (i, sf)" and "sf_type sf = GPtr GBytes" and "zero_ok rt ty" and "mget m (fb_number f) = Some (PBytes s)"
  shows "from_field rt decode nm f m target = Inl (AtField nm (fb_name f) ValuePanic)"
proof -
  have "fb_optional f" "\<not> fb_repeated f" "\<not> fb_isTime f" "fb_isBytes f" "fb_goType f = GPtr GBytes"
    using derived_simps [OF assms(1)] assms(2) by (simp_all add: field_of_def is_ptr_def pointee_def base_of_def Let_def no_binding_def)
  then show ?thesis using assms(4) zero_simps [OF assms(3)] by (simp add: from_field_def scalarFromProto_def)
qed

text \<open>A point in time that is not set arrives as the first second of 1970, which is not the zero value of its type.\<close>

lemma absent_time_is_1970:
  assumes "derived_from uni f (i, sf)" and "sf_type sf = GTime" and "zero_ok rt ty" and "mget m (fb_number f) = None"
  shows "from_field rt decode nm f m (vr_Zero rt GTime) = Inr (Some (VTime 0 0 ''UTC''))" and "vr_Zero rt GTime \<noteq> VTime 0 0 ''UTC''"
proof -
  have "base_ok (sf_type sf)" by (simp add: base_ok_def assms(2))
  from derived_shape(1) [OF assms(1) this]
  have "fb_kind f = MessageKind" "fb_isTime f" "\<not> fb_optional f" "\<not> fb_repeated f" by (simp_all add: assms(2) shaped_simps)
  then show "from_field rt decode nm f m (vr_Zero rt GTime) = Inr (Some (VTime 0 0 ''UTC''))"
    by (simp add: from_field_def scalarFromProto_def default_of_def assms(4) zero_simps [OF assms(3)] time_Unix_def get_int_def wrap64_small)
  show "vr_Zero rt GTime \<noteq> VTime 0 0 ''UTC''" by (simp add: zero_simps [OF assms(3)])
qed

section \<open>An example\<close>

definition user_fields :: "struct_field list" where
  "user_fields =
     [\<lparr>sf_Name = ''UserID'', sf_Exported = True, sf_type = GInt 64, sf_grpc = [], sf_json = [], sf_protobuf = []\<rparr>,
      \<lparr>sf_Name = ''Tags'', sf_Exported = True, sf_type = GSlice GString, sf_grpc = [], sf_json = ''tags,omitempty'', sf_protobuf = []\<rparr>,
      \<lparr>sf_Name = ''Hash'', sf_Exported = True, sf_type = GString, sf_grpc = [], sf_json = ''-'', sf_protobuf = []\<rparr>,
      \<lparr>sf_Name = ''Friend'', sf_Exported = True, sf_type = GPtr (GStruct ''User''), sf_grpc = [], sf_json = [], sf_protobuf = []\<rparr>]"

definition user_types :: type_table where
  "user_types = \<lparr>ty_Name = (\<lambda>s. s), ty_Fields = (\<lambda>s. if s = ''User'' then user_fields else [])\<rparr>"

definition user_schema :: builder where
  "user_schema = (case schema_message (\<lambda>s. s) user_types 2 (GStruct ''User'') (newSchemaBuilder ''my.v1'') of Inr (b, _) \<Rightarrow> b | Inl _ \<Rightarrow> newSchemaBuilder [])"

fun user_zero :: "gtype \<Rightarrow> nat gval" where
  "user_zero GString = VString []"
| "user_zero GBool = VBool False"
| "user_zero (GInt w) = VInt w 0"
| "user_zero (GUint w) = VUint w 0"
| "user_zero GFloat32 = VFloat True 0"
| "user_zero GFloat64 = VFloat False 0"
| "user_zero GBytes = VBytes None"
| "user_zero GTime = VTime (- 62135596800) 0 ''UTC''"
| "user_zero (GStruct s) = VStruct (if s = ''User'' then [VInt 64 0, VSlice None, VString [], VPtr None] else [])"
| "user_zero (GPtr t) = VPtr None"
| "user_zero (GSlice t) = VSlice None"
| "user_zero _ = VOther"

definition user_rt :: "nat value_rt" where
  "user_rt = \<lparr>vr_narrow = (\<lambda>x. x), vr_fzero = (\<lambda>x. x = 0), vr_f0 = 0, vr_Zero = user_zero, vr_String = (\<lambda>_. []),
     vr_Numbers = (\<lambda>s. if s = ''User'' then [1, 2, 3] else [])\<rparr>"

definition ann :: "nat gval" where
  "ann = VStruct [VInt 64 7, VSlice (Some [VString ''a'']), VString ''secret'', VPtr (Some (VStruct [VInt 64 8, VSlice (Some []), VString [], VPtr None]))]"

lemma user_built: "schema_message (\<lambda>s. s) user_types 2 (GStruct ''User'') (newSchemaBuilder ''my.v1'') = Inr (user_schema, ''User'')"
  by code_simp

lemma user_fields_in:
  "fields_in user_schema s = (if s = ''User'' then
     [\<lparr>fb_number = 1, fb_name = ''user_id'', fb_goIndex = 0, fb_goType = GInt 64, fb_kind = Int64Kind, fb_repeated = False, fb_optional = False, fb_isTime = False, fb_isBytes = False, fb_nested = None\<rparr>,
      \<lparr>fb_number = 2, fb_name = ''tags'', fb_goIndex = 1, fb_goType = GString, fb_kind = StringKind, fb_repeated = True, fb_optional = False, fb_isTime = False, fb_isBytes = False, fb_nested = None\<rparr>,
      \<lparr>fb_number = 3, fb_name = ''friend'', fb_goIndex = 3, fb_goType = GStruct ''User'', fb_kind = MessageKind, fb_repeated = False, fb_optional = True, fb_isTime = False, fb_isBytes = False, fb_nested = Some ''User''\<rparr>]
     else [])" (is "_ = (if _ then ?fs else [])")
  and user_entered: "entered user_schema = {''User''}"
proof -
  have e: "sb_byType user_schema = [(''User'', \<lparr>mb_goType = ''User'', mb_name = ''my.v1.User'', mb_fields = ?fs\<rparr>)]" by code_simp
  then show "fields_in user_schema s = (if s = ''User'' then ?fs else [])" by (simp add: fields_in_def mget_def)
  show "entered user_schema = {''User''}" by (simp add: entered_def e mkeys_def)
qed

lemma user_setting:
  "complete_schema (\<lambda>s. s) user_types user_schema" "zero_ok user_rt user_types" "descriptor_ok user_rt user_schema" "decodable user_types user_schema"
  "ranked user_schema (\<lambda>_. 0) 0" "has_type user_rt user_types (GStruct ''User'') ann"
proof -
  show "complete_schema (\<lambda>s. s) user_types user_schema" using complete_message [OF complete_new user_built] by blast
  show "zero_ok user_rt user_types" by (simp add: zero_ok_def user_rt_def user_types_def user_fields_def)
  show "descriptor_ok user_rt user_schema" by (simp add: descriptor_ok_def user_entered user_fields_in user_rt_def)
  show "decodable user_types user_schema" by (simp add: decodable_def user_entered user_types_def user_fields_def field_ok_def base_ok_def)
  show "ranked user_schema (\<lambda>_. 0) 0" by (simp add: ranked_def user_entered user_fields_in)
  show "has_type user_rt user_types (GStruct ''User'') ann"
    by (auto simp: ann_def user_types_def user_fields_def intro!: has_type.intros)
qed


theorem decoding_total_witness:
  "conforms user_schema ''User'' ([(1, PInt 7), (3, PMsg [])] :: nat pmsg) \<and>
   ((\<exists>w. fromDynamic user_rt user_schema 3 ''User'' [(1, PInt 7), (3, PMsg [])] (user_zero (GStruct ''User'')) = Inr w) \<or>
    (\<exists>e. fromDynamic user_rt user_schema 3 ''User'' [(1, PInt 7), (3, PMsg [])] (user_zero (GStruct ''User'')) = Inl e \<and> overflow e))"
proof -
  have c: "conforms user_schema ''User'' ([(1, PInt 7), (3, PMsg [])] :: nat pmsg)"
    by (rule conforms.intros) (auto simp: user_fields_in mget_def scalar_conforms_def conforms_empty split: if_splits)
  have "msg_depth ([(1, PInt 7), (3, PMsg [])] :: nat pmsg) * Suc 0 + 0 < 3" by (simp add: msg_depth_def)
  from decoding_total [OF user_setting(1,2,4,5) _ c this] c show ?thesis by (simp add: user_entered user_rt_def)
qed

end
