(* ===== verification/Grpc_Api.thy ===== *)
theory Grpc_Api
  imports Grpc_Value
begin

text \<open>
  The typed gRPC API (\<^verbatim>\<open>common/grpcapi\<close>: \<^verbatim>\<open>service.go\<close>, \<^verbatim>\<open>grpcapi.go\<close>, \<^verbatim>\<open>client.go\<close>, \<^verbatim>\<open>errors.go\<close>): controllers are scanned for handlers, the schema of
  all services is derived in one file, a call is decoded, validated, handled and encoded, and a client derives its own schema from the
  same types. The gRPC runtime is a parameter; \<^verbatim>\<open>protodesc.NewFile\<close> decides whether a file is valid, and a descriptor is the file itself.
\<close>

section \<open>Errors\<close>

datatype grpc_code = CodeOK | CodeInvalidArgument | CodeInternal | CodeNotFound | CodeAlreadyExists | CodePermissionDenied | CodeUnauthenticated
  | CodeFailedPrecondition | CodeUnavailable | CodeNumber nat

type_synonym grpc_status = "grpc_code \<times> string"

text \<open>
  An error as \<^verbatim>\<open>status.FromError\<close> and \<^verbatim>\<open>errors.As\<close> see it: the status \<^verbatim>\<open>FromError\<close> finds, the status of an error it wraps, and its text.
\<close>

record go_error =
  ge_FromError :: "grpc_status option"
  ge_As :: "grpc_status option"
  ge_Error :: string

definition status_Err :: "grpc_status \<Rightarrow> grpc_status option" where
  "status_Err s = (if fst s = CodeOK then None else Some s)"

definition toStatus :: "go_error option \<Rightarrow> grpc_code \<Rightarrow> grpc_status option" where
  "toStatus err fallback =
     (case err of
        None \<Rightarrow> None
      | Some e \<Rightarrow>
          (case ge_FromError e of
             Some s \<Rightarrow> status_Err s
           | None \<Rightarrow>
               (case ge_As e of
                  Some s \<Rightarrow> status_Err s
                | None \<Rightarrow> status_Err (fallback, if fallback = CodeInvalidArgument then ge_Error e else ''internal error''))))"

text \<open>An error without a status never shows its text unless it is one of validation.\<close>

lemma internal_text_hidden:
  "ge_FromError e = None \<Longrightarrow> ge_As e = None \<Longrightarrow> toStatus (Some e) CodeInternal = Some (CodeInternal, ''internal error'')"
  by (simp add: toStatus_def status_Err_def)

section \<open>Controllers\<close>

datatype sig_type = SigContext | SigError | SigGo gtype

datatype 'h handler_value = NotFunc gtype | NilFunc | HandlerFunc "sig_type list" "sig_type list" 'h

record 'h ctl_field =
  cf_Name :: string
  cf_grpc :: string
  cf_Exported :: bool
  cf_value :: "'h handler_value"

text \<open>A controller: nothing, a nil pointer, something that is no struct, or a struct with its fields and, when it has one, the result of \<^verbatim>\<open>GRPCService\<close>.\<close>

datatype 'h controller = NoController | NilPointer | OtherController | StructController string "'h ctl_field list" "string option"

record 'h method_def =
  md_name :: string
  md_serviceName :: string
  md_handler :: 'h
  md_inType :: gtype
  md_outType :: gtype
  md_in :: string
  md_out :: string

datatype api_error =
    BadName name_error
  | NotAFunction gtype
  | HandlerNil
  | WrongShape
  | FirstNotContext
  | SecondNotError
  | NotPointers
  | NilController
  | TagUnexported string string
  | NoServiceName string
  | InController string api_error
  | InHandler string string api_error
  | DeclaredTwice string string
  | SchemaFailed schema_error
  | InvalidFile string
  | MessageVanished string
  | ServiceVanished string
  | AppRequired
  | PackageRequired
  | CredsRequired
  | ServerClosed
  | ListenFailed string
  | TargetOrConn
  | DialFailed string
  | NilClient
  | NilRequest
  | EncodeFailed value_error
  | DecodeFailed value_error
  | CallStatus grpc_status

definition newMethodDef :: "string \<Rightarrow> 'h handler_value \<Rightarrow> (api_error, 'h method_def) result" where
  "newMethodDef name field =
     (case validateIdentifier name ''method name'' of
        Some e \<Rightarrow> Inl (BadName e)
      | None \<Rightarrow>
          (case field of
             NotFunc t \<Rightarrow> Inl (NotAFunction t)
           | NilFunc \<Rightarrow> Inl HandlerNil
           | HandlerFunc ins outs h \<Rightarrow>
               if length ins \<noteq> 2 \<or> length outs \<noteq> 2 then Inl WrongShape
               else if ins ! 0 \<noteq> SigContext then Inl FirstNotContext
               else if outs ! 1 \<noteq> SigError then Inl SecondNotError
               else (case (ins ! 1, outs ! 0) of
                   (SigGo (GPtr i), SigGo (GPtr out)) \<Rightarrow>
                     Inr \<lparr>md_name = name, md_serviceName = [], md_handler = h, md_inType = i, md_outType = out, md_in = [], md_out = []\<rparr>
                 | _ \<Rightarrow> Inl NotPointers)))"

type_synonym 'h services = "(string, 'h method_def list) gomap"

text \<open>The fields with a tag, in their order.\<close>

fun candidates :: "string \<Rightarrow> 'h ctl_field list \<Rightarrow> (api_error, 'h ctl_field list) result" where
  "candidates owner [] = Inr []"
| "candidates owner (f # fs) =
     (if cf_grpc f = [] \<or> cf_grpc f = ''-'' then candidates owner fs
      else if \<not> cf_Exported f then Inl (TagUnexported owner (cf_Name f))
      else and_then (candidates owner fs) (\<lambda>cs. Inr (f # cs)))"

text \<open>The loop over the candidates: the methods of the service as it leaves them, and its error.\<close>

fun add_methods :: "string \<Rightarrow> string \<Rightarrow> 'h method_def list \<Rightarrow> 'h ctl_field list \<Rightarrow> 'h method_def list \<times> api_error option" where
  "add_methods owner service ms [] = (ms, None)"
| "add_methods owner service ms (c # cs) =
     (case newMethodDef (cf_grpc c) (cf_value c) of
        Inl e \<Rightarrow> (ms, Some (InHandler owner (cf_Name c) e))
      | Inr m \<Rightarrow>
          if md_name m \<in> set (map md_name ms) then (ms, Some (DeclaredTwice service (md_name m)))
          else add_methods owner service (ms @ [m]) cs)"

definition registerController :: "'h controller \<Rightarrow> 'h services \<Rightarrow> 'h services \<times> api_error option" where
  "registerController ctl services =
     (case ctl of
        NoController \<Rightarrow> (services, None)
      | NilPointer \<Rightarrow> (services, Some NilController)
      | OtherController \<Rightarrow> (services, None)
      | StructController owner fs namer \<Rightarrow>
          (case candidates owner fs of
             Inl e \<Rightarrow> (services, Some e)
           | Inr cs \<Rightarrow>
               if cs = [] then (services, None)
               else (case namer of
                   None \<Rightarrow> (services, Some (NoServiceName owner))
                 | Some given \<Rightarrow>
                     let serviceName = TrimSpace given
                     in (case validateIdentifier serviceName ''service name'' of
                           Some e \<Rightarrow> (services, Some (InController owner (BadName e)))
                         | None \<Rightarrow>
                             (case add_methods owner serviceName (case mget services serviceName of Some ms \<Rightarrow> ms | None \<Rightarrow> []) cs of
                                (ms, Some e) \<Rightarrow> (mput serviceName ms services, Some e)
                              | (ms, None) \<Rightarrow> (mput serviceName (sort_key md_name ms) services, None))))))"

section \<open>The schema of the services\<close>

text \<open>\<^verbatim>\<open>build\<close> for one service.\<close>

fun build_methods :: "(string \<Rightarrow> string) \<Rightarrow> type_table \<Rightarrow> nat \<Rightarrow> string \<Rightarrow> 'h method_def list \<Rightarrow> builder \<Rightarrow> (api_error, builder \<times> 'h method_def list) result" where
  "build_methods uni ty n service [] b = Inr (b, [])"
| "build_methods uni ty n service (m # ms) b =
     (case schema_message uni ty n (md_inType m) b of
        Inl e \<Rightarrow> Inl (SchemaFailed e)
      | Inr (b, i) \<Rightarrow>
          (case schema_message uni ty n (md_outType m) b of
             Inl e \<Rightarrow> Inl (SchemaFailed e)
           | Inr (b, out) \<Rightarrow>
               and_then (build_methods uni ty n service ms b) (\<lambda>(b, rest). Inr (b, m\<lparr>md_serviceName := service, md_in := i, md_out := out\<rparr> # rest))))"

definition service_proto_of :: "builder \<Rightarrow> string \<Rightarrow> 'h method_def list \<Rightarrow> service_proto" where
  "service_proto_of b service ms =
     \<lparr>se_Name = service,
      se_Method = map (\<lambda>m. \<lparr>me_Name = md_name m, me_InputType = ''.'' @ binding_name b (md_in m), me_OutputType = ''.'' @ binding_name b (md_out m)\<rparr>) ms\<rparr>"

fun build_services :: "(string \<Rightarrow> string) \<Rightarrow> type_table \<Rightarrow> nat \<Rightarrow> 'h services \<Rightarrow> string list \<Rightarrow> builder \<Rightarrow>
    (api_error, builder \<times> (string \<times> 'h method_def list) list) result" where
  "build_services uni ty n services [] b = Inr (b, [])"
| "build_services uni ty n services (name # names) b =
     and_then (build_methods uni ty n name (case mget services name of Some ms \<Rightarrow> ms | None \<Rightarrow> []) b) (\<lambda>(b, ms).
       and_then (build_services uni ty n services names b) (\<lambda>(b, rest). Inr (b, (name, ms) # rest)))"

text \<open>\<^verbatim>\<open>ByName\<close> of the messages and services of a file.\<close>

definition missing_message :: "builder \<Rightarrow> file_proto \<Rightarrow> string option" where
  "missing_message b file =
     map_option (binding_name b) (find (\<lambda>s. shortName (binding_name b s) \<notin> set (map mp_Name (fl_MessageType file))) (sb_orderedBinds b))"

definition missing_service :: "string list \<Rightarrow> file_proto \<Rightarrow> string option" where
  "missing_service names file = find (\<lambda>n. n \<notin> set (map se_Name (fl_Service file))) names"

definition buildSchema :: "(string \<Rightarrow> string) \<Rightarrow> type_table \<Rightarrow> nat \<Rightarrow> (file_proto \<Rightarrow> string option) \<Rightarrow> string \<Rightarrow> 'h services \<Rightarrow>
    (api_error, builder \<times> file_proto \<times> 'h services) result" where
  "buildSchema uni ty n NewFile pkg services =
     (let names = sort (mkeys services)
      in and_then (build_services uni ty n services names (newSchemaBuilder pkg)) (\<lambda>(b, built).
           let file = file_of b (map (\<lambda>(name, ms). service_proto_of b name ms) built)
           in (case NewFile file of
                 Some e \<Rightarrow> Inl (InvalidFile e)
               | None \<Rightarrow>
                   (case missing_message b file of
                      Some m \<Rightarrow> Inl (MessageVanished m)
                    | None \<Rightarrow>
                        (case missing_service names file of
                           Some s \<Rightarrow> Inl (ServiceVanished s)
                         | None \<Rightarrow> Inr (b, file, built))))))"

section \<open>A call on the server\<close>

datatype 'f handler_result = HandlerFails go_error | HandlerReturns "'f gval option"

datatype 'f rpc_outcome = Replies "'f pmsg" | RepliesNothing | Fails grpc_status | RpcPanics

definition fails_with :: "grpc_status option \<Rightarrow> 'f rpc_outcome" where
  "fails_with s = (case s of Some s \<Rightarrow> Fails s | None \<Rightarrow> RepliesNothing)"

text \<open>
  The body of \<^verbatim>\<open>grpcHandler\<close> on a request that is a message or something else; \<open>vtext\<close> gives the text of an error of the conversion. A panic
  is not caught here.
\<close>

definition rpc_invoke :: "'f value_rt \<Rightarrow> builder \<Rightarrow> nat \<Rightarrow> (value_error \<Rightarrow> string) \<Rightarrow> ('f gval \<Rightarrow> go_error option) option \<Rightarrow> ('h \<Rightarrow> 'f gval \<Rightarrow> 'f handler_result) \<Rightarrow>
    'h method_def \<Rightarrow> 'f pmsg option \<Rightarrow> 'f rpc_outcome" where
  "rpc_invoke rt b n vtext validate run m req =
     (case req of
        None \<Rightarrow> Fails (CodeInternal, ''unexpected request type'')
      | Some message \<Rightarrow>
          (case fromDynamic rt b n (md_in m) message (vr_Zero rt (md_inType m)) of
             Inl e \<Rightarrow> if leaf e = ValuePanic then RpcPanics else Fails (CodeInvalidArgument, ''cannot decode request: '' @ vtext e)
           | Inr i \<Rightarrow>
               (case (case validate of Some f \<Rightarrow> f i | None \<Rightarrow> None) of
                  Some err \<Rightarrow> fails_with (toStatus (Some err) CodeInvalidArgument)
                | None \<Rightarrow>
                    (case run (md_handler m) i of
                       HandlerFails err \<Rightarrow> fails_with (toStatus (Some err) CodeInternal)
                     | HandlerReturns None \<Rightarrow> Fails (CodeInternal, ''handler returned no response'')
                     | HandlerReturns (Some out) \<Rightarrow>
                         (case toDynamic rt b n (md_out m) (Some (VPtr (Some out))) of
                            Inl e \<Rightarrow> if leaf e = ValuePanic then RpcPanics else Fails (CodeInternal, ''cannot encode response: '' @ vtext e)
                          | Inr response \<Rightarrow> Replies response)))))"

text \<open>\<^verbatim>\<open>grpcHandler\<close>: what the runtime decoded, by way of the interceptors if there are any.\<close>

definition grpcHandler :: "('f pmsg option \<Rightarrow> 'f rpc_outcome) \<Rightarrow> (('f pmsg option \<Rightarrow> 'f rpc_outcome) \<Rightarrow> 'f pmsg option \<Rightarrow> 'f rpc_outcome) option \<Rightarrow>
    (grpc_status, 'f pmsg) result \<Rightarrow> 'f rpc_outcome" where
  "grpcHandler body interceptor dec =
     (case dec of
        Inl s \<Rightarrow> Fails s
      | Inr request \<Rightarrow> (case interceptor of None \<Rightarrow> body (Some request) | Some chain \<Rightarrow> chain body (Some request)))"

definition fullMethod :: "string \<Rightarrow> 'h method_def \<Rightarrow> string" where
  "fullMethod pkg m = pkg @ ''.'' @ md_serviceName m @ ''/'' @ md_name m"

text \<open>\<^verbatim>\<open>grpcServiceDesc\<close>: the name of the service, and its methods by name.\<close>

definition grpcServiceDesc :: "string \<Rightarrow> string \<Rightarrow> 'h method_def list \<Rightarrow> string \<times> (string \<times> 'h method_def) list \<times> string" where
  "grpcServiceDesc pkg service ms = (pkg @ ''.'' @ service, map (\<lambda>m. (md_name m, m)) ms, fileNameFor pkg)"

section \<open>The server\<close>

record 'x api_config =
  ac_Addr :: string
  ac_Package :: string
  ac_Insecure :: bool
  ac_Creds :: "'x option"
  ac_DisableReflection :: bool
  ac_MaxRecvMsgSize :: int
  ac_KeepaliveMinTime :: int
  ac_ConnectionTimeout :: int
  ac_GracefulStopTimeout :: int
  ac_UnaryInterceptors :: "'x list"
  ac_ServerOptions :: "'x list"

definition api_DefaultAddr :: string where "api_DefaultAddr = '':50051''"
definition api_DefaultMaxRecvMsgSize :: int where "api_DefaultMaxRecvMsgSize = 8 * 2 ^ 20"
definition api_DefaultKeepaliveMinTime :: int where "api_DefaultKeepaliveMinTime = 30000000000"
definition api_DefaultConnectionTimeout :: int where "api_DefaultConnectionTimeout = 20000000000"
definition api_DefaultGracefulStopTimeout :: int where "api_DefaultGracefulStopTimeout = 15000000000"

definition withDefaults :: "'x api_config \<Rightarrow> 'x api_config" where
  "withDefaults c =
     c\<lparr>ac_Addr := if ac_Addr c = [] then api_DefaultAddr else ac_Addr c,
       ac_MaxRecvMsgSize := if ac_MaxRecvMsgSize c \<le> 0 then api_DefaultMaxRecvMsgSize else ac_MaxRecvMsgSize c,
       ac_KeepaliveMinTime := if ac_KeepaliveMinTime c \<le> 0 then api_DefaultKeepaliveMinTime else ac_KeepaliveMinTime c,
       ac_ConnectionTimeout := if ac_ConnectionTimeout c \<le> 0 then api_DefaultConnectionTimeout else ac_ConnectionTimeout c,
       ac_GracefulStopTimeout := if ac_GracefulStopTimeout c \<le> 0 then api_DefaultGracefulStopTimeout else ac_GracefulStopTimeout c\<rparr>"

record ('x, 'h) api_server =
  as_cfg :: "'x api_config"
  as_services :: "'h services"
  as_serving :: bool
  as_started :: bool
  as_closed :: bool
  as_ready :: bool

definition Setup_grpcapi :: "bool \<Rightarrow> 'x api_config \<Rightarrow> (api_error, ('x, 'h) api_server) result" where
  "Setup_grpcapi has_app cfg0 =
     (if \<not> has_app then Inl AppRequired
      else
        (let cfg = withDefaults cfg0
         in if ac_Package cfg = [] then Inl PackageRequired
            else (case validatePackage (ac_Package cfg) of
                Some e \<Rightarrow> Inl (BadName e)
              | None \<Rightarrow>
                  if ac_Creds cfg = None \<and> \<not> ac_Insecure cfg then Inl CredsRequired
                  else Inr \<lparr>as_cfg = cfg, as_services = [], as_serving = False, as_started = False, as_closed = False, as_ready = False\<rparr>)))"

datatype 'x api_setting = ServerCreds 'x | ServerPlaintext | ServerMaxRecv int | ServerConnTimeout int | ServerKeepalive int bool | ServerChain "'x list" | ServerCustom 'x

definition api_serverOptions :: "'x api_config \<Rightarrow> 'x api_setting list" where
  "api_serverOptions c =
     [case ac_Creds c of Some x \<Rightarrow> ServerCreds x | None \<Rightarrow> ServerPlaintext, ServerMaxRecv (ac_MaxRecvMsgSize c), ServerConnTimeout (ac_ConnectionTimeout c),
      ServerKeepalive (ac_KeepaliveMinTime c) False] @
     (if ac_UnaryInterceptors c \<noteq> [] then [ServerChain (ac_UnaryInterceptors c)] else []) @ map ServerCustom (ac_ServerOptions c)"

definition serviceNames :: "('x, 'h) api_server \<Rightarrow> string list" where
  "serviceNames s = sort (map (\<lambda>name. ac_Package (as_cfg s) @ ''.'' @ name) (mkeys (as_services s)))"

text \<open>
  \<^verbatim>\<open>Start\<close> takes the lock twice: to mark the server as started, and, once the schema is built and the port is open, to publish it. \<open>between\<close> is what
  other goroutines do to the server in the meantime.
\<close>

definition start_mark :: "('x, 'h) api_server \<Rightarrow> (api_error option, ('x, 'h) api_server) result" where
  "start_mark s = (if as_closed s then Inl (Some ServerClosed) else if as_started s then Inl None else Inr (s\<lparr>as_started := True\<rparr>))"

definition start_publish :: "('x, 'h) api_server \<Rightarrow> ('x, 'h) api_server" where
  "start_publish s = s\<lparr>as_serving := True, as_ready := True\<rparr>"

definition Start_grpcapi :: "(string \<Rightarrow> string) \<Rightarrow> type_table \<Rightarrow> nat \<Rightarrow> (file_proto \<Rightarrow> string option) \<Rightarrow> string option \<Rightarrow> (('x, 'h) api_server \<Rightarrow> ('x, 'h) api_server) \<Rightarrow>
    ('x, 'h) api_server \<Rightarrow> api_error option \<times> ('x, 'h) api_server" where
  "Start_grpcapi uni ty n NewFile listenErr between s =
     (case start_mark s of
        Inl res \<Rightarrow> (res, s)
      | Inr s \<Rightarrow>
          if as_services s = [] then (None, s)
          else (case buildSchema uni ty n NewFile (ac_Package (as_cfg s)) (as_services s) of
              Inl e \<Rightarrow> (Some e, s)
            | Inr _ \<Rightarrow>
                (case listenErr of
                   Some e \<Rightarrow> (Some (ListenFailed e), s)
                 | None \<Rightarrow> (None, start_publish (between s)))))"

text \<open>\<^verbatim>\<open>Stop\<close>; the second component says whether a running server was stopped.\<close>

definition Stop_grpcapi :: "('x, 'h) api_server \<Rightarrow> bool \<times> ('x, 'h) api_server" where
  "Stop_grpcapi s = (if as_closed s then (False, s) else (as_serving s, s\<lparr>as_closed := True, as_serving := False\<rparr>))"

text \<open>A start that failed leaves the mark: the next one reports success, although nothing is served and nothing ever will be.\<close>

lemma failed_start_reports_success:
  assumes "Start_grpcapi uni ty n NewFile listenErr between s = (Some e, s')" and "\<not> as_closed s" and "\<not> as_serving s"
  shows "Start_grpcapi uni ty n NewFile listenErr' between' s' = (None, s')" and "\<not> as_serving s'"
  using assms by (auto simp: Start_grpcapi_def start_mark_def split: if_splits sum.splits option.splits)

text \<open>A server that is stopped while it starts is published all the same, and no later stop reaches it.\<close>

lemma stop_during_start:
  assumes "Start_grpcapi uni ty n NewFile None (\<lambda>s. snd (Stop_grpcapi s)) s = (None, s')" and "\<not> as_closed s" and "\<not> as_started s" and "as_services s \<noteq> []"
  shows "as_closed s' \<and> as_serving s' \<and> Stop_grpcapi s' = (False, s')"
  using assms by (auto simp: Start_grpcapi_def start_mark_def start_publish_def Stop_grpcapi_def split: if_splits sum.splits option.splits)

section \<open>The client\<close>

record 'x api_client_config =
  cc_Target :: string
  cc_Conn :: "nat option"
  cc_Package :: string
  cc_Insecure :: bool
  cc_Creds :: "'x option"
  cc_Timeout :: int
  cc_MaxRecvMsgSize :: int
  cc_KeepaliveTime :: int
  cc_DialOptions :: "'x list"

text \<open>The cache maps a struct to the builder its binding belongs to.\<close>

record api_client =
  cl_conn :: nat
  cl_owned :: bool
  cl_pkg :: string
  cl_timeout :: int
  cl_schema :: "(string, builder) gomap"

datatype 'x client_setting = ClientCreds 'x | ClientPlaintext | ClientMaxRecv int | ClientKeepalive int | ClientCustom 'x

definition NewClient_grpcapi :: "(string \<Rightarrow> 'x client_setting list \<Rightarrow> (string, nat) result) \<Rightarrow> 'x api_client_config \<Rightarrow> (api_error, api_client) result" where
  "NewClient_grpcapi dial cfg =
     (if cc_Package cfg = [] then Inl PackageRequired
      else (case validatePackage (cc_Package cfg) of
          Some e \<Rightarrow> Inl (BadName e)
        | None \<Rightarrow>
            let timeout = (if cc_Timeout cfg \<le> 0 then 30000000000 else cc_Timeout cfg);
                maxRecv = (if cc_MaxRecvMsgSize cfg \<le> 0 then api_DefaultMaxRecvMsgSize else cc_MaxRecvMsgSize cfg);
                client = (\<lambda>conn owned. \<lparr>cl_conn = conn, cl_owned = owned, cl_pkg = cc_Package cfg, cl_timeout = timeout, cl_schema = []\<rparr>)
            in (case cc_Conn cfg of
                  Some conn \<Rightarrow> Inr (client conn False)
                | None \<Rightarrow>
                    if cc_Target cfg = [] then Inl TargetOrConn
                    else if cc_Creds cfg = None \<and> \<not> cc_Insecure cfg then Inl CredsRequired
                    else (case dial (cc_Target cfg)
                          ([case cc_Creds cfg of Some x \<Rightarrow> ClientCreds x | None \<Rightarrow> ClientPlaintext, ClientMaxRecv maxRecv] @
                           (if cc_KeepaliveTime cfg > 0 then [ClientKeepalive (cc_KeepaliveTime cfg)] else []) @ map ClientCustom (cc_DialOptions cfg)) of
                        Inl e \<Rightarrow> Inl (DialFailed e)
                      | Inr conn \<Rightarrow> Inr (client conn True)))))"

text \<open>\<^verbatim>\<open>Close\<close>: the connection to close, if there is one to close.\<close>

definition Close_grpcapi :: "api_client option \<Rightarrow> nat option" where
  "Close_grpcapi c = (case c of None \<Rightarrow> None | Some c \<Rightarrow> if cl_owned c then Some (cl_conn c) else None)"

definition resolve_schema :: "(file_proto \<Rightarrow> string option) \<Rightarrow> builder \<Rightarrow> api_error option" where
  "resolve_schema NewFile b =
     (let file = file_of b []
      in (case NewFile file of
            Some e \<Rightarrow> Some (InvalidFile e)
          | None \<Rightarrow> map_option MessageVanished (missing_message b file)))"

definition client_binding :: "(string \<Rightarrow> string) \<Rightarrow> type_table \<Rightarrow> nat \<Rightarrow> (file_proto \<Rightarrow> string option) \<Rightarrow> api_client \<Rightarrow> string \<Rightarrow> (api_error, builder \<times> api_client) result" where
  "client_binding uni ty n NewFile c goType =
     (case mget (cl_schema c) goType of
        Some b \<Rightarrow> Inr (b, c)
      | None \<Rightarrow>
          (case schema_message uni ty n (GStruct goType) (newSchemaBuilder (cl_pkg c)) of
             Inl e \<Rightarrow> Inl (SchemaFailed e)
           | Inr (b, _) \<Rightarrow>
               (case resolve_schema NewFile b of
                  Some e \<Rightarrow> Inl e
                | None \<Rightarrow> Inr (b, c\<lparr>cl_schema := fold (\<lambda>s. mput s b) (sb_orderedBinds b) (cl_schema c)\<rparr>))))"

text \<open>\<open>call\<close> is \<^verbatim>\<open>conn.Invoke\<close>: it is given the method and the request, and has a status or the response.\<close>

definition Invoke_grpcapi :: "(string \<Rightarrow> string) \<Rightarrow> type_table \<Rightarrow> nat \<Rightarrow> (file_proto \<Rightarrow> string option) \<Rightarrow> 'f value_rt \<Rightarrow> (string \<Rightarrow> 'f pmsg \<Rightarrow> (grpc_status, 'f pmsg) result) \<Rightarrow>
    api_client option \<Rightarrow> string \<Rightarrow> string \<Rightarrow> string \<Rightarrow> string \<Rightarrow> 'f gval option \<Rightarrow> (api_error, 'f gval) result \<times> api_client option" where
  "Invoke_grpcapi uni ty n NewFile rt call client inType outType service method_name arg =
     (case client of
        None \<Rightarrow> (Inl NilClient, None)
      | Some c \<Rightarrow>
          (case arg of
             None \<Rightarrow> (Inl NilRequest, Some c)
           | Some v \<Rightarrow>
               (case client_binding uni ty n NewFile c inType of
                  Inl e \<Rightarrow> (Inl e, Some c)
                | Inr (bi, c) \<Rightarrow>
                    (case client_binding uni ty n NewFile c outType of
                       Inl e \<Rightarrow> (Inl e, Some c)
                     | Inr (bo, c) \<Rightarrow>
                         (case toDynamic rt bi n inType (Some (VPtr (Some v))) of
                            Inl e \<Rightarrow> (Inl (EncodeFailed e), Some c)
                          | Inr request \<Rightarrow>
                              (case call (''/'' @ cl_pkg c @ ''.'' @ service @ ''/'' @ method_name) request of
                                 Inl s \<Rightarrow> (Inl (CallStatus s), Some c)
                               | Inr response \<Rightarrow>
                                   (case fromDynamic rt bo n outType response (vr_Zero rt (GStruct outType)) of
                                      Inl e \<Rightarrow> (Inl (DecodeFailed e), Some c)
                                    | Inr out \<Rightarrow> (Inr out, Some c))))))))"

section \<open>Registration\<close>

text \<open>Services have names of protobuf, and no two methods of one have the same name.\<close>

definition services_ok :: "'h services \<Rightarrow> bool" where
  "services_ok services \<longleftrightarrow> (\<forall>name ms. mget services name = Some ms \<longrightarrow>
     validateIdentifier name ''service name'' = None \<and> distinct (map md_name ms) \<and> (\<forall>m \<in> set ms. validateIdentifier (md_name m) ''method name'' = None))"

lemma newMethodDef_name: "newMethodDef name v = Inr m \<Longrightarrow> md_name m = name \<and> validateIdentifier name ''method name'' = None"
  by (auto simp: newMethodDef_def split: option.splits handler_value.splits if_splits sig_type.splits gtype.splits)

lemma add_methods_ok:
  assumes "add_methods owner service ms cs = (ms', e)"
    and "distinct (map md_name ms) \<and> (\<forall>m \<in> set ms. validateIdentifier (md_name m) ''method name'' = None)"
  shows "distinct (map md_name ms') \<and> (\<forall>m \<in> set ms'. validateIdentifier (md_name m) ''method name'' = None) \<and> (\<exists>new. ms' = ms @ new \<and>
    (e = None \<longrightarrow> list_all2 (\<lambda>c m. newMethodDef (cf_grpc c) (cf_value c) = Inr m) cs new))"
  using assms
proof (induction cs arbitrary: ms)
  case (Cons c cs)
  show ?case
  proof (cases "newMethodDef (cf_grpc c) (cf_value c)")
    case (Inr m)
    note m = newMethodDef_name [OF Inr]
    show ?thesis
    proof (cases "md_name m \<in> set (map md_name ms)")
      case True
      then show ?thesis using Cons.prems Inr by auto
    next
      case False
      then have run: "add_methods owner service (ms @ [m]) cs = (ms', e)" using Cons.prems(1) Inr by simp
      have "distinct (map md_name (ms @ [m])) \<and> (\<forall>m \<in> set (ms @ [m]). validateIdentifier (md_name m) ''method name'' = None)"
        using Cons.prems(2) False m by auto
      from Cons.IH [OF run this] Inr show ?thesis by force
    qed
  qed (use Cons.prems in auto)
qed simp

lemma registerController_ok:
  assumes "services_ok services" and "registerController ctl services = (services', e)"
  shows "services_ok services'"
proof (cases ctl)
  case (StructController owner fs namer)
  show ?thesis
  proof (cases "services' = services")
    case False
    then obtain cs given where cs: "candidates owner fs = Inr cs" "namer = Some given" "validateIdentifier (TrimSpace given) ''service name'' = None"
      using assms(2) StructController by (auto simp: registerController_def Let_def split: sum.splits if_splits option.splits)
    let ?s = "TrimSpace given" and ?old = "case mget services (TrimSpace given) of Some ms \<Rightarrow> ms | None \<Rightarrow> []"
    obtain ms e' where run: "add_methods owner ?s ?old cs = (ms, e')" by fastforce
    have "distinct (map md_name ?old) \<and> (\<forall>m \<in> set ?old. validateIdentifier (md_name m) ''method name'' = None)"
      using assms(1) by (auto simp: services_ok_def split: option.splits)
    from add_methods_ok [OF run this] have ms: "distinct (map md_name ms)" "\<forall>m \<in> set ms. validateIdentifier (md_name m) ''method name'' = None" by auto
    have "services' = mput ?s ms services \<or> services' = mput ?s (sort_key md_name ms) services"
      using assms(2) False StructController cs run by (auto simp: registerController_def Let_def split: if_splits option.splits)
    moreover have "distinct (map md_name (sort_key md_name ms))"
      using ms(1) by (metis distinct_map distinct_sort set_sort)
    ultimately show ?thesis using assms(1) ms cs(3) unfolding services_ok_def by (auto split: if_splits)
  qed (use assms in simp)
qed (use assms in \<open>auto simp: registerController_def\<close>)

text \<open>A controller that is refused has left behind the methods that came before the one at fault.\<close>

lemma refused_controller_leaves_methods:
  assumes "registerController (StructController owner [c1, c2] (Some name)) services = (services', Some (InHandler owner (cf_Name c2) e))"
    and "mget services (TrimSpace name) = None" and "newMethodDef (cf_grpc c1) (cf_value c1) = Inr m"
    and "newMethodDef (cf_grpc c2) (cf_value c2) = Inl e" and "cf_grpc c1 \<noteq> ''-''" and "cf_grpc c2 \<notin> {[], ''-''}" and "cf_Exported c1 \<and> cf_Exported c2"
  shows "mget services' (TrimSpace name) = Some [m]"
proof -
  have "cf_grpc c1 \<noteq> []" using newMethodDef_name [OF assms(3)] by (auto simp: validateIdentifier_def)
  then show ?thesis using assms by (auto simp: registerController_def Let_def split: option.splits)
qed

section \<open>The file of the services\<close>

lemma build_methods_ok:
  assumes "complete_schema uni ty b" and "build_methods uni ty n service ms b = Inr (b', built)"
  shows "complete_schema uni ty b' \<and> grows b b' \<and> map md_name built = map md_name ms \<and>
    (\<forall>m \<in> set built. md_serviceName m = service \<and> deref (md_inType m) = GStruct (md_in m) \<and> deref (md_outType m) = GStruct (md_out m) \<and>
       md_in m \<in> entered b' \<and> md_out m \<in> entered b') \<and>
    list_all2 (\<lambda>m m'. md_handler m' = md_handler m \<and> md_inType m' = md_inType m \<and> md_outType m' = md_outType m) ms built"
  using assms
proof (induction ms arbitrary: b built)
  case (Cons m ms)
  from Cons.prems(2) obtain b1 i b2 out rest where r: "schema_message uni ty n (md_inType m) b = Inr (b1, i)" "schema_message uni ty n (md_outType m) b1 = Inr (b2, out)"
      "build_methods uni ty n service ms b2 = Inr (b', rest)" "built = m\<lparr>md_serviceName := service, md_in := i, md_out := out\<rparr> # rest"
    by (auto simp: and_then_Inr_iff split: sum.splits prod.splits)
  from complete_message [OF Cons.prems(1) r(1)] have 1: "complete_schema uni ty b1" "grows b b1" "deref (md_inType m) = GStruct i" "i \<in> entered b1" by auto
  from complete_message [OF 1(1) r(2)] have 2: "complete_schema uni ty b2" "grows b1 b2" "deref (md_outType m) = GStruct out" "out \<in> entered b2" by auto
  from Cons.IH [OF 2(1) r(3)] have 3: "complete_schema uni ty b'" "grows b2 b'" "map md_name rest = map md_name ms"
    "\<forall>m \<in> set rest. md_serviceName m = service \<and> deref (md_inType m) = GStruct (md_in m) \<and> deref (md_outType m) = GStruct (md_out m) \<and>
       md_in m \<in> entered b' \<and> md_out m \<in> entered b'"
    "list_all2 (\<lambda>m m'. md_handler m' = md_handler m \<and> md_inType m' = md_inType m \<and> md_outType m' = md_outType m) ms rest" by auto
  have "i \<in> entered b'" "out \<in> entered b'" using 1(4) 2(2,4) 3(2) by (auto simp: grows_def)
  then show ?case using 1 2 3 by (auto simp: r(4) intro: schema_grows_trans)
qed (simp add: schema_grows_refl)

lemma build_services_ok:
  assumes "complete_schema uni ty b" and "build_services uni ty n services names b = Inr (b', built)"
  shows "complete_schema uni ty b' \<and> grows b b' \<and> map fst built = names \<and>
    (\<forall>(name, ms) \<in> set built. \<forall>m \<in> set ms. md_serviceName m = name \<and> deref (md_inType m) = GStruct (md_in m) \<and> deref (md_outType m) = GStruct (md_out m) \<and>
       md_in m \<in> entered b' \<and> md_out m \<in> entered b') \<and>
    (\<forall>(name, ms) \<in> set built. map md_name ms = map md_name (case mget services name of Some ms \<Rightarrow> ms | None \<Rightarrow> []))"
  using assms
proof (induction names arbitrary: b built)
  case (Cons name names)
  from Cons.prems(2) obtain b1 ms rest where r: "build_methods uni ty n name (case mget services name of Some ms \<Rightarrow> ms | None \<Rightarrow> []) b = Inr (b1, ms)"
      "build_services uni ty n services names b1 = Inr (b', rest)" "built = (name, ms) # rest"
    by (auto simp: and_then_Inr_iff)
  note 1 = build_methods_ok [OF Cons.prems(1) r(1)]
  note 2 = Cons.IH [OF conjunct1 [OF 1] r(2)]
  have "\<forall>m \<in> set ms. md_in m \<in> entered b' \<and> md_out m \<in> entered b'" using 1 2 by (auto simp: grows_def)
  then show ?case using 1 2 by (auto simp: r(3) intro: schema_grows_trans)
qed (simp add: schema_grows_refl)

lemma binding_name_entered: "complete_schema uni ty b \<Longrightarrow> s \<in> entered b \<Longrightarrow> binding_name b s = sb_pkg b @ ''.'' @ ty_Name ty s"
  using mget_None_iff [of "sb_byType b" s]
  by (cases "mget (sb_byType b) s") (auto simp: complete_schema_def schema_inv_def cells_ok_def entered_def binding_name_def)

lemma message_named: "complete_schema uni ty b \<Longrightarrow> s \<in> entered b \<Longrightarrow> \<exists>m \<in> set (fl_MessageType (file_of b services)). mp_Name m = ty_Name ty s"
  using complete_done [of uni ty b s] finalized_fields(1) [OF refl]
  by (auto simp: complete_schema_def schema_inv_def file_of_def message_of_def)

text \<open>
  C15. The file a server publishes is whole. When the schema of its services is built, no two messages have the same name, every optional field has a one-of
  of its own, every reference of a field is to a message of the file or to the timestamp whose file is then imported, every method takes and returns
  messages of the file, and the file lists exactly the services and methods that were registered.
\<close>

theorem published_file_whole:
  assumes "buildSchema uni ty n NewFile pkg services = Inr (b, file, built)"
  shows "NewFile file = None \<and> fl_Package file = pkg \<and> distinct (map mp_Name (fl_MessageType file)) \<and>
    (\<forall>m \<in> set (fl_MessageType file). oneofs_ok m \<and> (\<forall>f \<in> set (mp_Field m). reference_ok file f)) \<and>
    (\<forall>se \<in> set (fl_Service file). \<forall>me \<in> set (se_Method se). \<forall>ref \<in> {me_InputType me, me_OutputType me}.
       \<exists>m \<in> set (fl_MessageType file). ref = ''.'' @ pkg @ ''.'' @ mp_Name m) \<and>
    map se_Name (fl_Service file) = sort (mkeys services) \<and>
    (\<forall>se \<in> set (fl_Service file). map me_Name (se_Method se) = map md_name (case mget services (se_Name se) of Some ms \<Rightarrow> ms | None \<Rightarrow> []))"
proof -
  have bs: "build_services uni ty n services (sort (mkeys services)) (newSchemaBuilder pkg) = Inr (b, built)"
    and fl: "file = file_of b (map (\<lambda>(name, ms). service_proto_of b name ms) built)" and valid: "NewFile file = None"
    using assms by (auto simp: buildSchema_def Let_def and_then_Inr_iff split: option.splits)
  note ok = build_services_ok [OF complete_new bs]
  then have c: "complete_schema uni ty b" and pkg: "sb_pkg b = pkg" and names: "map fst built = sort (mkeys services)"
    by (auto simp: grows_def newSchemaBuilder_def)
  have sv: "fl_Service file = map (\<lambda>(name, ms). service_proto_of b name ms) built" "fl_Package file = pkg" by (simp_all add: fl file_of_def pkg)
  have ref: "\<exists>m \<in> set (fl_MessageType file). ''.'' @ binding_name b s = ''.'' @ pkg @ ''.'' @ mp_Name m" if s: "s \<in> entered b" for s
  proof -
    obtain m where "m \<in> set (fl_MessageType file)" "mp_Name m = ty_Name ty s"
      using message_named [OF c s, of "map (\<lambda>(name, ms). service_proto_of b name ms) built"] fl by auto
    then show ?thesis using binding_name_entered [OF c s] pkg by (intro bexI [of _ m]) simp_all
  qed
  have "\<exists>m \<in> set (fl_MessageType file). ref = ''.'' @ pkg @ ''.'' @ mp_Name m"
    if se: "se \<in> set (fl_Service file)" "me \<in> set (se_Method se)" "ref \<in> {me_InputType me, me_OutputType me}" for se me ref
  proof -
    obtain name ms m where "(name, ms) \<in> set built" "m \<in> set ms" "ref = ''.'' @ binding_name b (md_in m) \<or> ref = ''.'' @ binding_name b (md_out m)"
      using se by (auto simp: sv service_proto_of_def)
    moreover have "md_in m \<in> entered b \<and> md_out m \<in> entered b" using ok calculation(1,2) by blast
    ultimately show ?thesis using ref by metis
  qed
  moreover have "map se_Name (fl_Service file) = sort (mkeys services)"
    unfolding names [symmetric] sv by (simp add: comp_def service_proto_of_def split_beta)
  moreover have "map me_Name (se_Method se) = map md_name (case mget services (se_Name se) of Some ms \<Rightarrow> ms | None \<Rightarrow> [])" if "se \<in> set (fl_Service file)" for se
  proof -
    obtain name ms where "(name, ms) \<in> set built" "se = service_proto_of b name ms" using \<open>se \<in> set (fl_Service file)\<close> by (auto simp: sv)
    then show ?thesis using ok by (auto simp: service_proto_of_def comp_def)
  qed
  ultimately show ?thesis using schema_file_ok [OF c] valid sv by (auto simp: fl)
qed

text \<open>Building the schema ends however the types of the requests and responses refer to each other.\<close>

lemma build_methods_ends:
  assumes "finite S" and "closed_types uni ty S" and "complete_schema uni ty b" and "card S < n"
    and "\<forall>m \<in> set ms. \<exists>i out. md_inType m = GStruct i \<and> md_outType m = GStruct out \<and> i \<in> S \<and> out \<in> S"
  shows "build_methods uni ty n service ms b \<noteq> Inl (SchemaFailed SchemaOutOfFuel) \<and>
    (\<forall>e. build_methods uni ty n service ms b = Inl (SchemaFailed e) \<longrightarrow> \<not> out_of_fuel e)"
  using assms(3,5)
proof (induction ms arbitrary: b)
  case (Cons m ms)
  obtain i out where t: "md_inType m = GStruct i" "md_outType m = GStruct out" "i \<in> S" "out \<in> S" using Cons.prems(2) by auto
  have ends: "\<not> out_of_fuel e" if "schema_message uni ty n (GStruct s) b = Inl e" "complete_schema uni ty b" "s \<in> S" for s b e
  proof -
    have "card (S - entered b) \<le> card S" by (rule card_mono) (use assms(1) in auto)
    then show ?thesis using schema_message_ends [OF assms(1,2), of n] that assms(4) unfolding ends_below_def complete_schema_def by auto
  qed
  show ?case
  proof (cases "schema_message uni ty n (GStruct i) b")
    case (Inl e)
    then show ?thesis using ends [OF Inl Cons.prems(1) t(3)] t by auto
  next
    case (Inr x)
    then obtain b1 i' where 1: "schema_message uni ty n (GStruct i) b = Inr (b1, i')" by (cases x) auto
    have c1: "complete_schema uni ty b1" using complete_message [OF Cons.prems(1) 1] by blast
    show ?thesis
    proof (cases "schema_message uni ty n (GStruct out) b1")
      case (Inl e)
      then show ?thesis using ends [OF Inl c1 t(4)] t 1 by auto
    next
      case (Inr y)
      then obtain b2 out' where 2: "schema_message uni ty n (GStruct out) b1 = Inr (b2, out')" by (cases y) auto
      have "complete_schema uni ty b2" using complete_message [OF c1 2] by blast
      from Cons.IH [OF this] Cons.prems(2) show ?thesis using t 1 2 by (auto simp: and_then_Inl_iff)
    qed
  qed
qed simp

section \<open>Client and server agree\<close>

text \<open>A struct has the same fields in every schema it is part of, and the conversions do not depend on the schema.\<close>

lemma fields_agree:
  assumes "complete_schema uni ty b" and "complete_schema uni ty b'" and "s \<in> entered b" and "s \<in> entered b'"
  shows "fields_in b s = fields_in b' s"
  using complete_finished [OF assms(1,3)] complete_finished [OF assms(2,4)] by (simp add: finished_def)

lemma nested_entered: "complete_schema uni ty b \<Longrightarrow> s \<in> entered b \<Longrightarrow> f \<in> set (fields_in b s) \<Longrightarrow> fb_nested f = Some r \<Longrightarrow> r \<in> entered b"
  using complete_finished [of uni ty b s] by (auto simp: finished_def resolved_def)

lemma scalarToProto_cong: "(\<And>r. fb_nested f = Some r \<Longrightarrow> encode r = encode' r) \<Longrightarrow> scalarToProto rt encode f v = scalarToProto rt encode' f v"
  by (cases "fb_nested f") (simp_all add: scalarToProto_def Let_def)

lemma to_list_cong: "(\<And>r. fb_nested f = Some r \<Longrightarrow> encode r = encode' r) \<Longrightarrow> to_list rt encode nm f i vs = to_list rt encode' nm f i vs"
  using scalarToProto_cong [of f encode encode' rt] by (induction vs arbitrary: i) (simp_all cong: sum.case_cong)

lemma to_fields_cong:
  "(\<And>f r. f \<in> set fs \<Longrightarrow> fb_nested f = Some r \<Longrightarrow> encode r = encode' r) \<Longrightarrow> to_fields rt encode nm nums fs src dst = to_fields rt encode' nm nums fs src dst"
proof (induction fs arbitrary: dst)
  case (Cons f fs)
  have same: "\<And>r. fb_nested f = Some r \<Longrightarrow> encode r = encode' r" using Cons.prems by auto
  have "to_present rt encode nm nums f v = to_present rt encode' nm nums f v" for v
    by (simp add: to_present_def scalarToProto_cong [OF same] to_list_cong [OF same] cong: gval.case_cong option.case_cong if_cong)
  then have "to_field rt encode nm nums f v = to_field rt encode' nm nums f v" for v
    by (simp add: to_field_def cong: gval.case_cong option.case_cong)
  moreover have "to_fields rt encode nm nums fs src d = to_fields rt encode' nm nums fs src d" for d
    by (rule Cons.IH) (use Cons.prems in auto)
  ultimately show ?case by (simp cong: if_cong)
qed simp

lemma toDynamic_agree:
  assumes "complete_schema uni ty b" and "complete_schema uni ty b'" and "sb_pkg b = sb_pkg b'" and "s \<in> entered b" and "s \<in> entered b'"
  shows "toDynamic rt b n s = toDynamic rt b' n s"
  using assms(4,5)
proof (induction n arbitrary: s)
  case (Suc n)
  have nm: "binding_name b s = binding_name b' s" using binding_name_entered [OF assms(1) Suc.prems(1)] binding_name_entered [OF assms(2) Suc.prems(2)] assms(3) by simp
  have fs: "fields_in b s = fields_in b' s" by (rule fields_agree [OF assms(1,2) Suc.prems])
  have rec: "toDynamic rt b n r = toDynamic rt b' n r" if "f \<in> set (fields_in b' s)" "fb_nested f = Some r" for f r
    by (rule Suc.IH) (use nested_entered [OF assms(1) Suc.prems(1)] nested_entered [OF assms(2) Suc.prems(2)] that fs in auto)
  have "to_fields rt (toDynamic rt b n) nm nums (fields_in b' s) src dst = to_fields rt (toDynamic rt b' n) nm nums (fields_in b' s) src dst" for nm nums src dst
    by (rule to_fields_cong) (rule rec)
  then show ?case by (intro ext) (simp add: nm fs cong: gval.case_cong option.case_cong)
qed (intro ext, simp)

lemma scalarFromProto_cong: "(\<And>r. fb_nested f = Some r \<Longrightarrow> decode r = decode' r) \<Longrightarrow> scalarFromProto rt decode f p v = scalarFromProto rt decode' f p v"
  by (cases "fb_nested f") (simp_all add: scalarFromProto_def cong: pval.case_cong gval.case_cong)

lemma from_list_cong: "(\<And>r. fb_nested f = Some r \<Longrightarrow> decode r = decode' r) \<Longrightarrow> from_list rt decode nm f i ps = from_list rt decode' nm f i ps"
  using scalarFromProto_cong [of f decode decode' rt] by (induction ps arbitrary: i) (simp_all cong: sum.case_cong)

lemma from_fields_cong:
  "(\<And>f r. f \<in> set fs \<Longrightarrow> fb_nested f = Some r \<Longrightarrow> decode r = decode' r) \<Longrightarrow> from_fields rt decode nm nums fs src dst = from_fields rt decode' nm nums fs src dst"
proof (induction fs arbitrary: dst)
  case (Cons f fs)
  have same: "\<And>r. fb_nested f = Some r \<Longrightarrow> decode r = decode' r" using Cons.prems by auto
  have "from_field rt decode nm f src v = from_field rt decode' nm f src v" for v
    by (simp add: from_field_def Let_def scalarFromProto_cong [OF same] from_list_cong [OF same] del: from_list.simps
        cong: pval.case_cong option.case_cong list.case_cong if_cong)
  moreover have "from_fields rt decode nm nums fs src d = from_fields rt decode' nm nums fs src d" for d
    by (rule Cons.IH) (use Cons.prems in auto)
  ultimately show ?case by (simp cong: if_cong)
qed simp

lemma fromDynamic_agree:
  assumes "complete_schema uni ty b" and "complete_schema uni ty b'" and "sb_pkg b = sb_pkg b'" and "s \<in> entered b" and "s \<in> entered b'"
  shows "fromDynamic rt b n s = fromDynamic rt b' n s"
  using assms(4,5)
proof (induction n arbitrary: s)
  case (Suc n)
  have nm: "binding_name b s = binding_name b' s" using binding_name_entered [OF assms(1) Suc.prems(1)] binding_name_entered [OF assms(2) Suc.prems(2)] assms(3) by simp
  have fs: "fields_in b s = fields_in b' s" by (rule fields_agree [OF assms(1,2) Suc.prems])
  have rec: "fromDynamic rt b n r = fromDynamic rt b' n r" if "f \<in> set (fields_in b' s)" "fb_nested f = Some r" for f r
    by (rule Suc.IH) (use nested_entered [OF assms(1) Suc.prems(1)] nested_entered [OF assms(2) Suc.prems(2)] that fs in auto)
  have "from_fields rt (fromDynamic rt b n) nm nums (fields_in b' s) src dst = from_fields rt (fromDynamic rt b' n) nm nums (fields_in b' s) src dst" for nm nums src dst
    by (rule from_fields_cong) (rule rec)
  then show ?case by (intro ext) (simp add: nm fs cong: gval.case_cong option.case_cong)
qed (intro ext, simp)

text \<open>The schemas a client has cached.\<close>

definition client_ok :: "(string \<Rightarrow> string) \<Rightarrow> type_table \<Rightarrow> api_client \<Rightarrow> bool" where
  "client_ok uni ty c \<longleftrightarrow> (\<forall>s b. mget (cl_schema c) s = Some b \<longrightarrow> complete_schema uni ty b \<and> s \<in> entered b \<and> sb_pkg b = cl_pkg c)"

lemma mget_fold_same: "mget (fold (\<lambda>s. mput s b) xs m) s = (if s \<in> set xs then Some b else mget m s)"
  by (induction xs arbitrary: m) auto

lemma client_binding_ok:
  assumes "client_ok uni ty c" and "client_binding uni ty n NewFile c s = Inr (b, c')"
  shows "complete_schema uni ty b \<and> s \<in> entered b \<and> sb_pkg b = cl_pkg c \<and> client_ok uni ty c' \<and> cl_pkg c' = cl_pkg c"
proof (cases "mget (cl_schema c) s")
  case (Some b0)
  then show ?thesis using assms by (auto simp: client_binding_def client_ok_def)
next
  case None
  then obtain s' where m: "schema_message uni ty n (GStruct s) (newSchemaBuilder (cl_pkg c)) = Inr (b, s')"
      and c': "c' = c\<lparr>cl_schema := fold (\<lambda>s. mput s b) (sb_orderedBinds b) (cl_schema c)\<rparr>"
    using assms(2) by (auto simp: client_binding_def split: sum.splits option.splits prod.splits)
  from complete_message [OF complete_new m] have b: "complete_schema uni ty b" "s \<in> entered b" "sb_pkg b = cl_pkg c"
    by (auto simp: grows_def newSchemaBuilder_def)
  have "client_ok uni ty c'" unfolding client_ok_def
  proof (intro allI impI)
    fix r br assume r: "mget (cl_schema c') r = Some br"
    have "mget (cl_schema c') r = (if r \<in> set (sb_orderedBinds b) then Some b else mget (cl_schema c) r)" by (simp add: c' mget_fold_same)
    with r have "r \<in> set (sb_orderedBinds b) \<and> br = b \<or> mget (cl_schema c) r = Some br" by (simp split: if_splits)
    then consider "r \<in> set (sb_orderedBinds b)" "br = b" | "mget (cl_schema c) r = Some br" by blast
    then show "complete_schema uni ty br \<and> r \<in> entered br \<and> sb_pkg br = cl_pkg c'"
    proof cases
      case 1
      then show ?thesis using b complete_done [OF b(1), of r] by (simp add: c')
    next
      case 2
      then show ?thesis using assms(1) by (simp add: client_ok_def c')
    qed
  qed
  then show ?thesis using b by (simp add: c')
qed

text \<open>A connection to a server without interceptors. The runtime has the methods that were registered under the names of their descriptions.\<close>

definition grpc_route :: "string \<Rightarrow> (string \<times> 'h method_def list) list \<Rightarrow> string \<Rightarrow> 'h method_def option" where
  "grpc_route pkg built full =
     map_option snd (find (\<lambda>(path, m). path = full)
       (concat (map (\<lambda>(service, ms). case grpcServiceDesc pkg service ms of
          (sname, methods, _) \<Rightarrow> map (\<lambda>(mname, m). (''/'' @ sname @ ''/'' @ mname, m)) methods) built)))"

definition connected :: "string \<Rightarrow> (string \<times> 'h method_def list) list \<Rightarrow> ('h method_def \<Rightarrow> 'f pmsg option \<Rightarrow> 'f rpc_outcome) \<Rightarrow>
    string \<Rightarrow> 'f pmsg \<Rightarrow> (grpc_status, 'f pmsg) result" where
  "connected pkg built body full request =
     (case grpc_route pkg built full of
        None \<Rightarrow> Inl (CodeNumber 12, ''unknown method'')
      | Some m \<Rightarrow>
          (case grpcHandler (body m) None (Inr request) of
             Replies r \<Rightarrow> Inr r
           | RepliesNothing \<Rightarrow> Inr []
           | Fails s \<Rightarrow> Inl s
           | RpcPanics \<Rightarrow> Inl (CodeInternal, ''panic'')))"

lemma identifier_no_slash:
  assumes "validateIdentifier s what = None"
  shows "CHR ''/'' \<notin> set s"
proof -
  have "\<not> name_char CHR ''/''" by code_simp
  then show ?thesis using assms unfolding validateIdentifier_iff by blast
qed

lemma find_unique:
  assumes "x \<in> set xs" and "P x" and "\<And>y. y \<in> set xs \<Longrightarrow> P y \<Longrightarrow> y = x"
  shows "find P xs = Some x"
proof (cases "find P xs")
  case None
  then show ?thesis using assms(1,2) by (simp add: find_None_iff)
next
  case (Some y)
  then have "y \<in> set xs" "P y" by (auto simp: find_Some_iff)
  then show ?thesis using assms(3) Some by simp
qed

text \<open>Every method of every service is found under its own name.\<close>

lemma grpc_route_found:
  assumes "services_ok services" and "distinct (mkeys services)"
    and built: "build_services uni ty n services (sort (mkeys services)) (newSchemaBuilder pkg) = Inr (b, built)"
    and "(service, ms) \<in> set built" and "m \<in> set ms"
  shows "grpc_route pkg built (''/'' @ pkg @ ''.'' @ service @ ''/'' @ md_name m) = Some m"
proof -
  note ok = build_services_ok [OF complete_new built]
  have keys: "distinct (map fst built)" using ok assms(2) by simp
  have names: "validateIdentifier s ''service name'' = None \<and> distinct (map md_name xs) \<and> (\<forall>x \<in> set xs. CHR ''/'' \<notin> set (md_name x))"
    if "(s, xs) \<in> set built" for s xs
  proof -
    have "s \<in> fst ` set built" using that by force
    moreover have "set (map fst built) = set (mkeys services)" using ok by simp
    ultimately have "s \<in> set (mkeys services)" by simp
    then obtain old where old: "mget services s = Some old" using mget_None_iff [of services s] by auto
    have same: "map md_name xs = map md_name old" using ok that old by fastforce
    have "CHR ''/'' \<notin> set (md_name x)" if x: "x \<in> set xs" for x
    proof -
      have "set (map md_name xs) = set (map md_name old)" using same by (rule arg_cong)
      then obtain y where "y \<in> set old" "md_name x = md_name y" using x by auto
      moreover have "validateIdentifier (md_name y) ''method name'' = None" using assms(1) old \<open>y \<in> set old\<close> unfolding services_ok_def by blast
      ultimately show ?thesis using identifier_no_slash by metis
    qed
    moreover have "validateIdentifier s ''service name'' = None" "distinct (map md_name old)" using assms(1) old unfolding services_ok_def by blast+
    ultimately show ?thesis unfolding same by blast
  qed
  have one: "s = service \<and> m' = m" if "(s, xs) \<in> set built" "m' \<in> set xs" and path: "s @ ''/'' @ md_name m' = service @ ''/'' @ md_name m" for s xs m'
  proof -
    have free: "CHR ''/'' \<notin> set s" "CHR ''/'' \<notin> set service"
      using names [OF that(1)] names [OF assms(4)] identifier_no_slash by blast+
    have "takeWhile (\<lambda>c. c \<noteq> CHR ''/'') (s @ ''/'' @ md_name m') = takeWhile (\<lambda>c. c \<noteq> CHR ''/'') (service @ ''/'' @ md_name m)" by (simp only: path)
    moreover have "takeWhile (\<lambda>c. c \<noteq> CHR ''/'') (r @ ''/'' @ t) = r" if "CHR ''/'' \<notin> set r" for r t
      using that by (induction r) auto
    ultimately have s: "s = service" using free by metis
    then have "xs = ms" using keys that(1) assms(4) by (meson eq_key_imp_eq_value)
    then have d: "distinct (map md_name ms)" and "m' \<in> set ms" using names [OF assms(4)] that(2) by blast+
    moreover have "md_name m' = md_name m" using path unfolding s by simp
    ultimately have "m' = m" using assms(5) by (meson distinct_map inj_onD)
    then show ?thesis using s by simp
  qed
  define routes where "routes = concat (map (\<lambda>(service, ms). map (\<lambda>m. (''/'' @ (pkg @ ''.'' @ service) @ ''/'' @ md_name m, m)) ms) built)"
  have "find (\<lambda>(path, m'). path = ''/'' @ pkg @ ''.'' @ service @ ''/'' @ md_name m) routes = Some (''/'' @ pkg @ ''.'' @ service @ ''/'' @ md_name m, m)"
  proof (rule find_unique)
    show "(''/'' @ pkg @ ''.'' @ service @ ''/'' @ md_name m, m) \<in> set routes"
      using assms(4,5) by (force simp: routes_def)
    fix y assume "y \<in> set routes" and y: "case y of (path, m') \<Rightarrow> path = ''/'' @ pkg @ ''.'' @ service @ ''/'' @ md_name m"
    then obtain s xs m' where x: "(s, xs) \<in> set built" "m' \<in> set xs" "y = (''/'' @ (pkg @ ''.'' @ s) @ ''/'' @ md_name m', m')"
      by (auto simp: routes_def)
    then have "s @ ''/'' @ md_name m' = service @ ''/'' @ md_name m" using y by simp
    from one [OF x(1,2) this] x(3) show "y = (''/'' @ pkg @ ''.'' @ service @ ''/'' @ md_name m, m)" by simp
  qed simp
  moreover have "map (\<lambda>(service, ms). case grpcServiceDesc pkg service ms of
      (sname, methods, _) \<Rightarrow> map (\<lambda>(mname, m). (''/'' @ sname @ ''/'' @ mname, m)) methods) built =
    map (\<lambda>(service, ms). map (\<lambda>m. (''/'' @ (pkg @ ''.'' @ service) @ ''/'' @ md_name m, m)) ms) built"
    by (rule map_cong [OF refl]) (simp add: grpcServiceDesc_def comp_def split_beta del: append_assoc append_Cons)
  ultimately show ?thesis by (simp only: grpc_route_def routes_def option.map snd_conv)
qed

lemma toDynamic_pointer: "has_type rt ty (GStruct s) v \<Longrightarrow> toDynamic rt b n s (Some (VPtr (Some v))) = toDynamic rt b n s (Some v)"
  by (cases n) (auto elim!: has_typeE)

text \<open>The two ways in which a call between such parties can fail: a nil element in the request, or in the response.\<close>

definition nil_element :: "(api_error, 'f gval) result \<Rightarrow> bool" where
  "nil_element res \<longleftrightarrow> (\<exists>e nm. res = Inl (EncodeFailed e) \<and> leaf e = NilValue nm) \<or>
     (\<exists>t. res = Inl (CallStatus (CodeInternal, ''cannot encode response: '' @ t)))"


section \<open>An example\<close>

definition get_user :: "nat method_def" where
  "get_user = \<lparr>md_name = ''GetUser'', md_serviceName = [], md_handler = 0, md_inType = GStruct ''User'', md_outType = GStruct ''User'', md_in = [], md_out = []\<rparr>"

definition user_client :: api_client where
  "user_client = \<lparr>cl_conn = 0, cl_owned = True, cl_pkg = ''my.v1'', cl_timeout = 30000000000, cl_schema = []\<rparr>"

definition user_file :: file_proto where
  "user_file = file_of user_schema [\<lparr>se_Name = ''Users'', se_Method = [\<lparr>me_Name = ''GetUser'', me_InputType = ''.my.v1.User'', me_OutputType = ''.my.v1.User''\<rparr>]\<rparr>]"

abbreviation served :: "nat method_def" where
  "served \<equiv> get_user\<lparr>md_serviceName := ''Users'', md_in := ''User'', md_out := ''User''\<rparr>"

lemma user_server:
  "buildSchema (\<lambda>s. s) user_types 2 (\<lambda>_. None) ''my.v1'' [(''Users'', [get_user])] = Inr (user_schema, user_file, [(''Users'', [served])])"
  by code_simp

theorem published_file_whole_witness:
  "buildSchema (\<lambda>s. s) user_types 2 (\<lambda>_. None) ''my.v1'' [(''Users'', [get_user])] = Inr (user_schema, user_file, [(''Users'', [served])]) \<and>
   distinct (map mp_Name (fl_MessageType user_file)) \<and> map se_Name (fl_Service user_file) = sort [''Users'']"
  using published_file_whole [OF user_server] user_server by (simp add: mkeys_def)


end
