(* ===== verification/Cache.thy ===== *)
theory Cache
  imports Go_Lib
begin

text \<open>
  The cache contract (\<^verbatim>\<open>common/cache/Interface.go\<close>, \<^verbatim>\<open>value.go\<close>): how values are rendered
  and what a provider promises. The promise is an abstract machine over
  the entries that are visible at a point of time, and the locale \<open>provider\<close> says that an
  implementation refines it; what its clients rely on (a lock made of \<^verbatim>\<open>SetNX\<close>, a counter in a
  window) is proved once, from the locale. Instants and durations count nanoseconds.
\<close>

section \<open>Values\<close>

text \<open>What a caller may pass; the last three forms are rendered by code of the value or by JSON.\<close>

datatype 'v cache_value =
    VNil
  | VString string
  | VBytes string
  | VBinaryMarshaler 'v
  | VTextMarshaler 'v
  | VAny 'v

record 'v marshallers =
  MarshalBinary :: "'v \<Rightarrow> (string, string) result"
  MarshalText :: "'v \<Rightarrow> (string, string) result"
  JsonMarshal :: "'v \<Rightarrow> (string, string) result"

datatype cache_error =
    ErrKeyEmpty
  | ErrNotFound
  | NilValue
  | MarshalFailed string string
  | NotAnInteger
  | ProviderFailed string

definition marshalValue :: "'v marshallers \<Rightarrow> 'v cache_value \<Rightarrow> (cache_error, string) result" where
  "marshalValue ms value =
     (case value of
        VNil \<Rightarrow> Inl NilValue
      | VString v \<Rightarrow> Inr v
      | VBytes v \<Rightarrow> Inr v
      | VBinaryMarshaler v \<Rightarrow>
          (case MarshalBinary ms v of Inl e \<Rightarrow> Inl (MarshalFailed ''marshal binary'' e) | Inr b \<Rightarrow> Inr b)
      | VTextMarshaler v \<Rightarrow>
          (case MarshalText ms v of Inl e \<Rightarrow> Inl (MarshalFailed ''marshal text'' e) | Inr b \<Rightarrow> Inr b)
      | VAny v \<Rightarrow>
          (case JsonMarshal ms v of Inl e \<Rightarrow> Inl (MarshalFailed ''marshal value'' e) | Inr b \<Rightarrow> Inr b))"

section \<open>The contract\<close>

text \<open>An entry is a value and the instant from which it is no longer served, if there is one.\<close>

type_synonym entry = "string \<times> int option"
type_synonym view = "string \<rightharpoonup> entry"

definition NoExpiry :: int where
  "NoExpiry = 0"

definition deadline :: "int \<Rightarrow> int \<Rightarrow> int option" where
  "deadline now exp = (if exp \<le> 0 then None else Some (now + exp))"

definition alive :: "int \<Rightarrow> entry \<Rightarrow> bool" where
  "alive t x = (case snd x of None \<Rightarrow> True | Some d \<Rightarrow> t < d)"

definition prune :: "int \<Rightarrow> view \<Rightarrow> view" where
  "prune t m = (\<lambda>k. case m k of None \<Rightarrow> None | Some x \<Rightarrow> if alive t x then Some x else None)"

text \<open>The calls of the interface, and what they answer.\<close>

datatype 'v cache_op =
    OpSet string "'v cache_value" int
  | OpSetNX string "'v cache_value" int
  | OpGet string
  | OpDelete string
  | OpIncrement string int
  | OpTTL string
  | OpDeleteExpired

datatype cache_answer =
    AErr cache_error
  | AOk
  | AStored bool
  | AValue string
  | ACount int
  | ATTL int
  | ASwept

definition spec_get :: "view \<Rightarrow> string \<Rightarrow> cache_answer" where
  "spec_get m k = (case m k of None \<Rightarrow> AErr ErrNotFound | Some x \<Rightarrow> AValue (fst x))"

definition spec_ttl :: "int \<Rightarrow> view \<Rightarrow> string \<Rightarrow> cache_answer" where
  "spec_ttl t m k =
     (case m k of
        None \<Rightarrow> AErr ErrNotFound
      | Some x \<Rightarrow> (case snd x of None \<Rightarrow> ATTL NoExpiry | Some d \<Rightarrow> ATTL (d - t)))"

definition spec_increment :: "view \<Rightarrow> string \<Rightarrow> int \<Rightarrow> view \<times> cache_answer" where
  "spec_increment m k delta =
     (case m k of
        None \<Rightarrow> (m(k \<mapsto> (show_int (wrap64 delta), None)), ACount (wrap64 delta))
      | Some (v, d) \<Rightarrow>
          (case ParseInt v of
             None \<Rightarrow> (m, AErr NotAnInteger)
           | Some c \<Rightarrow> (m(k \<mapsto> (show_int (wrap64 (c + delta)), d)), ACount (wrap64 (c + delta)))))"

text \<open>One call at the instant \<open>t\<close> on the entries visible at that instant.\<close>

fun spec_step :: "'v marshallers \<Rightarrow> 'v cache_op \<Rightarrow> int \<Rightarrow> view \<Rightarrow> view \<times> cache_answer" where
  "spec_step ms (OpSet k v e) t m =
     (if k = '''' then (m, AErr ErrKeyEmpty)
      else (case marshalValue ms v of
          Inl err \<Rightarrow> (m, AErr err) | Inr s \<Rightarrow> (m(k \<mapsto> (s, deadline t e)), AOk)))"
| "spec_step ms (OpSetNX k v e) t m =
     (if k = '''' then (m, AErr ErrKeyEmpty)
      else (case marshalValue ms v of
          Inl err \<Rightarrow> (m, AErr err)
        | Inr s \<Rightarrow> if m k \<noteq> None then (m, AStored False) else (m(k \<mapsto> (s, deadline t e)), AStored True)))"
| "spec_step ms (OpGet k) t m = (m, if k = '''' then AErr ErrKeyEmpty else spec_get m k)"
| "spec_step ms (OpDelete k) t m = (if k = '''' then (m, AErr ErrKeyEmpty) else (m(k := None), AOk))"
| "spec_step ms (OpIncrement k delta) t m =
     (if k = '''' then (m, AErr ErrKeyEmpty) else spec_increment m k delta)"
| "spec_step ms (OpTTL k) t m = (m, if k = '''' then AErr ErrKeyEmpty else spec_ttl t m k)"
| "spec_step ms OpDeleteExpired t m = (m, ASwept)"

text \<open>How the results of the calls are reported.\<close>

definition err_answer :: "cache_error option \<Rightarrow> cache_answer" where
  "err_answer e = (case e of None \<Rightarrow> AOk | Some x \<Rightarrow> AErr x)"

definition val_answer :: "('a \<Rightarrow> cache_answer) \<Rightarrow> (cache_error, 'a) result \<Rightarrow> cache_answer" where
  "val_answer f r = (case r of Inl e \<Rightarrow> AErr e | Inr x \<Rightarrow> f x)"

text \<open>Sequences of calls, each at its instant.\<close>

fun spec_run :: "'v marshallers \<Rightarrow> (int \<times> 'v cache_op) list \<Rightarrow> view \<Rightarrow> cache_answer list" where
  "spec_run ms [] m = []"
| "spec_run ms ((t, op) # ops) m =
     (let (m', a) = spec_step ms op t (prune t m) in a # spec_run ms ops m')"

fun run_ops :: "('v cache_op \<Rightarrow> int \<Rightarrow> 's \<Rightarrow> 's \<times> cache_answer) \<Rightarrow> (int \<times> 'v cache_op) list \<Rightarrow> 's \<Rightarrow>
    's \<times> cache_answer list" where
  "run_ops step [] s = (s, [])"
| "run_ops step ((t, op) # ops) s =
     (let (s1, a) = step op t s; (s2, as) = run_ops step ops s1 in (s2, a # as))"

text \<open>The calls that cannot take a key away from its holder.\<close>

definition leaves :: "string \<Rightarrow> 'v cache_op \<Rightarrow> bool" where
  "leaves k op =
     (case op of OpSet k' v e \<Rightarrow> k' \<noteq> k | OpDelete k' \<Rightarrow> k' \<noteq> k | OpIncrement k' d \<Rightarrow> k' \<noteq> k | _ \<Rightarrow> True)"

lemma deadline_alive: "alive t (v, deadline t e)"
  by (simp add: alive_def deadline_def)

lemma prune_prune: "t \<le> t' \<Longrightarrow> prune t' (prune t m) = prune t' m"
  by (auto simp: prune_def alive_def fun_eq_iff split: option.splits)

lemma leaves_keeps:
  assumes "leaves k op" and "m k = Some x"
  shows "fst (spec_step ms op t m) k = Some x"
  using assms
  by (cases op; cases x) (auto simp: leaves_def spec_increment_def split: sum.splits option.splits prod.splits)

section \<open>What a provider promises\<close>

locale provider =
  fixes ms :: "'v marshallers"
    and step :: "'v cache_op \<Rightarrow> int \<Rightarrow> 's \<Rightarrow> 's \<times> cache_answer"
    and vis :: "'s \<Rightarrow> int \<Rightarrow> view"
    and inv :: "'s \<Rightarrow> bool"
    and ok :: "'v cache_op \<Rightarrow> int \<Rightarrow> bool"
  assumes step_inv: "inv s \<Longrightarrow> ok op t \<Longrightarrow> inv (fst (step op t s))"
    and refines: "inv s \<Longrightarrow> ok op t \<Longrightarrow> spec_step ms op t (vis s t) = (vis (fst (step op t s)) t, snd (step op t s))"
    and later: "inv s \<Longrightarrow> t \<le> t' \<Longrightarrow> vis s t' = prune t' (vis s t)"
begin

text \<open>Every sequence of calls is answered as the abstract machine answers it.\<close>

lemma trace_from:
  assumes "inv s" and "sorted (t # map fst ops)" and "\<forall>(t, op) \<in> set ops. ok op t"
  shows "snd (run_ops step ops s) = spec_run ms ops (vis s t)"
  using assms
proof (induction ops arbitrary: s t)
  case (Cons p ops)
  obtain u op where p: "p = (u, op)" by fastforce
  from Cons.prems p have pre: "inv s" "ok op u" "t \<le> u" "sorted (u # map fst ops)" "\<forall>(t, op) \<in> set ops. ok op t" by auto
  obtain s' a where st: "step op u s = (s', a)" by fastforce
  have "vis s u = prune u (vis s t)" using later pre by blast
  then have "spec_step ms op u (prune u (vis s t)) = (vis s' u, a)" using refines [of s op u] pre st by simp
  moreover have "snd (run_ops step ops s') = spec_run ms ops (vis s' u)"
    using Cons.IH [of s' u] step_inv [of s op u] pre st by simp
  ultimately show ?case using p st by (cases "run_ops step ops s'") simp
qed simp

text \<open>
  A lock: once a caller has set an absent key with an expiry, every other caller's \<^verbatim>\<open>SetNX\<close> on it
  fails until the expiry, whatever other calls are made, as long as nobody else overwrites,
  deletes or increments that key.
\<close>

lemma lock_held:
  assumes "inv s" and "vis s t0 k = Some (v, Some d)" and "sorted (t0 # map fst ops)"
    and "\<forall>(t, op) \<in> set ops. ok op t \<and> leaves k op \<and> t < d"
    and "i < length ops" and "ops ! i = (t, OpSetNX k w e)" and "k \<noteq> ''''" and "marshalValue ms w = Inr z"
  shows "snd (run_ops step ops s) ! i = AStored False"
  using assms
proof (induction ops arbitrary: s t0 i)
  case (Cons p ops)
  obtain u op where p: "p = (u, op)" by fastforce
  from Cons.prems p have pre: "inv s" "ok op u" "leaves k op" "t0 \<le> u" "u < d" "sorted (u # map fst ops)" by auto
  obtain s' a where st: "step op u s = (s', a)" by fastforce
  have "vis s u = prune u (vis s t0)" using later pre by blast
  then have here: "vis s u k = Some (v, Some d)" using Cons.prems(2) pre(5) by (simp add: prune_def alive_def)
  note ref = refines [OF pre(1,2)]
  have still: "vis s' u k = Some (v, Some d)" using leaves_keeps [OF pre(3), of "vis s u" "(v, Some d)" ms u] here ref st by simp
  show ?case
  proof (cases i)
    case 0
    then have "op = OpSetNX k w e" using Cons.prems(6) p by simp
    then have "a = AStored False" using ref here Cons.prems(7,8) st by simp
    with 0 p st show ?thesis by (cases "run_ops step ops s'") simp
  next
    case (Suc j)
    have "snd (run_ops step ops s') ! j = AStored False"
      using Cons.IH [of s' u j] still step_inv [OF pre(1,2)] st pre Cons.prems Suc p by simp
    with Suc p st show ?thesis by (cases "run_ops step ops s'") simp
  qed
qed simp

lemma lock_taken:
  assumes "inv s" and "ok (OpSetNX k w e) t" and "step (OpSetNX k w e) t s = (s', AStored True)" and "0 < e"
  shows "inv s'" "\<exists>v. vis s' t k = Some (v, Some (t + e))" "vis s t k = None" "k \<noteq> ''''"
proof -
  show "inv s'" using step_inv [OF assms(1,2)] assms(3) by simp
  have "spec_step ms (OpSetNX k w e) t (vis s t) = (vis s' t, AStored True)" using refines [OF assms(1,2)] assms(3) by simp
  then have "k \<noteq> '''' \<and> vis s t k = None \<and> (\<exists>v. (vis s t)(k \<mapsto> (v, Some (t + e))) = vis s' t)"
    using assms(4) by (cases "vis s t k"; cases "marshalValue ms w") (auto simp: deadline_def split: if_splits)
  then show "\<exists>v. vis s' t k = Some (v, Some (t + e))" "vis s t k = None" "k \<noteq> ''''"
    by (metis fun_upd_same, simp_all)
qed

end

end
