(* ===== verification/Cache_Memory.thy ===== *)
theory Cache_Memory
  imports Cache
begin

text \<open>
  The in-process provider (\<^verbatim>\<open>common/cache/memory.go\<close>). Every operation is one critical section,
  except \<^verbatim>\<open>Get\<close>, which reads under the read lock and evicts an expired entry in a second section,
  where it looks again; the two sections are separate definitions, because other calls may run
  between them. A nil map reads as an empty one and is replaced before it is written, so both are
  the empty list here.
\<close>

section \<open>The code\<close>

record memoryItem =
  mi_value :: string
  mi_expiresAt :: "int option"

definition item_expired :: "int \<Rightarrow> memoryItem \<Rightarrow> bool" where
  "item_expired now i = (case mi_expiresAt i of None \<Rightarrow> False | Some d \<Rightarrow> \<not> now < d)"

record MemoryProvider =
  mp_items :: "(string, memoryItem) gomap"
  mp_stop :: bool
  mp_closed :: bool

definition NewMemoryProvider :: MemoryProvider where
  "NewMemoryProvider = \<lparr>mp_items = [], mp_stop = False, mp_closed = False\<rparr>"

definition mem_put :: "string \<Rightarrow> memoryItem \<Rightarrow> MemoryProvider \<Rightarrow> MemoryProvider" where
  "mem_put key item m = m\<lparr>mp_items := mput key item (mp_items m)\<rparr>"

definition Memory_Set :: "'v marshallers \<Rightarrow> int \<Rightarrow> string \<Rightarrow> 'v cache_value \<Rightarrow> int \<Rightarrow> MemoryProvider \<Rightarrow>
    MemoryProvider \<times> cache_error option" where
  "Memory_Set ms now key value exp m =
     (if key = '''' then (m, Some ErrKeyEmpty)
      else (case marshalValue ms value of
          Inl e \<Rightarrow> (m, Some e)
        | Inr str \<Rightarrow> (mem_put key \<lparr>mi_value = str, mi_expiresAt = deadline now exp\<rparr> m, None)))"

definition Memory_SetNX :: "'v marshallers \<Rightarrow> int \<Rightarrow> string \<Rightarrow> 'v cache_value \<Rightarrow> int \<Rightarrow> MemoryProvider \<Rightarrow>
    MemoryProvider \<times> (cache_error, bool) result" where
  "Memory_SetNX ms now key value exp m =
     (if key = '''' then (m, Inl ErrKeyEmpty)
      else (case marshalValue ms value of
          Inl e \<Rightarrow> (m, Inl e)
        | Inr str \<Rightarrow>
            (case mget (mp_items m) key of
               Some existing \<Rightarrow>
                 if \<not> item_expired now existing then (m, Inr False)
                 else (mem_put key \<lparr>mi_value = str, mi_expiresAt = deadline now exp\<rparr> m, Inr True)
             | None \<Rightarrow> (mem_put key \<lparr>mi_value = str, mi_expiresAt = deadline now exp\<rparr> m, Inr True))))"

text \<open>The two sections of \<^verbatim>\<open>Get\<close>, and \<^verbatim>\<open>Get\<close> with nothing between them.\<close>

definition Get_read :: "int \<Rightarrow> string \<Rightarrow> MemoryProvider \<Rightarrow> (cache_error, string) result \<times> bool" where
  "Get_read now key m =
     (case mget (mp_items m) key of
        None \<Rightarrow> (Inl ErrNotFound, False)
      | Some item \<Rightarrow> if item_expired now item then (Inl ErrNotFound, True) else (Inr (mi_value item), False))"

definition Get_evict :: "int \<Rightarrow> string \<Rightarrow> MemoryProvider \<Rightarrow> MemoryProvider" where
  "Get_evict now key m =
     (case mget (mp_items m) key of
        Some current \<Rightarrow> if item_expired now current then m\<lparr>mp_items := mdel key (mp_items m)\<rparr> else m
      | None \<Rightarrow> m)"

definition Memory_Get :: "int \<Rightarrow> string \<Rightarrow> MemoryProvider \<Rightarrow> MemoryProvider \<times> (cache_error, string) result" where
  "Memory_Get now key m =
     (if key = '''' then (m, Inl ErrKeyEmpty)
      else (case Get_read now key m of (r, evict) \<Rightarrow> (if evict then Get_evict now key m else m, r)))"

definition Memory_Delete :: "string \<Rightarrow> MemoryProvider \<Rightarrow> MemoryProvider \<times> cache_error option" where
  "Memory_Delete key m =
     (if key = '''' then (m, Some ErrKeyEmpty) else (m\<lparr>mp_items := mdel key (mp_items m)\<rparr>, None))"

definition Memory_Increment :: "int \<Rightarrow> string \<Rightarrow> int \<Rightarrow> MemoryProvider \<Rightarrow>
    MemoryProvider \<times> (cache_error, int) result" where
  "Memory_Increment now key delta m =
     (if key = '''' then (m, Inl ErrKeyEmpty)
      else
        let store = (\<lambda>current expiresAt.
              let next = wrap64 (current + delta)
              in (mem_put key \<lparr>mi_value = show_int next, mi_expiresAt = expiresAt\<rparr> m, Inr next))
        in (case mget (mp_items m) key of
              Some existing \<Rightarrow>
                if \<not> item_expired now existing then
                  (case ParseInt (mi_value existing) of
                     None \<Rightarrow> (m, Inl NotAnInteger)
                   | Some parsed \<Rightarrow> store parsed (mi_expiresAt existing))
                else store 0 None
            | None \<Rightarrow> store 0 None))"

definition Memory_TTL :: "int \<Rightarrow> string \<Rightarrow> MemoryProvider \<Rightarrow> (cache_error, int) result" where
  "Memory_TTL now key m =
     (if key = '''' then Inl ErrKeyEmpty
      else (case mget (mp_items m) key of
          None \<Rightarrow> Inl ErrNotFound
        | Some item \<Rightarrow>
            if item_expired now item then Inl ErrNotFound
            else (case mi_expiresAt item of None \<Rightarrow> Inr NoExpiry | Some d \<Rightarrow> Inr (d - now))))"

definition Memory_Len :: "MemoryProvider \<Rightarrow> nat" where
  "Memory_Len m = length (mp_items m)"

text \<open>Starting the janitor; a tick of it is \<^verbatim>\<open>DeleteExpired\<close>, which reads the clock for every entry.\<close>

definition Memory_StartJanitor :: "int \<Rightarrow> MemoryProvider \<Rightarrow> MemoryProvider \<times> bool" where
  "Memory_StartJanitor interval m =
     (if interval \<le> 0 then (m, False) else if mp_stop m then (m, False) else (m\<lparr>mp_stop := True\<rparr>, True))"

fun sweep_loop :: "int \<Rightarrow> (string, memoryItem) gomap \<Rightarrow> (string, memoryItem) gomap \<Rightarrow> nat \<Rightarrow>
    (string, memoryItem) gomap \<times> nat" where
  "sweep_loop now [] items removed = (items, removed)"
| "sweep_loop now ((key, item) # rest) items removed =
     (if item_expired now item then sweep_loop now rest (mdel key items) (removed + 1)
      else sweep_loop now rest items removed)"

definition Memory_DeleteExpired :: "int \<Rightarrow> MemoryProvider \<Rightarrow> MemoryProvider \<times> nat" where
  "Memory_DeleteExpired now m =
     (case sweep_loop now (mp_items m) (mp_items m) 0 of (items, removed) \<Rightarrow> (m\<lparr>mp_items := items\<rparr>, removed))"

definition Memory_Close :: "MemoryProvider \<Rightarrow> MemoryProvider" where
  "Memory_Close m = (if mp_closed m then m else m\<lparr>mp_items := [], mp_closed := True\<rparr>)"

text \<open>The provider as one step function, for the contract.\<close>

fun memory_step :: "'v marshallers \<Rightarrow> 'v cache_op \<Rightarrow> int \<Rightarrow> MemoryProvider \<Rightarrow> MemoryProvider \<times> cache_answer" where
  "memory_step ms (OpSet k v e) t m = map_prod id err_answer (Memory_Set ms t k v e m)"
| "memory_step ms (OpSetNX k v e) t m = map_prod id (val_answer AStored) (Memory_SetNX ms t k v e m)"
| "memory_step ms (OpGet k) t m = map_prod id (val_answer AValue) (Memory_Get t k m)"
| "memory_step ms (OpDelete k) t m = map_prod id err_answer (Memory_Delete k m)"
| "memory_step ms (OpIncrement k d) t m = map_prod id (val_answer ACount) (Memory_Increment t k d m)"
| "memory_step ms (OpTTL k) t m = (m, val_answer ATTL (Memory_TTL t k m))"
| "memory_step ms OpDeleteExpired t m = (fst (Memory_DeleteExpired t m), ASwept)"

section \<open>Refinement\<close>

definition memory_vis :: "MemoryProvider \<Rightarrow> int \<Rightarrow> view" where
  "memory_vis m t = prune t (\<lambda>k. map_option (\<lambda>i. (mi_value i, mi_expiresAt i)) (mget (mp_items m) k))"

definition memory_inv :: "MemoryProvider \<Rightarrow> bool" where
  "memory_inv m = map_ok (mp_items m)"

lemma memory_vis_get:
  "memory_vis m t k =
     (case mget (mp_items m) k of
        None \<Rightarrow> None
      | Some i \<Rightarrow> if item_expired t i then None else Some (mi_value i, mi_expiresAt i))"
  by (auto simp: memory_vis_def prune_def alive_def item_expired_def split: option.splits)

lemma memory_vis_put:
  "alive t (v, d) \<Longrightarrow> memory_vis (mem_put k \<lparr>mi_value = v, mi_expiresAt = d\<rparr> m) t = (memory_vis m t)(k \<mapsto> (v, d))"
  by (auto simp: memory_vis_get mem_put_def mget_mput item_expired_def alive_def fun_eq_iff split: option.splits)

lemma memory_vis_del: "memory_vis (m\<lparr>mp_items := mdel k (mp_items m)\<rparr>) t = (memory_vis m t)(k := None)"
  by (auto simp: memory_vis_get mget_mdel fun_eq_iff)

text \<open>Evicting is invisible at that instant and at every later one, whatever ran since the entry was read.\<close>

lemma Get_evict_invisible:
  assumes "now \<le> t"
  shows "memory_vis (Get_evict now k m) t = memory_vis m t"
proof
  fix k'
  show "memory_vis (Get_evict now k m) t k' = memory_vis m t k'"
    using assms by (auto simp: Get_evict_def memory_vis_get mget_mdel item_expired_def split: option.splits)
qed

lemma sweep_loop_get:
  "map_ok items \<Longrightarrow>
     mget (fst (sweep_loop now rest items n)) k =
     (if \<exists>i. (k, i) \<in> set rest \<and> item_expired now i then None else mget items k) \<and>
     map_ok (fst (sweep_loop now rest items n))"
  by (induction now rest items n rule: sweep_loop.induct) (auto simp: mget_mdel)

lemma sweep_invisible: "memory_inv m \<Longrightarrow> memory_vis (fst (Memory_DeleteExpired now m)) now = memory_vis m now"
proof
  fix k
  assume inv: "memory_inv m"
  have "mget (mp_items (fst (Memory_DeleteExpired now m))) k =
      (if \<exists>i. (k, i) \<in> set (mp_items m) \<and> item_expired now i then None else mget (mp_items m) k)"
    using sweep_loop_get [of "mp_items m" now "mp_items m" 0 k] inv
    by (cases "sweep_loop now (mp_items m) (mp_items m) 0") (simp add: Memory_DeleteExpired_def memory_inv_def)
  moreover have "(k, i) \<in> set (mp_items m) \<longleftrightarrow> mget (mp_items m) k = Some i" for i
    using inv by (simp add: memory_inv_def map_ok_def mget_def)
  ultimately show "memory_vis (fst (Memory_DeleteExpired now m)) now k = memory_vis m now k"
    by (auto simp: memory_vis_get split: option.splits)
qed

lemma memory_step_inv: "memory_inv m \<Longrightarrow> memory_inv (fst (memory_step ms op t m))"
proof (cases op)
  case OpDeleteExpired
  assume "memory_inv m"
  with OpDeleteExpired sweep_loop_get [of "mp_items m" t "mp_items m" 0] show ?thesis
    by (cases "sweep_loop t (mp_items m) (mp_items m) 0") (simp add: Memory_DeleteExpired_def memory_inv_def)
qed (auto simp: memory_inv_def Memory_Set_def Memory_SetNX_def Memory_Get_def Get_evict_def Memory_Delete_def
    Memory_Increment_def mem_put_def Let_def split: sum.splits option.splits prod.splits)

lemma memory_increment_refines:
  "(if k = '''' then (memory_vis m t, AErr ErrKeyEmpty) else spec_increment (memory_vis m t) k d) =
     (memory_vis (fst (Memory_Increment t k d m)) t, val_answer ACount (snd (Memory_Increment t k d m)))"
proof -
  have put: "memory_vis (mem_put k \<lparr>mi_value = v, mi_expiresAt = e\<rparr> m) t = (memory_vis m t)(k \<mapsto> (v, e))"
    if "e = None \<or> (\<exists>i. mget (mp_items m) k = Some i \<and> \<not> item_expired t i \<and> e = mi_expiresAt i)" for v e
    using that by (intro memory_vis_put) (auto simp: alive_def item_expired_def split: option.splits)
  show ?thesis
    by (auto simp: Memory_Increment_def spec_increment_def val_answer_def memory_vis_get [of m t k] Let_def put
      split: option.splits)
qed

lemma memory_step_refines:
  assumes "memory_inv m"
  shows "spec_step ms op t (memory_vis m t) = (memory_vis (fst (memory_step ms op t m)) t, snd (memory_step ms op t m))"
proof (cases op)
  case (OpSet k v e)
  then show ?thesis
    by (auto simp: Memory_Set_def err_answer_def memory_vis_put deadline_alive split: sum.splits)
next
  case (OpSetNX k v e)
  then show ?thesis
    by (auto simp: Memory_SetNX_def val_answer_def memory_vis_put deadline_alive memory_vis_get [of m t k]
      split: sum.splits option.splits)
next
  case (OpGet k)
  then show ?thesis
    by (auto simp: Memory_Get_def Get_read_def val_answer_def spec_get_def Get_evict_invisible memory_vis_get [of m t k]
      split: option.splits)
next
  case (OpDelete k)
  then show ?thesis by (auto simp: Memory_Delete_def err_answer_def memory_vis_del)
next
  case (OpIncrement k d)
  then show ?thesis using memory_increment_refines [of k m t d] by simp
next
  case (OpTTL k)
  then show ?thesis
    by (auto simp: Memory_TTL_def val_answer_def spec_ttl_def memory_vis_get [of m t k] split: option.splits)
next
  case OpDeleteExpired
  then show ?thesis using sweep_invisible [OF assms] by simp
qed

interpretation memory_cache: provider ms "memory_step ms" memory_vis memory_inv "\<lambda>_ _. True"
proof unfold_locales
  show "memory_vis m t' = prune t' (memory_vis m t)" if "t \<le> t'" for m t t'
    using that by (simp add: memory_vis_def prune_prune)
qed (simp_all add: memory_step_inv memory_step_refines)

section \<open>Properties\<close>

text \<open>
  C28. The in-process cache keeps the contract of its interface: from a new provider, every sequence
  of calls at non-decreasing instants, evictions and janitor sweeps included, is answered exactly
  as the abstract store answers it, in which an entry is visible from the call that stored it
  until its expiry and a counter keeps its window.
\<close>

theorem memory_cache_refines:
  assumes "sorted (map fst ops)"
  shows "snd (run_ops (memory_step ms) ops NewMemoryProvider) = spec_run ms ops Map.empty"
proof (cases ops)
  case (Cons p rest)
  have inv: "memory_inv NewMemoryProvider" and vis: "memory_vis NewMemoryProvider t = Map.empty" for t
    by (simp_all add: memory_inv_def NewMemoryProvider_def memory_vis_def prune_def)
  have "sorted (fst p # map fst ops)" using assms Cons by simp
  from memory_cache.trace_from [OF inv this] show ?thesis by (simp add: vis)
qed simp

definition demo_ms :: "nat marshallers" where
  "demo_ms = \<lparr>MarshalBinary = (\<lambda>_. Inl ''''), MarshalText = (\<lambda>_. Inl ''''), JsonMarshal = (\<lambda>n. Inr (show_nat n))\<rparr>"

definition demo_calls :: "(int \<times> nat cache_op) list" where
  "demo_calls = [(0, OpSetNX ''lock'' (VString ''a'') 10), (5, OpSetNX ''lock'' (VString ''b'') 10),
     (9, OpTTL ''lock''), (10, OpGet ''lock''), (11, OpSetNX ''lock'' (VString ''c'') 10),
     (12, OpIncrement ''n'' 2), (13, OpIncrement ''n'' 3), (14, OpSet ''j'' (VAny 7) 0), (30, OpDeleteExpired),
     (31, OpGet ''j''), (32, OpGet ''lock'')]"

theorem memory_cache_refines_witness:
  "spec_run demo_ms demo_calls Map.empty =
     [AStored True, AStored False, ATTL 1, AErr ErrNotFound, AStored True, ACount 2, ACount 5, AOk, ASwept,
      AValue ''7'', AErr ErrNotFound]"
proof -
  have "sorted (map fst demo_calls)" by code_simp
  moreover have "snd (run_ops (memory_step demo_ms) demo_calls NewMemoryProvider) =
      [AStored True, AStored False, ATTL 1, AErr ErrNotFound, AStored True, ACount 2, ACount 5, AOk, ASwept,
       AValue ''7'', AErr ErrNotFound]" by code_simp
  ultimately show ?thesis using memory_cache_refines [of demo_calls demo_ms] by simp
qed

text \<open>
  \<^verbatim>\<open>SetNX\<close> is a lock with a lease: when it stores a key with an expiry, the key was free, and
  every later \<^verbatim>\<open>SetNX\<close> of that key before the expiry is refused, whatever else is called in
  between except a \<^verbatim>\<open>Set\<close>, \<^verbatim>\<open>Delete\<close> or \<^verbatim>\<open>Increment\<close> of that key; from the expiry on the lock can be
  taken again even though nobody released it.
\<close>

theorem memory_lock_exclusive:
  assumes "memory_inv m" and "memory_step ms (OpSetNX k w lease) t m = (m', AStored True)" and "0 < lease"
    and "sorted (t # map fst ops)" and "\<forall>(u, op) \<in> set ops. leaves k op \<and> u < t + lease"
    and "marshalValue ms w' = Inr z"
  shows "memory_vis m t k = None \<and>
    (\<forall>i u e. i < length ops \<and> ops ! i = (u, OpSetNX k w' e) \<longrightarrow>
       snd (run_ops (memory_step ms) ops m') ! i = AStored False) \<and>
    (\<forall>u e. t + lease \<le> u \<longrightarrow> snd (memory_step ms (OpSetNX k w' e) u m') = AStored True)"
proof -
  note taken = memory_cache.lock_taken [OF assms(1) TrueI assms(2,3)]
  then obtain v where v: "memory_vis m' t k = Some (v, Some (t + lease))" by blast
  have "snd (run_ops (memory_step ms) ops m') ! i = AStored False"
    if "i < length ops" "ops ! i = (u, OpSetNX k w' e)" for i u e
    using assms(5) by (intro memory_cache.lock_held [OF taken(1) v assms(4) _ that taken(4) assms(6)]) auto
  moreover have "snd (memory_step ms (OpSetNX k w' e) u m') = AStored True" if "t + lease \<le> u" for u e
  proof -
    have "t \<le> u" using that assms(3) by simp
    then have "memory_vis m' u k = None"
      using memory_cache.later [OF taken(1), of t u] v that by (simp add: prune_def alive_def)
    then show ?thesis
      using memory_cache.refines [OF taken(1) TrueI, of ms "OpSetNX k w' e" u] taken(4) assms(6) by simp
  qed
  ultimately show ?thesis using taken(3) by blast
qed

theorem memory_lock_exclusive_witness:
  "snd (run_ops (memory_step demo_ms) [(5, OpGet ''x''), (9, OpSetNX ''x'' (VString ''b'') 7)]
     (fst (memory_step demo_ms (OpSetNX ''x'' (VString ''a'') 10) 0 NewMemoryProvider))) ! 1 = AStored False"
proof -
  let ?ops = "[(5, OpGet ''x''), (9, OpSetNX ''x'' (VString ''b'') 7)] :: (int \<times> nat cache_op) list"
  let ?m = "fst (memory_step demo_ms (OpSetNX ''x'' (VString ''a'') 10) 0 NewMemoryProvider)"
  have "memory_step demo_ms (OpSetNX ''x'' (VString ''a'') 10) 0 NewMemoryProvider = (?m, AStored True)" by code_simp
  moreover have "memory_inv NewMemoryProvider" by code_simp
  moreover have "sorted (0 # map fst ?ops)" "\<forall>(u, op) \<in> set ?ops. leaves ''x'' op \<and> u < 0 + 10" by code_simp+
  moreover have "marshalValue demo_ms (VString ''b'') = Inr ''b''" by code_simp
  ultimately have "\<forall>i u e. i < length ?ops \<and> ?ops ! i = (u, OpSetNX ''x'' (VString ''b'') e) \<longrightarrow>
       snd (run_ops (memory_step demo_ms) ?ops ?m) ! i = AStored False"
    using memory_lock_exclusive [of NewMemoryProvider demo_ms "''x''" "VString ''a''" 10 0 ?m ?ops "VString ''b''" "''b''"]
    by simp
  then show ?thesis by (elim allE [of _ 1] allE [of _ 9] allE [of _ 7]) simp
qed

end
