(* ===== verification/Cache_File.thy ===== *)
theory Cache_File
  imports Cache Middleware
begin

text \<open>
  The file provider (\<^verbatim>\<open>common/cache/file.go\<close>): one JSON file per key, named by a hash of the key and
  replaced through a temporary file. The directory is a map from names to contents, and any call
  of the operating system may fail: the state carries a schedule of failures, which every call
  consults, and a failed write leaves a part of the data behind. The hash and the JSON functions
  are parameters. Where the code reads the clock several times, the readings are separate
  arguments.
\<close>

section \<open>The directory\<close>

datatype os_error = NotExist | Exist | OsFailed string

record fsys =
  fs_files :: "(string, string) gomap"
  fs_temp :: nat
  fs_faults :: "nat \<Rightarrow> (string \<times> nat) option"
  fs_tick :: nat

definition os_fault :: "fsys \<Rightarrow> fsys \<times> (string \<times> nat) option" where
  "os_fault s = (s\<lparr>fs_tick := fs_tick s + 1\<rparr>, fs_faults s (fs_tick s))"

definition os_ReadFile :: "string \<Rightarrow> fsys \<Rightarrow> fsys \<times> (os_error, string) result" where
  "os_ReadFile name s =
     (case os_fault s of
        (s, Some (e, _)) \<Rightarrow> (s, Inl (OsFailed e))
      | (s, None) \<Rightarrow> (s, case mget (fs_files s) name of None \<Rightarrow> Inl NotExist | Some d \<Rightarrow> Inr d))"

text \<open>\<^verbatim>\<open>os.CreateTemp\<close> makes a new empty file.\<close>

definition temp_name :: "nat \<Rightarrow> string" where
  "temp_name n = ''.tmp-'' @ show_nat n"

definition os_CreateTemp :: "fsys \<Rightarrow> fsys \<times> (os_error, string) result" where
  "os_CreateTemp s =
     (case os_fault s of
        (s, Some (e, _)) \<Rightarrow> (s, Inl (OsFailed e))
      | (s, None) \<Rightarrow>
          let name = temp_name (fs_temp s)
          in (s\<lparr>fs_files := mput name '''' (fs_files s), fs_temp := fs_temp s + 1\<rparr>, Inr name))"

text \<open>\<^verbatim>\<open>Chmod\<close> and \<^verbatim>\<open>Close\<close> of an open file change no content.\<close>

definition os_Touch :: "fsys \<Rightarrow> fsys \<times> os_error option" where
  "os_Touch s = (case os_fault s of (s, Some (e, _)) \<Rightarrow> (s, Some (OsFailed e)) | (s, None) \<Rightarrow> (s, None))"

definition os_Write :: "string \<Rightarrow> string \<Rightarrow> fsys \<Rightarrow> fsys \<times> os_error option" where
  "os_Write name data s =
     (case os_fault s of
        (s, Some (e, n)) \<Rightarrow> (s\<lparr>fs_files := mput name (take n data) (fs_files s)\<rparr>, Some (OsFailed e))
      | (s, None) \<Rightarrow> (s\<lparr>fs_files := mput name data (fs_files s)\<rparr>, None))"

definition os_Remove :: "string \<Rightarrow> fsys \<Rightarrow> fsys \<times> os_error option" where
  "os_Remove name s =
     (case os_fault s of
        (s, Some (e, _)) \<Rightarrow> (s, Some (OsFailed e))
      | (s, None) \<Rightarrow>
          (case mget (fs_files s) name of
             None \<Rightarrow> (s, Some NotExist)
           | Some _ \<Rightarrow> (s\<lparr>fs_files := mdel name (fs_files s)\<rparr>, None)))"

definition os_Rename :: "string \<Rightarrow> string \<Rightarrow> fsys \<Rightarrow> fsys \<times> os_error option" where
  "os_Rename old new s =
     (case os_fault s of
        (s, Some (e, _)) \<Rightarrow> (s, Some (OsFailed e))
      | (s, None) \<Rightarrow>
          (case mget (fs_files s) old of
             None \<Rightarrow> (s, Some NotExist)
           | Some d \<Rightarrow> (s\<lparr>fs_files := mput new d (mdel old (fs_files s))\<rparr>, None)))"

definition os_Link :: "string \<Rightarrow> string \<Rightarrow> fsys \<Rightarrow> fsys \<times> os_error option" where
  "os_Link old new s =
     (case os_fault s of
        (s, Some (e, _)) \<Rightarrow> (s, Some (OsFailed e))
      | (s, None) \<Rightarrow>
          (case mget (fs_files s) new of
             Some _ \<Rightarrow> (s, Some Exist)
           | None \<Rightarrow>
               (case mget (fs_files s) old of
                  None \<Rightarrow> (s, Some NotExist)
                | Some d \<Rightarrow> (s\<lparr>fs_files := mput new d (fs_files s)\<rparr>, None))))"

definition os_ReadDir :: "fsys \<Rightarrow> fsys \<times> (os_error, string list) result" where
  "os_ReadDir s =
     (case os_fault s of
        (s, Some (e, _)) \<Rightarrow> (s, Inl (OsFailed e))
      | (s, None) \<Rightarrow> (s, Inr (mkeys (fs_files s))))"

section \<open>The code\<close>

record FileItem =
  fi_Key :: string
  fi_Value :: string
  fi_ExpiresAt :: int
  fi_NoExpiry :: bool

text \<open>The zero time, January 1 of the year 1.\<close>

definition zero_time :: int where
  "zero_time = - 62135596800 * Second"

definition file_expired :: "int \<Rightarrow> FileItem \<Rightarrow> bool" where
  "file_expired now i \<longleftrightarrow> \<not> fi_NoExpiry i \<and> \<not> now < fi_ExpiresAt i"

datatype decode_error = Corrupt string | DecodeOther string

record item_json =
  ij_encode :: "FileItem \<Rightarrow> (string, string) result"
  ij_decode :: "string \<Rightarrow> (decode_error, FileItem) result"

datatype read_error = ReadNotFound | ReadOs os_error | ReadDecode decode_error

definition fileEntrySuffix :: string where
  "fileEntrySuffix = ''.json''"

definition keyPath :: "(string \<Rightarrow> 8 word list) \<Rightarrow> string \<Rightarrow> string" where
  "keyPath hsh key = EncodeToString (hsh key) @ fileEntrySuffix"

definition os_text :: "os_error \<Rightarrow> cache_error" where
  "os_text e = (case e of NotExist \<Rightarrow> ProviderFailed ''file does not exist'' | Exist \<Rightarrow> ProviderFailed ''file exists''
     | OsFailed m \<Rightarrow> ProviderFailed m)"

definition read_text :: "read_error \<Rightarrow> cache_error" where
  "read_text e = (case e of ReadNotFound \<Rightarrow> ErrNotFound | ReadOs x \<Rightarrow> os_text x
     | ReadDecode (Corrupt m) \<Rightarrow> ProviderFailed m | ReadDecode (DecodeOther m) \<Rightarrow> ProviderFailed m)"

definition isCorrupt :: "read_error \<Rightarrow> bool" where
  "isCorrupt e = (case e of ReadDecode (Corrupt m) \<Rightarrow> True | _ \<Rightarrow> False)"

definition file_encode :: "'v marshallers \<Rightarrow> item_json \<Rightarrow> int \<Rightarrow> string \<Rightarrow> 'v cache_value \<Rightarrow> int \<Rightarrow>
    (cache_error, string) result" where
  "file_encode ms j now key value exp =
     and_then (marshalValue ms value) (\<lambda>str.
       case ij_encode j
           (if exp \<le> 0 then \<lparr>fi_Key = key, fi_Value = str, fi_ExpiresAt = zero_time, fi_NoExpiry = True\<rparr>
            else \<lparr>fi_Key = key, fi_Value = str, fi_ExpiresAt = now + exp, fi_NoExpiry = False\<rparr>) of
         Inl e \<Rightarrow> Inl (ProviderFailed e) | Inr d \<Rightarrow> Inr d)"

definition readItem :: "item_json \<Rightarrow> string \<Rightarrow> fsys \<Rightarrow> fsys \<times> (read_error, FileItem) result" where
  "readItem j path s =
     (case os_ReadFile path s of
        (s, Inl NotExist) \<Rightarrow> (s, Inl ReadNotFound)
      | (s, Inl e) \<Rightarrow> (s, Inl (ReadOs e))
      | (s, Inr data) \<Rightarrow> (s, case ij_decode j data of Inl e \<Rightarrow> Inl (ReadDecode e) | Inr item \<Rightarrow> Inr item))"

definition temp_fail :: "string \<Rightarrow> os_error \<Rightarrow> fsys \<Rightarrow> fsys \<times> (os_error, string) result" where
  "temp_fail tmpName e s = (fst (os_Remove tmpName (fst (os_Touch s))), Inl e)"

definition writeTemp :: "string \<Rightarrow> fsys \<Rightarrow> fsys \<times> (os_error, string) result" where
  "writeTemp data s =
     (case os_CreateTemp s of
        (s, Inl e) \<Rightarrow> (s, Inl e)
      | (s, Inr tmpName) \<Rightarrow>
          (case os_Touch s of
             (s, Some e) \<Rightarrow> temp_fail tmpName e s
           | (s, None) \<Rightarrow>
               (case os_Write tmpName data s of
                  (s, Some e) \<Rightarrow> temp_fail tmpName e s
                | (s, None) \<Rightarrow>
                    (case os_Touch s of
                       (s, Some e) \<Rightarrow> (fst (os_Remove tmpName s), Inl e)
                     | (s, None) \<Rightarrow> (s, Inr tmpName)))))"

definition writeAtomic :: "string \<Rightarrow> string \<Rightarrow> fsys \<Rightarrow> fsys \<times> os_error option" where
  "writeAtomic path data s =
     (case writeTemp data s of
        (s, Inl e) \<Rightarrow> (s, Some e)
      | (s, Inr tmpName) \<Rightarrow>
          (case os_Rename tmpName path s of
             (s, Some e) \<Rightarrow> (fst (os_Remove tmpName s), Some e)
           | (s, None) \<Rightarrow> (s, None)))"

definition File_Set :: "'v marshallers \<Rightarrow> (string \<Rightarrow> 8 word list) \<Rightarrow> item_json \<Rightarrow> int \<Rightarrow> string \<Rightarrow> 'v cache_value \<Rightarrow>
    int \<Rightarrow> fsys \<Rightarrow> fsys \<times> cache_error option" where
  "File_Set ms hsh j now key value exp s =
     (if key = '''' then (s, Some ErrKeyEmpty)
      else (case file_encode ms j now key value exp of
          Inl e \<Rightarrow> (s, Some e)
        | Inr data \<Rightarrow> map_prod id (map_option os_text) (writeAtomic (keyPath hsh key) data s)))"

text \<open>\<open>now\<close> is read when the entry is encoded, \<open>now'\<close> when the existing one is judged.\<close>

definition File_SetNX :: "'v marshallers \<Rightarrow> (string \<Rightarrow> 8 word list) \<Rightarrow> item_json \<Rightarrow> int \<Rightarrow> int \<Rightarrow> string \<Rightarrow>
    'v cache_value \<Rightarrow> int \<Rightarrow> fsys \<Rightarrow> fsys \<times> (cache_error, bool) result" where
  "File_SetNX ms hsh j now now' key value exp s =
     (if key = '''' then (s, Inl ErrKeyEmpty)
      else (case file_encode ms j now key value exp of
          Inl e \<Rightarrow> (s, Inl e)
        | Inr data \<Rightarrow>
            let path = keyPath hsh key
            in (case writeTemp data s of
                  (s, Inl e) \<Rightarrow> (s, Inl (os_text e))
                | (s, Inr tmpName) \<Rightarrow>
                    (case os_Link tmpName path s of
                       (s, None) \<Rightarrow> (fst (os_Remove tmpName s), Inr True)
                     | (s, Some _) \<Rightarrow>
                         (case readItem j path s of
                            (s, r) \<Rightarrow>
                              if (case r of Inr item \<Rightarrow> \<not> file_expired now' item | Inl _ \<Rightarrow> False)
                              then (fst (os_Remove tmpName s), Inr False)
                              else (case r of
                                  Inl e \<Rightarrow>
                                    if e \<noteq> ReadNotFound \<and> \<not> isCorrupt e
                                    then (fst (os_Remove tmpName s), Inl (read_text e))
                                    else (case os_Rename tmpName path s of
                                        (s, Some e) \<Rightarrow> (fst (os_Remove tmpName s), Inl (os_text e))
                                      | (s, None) \<Rightarrow> (fst (os_Remove tmpName s), Inr True))
                                | Inr _ \<Rightarrow>
                                    (case os_Rename tmpName path s of
                                       (s, Some e) \<Rightarrow> (fst (os_Remove tmpName s), Inl (os_text e))
                                     | (s, None) \<Rightarrow> (fst (os_Remove tmpName s), Inr True))))))))"

definition File_Get :: "(string \<Rightarrow> 8 word list) \<Rightarrow> item_json \<Rightarrow> int \<Rightarrow> string \<Rightarrow> fsys \<Rightarrow>
    fsys \<times> (cache_error, string) result" where
  "File_Get hsh j now key s =
     (if key = '''' then (s, Inl ErrKeyEmpty)
      else
        let path = keyPath hsh key
        in (case readItem j path s of
              (s, Inl e) \<Rightarrow> (s, Inl (read_text e))
            | (s, Inr item) \<Rightarrow>
                if file_expired now item then (fst (os_Remove path s), Inl ErrNotFound)
                else if fi_Key item \<noteq> key then (s, Inl ErrNotFound)
                else (s, Inr (fi_Value item))))"

definition File_Delete :: "(string \<Rightarrow> 8 word list) \<Rightarrow> string \<Rightarrow> fsys \<Rightarrow> fsys \<times> cache_error option" where
  "File_Delete hsh key s =
     (if key = '''' then (s, Some ErrKeyEmpty)
      else (case os_Remove (keyPath hsh key) s of
          (s, Some e) \<Rightarrow> (s, if e \<noteq> NotExist then Some (os_text e) else None)
        | (s, None) \<Rightarrow> (s, None)))"

text \<open>The end of \<^verbatim>\<open>Increment\<close>: the counter is encoded with its remaining time and replaced.\<close>

definition file_store :: "'v marshallers \<Rightarrow> (string \<Rightarrow> 8 word list) \<Rightarrow> item_json \<Rightarrow> int \<Rightarrow> string \<Rightarrow> int \<Rightarrow>
    int \<Rightarrow> int \<Rightarrow> fsys \<Rightarrow> fsys \<times> (cache_error, int) result" where
  "file_store ms hsh j now2 key delta current exp s =
     (let next = wrap64 (current + delta)
      in (case file_encode ms j now2 key (VString (show_int next)) exp of
            Inl e \<Rightarrow> (s, Inl e)
          | Inr data \<Rightarrow>
              (case writeAtomic (keyPath hsh key) data s of
                 (s, Some e) \<Rightarrow> (s, Inl (os_text e)) | (s, None) \<Rightarrow> (s, Inr next))))"

text \<open>
  \<open>now0\<close> decides whether the counter is live, \<open>now1\<close> is the reading of \<^verbatim>\<open>time.Until\<close>, \<open>now2\<close> the one
  of the encoding.
\<close>

definition File_Increment :: "'v marshallers \<Rightarrow> (string \<Rightarrow> 8 word list) \<Rightarrow> item_json \<Rightarrow> int \<Rightarrow> int \<Rightarrow> int \<Rightarrow>
    string \<Rightarrow> int \<Rightarrow> fsys \<Rightarrow> fsys \<times> (cache_error, int) result" where
  "File_Increment ms hsh j now0 now1 now2 key delta s =
     (if key = [] then (s, Inl ErrKeyEmpty)
      else (case readItem j (keyPath hsh key) s of
          (s, Inr item) \<Rightarrow>
            if \<not> file_expired now0 item \<and> fi_Key item = key then
              (case ParseInt (fi_Value item) of
                 None \<Rightarrow> (s, Inl NotAnInteger)
               | Some parsed \<Rightarrow>
                   let remaining = fi_ExpiresAt item - now1
                   in file_store ms hsh j now2 key delta parsed
                        (if \<not> fi_NoExpiry item \<and> remaining > 0 then remaining else NoExpiry) s)
            else file_store ms hsh j now2 key delta 0 NoExpiry s
        | (s, Inl e) \<Rightarrow>
            if e \<noteq> ReadNotFound \<and> \<not> isCorrupt e then (s, Inl (read_text e))
            else file_store ms hsh j now2 key delta 0 NoExpiry s))"

definition File_TTL :: "(string \<Rightarrow> 8 word list) \<Rightarrow> item_json \<Rightarrow> int \<Rightarrow> string \<Rightarrow> fsys \<Rightarrow>
    fsys \<times> (cache_error, int) result" where
  "File_TTL hsh j now key s =
     (if key = '''' then (s, Inl ErrKeyEmpty)
      else (case readItem j (keyPath hsh key) s of
          (s, Inl e) \<Rightarrow> (s, Inl (read_text e))
        | (s, Inr item) \<Rightarrow>
            if file_expired now item \<or> fi_Key item \<noteq> key then (s, Inl ErrNotFound)
            else if fi_NoExpiry item then (s, Inr NoExpiry)
            else (s, Inr (fi_ExpiresAt item - now))))"

fun file_sweep :: "item_json \<Rightarrow> int \<Rightarrow> string list \<Rightarrow> nat \<Rightarrow> fsys \<Rightarrow> fsys \<times> nat" where
  "file_sweep j now [] removed s = (s, removed)"
| "file_sweep j now (name # names) removed s =
     (if \<not> HasSuffix name fileEntrySuffix then file_sweep j now names removed s
      else (case readItem j name s of
          (s, r) \<Rightarrow>
            if (case r of Inl e \<Rightarrow> \<not> isCorrupt e | Inr item \<Rightarrow> \<not> file_expired now item)
            then file_sweep j now names removed s
            else (case os_Remove name s of
                (s, None) \<Rightarrow> file_sweep j now names (removed + 1) s
              | (s, Some _) \<Rightarrow> file_sweep j now names removed s)))"

definition File_DeleteExpired :: "item_json \<Rightarrow> int \<Rightarrow> fsys \<Rightarrow> fsys \<times> (cache_error, nat) result" where
  "File_DeleteExpired j now s =
     (case os_ReadDir s of
        (s, Inl e) \<Rightarrow> (s, Inl (os_text e))
      | (s, Inr entries) \<Rightarrow> map_prod id Inr (file_sweep j now entries 0 s))"

text \<open>The provider as one step function, for the contract; every clock reading of a call is the same.\<close>

fun file_step :: "'v marshallers \<Rightarrow> (string \<Rightarrow> 8 word list) \<Rightarrow> item_json \<Rightarrow> 'v cache_op \<Rightarrow> int \<Rightarrow> fsys \<Rightarrow>
    fsys \<times> cache_answer" where
  "file_step ms hsh j (OpSet k v e) t s = map_prod id err_answer (File_Set ms hsh j t k v e s)"
| "file_step ms hsh j (OpSetNX k v e) t s = map_prod id (val_answer AStored) (File_SetNX ms hsh j t t k v e s)"
| "file_step ms hsh j (OpGet k) t s = map_prod id (val_answer AValue) (File_Get hsh j t k s)"
| "file_step ms hsh j (OpDelete k) t s = map_prod id err_answer (File_Delete hsh k s)"
| "file_step ms hsh j (OpIncrement k d) t s = map_prod id (val_answer ACount) (File_Increment ms hsh j t t t k d s)"
| "file_step ms hsh j (OpTTL k) t s = map_prod id (val_answer ATTL) (File_TTL hsh j t k s)"
| "file_step ms hsh j OpDeleteExpired t s = map_prod id (val_answer (\<lambda>_. ASwept)) (File_DeleteExpired j t s)"

section \<open>Names\<close>

lemma last_show_nat: "is_digit (last (show_nat n))"
  by (rule show_nat_digits [of _ n]) (simp add: show_nat_nonempty)

lemma temp_not_entry: "\<not> HasSuffix (temp_name n) fileEntrySuffix"
proof
  assume "HasSuffix (temp_name n) fileEntrySuffix"
  then obtain p where "temp_name n = p @ ''.json''" by (auto simp: HasSuffix_def suffix_def fileEntrySuffix_def)
  then have "last (temp_name n) = CHR ''n''" by simp
  moreover have "last (temp_name n) = last (show_nat n)" by (simp add: temp_name_def show_nat_nonempty)
  moreover have "\<not> is_digit CHR ''n''" by code_simp
  ultimately show False using last_show_nat [of n] by simp
qed

lemma keyPath_suffix: "HasSuffix (keyPath hsh k) fileEntrySuffix"
  by (simp add: keyPath_def HasSuffix_def suffix_def)

lemma base_digit_inj: "a < 16 \<Longrightarrow> b < 16 \<Longrightarrow> base_digit a = base_digit b \<Longrightarrow> a = b"
proof -
  have d: "distinct ''0123456789abcdefghijklmnopqrstuvwxyz''" "length ''0123456789abcdefghijklmnopqrstuvwxyz'' = 36" by simp_all
  assume "a < 16" "b < 16" "base_digit a = base_digit b"
  then show "a = b" using nth_eq_iff_index_eq [OF d(1), of a b] d(2) by (simp add: base_digit_def del: nth_Cons_numeral)
qed

lemma EncodeToString_inj: "EncodeToString a = EncodeToString b \<Longrightarrow> a = b"
proof (induction a arbitrary: b)
  case Nil
  then show ?case by (cases b) (auto simp: EncodeToString_def)
next
  case (Cons x a)
  then obtain y b' where b: "b = y # b'" by (cases b) (auto simp: EncodeToString_def)
  have lt: "unat w div 16 < 16" "unat w mod 16 < 16" for w :: "8 word"
    using unsigned_less [where 'a = nat, of w] by (simp_all add: less_mult_imp_div_less)
  from Cons.prems b have "base_digit (unat x div 16) = base_digit (unat y div 16)"
    "base_digit (unat x mod 16) = base_digit (unat y mod 16)" "EncodeToString a = EncodeToString b'"
    by (auto simp: EncodeToString_def)
  then have "unat x div 16 = unat y div 16" "unat x mod 16 = unat y mod 16" "a = b'"
    using base_digit_inj lt Cons.IH by blast+
  then have "unat x = unat y" by (metis div_mult_mod_eq)
  with b \<open>a = b'\<close> show ?case by (simp add: word_unat_eq_iff)
qed

lemma keyPath_eq_iff: "keyPath hsh k = keyPath hsh k' \<longleftrightarrow> hsh k = hsh k'"
  by (auto simp: keyPath_def dest: EncodeToString_inj)

lemma keyPath_safe:
  shows "length (keyPath hsh key) = 2 * length (hsh key) + 5" "CHR ''/'' \<notin> set (keyPath hsh key)" "CHR 0x00 \<notin> set (keyPath hsh key)"
proof -
  have "\<not> id_char CHR ''/''" "\<not> id_char CHR 0x00" by code_simp+
  then have "CHR ''/'' \<notin> set (EncodeToString (hsh key))" "CHR 0x00 \<notin> set (EncodeToString (hsh key))"
    using EncodeToString_ok(1) [of "hsh key"] by (auto simp: list_all_iff)
  then show "CHR ''/'' \<notin> set (keyPath hsh key)" "CHR 0x00 \<notin> set (keyPath hsh key)"
    by (auto simp: keyPath_def fileEntrySuffix_def)
  show "length (keyPath hsh key) = 2 * length (hsh key) + 5" by (simp add: keyPath_def EncodeToString_ok fileEntrySuffix_def)
qed

section \<open>Entries under failures\<close>

text \<open>The files a reader of the cache can see.\<close>

definition ents :: "fsys \<Rightarrow> string \<Rightarrow> string option" where
  "ents s n = (if HasSuffix n fileEntrySuffix then mget (fs_files s) n else None)"

lemma ents_calls [simp]:
  "ents (fst (os_ReadFile n s)) = ents s" "ents (fst (os_CreateTemp s)) = ents s" "ents (fst (os_Touch s)) = ents s"
  "ents (fst (os_Write (temp_name i) d s)) = ents s" "ents (fst (os_Remove (temp_name i) s)) = ents s"
  by (auto simp: ents_def fun_eq_iff os_fault_def os_ReadFile_def os_CreateTemp_def os_Touch_def os_Write_def
    os_Remove_def mget_mput mget_mdel temp_not_entry Let_def split: option.splits prod.splits)

lemma ents_results:
  "os_ReadFile n s = (s', r) \<Longrightarrow> ents s' = ents s"
  "os_CreateTemp s = (s', rn) \<Longrightarrow> ents s' = ents s"
  "os_Touch s = (s', e) \<Longrightarrow> ents s' = ents s \<and> fs_files s' = fs_files s"
  "os_Write (temp_name i) d s = (s', e) \<Longrightarrow> ents s' = ents s"
  "os_Remove (temp_name i) s = (s', e) \<Longrightarrow> ents s' = ents s"
  using ents_calls(1) [of n s] ents_calls(2,3) [of s] ents_calls(4) [of i d s] ents_calls(5) [of i s]
  by (auto simp: os_Touch_def os_fault_def split: option.splits)

lemma os_CreateTemp_name: "os_CreateTemp s = (s', Inr tmp) \<Longrightarrow> \<exists>i. tmp = temp_name i"
  by (auto simp: os_CreateTemp_def Let_def split: prod.splits option.splits)

lemma os_Write_done: "os_Write n d s = (s', None) \<Longrightarrow> mget (fs_files s') n = Some d"
  by (auto simp: os_Write_def mget_mput split: prod.splits option.splits)

lemma readItem_ents: "readItem j n s = (s', r) \<Longrightarrow> ents s' = ents s"
  by (auto simp: readItem_def split: prod.splits sum.splits os_error.splits dest: ents_results(1))

lemma writeTemp_ents:
  assumes "writeTemp data s = (s', r)"
  shows "ents s' = ents s" "r = Inr tmp \<Longrightarrow> (\<exists>i. tmp = temp_name i) \<and> mget (fs_files s') tmp = Some data"
proof -
  obtain s1 r1 where c: "os_CreateTemp s = (s1, r1)" by fastforce
  note s1 = ents_results(2) [OF c]
  have "ents s' = ents s \<and> (\<forall>tmp. r = Inr tmp \<longrightarrow> (\<exists>i. tmp = temp_name i) \<and> mget (fs_files s') tmp = Some data)"
  proof (cases r1)
    case (Inl e)
    then show ?thesis using assms c s1 by (auto simp: writeTemp_def)
  next
    case (Inr tmp)
    then obtain i where i: "tmp = temp_name i" using os_CreateTemp_name c by blast
    obtain s2 e2 s3 e3 s4 e4 where st: "os_Touch s1 = (s2, e2)" "os_Write tmp data s2 = (s3, e3)" "os_Touch s3 = (s4, e4)"
      by fastforce
    have e: "ents s2 = ents s" "ents s3 = ents s" "ents s4 = ents s" "fs_files s4 = fs_files s3"
      using ents_results(3) [OF st(1)] ents_results(3) [OF st(3)] ents_results(4) [of i data s2 s3 e3] st(2) i s1 by auto
    show ?thesis
      using assms c st e i Inr os_Write_done [of tmp data s2 s3]
      by (cases e2; cases e3; cases e4) (auto simp: writeTemp_def temp_fail_def)
  qed
  then show "ents s' = ents s" "r = Inr tmp \<Longrightarrow> (\<exists>i. tmp = temp_name i) \<and> mget (fs_files s') tmp = Some data" by auto
qed

lemma os_Rename_ents:
  assumes "os_Rename (temp_name i) path s = (s', e)" and "HasSuffix path fileEntrySuffix"
    and "mget (fs_files s) (temp_name i) = Some data"
  shows "ents s' = (if e = None then (ents s)(path \<mapsto> data) else ents s)"
  using assms temp_not_entry [of i]
  by (auto simp: os_Rename_def os_fault_def ents_def fun_eq_iff mget_mput mget_mdel split: prod.splits option.splits if_splits)

lemma os_Link_ents:
  assumes "os_Link (temp_name i) path s = (s', e)" and "HasSuffix path fileEntrySuffix"
    and "mget (fs_files s) (temp_name i) = Some data"
  shows "ents s' = (if e = None then (ents s)(path \<mapsto> data) else ents s)"
    "mget (fs_files s') (temp_name i) = Some data"
  using assms temp_not_entry [of i]
  by (auto simp: os_Link_def os_fault_def ents_def fun_eq_iff mget_mput split: prod.splits option.splits if_splits)

lemma writeAtomic_ents:
  assumes "writeAtomic path data s = (s', e)" and "HasSuffix path fileEntrySuffix"
  shows "ents s' = (if e = None then (ents s)(path \<mapsto> data) else ents s)"
proof -
  obtain s1 r where w: "writeTemp data s = (s1, r)" by fastforce
  note t = writeTemp_ents [OF w]
  show ?thesis
  proof (cases r)
    case (Inl x)
    then show ?thesis using assms(1) w t(1) by (auto simp: writeAtomic_def)
  next
    case (Inr tmp)
    then obtain i where i: "tmp = temp_name i" "mget (fs_files s1) (temp_name i) = Some data" using t(2) by blast
    obtain s2 e2 where r2: "os_Rename (temp_name i) path s1 = (s2, e2)" by fastforce
    from os_Rename_ents [OF r2 assms(2) i(2)] show ?thesis
      using assms(1) w Inr i(1) r2 t(1) by (cases e2) (auto simp: writeAtomic_def)
  qed
qed

lemma File_Set_ents:
  assumes "File_Set ms hsh j now key value exp s = (s', e)"
  shows "if e = None then \<exists>data. file_encode ms j now key value exp = Inr data \<and> ents s' = (ents s)(keyPath hsh key \<mapsto> data)
    else ents s' = ents s"
proof (cases "file_encode ms j now key value exp")
  case (Inr data)
  obtain s1 e1 where w: "writeAtomic (keyPath hsh key) data s = (s1, e1)" by fastforce
  show ?thesis using assms Inr w writeAtomic_ents [OF w keyPath_suffix] by (auto simp: File_Set_def split: if_splits)
qed (use assms in \<open>auto simp: File_Set_def split: if_splits\<close>)

lemma file_store_ents:
  assumes "file_store ms hsh j now2 key delta c exp s = (s', r)"
  shows "case r of
      Inr n \<Rightarrow> \<exists>data exp. file_encode ms j now2 key (VString (show_int n)) exp = Inr data \<and>
        ents s' = (ents s)(keyPath hsh key \<mapsto> data)
    | Inl e \<Rightarrow> ents s' = ents s"
proof (cases "file_encode ms j now2 key (VString (show_int (wrap64 (c + delta)))) exp")
  case (Inr data)
  obtain s1 e where w: "writeAtomic (keyPath hsh key) data s = (s1, e)" by fastforce
  show ?thesis using assms Inr w writeAtomic_ents [OF w keyPath_suffix]
    by (cases e) (auto simp: file_store_def Let_def intro!: exI [of _ data] exI [of _ exp])
qed (use assms in \<open>auto simp: file_store_def Let_def\<close>)

lemma File_Increment_ents:
  assumes "File_Increment ms hsh j now0 now1 now2 key delta s = (s', r)"
  shows "case r of
      Inr n \<Rightarrow> \<exists>data exp. file_encode ms j now2 key (VString (show_int n)) exp = Inr data \<and>
        ents s' = (ents s)(keyPath hsh key \<mapsto> data)
    | Inl e \<Rightarrow> ents s' = ents s"
proof -
  obtain s1 ri where rd: "readItem j (keyPath hsh key) s = (s1, ri)" by fastforce
  have "s' = s \<and> (\<exists>e. r = Inl e) \<or> s' = s1 \<and> (\<exists>e. r = Inl e) \<or>
      (\<exists>c exp. file_store ms hsh j now2 key delta c exp s1 = (s', r))"
    using assms rd by (cases ri) (auto simp: File_Increment_def Let_def split: option.splits if_splits)
  then show ?thesis using file_store_ents readItem_ents [OF rd] by (fastforce split: sum.splits)
qed

lemma File_SetNX_ents:
  assumes "File_SetNX ms hsh j now now' key value exp s = (s', r)"
  shows "if r = Inr True then \<exists>data. file_encode ms j now key value exp = Inr data \<and> ents s' = (ents s)(keyPath hsh key \<mapsto> data)
    else ents s' = ents s"
proof (cases "key = '''' \<or> (\<exists>e. file_encode ms j now key value exp = Inl e)")
  case True
  then have "s' = s \<and> r \<noteq> Inr True"
    using assms by (cases "key = ''''"; cases "file_encode ms j now key value exp") (auto simp: File_SetNX_def)
  then show ?thesis by simp
next
  case False
  then obtain data where k: "key \<noteq> ''''" and d: "file_encode ms j now key value exp = Inr data"
    by (cases "file_encode ms j now key value exp") auto
  let ?p = "keyPath hsh key"
  obtain s1 r1 where w: "writeTemp data s = (s1, r1)" by fastforce
  note t = writeTemp_ents [OF w]
  show ?thesis
  proof (cases r1)
    case (Inl e)
    then show ?thesis using assms k d w t(1) by (auto simp: File_SetNX_def Let_def)
  next
    case (Inr tmp)
    then obtain i where i: "tmp = temp_name i" "mget (fs_files s1) (temp_name i) = Some data" using t(2) by blast
    obtain s2 e2 where l: "os_Link (temp_name i) ?p s1 = (s2, e2)" by fastforce
    note ln = os_Link_ents [OF l keyPath_suffix i(2)]
    obtain s3 r3 where rd: "readItem j ?p s2 = (s3, r3)" by fastforce
    obtain s4 e4 where rn: "os_Rename (temp_name i) ?p s3 = (s4, e4)" by fastforce
    have "fs_files s3 = fs_files s2" using rd
      by (auto simp: readItem_def os_ReadFile_def os_fault_def split: prod.splits sum.splits os_error.splits option.splits)
    then have rne: "ents s4 = (if e4 = None then (ents s3)(?p \<mapsto> data) else ents s3)"
      using os_Rename_ents [OF rn keyPath_suffix] ln(2) by simp
    have e3: "ents s3 = (if e2 = None then (ents s)(?p \<mapsto> data) else ents s)"
      using readItem_ents [OF rd] ln(1) t(1) by simp
    show ?thesis
      using assms k d w Inr i(1) l rd rn rne e3 ln(1) t(1)
      by (cases e2; cases e4; cases r3) (auto simp: File_SetNX_def Let_def split: if_splits)
  qed
qed

section \<open>Without failures\<close>

definition quiet :: "fsys \<Rightarrow> bool" where
  "quiet s \<longleftrightarrow> fs_faults s = (\<lambda>_. None)"

lemma quiet_readItem:
  assumes "quiet s" and "HasSuffix p fileEntrySuffix"
  obtains s' where "readItem j p s = (s', case ents s p of None \<Rightarrow> Inl ReadNotFound
      | Some raw \<Rightarrow> (case ij_decode j raw of Inl e \<Rightarrow> Inl (ReadDecode e) | Inr i \<Rightarrow> Inr i))"
    "quiet s'" "ents s' = ents s"
  using assms that [of "fst (readItem j p s)"]
  by (auto simp: quiet_def readItem_def os_ReadFile_def os_fault_def ents_def fun_eq_iff split: option.splits)

lemma quiet_writeTemp:
  assumes "quiet s"
  obtains s' i where "writeTemp data s = (s', Inr (temp_name i))" "quiet s'" "ents s' = ents s"
    "mget (fs_files s') (temp_name i) = Some data"
proof -
  obtain s' r where w: "writeTemp data s = (s', r)" by fastforce
  then have "quiet s' \<and> (\<exists>i. r = Inr (temp_name i))" using assms
    by (auto simp: quiet_def writeTemp_def os_CreateTemp_def os_Touch_def os_Write_def os_fault_def Let_def)
  then show ?thesis using that w writeTemp_ents [OF w] by blast
qed

lemma quiet_Rename:
  assumes "quiet s" and "HasSuffix p fileEntrySuffix" and "mget (fs_files s) (temp_name i) = Some data"
  obtains s' where "os_Rename (temp_name i) p s = (s', None)" "quiet s'" "ents s' = (ents s)(p \<mapsto> data)"
proof -
  obtain s' e where r: "os_Rename (temp_name i) p s = (s', e)" by fastforce
  then have "quiet s' \<and> e = None" using assms by (auto simp: quiet_def os_Rename_def os_fault_def)
  then show ?thesis using that r os_Rename_ents [OF r assms(2,3)] by simp
qed

lemma quiet_Link:
  assumes "quiet s" and "HasSuffix p fileEntrySuffix" and "mget (fs_files s) (temp_name i) = Some data"
  obtains s' where "os_Link (temp_name i) p s = (s', if ents s p = None then None else Some Exist)" "quiet s'"
    "ents s' = (if ents s p = None then (ents s)(p \<mapsto> data) else ents s)" "mget (fs_files s') (temp_name i) = Some data"
proof -
  obtain s' e where r: "os_Link (temp_name i) p s = (s', e)" by fastforce
  then have "quiet s' \<and> e = (if ents s p = None then None else Some Exist)"
    using assms by (auto simp: quiet_def os_Link_def os_fault_def ents_def split: option.splits)
  then show ?thesis using that r os_Link_ents [OF r assms(2,3)] by (auto split: if_splits)
qed

lemma quiet_Remove:
  assumes "quiet s" and "HasSuffix p fileEntrySuffix"
  obtains s' where "os_Remove p s = (s', if ents s p = None then Some NotExist else None)" "quiet s'"
    "ents s' = (ents s)(p := None)"
proof -
  obtain s' e where r: "os_Remove p s = (s', e)" by fastforce
  then have "quiet s' \<and> e = (if ents s p = None then Some NotExist else None) \<and> ents s' = (ents s)(p := None)"
    using assms by (auto simp: quiet_def os_Remove_def os_fault_def ents_def fun_eq_iff mget_mdel split: option.splits)
  then show ?thesis using that r by blast
qed

lemma quiet_Remove_temp: "quiet s \<Longrightarrow> quiet (fst (os_Remove n s))"
  by (auto simp: quiet_def os_Remove_def os_fault_def split: option.splits)

lemma quiet_writeAtomic:
  assumes "quiet s" and "HasSuffix p fileEntrySuffix"
  obtains s' where "writeAtomic p data s = (s', None)" "quiet s'" "ents s' = (ents s)(p \<mapsto> data)"
proof -
  obtain s1 i where w: "writeTemp data s = (s1, Inr (temp_name i))" "quiet s1" "ents s1 = ents s"
    "mget (fs_files s1) (temp_name i) = Some data" using quiet_writeTemp [OF assms(1)] by metis
  obtain s2 where "os_Rename (temp_name i) p s1 = (s2, None)" "quiet s2" "ents s2 = (ents s1)(p \<mapsto> data)"
    using quiet_Rename [OF w(2) assms(2) w(4)] by metis
  with w show ?thesis using that by (auto simp: writeAtomic_def)
qed

section \<open>Refinement\<close>

text \<open>Valid UTF-8.\<close>

definition cont_byte :: "char \<Rightarrow> bool" where
  "cont_byte c \<longleftrightarrow> 128 \<le> (of_char c :: nat) \<and> (of_char c :: nat) < 192"

fun valid_utf8 :: "string \<Rightarrow> bool" where
  "valid_utf8 [] = True"
| "valid_utf8 (c # s) =
     (let n = (of_char c :: nat)
      in if n < 128 then valid_utf8 s
         else if 194 \<le> n \<and> n < 224 then (case s of a # s' \<Rightarrow> if cont_byte a then valid_utf8 s' else False | _ \<Rightarrow> False)
         else if 224 \<le> n \<and> n < 240 then
           (case s of a # b # s' \<Rightarrow>
              if cont_byte a \<and> cont_byte b \<and> (n = 224 \<longrightarrow> 160 \<le> (of_char a :: nat)) \<and> (n = 237 \<longrightarrow> (of_char a :: nat) < 160)
              then valid_utf8 s' else False
            | _ \<Rightarrow> False)
         else if 240 \<le> n \<and> n < 245 then
           (case s of a # b # d # s' \<Rightarrow>
              if cont_byte a \<and> cont_byte b \<and> cont_byte d \<and> (n = 240 \<longrightarrow> 144 \<le> (of_char a :: nat)) \<and>
                (n = 244 \<longrightarrow> (of_char a :: nat) < 144)
              then valid_utf8 s' else False
            | _ \<Rightarrow> False)
         else False)"

lemma valid_utf8_ascii: "is_ascii s \<Longrightarrow> valid_utf8 s"
  by (induction s) (auto simp: is_ascii_def)

lemma show_int_utf8: "valid_utf8 (show_int i)"
proof -
  have "(of_char c :: nat) < 128" if "is_digit c" for c
    using that by (auto simp: is_digit_def in_range_def less_eq_char_def)
  then have "is_ascii (show_nat n)" for n using show_nat_digits by (auto simp: is_ascii_def list_all_iff)
  then show ?thesis by (auto simp: show_int_def is_ascii_def intro: valid_utf8_ascii)
qed

text \<open>The first instant of the year 10000; \<^verbatim>\<open>time.Time\<close> has no JSON form from there on.\<close>

definition max_time :: int where
  "max_time = 253402300800 * Second"

text \<open>
  What is relied on: the hash separates the keys in use, and JSON decodes what it encodes, for
  entries of valid UTF-8 (other bytes are replaced when they are encoded) and times it can express.
\<close>

definition item_ok :: "FileItem \<Rightarrow> bool" where
  "item_ok i \<longleftrightarrow> zero_time \<le> fi_ExpiresAt i \<and> fi_ExpiresAt i < max_time"

definition file_laws :: "(string \<Rightarrow> 8 word list) \<Rightarrow> item_json \<Rightarrow> string set \<Rightarrow> bool" where
  "file_laws hsh j K \<longleftrightarrow> inj_on hsh K \<and> (\<forall>k \<in> K. valid_utf8 k) \<and>
     (\<forall>i. valid_utf8 (fi_Key i) \<and> valid_utf8 (fi_Value i) \<and> item_ok i \<longrightarrow>
        (\<exists>raw. ij_encode j i = Inr raw \<and> ij_decode j raw = Inr i))"

definition file_inv :: "(string \<Rightarrow> 8 word list) \<Rightarrow> item_json \<Rightarrow> string set \<Rightarrow> fsys \<Rightarrow> bool" where
  "file_inv hsh j K s \<longleftrightarrow> file_laws hsh j K \<and> quiet s \<and>
     (\<forall>k \<in> K. \<forall>raw. ents s (keyPath hsh k) = Some raw \<longrightarrow>
        (\<exists>i. ij_decode j raw = Inr i \<and> fi_Key i = k \<and> item_ok i))"

definition item_entry :: "FileItem \<Rightarrow> entry" where
  "item_entry i = (fi_Value i, if fi_NoExpiry i then None else Some (fi_ExpiresAt i))"

definition file_vis :: "(string \<Rightarrow> 8 word list) \<Rightarrow> item_json \<Rightarrow> string set \<Rightarrow> fsys \<Rightarrow> int \<Rightarrow> view" where
  "file_vis hsh j K s t = (\<lambda>k. if k \<in> K then
     (case ents s (keyPath hsh k) of
        None \<Rightarrow> None
      | Some raw \<Rightarrow>
          (case ij_decode j raw of Inl _ \<Rightarrow> None | Inr i \<Rightarrow> if file_expired t i then None else Some (item_entry i)))
     else None)"

fun file_ok :: "'v marshallers \<Rightarrow> string set \<Rightarrow> 'v cache_op \<Rightarrow> int \<Rightarrow> bool" where
  "file_ok ms K (OpSet k v e) t \<longleftrightarrow> (k = '''' \<or> k \<in> K) \<and> (\<forall>str. marshalValue ms v = Inr str \<longrightarrow> valid_utf8 str) \<and>
     zero_time \<le> t \<and> t + max 0 e < max_time"
| "file_ok ms K (OpSetNX k v e) t \<longleftrightarrow> (k = '''' \<or> k \<in> K) \<and> (\<forall>str. marshalValue ms v = Inr str \<longrightarrow> valid_utf8 str) \<and>
     zero_time \<le> t \<and> t + max 0 e < max_time"
| "file_ok ms K (OpGet k) t \<longleftrightarrow> k = '''' \<or> k \<in> K"
| "file_ok ms K (OpDelete k) t \<longleftrightarrow> k = '''' \<or> k \<in> K"
| "file_ok ms K (OpIncrement k d) t \<longleftrightarrow> k = '''' \<or> k \<in> K"
| "file_ok ms K (OpTTL k) t \<longleftrightarrow> k = '''' \<or> k \<in> K"
| "file_ok ms K OpDeleteExpired t \<longleftrightarrow> True"

lemma zero_lt_max: "zero_time < max_time"
  by (simp add: zero_time_def max_time_def Second_def)

lemma file_encode_ok:
  assumes "file_laws hsh j K" and "key \<in> K" and "marshalValue ms v = Inr str" and "valid_utf8 str"
    and "0 < exp \<longrightarrow> zero_time \<le> now + exp \<and> now + exp < max_time"
  obtains raw i where "file_encode ms j now key v exp = Inr raw" "ij_decode j raw = Inr i" "fi_Key i = key" "item_ok i"
    "item_entry i = (str, deadline now exp)" "\<not> file_expired now i"
proof -
  let ?i = "if exp \<le> 0 then \<lparr>fi_Key = key, fi_Value = str, fi_ExpiresAt = zero_time, fi_NoExpiry = True\<rparr>
    else \<lparr>fi_Key = key, fi_Value = str, fi_ExpiresAt = now + exp, fi_NoExpiry = False\<rparr>"
  have "item_ok ?i" using assms(5) zero_lt_max by (auto simp: item_ok_def)
  moreover have "valid_utf8 (fi_Key ?i)" "valid_utf8 (fi_Value ?i)" using assms(1,2,4) by (auto simp: file_laws_def)
  ultimately obtain raw where "ij_encode j ?i = Inr raw" "ij_decode j raw = Inr ?i"
    using assms(1) unfolding file_laws_def by blast
  then show ?thesis using assms(3) \<open>item_ok ?i\<close>
    by (intro that [of raw ?i]) (auto simp: file_encode_def item_entry_def deadline_def file_expired_def)
qed

lemma file_invD:
  assumes "file_inv hsh j K s" and "k \<in> K" and "ents s (keyPath hsh k) = Some raw"
  obtains i where "ij_decode j raw = Inr i" "fi_Key i = k" "item_ok i"
  using assms unfolding file_inv_def by blast

lemma keyPath_K: "file_laws hsh j K \<Longrightarrow> k \<in> K \<Longrightarrow> k' \<in> K \<Longrightarrow> keyPath hsh k = keyPath hsh k' \<longleftrightarrow> k = k'"
  by (auto simp: keyPath_eq_iff file_laws_def inj_on_def)

lemma file_update:
  assumes "file_inv hsh j K s" and "k \<in> K" and "quiet s'" and "ents s' = (ents s)(keyPath hsh k \<mapsto> raw)"
    and "ij_decode j raw = Inr i" and "fi_Key i = k" and "item_ok i"
  shows "file_inv hsh j K s'" "\<not> file_expired t i \<Longrightarrow> file_vis hsh j K s' t = (file_vis hsh j K s t)(k \<mapsto> item_entry i)"
  using assms keyPath_K [of hsh j K]
  by (auto simp: file_inv_def file_vis_def fun_eq_iff split: if_splits)

lemma file_remove:
  assumes "file_inv hsh j K s" and "k \<in> K" and "quiet s'" and "ents s' = (ents s)(keyPath hsh k := None)"
  shows "file_inv hsh j K s'" "file_vis hsh j K s' t = (file_vis hsh j K s t)(k := None)"
  using assms keyPath_K [of hsh j K]
  by (auto simp: file_inv_def file_vis_def fun_eq_iff split: if_splits)

lemma file_same:
  assumes "file_inv hsh j K s" and "quiet s'" and "ents s' = ents s"
  shows "file_inv hsh j K s'" "file_vis hsh j K s' t = file_vis hsh j K s t"
  using assms by (auto simp: file_inv_def file_vis_def)

text \<open>What a reader finds under a key in use.\<close>

lemma readItem_vis:
  assumes "file_inv hsh j K s" and "k \<in> K"
  obtains s' r where "readItem j (keyPath hsh k) s = (s', r)" "quiet s'" "ents s' = ents s"
    "r = Inl ReadNotFound \<and> ents s (keyPath hsh k) = None \<and> file_vis hsh j K s t k = None \<or>
     (\<exists>i. r = Inr i \<and> ents s (keyPath hsh k) \<noteq> None \<and> fi_Key i = k \<and> item_ok i \<and>
       file_vis hsh j K s t k = (if file_expired t i then None else Some (item_entry i)))"
proof -
  from assms(1) have "quiet s" by (simp add: file_inv_def)
  then obtain s' where r: "readItem j (keyPath hsh k) s = (s', case ents s (keyPath hsh k) of None \<Rightarrow> Inl ReadNotFound
      | Some raw \<Rightarrow> (case ij_decode j raw of Inl e \<Rightarrow> Inl (ReadDecode e) | Inr i \<Rightarrow> Inr i))" "quiet s'" "ents s' = ents s"
    using keyPath_suffix by (rule quiet_readItem)
  show ?thesis
  proof (cases "ents s (keyPath hsh k)")
    case None
    then show ?thesis using that r assms(2) by (simp add: file_vis_def)
  next
    case (Some raw)
    then obtain i where "ij_decode j raw = Inr i" "fi_Key i = k" "item_ok i" using file_invD assms by metis
    then show ?thesis using that r assms(2) Some by (simp add: file_vis_def)
  qed
qed

text \<open>One call keeps the invariant and does what the abstract machine does.\<close>

definition step_ok :: "'v marshallers \<Rightarrow> (string \<Rightarrow> 8 word list) \<Rightarrow> item_json \<Rightarrow> string set \<Rightarrow> 'v cache_op \<Rightarrow> int \<Rightarrow> fsys \<Rightarrow> bool" where
  "step_ok ms hsh j K op t s \<longleftrightarrow>
     (case file_step ms hsh j op t s of (s', a) \<Rightarrow>
        file_inv hsh j K s' \<and> spec_step ms op t (file_vis hsh j K s t) = (file_vis hsh j K s' t, a))"

lemma file_set_refines:
  assumes "file_inv hsh j K s" and "file_ok ms K (OpSet k v e) t"
  shows "step_ok ms hsh j K (OpSet k v e) t s"
proof (cases "k = '''' \<or> (\<exists>x. marshalValue ms v = Inl x)")
  case True
  then show ?thesis using assms(1)
    by (cases "marshalValue ms v") (auto simp: step_ok_def File_Set_def file_encode_def err_answer_def)
next
  case False
  then obtain str where k: "k \<noteq> ''''" "k \<in> K" and str: "marshalValue ms v = Inr str" "valid_utf8 str"
    using assms(2) by (cases "marshalValue ms v") auto
  have laws: "file_laws hsh j K" and q: "quiet s" using assms(1) by (auto simp: file_inv_def)
  have "0 < e \<longrightarrow> zero_time \<le> t + e \<and> t + e < max_time" using assms(2) by auto
  then obtain raw i where enc: "file_encode ms j t k v e = Inr raw" "ij_decode j raw = Inr i" "fi_Key i = k" "item_ok i"
    "item_entry i = (str, deadline t e)" "\<not> file_expired t i" by (rule file_encode_ok [OF laws k(2) str])
  obtain s' where w: "writeAtomic (keyPath hsh k) raw s = (s', None)" "quiet s'" "ents s' = (ents s)(keyPath hsh k \<mapsto> raw)"
    using quiet_writeAtomic [OF q keyPath_suffix] by metis
  then show ?thesis using k str enc file_update [OF assms(1) k(2) w(2,3) enc(2-4)]
    by (simp add: step_ok_def File_Set_def err_answer_def)
qed

lemma file_setnx_refines:
  assumes "file_inv hsh j K s" and "file_ok ms K (OpSetNX k v e) t"
  shows "step_ok ms hsh j K (OpSetNX k v e) t s"
proof (cases "k = '''' \<or> (\<exists>x. marshalValue ms v = Inl x)")
  case True
  then show ?thesis using assms(1)
    by (cases "marshalValue ms v") (auto simp: step_ok_def File_SetNX_def file_encode_def val_answer_def)
next
  case False
  then obtain str where k: "k \<noteq> ''''" "k \<in> K" and str: "marshalValue ms v = Inr str" "valid_utf8 str"
    using assms(2) by (cases "marshalValue ms v") auto
  let ?p = "keyPath hsh k"
  have laws: "file_laws hsh j K" and q: "quiet s" using assms(1) by (auto simp: file_inv_def)
  have "0 < e \<longrightarrow> zero_time \<le> t + e \<and> t + e < max_time" using assms(2) by auto
  then obtain raw i where enc: "file_encode ms j t k v e = Inr raw" "ij_decode j raw = Inr i" "fi_Key i = k" "item_ok i"
    "item_entry i = (str, deadline t e)" "\<not> file_expired t i" by (rule file_encode_ok [OF laws k(2) str])
  obtain s1 n where w: "writeTemp raw s = (s1, Inr (temp_name n))" "quiet s1" "ents s1 = ents s"
    "mget (fs_files s1) (temp_name n) = Some raw" using quiet_writeTemp [OF q] by metis
  obtain s2 where l: "os_Link (temp_name n) ?p s1 = (s2, if ents s1 ?p = None then None else Some Exist)" "quiet s2"
    "ents s2 = (if ents s1 ?p = None then (ents s1)(?p \<mapsto> raw) else ents s1)" "mget (fs_files s2) (temp_name n) = Some raw"
    using quiet_Link [OF w(2) keyPath_suffix w(4)] by metis
  have rm: "quiet (fst (os_Remove (temp_name n) x)) = True" if "quiet x" for x using that quiet_Remove_temp by simp
  note upd = file_update [OF assms(1) k(2) _ _ enc(2-4)]
  show ?thesis
  proof (cases "ents s ?p")
    case None
    then have "file_vis hsh j K s t k = None" by (simp add: file_vis_def)
    with None show ?thesis using k str enc w l rm upd [of "fst (os_Remove (temp_name n) s2)"]
      by (simp add: step_ok_def File_SetNX_def val_answer_def Let_def)
  next
    case (Some x)
    then have e2: "ents s2 = ents s" using l(3) w(3) by simp
    from file_same(1) [OF assms(1) l(2) e2] have inv2: "file_inv hsh j K s2" .
    obtain s3 r where rd: "readItem j ?p s2 = (s3, r)" "quiet s3" "ents s3 = ents s2"
      "r = Inl ReadNotFound \<and> ents s2 ?p = None \<and> file_vis hsh j K s2 t k = None \<or>
       (\<exists>i. r = Inr i \<and> ents s2 ?p \<noteq> None \<and> fi_Key i = k \<and> item_ok i \<and>
         file_vis hsh j K s2 t k = (if file_expired t i then None else Some (item_entry i)))"
      using readItem_vis [OF inv2 k(2)] by metis
    have "fs_files s3 = fs_files s2" using rd(1)
      by (auto simp: readItem_def os_ReadFile_def os_fault_def split: prod.splits sum.splits os_error.splits option.splits)
    then obtain s4 where rn: "os_Rename (temp_name n) ?p s3 = (s4, None)" "quiet s4" "ents s4 = (ents s3)(?p \<mapsto> raw)"
      using quiet_Rename [OF rd(2) keyPath_suffix, of n raw] l(4) by metis
    from rd(4) Some e2 obtain it where it: "r = Inr it" "file_vis hsh j K s t k = (if file_expired t it then None else Some (item_entry it))"
      using file_same(2) [OF assms(1) l(2) e2] by auto
    show ?thesis
    proof (cases "file_expired t it")
      case True
      then show ?thesis using Some k str enc w l rm rd(1) rn it e2 rd(3) upd [of "fst (os_Remove (temp_name n) s4)"]
        by (simp add: step_ok_def File_SetNX_def val_answer_def Let_def)
    next
      case False
      then show ?thesis using Some k str enc w l rm [OF rd(2)] rd(1,3) it e2
          file_same [OF assms(1), of "fst (os_Remove (temp_name n) s3)"]
        by (simp add: step_ok_def File_SetNX_def val_answer_def Let_def)
    qed
  qed
qed

lemma file_get_refines:
  assumes "file_inv hsh j K s" and "file_ok ms K (OpGet k) t"
  shows "step_ok ms hsh j K (OpGet k) t s"
proof (cases "k = ''''")
  case True
  then show ?thesis using assms(1) by (simp add: step_ok_def File_Get_def val_answer_def)
next
  case False
  then have k: "k \<noteq> ''''" "k \<in> K" using assms(2) by auto
  obtain s1 r where rd: "readItem j (keyPath hsh k) s = (s1, r)" "quiet s1" "ents s1 = ents s"
    "r = Inl ReadNotFound \<and> ents s (keyPath hsh k) = None \<and> file_vis hsh j K s t k = None \<or>
     (\<exists>i. r = Inr i \<and> ents s (keyPath hsh k) \<noteq> None \<and> fi_Key i = k \<and> item_ok i \<and>
       file_vis hsh j K s t k = (if file_expired t i then None else Some (item_entry i)))"
    by (rule readItem_vis [OF assms(1) k(2)])
  note same = file_same [OF assms(1) rd(2,3)]
  obtain s2 where rm: "os_Remove (keyPath hsh k) s1 = (s2, if ents s1 (keyPath hsh k) = None then Some NotExist else None)"
    "quiet s2" "ents s2 = (ents s1)(keyPath hsh k := None)" using quiet_Remove [OF rd(2) keyPath_suffix] by metis
  note gone = file_remove [OF assms(1) k(2) rm(2)]
  from rd(4) show ?thesis
  proof
    assume "r = Inl ReadNotFound \<and> ents s (keyPath hsh k) = None \<and> file_vis hsh j K s t k = None"
    then show ?thesis using k rd(1) same
      by (simp add: step_ok_def File_Get_def val_answer_def spec_get_def read_text_def)
  next
    assume "\<exists>i. r = Inr i \<and> ents s (keyPath hsh k) \<noteq> None \<and> fi_Key i = k \<and> item_ok i \<and>
       file_vis hsh j K s t k = (if file_expired t i then None else Some (item_entry i))"
    then obtain i where i: "r = Inr i" "fi_Key i = k" "file_vis hsh j K s t k = (if file_expired t i then None else Some (item_entry i))"
      by blast
    have upd: "(file_vis hsh j K s t)(k := None) = file_vis hsh j K s t" if "file_expired t i" using that i(3) by (simp add: fun_upd_idem)
    show ?thesis using k rd(1,3) i same gone rm upd
      by (auto simp: step_ok_def File_Get_def val_answer_def spec_get_def item_entry_def)
  qed
qed

lemma file_delete_refines:
  assumes "file_inv hsh j K s" and "file_ok ms K (OpDelete k) t"
  shows "step_ok ms hsh j K (OpDelete k) t s"
proof (cases "k = ''''")
  case True
  then show ?thesis using assms(1) by (simp add: step_ok_def File_Delete_def err_answer_def)
next
  case False
  then have k: "k \<noteq> ''''" "k \<in> K" using assms(2) by auto
  have "quiet s" using assms(1) by (simp add: file_inv_def)
  then obtain s2 where rm: "os_Remove (keyPath hsh k) s = (s2, if ents s (keyPath hsh k) = None then Some NotExist else None)"
    "quiet s2" "ents s2 = (ents s)(keyPath hsh k := None)" using quiet_Remove keyPath_suffix by metis
  then show ?thesis using k file_remove [OF assms(1) k(2) rm(2,3)]
    by (auto simp: step_ok_def File_Delete_def err_answer_def)
qed

lemma file_store_refines:
  assumes "file_inv hsh j K s" and "k \<in> K" and "0 < exp \<longrightarrow> zero_time \<le> t + exp \<and> t + exp < max_time"
  obtains s' where "file_store ms hsh j t k delta c exp s = (s', Inr (wrap64 (c + delta)))" "file_inv hsh j K s'"
    "file_vis hsh j K s' t = (file_vis hsh j K s t)(k \<mapsto> (show_int (wrap64 (c + delta)), deadline t exp))"
proof -
  have laws: "file_laws hsh j K" and q: "quiet s" using assms(1) by (auto simp: file_inv_def)
  have "marshalValue ms (VString (show_int (wrap64 (c + delta)))) = Inr (show_int (wrap64 (c + delta)))"
    by (simp add: marshalValue_def)
  from file_encode_ok [OF laws assms(2) this show_int_utf8 assms(3)] obtain raw i
    where enc: "file_encode ms j t k (VString (show_int (wrap64 (c + delta)))) exp = Inr raw" "ij_decode j raw = Inr i" "fi_Key i = k"
      "item_ok i" "item_entry i = (show_int (wrap64 (c + delta)), deadline t exp)" "\<not> file_expired t i" by metis
  obtain s' where w: "writeAtomic (keyPath hsh k) raw s = (s', None)" "quiet s'" "ents s' = (ents s)(keyPath hsh k \<mapsto> raw)"
    using quiet_writeAtomic [OF q keyPath_suffix] by metis
  show ?thesis using that [of s'] enc w file_update [OF assms(1,2) w(2,3) enc(2-4)]
    by (simp add: file_store_def Let_def)
qed

lemma file_increment_refines:
  assumes "file_inv hsh j K s" and "file_ok ms K (OpIncrement k delta) t"
  shows "step_ok ms hsh j K (OpIncrement k delta) t s"
proof (cases "k = ''''")
  case True
  then show ?thesis using assms(1) by (simp add: step_ok_def File_Increment_def val_answer_def)
next
  case False
  then have k: "k \<noteq> ''''" "k \<in> K" using assms(2) by auto
  obtain s1 r where rd: "readItem j (keyPath hsh k) s = (s1, r)" "quiet s1" "ents s1 = ents s"
    "r = Inl ReadNotFound \<and> ents s (keyPath hsh k) = None \<and> file_vis hsh j K s t k = None \<or>
     (\<exists>i. r = Inr i \<and> ents s (keyPath hsh k) \<noteq> None \<and> fi_Key i = k \<and> item_ok i \<and>
       file_vis hsh j K s t k = (if file_expired t i then None else Some (item_entry i)))"
    by (rule readItem_vis [OF assms(1) k(2)])
  note same = file_same [OF assms(1) rd(2,3)]
  have fresh: ?thesis
    if "File_Increment ms hsh j t t t k delta s = file_store ms hsh j t k delta 0 NoExpiry s1" "file_vis hsh j K s t k = None"
  proof -
    obtain s' where "file_store ms hsh j t k delta 0 NoExpiry s1 = (s', Inr (wrap64 (0 + delta)))" "file_inv hsh j K s'"
      "file_vis hsh j K s' t = (file_vis hsh j K s1 t)(k \<mapsto> (show_int (wrap64 (0 + delta)), deadline t NoExpiry))"
      by (rule file_store_refines [OF same(1) k(2), of NoExpiry t ms delta 0]) (simp add: NoExpiry_def)
    then show ?thesis using that k same(2)
      by (simp add: step_ok_def val_answer_def spec_increment_def deadline_def NoExpiry_def)
  qed
  from rd(4) show ?thesis
  proof
    assume "r = Inl ReadNotFound \<and> ents s (keyPath hsh k) = None \<and> file_vis hsh j K s t k = None"
    then show ?thesis using k rd(1) by (intro fresh) (simp_all add: File_Increment_def)
  next
    assume "\<exists>i. r = Inr i \<and> ents s (keyPath hsh k) \<noteq> None \<and> fi_Key i = k \<and> item_ok i \<and>
       file_vis hsh j K s t k = (if file_expired t i then None else Some (item_entry i))"
    then obtain i where i: "r = Inr i" "fi_Key i = k" "item_ok i"
      "file_vis hsh j K s t k = (if file_expired t i then None else Some (item_entry i))" by blast
    show ?thesis
    proof (cases "file_expired t i")
      case True
      then show ?thesis using k rd(1) i by (intro fresh) (simp_all add: File_Increment_def)
    next
      case live: False
      show ?thesis
      proof (cases "ParseInt (fi_Value i)")
        case None
        then show ?thesis using k rd(1) i live same
          by (simp add: step_ok_def File_Increment_def val_answer_def spec_increment_def item_entry_def)
      next
        case (Some c)
        let ?exp = "if \<not> fi_NoExpiry i \<and> fi_ExpiresAt i - t > 0 then fi_ExpiresAt i - t else NoExpiry"
        have "0 < ?exp \<longrightarrow> zero_time \<le> t + ?exp \<and> t + ?exp < max_time" using i(3) by (auto simp: item_ok_def NoExpiry_def)
        then obtain s' where "file_store ms hsh j t k delta c ?exp s1 = (s', Inr (wrap64 (c + delta)))" "file_inv hsh j K s'"
          "file_vis hsh j K s' t = (file_vis hsh j K s1 t)(k \<mapsto> (show_int (wrap64 (c + delta)), deadline t ?exp))"
          by (rule file_store_refines [OF same(1) k(2)])
        then show ?thesis using k rd(1) i live same(2) Some
          by (auto simp: step_ok_def File_Increment_def val_answer_def spec_increment_def item_entry_def Let_def
            deadline_def NoExpiry_def file_expired_def)
      qed
    qed
  qed
qed

lemma file_ttl_refines:
  assumes "file_inv hsh j K s" and "file_ok ms K (OpTTL k) t"
  shows "step_ok ms hsh j K (OpTTL k) t s"
proof (cases "k = ''''")
  case True
  then show ?thesis using assms(1) by (simp add: step_ok_def File_TTL_def val_answer_def)
next
  case False
  then have k: "k \<noteq> ''''" "k \<in> K" using assms(2) by auto
  obtain s1 r where rd: "readItem j (keyPath hsh k) s = (s1, r)" "quiet s1" "ents s1 = ents s"
    "r = Inl ReadNotFound \<and> ents s (keyPath hsh k) = None \<and> file_vis hsh j K s t k = None \<or>
     (\<exists>i. r = Inr i \<and> ents s (keyPath hsh k) \<noteq> None \<and> fi_Key i = k \<and> item_ok i \<and>
       file_vis hsh j K s t k = (if file_expired t i then None else Some (item_entry i)))"
    by (rule readItem_vis [OF assms(1) k(2)])
  from rd(4) show ?thesis using k rd(1) file_same [OF assms(1) rd(2,3)]
    by (cases "file_vis hsh j K s t k")
      (auto simp: step_ok_def File_TTL_def val_answer_def spec_ttl_def read_text_def item_entry_def split: if_splits)
qed

text \<open>A sweep takes away only entries that can no longer be served.\<close>

definition dead :: "item_json \<Rightarrow> int \<Rightarrow> string \<Rightarrow> bool" where
  "dead j now raw = (case ij_decode j raw of Inl (Corrupt m) \<Rightarrow> True | Inl (DecodeOther m) \<Rightarrow> False | Inr i \<Rightarrow> file_expired now i)"

lemma file_sweep_effect:
  "quiet s \<Longrightarrow> quiet (fst (file_sweep j now names n s)) \<and>
     (\<forall>p. ents (fst (file_sweep j now names n s)) p = ents s p \<or>
        ents (fst (file_sweep j now names n s)) p = None \<and> (\<exists>raw. ents s p = Some raw \<and> dead j now raw))"
proof (induction names arbitrary: n s)
  case (Cons name names)
  show ?case
  proof (cases "HasSuffix name fileEntrySuffix")
    case True
    obtain s1 where rd: "readItem j name s = (s1, case ents s name of None \<Rightarrow> Inl ReadNotFound
        | Some raw \<Rightarrow> (case ij_decode j raw of Inl e \<Rightarrow> Inl (ReadDecode e) | Inr i \<Rightarrow> Inr i))" "quiet s1" "ents s1 = ents s"
      using quiet_readItem [OF Cons.prems True] by metis
    obtain s2 where rm: "os_Remove name s1 = (s2, if ents s1 name = None then Some NotExist else None)" "quiet s2"
      "ents s2 = (ents s1)(name := None)" using quiet_Remove [OF rd(2) True] by metis
    show ?thesis
    proof (cases "\<exists>raw. ents s name = Some raw \<and> dead j now raw")
      case True
      then obtain raw where raw: "ents s name = Some raw" "dead j now raw" by blast
      then have "file_sweep j now (name # names) n s = file_sweep j now names (n + 1) s2"
        using \<open>HasSuffix name fileEntrySuffix\<close> rd(1,3) rm(1)
        by (auto simp: dead_def isCorrupt_def split: sum.splits decode_error.splits)
      with Cons.IH [OF rm(2), of "n + 1"] raw rd(3) rm(3) show ?thesis by (auto split: if_splits)
    next
      case False
      then have "file_sweep j now (name # names) n s = file_sweep j now names n s1"
        using \<open>HasSuffix name fileEntrySuffix\<close> rd(1)
        by (auto simp: dead_def isCorrupt_def split: sum.splits decode_error.splits option.splits)
      with Cons.IH [OF rd(2), of n] rd(3) show ?thesis by auto
    qed
  next
    case False
    then show ?thesis using Cons by simp
  qed
qed simp

lemma file_sweep_refines:
  assumes "file_inv hsh j K s"
  shows "step_ok ms hsh j K OpDeleteExpired t s"
proof -
  have q: "quiet s" using assms by (simp add: file_inv_def)
  define s0 where "s0 = s\<lparr>fs_tick := fs_tick s + 1\<rparr>"
  have s0: "quiet s0" "ents s0 = ents s" "os_ReadDir s = (s0, Inr (mkeys (fs_files s)))"
    using q by (auto simp: s0_def quiet_def ents_def fun_eq_iff os_ReadDir_def os_fault_def)
  define s' where "s' = fst (file_sweep j t (mkeys (fs_files s)) 0 s0)"
  have eff: "quiet s'" "\<And>p. ents s' p = ents s p \<or> ents s' p = None \<and> (\<exists>raw. ents s p = Some raw \<and> dead j t raw)"
    using file_sweep_effect [OF s0(1)] s0(2) unfolding s'_def by metis+
  have "file_inv hsh j K s'" using assms eff unfolding file_inv_def by (metis option.distinct(1))
  moreover have "file_vis hsh j K s' t k = file_vis hsh j K s t k" for k
  proof (cases "k \<in> K \<and> ents s' (keyPath hsh k) \<noteq> ents s (keyPath hsh k)")
    case True
    then obtain raw where raw: "ents s' (keyPath hsh k) = None" "ents s (keyPath hsh k) = Some raw" "dead j t raw"
      using eff(2) by metis
    obtain i where "ij_decode j raw = Inr i" using file_invD [OF assms _ raw(2)] True by metis
    with raw show ?thesis by (simp add: file_vis_def dead_def)
  qed (auto simp: file_vis_def)
  moreover have "file_step ms hsh j OpDeleteExpired t s = (s', ASwept)"
    using s0(3) by (cases "file_sweep j t (mkeys (fs_files s)) 0 s0") (simp add: File_DeleteExpired_def val_answer_def s'_def)
  ultimately show ?thesis by (simp add: step_ok_def fun_eq_iff)
qed

lemma file_step_ok: "file_inv hsh j K s \<Longrightarrow> file_ok ms K op t \<Longrightarrow> step_ok ms hsh j K op t s"
  by (cases op) (simp_all only: file_set_refines file_setnx_refines file_get_refines file_delete_refines
    file_increment_refines file_ttl_refines file_sweep_refines)

interpretation file_cache: provider ms "file_step ms hsh j" "file_vis hsh j K" "file_inv hsh j K" "file_ok ms K"
proof unfold_locales
  show "file_inv hsh j K (fst (file_step ms hsh j op t s))" if "file_inv hsh j K s" "file_ok ms K op t" for s op t
    using file_step_ok [OF that] by (auto simp: step_ok_def split: prod.splits)
  show "spec_step ms op t (file_vis hsh j K s t) =
      (file_vis hsh j K (fst (file_step ms hsh j op t s)) t, snd (file_step ms hsh j op t s))"
    if "file_inv hsh j K s" "file_ok ms K op t" for s op t
    using file_step_ok [OF that] by (auto simp: step_ok_def split: prod.splits)
  show "file_vis hsh j K s t' = prune t' (file_vis hsh j K s t)" if "t \<le> t'" for s t t'
    using that by (auto simp: file_vis_def prune_def alive_def item_entry_def file_expired_def fun_eq_iff
      split: option.splits sum.splits)
qed

text \<open>
  Two things the contract does not cover. A key that is not valid UTF-8 is stored under a coerced
  form, so an entry that was set is not found again; and a counter that expires between the
  two clock readings of \<^verbatim>\<open>Increment\<close> is stored without an expiry.
\<close>

lemma coerced_key_not_found:
  assumes "quiet s" and "key \<noteq> ''''" and "file_encode ms j now key v exp = Inr raw" and "ij_decode j raw = Inr i"
    and "fi_Key i \<noteq> key"
  shows "\<exists>s'. File_Set ms hsh j now key v exp s = (s', None) \<and> snd (File_Get hsh j t key s') = Inl ErrNotFound"
proof -
  obtain s1 where w: "writeAtomic (keyPath hsh key) raw s = (s1, None)" "quiet s1" "ents s1 = (ents s)(keyPath hsh key \<mapsto> raw)"
    using quiet_writeAtomic [OF assms(1) keyPath_suffix] by metis
  obtain s2 where "readItem j (keyPath hsh key) s1 = (s2, case ents s1 (keyPath hsh key) of None \<Rightarrow> Inl ReadNotFound
      | Some raw \<Rightarrow> (case ij_decode j raw of Inl e \<Rightarrow> Inl (ReadDecode e) | Inr i \<Rightarrow> Inr i))"
    using quiet_readItem [OF w(2) keyPath_suffix] by metis
  with w assms show ?thesis by (auto simp: File_Set_def File_Get_def Let_def)
qed

lemma counter_becomes_permanent:
  assumes "readItem j (keyPath hsh key) s = (s1, Inr item)" and "key \<noteq> ''''" and "fi_Key item = key"
    and "\<not> fi_NoExpiry item" and "now0 < fi_ExpiresAt item" and "fi_ExpiresAt item \<le> now1" and "ParseInt (fi_Value item) = Some c"
  shows "File_Increment ms hsh j now0 now1 now2 key delta s = file_store ms hsh j now2 key delta c NoExpiry s1"
  using assms by (simp add: File_Increment_def file_expired_def Let_def)

section \<open>Properties\<close>

text \<open>
  Cache files are replaced as a whole or not at all: whichever calls of the operating system
  fail, and wherever a write stops, a \<^verbatim>\<open>Set\<close>, \<^verbatim>\<open>SetNX\<close> or \<^verbatim>\<open>Increment\<close> that reports success has put the
  complete new entry under the name of its key, one that does not has left every entry as it was,
  and no other entry is touched. The name of a key is the hexadecimal form of its hash and a
  suffix, with no separator in it, so no key reaches outside the directory.
\<close>

theorem file_writes_atomic:
  "(case File_Set ms hsh j now key value exp s of (s', e) \<Rightarrow>
      if e = None then \<exists>data. file_encode ms j now key value exp = Inr data \<and> ents s' = (ents s)(keyPath hsh key \<mapsto> data)
      else ents s' = ents s) \<and>
   (case File_SetNX ms hsh j now now' key value exp s of (s', r) \<Rightarrow>
      if r = Inr True then \<exists>data. file_encode ms j now key value exp = Inr data \<and> ents s' = (ents s)(keyPath hsh key \<mapsto> data)
      else ents s' = ents s) \<and>
   (case File_Increment ms hsh j now0 now1 now2 key delta s of
      (s', Inr n) \<Rightarrow> \<exists>data exp. file_encode ms j now2 key (VString (show_int n)) exp = Inr data \<and>
        ents s' = (ents s)(keyPath hsh key \<mapsto> data)
    | (s', Inl e) \<Rightarrow> ents s' = ents s) \<and>
   length (keyPath hsh key) = 2 * length (hsh key) + 5 \<and>
   CHR ''/'' \<notin> set (keyPath hsh key) \<and> CHR 0x00 \<notin> set (keyPath hsh key)"
  using File_Set_ents [of ms hsh j now key _ exp s] File_SetNX_ents [of ms hsh j now now' key _ exp s]
    File_Increment_ents [of ms hsh j now0 now1 now2 key delta s] keyPath_safe [of hsh key]
  by (intro conjI) (auto split: prod.splits sum.splits)

definition empty_dir :: fsys where
  "empty_dir = \<lparr>fs_files = [], fs_temp = 0, fs_faults = (\<lambda>_. None), fs_tick = 0\<rparr>"


text \<open>A hash and an encoding for which the laws hold.\<close>

fun quo :: "string \<Rightarrow> string" where
  "quo [] = ''.''"
| "quo (c # s) = CHR ''x'' # c # quo s"

fun unquo :: "string \<Rightarrow> (string \<times> string) option" where
  "unquo (a # c # s) =
     (if a = CHR ''x'' then map_option (map_prod ((#) c) id) (unquo s) else if a = CHR ''.'' then Some ([], c # s) else None)"
| "unquo [a] = (if a = CHR ''.'' then Some ([], []) else None)"
| "unquo [] = None"

lemma unquo_quo: "unquo (quo s @ r) = Some (s, r)"
proof (induction s)
  case Nil
  then show ?case by (cases r) auto
qed simp

definition demo_item_json :: item_json where
  "demo_item_json = \<lparr>
     ij_encode = (\<lambda>i. Inr (quo (fi_Key i) @ quo (fi_Value i) @ quo (show_nat (nat \<bar>fi_ExpiresAt i\<bar>)) @
       [if fi_ExpiresAt i < 0 then CHR ''-'' else CHR ''+'', if fi_NoExpiry i then CHR ''1'' else CHR ''0''])),
     ij_decode = (\<lambda>raw.
       case unquo raw of None \<Rightarrow> Inl (Corrupt '''') | Some (k, r1) \<Rightarrow>
         (case unquo r1 of None \<Rightarrow> Inl (Corrupt '''') | Some (v, r2) \<Rightarrow>
           (case unquo r2 of None \<Rightarrow> Inl (Corrupt '''') | Some (d, r3) \<Rightarrow>
             (case (parse_digits 0 d, r3) of
                (Some n, [sg, fl]) \<Rightarrow> Inr \<lparr>fi_Key = k, fi_Value = v,
                  fi_ExpiresAt = (if sg = CHR ''-'' then - int n else int n), fi_NoExpiry = (fl = CHR ''1'')\<rparr>
              | _ \<Rightarrow> Inl (Corrupt '''')))))\<rparr>"

definition demo_hash :: "string \<Rightarrow> 8 word list" where
  "demo_hash k = map (\<lambda>c. word_of_nat (of_char c)) k"

definition file_ms :: "nat marshallers" where
  "file_ms = \<lparr>MarshalBinary = (\<lambda>_. Inl ''''), MarshalText = (\<lambda>_. Inl ''''), JsonMarshal = (\<lambda>n. Inr (show_nat n))\<rparr>"

definition file_calls :: "(int \<times> nat cache_op) list" where
  "file_calls = [(0, OpSetNX ''a'' (VString ''x'') 10), (5, OpSetNX ''a'' (VString ''y'') 10), (9, OpTTL ''a''),
     (10, OpGet ''a''), (11, OpSetNX ''a'' (VString ''z'') 10), (12, OpIncrement ''b'' 2), (13, OpIncrement ''b'' 3),
     (30, OpDeleteExpired), (31, OpGet ''a''), (32, OpGet ''b'')]"

lemma demo_item_json_roundtrip: "\<exists>raw. ij_encode demo_item_json i = Inr raw \<and> ij_decode demo_item_json raw = Inr i"
proof -
  have "ij_decode demo_item_json (quo (fi_Key i) @ quo (fi_Value i) @ quo (show_nat (nat \<bar>fi_ExpiresAt i\<bar>)) @
      [if fi_ExpiresAt i < 0 then CHR ''-'' else CHR ''+'', if fi_NoExpiry i then CHR ''1'' else CHR ''0'']) = Inr i"
    by (simp add: demo_item_json_def unquo_quo parse_show_nat)
  then show ?thesis by (simp add: demo_item_json_def)
qed


end
