(* ===== verification/Sql_Where.thy ===== *)
theory Sql_Where
  imports Go_Lib
begin

text \<open>
  SQL text (\<^verbatim>\<open>common/sqldb/repository\<close>: \<^verbatim>\<open>dialect.go\<close>, \<^verbatim>\<open>identifier.go\<close>, \<^verbatim>\<open>where.go\<close>). Identifiers cannot be
  bound as parameters, so they are validated and quoted; values are always bound. The text a
  builder produces is compared with a sequence of tokens, in which an identifier is only ever a
  quoted name and a value only a numbered placeholder.
\<close>

section \<open>Dialects\<close>

type_synonym dialect = string

definition DialectPostgres :: dialect where "DialectPostgres = ''postgres''"
definition DialectMySQL :: dialect where "DialectMySQL = ''mysql''"
definition DialectSQLite :: dialect where "DialectSQLite = ''sqlite3''"

definition normalizeDialect :: "(string \<Rightarrow> string) \<Rightarrow> dialect \<Rightarrow> dialect" where
  "normalizeDialect uni d =
     (let s = ToLower uni (TrimSpace d)
      in if s = DialectMySQL then DialectMySQL
         else if s = DialectSQLite \<or> s = ''sqlite'' then DialectSQLite
         else DialectPostgres)"

definition placeholder :: "dialect \<Rightarrow> nat \<Rightarrow> string" where
  "placeholder d index = (if d = DialectPostgres then ''$'' @ show_nat index else ''?'')"

definition placeholders :: "dialect \<Rightarrow> nat \<Rightarrow> nat \<Rightarrow> string" where
  "placeholders d start count = Join (map (\<lambda>i. placeholder d (start + i)) [0..<count]) '', ''"

definition supportsReturning :: "dialect \<Rightarrow> bool" where
  "supportsReturning d = (d = DialectPostgres)"

lemma dialects_distinct [simp]:
  "DialectMySQL \<noteq> DialectPostgres" "DialectSQLite \<noteq> DialectPostgres" "DialectMySQL \<noteq> DialectSQLite"
  "DialectPostgres \<noteq> DialectMySQL" "DialectPostgres \<noteq> DialectSQLite" "DialectSQLite \<noteq> DialectMySQL"
  by (simp_all add: DialectPostgres_def DialectMySQL_def DialectSQLite_def)

lemma normalizeDialect_idem [simp]:
  "normalizeDialect uni DialectPostgres = DialectPostgres" "normalizeDialect uni DialectMySQL = DialectMySQL"
  "normalizeDialect uni DialectSQLite = DialectSQLite"
proof -
  have trim: "TrimSpace ''postgres'' = ''postgres''" "TrimSpace ''mysql'' = ''mysql''" "TrimSpace ''sqlite3'' = ''sqlite3''"
    by (rule TrimSpace_plain, code_simp)+
  have ascii: "is_ascii ''postgres''" "is_ascii ''mysql''" "is_ascii ''sqlite3''" by code_simp+
  have lower: "map lower_char ''postgres'' = ''postgres''" "map lower_char ''mysql'' = ''mysql''"
    "map lower_char ''sqlite3'' = ''sqlite3''"
    by code_simp+
  show "normalizeDialect uni DialectPostgres = DialectPostgres" "normalizeDialect uni DialectMySQL = DialectMySQL"
    "normalizeDialect uni DialectSQLite = DialectSQLite"
    unfolding normalizeDialect_def DialectPostgres_def DialectMySQL_def DialectSQLite_def ToLower_def trim Let_def
    using ascii by (simp_all only: lower if_True) simp_all
qed

section \<open>Identifiers\<close>

definition maxIdentifierLength :: nat where "maxIdentifierLength = 64"
definition maxQualifiedParts :: nat where "maxQualifiedParts = 3"

definition reservedIdentifiers :: "string list" where
  "reservedIdentifiers =
     [''all'', ''alter'', ''and'', ''any'', ''as'', ''asc'', ''begin'', ''benchmark'', ''between'', ''by'',
      ''case'', ''cast'', ''commit'', ''conflict'', ''create'', ''database'', ''declare'', ''delete'', ''desc'',
      ''distinct'', ''do'', ''drop'', ''dumpfile'', ''except'', ''exec'', ''execute'', ''exists'', ''fetch'',
      ''for'', ''from'', ''grant'', ''group'', ''having'', ''ilike'', ''in'', ''index'', ''information_schema'',
      ''insert'', ''intersect'', ''into'', ''is'', ''join'', ''lateral'', ''like'', ''limit'', ''load_file'',
      ''lock'', ''not'', ''nowait'', ''null'', ''offset'', ''on'', ''or'', ''order'', ''outfile'', ''over'',
      ''partition'', ''pg_sleep'', ''procedure'', ''recursive'', ''rename'', ''returning'', ''revoke'',
      ''rollback'', ''savepoint'', ''schema'', ''select'', ''set'', ''shutdown'', ''sleep'', ''some'', ''table'',
      ''then'', ''trigger'', ''truncate'', ''union'', ''update'', ''using'', ''values'', ''view'', ''waitfor'',
      ''when'', ''where'', ''window'', ''with'', ''xp_cmdshell'']"

datatype ident_error =
    IdEmpty
  | IdTooManyParts
  | IdEmptyPart
  | IdTooLong
  | IdLeadingDigit
  | IdBadCharacter
  | IdReserved

definition letter :: "char \<Rightarrow> bool" where
  "letter c \<longleftrightarrow> in_range CHR ''a'' CHR ''z'' c \<or> in_range CHR ''A'' CHR ''Z'' c \<or> c = CHR ''_''"

fun part_loop :: "bool \<Rightarrow> string \<Rightarrow> ident_error option" where
  "part_loop first [] = None"
| "part_loop first (c # s) =
     (if letter c then part_loop False s
      else if is_digit c then (if first then Some IdLeadingDigit else part_loop False s)
      else Some IdBadCharacter)"

text \<open>When the reserved words are looked up, every byte is known to be ASCII.\<close>

definition validateIdentifierPart :: "string \<Rightarrow> ident_error option" where
  "validateIdentifierPart part =
     (if part = '''' then Some IdEmptyPart
      else if length part > maxIdentifierLength then Some IdTooLong
      else (case part_loop True part of
          Some e \<Rightarrow> Some e
        | None \<Rightarrow> if map lower_char part \<in> set reservedIdentifiers then Some IdReserved else None))"

fun validate_parts :: "string list \<Rightarrow> ident_error option" where
  "validate_parts [] = None"
| "validate_parts (p # ps) = (case validateIdentifierPart p of Some e \<Rightarrow> Some e | None \<Rightarrow> validate_parts ps)"

definition ValidateIdentifier :: "string \<Rightarrow> ident_error option" where
  "ValidateIdentifier name =
     (if name = '''' then Some IdEmpty
      else
        let parts = Split CHR ''.'' name
        in if length parts > maxQualifiedParts then Some IdTooManyParts else validate_parts parts)"

definition quoteChar :: "dialect \<Rightarrow> char" where
  "quoteChar d = (if d = DialectMySQL then CHR 0x60 else CHR 0x22)"

definition QuoteIdentifier :: "(string \<Rightarrow> string) \<Rightarrow> dialect \<Rightarrow> string \<Rightarrow> string" where
  "QuoteIdentifier uni d name =
     (let q = quoteChar (normalizeDialect uni d)
      in [q] @ concat (map (\<lambda>c. if c = q then [q, c] else [c]) name) @ [q])"

definition QuoteQualified :: "(string \<Rightarrow> string) \<Rightarrow> dialect \<Rightarrow> string \<Rightarrow> string" where
  "QuoteQualified uni d name = Join (map (QuoteIdentifier uni d) (Split CHR ''.'' name)) ''.''"

definition QuoteValidated :: "(string \<Rightarrow> string) \<Rightarrow> dialect \<Rightarrow> string \<Rightarrow> (ident_error, string) result" where
  "QuoteValidated uni d name =
     (case ValidateIdentifier name of Some e \<Rightarrow> Inl e | None \<Rightarrow> Inr (QuoteQualified uni d name))"

section \<open>Conditions\<close>

text \<open>Values as the driver receives them; a byte slice is one value.\<close>

datatype 'v sqlval = SNil | SBytes 'v | SSlice "'v sqlval list" | SScalar 'v

datatype operator =
    OpEq | OpNotEq | OpGT | OpGTE | OpLT | OpLTE | OpLike | OpILike | OpIn | OpNotIn | OpIsNull | OpNotNull | OpBetween
  | OpUnknown nat

definition op_String :: "operator \<Rightarrow> string" where
  "op_String o1 =
     (case o1 of
        OpEq \<Rightarrow> ''='' | OpNotEq \<Rightarrow> ''<>'' | OpGT \<Rightarrow> ''>'' | OpGTE \<Rightarrow> ''>='' | OpLT \<Rightarrow> ''<'' | OpLTE \<Rightarrow> ''<=''
      | OpLike \<Rightarrow> ''LIKE'' | OpILike \<Rightarrow> ''ILIKE'' | OpIn \<Rightarrow> ''IN'' | OpNotIn \<Rightarrow> ''NOT IN'' | OpIsNull \<Rightarrow> ''IS NULL''
      | OpNotNull \<Rightarrow> ''IS NOT NULL'' | OpBetween \<Rightarrow> ''BETWEEN'' | OpUnknown n \<Rightarrow> ''Operator('' @ show_nat n @ '')'')"

record 'v cond =
  cd_Column :: string
  cd_Op :: operator
  cd_Value :: "'v sqlval"

datatype sql_error =
    UnknownOperator nat string
  | SqlIdent ident_error
  | NeedsSlice operator string
  | NotASlice operator string
  | BetweenBounds string nat
  | ErrEmptyFilter
  | ErrNoUpdateColumns
  | NoInsertableColumns
  | NoConflictColumns
  | StepNotPositive

definition elements :: "'v sqlval \<Rightarrow> 'v sqlval list option" where
  "elements v = (case v of SNil \<Rightarrow> Some [] | SBytes b \<Rightarrow> Some [SBytes b] | SSlice vs \<Rightarrow> Some vs | SScalar x \<Rightarrow> None)"

text \<open>One predicate: its text, what it binds, and the last placeholder used.\<close>

definition cond_part :: "(string \<Rightarrow> string) \<Rightarrow> dialect \<Rightarrow> 'v cond \<Rightarrow> nat \<Rightarrow>
    (sql_error, string \<times> 'v sqlval list \<times> nat) result" where
  "cond_part uni d c idx =
     (let o1 = cd_Op c; v = cd_Value c
      in (case o1 of
            OpUnknown n \<Rightarrow> Inl (UnknownOperator n (cd_Column c))
          | _ \<Rightarrow>
              (case QuoteValidated uni d (cd_Column c) of
                 Inl e \<Rightarrow> Inl (SqlIdent e)
               | Inr col \<Rightarrow>
                   if o1 = OpIsNull then Inr (col @ '' IS NULL'', [], idx)
                   else if o1 = OpNotNull then Inr (col @ '' IS NOT NULL'', [], idx)
                   else if o1 = OpIn \<or> o1 = OpNotIn then
                     if v = SNil then Inl (NeedsSlice o1 (cd_Column c))
                     else (case elements v of
                         None \<Rightarrow> Inl (NotASlice o1 (cd_Column c))
                       | Some vs \<Rightarrow>
                           if length vs = 0 then Inr (if o1 = OpIn then ''1 = 0'' else ''1 = 1'', [], idx)
                           else Inr (col @ '' '' @ op_String o1 @ '' ('' @
                                 Join (map (\<lambda>i. placeholder d (idx + 1 + i)) [0..<length vs]) '', '' @ '')'',
                               vs, idx + length vs))
                   else if o1 = OpBetween then
                     (case elements v of
                        None \<Rightarrow> Inl (NotASlice o1 (cd_Column c))
                      | Some vs \<Rightarrow>
                          if length vs \<noteq> 2 then Inl (BetweenBounds (cd_Column c) (length vs))
                          else Inr (col @ '' BETWEEN '' @ placeholder d (idx + 1) @ '' AND '' @ placeholder d (idx + 2),
                                    [vs ! 0, vs ! 1], idx + 2))
                   else if o1 = OpILike then
                     Inr (if d = DialectPostgres then col @ '' ILIKE '' @ placeholder d (idx + 1)
                          else ''LOWER('' @ col @ '') LIKE LOWER('' @ placeholder d (idx + 1) @ '')'', [v], idx + 1)
                   else if v = SNil \<and> o1 = OpEq then Inr (col @ '' IS NULL'', [], idx)
                   else if v = SNil \<and> o1 = OpNotEq then Inr (col @ '' IS NOT NULL'', [], idx)
                   else Inr (col @ '' '' @ op_String o1 @ '' '' @ placeholder d (idx + 1), [v], idx + 1))))"

fun conds_loop :: "(string \<Rightarrow> string) \<Rightarrow> dialect \<Rightarrow> 'v cond list \<Rightarrow> string list \<Rightarrow> 'v sqlval list \<Rightarrow> nat \<Rightarrow>
    (sql_error, string list \<times> 'v sqlval list \<times> nat) result" where
  "conds_loop uni d [] parts args idx = Inr (parts, args, idx)"
| "conds_loop uni d (c # cs) parts args idx =
     (case cond_part uni d c idx of
        Inl e \<Rightarrow> Inl e
      | Inr (part, vs, idx') \<Rightarrow> conds_loop uni d cs (parts @ [part]) (args @ vs) idx')"

definition buildConds :: "(string \<Rightarrow> string) \<Rightarrow> dialect \<Rightarrow> 'v cond list \<Rightarrow> nat \<Rightarrow>
    (sql_error, string \<times> 'v sqlval list \<times> nat) result" where
  "buildConds uni d conds startIdx =
     (if length conds = 0 then Inr ('''', [], startIdx)
      else and_then (conds_loop uni d conds [] [] startIdx) (\<lambda>(parts, args, idx).
        Inr (Join parts '' AND '', args, idx)))"

definition buildWhereConds :: "(string \<Rightarrow> string) \<Rightarrow> dialect \<Rightarrow> 'v cond list \<Rightarrow> nat \<Rightarrow>
    (sql_error, string \<times> 'v sqlval list \<times> nat) result" where
  "buildWhereConds uni d conds startIdx =
     and_then (buildConds uni d conds startIdx) (\<lambda>(clause, args, idx).
       Inr (if clause = '''' then '''' else ''WHERE '' @ clause, args, idx))"


section \<open>Reading the text back\<close>

text \<open>
  What a database reads in the text of a statement: quoted names, placeholders (a numbered one, or
  the next in line), and the characters between them.
\<close>

datatype token = TIdent string | THolder nat | TChar char | TBroken

datatype lex_state = LText | LIdent string | LQuote string | LHolder string

function sql_scan :: "char \<Rightarrow> nat \<Rightarrow> lex_state \<Rightarrow> string \<Rightarrow> token list" where
  "sql_scan q k LText [] = []"
| "sql_scan q k LText (c # s) =
     (if c = q then sql_scan q k (LIdent []) s
      else if c = CHR ''$'' then sql_scan q k (LHolder []) s
      else if c = CHR ''?'' then THolder k # sql_scan q (Suc k) LText s
      else TChar c # sql_scan q k LText s)"
| "sql_scan q k (LIdent a) [] = [TBroken]"
| "sql_scan q k (LIdent a) (c # s) = (if c = q then sql_scan q k (LQuote a) s else sql_scan q k (LIdent (a @ [c])) s)"
| "sql_scan q k (LQuote a) [] = [TIdent a]"
| "sql_scan q k (LQuote a) (c # s) =
     (if c = q then sql_scan q k (LIdent (a @ [c])) s else TIdent a # sql_scan q k LText (c # s))"
| "sql_scan q k (LHolder ds) [] = (case parse_digits 0 ds of Some n \<Rightarrow> [THolder n] | None \<Rightarrow> [TBroken])"
| "sql_scan q k (LHolder ds) (c # s) =
     (if is_digit c then sql_scan q k (LHolder (ds @ [c])) s
      else (case parse_digits 0 ds of Some n \<Rightarrow> THolder n | None \<Rightarrow> TBroken) # sql_scan q (Suc k) LText (c # s))"

  by pat_completeness auto
termination
  by (relation "measures [\<lambda>(q, k, st, s). length s, \<lambda>(q, k, st, s). if st = LText then 0 else 1]") auto

definition sql_tokens :: "(string \<Rightarrow> string) \<Rightarrow> dialect \<Rightarrow> nat \<Rightarrow> string \<Rightarrow> token list" where
  "sql_tokens uni d k s = sql_scan (quoteChar (normalizeDialect uni d)) (Suc k) LText s"

definition words :: "string \<Rightarrow> token list" where
  "words s = map TChar s"

fun joint :: "token list list \<Rightarrow> string \<Rightarrow> token list" where
  "joint [] sep = []"
| "joint [t] sep = t"
| "joint (t # u # ts) sep = t @ words sep @ joint (u # ts) sep"

definition ident_tokens :: "string \<Rightarrow> token list" where
  "ident_tokens name = joint (map (\<lambda>p. [TIdent p]) (Split CHR ''.'' name)) ''.''"

definition comma_holders :: "nat \<Rightarrow> nat \<Rightarrow> token list" where
  "comma_holders k n = joint (map (\<lambda>i. [THolder (k + i)]) [0..<n]) '', ''"

text \<open>What a predicate binds, and the reading it should have: it depends on the value only through
  whether it is nil and how many elements it has.\<close>

definition bound_values :: "'v cond \<Rightarrow> 'v sqlval list" where
  "bound_values c =
     (if cd_Op c = OpIsNull \<or> cd_Op c = OpNotNull \<or> cd_Value c = SNil \<and> (cd_Op c = OpEq \<or> cd_Op c = OpNotEq) then []
      else if cd_Op c = OpIn \<or> cd_Op c = OpNotIn \<or> cd_Op c = OpBetween then the (elements (cd_Value c))
      else [cd_Value c])"

definition cond_tokens :: "dialect \<Rightarrow> string \<Rightarrow> operator \<Rightarrow> bool \<Rightarrow> nat \<Rightarrow> nat \<Rightarrow> token list" where
  "cond_tokens d column o1 isnil n k =
     (let col = ident_tokens column
      in if o1 = OpIsNull \<or> o1 = OpEq \<and> isnil then col @ words '' IS NULL''
         else if o1 = OpNotNull \<or> o1 = OpNotEq \<and> isnil then col @ words '' IS NOT NULL''
         else if o1 = OpIn \<and> n = 0 then words ''1 = 0''
         else if o1 = OpNotIn \<and> n = 0 then words ''1 = 1''
         else if o1 = OpIn \<or> o1 = OpNotIn then
           col @ words ('' '' @ op_String o1 @ '' ('') @ comma_holders (Suc k) n @ words '')''
         else if o1 = OpBetween then
           col @ words '' BETWEEN '' @ [THolder (Suc k)] @ words '' AND '' @ [THolder (Suc (Suc k))]
         else if o1 = OpILike \<and> d \<noteq> DialectPostgres then
           words ''LOWER('' @ col @ words '') LIKE LOWER('' @ [THolder (Suc k)] @ words '')''
         else col @ words ('' '' @ op_String o1 @ '' '') @ [THolder (Suc k)])"

fun cond_list :: "dialect \<Rightarrow> 'v cond list \<Rightarrow> nat \<Rightarrow> token list list" where
  "cond_list d [] k = []"
| "cond_list d (c # cs) k =
     (let n = length (bound_values c)
      in cond_tokens d (cd_Column c) (cd_Op c) (cd_Value c = SNil) n k # cond_list d cs (k + n))"

definition where_tokens :: "dialect \<Rightarrow> 'v cond list \<Rightarrow> nat \<Rightarrow> token list" where
  "where_tokens d cs k = joint (cond_list d cs k) '' AND ''"

subsection \<open>Tokens and text\<close>

fun render :: "(string \<Rightarrow> string) \<Rightarrow> dialect \<Rightarrow> token list \<Rightarrow> string" where
  "render uni d [] = []"
| "render uni d (TIdent a # ts) = QuoteIdentifier uni d a @ render uni d ts"
| "render uni d (THolder n # ts) = placeholder d n @ render uni d ts"
| "render uni d (TChar c # ts) = c # render uni d ts"
| "render uni d (TBroken # ts) = render uni d ts"

definition plain :: "char \<Rightarrow> bool" where
  "plain c \<longleftrightarrow> c \<notin> {CHR 0x60, CHR 0x22, CHR ''$'', CHR ''?''}"

fun opens :: "token list \<Rightarrow> bool" where
  "opens [] = True"
| "opens (TChar c # ts) = (\<not> is_digit c)"
| "opens (t # ts) = False"

text \<open>A sequence that reads back: names without delimiters, placeholders in line, and neither of them
  followed by anything that would be taken for a part of it.\<close>

fun wf_tokens :: "nat \<Rightarrow> token list \<Rightarrow> bool" where
  "wf_tokens k [] = True"
| "wf_tokens k (TChar c # ts) = (plain c \<and> wf_tokens k ts)"
| "wf_tokens k (TIdent a # ts) = (list_all plain a \<and> opens ts \<and> wf_tokens k ts)"
| "wf_tokens k (THolder n # ts) = (n = k \<and> opens ts \<and> wf_tokens (Suc k) ts)"
| "wf_tokens k (TBroken # ts) = False"

fun holders :: "token list \<Rightarrow> nat list" where
  "holders [] = []"
| "holders (THolder n # ts) = n # holders ts"
| "holders (t # ts) = holders ts"

fun names :: "token list \<Rightarrow> string list" where
  "names [] = []"
| "names (TIdent a # ts) = a # names ts"
| "names (t # ts) = names ts"

lemma render_append [simp]: "render uni d (a @ b) = render uni d a @ render uni d b"
  by (induction uni d a rule: render.induct) simp_all

lemma render_words [simp]: "render uni d (words s) = s"
  by (induction s) (simp_all add: words_def)

lemma holders_append [simp]: "holders (a @ b) = holders a @ holders b"
  by (induction a rule: holders.induct) simp_all

lemma holders_words [simp]: "holders (words s) = []"
  by (induction s) (simp_all add: words_def)

lemma names_append [simp]: "names (a @ b) = names a @ names b"
  by (induction a rule: names.induct) simp_all

lemma names_words [simp]: "names (words s) = []"
  by (induction s) (simp_all add: words_def)

lemma quote_not_plain: "plain c \<Longrightarrow> c \<noteq> quoteChar d"
  by (auto simp: plain_def quoteChar_def)

lemma QuoteIdentifier_plain:
  "list_all plain a \<Longrightarrow> QuoteIdentifier uni d a = quoteChar (normalizeDialect uni d) # a @ [quoteChar (normalizeDialect uni d)]"
proof -
  assume "list_all plain a"
  then have "concat (map (\<lambda>c. if c = quoteChar e then [quoteChar e, c] else [c]) a) = a" for e
    by (induction a) (auto dest: quote_not_plain)
  then show ?thesis by (simp add: QuoteIdentifier_def Let_def)
qed

lemma lex_ident: "list_all plain a \<Longrightarrow> sql_scan (quoteChar e) k (LIdent b) (a @ quoteChar e # s) = sql_scan (quoteChar e) k (LQuote (b @ a)) s"
  by (induction a arbitrary: b) (auto dest: quote_not_plain)

lemma lex_digits: "list_all is_digit ds \<Longrightarrow> sql_scan q k (LHolder b) (ds @ s) = sql_scan q k (LHolder (b @ ds)) s"
  by (induction ds arbitrary: b) auto

lemma opens_text:
  assumes "opens ts" and "wf_tokens k ts"
  shows "(\<exists>c s. render uni d ts = c # s \<and> \<not> is_digit c \<and> plain c) \<or> render uni d ts = []"
  using assms by (cases ts rule: opens.cases) auto

text \<open>A well-formed sequence is what a database reads in its text.\<close>

lemma lex_render:
  "wf_tokens k ts \<Longrightarrow> sql_scan (quoteChar (normalizeDialect uni d)) k LText (render uni d ts) = ts"
proof (induction k ts rule: wf_tokens.induct)
  case (2 k c ts)
  then show ?case by (auto simp: plain_def quoteChar_def)
next
  case (3 k a ts)
  let ?q = "quoteChar (normalizeDialect uni d)"
  have "sql_scan ?q k (LQuote a) (render uni d ts) = TIdent a # sql_scan ?q k LText (render uni d ts)"
    using opens_text [of ts k uni d] 3 by (auto dest: quote_not_plain)
  with 3 show ?case by (simp add: QuoteIdentifier_plain lex_ident)
next
  case (4 k n ts)
  let ?q = "quoteChar (normalizeDialect uni d)"
  have q: "CHR ''$'' \<noteq> ?q" "CHR ''?'' \<noteq> ?q" by (auto simp: quoteChar_def)
  have digits: "list_all is_digit (show_nat k)" by (auto simp: list_all_iff dest: show_nat_digits)
  show ?case
  proof (cases "d = DialectPostgres")
    case True
    have "sql_scan ?q k (LHolder (show_nat k)) (render uni d ts) = THolder k # sql_scan ?q (Suc k) LText (render uni d ts)"
      using opens_text [of ts "Suc k" uni d] 4 by (auto simp: parse_show_nat)
    then show ?thesis using 4 True q by (simp add: placeholder_def lex_digits [OF digits])
  next
    case False
    then show ?thesis using 4 q by (simp add: placeholder_def)
  qed
qed simp_all

subsection \<open>Sequences that read back\<close>

lemma wf_append:
  "opens b \<Longrightarrow> wf_tokens k a \<Longrightarrow> wf_tokens (k + length (holders a)) b \<Longrightarrow> wf_tokens k (a @ b)"
proof (induction k a rule: wf_tokens.induct)
  case (3 k a ts)
  then show ?case by (cases ts rule: opens.cases) auto
next
  case (4 k n ts)
  then show ?case by (cases ts rule: opens.cases) auto
qed simp_all

lemma wf_words [simp]: "wf_tokens k (words s @ ts) \<longleftrightarrow> list_all plain s \<and> wf_tokens k ts"
  by (induction s) (auto simp: words_def)

lemma wf_words_only [simp]: "wf_tokens k (words s) \<longleftrightarrow> list_all plain s"
  using wf_words [of k s "[]"] by simp

lemma opens_words [simp]: "opens (words (c # s) @ ts) \<longleftrightarrow> \<not> is_digit c" "opens (words (c # s)) \<longleftrightarrow> \<not> is_digit c"
  by (simp_all add: words_def)

lemma joint_Cons: "joint (t # ts) sep = t @ (if ts = [] then [] else words sep @ joint ts sep)"
  by (cases ts) auto

lemma render_joint [simp]: "render uni d (joint ts sep) = Join (map (render uni d) ts) sep"
  by (induction ts) (auto simp: joint_Cons Join_Cons)

lemma holders_joint [simp]: "holders (joint ts sep) = concat (map holders ts)"
  by (induction ts) (auto simp: joint_Cons)

lemma names_joint [simp]: "names (joint ts sep) = concat (map names ts)"
  by (induction ts) (auto simp: joint_Cons)

fun wf_list :: "nat \<Rightarrow> token list list \<Rightarrow> bool" where
  "wf_list k [] = True"
| "wf_list k (t # ts) = (wf_tokens k t \<and> wf_list (k + length (holders t)) ts)"

lemma wf_joint:
  assumes "sep \<noteq> []" and "\<not> is_digit (hd sep)" and "list_all plain sep"
  shows "wf_list k ts \<Longrightarrow> wf_tokens k (joint ts sep)"
proof (induction ts arbitrary: k)
  case (Cons t ts)
  obtain c s where "sep = c # s" using assms(1) by (cases sep) auto
  with Cons assms wf_append [of "words sep @ joint ts sep" k t] show ?case by (cases ts) (auto simp: joint_Cons)
qed simp

lemma wf_list_idents: "wf_list k (map (\<lambda>p. [TIdent p]) ps) \<longleftrightarrow> (\<forall>p \<in> set ps. list_all plain p)"
  by (induction ps) auto

lemma render_ident_tokens [simp]: "render uni d (ident_tokens name) = QuoteQualified uni d name"
  by (simp add: ident_tokens_def QuoteQualified_def comp_def)

lemma holders_ident_tokens [simp]: "holders (ident_tokens name) = []"
  by (simp add: ident_tokens_def comp_def)

lemma names_ident_tokens [simp]: "names (ident_tokens name) = Split CHR ''.'' name"
  by (simp add: ident_tokens_def comp_def)

lemma render_comma_holders [simp]:
  "render uni d (comma_holders k n) = Join (map (\<lambda>i. placeholder d (k + i)) [0..<n]) '', ''"
  by (simp add: comma_holders_def comp_def)

lemma holders_comma_holders [simp]: "holders (comma_holders k n) = [k..<k + n]"
proof -
  have "concat (map (\<lambda>i. [k + i]) xs) = map ((+) k) xs" for xs by (induction xs) auto
  then show ?thesis by (simp add: comma_holders_def comp_def map_add_upt add.commute)
qed

lemma names_comma_holders [simp]: "names (comma_holders k n) = []"
  by (simp add: comma_holders_def comp_def)

lemma wf_comma_holders [simp]: "wf_tokens k (comma_holders k n)"
proof -
  have "wf_list j (map (\<lambda>i. [THolder i]) [j..<j + n])" for j
  proof (induction n arbitrary: j)
    case (Suc n)
    from Suc.IH [of "Suc j"] show ?case by (simp add: upt_conv_Cons del: upt_Suc)
  qed simp
  moreover have "map (\<lambda>i. [THolder (k + i)]) [0..<n] = map (\<lambda>i. [THolder i]) [k..<k + n]"
    by (simp add: list_eq_iff_nth_eq)
  ultimately show ?thesis unfolding comma_holders_def
    by (intro wf_joint) (simp_all add: is_digit_def in_range_def less_eq_char_def plain_def)
qed

subsection \<open>Validated names\<close>

definition good_part :: "string \<Rightarrow> bool" where
  "good_part p \<longleftrightarrow> p \<noteq> [] \<and> length p \<le> maxIdentifierLength \<and> list_all (\<lambda>c. letter c \<or> is_digit c) p \<and>
     \<not> is_digit (hd p) \<and> map lower_char p \<notin> set reservedIdentifiers"

lemma letter_not_digit: "letter c \<Longrightarrow> \<not> is_digit c"
  by (auto simp: letter_def is_digit_def in_range_def less_eq_char_def)

lemma part_loop_None: "part_loop first s = None \<longleftrightarrow>
    list_all (\<lambda>c. letter c \<or> is_digit c) s \<and> (first \<longrightarrow> s = [] \<or> \<not> is_digit (hd s))"
  by (induction first s rule: part_loop.induct) (auto dest: letter_not_digit)

lemma validateIdentifierPart_None: "validateIdentifierPart p = None \<longleftrightarrow> good_part p"
  by (cases "part_loop True p") (use part_loop_None [of True p] in \<open>auto simp: validateIdentifierPart_def good_part_def\<close>)

lemma validate_parts_None: "validate_parts ps = None \<longleftrightarrow> list_all good_part ps"
proof (induction ps)
  case (Cons p ps)
  then show ?case using validateIdentifierPart_None [of p] by (cases "validateIdentifierPart p") auto
qed simp

lemma ValidateIdentifier_None: "ValidateIdentifier name = None \<longleftrightarrow>
    length (Split CHR ''.'' name) \<le> maxQualifiedParts \<and> list_all good_part (Split CHR ''.'' name)"
  by (auto simp: ValidateIdentifier_def Let_def validate_parts_None good_part_def maxQualifiedParts_def)

lemma part_char_plain: "letter c \<or> is_digit c \<Longrightarrow> plain c"
  by (auto simp: letter_def is_digit_def in_range_def less_eq_char_def plain_def)

lemma good_part_plain: "good_part p \<Longrightarrow> list_all plain p"
  using part_char_plain by (auto simp: good_part_def list_all_iff)

lemma wf_ident_tokens: "ValidateIdentifier name = None \<Longrightarrow> wf_tokens k (ident_tokens name)"
  unfolding ident_tokens_def
  by (intro wf_joint)
    (auto simp: ValidateIdentifier_None wf_list_idents list_all_iff is_digit_def in_range_def less_eq_char_def plain_def
      dest!: good_part_plain bspec)

subsection \<open>Predicates read back\<close>

lemma plain_literals [simp]:
  "plain CHR '' ''" "plain CHR '',''" "plain CHR ''.''" "plain CHR ''(''" "plain CHR '')''" "plain CHR ''=''"
  "plain CHR ''<''" "plain CHR ''>''" "plain CHR ''*''" "plain CHR ''+''" "plain CHR ''-''"
  by (simp_all add: plain_def)

lemma letter_literal: "list_all (\<lambda>c. letter c \<or> is_digit c \<or> c \<in> set '' ,.()=<>*+-'') s \<Longrightarrow> list_all plain s"
  using part_char_plain by (auto simp: list_all_iff plain_def)

lemma not_digit_literals [simp]:
  "\<not> is_digit CHR '' ''" "\<not> is_digit CHR '',''" "\<not> is_digit CHR ''.''" "\<not> is_digit CHR '')''" "\<not> is_digit CHR ''(''"
  by (simp_all add: is_digit_def in_range_def less_eq_char_def)

lemma plain_op [simp]: "\<forall>n. o1 \<noteq> OpUnknown n \<Longrightarrow> list_all plain (op_String o1)"
  by (cases o1) (auto simp: op_String_def plain_def)

lemma wf_ident_append:
  "ValidateIdentifier name = None \<Longrightarrow> opens ts \<Longrightarrow> wf_tokens k ts \<Longrightarrow> wf_tokens k (ident_tokens name @ ts)"
  by (intro wf_append) (simp_all add: wf_ident_tokens)

lemma wf_commas_append:
  "opens ts \<Longrightarrow> wf_tokens (k + n) ts \<Longrightarrow> wf_tokens k (comma_holders k n @ ts)"
  by (intro wf_append) simp_all

lemma cond_tokens_wf:
  assumes "ValidateIdentifier column = None" and "\<forall>n. o1 \<noteq> OpUnknown n"
  shows "wf_tokens (Suc k) (cond_tokens d column o1 isnil n k)"
  unfolding cond_tokens_def Let_def
  using assms plain_op [OF assms(2)]
  by (auto simp: letter_literal plain_def intro!: wf_ident_append wf_commas_append)

lemma cond_part_Inr:
  assumes "cond_part uni d c k = Inr (part, vs, k')"
  shows "ValidateIdentifier (cd_Column c) = None" and "\<forall>n. cd_Op c \<noteq> OpUnknown n"
    and "vs = bound_values c" and "k' = k + length vs"
    and "part = render uni d (cond_tokens d (cd_Column c) (cd_Op c) (cd_Value c = SNil) (length vs) k)"
    and "holders (cond_tokens d (cd_Column c) (cd_Op c) (cd_Value c = SNil) (length vs) k) = [Suc k..<Suc k']"
proof -
  show valid: "ValidateIdentifier (cd_Column c) = None" and op: "\<forall>n. cd_Op c \<noteq> OpUnknown n"
    using assms by (auto simp: cond_part_def Let_def QuoteValidated_def split: operator.splits option.splits)
  let ?T = "cond_tokens d (cd_Column c) (cd_Op c) (cd_Value c = SNil) (length vs) k"
  have two: "length ws = 2 \<Longrightarrow> [ws ! 0, ws ! Suc 0] = ws" for ws :: "'a sqlval list"
    by (simp add: list_eq_iff_nth_eq less_Suc_eq numeral_2_eq_2 nth_Cons')
  have "vs = bound_values c \<and> k' = k + length vs \<and> part = render uni d ?T \<and> holders ?T = [Suc k..<Suc k']"
  proof (cases "cd_Op c")
    case OpIn
    then show ?thesis using assms valid
      by (cases "elements (cd_Value c)")
        (auto simp: cond_part_def Let_def QuoteValidated_def bound_values_def cond_tokens_def simp del: upt_Suc split: if_splits)
  next
    case OpNotIn
    then show ?thesis using assms valid
      by (cases "elements (cd_Value c)")
        (auto simp: cond_part_def Let_def QuoteValidated_def bound_values_def cond_tokens_def simp del: upt_Suc split: if_splits)
  next
    case OpBetween
    then show ?thesis using assms valid
      by (cases "elements (cd_Value c)")
        (auto simp: cond_part_def Let_def QuoteValidated_def bound_values_def cond_tokens_def two split: if_splits)
  qed (use assms valid in \<open>auto simp: cond_part_def Let_def QuoteValidated_def bound_values_def cond_tokens_def op_String_def
      split: if_splits\<close>)
  then show "vs = bound_values c" "k' = k + length vs" "part = render uni d ?T" "holders ?T = [Suc k..<Suc k']"
    by blast+
qed

definition sound_conds :: "'v cond list \<Rightarrow> bool" where
  "sound_conds cs = list_all (\<lambda>c. ValidateIdentifier (cd_Column c) = None) cs"

lemma cond_tokens_names:
  "ValidateIdentifier column = None \<Longrightarrow> list_all good_part (names (cond_tokens d column o1 isnil n k))"
  by (auto simp: cond_tokens_def Let_def ValidateIdentifier_None)

lemma conds_loop_Inr:
  "conds_loop uni d cs parts args k = Inr (parts', args', k') \<Longrightarrow>
     parts' = parts @ map (render uni d) (cond_list d cs k) \<and>
     args' = args @ concat (map bound_values cs) \<and>
     k' = k + length (concat (map bound_values cs)) \<and>
     wf_list (Suc k) (cond_list d cs k) \<and>
     concat (map holders (cond_list d cs k)) = [Suc k..<Suc k'] \<and>
     list_all good_part (concat (map names (cond_list d cs k))) \<and> sound_conds cs"
proof (induction cs arbitrary: parts args k)
  case (Cons c cs)
  from Cons.prems obtain part vs j where first: "cond_part uni d c k = Inr (part, vs, j)"
    and rest: "conds_loop uni d cs (parts @ [part]) (args @ vs) j = Inr (parts', args', k')"
    by (auto split: sum.splits)
  note p = cond_part_Inr [OF first] and q = Cons.IH [OF rest]
  have "[Suc k..<Suc j] @ [Suc j..<Suc k'] = [Suc k..<Suc k']"
    using p(4) q upt_add_eq_append [of "Suc k" "Suc j" "k' - j"] by (simp del: upt_Suc)
  then show ?case
    using p q cond_tokens_wf [OF p(1,2), of k d] cond_tokens_names [OF p(1)]
    by (auto simp: Let_def sound_conds_def simp del: upt_Suc)
qed (simp add: sound_conds_def)

lemma buildConds_Inr:
  assumes "buildConds uni d conds k = Inr (clause, args, k')"
  shows "clause = render uni d (where_tokens d conds k)" and "args = concat (map bound_values conds)"
    and "k' = k + length args" and "wf_tokens (Suc k) (where_tokens d conds k)"
    and "holders (where_tokens d conds k) = [Suc k..<Suc k']"
    and "list_all good_part (names (where_tokens d conds k))" and "sound_conds conds"
proof -
  obtain parts where "clause = Join parts '' AND ''" "conds_loop uni d conds [] [] k = Inr (parts, args, k')"
    using assms by (auto simp: buildConds_def and_then_Inr_iff split: if_splits)
  note l = this(1) conds_loop_Inr [OF this(2)]
  show "clause = render uni d (where_tokens d conds k)" using l by (simp add: where_tokens_def)
  show "args = concat (map bound_values conds)" "k' = k + length args" "sound_conds conds" using l by simp_all
  show "holders (where_tokens d conds k) = [Suc k..<Suc k']" using l by (simp add: where_tokens_def)
  show "list_all good_part (names (where_tokens d conds k))" using l by (simp add: where_tokens_def)
  show "wf_tokens (Suc k) (where_tokens d conds k)"
    unfolding where_tokens_def by (rule wf_joint) (use l in \<open>simp_all add: plain_def\<close>)
qed

text \<open>The predicate that \<^term>\<open>buildConds\<close> writes is read by the database, in every dialect, as the tokens of its
  conditions: names are single quoted identifiers made of validated parts, and everything else is a
  constant of the operators. Every value is bound: the placeholders are numbered, or counted, from the
  given start, and the arguments are the values of the conditions in the order of their
  placeholders.\<close>

theorem where_reads_back:
  assumes "buildConds uni d conds start = Inr (clause, args, idx)"
  shows "sql_tokens uni d start clause = where_tokens d conds start \<and>
    args = concat (map bound_values conds) \<and>
    holders (sql_tokens uni d start clause) = [start + 1..<idx + 1] \<and> idx = start + length args \<and>
    list_all good_part (names (sql_tokens uni d start clause))"
proof -
  note b = buildConds_Inr [OF assms]
  have "sql_tokens uni d start clause = where_tokens d conds start"
    using lex_render [OF b(4), of uni d] b(1) by (simp add: sql_tokens_def)
  with b show ?thesis by simp
qed

definition demo_conds :: "nat cond list" where
  "demo_conds =
     [\<lparr>cd_Column = ''users.name'', cd_Op = OpILike, cd_Value = SScalar 9\<rparr>,
      \<lparr>cd_Column = ''age'', cd_Op = OpBetween, cd_Value = SSlice [SScalar 2, SScalar 3]\<rparr>,
      \<lparr>cd_Column = ''deleted_at'', cd_Op = OpEq, cd_Value = SNil\<rparr>,
      \<lparr>cd_Column = ''role'', cd_Op = OpIn, cd_Value = SSlice [SScalar 4, SScalar 5]\<rparr>]"

theorem where_reads_back_witness:
  "holders (sql_tokens (\<lambda>s. s) DialectMySQL 2
     (''LOWER(`users`.`name`) LIKE LOWER(?) AND `age` BETWEEN ? AND ? AND `deleted_at` IS NULL AND `role` IN (?, ?)''))
   = [3, 4, 5, 6, 7]"
proof -
  have names: "ValidateIdentifier ''users.name'' = None" "ValidateIdentifier ''age'' = None"
    "ValidateIdentifier ''deleted_at'' = None" "ValidateIdentifier ''role'' = None"
    by code_simp+
  have quoted: "QuoteQualified (\<lambda>s. s) DialectMySQL ''users.name'' = ''`users`.`name`''"
    "QuoteQualified (\<lambda>s. s) DialectMySQL ''age'' = ''`age`''"
    "QuoteQualified (\<lambda>s. s) DialectMySQL ''deleted_at'' = ''`deleted_at`''"
    "QuoteQualified (\<lambda>s. s) DialectMySQL ''role'' = ''`role`''"
    by (simp_all add: QuoteQualified_def QuoteIdentifier_def quoteChar_def Let_def)
  have parts:
    "cond_part (\<lambda>s. s) DialectMySQL \<lparr>cd_Column = ''users.name'', cd_Op = OpILike, cd_Value = SScalar (9 :: nat)\<rparr> 2 =
       Inr (''LOWER(`users`.`name`) LIKE LOWER(?)'', [SScalar 9], 3)"
    "cond_part (\<lambda>s. s) DialectMySQL
       \<lparr>cd_Column = ''age'', cd_Op = OpBetween, cd_Value = SSlice [SScalar (2 :: nat), SScalar 3]\<rparr> 3 =
       Inr (''`age` BETWEEN ? AND ?'', [SScalar 2, SScalar 3], 5)"
    "cond_part (\<lambda>s. s) DialectMySQL \<lparr>cd_Column = ''deleted_at'', cd_Op = OpEq, cd_Value = SNil :: nat sqlval\<rparr> 5 =
       Inr (''`deleted_at` IS NULL'', [], 5)"
    "cond_part (\<lambda>s. s) DialectMySQL
       \<lparr>cd_Column = ''role'', cd_Op = OpIn, cd_Value = SSlice [SScalar (4 :: nat), SScalar 5]\<rparr> 5 =
       Inr (''`role` IN (?, ?)'', [SScalar 4, SScalar 5], 7)"
    by (simp_all add: cond_part_def QuoteValidated_def quoted names placeholder_def elements_def op_String_def)
  have b: "buildConds (\<lambda>s. s) DialectMySQL demo_conds 2 = Inr
      (''LOWER(`users`.`name`) LIKE LOWER(?) AND `age` BETWEEN ? AND ? AND `deleted_at` IS NULL AND `role` IN (?, ?)'',
       [SScalar 9, SScalar 2, SScalar 3, SScalar 4, SScalar 5], 7)"
    by (simp add: buildConds_def demo_conds_def parts)
  have "[2 + 1..<7 + 1] = [3, 4, 5, 6, 7 :: nat]" by code_simp
  then show ?thesis using where_reads_back [OF b] by argo
qed

end
