(* ===== verification/Sql_Repo.thy ===== *)
theory Sql_Repo
  imports Sql_Where
begin

text \<open>
  Statements of a repository (\<^verbatim>\<open>base.repository.go\<close>, \<^verbatim>\<open>create.go\<close>, \<^verbatim>\<open>update.go\<close>, \<^verbatim>\<open>delete.go\<close>, \<^verbatim>\<open>find.go\<close>,
  \<^verbatim>\<open>find-one.go\<close>, \<^verbatim>\<open>count.go\<close>, \<^verbatim>\<open>exists.go\<close>, \<^verbatim>\<open>pages.go\<close>): the constructor with its cached quoted names, the
  builders, and what every one of them hands to the driver. A public operation that only passes the
  driver's answer on is modelled by the statement and the arguments it sends; those that do more are
  in \<^verbatim>\<open>Sql_Exec\<close>.
\<close>

section \<open>The repository\<close>

text \<open>A field of the model's struct type, and the type itself.\<close>

record struct_field =
  sf_Exported :: bool
  sf_Tag :: string

datatype model_type = MStruct "struct_field list" | MPointer | MOtherKind

datatype repo_panic =
    NotAStruct
  | PointerModel
  | BadIdentifier string ident_error
  | DuplicateTag string
  | NoTaggedFields

record repo =
  TableName :: string
  IDColumn :: string
  Dialect :: dialect
  columns :: "string list"
  dbTagMap :: "(string, nat) gomap"
  fieldIdx :: "nat list"
  insertCols :: "string list"
  insertIdx :: "nat list"
  autoID :: bool
  quotedTable :: string
  quotedID :: string
  quotedColumns :: string
  quotedInsert :: "string list"
  quotedByColumn :: "(string, string) gomap"

definition mustQuote :: "(string \<Rightarrow> string) \<Rightarrow> dialect \<Rightarrow> string \<Rightarrow> (repo_panic, string) result" where
  "mustQuote uni d name =
     (case QuoteValidated uni d name of Inl e \<Rightarrow> Inl (BadIdentifier name e) | Inr q \<Rightarrow> Inr q)"

definition add_column :: "string \<Rightarrow> string \<Rightarrow> nat \<Rightarrow> repo \<Rightarrow> repo" where
  "add_column colName quoted i r =
     (let r1 = r\<lparr>columns := columns r @ [colName], fieldIdx := fieldIdx r @ [i],
                 dbTagMap := mput colName i (dbTagMap r), quotedByColumn := mput colName quoted (quotedByColumn r)\<rparr>
      in if autoID r \<and> colName = IDColumn r then r1
         else r1\<lparr>insertCols := insertCols r1 @ [colName], insertIdx := insertIdx r1 @ [i],
                 quotedInsert := quotedInsert r1 @ [quoted]\<rparr>)"

fun fields_loop :: "(string \<Rightarrow> string) \<Rightarrow> nat \<Rightarrow> struct_field list \<Rightarrow> repo \<Rightarrow> (repo_panic, repo) result" where
  "fields_loop uni i [] r = Inr r"
| "fields_loop uni i (f # fs) r =
     (if \<not> sf_Exported f then fields_loop uni (Suc i) fs r
      else if sf_Tag f = '''' \<or> sf_Tag f = ''-'' then fields_loop uni (Suc i) fs r
      else
        let colName = takeWhile (\<lambda>c. c \<noteq> CHR '','') (sf_Tag f)
        in and_then (mustQuote uni (Dialect r) colName) (\<lambda>quoted.
             if mget (dbTagMap r) colName \<noteq> None then Inl (DuplicateTag colName)
             else fields_loop uni (Suc i) fs (add_column colName quoted i r)))"

definition NewBaseRepositoryWithDialect :: "(string \<Rightarrow> string) \<Rightarrow> model_type \<Rightarrow> dialect \<Rightarrow> string \<Rightarrow> string \<Rightarrow> bool \<Rightarrow>
    (repo_panic, repo) result" where
  "NewBaseRepositoryWithDialect uni t d0 tableName idColumn0 autoIncrementID =
     (let idColumn = (if idColumn0 = '''' then ''id'' else idColumn0);
          d = normalizeDialect uni d0
      in (case t of
            MPointer \<Rightarrow> Inl PointerModel
          | MOtherKind \<Rightarrow> Inl NotAStruct
          | MStruct fs \<Rightarrow>
              and_then (mustQuote uni d tableName) (\<lambda>qt.
              and_then (mustQuote uni d idColumn) (\<lambda>qi.
              and_then (fields_loop uni 0 fs
                  \<lparr>TableName = tableName, IDColumn = idColumn, Dialect = d, columns = [], dbTagMap = [], fieldIdx = [],
                   insertCols = [], insertIdx = [], autoID = autoIncrementID, quotedTable = qt, quotedID = qi,
                   quotedColumns = '''', quotedInsert = [], quotedByColumn = []\<rparr>) (\<lambda>r.
                if length (columns r) = 0 then Inl NoTaggedFields
                else Inr (r\<lparr>quotedColumns := Join (map (\<lambda>c. mindex '''' (quotedByColumn r) c) (columns r)) '', ''\<rparr>))))))"

definition NewBaseRepository :: "(string \<Rightarrow> string) \<Rightarrow> model_type \<Rightarrow> string \<Rightarrow> string \<Rightarrow> bool \<Rightarrow> (repo_panic, repo) result" where
  "NewBaseRepository uni t tableName idColumn autoIncrementID =
     NewBaseRepositoryWithDialect uni t DialectPostgres tableName idColumn autoIncrementID"

definition quote :: "(string \<Rightarrow> string) \<Rightarrow> repo \<Rightarrow> string \<Rightarrow> (sql_error, string) result" where
  "quote uni r name =
     (case mget (quotedByColumn r) name of
        Some q \<Rightarrow> Inr q
      | None \<Rightarrow> (case QuoteValidated uni (Dialect r) name of Inl e \<Rightarrow> Inl (SqlIdent e) | Inr q \<Rightarrow> Inr q))"

definition columnsString :: "repo \<Rightarrow> string" where
  "columnsString r = quotedColumns r"

section \<open>Filters\<close>

type_synonym 'v sql_filter = "(string, 'v sqlval) gomap"

definition sort_Strings :: "string list \<Rightarrow> string list" where
  "sort_Strings keys = SliceStable (<) keys"

definition filter_value :: "'v sql_filter \<Rightarrow> string \<Rightarrow> 'v sqlval" where
  "filter_value f k = mindex SNil f k"

definition filterToConds :: "'v sql_filter \<Rightarrow> 'v cond list" where
  "filterToConds f =
     (if length f = 0 then []
      else map (\<lambda>k. if filter_value f k = SNil then \<lparr>cd_Column = k, cd_Op = OpIsNull, cd_Value = SNil\<rparr>
                    else \<lparr>cd_Column = k, cd_Op = OpEq, cd_Value = filter_value f k\<rparr>)
             (sort_Strings (mkeys f)))"

definition buildWhereNext :: "(string \<Rightarrow> string) \<Rightarrow> repo \<Rightarrow> 'v sql_filter \<Rightarrow> nat \<Rightarrow>
    (sql_error, string \<times> 'v sqlval list \<times> nat) result" where
  "buildWhereNext uni r f startIdx = buildWhereConds uni (Dialect r) (filterToConds f) startIdx"

definition buildWhere :: "(string \<Rightarrow> string) \<Rightarrow> repo \<Rightarrow> 'v sql_filter \<Rightarrow> nat \<Rightarrow>
    (sql_error, string \<times> 'v sqlval list) result" where
  "buildWhere uni r f startIdx =
     and_then (buildWhereConds uni (Dialect r) (filterToConds f) startIdx) (\<lambda>(clause, args, idx). Inr (clause, args))"

fun set_loop :: "(string \<Rightarrow> string) \<Rightarrow> repo \<Rightarrow> 'v sql_filter \<Rightarrow> string list \<Rightarrow> string list \<Rightarrow> 'v sqlval list \<Rightarrow> nat \<Rightarrow>
    (sql_error, string list \<times> 'v sqlval list) result" where
  "set_loop uni r data [] setParts args idx = Inr (setParts, args)"
| "set_loop uni r data (col # keys) setParts args idx =
     and_then (quote uni r col) (\<lambda>quoted.
       set_loop uni r data keys (setParts @ [quoted @ '' = '' @ placeholder (Dialect r) (idx + 1)])
         (args @ [filter_value data col]) (idx + 1))"

definition buildSetClause :: "(string \<Rightarrow> string) \<Rightarrow> repo \<Rightarrow> 'v sql_filter \<Rightarrow> nat \<Rightarrow>
    (sql_error, string \<times> 'v sqlval list) result" where
  "buildSetClause uni r data startIdx =
     (if length data = 0 then Inl ErrNoUpdateColumns
      else and_then (set_loop uni r data (sort_Strings (mkeys data)) [] [] startIdx) (\<lambda>(setParts, args).
        Inr (Join setParts '', '', args)))"

definition joinSQL :: "string list \<Rightarrow> string" where
  "joinSQL parts = Join (filter (\<lambda>p. p \<noteq> '''') parts) '' ''"

definition concatArgs :: "'v sqlval list \<Rightarrow> 'v sqlval list \<Rightarrow> 'v sqlval list" where
  "concatArgs first second = first @ second"

section \<open>Statements\<close>

type_synonym 'v stmt = "string \<times> 'v sqlval list"

subsection \<open>Insertion\<close>

definition insertQuery :: "repo \<Rightarrow> string" where
  "insertQuery r = ''INSERT INTO '' @ quotedTable r @ '' ('' @ Join (quotedInsert r) '', '' @ '') VALUES ('' @
     placeholders (Dialect r) 1 (length (insertCols r)) @ '')''"

definition insertManyQuery :: "repo \<Rightarrow> nat \<Rightarrow> string" where
  "insertManyQuery r rowCount =
     (let colCount = length (insertCols r)
      in ''INSERT INTO '' @ quotedTable r @ '' ('' @ Join (quotedInsert r) '', '' @ '') VALUES '' @
         Join (map (\<lambda>i. ''('' @ placeholders (Dialect r) (i * colCount + 1) colCount @ '')'') [0..<rowCount]) '', '')"

fun quote_all :: "(string \<Rightarrow> string) \<Rightarrow> repo \<Rightarrow> string list \<Rightarrow> (sql_error, string list) result" where
  "quote_all uni r [] = Inr []"
| "quote_all uni r (c # cs) =
     and_then (quote uni r c) (\<lambda>q. and_then (quote_all uni r cs) (\<lambda>qs. Inr (q # qs)))"

definition update_part :: "repo \<Rightarrow> string \<Rightarrow> string" where
  "update_part r quoted =
     (if Dialect r = DialectMySQL then quoted @ '' = VALUES('' @ quoted @ '')'' else quoted @ '' = EXCLUDED.'' @ quoted)"

definition upsertQuery :: "(string \<Rightarrow> string) \<Rightarrow> repo \<Rightarrow> string list \<Rightarrow> (sql_error, string \<times> bool) result" where
  "upsertQuery uni r conflictColumns =
     (if length (insertCols r) = 0 then Inl NoInsertableColumns
      else and_then (quote_all uni r conflictColumns) (\<lambda>quotedConflict.
        if length quotedConflict = 0 \<and> Dialect r \<noteq> DialectMySQL then Inl NoConflictColumns
        else
          let updateParts = map (\<lambda>(col, quoted). update_part r quoted)
                (filter (\<lambda>(col, quoted). col \<notin> set conflictColumns) (zip (insertCols r) (quotedInsert r)));
              insertHead = insertQuery r
          in if Dialect r = DialectMySQL then
               let updateParts' = (if length updateParts = 0 then [quotedID r @ '' = '' @ quotedID r] else updateParts)
               in Inr (insertHead @ '' ON DUPLICATE KEY UPDATE '' @ Join updateParts' '', '', True)
             else if length updateParts = 0 then
               Inr (insertHead @ '' ON CONFLICT ('' @ Join quotedConflict '', '' @ '') DO NOTHING'', False)
             else
               Inr (insertHead @ '' ON CONFLICT ('' @ Join quotedConflict '', '' @ '') DO UPDATE SET '' @ Join updateParts '', '',
                 True)))"

subsection \<open>Update\<close>

definition updateByIDQuery :: "(string \<Rightarrow> string) \<Rightarrow> repo \<Rightarrow> 'v sql_filter \<Rightarrow> (sql_error, 'v stmt) result" where
  "updateByIDQuery uni r data =
     and_then (buildSetClause uni r data 0) (\<lambda>(setClause, setArgs).
       Inr (''UPDATE '' @ quotedTable r @ '' SET '' @ setClause @ '' WHERE '' @ quotedID r @ '' = '' @
              placeholder (Dialect r) (length setArgs + 1), setArgs))"

definition UpdateOneByID :: "(string \<Rightarrow> string) \<Rightarrow> repo \<Rightarrow> 'v sqlval \<Rightarrow> 'v sql_filter \<Rightarrow> (sql_error, 'v stmt) result" where
  "UpdateOneByID uni r i data =
     and_then (updateByIDQuery uni r data) (\<lambda>(query, setArgs). Inr (query, concatArgs setArgs [i]))"

definition updateOneQuery :: "(string \<Rightarrow> string) \<Rightarrow> repo \<Rightarrow> 'v sql_filter \<Rightarrow> 'v sql_filter \<Rightarrow> (sql_error, 'v stmt) result" where
  "updateOneQuery uni r f data =
     (if length f = 0 then Inl ErrEmptyFilter
      else and_then (buildSetClause uni r data 0) (\<lambda>(setClause, setArgs).
        and_then (buildWhere uni r f (length setArgs)) (\<lambda>(whereClause, whereArgs).
          let args = concatArgs setArgs whereArgs
          in if Dialect r = DialectMySQL then
               Inr (joinSQL [''UPDATE '' @ quotedTable r, ''SET '' @ setClause, whereClause, ''LIMIT 1''], args)
             else
               let inner = joinSQL [''SELECT '' @ quotedID r, ''FROM '' @ quotedTable r, whereClause, ''LIMIT 1'']
               in Inr (''UPDATE '' @ quotedTable r @ '' SET '' @ setClause @ '' WHERE '' @ quotedID r @ '' IN ('' @ inner @ '')'', args))))"

definition updateReturningQuery :: "(string \<Rightarrow> string) \<Rightarrow> repo \<Rightarrow> 'v sql_filter \<Rightarrow> 'v sql_filter \<Rightarrow> (sql_error, 'v stmt) result" where
  "updateReturningQuery uni r f data =
     (if length f = 0 then Inl ErrEmptyFilter
      else and_then (buildSetClause uni r data 0) (\<lambda>(setClause, setArgs).
        and_then (buildWhere uni r f (length setArgs)) (\<lambda>(whereClause, whereArgs).
          Inr (joinSQL [''UPDATE '' @ quotedTable r, ''SET '' @ setClause, whereClause, ''RETURNING '' @ columnsString r],
               concatArgs setArgs whereArgs))))"

definition updateManyQuery :: "(string \<Rightarrow> string) \<Rightarrow> repo \<Rightarrow> 'v sql_filter \<Rightarrow> 'v sql_filter \<Rightarrow> (sql_error, 'v stmt) result" where
  "updateManyQuery uni r f data =
     (if length f = 0 then Inl ErrEmptyFilter
      else and_then (buildSetClause uni r data 0) (\<lambda>(setClause, setArgs).
        and_then (buildWhere uni r f (length setArgs)) (\<lambda>(whereClause, whereArgs).
          Inr (joinSQL [''UPDATE '' @ quotedTable r, ''SET '' @ setClause, whereClause], concatArgs setArgs whereArgs))))"

definition UpdateByWhere :: "(string \<Rightarrow> string) \<Rightarrow> repo \<Rightarrow> 'v cond list \<Rightarrow> 'v sql_filter \<Rightarrow> (sql_error, 'v stmt) result" where
  "UpdateByWhere uni r conds data =
     (if length conds = 0 then Inl ErrEmptyFilter
      else and_then (buildSetClause uni r data 0) (\<lambda>(setClause, setArgs).
        and_then (buildWhereConds uni (Dialect r) conds (length setArgs)) (\<lambda>(whereClause, whereArgs, idx).
          if whereClause = '''' then Inl ErrEmptyFilter
          else Inr (joinSQL [''UPDATE '' @ quotedTable r, ''SET '' @ setClause, whereClause], concatArgs setArgs whereArgs))))"

definition UpdateAllUnsafe :: "(string \<Rightarrow> string) \<Rightarrow> repo \<Rightarrow> 'v sql_filter \<Rightarrow> (sql_error, 'v stmt) result" where
  "UpdateAllUnsafe uni r data =
     and_then (buildSetClause uni r data 0) (\<lambda>(setClause, setArgs).
       Inr (''UPDATE '' @ quotedTable r @ '' SET '' @ setClause, setArgs))"

definition stepQuery :: "(string \<Rightarrow> string) \<Rightarrow> repo \<Rightarrow> 'v sql_filter \<Rightarrow> string \<Rightarrow> string \<Rightarrow> (sql_error, 'v stmt) result" where
  "stepQuery uni r f column o1 =
     (if length f = 0 then Inl ErrEmptyFilter
      else and_then (quote uni r column) (\<lambda>quotedCol.
        and_then (buildWhere uni r f 1) (\<lambda>(whereClause, whereArgs).
          Inr (joinSQL [''UPDATE '' @ quotedTable r,
                 ''SET '' @ quotedCol @ '' = '' @ quotedCol @ '' '' @ o1 @ '' '' @ placeholder (Dialect r) 1, whereClause],
               whereArgs))))"

text \<open>The step is an \<^verbatim>\<open>int64\<close>; \<open>num\<close> injects it into the values of the driver.\<close>

definition Increment :: "(string \<Rightarrow> string) \<Rightarrow> (int \<Rightarrow> 'v sqlval) \<Rightarrow> repo \<Rightarrow> 'v sql_filter \<Rightarrow> string \<Rightarrow> int \<Rightarrow> (sql_error, 'v stmt) result" where
  "Increment uni num r f column v =
     (if v < 1 then Inl StepNotPositive
      else and_then (stepQuery uni r f column ''+'') (\<lambda>(query, whereArgs). Inr (query, concatArgs [num v] whereArgs)))"

definition Decrement :: "(string \<Rightarrow> string) \<Rightarrow> (int \<Rightarrow> 'v sqlval) \<Rightarrow> repo \<Rightarrow> 'v sql_filter \<Rightarrow> string \<Rightarrow> int \<Rightarrow> (sql_error, 'v stmt) result" where
  "Decrement uni num r f column v =
     (if v < 1 then Inl StepNotPositive
      else and_then (stepQuery uni r f column ''-'') (\<lambda>(query, whereArgs). Inr (query, concatArgs [num v] whereArgs)))"

subsection \<open>Deletion\<close>

definition deleteByIDQuery :: "repo \<Rightarrow> string" where
  "deleteByIDQuery r = ''DELETE FROM '' @ quotedTable r @ '' WHERE '' @ quotedID r @ '' = '' @ placeholder (Dialect r) 1"

definition deleteOneQuery :: "(string \<Rightarrow> string) \<Rightarrow> repo \<Rightarrow> 'v sql_filter \<Rightarrow> (sql_error, 'v stmt) result" where
  "deleteOneQuery uni r f =
     (if length f = 0 then Inl ErrEmptyFilter
      else and_then (buildWhere uni r f 0) (\<lambda>(whereClause, args).
        if Dialect r = DialectMySQL then Inr (joinSQL [''DELETE FROM '' @ quotedTable r, whereClause, ''LIMIT 1''], args)
        else
          let inner = joinSQL [''SELECT '' @ quotedID r, ''FROM '' @ quotedTable r, whereClause, ''LIMIT 1'']
          in Inr (''DELETE FROM '' @ quotedTable r @ '' WHERE '' @ quotedID r @ '' IN ('' @ inner @ '')'', args)))"

definition deleteManyQuery :: "(string \<Rightarrow> string) \<Rightarrow> repo \<Rightarrow> 'v sql_filter \<Rightarrow> (sql_error, 'v stmt) result" where
  "deleteManyQuery uni r f =
     (if length f = 0 then Inl ErrEmptyFilter
      else and_then (buildWhere uni r f 0) (\<lambda>(whereClause, args).
        Inr (joinSQL [''DELETE FROM '' @ quotedTable r, whereClause], args)))"

definition DeleteByWhere :: "(string \<Rightarrow> string) \<Rightarrow> repo \<Rightarrow> 'v cond list \<Rightarrow> (sql_error, 'v stmt) result" where
  "DeleteByWhere uni r conds =
     (if length conds = 0 then Inl ErrEmptyFilter
      else and_then (buildWhereConds uni (Dialect r) conds 0) (\<lambda>(whereClause, args, idx).
        if whereClause = '''' then Inl ErrEmptyFilter
        else Inr (joinSQL [''DELETE FROM '' @ quotedTable r, whereClause], args)))"

definition DeleteAllUnsafe :: "repo \<Rightarrow> 'v stmt" where
  "DeleteAllUnsafe r = (''DELETE FROM '' @ quotedTable r, [])"

subsection \<open>Reading\<close>

definition findByConditionQuery :: "(string \<Rightarrow> string) \<Rightarrow> repo \<Rightarrow> 'v sql_filter \<Rightarrow> (sql_error, 'v stmt) result" where
  "findByConditionQuery uni r f =
     and_then (buildWhere uni r f 0) (\<lambda>(whereClause, args).
       Inr (joinSQL [''SELECT '' @ columnsString r, ''FROM '' @ quotedTable r, whereClause], args))"

definition findByWhereQuery :: "(string \<Rightarrow> string) \<Rightarrow> repo \<Rightarrow> 'v cond list \<Rightarrow> (sql_error, 'v stmt) result" where
  "findByWhereQuery uni r conds =
     and_then (buildWhereConds uni (Dialect r) conds 0) (\<lambda>(whereClause, args, idx).
       Inr (joinSQL [''SELECT '' @ columnsString r, ''FROM '' @ quotedTable r, whereClause], args))"

definition findOneByIDQuery :: "repo \<Rightarrow> string" where
  "findOneByIDQuery r = ''SELECT '' @ columnsString r @ '' FROM '' @ quotedTable r @ '' WHERE '' @ quotedID r @ '' = '' @
     placeholder (Dialect r) 1 @ '' LIMIT 1''"

definition findOneQuery :: "(string \<Rightarrow> string) \<Rightarrow> repo \<Rightarrow> 'v sql_filter \<Rightarrow> (sql_error, 'v stmt) result" where
  "findOneQuery uni r f =
     and_then (buildWhere uni r f 0) (\<lambda>(whereClause, args).
       Inr (joinSQL [''SELECT '' @ columnsString r, ''FROM '' @ quotedTable r, whereClause, ''LIMIT 1''], args))"

definition FindOneByWhere :: "(string \<Rightarrow> string) \<Rightarrow> repo \<Rightarrow> 'v cond list \<Rightarrow> (sql_error, 'v stmt) result" where
  "FindOneByWhere uni r conds =
     and_then (buildWhereConds uni (Dialect r) conds 0) (\<lambda>(whereClause, args, idx).
       Inr (joinSQL [''SELECT '' @ columnsString r, ''FROM '' @ quotedTable r, whereClause, ''LIMIT 1''], args))"

definition countQuery :: "(string \<Rightarrow> string) \<Rightarrow> repo \<Rightarrow> 'v sql_filter \<Rightarrow> (sql_error, 'v stmt) result" where
  "countQuery uni r f =
     and_then (buildWhere uni r f 0) (\<lambda>(whereClause, args).
       Inr (joinSQL [''SELECT COUNT(*) FROM '' @ quotedTable r, whereClause], args))"

definition countByWhereQuery :: "(string \<Rightarrow> string) \<Rightarrow> repo \<Rightarrow> 'v cond list \<Rightarrow> (sql_error, 'v stmt) result" where
  "countByWhereQuery uni r conds =
     and_then (buildWhereConds uni (Dialect r) conds 0) (\<lambda>(whereClause, args, idx).
       Inr (joinSQL [''SELECT COUNT(*) FROM '' @ quotedTable r, whereClause], args))"

definition existsByIDQuery :: "repo \<Rightarrow> string" where
  "existsByIDQuery r = ''SELECT EXISTS(SELECT 1 FROM '' @ quotedTable r @ '' WHERE '' @ quotedID r @ '' = '' @
     placeholder (Dialect r) 1 @ '')''"

definition existsQuery :: "(string \<Rightarrow> string) \<Rightarrow> repo \<Rightarrow> 'v sql_filter \<Rightarrow> (sql_error, 'v stmt) result" where
  "existsQuery uni r f =
     and_then (buildWhere uni r f 0) (\<lambda>(whereClause, args).
       let inner = joinSQL [''SELECT 1 FROM '' @ quotedTable r, whereClause]
       in Inr (''SELECT EXISTS('' @ inner @ '')'', args))"

subsection \<open>Pages\<close>

record order_by =
  ob_Column :: string
  ob_Desc :: bool

definition direction :: "order_by \<Rightarrow> string" where
  "direction ob = (if ob_Desc ob then ''DESC'' else ''ASC'')"

fun order_loop :: "(string \<Rightarrow> string) \<Rightarrow> repo \<Rightarrow> order_by list \<Rightarrow> (sql_error, string list) result" where
  "order_loop uni r [] = Inr []"
| "order_loop uni r (ob # obs) =
     and_then (quote uni r (ob_Column ob)) (\<lambda>col.
       and_then (order_loop uni r obs) (\<lambda>parts. Inr ((col @ '' '' @ direction ob) # parts)))"

definition buildOrderBy :: "(string \<Rightarrow> string) \<Rightarrow> repo \<Rightarrow> order_by list \<Rightarrow> (sql_error, string) result" where
  "buildOrderBy uni r obs =
     (if length obs = 0 then Inr (''ORDER BY '' @ quotedID r @ '' ASC'')
      else and_then (order_loop uni r obs) (\<lambda>parts. Inr (''ORDER BY '' @ Join parts '', '')))"

definition pageQuery :: "(string \<Rightarrow> string) \<Rightarrow> repo \<Rightarrow> string \<Rightarrow> nat \<Rightarrow> order_by list \<Rightarrow> (sql_error, string) result" where
  "pageQuery uni r whereClause nextIdx obs =
     and_then (buildOrderBy uni r obs) (\<lambda>orderClause.
       Inr (joinSQL [''SELECT '' @ columnsString r, ''FROM '' @ quotedTable r, whereClause, orderClause,
              ''LIMIT '' @ placeholder (Dialect r) (nextIdx + 1), ''OFFSET '' @ placeholder (Dialect r) (nextIdx + 2)]))"

definition pagesQuery :: "(string \<Rightarrow> string) \<Rightarrow> repo \<Rightarrow> 'v sql_filter \<Rightarrow> order_by list \<Rightarrow>
    (sql_error, string \<times> string \<times> 'v sqlval list) result" where
  "pagesQuery uni r f obs =
     and_then (buildWhereNext uni r f 0) (\<lambda>(whereClause, whereArgs, nextIdx).
       and_then (pageQuery uni r whereClause nextIdx obs) (\<lambda>pq.
         Inr (joinSQL [''SELECT COUNT(*) FROM '' @ quotedTable r, whereClause], pq, whereArgs)))"

definition keysetQuery :: "(string \<Rightarrow> string) \<Rightarrow> (int \<Rightarrow> 'v sqlval) \<Rightarrow> repo \<Rightarrow> 'v sql_filter \<Rightarrow> 'v sqlval option \<Rightarrow> int \<Rightarrow> bool \<Rightarrow>
    (sql_error, 'v stmt) result" where
  "keysetQuery uni num r f after limit desc =
     (let conds0 = filterToConds f;
          conds = (case after of
              None \<Rightarrow> conds0
            | Some v \<Rightarrow> conds0 @ [\<lparr>cd_Column = IDColumn r, cd_Op = (if desc then OpLT else OpGT), cd_Value = v\<rparr>])
      in and_then (buildWhereConds uni (Dialect r) conds 0) (\<lambda>(whereClause, args, nextIdx).
           Inr (joinSQL [''SELECT '' @ columnsString r, ''FROM '' @ quotedTable r, whereClause,
                  ''ORDER BY '' @ quotedID r @ '' '' @ (if desc then ''DESC'' else ''ASC''),
                  ''LIMIT '' @ placeholder (Dialect r) (nextIdx + 1)],
                concatArgs args [num (limit + 1)])))"

end
