(* ===== verification/Sql_Safe.thy ===== *)
theory Sql_Safe
  imports Sql_Repo
begin

text \<open>
  Every statement of a repository is read by the database as it was meant: names are validated quoted
  identifiers, the text between them is made of harmless characters and holds no comment, and the
  placeholders are exactly the arguments, in order. The constructor's invariant makes the cached
  names part of that.
\<close>

section \<open>Readable text\<close>

definition safe :: "char \<Rightarrow> bool" where
  "safe c \<longleftrightarrow> letter c \<or> is_digit c \<or> c \<in> set '' ,.()=<>*+-''"

fun texts :: "token list \<Rightarrow> string" where
  "texts [] = []"
| "texts (TChar c # ts) = c # texts ts"
| "texts (t # ts) = texts ts"

fun comment_free :: "token list \<Rightarrow> bool" where
  "comment_free [] = True"
| "comment_free (t # ts) =
     (\<not> (t = TChar CHR ''-'' \<and> ts \<noteq> [] \<and> hd ts = TChar CHR ''-'') \<and> comment_free ts)"

definition clean :: "token list \<Rightarrow> bool" where
  "clean ts \<longleftrightarrow> list_all good_part (names ts) \<and> list_all safe (texts ts) \<and> comment_free ts"

text \<open>What the driver needs of a statement with \<open>n\<close> arguments.\<close>

definition clean_sql :: "(string \<Rightarrow> string) \<Rightarrow> dialect \<Rightarrow> string \<Rightarrow> nat \<Rightarrow> bool" where
  "clean_sql uni d s n \<longleftrightarrow>
     (let ts = sql_tokens uni d 0 s in TBroken \<notin> set ts \<and> holders ts = [1..<n + 1] \<and> clean ts)"

definition reads :: "(string \<Rightarrow> string) \<Rightarrow> dialect \<Rightarrow> nat \<Rightarrow> string \<Rightarrow> nat \<Rightarrow> bool" where
  "reads uni d k s n \<longleftrightarrow>
     (\<exists>ts. s = render uni d ts \<and> wf_tokens (Suc k) ts \<and> length (holders ts) = n \<and> clean ts)"

definition delimits :: "string \<Rightarrow> bool" where
  "delimits s \<longleftrightarrow> s = [] \<or> hd s \<in> set '' ),.''"

definition lit :: "string \<Rightarrow> bool" where
  "lit s \<longleftrightarrow> list_all safe s \<and> comment_free (words s) \<and> (s = [] \<or> last s \<noteq> CHR ''-'')"

lemma texts_append [simp]: "texts (a @ b) = texts a @ texts b"
  by (induction a rule: texts.induct) simp_all

lemma texts_words [simp]: "texts (words s) = s"
  by (induction s) (simp_all add: words_def)

lemma texts_joint: "set (texts (joint ts sep)) \<subseteq> \<Union> (set ` texts ` set ts) \<union> set sep"
  by (induction ts) (auto simp: joint_Cons)

lemma comment_free_append:
  "comment_free a \<Longrightarrow> comment_free b \<Longrightarrow> (a = [] \<or> last a \<noteq> TChar CHR ''-'') \<or> (b = [] \<or> hd b \<noteq> TChar CHR ''-'') \<Longrightarrow>
   comment_free (a @ b)"
  by (induction a) (auto simp: hd_append split: if_splits)

lemma no_dash_comment_free: "CHR ''-'' \<notin> set (texts ts) \<Longrightarrow> comment_free ts"
  by (induction ts rule: texts.induct) auto

lemma wf_holders: "wf_tokens k ts \<Longrightarrow> holders ts = [k..<k + length (holders ts)]"
proof (induction k ts rule: wf_tokens.induct)
  case (4 k n ts)
  then show ?case by (simp add: upt_conv_Cons del: upt_Suc)
qed auto

lemma wf_not_broken: "wf_tokens k ts \<Longrightarrow> TBroken \<notin> set ts"
  by (induction k ts rule: wf_tokens.induct) auto

lemma reads_clean_sql: "reads uni d 0 s n \<Longrightarrow> clean_sql uni d s n"
proof -
  assume "reads uni d 0 s n"
  then obtain ts where ts: "s = render uni d ts" "wf_tokens 1 ts" "length (holders ts) = n" "clean ts"
    by (auto simp: reads_def)
  have "sql_tokens uni d 0 s = ts" using lex_render [OF ts(2), of uni d] ts(1) by (simp add: sql_tokens_def)
  moreover have "holders ts = [1..<n + 1]" using wf_holders [OF ts(2)] ts(3) by simp
  ultimately show ?thesis using ts wf_not_broken [OF ts(2)] by (simp add: clean_sql_def Let_def)
qed

lemma safe_plain: "safe c \<Longrightarrow> plain c"
  using part_char_plain by (auto simp: safe_def plain_def)

lemma delimits_opens:
  assumes "wf_tokens k ts" and "delimits (render uni d ts)"
  shows "opens ts \<and> (ts = [] \<or> hd ts \<noteq> TChar CHR ''-'')"
proof -
  have "quoteChar (normalizeDialect uni d) \<notin> set '' ),.''" by (auto simp: quoteChar_def)
  moreover have "hd (placeholder d v) \<notin> set '' ),.''" for v by (auto simp: placeholder_def)
  moreover have "placeholder d v \<noteq> []" for v by (simp add: placeholder_def)
  ultimately show ?thesis
    using assms by (cases ts rule: opens.cases) (auto simp: delimits_def QuoteIdentifier_plain hd_append)
qed

lemma reads_append:
  assumes "reads uni d k a m" and "delimits b" and "reads uni d (k + m) b n"
  shows "reads uni d k (a @ b) (m + n)"
proof -
  obtain ts where ts: "a = render uni d ts" "wf_tokens (Suc k) ts" "length (holders ts) = m" "clean ts"
    using assms(1) by (auto simp: reads_def)
  obtain us where us: "b = render uni d us" "wf_tokens (Suc (k + m)) us" "length (holders us) = n" "clean us"
    using assms(3) by (auto simp: reads_def)
  note o1 = delimits_opens [OF us(2), of uni d]
  have "wf_tokens (Suc k) (ts @ us)" using o1 assms(2) ts us by (intro wf_append) auto
  moreover have "clean (ts @ us)" using o1 assms(2) ts us by (auto simp: clean_def intro!: comment_free_append)
  ultimately show ?thesis using ts us by (auto simp: reads_def intro!: exI [of _ "ts @ us"])
qed

lemma reads_text: "lit s \<Longrightarrow> reads uni d k b n \<Longrightarrow> reads uni d k (s @ b) n"
proof -
  assume lit: "lit s" and "reads uni d k b n"
  then obtain us where us: "b = render uni d us" "wf_tokens (Suc k) us" "length (holders us) = n" "clean us"
    by (auto simp: reads_def)
  have "comment_free (words s @ us)"
    using lit us(4) by (intro comment_free_append) (auto simp: lit_def clean_def words_def last_map)
  then show ?thesis
    using lit us safe_plain
    by (auto simp: reads_def lit_def clean_def list_all_iff intro!: exI [of _ "words s @ us"])
qed

lemma reads_Nil [simp]: "reads uni d k [] 0"
  by (auto simp: reads_def clean_def intro!: exI [of _ "[]"])

lemma reads_lit: "lit s \<Longrightarrow> reads uni d k s 0"
  using reads_text [of s uni d k "[]" 0] by simp

lemma reads_Nil_iff: "reads uni d k [] n \<longleftrightarrow> n = 0"
proof
  assume "reads uni d k [] n"
  then obtain ts where ts: "[] = render uni d ts" "wf_tokens (Suc k) ts" "length (holders ts) = n"
    by (auto simp: reads_def)
  have "ts = []"
    using ts(1,2) by (cases "(Suc k, ts)" rule: wf_tokens.cases) (auto simp: QuoteIdentifier_plain placeholder_def split: if_splits)
  with ts(3) show "n = 0" by simp
qed simp

lemma reads_holder: "reads uni d k (placeholder d (Suc k)) 1"
  by (auto simp: reads_def clean_def intro!: exI [of _ "[THolder (Suc k)]"])

text \<open>A quoted name.\<close>

definition named :: "(string \<Rightarrow> string) \<Rightarrow> dialect \<Rightarrow> string \<Rightarrow> bool" where
  "named uni d q \<longleftrightarrow> (\<exists>name. ValidateIdentifier name = None \<and> q = QuoteQualified uni d name)"

lemma texts_idents: "set (texts (ident_tokens name)) \<subseteq> {CHR ''.''}"
  using texts_joint [of "map (\<lambda>p. [TIdent p]) (Split CHR ''.'' name)" "''.''"] by (auto simp: ident_tokens_def)

lemma clean_ident: "ValidateIdentifier name = None \<Longrightarrow> clean (ident_tokens name)"
proof -
  assume v: "ValidateIdentifier name = None"
  have "c = CHR ''.''" if "c \<in> set (texts (ident_tokens name))" for c
    using that texts_idents [of name] by auto
  then show ?thesis using v
    by (auto simp: clean_def ValidateIdentifier_None list_all_iff safe_def intro!: no_dash_comment_free)
qed

lemma reads_name: "named uni d q \<Longrightarrow> reads uni d k q 0"
  unfolding named_def reads_def
  by (metis wf_ident_tokens clean_ident render_ident_tokens holders_ident_tokens list.size(3))

subsection \<open>Lists of parts\<close>

inductive reads_list :: "(string \<Rightarrow> string) \<Rightarrow> dialect \<Rightarrow> nat \<Rightarrow> string list \<Rightarrow> nat \<Rightarrow> bool"
  for uni :: "string \<Rightarrow> string" and d :: dialect where
  reads_none: "reads_list uni d k [] 0"
| reads_more: "reads uni d k p m \<Longrightarrow> reads_list uni d (k + m) ps n \<Longrightarrow> reads_list uni d k (p # ps) (m + n)"

lemma reads_more0: "reads uni d k p 0 \<Longrightarrow> reads_list uni d k ps n \<Longrightarrow> reads_list uni d k (p # ps) n"
  using reads_more [of uni d k p 0 ps n] by simp

lemma reads_last: "reads uni d k p n \<Longrightarrow> reads_list uni d k [p] n"
  using reads_more [OF _ reads_none, of uni d k p n] by simp

lemma reads_Join:
  assumes "lit sep" and "delimits sep" and "sep \<noteq> []"
  shows "reads_list uni d k ps n \<Longrightarrow> reads uni d k (Join ps sep) n"
proof (induction rule: reads_list.induct)
  case (reads_more k p m ps n)
  show ?case
  proof (cases "ps = []")
    case True
    with reads_more show ?thesis by (auto simp: Join_Cons reads_Nil_iff)
  next
    case False
    have "delimits (sep @ Join ps sep)" using assms by (simp add: delimits_def hd_append)
    with reads_more reads_text [OF assms(1)] False show ?thesis by (auto simp: Join_Cons intro: reads_append)
  qed
qed simp

lemma lit_seps: "lit '', ''" "lit '' ''" "lit '' AND ''" by code_simp+

lemma reads_commas: "reads_list uni d k ps n \<Longrightarrow> reads uni d k (Join ps '', '') n"
  by (rule reads_Join) (simp_all add: lit_seps delimits_def)

lemma reads_joinSQL: "reads_list uni d k ps n \<Longrightarrow> reads uni d k (joinSQL ps) n"
proof -
  assume "reads_list uni d k ps n"
  then have "reads_list uni d k (filter (\<lambda>p. p \<noteq> []) ps) n"
  proof (induction rule: reads_list.induct)
    case (reads_more k p m ps n)
    then show ?case by (auto simp: reads_Nil_iff intro: reads_list.reads_more)
  qed (simp add: reads_none)
  then show ?thesis unfolding joinSQL_def by (intro reads_Join) (simp_all add: lit_seps delimits_def)
qed

lemma reads_names: "list_all (named uni d) qs \<Longrightarrow> reads uni d k (Join qs '', '') 0"
proof -
  assume "list_all (named uni d) qs"
  then have "reads_list uni d k qs 0"
    by (induction qs arbitrary: k) (auto intro: reads_more0 reads_name reads_none)
  then show ?thesis by (rule reads_commas)
qed

lemma reads_placeholders: "reads uni d k (placeholders d (Suc k) n) n"
proof -
  have "reads_list uni d k (map (\<lambda>i. placeholder d (Suc k + i)) [0..<n]) n"
  proof (induction n arbitrary: k)
    case (Suc n)
    have "map (\<lambda>i. placeholder d (Suc k + i)) [0..<Suc n] =
        placeholder d (Suc k) # map (\<lambda>i. placeholder d (Suc (Suc k) + i)) [0..<n]"
      by (simp add: upt_conv_Cons map_Suc_upt [symmetric] del: upt_Suc)
    then show ?case using reads_more [OF reads_holder Suc.IH [of "k + 1"]] by simp
  qed (simp add: reads_none)
  then show ?thesis unfolding placeholders_def by (rule reads_commas)
qed

subsection \<open>Predicates\<close>

lemma texts_commas: "set (texts (comma_holders k n)) \<subseteq> set '', ''"
  using texts_joint [of "map (\<lambda>i. [THolder (k + i)]) [0..<n]" "'', ''"] by (auto simp: comma_holders_def)

definition calm :: "char \<Rightarrow> bool" where
  "calm c \<longleftrightarrow> safe c \<and> c \<noteq> CHR ''-''"

lemma calm_op: "\<forall>n. o1 \<noteq> OpUnknown n \<Longrightarrow> list_all calm (op_String o1)"
  by (cases o1) (auto simp: op_String_def calm_def safe_def letter_def is_digit_def in_range_def less_eq_char_def)

lemma calm_cond:
  assumes "\<forall>n. o1 \<noteq> OpUnknown n"
  shows "list_all calm (texts (cond_tokens d column o1 isnil n k))"
proof -
  have dot: "list_all calm (texts (ident_tokens column))"
    using texts_idents [of column] by (auto simp: list_all_iff calm_def safe_def)
  have comma: "list_all calm (texts (comma_holders k n))" for k n
    using texts_commas [of k n] by (auto simp: list_all_iff calm_def safe_def)
  have lits: "list_all calm '' IS NULL''" "list_all calm '' IS NOT NULL''" "list_all calm ''1 = 0''" "list_all calm ''1 = 1''"
    "list_all calm '' BETWEEN ''" "list_all calm '' AND ''" "list_all calm ''LOWER(''" "list_all calm '') LIKE LOWER(''"
    "list_all calm '')''" "list_all calm '' ''" "list_all calm '' (''"
    by code_simp+
  show ?thesis unfolding cond_tokens_def Let_def
    by (simp only: texts_append texts_words texts.simps list_all_append list.pred_inject(1) dot comma lits calm_op [OF assms]
        simp_thms split: if_split)
qed

lemma calm_where: "\<forall>c \<in> set cs. \<forall>n. cd_Op c \<noteq> OpUnknown n \<Longrightarrow> list_all calm (texts (where_tokens d cs k))"
proof -
  assume ops: "\<forall>c \<in> set cs. \<forall>n. cd_Op c \<noteq> OpUnknown n"
  then have "\<forall>t \<in> set (cond_list d cs k). list_all calm (texts t)"
    by (induction cs arbitrary: k) (auto simp: Let_def calm_cond)
  moreover have "list_all calm '' AND ''" by code_simp
  ultimately show ?thesis
    using texts_joint [of "cond_list d cs k" "'' AND ''"] by (fastforce simp: where_tokens_def list_all_iff)
qed

lemma known_ops: "conds_loop uni d cs parts args k = Inr x \<Longrightarrow> \<forall>c \<in> set cs. \<forall>n. cd_Op c \<noteq> OpUnknown n"
proof (induction cs arbitrary: parts args k)
  case (Cons c cs)
  from Cons.prems obtain part vs j where first: "cond_part uni d c k = Inr (part, vs, j)"
    and rest: "conds_loop uni d cs (parts @ [part]) (args @ vs) j = Inr x"
    by (auto split: sum.splits)
  show ?case using cond_part_Inr(2) [OF first] Cons.IH [OF rest] by auto
qed simp

lemma buildConds_reads:
  assumes "buildConds uni d conds k = Inr (clause, args, k')"
  shows "reads uni d k clause (length args)"
proof -
  note b = buildConds_Inr [OF assms]
  have "\<forall>c \<in> set conds. \<forall>n. cd_Op c \<noteq> OpUnknown n"
    using assms by (auto simp: buildConds_def and_then_Inr_iff dest!: known_ops split: if_splits)
  then have "list_all calm (texts (where_tokens d conds k))" by (rule calm_where)
  then have "clean (where_tokens d conds k)"
    using b(6) by (auto simp: clean_def calm_def list_all_iff intro!: no_dash_comment_free)
  moreover have "length (holders (where_tokens d conds k)) = length args" using b(3,5) by (simp del: upt_Suc)
  ultimately show ?thesis using b(1,4) unfolding reads_def by blast
qed

lemma buildWhereConds_reads:
  assumes "buildWhereConds uni d conds k = Inr (clause, args, k')"
  shows "reads uni d k clause (length args)" and "k' = k + length args"
proof -
  obtain s where s: "buildConds uni d conds k = Inr (s, args, k')" "clause = (if s = [] then [] else ''WHERE '' @ s)"
    using assms by (auto simp: buildWhereConds_def and_then_Inr_iff)
  have "lit ''WHERE ''" by code_simp
  then show "reads uni d k clause (length args)"
    using s(2) buildConds_reads [OF s(1)] by (auto simp only: reads_text split: if_splits)
  show "k' = k + length args" using buildConds_Inr(3) [OF s(1)] .
qed

lemma buildWhere_reads:
  assumes "buildWhere uni r f k = Inr (clause, args)"
  shows "reads uni (Dialect r) k clause (length args)"
  using assms by (auto simp: buildWhere_def and_then_Inr_iff dest: buildWhereConds_reads(1))

section \<open>The constructor\<close>

abbreviation valid :: "string \<Rightarrow> bool" where
  "valid name \<equiv> ValidateIdentifier name = None"

definition cached_ok :: "(string \<Rightarrow> string) \<Rightarrow> repo \<Rightarrow> bool" where
  "cached_ok uni r \<longleftrightarrow>
     list_all valid (columns r) \<and> distinct (columns r) \<and>
     quotedByColumn r = map (\<lambda>c. (c, QuoteQualified uni (Dialect r) c)) (columns r) \<and>
     length (fieldIdx r) = length (columns r) \<and> dbTagMap r = zip (columns r) (fieldIdx r) \<and>
     insertCols r = filter (\<lambda>c. \<not> (autoID r \<and> c = IDColumn r)) (columns r) \<and>
     quotedInsert r = map (QuoteQualified uni (Dialect r)) (insertCols r) \<and>
     insertIdx r = map snd (filter (\<lambda>(c, i). \<not> (autoID r \<and> c = IDColumn r)) (dbTagMap r))"

text \<open>What the constructor establishes: the names are valid, and the cached forms are theirs.\<close>

definition repo_ok :: "(string \<Rightarrow> string) \<Rightarrow> repo \<Rightarrow> bool" where
  "repo_ok uni r \<longleftrightarrow>
     Dialect r \<in> {DialectPostgres, DialectMySQL, DialectSQLite} \<and>
     valid (TableName r) \<and> quotedTable r = QuoteQualified uni (Dialect r) (TableName r) \<and>
     valid (IDColumn r) \<and> quotedID r = QuoteQualified uni (Dialect r) (IDColumn r) \<and>
     columns r \<noteq> [] \<and> quotedColumns r = Join (map (QuoteQualified uni (Dialect r)) (columns r)) '', '' \<and>
     cached_ok uni r"

lemma mustQuote_Inr: "mustQuote uni d name = Inr q \<longleftrightarrow> valid name \<and> q = QuoteQualified uni d name"
  by (auto simp: mustQuote_def QuoteValidated_def split: option.splits sum.splits)

lemma zip_snoc: "length xs = length ys \<Longrightarrow> zip (xs @ [x]) (ys @ [y]) = zip xs ys @ [(x, y)]"
  by simp

lemma add_column_ok:
  assumes "cached_ok uni r" and "valid c" and "mget (dbTagMap r) c = None"
  shows "cached_ok uni (add_column c (QuoteQualified uni (Dialect r) c) i r)"
proof -
  have keys: "mkeys (dbTagMap r) = columns r" "mkeys (quotedByColumn r) = columns r"
    using assms(1) by (auto simp: cached_ok_def mkeys_def comp_def)
  then have fresh: "c \<notin> set (columns r)" using assms(3) mget_None_iff [of "dbTagMap r" c] by simp
  then have "mput c i (dbTagMap r) = dbTagMap r @ [(c, i)]"
    "mput c (QuoteQualified uni (Dialect r) c) (quotedByColumn r) = quotedByColumn r @ [(c, QuoteQualified uni (Dialect r) c)]"
    using keys by (simp_all add: mput_fresh)
  then show ?thesis using assms(1,2) fresh by (auto simp: cached_ok_def add_column_def Let_def)
qed

lemma add_column_keeps [simp]:
  "Dialect (add_column c q i r) = Dialect r" "TableName (add_column c q i r) = TableName r"
  "IDColumn (add_column c q i r) = IDColumn r" "autoID (add_column c q i r) = autoID r"
  "quotedTable (add_column c q i r) = quotedTable r" "quotedID (add_column c q i r) = quotedID r"
  by (simp_all add: add_column_def Let_def)

lemma fields_loop_ok:
  "fields_loop uni i fs r = Inr r' \<Longrightarrow> cached_ok uni r \<Longrightarrow>
     cached_ok uni r' \<and> Dialect r' = Dialect r \<and> TableName r' = TableName r \<and> IDColumn r' = IDColumn r \<and>
     quotedTable r' = quotedTable r \<and> quotedID r' = quotedID r \<and> autoID r' = autoID r"
proof (induction uni i fs r rule: fields_loop.induct)
  case (2 uni i f fs r)
  let ?c = "takeWhile (\<lambda>c. c \<noteq> CHR '','') (sf_Tag f)"
  show ?case
  proof (cases "sf_Exported f \<and> sf_Tag f \<noteq> [] \<and> sf_Tag f \<noteq> ''-''")
    case True
    with 2(4) obtain q where q: "mustQuote uni (Dialect r) ?c = Inr q" "mget (dbTagMap r) ?c = None"
      and rest: "fields_loop uni (Suc i) fs (add_column ?c q i r) = Inr r'"
      by (auto simp: Let_def and_then_Inr_iff split: if_splits)
    then have "cached_ok uni (add_column ?c q i r)" using 2(5) by (auto simp: mustQuote_Inr intro: add_column_ok)
    with 2(3) [OF _ _ refl _ rest] True q(2) show ?thesis by simp
  next
    case False
    then have skip: "fields_loop uni (Suc i) fs r = Inr r'" using 2(4) by (auto split: if_splits)
    show ?thesis
    proof (cases "sf_Exported f")
      case True
      with False 2(2) [OF _ _ skip 2(5)] show ?thesis by simp
    next
      case False
      with 2(1) [OF _ skip 2(5)] show ?thesis by simp
    qed
  qed
qed simp

lemma normalizeDialect_cases: "normalizeDialect uni d \<in> {DialectPostgres, DialectMySQL, DialectSQLite}"
  by (simp add: normalizeDialect_def Let_def)

lemma new_repo_ok:
  assumes "NewBaseRepositoryWithDialect uni t d0 tableName idColumn auto = Inr r"
  shows "repo_ok uni r"
proof -
  let ?d = "normalizeDialect uni d0" and ?id = "if idColumn = [] then ''id'' else idColumn"
  obtain fs qt qi s where parts: "mustQuote uni ?d tableName = Inr qt" "mustQuote uni ?d ?id = Inr qi"
      "fields_loop uni 0 fs
         \<lparr>TableName = tableName, IDColumn = ?id, Dialect = ?d, columns = [], dbTagMap = [], fieldIdx = [],
          insertCols = [], insertIdx = [], autoID = auto, quotedTable = qt, quotedID = qi,
          quotedColumns = '''', quotedInsert = [], quotedByColumn = []\<rparr> = Inr s"
      "columns s \<noteq> []" "r = s\<lparr>quotedColumns := Join (map (\<lambda>c. mindex '''' (quotedByColumn s) c) (columns s)) '', ''\<rparr>"
    using assms by (auto simp: NewBaseRepositoryWithDialect_def Let_def and_then_Inr_iff split: model_type.splits if_splits)
  note l = fields_loop_ok [OF parts(3)]
  have s: "cached_ok uni s" "Dialect s = ?d" "TableName s = tableName" "IDColumn s = ?id" "quotedTable s = qt" "quotedID s = qi"
    using l by (simp_all add: cached_ok_def)
  have "mindex '''' (quotedByColumn s) c = QuoteQualified uni ?d c" if "c \<in> set (columns s)" for c
    using s(1,2) that by (simp add: cached_ok_def mindex_def mget_def map_of_map_restrict restrict_map_def)
  then have "map (\<lambda>c. mindex '''' (quotedByColumn s) c) (columns s) = map (QuoteQualified uni ?d) (columns s)" by simp
  then have "r = s\<lparr>quotedColumns := Join (map (QuoteQualified uni ?d) (columns s)) '', ''\<rparr>" by (simp only: parts(5))
  then have "quotedColumns r = Join (map (QuoteQualified uni ?d) (columns s)) '', ''" by simp
  moreover have "cached_ok uni r" using s(1) by (simp add: parts(5) cached_ok_def)
  ultimately show ?thesis
    using s(2-) parts(1,2,4) normalizeDialect_cases [of uni d0]
    unfolding repo_ok_def mustQuote_Inr parts(5) by simp
qed

section \<open>Statements\<close>

lemma delimits_simps [simp]: "delimits []" "delimits (c # s) \<longleftrightarrow> c \<in> set '' ),.''"
  by (simp_all add: delimits_def)

lemma reads_name_then: "named uni d q \<Longrightarrow> delimits b \<Longrightarrow> reads uni d k b n \<Longrightarrow> reads uni d k (q @ b) n"
  using reads_append [OF reads_name, of uni d q b k n] by simp

lemma reads_none_then: "reads uni d k a 0 \<Longrightarrow> delimits b \<Longrightarrow> reads uni d k b n \<Longrightarrow> reads uni d k (a @ b) n"
  using reads_append [of uni d k a 0 b n] by simp

lemma reads_holder_at: "i = Suc k \<Longrightarrow> n = 1 \<Longrightarrow> reads uni d k (placeholder d i) n"
  using reads_holder by simp

lemma reads_holder_then:
  "i = Suc k \<Longrightarrow> delimits b \<Longrightarrow> reads uni d (Suc k) b n \<Longrightarrow> reads uni d k (placeholder d i @ b) (Suc n)"
  using reads_append [OF reads_holder, of b uni d k n] by simp

text \<open>Constant text, character by character.\<close>

lemma calm_chars: "list_all calm ''ABCDEFGHIJKLMNOPQRSTUVWXYZ ,.()=<>*+10''"
  by code_simp

lemma calm_text [simp]: "c \<in> set ''ABCDEFGHIJKLMNOPQRSTUVWXYZ ,.()=<>*+10'' \<Longrightarrow> calm c"
  using calm_chars unfolding list_all_iff by blast

lemma reads_Cons: "calm c \<Longrightarrow> reads uni d k s n \<Longrightarrow> reads uni d k (c # s) n"
  using reads_text [of "[c]" uni d k s n] by (simp add: lit_def calm_def words_def)

lemma reads_dash: "reads uni d k s n \<Longrightarrow> reads uni d k (CHR ''-'' # CHR '' '' # s) n"
  using reads_text [of "''- ''" uni d k s n] by (simp add: lit_def words_def safe_def)

lemma repo_named:
  assumes "repo_ok uni r"
  shows "named uni (Dialect r) (quotedTable r)" and "named uni (Dialect r) (quotedID r)"
    and "list_all (named uni (Dialect r)) (quotedInsert r)" and "reads uni (Dialect r) k (columnsString r) 0"
    and "length (quotedInsert r) = length (insertCols r)" and "length (insertIdx r) = length (insertCols r)"
    and "quote uni r name = Inr q \<Longrightarrow> named uni (Dialect r) q"
proof -
  note ok = assms [unfolded repo_ok_def cached_ok_def]
  show "named uni (Dialect r) (quotedTable r)" "named uni (Dialect r) (quotedID r)" using ok by (auto simp: named_def)
  show "list_all (named uni (Dialect r)) (quotedInsert r)" using ok by (auto simp: named_def list_all_iff)
  have "list_all (named uni (Dialect r)) (map (QuoteQualified uni (Dialect r)) (columns r))"
    using ok by (auto simp: named_def list_all_iff)
  then show "reads uni (Dialect r) k (columnsString r) 0" using ok by (simp add: columnsString_def reads_names)
  show "length (quotedInsert r) = length (insertCols r)" using ok by auto
  have "filter P (map fst xs) = map fst (filter (\<lambda>(c, i). P c) xs)" for P :: "string \<Rightarrow> bool" and xs :: "(string \<times> nat) list"
    by (induction xs) auto
  moreover have "columns r = map fst (dbTagMap r)" using ok by simp
  ultimately have "insertCols r = map fst (filter (\<lambda>(c, i). \<not> (autoID r \<and> c = IDColumn r)) (dbTagMap r))"
    using ok by presburger
  then show "length (insertIdx r) = length (insertCols r)" using ok by simp
  show "named uni (Dialect r) q" if "quote uni r name = Inr q"
  proof (cases "mget (quotedByColumn r) name")
    case None
    with that show ?thesis by (auto simp: quote_def QuoteValidated_def named_def split: option.splits)
  next
    case (Some p)
    then have "(name, p) \<in> set (quotedByColumn r)" unfolding mget_def by (rule map_of_SomeD)
    with Some that ok show ?thesis by (auto simp: quote_def named_def list_all_iff)
  qed
qed

lemma set_loop_reads:
  "repo_ok uni r \<Longrightarrow> set_loop uni r data keys parts args k = Inr (parts', args') \<Longrightarrow>
     \<exists>ps. parts' = parts @ ps \<and> length args' = length args + length ps \<and> ps = [] = (keys = []) \<and>
       reads_list uni (Dialect r) k ps (length ps)"
proof (induction keys arbitrary: parts args k)
  case (Cons c keys)
  then obtain q where q: "quote uni r c = Inr q" and rest: "set_loop uni r data keys
      (parts @ [q @ '' = '' @ placeholder (Dialect r) (Suc k)]) (args @ [filter_value data c]) (Suc k) = Inr (parts', args')"
    by (auto simp: and_then_Inr_iff)
  obtain ps where ps: "parts' = parts @ [q @ '' = '' @ placeholder (Dialect r) (Suc k)] @ ps"
      "length args' = Suc (length args) + length ps" "reads_list uni (Dialect r) (Suc k) ps (length ps)"
    using Cons.IH [OF Cons.prems(1) rest] by auto
  have "reads uni (Dialect r) k (q @ '' = '' @ placeholder (Dialect r) (Suc k)) 1"
    using repo_named(7) [OF Cons.prems(1) q] reads_holder by (auto intro!: reads_name_then reads_Cons)
  from reads_more [OF this, of ps "length ps"] ps show ?case
    by (intro exI [of _ "(q @ '' = '' @ placeholder (Dialect r) (Suc k)) # ps"]) simp
qed (auto intro: reads_none)

lemma buildSetClause_reads:
  "repo_ok uni r \<Longrightarrow> buildSetClause uni r data k = Inr (clause, args) \<Longrightarrow> reads uni (Dialect r) k clause (length args)"
  by (auto simp: buildSetClause_def and_then_Inr_iff split: if_splits dest!: set_loop_reads intro: reads_commas)

subsection \<open>What the operations send\<close>

definition getValues :: "'v sqlval list \<Rightarrow> nat list \<Rightarrow> 'v sqlval list" where
  "getValues data idx = map (\<lambda>i. data ! i) idx"

text \<open>The calls of a repository; a row is the list of its field values.\<close>

datatype 'v request =
    Q_create "'v sqlval list"
  | Q_insert_many "'v sqlval list list"
  | Q_upsert "'v sqlval list" "string list"
  | Q_update_id "'v sqlval" "'v sql_filter"
  | Q_update_one "'v sql_filter" "'v sql_filter"
  | Q_update_find "'v sql_filter" "'v sql_filter"
  | Q_update_many "'v sql_filter" "'v sql_filter"
  | Q_update_where "'v cond list" "'v sql_filter"
  | Q_update_all "'v sql_filter"
  | Q_increment "'v sql_filter" string int
  | Q_decrement "'v sql_filter" string int
  | Q_delete_id "'v sqlval"
  | Q_delete_one "'v sql_filter"
  | Q_delete_many "'v sql_filter"
  | Q_delete_where "'v cond list"
  | Q_delete_all
  | Q_find "'v sql_filter"
  | Q_find_where "'v cond list"
  | Q_find_id "'v sqlval"
  | Q_find_one "'v sql_filter"
  | Q_find_one_where "'v cond list"
  | Q_count "'v sql_filter"
  | Q_count_where "'v cond list"
  | Q_exists_id "'v sqlval"
  | Q_exists "'v sql_filter"
  | Q_page "'v sql_filter" "order_by list" int int
  | Q_keyset "'v sql_filter" "'v sqlval option" int bool

definition statement :: "(string \<Rightarrow> string) \<Rightarrow> (int \<Rightarrow> 'v sqlval) \<Rightarrow> repo \<Rightarrow> 'v request \<Rightarrow> (sql_error, 'v stmt) result" where
  "statement uni num r q =
     (case q of
        Q_create row \<Rightarrow> Inr (insertQuery r, getValues row (insertIdx r))
      | Q_insert_many rows \<Rightarrow> Inr (insertManyQuery r (length rows), concat (map (\<lambda>row. getValues row (insertIdx r)) rows))
      | Q_upsert row cs \<Rightarrow> and_then (upsertQuery uni r cs) (\<lambda>(s, always). Inr (s, getValues row (insertIdx r)))
      | Q_update_id i data \<Rightarrow> UpdateOneByID uni r i data
      | Q_update_one f data \<Rightarrow> updateOneQuery uni r f data
      | Q_update_find f data \<Rightarrow> updateReturningQuery uni r f data
      | Q_update_many f data \<Rightarrow> updateManyQuery uni r f data
      | Q_update_where cs data \<Rightarrow> UpdateByWhere uni r cs data
      | Q_update_all data \<Rightarrow> UpdateAllUnsafe uni r data
      | Q_increment f c v \<Rightarrow> Increment uni num r f c v
      | Q_decrement f c v \<Rightarrow> Decrement uni num r f c v
      | Q_delete_id i \<Rightarrow> Inr (deleteByIDQuery r, [i])
      | Q_delete_one f \<Rightarrow> deleteOneQuery uni r f
      | Q_delete_many f \<Rightarrow> deleteManyQuery uni r f
      | Q_delete_where cs \<Rightarrow> DeleteByWhere uni r cs
      | Q_delete_all \<Rightarrow> Inr (DeleteAllUnsafe r)
      | Q_find f \<Rightarrow> findByConditionQuery uni r f
      | Q_find_where cs \<Rightarrow> findByWhereQuery uni r cs
      | Q_find_id i \<Rightarrow> Inr (findOneByIDQuery r, [i])
      | Q_find_one f \<Rightarrow> findOneQuery uni r f
      | Q_find_one_where cs \<Rightarrow> FindOneByWhere uni r cs
      | Q_count f \<Rightarrow> countQuery uni r f
      | Q_count_where cs \<Rightarrow> countByWhereQuery uni r cs
      | Q_exists_id i \<Rightarrow> Inr (existsByIDQuery r, [i])
      | Q_exists f \<Rightarrow> existsQuery uni r f
      | Q_page f obs perPage offset \<Rightarrow>
          and_then (pagesQuery uni r f obs) (\<lambda>(cq, pq, args). Inr (pq, concatArgs args [num perPage, num offset]))
      | Q_keyset f after limit desc \<Rightarrow> keysetQuery uni num r f after limit desc)"

lemma reads_eq: "reads uni d k s n \<Longrightarrow> n = m \<Longrightarrow> reads uni d k s m"
  by simp

lemma reads_prefix_table:
  assumes "repo_ok uni r" and "list_all calm pre"
  shows "reads uni (Dialect r) k (pre @ quotedTable r) 0"
  using assms(2) reads_name [OF repo_named(1) [OF assms(1)]] by (induction pre) (auto intro: reads_Cons)

lemma reads_prefix_columns:
  assumes "repo_ok uni r" and "list_all calm pre"
  shows "reads uni (Dialect r) k (pre @ columnsString r) 0"
  using assms(2) repo_named(4) [OF assms(1)] by (induction pre) (auto intro: reads_Cons)

lemma reads_prefix_ID:
  assumes "repo_ok uni r" and "list_all calm pre"
  shows "reads uni (Dialect r) k (pre @ quotedID r) 0"
  using assms(2) reads_name [OF repo_named(2) [OF assms(1)]] by (induction pre) (auto intro: reads_Cons)

lemma calm_prefixes: "list_all calm ''UPDATE ''" "list_all calm ''SET ''" "list_all calm ''SELECT ''" "list_all calm ''FROM ''"
  "list_all calm ''DELETE FROM ''" "list_all calm ''SELECT COUNT(*) FROM ''" "list_all calm ''SELECT 1 FROM ''"
  "list_all calm ''RETURNING ''" "list_all calm ''ORDER BY ''"
  by code_simp+

lemma reads_prefix: "list_all calm pre \<Longrightarrow> reads uni d k s n \<Longrightarrow> reads uni d k (pre @ s) n"
  by (induction pre) (auto intro: reads_Cons)

lemma calm_lit: "list_all calm s \<Longrightarrow> reads uni d k s 0"
  using reads_prefix [of s uni d k "[]" 0] by simp

lemma reads_update:
  assumes ok: "repo_ok uni r" and sets: "buildSetClause uni r data 0 = Inr (setc, setArgs)"
    and w: "reads uni (Dialect r) (length setArgs) s n" and tail: "reads_list uni (Dialect r) (length setArgs + n) ps m"
  shows "reads uni (Dialect r) 0 (joinSQL ((''UPDATE '' @ quotedTable r) # (''SET '' @ setc) # s # ps)) (length setArgs + (n + m))"
proof -
  have "reads_list uni (Dialect r) (0 + length setArgs) (s # ps) (n + m)" using w tail by (intro reads_more) simp_all
  then show ?thesis
    using reads_prefix_table [OF ok calm_prefixes(1)] reads_prefix [OF calm_prefixes(2) buildSetClause_reads [OF ok sets]]
    by (intro reads_joinSQL reads_more0 [where p = "''UPDATE '' @ quotedTable r"]
        reads_more [where p = "''SET '' @ setc" and ps = "s # ps"])
qed

lemma reads_select:
  assumes ok: "repo_ok uni r" and w: "reads uni (Dialect r) k s n" and tail: "reads_list uni (Dialect r) (k + n) ps m"
  shows "reads uni (Dialect r) k (joinSQL ((''SELECT '' @ columnsString r) # (''FROM '' @ quotedTable r) # s # ps)) (n + m)"
    and "reads uni (Dialect r) k (joinSQL ((''SELECT '' @ quotedID r) # (''FROM '' @ quotedTable r) # s # ps)) (n + m)"
proof -
  have "reads_list uni (Dialect r) k ((''FROM '' @ quotedTable r) # s # ps) (n + m)"
    using w tail reads_prefix_table [OF ok calm_prefixes(4)] by (intro reads_more0 reads_more)
  then show "reads uni (Dialect r) k (joinSQL ((''SELECT '' @ columnsString r) # (''FROM '' @ quotedTable r) # s # ps)) (n + m)"
    "reads uni (Dialect r) k (joinSQL ((''SELECT '' @ quotedID r) # (''FROM '' @ quotedTable r) # s # ps)) (n + m)"
    using reads_prefix_columns [OF ok calm_prefixes(3)] reads_prefix_ID [OF ok calm_prefixes(3)]
    by (auto intro!: reads_joinSQL reads_more0 simp del: append_Cons)
qed

lemma reads_table_where:
  assumes ok: "repo_ok uni r" and "list_all calm pre" and w: "reads uni (Dialect r) k s n"
    and tail: "reads_list uni (Dialect r) (k + n) ps m"
  shows "reads uni (Dialect r) k (joinSQL ((pre @ quotedTable r) # s # ps)) (n + m)"
  using reads_prefix_table [OF ok assms(2)] w tail by (intro reads_joinSQL reads_more0 reads_more)

lemma reads_limit: "reads_list uni d k [''LIMIT 1''] 0"
  by (rule reads_last, rule calm_lit) code_simp

subsection \<open>Every statement is clean\<close>

lemma reads_close: "reads uni d k '')'' 0"
  by (auto intro: reads_Cons)

lemma insertQuery_reads: "repo_ok uni r \<Longrightarrow> reads uni (Dialect r) 0 (insertQuery r) (length (insertCols r))"
proof -
  assume ok: "repo_ok uni r"
  have "reads uni (Dialect r) 0 (placeholders (Dialect r) 1 (length (insertCols r)) @ '')'') (length (insertCols r) + 0)"
    using reads_placeholders [of uni "Dialect r" 0 "length (insertCols r)"] by (intro reads_append) (auto intro: reads_Cons)
  then show ?thesis
    using reads_name [OF repo_named(1) [OF ok], of 0] reads_names [OF repo_named(3) [OF ok], of 0] unfolding insertQuery_def
    by (auto intro!: reads_Cons reads_none_then)
qed

lemma insertManyQuery_reads:
  "repo_ok uni r \<Longrightarrow> reads uni (Dialect r) 0 (insertManyQuery r n) (n * length (insertCols r))"
proof -
  assume ok: "repo_ok uni r"
  let ?m = "length (insertCols r)" and ?d = "Dialect r"
  have part: "reads uni ?d k (''('' @ placeholders ?d (k + 1) ?m @ '')'') ?m" for k
    using reads_append [OF reads_placeholders [of uni ?d k ?m] _ reads_close] by (auto intro!: reads_Cons)
  have rows: "reads_list uni ?d (j * ?m) (map (\<lambda>i. ''('' @ placeholders ?d (i * ?m + 1) ?m @ '')'') [j..<j + n]) (n * ?m)" for j n
  proof (induction n arbitrary: j)
    case (Suc n)
    have "reads_list uni ?d (j * ?m + ?m) (map (\<lambda>i. ''('' @ placeholders ?d (i * ?m + 1) ?m @ '')'') [Suc j..<Suc j + n]) (n * ?m)"
      using Suc.IH [of "Suc j"] by (simp add: add.commute)
    from reads_more [OF part this] show ?case by (simp add: upt_conv_Cons del: upt_Suc)
  qed (simp add: reads_none)
  have "reads uni ?d 0 (Join (map (\<lambda>i. ''('' @ placeholders ?d (i * ?m + 1) ?m @ '')'') [0..<n]) '', '') (n * ?m)"
    using rows [of 0 n] by (intro reads_commas) simp
  then show ?thesis
    using reads_name [OF repo_named(1) [OF ok], of 0] reads_names [OF repo_named(3) [OF ok], of 0]
    unfolding insertManyQuery_def Let_def
    by (auto intro!: reads_Cons reads_none_then)
qed

lemma quote_all_named: "repo_ok uni r \<Longrightarrow> quote_all uni r cs = Inr qs \<Longrightarrow> list_all (named uni (Dialect r)) qs"
  by (induction cs arbitrary: qs) (auto simp: and_then_Inr_iff dest: repo_named(7))

lemma update_part_reads: "named uni (Dialect r) q \<Longrightarrow> reads uni (Dialect r) k (update_part r q) 0"
  using reads_name [of uni "Dialect r" q k] by (auto simp: update_part_def intro!: reads_Cons reads_none_then)

lemma update_parts_reads:
  "list_all (named uni (Dialect r)) qs \<Longrightarrow> reads uni (Dialect r) k (Join (map (update_part r) qs) '', '') 0"
proof -
  assume "list_all (named uni (Dialect r)) qs"
  then have "reads_list uni (Dialect r) k (map (update_part r) qs) 0"
    by (induction qs) (auto intro: reads_more0 update_part_reads reads_none)
  then show ?thesis by (rule reads_commas)
qed

lemma upsertQuery_reads:
  assumes ok: "repo_ok uni r" and "upsertQuery uni r cs = Inr (s, always)"
  shows "reads uni (Dialect r) 0 s (length (insertCols r))"
proof -
  let ?n = "length (insertCols r)" and ?d = "Dialect r"
  obtain qs where qs: "quote_all uni r cs = Inr qs" using assms(2) by (auto simp: upsertQuery_def and_then_Inr_iff split: if_splits)
  define us where "us = map snd (filter (\<lambda>(col, quoted). col \<notin> set cs) (zip (insertCols r) (quotedInsert r)))"
  have us: "map (\<lambda>(col, quoted). update_part r quoted)
      (filter (\<lambda>(col, quoted). col \<notin> set cs) (zip (insertCols r) (quotedInsert r))) = map (update_part r) us"
    by (simp add: us_def case_prod_beta comp_def)
  have "set us \<subseteq> set (quotedInsert r)" by (auto simp: us_def dest: set_zip_rightD)
  then have named: "list_all (named uni ?d) us" using repo_named(3) [OF ok] by (auto simp: list_all_iff)
  have i: "reads uni ?d ?n (quotedID r) 0" by (rule reads_name [OF repo_named(2) [OF ok]])
  have ids: "reads uni ?d ?n (quotedID r @ '' = '' @ quotedID r) 0" using i by (auto intro!: reads_Cons reads_none_then)
  note c = reads_names [OF quote_all_named [OF ok qs], of ?n] and u = update_parts_reads [OF named, of ?n]
  have tails: "reads uni ?d ?n ('' ON DUPLICATE KEY UPDATE '' @ quotedID r @ '' = '' @ quotedID r) 0"
    "reads uni ?d ?n ('' ON DUPLICATE KEY UPDATE '' @ Join (map (update_part r) us) '', '') 0"
    "reads uni ?d ?n ('' ON CONFLICT ('' @ Join qs '', '' @ '') DO NOTHING'') 0"
    "reads uni ?d ?n ('' ON CONFLICT ('' @ Join qs '', '' @ '') DO UPDATE SET '' @ Join (map (update_part r) us) '', '') 0"
    using ids c u by (auto intro!: reads_Cons reads_none_then [OF c])
  have "\<exists>t. s = insertQuery r @ t \<and> hd t = CHR '' '' \<and> t \<noteq> [] \<and> reads uni ?d ?n t 0"
    using assms(2) qs tails unfolding upsertQuery_def us by (auto simp: Let_def split: if_splits)
  then obtain t where t: "s = insertQuery r @ t" "delimits t" "reads uni ?d (0 + ?n) t 0" by (auto simp: delimits_def)
  show ?thesis using reads_append [OF insertQuery_reads [OF ok] t(2,3)] t(1) by simp
qed

lemma order_loop_reads:
  "repo_ok uni r \<Longrightarrow> order_loop uni r obs = Inr ps \<Longrightarrow> reads_list uni (Dialect r) k ps 0"
proof (induction obs arbitrary: ps)
  case (Cons ob obs)
  then obtain q qs where q: "quote uni r (ob_Column ob) = Inr q" "order_loop uni r obs = Inr qs"
    "ps = (q @ '' '' @ direction ob) # qs"
    by (auto simp: and_then_Inr_iff)
  have "reads uni (Dialect r) k ('' '' @ direction ob) 0" by (auto simp: direction_def intro!: reads_Cons)
  then have "reads uni (Dialect r) k (q @ '' '' @ direction ob) 0"
    using repo_named(7) [OF Cons.prems(1) q(1)] by (intro reads_name_then [of uni "Dialect r" q]) auto
  with Cons q show ?case by (auto intro: reads_more0)
qed (simp add: reads_none)

lemma buildOrderBy_reads: "repo_ok uni r \<Longrightarrow> buildOrderBy uni r obs = Inr s \<Longrightarrow> reads uni (Dialect r) k s 0"
  using repo_named(2) [of uni r]
  by (auto simp: buildOrderBy_def and_then_Inr_iff split: if_splits dest!: order_loop_reads [where k = k]
      intro!: reads_Cons reads_name_then reads_commas)

lemma pageQuery_reads:
  assumes ok: "repo_ok uni r" and w: "reads uni (Dialect r) 0 wc n" and "pageQuery uni r wc n obs = Inr s"
  shows "reads uni (Dialect r) 0 s (n + 2)"
proof -
  obtain oc where oc: "buildOrderBy uni r obs = Inr oc" and s: "s = joinSQL [''SELECT '' @ columnsString r, ''FROM '' @ quotedTable r,
      wc, oc, ''LIMIT '' @ placeholder (Dialect r) (n + 1), ''OFFSET '' @ placeholder (Dialect r) (n + 2)]"
    using assms(3) by (auto simp: pageQuery_def and_then_Inr_iff)
  have "reads uni (Dialect r) (n + 1) (''OFFSET '' @ placeholder (Dialect r) (n + 2)) 1"
    "reads uni (Dialect r) n (''LIMIT '' @ placeholder (Dialect r) (n + 1)) 1"
    by (auto intro!: reads_Cons reads_holder_at)
  then have "reads_list uni (Dialect r) (0 + n)
      [oc, ''LIMIT '' @ placeholder (Dialect r) (n + 1), ''OFFSET '' @ placeholder (Dialect r) (n + 2)] (1 + 1)"
    using buildOrderBy_reads [OF ok oc] by (intro reads_more0 [where p = oc] reads_more [where p = "_ @ _"] reads_last) simp_all
  from reads_select(1) [OF ok w this] show ?thesis by (simp add: s numeral_2_eq_2)
qed

lemma reads_by_id:
  assumes ok: "repo_ok uni r" and "reads uni (Dialect r) k a m" and "delimits tl1" and "reads uni (Dialect r) (k + m + 1) tl1 0"
  shows "reads uni (Dialect r) k (a @ '' WHERE '' @ quotedID r @ '' = '' @ placeholder (Dialect r) (k + m + 1) @ tl1) (m + 1)"
proof -
  have "reads uni (Dialect r) (k + m) ('' WHERE '' @ quotedID r @ '' = '' @ placeholder (Dialect r) (k + m + 1) @ tl1) 1"
    using assms(3,4) repo_named(2) [OF ok] reads_holder_then [of "k + m + 1" "k + m" tl1 uni "Dialect r" 0]
    by (auto intro!: reads_Cons reads_name_then [of _ _ "quotedID r"])
  from reads_append [OF assms(2) _ this] show ?thesis by simp
qed

lemma reads_in_select:
  assumes ok: "repo_ok uni r" and "reads uni (Dialect r) k a m" and "reads uni (Dialect r) (k + m) s n"
  shows "reads uni (Dialect r) k (a @ '' WHERE '' @ quotedID r @ '' IN ('' @ s @ '')'') (m + n)"
proof -
  have "reads uni (Dialect r) (k + m) (s @ '')'') (n + 0)"
    using assms(3) reads_close by (intro reads_append) simp_all
  then have "reads uni (Dialect r) (k + m) ('' WHERE '' @ quotedID r @ '' IN ('' @ s @ '')'') n"
    using repo_named(2) [OF ok] by (auto intro!: reads_Cons reads_name_then [of _ _ "quotedID r"])
  from reads_append [OF assms(2) _ this] show ?thesis by simp
qed

lemma reads_set:
  assumes ok: "repo_ok uni r" and "buildSetClause uni r data 0 = Inr (setc, setArgs)"
  shows "reads uni (Dialect r) 0 (''UPDATE '' @ quotedTable r @ '' SET '' @ setc) (length setArgs)"
  using reads_name [OF repo_named(1) [OF ok], of 0] buildSetClause_reads [OF assms]
  by (auto intro!: reads_Cons reads_none_then [of _ _ _ "quotedTable r"])

lemma update_statements_read:
  assumes ok: "repo_ok uni r"
  shows "UpdateOneByID uni r i data = Inr (s, args) \<Longrightarrow> reads uni (Dialect r) 0 s (length args)"
    and "updateOneQuery uni r f data = Inr (s, args) \<Longrightarrow> reads uni (Dialect r) 0 s (length args)"
    and "updateReturningQuery uni r f data = Inr (s, args) \<Longrightarrow> reads uni (Dialect r) 0 s (length args)"
    and "updateManyQuery uni r f data = Inr (s, args) \<Longrightarrow> reads uni (Dialect r) 0 s (length args)"
    and "UpdateByWhere uni r cs data = Inr (s, args) \<Longrightarrow> reads uni (Dialect r) 0 s (length args)"
    and "UpdateAllUnsafe uni r data = Inr (s, args) \<Longrightarrow> reads uni (Dialect r) 0 s (length args)"
proof -
  have returning: "reads_list uni (Dialect r) k [''RETURNING '' @ columnsString r] 0" for k
    by (rule reads_last, rule reads_prefix_columns [OF ok calm_prefixes(8)])
  show "reads uni (Dialect r) 0 s (length args)" if "UpdateOneByID uni r i data = Inr (s, args)"
    using that reads_by_id [OF ok reads_set [OF ok], of data _ _ "[]"]
    by (auto simp: UpdateOneByID_def updateByIDQuery_def and_then_Inr_iff concatArgs_def)
  show "reads uni (Dialect r) 0 s (length args)" if "updateReturningQuery uni r f data = Inr (s, args)"
    using that reads_update [OF ok _ buildWhere_reads returning]
    by (auto simp: updateReturningQuery_def and_then_Inr_iff concatArgs_def simp del: append_Cons split: if_splits)
  show "reads uni (Dialect r) 0 s (length args)" if "updateManyQuery uni r f data = Inr (s, args)"
    using that reads_update [OF ok _ buildWhere_reads reads_none]
    by (auto simp: updateManyQuery_def and_then_Inr_iff concatArgs_def simp del: append_Cons split: if_splits)
  show "reads uni (Dialect r) 0 s (length args)" if "UpdateByWhere uni r cs data = Inr (s, args)"
    using that reads_update [OF ok _ buildWhereConds_reads(1) reads_none]
    by (auto simp: UpdateByWhere_def and_then_Inr_iff concatArgs_def simp del: append_Cons split: if_splits)
  show "reads uni (Dialect r) 0 s (length args)" if "UpdateAllUnsafe uni r data = Inr (s, args)"
    using that reads_set [OF ok] by (auto simp: UpdateAllUnsafe_def and_then_Inr_iff)
  show "reads uni (Dialect r) 0 s (length args)" if q: "updateOneQuery uni r f data = Inr (s, args)"
  proof -
    obtain setc setArgs wc wargs where b: "buildSetClause uni r data 0 = Inr (setc, setArgs)"
        "buildWhere uni r f (length setArgs) = Inr (wc, wargs)" "args = setArgs @ wargs"
      using q by (auto simp: updateOneQuery_def and_then_Inr_iff concatArgs_def Let_def split: if_splits)
    note w = buildWhere_reads [OF b(2)]
    show ?thesis
      using q b reads_update [OF ok b(1) w reads_limit]
        reads_in_select [OF ok reads_set [OF ok b(1)], of "joinSQL [''SELECT '' @ quotedID r, ''FROM '' @ quotedTable r, wc, ''LIMIT 1'']"]
        reads_select(2) [OF ok w reads_limit]
      by (auto simp: updateOneQuery_def Let_def concatArgs_def simp del: append_Cons split: if_splits)
  qed
qed

lemma stepQuery_reads:
  assumes ok: "repo_ok uni r" and q: "stepQuery uni r f column o1 = Inr (s, args)" and o1: "o1 = ''+'' \<or> o1 = ''-''"
  shows "reads uni (Dialect r) 0 s (Suc (length args))"
proof -
  obtain col wc where col: "quote uni r column = Inr col" and w: "buildWhere uni r f 1 = Inr (wc, args)"
    and s: "s = joinSQL [''UPDATE '' @ quotedTable r,
       ''SET '' @ col @ '' = '' @ col @ '' '' @ o1 @ '' '' @ placeholder (Dialect r) 1, wc]"
    using q by (auto simp: stepQuery_def and_then_Inr_iff split: if_splits)
  note n = repo_named(7) [OF ok col]
  have p: "reads uni (Dialect r) 0 (placeholder (Dialect r) 1) 1" by (rule reads_holder_at) simp_all
  have "reads uni (Dialect r) 0 (''SET '' @ col @ '' = '' @ col @ '' '' @ o1 @ '' '' @ placeholder (Dialect r) 1) 1"
    using o1 p by (auto intro!: reads_Cons reads_dash reads_name_then [of _ _ col] n)
  from reads_more [OF this reads_last, of wc "length args"]
  have "reads_list uni (Dialect r) 0 [''SET '' @ col @ '' = '' @ col @ '' '' @ o1 @ '' '' @ placeholder (Dialect r) 1, wc] (1 + length args)"
    using buildWhere_reads [OF w] by simp
  from reads_joinSQL [OF reads_more0 [OF reads_prefix_table [OF ok calm_prefixes(1)] this]] show ?thesis by (simp add: s)
qed

lemma step_statements_read:
  assumes ok: "repo_ok uni r"
  shows "Increment uni num r f c v = Inr (s, args) \<Longrightarrow> reads uni (Dialect r) 0 s (length args)"
    and "Decrement uni num r f c v = Inr (s, args) \<Longrightarrow> reads uni (Dialect r) 0 s (length args)"
  by (auto simp: Increment_def Decrement_def and_then_Inr_iff concatArgs_def dest!: stepQuery_reads [OF ok] split: if_splits)

lemma delete_statements_read:
  assumes ok: "repo_ok uni r"
  shows "reads uni (Dialect r) 0 (deleteByIDQuery r) 1"
    and "deleteOneQuery uni r f = Inr (s, args) \<Longrightarrow> reads uni (Dialect r) 0 s (length args)"
    and "deleteManyQuery uni r f = Inr (s, args) \<Longrightarrow> reads uni (Dialect r) 0 s (length args)"
    and "DeleteByWhere uni r cs = Inr (s, args) \<Longrightarrow> reads uni (Dialect r) 0 s (length args)"
    and "reads uni (Dialect r) 0 (''DELETE FROM '' @ quotedTable r) 0"
proof -
  show t: "reads uni (Dialect r) 0 (''DELETE FROM '' @ quotedTable r) 0"
    by (rule reads_prefix_table [OF ok calm_prefixes(5)])
  show "reads uni (Dialect r) 0 (deleteByIDQuery r) 1"
    using reads_by_id [OF ok t, of "[]"] by (simp add: deleteByIDQuery_def)
  show "reads uni (Dialect r) 0 s (length args)" if "deleteManyQuery uni r f = Inr (s, args)"
    using that reads_table_where [OF ok calm_prefixes(5) buildWhere_reads reads_none]
    by (auto simp: deleteManyQuery_def and_then_Inr_iff simp del: append_Cons split: if_splits)
  show "reads uni (Dialect r) 0 s (length args)" if "DeleteByWhere uni r cs = Inr (s, args)"
    using that reads_table_where [OF ok calm_prefixes(5) buildWhereConds_reads(1) reads_none]
    by (auto simp: DeleteByWhere_def and_then_Inr_iff simp del: append_Cons split: if_splits)
  show "reads uni (Dialect r) 0 s (length args)" if q: "deleteOneQuery uni r f = Inr (s, args)"
  proof -
    obtain wc where b: "buildWhere uni r f 0 = Inr (wc, args)"
      using q by (auto simp: deleteOneQuery_def and_then_Inr_iff Let_def split: if_splits)
    note w = buildWhere_reads [OF b]
    show ?thesis
      using q b reads_table_where [OF ok calm_prefixes(5) w reads_limit] reads_select(2) [OF ok w reads_limit]
        reads_in_select [OF ok t, of "joinSQL [''SELECT '' @ quotedID r, ''FROM '' @ quotedTable r, wc, ''LIMIT 1'']"]
      by (auto simp: deleteOneQuery_def Let_def simp del: append_Cons split: if_splits)
  qed
qed

lemma read_statements_read:
  assumes ok: "repo_ok uni r"
  shows "findByConditionQuery uni r f = Inr (s, args) \<Longrightarrow> reads uni (Dialect r) 0 s (length args)"
    and "findByWhereQuery uni r cs = Inr (s, args) \<Longrightarrow> reads uni (Dialect r) 0 s (length args)"
    and "findOneQuery uni r f = Inr (s, args) \<Longrightarrow> reads uni (Dialect r) 0 s (length args)"
    and "FindOneByWhere uni r cs = Inr (s, args) \<Longrightarrow> reads uni (Dialect r) 0 s (length args)"
    and "countQuery uni r f = Inr (s, args) \<Longrightarrow> reads uni (Dialect r) 0 s (length args)"
    and "countByWhereQuery uni r cs = Inr (s, args) \<Longrightarrow> reads uni (Dialect r) 0 s (length args)"
    and "existsQuery uni r f = Inr (s, args) \<Longrightarrow> reads uni (Dialect r) 0 s (length args)"
    and "reads uni (Dialect r) 0 (findOneByIDQuery r) 1" and "reads uni (Dialect r) 0 (existsByIDQuery r) 1"
proof -
  note select = reads_select(1) [OF ok _ reads_none] reads_select(1) [OF ok _ reads_limit]
    and count = reads_table_where [OF ok calm_prefixes(6) _ reads_none]
  show "reads uni (Dialect r) 0 s (length args)" if "findByConditionQuery uni r f = Inr (s, args)"
    using that select [OF buildWhere_reads] by (auto simp: findByConditionQuery_def and_then_Inr_iff simp del: append_Cons)
  show "reads uni (Dialect r) 0 s (length args)" if "findByWhereQuery uni r cs = Inr (s, args)"
    using that select [OF buildWhereConds_reads(1)] by (auto simp: findByWhereQuery_def and_then_Inr_iff simp del: append_Cons)
  show "reads uni (Dialect r) 0 s (length args)" if "findOneQuery uni r f = Inr (s, args)"
    using that select [OF buildWhere_reads] by (auto simp: findOneQuery_def and_then_Inr_iff simp del: append_Cons)
  show "reads uni (Dialect r) 0 s (length args)" if "FindOneByWhere uni r cs = Inr (s, args)"
    using that select [OF buildWhereConds_reads(1)] by (auto simp: FindOneByWhere_def and_then_Inr_iff simp del: append_Cons)
  show "reads uni (Dialect r) 0 s (length args)" if "countQuery uni r f = Inr (s, args)"
    using that count [OF buildWhere_reads] by (auto simp: countQuery_def and_then_Inr_iff simp del: append_Cons)
  show "reads uni (Dialect r) 0 s (length args)" if "countByWhereQuery uni r cs = Inr (s, args)"
    using that count [OF buildWhereConds_reads(1)] by (auto simp: countByWhereQuery_def and_then_Inr_iff simp del: append_Cons)
  show "reads uni (Dialect r) 0 s (length args)" if q: "existsQuery uni r f = Inr (s, args)"
  proof -
    obtain wc where b: "buildWhere uni r f 0 = Inr (wc, args)"
      and s: "s = ''SELECT EXISTS('' @ joinSQL [''SELECT 1 FROM '' @ quotedTable r, wc] @ '')''"
      using q by (auto simp: existsQuery_def and_then_Inr_iff Let_def)
    have "reads uni (Dialect r) 0 (joinSQL [''SELECT 1 FROM '' @ quotedTable r, wc]) (length args + 0)"
      by (rule reads_table_where [OF ok calm_prefixes(7) buildWhere_reads [OF b] reads_none])
    from reads_append [OF this _ reads_close] show ?thesis unfolding s by (auto intro!: reads_Cons)
  qed
  have "reads uni (Dialect r) 0 (''SELECT '' @ columnsString r @ '' FROM '' @ quotedTable r) 0"
    using reads_name [OF repo_named(1) [OF ok], of 0] repo_named(4) [OF ok, of 0]
    by (auto intro!: reads_Cons reads_none_then [of _ _ _ "columnsString r"])
  moreover have "reads uni (Dialect r) (0 + 0 + 1) '' LIMIT 1'' 0" by (auto intro!: reads_Cons)
  ultimately show "reads uni (Dialect r) 0 (findOneByIDQuery r) 1"
    using reads_by_id [OF ok, of 0 _ 0 "'' LIMIT 1''"] by (fastforce simp: findOneByIDQuery_def)
  have "list_all calm ''SELECT EXISTS(SELECT 1 FROM ''" by code_simp
  from reads_by_id [OF ok reads_prefix_table [OF ok this] _ reads_close]
  show "reads uni (Dialect r) 0 (existsByIDQuery r) 1" by (simp add: existsByIDQuery_def)
qed

lemma keysetQuery_reads:
  assumes ok: "repo_ok uni r" and "keysetQuery uni num r f after limit desc = Inr (s, args)"
  shows "reads uni (Dialect r) 0 s (length args)"
proof -
  define dir where "dir = (if desc then ''DESC'' else ''ASC'')"
  obtain cs wc wargs n where w: "buildWhereConds uni (Dialect r) cs 0 = Inr (wc, wargs, n)" and args: "args = wargs @ [num (limit + 1)]"
    and s: "s = joinSQL [''SELECT '' @ columnsString r, ''FROM '' @ quotedTable r, wc,
        ''ORDER BY '' @ quotedID r @ '' '' @ dir, ''LIMIT '' @ placeholder (Dialect r) (n + 1)]"
    using assms(2) unfolding keysetQuery_def dir_def [symmetric] by (auto simp: Let_def and_then_Inr_iff concatArgs_def)
  note wr = buildWhereConds_reads [OF w]
  have l: "reads uni (Dialect r) n (''LIMIT '' @ placeholder (Dialect r) (n + 1)) 1" by (auto intro!: reads_Cons reads_holder_at)
  have "reads uni (Dialect r) n (''ORDER BY '' @ quotedID r @ '' '' @ dir) 0"
    using repo_named(2) [OF ok] by (auto simp: dir_def intro!: reads_Cons reads_name_then [of _ _ "quotedID r"])
  from reads_select(1) [OF ok wr(1) reads_more0 [OF this reads_last [OF l], unfolded wr(2)]]
  show ?thesis by (simp add: s args wr(2))
qed

lemma statement_reads:
  assumes ok: "repo_ok uni r" and q: "statement uni num r req = Inr (s, args)"
  shows "reads uni (Dialect r) 0 s (length args)"
proof -
  note width = repo_named(6) [OF ok]
  show ?thesis
  proof (cases req)
    case (Q_create row)
    then show ?thesis using q insertQuery_reads [OF ok] width by (auto simp: statement_def getValues_def)
  next
    case (Q_insert_many rows)
    have "length (concat (map (\<lambda>row. getValues row (insertIdx r)) rows)) = length rows * length (insertCols r)"
      using width by (induction rows) (auto simp: getValues_def)
    then show ?thesis using q Q_insert_many insertManyQuery_reads [OF ok, of "length rows"] by (auto simp: statement_def)
  next
    case (Q_upsert row cs)
    then show ?thesis using q upsertQuery_reads [OF ok] width by (auto simp: statement_def getValues_def and_then_Inr_iff)
  next
    case (Q_page f obs perPage offset)
    then obtain wc wargs n pq where w: "buildWhereNext uni r f 0 = Inr (wc, wargs, n)" "pageQuery uni r wc n obs = Inr pq"
      "s = pq" "args = wargs @ [num perPage, num offset]"
      using q by (auto simp: statement_def and_then_Inr_iff pagesQuery_def concatArgs_def)
    note wr = buildWhereConds_reads [OF w(1) [unfolded buildWhereNext_def]]
    have "reads uni (Dialect r) 0 wc n" using wr by simp
    from pageQuery_reads [OF ok this w(2)] show ?thesis using w(3,4) wr(2) by simp
  qed (use q update_statements_read [OF ok] step_statements_read [OF ok] delete_statements_read [OF ok]
      read_statements_read [OF ok] keysetQuery_reads [OF ok] in \<open>auto simp: statement_def DeleteAllUnsafe_def\<close>)
qed


section \<open>Writes are filtered\<close>

text \<open>The conditions a write was given, for those that take any.\<close>

fun write_conds :: "'v request \<Rightarrow> 'v cond list option" where
  "write_conds (Q_update_one f data) = Some (filterToConds f)"
| "write_conds (Q_update_find f data) = Some (filterToConds f)"
| "write_conds (Q_update_many f data) = Some (filterToConds f)"
| "write_conds (Q_update_where cs data) = Some cs"
| "write_conds (Q_increment f c v) = Some (filterToConds f)"
| "write_conds (Q_decrement f c v) = Some (filterToConds f)"
| "write_conds (Q_delete_one f) = Some (filterToConds f)"
| "write_conds (Q_delete_many f) = Some (filterToConds f)"
| "write_conds (Q_delete_where cs) = Some cs"
| "write_conds q = None"

definition filtered :: "(string \<Rightarrow> string) \<Rightarrow> dialect \<Rightarrow> 'v cond list \<Rightarrow> string \<Rightarrow> bool" where
  "filtered uni d cs s \<longleftrightarrow> cs \<noteq> [] \<and>
     (\<exists>a b. sql_tokens uni d 0 s = a @ words '' WHERE '' @ where_tokens d cs (length (holders a)) @ b)"

lemma filterToConds_Nil: "filterToConds f = [] \<longleftrightarrow> f = []"
proof -
  have "length (sort_Strings (mkeys f)) = length f" by (simp add: sort_Strings_def mkeys_def)
  then show ?thesis by (auto simp: filterToConds_def)
qed

lemma tokens_filtered:
  assumes pre: "reads uni d 0 pre m" and c: "buildConds uni d cs m = Inr (clause, args, m')" and "cs \<noteq> []"
    and post: "delimits post" "reads uni d m' post n"
  shows "filtered uni d cs (pre @ '' WHERE '' @ clause @ post)"
proof -
  note b = buildConds_Inr [OF c]
  obtain ts where ts: "pre = render uni d ts" "wf_tokens 1 ts" "length (holders ts) = m"
    using pre by (auto simp: reads_def)
  obtain us where us: "post = render uni d us" "wf_tokens (Suc m') us" using post(2) by (auto simp: reads_def)
  let ?w = "where_tokens d cs m"
  have k: "length (holders ?w) = length args" using b(3,5) by (simp del: upt_Suc)
  have "wf_tokens (Suc m) (?w @ us)"
    using delimits_opens [OF us(2), of uni d] post(1) us b(4) b(3) k by (intro wf_append) simp_all
  moreover have "list_all plain '' WHERE ''" by code_simp
  ultimately have "wf_tokens (Suc m) (words '' WHERE '' @ ?w @ us)" by (simp only: wf_words simp_thms)
  then have "wf_tokens 1 (ts @ words '' WHERE '' @ ?w @ us)" using ts
    by (intro wf_append [of "words '' WHERE '' @ ?w @ us"]) (simp_all del: wf_words)
  from lex_render [OF this, of uni d] have "sql_tokens uni d 0 (pre @ '' WHERE '' @ clause @ post) = ts @ words '' WHERE '' @ ?w @ us"
    unfolding sql_tokens_def ts(1) us(1) b(1) by (simp only: render_append render_words One_nat_def)
  then show ?thesis using assms(3) ts(3) unfolding filtered_def by blast
qed

lemma part_nonempty: "cond_part uni d c k = Inr (part, vs, k') \<Longrightarrow> part \<noteq> []"
  by (auto simp: cond_part_def Let_def split: operator.splits sum.splits option.splits if_splits)

lemma buildConds_nonempty: "buildConds uni d cs k = Inr (clause, args, k') \<Longrightarrow> cs \<noteq> [] \<Longrightarrow> clause \<noteq> []"
proof -
  assume c: "buildConds uni d cs k = Inr (clause, args, k')" and "cs \<noteq> []"
  then obtain e es where cs: "cs = e # es" by (cases cs) auto
  with c obtain p vs j ps where p: "cond_part uni d e k = Inr (p, vs, j)" "conds_loop uni d es [p] vs j = Inr (ps, args, k')"
    "clause = Join ps '' AND ''"
    by (auto simp: buildConds_def and_then_Inr_iff split: sum.splits)
  from conds_loop_Inr [OF p(2)] obtain qs where "ps = p # qs" by auto
  with p part_nonempty [OF p(1)] show "clause \<noteq> []" by (simp add: Join_Cons)
qed

lemma buildWhere_clause:
  assumes "buildWhereConds uni d cs k = Inr (wc, args, k')" and "cs \<noteq> []"
  obtains clause where "wc = ''WHERE '' @ clause" "buildConds uni d cs k = Inr (clause, args, k')"
  using assms buildConds_nonempty [of uni d cs k _ args k'] that
  by (auto simp: buildWhereConds_def and_then_Inr_iff split: if_splits)

text \<open>The shapes in which a predicate ends a write.\<close>

lemma filtered_update:
  assumes ok: "repo_ok uni r" and sets: "buildSetClause uni r data 0 = Inr (setc, setArgs)" and "cs \<noteq> []"
    and w: "buildWhereConds uni (Dialect r) cs (length setArgs) = Inr (wc, args, k)"
    and p: "delimits p" "\<And>k. reads uni (Dialect r) k p 0"
  shows "filtered uni (Dialect r) cs (''UPDATE '' @ quotedTable r @ '' SET '' @ setc @ '' '' @ wc @ p)"
proof -
  obtain clause where c: "wc = ''WHERE '' @ clause" "buildConds uni (Dialect r) cs (length setArgs) = Inr (clause, args, k)"
    using buildWhere_clause [OF w assms(3)] by metis
  from tokens_filtered [OF reads_set [OF ok sets] c(2) assms(3) p] show ?thesis by (simp add: c(1))
qed

lemma filtered_inner:
  assumes ok: "repo_ok uni r" and a: "reads uni (Dialect r) 0 a m" and "cs \<noteq> []"
    and w: "buildWhereConds uni (Dialect r) cs m = Inr (wc, args, k)"
  shows "filtered uni (Dialect r) cs (a @ '' WHERE '' @ quotedID r @ '' IN ('' @
    joinSQL [''SELECT '' @ quotedID r, ''FROM '' @ quotedTable r, wc, ''LIMIT 1''] @ '')'')"
proof -
  obtain clause where c: "wc = ''WHERE '' @ clause" "buildConds uni (Dialect r) cs m = Inr (clause, args, k)"
    using buildWhere_clause [OF w assms(3)] by metis
  have i: "reads uni (Dialect r) m (quotedID r) 0" by (rule reads_name [OF repo_named(2) [OF ok]])
  have t: "reads uni (Dialect r) m (quotedTable r) 0" by (rule reads_name [OF repo_named(1) [OF ok]])
  have "reads uni (Dialect r) (0 + m) ('' WHERE '' @ quotedID r @ '' IN (SELECT '' @ quotedID r @ '' FROM '' @ quotedTable r) 0"
    using i t by (auto intro!: reads_Cons reads_none_then [of _ _ _ "quotedID r"])
  from reads_append [OF a _ this]
  have pre: "reads uni (Dialect r) 0 (a @ '' WHERE '' @ quotedID r @ '' IN (SELECT '' @ quotedID r @ '' FROM '' @ quotedTable r) m"
    by simp
  have post: "reads uni (Dialect r) k '' LIMIT 1)'' 0" by (auto intro!: reads_Cons)
  from tokens_filtered [OF pre c(2) assms(3) _ post] show ?thesis by (simp add: c(1) joinSQL_def Join_Cons)
qed

lemma filtered_delete:
  assumes ok: "repo_ok uni r" and "cs \<noteq> []" and w: "buildWhereConds uni (Dialect r) cs 0 = Inr (wc, args, k)"
    and p: "delimits p" "\<And>k. reads uni (Dialect r) k p 0"
  shows "filtered uni (Dialect r) cs (''DELETE FROM '' @ quotedTable r @ '' '' @ wc @ p)"
proof -
  obtain clause where c: "wc = ''WHERE '' @ clause" "buildConds uni (Dialect r) cs 0 = Inr (clause, args, k)"
    using buildWhere_clause [OF w assms(2)] by metis
  from tokens_filtered [OF delete_statements_read(5) [OF ok] c(2) assms(2) p] show ?thesis by (simp add: c(1))
qed

lemma filtered_step:
  assumes ok: "repo_ok uni r" and q: "stepQuery uni r f column o1 = Inr (s, args)" and o1: "o1 = ''+'' \<or> o1 = ''-''"
  shows "filtered uni (Dialect r) (filterToConds f) s"
proof -
  obtain col wc where f: "f \<noteq> []" and col: "quote uni r column = Inr col" and w: "buildWhere uni r f 1 = Inr (wc, args)"
    and s: "s = joinSQL [''UPDATE '' @ quotedTable r,
       ''SET '' @ col @ '' = '' @ col @ '' '' @ o1 @ '' '' @ placeholder (Dialect r) 1, wc]"
    using q by (auto simp: stepQuery_def and_then_Inr_iff split: if_splits)
  from w obtain k where w': "buildWhereConds uni (Dialect r) (filterToConds f) 1 = Inr (wc, args, k)"
    by (auto simp: buildWhere_def and_then_Inr_iff)
  have cs: "filterToConds f \<noteq> []" using f by (simp add: filterToConds_Nil)
  obtain clause where c: "wc = ''WHERE '' @ clause" "buildConds uni (Dialect r) (filterToConds f) 1 = Inr (clause, args, k)"
    using buildWhere_clause [OF w' cs] by metis
  note n = repo_named(7) [OF ok col] and t = repo_named(1) [OF ok]
  have p: "reads uni (Dialect r) 0 (placeholder (Dialect r) 1) 1" by (rule reads_holder_at) simp_all
  have "reads uni (Dialect r) 0 (''UPDATE '' @ quotedTable r @ '' SET '' @ col @ '' = '' @ col @ '' '' @ o1 @ '' '' @ placeholder (Dialect r) 1) 1"
    using o1 p by (auto intro!: reads_Cons reads_dash reads_name_then [of _ _ col] reads_name_then [of _ _ "quotedTable r"] n t)
  from tokens_filtered [OF this c(2) cs, of "[]" 0] show ?thesis by (simp add: s c(1) joinSQL_def Join_Cons)
qed

lemma buildWhere_conds: "buildWhere uni r f k = Inr (wc, args) \<Longrightarrow>
    \<exists>j. buildWhereConds uni (Dialect r) (filterToConds f) k = Inr (wc, args, j)"
  by (auto simp: buildWhere_def and_then_Inr_iff)

lemma reads_tails:
  "repo_ok uni r \<Longrightarrow> reads uni (Dialect r) k ('' RETURNING '' @ columnsString r) 0"
  "reads uni (Dialect r) k '' LIMIT 1'' 0" "reads uni (Dialect r) k [] 0"
  using repo_named(4) [of uni r k] by (auto intro!: reads_Cons)

lemma where_nonempty: "buildWhereConds uni d cs k = Inr (wc, args, k') \<Longrightarrow> cs \<noteq> [] \<Longrightarrow> wc \<noteq> []"
  by (auto elim!: buildWhere_clause)

text \<open>The parts of a write by filter.\<close>

definition set_where :: "(string \<Rightarrow> string) \<Rightarrow> repo \<Rightarrow> 'v sql_filter \<Rightarrow> 'v cond list \<Rightarrow> string \<Rightarrow> string \<Rightarrow> bool" where
  "set_where uni r data cs setc wc \<longleftrightarrow> cs \<noteq> [] \<and> wc \<noteq> [] \<and> (\<exists>setArgs wargs k. buildSetClause uni r data 0 = Inr (setc, setArgs) \<and>
     buildWhereConds uni (Dialect r) cs (length setArgs) = Inr (wc, wargs, k))"

lemma set_where_nonempty: "set_where uni r data cs setc wc \<Longrightarrow> wc \<noteq> []"
  by (simp add: set_where_def)

lemma set_where_filtered:
  assumes ok: "repo_ok uni r" and "set_where uni r data cs setc wc" and p: "delimits p" "\<And>k. reads uni (Dialect r) k p 0"
  shows "filtered uni (Dialect r) cs (''UPDATE '' @ quotedTable r @ '' SET '' @ setc @ '' '' @ wc @ p)"
  using assms filtered_update [OF ok] unfolding set_where_def by blast

lemma filter_set_where:
  "f \<noteq> [] \<Longrightarrow> buildSetClause uni r data 0 = Inr (setc, setArgs) \<Longrightarrow> buildWhere uni r f (length setArgs) = Inr (wc, wargs) \<Longrightarrow>
   set_where uni r data (filterToConds f) setc wc"
  using buildWhere_conds [of uni r f "length setArgs" wc wargs] where_nonempty [of uni "Dialect r" "filterToConds f"]
  unfolding set_where_def by (metis filterToConds_Nil)

lemma updates_filtered:
  assumes ok: "repo_ok uni r"
  shows "updateReturningQuery uni r f data = Inr (s, args) \<Longrightarrow> filtered uni (Dialect r) (filterToConds f) s"
    and "updateManyQuery uni r f data = Inr (s, args) \<Longrightarrow> filtered uni (Dialect r) (filterToConds f) s"
    and "UpdateByWhere uni r cs data = Inr (s, args) \<Longrightarrow> filtered uni (Dialect r) cs s"
    and "updateOneQuery uni r f data = Inr (s, args) \<Longrightarrow> filtered uni (Dialect r) (filterToConds f) s"
proof -
  note ends = set_where_filtered [OF ok]
  show "filtered uni (Dialect r) (filterToConds f) s" if q: "updateReturningQuery uni r f data = Inr (s, args)"
  proof -
    obtain setc wc where sw: "set_where uni r data (filterToConds f) setc wc"
      and s: "s = joinSQL [''UPDATE '' @ quotedTable r, ''SET '' @ setc, wc, ''RETURNING '' @ columnsString r]"
      using q by (auto simp: updateReturningQuery_def and_then_Inr_iff split: if_splits dest!: filter_set_where)
    show ?thesis using ends [OF sw _ reads_tails(1) [OF ok]] set_where_nonempty [OF sw] by (simp add: s joinSQL_def Join_Cons)
  qed
  show "filtered uni (Dialect r) (filterToConds f) s" if q: "updateManyQuery uni r f data = Inr (s, args)"
  proof -
    obtain setc wc where sw: "set_where uni r data (filterToConds f) setc wc"
      and s: "s = joinSQL [''UPDATE '' @ quotedTable r, ''SET '' @ setc, wc]"
      using q by (auto simp: updateManyQuery_def and_then_Inr_iff split: if_splits dest!: filter_set_where)
    show ?thesis using ends [OF sw _ reads_tails(3)] set_where_nonempty [OF sw] by (simp add: s joinSQL_def Join_Cons)
  qed
  show "filtered uni (Dialect r) cs s" if q: "UpdateByWhere uni r cs data = Inr (s, args)"
  proof -
    obtain setc wc where sw: "set_where uni r data cs setc wc" and s: "s = joinSQL [''UPDATE '' @ quotedTable r, ''SET '' @ setc, wc]"
      using q by (auto simp: UpdateByWhere_def and_then_Inr_iff set_where_def split: if_splits)
    show ?thesis using ends [OF sw _ reads_tails(3)] set_where_nonempty [OF sw] by (simp add: s joinSQL_def Join_Cons)
  qed
  show "filtered uni (Dialect r) (filterToConds f) s" if q: "updateOneQuery uni r f data = Inr (s, args)"
  proof -
    obtain setc setArgs wc wargs where f: "f \<noteq> []" and b: "buildSetClause uni r data 0 = Inr (setc, setArgs)"
        "buildWhere uni r f (length setArgs) = Inr (wc, wargs)"
      using q by (auto simp: updateOneQuery_def and_then_Inr_iff Let_def split: if_splits)
    note sw = filter_set_where [OF f b]
    show ?thesis
    proof (cases "Dialect r = DialectMySQL")
      case True
      then have "s = joinSQL [''UPDATE '' @ quotedTable r, ''SET '' @ setc, wc, ''LIMIT 1'']"
        using q f b by (auto simp: updateOneQuery_def)
      then show ?thesis using ends [OF sw _ reads_tails(2)] set_where_nonempty [OF sw] by (simp add: joinSQL_def Join_Cons)
    next
      case False
      then have s: "s = (''UPDATE '' @ quotedTable r @ '' SET '' @ setc) @ '' WHERE '' @ quotedID r @ '' IN ('' @
          joinSQL [''SELECT '' @ quotedID r, ''FROM '' @ quotedTable r, wc, ''LIMIT 1''] @ '')''"
        using q f b by (auto simp: updateOneQuery_def Let_def)
      obtain k where "buildWhereConds uni (Dialect r) (filterToConds f) (length setArgs) = Inr (wc, wargs, k)"
        using buildWhere_conds [OF b(2)] by auto
      then show ?thesis unfolding s using f by (intro filtered_inner [OF ok reads_set [OF ok b(1)]]) (simp add: filterToConds_Nil)
    qed
  qed
qed

lemma deletes_filtered:
  assumes ok: "repo_ok uni r"
  shows "deleteOneQuery uni r f = Inr (s, args) \<Longrightarrow> filtered uni (Dialect r) (filterToConds f) s"
    and "deleteManyQuery uni r f = Inr (s, args) \<Longrightarrow> filtered uni (Dialect r) (filterToConds f) s"
    and "DeleteByWhere uni r cs = Inr (s, args) \<Longrightarrow> filtered uni (Dialect r) cs s"
proof -
  note ends = filtered_delete [OF ok]
  show "filtered uni (Dialect r) cs s" if q: "DeleteByWhere uni r cs = Inr (s, args)"
    using q ends [OF _ _ _ reads_tails(3)]
    by (fastforce simp: DeleteByWhere_def and_then_Inr_iff joinSQL_def Join_Cons split: if_splits)
  show "filtered uni (Dialect r) (filterToConds f) s" if q: "deleteManyQuery uni r f = Inr (s, args)"
  proof -
    obtain wc k where w: "filterToConds f \<noteq> []" "buildWhereConds uni (Dialect r) (filterToConds f) 0 = Inr (wc, args, k)"
      "s = joinSQL [''DELETE FROM '' @ quotedTable r, wc]"
      using q by (auto simp: deleteManyQuery_def and_then_Inr_iff filterToConds_Nil split: if_splits dest!: buildWhere_conds)
    then show ?thesis using ends [OF w(1,2) _ reads_tails(3)] where_nonempty [OF w(2,1)] by (auto simp: joinSQL_def Join_Cons)
  qed
  show "filtered uni (Dialect r) (filterToConds f) s" if q: "deleteOneQuery uni r f = Inr (s, args)"
  proof -
    obtain wc k where w: "filterToConds f \<noteq> []" "buildWhereConds uni (Dialect r) (filterToConds f) 0 = Inr (wc, args, k)"
      "s = (if Dialect r = DialectMySQL then joinSQL [''DELETE FROM '' @ quotedTable r, wc, ''LIMIT 1'']
            else (''DELETE FROM '' @ quotedTable r) @ '' WHERE '' @ quotedID r @ '' IN ('' @
              joinSQL [''SELECT '' @ quotedID r, ''FROM '' @ quotedTable r, wc, ''LIMIT 1''] @ '')'')"
      using q by (auto simp: deleteOneQuery_def and_then_Inr_iff Let_def filterToConds_Nil split: if_splits dest!: buildWhere_conds)
    show ?thesis
    proof (cases "Dialect r = DialectMySQL")
      case True
      then show ?thesis
        using w(3) ends [OF w(1,2) _ reads_tails(2)] where_nonempty [OF w(2,1)] by (auto simp: joinSQL_def Join_Cons)
    next
      case False
      then show ?thesis using w(3) filtered_inner [OF ok delete_statements_read(5) [OF ok] w(1,2)] by simp
    qed
  qed
qed

text \<open>C20. A write that takes a filter or conditions never runs unfiltered: with none it is refused,
  and otherwise the database reads, outside of any name, the keyword WHERE followed by the predicate of all
  the conditions given, with its placeholders continuing the numbering.\<close>

theorem writes_filtered:
  assumes "NewBaseRepositoryWithDialect uni t d0 tableName idColumn auto = Inr r" and "write_conds req = Some cs"
  shows "case statement uni num r req of Inl e \<Rightarrow> True | Inr (s, args) \<Rightarrow> filtered uni (Dialect r) cs s"
proof -
  note ok = new_repo_ok [OF assms(1)]
  have "filtered uni (Dialect r) cs s" if q: "statement uni num r req = Inr (s, args)" for s args
    using assms(2) q updates_filtered [OF ok] deletes_filtered [OF ok]
      filtered_step [OF ok _ disjI1 [OF refl]] filtered_step [OF ok _ disjI2 [OF refl]]
    by (cases req) (auto simp: statement_def Increment_def Decrement_def and_then_Inr_iff split: if_splits)
  then show ?thesis by (auto split: sum.splits)
qed

section \<open>An instance\<close>

definition demo_type :: model_type where
  "demo_type = MStruct [\<lparr>sf_Exported = True, sf_Tag = ''id''\<rparr>, \<lparr>sf_Exported = False, sf_Tag = ''name''\<rparr>,
     \<lparr>sf_Exported = True, sf_Tag = ''name,omitempty''\<rparr>, \<lparr>sf_Exported = True, sf_Tag = ''-''\<rparr>, \<lparr>sf_Exported = True, sf_Tag = ''age''\<rparr>]"

definition demo_repo :: repo where
  "demo_repo = \<lparr>TableName = ''users'', IDColumn = ''id'', Dialect = DialectMySQL, columns = [''id'', ''name'', ''age''],
     dbTagMap = [(''id'', 0), (''name'', 2), (''age'', 4)], fieldIdx = [0, 2, 4], insertCols = [''name'', ''age''],
     insertIdx = [2, 4], autoID = True, quotedTable = ''`users`'', quotedID = ''`id`'',
     quotedColumns = ''`id`, `name`, `age`'', quotedInsert = [''`name`'', ''`age`''],
     quotedByColumn = [(''id'', ''`id`''), (''name'', ''`name`''), (''age'', ''`age`'')]\<rparr>"

lemma demo_names: "valid ''users''" "valid ''id''" "valid ''name''" "valid ''age''"
  by code_simp+

lemma demo_quoted: "QuoteQualified uni DialectMySQL ''users'' = ''`users`''" "QuoteQualified uni DialectMySQL ''id'' = ''`id`''"
  "QuoteQualified uni DialectMySQL ''name'' = ''`name`''" "QuoteQualified uni DialectMySQL ''age'' = ''`age`''"
  by (simp_all add: QuoteQualified_def QuoteIdentifier_def quoteChar_def Let_def)

lemma demo_new: "NewBaseRepositoryWithDialect uni demo_type DialectMySQL ''users'' '''' True = Inr demo_repo"
proof -
  have q: "mustQuote uni DialectMySQL ''users'' = Inr ''`users`''" "mustQuote uni DialectMySQL ''id'' = Inr ''`id`''"
    "mustQuote uni DialectMySQL ''name'' = Inr ''`name`''" "mustQuote uni DialectMySQL ''age'' = Inr ''`age`''"
    by (simp_all add: mustQuote_Inr demo_names demo_quoted)
  show ?thesis
    by (simp add: NewBaseRepositoryWithDialect_def demo_type_def Let_def q add_column_def mput_def mget_def mindex_def demo_repo_def)
qed

lemma demo_where: "buildWhereConds uni DialectMySQL (filterToConds [(''name'', SScalar (7 :: nat)), (''age'', SNil)]) k =
    Inr (''WHERE `age` IS NULL AND `name` = ?'', [SScalar 7], Suc k)"
proof -
  have "filterToConds [(''name'', SScalar (7 :: nat)), (''age'', SNil)] =
      [\<lparr>cd_Column = ''age'', cd_Op = OpIsNull, cd_Value = SNil\<rparr>, \<lparr>cd_Column = ''name'', cd_Op = OpEq, cd_Value = SScalar 7\<rparr>]"
    by code_simp
  then show ?thesis
    by (simp add: buildWhereConds_def buildConds_def cond_part_def QuoteValidated_def demo_names demo_quoted
        placeholder_def op_String_def)
qed

lemma demo_set: "buildSetClause uni demo_repo [(''age'', SScalar (9 :: nat))] 0 = Inr (''`age` = ?'', [SScalar 9])"
proof -
  have "sort_Strings [''age''] = [''age'']" "filter_value [(''age'', SScalar (9 :: nat))] ''age'' = SScalar 9" by code_simp+
  moreover have "quote uni demo_repo ''age'' = Inr ''`age`''" by (simp add: quote_def demo_repo_def mget_def)
  moreover have "Dialect demo_repo = DialectMySQL" by (simp add: demo_repo_def)
  ultimately show ?thesis by (simp add: buildSetClause_def mkeys_def placeholder_def)
qed

abbreviation demo_request :: "nat request" where
  "demo_request \<equiv> Q_update_one [(''name'', SScalar 7), (''age'', SNil)] [(''age'', SScalar 9)]"

lemma demo_statement: "statement uni num demo_repo demo_request =
    Inr (''UPDATE `users` SET `age` = ? WHERE `age` IS NULL AND `name` = ? LIMIT 1'', [SScalar 9, SScalar 7])"
proof -
  have d: "Dialect demo_repo = DialectMySQL" "quotedTable demo_repo = ''`users`''" by (simp_all add: demo_repo_def)
  show ?thesis
    by (simp add: statement_def updateOneQuery_def demo_set buildWhere_def demo_where d concatArgs_def joinSQL_def)
qed


theorem writes_filtered_witness:
  "filtered (\<lambda>s. s) DialectMySQL (filterToConds [(''name'', SScalar (7 :: nat)), (''age'', SNil)])
     ''UPDATE `users` SET `age` = ? WHERE `age` IS NULL AND `name` = ? LIMIT 1''"
proof -
  have w: "write_conds demo_request = Some (filterToConds [(''name'', SScalar 7), (''age'', SNil)])" by simp
  show ?thesis
    using writes_filtered [OF demo_new [of "\<lambda>s. s"] w, of "\<lambda>i. SScalar (nat i)"] demo_statement [of "\<lambda>s. s" "\<lambda>i. SScalar (nat i)"]
    by (simp add: demo_repo_def)
qed

end
