(* ===== verification/Sql_Exec.thy ===== *)
theory Sql_Exec
  imports Sql_Safe
begin

text \<open>
  The operations of a repository that do more than send one statement (\<^verbatim>\<open>create.go\<close>, \<^verbatim>\<open>update.go\<close>,
  \<^verbatim>\<open>pages.go\<close>, \<^verbatim>\<open>transaction.go\<close>): inserting in batches, pages by offset and by key, updating a row and
  reading it back, and transactions. The driver is a parameter: a state and what its calls answer.
\<close>

section \<open>The driver\<close>

record exec_result =
  LastInsertId :: "int option"
  RowsAffected :: "int option"

text \<open>Rows as they are read: each scan may fail, and so may the iteration as a whole.\<close>

record 'v rows =
  rw_Rows :: "(string, 'v sqlval list) result list"
  rw_Err :: "string option"

datatype 'v row_answer = RowValues "'v sqlval list" | ErrNoRows | RowError string

record ('s, 'v) sqldb =
  db_Exec :: "string \<Rightarrow> 'v sqlval list \<Rightarrow> 's \<Rightarrow> (string, exec_result) result \<times> 's"
  db_Query :: "string \<Rightarrow> 'v sqlval list \<Rightarrow> 's \<Rightarrow> (string, 'v rows) result \<times> 's"
  db_QueryRow :: "string \<Rightarrow> 'v sqlval list \<Rightarrow> 's \<Rightarrow> 'v row_answer \<times> 's"
  db_Count :: "string \<Rightarrow> 'v sqlval list \<Rightarrow> 's \<Rightarrow> (string, int) result \<times> 's"
  db_Begin :: "'s \<Rightarrow> string option \<times> 's"
  db_Commit :: "'s \<Rightarrow> string option \<times> 's"
  db_Rollback :: "'s \<Rightarrow> string option \<times> 's"

datatype op_error =
    BadStatement sql_error
  | DriverError string
  | ScanError string
  | IterationError string
  | NotFoundError
  | DataIsNil
  | TxIsNil
  | NoColumns

section \<open>Rows and models\<close>

text \<open>A model value is the list of its fields; scanning overwrites the tagged ones of a zero value.\<close>

definition scan_into :: "'v sqlval list \<Rightarrow> nat list \<Rightarrow> 'v sqlval list \<Rightarrow> 'v sqlval list" where
  "scan_into zero idx vals = fold (\<lambda>(i, v) row. row[i := v]) (zip idx vals) zero"

definition scanRow :: "repo \<Rightarrow> 'v sqlval list \<Rightarrow> 'v row_answer \<Rightarrow> (op_error, 'v sqlval list option) result" where
  "scanRow r zero a =
     (case a of
        RowValues vals \<Rightarrow> Inr (Some (scan_into zero (fieldIdx r) vals))
      | ErrNoRows \<Rightarrow> Inr None
      | RowError e \<Rightarrow> Inl (DriverError e))"

definition scanRowRequired :: "repo \<Rightarrow> 'v sqlval list \<Rightarrow> 'v row_answer \<Rightarrow> (op_error, 'v sqlval list option) result" where
  "scanRowRequired r zero a =
     (case a of
        RowValues vals \<Rightarrow> Inr (Some (scan_into zero (fieldIdx r) vals))
      | ErrNoRows \<Rightarrow> Inl NotFoundError
      | RowError e \<Rightarrow> Inl (DriverError e))"

fun scan_loop :: "repo \<Rightarrow> 'v sqlval list \<Rightarrow> (string, 'v sqlval list) result list \<Rightarrow> (op_error, 'v sqlval list list) result" where
  "scan_loop r zero [] = Inr []"
| "scan_loop r zero (Inl e # rs) = Inl (ScanError e)"
| "scan_loop r zero (Inr vals # rs) =
     and_then (scan_loop r zero rs) (\<lambda>items. Inr (scan_into zero (fieldIdx r) vals # items))"

definition scanRows :: "repo \<Rightarrow> 'v sqlval list \<Rightarrow> 'v rows \<Rightarrow> (op_error, 'v sqlval list list) result" where
  "scanRows r zero rows =
     and_then (scan_loop r zero (rw_Rows rows)) (\<lambda>items.
       case rw_Err rows of Some e \<Rightarrow> Inl (IterationError e) | None \<Rightarrow> Inr items)"

text \<open>\<open>conv\<close> converts a generated number to the type of the field, when it can; \<open>is_id\<close> tells whether a
  field holds a value of the ID type.\<close>

definition setGeneratedID :: "(int \<Rightarrow> 'v sqlval \<Rightarrow> 'v sqlval option) \<Rightarrow> repo \<Rightarrow> 'v sqlval list \<Rightarrow> int \<Rightarrow> 'v sqlval list" where
  "setGeneratedID conv r data i =
     (if \<not> autoID r then data
      else (case mget (dbTagMap r) (IDColumn r) of
          None \<Rightarrow> data
        | Some idx \<Rightarrow> (case conv i (data ! idx) of None \<Rightarrow> data | Some v \<Rightarrow> data[idx := v])))"

definition modelID :: "('v sqlval \<Rightarrow> bool) \<Rightarrow> repo \<Rightarrow> 'v sqlval list \<Rightarrow> 'v sqlval option" where
  "modelID is_id r data =
     (case mget (dbTagMap r) (IDColumn r) of
        None \<Rightarrow> None
      | Some idx \<Rightarrow> if is_id (data ! idx) then Some (data ! idx) else None)"

section \<open>Insertion\<close>

definition after_insert :: "(int \<Rightarrow> 'v sqlval \<Rightarrow> 'v sqlval option) \<Rightarrow> repo \<Rightarrow> 'v sqlval list \<Rightarrow> (string, exec_result) result \<Rightarrow>
    (op_error, 'v sqlval list option) result" where
  "after_insert conv r data answer =
     (case answer of
        Inl e \<Rightarrow> Inl (DriverError e)
      | Inr res \<Rightarrow>
          (case LastInsertId res of
             Some i \<Rightarrow> Inr (Some (setGeneratedID conv r data i))
           | None \<Rightarrow> Inr (Some data)))"

definition Create :: "('s, 'v) sqldb \<Rightarrow> (int \<Rightarrow> 'v sqlval \<Rightarrow> 'v sqlval option) \<Rightarrow> repo \<Rightarrow> 'v sqlval list \<Rightarrow> 'v sqlval list option \<Rightarrow> 's \<Rightarrow>
    (op_error, 'v sqlval list option) result \<times> 's" where
  "Create db conv r zero data s =
     (case data of
        None \<Rightarrow> (Inl DataIsNil, s)
      | Some row \<Rightarrow>
          if length (insertCols r) = 0 then (Inl NoColumns, s)
          else
            let values = getValues row (insertIdx r); query = insertQuery r
            in if supportsReturning (Dialect r) then
                 let (a, s') = db_QueryRow db (query @ '' RETURNING '' @ columnsString r) values s
                 in (scanRowRequired r zero a, s')
               else let (a, s') = db_Exec db query values s in (after_insert conv r row a, s'))"

definition Upsert :: "(string \<Rightarrow> string) \<Rightarrow> ('s, 'v) sqldb \<Rightarrow> (int \<Rightarrow> 'v sqlval \<Rightarrow> 'v sqlval option) \<Rightarrow> repo \<Rightarrow> 'v sqlval list \<Rightarrow>
    'v sqlval list option \<Rightarrow> string list \<Rightarrow> 's \<Rightarrow> (op_error, 'v sqlval list option) result \<times> 's" where
  "Upsert uni db conv r zero data conflictColumns s =
     (case data of
        None \<Rightarrow> (Inl DataIsNil, s)
      | Some row \<Rightarrow>
          (case upsertQuery uni r conflictColumns of
             Inl e \<Rightarrow> (Inl (BadStatement e), s)
           | Inr (query, alwaysReturnsRow) \<Rightarrow>
               let values = getValues row (insertIdx r)
               in if supportsReturning (Dialect r) then
                    let (a, s') = db_QueryRow db (query @ '' RETURNING '' @ columnsString r) values s
                    in (if alwaysReturnsRow then scanRowRequired r zero a else scanRow r zero a, s')
                  else let (a, s') = db_Exec db query values s in (after_insert conv r row a, s')))"

definition insertBatchLimit :: nat where "insertBatchLimit = 500"

text \<open>The batches from \<open>data\<close> on; the number of affected rows is a 64-bit sum.\<close>

function insert_batches :: "('s, 'v) sqldb \<Rightarrow> repo \<Rightarrow> 'v sqlval list list \<Rightarrow> int \<Rightarrow> 's \<Rightarrow> (int \<times> op_error option) \<times> 's" where
  "insert_batches db r data totalAffected s =
     (if data = [] then ((totalAffected, None), s)
      else
        let chunk = take insertBatchLimit data;
            args = concat (map (\<lambda>row. getValues row (insertIdx r)) chunk);
            (a, s') = db_Exec db (insertManyQuery r (length chunk)) args s
        in (case a of
              Inl e \<Rightarrow> ((totalAffected, Some (DriverError e)), s')
            | Inr res \<Rightarrow>
                insert_batches db r (drop insertBatchLimit data)
                  (case RowsAffected res of Some n \<Rightarrow> wrap64 (totalAffected + n) | None \<Rightarrow> totalAffected) s'))"
  by pat_completeness auto
termination
  by (relation "measure (\<lambda>(db, r, data, n, s). length data)") (auto simp: insertBatchLimit_def)

declare insert_batches.simps [simp del]

definition InsertMany :: "('s, 'v) sqldb \<Rightarrow> repo \<Rightarrow> 'v sqlval list list \<Rightarrow> 's \<Rightarrow> (int \<times> op_error option) \<times> 's" where
  "InsertMany db r data s =
     (if length data = 0 then ((0, None), s)
      else if length (insertCols r) = 0 then ((0, Some NoColumns), s)
      else insert_batches db r data 0 s)"

section \<open>Transactions\<close>

datatype tx_error = DbIsNil | FnIsNil | BeginFailed string | RollbackFailed string op_error | FnFailed op_error | CommitFailed string

text \<open>What the function that runs inside does, and what its caller sees.\<close>

datatype 'a fn_outcome = FnReturns 'a "op_error option" | FnPanics

datatype 'a tx_outcome = TxReturns 'a "tx_error option" | TxPanics

text \<open>\<^verbatim>\<open>*sql.DB\<close> and the function may be nil; \<open>zero\<close> is the zero result.\<close>

definition WithTransactionResultOpts :: "('s, 'v) sqldb option \<Rightarrow> 'a \<Rightarrow> ('s \<Rightarrow> 'a fn_outcome \<times> 's) option \<Rightarrow> 's \<Rightarrow> 'a tx_outcome \<times> 's" where
  "WithTransactionResultOpts db zero fn s =
     (case db of
        None \<Rightarrow> (TxReturns zero (Some DbIsNil), s)
      | Some d \<Rightarrow>
          (case fn of
             None \<Rightarrow> (TxReturns zero (Some FnIsNil), s)
           | Some f \<Rightarrow>
               (case db_Begin d s of
                  (Some e, s1) \<Rightarrow> (TxReturns zero (Some (BeginFailed e)), s1)
                | (None, s1) \<Rightarrow>
                    (case f s1 of
                       (FnPanics, s2) \<Rightarrow> (TxPanics, snd (db_Rollback d s2))
                     | (FnReturns x (Some e), s2) \<Rightarrow>
                         (case db_Rollback d s2 of
                            (Some e', s3) \<Rightarrow> (TxReturns x (Some (RollbackFailed e' e)), s3)
                          | (None, s3) \<Rightarrow> (TxReturns x (Some (FnFailed e)), s3))
                     | (FnReturns x None, s2) \<Rightarrow>
                         (case db_Commit d s2 of
                            (Some e, s3) \<Rightarrow> (TxReturns x (Some (CommitFailed e)), s3)
                          | (None, s3) \<Rightarrow> (TxReturns x None, s3))))))"

text \<open>\<^verbatim>\<open>WithTransactionOpts\<close> is the same code for a function without a result.\<close>

definition WithTransactionOpts :: "('s, 'v) sqldb option \<Rightarrow> ('s \<Rightarrow> unit fn_outcome \<times> 's) option \<Rightarrow> 's \<Rightarrow> unit tx_outcome \<times> 's" where
  "WithTransactionOpts db fn s = WithTransactionResultOpts db () fn s"

section \<open>Updating a row and reading it back\<close>

definition lift_result :: "(op_error, 'a option) result \<Rightarrow> 'a option fn_outcome" where
  "lift_result a = (case a of Inl e \<Rightarrow> FnReturns None (Some e) | Inr x \<Rightarrow> FnReturns x None)"

definition update_pinned :: "(string \<Rightarrow> string) \<Rightarrow> ('v sqlval \<Rightarrow> bool) \<Rightarrow> ('s, 'v) sqldb \<Rightarrow> repo \<Rightarrow> 'v sqlval list \<Rightarrow> 'v sql_filter \<Rightarrow>
    'v sql_filter \<Rightarrow> string \<Rightarrow> 'v sqlval list \<Rightarrow> 'v sqlval list \<Rightarrow> 's \<Rightarrow> 'v sqlval list option fn_outcome \<times> 's" where
  "update_pinned uni is_id db r zero f data selectQuery selectArgs existing s =
     (case buildSetClause uni r data 0 of
        Inl e \<Rightarrow> (FnReturns None (Some (BadStatement e)), s)
      | Inr (setClause, setArgs) \<Rightarrow>
          let upd = (case modelID is_id r existing of
                Some i \<Rightarrow>
                  Inr (''UPDATE '' @ quotedTable r @ '' SET '' @ setClause @ '' WHERE '' @ quotedID r @ '' = '' @
                         placeholder (Dialect r) (length setArgs + 1), concatArgs setArgs [i])
              | None \<Rightarrow>
                  and_then (buildWhere uni r f (length setArgs)) (\<lambda>(whereClause, whereArgs).
                    Inr (joinSQL [''UPDATE '' @ quotedTable r, ''SET '' @ setClause, whereClause], concatArgs setArgs whereArgs)))
          in (case upd of
                Inl e \<Rightarrow> (FnReturns None (Some (BadStatement e)), s)
              | Inr (updateQuery, updateArgs) \<Rightarrow>
                  (case db_Exec db updateQuery updateArgs s of
                     (Inl e, s1) \<Rightarrow> (FnReturns None (Some (DriverError e)), s1)
                   | (Inr res, s1) \<Rightarrow>
                       (case modelID is_id r existing of
                          Some i \<Rightarrow>
                            let (a, s2) = db_QueryRow db (''SELECT '' @ columnsString r @ '' FROM '' @ quotedTable r @ '' WHERE '' @
                                  quotedID r @ '' = '' @ placeholder (Dialect r) 1 @ '' LIMIT 1'') [i] s1
                            in (lift_result (scanRow r zero a), s2)
                        | None \<Rightarrow>
                            let (a, s2) = db_QueryRow db selectQuery selectArgs s1
                            in (lift_result (scanRow r zero a), s2)))))"

definition update_in_tx :: "(string \<Rightarrow> string) \<Rightarrow> ('v sqlval \<Rightarrow> bool) \<Rightarrow> ('s, 'v) sqldb \<Rightarrow> repo \<Rightarrow> 'v sqlval list \<Rightarrow> 'v sql_filter \<Rightarrow>
    'v sql_filter \<Rightarrow> 's \<Rightarrow> 'v sqlval list option fn_outcome \<times> 's" where
  "update_in_tx uni is_id db r zero f data s =
     (case buildWhere uni r f 0 of
        Inl e \<Rightarrow> (FnReturns None (Some (BadStatement e)), s)
      | Inr (selectWhere, selectArgs) \<Rightarrow>
          let selectQuery = joinSQL [''SELECT '' @ columnsString r, ''FROM '' @ quotedTable r, selectWhere, ''LIMIT 1''];
              (a, s1) = db_QueryRow db selectQuery selectArgs s
          in (case scanRow r zero a of
                Inl e \<Rightarrow> (FnReturns None (Some e), s1)
              | Inr None \<Rightarrow> (FnReturns None None, s1)
              | Inr (Some existing) \<Rightarrow> update_pinned uni is_id db r zero f data selectQuery selectArgs existing s1))"

definition UpdateAndFindOne :: "(string \<Rightarrow> string) \<Rightarrow> ('v sqlval \<Rightarrow> bool) \<Rightarrow> ('s, 'v) sqldb \<Rightarrow> repo \<Rightarrow> 'v sqlval list \<Rightarrow> 'v sql_filter \<Rightarrow>
    'v sql_filter \<Rightarrow> 's \<Rightarrow> 'v sqlval list option tx_outcome \<times> 's" where
  "UpdateAndFindOne uni is_id db r zero f data s =
     (if length f = 0 then (TxReturns None (Some (FnFailed (BadStatement ErrEmptyFilter))), s)
      else if supportsReturning (Dialect r) then
        (case updateReturningQuery uni r f data of
           Inl e \<Rightarrow> (TxReturns None (Some (FnFailed (BadStatement e))), s)
         | Inr (query, args) \<Rightarrow>
             let (a, s') = db_QueryRow db query args s
             in (case scanRow r zero a of
                   Inl e \<Rightarrow> (TxReturns None (Some (FnFailed e)), s')
                 | Inr x \<Rightarrow> (TxReturns x None, s')))
      else WithTransactionResultOpts (Some db) None (Some (update_in_tx uni is_id db r zero f data)) s)"

section \<open>Pages\<close>

definition maxPerPage :: int where "maxPerPage = 500"
definition defaultPerPage :: int where "defaultPerPage = 15"

definition normalizePageArgs :: "int \<Rightarrow> int \<Rightarrow> int \<times> int" where
  "normalizePageArgs page perPage =
     (let page' = (if page < 1 then 1 else page);
          pp1 = (if perPage \<le> 0 then defaultPerPage else perPage);
          pp2 = (if pp1 > maxPerPage then maxPerPage else pp1)
      in (page', pp2))"

record 'v page_result =
  pr_Data :: "'v sqlval list list"
  pr_Total :: int
  pr_Page :: int
  pr_PerPage :: int
  pr_TotalPages :: int

text \<open>The number of pages is computed in floating point by the code: \<open>ceil_div\<close>.\<close>

definition run_page :: "(int \<Rightarrow> int \<Rightarrow> int) \<Rightarrow> (int \<Rightarrow> 'v sqlval) \<Rightarrow> ('s, 'v) sqldb \<Rightarrow> repo \<Rightarrow> 'v sqlval list \<Rightarrow> string \<Rightarrow> string \<Rightarrow>
    'v sqlval list \<Rightarrow> int \<Rightarrow> int \<Rightarrow> int \<Rightarrow> 's \<Rightarrow> (op_error, 'v page_result) result \<times> 's" where
  "run_page ceil_div num db r zero cq pq whereArgs page perPage offset s =
     (case db_Count db cq whereArgs s of
        (Inl e, s1) \<Rightarrow> (Inl (DriverError e), s1)
      | (Inr n, s1) \<Rightarrow>
          if n = 0 then
            (Inr \<lparr>pr_Data = [], pr_Total = 0, pr_Page = page, pr_PerPage = perPage, pr_TotalPages = 0\<rparr>, s1)
          else
            (case db_Query db pq (concatArgs whereArgs [num perPage, num offset]) s1 of
               (Inl e, s2) \<Rightarrow> (Inl (DriverError e), s2)
             | (Inr rows, s2) \<Rightarrow>
                 (and_then (scanRows r zero rows) (\<lambda>data.
                    Inr \<lparr>pr_Data = data, pr_Total = n, pr_Page = page, pr_PerPage = perPage,
                         pr_TotalPages = ceil_div n perPage\<rparr>), s2)))"

definition pages :: "(string \<Rightarrow> string) \<Rightarrow> (int \<Rightarrow> int \<Rightarrow> int) \<Rightarrow> (int \<Rightarrow> 'v sqlval) \<Rightarrow> ('s, 'v) sqldb \<Rightarrow> repo \<Rightarrow> 'v sqlval list \<Rightarrow>
    'v sql_filter \<Rightarrow> int \<Rightarrow> int \<Rightarrow> order_by list \<Rightarrow> 's \<Rightarrow> (op_error, 'v page_result) result \<times> 's" where
  "pages uni ceil_div num db r zero f page0 perPage0 orderBy s =
     (let (page, perPage) = normalizePageArgs page0 perPage0;
          offset = wrap64 ((page - 1) * perPage)
      in (case pagesQuery uni r f orderBy of
            Inl e \<Rightarrow> (Inl (BadStatement e), s)
          | Inr (cq, pq, whereArgs) \<Rightarrow> run_page ceil_div num db r zero cq pq whereArgs page perPage offset s))"

definition PagesByWhere :: "(string \<Rightarrow> string) \<Rightarrow> (int \<Rightarrow> int \<Rightarrow> int) \<Rightarrow> (int \<Rightarrow> 'v sqlval) \<Rightarrow> ('s, 'v) sqldb \<Rightarrow> repo \<Rightarrow> 'v sqlval list \<Rightarrow>
    'v cond list \<Rightarrow> int \<Rightarrow> int \<Rightarrow> order_by list \<Rightarrow> 's \<Rightarrow> (op_error, 'v page_result) result \<times> 's" where
  "PagesByWhere uni ceil_div num db r zero conds page0 perPage0 orderBy s =
     (let (page, perPage) = normalizePageArgs page0 perPage0;
          offset = wrap64 ((page - 1) * perPage)
      in (case buildWhereConds uni (Dialect r) conds 0 of
            Inl e \<Rightarrow> (Inl (BadStatement e), s)
          | Inr (whereClause, whereArgs, nextIdx) \<Rightarrow>
              (case pageQuery uni r whereClause nextIdx orderBy of
                 Inl e \<Rightarrow> (Inl (BadStatement e), s)
               | Inr pq \<Rightarrow>
                   run_page ceil_div num db r zero (joinSQL [''SELECT COUNT(*) FROM '' @ quotedTable r, whereClause]) pq
                     whereArgs page perPage offset s)))"

record 'v keyset_result =
  kr_Data :: "'v sqlval list list"
  kr_NextCursor :: "'v sqlval option"
  kr_HasMore :: bool

definition keyset_limit :: "int \<Rightarrow> int" where
  "keyset_limit limit =
     (let l1 = (if limit \<le> 0 then defaultPerPage else limit) in if l1 > maxPerPage then maxPerPage else l1)"

definition KeysetPage :: "(string \<Rightarrow> string) \<Rightarrow> (int \<Rightarrow> 'v sqlval) \<Rightarrow> ('v sqlval \<Rightarrow> bool) \<Rightarrow> ('s, 'v) sqldb \<Rightarrow> repo \<Rightarrow> 'v sqlval list \<Rightarrow>
    'v sql_filter \<Rightarrow> 'v sqlval option \<Rightarrow> int \<Rightarrow> bool \<Rightarrow> 's \<Rightarrow> (op_error, 'v keyset_result) result \<times> 's" where
  "KeysetPage uni num is_id db r zero f after limit0 desc s =
     (let limit = keyset_limit limit0
      in (case keysetQuery uni num r f after limit desc of
            Inl e \<Rightarrow> (Inl (BadStatement e), s)
          | Inr (query, args) \<Rightarrow>
              (case db_Query db query args s of
                 (Inl e, s') \<Rightarrow> (Inl (DriverError e), s')
               | (Inr rows, s') \<Rightarrow>
                   (and_then (scanRows r zero rows) (\<lambda>all_rows.
                      let more = (int (length all_rows) > limit);
                          data = (if more then take (nat limit) all_rows else all_rows);
                          cursor = (if length data > 0 \<and> more then modelID is_id r (last data) else None)
                      in Inr \<lparr>kr_Data = data, kr_NextCursor = cursor, kr_HasMore = more\<rparr>), s'))))"

section \<open>Batches\<close>

text \<open>The rows in runs of the batch limit, and a driver that records the statements it is given and
  answers the \<open>i\<close>-th one as it likes.\<close>

function chunks :: "'a list \<Rightarrow> 'a list list" where
  "chunks xs = (if xs = [] then [] else take insertBatchLimit xs # chunks (drop insertBatchLimit xs))"
  by pat_completeness auto
termination by (relation "measure length") (auto simp: insertBatchLimit_def)

declare chunks.simps [simp del]

definition batch_stmt :: "repo \<Rightarrow> 'v sqlval list list \<Rightarrow> 'v stmt" where
  "batch_stmt r chunk = (insertManyQuery r (length chunk), concat (map (\<lambda>row. getValues row (insertIdx r)) chunk))"

definition recorder :: "(nat \<Rightarrow> (string, exec_result) result) \<Rightarrow> ('v stmt list, 'v) sqldb \<Rightarrow> ('v stmt list, 'v) sqldb" where
  "recorder answer db = db\<lparr>db_Exec := (\<lambda>q args log. (answer (length log), log @ [(q, args)]))\<rparr>"

lemma concat_chunks: "concat (chunks xs) = xs"
proof (induction xs rule: chunks.induct)
  case (1 xs)
  then show ?case by (subst chunks.simps) (cases "xs = []"; simp)
qed

lemma chunks_bounded: "list_all (\<lambda>c. c \<noteq> [] \<and> length c \<le> insertBatchLimit) (chunks xs)"
proof (induction xs rule: chunks.induct)
  case (1 xs)
  then show ?case by (subst chunks.simps) (cases "xs = []"; simp add: insertBatchLimit_def)
qed

lemma insert_batches_log:
  "insert_batches (recorder answer db) r data n log = ((m, err), log') \<Longrightarrow>
     \<exists>k. log' = log @ take k (map (batch_stmt r) (chunks data)) \<and>
       (err = None \<longrightarrow> k = length (chunks data)) \<and>
       (err \<noteq> None \<longrightarrow> 0 < k \<and> k \<le> length (chunks data) \<and> (\<exists>e. answer (length log + k - 1) = Inl e))"
proof (induction "recorder answer db" r data n log arbitrary: m err log' rule: insert_batches.induct)
  case (1 r data n log)
  show ?case
  proof (cases "data = []")
    case True
    then show ?thesis using 1(2) by (auto simp: insert_batches.simps [of _ _ "[]"] chunks.simps [of "[]"])
  next
    case False
    let ?rest = "drop insertBatchLimit data"
    let ?stmt = "batch_stmt r (take insertBatchLimit data)"
    have c: "chunks data = take insertBatchLimit data # chunks ?rest" using False by (subst chunks.simps) simp
    have e: "db_Exec (recorder answer db) (fst ?stmt) (snd ?stmt) log = (answer (length log), log @ [?stmt])"
      by (simp add: recorder_def)
    show ?thesis
    proof (cases "answer (length log)")
      case (Inl f)
      then have "log' = log @ [?stmt]" "err \<noteq> None"
        using 1(2) False e by (auto simp: insert_batches.simps [of _ _ data] Let_def batch_stmt_def)
      then show ?thesis using Inl c by (intro exI [of _ 1]) auto
    next
      case (Inr res)
      define n' where "n' = (case RowsAffected res of Some k \<Rightarrow> wrap64 (n + k) | None \<Rightarrow> n)"
      have rest: "insert_batches (recorder answer db) r ?rest n' (log @ [?stmt]) = ((m, err), log')"
        using 1(2) False e Inr by (simp add: insert_batches.simps [of _ _ data] Let_def batch_stmt_def n'_def)
      have "\<exists>k. log' = (log @ [?stmt]) @ take k (map (batch_stmt r) (chunks ?rest)) \<and>
          (err = None \<longrightarrow> k = length (chunks ?rest)) \<and>
          (err \<noteq> None \<longrightarrow> 0 < k \<and> k \<le> length (chunks ?rest) \<and> (\<exists>f. answer (length (log @ [?stmt]) + k - 1) = Inl f))"
        by (rule 1(1) [OF False refl refl _ refl _ rest [unfolded n'_def]]) (use e Inr in \<open>simp_all add: batch_stmt_def\<close>)
      then obtain k where "log' = (log @ [?stmt]) @ take k (map (batch_stmt r) (chunks ?rest)) \<and>
          (err = None \<longrightarrow> k = length (chunks ?rest)) \<and>
          (err \<noteq> None \<longrightarrow> 0 < k \<and> k \<le> length (chunks ?rest) \<and> (\<exists>f. answer (length (log @ [?stmt]) + k - 1) = Inl f))" ..
      then show ?thesis using c by (intro exI [of _ "Suc k"]) auto
    qed
  qed
qed

lemma batch_parameters:
  "repo_ok uni r \<Longrightarrow> length (snd (batch_stmt r chunk)) = length chunk * length (insertCols r)"
  using repo_named(6) [of uni r] by (induction chunk) (auto simp: batch_stmt_def getValues_def)

text \<open>\<^term>\<open>InsertMany\<close> hands the rows to the driver in order, in batches of at most 500 rows, one statement
  each with a placeholder for every value: all of them when it reports no error, and otherwise the
  batches up to the one the driver refused, which is the last.\<close>

theorem insert_many_in_order:
  assumes "NewBaseRepositoryWithDialect uni t d0 tableName idColumn auto = Inr r" and "insertCols r \<noteq> []"
    and "InsertMany (recorder answer db) r data [] = ((n, err), log)"
  shows "concat (chunks data) = data \<and>
    list_all (\<lambda>c. length c \<le> insertBatchLimit \<and> clean_sql uni (Dialect r) (fst (batch_stmt r c)) (length (snd (batch_stmt r c)))) (chunks data) \<and>
    (if err = None then log = map (batch_stmt r) (chunks data)
     else \<exists>k. k < length (chunks data) \<and> log = take (Suc k) (map (batch_stmt r) (chunks data)) \<and> (\<exists>e. answer k = Inl e))"
proof -
  note ok = new_repo_ok [OF assms(1)]
  have clean: "clean_sql uni (Dialect r) (fst (batch_stmt r c)) (length (snd (batch_stmt r c)))" for c
    using insertManyQuery_reads [OF ok, of "length c"] batch_parameters [OF ok, of c]
    by (intro reads_clean_sql) (simp add: batch_stmt_def)
  have log: "if err = None then log = map (batch_stmt r) (chunks data)
     else \<exists>k. k < length (chunks data) \<and> log = take (Suc k) (map (batch_stmt r) (chunks data)) \<and> (\<exists>e. answer k = Inl e)"
  proof (cases "data = []")
    case True
    then show ?thesis using assms(3) by (auto simp: InsertMany_def chunks.simps [of "[]"])
  next
    case False
    then have "insert_batches (recorder answer db) r data 0 [] = ((n, err), log)" using assms(2,3) by (simp add: InsertMany_def)
    from insert_batches_log [OF this, unfolded list.size(3) add_0 append_Nil]
    obtain k where k: "log = take k (map (batch_stmt r) (chunks data)) \<and> (err = None \<longrightarrow> k = length (chunks data)) \<and>
        (err \<noteq> None \<longrightarrow> 0 < k \<and> k \<le> length (chunks data) \<and> (\<exists>e. answer (k - 1) = Inl e))" ..
    show ?thesis
    proof (cases "err = None")
      case False
      with k show ?thesis by (auto intro!: exI [of _ "k - 1"])
    qed (use k in simp)
  qed
  show ?thesis using concat_chunks chunks_bounded [of data] clean log by (auto simp: list_all_iff)
qed

text \<open>Three rows and a driver that refuses nothing.\<close>

definition silent_db :: "('s, 'v) sqldb" where
  "silent_db = \<lparr>db_Exec = (\<lambda>q args s. (Inl '''', s)), db_Query = (\<lambda>q args s. (Inl '''', s)), db_QueryRow = (\<lambda>q args s. (ErrNoRows, s)),
     db_Count = (\<lambda>q args s. (Inl '''', s)), db_Begin = (\<lambda>s. (None, s)), db_Commit = (\<lambda>s. (None, s)), db_Rollback = (\<lambda>s. (None, s))\<rparr>"

abbreviation one_row :: "int \<Rightarrow> nat sqlval list" where
  "one_row i \<equiv> [SScalar 0, SNil, SScalar (nat i), SNil, SScalar 1]"

theorem insert_many_in_order_witness:
  "\<exists>log. InsertMany (recorder (\<lambda>i. Inr \<lparr>LastInsertId = None, RowsAffected = Some 3\<rparr>) silent_db) demo_repo
       [one_row 4, one_row 5, one_row 6] [] = ((3, None), log) \<and>
     log = map (batch_stmt demo_repo) (chunks [one_row 4, one_row 5, one_row 6])"
proof -
  let ?db = "recorder (\<lambda>i. Inr \<lparr>LastInsertId = None, RowsAffected = Some 3\<rparr>) silent_db :: (nat stmt list, nat) sqldb"
  let ?rows = "[one_row 4, one_row 5, one_row 6]"
  have cols: "insertCols demo_repo \<noteq> []" by (simp add: demo_repo_def)
  have w: "wrap64 3 = 3" by (rule wrap64_small) simp_all
  have run: "InsertMany ?db demo_repo ?rows [] = ((3, None), [batch_stmt demo_repo ?rows])"
    using cols by (simp add: InsertMany_def insert_batches.simps [of _ _ "_ # _"] insert_batches.simps [of _ _ "[]"]
        insertBatchLimit_def recorder_def batch_stmt_def w Let_def)
  from insert_many_in_order [OF demo_new [of "\<lambda>s. s"] cols run] show ?thesis unfolding run by simp
qed

section \<open>Walking by key\<close>

text \<open>Following the cursors from the first page on, with a bound on the number of pages.\<close>

fun keyset_walk :: "nat \<Rightarrow> ('v sqlval option \<Rightarrow> (op_error, 'v keyset_result) result) \<Rightarrow> 'v sqlval option \<Rightarrow> 'v sqlval list list list option" where
  "keyset_walk 0 page after = None"
| "keyset_walk (Suc n) page after =
     (case page after of
        Inl e \<Rightarrow> None
      | Inr kr \<Rightarrow>
          (case kr_NextCursor kr of
             None \<Rightarrow> Some [kr_Data kr]
           | Some c \<Rightarrow> map_option (\<lambda>ps. kr_Data kr # ps) (keyset_walk n page (Some c))))"

definition beyond :: "('v sqlval \<Rightarrow> 'v sqlval \<Rightarrow> bool) \<Rightarrow> nat \<Rightarrow> 'v sqlval option \<Rightarrow> 'v sqlval list list \<Rightarrow> 'v sqlval list list" where
  "beyond before idx after table = (case after of None \<Rightarrow> table | Some v \<Rightarrow> filter (\<lambda>row. before v (row ! idx)) table)"

text \<open>
  What the walk relies on: the rows that match the filter, in the order of the statement, have
  distinct increasing (or decreasing) keys, and the driver answers the statement of a page with the first
  of those beyond the cursor.
\<close>

definition keyset_table :: "repo \<Rightarrow> ('v sqlval \<Rightarrow> bool) \<Rightarrow> ('v sqlval \<Rightarrow> 'v sqlval \<Rightarrow> bool) \<Rightarrow> 'v sqlval list \<Rightarrow> ('v sqlval list \<Rightarrow> 'v sqlval list) \<Rightarrow>
    nat \<Rightarrow> 'v sqlval list list \<Rightarrow> bool" where
  "keyset_table r is_id before zero cols idx table \<longleftrightarrow>
     mget (dbTagMap r) (IDColumn r) = Some idx \<and>
     sorted_wrt (\<lambda>a b. before (a ! idx) (b ! idx) \<and> \<not> before (b ! idx) (a ! idx)) table \<and>
     list_all (\<lambda>row. is_id (row ! idx) \<and> \<not> before (row ! idx) (row ! idx) \<and> scan_into zero (fieldIdx r) (cols row) = row) table"

definition keyset_answers :: "(string \<Rightarrow> string) \<Rightarrow> (int \<Rightarrow> 'v sqlval) \<Rightarrow> ('s, 'v) sqldb \<Rightarrow> repo \<Rightarrow> 'v sql_filter \<Rightarrow> int \<Rightarrow> bool \<Rightarrow>
    ('v sqlval \<Rightarrow> 'v sqlval \<Rightarrow> bool) \<Rightarrow> ('v sqlval list \<Rightarrow> 'v sqlval list) \<Rightarrow> nat \<Rightarrow> 'v sqlval list list \<Rightarrow> 's \<Rightarrow> bool" where
  "keyset_answers uni num db r f limit desc before cols idx table s \<longleftrightarrow>
     (\<forall>after. case keysetQuery uni num r f after limit desc of
        Inl e \<Rightarrow> True
      | Inr (q, args) \<Rightarrow> db_Query db q args s =
          (Inr \<lparr>rw_Rows = map (\<lambda>row. Inr (cols row)) (take (nat (limit + 1)) (beyond before idx after table)), rw_Err = None\<rparr>, s))"

lemma keyset_limit_range: "1 \<le> keyset_limit l \<and> keyset_limit l \<le> 500"
  by (simp add: keyset_limit_def defaultPerPage_def maxPerPage_def Let_def)

lemma cond_part_plain:
  "valid (cd_Column c) \<Longrightarrow> cd_Op c \<in> {OpEq, OpIsNull, OpGT, OpLT} \<Longrightarrow> \<exists>x. cond_part uni d c k = Inr x"
  by (auto simp: cond_part_def Let_def QuoteValidated_def)

lemma conds_loop_plain:
  "list_all (\<lambda>c. valid (cd_Column c) \<and> cd_Op c \<in> {OpEq, OpIsNull, OpGT, OpLT}) cs \<Longrightarrow> \<exists>x. conds_loop uni d cs parts args k = Inr x"
proof (induction cs arbitrary: parts args k)
  case (Cons c cs)
  then have "valid (cd_Column c)" "cd_Op c \<in> {OpEq, OpIsNull, OpGT, OpLT}" by simp_all
  then obtain x where "cond_part uni d c k = Inr x" using cond_part_plain by blast
  then obtain part vs j where "cond_part uni d c k = Inr (part, vs, j)" by (cases x) auto
  with Cons show ?case by simp
qed simp

lemma keysetQuery_ok:
  assumes "repo_ok uni r" and "list_all valid (mkeys f)"
  shows "\<exists>x. keysetQuery uni num r f after limit desc = Inr x"
proof -
  define cs where "cs = (case after of
      None \<Rightarrow> filterToConds f
    | Some v \<Rightarrow> filterToConds f @ [\<lparr>cd_Column = IDColumn r, cd_Op = (if desc then OpLT else OpGT), cd_Value = v\<rparr>])"
  have "valid (IDColumn r)" using assms(1) by (simp add: repo_ok_def)
  then have "list_all (\<lambda>c. valid (cd_Column c) \<and> cd_Op c \<in> {OpEq, OpIsNull, OpGT, OpLT}) cs"
    using assms(2) by (auto simp: cs_def filterToConds_def list_all_iff sort_Strings_def split: option.splits)
  then obtain y where "conds_loop uni (Dialect r) cs [] [] 0 = Inr y" using conds_loop_plain by blast
  then obtain wc args n where "buildWhereConds uni (Dialect r) cs 0 = Inr (wc, args, n)"
    by (cases y; cases "cs = []") (auto simp: buildWhereConds_def buildConds_def)
  then show ?thesis by (simp add: keysetQuery_def cs_def [symmetric] Let_def)
qed

lemma scan_loop_rows:
  "list_all (\<lambda>row. scan_into zero (fieldIdx r) (cols row) = row) rows \<Longrightarrow> scan_loop r zero (map (\<lambda>row. Inr (cols row)) rows) = Inr rows"
  by (induction rows) auto

lemma keyset_page_answer:
  assumes ok: "repo_ok uni r" "list_all valid (mkeys f)" and t: "keyset_table r is_id before zero cols idx table"
    and a: "keyset_answers uni num db r f (keyset_limit limit0) desc before cols idx table s"
    and ys: "beyond before idx after table = ys" "set ys \<subseteq> set table"
  shows "fst (KeysetPage uni num is_id db r zero f after limit0 desc s) =
    (let l = nat (keyset_limit limit0)
     in Inr \<lparr>kr_Data = take l ys, kr_NextCursor = (if l < length ys then Some (last (take l ys) ! idx) else None),
             kr_HasMore = (l < length ys)\<rparr>)"
proof -
  let ?l = "nat (keyset_limit limit0)"
  obtain q args where q: "keysetQuery uni num r f after (keyset_limit limit0) desc = Inr (q, args)"
    using keysetQuery_ok [OF ok] by (metis surj_pair)
  have l: "0 < ?l" "nat (keyset_limit limit0 + 1) = Suc ?l" "keyset_limit limit0 = int ?l" using keyset_limit_range [of limit0] by auto
  define rows where "rows = take (Suc ?l) ys"
  have "db_Query db q args s = (Inr \<lparr>rw_Rows = map (\<lambda>row. Inr (cols row)) rows, rw_Err = None\<rparr>, s)"
    using a [unfolded keyset_answers_def, THEN spec, of after] q l(2) ys(1) by (simp add: rows_def)
  moreover have "list_all (\<lambda>row. scan_into zero (fieldIdx r) (cols row) = row) rows"
    using t ys(2) by (auto simp: keyset_table_def list_all_iff rows_def dest!: in_set_takeD)
  ultimately have "fst (KeysetPage uni num is_id db r zero f after limit0 desc s) =
      (let more = (int (length rows) > keyset_limit limit0);
           data = (if more then take ?l rows else rows);
           cursor = (if length data > 0 \<and> more then modelID is_id r (last data) else None)
       in Inr \<lparr>kr_Data = data, kr_NextCursor = cursor, kr_HasMore = more\<rparr>)"
    using q by (simp add: KeysetPage_def scanRows_def scan_loop_rows Let_def)
  note run = this [unfolded rows_def]
  have more: "int (length (take (Suc ?l) ys)) > keyset_limit limit0 \<longleftrightarrow> ?l < length ys" using l by auto
  show ?thesis
  proof (cases "?l < length ys")
    case True
    then have "take ?l ys \<noteq> []" using l(1) by auto
    from last_in_set [OF this] have "last (take ?l ys) \<in> set table" using set_take_subset [of ?l ys] ys(2) by blast
    then have "modelID is_id r (last (take ?l ys)) = Some (last (take ?l ys) ! idx)"
      using t by (auto simp: modelID_def keyset_table_def list_all_iff)
    moreover have "take ?l (take (Suc ?l) ys) = take ?l ys" by (simp add: min_def)
    moreover have "length (take ?l ys) > 0" using True l(1) by simp
    ultimately show ?thesis using run True more by (simp only: Let_def if_True simp_thms)
  next
    case False
    then show ?thesis using run more by (simp add: Let_def)
  qed
qed

lemma beyond_last:
  assumes t: "keyset_table r is_id before zero cols idx (xs @ ys)" and "xs \<noteq> []"
  shows "beyond before idx (Some (last xs ! idx)) (xs @ ys) = ys"
proof -
  let ?lt = "\<lambda>a b. before (a ! idx) (b ! idx) \<and> \<not> before (b ! idx) (a ! idx)"
  have s: "sorted_wrt ?lt (xs @ ys)" and irr: "list_all (\<lambda>row. \<not> before (row ! idx) (row ! idx)) xs"
    using t by (auto simp: keyset_table_def list_all_iff)
  have xs: "xs = butlast xs @ [last xs]" using assms(2) by simp
  with s have "sorted_wrt ?lt (butlast xs @ [last xs])" by (simp add: sorted_wrt_append)
  then have "\<forall>x \<in> set (butlast xs). \<not> before (last xs ! idx) (x ! idx)" by (auto simp: sorted_wrt_append)
  moreover have "\<not> before (last xs ! idx) (last xs ! idx)" using irr assms(2) by (simp add: list_all_iff)
  moreover have "set xs = insert (last xs) (set (butlast xs))" by (subst xs) simp
  ultimately have "\<forall>x \<in> set xs. \<not> before (last xs ! idx) (x ! idx)" by auto
  moreover have "\<forall>y \<in> set ys. before (last xs ! idx) (y ! idx)"
    using s last_in_set [OF assms(2)] by (auto simp: sorted_wrt_append)
  ultimately show ?thesis by (auto simp: beyond_def intro: filter_True)
qed

lemma keyset_walk_from:
  assumes ok: "repo_ok uni r" "list_all valid (mkeys f)" and t: "keyset_table r is_id before zero cols idx table"
    and a: "keyset_answers uni num db r f (keyset_limit limit0) desc before cols idx table s"
  shows "table = xs @ ys \<Longrightarrow> length ys < n \<Longrightarrow> after = (if xs = [] then None else Some (last xs ! idx)) \<Longrightarrow>
    \<exists>ps. keyset_walk n (\<lambda>after. fst (KeysetPage uni num is_id db r zero f after limit0 desc s)) after = Some ps \<and>
      concat ps = ys \<and> list_all (\<lambda>p. length p \<le> nat (keyset_limit limit0)) ps"
proof (induction n arbitrary: xs ys after)
  case (Suc n)
  let ?l = "nat (keyset_limit limit0)"
  have l: "0 < ?l" using keyset_limit_range [of limit0] by simp
  have "beyond before idx after table = ys" using Suc.prems beyond_last [of r is_id before zero cols idx xs ys] t by (auto simp: beyond_def)
  note page = keyset_page_answer [OF ok t a this]
  show ?case
  proof (cases "?l < length ys")
    case True
    let ?xs = "xs @ take ?l ys" and ?ys = "drop ?l ys"
    have "take ?l ys \<noteq> []" using True l by auto
    then have "Some (last (take ?l ys) ! idx) = (if ?xs = [] then None else Some (last ?xs ! idx))" by simp
    moreover have "table = ?xs @ ?ys" "length ?ys < n" using Suc.prems True l by auto
    ultimately obtain ps where "keyset_walk n (\<lambda>after. fst (KeysetPage uni num is_id db r zero f after limit0 desc s))
          (Some (last (take ?l ys) ! idx)) = Some ps" "concat ps = ?ys" "list_all (\<lambda>p. length p \<le> ?l) ps"
      using Suc.IH by blast
    then show ?thesis using page True Suc.prems(1) by (simp add: Let_def)
  next
    case False
    then show ?thesis using page Suc.prems(1) by (simp add: Let_def)
  qed
qed simp


text \<open>Three rows, two to a page.\<close>

definition key_row :: "nat \<Rightarrow> nat sqlval list" where
  "key_row i = [SScalar i, SNil, SScalar 9, SNil, SScalar 8]"

definition key_less :: "nat sqlval \<Rightarrow> nat sqlval \<Rightarrow> bool" where
  "key_less v w = (case (v, w) of (SScalar a, SScalar b) \<Rightarrow> a < b | _ \<Rightarrow> False)"

definition key_cols :: "nat sqlval list \<Rightarrow> nat sqlval list" where
  "key_cols row = getValues row [0, 2, 4]"

definition key_db :: "(unit, nat) sqldb" where
  "key_db = silent_db\<lparr>db_Query := (\<lambda>q args s.
     (Inr \<lparr>rw_Rows = map (\<lambda>row. Inr (key_cols row)) (take 3 (beyond key_less 0 (if length args = 1 then None else Some (hd args))
        [key_row 3, key_row 5, key_row 8])), rw_Err = None\<rparr>, s))\<rparr>"


section \<open>What a transaction leaves behind\<close>

text \<open>When a transaction reports anything but success (an error of its function, a panic, a failed
  commit, begin or rollback) the durable state is what it was before; success means that the function
  returned without an error and that its work was committed. The driver is assumed to make
  changes durable in a successful commit only.\<close>

theorem transaction_atomic:
  assumes "\<And>s. durable (snd (db_Begin db s)) = durable s" and "\<And>s. durable (snd (db_Rollback db s)) = durable s"
    and "\<And>s. fst (db_Commit db s) \<noteq> None \<Longrightarrow> durable (snd (db_Commit db s)) = durable s"
    and "\<And>s. durable (snd (fn s)) = durable s"
  shows "case WithTransactionResultOpts (Some db) zero (Some fn) s of
      (TxReturns x None, s') \<Rightarrow>
        (\<exists>s1 s2. db_Begin db s = (None, s1) \<and> fn s1 = (FnReturns x None, s2) \<and> db_Commit db s2 = (None, s'))
    | (_, s') \<Rightarrow> durable s' = durable s"
proof -
  obtain b s1 where b: "db_Begin db s = (b, s1)" by (cases "db_Begin db s")
  obtain o1 s2 where f: "fn s1 = (o1, s2)" by (cases "fn s1")
  obtain c s3 where c: "db_Commit db s2 = (c, s3)" by (cases "db_Commit db s2")
  obtain e s4 where e: "db_Rollback db s2 = (e, s4)" by (cases "db_Rollback db s2")
  have "durable s1 = durable s" "durable s2 = durable s" "durable s4 = durable s" "c \<noteq> None \<Longrightarrow> durable s3 = durable s"
    using assms(1) [of s] assms(4) [of s1] assms(2) [of s2] assms(3) [of s2] b f c e by simp_all
  then show ?thesis
    using b f c e by (auto simp: WithTransactionResultOpts_def split: option.splits fn_outcome.splits)
qed

text \<open>Durable and working copies of a number; the function adds one and fails.\<close>

definition tx_db :: "(nat \<times> nat, 'v) sqldb" where
  "tx_db = \<lparr>db_Exec = (\<lambda>q args s. (Inl '''', s)), db_Query = (\<lambda>q args s. (Inl '''', s)), db_QueryRow = (\<lambda>q args s. (ErrNoRows, s)),
     db_Count = (\<lambda>q args s. (Inl '''', s)), db_Begin = (\<lambda>(d, w). (None, (d, d))), db_Commit = (\<lambda>(d, w). (None, (w, w))),
     db_Rollback = (\<lambda>(d, w). (None, (d, d)))\<rparr>"

theorem transaction_atomic_witness:
  "WithTransactionResultOpts (Some (tx_db :: (nat \<times> nat, nat) sqldb)) () (Some (\<lambda>(d, w). (FnReturns () (Some NoColumns), (d, w + 1)))) (4, 0) =
     (TxReturns () (Some (FnFailed NoColumns)), (4, 4)) \<and> fst (4 :: nat, 4 :: nat) = fst (4 :: nat, 0 :: nat)"
  using transaction_atomic [where db = "tx_db :: (nat \<times> nat, nat) sqldb" and durable = fst and zero = "()" and s = "(4, 0)"
      and fn = "\<lambda>(d, w). (FnReturns () (Some NoColumns), (d, w + 1))"]
  by (auto simp: WithTransactionResultOpts_def tx_db_def case_prod_beta)

section \<open>Observations\<close>

text \<open>On PostgreSQL an update that returns "one" record changes every matching one: its statement is that of
  \<^verbatim>\<open>UpdateMany\<close> followed by the columns to return.\<close>

lemma update_find_updates_all:
  assumes "updateReturningQuery uni r f data = Inr (s, args)"
  shows "\<exists>s0. updateManyQuery uni r f data = Inr (s0, args) \<and> s = s0 @ '' RETURNING '' @ columnsString r"
proof -
  have join: "joinSQL [''UPDATE '' @ a, ''SET '' @ b, c, ''RETURNING '' @ e] = joinSQL [''UPDATE '' @ a, ''SET '' @ b, c] @ '' RETURNING '' @ e"
    for a b c e :: string
    by (cases "c = []") (simp_all add: joinSQL_def)
  show ?thesis using assms
    by (auto simp: updateReturningQuery_def updateManyQuery_def and_then_Inr_iff join simp del: append_Cons split: if_splits)
qed

text \<open>A batch of 500 rows of two columns has more parameters than the 999 SQLite takes.\<close>

lemma batch_exceeds_sqlite:
  assumes "repo_ok uni r" and "2 \<le> length (insertCols r)" and "length chunk = insertBatchLimit"
  shows "999 < length (snd (batch_stmt r chunk))"
proof -
  have "500 * 2 \<le> 500 * length (insertCols r)" using assms(2) by (intro mult_le_mono) simp_all
  then show ?thesis using batch_parameters [OF assms(1), of chunk] assms(3) by (simp add: insertBatchLimit_def)
qed

text \<open>The offset of a page is exact as long as the product fits; for the largest page number it is negative.\<close>

lemma page_offset_exact:
  assumes "normalizePageArgs page0 perPage0 = (page, perPage)" and "page0 \<le> 2 ^ 54"
  shows "1 \<le> page" and "1 \<le> perPage" and "perPage \<le> 500" and "wrap64 ((page - 1) * perPage) = (page - 1) * perPage"
proof -
  show p: "1 \<le> page" "1 \<le> perPage" "perPage \<le> 500"
    using assms(1) by (auto simp: normalizePageArgs_def Let_def defaultPerPage_def maxPerPage_def split: if_splits)
  have "page \<le> 2 ^ 54" using assms by (auto simp: normalizePageArgs_def Let_def split: if_splits)
  then have "(page - 1) * perPage \<le> 2 ^ 54 * 500" using p by (intro mult_mono) simp_all
  moreover have "0 \<le> (page - 1) * perPage" using p by simp
  ultimately show "wrap64 ((page - 1) * perPage) = (page - 1) * perPage" by (intro wrap64_small) simp_all
qed

lemma page_offset_wraps: "normalizePageArgs 9223372036854775807 500 = (9223372036854775807, 500) \<and>
    wrap64 ((9223372036854775807 - 1) * 500) = - 1000"
  by code_simp

section \<open>A clause for hand-written statements\<close>

definition InClauseForDialect :: "(string \<Rightarrow> string) \<Rightarrow> dialect \<Rightarrow> string \<Rightarrow> nat \<Rightarrow> 'v sqlval list \<Rightarrow> (sql_error, 'v stmt) result" where
  "InClauseForDialect uni d0 column startIdx vs =
     (let d = normalizeDialect uni d0
      in (case QuoteValidated uni d column of
            Inl e \<Rightarrow> Inl (SqlIdent e)
          | Inr quoted \<Rightarrow>
              if length vs = 0 then Inr (''1 = 0'', [])
              else Inr (quoted @ '' IN ('' @ Join (map (\<lambda>i. placeholder d (startIdx + i)) [0..<length vs]) '', '' @ '')'', vs)))"

lemma in_clause_reads:
  assumes "InClauseForDialect uni d0 column (Suc k) vs = Inr (s, args)"
  shows "reads uni (normalizeDialect uni d0) k s (length args)"
proof -
  let ?d = "normalizeDialect uni d0"
  have "list_all calm ''1 = 0''" by code_simp
  note zero = calm_lit [OF this, of uni ?d k]
  have "reads uni ?d k (placeholders ?d (Suc k) (length vs) @ '')'') (length vs + 0)"
    by (rule reads_append [OF reads_placeholders _ reads_close]) simp
  then have "named uni ?d q \<Longrightarrow> reads uni ?d k (q @ '' IN ('' @ placeholders ?d (Suc k) (length vs) @ '')'') (length vs)" for q
    by (auto intro!: reads_Cons reads_name_then [of _ _ q])
  then show ?thesis
    using assms zero
    by (auto simp: InClauseForDialect_def Let_def QuoteValidated_def placeholders_def named_def split: option.splits if_splits)
qed

end
