(* ===== verification/Sql_Tx.thy ===== *)
theory Sql_Tx
  imports Sql_Exec "HOL-Library.Word"
begin

text \<open>
  What the migrations and the seeds of SQL databases share: the connection (\<^verbatim>\<open>sqldb.go\<close>), the calls of
  \<^verbatim>\<open>database/sql\<close> they make, and the transaction that claims a name in a tracking table before it runs a
  body (\<^verbatim>\<open>applyOne\<close> and \<^verbatim>\<open>runOne\<close> are that transaction). The server behind the calls is a parameter; the
  locale \<open>tx_db\<close> says what a transaction of it promises.
\<close>

section \<open>Drivers and tables\<close>

type_synonym driver = string

definition DriverPostgres :: driver where "DriverPostgres = ''postgres''"
definition DriverMySQL :: driver where "DriverMySQL = ''mysql''"
definition DriverSQLite :: driver where "DriverSQLite = ''sqlite3''"

lemmas driver_defs = DriverPostgres_def DriverMySQL_def DriverSQLite_def

definition dialectFor :: "driver \<Rightarrow> dialect" where
  "dialectFor d = (if d = DriverMySQL then DialectMySQL else if d = DriverSQLite then DialectSQLite else DialectPostgres)"

text \<open>A bad name of a tracking table is a panic at startup.\<close>

definition quoteTable :: "(string \<Rightarrow> string) \<Rightarrow> driver \<Rightarrow> string \<Rightarrow> (ident_error, string) result" where
  "quoteTable uni drv table =
     (let d = dialectFor drv
      in case ValidateIdentifier table of Some e \<Rightarrow> Inl e | None \<Rightarrow> Inr (QuoteQualified uni d table))"

section \<open>Connecting\<close>

record sql_config =
  sc_Driver :: driver
  sc_DSN :: string
  sc_Database :: string
  sc_MaxOpenConns :: int
  sc_MaxIdleConns :: int
  sc_ConnMaxLifetime :: "int option"
  sc_ConnMaxIdleTime :: "int option"
  sc_PingTimeout :: "int option"

datatype sql_config_error = DsnRequired | DriverRequired | UnsupportedDriver driver

definition validate_sql :: "sql_config \<Rightarrow> sql_config_error option" where
  "validate_sql c =
     (if sc_DSN c = [] then Some DsnRequired
      else if sc_Driver c = DriverPostgres \<or> sc_Driver c = DriverMySQL \<or> sc_Driver c = DriverSQLite then None
      else if sc_Driver c = [] then Some DriverRequired
      else Some (UnsupportedDriver (sc_Driver c)))"

text \<open>Durations are in nanoseconds. A pool is what \<^verbatim>\<open>Setup\<close> makes of the settings.\<close>

definition second_ns :: int where "second_ns = 1000000000"
definition defaultPingTimeout :: int where "defaultPingTimeout = 10 * second_ns"

record pool =
  pl_MaxOpen :: int
  pl_MaxIdle :: int
  pl_MaxLifetime :: int
  pl_MaxIdleTime :: int

definition pool_of :: "sql_config \<Rightarrow> pool" where
  "pool_of cfg =
     (let maxOpen = (if sc_MaxOpenConns cfg \<le> 0 then 25 else sc_MaxOpenConns cfg);
          maxIdle = (if sc_MaxIdleConns cfg \<le> 0
                     then (let half = maxOpen div 2 in if half < 2 then 2 else half)
                     else sc_MaxIdleConns cfg)
      in \<lparr>pl_MaxOpen = maxOpen, pl_MaxIdle = maxIdle,
          pl_MaxLifetime = (case sc_ConnMaxLifetime cfg of Some d \<Rightarrow> d | None \<Rightarrow> 30 * 60 * second_ns),
          pl_MaxIdleTime = (case sc_ConnMaxIdleTime cfg of Some d \<Rightarrow> d | None \<Rightarrow> 5 * 60 * second_ns)\<rparr>)"

datatype setup_error = BadConfig sql_config_error | OpenError string | PingError string

text \<open>
  The calls \<^verbatim>\<open>Setup\<close> makes, in order. \<open>open_db\<close> and \<open>ping\<close> are \<^verbatim>\<open>sql.Open\<close> and \<^verbatim>\<open>PingContext\<close> with the driver;
  what is registered with the application is the last event, and only when there is one.
\<close>

datatype setup_event = Opened driver string | Configured pool | Pinged int | ClosedConn | RegisteredSingletons | RegisteredShutdown

record sql_conn =
  db_driver :: driver
  db_name :: string

definition Setup_sql ::
  "(driver \<Rightarrow> string \<Rightarrow> string option) \<Rightarrow> (int \<Rightarrow> string option) \<Rightarrow> bool \<Rightarrow> sql_config \<Rightarrow>
    (setup_error, sql_conn) result \<times> setup_event list" where
  "Setup_sql open_db ping has_app cfg =
     (case validate_sql cfg of
        Some e \<Rightarrow> (Inl (BadConfig e), [])
      | None \<Rightarrow>
          (let pingTimeout = (case sc_PingTimeout cfg of Some t \<Rightarrow> if t > 0 then t else defaultPingTimeout | None \<Rightarrow> defaultPingTimeout)
           in case open_db (sc_Driver cfg) (sc_DSN cfg) of
                Some e \<Rightarrow> (Inl (OpenError e), [Opened (sc_Driver cfg) (sc_DSN cfg)])
              | None \<Rightarrow>
                  (let evs = [Opened (sc_Driver cfg) (sc_DSN cfg), Configured (pool_of cfg), Pinged pingTimeout]
                   in case ping pingTimeout of
                        Some e \<Rightarrow> (Inl (PingError e), evs @ [ClosedConn])
                      | None \<Rightarrow> (Inr \<lparr>db_driver = sc_Driver cfg, db_name = sc_Database cfg\<rparr>,
                                 evs @ (if has_app then [RegisteredSingletons, RegisteredShutdown] else [])))))"

section \<open>The calls of database/sql\<close>

datatype sql_arg = AInt int | AStr string | ATime int

text \<open>
  A query gives its rows as \<^verbatim>\<open>Scan\<close> reads them: each may fail, and so may the iteration. A migration reads
  version, name, time and a nullable checksum; a seeder reads names.
\<close>

record 'a row_stream =
  rs_Rows :: "(string, 'a) result list"
  rs_Err :: "string option"

type_synonym applied_row = "int \<times> string \<times> int \<times> string option"

text \<open>\<open>'c\<close> is a context, \<open>'s\<close> the state of the world; errors of the driver are strings.\<close>

record ('s, 'c) conn_db =
  cd_Exec :: "'c \<Rightarrow> string \<Rightarrow> sql_arg list \<Rightarrow> 's \<Rightarrow> string option \<times> 's"
  cd_QueryApplied :: "'c \<Rightarrow> string \<Rightarrow> 's \<Rightarrow> (string, applied_row row_stream) result \<times> 's"
  cd_QueryNames :: "'c \<Rightarrow> string \<Rightarrow> 's \<Rightarrow> (string, string row_stream) result \<times> 's"
  cd_Begin :: "'c \<Rightarrow> 's \<Rightarrow> string option \<times> 's"
  cd_TxExec :: "'c \<Rightarrow> string \<Rightarrow> sql_arg list \<Rightarrow> 's \<Rightarrow> string option \<times> 's"
  cd_Commit :: "'s \<Rightarrow> string option \<times> 's"
  cd_Rollback :: "'s \<Rightarrow> string option \<times> 's"
  cd_Conn :: "'c \<Rightarrow> 's \<Rightarrow> (string, nat) result \<times> 's"
  cd_ConnExec :: "nat \<Rightarrow> 'c \<Rightarrow> string \<Rightarrow> sql_arg list \<Rightarrow> 's \<Rightarrow> string option \<times> 's"
  cd_ConnQueryInt :: "nat \<Rightarrow> 'c \<Rightarrow> string \<Rightarrow> sql_arg list \<Rightarrow> 's \<Rightarrow> (string, int option) result \<times> 's"
  cd_ConnClose :: "nat \<Rightarrow> 's \<Rightarrow> string option \<times> 's"
  cd_WithTimeout :: "'c \<Rightarrow> int \<Rightarrow> 'c"
  cd_Now :: "'s \<Rightarrow> int"

section \<open>Claiming and running\<close>

datatype body_outcome = BodyReturns "string option" | BodyPanics

type_synonym ('s, 'c) body = "'c \<Rightarrow> 's \<Rightarrow> body_outcome \<times> 's"

text \<open>Calling a nil function panics.\<close>

fun run_body :: "('s, 'c) body option \<Rightarrow> 'c \<Rightarrow> 's \<Rightarrow> body_outcome \<times> 's" where
  "run_body None ctx s = (BodyPanics, s)"
| "run_body (Some f) ctx s = f ctx s"

datatype claim_error = BeginTx string | RecordApplied string | DeleteApplied string | BodyError string | CommitError string

datatype claim_outcome = ClaimReturns "claim_error option" | ClaimPanics

text \<open>
  The transaction: begin, claim, run the body, commit. An error of the claim or the body rolls back, and so
  does a panic of the body, which then goes on.
\<close>

definition claim_and_run :: "('s, 'c) conn_db \<Rightarrow> 'c \<Rightarrow> string \<Rightarrow> (int \<Rightarrow> sql_arg list) \<Rightarrow> ('s, 'c) body option \<Rightarrow> 's \<Rightarrow>
    claim_outcome \<times> 's" where
  "claim_and_run db ctx claim args body s =
     (case cd_Begin db ctx s of
        (Some e, s1) \<Rightarrow> (ClaimReturns (Some (BeginTx e)), s1)
      | (None, s1) \<Rightarrow>
          (case cd_TxExec db ctx claim (args (cd_Now db s1)) s1 of
             (Some e, s2) \<Rightarrow> (ClaimReturns (Some (RecordApplied e)), snd (cd_Rollback db s2))
           | (None, s2) \<Rightarrow>
               (case run_body body ctx s2 of
                  (BodyPanics, s3) \<Rightarrow> (ClaimPanics, snd (cd_Rollback db s3))
                | (BodyReturns (Some e), s3) \<Rightarrow> (ClaimReturns (Some (BodyError e)), snd (cd_Rollback db s3))
                | (BodyReturns None, s3) \<Rightarrow>
                    (case cd_Commit db s3 of
                       (Some e, s4) \<Rightarrow> (ClaimReturns (Some (CommitError e)), s4)
                     | (None, s4) \<Rightarrow> (ClaimReturns None, s4)))))"

section \<open>What a transaction promises\<close>

text \<open>
  \<open>committed\<close> is the durable content of the database and \<open>working\<close> what the open transaction sees. A commit
  that reports an error may or may not have happened.
\<close>

locale tx_db =
  fixes db :: "('s, 'c) conn_db" and committed :: "'s \<Rightarrow> 'w" and working :: "'s \<Rightarrow> 'w"
  assumes begin_keeps: "committed (snd (cd_Begin db ctx s)) = committed s"
    and begin_starts: "fst (cd_Begin db ctx s) = None \<Longrightarrow> working (snd (cd_Begin db ctx s)) = committed s"
    and exec_keeps: "committed (snd (cd_TxExec db ctx q args s)) = committed s"
    and rollback_keeps: "committed (snd (cd_Rollback db s)) = committed s"
    and commit_ok: "fst (cd_Commit db s) = None \<Longrightarrow> committed (snd (cd_Commit db s)) = working s"
    and commit_fails: "committed (snd (cd_Commit db s)) \<in> {committed s, working s}"
begin

text \<open>Success means that every step succeeded and that the transaction's view became durable.\<close>

lemma claim_success:
  assumes run: "claim_and_run db ctx claim args body s = (ClaimReturns None, s')"
  obtains s1 s2 s3 where "working s1 = committed s" and "cd_TxExec db ctx claim (args (cd_Now db s1)) s1 = (None, s2)"
    and "run_body body ctx s2 = (BodyReturns None, s3)" and "committed s' = working s3"
proof -
  obtain s1 where b: "cd_Begin db ctx s = (None, s1)"
    using run by (auto simp: claim_and_run_def split: prod.splits option.splits)
  obtain s2 where x: "cd_TxExec db ctx claim (args (cd_Now db s1)) s1 = (None, s2)"
    using run b by (auto simp: claim_and_run_def split: prod.splits option.splits)
  obtain s3 where y: "run_body body ctx s2 = (BodyReturns None, s3)"
    using run b x by (auto simp: claim_and_run_def split: prod.splits option.splits body_outcome.splits)
  have "cd_Commit db s3 = (None, s')"
    using run b x y by (auto simp: claim_and_run_def split: prod.splits option.splits)
  then show thesis
    using that [OF _ x y] begin_starts [of ctx s] commit_ok [of s3] b by simp
qed

text \<open>Anything else leaves the durable content as it was, unless the commit itself reported the error.\<close>

lemma claim_failure:
  assumes run: "claim_and_run db ctx claim args body s = (r, s')" and "r \<noteq> ClaimReturns None"
    and body: "\<And>t. committed (snd (run_body body ctx t)) = committed t"
  shows "committed s' = committed s \<or>
    (\<exists>e s1 s2 s3. r = ClaimReturns (Some (CommitError e)) \<and> working s1 = committed s \<and>
      cd_TxExec db ctx claim (args (cd_Now db s1)) s1 = (None, s2) \<and> run_body body ctx s2 = (BodyReturns None, s3) \<and>
      committed s' = working s3)"
proof -
  obtain be s1 where b: "cd_Begin db ctx s = (be, s1)" by fastforce
  obtain xe s2 where x: "cd_TxExec db ctx claim (args (cd_Now db s1)) s1 = (xe, s2)" by fastforce
  obtain ye s3 where y: "run_body body ctx s2 = (ye, s3)" by fastforce
  obtain ce s4 where c: "cd_Commit db s3 = (ce, s4)" by fastforce
  note steps = b x y c
  have keep: "committed s1 = committed s" "committed s2 = committed s1" "committed s3 = committed s2"
    using begin_keeps [of ctx s] exec_keeps [of ctx claim "args (cd_Now db s1)" s1] body [of s2] steps by simp_all
  have rb: "committed (snd (cd_Rollback db t)) = committed t" for t
    by (rule rollback_keeps)
  have final: "committed s4 = committed s3 \<or> committed s4 = working s3"
    using commit_fails [of s3] c by simp
  have beg: "be = None \<Longrightarrow> working s1 = committed s"
    using begin_starts [of ctx s] b by simp
  consider "be \<noteq> None" | "be = None" "xe \<noteq> None" | "be = None" "xe = None" "ye \<noteq> BodyReturns None"
    | "be = None" "xe = None" "ye = BodyReturns None" by blast
  then show ?thesis
  proof cases
    case 4
    with run steps \<open>r \<noteq> ClaimReturns None\<close> obtain e where "ce = Some e" "r = ClaimReturns (Some (CommitError e))" "s' = s4"
      by (auto simp: claim_and_run_def split: option.splits)
    with final keep beg x y 4 show ?thesis by auto
  qed (use run steps keep rb in \<open>auto simp: claim_and_run_def split: option.splits body_outcome.splits\<close>)
qed

end

section \<open>Bodies\<close>

text \<open>A body that works in its transaction only: what it does is part of the transaction's view, and
  it leaves the tracking table alone. (On MySQL a statement that defines data commits; such a body is not of
  this kind.)\<close>

definition in_transaction :: "('s \<Rightarrow> 't \<times> 'd) \<Rightarrow> ('s \<Rightarrow> 't \<times> 'd) \<Rightarrow> 'c \<Rightarrow> ('s, 'c) body option \<Rightarrow> ('d \<Rightarrow> 'd) \<Rightarrow> bool" where
  "in_transaction committed working ctx body eff \<longleftrightarrow>
     (\<forall>s. case run_body body ctx s of
        (r, s') \<Rightarrow> committed s' = committed s \<and> (r = BodyReturns None \<longrightarrow> working s' = (fst (working s), eff (snd (working s)))))"

lemma in_transactionD:
  assumes "in_transaction committed working ctx body eff" and "run_body body ctx s = (r, s')"
  shows "committed s' = committed s" and "r = BodyReturns None \<Longrightarrow> working s' = (fst (working s), eff (snd (working s)))"
  using assms by (auto simp: in_transaction_def split: prod.splits)

section \<open>Tracking tables are named safely\<close>

lemma quoteTable_Inr:
  "quoteTable uni drv table = Inr q \<longleftrightarrow> ValidateIdentifier table = None \<and> q = QuoteQualified uni (dialectFor drv) table"
  by (auto simp: quoteTable_def Let_def split: option.splits)

end
