(* ===== verification/Sql_Migration.thy ===== *)
theory Sql_Migration
  imports Sql_Tx
begin

text \<open>
  The migration runner (\<^verbatim>\<open>common/sqldb/migration\<close>): the registry, the tracking table, the advisory lock, the
  runs up and down, and the migrations read from \<^verbatim>\<open>.sql\<close> files. The theorems say what is durable after a run,
  whatever fails in it.
\<close>

unbundle bit_operations_syntax

section \<open>Migrations and their registry\<close>

record ('s, 'c) migration =
  mg_Version :: int
  mg_Name :: string
  mg_Up :: "('s, 'c) body option"
  mg_Down :: "('s, 'c) body option"
  mg_Checksum :: string

record applied =
  ap_Version :: int
  ap_Name :: string
  ap_AppliedAt :: int
  ap_Checksum :: string

datatype register_panic = NilMigration | VersionNotPositive int | UpRequired int | DuplicateVersion int string string

definition Register_migration ::
  "('s, 'c) migration option \<Rightarrow> ('s, 'c) migration list \<Rightarrow> (register_panic, ('s, 'c) migration list) result" where
  "Register_migration m registry =
     (case m of
        None \<Rightarrow> Inl NilMigration
      | Some m \<Rightarrow>
          if mg_Version m \<le> 0 then Inl (VersionNotPositive (mg_Version m))
          else if mg_Up m = None then Inl (UpRequired (mg_Version m))
          else (case List.find (\<lambda>e. mg_Version e = mg_Version m) registry of
              Some e \<Rightarrow> Inl (DuplicateVersion (mg_Version m) (mg_Name e) (mg_Name m))
            | None \<Rightarrow> Inr (registry @ [m])))"

text \<open>
  \<^verbatim>\<open>sort.Slice\<close> by version. Its order of equal versions is not specified; the runner's lists have none, and
  the model keeps such elements in place.
\<close>

definition by_version :: "('s, 'c) migration list \<Rightarrow> ('s, 'c) migration list" where
  "by_version = SliceStable (\<lambda>a b. mg_Version a < mg_Version b)"

definition Registered_migrations :: "('s, 'c) migration list \<Rightarrow> ('s, 'c) migration list" where
  "Registered_migrations registry = by_version registry"

definition Reset_migrations :: "('s, 'c) migration list \<Rightarrow> ('s, 'c) migration list" where
  "Reset_migrations registry = []"

section \<open>The migrator\<close>

datatype mig_error =
    EnsureError string
  | QueryError string
  | ScanFailed string
  | RowsError string
  | ChecksumMismatch int string string string
  | LockConnection string
  | LockQuery string
  | LockHeld string int
  | ApplyFailed int string claim_error
  | NotRegistered int string
  | NoDownFunction int string
  | RollbackError int string claim_error

text \<open>\<open>mr_ensureOnce\<close> is whether the once has run.\<close>

record ('s, 'c) migrator =
  mr_table :: string
  mr_quotedTable :: string
  mr_migs :: "('s, 'c) migration list"
  mr_dialect :: driver
  mr_lockTimeout :: int
  mr_ensureOnce :: bool
  mr_ensureErr :: "mig_error option"

definition defaultLockTimeout :: int where "defaultLockTimeout = 5 * 60 * second_ns"

definition NewWith_migrator :: "(string \<Rightarrow> string) \<Rightarrow> driver \<Rightarrow> ('s, 'c) migration list \<Rightarrow> (ident_error, ('s, 'c) migrator) result" where
  "NewWith_migrator uni drv migs =
     (let sorted_migs = by_version migs
      in and_then (quoteTable uni drv ''schema_migrations'') (\<lambda>qt.
           Inr \<lparr>mr_table = ''schema_migrations'', mr_quotedTable = qt, mr_migs = sorted_migs, mr_dialect = drv,
                mr_lockTimeout = defaultLockTimeout, mr_ensureOnce = False, mr_ensureErr = None\<rparr>))"

definition New_migrator :: "(string \<Rightarrow> string) \<Rightarrow> driver \<Rightarrow> ('s, 'c) migration list \<Rightarrow> (ident_error, ('s, 'c) migrator) result" where
  "New_migrator uni drv registry = NewWith_migrator uni drv (Registered_migrations registry)"

definition WithTable_migrator :: "(string \<Rightarrow> string) \<Rightarrow> string \<Rightarrow> ('s, 'c) migrator \<Rightarrow> (ident_error, ('s, 'c) migrator) result" where
  "WithTable_migrator uni name m =
     (if name \<noteq> []
      then and_then (quoteTable uni (mr_dialect m) name) (\<lambda>qt. Inr (m\<lparr>mr_quotedTable := qt, mr_table := name, mr_ensureOnce := False\<rparr>))
      else Inr m)"

definition WithLockTimeout :: "int \<Rightarrow> ('s, 'c) migrator \<Rightarrow> ('s, 'c) migrator" where
  "WithLockTimeout d m = (if d > 0 then m\<lparr>mr_lockTimeout := d\<rparr> else m)"

section \<open>The tracking table\<close>

abbreviation nl :: string where "nl \<equiv> [CHR 0x0A]"
abbreviation empty_literal :: string where "empty_literal \<equiv> [CHR 0x27, CHR 0x27]"

definition createStmt :: "driver \<Rightarrow> string \<Rightarrow> string" where
  "createStmt drv qt =
     (if drv = DriverPostgres then
        ''CREATE TABLE IF NOT EXISTS '' @ qt @ '' ('' @ nl @
        ''    version BIGINT PRIMARY KEY,'' @ nl @
        ''    name TEXT NOT NULL,'' @ nl @
        ''    checksum TEXT NOT NULL DEFAULT '' @ empty_literal @ '','' @ nl @
        ''    applied_at TIMESTAMPTZ NOT NULL DEFAULT NOW()'' @ nl @ '')''
      else if drv = DriverMySQL then
        ''CREATE TABLE IF NOT EXISTS '' @ qt @ '' ('' @ nl @
        ''    version BIGINT PRIMARY KEY,'' @ nl @
        ''    name VARCHAR(255) NOT NULL,'' @ nl @
        ''    checksum VARCHAR(64) NOT NULL DEFAULT '' @ empty_literal @ '','' @ nl @
        ''    applied_at DATETIME(6) NOT NULL'' @ nl @ '')''
      else
        ''CREATE TABLE IF NOT EXISTS '' @ qt @ '' ('' @ nl @
        ''    version INTEGER PRIMARY KEY,'' @ nl @
        ''    name TEXT NOT NULL,'' @ nl @
        ''    checksum TEXT NOT NULL DEFAULT '' @ empty_literal @ '','' @ nl @
        ''    applied_at DATETIME NOT NULL'' @ nl @ '')'')"

definition checksumColumnType :: "driver \<Rightarrow> string" where
  "checksumColumnType drv =
     (if drv = DriverMySQL then ''VARCHAR(64) NOT NULL DEFAULT '' @ empty_literal
      else ''TEXT NOT NULL DEFAULT '' @ empty_literal)"

definition alterStmt :: "driver \<Rightarrow> string \<Rightarrow> string" where
  "alterStmt drv qt = ''ALTER TABLE '' @ qt @ '' ADD COLUMN checksum '' @ checksumColumnType drv"

definition selectStmt :: "string \<Rightarrow> string" where
  "selectStmt qt = ''SELECT version, name, applied_at, checksum FROM '' @ qt @ '' ORDER BY version ASC''"

definition insertAppliedStmt :: "driver \<Rightarrow> string \<Rightarrow> string" where
  "insertAppliedStmt drv qt =
     (if drv = DriverPostgres
      then ''INSERT INTO '' @ qt @ '' (version, name, checksum, applied_at) VALUES ($1, $2, $3, $4)''
      else ''INSERT INTO '' @ qt @ '' (version, name, checksum, applied_at) VALUES (?, ?, ?, ?)'')"

definition deleteAppliedStmt :: "driver \<Rightarrow> string \<Rightarrow> string" where
  "deleteAppliedStmt drv qt =
     (if drv = DriverPostgres then ''DELETE FROM '' @ qt @ '' WHERE version = $1''
      else ''DELETE FROM '' @ qt @ '' WHERE version = ?'')"

text \<open>The answer to the \<^verbatim>\<open>ALTER\<close> is ignored: on a table that has the column it fails.\<close>

definition ensure :: "('s, 'c) conn_db \<Rightarrow> 'c \<Rightarrow> ('s, 'c) migrator \<Rightarrow> 's \<Rightarrow> mig_error option \<times> 's" where
  "ensure db ctx m s =
     (case cd_Exec db ctx (createStmt (mr_dialect m) (mr_quotedTable m)) [] s of
        (Some e, s1) \<Rightarrow> (Some (EnsureError e), s1)
      | (None, s1) \<Rightarrow> (None, snd (cd_Exec db ctx (alterStmt (mr_dialect m) (mr_quotedTable m)) [] s1)))"

definition Ensure :: "('s, 'c) conn_db \<Rightarrow> 'c \<Rightarrow> ('s, 'c) migrator \<Rightarrow> 's \<Rightarrow> mig_error option \<times> ('s, 'c) migrator \<times> 's" where
  "Ensure db ctx m s =
     (if mr_ensureOnce m then (mr_ensureErr m, m, s)
      else (case ensure db ctx m s of
          (e, s1) \<Rightarrow> (e, m\<lparr>mr_ensureOnce := True, mr_ensureErr := e\<rparr>, s1)))"

fun scan_applied :: "(string, applied_row) result list \<Rightarrow> applied list \<Rightarrow> (mig_error, applied list) result" where
  "scan_applied [] out = Inr out"
| "scan_applied (Inl e # rs) out = Inl (ScanFailed e)"
| "scan_applied (Inr (v, n, t, c) # rs) out =
     scan_applied rs (out @ [\<lparr>ap_Version = v, ap_Name = n, ap_AppliedAt = t, ap_Checksum = (case c of Some x \<Rightarrow> x | None \<Rightarrow> [])\<rparr>])"

text \<open>The rows read so far are returned even with an error of the iteration.\<close>

definition Applied :: "('s, 'c) conn_db \<Rightarrow> 'c \<Rightarrow> ('s, 'c) migrator \<Rightarrow> 's \<Rightarrow>
    (applied list \<times> mig_error option) \<times> ('s, 'c) migrator \<times> 's" where
  "Applied db ctx m s =
     (case Ensure db ctx m s of
        (Some e, m1, s1) \<Rightarrow> (([], Some e), m1, s1)
      | (None, m1, s1) \<Rightarrow>
          (case cd_QueryApplied db ctx (selectStmt (mr_quotedTable m1)) s1 of
             (Inl e, s2) \<Rightarrow> (([], Some (QueryError e)), m1, s2)
           | (Inr rows, s2) \<Rightarrow>
               (case scan_applied (rs_Rows rows) [] of
                  Inl e \<Rightarrow> (([], Some e), m1, s2)
                | Inr out \<Rightarrow> ((out, map_option RowsError (rs_Err rows)), m1, s2))))"

fun verify_loop :: "(int, applied) gomap \<Rightarrow> ('s, 'c) migration list \<Rightarrow> mig_error option" where
  "verify_loop recorded [] = None"
| "verify_loop recorded (mg # migs) =
     (case mget recorded (mg_Version mg) of
        None \<Rightarrow> verify_loop recorded migs
      | Some a \<Rightarrow>
          if mg_Checksum mg = [] \<or> ap_Checksum a = [] then verify_loop recorded migs
          else if ap_Checksum a \<noteq> mg_Checksum mg
          then Some (ChecksumMismatch (mg_Version mg) (mg_Name mg) (ap_Checksum a) (mg_Checksum mg))
          else verify_loop recorded migs)"

definition recorded_map :: "applied list \<Rightarrow> (int, applied) gomap" where
  "recorded_map rows = fold (\<lambda>a m. mput (ap_Version a) a m) rows []"

definition Verify :: "('s, 'c) conn_db \<Rightarrow> 'c \<Rightarrow> ('s, 'c) migrator \<Rightarrow> 's \<Rightarrow> mig_error option \<times> ('s, 'c) migrator \<times> 's" where
  "Verify db ctx m s =
     (case Applied db ctx m s of
        ((rows, Some e), m1, s1) \<Rightarrow> (Some e, m1, s1)
      | ((rows, None), m1, s1) \<Rightarrow> (verify_loop (recorded_map rows) (mr_migs m1), m1, s1))"

definition Pending :: "('s, 'c) conn_db \<Rightarrow> 'c \<Rightarrow> ('s, 'c) migrator \<Rightarrow> 's \<Rightarrow>
    (('s, 'c) migration list \<times> mig_error option) \<times> ('s, 'c) migrator \<times> 's" where
  "Pending db ctx m s =
     (case Applied db ctx m s of
        ((rows, Some e), m1, s1) \<Rightarrow> (([], Some e), m1, s1)
      | ((rows, None), m1, s1) \<Rightarrow>
          (let seen = recorded_map rows
           in ((filter (\<lambda>mg. mget seen (mg_Version mg) = None) (mr_migs m1), None), m1, s1)))"

section \<open>The advisory lock\<close>

record advisoryLock =
  lk_conn :: nat
  lk_driver :: driver
  lk_key :: int
  lk_name :: string
  lk_deleted :: bool

text \<open>\<^verbatim>\<open>hash/fnv\<close>, variant 1a with 64 bits, on the bytes of a string.\<close>

definition fnv64a :: "string \<Rightarrow> 64 word" where
  "fnv64a s = fold (\<lambda>c h. (h XOR word_of_nat (of_char c)) * 1099511628211) s 14695981039346656037"

definition lockKey :: "string \<Rightarrow> int" where
  "lockKey table = sint (fnv64a (''nika:migration:'' @ table) AND 0x7fffffffffffffff)"

text \<open>
  The wait of MySQL is in whole seconds: \<^verbatim>\<open>int(timeout.Seconds())\<close> drops the fraction. SQLite has no lock; a
  driver that is none of the three takes the connection and asks for nothing.
\<close>

definition acquireLock :: "('s, 'c) conn_db \<Rightarrow> 'c \<Rightarrow> ('s, 'c) migrator \<Rightarrow> 's \<Rightarrow> (mig_error, advisoryLock option) result \<times> 's" where
  "acquireLock db ctx m s =
     (if mr_dialect m = DriverSQLite then (Inr None, s)
      else
        (let timeout = (if mr_lockTimeout m \<le> 0 then defaultLockTimeout else mr_lockTimeout m)
         in case cd_Conn db ctx s of
              (Inl e, s1) \<Rightarrow> (Inl (LockConnection e), s1)
            | (Inr conn, s1) \<Rightarrow>
                (let lock = \<lparr>lk_conn = conn, lk_driver = mr_dialect m, lk_key = lockKey (mr_table m),
                       lk_name = ''nika_migration_'' @ mr_table m, lk_deleted = False\<rparr>;
                     waitCtx = cd_WithTimeout db ctx timeout
                 in if mr_dialect m = DriverPostgres then
                      (case cd_ConnExec db conn waitCtx ''SELECT pg_advisory_lock($1)'' [AInt (lk_key lock)] s1 of
                         (Some e, s2) \<Rightarrow> (Inl (LockQuery e), snd (cd_ConnClose db conn s2))
                       | (None, s2) \<Rightarrow> (Inr (Some lock), s2))
                    else if mr_dialect m = DriverMySQL then
                      (case cd_ConnQueryInt db conn waitCtx ''SELECT GET_LOCK(?, ?)'' [AStr (lk_name lock), AInt (timeout div second_ns)] s1 of
                         (Inl e, s2) \<Rightarrow> (Inl (LockQuery e), snd (cd_ConnClose db conn s2))
                       | (Inr granted, s2) \<Rightarrow>
                           if granted \<noteq> Some 1 then (Inl (LockHeld (lk_name lock) timeout), snd (cd_ConnClose db conn s2))
                           else (Inr (Some lock), s2))
                    else (Inr (Some lock), s1))))"

definition release :: "('s, 'c) conn_db \<Rightarrow> 'c \<Rightarrow> advisoryLock option \<Rightarrow> 's \<Rightarrow> string option \<times> advisoryLock option \<times> 's" where
  "release db ctx l s =
     (case l of
        None \<Rightarrow> (None, l, s)
      | Some lock \<Rightarrow>
          if lk_deleted lock then (None, l, s)
          else
            (let (err, s1) =
                   (if lk_driver lock = DriverPostgres
                    then cd_ConnExec db (lk_conn lock) ctx ''SELECT pg_advisory_unlock($1)'' [AInt (lk_key lock)] s
                    else if lk_driver lock = DriverMySQL
                    then cd_ConnExec db (lk_conn lock) ctx ''SELECT RELEASE_LOCK(?)'' [AStr (lk_name lock)] s
                    else (None, s));
                 (closeErr, s2) = cd_ConnClose db (lk_conn lock) s1
             in (if err = None then closeErr else err, Some (lock\<lparr>lk_deleted := True\<rparr>), s2)))"

section \<open>Running up and down\<close>

definition applyOne :: "('s, 'c) conn_db \<Rightarrow> 'c \<Rightarrow> ('s, 'c) migrator \<Rightarrow> ('s, 'c) migration \<Rightarrow> 's \<Rightarrow> claim_outcome \<times> 's" where
  "applyOne db ctx m mig s =
     claim_and_run db ctx (insertAppliedStmt (mr_dialect m) (mr_quotedTable m))
       (\<lambda>now. [AInt (mg_Version mig), AStr (mg_Name mig), AStr (mg_Checksum mig), ATime now]) (mg_Up mig) s"

definition rollbackOne :: "('s, 'c) conn_db \<Rightarrow> 'c \<Rightarrow> ('s, 'c) migrator \<Rightarrow> ('s, 'c) migration \<Rightarrow> 's \<Rightarrow> claim_outcome \<times> 's" where
  "rollbackOne db ctx m mig s =
     (case cd_Begin db ctx s of
        (Some e, s1) \<Rightarrow> (ClaimReturns (Some (BeginTx e)), s1)
      | (None, s1) \<Rightarrow>
          (case run_body (mg_Down mig) ctx s1 of
             (BodyPanics, s2) \<Rightarrow> (ClaimPanics, snd (cd_Rollback db s2))
           | (BodyReturns (Some e), s2) \<Rightarrow> (ClaimReturns (Some (BodyError e)), snd (cd_Rollback db s2))
           | (BodyReturns None, s2) \<Rightarrow>
               (case cd_TxExec db ctx (deleteAppliedStmt (mr_dialect m) (mr_quotedTable m)) [AInt (mg_Version mig)] s2 of
                  (Some e, s3) \<Rightarrow> (ClaimReturns (Some (DeleteApplied e)), snd (cd_Rollback db s3))
                | (None, s3) \<Rightarrow>
                    (case cd_Commit db s3 of
                       (Some e, s4) \<Rightarrow> (ClaimReturns (Some (CommitError e)), s4)
                     | (None, s4) \<Rightarrow> (ClaimReturns None, s4)))))"

text \<open>What a run gives: the versions done and an error, or a panic of a body that goes on to the caller.\<close>

datatype run_outcome = Ran "int list" "mig_error option" | RunPanics

fun apply_loop :: "('s, 'c) conn_db \<Rightarrow> 'c \<Rightarrow> ('s, 'c) migrator \<Rightarrow> ('s, 'c) migration list \<Rightarrow> int list \<Rightarrow> 's \<Rightarrow> run_outcome \<times> 's" where
  "apply_loop db ctx m [] done_vs s = (Ran done_vs None, s)"
| "apply_loop db ctx m (mig # migs) done_vs s =
     (case applyOne db ctx m mig s of
        (ClaimPanics, s1) \<Rightarrow> (RunPanics, s1)
      | (ClaimReturns (Some e), s1) \<Rightarrow> (Ran done_vs (Some (ApplyFailed (mg_Version mig) (mg_Name mig) e)), s1)
      | (ClaimReturns None, s1) \<Rightarrow> apply_loop db ctx m migs (done_vs @ [mg_Version mig]) s1)"

text \<open>The part of \<^verbatim>\<open>UpN\<close> under the lock, and the whole: the lock is released however the run ends.\<close>

definition up_locked :: "('s, 'c) conn_db \<Rightarrow> 'c \<Rightarrow> int \<Rightarrow> ('s, 'c) migrator \<Rightarrow> 's \<Rightarrow> run_outcome \<times> ('s, 'c) migrator \<times> 's" where
  "up_locked db ctx n m s =
     (case Verify db ctx m s of
        (Some e, m1, s1) \<Rightarrow> (Ran [] (Some e), m1, s1)
      | (None, m1, s1) \<Rightarrow>
          (case Pending db ctx m1 s1 of
             ((pending, Some e), m2, s2) \<Rightarrow> (Ran [] (Some e), m2, s2)
           | ((pending, None), m2, s2) \<Rightarrow>
               (let todo = (if n > 0 \<and> n < int (length pending) then take (nat n) pending else pending);
                    (r, s3) = apply_loop db ctx m2 todo [] s2
                in (r, m2, s3))))"

definition UpN :: "('s, 'c) conn_db \<Rightarrow> 'c \<Rightarrow> int \<Rightarrow> ('s, 'c) migrator \<Rightarrow> 's \<Rightarrow> run_outcome \<times> ('s, 'c) migrator \<times> 's" where
  "UpN db ctx n m s =
     (case Ensure db ctx m s of
        (Some e, m1, s1) \<Rightarrow> (Ran [] (Some e), m1, s1)
      | (None, m1, s1) \<Rightarrow>
          (case acquireLock db ctx m1 s1 of
             (Inl e, s2) \<Rightarrow> (Ran [] (Some e), m1, s2)
           | (Inr lock, s2) \<Rightarrow>
               (let (r, m3, s3) = up_locked db ctx n m1 s2;
                    (_, _, s4) = release db ctx lock s3
                in (r, m3, s4))))"

definition Up :: "('s, 'c) conn_db \<Rightarrow> 'c \<Rightarrow> ('s, 'c) migrator \<Rightarrow> 's \<Rightarrow> run_outcome \<times> ('s, 'c) migrator \<times> 's" where
  "Up db ctx m s = UpN db ctx 0 m s"

fun rollback_loop :: "('s, 'c) conn_db \<Rightarrow> 'c \<Rightarrow> ('s, 'c) migrator \<Rightarrow> (int, ('s, 'c) migration) gomap \<Rightarrow> int \<Rightarrow> applied list \<Rightarrow> int list \<Rightarrow> 's \<Rightarrow>
    run_outcome \<times> 's" where
  "rollback_loop db ctx m byVersion n [] rolled s = (Ran rolled None, s)"
| "rollback_loop db ctx m byVersion n (a # as) rolled s =
     (if int (length rolled) < n then
        (case mget byVersion (ap_Version a) of
           None \<Rightarrow> (Ran rolled (Some (NotRegistered (ap_Version a) (ap_Name a))), s)
         | Some mig \<Rightarrow>
             if mg_Down mig = None then (Ran rolled (Some (NoDownFunction (mg_Version mig) (mg_Name mig))), s)
             else (case rollbackOne db ctx m mig s of
                 (ClaimPanics, s1) \<Rightarrow> (RunPanics, s1)
               | (ClaimReturns (Some e), s1) \<Rightarrow> (Ran rolled (Some (RollbackError (mg_Version mig) (mg_Name mig) e)), s1)
               | (ClaimReturns None, s1) \<Rightarrow> rollback_loop db ctx m byVersion n as (rolled @ [mg_Version mig]) s1))
      else (Ran rolled None, s))"

definition down_locked :: "('s, 'c) conn_db \<Rightarrow> 'c \<Rightarrow> int \<Rightarrow> ('s, 'c) migrator \<Rightarrow> 's \<Rightarrow> run_outcome \<times> ('s, 'c) migrator \<times> 's" where
  "down_locked db ctx n m s =
     (case Applied db ctx m s of
        ((rows, Some e), m1, s1) \<Rightarrow> (Ran [] (Some e), m1, s1)
      | ((rows, None), m1, s1) \<Rightarrow>
          (if rows = [] then (Ran [] None, m1, s1)
           else
             (let byVersion = fold (\<lambda>mg mp. mput (mg_Version mg) mg mp) (mr_migs m1) [];
                  (r, s2) = rollback_loop db ctx m1 byVersion n (rev rows) [] s1
              in (r, m1, s2))))"

definition DownN :: "('s, 'c) conn_db \<Rightarrow> 'c \<Rightarrow> int \<Rightarrow> ('s, 'c) migrator \<Rightarrow> 's \<Rightarrow> run_outcome \<times> ('s, 'c) migrator \<times> 's" where
  "DownN db ctx n m s =
     (if n \<le> 0 then (Ran [] None, m, s)
      else
        (case Ensure db ctx m s of
           (Some e, m1, s1) \<Rightarrow> (Ran [] (Some e), m1, s1)
         | (None, m1, s1) \<Rightarrow>
             (case acquireLock db ctx m1 s1 of
                (Inl e, s2) \<Rightarrow> (Ran [] (Some e), m1, s2)
              | (Inr lock, s2) \<Rightarrow>
                  (let (r, m3, s3) = down_locked db ctx n m1 s2;
                       (_, _, s4) = release db ctx lock s3
                   in (r, m3, s4)))))"

text \<open>\<^verbatim>\<open>Down\<close> gives one version, 0 with an error or with nothing to undo.\<close>

definition Down :: "('s, 'c) conn_db \<Rightarrow> 'c \<Rightarrow> ('s, 'c) migrator \<Rightarrow> 's \<Rightarrow> (int \<times> mig_error option) option \<times> ('s, 'c) migrator \<times> 's" where
  "Down db ctx m s =
     (case DownN db ctx 1 m s of
        (RunPanics, m1, s1) \<Rightarrow> (None, m1, s1)
      | (Ran versions err, m1, s1) \<Rightarrow>
          (Some (if err \<noteq> None \<or> versions = [] then (0, err) else (versions ! 0, None)), m1, s1))"

section \<open>What the tracking table promises\<close>

text \<open>The content of the database is the tracking table, by version, and everything else.\<close>

type_synonym 'd mig_world = "(int \<rightharpoonup> applied) \<times> 'd"

definition record_of :: "('s, 'c) migration \<Rightarrow> int \<Rightarrow> applied" where
  "record_of mg t = \<lparr>ap_Version = mg_Version mg, ap_Name = mg_Name mg, ap_AppliedAt = t, ap_Checksum = mg_Checksum mg\<rparr>"

definition rows_map :: "applied list \<Rightarrow> int \<rightharpoonup> applied" where
  "rows_map rows = map_of (map (\<lambda>a. (ap_Version a, a)) rows)"

locale migration_table = tx_db db committed working
  for db :: "('s, 'c) conn_db" and committed working :: "'s \<Rightarrow> 'd mig_world" +
  fixes drv :: driver and qt :: string
  assumes ddl_keeps: "q \<in> {createStmt drv qt, alterStmt drv qt} \<Longrightarrow> committed (snd (cd_Exec db ctx q [] s)) = committed s"
    and query_keeps: "committed (snd (cd_QueryApplied db ctx (selectStmt qt) s)) = committed s"
    and query_reads: "fst (cd_QueryApplied db ctx (selectStmt qt) s) = Inr rows \<Longrightarrow> rs_Err rows = None \<Longrightarrow>
      scan_applied (rs_Rows rows) [] = Inr out \<Longrightarrow>
      sorted_wrt (<) (map ap_Version out) \<and> rows_map out = fst (committed s)"
    and insert_claims: "cd_TxExec db ctx (insertAppliedStmt drv qt) [AInt v, AStr n, AStr c, ATime t] s = (None, s') \<Longrightarrow>
      fst (working s) v = None \<and>
      working s' = ((fst (working s))(v \<mapsto> \<lparr>ap_Version = v, ap_Name = n, ap_AppliedAt = t, ap_Checksum = c\<rparr>), snd (working s))"
    and delete_frees: "cd_TxExec db ctx (deleteAppliedStmt drv qt) [AInt v] s = (None, s') \<Longrightarrow>
      working s' = ((fst (working s))(v := None), snd (working s))"
    and conn_keeps: "committed (snd (cd_Conn db ctx s)) = committed s"
      "committed (snd (cd_ConnExec db i ctx q args s)) = committed s"
      "committed (snd (cd_ConnQueryInt db i ctx q args s)) = committed s"
      "committed (snd (cd_ConnClose db i s)) = committed s"

section \<open>The abstract run\<close>

text \<open>The versions of a list, applied one after the other at given times, and undone.\<close>

definition migrated :: "(int \<Rightarrow> 'd \<Rightarrow> 'd) \<Rightarrow> (('s, 'c) migration \<times> int) list \<Rightarrow> 'd mig_world \<Rightarrow> 'd mig_world" where
  "migrated eff steps w =
     fold (\<lambda>(mg, t) (T, d). (T(mg_Version mg \<mapsto> record_of mg t), eff (mg_Version mg) d)) steps w"

definition undone :: "(int \<Rightarrow> 'd \<Rightarrow> 'd) \<Rightarrow> int list \<Rightarrow> 'd mig_world \<Rightarrow> 'd mig_world" where
  "undone eff vs w = fold (\<lambda>v (T, d). (T(v := None), eff v d)) vs w"

definition up_todo :: "int \<Rightarrow> (int \<rightharpoonup> applied) \<Rightarrow> ('s, 'c) migration list \<Rightarrow> ('s, 'c) migration list" where
  "up_todo n T migs =
     (let pending = filter (\<lambda>mg. T (mg_Version mg) = None) migs
      in if n > 0 \<and> n < int (length pending) then take (nat n) pending else pending)"

text \<open>
  How a run over a list of migrations may end with \<open>k\<close> of them durable: a success did all; an error names
  those done before it, and only an error of a commit may leave one more; a panic stops before the end.
\<close>

definition run_ends :: "run_outcome \<Rightarrow> int list \<Rightarrow> nat \<Rightarrow> bool" where
  "run_ends r vs k \<longleftrightarrow>
     (case r of
        Ran ds None \<Rightarrow> ds = vs \<and> k = length vs
      | Ran ds (Some e) \<Rightarrow> prefix ds vs \<and>
          (k = length ds \<or>
           k = Suc (length ds) \<and> k \<le> length vs \<and>
           (\<exists>name x. e = ApplyFailed (vs ! length ds) name (CommitError x) \<or> e = RollbackError (vs ! length ds) name (CommitError x)))
      | RunPanics \<Rightarrow> k < length vs)"

lemma migrated_Nil [simp]: "migrated eff [] w = w"
  by (simp add: migrated_def)

lemma migrated_Cons [simp]:
  "migrated eff ((mg, t) # steps) w = migrated eff steps ((fst w)(mg_Version mg \<mapsto> record_of mg t), eff (mg_Version mg) (snd w))"
  by (simp add: migrated_def case_prod_beta)

lemma undone_Nil [simp]: "undone eff [] w = w"
  by (simp add: undone_def)

lemma undone_Cons [simp]: "undone eff (v # vs) w = undone eff vs ((fst w)(v := None), eff v (snd w))"
  by (simp add: undone_def case_prod_beta)

section \<open>Reading the table\<close>

lemma recorded_map_gen: "mget (fold (\<lambda>a m. mput (ap_Version a) a m) rows m0) v =
    (case rows_map (rev rows) v of Some a \<Rightarrow> Some a | None \<Rightarrow> mget m0 v)"
  by (induction rows arbitrary: m0) (auto simp: rows_map_def map_add_def split: option.splits)

lemma recorded_map_lookup:
  assumes "sorted_wrt (<) (map ap_Version rows)"
  shows "mget (recorded_map rows) v = rows_map rows v"
proof -
  have "distinct (map ap_Version rows)" using assms by (simp add: strict_sorted_iff)
  then have "rows_map (rev rows) = rows_map rows"
    unfolding rows_map_def by (subst rev_map [symmetric], intro map_of_inject_set [THEN iffD2]) (auto simp: comp_def rev_map [symmetric])
  then show ?thesis by (simp add: recorded_map_def recorded_map_gen split: option.splits)
qed

definition same_setup :: "('s, 'c) migrator \<Rightarrow> ('s, 'c) migrator \<Rightarrow> bool" where
  "same_setup m m' \<longleftrightarrow> mr_quotedTable m' = mr_quotedTable m \<and> mr_dialect m' = mr_dialect m \<and> mr_migs m' = mr_migs m"

lemma same_setup_refl [simp]: "same_setup m m"
  by (simp add: same_setup_def)

lemma same_setup_trans: "same_setup a b \<Longrightarrow> same_setup b c \<Longrightarrow> same_setup a c"
  by (simp add: same_setup_def)

section \<open>Runs against the table\<close>

context migration_table
begin

lemma ensure_keeps:
  assumes "Ensure db ctx m s = (r, m1, s1)" and "mr_dialect m = drv" and "mr_quotedTable m = qt"
  shows "committed s1 = committed s \<and> same_setup m m1"
proof -
  have "committed (snd (ensure db ctx m s)) = committed s"
    using ddl_keeps [of "createStmt drv qt" ctx s] ddl_keeps [of "alterStmt drv qt" ctx] assms(2,3)
    by (auto simp: ensure_def split: prod.splits option.splits)
  with assms show ?thesis by (auto simp: Ensure_def same_setup_def split: if_splits prod.splits)
qed

lemma applied_keeps:
  assumes run: "Applied db ctx m s = (r, m1, s1)" and m: "mr_dialect m = drv" "mr_quotedTable m = qt"
  shows "committed s1 = committed s \<and> same_setup m m1 \<and>
    (\<forall>rows. r = (rows, None) \<longrightarrow> sorted_wrt (<) (map ap_Version rows) \<and> rows_map rows = fst (committed s))"
proof -
  obtain e m2 s2 where en: "Ensure db ctx m s = (e, m2, s2)" by (cases "Ensure db ctx m s")
  obtain a s3 where q: "cd_QueryApplied db ctx (selectStmt qt) s2 = (a, s3)" by fastforce
  have k: "committed s2 = committed s" "same_setup m m2" using ensure_keeps [OF en m] by simp_all
  have k3: "committed s3 = committed s" using query_keeps [of ctx s2] q k by simp
  have qt2: "mr_quotedTable m2 = qt" using k(2) m by (simp add: same_setup_def)
  have read: "sorted_wrt (<) (map ap_Version out) \<and> rows_map out = fst (committed s)"
    if "a = Inr rows" "rs_Err rows = None" "scan_applied (rs_Rows rows) [] = Inr out" for rows out
    using query_reads [of ctx s2 rows out] that q k by simp
  show ?thesis
    using run en q k k3 qt2 read by (auto simp: Applied_def split: option.splits sum.splits)
qed

lemma verify_keeps:
  assumes run: "Verify db ctx m s = (r, m1, s1)" and m: "mr_dialect m = drv" "mr_quotedTable m = qt"
  shows "committed s1 = committed s \<and> same_setup m m1 \<and>
    (r = None \<longrightarrow> list_all (\<lambda>mg. \<forall>a. fst (committed s) (mg_Version mg) = Some a \<longrightarrow>
       mg_Checksum mg = [] \<or> ap_Checksum a = [] \<or> ap_Checksum a = mg_Checksum mg) (mr_migs m))"
proof -
  obtain rows e m2 s2 where ap: "Applied db ctx m s = ((rows, e), m2, s2)" by (metis prod.exhaust)
  note keeps = applied_keeps [OF ap m]
  have vl: "verify_loop mp migs = None \<Longrightarrow> list_all (\<lambda>mg. \<forall>a. mget mp (mg_Version mg) = Some a \<longrightarrow>
       mg_Checksum mg = [] \<or> ap_Checksum a = [] \<or> ap_Checksum a = mg_Checksum mg) migs" for mp and migs :: "('s, 'c) migration list"
    by (induction mp migs rule: verify_loop.induct) (auto split: option.splits if_splits)
  show ?thesis
  proof (cases e)
    case None
    then have "mget (recorded_map rows) = fst (committed s)"
      using keeps by (auto simp: recorded_map_lookup)
    with None show ?thesis using run ap keeps vl [of "recorded_map rows" "mr_migs m2"]
      by (auto simp: Verify_def same_setup_def)
  qed (use run ap keeps in \<open>auto simp: Verify_def\<close>)
qed

lemma pending_keeps:
  assumes run: "Pending db ctx m s = ((pend, r), m1, s1)" and m: "mr_dialect m = drv" "mr_quotedTable m = qt"
  shows "committed s1 = committed s \<and> same_setup m m1 \<and>
    (r = None \<longrightarrow> pend = filter (\<lambda>mg. fst (committed s) (mg_Version mg) = None) (mr_migs m))"
proof -
  obtain rows e m2 s2 where ap: "Applied db ctx m s = ((rows, e), m2, s2)" by (metis prod.exhaust)
  note keeps = applied_keeps [OF ap m]
  show ?thesis
    using run ap keeps by (cases e) (auto simp: Pending_def Let_def recorded_map_lookup same_setup_def)
qed

lemma acquire_keeps: "committed (snd (acquireLock db ctx m s)) = committed s"
  by (auto simp: acquireLock_def Let_def case_prod_beta conn_keeps split: sum.split option.split)

lemma release_keeps: "committed (snd (snd (release db ctx l s))) = committed s"
  by (auto simp: release_def Let_def case_prod_beta conn_keeps split: option.split)

text \<open>One migration: it claims a version nobody has and takes effect with its record, or nothing happens.\<close>

lemma applyOne_success:
  assumes run: "applyOne db ctx m mg s = (ClaimReturns None, s')" and m: "mr_dialect m = drv" "mr_quotedTable m = qt"
    and body: "in_transaction committed working ctx (mg_Up mg) eff"
  shows "fst (committed s) (mg_Version mg) = None \<and>
    (\<exists>t. committed s' = ((fst (committed s))(mg_Version mg \<mapsto> record_of mg t), eff (snd (committed s))))"
proof -
  obtain s1 s2 s3 where w: "working s1 = committed s"
    and x: "cd_TxExec db ctx (insertAppliedStmt drv qt) [AInt (mg_Version mg), AStr (mg_Name mg), AStr (mg_Checksum mg), ATime (cd_Now db s1)] s1 = (None, s2)"
    and y: "run_body (mg_Up mg) ctx s2 = (BodyReturns None, s3)" and c: "committed s' = working s3"
    using claim_success [OF run [unfolded applyOne_def m]] by blast
  show ?thesis
    using insert_claims [OF x] in_transactionD [OF body y] w c by (auto simp: record_of_def)
qed

lemma applyOne_failure:
  assumes run: "applyOne db ctx m mg s = (r, s')" and "r \<noteq> ClaimReturns None" and m: "mr_dialect m = drv" "mr_quotedTable m = qt"
    and body: "in_transaction committed working ctx (mg_Up mg) eff"
  shows "committed s' = committed s \<or>
    (\<exists>e t. r = ClaimReturns (Some (CommitError e)) \<and> fst (committed s) (mg_Version mg) = None \<and>
      committed s' = ((fst (committed s))(mg_Version mg \<mapsto> record_of mg t), eff (snd (committed s))))"
proof -
  have keeps: "committed (snd (run_body (mg_Up mg) ctx t)) = committed t" for t
    using body by (auto simp: in_transaction_def split: prod.splits) (metis snd_conv prod.collapse)
  have "\<exists>t. fst (committed s) (mg_Version mg) = None \<and>
      committed s' = ((fst (committed s))(mg_Version mg \<mapsto> record_of mg t), eff (snd (committed s)))"
    if "working s1 = committed s"
      "cd_TxExec db ctx (insertAppliedStmt drv qt) [AInt (mg_Version mg), AStr (mg_Name mg), AStr (mg_Checksum mg), ATime (cd_Now db s1)] s1 = (None, s2)"
      "run_body (mg_Up mg) ctx s2 = (BodyReturns None, s3)" "committed s' = working s3" for s1 s2 s3
    using insert_claims [OF that(2)] in_transactionD [OF body that(3)] that by (auto simp: record_of_def)
  with claim_failure [OF run [unfolded applyOne_def m] assms(2) keeps] show ?thesis by blast
qed

lemma apply_loop_durable:
  assumes "apply_loop db ctx m migs vs s = (r, s')" and m: "mr_dialect m = drv" "mr_quotedTable m = qt"
    and "\<forall>mg \<in> set migs. in_transaction committed working ctx (mg_Up mg) (eff (mg_Version mg))"
  shows "\<exists>k ts. k \<le> length migs \<and> length ts = k \<and> committed s' = migrated eff (zip (take k migs) ts) (committed s) \<and>
    (case r of
       Ran ds e \<Rightarrow> \<exists>ds'. ds = vs @ ds' \<and> run_ends (Ran ds' e) (map mg_Version migs) k
     | RunPanics \<Rightarrow> run_ends RunPanics (map mg_Version migs) k)"
  using assms(1,4)
proof (induction migs arbitrary: vs s)
  case Nil
  then show ?case by (auto simp: run_ends_def intro!: exI [of _ 0])
next
  case (Cons mg migs)
  obtain o1 s1 where one: "applyOne db ctx m mg s = (o1, s1)" by fastforce
  have body: "in_transaction committed working ctx (mg_Up mg) (eff (mg_Version mg))" using Cons.prems by simp
  show ?case
  proof (cases "o1 = ClaimReturns None")
    case True
    with one m body obtain t where w: "committed s1 = ((fst (committed s))(mg_Version mg \<mapsto> record_of mg t), eff (mg_Version mg) (snd (committed s)))"
      using applyOne_success by blast
    have "apply_loop db ctx m migs (vs @ [mg_Version mg]) s1 = (r, s')" using Cons.prems(1) one True by simp
    from Cons.IH [OF this] Cons.prems(2) obtain k ts where k: "k \<le> length migs" "length ts = k"
      "committed s' = migrated eff (zip (take k migs) ts) (committed s1)"
      and ends: "case r of
       Ran ds e \<Rightarrow> \<exists>ds'. ds = (vs @ [mg_Version mg]) @ ds' \<and> run_ends (Ran ds' e) (map mg_Version migs) k
     | RunPanics \<Rightarrow> run_ends RunPanics (map mg_Version migs) k" by auto
    have "case r of
       Ran ds e \<Rightarrow> \<exists>ds'. ds = vs @ ds' \<and> run_ends (Ran ds' e) (map mg_Version (mg # migs)) (Suc k)
     | RunPanics \<Rightarrow> run_ends RunPanics (map mg_Version (mg # migs)) (Suc k)"
      using ends by (cases r) (auto simp: run_ends_def split: option.splits)
    moreover have "committed s' = migrated eff (zip (take (Suc k) (mg # migs)) (t # ts)) (committed s)"
      using k w by simp
    ultimately show ?thesis using k by (intro exI [of _ "Suc k"] exI [of _ "t # ts"]) simp
  next
    case False
    have r: "r = (case o1 of ClaimPanics \<Rightarrow> RunPanics | ClaimReturns (Some e) \<Rightarrow> Ran vs (Some (ApplyFailed (mg_Version mg) (mg_Name mg) e)))" "s' = s1"
      using Cons.prems(1) one False by (auto split: claim_outcome.splits option.splits)
    from applyOne_failure [OF one False m body] consider "committed s' = committed s"
      | e t where "o1 = ClaimReturns (Some (CommitError e))"
        "committed s' = ((fst (committed s))(mg_Version mg \<mapsto> record_of mg t), eff (mg_Version mg) (snd (committed s)))"
      using r(2) by blast
    then show ?thesis
    proof cases
      case 1
      with r False show ?thesis
        by (intro exI [of _ 0] exI [of _ "[]"]) (auto simp: run_ends_def split: claim_outcome.splits option.splits)
    next
      case (2 e t)
      with r show ?thesis by (intro exI [of _ 1] exI [of _ "[t]"]) (auto simp: run_ends_def)
    qed
  qed
qed

text \<open>The whole run up. Nothing but the loop changes what is durable.\<close>

lemma UpN_durable:
  assumes run: "UpN db ctx n m s = (r, m', s')" and m: "mr_dialect m = drv" "mr_quotedTable m = qt"
    and bodies: "\<forall>mg \<in> set (mr_migs m). in_transaction committed working ctx (mg_Up mg) (eff (mg_Version mg))"
  shows "(\<exists>e. r = Ran [] (Some e)) \<and> committed s' = committed s \<or>
    (let todo = up_todo n (fst (committed s)) (mr_migs m)
     in \<exists>k ts. k \<le> length todo \<and> length ts = k \<and> committed s' = migrated eff (zip (take k todo) ts) (committed s) \<and>
       run_ends r (map mg_Version todo) k \<and>
       list_all (\<lambda>mg. \<forall>a. fst (committed s) (mg_Version mg) = Some a \<longrightarrow>
         mg_Checksum mg = [] \<or> ap_Checksum a = [] \<or> ap_Checksum a = mg_Checksum mg) (mr_migs m))"
proof -
  obtain e1 m1 s1 where en: "Ensure db ctx m s = (e1, m1, s1)" by (cases "Ensure db ctx m s")
  obtain l s2 where lk: "acquireLock db ctx m1 s1 = (l, s2)" by fastforce
  obtain e3 m3 s3 where ve: "Verify db ctx m1 s2 = (e3, m3, s3)" by (cases "Verify db ctx m1 s2")
  obtain pend e4 m4 s4 where pe: "Pending db ctx m3 s3 = ((pend, e4), m4, s4)" by (metis prod.exhaust)
  let ?todo = "if n > 0 \<and> n < int (length pend) then take (nat n) pend else pend"
  obtain r5 s5 where al: "apply_loop db ctx m4 ?todo [] s4 = (r5, s5)" by fastforce
  have rl: "committed (snd (snd (release db ctx x t))) = committed t" for x t by (rule release_keeps)
  note steps = en lk ve pe al
  have k1: "committed s1 = committed s" "same_setup m m1" using ensure_keeps [OF en m] by simp_all
  have m1: "mr_dialect m1 = drv" "mr_quotedTable m1 = qt" using k1(2) m by (simp_all add: same_setup_def)
  have k2: "committed s2 = committed s" using acquire_keeps [of ctx m1 s1] lk k1 by simp
  note k3 = verify_keeps [OF ve m1]
  have m3: "mr_dialect m3 = drv" "mr_quotedTable m3 = qt" using k3 m1 by (simp_all add: same_setup_def)
  note k4 = pending_keeps [OF pe m3]
  have m4: "mr_dialect m4 = drv" "mr_quotedTable m4 = qt" using k4 m3 by (simp_all add: same_setup_def)
  have migs: "mr_migs m1 = mr_migs m" "mr_migs m3 = mr_migs m" using k1(2) k3 by (simp_all add: same_setup_def)
  show ?thesis
  proof (cases "e1 = None \<and> e3 = None \<and> e4 = None \<and> (\<exists>x. l = Inr x)")
    case False
    then show ?thesis
      using run steps k1 k2 k3 k4 rl
      by (auto simp: UpN_def up_locked_def Let_def case_prod_beta split: option.splits sum.splits)
  next
    case True
    then obtain x where ok: "e1 = None" "e3 = None" "e4 = None" "l = Inr x" by blast
    have todo: "?todo = up_todo n (fst (committed s)) (mr_migs m)"
      using k4 k3 k2 migs ok by (simp add: up_todo_def Let_def)
    have out: "r = r5" "committed s' = committed s5"
      using run steps ok rl by (auto simp: UpN_def up_locked_def Let_def case_prod_beta)
    have set_todo: "set ?todo \<subseteq> set (mr_migs m)"
      using k4 migs ok by (auto dest: in_set_takeD split: if_splits)
    obtain k ts where k: "k \<le> length ?todo" "length ts = k" "committed s5 = migrated eff (zip (take k ?todo) ts) (committed s4)"
      and ends: "case r5 of
         Ran ds e \<Rightarrow> \<exists>ds'. ds = [] @ ds' \<and> run_ends (Ran ds' e) (map mg_Version ?todo) k
       | RunPanics \<Rightarrow> run_ends RunPanics (map mg_Version ?todo) k"
      using apply_loop_durable [OF al m4] bodies set_todo by blast
    have "run_ends r (map mg_Version ?todo) k" using ends out by (cases r5) auto
    then have "\<exists>k ts. k \<le> length ?todo \<and> length ts = k \<and> committed s' = migrated eff (zip (take k ?todo) ts) (committed s) \<and>
        run_ends r (map mg_Version ?todo) k"
      using k out k2 k3 k4 by (intro exI [of _ k] exI [of _ ts]) simp
    then show ?thesis using k3 k2 ok migs unfolding todo Let_def by simp
  qed
qed

end

lemma by_version_lookup:
  "mget (fold (\<lambda>mg mp. mput (mg_Version mg) mg mp) migs mp0) v = Some mg \<Longrightarrow>
    mg \<in> set migs \<and> mg_Version mg = v \<or> mget mp0 v = Some mg"
  by (induction migs arbitrary: mp0) (fastforce split: if_splits)+

lemma rows_map_dom: "dom (rows_map rows) = set (map ap_Version rows)"
  by (force simp: rows_map_def dom_map_of_conv_image_fst)

section \<open>Undoing\<close>

context migration_table
begin

lemma rollbackOne_success:
  assumes run: "rollbackOne db ctx m mg s = (ClaimReturns None, s')" and m: "mr_dialect m = drv" "mr_quotedTable m = qt"
    and body: "in_transaction committed working ctx (mg_Down mg) eff"
  shows "committed s' = ((fst (committed s))(mg_Version mg := None), eff (snd (committed s)))"
proof -
  obtain s1 where b: "cd_Begin db ctx s = (None, s1)"
    using run by (auto simp: rollbackOne_def split: prod.splits option.splits)
  obtain s2 where y: "run_body (mg_Down mg) ctx s1 = (BodyReturns None, s2)"
    using run b by (auto simp: rollbackOne_def split: prod.splits option.splits body_outcome.splits)
  obtain s3 where x: "cd_TxExec db ctx (deleteAppliedStmt drv qt) [AInt (mg_Version mg)] s2 = (None, s3)"
    using run b y m by (auto simp: rollbackOne_def split: prod.splits option.splits)
  have c: "cd_Commit db s3 = (None, s')"
    using run b x y m by (auto simp: rollbackOne_def split: prod.splits option.splits)
  show ?thesis
    using begin_starts [of ctx s] b in_transactionD [OF body y] delete_frees [OF x] commit_ok [of s3] c by simp
qed

lemma rollbackOne_failure:
  assumes run: "rollbackOne db ctx m mg s = (r, s')" and fails: "r \<noteq> ClaimReturns None" and m: "mr_dialect m = drv" "mr_quotedTable m = qt"
    and body: "in_transaction committed working ctx (mg_Down mg) eff"
  shows "committed s' = committed s \<or>
    (\<exists>e. r = ClaimReturns (Some (CommitError e)) \<and>
      committed s' = ((fst (committed s))(mg_Version mg := None), eff (snd (committed s))))"
proof -
  let ?del = "deleteAppliedStmt drv qt"
  obtain be s1 where b: "cd_Begin db ctx s = (be, s1)" by fastforce
  obtain ye s2 where y: "run_body (mg_Down mg) ctx s1 = (ye, s2)" by fastforce
  obtain xe s3 where x: "cd_TxExec db ctx ?del [AInt (mg_Version mg)] s2 = (xe, s3)" by fastforce
  obtain ce s4 where c: "cd_Commit db s3 = (ce, s4)" by fastforce
  note steps = b y x c m
  have keep: "committed s1 = committed s" "committed s2 = committed s1" "committed s3 = committed s2"
    using begin_keeps [of ctx s] exec_keeps [of ctx ?del "[AInt (mg_Version mg)]" s2] in_transactionD(1) [OF body y] steps by simp_all
  have rb: "committed (snd (cd_Rollback db t)) = committed t" for t
    by (rule rollback_keeps)
  consider "be \<noteq> None" | "be = None" "ye \<noteq> BodyReturns None" | "be = None" "ye = BodyReturns None" "xe \<noteq> None"
    | "be = None" "ye = BodyReturns None" "xe = None" by blast
  then show ?thesis
  proof cases
    case 4
    with run steps fails obtain e where ce: "ce = Some e" "r = ClaimReturns (Some (CommitError e))" "s' = s4"
      by (auto simp: rollbackOne_def split: option.splits)
    have "working s3 = ((fst (committed s))(mg_Version mg := None), eff (snd (committed s)))"
      using begin_starts [of ctx s] b in_transactionD(2) [OF body y] delete_frees [of ctx _ s2 s3] x 4 by simp
    with ce keep commit_fails [of s3] c show ?thesis by auto
  qed (use run steps keep rb in \<open>auto simp: rollbackOne_def split: option.splits body_outcome.splits\<close>)
qed

lemma rollback_loop_durable:
  assumes "rollback_loop db ctx m bv n as vs s = (r, s')" and m: "mr_dialect m = drv" "mr_quotedTable m = qt"
    and bodies: "\<forall>v mg. mget bv v = Some mg \<longrightarrow> mg_Version mg = v \<and> (mg_Down mg \<noteq> None \<longrightarrow> in_transaction committed working ctx (mg_Down mg) (eff v))"
    and "int (length vs) \<le> n"
  shows "\<exists>k \<le> length as. committed s' = undone eff (map ap_Version (take k as)) (committed s) \<and>
    (case r of
       Ran ds e \<Rightarrow> \<exists>ds'. ds = vs @ ds' \<and> run_ends (Ran ds' e) (map ap_Version (take (nat n - length vs) as)) k
     | RunPanics \<Rightarrow> run_ends RunPanics (map ap_Version (take (nat n - length vs) as)) k)"
  using assms(1,5)
proof (induction as arbitrary: vs s)
  case Nil
  then show ?case by (auto simp: run_ends_def)
next
  case (Cons a as)
  show ?case
  proof (cases "int (length vs) < n")
    case False
    with Cons.prems show ?thesis by (intro exI [of _ 0]) (auto simp: run_ends_def)
  next
    case True
    then obtain j where j: "nat n - length vs = Suc j" "nat n - Suc (length vs) = j" by (cases "nat n - length vs") auto
    show ?thesis
    proof (cases "\<exists>mig. mget bv (ap_Version a) = Some mig \<and> mg_Down mig \<noteq> None")
      case False
      then show ?thesis using Cons.prems True
        by (intro exI [of _ 0]) (auto simp: run_ends_def split: option.splits if_splits)
    next
      case True': True
      then obtain mig where mig: "mget bv (ap_Version a) = Some mig" "mg_Down mig \<noteq> None" by blast
      with bodies have v: "mg_Version mig = ap_Version a" and body: "in_transaction committed working ctx (mg_Down mig) (eff (ap_Version a))" by auto
      obtain o1 s1 where one: "rollbackOne db ctx m mig s = (o1, s1)" by fastforce
      show ?thesis
      proof (cases "o1 = ClaimReturns None")
        case ok: True
        have w: "committed s1 = ((fst (committed s))(ap_Version a := None), eff (ap_Version a) (snd (committed s)))"
          using rollbackOne_success [OF one [unfolded ok] m body] v by simp
        have "rollback_loop db ctx m bv n as (vs @ [ap_Version a]) s1 = (r, s')"
          using Cons.prems(1) True mig one ok v by auto
        moreover have jl: "nat n - length (vs @ [ap_Version a]) = j" "int (length (vs @ [ap_Version a])) \<le> n"
          using j True by simp_all
        ultimately obtain k where k: "k \<le> length as" "committed s' = undone eff (map ap_Version (take k as)) (committed s1)"
          and ends: "case r of
             Ran ds e \<Rightarrow> \<exists>ds'. ds = (vs @ [ap_Version a]) @ ds' \<and> run_ends (Ran ds' e) (map ap_Version (take j as)) k
           | RunPanics \<Rightarrow> run_ends RunPanics (map ap_Version (take j as)) k"
          using Cons.IH [of "vs @ [ap_Version a]" s1, unfolded jl(1)] by blast
        have "case r of
             Ran ds e \<Rightarrow> \<exists>ds'. ds = vs @ ds' \<and> run_ends (Ran ds' e) (map ap_Version (take (Suc j) (a # as))) (Suc k)
           | RunPanics \<Rightarrow> run_ends RunPanics (map ap_Version (take (Suc j) (a # as))) (Suc k)"
          using ends by (cases r) (auto simp: run_ends_def split: option.splits)
        then show ?thesis using k w unfolding j(1) by (intro exI [of _ "Suc k"]) simp
      next
        case bad: False
        have r: "r = (case o1 of ClaimPanics \<Rightarrow> RunPanics | ClaimReturns (Some e) \<Rightarrow> Ran vs (Some (RollbackError (ap_Version a) (mg_Name mig) e)))" "s' = s1"
          using Cons.prems(1) True mig one bad v by (auto split: claim_outcome.splits option.splits)
        from rollbackOne_failure [OF one bad m body] v consider "committed s' = committed s"
          | e where "o1 = ClaimReturns (Some (CommitError e))"
            "committed s' = ((fst (committed s))(ap_Version a := None), eff (ap_Version a) (snd (committed s)))"
          using r(2) by auto
        then show ?thesis
        proof cases
          case 1
          with r bad j show ?thesis
            by (intro exI [of _ 0]) (auto simp: run_ends_def split: claim_outcome.splits option.splits)
        next
          case (2 e)
          with r j show ?thesis by (intro exI [of _ 1]) (auto simp: run_ends_def)
        qed
      qed
    qed
  qed
qed

lemma DownN_durable:
  assumes run: "DownN db ctx n m s = (r, m', s')" and m: "mr_dialect m = drv" "mr_quotedTable m = qt"
    and bodies: "\<forall>mg \<in> set (mr_migs m). mg_Down mg \<noteq> None \<longrightarrow> in_transaction committed working ctx (mg_Down mg) (eff (mg_Version mg))"
  shows "((\<exists>e. r = Ran [] (Some e)) \<or> n \<le> 0 \<and> r = Ran [] None) \<and> committed s' = committed s \<or>
    (\<exists>vs k. set vs = dom (fst (committed s)) \<and> sorted_wrt (>) vs \<and> k \<le> length vs \<and>
       committed s' = undone eff (take k vs) (committed s) \<and> run_ends r (take (nat n) vs) k)"
proof (cases "n \<le> 0")
  case True
  then show ?thesis using run by (auto simp: DownN_def)
next
  case pos: False
  obtain e1 m1 s1 where en: "Ensure db ctx m s = (e1, m1, s1)" by (cases "Ensure db ctx m s")
  obtain l s2 where lk: "acquireLock db ctx m1 s1 = (l, s2)" by fastforce
  obtain rows e3 m3 s3 where ap: "Applied db ctx m1 s2 = ((rows, e3), m3, s3)" by (metis prod.exhaust)
  let ?bv = "fold (\<lambda>mg mp. mput (mg_Version mg) mg mp) (mr_migs m3) []"
  obtain r4 s4 where rl: "rollback_loop db ctx m3 ?bv n (rev rows) [] s3 = (r4, s4)" by fastforce
  have rk: "committed (snd (snd (release db ctx x t))) = committed t" for x t
    by (rule release_keeps)
  note steps = en lk ap rl
  have k1: "committed s1 = committed s" "same_setup m m1" using ensure_keeps [OF en m] by simp_all
  have m1: "mr_dialect m1 = drv" "mr_quotedTable m1 = qt" using k1(2) m by (simp_all add: same_setup_def)
  have k2: "committed s2 = committed s" using acquire_keeps [of ctx m1 s1] lk k1 by simp
  note k3 = applied_keeps [OF ap m1]
  have m3: "mr_dialect m3 = drv" "mr_quotedTable m3 = qt" "mr_migs m3 = mr_migs m" using k1(2) k3 m1 by (simp_all add: same_setup_def)
  show ?thesis
  proof (cases "e1 = None \<and> e3 = None \<and> (\<exists>x. l = Inr x) \<and> rows \<noteq> []")
    case False
    have empty: "dom (fst (committed s)) = {}" if "e3 = None" "rows = []"
      using k3 k2 that by (auto simp: rows_map_def)
    from False have "(\<exists>e. r = Ran [] (Some e)) \<and> committed s' = committed s \<or>
        (e3 = None \<and> rows = [] \<and> r = Ran [] None \<and> committed s' = committed s)"
      using run steps pos k1 k2 k3 rk
      by (auto simp: DownN_def down_locked_def Let_def case_prod_beta split: option.splits sum.splits)
    with empty show ?thesis by (auto simp: run_ends_def)
  next
    case True
    then have out: "r = r4" "committed s' = committed s4"
      using run steps pos rk by (auto simp: DownN_def down_locked_def Let_def case_prod_beta)
    have bv: "\<forall>v mg. mget ?bv v = Some mg \<longrightarrow> mg_Version mg = v \<and> (mg_Down mg \<noteq> None \<longrightarrow> in_transaction committed working ctx (mg_Down mg) (eff v))"
      using bodies by_version_lookup [of "mr_migs m3" "[]"] m3(3) by fastforce
    have "int (length ([] :: int list)) \<le> n" using pos by simp
    from rollback_loop_durable [OF rl m3(1,2) bv this] obtain k where k: "k \<le> length rows"
      "committed s4 = undone eff (map ap_Version (take k (rev rows))) (committed s3)"
      and ends: "case r4 of
         Ran ds e \<Rightarrow> \<exists>ds'. ds = [] @ ds' \<and> run_ends (Ran ds' e) (map ap_Version (take (nat n - length ([] :: int list)) (rev rows))) k
       | RunPanics \<Rightarrow> run_ends RunPanics (map ap_Version (take (nat n - length ([] :: int list)) (rev rows))) k" by auto
    let ?vs = "map ap_Version (rev rows)"
    have "run_ends r (take (nat n) ?vs) k" using ends out by (cases r4) (auto simp: take_map)
    moreover have "sorted_wrt (>) ?vs" using k3 True by (auto simp: rev_map [symmetric] sorted_wrt_rev)
    moreover have "set ?vs = dom (fst (committed s))" using k3 k2 True rows_map_dom [of rows] by simp
    moreover have "committed s' = undone eff (take k ?vs) (committed s)" using k out k2 k3 by (simp add: take_map)
    ultimately show ?thesis using k by auto
  qed
qed

end

section \<open>A server\<close>

text \<open>
  A server that keeps the promises, to run the definitions against: a durable and a working copy of the
  tracking table and of a log of the other statements, one advisory lock held by a connection (a session),
  and the contexts that are cancelled, under which every call fails. A lock that another connection holds is
  not granted before the time is up.
\<close>

type_synonym track_row = "int \<times> string \<times> int \<times> string"

record server =
  sv_durable :: "track_row list \<times> string list"
  sv_working :: "track_row list \<times> string list"
  sv_holder :: "nat option"
  sv_nextConn :: nat
  sv_cancelled :: "nat list"
  sv_clock :: int

definition row_applied :: "track_row \<Rightarrow> applied" where
  "row_applied = (\<lambda>(v, n, t, c). \<lparr>ap_Version = v, ap_Name = n, ap_AppliedAt = t, ap_Checksum = c\<rparr>)"

definition content_of :: "track_row list \<times> string list \<Rightarrow> string list mig_world" where
  "content_of = (\<lambda>(tab, log). (\<lambda>v. map_option (\<lambda>r. row_applied (v, r)) (map_of tab v), log))"

definition sv_committed :: "server \<Rightarrow> string list mig_world" where
  "sv_committed s = content_of (sv_durable s)"

definition sv_view :: "server \<Rightarrow> string list mig_world" where
  "sv_view s = content_of (sv_working s)"

definition guarded :: "nat \<Rightarrow> server \<Rightarrow> (server \<Rightarrow> string option \<times> server) \<Rightarrow> string option \<times> server" where
  "guarded ctx s f = (if ctx \<in> set (sv_cancelled s) then (Some ''context canceled'', s) else f s)"

fun server_stmt :: "driver \<Rightarrow> string \<Rightarrow> string \<Rightarrow> sql_arg list \<Rightarrow> track_row list \<times> string list \<Rightarrow> string option \<times> (track_row list \<times> string list)" where
  "server_stmt drv qt q args (tab, log) =
     (if q = insertAppliedStmt drv qt then
        (case args of
           [AInt v, AStr n, AStr c, ATime t] \<Rightarrow>
             if map_of tab v = None then (None, ((v, n, t, c) # tab, log)) else (Some ''duplicate key'', (tab, log))
         | _ \<Rightarrow> (Some ''bad arguments'', (tab, log)))
      else if q = deleteAppliedStmt drv qt then
        (case args of
           [AInt v] \<Rightarrow> (None, (filter (\<lambda>r. fst r \<noteq> v) tab, log))
         | _ \<Rightarrow> (Some ''bad arguments'', (tab, log)))
      else (None, (tab, log @ [q])))"

definition server_rows :: "track_row list \<Rightarrow> applied_row row_stream" where
  "server_rows tab =
     \<lparr>rs_Rows = map (\<lambda>(v, n, t, c). Inr (v, n, t, Some c)) (sort_key fst (AList.clearjunk tab)), rs_Err = None\<rparr>"

definition server_db :: "driver \<Rightarrow> string \<Rightarrow> (server, nat) conn_db" where
  "server_db drv qt =
     \<lparr>cd_Exec = (\<lambda>ctx q args s. guarded ctx s (Pair None)),
      cd_QueryApplied = (\<lambda>ctx q s. if ctx \<in> set (sv_cancelled s) then (Inl ''context canceled'', s)
                                   else (Inr (server_rows (fst (sv_durable s))), s)),
      cd_QueryNames = (\<lambda>ctx q s. (Inl ''no such table'', s)),
      cd_Begin = (\<lambda>ctx s. guarded ctx s (\<lambda>s. (None, s\<lparr>sv_working := sv_durable s\<rparr>))),
      cd_TxExec = (\<lambda>ctx q args s. guarded ctx s (\<lambda>s. case server_stmt drv qt q args (sv_working s) of
         (e, w) \<Rightarrow> (e, s\<lparr>sv_working := w\<rparr>))),
      cd_Commit = (\<lambda>s. (None, s\<lparr>sv_durable := sv_working s\<rparr>)),
      cd_Rollback = (\<lambda>s. (None, s\<lparr>sv_working := sv_durable s\<rparr>)),
      cd_Conn = (\<lambda>ctx s. (Inr (sv_nextConn s), s\<lparr>sv_nextConn := Suc (sv_nextConn s)\<rparr>)),
      cd_ConnExec = (\<lambda>i ctx q args s. guarded ctx s (\<lambda>s.
         if q = ''SELECT pg_advisory_lock($1)'' then
           (case sv_holder s of
              None \<Rightarrow> (None, s\<lparr>sv_holder := Some i\<rparr>)
            | Some j \<Rightarrow> (if i = j then None else Some ''context deadline exceeded'', s))
         else (None, if sv_holder s = Some i then s\<lparr>sv_holder := None\<rparr> else s))),
      cd_ConnQueryInt = (\<lambda>i ctx q args s.
         (case sv_holder s of
            None \<Rightarrow> (Inr (Some 1), s\<lparr>sv_holder := Some i\<rparr>)
          | Some j \<Rightarrow> (Inr (Some (if i = j then 1 else 0)), s))),
      cd_ConnClose = (\<lambda>i s. (None, s)),
      cd_WithTimeout = (\<lambda>ctx d. ctx),
      cd_Now = sv_clock\<rparr>"

lemma server_db_simps [simp]:
  "cd_Exec (server_db drv qt) ctx q args s = guarded ctx s (Pair None)"
  "cd_QueryApplied (server_db drv qt) ctx q s =
     (if ctx \<in> set (sv_cancelled s) then (Inl ''context canceled'', s) else (Inr (server_rows (fst (sv_durable s))), s))"
  "cd_Begin (server_db drv qt) ctx s = guarded ctx s (\<lambda>s. (None, s\<lparr>sv_working := sv_durable s\<rparr>))"
  "cd_TxExec (server_db drv qt) ctx q args s = guarded ctx s (\<lambda>s. case server_stmt drv qt q args (sv_working s) of
         (e, w) \<Rightarrow> (e, s\<lparr>sv_working := w\<rparr>))"
  "cd_Commit (server_db drv qt) s = (None, s\<lparr>sv_durable := sv_working s\<rparr>)"
  "cd_Rollback (server_db drv qt) s = (None, s\<lparr>sv_working := sv_durable s\<rparr>)"
  "cd_Conn (server_db drv qt) ctx s = (Inr (sv_nextConn s), s\<lparr>sv_nextConn := Suc (sv_nextConn s)\<rparr>)"
  "cd_ConnClose (server_db drv qt) i s = (None, s)"
  by (simp_all add: server_db_def)

lemma scan_server_rows:
  "scan_applied (map (\<lambda>(v, n, t, c). Inr (v, n, t, Some c)) rows) out = Inr (out @ map row_applied rows)"
  by (induction rows arbitrary: out) (auto simp: row_applied_def)

lemma rows_map_rows: "rows_map (map row_applied rows) v = map_option (\<lambda>r. row_applied (v, r)) (map_of rows v)"
  by (induction rows) (auto simp: rows_map_def row_applied_def)

lemma map_of_sort_key: "distinct (map fst xs) \<Longrightarrow> map_of (sort_key fst xs) = map_of (xs :: (int \<times> 'b) list)"
  by (intro map_of_inject_set [THEN iffD2]) (auto simp: distinct_map)

lemma versions_row_applied: "map ap_Version (map row_applied rows) = map fst rows"
  by (induction rows) (auto simp: row_applied_def)

lemma server_reads:
  assumes "scan_applied (rs_Rows (server_rows tab)) [] = Inr out"
  shows "sorted_wrt (<) (map ap_Version out) \<and> rows_map out = fst (content_of (tab, log))"
proof -
  let ?rows = "sort_key fst (AList.clearjunk tab)"
  have out: "out = map row_applied ?rows" using assms by (simp add: server_rows_def scan_server_rows)
  have d: "distinct (map fst (AList.clearjunk tab))" by (rule distinct_clearjunk)
  have "sorted (map fst ?rows)" by simp
  moreover have "distinct (map fst ?rows)"
    using d by (metis distinct_map distinct_sort set_sort)
  ultimately have "sorted_wrt (<) (map ap_Version out)"
    unfolding out versions_row_applied by (simp add: strict_sorted_iff)
  moreover have "rows_map out = fst (content_of (tab, log))"
    using d by (auto simp: out rows_map_rows content_of_def map_of_sort_key map_of_clearjunk)
  ultimately show ?thesis ..
qed

interpretation server: migration_table "server_db drv qt" sv_committed sv_view drv qt for drv qt
proof unfold_locales
  fix ctx s rows out
  assume "fst (cd_QueryApplied (server_db drv qt) ctx (selectStmt qt) s) = Inr rows" "scan_applied (rs_Rows rows) [] = Inr out"
  then have "scan_applied (rs_Rows (server_rows (fst (sv_durable s)))) [] = Inr out" by (auto split: if_splits)
  from server_reads [OF this, of "snd (sv_durable s)"]
  show "sorted_wrt (<) (map ap_Version out) \<and> rows_map out = fst (sv_committed s)" by (simp add: sv_committed_def)
next
  fix ctx v n c t s s'
  assume "cd_TxExec (server_db drv qt) ctx (insertAppliedStmt drv qt) [AInt v, AStr n, AStr c, ATime t] s = (None, s')"
  then show "fst (sv_view s) v = None \<and>
      sv_view s' = ((fst (sv_view s))(v \<mapsto> \<lparr>ap_Version = v, ap_Name = n, ap_AppliedAt = t, ap_Checksum = c\<rparr>), snd (sv_view s))"
    by (cases "sv_working s") (auto simp: guarded_def sv_view_def content_of_def row_applied_def fun_eq_iff split: if_splits)
next
  fix ctx v s s'
  assume run: "cd_TxExec (server_db drv qt) ctx (deleteAppliedStmt drv qt) [AInt v] s = (None, s')"
  have neq: "deleteAppliedStmt drv qt \<noteq> insertAppliedStmt drv qt"
    by (simp add: deleteAppliedStmt_def insertAppliedStmt_def)
  have del: "map_of (filter (\<lambda>r. fst r \<noteq> v) tab) = (map_of tab)(v := None)" for tab :: "track_row list"
    by (induction tab) (auto simp: fun_eq_iff)
  from run show "sv_view s' = ((fst (sv_view s))(v := None), snd (sv_view s))"
    using neq by (cases "sv_working s") (auto simp: guarded_def sv_view_def content_of_def del fun_eq_iff split: if_splits)
qed (auto simp: guarded_def sv_committed_def sv_view_def server_db_def case_prod_beta split: option.splits)

section \<open>What a run leaves behind\<close>

text \<open>The migrations a run covers are those the table does not have yet; they are in ascending order.\<close>

lemma sorted_by_version: "sorted (map mg_Version (by_version migs))"
  by (simp add: by_version_def map_SliceStable)


text \<open>Two migrations against the server, the second of which fails: the first is durable.\<close>

definition log_body :: "string \<Rightarrow> string option \<Rightarrow> (server, nat) body" where
  "log_body q err = (\<lambda>ctx s. (BodyReturns err, s\<lparr>sv_working := (fst (sv_working s), snd (sv_working s) @ [q])\<rparr>))"

definition demo_mig :: "int \<Rightarrow> string option \<Rightarrow> (server, nat) migration" where
  "demo_mig v err = \<lparr>mg_Version = v, mg_Name = ''m'', mg_Up = Some (log_body ''up'' err), mg_Down = Some (log_body ''down'' None), mg_Checksum = []\<rparr>"

definition demo_migrator :: "(server, nat) migration list \<Rightarrow> (server, nat) migrator" where
  "demo_migrator migs = \<lparr>mr_table = ''t'', mr_quotedTable = ''t'', mr_migs = migs, mr_dialect = DriverPostgres,
     mr_lockTimeout = 0, mr_ensureOnce = False, mr_ensureErr = None\<rparr>"

definition demo_server :: server where
  "demo_server = \<lparr>sv_durable = ([], []), sv_working = ([], []), sv_holder = None, sv_nextConn = 0, sv_cancelled = [], sv_clock = 7\<rparr>"

lemma log_body_in_transaction: "in_transaction sv_committed sv_view ctx (Some (log_body q err)) (\<lambda>log. log @ [q])"
  by (auto simp: in_transaction_def log_body_def sv_committed_def sv_view_def content_of_def case_prod_beta)

lemma demo_mig_in_transaction [simp]:
  "in_transaction sv_committed sv_view ctx (mg_Up (demo_mig v err)) (\<lambda>log. log @ [''up''])"
  "in_transaction sv_committed sv_view ctx (mg_Down (demo_mig v err)) (\<lambda>log. log @ [''down''])"
  by (simp_all add: demo_mig_def log_body_in_transaction)

lemma demo_migrator_simps [simp]:
  "mr_dialect (demo_migrator migs) = DriverPostgres" "mr_quotedTable (demo_migrator migs) = ''t''" "mr_migs (demo_migrator migs) = migs"
  by (simp_all add: demo_migrator_def)


text \<open>After a run down, what is durable is what it was with the newest recorded versions undone one by one, newest
  first: as many as were asked for (or as there are) after a success, exactly the reported ones after an error,
  unless a commit reported the error.\<close>

theorem down_durable:
  assumes "migration_table db committed working drv qt" and "mr_dialect m = drv" and "mr_quotedTable m = qt"
    and "\<forall>mg \<in> set (mr_migs m). mg_Down mg \<noteq> None \<longrightarrow> in_transaction committed working ctx (mg_Down mg) (eff (mg_Version mg))"
  shows "case DownN db ctx n m s of (r, m', s') \<Rightarrow>
    ((\<exists>e. r = Ran [] (Some e)) \<or> n \<le> 0 \<and> r = Ran [] None) \<and> committed s' = committed s \<or>
    (\<exists>vs k. set vs = dom (fst (committed s)) \<and> sorted_wrt (>) vs \<and> k \<le> length vs \<and>
       committed s' = undone eff (take k vs) (committed s) \<and> run_ends r (take (nat n) vs) k)"
proof -
  obtain r m' s' where run: "DownN db ctx n m s = (r, m', s')" by (rule prod_cases3)
  from migration_table.DownN_durable [OF assms(1) run assms(2,3,4)] show ?thesis by (simp only: run prod.case)
qed

theorem down_durable_witness:
  "(case DownN (server_db DriverPostgres ''t'') 0 2 (demo_migrator [demo_mig 2 None, demo_mig 3 None, demo_mig 5 None])
      (demo_server\<lparr>sv_durable := ([(3, [], 7, []), (5, [], 7, []), (2, [], 7, [])], [])\<rparr>) of (r, m', s') \<Rightarrow>
      r = Ran [5, 3] None \<and> sv_durable s' = ([(2, [], 7, [])], [''down'', ''down''])) \<and>
   (case DownN (server_db DriverPostgres ''t'') 0 2 (demo_migrator [demo_mig 2 None, demo_mig 3 None, demo_mig 5 None]) demo_server of (r, m', s') \<Rightarrow>
      sv_committed s' = sv_committed demo_server)"
proof
  show "case DownN (server_db DriverPostgres ''t'') 0 2 (demo_migrator [demo_mig 2 None, demo_mig 3 None, demo_mig 5 None])
      (demo_server\<lparr>sv_durable := ([(3, [], 7, []), (5, [], 7, []), (2, [], 7, [])], [])\<rparr>) of (r, m', s') \<Rightarrow>
      r = Ran [5, 3] None \<and> sv_durable s' = ([(2, [], 7, [])], [''down'', ''down''])"
    by code_simp
  have "dom (fst (sv_committed demo_server)) = {}" by (simp add: sv_committed_def demo_server_def content_of_def)
  then show "case DownN (server_db DriverPostgres ''t'') 0 2 (demo_migrator [demo_mig 2 None, demo_mig 3 None, demo_mig 5 None]) demo_server of (r, m', s') \<Rightarrow>
      sv_committed s' = sv_committed demo_server"
    using down_durable [OF server.migration_table_axioms, where m = "demo_migrator [demo_mig 2 None, demo_mig 3 None, demo_mig 5 None]"
        and ctx = 0 and eff = "\<lambda>v log. log @ [''down'']" and n = 2 and s = demo_server]
    by fastforce
qed

section \<open>Nothing runs twice\<close>

text \<open>Any number of runners, with or without the lock: the transactions \<^verbatim>\<open>applyOne\<close> of all of them, in the order
  the database serialises them. The versions whose transaction reported success.\<close>

fun claims :: "('s, 'c) conn_db \<Rightarrow> ('c \<times> ('s, 'c) migrator \<times> ('s, 'c) migration) list \<Rightarrow> 's \<Rightarrow> int list \<times> 's" where
  "claims db [] s = ([], s)"
| "claims db ((ctx, m, mg) # cs) s =
     (case applyOne db ctx m mg s of
        (r, s1) \<Rightarrow> (case claims db cs s1 of
          (vs, s2) \<Rightarrow> (if r = ClaimReturns None then mg_Version mg # vs else vs, s2)))"

context migration_table
begin

lemma claims_distinct:
  assumes "list_all (\<lambda>(ctx, m, mg). mr_dialect m = drv \<and> mr_quotedTable m = qt \<and> in_transaction committed working ctx (mg_Up mg) (eff (mg_Version mg))) cs"
    and "claims db cs s = (vs, s')"
  shows "distinct vs \<and> set vs \<inter> dom (fst (committed s)) = {} \<and> dom (fst (committed s)) \<union> set vs \<subseteq> dom (fst (committed s'))"
  using assms
proof (induction cs arbitrary: s vs s')
  case (Cons c cs)
  obtain ctx m mg where c: "c = (ctx, m, mg)" by (metis prod.exhaust)
  obtain r s1 where one: "applyOne db ctx m mg s = (r, s1)" by fastforce
  obtain us s2 where rest: "claims db cs s1 = (us, s2)" by fastforce
  have m: "mr_dialect m = drv" "mr_quotedTable m = qt" and body: "in_transaction committed working ctx (mg_Up mg) (eff (mg_Version mg))"
    using Cons.prems(1) c by simp_all
  have ih: "distinct us" "set us \<inter> dom (fst (committed s1)) = {}" "dom (fst (committed s1)) \<union> set us \<subseteq> dom (fst (committed s2))"
    using Cons.IH [OF _ rest] Cons.prems(1) by simp_all
  show ?case
  proof (cases "r = ClaimReturns None")
    case True
    obtain t where "fst (committed s) (mg_Version mg) = None"
      "committed s1 = ((fst (committed s))(mg_Version mg \<mapsto> record_of mg t), eff (mg_Version mg) (snd (committed s)))"
      using applyOne_success [OF one [unfolded True] m body] by blast
    then show ?thesis using ih Cons.prems(2) c one rest True by (auto simp: domIff disjoint_iff)
  next
    case False
    have "dom (fst (committed s)) \<subseteq> dom (fst (committed s1))"
      using applyOne_failure [OF one False m body] by auto
    then show ?thesis using ih Cons.prems(2) c one rest False by (auto simp: disjoint_iff subset_iff domIff)
  qed
qed simp

end

text \<open>C22. However many processes run the same migrations, locked or not, a version succeeds at most once, and never one that was
  recorded before: the claim of the version is part of the transaction that runs the body.\<close>

theorem version_applied_once:
  assumes "migration_table db committed working drv qt"
    and "list_all (\<lambda>(ctx, m, mg). mr_dialect m = drv \<and> mr_quotedTable m = qt \<and> in_transaction committed working ctx (mg_Up mg) (eff (mg_Version mg))) cs"
  shows "case claims db cs s of (vs, s') \<Rightarrow>
    distinct vs \<and> set vs \<inter> dom (fst (committed s)) = {} \<and> dom (fst (committed s)) \<union> set vs \<subseteq> dom (fst (committed s'))"
proof -
  obtain vs s' where run: "claims db cs s = (vs, s')" by fastforce
  from migration_table.claims_distinct [OF assms run] show ?thesis by (simp only: run prod.case)
qed

theorem version_applied_once_witness:
  "(let m = demo_migrator []; cs = [(0, m, demo_mig 2 None), (5, m, demo_mig 2 None), (5, m, demo_mig 3 None), (0, m, demo_mig 3 None)]
    in fst (claims (server_db DriverPostgres ''t'') cs demo_server) = [2, 3]) \<and>
   (let m = demo_migrator []; cs = [(0, m, demo_mig 2 None), (5, m, demo_mig 2 None), (5, m, demo_mig 3 None), (0, m, demo_mig 3 None)]
    in distinct (fst (claims (server_db DriverPostgres ''t'') cs demo_server)))"
proof
  show "let m = demo_migrator []; cs = [(0, m, demo_mig 2 None), (5, m, demo_mig 2 None), (5, m, demo_mig 3 None), (0, m, demo_mig 3 None)]
    in fst (claims (server_db DriverPostgres ''t'') cs demo_server) = [2, 3]"
    by code_simp
  show "let m = demo_migrator []; cs = [(0, m, demo_mig 2 None), (5, m, demo_mig 2 None), (5, m, demo_mig 3 None), (0, m, demo_mig 3 None)]
    in distinct (fst (claims (server_db DriverPostgres ''t'') cs demo_server))"
    using version_applied_once [where db = "server_db DriverPostgres ''t''", OF server.migration_table_axioms, where eff = "\<lambda>v log. log @ [''up'']" and s = demo_server
        and cs = "[(0, demo_migrator [], demo_mig 2 None), (5, demo_migrator [], demo_mig 2 None), (5, demo_migrator [], demo_mig 3 None), (0, demo_migrator [], demo_mig 3 None)]"]
    by (auto simp: Let_def split: prod.splits)
qed

lemma dom_migrated:
  "length ts = length migs \<Longrightarrow> dom (fst (migrated eff (zip migs ts) w)) = dom (fst w) \<union> mg_Version ` set migs"
  by (induction ts migs arbitrary: w rule: list_induct2) auto

text \<open>Running up is idempotent: after a run that reported success every migration is recorded, and a second run by any
  runner of the same migrations that reports success does nothing.\<close>

theorem up_idempotent:
  assumes "migration_table db committed working drv qt" and "mr_dialect m = drv" and "mr_quotedTable m = qt"
    and "mr_dialect m2 = drv" and "mr_quotedTable m2 = qt" and "mr_migs m2 = mr_migs m"
    and "\<And>ctx. \<forall>mg \<in> set (mr_migs m). in_transaction committed working ctx (mg_Up mg) (eff (mg_Version mg))"
    and "Up db ctx m s = (Ran vs None, m', s1)" and "Up db ctx2 m2 s1 = (Ran vs2 None, m2', s2)"
  shows "mg_Version ` set (mr_migs m) \<subseteq> dom (fst (committed s1)) \<and> vs2 = [] \<and> committed s2 = committed s1"
proof -
  let ?todo = "up_todo 0 (fst (committed s)) (mr_migs m)"
  obtain ts where "length ts = length ?todo" "committed s1 = migrated eff (zip ?todo ts) (committed s)"
    using migration_table.UpN_durable [OF assms(1) assms(8) [unfolded Up_def] assms(2,3,7)]
    by (auto simp: Let_def run_ends_def)
  then have d: "dom (fst (committed s1)) = dom (fst (committed s)) \<union> mg_Version ` set ?todo" by (simp add: dom_migrated)
  have sub: "mg_Version ` set (mr_migs m) \<subseteq> dom (fst (committed s1))"
    unfolding d by (auto simp: up_todo_def Let_def)
  then have none: "up_todo 0 (fst (committed s1)) (mr_migs m2) = []"
    using assms(6) by (auto simp: up_todo_def Let_def filter_empty_conv)
  have "\<forall>mg \<in> set (mr_migs m2). in_transaction committed working ctx2 (mg_Up mg) (eff (mg_Version mg))"
    using assms(6,7) by simp
  from migration_table.UpN_durable [OF assms(1) assms(9) [unfolded Up_def] assms(4,5) this] none sub
  show ?thesis by (auto simp: Let_def run_ends_def)
qed

theorem up_idempotent_witness:
  "case Up (server_db DriverPostgres ''t'') 0 (demo_migrator [demo_mig 2 None, demo_mig 3 None]) demo_server of
     (r, m', s1) \<Rightarrow> r = Ran [2, 3] None \<and>
       (case Up (server_db DriverPostgres ''t'') 0 (demo_migrator [demo_mig 2 None, demo_mig 3 None]) s1 of
          (r2, m2, s2) \<Rightarrow> r2 = Ran [] None \<and> sv_committed s2 = sv_committed s1)"
proof -
  let ?m = "demo_migrator [demo_mig 2 None, demo_mig 3 None]" and ?db = "server_db DriverPostgres ''t''"
  obtain r m' s1 where one: "Up ?db 0 ?m demo_server = (r, m', s1)" by (rule prod_cases3)
  have r: "fst (Up ?db 0 ?m demo_server) = Ran [2, 3] None" by code_simp
  obtain r2 m2 s2 where two: "Up ?db 0 ?m s1 = (r2, m2, s2)" by (rule prod_cases3)
  have "fst (Up ?db 0 ?m (snd (snd (Up ?db 0 ?m demo_server)))) = Ran [] None" by code_simp
  then have r2: "r2 = Ran [] None" using one two by simp
  have "sv_committed s2 = sv_committed s1"
    using up_idempotent [OF server.migration_table_axioms, where m = ?m and ctx = 0 and eff = "\<lambda>v log. log @ [''up'']" and s = demo_server
        and vs = "[2, 3]" and m' = m' and ?s1.0 = s1 and ?m2.0 = ?m and ?ctx2.0 = 0 and ?vs2.0 = "[]" and m2' = m2 and ?s2.0 = s2]
      one two r r2 by simp
  then show ?thesis using one two r r2 by simp
qed

section \<open>Observations\<close>

text \<open>A context that is cancelled during the run keeps the lock from being released: the statement that unlocks fails,
  the connection goes back to the pool with the lock of its session, and the next runner waits in vain.\<close>

definition cancel_body :: "nat \<Rightarrow> (server, nat) body" where
  "cancel_body i = (\<lambda>ctx s. (BodyReturns (Some ''context canceled''), s\<lparr>sv_cancelled := [i]\<rparr>))"

lemma cancelled_run_keeps_lock:
  "let db = server_db DriverPostgres ''t''; mig = (demo_mig 2 None)\<lparr>mg_Up := Some (cancel_body 4)\<rparr>
   in case Up db 4 (demo_migrator [mig]) demo_server of
        (r, m', s1) \<Rightarrow> sv_holder s1 = Some 0 \<and>
          fst (Up db 5 (demo_migrator [demo_mig 2 None]) s1) = Ran [] (Some (LockQuery ''context deadline exceeded''))"
  by code_simp

text \<open>A runner whose first \<^verbatim>\<open>Ensure\<close> failed answers with that error for good.\<close>

lemma ensure_error_sticks:
  assumes "Ensure db ctx m s = (Some e, m1, s1)"
  shows "Up db ctx2 m1 s2 = (Ran [] (Some e), m1, s2)"
  using assms by (auto simp: Up_def UpN_def Ensure_def split: if_splits prod.splits)

text \<open>\<^verbatim>\<open>Down\<close> undoes the highest version, not the one applied last.\<close>

lemma down_ignores_time:
  "fst (Down (server_db DriverPostgres ''t'') 0 (demo_migrator [demo_mig 2 None, demo_mig 3 None])
      (demo_server\<lparr>sv_durable := ([(2, [], 9, []), (3, [], 7, [])], [])\<rparr>)) = Some (3, None)"
  by code_simp

text \<open>On MySQL a timeout below a second does not wait at all.\<close>

lemma lock_wait_truncated:
  assumes "mr_dialect m = DriverMySQL" and "mr_lockTimeout m = 900000000" and "cd_Conn db ctx s = (Inr i, s1)"
  shows "acquireLock db ctx m s =
    (case cd_ConnQueryInt db i (cd_WithTimeout db ctx 900000000) ''SELECT GET_LOCK(?, ?)'' [AStr (''nika_migration_'' @ mr_table m), AInt 0] s1 of
       (Inl e, s2) \<Rightarrow> (Inl (LockQuery e), snd (cd_ConnClose db i s2))
     | (Inr granted, s2) \<Rightarrow>
         if granted \<noteq> Some 1 then (Inl (LockHeld (''nika_migration_'' @ mr_table m) 900000000), snd (cd_ConnClose db i s2))
         else (Inr (Some \<lparr>lk_conn = i, lk_driver = DriverMySQL, lk_key = lockKey (mr_table m),
                 lk_name = ''nika_migration_'' @ mr_table m, lk_deleted = False\<rparr>), s2))"
  using assms by (simp add: acquireLock_def Let_def driver_defs second_ns_def split: prod.split sum.split)

lemma lockKey_range: "0 \<le> lockKey table \<and> lockKey table < 2 ^ 63"
proof -
  define h where "h = fnv64a (''nika:migration:'' @ table)"
  have range: "0 \<le> take_bit 63 (uint h)" "take_bit 63 (uint h) < 2 ^ 63"
    by (rule take_bit_nonnegative, rule take_bit_int_less_exp)
  have "h AND 0x7fffffffffffffff = take_bit 63 h"
    by (simp add: take_bit_eq_mask mask_eq_exp_minus_1)
  then have u: "uint (h AND 0x7fffffffffffffff) = take_bit 63 (uint h)" by (simp add: unsigned_take_bit_eq)
  have "sint (h AND 0x7fffffffffffffff) = signed_take_bit 63 (uint (h AND 0x7fffffffffffffff))"
    by (simp add: sint_uint)
  also have "\<dots> = take_bit 63 (uint h)"
    unfolding u using range by (intro signed_take_bit_int_eq_self) linarith+
  finally show ?thesis unfolding lockKey_def h_def [symmetric] using range by simp
qed

end
