(* ===== verification/Sql_Files.thy ===== *)
theory Sql_Files
  imports Sql_Migration
begin

text \<open>
  Migrations read from files (\<^verbatim>\<open>common/sqldb/migration/fs.go\<close>): the names of the files, the pairs of a version, and
  what is made of them. The file system and the hash are parameters.
\<close>

section \<open>File names\<close>

definition name_char :: "char \<Rightarrow> bool" where
  "name_char c \<longleftrightarrow> in_range CHR ''a'' CHR ''z'' c \<or> in_range CHR ''A'' CHR ''Z'' c \<or> is_digit c \<or> c = CHR ''_'' \<or> c = CHR ''-''"

text \<open>
  \<^verbatim>\<open>filePattern\<close> with its three groups. The class of a group never holds the character after it, so the
  longest match of each is the only one.
\<close>

definition filePattern :: "string \<Rightarrow> (string \<times> string \<times> string) option" where
  "filePattern s =
     (let ds = takeWhile is_digit s; r = dropWhile is_digit s
      in if length ds < 6 then None
         else (case r of
             [] \<Rightarrow> None
           | c # r' \<Rightarrow>
               if c \<noteq> CHR ''_'' then None
               else (let nm = takeWhile name_char r'; e = dropWhile name_char r'
                     in if nm = [] then None
                        else if e = ''.up.sql'' then Some (ds, nm, ''up'')
                        else if e = ''.down.sql'' then Some (ds, nm, ''down'')
                        else None)))"

section \<open>Loading\<close>

record dir_entry =
  de_Name :: string
  de_IsDir :: bool

record file_pair =
  fp_version :: int
  fp_name :: string
  fp_up :: string
  fp_down :: string

datatype load_error = ReadDirError string | ParseVersion string | ReadFileError string string | MissingUp int string

text \<open>\<open>readFile\<close> is \<^verbatim>\<open>fs.ReadFile\<close> of a name joined to the directory.\<close>

fun load_files :: "(string \<Rightarrow> (string, string) result) \<Rightarrow> dir_entry list \<Rightarrow> (int, file_pair) gomap \<Rightarrow> (load_error, (int, file_pair) gomap) result" where
  "load_files readFile [] byVersion = Inr byVersion"
| "load_files readFile (e # es) byVersion =
     (if de_IsDir e then load_files readFile es byVersion
      else (case filePattern (de_Name e) of
          None \<Rightarrow> load_files readFile es byVersion
        | Some (m1, m2, m3) \<Rightarrow>
            (case ParseInt m1 of
               None \<Rightarrow> Inl (ParseVersion m1)
             | Some version \<Rightarrow>
                 (case readFile (de_Name e) of
                    Inl err \<Rightarrow> Inl (ReadFileError (de_Name e) err)
                  | Inr body \<Rightarrow>
                      (let txt = TrimSpace body;
                           p = (case mget byVersion version of
                                  Some p \<Rightarrow> p
                                | None \<Rightarrow> \<lparr>fp_version = version, fp_name = m2, fp_up = [], fp_down = []\<rparr>);
                           p' = (if m3 = ''up'' then p\<lparr>fp_up := txt\<rparr> else p\<lparr>fp_down := txt\<rparr>)
                       in load_files readFile es (mput version p' byVersion))))))"

definition fileChecksum :: "(string \<Rightarrow> string) \<Rightarrow> string \<Rightarrow> string \<Rightarrow> string" where
  "fileChecksum sha256hex up down = sha256hex (up @ [CHR 0x00] @ down)"

definition exec_body :: "('s, 'c) conn_db \<Rightarrow> string \<Rightarrow> ('s, 'c) body" where
  "exec_body db q = (\<lambda>ctx s. case cd_TxExec db ctx q [] s of (e, s') \<Rightarrow> (BodyReturns e, s'))"

definition buildFileMigration :: "(string \<Rightarrow> string) \<Rightarrow> ('s, 'c) conn_db \<Rightarrow> int \<Rightarrow> string \<Rightarrow> string \<Rightarrow> string \<Rightarrow> ('s, 'c) migration" where
  "buildFileMigration sha256hex db version name up down =
     \<lparr>mg_Version = version, mg_Name = name, mg_Up = Some (exec_body db up),
      mg_Down = (if down \<noteq> [] then Some (exec_body db down) else None),
      mg_Checksum = fileChecksum sha256hex up down\<rparr>"

text \<open>
  Go ranges over the map in no particular order. The migrations are sorted afterwards; only which of several
  pairs without an up file is named in the error depends on it.
\<close>

fun build_pairs :: "(string \<Rightarrow> string) \<Rightarrow> ('s, 'c) conn_db \<Rightarrow> (int \<times> file_pair) list \<Rightarrow> ('s, 'c) migration list \<Rightarrow>
    (load_error, ('s, 'c) migration list) result" where
  "build_pairs sha256hex db [] out = Inr out"
| "build_pairs sha256hex db ((v, p) # ps) out =
     (if fp_up p = [] then Inl (MissingUp (fp_version p) (fp_name p))
      else build_pairs sha256hex db ps (out @ [buildFileMigration sha256hex db (fp_version p) (fp_name p) (fp_up p) (fp_down p)]))"

definition LoadFS :: "(string \<Rightarrow> string) \<Rightarrow> ('s, 'c) conn_db \<Rightarrow> (string, dir_entry list) result \<Rightarrow> (string \<Rightarrow> (string, string) result) \<Rightarrow>
    (load_error, ('s, 'c) migration list) result" where
  "LoadFS sha256hex db entries readFile =
     (case entries of
        Inl e \<Rightarrow> Inl (ReadDirError e)
      | Inr es \<Rightarrow>
          and_then (load_files readFile es []) (\<lambda>byVersion.
            and_then (build_pairs sha256hex db byVersion []) (\<lambda>out. Inr (by_version out))))"

section \<open>Names are read back\<close>

lemma takeWhile_append_stop: "list_all P xs \<Longrightarrow> \<not> P y \<Longrightarrow> takeWhile P (xs @ y # ys) = xs \<and> dropWhile P (xs @ y # ys) = y # ys"
  by (induction xs) auto

lemma is_digit_underscore: "\<not> is_digit CHR ''_''" "\<not> name_char CHR ''.''"
  by code_simp+

text \<open>A file is recognised exactly when its name is a version of at least six digits, a name, a direction.\<close>

lemma filePattern_iff:
  "filePattern s = Some (ds, nm, dir) \<longleftrightarrow>
     list_all is_digit ds \<and> 6 \<le> length ds \<and> list_all name_char nm \<and> nm \<noteq> [] \<and> dir \<in> {''up'', ''down''} \<and>
     s = ds @ ''_'' @ nm @ ''.'' @ dir @ ''.sql''"
    (is "?l = ?r")
proof
  assume ?l
  then obtain r' where r: "dropWhile is_digit s = CHR ''_'' # r'" "ds = takeWhile is_digit s" "6 \<le> length ds"
    "nm = takeWhile name_char r'" "nm \<noteq> []"
    "dropWhile name_char r' = ''.up.sql'' \<and> dir = ''up'' \<or> dropWhile name_char r' = ''.down.sql'' \<and> dir = ''down''"
    by (auto simp: filePattern_def Let_def split: if_splits list.splits)
  have "s = ds @ dropWhile is_digit s" using r(2) by simp
  moreover have "r' = nm @ dropWhile name_char r'" using r(4) by simp
  moreover have "list_all is_digit ds" "list_all name_char nm"
    unfolding r(2,4) by (auto simp: list_all_iff dest: set_takeWhileD)
  ultimately show ?r using r by (elim disjE conjE; simp; metis append.simps)
next
  assume r: ?r
  note a = takeWhile_append_stop [of is_digit ds "CHR ''_''", OF _ is_digit_underscore(1)]
    and b = takeWhile_append_stop [of name_char nm "CHR ''.''", OF _ is_digit_underscore(2)]
  from r show ?l
    unfolding filePattern_def Let_def by (auto simp: a b)
qed

section \<open>What is loaded\<close>

text \<open>The migration files of a directory in its order: version, name, direction, text.\<close>

fun files_of :: "(string \<Rightarrow> (string, string) result) \<Rightarrow> dir_entry list \<Rightarrow> (int \<times> string \<times> string \<times> string) list" where
  "files_of readFile [] = []"
| "files_of readFile (e # es) =
     (case (de_IsDir e, filePattern (de_Name e)) of
        (False, Some (ds, nm, dir)) \<Rightarrow>
          (case (ParseInt ds, readFile (de_Name e)) of
             (Some v, Inr body) \<Rightarrow> (v, nm, dir, TrimSpace body) # files_of readFile es
           | _ \<Rightarrow> files_of readFile es)
      | _ \<Rightarrow> files_of readFile es)"

definition of_version :: "int \<Rightarrow> (int \<times> string \<times> string \<times> string) list \<Rightarrow> (string \<times> string \<times> string) list" where
  "of_version v fs = map snd (filter (\<lambda>f. fst f = v) fs)"

definition name_of :: "int \<Rightarrow> (int \<times> string \<times> string \<times> string) list \<Rightarrow> string" where
  "name_of v fs = (case of_version v fs of [] \<Rightarrow> [] | f # _ \<Rightarrow> fst f)"

definition text_of :: "bool \<Rightarrow> int \<Rightarrow> (int \<times> string \<times> string \<times> string) list \<Rightarrow> string" where
  "text_of up v fs =
     (case rev (filter (\<lambda>(nm, dir, txt). (dir = ''up'') = up) (of_version v fs)) of [] \<Rightarrow> [] | (nm, dir, txt) # _ \<Rightarrow> txt)"

fun add_file :: "int \<times> string \<times> string \<times> string \<Rightarrow> (int, file_pair) gomap \<Rightarrow> (int, file_pair) gomap" where
  "add_file (v, nm, dir, txt) m =
     (let p = (case mget m v of Some p \<Rightarrow> p | None \<Rightarrow> \<lparr>fp_version = v, fp_name = nm, fp_up = [], fp_down = []\<rparr>)
      in mput v (if dir = ''up'' then p\<lparr>fp_up := txt\<rparr> else p\<lparr>fp_down := txt\<rparr>) m)"

lemma load_files_fold: "load_files readFile es m = Inr m' \<Longrightarrow> m' = fold add_file (files_of readFile es) m"
  by (induction es arbitrary: m)
    (auto simp: Let_def split: if_splits option.splits sum.splits)

lemma load_files_Inl: "load_files readFile es m = Inl e \<Longrightarrow> e \<noteq> MissingUp v nm"
  by (induction es arbitrary: m) (auto simp: Let_def split: if_splits option.splits sum.splits)

lemma of_version_simps [simp]:
  "of_version v [] = []"
  "of_version v (fs @ [(v', f)]) = of_version v fs @ (if v' = v then [f] else [])"
  by (simp_all add: of_version_def)

lemma add_files_lookup:
  "mget (fold add_file fs []) v =
     (if of_version v fs = [] then None
      else Some \<lparr>fp_version = v, fp_name = name_of v fs, fp_up = text_of True v fs, fp_down = text_of False v fs\<rparr>)"
proof (induction fs rule: rev_induct)
  case (snoc f fs)
  obtain v' nm dir tx where f: "f = (v', nm, dir, tx)" by (metis prod.exhaust)
  show ?case
    using snoc by (cases "of_version v fs") (auto simp: f Let_def name_of_def text_of_def)
qed simp

lemma map_ok_add_files: "map_ok m \<Longrightarrow> map_ok (fold add_file fs m)"
proof (induction fs arbitrary: m)
  case (Cons f fs)
  then show ?case by (cases f) (simp add: Let_def)
qed simp

lemma build_pairs_Inr:
  "build_pairs sha256hex db ps out = Inr out' \<longleftrightarrow>
     list_all (\<lambda>(v, p). fp_up p \<noteq> []) ps \<and>
     out' = out @ map (\<lambda>(v, p). buildFileMigration sha256hex db (fp_version p) (fp_name p) (fp_up p) (fp_down p)) ps"
  by (induction sha256hex db ps out rule: build_pairs.induct) auto

lemma build_pairs_Inl:
  "build_pairs sha256hex db ps out = Inl e \<Longrightarrow> \<exists>v p. (v, p) \<in> set ps \<and> fp_up p = [] \<and> e = MissingUp (fp_version p) (fp_name p)"
  by (induction sha256hex db ps out rule: build_pairs.induct) (auto split: if_splits)

lemma of_version_nonempty: "of_version v fs \<noteq> [] \<longleftrightarrow> v \<in> fst ` set fs"
  by (auto simp: of_version_def filter_empty_conv)

text \<open>Migrations loaded from a directory are in ascending order with one for each version that has a file. Each runs the trimmed
  text of the version's last up file, which is not empty, undoes with that of its last down file, bears the name of the
  first and a checksum of both texts; a version without an up text is refused.\<close>

theorem load_fs_spec:
  "case LoadFS sha256hex db (Inr es) readFile of
     Inr migs \<Rightarrow>
       sorted_wrt (<) (map mg_Version migs) \<and> set (map mg_Version migs) = fst ` set (files_of readFile es) \<and>
       list_all (\<lambda>mg. \<exists>v. text_of True v (files_of readFile es) \<noteq> [] \<and>
         mg = buildFileMigration sha256hex db v (name_of v (files_of readFile es)) (text_of True v (files_of readFile es)) (text_of False v (files_of readFile es))) migs
   | Inl (MissingUp v nm) \<Rightarrow> v \<in> fst ` set (files_of readFile es) \<and> text_of True v (files_of readFile es) = []
   | Inl e \<Rightarrow> True"
proof -
  let ?fs = "files_of readFile es"
  let ?build = "\<lambda>(v, p). buildFileMigration sha256hex db (fp_version p) (fp_name p) (fp_up p) (fp_down p)"
  have pair: "p = \<lparr>fp_version = v, fp_name = name_of v ?fs, fp_up = text_of True v ?fs, fp_down = text_of False v ?fs\<rparr> \<and> v \<in> fst ` set ?fs"
    if "(v, p) \<in> set (fold add_file ?fs [])" for v p
    using that map_ok_add_files [of "[]" ?fs] add_files_lookup [of ?fs v] of_version_nonempty [of v ?fs]
    by (auto simp: mget_Some_set [symmetric] split: if_splits)
  have keys: "fst ` set (fold add_file ?fs []) = fst ` set ?fs"
  proof
    show "fst ` set (fold add_file ?fs []) \<subseteq> fst ` set ?fs" using pair by auto
    show "fst ` set ?fs \<subseteq> fst ` set (fold add_file ?fs [])"
    proof
      fix v assume "v \<in> fst ` set ?fs"
      then have "mget (fold add_file ?fs []) v \<noteq> None" by (simp add: add_files_lookup of_version_nonempty)
      then show "v \<in> fst ` set (fold add_file ?fs [])" by (auto simp: mget_None_iff mkeys_def)
    qed
  qed
  show ?thesis
  proof (cases "load_files readFile es []")
    case (Inl e)
    with load_files_Inl [OF this] show ?thesis by (auto simp: LoadFS_def split: load_error.splits)
  next
    case (Inr m)
    then have m: "m = fold add_file ?fs []" by (rule load_files_fold)
    show ?thesis
    proof (cases "build_pairs sha256hex db m []")
      case inner: (Inl e)
      obtain v p where p: "(v, p) \<in> set m" "fp_up p = []" "e = MissingUp (fp_version p) (fp_name p)"
        using build_pairs_Inl [OF inner] by blast
      have "e = MissingUp v (name_of v ?fs)" "text_of True v ?fs = []" "v \<in> fst ` set ?fs"
        using pair [OF p(1) [unfolded m]] p by simp_all
      then show ?thesis using Inr inner by (simp add: LoadFS_def)
    next
      case inner: (Inr out)
      then have out: "out = map ?build m" and up: "list_all (\<lambda>(v, p). fp_up p \<noteq> []) m" by (simp_all add: build_pairs_Inr)
      have vs: "map mg_Version out = map fst m"
        using pair unfolding out m by (fastforce simp: buildFileMigration_def)
      have "distinct (map fst m)" using map_ok_add_files [of "[]" ?fs] by (simp add: m map_ok_def mkeys_def)
      then have "sorted_wrt (<) (map mg_Version (by_version out))"
        by (simp add: strict_sorted_iff by_version_def map_SliceStable vs)
      moreover have "set (map mg_Version (by_version out)) = fst ` set ?fs"
        using keys vs by (simp add: by_version_def map_SliceStable m)
      moreover have "list_all (\<lambda>mg. \<exists>v. text_of True v ?fs \<noteq> [] \<and>
         mg = buildFileMigration sha256hex db v (name_of v ?fs) (text_of True v ?fs) (text_of False v ?fs)) (by_version out)"
        using pair up unfolding out m by (fastforce simp: list_all_iff by_version_def)
      ultimately show ?thesis using Inr inner by (simp add: LoadFS_def)
    qed
  qed
qed

section \<open>Observations\<close>

text \<open>Two up files of one version are not refused: the second text runs under the first name.\<close>

lemma same_version_merged:
  "case LoadFS (\<lambda>s. s) db (Inr [\<lparr>de_Name = ''000023_users.up.sql'', de_IsDir = False\<rparr>, \<lparr>de_Name = ''000023_zones.up.sql'', de_IsDir = False\<rparr>])
      (\<lambda>n. Inr n) of
     Inl e \<Rightarrow> False
   | Inr migs \<Rightarrow> migs = [buildFileMigration (\<lambda>s. s) db 23 ''users'' ''000023_zones.up.sql'' []]"
proof -
  have trim: "TrimSpace ''000023_users.up.sql'' = ''000023_users.up.sql''" "TrimSpace ''000023_zones.up.sql'' = ''000023_zones.up.sql''"
    by (rule TrimSpace_plain, code_simp)+
  have pat: "filePattern ''000023_users.up.sql'' = Some (''000023'', ''users'', ''up'')"
    "filePattern ''000023_zones.up.sql'' = Some (''000023'', ''zones'', ''up'')" "ParseInt ''000023'' = Some 23"
    by code_simp+
  show ?thesis
    unfolding LoadFS_def by (simp add: trim pat Let_def mput_def mget_def by_version_def SliceStable_def)
qed

text \<open>A version of zero is accepted here, though the registry refuses it.\<close>

lemma version_zero_loads:
  "case LoadFS (\<lambda>s. s) db (Inr [\<lparr>de_Name = ''000000_users.up.sql'', de_IsDir = False\<rparr>]) (\<lambda>n. Inr n) of
     Inl e \<Rightarrow> False
   | Inr migs \<Rightarrow> \<exists>mg. migs = [mg] \<and> Register_migration (Some mg) registry = Inl (VersionNotPositive 0)"
proof -
  have trim: "TrimSpace ''000000_users.up.sql'' = ''000000_users.up.sql''"
    by (rule TrimSpace_plain, code_simp)
  have pat: "filePattern ''000000_users.up.sql'' = Some (''000000'', ''users'', ''up'')" "ParseInt ''000000'' = Some 0"
    by code_simp+
  show ?thesis
    unfolding LoadFS_def
    by (simp add: trim pat Let_def mput_def by_version_def SliceStable_def buildFileMigration_def Register_migration_def)
qed

end
