(* ===== verification/Sql_Seed.thy ===== *)
theory Sql_Seed
  imports Sql_Tx
begin

text \<open>
  The seeds of SQL databases (\<^verbatim>\<open>common/sqldb/seed\<close>): named bodies that run once, or on every run, in their order,
  each in the transaction that records its name.
\<close>

section \<open>Seeds and their registry\<close>

record ('s, 'c) seed =
  sd_Name :: string
  sd_Order :: int
  sd_Run :: "('s, 'c) body option"
  sd_AlwaysRun :: bool

datatype seed_panic = NilSeed | SeedNameRequired | SeedRunRequired string | DuplicateSeed string

definition Register_seed :: "('s, 'c) seed option \<Rightarrow> ('s, 'c) seed list \<Rightarrow> (seed_panic, ('s, 'c) seed list) result" where
  "Register_seed sd registry =
     (case sd of
        None \<Rightarrow> Inl NilSeed
      | Some sd \<Rightarrow>
          if sd_Name sd = [] then Inl SeedNameRequired
          else if sd_Run sd = None then Inl (SeedRunRequired (sd_Name sd))
          else if list_ex (\<lambda>e. sd_Name e = sd_Name sd) registry then Inl (DuplicateSeed (sd_Name sd))
          else Inr (registry @ [sd]))"

definition seed_less :: "('s, 'c) seed \<Rightarrow> ('s, 'c) seed \<Rightarrow> bool" where
  "seed_less a b = (if sd_Order a \<noteq> sd_Order b then sd_Order a < sd_Order b else sd_Name a < sd_Name b)"

definition sortSeeds :: "('s, 'c) seed list \<Rightarrow> ('s, 'c) seed list" where
  "sortSeeds = SliceStable seed_less"

definition Registered_seeds :: "('s, 'c) seed list \<Rightarrow> ('s, 'c) seed list" where
  "Registered_seeds registry = sortSeeds registry"

definition Reset_seeds :: "('s, 'c) seed list \<Rightarrow> ('s, 'c) seed list" where
  "Reset_seeds registry = []"

section \<open>The seeder\<close>

record ('s, 'c) seeder =
  se_table :: string
  se_quotedTable :: string
  se_seeds :: "('s, 'c) seed list"
  se_dialect :: driver

definition NewWith_seeder :: "(string \<Rightarrow> string) \<Rightarrow> driver \<Rightarrow> ('s, 'c) seed list \<Rightarrow> (ident_error, ('s, 'c) seeder) result" where
  "NewWith_seeder uni drv seeds =
     and_then (quoteTable uni drv ''schema_seeds'') (\<lambda>qt.
       Inr \<lparr>se_table = ''schema_seeds'', se_quotedTable = qt, se_seeds = sortSeeds seeds, se_dialect = drv\<rparr>)"

definition New_seeder :: "(string \<Rightarrow> string) \<Rightarrow> driver \<Rightarrow> ('s, 'c) seed list \<Rightarrow> (ident_error, ('s, 'c) seeder) result" where
  "New_seeder uni drv registry = NewWith_seeder uni drv (Registered_seeds registry)"

definition WithTable_seeder :: "(string \<Rightarrow> string) \<Rightarrow> string \<Rightarrow> ('s, 'c) seeder \<Rightarrow> (ident_error, ('s, 'c) seeder) result" where
  "WithTable_seeder uni name se =
     (if name \<noteq> []
      then and_then (quoteTable uni (se_dialect se) name) (\<lambda>qt. Inr (se\<lparr>se_quotedTable := qt, se_table := name\<rparr>))
      else Inr se)"

abbreviation line_end :: string where "line_end \<equiv> [CHR 0x0A]"

definition seedTableStmt :: "driver \<Rightarrow> string \<Rightarrow> string" where
  "seedTableStmt drv qt =
     (if drv = DriverPostgres then
        ''CREATE TABLE IF NOT EXISTS '' @ qt @ '' ('' @ line_end @
        ''    name TEXT PRIMARY KEY,'' @ line_end @
        ''    applied_at TIMESTAMPTZ NOT NULL DEFAULT NOW()'' @ line_end @ '')''
      else if drv = DriverMySQL then
        ''CREATE TABLE IF NOT EXISTS '' @ qt @ '' ('' @ line_end @
        ''    name VARCHAR(255) PRIMARY KEY,'' @ line_end @
        ''    applied_at DATETIME(6) NOT NULL'' @ line_end @ '')''
      else
        ''CREATE TABLE IF NOT EXISTS '' @ qt @ '' ('' @ line_end @
        ''    name TEXT PRIMARY KEY,'' @ line_end @
        ''    applied_at DATETIME NOT NULL'' @ line_end @ '')'')"

definition seedNamesStmt :: "string \<Rightarrow> string" where
  "seedNamesStmt qt = ''SELECT name FROM '' @ qt"

definition insertSeedStmt :: "driver \<Rightarrow> string \<Rightarrow> string" where
  "insertSeedStmt drv qt =
     (if drv = DriverPostgres then ''INSERT INTO '' @ qt @ '' (name, applied_at) VALUES ($1, $2)''
      else ''INSERT INTO '' @ qt @ '' (name, applied_at) VALUES (?, ?)'')"

definition upsertSeedStmt :: "driver \<Rightarrow> string \<Rightarrow> string" where
  "upsertSeedStmt drv qt =
     (if drv = DriverPostgres then
        ''INSERT INTO '' @ qt @ '' (name, applied_at) VALUES ($1, $2) ON CONFLICT (name) DO UPDATE SET applied_at = EXCLUDED.applied_at''
      else if drv = DriverMySQL then
        ''INSERT INTO '' @ qt @ '' (name, applied_at) VALUES (?, ?) ON DUPLICATE KEY UPDATE applied_at = VALUES(applied_at)''
      else
        ''INSERT INTO '' @ qt @ '' (name, applied_at) VALUES (?, ?) ON CONFLICT(name) DO UPDATE SET applied_at = excluded.applied_at'')"

datatype seed_error = SeedEnsure string | SeedQuery string | SeedScan string | SeedRows string | SeedFailed string claim_error

definition Ensure_seeds :: "('s, 'c) conn_db \<Rightarrow> 'c \<Rightarrow> ('s, 'c) seeder \<Rightarrow> 's \<Rightarrow> seed_error option \<times> 's" where
  "Ensure_seeds db ctx se s =
     (case cd_Exec db ctx (seedTableStmt (se_dialect se) (se_quotedTable se)) [] s of
        (Some e, s1) \<Rightarrow> (Some (SeedEnsure e), s1)
      | (None, s1) \<Rightarrow> (None, s1))"

text \<open>The set of names is a Go map to the empty struct.\<close>

fun scan_names :: "(string, string) result list \<Rightarrow> (string, unit) gomap \<Rightarrow> (seed_error, (string, unit) gomap) result" where
  "scan_names [] out = Inr out"
| "scan_names (Inl e # rs) out = Inl (SeedScan e)"
| "scan_names (Inr n # rs) out = scan_names rs (mput n () out)"

definition AppliedNames :: "('s, 'c) conn_db \<Rightarrow> 'c \<Rightarrow> ('s, 'c) seeder \<Rightarrow> 's \<Rightarrow> ((string, unit) gomap \<times> seed_error option) \<times> 's" where
  "AppliedNames db ctx se s =
     (case Ensure_seeds db ctx se s of
        (Some e, s1) \<Rightarrow> (([], Some e), s1)
      | (None, s1) \<Rightarrow>
          (case cd_QueryNames db ctx (seedNamesStmt (se_quotedTable se)) s1 of
             (Inl e, s2) \<Rightarrow> (([], Some (SeedQuery e)), s2)
           | (Inr rows, s2) \<Rightarrow>
               (case scan_names (rs_Rows rows) [] of
                  Inl e \<Rightarrow> (([], Some e), s2)
                | Inr out \<Rightarrow> ((out, map_option SeedRows (rs_Err rows)), s2))))"

definition runOne :: "('s, 'c) conn_db \<Rightarrow> 'c \<Rightarrow> ('s, 'c) seeder \<Rightarrow> ('s, 'c) seed \<Rightarrow> bool \<Rightarrow> 's \<Rightarrow> claim_outcome \<times> 's" where
  "runOne db ctx se sd exclusive s =
     (let claim = (if exclusive then insertSeedStmt (se_dialect se) (se_quotedTable se) else upsertSeedStmt (se_dialect se) (se_quotedTable se))
      in claim_and_run db ctx claim (\<lambda>now. [AStr (sd_Name sd), ATime now]) (sd_Run sd) s)"

datatype seed_outcome = SeedsRan "string list" "seed_error option" | SeedsPanic

text \<open>The loop of \<^verbatim>\<open>Run\<close> and of \<^verbatim>\<open>RunOnly\<close>: seeds that \<open>skip\<close> names are passed over, \<open>excl\<close> says how the name is claimed.\<close>

fun seed_loop :: "('s, 'c) conn_db \<Rightarrow> 'c \<Rightarrow> ('s, 'c) seeder \<Rightarrow> (('s, 'c) seed \<Rightarrow> bool) \<Rightarrow> (('s, 'c) seed \<Rightarrow> bool) \<Rightarrow> ('s, 'c) seed list \<Rightarrow> string list \<Rightarrow>
    's \<Rightarrow> seed_outcome \<times> 's" where
  "seed_loop db ctx se skip excl [] done_ns s = (SeedsRan done_ns None, s)"
| "seed_loop db ctx se skip excl (sd # sds) done_ns s =
     (if skip sd then seed_loop db ctx se skip excl sds done_ns s
      else (case runOne db ctx se sd (excl sd) s of
          (ClaimPanics, s1) \<Rightarrow> (SeedsPanic, s1)
        | (ClaimReturns (Some e), s1) \<Rightarrow> (SeedsRan done_ns (Some (SeedFailed (sd_Name sd) e)), s1)
        | (ClaimReturns None, s1) \<Rightarrow> seed_loop db ctx se skip excl sds (done_ns @ [sd_Name sd]) s1))"

definition Run_seeds :: "('s, 'c) conn_db \<Rightarrow> 'c \<Rightarrow> ('s, 'c) seeder \<Rightarrow> 's \<Rightarrow> seed_outcome \<times> 's" where
  "Run_seeds db ctx se s =
     (case AppliedNames db ctx se s of
        ((seen, Some e), s1) \<Rightarrow> (SeedsRan [] (Some e), s1)
      | ((seen, None), s1) \<Rightarrow>
          seed_loop db ctx se (\<lambda>sd. mget seen (sd_Name sd) \<noteq> None \<and> \<not> sd_AlwaysRun sd) (\<lambda>sd. \<not> sd_AlwaysRun sd) (se_seeds se) [] s1)"

definition RunOnly :: "('s, 'c) conn_db \<Rightarrow> 'c \<Rightarrow> ('s, 'c) seeder \<Rightarrow> string list \<Rightarrow> 's \<Rightarrow> seed_outcome \<times> 's" where
  "RunOnly db ctx se want s =
     seed_loop db ctx se (\<lambda>sd. mget (fold (\<lambda>n m. mput n () m) want []) (sd_Name sd) = None) (\<lambda>sd. False) (se_seeds se) [] s"

section \<open>What the table of names promises\<close>

type_synonym 'd seed_world = "(string \<rightharpoonup> int) \<times> 'd"

locale seed_table = tx_db db committed working
  for db :: "('s, 'c) conn_db" and committed working :: "'s \<Rightarrow> 'd seed_world" +
  fixes drv :: driver and qt :: string
  assumes seed_ddl_keeps: "committed (snd (cd_Exec db ctx (seedTableStmt drv qt) [] s)) = committed s"
    and names_keeps: "committed (snd (cd_QueryNames db ctx (seedNamesStmt qt) s)) = committed s"
    and names_read: "fst (cd_QueryNames db ctx (seedNamesStmt qt) s) = Inr rows \<Longrightarrow> rs_Err rows = None \<Longrightarrow>
      scan_names (rs_Rows rows) [] = Inr out \<Longrightarrow> set (mkeys out) = dom (fst (committed s))"
    and insert_seed: "cd_TxExec db ctx (insertSeedStmt drv qt) [AStr n, ATime t] s = (None, s') \<Longrightarrow>
      fst (working s) n = None \<and> working s' = ((fst (working s))(n \<mapsto> t), snd (working s))"
    and upsert_seed: "cd_TxExec db ctx (upsertSeedStmt drv qt) [AStr n, ATime t] s = (None, s') \<Longrightarrow>
      working s' = ((fst (working s))(n \<mapsto> t), snd (working s))"

text \<open>Seeds that ran one after the other, and how a run over them may end with \<open>k\<close> of them durable.\<close>

definition seeded :: "(string \<Rightarrow> 'd \<Rightarrow> 'd) \<Rightarrow> (string \<times> int) list \<Rightarrow> 'd seed_world \<Rightarrow> 'd seed_world" where
  "seeded eff steps w = fold (\<lambda>(n, t) (T, d). (T(n \<mapsto> t), eff n d)) steps w"

definition seeds_end :: "seed_outcome \<Rightarrow> string list \<Rightarrow> nat \<Rightarrow> bool" where
  "seeds_end r ns k \<longleftrightarrow>
     (case r of
        SeedsRan ds None \<Rightarrow> ds = ns \<and> k = length ns
      | SeedsRan ds (Some e) \<Rightarrow> prefix ds ns \<and>
          (k = length ds \<or> k = Suc (length ds) \<and> k \<le> length ns \<and> (\<exists>x. e = SeedFailed (ns ! length ds) (CommitError x)))
      | SeedsPanic \<Rightarrow> k < length ns)"

lemma seeded_Nil [simp]: "seeded eff [] w = w"
  by (simp add: seeded_def)

lemma seeded_Cons [simp]: "seeded eff ((n, t) # steps) w = seeded eff steps ((fst w)(n \<mapsto> t), eff n (snd w))"
  by (simp add: seeded_def case_prod_beta)

context seed_table
begin

lemma runOne_success:
  assumes run: "runOne db ctx se sd excl s = (ClaimReturns None, s')" and se: "se_dialect se = drv" "se_quotedTable se = qt"
    and body: "in_transaction committed working ctx (sd_Run sd) eff"
  shows "(excl \<longrightarrow> fst (committed s) (sd_Name sd) = None) \<and>
    (\<exists>t. committed s' = ((fst (committed s))(sd_Name sd \<mapsto> t), eff (snd (committed s))))"
proof -
  obtain s1 s2 s3 where w: "working s1 = committed s"
    and x: "cd_TxExec db ctx (if excl then insertSeedStmt drv qt else upsertSeedStmt drv qt) [AStr (sd_Name sd), ATime (cd_Now db s1)] s1 = (None, s2)"
    and y: "run_body (sd_Run sd) ctx s2 = (BodyReturns None, s3)" and c: "committed s' = working s3"
    using claim_success [OF run [unfolded runOne_def Let_def se]] by blast
  show ?thesis
    using insert_seed [of ctx _ _ s1 s2] upsert_seed [of ctx _ _ s1 s2] x in_transactionD [OF body y] w c by (cases excl) auto
qed

lemma runOne_failure:
  assumes run: "runOne db ctx se sd excl s = (r, s')" and "r \<noteq> ClaimReturns None" and se: "se_dialect se = drv" "se_quotedTable se = qt"
    and body: "in_transaction committed working ctx (sd_Run sd) eff"
  shows "committed s' = committed s \<or>
    (\<exists>e t. r = ClaimReturns (Some (CommitError e)) \<and> committed s' = ((fst (committed s))(sd_Name sd \<mapsto> t), eff (snd (committed s))))"
proof -
  let ?claim = "if excl then insertSeedStmt drv qt else upsertSeedStmt drv qt"
  have keeps: "committed (snd (run_body (sd_Run sd) ctx t)) = committed t" for t
    using body by (auto simp: in_transaction_def split: prod.splits) (metis snd_conv prod.collapse)
  have "\<exists>t. committed s' = ((fst (committed s))(sd_Name sd \<mapsto> t), eff (snd (committed s)))"
    if "working s1 = committed s" "cd_TxExec db ctx ?claim [AStr (sd_Name sd), ATime (cd_Now db s1)] s1 = (None, s2)"
      "run_body (sd_Run sd) ctx s2 = (BodyReturns None, s3)" "committed s' = working s3" for s1 s2 s3
    using insert_seed [of ctx _ _ s1 s2] upsert_seed [of ctx _ _ s1 s2] in_transactionD [OF body that(3)] that by (cases excl) auto
  with claim_failure [OF run [unfolded runOne_def Let_def se] assms(2) keeps] show ?thesis by blast
qed

lemma seed_loop_durable:
  assumes "seed_loop db ctx se skip excl sds vs s = (r, s')" and se: "se_dialect se = drv" "se_quotedTable se = qt"
    and "\<forall>sd \<in> set sds. in_transaction committed working ctx (sd_Run sd) (eff (sd_Name sd))"
  shows "let todo = map sd_Name (filter (\<lambda>sd. \<not> skip sd) sds)
    in \<exists>k ts. k \<le> length todo \<and> length ts = k \<and> committed s' = seeded eff (zip (take k todo) ts) (committed s) \<and>
      (case r of
         SeedsRan ds e \<Rightarrow> \<exists>ds'. ds = vs @ ds' \<and> seeds_end (SeedsRan ds' e) todo k
       | SeedsPanic \<Rightarrow> seeds_end SeedsPanic todo k)"
  using assms(1,4)
proof (induction sds arbitrary: vs s)
  case Nil
  then show ?case by (auto simp: seeds_end_def intro!: exI [of _ 0])
next
  case (Cons sd sds)
  show ?case
  proof (cases "skip sd")
    case True
    then show ?thesis using Cons.IH [of vs s] Cons.prems by simp
  next
    case noskip: False
    let ?todo = "map sd_Name (filter (\<lambda>sd. \<not> skip sd) sds)"
    obtain o1 s1 where one: "runOne db ctx se sd (excl sd) s = (o1, s1)" by fastforce
    have body: "in_transaction committed working ctx (sd_Run sd) (eff (sd_Name sd))" using Cons.prems by simp
    show ?thesis
    proof (cases "o1 = ClaimReturns None")
      case True
      with one se body obtain t where w: "committed s1 = ((fst (committed s))(sd_Name sd \<mapsto> t), eff (sd_Name sd) (snd (committed s)))"
        using runOne_success by blast
      have "seed_loop db ctx se skip excl sds (vs @ [sd_Name sd]) s1 = (r, s')" using Cons.prems(1) one True noskip by simp
      from Cons.IH [OF this] Cons.prems(2) obtain k ts where k: "k \<le> length ?todo" "length ts = k"
        "committed s' = seeded eff (zip (take k ?todo) ts) (committed s1)"
        and ends: "case r of
         SeedsRan ds e \<Rightarrow> \<exists>ds'. ds = (vs @ [sd_Name sd]) @ ds' \<and> seeds_end (SeedsRan ds' e) ?todo k
       | SeedsPanic \<Rightarrow> seeds_end SeedsPanic ?todo k" unfolding Let_def by auto
      have "case r of
         SeedsRan ds e \<Rightarrow> \<exists>ds'. ds = vs @ ds' \<and> seeds_end (SeedsRan ds' e) (sd_Name sd # ?todo) (Suc k)
       | SeedsPanic \<Rightarrow> seeds_end SeedsPanic (sd_Name sd # ?todo) (Suc k)"
        using ends by (cases r) (auto simp: seeds_end_def split: option.splits)
      then show ?thesis using k w noskip by (auto simp: Let_def intro!: exI [of _ "Suc k"] exI [of _ "t # ts"])
    next
      case False
      have r: "r = (case o1 of ClaimPanics \<Rightarrow> SeedsPanic | ClaimReturns (Some e) \<Rightarrow> SeedsRan vs (Some (SeedFailed (sd_Name sd) e)))" "s' = s1"
        using Cons.prems(1) one False noskip by (auto split: claim_outcome.splits option.splits)
      from runOne_failure [OF one False se body] consider "committed s' = committed s"
        | e t where "o1 = ClaimReturns (Some (CommitError e))"
          "committed s' = ((fst (committed s))(sd_Name sd \<mapsto> t), eff (sd_Name sd) (snd (committed s)))"
        using r(2) by blast
      then show ?thesis
      proof cases
        case 1
        with r False noskip show ?thesis unfolding Let_def
          by (intro exI [of _ 0] exI [of _ "[]"]) (auto simp: seeds_end_def split: claim_outcome.splits option.splits)
      next
        case (2 e t)
        with r noskip show ?thesis unfolding Let_def by (intro exI [of _ 1] exI [of _ "[t]"]) (auto simp: seeds_end_def)
      qed
    qed
  qed
qed

lemma names_reads:
  assumes run: "AppliedNames db ctx se s = ((seen, e), s1)" and se: "se_dialect se = drv" "se_quotedTable se = qt"
  shows "committed s1 = committed s \<and> (e = None \<longrightarrow> (\<forall>n. mget seen n \<noteq> None \<longleftrightarrow> fst (committed s) n \<noteq> None))"
proof -
  obtain x s2 where en: "cd_Exec db ctx (seedTableStmt drv qt) [] s = (x, s2)" by fastforce
  obtain a s3 where q: "cd_QueryNames db ctx (seedNamesStmt qt) s2 = (a, s3)" by fastforce
  have k: "committed s2 = committed s" "committed s3 = committed s"
    using seed_ddl_keeps [of ctx s] names_keeps [of ctx s2] en q by simp_all
  have read: "set (mkeys out) = dom (fst (committed s))"
    if "a = Inr rows" "rs_Err rows = None" "scan_names (rs_Rows rows) [] = Inr out" for rows out
    using names_read [of ctx s2 rows out] that q k by simp
  show ?thesis
    using run en q k se read by (auto simp: AppliedNames_def Ensure_seeds_def mget_None_iff domIff set_eq_iff split: option.splits sum.splits)
qed

end

text \<open>After a run of the seeds what is durable is what it was with some first part of the outstanding ones (those not recorded, and
  those that always run) applied in their order, each with its name: all of them after a success, exactly the reported
  ones after an error, except that an error of a commit may have committed.\<close>

theorem seeds_durable:
  assumes "seed_table db committed working drv qt" and "se_dialect se = drv" and "se_quotedTable se = qt"
    and "\<forall>sd \<in> set (se_seeds se). in_transaction committed working ctx (sd_Run sd) (eff (sd_Name sd))"
  shows "case Run_seeds db ctx se s of (r, s') \<Rightarrow>
    (\<exists>e. r = SeedsRan [] (Some e)) \<and> committed s' = committed s \<or>
    (let todo = map sd_Name (filter (\<lambda>sd. fst (committed s) (sd_Name sd) = None \<or> sd_AlwaysRun sd) (se_seeds se))
     in \<exists>k ts. k \<le> length todo \<and> length ts = k \<and> committed s' = seeded eff (zip (take k todo) ts) (committed s) \<and> seeds_end r todo k)"
proof -
  obtain seen e s1 where ap: "AppliedNames db ctx se s = ((seen, e), s1)" by (metis prod.exhaust)
  note k = seed_table.names_reads [OF assms(1) ap assms(2,3)]
  show ?thesis
  proof (cases e)
    case (Some x)
    then show ?thesis using k ap by (simp add: Run_seeds_def)
  next
    case None
    let ?skip = "\<lambda>sd. mget seen (sd_Name sd) \<noteq> None \<and> \<not> sd_AlwaysRun sd" and ?excl = "\<lambda>sd. \<not> sd_AlwaysRun sd"
    let ?todo = "map sd_Name (filter (\<lambda>sd. fst (committed s) (sd_Name sd) = None \<or> sd_AlwaysRun sd) (se_seeds se))"
    obtain r s' where l: "seed_loop db ctx se ?skip ?excl (se_seeds se) [] s1 = (r, s')" by fastforce
    have todo: "map sd_Name (filter (\<lambda>sd. \<not> ?skip sd) (se_seeds se)) = ?todo"
      using k None by (intro arg_cong [where f = "map sd_Name"] filter_cong) auto
    obtain n ts where n: "n \<le> length ?todo" "length ts = n" "committed s' = seeded eff (zip (take n ?todo) ts) (committed s1)"
      and ends: "case r of
         SeedsRan ds e \<Rightarrow> \<exists>ds'. ds = [] @ ds' \<and> seeds_end (SeedsRan ds' e) ?todo n
       | SeedsPanic \<Rightarrow> seeds_end SeedsPanic ?todo n"
      using seed_table.seed_loop_durable [OF assms(1) l assms(2,3,4)] unfolding todo Let_def by blast
    have "seeds_end r ?todo n" using ends by (cases r) auto
    then have "\<exists>k ts. k \<le> length ?todo \<and> length ts = k \<and> committed s' = seeded eff (zip (take k ?todo) ts) (committed s) \<and> seeds_end r ?todo k"
      using n k by (intro exI [of _ n] exI [of _ ts]) simp
    moreover have "Run_seeds db ctx se s = (r, s')" using ap None l by (simp add: Run_seeds_def)
    ultimately show ?thesis unfolding Let_def by simp
  qed
qed

section \<open>A server\<close>

text \<open>A table of names that does not exist before it is created, with a durable and a working copy and a log.\<close>

record seed_server =
  ss_created :: bool
  ss_durable :: "(string \<times> int) list \<times> string list"
  ss_working :: "(string \<times> int) list \<times> string list"

definition ss_content :: "(string \<times> int) list \<times> string list \<Rightarrow> string list seed_world" where
  "ss_content = (\<lambda>(tab, log). (map_of tab, log))"

definition seed_stmt :: "driver \<Rightarrow> string \<Rightarrow> string \<Rightarrow> sql_arg list \<Rightarrow> seed_server \<Rightarrow> string option \<times> seed_server" where
  "seed_stmt drv qt q args s =
     (let (tab, log) = ss_working s
      in case args of
           [AStr n, ATime t] \<Rightarrow>
             if \<not> ss_created s then (Some ''no such table'', s)
             else if q = insertSeedStmt drv qt then
               (if map_of tab n = None then (None, s\<lparr>ss_working := ((n, t) # tab, log)\<rparr>) else (Some ''duplicate key'', s))
             else (None, s\<lparr>ss_working := ((n, t) # tab, log)\<rparr>)
         | _ \<Rightarrow> (None, s\<lparr>ss_working := (tab, log @ [q])\<rparr>))"

definition seed_db :: "driver \<Rightarrow> string \<Rightarrow> (seed_server, unit) conn_db" where
  "seed_db drv qt =
     \<lparr>cd_Exec = (\<lambda>ctx q args s. (None, s\<lparr>ss_created := True\<rparr>)),
      cd_QueryApplied = (\<lambda>ctx q s. (Inl ''no such table'', s)),
      cd_QueryNames = (\<lambda>ctx q s. (Inr \<lparr>rs_Rows = map (\<lambda>r. Inr (fst r)) (fst (ss_durable s)), rs_Err = None\<rparr>, s)),
      cd_Begin = (\<lambda>ctx s. (None, s\<lparr>ss_working := ss_durable s\<rparr>)),
      cd_TxExec = (\<lambda>ctx q args s. seed_stmt drv qt q args s),
      cd_Commit = (\<lambda>s. (None, s\<lparr>ss_durable := ss_working s\<rparr>)),
      cd_Rollback = (\<lambda>s. (None, s\<lparr>ss_working := ss_durable s\<rparr>)),
      cd_Conn = (\<lambda>ctx s. (Inr 0, s)),
      cd_ConnExec = (\<lambda>i ctx q args s. (None, s)),
      cd_ConnQueryInt = (\<lambda>i ctx q args s. (Inr (Some 1), s)),
      cd_ConnClose = (\<lambda>i s. (None, s)),
      cd_WithTimeout = (\<lambda>ctx d. ctx),
      cd_Now = (\<lambda>s. 7)\<rparr>"

lemma scan_names_all: "scan_names (map (\<lambda>r. Inr (fst r)) tab) m = Inr out \<Longrightarrow> set (mkeys out) = set (mkeys m) \<union> fst ` set tab"
  by (induction tab arbitrary: m) auto

lemma upsert_is_not_insert: "upsertSeedStmt drv qt \<noteq> insertSeedStmt drv qt"
  by (simp add: upsertSeedStmt_def insertSeedStmt_def)

interpretation seed_srv: seed_table "seed_db drv qt" "\<lambda>s. ss_content (ss_durable s)" "\<lambda>s. ss_content (ss_working s)" drv qt for drv qt
proof unfold_locales
  fix ctx s rows out
  assume "fst (cd_QueryNames (seed_db drv qt) ctx (seedNamesStmt qt) s) = Inr rows" "scan_names (rs_Rows rows) [] = Inr out"
  then have "set (mkeys out) = fst ` set (fst (ss_durable s))"
    using scan_names_all [of "fst (ss_durable s)" "[]" out] by (clarsimp simp: seed_db_def mkeys_def)
  then show "set (mkeys out) = dom (fst (ss_content (ss_durable s)))"
    by (simp add: ss_content_def case_prod_beta dom_map_of_conv_image_fst)
qed (auto simp: seed_db_def ss_content_def seed_stmt_def Let_def case_prod_beta upsert_is_not_insert split: if_splits list.splits sql_arg.splits)

definition demo_seed :: "string \<Rightarrow> int \<Rightarrow> bool \<Rightarrow> (seed_server, unit) seed" where
  "demo_seed n k always = \<lparr>sd_Name = n, sd_Order = k,
     sd_Run = Some (\<lambda>ctx s. (BodyReturns None, s\<lparr>ss_working := (fst (ss_working s), snd (ss_working s) @ [n])\<rparr>)), sd_AlwaysRun = always\<rparr>"

definition demo_seeder :: "(seed_server, unit) seeder" where
  "demo_seeder = \<lparr>se_table = ''t'', se_quotedTable = ''t'', se_seeds = sortSeeds [demo_seed ''b'' 3 False, demo_seed ''c'' 2 True, demo_seed ''a'' 3 False],
     se_dialect = DriverPostgres\<rparr>"

definition fresh_seeds :: seed_server where
  "fresh_seeds = \<lparr>ss_created = False, ss_durable = ([], []), ss_working = ([], [])\<rparr>"

theorem seeds_durable_witness:
  "(case Run_seeds (seed_db DriverPostgres ''t'') () demo_seeder fresh_seeds of
     (r, s') \<Rightarrow> r = SeedsRan [''c'', ''a'', ''b''] None \<and> snd (ss_durable s') = [''c'', ''a'', ''b''] \<and>
       fst (Run_seeds (seed_db DriverPostgres ''t'') () demo_seeder s') = SeedsRan [''c''] None) \<and>
   (case Run_seeds (seed_db DriverPostgres ''t'') () demo_seeder fresh_seeds of
     (r, s') \<Rightarrow> \<exists>k ts. ss_content (ss_durable s') = seeded (\<lambda>n log. log @ [n]) (zip (take k [''c'', ''a'', ''b'']) ts) ((\<lambda>n. None), []))"
proof
  show "case Run_seeds (seed_db DriverPostgres ''t'') () demo_seeder fresh_seeds of
     (r, s') \<Rightarrow> r = SeedsRan [''c'', ''a'', ''b''] None \<and> snd (ss_durable s') = [''c'', ''a'', ''b''] \<and>
       fst (Run_seeds (seed_db DriverPostgres ''t'') () demo_seeder s') = SeedsRan [''c''] None"
    by code_simp
  have seeds: "map sd_Name (se_seeds demo_seeder) = [''c'', ''a'', ''b'']" by code_simp
  have start: "ss_content (ss_durable fresh_seeds) = ((\<lambda>n. None), [])" by (simp add: ss_content_def fresh_seeds_def)
  have bodies: "\<forall>sd \<in> set (se_seeds demo_seeder).
      in_transaction (\<lambda>s. ss_content (ss_durable s)) (\<lambda>s. ss_content (ss_working s)) () (sd_Run sd) ((\<lambda>n log. log @ [n]) (sd_Name sd))"
    by (auto simp: demo_seeder_def sortSeeds_def demo_seed_def in_transaction_def ss_content_def case_prod_beta)
  show "case Run_seeds (seed_db DriverPostgres ''t'') () demo_seeder fresh_seeds of
     (r, s') \<Rightarrow> \<exists>k ts. ss_content (ss_durable s') = seeded (\<lambda>n log. log @ [n]) (zip (take k [''c'', ''a'', ''b'']) ts) ((\<lambda>n. None), [])"
    using seeds_durable [OF seed_srv.seed_table_axioms _ _ bodies, where s = fresh_seeds] seeds start
    by (fastforce simp: demo_seeder_def Let_def intro: exI [of _ 0] exI [of _ "[]"])
qed

section \<open>Observations\<close>

text \<open>\<^verbatim>\<open>RunOnly\<close> does not create the tracking table: on a fresh database it fails where \<^verbatim>\<open>Run\<close> succeeds.\<close>

lemma run_only_needs_table:
  "fst (RunOnly (seed_db DriverPostgres ''t'') () demo_seeder [''a''] fresh_seeds) =
     SeedsRan [] (Some (SeedFailed ''a'' (RecordApplied ''no such table'')))"
  by code_simp

end
