(* ===== verification/Mongo_Sanitize.thy ===== *)
theory Mongo_Sanitize
  imports Go_Lib
begin

text \<open>
  Filters from users (\<^verbatim>\<open>common/mongodb/repository/sanitize.go\<close> and the callers of it): documents are walked,
  every key is checked, and patterns are validated. Which error a call reports depends on the order in
  which Go ranges over a map; the model ranges over the association list.
\<close>

section \<open>Documents\<close>

text \<open>The dynamic values the code tells apart: \<^verbatim>\<open>bson.M\<close>, \<^verbatim>\<open>map[string]any\<close>, \<^verbatim>\<open>bson.D\<close>, \<^verbatim>\<open>bson.A\<close>, \<^verbatim>\<open>[]any\<close>,
  \<^verbatim>\<open>primitive.Regex\<close>, strings and integers; anything else is opaque.\<close>

datatype 'x bval =
    BNil
  | BM "(string \<times> 'x bval) list"
  | BMap "(string \<times> 'x bval) list"
  | BD "(string \<times> 'x bval) list"
  | BA "'x bval list"
  | BSlice "'x bval list"
  | BRegex string string
  | BStr string
  | BInt int
  | BOther 'x

type_synonym 'x filter_doc = "(string \<times> 'x bval) list"

definition MaxRegexLength :: nat where "MaxRegexLength = 200"
definition maxRepetition :: nat where "maxRepetition = 100"
definition allowedRegexOptions :: string where "allowedRegexOptions = ''im''"

definition defaultAllowedOperators :: "string list" where
  "defaultAllowedOperators = [''$in'', ''$gt'', ''$gte'', ''$lt'', ''$lte'', ''$ne'', ''$regex'', ''$options'']"

definition forbiddenOperators :: "string list" where
  "forbiddenOperators = [''$where'', ''$function'', ''$expr'', ''$accumulator'', ''$jsonSchema'', ''$lookup'', ''$graphLookup'',
     ''$merge'', ''$out'']"

section \<open>Patterns\<close>

datatype regex_error =
    PatternTooLong nat
  | PatternNul
  | UnsupportedConstruct string
  | Backreference
  | NestedQuantifier string
  | RepetitionBound string

fun hasBackreference :: "string \<Rightarrow> bool" where
  "hasBackreference (c # n # s) =
     (if c \<noteq> CHR 0x5C then hasBackreference (n # s)
      else if in_range CHR ''1'' CHR ''9'' n then True
      else hasBackreference s)"
| "hasBackreference s = False"

definition isQuantifier :: "char \<Rightarrow> bool" where
  "isQuantifier c \<longleftrightarrow> c = CHR ''*'' \<or> c = CHR ''+'' \<or> c = CHR ''{''"

text \<open>The inner loop over a character class, from the byte after its bracket: the index where it stops.\<close>

function skip_class :: "string \<Rightarrow> nat \<Rightarrow> nat" where
  "skip_class p i =
     (if i \<ge> length p then i
      else if p ! i = CHR 0x5C then skip_class p (i + 2)
      else if p ! i = CHR '']'' then i
      else skip_class p (i + 1))"
  by pat_completeness auto
termination by (relation "measure (\<lambda>(p, i). length p - i)") auto

declare skip_class.simps [simp del]

lemma skip_class_ge: "i \<le> skip_class p i"
proof (induction p i rule: skip_class.induct)
  case (1 p i)
  then show ?case by (subst skip_class.simps) auto
qed

function quant_or_alt :: "string \<Rightarrow> nat \<Rightarrow> bool" where
  "quant_or_alt body i =
     (if i \<ge> length body then False
      else if body ! i = CHR 0x5C then quant_or_alt body (i + 2)
      else if body ! i = CHR ''['' then quant_or_alt body (skip_class body (i + 1) + 1)
      else if body ! i \<in> {CHR ''*'', CHR ''+'', CHR ''|'', CHR ''{''} then True
      else quant_or_alt body (i + 1))"
  by pat_completeness auto
termination
  by (relation "measure (\<lambda>(p, i). length p - i)") (auto intro!: diff_less_mono2 le_imp_less_Suc order.trans [OF _ skip_class_ge])

declare quant_or_alt.simps [simp del]

definition containsQuantifierOrAlternation :: "string \<Rightarrow> bool" where
  "containsQuantifierOrAlternation body = quant_or_alt body 0"

text \<open>The stack holds the index of every open parenthesis, the innermost first.\<close>

function nested_loop :: "string \<Rightarrow> nat list \<Rightarrow> nat \<Rightarrow> regex_error option" where
  "nested_loop p stack i =
     (if i \<ge> length p then None
      else if p ! i = CHR 0x5C then nested_loop p stack (i + 2)
      else if p ! i = CHR ''['' then nested_loop p stack (skip_class p (i + 1) + 1)
      else if p ! i = CHR ''('' then nested_loop p (i # stack) (i + 1)
      else if p ! i = CHR '')'' then
        (case stack of
           [] \<Rightarrow> nested_loop p [] (i + 1)
         | opn # rest \<Rightarrow>
             if i + 1 \<ge> length p \<or> \<not> isQuantifier (p ! (i + 1)) then nested_loop p rest (i + 1)
             else
               let body = take (i - (opn + 1)) (drop (opn + 1) p)
               in if containsQuantifierOrAlternation body then Some (NestedQuantifier body)
                  else nested_loop p rest (i + 1))
      else nested_loop p stack (i + 1))"
  by pat_completeness auto
termination
  by (relation "measure (\<lambda>(p, stack, i). length p - i)")
    (auto intro!: diff_less_mono2 le_imp_less_Suc order.trans [OF _ skip_class_ge])

declare nested_loop.simps [simp del]

definition checkNestedQuantifiers :: "string \<Rightarrow> regex_error option" where
  "checkNestedQuantifiers p = nested_loop p [] 0"

text \<open>A number of a repetition: reading stops as soon as it is over the bound.\<close>

fun bound_digits :: "nat \<Rightarrow> string \<Rightarrow> bool \<times> nat" where
  "bound_digits n [] = (True, n)"
| "bound_digits n (c # s) =
     (if \<not> is_digit c then (False, n)
      else let n' = n * 10 + (of_char c - 48) in if n' > maxRepetition then (True, n') else bound_digits n' s)"

definition part_exceeds :: "string \<Rightarrow> bool" where
  "part_exceeds part0 =
     (let part = TrimSpace part0
      in if part = '''' then False
         else (case bound_digits 0 part of (numeric, n) \<Rightarrow> numeric \<and> n > maxRepetition))"

function bounds_loop :: "string \<Rightarrow> nat \<Rightarrow> regex_error option" where
  "bounds_loop p i =
     (if i \<ge> length p then None
      else if p ! i = CHR 0x5C then bounds_loop p (i + 2)
      else if p ! i \<noteq> CHR ''{'' then bounds_loop p (i + 1)
      else if CHR ''}'' \<notin> set (drop i p) then bounds_loop p (i + 1)
      else
        let e = length (takeWhile (\<lambda>c. c \<noteq> CHR ''}'') (drop i p));
            body = take (e - 1) (drop (i + 1) p)
        in if list_ex part_exceeds (Split CHR '','' body) then Some (RepetitionBound body)
           else bounds_loop p (i + e + 1))"
  by pat_completeness auto
termination by (relation "measure (\<lambda>(p, i). length p - i)") auto

declare bounds_loop.simps [simp del]

definition checkRepetitionBounds :: "string \<Rightarrow> regex_error option" where
  "checkRepetitionBounds p = bounds_loop p 0"

definition constructs :: "string list" where
  "constructs = [''(?='', ''(?!'', ''(?<'', ''(?R'', ''(?P>'', ''(?C'', [CHR 0x5C, CHR ''g'']]"

definition ValidateRegexPattern :: "string \<Rightarrow> regex_error option" where
  "ValidateRegexPattern p =
     (if length p > MaxRegexLength then Some (PatternTooLong (length p))
      else if CHR 0x00 \<in> set p then Some PatternNul
      else (case find (\<lambda>c. Contains p c) constructs of
          Some c \<Rightarrow> Some (UnsupportedConstruct c)
        | None \<Rightarrow>
            if hasBackreference p then Some Backreference
            else (case checkNestedQuantifiers p of
                Some e \<Rightarrow> Some e
              | None \<Rightarrow> checkRepetitionBounds p)))"

fun options_loop :: "string \<Rightarrow> string \<Rightarrow> string" where
  "options_loop seen [] = []"
| "options_loop seen (c # s) =
     (if \<not> ContainsRune allowedRegexOptions c then options_loop seen s
      else if c \<in> set seen then options_loop seen s
      else c # options_loop (c # seen) s)"

definition sanitizeRegexOptions :: "string \<Rightarrow> string" where
  "sanitizeRegexOptions options = options_loop [] options"

section \<open>Sanitising\<close>

datatype mongo_error =
    EmptyFieldName string
  | NulInFieldName string
  | NeverAllowed string
  | TopLevelOperator string
  | OperatorsNotAllowed string
  | NotAllowed string
  | BadPattern string regex_error
  | RegexNotAString string
  | OptionsNotAString string

definition join_path :: "string \<Rightarrow> string \<Rightarrow> string" where
  "join_path path0 key = (if path0 = '''' then key else path0 @ ''.'' @ key)"

text \<open>A nil set of operators is \<^term>\<open>None\<close>.\<close>

definition checkKey :: "string \<Rightarrow> string list option \<Rightarrow> string \<Rightarrow> mongo_error option" where
  "checkKey key allowed path0 =
     (let w = join_path path0 key
      in if key = '''' then Some (EmptyFieldName w)
         else if CHR 0x00 \<in> set key then Some (NulInFieldName w)
         else if \<not> HasPrefix key ''$'' then None
         else if key \<in> set forbiddenOperators then Some (NeverAllowed w)
         else if path0 = '''' then Some (TopLevelOperator w)
         else (case allowed of
             None \<Rightarrow> Some (OperatorsNotAllowed w)
           | Some ops \<Rightarrow> if key \<in> set ops then None else Some (NotAllowed w)))"

definition regex_value :: "string \<Rightarrow> 'x bval \<Rightarrow> (mongo_error, 'x bval) result" where
  "regex_value child v =
     (case v of
        BStr p \<Rightarrow> (case ValidateRegexPattern p of Some e \<Rightarrow> Inl (BadPattern child e) | None \<Rightarrow> Inr (BStr p))
      | BRegex p os \<Rightarrow>
          (case ValidateRegexPattern p of Some e \<Rightarrow> Inl (BadPattern child e) | None \<Rightarrow> Inr (BRegex p (sanitizeRegexOptions os)))
      | _ \<Rightarrow> Inl (RegexNotAString child))"

definition options_value :: "string \<Rightarrow> 'x bval \<Rightarrow> (mongo_error, 'x bval) result" where
  "options_value child v = (case v of BStr os \<Rightarrow> Inr (BStr (sanitizeRegexOptions os)) | _ \<Rightarrow> Inl (OptionsNotAString child))"

definition drop_options :: "'x filter_doc \<Rightarrow> 'x filter_doc" where
  "drop_options out =
     (if mget out ''$options'' \<noteq> None \<and> mget out ''$regex'' = None then mdel ''$options'' out else out)"

text \<open>The cases of \<^verbatim>\<open>sanitizeValue\<close>, with the loops of it and of \<^verbatim>\<open>sanitizeMap\<close> over entries and items.\<close>

fun sanitizeValue :: "string list option \<Rightarrow> string \<Rightarrow> 'x bval \<Rightarrow> (mongo_error, 'x bval) result"
and map_entries :: "string list option \<Rightarrow> string \<Rightarrow> 'x filter_doc \<Rightarrow> (mongo_error, 'x filter_doc) result"
and doc_entries :: "string list option \<Rightarrow> string \<Rightarrow> 'x filter_doc \<Rightarrow> (mongo_error, 'x filter_doc) result"
and items :: "string list option \<Rightarrow> string \<Rightarrow> 'x bval list \<Rightarrow> (mongo_error, 'x bval list) result" where
  "sanitizeValue allowed path0 BNil = Inr BNil"
| "sanitizeValue allowed path0 (BM m) = and_then (map_entries allowed path0 m) (\<lambda>out. Inr (BM (drop_options out)))"
| "sanitizeValue allowed path0 (BMap m) = and_then (map_entries allowed path0 m) (\<lambda>out. Inr (BMap (drop_options out)))"
| "sanitizeValue allowed path0 (BD m) = and_then (doc_entries allowed path0 m) (\<lambda>out. Inr (BD out))"
| "sanitizeValue allowed path0 (BA vs) = and_then (items allowed path0 vs) (\<lambda>out. Inr (BA out))"
| "sanitizeValue allowed path0 (BSlice vs) = and_then (items allowed path0 vs) (\<lambda>out. Inr (BSlice out))"
| "sanitizeValue allowed path0 (BRegex p os) =
     (case ValidateRegexPattern p of Some e \<Rightarrow> Inl (BadPattern path0 e) | None \<Rightarrow> Inr (BRegex p (sanitizeRegexOptions os)))"
| "sanitizeValue allowed path0 (BStr s) = Inr (BStr s)"
| "sanitizeValue allowed path0 (BInt i) = Inr (BInt i)"
| "sanitizeValue allowed path0 (BOther x) = Inr (BOther x)"
| "map_entries allowed path0 [] = Inr []"
| "map_entries allowed path0 ((key, v) # m) =
     (case checkKey key allowed path0 of
        Some e \<Rightarrow> Inl e
      | None \<Rightarrow>
          let child = join_path path0 key
          in and_then (if key = ''$regex'' then regex_value child v
                       else if key = ''$options'' then options_value child v
                       else sanitizeValue allowed child v) (\<lambda>clean.
             and_then (map_entries allowed path0 m) (\<lambda>out. Inr ((key, clean) # out))))"
| "doc_entries allowed path0 [] = Inr []"
| "doc_entries allowed path0 ((key, v) # m) =
     (case checkKey key allowed path0 of
        Some e \<Rightarrow> Inl e
      | None \<Rightarrow>
          and_then (sanitizeValue allowed (path0 @ ''.'' @ key) v) (\<lambda>clean.
          and_then (doc_entries allowed path0 m) (\<lambda>out. Inr ((key, clean) # out))))"
| "items allowed path0 [] = Inr []"
| "items allowed path0 (v # vs) =
     and_then (sanitizeValue allowed path0 v) (\<lambda>clean. and_then (items allowed path0 vs) (\<lambda>out. Inr (clean # out)))"

definition sanitizeMap :: "string list option \<Rightarrow> string \<Rightarrow> 'x filter_doc \<Rightarrow> (mongo_error, 'x filter_doc) result" where
  "sanitizeMap allowed path0 m = and_then (map_entries allowed path0 m) (\<lambda>out. Inr (drop_options out))"

fun filter_entries :: "string list option \<Rightarrow> 'x filter_doc \<Rightarrow> (mongo_error, 'x filter_doc) result" where
  "filter_entries allowed [] = Inr []"
| "filter_entries allowed ((key, v) # m) =
     (case checkKey key allowed '''' of
        Some e \<Rightarrow> Inl e
      | None \<Rightarrow>
          and_then (sanitizeValue allowed key v) (\<lambda>clean.
          and_then (filter_entries allowed m) (\<lambda>out. Inr ((key, clean) # out))))"

text \<open>A nil filter is \<^term>\<open>None\<close>.\<close>

definition sanitize :: "'x filter_doc option \<Rightarrow> string list option \<Rightarrow> (mongo_error, 'x filter_doc) result" where
  "sanitize f allowed = (case f of None \<Rightarrow> Inr [] | Some m \<Rightarrow> filter_entries allowed m)"

definition SanitizeFilter :: "'x filter_doc option \<Rightarrow> (mongo_error, 'x filter_doc) result" where
  "SanitizeFilter f = sanitize f None"

definition SanitizeUserFilter :: "'x filter_doc option \<Rightarrow> string list \<Rightarrow> (mongo_error, 'x filter_doc) result" where
  "SanitizeUserFilter f allowedOperators =
     (let allowed = (if length allowedOperators > 0
          then (if ''$regex'' \<in> set allowedOperators then allowedOperators @ [''$options''] else allowedOperators)
          else defaultAllowedOperators)
      in sanitize f (Some allowed))"

section \<open>Clean filters\<close>

definition key_ok :: "string list \<Rightarrow> string \<Rightarrow> bool" where
  "key_ok ops key \<longleftrightarrow> key \<noteq> '''' \<and> CHR 0x00 \<notin> set key \<and>
     (HasPrefix key ''$'' \<longrightarrow> key \<notin> set forbiddenOperators \<and> key \<in> set ops)"

definition options_ok :: "string \<Rightarrow> bool" where
  "options_ok os \<longleftrightarrow> set os \<subseteq> set allowedRegexOptions \<and> distinct os"

definition pattern_ok :: "'x bval \<Rightarrow> bool" where
  "pattern_ok v = (case v of BStr p \<Rightarrow> ValidateRegexPattern p = None
     | BRegex p os \<Rightarrow> ValidateRegexPattern p = None \<and> options_ok os | _ \<Rightarrow> False)"

definition paired :: "'x filter_doc \<Rightarrow> bool" where
  "paired m \<longleftrightarrow> (''$options'' \<in> fst ` set m \<longrightarrow> ''$regex'' \<in> fst ` set m)"

text \<open>
  Documents a user may send, for a set of operators: keys are field names or permitted operators,
  patterns are validated and their options restricted, and there are no options without a pattern. In
  a \<^verbatim>\<open>bson.D\<close> only the keys are looked at, so a pattern there is not one of the validated ones.
\<close>

fun clean_val :: "string list \<Rightarrow> 'x bval \<Rightarrow> bool"
and clean_map :: "string list \<Rightarrow> 'x filter_doc \<Rightarrow> bool"
and clean_doc :: "string list \<Rightarrow> 'x filter_doc \<Rightarrow> bool"
and clean_items :: "string list \<Rightarrow> 'x bval list \<Rightarrow> bool" where
  "clean_val ops (BM m) = (clean_map ops m \<and> paired m)"
| "clean_val ops (BMap m) = (clean_map ops m \<and> paired m)"
| "clean_val ops (BD m) = clean_doc ops m"
| "clean_val ops (BA vs) = clean_items ops vs"
| "clean_val ops (BSlice vs) = clean_items ops vs"
| "clean_val ops (BRegex p os) = (ValidateRegexPattern p = None \<and> options_ok os)"
| "clean_val ops v = True"
| "clean_map ops [] = True"
| "clean_map ops ((key, v) # m) =
     (key_ok ops key \<and>
      (if key = ''$regex'' then pattern_ok v
       else if key = ''$options'' then (case v of BStr os \<Rightarrow> options_ok os | _ \<Rightarrow> False)
       else clean_val ops v) \<and> clean_map ops m)"
| "clean_doc ops [] = True"
| "clean_doc ops ((key, v) # m) = (key_ok ops key \<and> clean_val ops v \<and> clean_doc ops m)"
| "clean_items ops [] = True"
| "clean_items ops (v # vs) = (clean_val ops v \<and> clean_items ops vs)"

definition clean_filter :: "string list \<Rightarrow> 'x filter_doc \<Rightarrow> bool" where
  "clean_filter ops f = list_all (\<lambda>(key, v). key \<noteq> '''' \<and> CHR 0x00 \<notin> set key \<and> \<not> HasPrefix key ''$'' \<and> clean_val ops v) f"

lemma options_loop_ok: "set (options_loop seen s) \<subseteq> set allowedRegexOptions - set seen \<and> distinct (options_loop seen s)"
  by (induction seen s rule: options_loop.induct) (auto simp: ContainsRune_iff)

lemma sanitizeRegexOptions_ok: "options_ok (sanitizeRegexOptions os)"
  using options_loop_ok [of "[]" os] by (auto simp: options_ok_def sanitizeRegexOptions_def)

lemma options_loop_id: "set s \<subseteq> set allowedRegexOptions \<Longrightarrow> distinct s \<Longrightarrow> set s \<inter> set seen = {} \<Longrightarrow> options_loop seen s = s"
  by (induction seen s rule: options_loop.induct) (auto simp: ContainsRune_iff)

lemma sanitizeRegexOptions_id: "options_ok os \<Longrightarrow> sanitizeRegexOptions os = os"
  by (simp add: options_ok_def sanitizeRegexOptions_def options_loop_id)

definition ops_of :: "string list option \<Rightarrow> string list" where
  "ops_of allowed = (case allowed of None \<Rightarrow> [] | Some ops \<Rightarrow> ops)"

lemma checkKey_nested: "path0 \<noteq> '''' \<Longrightarrow> checkKey key allowed path0 = None \<longleftrightarrow> key_ok (ops_of allowed) key"
  by (auto simp: checkKey_def key_ok_def ops_of_def Let_def split: option.splits)

lemma checkKey_top: "checkKey key allowed '''' = None \<longleftrightarrow> key \<noteq> '''' \<and> CHR 0x00 \<notin> set key \<and> \<not> HasPrefix key ''$''"
  by (auto simp: checkKey_def Let_def)

lemma join_path_nonempty [simp]: "path0 \<noteq> [] \<Longrightarrow> join_path path0 key \<noteq> []"
  by (simp add: join_path_def)

lemma regex_value_ok: "regex_value child v = Inr v' \<Longrightarrow> pattern_ok v'"
  by (auto simp: regex_value_def pattern_ok_def sanitizeRegexOptions_ok split: bval.splits option.splits)

lemma regex_value_id: "pattern_ok v \<Longrightarrow> regex_value child v = Inr v"
  by (auto simp: regex_value_def pattern_ok_def sanitizeRegexOptions_id split: bval.splits option.splits)

lemma drop_options_keys: "paired (drop_options m)"
  by (auto simp: paired_def drop_options_def mdel_def mget_None_iff mkeys_def AList.delete_eq split: if_splits)

lemma clean_map_iff: "clean_map ops m \<longleftrightarrow> (\<forall>e \<in> set m. clean_map ops [e])"
proof (induction m)
  case (Cons e m)
  then show ?case by (cases e) simp
qed simp

lemma clean_map_drop: "clean_map ops m \<Longrightarrow> clean_map ops (drop_options m)"
proof -
  assume "clean_map ops m"
  moreover have "set (drop_options m) \<subseteq> set m" by (auto simp: drop_options_def mdel_def AList.delete_eq)
  ultimately show ?thesis using clean_map_iff [of ops m] clean_map_iff [of ops "drop_options m"] by blast
qed

lemma drop_options_id: "paired m \<Longrightarrow> drop_options m = m"
  by (auto simp: paired_def drop_options_def mget_None_iff mkeys_def)

text \<open>What comes out is clean, and what is clean comes out as it went in.\<close>

lemma sanitizeValue_clean:
  fixes v v' :: "'x bval" and m m' e e' :: "'x filter_doc" and vs vs' :: "'x bval list"
  shows "path0 \<noteq> [] \<Longrightarrow> sanitizeValue allowed path0 v = Inr v' \<Longrightarrow> clean_val (ops_of allowed) v'"
    and "path0 \<noteq> [] \<Longrightarrow> map_entries allowed path0 m = Inr m' \<Longrightarrow> clean_map (ops_of allowed) m'"
    and "path0 \<noteq> [] \<Longrightarrow> doc_entries allowed path0 e = Inr e' \<Longrightarrow> clean_doc (ops_of allowed) e'"
    and "path0 \<noteq> [] \<Longrightarrow> items allowed path0 vs = Inr vs' \<Longrightarrow> clean_items (ops_of allowed) vs'"
proof (induction allowed path0 v and allowed path0 m and allowed path0 e and allowed path0 vs
    arbitrary: v' and m' and e' and vs' rule: sanitizeValue_map_entries_doc_entries_items.induct)
  case (12 allowed path0 key v m)
  then show ?case
    by (auto simp: and_then_Inr_iff Let_def checkKey_nested options_value_def sanitizeRegexOptions_ok
        dest: regex_value_ok split: option.splits if_splits bval.splits)
qed (auto simp: and_then_Inr_iff checkKey_nested sanitizeRegexOptions_ok clean_map_drop drop_options_keys split: option.splits)

lemma sanitizeValue_id:
  fixes v v' :: "'x bval" and m m' e e' :: "'x filter_doc" and vs vs' :: "'x bval list"
  shows "path0 \<noteq> [] \<Longrightarrow> clean_val (ops_of allowed) v \<Longrightarrow> sanitizeValue allowed path0 v = Inr v"
    and "path0 \<noteq> [] \<Longrightarrow> clean_map (ops_of allowed) m \<Longrightarrow> map_entries allowed path0 m = Inr m"
    and "path0 \<noteq> [] \<Longrightarrow> clean_doc (ops_of allowed) e \<Longrightarrow> doc_entries allowed path0 e = Inr e"
    and "path0 \<noteq> [] \<Longrightarrow> clean_items (ops_of allowed) vs \<Longrightarrow> items allowed path0 vs = Inr vs"
proof (induction allowed path0 v and allowed path0 m and allowed path0 e and allowed path0 vs
    rule: sanitizeValue_map_entries_doc_entries_items.induct)
  case (12 allowed path0 key v m)
  then have "checkKey key allowed path0 = None" by (simp add: checkKey_nested)
  with 12 show ?case
    by (auto simp: Let_def options_value_def sanitizeRegexOptions_id regex_value_id split: if_splits bval.splits)
next
  case (14 allowed path0 key v m)
  then have "checkKey key allowed path0 = None" by (simp add: checkKey_nested)
  with 14 show ?case by auto
qed (auto simp: drop_options_id sanitizeRegexOptions_id)

lemma filter_entries_clean:
  "filter_entries allowed f = Inr out \<Longrightarrow> clean_filter (ops_of allowed) out \<and> map fst out = map fst f"
proof (induction f arbitrary: out)
  case (Cons e f)
  obtain key v where e: "e = (key, v)" by (cases e)
  with Cons.prems obtain v' out' where "checkKey key allowed '''' = None" "sanitizeValue allowed key v = Inr v'"
      "filter_entries allowed f = Inr out'" "out = (key, v') # out'"
    by (auto simp: and_then_Inr_iff split: option.splits)
  with Cons.IH [of out'] e show ?case using sanitizeValue_clean(1) [of key allowed v v'] by (auto simp: clean_filter_def checkKey_top)
qed (simp add: clean_filter_def)

lemma filter_entries_id: "clean_filter (ops_of allowed) f \<Longrightarrow> filter_entries allowed f = Inr f"
proof (induction f)
  case (Cons e f)
  obtain key v where e: "e = (key, v)" by (cases e)
  with Cons have "checkKey key allowed '''' = None" "sanitizeValue allowed key v = Inr v" "filter_entries allowed f = Inr f"
    by (auto simp: clean_filter_def checkKey_top sanitizeValue_id)
  with e show ?case by simp
qed simp

text \<open>C24. The sanitiser is a projection onto the clean filters: what it returns has the keys it was given and is
  clean (top-level keys are plain field names; below them no operator is forbidden, none is outside the
  permitted set, and with no set there is none at all; every pattern in a map is validated and its options
  are among the allowed ones), and the filters it returns unchanged are exactly the clean ones.\<close>

theorem sanitize_projects:
  "(sanitize (Some f) allowed = Inr f \<longleftrightarrow> clean_filter (ops_of allowed) f) \<and>
   (case sanitize (Some f) allowed of
      Inl e \<Rightarrow> True
    | Inr out \<Rightarrow> clean_filter (ops_of allowed) out \<and> map fst out = map fst f \<and> sanitize (Some out) allowed = Inr out)"
  using filter_entries_clean [of allowed f] filter_entries_id [of allowed] by (auto simp: sanitize_def split: sum.splits)

text \<open>Two filters the default user rules let through unchanged: the comparison with \<^verbatim>\<open>$ne\<close> that the
  documentation of \<^verbatim>\<open>FindOneSafe\<close> gives as the example of what is refused, and, inside a \<^verbatim>\<open>bson.D\<close>, a pattern that
  the validation refuses.\<close>

theorem user_filter_gaps:
  "SanitizeUserFilter (Some [(''password'', BMap [(''$ne'', BNil)])]) [] = Inr [(''password'', BMap [(''$ne'', BNil :: nat bval)])] \<and>
   SanitizeUserFilter (Some [(''name'', BD [(''$regex'', BStr ''(a+)+$'')])]) [] =
     Inr [(''name'', BD [(''$regex'', BStr ''(a+)+$'' :: nat bval)])] \<and>
   ValidateRegexPattern ''(a+)+$'' = Some (NestedQuantifier ''a+'')"
  by (intro conjI; code_simp)

text \<open>A back reference is also seen inside a character class.\<close>

lemma backreference_in_class: "hasBackreference [CHR ''['', CHR 0x5C, CHR ''1'', CHR '']'']"
  by code_simp

section \<open>Callers\<close>

definition DefaultFindLimit :: int where "DefaultFindLimit = 1000"

text \<open>Option sets; a nil pointer is \<^term>\<open>None\<close>, and of an option set only the limit matters here.\<close>

type_synonym find_options = "int option option"

definition hasLimit :: "find_options list \<Rightarrow> bool" where
  "hasLimit opts = list_ex (\<lambda>o1. case o1 of Some (Some l) \<Rightarrow> True | _ \<Rightarrow> False) opts"

definition with_limit :: "find_options list \<Rightarrow> find_options list" where
  "with_limit opts = (if \<not> hasLimit opts then opts @ [Some (Some DefaultFindLimit)] else opts)"

text \<open>What is handed to the collection: the filter and the options.\<close>

definition FindAll :: "'x filter_doc option \<Rightarrow> find_options list \<Rightarrow> 'x filter_doc option \<times> find_options list" where
  "FindAll f opts = (case f of None \<Rightarrow> Some [] | Some m \<Rightarrow> Some m, with_limit opts)"

definition FindOneSafe :: "'x filter_doc option \<Rightarrow> (mongo_error, 'x filter_doc) result" where
  "FindOneSafe f = SanitizeUserFilter f []"

definition FindByConditionSafe :: "'x filter_doc option \<Rightarrow> find_options list \<Rightarrow> (mongo_error, 'x filter_doc \<times> find_options list) result" where
  "FindByConditionSafe f opts = and_then (SanitizeUserFilter f []) (\<lambda>clean. Inr (clean, with_limit opts))"

lemma with_limit_has_limit: "hasLimit (with_limit opts)"
  by (auto simp: with_limit_def hasLimit_def)

definition ToLikeRegexRaw :: "string \<Rightarrow> (regex_error, 'x bval) result" where
  "ToLikeRegexRaw p =
     (case ValidateRegexPattern p of Some e \<Rightarrow> Inl e | None \<Rightarrow> Inr (BM [(''$regex'', BStr p), (''$options'', BStr ''i'')]))"

lemma ToLikeRegexRaw_clean: "ToLikeRegexRaw p = Inr v \<Longrightarrow> clean_val [''$regex'', ''$options''] v"
  by (auto simp: ToLikeRegexRaw_def key_ok_def forbiddenOperators_def paired_def pattern_ok_def options_ok_def
      allowedRegexOptions_def split: option.splits)

subsection \<open>Pages\<close>

definition DefaultPageSize :: int where "DefaultPageSize = 15"
definition MaxPageSize :: int where "MaxPageSize = 500"

definition ClampPageSize :: "int \<Rightarrow> int" where
  "ClampPageSize n = (if n \<le> 0 then DefaultPageSize else if n > MaxPageSize then MaxPageSize else n)"

definition containsStage :: "'x bval list \<Rightarrow> string \<Rightarrow> bool" where
  "containsStage pipeline o1 =
     list_ex (\<lambda>stage. case stage of BM m \<Rightarrow> o1 \<in> fst ` set m | BMap m \<Rightarrow> o1 \<in> fst ` set m | BD m \<Rightarrow> o1 \<in> fst ` set m | _ \<Rightarrow> False) pipeline"

definition page_stages :: "'x bval list \<Rightarrow> int \<Rightarrow> int \<Rightarrow> 'x bval list" where
  "page_stages pipeline page0 count0 =
     (let page = (if page0 < 1 then 1 else page0);
          n = ClampPageSize count0;
          skip = wrap64 ((page - 1) * n);
          stages = (if \<not> containsStage pipeline ''$sort'' then pipeline @ [BM [(''$sort'', BM [(''_id'', BInt 1)])]] else pipeline)
      in stages @
         [BM [(''$facet'', BM [(''metadata'', BA [BM [(''$count'', BStr ''total'')]]),
                               (''data'', BA [BM [(''$skip'', BInt skip)], BM [(''$limit'', BInt n)]])])],
          BM [(''$project'', BM [(''data'', BInt 1), (''total'', BM [(''$arrayElemAt'', BA [BStr ''$metadata.total'', BInt 0])])])]])"

text \<open>The first row of the answer; \<open>float_total\<close> truncates a floating-point total.\<close>

definition page_answer :: "('x \<Rightarrow> int option) \<Rightarrow> 'x filter_doc list \<Rightarrow> 'x filter_doc list \<times> int" where
  "page_answer float_total rows =
     (case rows of
        [] \<Rightarrow> ([], 0)
      | row # _ \<Rightarrow>
          (case mget row ''data'' of
             Some (BA ds) \<Rightarrow> concat (map (\<lambda>d. case d of BM m \<Rightarrow> [m] | BMap m \<Rightarrow> [m] | _ \<Rightarrow> []) ds)
           | _ \<Rightarrow> [],
           case mget row ''total'' of
             Some (BInt n) \<Rightarrow> n
           | Some (BOther x) \<Rightarrow> (case float_total x of Some n \<Rightarrow> n | None \<Rightarrow> 0)
           | _ \<Rightarrow> 0))"

lemma page_stages_sorted: "containsStage (page_stages pipeline page n) ''$sort''"
  by (auto simp: page_stages_def containsStage_def Let_def)

lemma page_stages_keep: "\<exists>rest. page_stages pipeline page n = pipeline @ rest"
  by (simp add: page_stages_def Let_def)

lemma ClampPageSize_range: "1 \<le> ClampPageSize n \<and> ClampPageSize n \<le> 500"
  by (simp add: ClampPageSize_def DefaultPageSize_def MaxPageSize_def)

end
