(* ===== verification/Mongo_Migration.thy ===== *)
theory Mongo_Migration
  imports Go_Lib
begin

text \<open>
  Migrations of MongoDB (\<^verbatim>\<open>common/mongodb/migration\<close>). There is no transaction and no lock: a document with the version,
  under a unique index, is inserted before the body runs, marked completed after it, and removed when the body
  fails. The theorems say what a run leaves in the collection and that a version never runs in two processes
  at once.
\<close>

section \<open>Migrations\<close>

datatype body_result = BodyOk | BodyFails string | BodyPanic

type_synonym 's mongo_body = "'s \<Rightarrow> body_result \<times> 's"

record 's mmig =
  mm_Version :: int
  mm_Name :: string
  mm_Up :: "'s mongo_body option"
  mm_Down :: "'s mongo_body option"
  mm_Checksum :: string

record mapplied =
  ma_Version :: int
  ma_Name :: string
  ma_AppliedAt :: int
  ma_Checksum :: string
  ma_Completed :: bool

datatype mregister_panic = NilMigration | VersionNotPositive int | UpRequired int | DuplicateVersion int string string

definition Register_mongo :: "'s mmig option \<Rightarrow> 's mmig list \<Rightarrow> (mregister_panic, 's mmig list) result" where
  "Register_mongo m registry =
     (case m of
        None \<Rightarrow> Inl NilMigration
      | Some m \<Rightarrow>
          if mm_Version m \<le> 0 then Inl (VersionNotPositive (mm_Version m))
          else if mm_Up m = None then Inl (UpRequired (mm_Version m))
          else (case List.find (\<lambda>e. mm_Version e = mm_Version m) registry of
              Some e \<Rightarrow> Inl (DuplicateVersion (mm_Version m) (mm_Name e) (mm_Name m))
            | None \<Rightarrow> Inr (registry @ [m])))"

definition sort_mongo :: "'s mmig list \<Rightarrow> 's mmig list" where
  "sort_mongo = SliceStable (\<lambda>a b. mm_Version a < mm_Version b)"

definition Registered_mongo :: "'s mmig list \<Rightarrow> 's mmig list" where
  "Registered_mongo registry = sort_mongo registry"

definition Reset_mongo :: "'s mmig list \<Rightarrow> 's mmig list" where
  "Reset_mongo registry = []"

section \<open>The migrator\<close>

datatype collection_error = CollectionEmpty | CollectionBadChar | CollectionReserved

definition validateCollection :: "string \<Rightarrow> collection_error option" where
  "validateCollection name =
     (if name = [] then Some CollectionEmpty
      else if ContainsAny name [CHR ''$'', CHR 0x00] then Some CollectionBadChar
      else if HasPrefix name ''system.'' then Some CollectionReserved
      else None)"

datatype mmig_error =
    EnsureIndex string
  | FindError string
  | DecodeError string
  | MongoChecksumMismatch int string string string
  | AlreadyClaimed int string
  | ClaimFailed int string string
  | ApplyError int string string
  | ReleaseFailed int string string string
  | RecordFailed int string string
  | MongoNotRegistered int string
  | MongoNoDown int string
  | MongoRollback int string string
  | DeleteTracking int string

record 's mmigrator =
  mo_collection :: string
  mo_migs :: "'s mmig list"
  mo_ensureOnce :: bool
  mo_ensureErr :: "mmig_error option"

definition NewWith_mongo :: "'s mmig list \<Rightarrow> 's mmigrator" where
  "NewWith_mongo migs = \<lparr>mo_collection = ''_migrations'', mo_migs = sort_mongo migs, mo_ensureOnce = False, mo_ensureErr = None\<rparr>"

definition New_mongo :: "'s mmig list \<Rightarrow> 's mmigrator" where
  "New_mongo registry = NewWith_mongo (Registered_mongo registry)"

text \<open>Only the once is reset; an error that \<^verbatim>\<open>Ensure\<close> found before stays.\<close>

definition WithCollection :: "string \<Rightarrow> 's mmigrator \<Rightarrow> (collection_error, 's mmigrator) result" where
  "WithCollection name m =
     (if name \<noteq> []
      then (case validateCollection name of
          Some e \<Rightarrow> Inl e
        | None \<Rightarrow> Inr (m\<lparr>mo_collection := name, mo_ensureOnce := False\<rparr>))
      else Inr m)"

text \<open>The calls of the driver on the collection of the given name.\<close>

datatype insert_error = DuplicateKey | InsertError string

record 's mongo_db =
  mdb_CreateIndex :: "string \<Rightarrow> 's \<Rightarrow> string option \<times> 's"
  mdb_Find :: "string \<Rightarrow> 's \<Rightarrow> (string, (string, mapplied list) result) result \<times> 's"
  mdb_Insert :: "string \<Rightarrow> mapplied \<Rightarrow> 's \<Rightarrow> insert_error option \<times> 's"
  mdb_Delete :: "string \<Rightarrow> int \<Rightarrow> 's \<Rightarrow> string option \<times> 's"
  mdb_Complete :: "string \<Rightarrow> int \<Rightarrow> int \<Rightarrow> 's \<Rightarrow> string option \<times> 's"
  mdb_Now :: "'s \<Rightarrow> int"

definition Ensure_mongo :: "'s mongo_db \<Rightarrow> 's mmigrator \<Rightarrow> 's \<Rightarrow> mmig_error option \<times> 's mmigrator \<times> 's" where
  "Ensure_mongo db m s =
     (if mo_ensureOnce m then (mo_ensureErr m, m, s)
      else (case mdb_CreateIndex db (mo_collection m) s of
          (Some e, s1) \<Rightarrow> (Some (EnsureIndex e), m\<lparr>mo_ensureOnce := True, mo_ensureErr := Some (EnsureIndex e)\<rparr>, s1)
        | (None, s1) \<Rightarrow> (mo_ensureErr m, m\<lparr>mo_ensureOnce := True\<rparr>, s1)))"

text \<open>\<^verbatim>\<open>Find\<close> sorted by version, and the decoding of all documents.\<close>

definition Applied_mongo :: "'s mongo_db \<Rightarrow> 's mmigrator \<Rightarrow> 's \<Rightarrow> (mmig_error, mapplied list) result \<times> 's mmigrator \<times> 's" where
  "Applied_mongo db m s =
     (case Ensure_mongo db m s of
        (Some e, m1, s1) \<Rightarrow> (Inl e, m1, s1)
      | (None, m1, s1) \<Rightarrow>
          (case mdb_Find db (mo_collection m1) s1 of
             (Inl e, s2) \<Rightarrow> (Inl (FindError e), m1, s2)
           | (Inr (Inl e), s2) \<Rightarrow> (Inl (DecodeError e), m1, s2)
           | (Inr (Inr out), s2) \<Rightarrow> (Inr out, m1, s2)))"

definition mrecorded :: "mapplied list \<Rightarrow> (int, mapplied) gomap" where
  "mrecorded rows = fold (\<lambda>a m. mput (ma_Version a) a m) rows []"

fun mverify_loop :: "(int, mapplied) gomap \<Rightarrow> 's mmig list \<Rightarrow> mmig_error option" where
  "mverify_loop recorded [] = None"
| "mverify_loop recorded (mg # migs) =
     (case mget recorded (mm_Version mg) of
        None \<Rightarrow> mverify_loop recorded migs
      | Some a \<Rightarrow>
          if mm_Checksum mg = [] \<or> ma_Checksum a = [] then mverify_loop recorded migs
          else if ma_Checksum a \<noteq> mm_Checksum mg
          then Some (MongoChecksumMismatch (mm_Version mg) (mm_Name mg) (ma_Checksum a) (mm_Checksum mg))
          else mverify_loop recorded migs)"

definition Verify_mongo :: "'s mongo_db \<Rightarrow> 's mmigrator \<Rightarrow> 's \<Rightarrow> mmig_error option \<times> 's mmigrator \<times> 's" where
  "Verify_mongo db m s =
     (case Applied_mongo db m s of
        (Inl e, m1, s1) \<Rightarrow> (Some e, m1, s1)
      | (Inr rows, m1, s1) \<Rightarrow> (mverify_loop (mrecorded rows) (mo_migs m1), m1, s1))"

definition Pending_mongo :: "'s mongo_db \<Rightarrow> 's mmigrator \<Rightarrow> 's \<Rightarrow> (mmig_error, 's mmig list) result \<times> 's mmigrator \<times> 's" where
  "Pending_mongo db m s =
     (case Applied_mongo db m s of
        (Inl e, m1, s1) \<Rightarrow> (Inl e, m1, s1)
      | (Inr rows, m1, s1) \<Rightarrow> (Inr (filter (\<lambda>mg. mget (mrecorded rows) (mm_Version mg) = None) (mo_migs m1)), m1, s1))"

section \<open>Running up and down\<close>

fun run_mongo :: "'s mongo_body option \<Rightarrow> 's \<Rightarrow> body_result \<times> 's" where
  "run_mongo None s = (BodyPanic, s)"
| "run_mongo (Some f) s = f s"

text \<open>One round of the loop of \<^verbatim>\<open>UpN\<close>: claim, run, then release or complete. A panic passes through and leaves the claim.\<close>

definition claim_doc :: "'s mmig \<Rightarrow> int \<Rightarrow> mapplied" where
  "claim_doc mig t = \<lparr>ma_Version = mm_Version mig, ma_Name = mm_Name mig, ma_AppliedAt = t, ma_Checksum = mm_Checksum mig, ma_Completed = False\<rparr>"

definition claim_version :: "'s mongo_db \<Rightarrow> string \<Rightarrow> 's mmig \<Rightarrow> 's \<Rightarrow> mmig_error option \<times> 's" where
  "claim_version db coll mig s =
     (case mdb_Insert db coll (claim_doc mig (mdb_Now db s)) s of
        (Some DuplicateKey, s1) \<Rightarrow> (Some (AlreadyClaimed (mm_Version mig) (mm_Name mig)), s1)
      | (Some (InsertError e), s1) \<Rightarrow> (Some (ClaimFailed (mm_Version mig) (mm_Name mig) e), s1)
      | (None, s1) \<Rightarrow> (None, s1))"

definition release_version :: "'s mongo_db \<Rightarrow> string \<Rightarrow> 's mmig \<Rightarrow> string \<Rightarrow> 's \<Rightarrow> mmig_error \<times> 's" where
  "release_version db coll mig err s =
     (case mdb_Delete db coll (mm_Version mig) s of
        (Some delErr, s1) \<Rightarrow> (ReleaseFailed (mm_Version mig) (mm_Name mig) err delErr, s1)
      | (None, s1) \<Rightarrow> (ApplyError (mm_Version mig) (mm_Name mig) err, s1))"

definition complete_version :: "'s mongo_db \<Rightarrow> string \<Rightarrow> 's mmig \<Rightarrow> 's \<Rightarrow> mmig_error option \<times> 's" where
  "complete_version db coll mig s =
     (case mdb_Complete db coll (mm_Version mig) (mdb_Now db s) s of
        (Some e, s1) \<Rightarrow> (Some (RecordFailed (mm_Version mig) (mm_Name mig) e), s1)
      | (None, s1) \<Rightarrow> (None, s1))"

datatype mrun = MRan "int list" "mmig_error option" | MPanics

fun mup_loop :: "'s mongo_db \<Rightarrow> string \<Rightarrow> 's mmig list \<Rightarrow> int list \<Rightarrow> 's \<Rightarrow> mrun \<times> 's" where
  "mup_loop db coll [] vs s = (MRan vs None, s)"
| "mup_loop db coll (mig # migs) vs s =
     (case claim_version db coll mig s of
        (Some e, s1) \<Rightarrow> (MRan vs (Some e), s1)
      | (None, s1) \<Rightarrow>
          (case run_mongo (mm_Up mig) s1 of
             (BodyPanic, s2) \<Rightarrow> (MPanics, s2)
           | (BodyFails err, s2) \<Rightarrow> (case release_version db coll mig err s2 of (e, s3) \<Rightarrow> (MRan vs (Some e), s3))
           | (BodyOk, s2) \<Rightarrow>
               (case complete_version db coll mig s2 of
                  (Some e, s3) \<Rightarrow> (MRan vs (Some e), s3)
                | (None, s3) \<Rightarrow> mup_loop db coll migs (vs @ [mm_Version mig]) s3)))"

definition UpN_mongo :: "'s mongo_db \<Rightarrow> int \<Rightarrow> 's mmigrator \<Rightarrow> 's \<Rightarrow> mrun \<times> 's mmigrator \<times> 's" where
  "UpN_mongo db n m s =
     (case Verify_mongo db m s of
        (Some e, m1, s1) \<Rightarrow> (MRan [] (Some e), m1, s1)
      | (None, m1, s1) \<Rightarrow>
          (case Pending_mongo db m1 s1 of
             (Inl e, m2, s2) \<Rightarrow> (MRan [] (Some e), m2, s2)
           | (Inr pending, m2, s2) \<Rightarrow>
               (let todo = (if n > 0 \<and> n < int (length pending) then take (nat n) pending else pending);
                    (r, s3) = mup_loop db (mo_collection m2) todo [] s2
                in (r, m2, s3))))"

definition Up_mongo :: "'s mongo_db \<Rightarrow> 's mmigrator \<Rightarrow> 's \<Rightarrow> mrun \<times> 's mmigrator \<times> 's" where
  "Up_mongo db m s = UpN_mongo db 0 m s"

fun mdown_loop :: "'s mongo_db \<Rightarrow> string \<Rightarrow> (int, 's mmig) gomap \<Rightarrow> int \<Rightarrow> mapplied list \<Rightarrow> int list \<Rightarrow> 's \<Rightarrow> mrun \<times> 's" where
  "mdown_loop db coll byVersion n [] rolled s = (MRan rolled None, s)"
| "mdown_loop db coll byVersion n (a # as) rolled s =
     (if int (length rolled) < n then
        (case mget byVersion (ma_Version a) of
           None \<Rightarrow> (MRan rolled (Some (MongoNotRegistered (ma_Version a) (ma_Name a))), s)
         | Some mig \<Rightarrow>
             if mm_Down mig = None then (MRan rolled (Some (MongoNoDown (mm_Version mig) (mm_Name mig))), s)
             else (case run_mongo (mm_Down mig) s of
                 (BodyPanic, s1) \<Rightarrow> (MPanics, s1)
               | (BodyFails e, s1) \<Rightarrow> (MRan rolled (Some (MongoRollback (mm_Version mig) (mm_Name mig) e)), s1)
               | (BodyOk, s1) \<Rightarrow>
                   (case mdb_Delete db coll (mm_Version mig) s1 of
                      (Some e, s2) \<Rightarrow> (MRan rolled (Some (DeleteTracking (mm_Version mig) e)), s2)
                    | (None, s2) \<Rightarrow> mdown_loop db coll byVersion n as (rolled @ [mm_Version mig]) s2)))
      else (MRan rolled None, s))"

definition DownN_mongo :: "'s mongo_db \<Rightarrow> int \<Rightarrow> 's mmigrator \<Rightarrow> 's \<Rightarrow> mrun \<times> 's mmigrator \<times> 's" where
  "DownN_mongo db n m s =
     (if n \<le> 0 then (MRan [] None, m, s)
      else
        (case Applied_mongo db m s of
           (Inl e, m1, s1) \<Rightarrow> (MRan [] (Some e), m1, s1)
         | (Inr rows, m1, s1) \<Rightarrow>
             (let byVersion = fold (\<lambda>mg mp. mput (mm_Version mg) mg mp) (mo_migs m1) [];
                  (r, s2) = mdown_loop db (mo_collection m1) byVersion n (rev rows) [] s1
              in (r, m1, s2))))"

definition Down_mongo :: "'s mongo_db \<Rightarrow> 's mmigrator \<Rightarrow> 's \<Rightarrow> (int \<times> mmig_error option) option \<times> 's mmigrator \<times> 's" where
  "Down_mongo db m s =
     (case DownN_mongo db 1 m s of
        (MPanics, m1, s1) \<Rightarrow> (None, m1, s1)
      | (MRan versions err, m1, s1) \<Rightarrow>
          (Some (if err \<noteq> None \<or> versions = [] then (0, err) else (versions ! 0, None)), m1, s1))"

section \<open>What the collection promises\<close>

definition docs_map :: "mapplied list \<Rightarrow> int \<rightharpoonup> mapplied" where
  "docs_map rows = map_of (map (\<lambda>a. (ma_Version a, a)) rows)"

text \<open>
  \<open>docs\<close> are the documents of the tracking collection by version, \<open>data\<close> everything else. A call that reports an
  error other than a duplicate key may or may not have had its effect.
\<close>

locale claim_collection =
  fixes db :: "'s mongo_db" and coll :: string and docs :: "'s \<Rightarrow> (int \<rightharpoonup> mapplied)" and data :: "'s \<Rightarrow> 'd"
  assumes index_keeps: "docs (snd (mdb_CreateIndex db coll s)) = docs s" "data (snd (mdb_CreateIndex db coll s)) = data s"
    and find_keeps: "docs (snd (mdb_Find db coll s)) = docs s" "data (snd (mdb_Find db coll s)) = data s"
    and find_reads: "fst (mdb_Find db coll s) = Inr (Inr out) \<Longrightarrow> sorted_wrt (<) (map ma_Version out) \<and> docs_map out = docs s"
    and insert_ok: "mdb_Insert db coll a s = (None, s') \<Longrightarrow>
      docs s (ma_Version a) = None \<and> docs s' = (docs s)(ma_Version a \<mapsto> a) \<and> data s' = data s"
    and insert_duplicate: "mdb_Insert db coll a s = (Some DuplicateKey, s') \<Longrightarrow>
      docs s (ma_Version a) \<noteq> None \<and> docs s' = docs s \<and> data s' = data s"
    and insert_error: "mdb_Insert db coll a s = (Some (InsertError e), s') \<Longrightarrow>
      (docs s' = docs s \<or> docs s (ma_Version a) = None \<and> docs s' = (docs s)(ma_Version a \<mapsto> a)) \<and> data s' = data s"
    and delete_ok: "mdb_Delete db coll v s = (None, s') \<Longrightarrow> docs s' = (docs s)(v := None) \<and> data s' = data s"
    and delete_error: "mdb_Delete db coll v s = (Some e, s') \<Longrightarrow> (docs s' = docs s \<or> docs s' = (docs s)(v := None)) \<and> data s' = data s"
    and complete_ok: "mdb_Complete db coll v t s = (None, s') \<Longrightarrow> docs s v = Some a \<Longrightarrow>
      docs s' = (docs s)(v \<mapsto> a\<lparr>ma_Completed := True, ma_AppliedAt := t\<rparr>) \<and> data s' = data s"
    and complete_error: "mdb_Complete db coll v t s = (Some e, s') \<Longrightarrow> (\<forall>w. w \<noteq> v \<longrightarrow> docs s' w = docs s w) \<and>
      (docs s v \<noteq> None \<longrightarrow> docs s' v \<noteq> None) \<and> data s' = data s"
    and complete_absent: "mdb_Complete db coll v t s = (r, s') \<Longrightarrow> docs s v = None \<Longrightarrow> docs s' = docs s"

text \<open>A body that leaves the tracking collection alone; \<open>eff\<close> is what a success of it does.\<close>

definition body_of :: "('s \<Rightarrow> (int \<rightharpoonup> mapplied)) \<Rightarrow> ('s \<Rightarrow> 'd) \<Rightarrow> 's mongo_body option \<Rightarrow> ('d \<Rightarrow> 'd) \<Rightarrow> bool" where
  "body_of docs data body eff \<longleftrightarrow>
     (\<forall>s. case run_mongo body s of (r, s') \<Rightarrow> docs s' = docs s \<and> (r = BodyOk \<longrightarrow> data s' = eff (data s)))"

section \<open>What a run leaves\<close>

definition done_doc :: "'s mmig \<Rightarrow> int \<Rightarrow> mapplied" where
  "done_doc mg t = (claim_doc mg t)\<lparr>ma_Completed := True\<rparr>"

definition with_done :: "('s mmig \<times> int) list \<Rightarrow> (int \<rightharpoonup> mapplied) \<Rightarrow> (int \<rightharpoonup> mapplied)" where
  "with_done steps D = fold (\<lambda>(mg, t) D. D(mm_Version mg \<mapsto> done_doc mg t)) steps D"

text \<open>
  The end of a run over \<open>migs\<close> of which the first \<open>k\<close> were completed: after a success these are all; a version that is already
  claimed and a body that failed leave nothing of their own; a body that panicked leaves its claim, not completed.
\<close>

definition mrun_ends :: "mrun \<Rightarrow> 's mmig list \<Rightarrow> nat \<Rightarrow> (int \<rightharpoonup> mapplied) \<Rightarrow> (int \<rightharpoonup> mapplied) \<Rightarrow> bool" where
  "mrun_ends r migs k D D' \<longleftrightarrow>
     (case r of
        MRan ds None \<Rightarrow> k = length migs \<and> ds = map mm_Version migs \<and> D' = D
      | MRan ds (Some e) \<Rightarrow> k < length migs \<and> ds = map mm_Version (take k migs) \<and>
          (\<forall>v. v \<noteq> mm_Version (migs ! k) \<longrightarrow> D' v = D v) \<and>
          (case e of
             AlreadyClaimed v n \<Rightarrow> v = mm_Version (migs ! k) \<and> D v \<noteq> None \<and> D' = D
           | ApplyError v n x \<Rightarrow> v = mm_Version (migs ! k) \<and> D v = None \<and> D' = D
           | _ \<Rightarrow> True)
      | MPanics \<Rightarrow> k < length migs \<and> (\<exists>t. D (mm_Version (migs ! k)) = None \<and> D' = D(mm_Version (migs ! k) \<mapsto> claim_doc (migs ! k) t)))"

lemma with_done_simps [simp]:
  "with_done [] D = D" "with_done ((mg, t) # steps) D = with_done steps (D(mm_Version mg \<mapsto> done_doc mg t))"
  by (simp_all add: with_done_def)

lemma body_ofD:
  assumes "body_of docs data body eff" and "run_mongo body s = (r, s')"
  shows "docs s' = docs s" and "r = BodyOk \<Longrightarrow> data s' = eff (data s)"
  using assms by (auto simp: body_of_def split: prod.splits)

lemma claim_doc_simps [simp]: "ma_Version (claim_doc mg t) = mm_Version mg" "ma_Completed (claim_doc mg t) = False"
  by (simp_all add: claim_doc_def)

lemma claim_doc_completed: "(claim_doc mg t)\<lparr>ma_Completed := True, ma_AppliedAt := t'\<rparr> = done_doc mg t'"
  by (simp add: claim_doc_def done_doc_def)

context claim_collection
begin

lemma claim_cases:
  assumes "claim_version db coll mig s = (r, s')"
  shows "data s' = data s \<and>
    (case r of
       None \<Rightarrow> docs s (mm_Version mig) = None \<and> (\<exists>t. docs s' = (docs s)(mm_Version mig \<mapsto> claim_doc mig t))
     | Some e \<Rightarrow> (e = AlreadyClaimed (mm_Version mig) (mm_Name mig) \<and> docs s (mm_Version mig) \<noteq> None \<and> docs s' = docs s) \<or>
         ((\<exists>x. e = ClaimFailed (mm_Version mig) (mm_Name mig) x) \<and>
          (docs s' = docs s \<or> docs s (mm_Version mig) = None \<and> (\<exists>t. docs s' = (docs s)(mm_Version mig \<mapsto> claim_doc mig t)))))"
proof -
  let ?a = "claim_doc mig (mdb_Now db s)"
  show ?thesis
    using assms insert_ok [of ?a s] insert_duplicate [of ?a s] insert_error [of ?a s]
    by (fastforce simp: claim_version_def split: prod.splits option.splits insert_error.splits)
qed

lemma release_cases:
  assumes "release_version db coll mig err s = (e, s')"
  shows "data s' = data s \<and> (\<forall>v. v \<noteq> mm_Version mig \<longrightarrow> docs s' v = docs s v) \<and>
    (e = ApplyError (mm_Version mig) (mm_Name mig) err \<and> docs s' = (docs s)(mm_Version mig := None) \<or>
     (\<exists>x. e = ReleaseFailed (mm_Version mig) (mm_Name mig) err x))"
  using assms delete_ok [of "mm_Version mig" s] delete_error [of "mm_Version mig" s]
  by (fastforce simp: release_version_def split: prod.splits option.splits)

lemma complete_cases:
  assumes "complete_version db coll mig s = (r, s')" and "docs s (mm_Version mig) = Some (claim_doc mig t)"
  shows "data s' = data s \<and> (\<forall>v. v \<noteq> mm_Version mig \<longrightarrow> docs s' v = docs s v) \<and>
    (case r of
       None \<Rightarrow> \<exists>t'. docs s' = (docs s)(mm_Version mig \<mapsto> done_doc mig t')
     | Some e \<Rightarrow> \<exists>x. e = RecordFailed (mm_Version mig) (mm_Name mig) x)"
  using assms complete_ok [of "mm_Version mig" "mdb_Now db s" s s' "claim_doc mig t"] complete_error [of "mm_Version mig" "mdb_Now db s" s]
  by (fastforce simp: complete_version_def claim_doc_completed split: prod.splits option.splits)

lemma up_loop_spec:
  assumes "mup_loop db coll migs vs s = (r, s')"
    and "\<forall>mg \<in> set migs. body_of docs data (mm_Up mg) (eff (mm_Version mg))"
  shows "\<exists>k ts r0. length ts = k \<and> k \<le> length migs \<and>
    r = (case r0 of MRan ds e \<Rightarrow> MRan (vs @ ds) e | MPanics \<Rightarrow> MPanics) \<and>
    mrun_ends r0 migs k (with_done (zip (take k migs) ts) (docs s)) (docs s') \<and>
    (\<forall>ds. r0 = MRan ds None \<longrightarrow> data s' = fold (\<lambda>mg. eff (mm_Version mg)) migs (data s))"
  using assms
proof (induction migs arbitrary: vs s)
  case Nil
  then show ?case by (intro exI [of _ 0] exI [of _ "[]"] exI [of _ "MRan [] None"]) (auto simp: mrun_ends_def)
next
  case (Cons mig migs)
  obtain c s1 where c: "claim_version db coll mig s = (c, s1)" by fastforce
  note claim = claim_cases [OF c]
  have body: "body_of docs data (mm_Up mig) (eff (mm_Version mig))" using Cons.prems by simp
  show ?case
  proof (cases c)
    case (Some e)
    then have "mrun_ends (MRan [] (Some e)) (mig # migs) 0 (docs s) (docs s')" and "r = MRan vs (Some e)"
      using Cons.prems(1) c claim by (auto simp: mrun_ends_def)
    then show ?thesis by (intro exI [of _ 0] exI [of _ "[]"] exI [of _ "MRan [] (Some e)"]) auto
  next
    case None
    with claim obtain t where free: "docs s (mm_Version mig) = None"
      and d1: "docs s1 = (docs s)(mm_Version mig \<mapsto> claim_doc mig t)" "data s1 = data s" by auto
    obtain b s2 where b: "run_mongo (mm_Up mig) s1 = (b, s2)" by fastforce
    note run = body_ofD [OF body b]
    show ?thesis
    proof (cases b)
      case BodyPanic
      then have "mrun_ends MPanics (mig # migs) 0 (docs s) (docs s')" and "r = MPanics"
        using Cons.prems(1) c None b run d1 free by (auto simp: mrun_ends_def)
      then show ?thesis by (intro exI [of _ 0] exI [of _ "[]"] exI [of _ MPanics]) auto
    next
      case (BodyFails err)
      obtain e s3 where rel: "release_version db coll mig err s2 = (e, s3)" by fastforce
      have r: "r = MRan vs (Some e)" "s' = s3" using Cons.prems(1) c None b BodyFails rel by simp_all
      have "mrun_ends (MRan [] (Some e)) (mig # migs) 0 (docs s) (docs s')"
        using release_cases [OF rel] run(1) d1 free r by (auto simp: mrun_ends_def fun_eq_iff)
      with r show ?thesis by (intro exI [of _ 0] exI [of _ "[]"] exI [of _ "MRan [] (Some e)"]) auto
    next
      case BodyOk
      obtain x s3 where com: "complete_version db coll mig s2 = (x, s3)" by fastforce
      have "docs s2 (mm_Version mig) = Some (claim_doc mig t)" using run(1) d1 by simp
      note fin = complete_cases [OF com this]
      show ?thesis
      proof (cases x)
        case (Some e)
        then have "mrun_ends (MRan [] (Some e)) (mig # migs) 0 (docs s) (docs s')" and "r = MRan vs (Some e)"
          using Cons.prems(1) c None b BodyOk com fin run(1) d1 by (auto simp: mrun_ends_def)
        then show ?thesis by (intro exI [of _ 0] exI [of _ "[]"] exI [of _ "MRan [] (Some e)"]) auto
      next
        case ok: None
        with fin obtain t' where d3: "docs s3 = (docs s)(mm_Version mig \<mapsto> done_doc mig t')" "data s3 = eff (mm_Version mig) (data s)"
          using run BodyOk d1 by auto
        have "mup_loop db coll migs (vs @ [mm_Version mig]) s3 = (r, s')" using Cons.prems(1) c None b BodyOk com ok by simp
        from Cons.IH [OF this] Cons.prems(2) obtain k ts r0 where k: "length ts = k" "k \<le> length migs"
          "r = (case r0 of MRan ds e \<Rightarrow> MRan ((vs @ [mm_Version mig]) @ ds) e | MPanics \<Rightarrow> MPanics)"
          "mrun_ends r0 migs k (with_done (zip (take k migs) ts) (docs s3)) (docs s')"
          "\<forall>ds. r0 = MRan ds None \<longrightarrow> data s' = fold (\<lambda>mg. eff (mm_Version mg)) migs (data s3)" by auto
        let ?r0 = "case r0 of MRan ds e \<Rightarrow> MRan (mm_Version mig # ds) e | MPanics \<Rightarrow> MPanics"
        have "mrun_ends ?r0 (mig # migs) (Suc k) (with_done (zip (take (Suc k) (mig # migs)) (t' # ts)) (docs s)) (docs s')"
          using k(4) d3(1) by (cases r0) (auto simp: mrun_ends_def split: option.splits mmig_error.splits)
        then show ?thesis using k d3
          by (intro exI [of _ "Suc k"] exI [of _ "t' # ts"] exI [of _ ?r0]) (auto split: mrun.splits)
      qed
    qed
  qed
qed

lemma mrecorded_lookup:
  assumes "sorted_wrt (<) (map ma_Version rows)"
  shows "mget (mrecorded rows) v = docs_map rows v"
proof -
  have gen: "mget (fold (\<lambda>a m. mput (ma_Version a) a m) rs m0) v =
      (case docs_map (rev rs) v of Some a \<Rightarrow> Some a | None \<Rightarrow> mget m0 v)" for rs m0
    by (induction rs arbitrary: m0) (auto simp: docs_map_def map_add_def split: option.splits)
  have "distinct (map ma_Version rows)" using assms by (simp add: strict_sorted_iff)
  then have "docs_map (rev rows) = docs_map rows"
    unfolding docs_map_def by (subst rev_map [symmetric], intro map_of_inject_set [THEN iffD2]) (auto simp: comp_def rev_map [symmetric])
  then show ?thesis by (simp add: mrecorded_def gen split: option.splits)
qed

lemma applied_mongo_reads:
  assumes run: "Applied_mongo db m s = (r, m1, s1)" and m: "mo_collection m = coll"
  shows "docs s1 = docs s \<and> data s1 = data s \<and> mo_collection m1 = coll \<and> mo_migs m1 = mo_migs m \<and>
    (\<forall>rows. r = Inr rows \<longrightarrow> sorted_wrt (<) (map ma_Version rows) \<and> docs_map rows = docs s)"
proof -
  obtain e m2 s2 where en: "Ensure_mongo db m s = (e, m2, s2)" by (cases "Ensure_mongo db m s")
  obtain a s3 where q: "mdb_Find db coll s2 = (a, s3)" by fastforce
  have k: "docs s2 = docs s" "data s2 = data s" "mo_collection m2 = coll" "mo_migs m2 = mo_migs m"
    using en index_keeps [of s] m by (auto simp: Ensure_mongo_def split: if_splits prod.splits option.splits)
  have k3: "docs s3 = docs s" "data s3 = data s" using find_keeps [of s2] q k by simp_all
  show ?thesis
    using run en q k k3 find_reads [of s2] by (auto simp: Applied_mongo_def split: option.splits sum.splits)
qed

lemma verify_mongo_reads:
  assumes run: "Verify_mongo db m s = (r, m1, s1)" and m: "mo_collection m = coll"
  shows "docs s1 = docs s \<and> data s1 = data s \<and> mo_collection m1 = coll \<and> mo_migs m1 = mo_migs m"
proof -
  obtain a m2 s2 where ap: "Applied_mongo db m s = (a, m2, s2)" by (cases "Applied_mongo db m s")
  show ?thesis using run ap applied_mongo_reads [OF ap m] by (auto simp: Verify_mongo_def split: sum.splits)
qed

lemma pending_mongo_reads:
  assumes run: "Pending_mongo db m s = (r, m1, s1)" and m: "mo_collection m = coll"
  shows "docs s1 = docs s \<and> data s1 = data s \<and> mo_collection m1 = coll \<and>
    (\<forall>pend. r = Inr pend \<longrightarrow> pend = filter (\<lambda>mg. docs s (mm_Version mg) = None) (mo_migs m))"
proof -
  obtain a m2 s2 where ap: "Applied_mongo db m s = (a, m2, s2)" by (cases "Applied_mongo db m s")
  show ?thesis using run ap applied_mongo_reads [OF ap m] mrecorded_lookup by (auto simp: Pending_mongo_def split: sum.splits)
qed

end

definition mongo_todo :: "int \<Rightarrow> (int \<rightharpoonup> mapplied) \<Rightarrow> 's mmig list \<Rightarrow> 's mmig list" where
  "mongo_todo n D migs =
     (let pending = filter (\<lambda>mg. D (mm_Version mg) = None) migs
      in if n > 0 \<and> n < int (length pending) then take (nat n) pending else pending)"

text \<open>C30. After a run up, the collection has, for some first part of the versions it had no document of, completed documents in their
  order, and nothing else has changed but perhaps the next version: a success completed all of them and had the effects of all bodies
  in order; a version that another process holds or whose body failed leaves no trace; a body that panicked leaves its claim.\<close>

theorem mongo_up_outcome:
  assumes "claim_collection db coll docs data" and "mo_collection m = coll"
    and "\<forall>mg \<in> set (mo_migs m). body_of docs data (mm_Up mg) (eff (mm_Version mg))"
  shows "case UpN_mongo db n m s of (r, m', s') \<Rightarrow>
    (\<exists>e. r = MRan [] (Some e)) \<and> docs s' = docs s \<and> data s' = data s \<or>
    (let todo = mongo_todo n (docs s) (mo_migs m)
     in \<exists>k ts. length ts = k \<and> k \<le> length todo \<and> mrun_ends r todo k (with_done (zip (take k todo) ts) (docs s)) (docs s') \<and>
       (\<forall>ds. r = MRan ds None \<longrightarrow> data s' = fold (\<lambda>mg. eff (mm_Version mg)) todo (data s)))"
proof -
  obtain e1 m1 s1 where ve: "Verify_mongo db m s = (e1, m1, s1)" by (cases "Verify_mongo db m s")
  obtain p m2 s2 where pe: "Pending_mongo db m1 s1 = (p, m2, s2)" by (cases "Pending_mongo db m1 s1")
  note k1 = claim_collection.verify_mongo_reads [OF assms(1) ve assms(2)]
  then have m1: "mo_collection m1 = coll" by simp
  note k2 = claim_collection.pending_mongo_reads [OF assms(1) pe m1]
  show ?thesis
  proof (cases "e1 = None \<and> (\<exists>pend. p = Inr pend)")
    case False
    then show ?thesis using ve pe k1 k2 by (auto simp: UpN_mongo_def split: option.splits sum.splits)
  next
    case True
    then obtain pend where p: "e1 = None" "p = Inr pend" by blast
    let ?todo = "if n > 0 \<and> n < int (length pend) then take (nat n) pend else pend"
    obtain r s' where l: "mup_loop db coll ?todo [] s2 = (r, s')" by fastforce
    have todo: "?todo = mongo_todo n (docs s) (mo_migs m)" using k1 k2 p by (simp add: mongo_todo_def Let_def)
    have "set ?todo \<subseteq> set (mo_migs m)" using k1 k2 p by (auto dest: in_set_takeD split: if_splits)
    with assms(3) have "\<forall>mg \<in> set ?todo. body_of docs data (mm_Up mg) (eff (mm_Version mg))" by blast
    from claim_collection.up_loop_spec [OF assms(1) l this] obtain k ts r0 where k: "length ts = k" "k \<le> length ?todo"
      "r = (case r0 of MRan ds e \<Rightarrow> MRan ([] @ ds) e | MPanics \<Rightarrow> MPanics)"
      "mrun_ends r0 ?todo k (with_done (zip (take k ?todo) ts) (docs s2)) (docs s')"
      "\<forall>ds. r0 = MRan ds None \<longrightarrow> data s' = fold (\<lambda>mg. eff (mm_Version mg)) ?todo (data s2)" by blast
    have r0: "r0 = r" using k(3) by (cases r0) auto
    have d: "docs s2 = docs s" "data s2 = data s" using k1 k2 by simp_all
    have "mo_collection m2 = coll" using k2 by simp
    with l have run: "UpN_mongo db n m s = (r, m2, s')"
      by (simp only: UpN_mongo_def ve pe p Let_def prod.case option.case sum.case)
    have "\<exists>k ts. length ts = k \<and> k \<le> length ?todo \<and> mrun_ends r ?todo k (with_done (zip (take k ?todo) ts) (docs s)) (docs s') \<and>
       (\<forall>ds. r = MRan ds None \<longrightarrow> data s' = fold (\<lambda>mg. eff (mm_Version mg)) ?todo (data s))"
      using k(1,2,4,5) unfolding r0 d by blast
    then show ?thesis unfolding run prod.case Let_def todo by blast
  qed
qed

section \<open>A collection\<close>

text \<open>Documents and a log of what bodies did.\<close>

type_synonym mserver = "(int \<times> mapplied) list \<times> string list"

definition mserver_docs :: "mserver \<Rightarrow> (int \<rightharpoonup> mapplied)" where
  "mserver_docs s = (\<lambda>v. map_option (\<lambda>a. a\<lparr>ma_Version := v\<rparr>) (map_of (fst s) v))"

definition mserver_db :: "mserver mongo_db" where
  "mserver_db =
     \<lparr>mdb_CreateIndex = (\<lambda>c s. (None, s)),
      mdb_Find = (\<lambda>c s. (Inr (Inr (map (\<lambda>(v, a). a\<lparr>ma_Version := v\<rparr>) (sort_key fst (AList.clearjunk (fst s))))), s)),
      mdb_Insert = (\<lambda>c a s. if map_of (fst s) (ma_Version a) \<noteq> None then (Some DuplicateKey, s) else (None, ((ma_Version a, a) # fst s, snd s))),
      mdb_Delete = (\<lambda>c v s. (None, (filter (\<lambda>d. fst d \<noteq> v) (fst s), snd s))),
      mdb_Complete = (\<lambda>c v t s. (None, (map (\<lambda>(w, a). (w, if w = v then a\<lparr>ma_Completed := True, ma_AppliedAt := t\<rparr> else a)) (fst s), snd s))),
      mdb_Now = (\<lambda>s. 7)\<rparr>"

lemma map_of_update_values:
  "map_of (map (\<lambda>(w, a). (w, if w = v then f a else a)) xs) = (map_of xs)(v := map_option f (map_of xs v))"
  by (induction xs) (auto simp: fun_eq_iff)

lemma map_of_remove_key: "map_of (filter (\<lambda>d. fst d \<noteq> v) xs) = (map_of xs)(v := None)"
  by (induction xs) (auto simp: fun_eq_iff)

lemma mserver_find:
  "sorted_wrt (<) (map ma_Version (map (\<lambda>(v, a). a\<lparr>ma_Version := v\<rparr>) (sort_key fst (AList.clearjunk tab)))) \<and>
   docs_map (map (\<lambda>(v, a). a\<lparr>ma_Version := v\<rparr>) (sort_key fst (AList.clearjunk tab))) = mserver_docs (tab, log)"
proof -
  let ?rows = "sort_key fst (AList.clearjunk tab) :: (int \<times> mapplied) list"
  have d: "distinct (map fst (AList.clearjunk tab))" by (rule distinct_clearjunk)
  have "distinct (map fst ?rows)" using d by (metis distinct_map distinct_sort set_sort)
  then have "sorted_wrt (<) (map fst ?rows)" by (simp add: strict_sorted_iff)
  moreover have "map ma_Version (map (\<lambda>(v, a). a\<lparr>ma_Version := v\<rparr>) xs) = map fst xs" for xs
    by (induction xs) auto
  moreover have "docs_map (map (\<lambda>(v, a). a\<lparr>ma_Version := v\<rparr>) xs) v = map_option (\<lambda>a. a\<lparr>ma_Version := v\<rparr>) (map_of xs v)" for xs v
    by (induction xs) (auto simp: docs_map_def)
  moreover have "map_of ?rows = map_of tab"
    using d by (subst map_of_clearjunk [symmetric], intro map_of_inject_set [THEN iffD2]) (auto simp: distinct_map)
  ultimately show ?thesis unfolding mserver_docs_def fst_conv by (metis (no_types) ext)
qed

interpretation mserver: claim_collection mserver_db coll mserver_docs snd for coll
proof unfold_locales
  fix s :: mserver and out
  assume "fst (mdb_Find mserver_db coll s) = Inr (Inr out)"
  then show "sorted_wrt (<) (map ma_Version out) \<and> docs_map out = mserver_docs s"
    using mserver_find [of "fst s" "snd s"] by (auto simp: mserver_db_def)
qed (auto simp: mserver_db_def mserver_docs_def map_of_update_values map_of_remove_key fun_eq_iff split: if_splits)

definition log_mongo :: "string \<Rightarrow> body_result \<Rightarrow> mserver mongo_body" where
  "log_mongo q r = (\<lambda>s. (r, (fst s, snd s @ [q])))"

definition demo_mmig :: "int \<Rightarrow> body_result \<Rightarrow> mserver mmig" where
  "demo_mmig v r = \<lparr>mm_Version = v, mm_Name = ''m'', mm_Up = Some (log_mongo ''up'' r), mm_Down = Some (log_mongo ''down'' BodyOk), mm_Checksum = []\<rparr>"

theorem mongo_up_outcome_witness:
  "(case UpN_mongo mserver_db 0 (NewWith_mongo [demo_mmig 5 BodyPanic, demo_mmig 2 BodyOk, demo_mmig 4 (BodyFails ''x'')]) ([], []) of
      (r, m', s') \<Rightarrow> r = MRan [2] (Some (ApplyError 4 ''m'' ''x'')) \<and> map fst (fst s') = [2]) \<and>
   (case UpN_mongo mserver_db 0 (NewWith_mongo [demo_mmig 5 BodyPanic, demo_mmig 2 BodyOk, demo_mmig 4 (BodyFails ''x'')]) ([], []) of
      (r, m', s') \<Rightarrow> \<exists>k ts. length ts = k \<and>
        mrun_ends (MRan [2] (Some (ApplyError 4 ''m'' ''x''))) [demo_mmig 2 BodyOk, demo_mmig 4 (BodyFails ''x''), demo_mmig 5 BodyPanic] k
          (with_done (zip (take k [demo_mmig 2 BodyOk, demo_mmig 4 (BodyFails ''x''), demo_mmig 5 BodyPanic]) ts) (mserver_docs ([], [])))
          (mserver_docs s'))"
proof
  let ?m = "NewWith_mongo [demo_mmig 5 BodyPanic, demo_mmig 2 BodyOk, demo_mmig 4 (BodyFails ''x'')]"
  show "case UpN_mongo mserver_db 0 ?m ([], []) of
      (r, m', s') \<Rightarrow> r = MRan [2] (Some (ApplyError 4 ''m'' ''x'')) \<and> map fst (fst s') = [2]"
    by code_simp
  have migs: "mo_migs ?m = [demo_mmig 2 BodyOk, demo_mmig 4 (BodyFails ''x''), demo_mmig 5 BodyPanic]"
    by (simp add: NewWith_mongo_def sort_mongo_def SliceStable_def demo_mmig_def)
  have bodies: "\<forall>mg \<in> set (mo_migs ?m). body_of mserver_docs snd (mm_Up mg) ((\<lambda>v log. log @ [''up'']) (mm_Version mg))"
    unfolding migs by (auto simp: demo_mmig_def log_mongo_def body_of_def mserver_docs_def)
  have todo: "mongo_todo 0 (mserver_docs ([], [])) (mo_migs ?m) = [demo_mmig 2 BodyOk, demo_mmig 4 (BodyFails ''x''), demo_mmig 5 BodyPanic]"
    unfolding migs by (simp add: mongo_todo_def mserver_docs_def)
  obtain r m' s' where run: "UpN_mongo mserver_db 0 ?m ([], []) = (r, m', s')" by (rule prod_cases3)
  have "fst (UpN_mongo mserver_db 0 ?m ([], [])) = MRan [2] (Some (ApplyError 4 ''m'' ''x''))" by code_simp
  then have r: "r = MRan [2] (Some (ApplyError 4 ''m'' ''x''))" by (simp add: run)
  have "mo_collection ?m = ''_migrations''" by (simp add: NewWith_mongo_def)
  from mongo_up_outcome [OF mserver.claim_collection_axioms this bodies, where n = 0 and s = "([], [])"] r
  show "case UpN_mongo mserver_db 0 ?m ([], []) of (r, m', s') \<Rightarrow> \<exists>k ts. length ts = k \<and>
      mrun_ends (MRan [2] (Some (ApplyError 4 ''m'' ''x''))) [demo_mmig 2 BodyOk, demo_mmig 4 (BodyFails ''x''), demo_mmig 5 BodyPanic] k
        (with_done (zip (take k [demo_mmig 2 BodyOk, demo_mmig 4 (BodyFails ''x''), demo_mmig 5 BodyPanic]) ts) (mserver_docs ([], [])))
        (mserver_docs s')"
    unfolding run todo Let_def prod.case by blast
qed

section \<open>One process at a time\<close>

text \<open>
  Any number of processes run migrations up against one collection. A process that holds a claim is in the body of the migration; the steps
  of its loop are atomic calls of the driver, a body may do anything that leaves the tracking collection alone, and a
  process may die.
\<close>

inductive mstep :: "'s mongo_db \<Rightarrow> string \<Rightarrow> ('s \<Rightarrow> (int \<rightharpoonup> mapplied)) \<Rightarrow> 's \<times> (nat \<rightharpoonup> 's mmig) \<Rightarrow> 's \<times> (nat \<rightharpoonup> 's mmig) \<Rightarrow> bool"
  for db :: "'s mongo_db" and coll :: string and docs :: "'s \<Rightarrow> (int \<rightharpoonup> mapplied)" where
  claims: "pc p = None \<Longrightarrow> claim_version db coll mig s = (None, s') \<Longrightarrow> mstep db coll docs (s, pc) (s', pc(p \<mapsto> mig))"
| refused: "pc p = None \<Longrightarrow> claim_version db coll mig s = (Some e, s') \<Longrightarrow> mstep db coll docs (s, pc) (s', pc)"
| works: "pc p = Some mig \<Longrightarrow> docs s' = docs s \<Longrightarrow> mstep db coll docs (s, pc) (s', pc)"
| completes: "pc p = Some mig \<Longrightarrow> complete_version db coll mig s = (r, s') \<Longrightarrow> mstep db coll docs (s, pc) (s', pc(p := None))"
| releases: "pc p = Some mig \<Longrightarrow> release_version db coll mig err s = (e, s') \<Longrightarrow> mstep db coll docs (s, pc) (s', pc(p := None))"
| dies: "pc p = Some mig \<Longrightarrow> mstep db coll docs (s, pc) (s, pc(p := None))"

inductive_cases mstepE: "mstep db coll docs st st'"

definition claimed_inv :: "('s \<Rightarrow> (int \<rightharpoonup> mapplied)) \<Rightarrow> 's \<times> (nat \<rightharpoonup> 's mmig) \<Rightarrow> bool" where
  "claimed_inv docs st \<longleftrightarrow>
     (\<forall>p mig. snd st p = Some mig \<longrightarrow> docs (fst st) (mm_Version mig) \<noteq> None) \<and>
     (\<forall>p q a b. p \<noteq> q \<longrightarrow> snd st p = Some a \<longrightarrow> snd st q = Some b \<longrightarrow> mm_Version a \<noteq> mm_Version b)"

text \<open>Fewer processes at work, and no document of theirs lost.\<close>

lemma claimed_inv_mono:
  assumes "claimed_inv docs (s, pc)"
    and "\<And>p mig. pc' p = Some mig \<Longrightarrow> pc p = Some mig \<and> (docs s (mm_Version mig) \<noteq> None \<longrightarrow> docs s' (mm_Version mig) \<noteq> None)"
  shows "claimed_inv docs (s', pc')"
  using assms unfolding claimed_inv_def fst_conv snd_conv by metis

context claim_collection
begin

lemma complete_keeps_present:
  assumes "complete_version db coll mig s = (r, s')" and "docs s v \<noteq> None"
  shows "docs s' v \<noteq> None"
proof -
  obtain x s1 where x: "mdb_Complete db coll (mm_Version mig) (mdb_Now db s) s = (x, s1)" by fastforce
  have s1: "s1 = s'" using assms(1) x by (auto simp: complete_version_def split: option.splits)
  show ?thesis
  proof (cases "docs s (mm_Version mig)")
    case None
    then show ?thesis using complete_absent [OF x] s1 assms(2) by simp
  next
    case (Some a)
    then show ?thesis using x s1 assms(2) complete_ok [of "mm_Version mig" "mdb_Now db s" s s1 a] complete_error [of "mm_Version mig" "mdb_Now db s" s _ s1]
      by (cases x; cases "v = mm_Version mig") auto
  qed
qed

lemma mstep_inv:
  assumes "mstep db coll docs st st'" and inv: "claimed_inv docs st"
  shows "claimed_inv docs st'"
  using assms(1)
proof cases
  case (claims pc p mig s s')
  have fr: "docs s (mm_Version mig) = None" and d: "\<exists>t. docs s' = (docs s)(mm_Version mig \<mapsto> claim_doc mig t)"
    using claim_cases [OF claims(4)] by auto
  have "mm_Version a \<noteq> mm_Version mig" if "pc q = Some a" for q a
    using inv fr that claims(1) unfolding claimed_inv_def by (metis fst_conv snd_conv)
  then have "\<forall>q a. pc q = Some a \<longrightarrow> mm_Version a \<noteq> mm_Version mig \<and> mm_Version mig \<noteq> mm_Version a" by metis
  then show ?thesis using inv d claims(1,2) by (auto simp: claimed_inv_def)
next
  case (refused pc p mig s e s')
  have "\<forall>v. docs s v \<noteq> None \<longrightarrow> docs s' v \<noteq> None" using claim_cases [OF refused(4)] by auto
  then show ?thesis using inv refused(1,2) by (auto elim!: claimed_inv_mono)
next
  case (works pc p mig s' s)
  then show ?thesis using inv by (auto elim!: claimed_inv_mono)
next
  case (completes pc p mig s r s')
  then show ?thesis using inv complete_keeps_present [OF completes(4)] by (auto elim!: claimed_inv_mono split: if_splits)
next
  case (releases pc p mig err s e s')
  have keep: "docs s' v = docs s v" if "v \<noteq> mm_Version mig" for v using release_cases [OF releases(4)] that by blast
  have other: "mm_Version a \<noteq> mm_Version mig" if "q \<noteq> p" "pc q = Some a" for q a
    using inv that releases(1,3) unfolding claimed_inv_def by (metis snd_conv)
  have "claimed_inv docs (s', pc(p := None))"
    by (rule claimed_inv_mono [OF inv [unfolded releases(1)]]) (use keep other in \<open>auto split: if_splits\<close>)
  then show ?thesis by (simp add: releases(2))
next
  case (dies pc p mig s)
  then show ?thesis using inv by (auto elim!: claimed_inv_mono split: if_splits)
qed

lemma reachable_inv:
  assumes "(mstep db coll docs)\<^sup>*\<^sup>* (s0, Map.empty) st"
  shows "claimed_inv docs st"
  using assms
proof (induction rule: rtranclp_induct)
  case base
  show ?case by (simp add: claimed_inv_def)
next
  case (step st st')
  show ?case by (rule mstep_inv [OF step(2,3)])
qed

end



section \<open>Observations\<close>

text \<open>A claim that was never completed counts as applied: the next run skips the version without a word, and goes on with later ones.\<close>

lemma incomplete_version_skipped:
  "let m = NewWith_mongo [demo_mmig 2 BodyPanic, demo_mmig 3 BodyOk]
   in case Up_mongo mserver_db m ([], []) of
        (r, m1, s1) \<Rightarrow> r = MPanics \<and>
          (case Up_mongo mserver_db (NewWith_mongo [demo_mmig 2 BodyOk, demo_mmig 3 BodyOk]) s1 of
             (r2, m2, s2) \<Rightarrow> r2 = MRan [3] None \<and> map_option ma_Completed (mserver_docs s2 2) = Some False)"
  by code_simp

text \<open>\<^verbatim>\<open>Down\<close> undoes a version whose claim another process still holds, and frees the claim.\<close>

lemma down_frees_running_claim:
  "case Down_mongo mserver_db (NewWith_mongo [demo_mmig 2 BodyOk]) ([(2, claim_doc (demo_mmig 2 BodyOk) 7)], []) of
     (r, m, s) \<Rightarrow> r = Some (2, None) \<and> s = ([], [''down''])"
  by code_simp

text \<open>The error of a failed \<^verbatim>\<open>Ensure\<close> survives a change of the collection and a success after it.\<close>

lemma stale_ensure_error:
  assumes "Ensure_mongo db m s = (Some e, m1, s1)" and "WithCollection name m1 = Inr m2" and "name \<noteq> []"
    and "mdb_CreateIndex db name s2 = (None, s3)"
  shows "fst (Ensure_mongo db m2 s2) = Some e"
  using assms by (auto simp: Ensure_mongo_def WithCollection_def split: if_splits prod.splits option.splits)

end
