(* ===== verification/Mongo_Seed.thy ===== *)
theory Mongo_Seed
  imports Mongo_Migration
begin

text \<open>
  Seeds of MongoDB (\<^verbatim>\<open>common/mongodb/seed\<close>). A seed that runs once claims its name with an insert under a unique index before its body
  runs and gives it back when the body fails; one that always runs, or is asked for by name, updates or inserts.
\<close>

section \<open>Seeds\<close>

record 's mseed =
  ms_Name :: string
  ms_Order :: int
  ms_Run :: "'s mongo_body option"
  ms_AlwaysRun :: bool

datatype mseed_panic = MNilSeed | MSeedNameRequired | MSeedRunRequired string | MDuplicateSeed string

definition Register_mseed :: "'s mseed option \<Rightarrow> 's mseed list \<Rightarrow> (mseed_panic, 's mseed list) result" where
  "Register_mseed sd registry =
     (case sd of
        None \<Rightarrow> Inl MNilSeed
      | Some sd \<Rightarrow>
          if ms_Name sd = [] then Inl MSeedNameRequired
          else if ms_Run sd = None then Inl (MSeedRunRequired (ms_Name sd))
          else if list_ex (\<lambda>e. ms_Name e = ms_Name sd) registry then Inl (MDuplicateSeed (ms_Name sd))
          else Inr (registry @ [sd]))"

definition mseed_less :: "'s mseed \<Rightarrow> 's mseed \<Rightarrow> bool" where
  "mseed_less a b = (if ms_Order a \<noteq> ms_Order b then ms_Order a < ms_Order b else ms_Name a < ms_Name b)"

definition sort_mseeds :: "'s mseed list \<Rightarrow> 's mseed list" where
  "sort_mseeds = SliceStable mseed_less"

definition Registered_mseeds :: "'s mseed list \<Rightarrow> 's mseed list" where
  "Registered_mseeds registry = sort_mseeds registry"

definition Reset_mseeds :: "'s mseed list \<Rightarrow> 's mseed list" where
  "Reset_mseeds registry = []"

section \<open>The seeder\<close>

datatype mseed_error =
    MSeedEnsure string
  | MSeedFind string
  | MSeedDecode string
  | MSeedCursor string
  | MSeedClaimed
  | MSeedRecord string
  | MSeedBody string

record 's mseeder =
  mse_collection :: string
  mse_seeds :: "'s mseed list"
  mse_ensureOnce :: bool
  mse_ensureErr :: "mseed_error option"

definition NewWith_mseeder :: "'s mseed list \<Rightarrow> 's mseeder" where
  "NewWith_mseeder seeds = \<lparr>mse_collection = ''_seeds'', mse_seeds = sort_mseeds seeds, mse_ensureOnce = False, mse_ensureErr = None\<rparr>"

definition New_mseeder :: "'s mseed list \<Rightarrow> 's mseeder" where
  "New_mseeder registry = NewWith_mseeder (Registered_mseeds registry)"

definition WithCollection_mseeder :: "string \<Rightarrow> 's mseeder \<Rightarrow> (collection_error, 's mseeder) result" where
  "WithCollection_mseeder name se =
     (if name \<noteq> []
      then (case validateCollection name of
          Some e \<Rightarrow> Inl e
        | None \<Rightarrow> Inr (se\<lparr>mse_collection := name, mse_ensureOnce := False\<rparr>))
      else Inr se)"

text \<open>The driver's calls on a collection of names; rows are decoded one by one.\<close>

record 's mnames_db =
  mn_CreateIndex :: "string \<Rightarrow> 's \<Rightarrow> string option \<times> 's"
  mn_Find :: "string \<Rightarrow> 's \<Rightarrow> (string, (string, string) result list \<times> string option) result \<times> 's"
  mn_Insert :: "string \<Rightarrow> string \<Rightarrow> int \<Rightarrow> 's \<Rightarrow> insert_error option \<times> 's"
  mn_Upsert :: "string \<Rightarrow> string \<Rightarrow> int \<Rightarrow> 's \<Rightarrow> string option \<times> 's"
  mn_Delete :: "string \<Rightarrow> string \<Rightarrow> 's \<Rightarrow> string option \<times> 's"
  mn_Now :: "'s \<Rightarrow> int"

definition Ensure_mseeds :: "'s mnames_db \<Rightarrow> 's mseeder \<Rightarrow> 's \<Rightarrow> mseed_error option \<times> 's mseeder \<times> 's" where
  "Ensure_mseeds db se s =
     (if mse_ensureOnce se then (mse_ensureErr se, se, s)
      else (case mn_CreateIndex db (mse_collection se) s of
          (Some e, s1) \<Rightarrow> (Some (MSeedEnsure e), se\<lparr>mse_ensureOnce := True, mse_ensureErr := Some (MSeedEnsure e)\<rparr>, s1)
        | (None, s1) \<Rightarrow> (mse_ensureErr se, se\<lparr>mse_ensureOnce := True\<rparr>, s1)))"

fun decode_names :: "(string, string) result list \<Rightarrow> (string, unit) gomap \<Rightarrow> (mseed_error, (string, unit) gomap) result" where
  "decode_names [] out = Inr out"
| "decode_names (Inl e # rs) out = Inl (MSeedDecode e)"
| "decode_names (Inr n # rs) out = decode_names rs (mput n () out)"

definition AppliedNames_mongo :: "'s mnames_db \<Rightarrow> 's mseeder \<Rightarrow> 's \<Rightarrow> ((string, unit) gomap \<times> mseed_error option) \<times> 's mseeder \<times> 's" where
  "AppliedNames_mongo db se s =
     (case Ensure_mseeds db se s of
        (Some e, se1, s1) \<Rightarrow> (([], Some e), se1, s1)
      | (None, se1, s1) \<Rightarrow>
          (case mn_Find db (mse_collection se1) s1 of
             (Inl e, s2) \<Rightarrow> (([], Some (MSeedFind e)), se1, s2)
           | (Inr (rows, curErr), s2) \<Rightarrow>
               (case decode_names rows [] of
                  Inl e \<Rightarrow> (([], Some e), se1, s2)
                | Inr out \<Rightarrow> ((out, map_option MSeedCursor curErr), se1, s2))))"

section \<open>Running\<close>

datatype mseed_one = OneReturns "mseed_error option" | OnePanics

definition claim_name :: "'s mnames_db \<Rightarrow> string \<Rightarrow> string \<Rightarrow> bool \<Rightarrow> 's \<Rightarrow> mseed_error option \<times> 's" where
  "claim_name db coll name exclusive s =
     (if exclusive then
        (case mn_Insert db coll name (mn_Now db s) s of
           (Some DuplicateKey, s1) \<Rightarrow> (Some MSeedClaimed, s1)
         | (Some (InsertError e), s1) \<Rightarrow> (Some (MSeedRecord e), s1)
         | (None, s1) \<Rightarrow> (None, s1))
      else (case mn_Upsert db coll name (mn_Now db s) s of
          (Some e, s1) \<Rightarrow> (Some (MSeedRecord e), s1)
        | (None, s1) \<Rightarrow> (None, s1)))"

definition runOne_mongo :: "'s mnames_db \<Rightarrow> 's mseeder \<Rightarrow> 's mseed \<Rightarrow> bool \<Rightarrow> 's \<Rightarrow> mseed_one \<times> 's mseeder \<times> 's" where
  "runOne_mongo db se sd exclusive s =
     (case Ensure_mseeds db se s of
        (Some e, se1, s1) \<Rightarrow> (OneReturns (Some e), se1, s1)
      | (None, se1, s1) \<Rightarrow>
          (case claim_name db (mse_collection se1) (ms_Name sd) exclusive s1 of
             (Some e, s2) \<Rightarrow> (OneReturns (Some e), se1, s2)
           | (None, s2) \<Rightarrow>
               (case run_mongo (ms_Run sd) s2 of
                  (BodyPanic, s3) \<Rightarrow> (OnePanics, se1, s3)
                | (BodyFails e, s3) \<Rightarrow>
                    (OneReturns (Some (MSeedBody e)), se1,
                     if exclusive then snd (mn_Delete db (mse_collection se1) (ms_Name sd) s3) else s3)
                | (BodyOk, s3) \<Rightarrow> (OneReturns None, se1, s3))))"

datatype mseeds_run = MSeedsRan "string list" "(string \<times> mseed_error) option" | MSeedsPanic

fun mseed_loop :: "'s mnames_db \<Rightarrow> ('s mseed \<Rightarrow> bool) \<Rightarrow> ('s mseed \<Rightarrow> bool) \<Rightarrow> 's mseed list \<Rightarrow> string list \<Rightarrow> 's mseeder \<Rightarrow> 's \<Rightarrow>
    mseeds_run \<times> 's mseeder \<times> 's" where
  "mseed_loop db skip excl [] ns se s = (MSeedsRan ns None, se, s)"
| "mseed_loop db skip excl (sd # sds) ns se s =
     (if skip sd then mseed_loop db skip excl sds ns se s
      else (case runOne_mongo db se sd (excl sd) s of
          (OnePanics, se1, s1) \<Rightarrow> (MSeedsPanic, se1, s1)
        | (OneReturns (Some e), se1, s1) \<Rightarrow> (MSeedsRan ns (Some (ms_Name sd, e)), se1, s1)
        | (OneReturns None, se1, s1) \<Rightarrow> mseed_loop db skip excl sds (ns @ [ms_Name sd]) se1 s1))"

definition Run_mseeds :: "'s mnames_db \<Rightarrow> 's mseeder \<Rightarrow> 's \<Rightarrow> (mseed_error + mseeds_run) \<times> 's mseeder \<times> 's" where
  "Run_mseeds db se s =
     (case AppliedNames_mongo db se s of
        ((seen, Some e), se1, s1) \<Rightarrow> (Inl e, se1, s1)
      | ((seen, None), se1, s1) \<Rightarrow>
          (case mseed_loop db (\<lambda>sd. mget seen (ms_Name sd) \<noteq> None \<and> \<not> ms_AlwaysRun sd) (\<lambda>sd. \<not> ms_AlwaysRun sd) (mse_seeds se1) [] se1 s1 of
             (r, se2, s2) \<Rightarrow> (Inr r, se2, s2)))"

definition RunOnly_mongo :: "'s mnames_db \<Rightarrow> 's mseeder \<Rightarrow> string list \<Rightarrow> 's \<Rightarrow> mseeds_run \<times> 's mseeder \<times> 's" where
  "RunOnly_mongo db se want s =
     mseed_loop db (\<lambda>sd. mget (fold (\<lambda>n m. mput n () m) want []) (ms_Name sd) = None) (\<lambda>sd. False) (mse_seeds se) [] se s"

section \<open>Once\<close>

text \<open>The set of names under a unique index; a failed deletion may or may not have happened.\<close>

locale name_collection =
  fixes db :: "'s mnames_db" and coll :: string and recorded :: "'s \<Rightarrow> string set"
  assumes index_keeps: "recorded (snd (mn_CreateIndex db coll s)) = recorded s"
    and insert_claims: "mn_Insert db coll n t s = (None, s') \<Longrightarrow> n \<notin> recorded s \<and> recorded s' = insert n (recorded s)"
    and insert_refused: "mn_Insert db coll n t s = (Some x, s') \<Longrightarrow> recorded s \<subseteq> recorded s'"
    and upsert_records: "mn_Upsert db coll n t s = (None, s') \<Longrightarrow> recorded s' = insert n (recorded s)"
    and upsert_fails: "mn_Upsert db coll n t s = (Some e, s') \<Longrightarrow> recorded s \<subseteq> recorded s'"
    and delete_one: "recorded s - {n} \<subseteq> recorded (snd (mn_Delete db coll n s))"

text \<open>Calls of \<^verbatim>\<open>runOne\<close> for seeds that run once, by any number of seeders one after the other: the names whose call succeeded.\<close>

fun once_calls :: "'s mnames_db \<Rightarrow> ('s mseeder \<times> 's mseed) list \<Rightarrow> 's \<Rightarrow> string list \<times> 's" where
  "once_calls db [] s = ([], s)"
| "once_calls db ((se, sd) # cs) s =
     (case runOne_mongo db se sd True s of
        (r, se1, s1) \<Rightarrow> (case once_calls db cs s1 of
          (ns, s2) \<Rightarrow> (if r = OneReturns None then ms_Name sd # ns else ns, s2)))"

definition keeps_names :: "('s \<Rightarrow> string set) \<Rightarrow> 's mongo_body option \<Rightarrow> bool" where
  "keeps_names recorded body \<longleftrightarrow> (\<forall>s. recorded (snd (run_mongo body s)) = recorded s)"

context name_collection
begin

lemma ensure_mseeds_keeps:
  "Ensure_mseeds db se s = (e, se1, s1) \<Longrightarrow> mse_collection se = coll \<Longrightarrow> recorded s1 = recorded s \<and> mse_collection se1 = coll"
  using index_keeps [of s] by (auto simp: Ensure_mseeds_def split: if_splits prod.splits option.splits)

lemma runOne_exclusive:
  assumes run: "runOne_mongo db se sd True s = (r, se1, s')" and se: "mse_collection se = coll" and body: "keeps_names recorded (ms_Run sd)"
  shows "recorded s \<subseteq> recorded s' \<and> (r = OneReturns None \<longrightarrow> ms_Name sd \<notin> recorded s \<and> ms_Name sd \<in> recorded s')"
proof -
  obtain e se2 s1 where en: "Ensure_mseeds db se s = (e, se2, s1)" by (cases "Ensure_mseeds db se s")
  obtain c s2 where ins: "mn_Insert db coll (ms_Name sd) (mn_Now db s1) s1 = (c, s2)" by fastforce
  obtain b s3 where b: "run_mongo (ms_Run sd) s2 = (b, s3)" by fastforce
  have k: "recorded s1 = recorded s" "mse_collection se2 = coll" using ensure_mseeds_keeps [OF en se] by simp_all
  have k3: "recorded s3 = recorded s2" using body b by (auto simp: keeps_names_def) (metis snd_conv)+
  note dl = delete_one [of s3 "ms_Name sd"]
  show ?thesis
  proof (cases c)
    case None
    then have "ms_Name sd \<notin> recorded s" "recorded s2 = insert (ms_Name sd) (recorded s)" using insert_claims ins k by blast+
    then show ?thesis using run en ins b None k k3 dl
      by (auto simp: runOne_mongo_def claim_name_def split: option.splits body_result.splits)
  next
    case (Some x)
    then show ?thesis using run en ins k insert_refused [of "ms_Name sd" _ s1 x s2]
      by (auto simp: runOne_mongo_def claim_name_def split: option.splits insert_error.splits)
  qed
qed

lemma once_distinct:
  assumes "list_all (\<lambda>(se, sd). mse_collection se = coll \<and> keeps_names recorded (ms_Run sd)) cs" and "once_calls db cs s = (ns, s')"
  shows "distinct ns \<and> set ns \<inter> recorded s = {} \<and> recorded s \<union> set ns \<subseteq> recorded s'"
  using assms
proof (induction cs arbitrary: s ns s')
  case (Cons c cs)
  obtain se sd where c: "c = (se, sd)" by fastforce
  obtain r se1 s1 where one: "runOne_mongo db se sd True s = (r, se1, s1)" by (cases "runOne_mongo db se sd True s")
  obtain ms s2 where rest: "once_calls db cs s1 = (ms, s2)" by fastforce
  have "recorded s \<subseteq> recorded s1 \<and> (r = OneReturns None \<longrightarrow> ms_Name sd \<notin> recorded s \<and> ms_Name sd \<in> recorded s1)"
    using runOne_exclusive [OF one] Cons.prems(1) c by simp
  moreover have "distinct ms \<and> set ms \<inter> recorded s1 = {} \<and> recorded s1 \<union> set ms \<subseteq> recorded s2"
    using Cons.IH [OF _ rest] Cons.prems(1) by simp
  ultimately show ?case using Cons.prems(2) c one rest by (auto split: if_splits)
qed simp

end

section \<open>A collection of names\<close>

definition names_db :: "(string list \<times> string list) mnames_db" where
  "names_db =
     \<lparr>mn_CreateIndex = (\<lambda>c s. (None, s)),
      mn_Find = (\<lambda>c s. (Inr (map Inr (fst s), None), s)),
      mn_Insert = (\<lambda>c n t s. if n \<in> set (fst s) then (Some DuplicateKey, s) else (None, (n # fst s, snd s))),
      mn_Upsert = (\<lambda>c n t s. (None, (n # fst s, snd s))),
      mn_Delete = (\<lambda>c n s. (None, (filter (\<lambda>x. x \<noteq> n) (fst s), snd s))),
      mn_Now = (\<lambda>s. 7)\<rparr>"

interpretation names_srv: name_collection names_db coll "\<lambda>s. set (fst s)" for coll
  by unfold_locales (auto simp: names_db_def split: if_splits)

text \<open>However many seeders run it, a seed that runs once succeeds at most once, and never when its name was recorded before.\<close>

theorem mongo_seed_once:
  assumes "name_collection db coll recorded"
    and "list_all (\<lambda>(se, sd). mse_collection se = coll \<and> keeps_names recorded (ms_Run sd)) cs"
  shows "case once_calls db cs s of (ns, s') \<Rightarrow> distinct ns \<and> set ns \<inter> recorded s = {} \<and> recorded s \<union> set ns \<subseteq> recorded s'"
proof -
  obtain ns s' where run: "once_calls db cs s = (ns, s')" by fastforce
  from name_collection.once_distinct [OF assms run] show ?thesis by (simp only: run prod.case)
qed

definition demo_mseed :: "string \<Rightarrow> body_result \<Rightarrow> (string list \<times> string list) mseed" where
  "demo_mseed n r = \<lparr>ms_Name = n, ms_Order = 0, ms_Run = Some (\<lambda>s. (r, (fst s, snd s @ [n]))), ms_AlwaysRun = False\<rparr>"

theorem mongo_seed_once_witness:
  "(let se = NewWith_mseeder []; cs = [(se, demo_mseed ''a'' BodyOk), (se, demo_mseed ''a'' BodyOk), (se, demo_mseed ''b'' BodyOk)]
    in fst (once_calls names_db cs ([], [])) = [''a'', ''b'']) \<and>
   (let se = NewWith_mseeder []; cs = [(se, demo_mseed ''a'' BodyOk), (se, demo_mseed ''a'' BodyOk), (se, demo_mseed ''b'' BodyOk)]
    in distinct (fst (once_calls names_db cs ([], []))))"
proof
  show "let se = NewWith_mseeder []; cs = [(se, demo_mseed ''a'' BodyOk), (se, demo_mseed ''a'' BodyOk), (se, demo_mseed ''b'' BodyOk)]
    in fst (once_calls names_db cs ([], [])) = [''a'', ''b'']"
    by code_simp
  show "let se = NewWith_mseeder []; cs = [(se, demo_mseed ''a'' BodyOk), (se, demo_mseed ''a'' BodyOk), (se, demo_mseed ''b'' BodyOk)]
    in distinct (fst (once_calls names_db cs ([], [])))"
    using mongo_seed_once [OF names_srv.name_collection_axioms, where s = "([], [])" and
        cs = "[(NewWith_mseeder [], demo_mseed ''a'' BodyOk), (NewWith_mseeder [], demo_mseed ''a'' BodyOk), (NewWith_mseeder [], demo_mseed ''b'' BodyOk)]"]
    by (auto simp: Let_def NewWith_mseeder_def demo_mseed_def keeps_names_def split: prod.splits)
qed

section \<open>Observations\<close>

text \<open>A seed asked for by name that fails stays recorded, and is never run again by \<^verbatim>\<open>Run\<close>.\<close>

lemma failed_seed_recorded:
  "let se = NewWith_mseeder [demo_mseed ''a'' (BodyFails ''x'')]
   in case RunOnly_mongo names_db se [''a''] ([], []) of
        (r, se1, s1) \<Rightarrow> r = MSeedsRan [] (Some (''a'', MSeedBody ''x'')) \<and>
          fst (Run_mseeds names_db (NewWith_mseeder [demo_mseed ''a'' BodyOk]) s1) = Inr (MSeedsRan [] None)"
  by code_simp

text \<open>So does a seed whose body panicked.\<close>

lemma panicked_seed_recorded:
  "case Run_mseeds names_db (NewWith_mseeder [demo_mseed ''a'' BodyPanic]) ([], []) of
     (r, se1, s1) \<Rightarrow> r = Inr MSeedsPanic \<and>
       fst (Run_mseeds names_db (NewWith_mseeder [demo_mseed ''a'' BodyOk]) s1) = Inr (MSeedsRan [] None)"
  by code_simp

end
