(* ===== verification/Response.thy ===== *)
theory Response
  imports Go_Lib
begin

text \<open>
  The responses of handlers (\<^verbatim>\<open>common/response\<close>): the JSON envelopes and the calls by which they are written. A
  responder is the list of calls it makes on the context of Gin and on the log.
\<close>

section \<open>Envelopes\<close>

text \<open>What goes into \<^verbatim>\<open>Details\<close>: nothing, the caller's value, or the map with the request id.\<close>

datatype 'd details = NoDetails | Details 'd | RequestIdDetails string

record 'd error_detail =
  ed_Code :: int
  ed_Type :: string
  ed_Message :: string
  ed_Details :: "'d details"

record meta =
  mt_Total :: int
  mt_Page :: int
  mt_PerPage :: int
  mt_TotalPages :: int

datatype 'd envelope =
    ErrorEnv (env_success: bool) "'d error_detail"
  | ResponseEnv (env_success: bool) string 'd
  | BoolEnv (env_success: bool) string
  | PageEnv (env_success: bool) 'd meta
  | RawEnv 'd

definition NewResponse :: "string \<Rightarrow> 'd \<Rightarrow> 'd envelope" where
  "NewResponse message data = ResponseEnv True message data"

definition BooleanSuccess :: "string \<Rightarrow> 'd envelope" where
  "BooleanSuccess message = BoolEnv True message"

definition NewError :: "int \<Rightarrow> string \<Rightarrow> 'd details \<Rightarrow> 'd envelope" where
  "NewError code message details =
     ErrorEnv False \<lparr>ed_Code = code, ed_Type = message, ed_Message = message, ed_Details = details\<rparr>"

section \<open>Calls\<close>

datatype attr = AttrMethod string | AttrPath string | AttrRequestID string | AttrError string

datatype 'd gin_call =
    CJSON int "'d envelope"
  | CAbortWithStatusJSON int "'d envelope"
  | CStatus int
  | CWriteHeaderNow
  | SlogError string "attr list"

definition OkByMsg :: "string \<Rightarrow> 'd gin_call list" where
  "OkByMsg message = [CJSON 200 (BooleanSuccess message)]"

definition Ok :: "'d \<Rightarrow> 'd gin_call list" where
  "Ok data = [CJSON 200 (RawEnv data)]"

definition Create_response :: "'d \<Rightarrow> 'd gin_call list" where
  "Create_response data = [CJSON 201 (RawEnv data)]"

definition Update_response :: "'d \<Rightarrow> 'd gin_call list" where
  "Update_response data = [CJSON 202 (RawEnv data)]"

definition Accepted :: "'d \<Rightarrow> 'd gin_call list" where
  "Accepted data = [CJSON 202 (RawEnv data)]"

definition NoContent :: "'d gin_call list" where
  "NoContent = [CStatus 204, CWriteHeaderNow]"

text \<open>Quotients of Go round towards zero; the sum is of 64-bit integers.\<close>

definition go_div :: "int \<Rightarrow> int \<Rightarrow> int" where
  "go_div a b = sgn a * sgn b * (\<bar>a\<bar> div \<bar>b\<bar>)"

definition total_pages :: "int \<Rightarrow> int \<Rightarrow> int" where
  "total_pages tot perPage = (if tot > 0 then go_div (wrap64 (wrap64 (tot + perPage) - 1)) perPage else 0)"

definition Paginated :: "'d \<Rightarrow> int \<Rightarrow> int \<Rightarrow> int \<Rightarrow> 'd gin_call list" where
  "Paginated data tot page perPage =
     (let page' = (if page < 1 then 1 else page); perPage' = (if perPage < 1 then 1 else perPage)
      in [CJSON 200 (PageEnv True data
            \<lparr>mt_Total = tot, mt_Page = page', mt_PerPage = perPage', mt_TotalPages = total_pages tot perPage'\<rparr>)])"

definition JSONError :: "int \<Rightarrow> string \<Rightarrow> 'd details \<Rightarrow> 'd gin_call list" where
  "JSONError statusCode message details = [CAbortWithStatusJSON statusCode (NewError statusCode message details)]"

definition BadRequest :: "string \<Rightarrow> 'd details \<Rightarrow> 'd gin_call list" where
  "BadRequest = JSONError 400"

definition UnauthorizedRequest :: "string \<Rightarrow> 'd details \<Rightarrow> 'd gin_call list" where
  "UnauthorizedRequest = JSONError 401"

definition ForbiddenRequest :: "string \<Rightarrow> 'd details \<Rightarrow> 'd gin_call list" where
  "ForbiddenRequest = JSONError 403"

definition NotFoundRequest :: "string \<Rightarrow> 'd details \<Rightarrow> 'd gin_call list" where
  "NotFoundRequest = JSONError 404"

definition Conflict :: "string \<Rightarrow> 'd details \<Rightarrow> 'd gin_call list" where
  "Conflict = JSONError 409"

definition UnprocessableEntity :: "string \<Rightarrow> 'd details \<Rightarrow> 'd gin_call list" where
  "UnprocessableEntity = JSONError 422"

definition TooManyRequests :: "string \<Rightarrow> 'd details \<Rightarrow> 'd gin_call list" where
  "TooManyRequests = JSONError 429"

definition ServiceUnavailable :: "string \<Rightarrow> 'd details \<Rightarrow> 'd gin_call list" where
  "ServiceUnavailable = JSONError 503"

text \<open>The writer's request id is the empty string without a writer; the request has a method and a path.\<close>

definition InternalServerError :: "string option \<Rightarrow> (string \<times> string) option \<Rightarrow> string option \<Rightarrow> 'd gin_call list" where
  "InternalServerError writer request err =
     (let requestID = (case writer of Some h \<Rightarrow> h | None \<Rightarrow> []);
          attrs = (case request of Some (mth, path) \<Rightarrow> [AttrMethod mth, AttrPath path] | None \<Rightarrow> []) @
                  (if requestID \<noteq> [] then [AttrRequestID requestID] else []) @
                  (case err of Some e \<Rightarrow> [AttrError e] | None \<Rightarrow> []);
          details = (if requestID \<noteq> [] then RequestIdDetails requestID else NoDetails)
      in SlogError ''internal server error'' attrs # JSONError 500 ''INTERNAL_SERVER_ERROR'' details)"

section \<open>Errors abort, and say no more than they should\<close>

text \<open>What reaches the client, and whether the rest of the chain runs.\<close>

fun client_sees :: "'d gin_call list \<Rightarrow> (int \<times> 'd envelope option) list" where
  "client_sees [] = []"
| "client_sees (CJSON c b # cs) = (c, Some b) # client_sees cs"
| "client_sees (CAbortWithStatusJSON c b # cs) = (c, Some b) # client_sees cs"
| "client_sees (CStatus c # cs) = (c, None) # client_sees cs"
| "client_sees (_ # cs) = client_sees cs"

fun aborts :: "'d gin_call list \<Rightarrow> bool" where
  "aborts [] = False"
| "aborts (CAbortWithStatusJSON c b # cs) = True"
| "aborts (_ # cs) = aborts cs"

definition is_error :: "(int \<times> 'd envelope option) \<Rightarrow> bool" where
  "is_error w \<longleftrightarrow> fst w \<ge> 400 \<and> (\<exists>d. snd w = Some (ErrorEnv False d) \<and> ed_Code d = fst w)"

datatype 'd responder =
    ROkByMsg string | ROk 'd | RCreate 'd | RUpdate 'd | RAccepted 'd | RNoContent | RPaginated 'd int int int
  | RBadRequest string "'d details" | RUnauthorized string "'d details" | RForbidden string "'d details"
  | RNotFound string "'d details" | RConflict string "'d details" | RUnprocessable string "'d details"
  | RTooMany string "'d details" | RUnavailable string "'d details"
  | RInternal "string option" "(string \<times> string) option" "string option"

fun respond :: "'d responder \<Rightarrow> 'd gin_call list" where
  "respond (ROkByMsg m) = OkByMsg m"
| "respond (ROk d) = Ok d"
| "respond (RCreate d) = Create_response d"
| "respond (RUpdate d) = Update_response d"
| "respond (RAccepted d) = Accepted d"
| "respond RNoContent = NoContent"
| "respond (RPaginated d t p pp) = Paginated d t p pp"
| "respond (RBadRequest m d) = BadRequest m d"
| "respond (RUnauthorized m d) = UnauthorizedRequest m d"
| "respond (RForbidden m d) = ForbiddenRequest m d"
| "respond (RNotFound m d) = NotFoundRequest m d"
| "respond (RConflict m d) = Conflict m d"
| "respond (RUnprocessable m d) = UnprocessableEntity m d"
| "respond (RTooMany m d) = TooManyRequests m d"
| "respond (RUnavailable m d) = ServiceUnavailable m d"
| "respond (RInternal w r e) = InternalServerError w r e"

lemmas responder_defs = OkByMsg_def Ok_def Create_response_def Update_response_def Accepted_def NoContent_def Paginated_def
  BadRequest_def UnauthorizedRequest_def ForbiddenRequest_def NotFoundRequest_def Conflict_def UnprocessableEntity_def
  TooManyRequests_def ServiceUnavailable_def InternalServerError_def JSONError_def NewError_def BooleanSuccess_def


section \<open>Pages\<close>

lemma go_div_pos: "0 \<le> a \<Longrightarrow> 0 < b \<Longrightarrow> go_div a b = a div b"
  by (cases "a = 0") (auto simp: go_div_def)

text \<open>The number of pages is the least that holds all rows, as long as the sum fits.\<close>

lemma total_pages_exact:
  assumes "0 < tot" and "0 < perPage" and "tot + perPage < 2 ^ 63"
  shows "(total_pages tot perPage - 1) * perPage < tot \<and> tot \<le> total_pages tot perPage * perPage"
proof -
  have "wrap64 (tot + perPage) = tot + perPage" using assms by (intro wrap64_small) auto
  moreover have "wrap64 (tot + perPage - 1) = tot + perPage - 1" using assms by (intro wrap64_small) auto
  ultimately have t: "total_pages tot perPage = (tot + perPage - 1) div perPage"
    using assms by (simp add: total_pages_def go_div_pos)
  define x where "x = tot + perPage - 1"
  have "x = x div perPage * perPage + x mod perPage" "0 \<le> x mod perPage" "x mod perPage < perPage"
    using assms(2) by simp_all
  then have "x div perPage * perPage \<le> x" "x < x div perPage * perPage + perPage" by linarith+
  then show ?thesis unfolding t x_def [symmetric] left_diff_distrib by (simp add: x_def)
qed

text \<open>A total near the largest integer does overflow: the pages come out negative.\<close>

lemma total_pages_overflow: "total_pages 9223372036854775807 2 = - 4611686018427387904"
  by code_simp

end
