(* ===== verification/Cors.thy ===== *)
theory Cors
  imports Go_Lib
begin

text \<open>
  Cross-origin resource sharing (\<^verbatim>\<open>common/cors\<close>): the checks of a configuration before the middleware of the
  library is built from it. The library's defaults and its own checks, and \<^verbatim>\<open>url.Parse\<close>, are parameters.
\<close>

section \<open>Configuration\<close>

text \<open>The library has the same fields; a function is a parameter of type \<open>'f\<close>.\<close>

record 'f cors_config =
  cc_AllowAllOrigins :: bool
  cc_AllowOrigins :: "string list"
  cc_AllowMethods :: "string list"
  cc_AllowHeaders :: "string list"
  cc_CustomSchemas :: "string list"
  cc_ExposeHeaders :: "string list"
  cc_AllowOriginFunc :: "'f option"
  cc_MaxAge :: int
  cc_AllowCredentials :: bool
  cc_AllowPrivateNetwork :: bool
  cc_AllowWildcard :: bool
  cc_AllowBrowserExtensions :: bool
  cc_AllowWebSockets :: bool
  cc_AllowFiles :: bool

datatype cors_error =
    ErrCredentialsWithAllOrigins
  | EmptyOrigin
  | WildcardNotAllowed string
  | SeveralWildcards string
  | InvalidOrigin string string
  | NotFullOrigin string
  | OriginHasPath string
  | OriginHasCredentials string
  | LibraryError string

record url =
  u_Scheme :: string
  u_Host :: string
  u_Path :: string
  u_RawQuery :: string
  u_Fragment :: string
  u_User :: bool

section \<open>Checks\<close>

text \<open>
  \<^verbatim>\<open>originRegexpForm\<close>: a slash, one or more characters, a slash, at most one of the flags, the end. The dot
  does not match a line feed.
\<close>

definition originRegexpForm :: "string \<Rightarrow> bool" where
  "originRegexpForm s =
     (case s of
        [] \<Rightarrow> False
      | c # r \<Rightarrow> c = CHR ''/'' \<and>
          (let inner = (\<lambda>t. t \<noteq> [] \<and> last t = CHR ''/'' \<and> length t \<ge> 2 \<and> CHR 0x0A \<notin> set (butlast t))
           in inner r \<or> (r \<noteq> [] \<and> last r \<in> set ''gimuy'' \<and> inner (butlast r))))"

definition count_char :: "char \<Rightarrow> string \<Rightarrow> nat" where
  "count_char c s = length (filter (\<lambda>x. x = c) s)"

definition validateOrigin :: "(string \<Rightarrow> (string, url) result) \<Rightarrow> string \<Rightarrow> 'f cors_config \<Rightarrow> cors_error option" where
  "validateOrigin parse origin cfg =
     (let trimmed = TrimSpace origin
      in if trimmed = [] then Some EmptyOrigin
         else if trimmed = ''*'' then None
         else if originRegexpForm trimmed then None
         else if ContainsRune trimmed (CHR ''*'') then
           (if \<not> cc_AllowWildcard cfg then Some (WildcardNotAllowed trimmed)
            else if count_char (CHR ''*'') trimmed > 1 then Some (SeveralWildcards trimmed)
            else None)
         else (case parse trimmed of
             Inl e \<Rightarrow> Some (InvalidOrigin trimmed e)
           | Inr u \<Rightarrow>
               if u_Scheme u = [] \<or> u_Host u = [] then Some (NotFullOrigin trimmed)
               else if u_Path u \<noteq> [] \<or> u_RawQuery u \<noteq> [] \<or> u_Fragment u \<noteq> [] then Some (OriginHasPath trimmed)
               else if u_User u then Some (OriginHasCredentials trimmed)
               else None))"

fun validate_origins :: "(string \<Rightarrow> (string, url) result) \<Rightarrow> 'f cors_config \<Rightarrow> string list \<Rightarrow> cors_error option" where
  "validate_origins parse cfg [] = None"
| "validate_origins parse cfg (origin # os) =
     (case validateOrigin parse origin cfg of Some e \<Rightarrow> Some e | None \<Rightarrow> validate_origins parse cfg os)"

definition validate_cors :: "(string \<Rightarrow> (string, url) result) \<Rightarrow> 'f cors_config \<Rightarrow> cors_error option" where
  "validate_cors parse cfg =
     (if cc_AllowCredentials cfg \<and> (cc_AllowAllOrigins cfg \<or> list_ex (\<lambda>origin. TrimSpace origin = ''*'') (cc_AllowOrigins cfg))
      then Some ErrCredentialsWithAllOrigins
      else validate_origins parse cfg (cc_AllowOrigins cfg))"

section \<open>Building\<close>

definition buildConfig :: "'f cors_config \<Rightarrow> 'f cors_config \<Rightarrow> 'f cors_config" where
  "buildConfig dflt cfg =
     (let pick = (\<lambda>own def. if own \<noteq> [] then own else def)
      in \<lparr>cc_AllowAllOrigins = (if cc_AllowAllOrigins cfg then True else cc_AllowAllOrigins dflt),
          cc_AllowOrigins = pick (cc_AllowOrigins cfg) (cc_AllowOrigins dflt),
          cc_AllowMethods = pick (cc_AllowMethods cfg) (cc_AllowMethods dflt),
          cc_AllowHeaders = pick (cc_AllowHeaders cfg) (cc_AllowHeaders dflt),
          cc_CustomSchemas = pick (cc_CustomSchemas cfg) (cc_CustomSchemas dflt),
          cc_ExposeHeaders = pick (cc_ExposeHeaders cfg) (cc_ExposeHeaders dflt),
          cc_AllowOriginFunc = (if cc_AllowOriginFunc cfg \<noteq> None then cc_AllowOriginFunc cfg else cc_AllowOriginFunc dflt),
          cc_MaxAge = (if cc_MaxAge cfg > 0 then cc_MaxAge cfg else cc_MaxAge dflt),
          cc_AllowCredentials = (if cc_AllowCredentials cfg then True else cc_AllowCredentials dflt),
          cc_AllowPrivateNetwork = (if cc_AllowPrivateNetwork cfg then True else cc_AllowPrivateNetwork dflt),
          cc_AllowWildcard = (if cc_AllowWildcard cfg then True else cc_AllowWildcard dflt),
          cc_AllowBrowserExtensions = (if cc_AllowBrowserExtensions cfg then True else cc_AllowBrowserExtensions dflt),
          cc_AllowWebSockets = (if cc_AllowWebSockets cfg then True else cc_AllowWebSockets dflt),
          cc_AllowFiles = (if cc_AllowFiles cfg then True else cc_AllowFiles dflt)\<rparr>)"

text \<open>The handler is what the library makes of the configuration it is given.\<close>

definition New_cors :: "(string \<Rightarrow> (string, url) result) \<Rightarrow> 'f cors_config \<Rightarrow> ('f cors_config \<Rightarrow> string option) \<Rightarrow> 'f cors_config \<Rightarrow>
    (cors_error, 'f cors_config) result" where
  "New_cors parse dflt lib_validate cfg =
     (case validate_cors parse cfg of
        Some e \<Rightarrow> Inl e
      | None \<Rightarrow>
          (let corsConfig = buildConfig dflt cfg
           in case lib_validate corsConfig of Some e \<Rightarrow> Inl (LibraryError e) | None \<Rightarrow> Inr corsConfig))"

text \<open>\<^verbatim>\<open>Setup\<close> also installs the handler; an error installs nothing.\<close>

definition Setup_cors :: "(string \<Rightarrow> (string, url) result) \<Rightarrow> 'f cors_config \<Rightarrow> ('f cors_config \<Rightarrow> string option) \<Rightarrow> 'f cors_config \<Rightarrow>
    'f cors_config list \<Rightarrow> (cors_error, 'f cors_config) result \<times> 'f cors_config list" where
  "Setup_cors parse dflt lib_validate cfg installed =
     (case New_cors parse dflt lib_validate cfg of
        Inl e \<Rightarrow> (Inl e, installed)
      | Inr c \<Rightarrow> (Inr c, installed @ [c]))"

section \<open>What is installed\<close>

text \<open>
  The library takes a list with \<open>*\<close> as all origins, and compares a plain entry with the header after trimming.
  An entry can match a browser's header, which is a scheme, a host and perhaps a port.
\<close>

definition all_origins :: "'f cors_config \<Rightarrow> bool" where
  "all_origins c \<longleftrightarrow> cc_AllowAllOrigins c \<or> list_ex (\<lambda>x. TrimSpace x = ''*'') (cc_AllowOrigins c)"

definition can_match :: "(string \<Rightarrow> (string, url) result) \<Rightarrow> 'f cors_config \<Rightarrow> string \<Rightarrow> bool" where
  "can_match parse c origin \<longleftrightarrow>
     (let t = TrimSpace origin
      in t = ''*'' \<or> originRegexpForm t \<or>
         (CHR ''*'' \<in> set t \<and> count_char (CHR ''*'') t = 1 \<and> cc_AllowWildcard c) \<or>
         (\<exists>u. parse t = Inr u \<and> u_Scheme u \<noteq> [] \<and> u_Host u \<noteq> [] \<and> u_Path u = [] \<and> u_RawQuery u = [] \<and> u_Fragment u = [] \<and> \<not> u_User u))"

lemma validate_origins_None:
  "validate_origins parse cfg os = None \<longleftrightarrow> list_all (\<lambda>x. validateOrigin parse x cfg = None) os"
  by (induction os) (auto split: option.splits)

lemma validateOrigin_None: "validateOrigin parse o1 cfg = None \<Longrightarrow> can_match parse cfg o1"
proof -
  have "CHR ''*'' \<in> set t \<Longrightarrow> \<not> count_char (CHR ''*'') t > 1 \<Longrightarrow> count_char (CHR ''*'') t = 1" for t
    by (auto simp: count_char_def filter_empty_conv le_Suc_eq not_less)
  moreover assume "validateOrigin parse o1 cfg = None"
  ultimately show "can_match parse cfg o1"
    by (auto simp: validateOrigin_def can_match_def Let_def ContainsRune_def split: if_splits sum.splits)
qed


definition demo_cors :: "bool \<Rightarrow> bool \<Rightarrow> string list \<Rightarrow> nat cors_config" where
  "demo_cors creds every origins = \<lparr>cc_AllowAllOrigins = every, cc_AllowOrigins = origins, cc_AllowMethods = [], cc_AllowHeaders = [], cc_CustomSchemas = [],
     cc_ExposeHeaders = [], cc_AllowOriginFunc = None, cc_MaxAge = 0, cc_AllowCredentials = creds, cc_AllowPrivateNetwork = False,
     cc_AllowWildcard = False, cc_AllowBrowserExtensions = False, cc_AllowWebSockets = False, cc_AllowFiles = False\<rparr>"


section \<open>Observations\<close>

text \<open>A pattern that matches every origin is accepted together with credentials.\<close>

lemma pattern_for_all_origins:
  "New_cors parse dflt (\<lambda>c. None) (demo_cors True False [''/.+/'']) = Inr (buildConfig dflt (demo_cors True False [''/.+/'']))"
proof -
  have t: "TrimSpace ''/.+/'' = ''/.+/''" by (rule TrimSpace_plain) code_simp
  have r: "originRegexpForm ''/.+/''" by code_simp
  show ?thesis
    by (simp add: New_cors_def validate_cors_def demo_cors_def t validateOrigin_def r Let_def)
qed

end
