(* ===== verification/Ratelimit.thy ===== *)
theory Ratelimit
  imports Go_Lib
begin

text \<open>
  The rate limiter of HTTP requests (\<^verbatim>\<open>common/ratelimit\<close>): the checks and defaults of its configuration, the choice of
  the store, and the handler it builds around the limiter of the library. The stores, the limiter and its Gin
  middleware are parameters.
\<close>

section \<open>Configuration\<close>

definition DriverMemory :: string where "DriverMemory = ''memory''"
definition DriverRedis :: string where "DriverRedis = ''redis''"

text \<open>\<open>'r\<close> is a request, \<open>'st\<close> a store, \<open>'cl\<close> a Redis client, \<open>'o\<close> an option of the limiter.\<close>

record ('r, 'st, 'cl, 'o) rl_config =
  rl_Requests :: int
  rl_Window :: int
  rl_Driver :: string
  rl_Prefix :: string
  rl_StatusCode :: int
  rl_Message :: string
  rl_CleanupInterval :: int
  rl_KeyFunc :: "('r \<Rightarrow> string) option"
  rl_Skip :: "('r \<Rightarrow> bool) option"
  rl_Store :: "'st option"
  rl_RedisClient :: "'cl option"
  rl_LimiterOptions :: "'o list"

datatype rl_error = RequestsNotPositive | WindowNotPositive | RedisClientRequired | UnknownDriver string | RedisStoreError string

record store_options =
  so_Prefix :: string
  so_CleanUpInterval :: int

record rate =
  rt_Period :: int
  rt_Limit :: int

text \<open>What the library provides: its defaults, the stores, the limiter and the middleware.\<close>

datatype 'd answer = Next | AbortJSON int 'd

type_synonym error_body = "int \<times> string \<times> string"

record ('r, 'st, 'cl, 'o, 'l) limiter_lib =
  ll_DefaultPrefix :: string
  ll_DefaultCleanUpInterval :: int
  ll_MemoryStore :: "store_options \<Rightarrow> 'st"
  ll_RedisStore :: "'cl \<Rightarrow> store_options \<Rightarrow> (string, 'st) result"
  ll_New :: "'st \<Rightarrow> rate \<Rightarrow> 'o list \<Rightarrow> 'l"
  ll_ClientIP :: "'r \<Rightarrow> string"

definition buildStore :: "('r, 'st, 'cl, 'o, 'l) limiter_lib \<Rightarrow> ('r, 'st, 'cl, 'o) rl_config \<Rightarrow> (rl_error, 'st) result" where
  "buildStore lib cfg =
     (case rl_Store cfg of
        Some st \<Rightarrow> Inr st
      | None \<Rightarrow>
          (let driver = (if rl_Driver cfg = [] then DriverMemory else rl_Driver cfg);
               opts = \<lparr>so_Prefix = (if rl_Prefix cfg = [] then ll_DefaultPrefix lib else rl_Prefix cfg),
                  so_CleanUpInterval = (if rl_CleanupInterval cfg \<le> 0 then ll_DefaultCleanUpInterval lib else rl_CleanupInterval cfg)\<rparr>
           in if driver = DriverMemory then Inr (ll_MemoryStore lib opts)
              else if driver = DriverRedis then
                (case rl_RedisClient cfg of
                   None \<Rightarrow> Inl RedisClientRequired
                 | Some cl \<Rightarrow> (case ll_RedisStore lib cl opts of Inl e \<Rightarrow> Inl (RedisStoreError e) | Inr st \<Rightarrow> Inr st))
              else Inl (UnknownDriver driver)))"

section \<open>The handler\<close>

text \<open>The handlers given to the middleware of the library: status, symbol and detail of the error body.\<close>

definition limitReached :: "('r, 'st, 'cl, 'o) rl_config \<Rightarrow> error_body answer" where
  "limitReached cfg =
     (let statusCode = (if rl_StatusCode cfg = 0 then 429 else rl_StatusCode cfg);
          message = (if rl_Message cfg = [] then ''rate limit exceeded'' else rl_Message cfg)
      in AbortJSON statusCode (statusCode, ''RATE_LIMIT_ERROR'', message))"

definition limitError :: "string \<Rightarrow> error_body answer" where
  "limitError err = AbortJSON 500 (500, ''RATE_LIMIT_ERROR'', err)"

text \<open>
  The library's middleware asks the limiter for the key of the request (the client's address without a function
  for it) and answers by the handlers above. \<open>get\<close> is \<^verbatim>\<open>Limiter.Get\<close>: an error, or whether the limit is reached.
\<close>

definition buildMiddleware ::
  "('r, 'st, 'cl, 'o, 'l) limiter_lib \<Rightarrow> ('l \<Rightarrow> string \<Rightarrow> 's \<Rightarrow> (string, bool) result \<times> 's) \<Rightarrow> 'l \<Rightarrow> ('r, 'st, 'cl, 'o) rl_config \<Rightarrow>
    'r \<Rightarrow> 's \<Rightarrow> error_body answer \<times> 's" where
  "buildMiddleware lib get core cfg =
     (let key = (case rl_KeyFunc cfg of Some f \<Rightarrow> f | None \<Rightarrow> ll_ClientIP lib);
          handler = (\<lambda>c s. case get core (key c) s of
             (Inl e, s') \<Rightarrow> (limitError e, s')
           | (Inr reached, s') \<Rightarrow> (if reached then limitReached cfg else Next, s'))
      in case rl_Skip cfg of
           None \<Rightarrow> handler
         | Some skip \<Rightarrow> (\<lambda>c s. if skip c then (Next, s) else handler c s))"

definition New_ratelimit ::
  "('r, 'st, 'cl, 'o, 'l) limiter_lib \<Rightarrow> ('l \<Rightarrow> string \<Rightarrow> 's \<Rightarrow> (string, bool) result \<times> 's) \<Rightarrow> ('r, 'st, 'cl, 'o) rl_config \<Rightarrow>
    (rl_error, 'l \<times> ('r \<Rightarrow> 's \<Rightarrow> error_body answer \<times> 's)) result" where
  "New_ratelimit lib get cfg =
     (if rl_Requests cfg \<le> 0 then Inl RequestsNotPositive
      else if rl_Window cfg \<le> 0 then Inl WindowNotPositive
      else and_then (buildStore lib cfg) (\<lambda>store.
        (let rt = \<lparr>rt_Period = rl_Window cfg, rt_Limit = rl_Requests cfg\<rparr>;
             core = ll_New lib store rt (rl_LimiterOptions cfg)
         in Inr (core, buildMiddleware lib get core cfg))))"

text \<open>\<^verbatim>\<open>Setup\<close> installs the handler and registers the limiter; an error changes nothing.\<close>

definition Setup_ratelimit ::
  "('r, 'st, 'cl, 'o, 'l) limiter_lib \<Rightarrow> ('l \<Rightarrow> string \<Rightarrow> 's \<Rightarrow> (string, bool) result \<times> 's) \<Rightarrow> ('r, 'st, 'cl, 'o) rl_config \<Rightarrow>
    ('r \<Rightarrow> 's \<Rightarrow> error_body answer \<times> 's) list \<Rightarrow> 'l list \<Rightarrow>
    (rl_error, 'l) result \<times> ('r \<Rightarrow> 's \<Rightarrow> error_body answer \<times> 's) list \<times> 'l list" where
  "Setup_ratelimit lib get cfg installed singletons =
     (case New_ratelimit lib get cfg of
        Inl e \<Rightarrow> (Inl e, installed, singletons)
      | Inr (core, handler) \<Rightarrow> (Inr core, installed @ [handler], singletons @ [core]))"

section \<open>The limit holds\<close>

text \<open>
  A limiter of a fixed window: within the window, the answer to a key is whether its limit was used up by the
  calls before. The calls are the state.
\<close>

definition fixed_window :: "('l \<Rightarrow> rate) \<Rightarrow> ('l \<Rightarrow> string \<Rightarrow> string list \<Rightarrow> (string, bool) result \<times> string list) \<Rightarrow> bool" where
  "fixed_window rate_of get \<longleftrightarrow>
     (\<forall>l k s. get l k s = (Inr (rt_Limit (rate_of l) \<le> int (count_list s k)), s @ [k]))"

fun serve_requests :: "('r \<Rightarrow> 's \<Rightarrow> error_body answer \<times> 's) \<Rightarrow> 'r list \<Rightarrow> 's \<Rightarrow> (('r \<times> error_body answer) list) \<times> 's" where
  "serve_requests h [] s = ([], s)"
| "serve_requests h (r # rs) s =
     (case h r s of (a, s1) \<Rightarrow> (case serve_requests h rs s1 of (as, s2) \<Rightarrow> ((r, a) # as, s2)))"

definition key_of :: "('r, 'st, 'cl, 'o, 'l) limiter_lib \<Rightarrow> ('r, 'st, 'cl, 'o) rl_config \<Rightarrow> 'r \<Rightarrow> string" where
  "key_of lib cfg r = (case rl_KeyFunc cfg of Some f \<Rightarrow> f r | None \<Rightarrow> ll_ClientIP lib r)"

definition limited :: "('r, 'st, 'cl, 'o) rl_config \<Rightarrow> 'r \<Rightarrow> bool" where
  "limited cfg r = (case rl_Skip cfg of None \<Rightarrow> True | Some skip \<Rightarrow> \<not> skip r)"

definition passed :: "('r, 'st, 'cl, 'o, 'l) limiter_lib \<Rightarrow> ('r, 'st, 'cl, 'o) rl_config \<Rightarrow> string \<Rightarrow> ('r \<times> error_body answer) list \<Rightarrow> nat" where
  "passed lib cfg k as = length (filter (\<lambda>(r, a). limited cfg r \<and> key_of lib cfg r = k \<and> a = Next) as)"

definition asked :: "('r, 'st, 'cl, 'o, 'l) limiter_lib \<Rightarrow> ('r, 'st, 'cl, 'o) rl_config \<Rightarrow> string \<Rightarrow> 'r list \<Rightarrow> nat" where
  "asked lib cfg k rs = length (filter (\<lambda>r. limited cfg r \<and> key_of lib cfg r = k) rs)"

lemma handler_eq:
  "buildMiddleware lib get core cfg r s =
     (if limited cfg r
      then (case get core (key_of lib cfg r) s of
          (Inl e, s') \<Rightarrow> (limitError e, s')
        | (Inr reached, s') \<Rightarrow> (if reached then limitReached cfg else Next, s'))
      else (Next, s))"
  by (auto simp: buildMiddleware_def Let_def limited_def key_of_def split: option.splits)

lemma limitReached_not_Next [simp]: "limitReached cfg \<noteq> Next"
  by (simp add: limitReached_def Let_def)

lemma count_list_append [simp]: "count_list (xs @ ys) k = count_list xs k + count_list ys k"
  by (induction xs) auto

lemma passed_exact:
  assumes win: "fixed_window rate_of get" and "serve_requests (buildMiddleware lib get core cfg) rs s = (as, s')"
  shows "int (passed lib cfg k as) = min (int (asked lib cfg k rs)) (max 0 (rt_Limit (rate_of core) - int (count_list s k)))"
  using assms(2)
proof (induction rs arbitrary: s as s')
  case (Cons r rs)
  let ?h = "buildMiddleware lib get core cfg"
  obtain a s1 where a: "?h r s = (a, s1)" by fastforce
  obtain as1 s2 where rest: "serve_requests ?h rs s1 = (as1, s2)" by fastforce
  have as: "as = (r, a) # as1" using Cons.prems a rest by simp
  have ans: "a = (if limited cfg r \<and> rt_Limit (rate_of core) \<le> int (count_list s (key_of lib cfg r)) then limitReached cfg else Next)"
    "s1 = (if limited cfg r then s @ [key_of lib cfg r] else s)"
    using a win by (auto simp: handler_eq fixed_window_def split: if_splits)
  show ?case
    using Cons.IH [OF rest] ans as by (auto simp: passed_def asked_def split: if_splits)
qed (simp add: passed_def asked_def)


definition demo_lib :: "(nat \<times> string, unit, unit, unit, rate) limiter_lib" where
  "demo_lib = \<lparr>ll_DefaultPrefix = ''limiter'', ll_DefaultCleanUpInterval = 30, ll_MemoryStore = (\<lambda>o1. ()), ll_RedisStore = (\<lambda>c o1. Inr ()),
     ll_New = (\<lambda>st rt os. rt), ll_ClientIP = snd\<rparr>"

definition demo_get :: "rate \<Rightarrow> string \<Rightarrow> string list \<Rightarrow> (string, bool) result \<times> string list" where
  "demo_get l k s = (Inr (rt_Limit l \<le> int (count_list s k)), s @ [k])"

definition demo_rl :: "(nat \<times> string, unit, unit, unit) rl_config" where
  "demo_rl = \<lparr>rl_Requests = 2, rl_Window = 60, rl_Driver = [], rl_Prefix = [], rl_StatusCode = 0, rl_Message = [], rl_CleanupInterval = 0,
     rl_KeyFunc = None, rl_Skip = Some (\<lambda>r. fst r = 9), rl_Store = None, rl_RedisClient = None, rl_LimiterOptions = []\<rparr>"


end
