(* ===== verification/Spec2Isabelle.thy ===== *)
theory Spec2Isabelle
  imports
    Router_Conc Modules Middleware Client Memory_Transport
    Tcp_Transport Redis_Transport Nats_Transport Rabbit_Transport Kafka_Transport Grpc_Transport Brokers Grpc_Api
    Cache_Memory Cache_File Sql_Files Sql_Seed Mongo_Sanitize Mongo_Seed
    Response Cors Ratelimit
begin

text \<open>
  Nika is a Go framework for HTTP services and message-driven microservices. An application
  registers modules; a module imports other modules, builds its providers by dependency
  injection and contributes controllers. A controller is a struct whose function fields carry
  tags: \<^verbatim>\<open>route\<close> makes a field an HTTP handler, \<^verbatim>\<open>transport\<close> and \<^verbatim>\<open>pattern\<close> make it a message handler,
  and \<^verbatim>\<open>guard\<close> puts middleware in front of it. The message server gives every transport a router
  from patterns to handlers and dispatches each message as a request on a private Gin engine.

  \<^bold>\<open>The core of the framework\<close> (package \<^verbatim>\<open>nika\<close>).

  \<^item> \<open>Guard\<close>: guard tags, their registry and their resolution (\<^verbatim>\<open>guard.go\<close>, \<^verbatim>\<open>resolveGuards\<close> in
    \<^verbatim>\<open>routes.go\<close>). Parsing inverts writing, and a tag that is not blank never resolves to an
    unguarded chain.
  \<^item> \<open>Http_Routes\<close>: route tags and controller registration (\<^verbatim>\<open>routes.go\<close>). A controller that
    registers has exactly its tagged fields mounted, guards first.
  \<^item> \<open>Container\<close>: injection (\<^verbatim>\<open>container.go\<close>, the provider part of \<^verbatim>\<open>module-loader.go\<close>). Types and
    values are a datatype in place of reflection, the method sets are a parameter \<open>impl\<close>. Well
    typed containers stay well typed.
  \<^item> \<open>Modules\<close>: \<^verbatim>\<open>loadModule\<close> (\<^verbatim>\<open>module-loader.go\<close>) with its memo of exports and its cycle check. The
    recursion has fuel: one more than the number of module types is shown to be enough, whatever
    the imports. Loaded graphs are acyclic, and modules keep their providers private.
  \<^item> \<open>Lifecycle\<close>: configuration defaults, controller observers, start and shutdown hooks and the
    ways of serving (\<^verbatim>\<open>config.go\<close>, \<^verbatim>\<open>app.go\<close>, \<^verbatim>\<open>listen.go\<close>).
  \<^item> \<open>Middleware\<close>: recovery, body limit, request ids, security headers and access log
    (\<^verbatim>\<open>middleware.go\<close>) as functions from what is downstream to a handler; a handler returns or panics.

  \<^bold>\<open>The microservice layer\<close> (\<^verbatim>\<open>common/microservice\<close>).

  \<^item> \<open>Pattern\<close> (\<^verbatim>\<open>pattern.go\<close>): the matcher is proved against an inductive match relation, its
    number of iterations against the product of the lengths, and the specificity order is made
    an instance of \<^verbatim>\<open>linorder\<close> for the lemmas on sorting.
  \<^item> \<open>Router\<close> (\<^verbatim>\<open>router.go\<close>): one record for the router, routes as heap cells. The interface of a
    scan for the best element is the locale \<open>keyed_scan\<close>, interpreted on patterns and on routes.
    \<open>Router_Conc\<close> splits a lookup at its lock operations and interleaves any number of them.
  \<^item> \<open>Envelope\<close>, \<open>Dispatch\<close> (\<^verbatim>\<open>envelope.go\<close>, \<^verbatim>\<open>dispatch.go\<close>): messages, the request a message becomes
    and the reply a response becomes.
  \<^item> \<open>Server\<close> (\<^verbatim>\<open>server.go\<close>): setup, registration, the dispatcher of a transport, supervision of
    listeners, start and stop. Its main theorem composes guards, router, mounting and dispatch:
    every message runs the chain of the most specific field declared for it.
  \<^item> \<open>Client\<close> (\<^verbatim>\<open>client.go\<close>, \<^verbatim>\<open>clients.go\<close>, \<^verbatim>\<open>named.go\<close>): calls, the registry and wrapped transports.
  \<^item> \<open>Memory_Transport\<close> (\<^verbatim>\<open>memory.go\<close>): callers, consumer and \<^verbatim>\<open>Close\<close> as a step relation.

  \<^bold>\<open>Transports\<close> (\<^verbatim>\<open>common/microservice/transport\<close>). The broker, the network and their client libraries are parameters: what a
  call of them answers is an argument of the functions that make it.

  \<^item> \<open>Subscriptions\<close> states as the locale \<open>exactly_once\<close> what the patterns of a server become on a broker, and that messages then arrive
    exactly once; \<open>Redismq\<close> (\<^verbatim>\<open>redismq/pattern.go\<close>), \<open>Natsmq\<close> (\<^verbatim>\<open>natsmq/subject.go\<close>) and \<open>Rabbitmq\<close> (\<^verbatim>\<open>rabbitmq/routing.go\<close>) interpret it.
  \<^item> \<open>Correlation\<close> has the protocol of requests and replies that four transports share, as a step relation over a medium that may lose,
    delay, reorder and repeat messages. The locale \<open>correlating\<close> says what a transport provides; its theorem is that a reply answers the
    request it is returned for and that the map of pending requests does not leak.
  \<^item> \<open>Tcp_Frame\<close> (\<^verbatim>\<open>tcpmq/frame.go\<close>) is the framing of the TCP transport, with the length prefix as a 32-bit word; its reading
    loop is given one more round than there are frames, which suffices to meet the end of the stream. \<open>Tcp_Transport\<close> (\<^verbatim>\<open>tcpmq.go\<close>, \<^verbatim>\<open>client.go\<close>,
    \<^verbatim>\<open>server.go\<close>) has its options, dialling and the loops of the server as functions, and callers, the reader of replies, handlers, lost
    connections and \<^verbatim>\<open>Close\<close> as a step relation that is simulated by the protocol of \<open>Correlation\<close>.
  \<^item> \<open>Redis_Transport\<close>, \<open>Nats_Transport\<close>, \<open>Rabbit_Transport\<close>, \<open>Kafka_Transport\<close> (the other files of these packages): options, connections and
    sessions, publishing, requests, listening, handling and closing. Redis is followed from publication to handler; for RabbitMQ and
    Kafka the life of a message in its queue or partition is a step relation in which channels are lost and members restart at any point, and
    no message is lost. Redis, RabbitMQ and Kafka interpret \<open>correlating\<close>; NATS correlates natively.
  \<^item> \<open>Grpc_Transport\<close> (\<^verbatim>\<open>grpcmq\<close>): options and credentials, the codec, the client, and the unary and the streaming method of the server; replies
    on a stream come in order.
  \<^item> \<open>Brokers\<close> puts the transports together with \<open>Server\<close>.

  \<^bold>\<open>The gRPC API\<close> (\<^verbatim>\<open>common/grpcapi\<close>): typed services over gRPC, without files of definitions. The gRPC runtime and the construction of descriptors
  from a file (\<^verbatim>\<open>protodesc\<close>) are parameters.

  \<^item> \<open>Grpc_Schema\<close> (\<^verbatim>\<open>schema.go\<close>): the messages, fields and numbers that are derived from struct types, with the memo that makes recursive
    types possible. Go types are a datatype and the fields of a struct come from a table. The recursion has fuel, for which one more than the
    number of struct types within reach is shown to be enough.
  \<^item> \<open>Grpc_Value\<close> (\<^verbatim>\<open>value.go\<close>): values to messages and back. What is sent arrives, and no message of a derived type makes decoding panic or
    run on. The fuel of encoding is the nesting of the value; that of decoding is bounded by the nesting of the message and the nesting of
    its structs by value.
  \<^item> \<open>Grpc_Api\<close> (\<^verbatim>\<open>grpcapi.go\<close>, \<^verbatim>\<open>service.go\<close>, \<^verbatim>\<open>client.go\<close>, \<^verbatim>\<open>errors.go\<close>): controllers and methods, the file a server publishes, the handler of a call,
    start and stop, and the typed client, which derives a schema of its own; a call is followed from the client to the handler and back.

  \<^bold>\<open>Stores\<close> (\<^verbatim>\<open>common/cache\<close>, \<^verbatim>\<open>common/sqldb/repository\<close>, \<^verbatim>\<open>common/mongodb/repository\<close>).

  \<^item> \<open>Cache\<close> has the contract of a cache provider (\<^verbatim>\<open>Interface.go\<close>) as an abstract map with deadlines and
    as the locale \<open>provider\<close>: an implementation whose every step answers as the abstract cache does
    gets the theorems on whole runs and on locks taken with \<^verbatim>\<open>SetNX\<close>. \<open>Cache_Memory\<close> (\<^verbatim>\<open>memory.go\<close>) and
    \<open>Cache_File\<close> (\<^verbatim>\<open>file.go\<close>) interpret it, the latter over a model of the directory in which any call may fail;
    the JSON codec and the hash of a key are parameters. Time is an argument of every step.
  \<^item> \<open>Sql_Where\<close> (\<^verbatim>\<open>dialect.go\<close>, \<^verbatim>\<open>identifier.go\<close>, \<^verbatim>\<open>where.go\<close>) and \<open>Sql_Repo\<close> (the builders of the repository)
    produce the text of statements. A scanner gives the text the reading of a database: quoted names,
    placeholders and the characters between; \<open>Sql_Safe\<close> shows that every statement reads as it
    was meant, with its values bound in order, and that writes are filtered.
  \<^item> \<open>Sql_Exec\<close> (\<^verbatim>\<open>create.go\<close>, \<^verbatim>\<open>update.go\<close>, \<^verbatim>\<open>pages.go\<close>, \<^verbatim>\<open>transaction.go\<close>) runs statements on a driver, which is a
    parameter: batches, pages by offset and by key, update and read back, transactions. The walk
    over pages by key is given one more page than there are rows, which suffices because every page
    but the last one has a row.
  \<^item> \<open>Mongo_Sanitize\<close> (\<^verbatim>\<open>sanitize.go\<close>, \<^verbatim>\<open>find.go\<close>, \<^verbatim>\<open>pages.go\<close>): filters as nested documents, the sanitiser as a projection
    onto the clean ones, and the validation of patterns.

  \<^bold>\<open>Migrations and seeds\<close> (\<^verbatim>\<open>common/sqldb\<close>, \<^verbatim>\<open>common/mongodb\<close>). The databases are parameters.

  \<^item> \<open>Sql_Tx\<close> (\<^verbatim>\<open>sqldb.go\<close>, and the transaction shared by migrations and seeds): connecting, the calls of
    \<^verbatim>\<open>database/sql\<close>, and claiming a key and running a body in one transaction. The locale \<open>tx_db\<close> says what is
    relied on: what is durable changes by a commit only.
  \<^item> \<open>Sql_Migration\<close> (\<^verbatim>\<open>migration.go\<close>, \<^verbatim>\<open>lock.go\<close>): the migrator. The locale \<open>migration_table\<close> extends \<open>tx_db\<close> by the
    tracking table and is interpreted on a server with transactions, sessions and advisory locks. What
    is durable after a run, up or down, is what it was with a first part of the pending steps done, each whole.
    \<open>Sql_Files\<close> (\<^verbatim>\<open>fs.go\<close>) loads migrations from a directory; \<open>Sql_Seed\<close> (\<^verbatim>\<open>seed.go\<close>) is the seeder.
  \<^item> \<open>Mongo_Migration\<close>, \<open>Mongo_Seed\<close>: the same over collections, where the unique index is the only
    exclusion and nothing is rolled back; several processes are a step relation over claims.

  \<^bold>\<open>Around HTTP.\<close> \<open>Response\<close> (\<^verbatim>\<open>common/response\<close>): responders as the calls they make on the Gin context; an error
  always stops the chain. \<open>Cors\<close> (\<^verbatim>\<open>common/cors\<close>): validation of origins and the configuration that is installed.
  \<open>Ratelimit\<close> (\<^verbatim>\<open>common/ratelimit\<close>): the handler built around the limiter of a library.

  \<^bold>\<open>Conventions.\<close> \<open>Prelude\<close> and \<open>Go_Lib\<close> have the parts of the Go library in use (strings, maps, stable
  sorting, numbers) and shared lemmas. A Go string is a list of bytes. A Go map is an association list with distinct
  keys; the order of the list stands for the order in which \<^verbatim>\<open>range\<close> visits it, and no theorem
  depends on it. Errors are values of a sum type or an optional error, a panic is an error of the
  function that panics. Code outside the repository is a parameter: the Gin engine, \<^verbatim>\<open>encoding/json\<close>
  and the matching of the brokers, with what is relied on as named hypotheses of the theorems and
  reference instances in the witnesses; the case mapping of characters above ASCII; hooks and
  handlers of the application.

  \<^bold>\<open>Left out.\<close> Logging, console output, wall-clock timing and buffer pools; the reflection service of the gRPC API, the Redis cache,
  opening the connection to MongoDB, validation, configuration loading, Swagger, templates and test helpers.
\<close>

end
